(* ===== verification/Prelude.thy ===== *)
theory Prelude
  imports Main "HOL-Library.Word"
begin

section \<open>Prelude: how a run of the C code ends, and the shared lemma collections\<close>

text \<open>
  Every component is modelled as HOL functions over an explicit state.  This theory holds
  what they share:
  \<^item> \<open>fatal\<close>: the ways a process of this repository stops before a function returns, i.e. the
    fatal error routines of \<^verbatim>\<open>lib/error.c\<close> and \<^verbatim>\<open>lib/errorlog.c\<close>, and undefined behaviour of
    the C language (a read or a write outside an object), which is a value of its own so that
    a model can never hide it;
  \<^item> \<open>'a run\<close>: the result of a run, with \<open>None\<close> for a run that never returns, and its
    sequencing \<open>rbind\<close>, usable below \<open>partial_function (option)\<close>;
  \<^item> generic lemmas on lists, and the collections \<open>run_simps\<close> and \<open>seg_simps\<close>.
\<close>

named_theorems run_simps \<open>evaluation and inversion of runs\<close>
named_theorems seg_simps \<open>reading and writing segments of a byte sequence\<close>

subsection \<open>The fatal error routines\<close>

datatype fatal =
    ErrSys string    \<comment> \<open>\<^verbatim>\<open>err_sys\<close>: message with errno, \<^verbatim>\<open>exit(1)\<close>\<close>
  | ErrDump string   \<comment> \<open>\<^verbatim>\<open>err_dump\<close>: message with errno, \<^verbatim>\<open>abort()\<close>\<close>
  | ErrQuit string   \<comment> \<open>\<^verbatim>\<open>err_quit\<close>: message, \<^verbatim>\<open>exit(1)\<close>\<close>
  | LogSys string    \<comment> \<open>\<^verbatim>\<open>log_sys\<close>: logged with errno, \<^verbatim>\<open>exit(2)\<close>\<close>
  | LogQuit string   \<comment> \<open>\<^verbatim>\<open>log_quit\<close>: logged, \<^verbatim>\<open>exit(2)\<close>\<close>
  | Exit int         \<comment> \<open>a plain \<^verbatim>\<open>exit\<close> in the code itself\<close>
  | Undef string     \<comment> \<open>undefined behaviour: the C standard says nothing about what follows\<close>

subsection \<open>Runs\<close>

type_synonym 'a run = "(fatal + 'a) option"

abbreviation ret :: "'a \<Rightarrow> 'a run" where
  "ret x \<equiv> Some (Inr x)"

abbreviation die :: "fatal \<Rightarrow> 'a run" where
  "die e \<equiv> Some (Inl e)"

definition rbind :: "'a run \<Rightarrow> ('a \<Rightarrow> 'b run) \<Rightarrow> 'b run" where
  "rbind m f = Option.bind m (\<lambda>r. case r of Inl e \<Rightarrow> die e | Inr x \<Rightarrow> f x)"

lemma rbind_simps [simp, run_simps]:
  "rbind None f = None"
  "rbind (die e) f = die e"
  "rbind (ret x) f = f x"
  by (simp_all add: rbind_def)

lemma rbind_eq_ret [run_simps]:
  "rbind m f = ret y \<longleftrightarrow> (\<exists>x. m = ret x \<and> f x = ret y)"
  by (cases m; cases "the m") (auto simp: rbind_def)

lemma rbind_eq_die [run_simps]:
  "rbind m f = die e \<longleftrightarrow> m = die e \<or> (\<exists>x. m = ret x \<and> f x = die e)"
  by (cases m; cases "the m") (auto simp: rbind_def)

lemma rbind_eq_None [run_simps]:
  "rbind m f = None \<longleftrightarrow> m = None \<or> (\<exists>x. m = ret x \<and> f x = None)"
  by (cases m; cases "the m") (auto simp: rbind_def)

lemma rbind_assoc: "rbind (rbind m f) g = rbind m (\<lambda>x. rbind (f x) g)"
  by (cases m; cases "the m") (auto simp: rbind_def)

lemma rbind_cong [fundef_cong]:
  "m = m' \<Longrightarrow> (\<And>x. m' = ret x \<Longrightarrow> f x = f' x) \<Longrightarrow> rbind m f = rbind m' f'"
  by (cases m'; cases "the m'") (auto simp: rbind_def)

lemma rbind_mono [partial_function_mono]:
  assumes "mono_option B" and "\<And>y. mono_option (\<lambda>f. C y f)"
  shows "mono_option (\<lambda>f. rbind (B f) (\<lambda>y. C y f))"
  unfolding rbind_def
proof (rule bind_mono [OF assms(1)])
  fix r
  show "mono_option (\<lambda>f. case r of Inl e \<Rightarrow> die e | Inr x \<Rightarrow> C x f)"
    by (cases r) (simp_all add: assms(2) option.const_mono)
qed

text \<open>A check of the code: \<open>guard ok e\<close> stops the run with \<open>e\<close> where the condition fails.\<close>

definition guard :: "bool \<Rightarrow> fatal \<Rightarrow> unit run" where
  "guard ok e = (if ok then ret () else die e)"

lemma guard_simps [simp, run_simps]:
  "guard True e = ret ()"
  "guard False e = die e"
  by (simp_all add: guard_def)

lemma guard_eq_ret [run_simps]: "guard ok e = ret u \<longleftrightarrow> ok"
  by (simp add: guard_def)

lemma guard_eq_die [run_simps]: "guard ok e = die e' \<longleftrightarrow> \<not> ok \<and> e' = e"
  by (auto simp: guard_def)

lemma guard_neq_None [simp]: "guard ok e \<noteq> None"
  by (simp add: guard_def)

subsection \<open>Lists\<close>

lemma take_eq_length: "take n xs = ys \<Longrightarrow> length ys = n \<Longrightarrow> n \<le> length xs"
  by (metis length_take min.cobounded1)

lemma takeWhile_append_stop:
  "\<forall>x\<in>set xs. P x \<Longrightarrow> \<not> P y \<Longrightarrow> takeWhile P (xs @ y # ys) = xs"
  by (induction xs) auto

lemma dropWhile_append_stop:
  "\<forall>x\<in>set xs. P x \<Longrightarrow> \<not> P y \<Longrightarrow> dropWhile P (xs @ y # ys) = y # ys"
  by (induction xs) auto

lemma replicate_eq_map_const: "map (\<lambda>_. c) xs = replicate (length xs) c"
  by (induction xs) auto

lemma takeWhile_all: "\<forall>x\<in>set xs. P x \<Longrightarrow> takeWhile P xs = xs"
  by (induction xs) auto

lemma find_append: "find P (xs @ ys) = (case find P xs of None \<Rightarrow> find P ys | Some x \<Rightarrow> Some x)"
  by (induction xs) auto

end
