(* ===== verification/CText.thy ===== *)
theory CText
  imports Prelude
begin

section \<open>C strings and decimal text\<close>

text \<open>
  What the repository uses of the C library's strings: NUL-terminated strings as byte lists,
  \<^verbatim>\<open>atol\<close>/\<^verbatim>\<open>atoi\<close>, the \<^verbatim>\<open>%d\<close>/\<^verbatim>\<open>%*d\<close> conversions of \<^verbatim>\<open>sprintf\<close>, and \<^verbatim>\<open>strchr\<close>.
  A character is a byte (\<open>char\<close>), and a byte buffer is a \<open>string\<close> that may hold NULs.
\<close>

subsection \<open>Strings in buffers\<close>

definition nul :: char where "nul = CHR 0x00"
definition newline :: char where "newline = CHR 0x0A"
definition space :: char where "space = CHR '' ''"

text \<open>The C string that starts at the front of a buffer.\<close>

definition cstr :: "string \<Rightarrow> string" where
  "cstr = takeWhile (\<lambda>c. c \<noteq> nul)"

lemma cstr_append_nul [simp]: "nul \<notin> set s \<Longrightarrow> cstr (s @ nul # t) = s"
  unfolding cstr_def by (rule takeWhile_append_stop) auto

lemma cstr_id [simp]: "nul \<notin> set s \<Longrightarrow> cstr s = s"
  unfolding cstr_def by (rule takeWhile_all) auto

lemma nul_notin_cstr [simp]: "nul \<notin> set (cstr s)"
  by (auto simp: cstr_def dest: set_takeWhileD)

text \<open>\<^verbatim>\<open>strchr\<close>: the text before the first \<open>c\<close> and the text behind it.\<close>

definition strchr :: "char \<Rightarrow> string \<Rightarrow> (string \<times> string) option" where
  "strchr c s = (case dropWhile (\<lambda>x. x \<noteq> c) s of [] \<Rightarrow> None
                 | _ # rest \<Rightarrow> Some (takeWhile (\<lambda>x. x \<noteq> c) s, rest))"

lemma strchr_append [simp]: "c \<notin> set s \<Longrightarrow> strchr c (s @ c # t) = Some (s, t)"
proof -
  assume "c \<notin> set s"
  then have "\<forall>x\<in>set s. x \<noteq> c" by auto
  then show ?thesis
    by (simp add: strchr_def dropWhile_append_stop takeWhile_append_stop)
qed

lemma strchr_None [simp]: "strchr c s = None \<longleftrightarrow> c \<notin> set s"
proof -
  have "strchr c s = None \<longleftrightarrow> dropWhile (\<lambda>x. x \<noteq> c) s = []"
    unfolding strchr_def by (split list.split) simp
  then show ?thesis by (auto simp del: dropWhile_eq_Nil_conv simp: dropWhile_eq_Nil_conv [of _ s])
qed

lemma strchr_Some:
  assumes "strchr c s = Some (a, b)"
  shows "s = a @ c # b" and "c \<notin> set a"
proof -
  from assms obtain x where d: "dropWhile (\<lambda>x. x \<noteq> c) s = x # b" and a: "a = takeWhile (\<lambda>x. x \<noteq> c) s"
    by (auto simp: strchr_def split: list.splits)
  from d have "x = c" by (simp add: dropWhile_eq_Cons_conv)
  with d a show "s = a @ c # b" by (metis takeWhile_dropWhile_id)
  from a show "c \<notin> set a" by (auto dest: set_takeWhileD)
qed

subsection \<open>Decimal numbers\<close>

definition digit :: "nat \<Rightarrow> char" where
  "digit d = char_of (48 + d)"

definition is_digit :: "char \<Rightarrow> bool" where
  "is_digit c \<longleftrightarrow> 48 \<le> (of_char c :: nat) \<and> (of_char c :: nat) \<le> 57"

definition digit_val :: "char \<Rightarrow> nat" where
  "digit_val c = of_char c - 48"

lemma digit_props [simp]:
  assumes "d < 10"
  shows "is_digit (digit d)" and "digit_val (digit d) = d"
  using assms by (simp_all add: is_digit_def digit_val_def digit_def)

lemma not_digit [simp]:
  "\<not> is_digit nul" "\<not> is_digit newline" "\<not> is_digit space" "\<not> is_digit CHR '':''"
  "\<not> is_digit CHR ''-''" "\<not> is_digit CHR ''+''"
  by (simp_all add: is_digit_def nul_def newline_def space_def)

lemma space_neq [simp]:
  "space \<noteq> nul" "nul \<noteq> space" "space \<noteq> newline" "newline \<noteq> space" "newline \<noteq> nul" "nul \<noteq> newline"
  "space \<noteq> CHR '':''" "nul \<noteq> CHR '':''" "newline \<noteq> CHR '':''"
  "CHR '':'' \<noteq> space" "CHR '':'' \<noteq> nul" "CHR '':'' \<noteq> newline"
  by (simp_all add: nul_def newline_def space_def)

lemma digit_lits [simp]:
  "digit 0 = CHR ''0''" "digit (Suc 0) = CHR ''1''" "digit 2 = CHR ''2''" "digit 3 = CHR ''3''" "digit 4 = CHR ''4''"
  "digit 5 = CHR ''5''" "digit 6 = CHR ''6''" "digit 7 = CHR ''7''" "digit 8 = CHR ''8''" "digit 9 = CHR ''9''"
  by (simp_all add: digit_def char_of_def bit_0)

text \<open>The \<^verbatim>\<open>%d\<close> conversion of a non-negative number.\<close>

fun dec :: "nat \<Rightarrow> string" where
  "dec n = (if n < 10 then [digit n] else dec (n div 10) @ [digit (n mod 10)])"

declare dec.simps [simp del]

lemma dec_digits: "\<forall>c\<in>set (dec n). is_digit c"
proof (induction n rule: dec.induct)
  case (1 n)
  then show ?case
    by (cases "n < 10") (auto simp: dec.simps [of n])
qed

lemma dec_nonempty [simp]: "dec n \<noteq> []"
  by (subst dec.simps) simp

lemma notin_dec [simp]: "\<not> is_digit c \<Longrightarrow> c \<notin> set (dec n)"
  using dec_digits by blast

lemma length_dec_pos [simp]: "0 < length (dec n)"
  by simp

lemma length_dec_le: "n < 10 ^ w \<Longrightarrow> 0 < w \<Longrightarrow> length (dec n) \<le> w"
proof (induction n arbitrary: w rule: dec.induct)
  case (1 n)
  show ?case
  proof (cases "n < 10")
    case True
    with "1.prems" show ?thesis by (simp add: dec.simps [of n])
  next
    case False
    from "1.prems" obtain v where w: "w = Suc v" by (cases w) auto
    with False "1.prems" have "0 < v" by (cases v) auto
    moreover from "1.prems" w have "n div 10 < 10 ^ v" by (simp add: less_mult_imp_div_less)
    ultimately have "length (dec (n div 10)) \<le> v" using "1.IH" False by simp
    with False w show ?thesis by (simp add: dec.simps [of n])
  qed
qed

text \<open>Right justified in a field of width \<open>w\<close>: the \<^verbatim>\<open>%*d\<close> conversion.\<close>

definition fmtw :: "nat \<Rightarrow> nat \<Rightarrow> string" where
  "fmtw w n = replicate (w - length (dec n)) space @ dec n"

lemma length_fmtw [simp]: "n < 10 ^ w \<Longrightarrow> 0 < w \<Longrightarrow> length (fmtw w n) = w"
  using length_dec_le [of n w] by (simp add: fmtw_def)

subsection \<open>\<^verbatim>\<open>atol\<close> and \<^verbatim>\<open>atoi\<close>\<close>

definition is_space :: "char \<Rightarrow> bool" where
  "is_space c \<longleftrightarrow> c = space \<or> (9 \<le> (of_char c :: nat) \<and> (of_char c :: nat) \<le> 13)"

definition LONG_MAX :: int where "LONG_MAX = 2 ^ 63 - 1"
definition LONG_MIN :: int where "LONG_MIN = - (2 ^ 63)"

definition digits_val :: "string \<Rightarrow> nat" where
  "digits_val s = foldl (\<lambda>a c. 10 * a + digit_val c) 0 (takeWhile is_digit s)"

text \<open>
  \<^verbatim>\<open>atol\<close>: skip white space, take an optional sign and the digits that follow; a value out of
  the range of a 64-bit \<^verbatim>\<open>long\<close> is clamped, as \<^verbatim>\<open>strtol\<close> does.
\<close>

definition atol :: "string \<Rightarrow> int" where
  "atol s = (let t = dropWhile is_space s; v =
     (case t of [] \<Rightarrow> 0
      | c # r \<Rightarrow> if c = CHR ''-'' then - int (digits_val r)
                 else if c = CHR ''+'' then int (digits_val r)
                 else int (digits_val t))
     in max LONG_MIN (min LONG_MAX v))"

text \<open>\<^verbatim>\<open>atoi\<close> is \<^verbatim>\<open>strtol\<close> converted to a 32-bit \<^verbatim>\<open>int\<close>.\<close>

definition atoi :: "string \<Rightarrow> int" where
  "atoi s = sint (word_of_int (atol s) :: 32 word)"

lemma not_space_digit [simp]: "is_digit c \<Longrightarrow> \<not> is_space c"
  by (auto simp: is_digit_def is_space_def space_def)

lemma is_space_space [simp]: "is_space space"
  by (simp add: is_space_def)

lemma digits_val_append_digit:
  "\<forall>c\<in>set s. is_digit c \<Longrightarrow> is_digit d \<Longrightarrow> digits_val (s @ [d]) = 10 * digits_val s + digit_val d"
  by (simp add: digits_val_def takeWhile_all takeWhile_append2)

lemma digits_val_dec: "digits_val (dec n) = n"
proof (induction n rule: dec.induct)
  case (1 n)
  show ?case
  proof (cases "n < 10")
    case True
    then show ?thesis by (simp add: dec.simps [of n] digits_val_def)
  next
    case False
    with "1.IH" have "digits_val (dec (n div 10) @ [digit (n mod 10)]) = 10 * (n div 10) + n mod 10"
      by (subst digits_val_append_digit) (auto simp: dec_digits)
    with False show ?thesis by (simp add: dec.simps [of n])
  qed
qed

text \<open>The \<^verbatim>\<open>%d\<close> conversion of an \<^verbatim>\<open>int\<close>.\<close>

definition show_int :: "int \<Rightarrow> string" where
  "show_int i = (if i < 0 then CHR ''-'' # dec (nat (- i)) else dec (nat i))"

lemma dec_inj [simp]: "dec m = dec n \<longleftrightarrow> m = n"
  by (metis digits_val_dec)

lemma show_int_inj [simp]: "show_int i = show_int j \<longleftrightarrow> i = j"
proof -
  have "CHR ''-'' \<notin> set (dec n)" for n by (rule notin_dec) (simp add: is_digit_def)
  then have "CHR ''-'' # t \<noteq> dec n" "dec n \<noteq> CHR ''-'' # t" for t n by (metis list.set_intros(1))+
  then show ?thesis by (auto simp: show_int_def)
qed

lemma notin_show_int: "\<not> is_digit c \<Longrightarrow> c \<noteq> CHR ''-'' \<Longrightarrow> c \<notin> set (show_int i)"
  by (auto simp: show_int_def)

lemma digits_val_stop: "\<not> is_digit c \<Longrightarrow> \<forall>x\<in>set s. is_digit x \<Longrightarrow> digits_val (s @ c # t) = digits_val s"
  by (simp add: digits_val_def takeWhile_append_stop takeWhile_all)

lemma atol_digits:
  assumes "s \<noteq> []" and "\<forall>c\<in>set (takeWhile is_digit s). True" and "is_digit (hd s)"
  shows "atol (replicate k space @ s) = min LONG_MAX (int (digits_val s))"
proof -
  from assms obtain c r where s: "s = c # r" and c: "is_digit c" by (cases s) auto
  have "dropWhile is_space (replicate k space @ s) = s"
    using s c by (induction k) auto
  moreover from c have "c \<noteq> CHR ''-''" "c \<noteq> CHR ''+''" by auto
  ultimately show ?thesis using s by (simp add: atol_def LONG_MIN_def LONG_MAX_def)
qed

lemma hd_dec_digit [simp]: "is_digit (hd (dec n))"
  using dec_digits hd_in_set [OF dec_nonempty] by blast

lemma atol_fmtw: "int n \<le> LONG_MAX \<Longrightarrow> atol (fmtw w n) = int n"
  unfolding fmtw_def by (subst atol_digits) (simp_all add: digits_val_dec)

lemma atol_dec: "int n \<le> LONG_MAX \<Longrightarrow> atol (dec n) = int n"
  using atol_digits [of "dec n" 0] by (simp add: digits_val_dec)

lemma atol_dec_stop:
  "int n \<le> LONG_MAX \<Longrightarrow> \<not> is_digit c \<Longrightarrow> atol (dec n @ c # t) = int n"
  using atol_digits [of "dec n @ c # t" 0]
  by (simp add: digits_val_stop digits_val_dec dec_digits)

lemma sint_word_of_int_eq_self:
  "- (2 ^ 31) \<le> x \<Longrightarrow> x < 2 ^ 31 \<Longrightarrow> sint (word_of_int x :: 32 word) = x"
  by (simp add: sint_sbintrunc' signed_take_bit_int_eq_self)

lemma atoi_fmtw: "n < 2 ^ 31 \<Longrightarrow> atoi (fmtw w n) = int n"
proof -
  assume n: "n < 2 ^ 31"
  then have "atol (fmtw w n) = int n" by (intro atol_fmtw) (simp add: LONG_MAX_def)
  moreover from n have "int n < 2 ^ 31" by simp
  ultimately show ?thesis
    unfolding atoi_def by (simp only: sint_word_of_int_eq_self)
qed

lemma atoi_dec: "n < 2 ^ 31 \<Longrightarrow> atoi (dec n) = int n"
  using atoi_fmtw [of n 0] by (simp add: fmtw_def)

subsection \<open>\<^verbatim>\<open>fgets\<close>, \<^verbatim>\<open>strtok\<close> and \<^verbatim>\<open>getopt\<close>\<close>

text \<open>One \<^verbatim>\<open>fgets\<close> of at most \<open>n\<close> characters: up to and with the newline.\<close>

definition fgets :: "nat \<Rightarrow> string \<Rightarrow> string \<times> string" where
  "fgets n s = (let l = take n s; k = length (takeWhile (\<lambda>c. c \<noteq> newline) l) in
     if k < length l then (take (Suc k) s, drop (Suc k) s) else (l, drop n s))"

lemma fgets_line:
  assumes "newline \<notin> set l" and "length l < n"
  shows "fgets n (l @ newline # r) = (l @ [newline], r)"
proof -
  have "takeWhile (\<lambda>c. c \<noteq> newline) (take n (l @ newline # r)) = l"
  proof -
    obtain m where m: "n - length l = Suc m" using assms(2) by (metis Suc_diff_Suc)
    have "take n (l @ newline # r) = l @ newline # take m r" using assms(2) m by simp
    then show ?thesis using assms(1) takeWhile_append_stop [of l "\<lambda>c. c \<noteq> newline" newline "take m r"] by fastforce
  qed
  then show ?thesis using assms(2) by (simp add: fgets_def Let_def)
qed

lemma fgets_shorter: "(l, r) = fgets n s \<Longrightarrow> s \<noteq> [] \<Longrightarrow> 0 < n \<Longrightarrow> length r < length s"
  by (cases s) (auto simp: fgets_def Let_def split: if_splits)

text \<open>
  One call of \<^verbatim>\<open>strtok\<close> on the rest \<open>s\<close> of the string: skip delimiters, then the token, whose
  delimiter is consumed with it.
\<close>

definition strtok :: "(char \<Rightarrow> bool) \<Rightarrow> string \<Rightarrow> (string \<times> string) option" where
  "strtok del s = (let t = dropWhile del s in
     if t = [] then None else Some (takeWhile (\<lambda>c. \<not> del c) t, drop 1 (dropWhile (\<lambda>c. \<not> del c) t)))"

text \<open>
  The loop over \<^verbatim>\<open>getopt\<close>: \<open>kind\<close> says whether a letter is no option (0), a flag (1) or takes an
  argument (2).  The first string holds the letters of the current argument that are still to come.
  The result lists what \<^verbatim>\<open>getopt\<close> returns, and the operands.
\<close>

datatype gopt = Opt char "string option" | BadOpt char

fun getopt :: "(char \<Rightarrow> nat) \<Rightarrow> string \<Rightarrow> string list \<Rightarrow> gopt list \<times> string list" where
  "getopt kind [] [] = ([], [])"
| "getopt kind [] (a # as) =
     (if a = ''--'' then ([], as)
      else if length a < 2 \<or> hd a \<noteq> CHR ''-'' then ([], a # as)
      else getopt kind (tl a) as)"
| "getopt kind (c # cs) as =
     (if kind c = 0 then (case getopt kind cs as of (os, r) \<Rightarrow> (BadOpt c # os, r))
      else if kind c = 1 then (case getopt kind cs as of (os, r) \<Rightarrow> (Opt c None # os, r))
      else if cs \<noteq> [] then (case getopt kind [] as of (os, r) \<Rightarrow> (Opt c (Some cs) # os, r))
      else (case as of
              [] \<Rightarrow> ([BadOpt c], [])
            | b # bs \<Rightarrow> (case getopt kind [] bs of (os, r) \<Rightarrow> (Opt c (Some b) # os, r))))"

end
