(* ===== verification/PosixFile.thy ===== *)
theory PosixFile
  imports CText
begin

section \<open>File contents as byte sequences\<close>

text \<open>
  The contents of a regular file are a byte list.  \<open>pread\<close> and \<open>pwrite\<close> are what
  \<^verbatim>\<open>lseek\<close> followed by \<^verbatim>\<open>read\<close>/\<^verbatim>\<open>readv\<close> or \<^verbatim>\<open>write\<close>/\<^verbatim>\<open>writev\<close> do to it: a read returns
  the bytes there are (fewer at the end of the file), a write behind the end of the file
  fills the hole with NUL bytes.  \<open>seg b o s\<close> says that the bytes \<open>s\<close> stand at offset \<open>o\<close>;
  the lemmas say which segments survive which writes.
\<close>

definition pread :: "string \<Rightarrow> nat \<Rightarrow> nat \<Rightarrow> string" where
  "pread b pos n = take n (drop pos b)"

definition pwrite :: "string \<Rightarrow> nat \<Rightarrow> string \<Rightarrow> string" where
  "pwrite b pos s =
     take pos b @ replicate (pos - length b) nul @ s @ drop (pos + length s) b"

definition seg :: "string \<Rightarrow> nat \<Rightarrow> string \<Rightarrow> bool" where
  "seg b pos s \<longleftrightarrow> pos + length s \<le> length b \<and> take (length s) (drop pos b) = s"

lemma length_pread: "length (pread b pos n) = min n (length b - pos)"
  by (simp add: pread_def)

lemma length_pwrite [simp]: "length (pwrite b pos s) = max (length b) (pos + length s)"
  by (auto simp: pwrite_def)

lemma segD: "seg b pos s \<Longrightarrow> pos + length s \<le> length b"
  by (simp add: seg_def)

lemma pread_seg [seg_simps]: "seg b pos s \<Longrightarrow> pread b pos (length s) = s"
  by (simp add: seg_def pread_def)

lemma seg_nth: "seg b pos s \<longleftrightarrow> pos + length s \<le> length b \<and> (\<forall>i<length s. b ! (pos + i) = s ! i)"
proof
  assume s: "seg b pos s"
  then have le: "pos + length s \<le> length b" and eq: "take (length s) (drop pos b) = s"
    by (auto simp: seg_def)
  have "b ! (pos + i) = s ! i" if "i < length s" for i
  proof -
    from that le have "b ! (pos + i) = take (length s) (drop pos b) ! i" by simp
    with eq show ?thesis by simp
  qed
  with le show "pos + length s \<le> length b \<and> (\<forall>i<length s. b ! (pos + i) = s ! i)" by blast
next
  assume "pos + length s \<le> length b \<and> (\<forall>i<length s. b ! (pos + i) = s ! i)"
  then show "seg b pos s"
    unfolding seg_def by (auto intro!: nth_equalityI)
qed

lemma nth_pwrite_in: "i < length s \<Longrightarrow> pwrite b pos s ! (pos + i) = s ! i"
  by (cases "pos \<le> length b") (auto simp: pwrite_def nth_append min_def)

lemma nth_pwrite_out:
  "i < length b \<Longrightarrow> i < pos \<or> pos + length s \<le> i \<Longrightarrow> pwrite b pos s ! i = b ! i"
  by (auto simp: pwrite_def nth_append)

lemma seg_pwrite_same [seg_simps]: "seg (pwrite b pos s) pos s"
  by (auto simp: seg_nth nth_pwrite_in)

lemma seg_pwrite_other:
  assumes "seg b o' s'" and "o' + length s' \<le> pos \<or> pos + length s \<le> o'"
  shows "seg (pwrite b pos s) o' s'"
  using assms by (auto simp: seg_nth nth_pwrite_out)

lemma seg_append:
  "seg b pos (s @ t) \<longleftrightarrow> seg b pos s \<and> seg b (pos + length s) t"
  by (auto simp: seg_nth nth_append add.assoc)
    (metis add_diff_inverse_nat nat_add_left_cancel_less)

lemma seg_pwrite_sub:
  "pos \<le> o' \<Longrightarrow> o' + length t \<le> pos + length s \<Longrightarrow> seg s (o' - pos) t \<Longrightarrow> seg (pwrite b pos s) o' t"
  unfolding seg_nth
proof (intro conjI allI impI; (elim conjE)?)
  fix i
  assume le: "pos \<le> o'" "o' + length t \<le> pos + length s" and i: "i < length t"
    and eq: "\<forall>i<length t. s ! (o' - pos + i) = t ! i"
  then have "pwrite b pos s ! (pos + (o' - pos + i)) = s ! (o' - pos + i)"
    by (intro nth_pwrite_in) simp
  with le i eq show "pwrite b pos s ! (o' + i) = t ! i" by simp
qed simp

text \<open>An overwrite inside the file by the bytes that stand there changes nothing.\<close>

lemma pwrite_seg_id: "seg b pos s \<Longrightarrow> pwrite b pos s = b"
  by (rule nth_equalityI)
    (auto simp: seg_nth nth_pwrite_out max_def,
      metis le_add_diff_inverse nat_add_left_cancel_less nth_pwrite_in nth_pwrite_out not_le)

lemma pwrite_append [seg_simps]: "pwrite b (length b) s = b @ s"
  by (simp add: pwrite_def)

lemma seg_append_file: "seg b pos s \<Longrightarrow> seg (b @ t) pos s"
  by (auto simp: seg_nth nth_append)

end
