(* ===== verification/DbModel.thy ===== *)
theory DbModel
  imports PosixFile
begin

section \<open>The database library \<^verbatim>\<open>db/db.c\<close>: model\<close>

text \<open>
  A database is an index file (free-list pointer, hash table of chain pointers, newline, index
  records) and a data file.  The model keeps both files as byte sequences and every function of
  \<^verbatim>\<open>db.c\<close> works on the bytes, as the C code does: pointers are six ASCII characters, an index
  record is pointer, length, key, data offset and data length separated by \<^verbatim>\<open>:\<close>.

  The record \<open>db\<close> is the C struct \<^verbatim>\<open>DB\<close> with, added, the two files' contents, the file offset of
  \<^verbatim>\<open>idxfd\<close>, the record locks the process holds, \<^verbatim>\<open>errno\<close>, and \<open>sysfail\<close>: which system calls the
  kernel fails (named by the message the code prints and the offset concerned), so that every
  \<^verbatim>\<open>err_dump\<close> branch is a branch of the model.  \<open>idxbuf\<close> and \<open>datbuf\<close> hold the bytes last
  written to the buffers; the stale bytes behind them are never read.  A position handed to
  \<^verbatim>\<open>lseek\<close> is an \<open>int\<close>, because a damaged file can hold a negative one.
\<close>

subsection \<open>Constants and the library's structure\<close>

definition IDXLEN_SZ :: nat where "IDXLEN_SZ = 4"
definition SEP :: char where "SEP = CHR '':''"
definition PTR_SZ :: nat where "PTR_SZ = 6"
definition PTR_MAX :: int where "PTR_MAX = 999999"
definition NHASH_DEF :: nat where "NHASH_DEF = 137"
definition FREE_OFF :: nat where "FREE_OFF = 0"
definition HASH_OFF :: nat where "HASH_OFF = PTR_SZ"
definition IDXLEN_MIN :: nat where "IDXLEN_MIN = 6"
definition IDXLEN_MAX :: nat where "IDXLEN_MAX = 1024"
definition DATLEN_MIN :: nat where "DATLEN_MIN = 2"
definition DATLEN_MAX :: nat where "DATLEN_MAX = 1024"

lemmas db_consts = IDXLEN_SZ_def SEP_def PTR_SZ_def PTR_MAX_def NHASH_DEF_def FREE_OFF_def
  HASH_OFF_def IDXLEN_MIN_def IDXLEN_MAX_def DATLEN_MIN_def DATLEN_MAX_def

datatype dbfd = IdxFd | DatFd
datatype ltype = RdLck | WrLck
datatype whence = SeekSet | SeekEnd
datatype errno = ENone | EINVAL | ENOENT

text \<open>A record lock: descriptor, first byte, number of bytes (0: to the end of the file), type.\<close>

type_synonym flock = "dbfd \<times> nat \<times> nat \<times> ltype"

record db =
  idxfd :: int
  datfd :: int
  name :: string
  idxfile :: string
  datfile :: string
  idxpos :: nat
  idxbuf :: string
  datbuf :: string
  idxoff :: nat
  idxlen :: nat
  datoff :: nat
  datlen :: nat
  ptrval :: int
  ptroff :: nat
  chainoff :: nat
  hashoff :: nat
  nhash :: nat
  cnt_delok :: "64 word"
  cnt_delerr :: "64 word"
  cnt_fetchok :: "64 word"
  cnt_fetcherr :: "64 word"
  cnt_nextrec :: "64 word"
  cnt_stor1 :: "64 word"
  cnt_stor2 :: "64 word"
  cnt_stor3 :: "64 word"
  cnt_stor4 :: "64 word"
  cnt_storerr :: "64 word"
  locks :: "flock list"
  errno :: errno
  sysfail :: "string \<Rightarrow> nat \<Rightarrow> bool"

subsection \<open>System calls\<close>

definition syscall :: "db \<Rightarrow> string \<Rightarrow> nat \<Rightarrow> unit run" where
  "syscall d msg pos = guard (\<not> sysfail d msg pos) (ErrDump msg)"

text \<open>\<^verbatim>\<open>writew_lock\<close>/\<^verbatim>\<open>readw_lock\<close> (\<^verbatim>\<open>fcntl\<close> with \<^verbatim>\<open>F_SETLKW\<close>: waits until granted) and \<^verbatim>\<open>un_lock\<close>.\<close>

definition lockw :: "db \<Rightarrow> dbfd \<Rightarrow> nat \<Rightarrow> nat \<Rightarrow> ltype \<Rightarrow> string \<Rightarrow> db run" where
  "lockw d fd start len ty msg =
     rbind (syscall d msg start) (\<lambda>_. ret (d\<lparr>locks := (fd, start, len, ty) # locks d\<rparr>))"

definition un_lock :: "db \<Rightarrow> dbfd \<Rightarrow> nat \<Rightarrow> nat \<Rightarrow> string \<Rightarrow> db run" where
  "un_lock d fd start len msg =
     rbind (syscall d msg start)
       (\<lambda>_. ret (d\<lparr>locks := filter (\<lambda>(f, s, l, t). (f, s, l) \<noteq> (fd, start, len)) (locks d)\<rparr>))"

definition lseek_idx :: "db \<Rightarrow> int \<Rightarrow> string \<Rightarrow> db run" where
  "lseek_idx d pos msg =
     rbind (guard (0 \<le> pos) (ErrDump msg)) (\<lambda>_.
     rbind (syscall d msg (nat pos)) (\<lambda>_. ret (d\<lparr>idxpos := nat pos\<rparr>)))"

subsection \<open>Reading\<close>

definition db_readptr :: "db \<Rightarrow> int \<Rightarrow> (int \<times> db) run" where
  "db_readptr d offset =
     rbind (lseek_idx d offset ''_db_readptr: lseek error to ptr field'') (\<lambda>d.
     let asciiptr = pread (idxfile d) (idxpos d) PTR_SZ in
     rbind (syscall d ''_db_readptr: read error of ptr field'' (idxpos d)) (\<lambda>_.
     rbind (guard (length asciiptr = PTR_SZ) (ErrDump ''_db_readptr: read error of ptr field''))
       (\<lambda>_. ret (atol asciiptr, d\<lparr>idxpos := idxpos d + PTR_SZ\<rparr>))))"

text \<open>The part of \<^verbatim>\<open>_db_readidx\<close> behind the two header fields: \<open>n\<close> is the record length.\<close>

definition db_readidx_body :: "db \<Rightarrow> int \<Rightarrow> (int \<times> db) run" where
  "db_readidx_body d n =
     rbind (guard (int IDXLEN_MIN \<le> n \<and> n \<le> int IDXLEN_MAX)
       (ErrDump ''_db_readidx: invalid length'')) (\<lambda>_.
     let buf = pread (idxfile d) (idxpos d) (nat n) in
     rbind (syscall d ''_db_readidx: read error of index record'' (idxpos d)) (\<lambda>_.
     rbind (guard (length buf = nat n) (ErrDump ''_db_readidx: read error of index record'')) (\<lambda>_.
     rbind (guard (last buf = newline) (ErrDump ''_db_readidx: missing newline'')) (\<lambda>_.
     case strchr SEP (cstr (butlast buf)) of
       None \<Rightarrow> die (ErrDump ''_db_readidx: missing first separator'')
     | Some (key, ptr1) \<Rightarrow>
       (case strchr SEP ptr1 of
         None \<Rightarrow> die (ErrDump ''_db_readidx: missing second separator'')
       | Some (off, ptr2) \<Rightarrow>
         rbind (guard (SEP \<notin> set ptr2) (ErrDump ''_db_readidx: too many separators'')) (\<lambda>_.
         rbind (guard (0 \<le> atol off) (ErrDump ''_db_readidx: starting offset < 0'')) (\<lambda>_.
         rbind (guard (0 < atol ptr2 \<and> atol ptr2 \<le> int DATLEN_MAX)
           (ErrDump ''_db_readidx: invalid length'')) (\<lambda>_.
         ret (ptrval d,
           d\<lparr>idxlen := nat n, idxpos := idxpos d + nat n,
             idxbuf := key @ nul # off @ nul # ptr2 @ [nul],
             datoff := nat (atol off), datlen := nat (atol ptr2)\<rparr>)))))))))"

text \<open>Offset 0 means: the record at the current position; -1 is the end of the file.\<close>

definition db_readidx :: "db \<Rightarrow> int \<Rightarrow> (int \<times> db) run" where
  "db_readidx d offset =
     rbind (if offset = 0 then rbind (syscall d ''_db_readidx: lseek error'' (idxpos d)) (\<lambda>_. ret d)
            else lseek_idx d offset ''_db_readidx: lseek error'') (\<lambda>d.
     let d = d\<lparr>idxoff := idxpos d\<rparr>;
         hdr = pread (idxfile d) (idxpos d) (PTR_SZ + IDXLEN_SZ) in
     rbind (syscall d ''_db_readidx: readv error of index record'' (idxpos d)) (\<lambda>_.
     if length hdr \<noteq> PTR_SZ + IDXLEN_SZ then
       (if length hdr = 0 \<and> offset = 0 then ret (- 1, d)
        else die (ErrDump ''_db_readidx: readv error of index record''))
     else
       db_readidx_body
         (d\<lparr>idxpos := idxpos d + (PTR_SZ + IDXLEN_SZ), ptrval := atol (take PTR_SZ hdr)\<rparr>)
         (atoi (drop PTR_SZ hdr))))"

definition db_readdat :: "db \<Rightarrow> (string \<times> db) run" where
  "db_readdat d =
     rbind (syscall d ''_db_readdat: lseek error'' (datoff d)) (\<lambda>_.
     let buf = pread (datfile d) (datoff d) (datlen d) in
     rbind (syscall d ''_db_readdat: read error'' (datoff d)) (\<lambda>_.
     rbind (guard (length buf = datlen d) (ErrDump ''_db_readdat: read error'')) (\<lambda>_.
     rbind (guard (0 < datlen d) (Undef ''datbuf[-1]'')) (\<lambda>_.
     rbind (guard (last buf = newline) (ErrDump ''_db_readdat: missing newline'')) (\<lambda>_.
     let buf = butlast buf @ [nul] in
     ret (cstr buf, d\<lparr>datbuf := buf\<rparr>))))))"

text \<open>The hash: signed characters times their 1-based index, summed in an \<^verbatim>\<open>unsigned long\<close>.\<close>

definition schar :: "char \<Rightarrow> int" where
  "schar c = (let n = of_char c in if n < (128 :: int) then n else n - 256)"

fun hash_loop :: "64 word \<Rightarrow> int \<Rightarrow> string \<Rightarrow> 64 word" where
  "hash_loop hval i [] = hval"
| "hash_loop hval i (c # key) = hash_loop (hval + word_of_int (schar c * i)) (i + 1) key"

definition db_hash :: "db \<Rightarrow> string \<Rightarrow> nat" where
  "db_hash d key = unat (hash_loop 0 1 key) mod nhash d"

subsection \<open>Searching\<close>

partial_function (option) find_walk :: "string \<Rightarrow> int \<Rightarrow> db \<Rightarrow> (int \<times> db) run" where
  "find_walk key offset d =
     (if offset = 0 then ret (0, d)
      else rbind (db_readidx d offset) (\<lambda>r.
        if cstr (idxbuf (snd r)) = key then ret (offset, snd r)
        else find_walk key (fst r) (snd r\<lparr>ptroff := nat offset\<rparr>)))"

definition db_find_and_lock :: "db \<Rightarrow> string \<Rightarrow> bool \<Rightarrow> (int \<times> db) run" where
  "db_find_and_lock d key writelock =
     (let co = db_hash d key * PTR_SZ + hashoff d; d = d\<lparr>chainoff := co, ptroff := co\<rparr> in
      rbind (if writelock then lockw d IdxFd co 1 WrLck ''_db_find_and_lock: writew_lock error''
             else lockw d IdxFd co 1 RdLck ''_db_find_and_lock: readw_lock error'') (\<lambda>d.
      rbind (db_readptr d (int (ptroff d))) (\<lambda>(offset, d).
      rbind (find_walk key offset d) (\<lambda>(offset, d).
      ret (if offset = 0 then - 1 else 0, d)))))"

definition db_fetch :: "db \<Rightarrow> string \<Rightarrow> (string option \<times> db) run" where
  "db_fetch d key =
     rbind (db_find_and_lock d key False) (\<lambda>(rc, d).
     rbind (if rc < 0 then ret (None, d\<lparr>cnt_fetcherr := cnt_fetcherr d + 1\<rparr>)
            else rbind (db_readdat d) (\<lambda>(dat, d).
              ret (Some dat, d\<lparr>cnt_fetchok := cnt_fetchok d + 1\<rparr>))) (\<lambda>(ptr, d).
     rbind (un_lock d IdxFd (chainoff d) 1 ''db_fetch: un_lock error'') (\<lambda>d. ret (ptr, d))))"

subsection \<open>Writing\<close>

definition db_writedat :: "db \<Rightarrow> string \<Rightarrow> nat \<Rightarrow> whence \<Rightarrow> db run" where
  "db_writedat d data offset wh =
     rbind (if wh = SeekEnd then lockw d DatFd 0 0 WrLck ''_db_writedat: writew_lock error''
            else ret d) (\<lambda>d.
     rbind (syscall d ''_db_writedat: lseek error'' offset) (\<lambda>_.
     let d = d\<lparr>datoff := (if wh = SeekEnd then length (datfile d) + offset else offset),
               datlen := length data + 1\<rparr> in
     rbind (syscall d ''_db_writedat: writev error of data record'' (datoff d)) (\<lambda>_.
     let d = d\<lparr>datfile := pwrite (datfile d) (datoff d) (data @ [newline])\<rparr> in
     if wh = SeekEnd then un_lock d DatFd 0 0 ''_db_writedat: un_lock error'' else ret d)))"

text \<open>The text of an index record behind its header, and the whole record.\<close>

definition idx_text :: "string \<Rightarrow> nat \<Rightarrow> nat \<Rightarrow> string" where
  "idx_text key doff dlen = key @ SEP # dec doff @ SEP # dec dlen @ [newline]"

definition db_writeidx :: "db \<Rightarrow> string \<Rightarrow> nat \<Rightarrow> whence \<Rightarrow> int \<Rightarrow> db run" where
  "db_writeidx d key offset wh pv =
     (let d = d\<lparr>ptrval := pv\<rparr> in
      rbind (guard (0 \<le> pv \<and> pv \<le> PTR_MAX) (ErrQuit ''_db_writeidx: invalid ptr: %d'')) (\<lambda>_.
      let txt = idx_text key (datoff d) (datlen d); len = length txt in
      rbind (guard (len + 1 \<le> IDXLEN_MAX + 2) (Undef ''sprintf past the end of idxbuf'')) (\<lambda>_.
      let d = d\<lparr>idxbuf := txt @ [nul]\<rparr> in
      rbind (guard (IDXLEN_MIN \<le> len \<and> len \<le> IDXLEN_MAX)
        (ErrDump ''_db_writeidx: invalid length'')) (\<lambda>_.
      let asciiptrlen = fmtw PTR_SZ (nat pv) @ fmtw IDXLEN_SZ len;
          lockoff = (nhash d + 1) * PTR_SZ + 1 in
      rbind (if wh = SeekEnd then lockw d IdxFd lockoff 0 WrLck ''_db_writeidx: writew_lock error''
             else ret d) (\<lambda>d.
      rbind (syscall d ''_db_writeidx: lseek error'' offset) (\<lambda>_.
      let d = d\<lparr>idxoff := (if wh = SeekEnd then length (idxfile d) + offset else offset)\<rparr> in
      rbind (syscall d ''_db_writeidx: writev error of index record'' (idxoff d)) (\<lambda>_.
      let d = d\<lparr>idxfile := pwrite (idxfile d) (idxoff d) (asciiptrlen @ txt),
                idxpos := idxoff d + (PTR_SZ + IDXLEN_SZ + len)\<rparr> in
      if wh = SeekEnd then un_lock d IdxFd lockoff 0 ''_db_writeidx: un_lock error''
      else ret d)))))))"

definition db_writeptr :: "db \<Rightarrow> nat \<Rightarrow> int \<Rightarrow> db run" where
  "db_writeptr d offset pv =
     rbind (guard (0 \<le> pv \<and> pv \<le> PTR_MAX) (ErrQuit ''_db_writeptr: invalid ptr: %d'')) (\<lambda>_.
     rbind (lseek_idx d (int offset) ''_db_writeptr: lseek error to ptr field'') (\<lambda>d.
     rbind (syscall d ''_db_writeptr: write error of ptr field'' offset) (\<lambda>_.
     ret (d\<lparr>idxfile := pwrite (idxfile d) offset (fmtw PTR_SZ (nat pv)),
            idxpos := offset + PTR_SZ\<rparr>))))"

subsection \<open>Deleting\<close>

definition db_dodelete :: "db \<Rightarrow> db run" where
  "db_dodelete d =
     (let blanks = replicate (datlen d - 1) space;
          key = replicate (length (cstr (idxbuf d))) space;
          d = d\<lparr>datbuf := blanks @ [nul],
                idxbuf := key @ drop (length key) (idxbuf d)\<rparr> in
      rbind (lockw d IdxFd FREE_OFF 1 WrLck ''_db_dodelete: writew_lock error'') (\<lambda>d.
      rbind (db_writedat d blanks (datoff d) SeekSet) (\<lambda>d.
      rbind (db_readptr d (int FREE_OFF)) (\<lambda>(freeptr, d).
      let saveptr = ptrval d in
      rbind (db_writeidx d key (idxoff d) SeekSet freeptr) (\<lambda>d.
      rbind (db_writeptr d FREE_OFF (int (idxoff d))) (\<lambda>d.
      rbind (db_writeptr d (ptroff d) saveptr) (\<lambda>d.
      un_lock d IdxFd FREE_OFF 1 ''_db_dodelete: un_lock error'')))))))"

definition db_delete :: "db \<Rightarrow> string \<Rightarrow> (int \<times> db) run" where
  "db_delete d key =
     rbind (db_find_and_lock d key True) (\<lambda>(rc, d).
     rbind (if rc = 0 then rbind (db_dodelete d) (\<lambda>d. ret (0, d\<lparr>cnt_delok := cnt_delok d + 1\<rparr>))
            else ret (- 1, d\<lparr>cnt_delerr := cnt_delerr d + 1\<rparr>)) (\<lambda>(rc, d).
     rbind (un_lock d IdxFd (chainoff d) 1 ''db_delete: un_lock error'') (\<lambda>d. ret (rc, d))))"

subsection \<open>Storing\<close>

partial_function (option) free_walk ::
    "nat \<Rightarrow> nat \<Rightarrow> nat \<Rightarrow> int \<Rightarrow> db \<Rightarrow> (nat \<times> int \<times> db) run" where
  "free_walk keylen dlen saveoffset offset d =
     (if offset = 0 then ret (saveoffset, 0, d)
      else rbind (db_readidx d offset) (\<lambda>r.
        if length (cstr (idxbuf (snd r))) = keylen \<and> datlen (snd r) = dlen
        then ret (saveoffset, offset, snd r)
        else free_walk keylen dlen (nat offset) (fst r) (snd r)))"

definition db_findfree :: "db \<Rightarrow> nat \<Rightarrow> nat \<Rightarrow> (int \<times> db) run" where
  "db_findfree d keylen dlen =
     rbind (lockw d IdxFd FREE_OFF 1 WrLck ''_db_findfree: writew_lock error'') (\<lambda>d.
     rbind (db_readptr d (int FREE_OFF)) (\<lambda>(offset, d).
     rbind (free_walk keylen dlen FREE_OFF offset d) (\<lambda>(saveoffset, offset, d).
     rbind (if offset = 0 then ret (- 1, d)
            else rbind (db_writeptr d saveoffset (ptrval d)) (\<lambda>d. ret (0, d))) (\<lambda>(rc, d).
     rbind (un_lock d IdxFd FREE_OFF 1 ''_db_findfree: un_lock error'') (\<lambda>d. ret (rc, d))))))"

datatype dbflag = DB_INSERT | DB_REPLACE | DB_STORE | DB_BADFLAG int

text \<open>Appending a new record and putting it at the front of its hash chain.\<close>

definition store_append :: "db \<Rightarrow> string \<Rightarrow> string \<Rightarrow> int \<Rightarrow> db run" where
  "store_append d key data pv =
     rbind (db_writedat d data 0 SeekEnd) (\<lambda>d.
     rbind (db_writeidx d key 0 SeekEnd pv) (\<lambda>d.
     db_writeptr d (chainoff d) (int (idxoff d))))"

definition store_reuse :: "db \<Rightarrow> string \<Rightarrow> string \<Rightarrow> int \<Rightarrow> db run" where
  "store_reuse d key data pv =
     rbind (db_writedat d data (datoff d) SeekSet) (\<lambda>d.
     rbind (db_writeidx d key (idxoff d) SeekSet pv) (\<lambda>d.
     db_writeptr d (chainoff d) (int (idxoff d))))"

definition store_new :: "db \<Rightarrow> string \<Rightarrow> string \<Rightarrow> db run" where
  "store_new d key data =
     rbind (db_readptr d (int (chainoff d))) (\<lambda>(pv, d).
     rbind (db_findfree d (length key) (length data + 1)) (\<lambda>(rc, d).
     if rc < 0 then rbind (store_append d key data pv)
                      (\<lambda>d. ret (d\<lparr>cnt_stor1 := cnt_stor1 d + 1\<rparr>))
     else rbind (store_reuse d key data pv) (\<lambda>d. ret (d\<lparr>cnt_stor2 := cnt_stor2 d + 1\<rparr>))))"

definition store_found :: "db \<Rightarrow> string \<Rightarrow> string \<Rightarrow> db run" where
  "store_found d key data =
     (if length data + 1 \<noteq> datlen d then
        rbind (db_dodelete d) (\<lambda>d.
        rbind (db_readptr d (int (chainoff d))) (\<lambda>(pv, d).
        rbind (store_append d key data pv) (\<lambda>d. ret (d\<lparr>cnt_stor3 := cnt_stor3 d + 1\<rparr>))))
      else rbind (db_writedat d data (datoff d) SeekSet)
             (\<lambda>d. ret (d\<lparr>cnt_stor4 := cnt_stor4 d + 1\<rparr>)))"

definition db_store :: "db \<Rightarrow> string \<Rightarrow> string \<Rightarrow> dbflag \<Rightarrow> (int \<times> db) run" where
  "db_store d key data flag =
     (if flag \<noteq> DB_INSERT \<and> flag \<noteq> DB_REPLACE \<and> flag \<noteq> DB_STORE then ret (- 1, d\<lparr>errno := EINVAL\<rparr>)
      else let dlen = length data + 1 in
      rbind (guard (DATLEN_MIN \<le> dlen \<and> dlen \<le> DATLEN_MAX)
        (ErrDump ''db_store: invalid data length'')) (\<lambda>_.
      rbind (db_find_and_lock d key True) (\<lambda>(rc, d).
      rbind (if rc < 0 then
               (if flag = DB_REPLACE then
                  ret (- 1, d\<lparr>cnt_storerr := cnt_storerr d + 1, errno := ENOENT\<rparr>)
                else rbind (store_new d key data) (\<lambda>d. ret (0, d)))
             else
               (if flag = DB_INSERT then ret (1, d\<lparr>cnt_storerr := cnt_storerr d + 1\<rparr>)
                else rbind (store_found d key data) (\<lambda>d. ret (0, d)))) (\<lambda>(rc, d).
      rbind (un_lock d IdxFd (chainoff d) 1 ''db_store: un_lock error'') (\<lambda>d. ret (rc, d))))))"

subsection \<open>Sequential reading\<close>

definition db_rewind :: "db \<Rightarrow> db run" where
  "db_rewind d =
     (let offset = (nhash d + 1) * PTR_SZ in
      rbind (lseek_idx d (int (offset + 1)) ''db_rewind: lseek error'')
        (\<lambda>d. ret (d\<lparr>idxoff := idxpos d\<rparr>)))"

text \<open>The \<^verbatim>\<open>do\<close> loop of \<^verbatim>\<open>db_nextrec\<close>: skip records whose key is all blanks.\<close>

partial_function (option) nextrec_walk :: "db \<Rightarrow> (bool \<times> db) run" where
  "nextrec_walk d =
     rbind (db_readidx d 0) (\<lambda>r.
       if fst r < 0 then ret (False, snd r)
       else if \<forall>c\<in>set (cstr (idxbuf (snd r))). c = space then nextrec_walk (snd r)
       else ret (True, snd r))"

definition db_nextrec :: "db \<Rightarrow> ((string \<times> string) option \<times> db) run" where
  "db_nextrec d =
     rbind (lockw d IdxFd FREE_OFF 1 RdLck ''db_nextrec: readw_lock error'') (\<lambda>d.
     rbind (nextrec_walk d) (\<lambda>(found, d).
     rbind (if \<not> found then ret (None, d)
            else rbind (db_readdat d) (\<lambda>(dat, d).
              ret (Some (cstr (idxbuf d), dat), d\<lparr>cnt_nextrec := cnt_nextrec d + 1\<rparr>))) (\<lambda>(res, d).
     rbind (un_lock d IdxFd FREE_OFF 1 ''db_nextrec: un_lock error'') (\<lambda>d. ret (res, d)))))"

subsection \<open>Opening and closing\<close>

definition db_alloc :: "string \<Rightarrow> (string \<Rightarrow> nat \<Rightarrow> bool) \<Rightarrow> db run" where
  "db_alloc path sf =
     (if sf ''_db_alloc: calloc error for DB'' 0 then die (ErrDump ''_db_alloc: calloc error for DB'')
      else if sf ''_db_alloc: malloc error for name'' 0 then die (ErrDump ''_db_alloc: malloc error for name'')
      else if sf ''_db_alloc: malloc error for index buffer'' 0
        then die (ErrDump ''_db_alloc: malloc error for index buffer'')
      else if sf ''_db_alloc: malloc error for data buffer'' 0
        then die (ErrDump ''_db_alloc: malloc error for data buffer'')
      else ret \<lparr>idxfd = - 1, datfd = - 1, name = path, idxfile = [], datfile = [], idxpos = 0,
        idxbuf = [], datbuf = [], idxoff = 0, idxlen = 0, datoff = 0, datlen = 0, ptrval = 0,
        ptroff = 0, chainoff = 0, hashoff = 0, nhash = 0, cnt_delok = 0, cnt_delerr = 0,
        cnt_fetchok = 0, cnt_fetcherr = 0, cnt_nextrec = 0, cnt_stor1 = 0, cnt_stor2 = 0,
        cnt_stor3 = 0, cnt_stor4 = 0, cnt_storerr = 0, locks = [], errno = ENone, sysfail = sf\<rparr>)"

text \<open>
  \<^verbatim>\<open>open(2)\<close> on the file system \<open>fs\<close> (names to contents): \<open>deny\<close> names the files the kernel
  refuses; a missing file is created with \<^verbatim>\<open>O_CREAT\<close>, an existing one is cut with \<^verbatim>\<open>O_TRUNC\<close>.
\<close>

type_synonym filesys = "string \<Rightarrow> string option"

definition sys_open :: "filesys \<Rightarrow> (string \<Rightarrow> bool) \<Rightarrow> string \<Rightarrow> bool \<Rightarrow> bool \<Rightarrow> string option" where
  "sys_open fs deny nm creat trunc =
     (if deny nm then None
      else case fs nm of
        None \<Rightarrow> if creat then Some [] else None
      | Some b \<Rightarrow> Some (if trunc then [] else b))"

text \<open>The initial index file: the free-list pointer and the hash table, all 0, and a newline.\<close>

definition init_hash :: string where
  "init_hash = concat (replicate (NHASH_DEF + 1) (fmtw PTR_SZ 0)) @ [newline]"

text \<open>\<^verbatim>\<open>_db_free\<close>: the descriptors closed, the buffers freed, the process's locks gone with them.\<close>

definition db_free :: "db \<Rightarrow> db" where
  "db_free d = d\<lparr>idxfd := - 1, datfd := - 1, idxbuf := [], datbuf := [], name := [], locks := []\<rparr>"

definition db_close :: "db \<Rightarrow> db" where
  "db_close d = db_free d"

definition db_open ::
    "filesys \<Rightarrow> (string \<Rightarrow> bool) \<Rightarrow> (string \<Rightarrow> nat \<Rightarrow> bool) \<Rightarrow> string \<Rightarrow> bool \<Rightarrow> bool \<Rightarrow> db option run" where
  "db_open fs deny sf path creat trunc =
     rbind (db_alloc path sf) (\<lambda>d.
     let d = d\<lparr>nhash := NHASH_DEF, hashoff := HASH_OFF, name := path @ ''.dat''\<rparr>;
         fi = sys_open fs deny (path @ ''.idx'') creat trunc;
         fdat = sys_open fs deny (path @ ''.dat'') creat trunc in
     case (fi, fdat) of
       (Some bi, Some bd) \<Rightarrow>
         (let d = d\<lparr>idxfd := 3, datfd := 4, idxfile := bi, datfile := bd\<rparr> in
          rbind (if creat \<and> trunc then
                   rbind (lockw d IdxFd 0 0 WrLck ''db_open: writew_lock error'') (\<lambda>d.
                   rbind (guard (\<not> sysfail d ''db_open: fstat error'' 0)
                     (ErrSys ''db_open: fstat error'')) (\<lambda>_.
                   rbind (if length (idxfile d) = 0 then
                            rbind (syscall d ''db_open: index file init write error'' 0)
                              (\<lambda>_. ret (d\<lparr>idxfile := pwrite (idxfile d) 0 init_hash,
                                          idxpos := length init_hash\<rparr>))
                          else ret d) (\<lambda>d.
                   un_lock d IdxFd 0 0 ''db_open: un_lock error'')))
                 else ret d) (\<lambda>d.
          rbind (db_rewind d) (\<lambda>d. ret (Some d))))
     | _ \<Rightarrow> ret None)"

end
