(* ===== verification/Chain.thy ===== *)
theory Chain
  imports Prelude
begin

section \<open>Singly linked chains of cells\<close>

text \<open>
  Several components keep singly linked chains in a mutable store: the hash chains and the free
  list in the index file of \<^verbatim>\<open>db/db.c\<close>, and the hash chains of \<^verbatim>\<open>threads/mutex2.c\<close>.  A cell holds
  the address of the next one, a head is a cell like any other.  \<open>path nx null c os\<close> says that
  the chain starting in cell \<open>c\<close> runs through exactly the cells \<open>os\<close> and ends in \<open>null\<close>.  The
  locale \<open>cell_store\<close> is the interface to the store (read a cell, write a cell); the two
  updates all the code performs, pushing a cell at the front and unlinking one behind its
  predecessor, are proved for every such store.
\<close>

primrec path :: "('a \<Rightarrow> 'a) \<Rightarrow> 'a \<Rightarrow> 'a \<Rightarrow> 'a list \<Rightarrow> bool" where
  "path nx null c [] \<longleftrightarrow> nx c = null"
| "path nx null c (x # os) \<longleftrightarrow> nx c = x \<and> x \<noteq> null \<and> path nx null x os"

lemma path_null: "path nx null c os \<Longrightarrow> null \<notin> set os"
  by (induction os arbitrary: c) auto

lemma path_cong:
  "(\<And>x. x = c \<or> x \<in> set os \<Longrightarrow> nx x = nx' x) \<Longrightarrow> path nx null c os \<longleftrightarrow> path nx' null c os"
  by (induction os arbitrary: c) auto

lemma path_split: "path nx null c (xs @ x # ys) \<Longrightarrow> nx (last (c # xs)) = x \<and> x \<noteq> null \<and> path nx null x ys"
  by (induction xs arbitrary: c) auto

lemma path_last: "path nx null c os \<Longrightarrow> nx (last (c # os)) = null"
  by (induction os arbitrary: c) auto

lemma path_functional: "path nx null c os \<Longrightarrow> path nx null c os' \<Longrightarrow> os = os'"
proof (induction os arbitrary: c os')
  case Nil
  then show ?case by (cases os') auto
next
  case (Cons x os)
  then show ?case by (cases os') auto
qed

lemma path_unlink:
  assumes "path nx null c (xs @ x # ys)" and "distinct (c # xs @ x # ys)"
  shows "path (nx(last (c # xs) := nx x)) null c (xs @ ys)"
  using assms
proof (induction xs arbitrary: c)
  case Nil
  then have "path nx null x ys" by simp
  then show ?case
  proof (cases ys)
    case Nil
    with \<open>path nx null x ys\<close> show ?thesis by simp
  next
    case (Cons y zs)
    with \<open>path nx null x ys\<close> Nil.prems have "path (nx(c := y)) null y zs"
      by (subst path_cong [where nx' = nx]) auto
    with Cons \<open>path nx null x ys\<close> show ?thesis by (simp add: fun_upd_def)
  qed
next
  case (Cons z xs)
  then have "path (nx(last (z # xs) := nx x)) null z (xs @ ys)" by (intro Cons.IH) auto
  moreover from Cons.prems have "nx c = z" "z \<noteq> null" "c \<noteq> last (z # xs)" by auto
  ultimately show ?case by (auto simp: fun_upd_def)
qed

lemma path_push:
  assumes "path nx null c os" and "x \<noteq> null" and "x \<notin> set os" and "c \<notin> set os" and "x \<noteq> c"
    and "nx' x = nx c" and "nx' c = x" and "\<And>y. y \<noteq> x \<Longrightarrow> y \<noteq> c \<Longrightarrow> nx' y = nx y"
  shows "path nx' null c (x # os)"
proof (cases os)
  case Nil
  with assms show ?thesis by auto
next
  case (Cons y zs)
  with assms have "path nx null y zs" "nx' x = y" "y \<noteq> null" by auto
  moreover have "nx z = nx' z" if "z = y \<or> z \<in> set zs" for z
    using assms(3,4,8) Cons that by fastforce
  then have "path nx' null y zs \<longleftrightarrow> path nx null y zs"
    by (rule path_cong [symmetric])
  ultimately show ?thesis using assms Cons by auto
qed

locale cell_store =
  fixes get :: "'s \<Rightarrow> 'a \<Rightarrow> 'a"
    and put :: "'s \<Rightarrow> 'a \<Rightarrow> 'a \<Rightarrow> 's"
    and null :: 'a
  assumes get_put: "get (put s c v) c' = (if c' = c then v else get s c')"
begin

lemma get_put_fun: "get (put s c v) = (get s)(c := v)"
  by (rule ext) (simp add: get_put)

lemma frame:
  "c \<noteq> c0 \<Longrightarrow> c \<notin> set os \<Longrightarrow> path (get (put s c v)) null c0 os \<longleftrightarrow> path (get s) null c0 os"
  by (intro path_cong) (auto simp: get_put)

lemma unlink:
  assumes "path (get s) null c (xs @ x # ys)" and "distinct (c # xs @ x # ys)"
  shows "path (get (put s (last (c # xs)) (get s x))) null c (xs @ ys)"
  using path_unlink [OF assms] by (simp only: get_put_fun)

lemma push:
  assumes "path (get s) null c os" and "x \<noteq> null" and "x \<notin> set os" and "c \<notin> set os" and "x \<noteq> c"
  shows "path (get (put (put s x (get s c)) c x)) null c (x # os)"
  by (rule path_push [OF assms]) (use assms in \<open>auto simp: get_put\<close>)

end

end
