(* ===== verification/DbIndex.thy ===== *)
theory DbIndex
  imports DbModel Chain
begin

section \<open>The database files: abstract index and representation\<close>

text \<open>
  An abstract index \<open>aidx\<close> gives every pointer cell of the index file its value (cell 0 is the
  free-list head, cells 6, 12, \<dots>, 822 are the hash chain heads, a record's cell is its offset) and
  every record its key, data offset and data.  \<open>idxrep\<close> and \<open>datrep\<close> say that the bytes of the
  two files represent it.  The lemmas say what the reading functions of \<^verbatim>\<open>db.c\<close> return on
  represented files and what each write does to the abstract index; with them the byte level is
  left behind.
\<close>

record aidx =
  cell :: "nat \<Rightarrow> nat"
  offs :: "nat list"
  akey :: "nat \<Rightarrow> string"
  adoff :: "nat \<Rightarrow> nat"
  adat :: "nat \<Rightarrow> string"

definition atxt :: "aidx \<Rightarrow> nat \<Rightarrow> string" where
  "atxt A x = idx_text (akey A x) (adoff A x) (length (adat A x) + 1)"

definition rlen :: "aidx \<Rightarrow> nat \<Rightarrow> nat" where
  "rlen A x = length (atxt A x)"

definition cells :: "aidx \<Rightarrow> nat set" where
  "cells A = (\<lambda>j. 6 * j) ` {..<138} \<union> set (offs A)"

text \<open>The records tile the file from \<open>a\<close> to \<open>e\<close> without gaps.\<close>

primrec tiled :: "(nat \<Rightarrow> nat) \<Rightarrow> nat \<Rightarrow> nat list \<Rightarrow> nat \<Rightarrow> bool" where
  "tiled sz a [] e \<longleftrightarrow> a = e"
| "tiled sz a (x # xs) e \<longleftrightarrow> x = a \<and> tiled sz (a + sz x) xs e"

definition recok :: "aidx \<Rightarrow> nat \<Rightarrow> bool" where
  "recok A x \<longleftrightarrow> nul \<notin> set (akey A x) \<and> SEP \<notin> set (akey A x) \<and> 6 \<le> rlen A x \<and> rlen A x \<le> 1024
     \<and> nul \<notin> set (adat A x) \<and> adat A x \<noteq> [] \<and> length (adat A x) < 1024 \<and> adoff A x < 10 ^ 16"

definition idxrep :: "string \<Rightarrow> aidx \<Rightarrow> bool" where
  "idxrep b A \<longleftrightarrow> tiled (\<lambda>x. 10 + rlen A x) 829 (offs A) (length b)
     \<and> (\<forall>c\<in>cells A. seg b c (fmtw 6 (cell A c)) \<and> cell A c < 10 ^ 6)
     \<and> seg b 828 [newline]
     \<and> (\<forall>x\<in>set (offs A). seg b (x + 6) (fmtw 4 (rlen A x) @ atxt A x) \<and> recok A x)"

definition disjoint_ivl :: "nat \<Rightarrow> nat \<Rightarrow> nat \<Rightarrow> nat \<Rightarrow> bool" where
  "disjoint_ivl a m b n \<longleftrightarrow> a + m \<le> b \<or> b + n \<le> a"

definition datrep :: "string \<Rightarrow> aidx \<Rightarrow> bool" where
  "datrep b A \<longleftrightarrow> (\<forall>x\<in>set (offs A). seg b (adoff A x) (adat A x @ [newline])
     \<and> (\<forall>y\<in>set (offs A). x \<noteq> y \<longrightarrow>
          disjoint_ivl (adoff A x) (length (adat A x) + 1) (adoff A y) (length (adat A y) + 1)))"

text \<open>No system call fails.\<close>

definition quiet :: "db \<Rightarrow> bool" where
  "quiet d \<longleftrightarrow> (\<forall>m p. \<not> sysfail d m p)"

lemma syscall_quiet [simp]: "quiet d \<Longrightarrow> syscall d m p = ret ()"
  by (simp add: syscall_def quiet_def)

lemma quiet_cong: "sysfail d' = sysfail d \<Longrightarrow> quiet d' = quiet d"
  by (simp add: quiet_def)

lemma quiet_upd [simp]:
  "quiet (d\<lparr>idxfile := b\<rparr>) = quiet d" "quiet (d\<lparr>datfile := b\<rparr>) = quiet d"
  "quiet (d\<lparr>idxpos := n\<rparr>) = quiet d" "quiet (d\<lparr>idxbuf := b\<rparr>) = quiet d"
  "quiet (d\<lparr>datbuf := b\<rparr>) = quiet d" "quiet (d\<lparr>idxoff := n\<rparr>) = quiet d"
  "quiet (d\<lparr>idxlen := n\<rparr>) = quiet d" "quiet (d\<lparr>datoff := n\<rparr>) = quiet d"
  "quiet (d\<lparr>datlen := n\<rparr>) = quiet d" "quiet (d\<lparr>ptrval := i\<rparr>) = quiet d"
  "quiet (d\<lparr>ptroff := n\<rparr>) = quiet d" "quiet (d\<lparr>chainoff := n\<rparr>) = quiet d"
  "quiet (d\<lparr>locks := l\<rparr>) = quiet d" "quiet (d\<lparr>errno := e\<rparr>) = quiet d"
  by (simp_all add: quiet_def)

lemma quiet_cnt [simp]:
  "quiet (d\<lparr>cnt_delok := w\<rparr>) = quiet d" "quiet (d\<lparr>cnt_delerr := w\<rparr>) = quiet d"
  "quiet (d\<lparr>cnt_fetchok := w\<rparr>) = quiet d" "quiet (d\<lparr>cnt_fetcherr := w\<rparr>) = quiet d"
  "quiet (d\<lparr>cnt_nextrec := w\<rparr>) = quiet d" "quiet (d\<lparr>cnt_stor1 := w\<rparr>) = quiet d"
  "quiet (d\<lparr>cnt_stor2 := w\<rparr>) = quiet d" "quiet (d\<lparr>cnt_stor3 := w\<rparr>) = quiet d"
  "quiet (d\<lparr>cnt_stor4 := w\<rparr>) = quiet d" "quiet (d\<lparr>cnt_storerr := w\<rparr>) = quiet d"
  by (simp_all add: quiet_def)

subsection \<open>Tilings\<close>

lemma tiled_append: "tiled sz a (xs @ ys) e \<longleftrightarrow> (\<exists>m. tiled sz a xs m \<and> tiled sz m ys e)"
  by (induction xs arbitrary: a) auto

lemma tiled_le: "tiled sz a xs e \<Longrightarrow> a \<le> e"
  by (induction xs arbitrary: a) force+

lemma tiled_bounds: "tiled sz a xs e \<Longrightarrow> x \<in> set xs \<Longrightarrow> a \<le> x \<and> x + sz x \<le> e"
proof (induction xs arbitrary: a)
  case (Cons y ys)
  then show ?case using tiled_le [of sz "y + sz y" ys e] by auto (meson add_leE)+
qed simp

lemma tiled_disjoint:
  "tiled sz a xs e \<Longrightarrow> x \<in> set xs \<Longrightarrow> y \<in> set xs \<Longrightarrow> x \<noteq> y \<Longrightarrow> x + sz x \<le> y \<or> y + sz y \<le> x"
proof (induction xs arbitrary: a)
  case (Cons z zs)
  then show ?case using tiled_bounds [of sz "z + sz z" zs e] by auto
qed simp

lemma tiled_cong: "(\<And>x. x \<in> set xs \<Longrightarrow> sz x = sz' x) \<Longrightarrow> tiled sz a xs e \<longleftrightarrow> tiled sz' a xs e"
  by (induction xs arbitrary: a) auto

lemma tiled_distinct: "tiled sz a xs e \<Longrightarrow> (\<And>x. 0 < sz x) \<Longrightarrow> distinct xs"
proof (induction xs arbitrary: a)
  case (Cons z zs)
  then have "tiled sz (z + sz z) zs e" by auto
  with tiled_bounds [of sz "z + sz z" zs e z] Cons.prems(2) [of z] have "z \<notin> set zs" by auto
  with Cons show ?case by auto
qed simp

subsection \<open>Record text\<close>

lemma length_idx_text:
  "length (idx_text k o' l) = length k + 3 + length (dec o') + length (dec l)"
  by (simp add: idx_text_def)

lemma rlen_alt: "rlen A x = length (akey A x) + 3 + length (dec (adoff A x)) + length (dec (length (adat A x) + 1))"
  by (simp add: rlen_def atxt_def length_idx_text)

lemma last_idx_text [simp]: "last (idx_text k o' l) = newline"
  by (simp add: idx_text_def)

lemma SEP_notin_dec [simp]: "SEP \<notin> set (dec n)" "nul \<notin> set (dec n)"
  by (simp_all add: SEP_def)

lemma SEP_nul [simp]: "SEP \<noteq> nul" "nul \<noteq> SEP" "SEP \<noteq> newline" "newline \<noteq> SEP" "SEP \<noteq> space" "space \<noteq> SEP"
  "\<not> is_digit SEP"
  by (simp_all add: SEP_def)

lemma butlast_idx_text: "butlast (idx_text k o' l) = k @ SEP # dec o' @ SEP # dec l"
  by (simp add: idx_text_def butlast_append)

lemma cstr_butlast_idx_text:
  "nul \<notin> set k \<Longrightarrow> cstr (butlast (idx_text k o' l)) = k @ SEP # dec o' @ SEP # dec l"
  by (simp add: butlast_idx_text)

lemma SEP_split [simp]:
  "SEP \<notin> set k \<Longrightarrow> strchr SEP (k @ SEP # t) = Some (k, t)"
  by (rule strchr_append)

subsection \<open>Reading represented files\<close>

lemma idxrep_cell: "idxrep b A \<Longrightarrow> c \<in> cells A \<Longrightarrow> seg b c (fmtw 6 (cell A c)) \<and> cell A c < 10 ^ 6"
  by (simp add: idxrep_def)

lemma offs_cells [simp]: "x \<in> set (offs A) \<Longrightarrow> x \<in> cells A"
  by (simp add: cells_def)

lemma offs_ge: "idxrep b A \<Longrightarrow> x \<in> set (offs A) \<Longrightarrow> 829 \<le> x \<and> x + 10 + rlen A x \<le> length b"
  using tiled_bounds [of "\<lambda>x. 10 + rlen A x" 829 "offs A" "length b" x] by (auto simp: idxrep_def)

lemma idxrep_rec:
  "idxrep b A \<Longrightarrow> x \<in> set (offs A) \<Longrightarrow> seg b (x + 6) (fmtw 4 (rlen A x) @ atxt A x) \<and> recok A x"
  by (simp add: idxrep_def)

lemma lseek_idx_quiet [simp]: "quiet d \<Longrightarrow> lseek_idx d (int n) m = ret (d\<lparr>idxpos := n\<rparr>)"
  by (simp add: lseek_idx_def)

lemma cell_LONG_MAX: "n < 10 ^ 6 \<Longrightarrow> int n \<le> LONG_MAX"
  by (simp add: LONG_MAX_def)

lemma db_readptr_seg:
  assumes "quiet d" and s: "seg (idxfile d) c (fmtw 6 n)" and lt: "n < 10 ^ 6"
  shows "db_readptr d (int c) = ret (int n, d\<lparr>idxpos := c + 6\<rparr>)"
proof -
  from lt have "length (fmtw 6 n) = 6" by simp
  with pread_seg [OF s] have "pread (idxfile d) c 6 = fmtw 6 n" by simp
  with lt assms(1) show ?thesis
    by (simp add: db_readptr_def PTR_SZ_def atol_fmtw cell_LONG_MAX)
qed

lemma db_readptr_rep:
  assumes "quiet d" and "idxrep (idxfile d) A" and "c \<in> cells A"
  shows "db_readptr d (int c) = ret (int (cell A c), d\<lparr>idxpos := c + 6\<rparr>)"
  using assms idxrep_cell [OF assms(2,3)] by (intro db_readptr_seg) auto

text \<open>The two header fields, and the record text behind them.\<close>

lemma db_readidx_seg:
  assumes q: "quiet d" and s: "seg (idxfile d) x (fmtw 6 n @ fmtw 4 l)" and n: "n < 10 ^ 6" and l: "l < 10 ^ 4"
  shows "0 < x \<Longrightarrow> db_readidx d (int x) = db_readidx_body (d\<lparr>idxoff := x, idxpos := x + 10, ptrval := int n\<rparr>) (int l)"
    and "idxpos d = x \<Longrightarrow> db_readidx d 0 = db_readidx_body (d\<lparr>idxoff := x, idxpos := x + 10, ptrval := int n\<rparr>) (int l)"
proof -
  have h6: "atol (fmtw 6 n) = int n" using n by (simp add: atol_fmtw cell_LONG_MAX)
  have h4: "atoi (fmtw 4 l) = int l" using l by (intro atoi_fmtw) simp
  have l6: "length (fmtw 6 n) = 6" and l4: "length (fmtw 4 l) = 4" using n l by simp_all
  with pread_seg [OF s] have hdr: "pread (idxfile d) x 10 = fmtw 6 n @ fmtw 4 l" by simp
  show "0 < x \<Longrightarrow> db_readidx d (int x) = db_readidx_body (d\<lparr>idxoff := x, idxpos := x + 10, ptrval := int n\<rparr>) (int l)"
    using q hdr h6 h4 l6 l4 by (simp add: db_readidx_def PTR_SZ_def IDXLEN_SZ_def)
  show "idxpos d = x \<Longrightarrow> db_readidx d 0 = db_readidx_body (d\<lparr>idxoff := x, idxpos := x + 10, ptrval := int n\<rparr>) (int l)"
    using q hdr h6 h4 l6 l4 by (simp add: db_readidx_def PTR_SZ_def IDXLEN_SZ_def)
qed

lemma readidx_body_seg:
  assumes q: "quiet d" and s: "seg (idxfile d) (idxpos d) t" and t: "t = idx_text k o' l"
    and k: "nul \<notin> set k" "SEP \<notin> set k" and lt: "6 \<le> length t" "length t \<le> 1024"
    and o': "int o' \<le> LONG_MAX" and l: "0 < l" "l \<le> 1024"
  shows "db_readidx_body d (int (length t)) = ret (ptrval d, d\<lparr>idxlen := length t, idxpos := idxpos d + length t,
    idxbuf := k @ nul # dec o' @ nul # dec l @ [nul], datoff := o', datlen := l\<rparr>)"
proof -
  have at: "atol (dec o') = int o'" "atol (dec l) = int l"
    using o' l by (auto intro!: atol_dec simp: LONG_MAX_def)
  have "cstr (butlast t) = k @ SEP # dec o' @ SEP # dec l" unfolding t using k(1) by (rule cstr_butlast_idx_text)
  moreover have "last t = newline" by (simp add: t)
  ultimately show ?thesis
    using pread_seg [OF s] q lt k(2) l
    by (simp add: db_readidx_body_def IDXLEN_MIN_def IDXLEN_MAX_def DATLEN_MAX_def at)
qed

text \<open>A key with a separator makes the record unreadable.\<close>

lemma readidx_body_SEP:
  assumes q: "quiet d" and s: "seg (idxfile d) (idxpos d) t" and t: "t = idx_text k o' l"
    and k: "nul \<notin> set k" "SEP \<in> set k" and lt: "6 \<le> length t" "length t \<le> 1024"
  shows "db_readidx_body d (int (length t)) = die (ErrDump ''_db_readidx: too many separators'')"
proof -
  from split_list_first [OF k(2)] obtain a b where ab: "k = a @ SEP # b" "SEP \<notin> set a" by blast
  have "cstr (butlast t) = k @ SEP # dec o' @ SEP # dec l" unfolding t using k(1) by (rule cstr_butlast_idx_text)
  with ab have c1: "strchr SEP (cstr (butlast t)) = Some (a, b @ SEP # dec o' @ SEP # dec l)" by simp
  obtain c e where c2: "strchr SEP (b @ SEP # dec o' @ SEP # dec l) = Some (c, e)" and "SEP \<in> set e"
  proof (cases "SEP \<in> set b")
    case True
    from split_list_first [OF True] obtain c e where "b = c @ SEP # e" "SEP \<notin> set c" by blast
    then show ?thesis using that [of c "e @ SEP # dec o' @ SEP # dec l"] by simp
  next
    case False
    then show ?thesis using that [of b "dec o' @ SEP # dec l"] by simp
  qed
  moreover have "last t = newline" by (simp add: t)
  ultimately show ?thesis
    using pread_seg [OF s] q lt c1 by (simp add: db_readidx_body_def IDXLEN_MIN_def IDXLEN_MAX_def)
qed

text \<open>The structure after \<^verbatim>\<open>_db_readidx\<close> has read the record at \<open>x\<close>.\<close>

definition load :: "aidx \<Rightarrow> nat \<Rightarrow> db \<Rightarrow> db" where
  "load A x d = d\<lparr>idxpos := x + 10 + rlen A x, idxbuf := akey A x @ nul # dec (adoff A x) @ nul #
       dec (length (adat A x) + 1) @ [nul], idxoff := x, idxlen := rlen A x, datoff := adoff A x,
       datlen := length (adat A x) + 1, ptrval := int (cell A x)\<rparr>"

lemma idxrep_segs:
  assumes "idxrep b A" and "x \<in> set (offs A)"
  shows "seg b x (fmtw 6 (cell A x) @ fmtw 4 (rlen A x))" and "seg b (x + 10) (atxt A x)"
proof -
  from assms have s: "seg b x (fmtw 6 (cell A x))" and lt: "cell A x < 10 ^ 6"
    and t: "seg b (x + 6) (fmtw 4 (rlen A x) @ atxt A x)" and ok: "recok A x"
    by (auto simp: idxrep_def)
  from ok have l4: "length (fmtw 4 (rlen A x)) = 4" by (simp add: recok_def)
  from lt have l6: "length (fmtw 6 (cell A x)) = 6" by simp
  from t l4 show "seg b (x + 10) (atxt A x)" by (simp add: seg_append add.commute)
  from t l4 s l6 show "seg b x (fmtw 6 (cell A x) @ fmtw 4 (rlen A x))" by (simp add: seg_append)
qed

lemma readidx_body_rep:
  assumes q: "quiet d" and r: "idxrep (idxfile d) A" and x: "x \<in> set (offs A)" and pos: "idxpos d = x + 10"
    and io: "idxoff d = x" and pv: "ptrval d = int (cell A x)"
  shows "db_readidx_body d (int (rlen A x)) = ret (int (cell A x), load A x d)"
proof -
  from r x have ok: "recok A x" by (simp add: idxrep_def)
  have s: "seg (idxfile d) (idxpos d) (atxt A x)" using idxrep_segs(2) [OF r x] pos by simp
  have "int (adoff A x) \<le> LONG_MAX" using ok by (auto simp: recok_def LONG_MAX_def)
  then have "db_readidx_body d (int (length (atxt A x))) = ret (ptrval d, d\<lparr>idxlen := length (atxt A x),
      idxpos := idxpos d + length (atxt A x), idxbuf := akey A x @ nul # dec (adoff A x) @ nul #
      dec (length (adat A x) + 1) @ [nul], datoff := adoff A x, datlen := length (adat A x) + 1\<rparr>)"
    using ok by (intro readidx_body_seg [OF q s atxt_def]) (auto simp: recok_def rlen_def)
  then show ?thesis using io pv pos by (simp add: rlen_def load_def)
qed

lemma db_readidx_at:
  assumes q: "quiet d" and r: "idxrep (idxfile d) A" and x: "x \<in> set (offs A)"
  shows "db_readidx d (int x) = ret (int (cell A x), load A x d)"
    and "idxpos d = x \<Longrightarrow> db_readidx d 0 = ret (int (cell A x), load A x d)"
proof -
  from r x have lt: "cell A x < 10 ^ 6" and l4: "rlen A x < 10 ^ 4" and x0: "0 < x"
    using offs_ge [OF r x] by (auto simp: idxrep_def recok_def)
  have body: "db_readidx_body (d\<lparr>idxoff := x, idxpos := x + 10, ptrval := int (cell A x)\<rparr>) (int (rlen A x))
      = ret (int (cell A x), load A x d)"
    using q r x by (subst readidx_body_rep [of _ A x]) (simp_all add: load_def)
  note seg = db_readidx_seg [OF q idxrep_segs(1) [OF r x] lt l4]
  show "db_readidx d (int x) = ret (int (cell A x), load A x d)"
    using seg(1) [OF x0] body by simp
  show "idxpos d = x \<Longrightarrow> db_readidx d 0 = ret (int (cell A x), load A x d)"
    using seg(2) body by simp
qed

lemma db_readidx_eof:
  "quiet d \<Longrightarrow> idxpos d = length (idxfile d) \<Longrightarrow> db_readidx d 0 = ret (- 1, d\<lparr>idxoff := idxpos d\<rparr>)"
  by (simp add: db_readidx_def pread_def PTR_SZ_def)

lemma db_readdat_rep:
  assumes "quiet d" and "datrep (datfile d) A" and "x \<in> set (offs A)" and "recok A x"
    and "datoff d = adoff A x" and "datlen d = length (adat A x) + 1"
  shows "db_readdat d = ret (adat A x, d\<lparr>datbuf := adat A x @ [nul]\<rparr>)"
proof -
  from assms have "seg (datfile d) (adoff A x) (adat A x @ [newline])" by (simp add: datrep_def)
  from pread_seg [OF this] have "pread (datfile d) (datoff d) (datlen d) = adat A x @ [newline]"
    using assms(5,6) by simp
  moreover from assms(4) have "nul \<notin> set (adat A x)" by (simp add: recok_def)
  ultimately show ?thesis using assms(1,6) by (simp add: db_readdat_def)
qed

end
