(* ===== verification/DbChains.thy ===== *)
theory DbChains
  imports DbIndex
begin

section \<open>The database: hash chains, free list and the abstract map\<close>

text \<open>
  \<open>chains A H\<close>: cell \<open>6 * j\<close> starts the chain \<open>H j\<close> (\<open>j = 0\<close> the free list, \<open>j = bucket k\<close> the hash
  chain of key \<open>k\<close>), every record of the file is on exactly one chain, the keys of a hash chain
  hash to it and differ, a free record's key is blank.  \<open>absmap\<close> is the map of keys to data the
  files stand for.  The lemmas move a record between chains the way the code does, with three
  pointer writes, through the interface \<open>cell_store\<close>.
\<close>

interpretation dbc: cell_store cell "\<lambda>A c v. A\<lparr>cell := (cell A)(c := v)\<rparr>" "0 :: nat"
  by unfold_locales simp

definition bucket :: "string \<Rightarrow> nat" where
  "bucket k = unat (hash_loop 0 1 k) mod 137 + 1"

lemma bucket_range [simp]: "0 < bucket k" "bucket k < 138" "1 \<le> bucket k" "bucket k \<noteq> 0"
  by (simp_all add: bucket_def Suc_le_eq)

definition chains :: "aidx \<Rightarrow> (nat \<Rightarrow> nat list) \<Rightarrow> bool" where
  "chains A H \<longleftrightarrow>
     (\<forall>j<138. path (cell A) 0 (6 * j) (H j) \<and> distinct (H j)) \<and>
     (\<forall>i<138. \<forall>j<138. i \<noteq> j \<longrightarrow> set (H i) \<inter> set (H j) = {}) \<and>
     set (offs A) = (\<Union>j<138. set (H j)) \<and>
     (\<forall>j<138. j \<noteq> 0 \<longrightarrow> (\<forall>x\<in>set (H j). bucket (akey A x) = j) \<and> inj_on (akey A) (set (H j))) \<and>
     (\<forall>x\<in>set (H 0). set (akey A x) \<subseteq> {space})"

definition absmap :: "aidx \<Rightarrow> (nat \<Rightarrow> nat list) \<Rightarrow> string \<Rightarrow> string option" where
  "absmap A H k = map_of (map (\<lambda>x. (akey A x, adat A x)) (H (bucket k))) k"

lemma chains_path: "chains A H \<Longrightarrow> j < 138 \<Longrightarrow> path (cell A) 0 (6 * j) (H j)"
  and chains_distinct: "chains A H \<Longrightarrow> j < 138 \<Longrightarrow> distinct (H j)"
  and chains_cover: "chains A H \<Longrightarrow> set (offs A) = (\<Union>j<138. set (H j))"
  by (simp_all add: chains_def)

lemma chains_offs: "chains A H \<Longrightarrow> j < 138 \<Longrightarrow> x \<in> set (H j) \<Longrightarrow> x \<in> set (offs A)"
  by (auto simp: chains_def)

lemma chains_disj: "chains A H \<Longrightarrow> i < 138 \<Longrightarrow> j < 138 \<Longrightarrow> x \<in> set (H i) \<Longrightarrow> x \<in> set (H j) \<Longrightarrow> i = j"
  unfolding chains_def by blast

lemma chains_bucket: "chains A H \<Longrightarrow> j < 138 \<Longrightarrow> j \<noteq> 0 \<Longrightarrow> x \<in> set (H j) \<Longrightarrow> bucket (akey A x) = j"
  by (simp add: chains_def)

lemma chains_inj: "chains A H \<Longrightarrow> j < 138 \<Longrightarrow> j \<noteq> 0 \<Longrightarrow> inj_on (akey A) (set (H j))"
  by (simp add: chains_def)

lemma absmap_None: "absmap A H k = None \<longleftrightarrow> k \<notin> akey A ` set (H (bucket k))"
  by (simp add: absmap_def map_of_eq_None_iff image_image)

lemma absmap_Some:
  assumes "chains A H" and "x \<in> set (H (bucket k))" and "akey A x = k"
  shows "absmap A H k = Some (adat A x)"
proof -
  have "inj_on (akey A) (set (H (bucket k)))" using assms(1) by (intro chains_inj) auto
  then have "distinct (map fst (map (\<lambda>x. (akey A x, adat A x)) (H (bucket k))))"
    using chains_distinct [OF assms(1), of "bucket k"] by (simp add: distinct_map comp_def)
  with assms(2,3) show ?thesis unfolding absmap_def by (auto intro!: map_of_is_SomeI)
qed

lemma absmap_SomeE:
  assumes "absmap A H k = Some v"
  obtains x where "x \<in> set (H (bucket k))" "akey A x = k" "adat A x = v"
  using map_of_SomeD [OF assms [unfolded absmap_def]] by auto

subsection \<open>Moving a record to another chain\<close>

definition move :: "aidx \<Rightarrow> nat \<Rightarrow> nat \<Rightarrow> nat \<Rightarrow> string \<Rightarrow> string \<Rightarrow> aidx" where
  "move A p x i k v = A\<lparr>cell := (cell A)(p := cell A x, x := cell A (6 * i), 6 * i := x),
     akey := (akey A)(x := k), adat := (adat A)(x := v)\<rparr>"

lemma move_sel [simp]:
  "offs (move A p x i k v) = offs A" "adoff (move A p x i k v) = adoff A"
  "akey (move A p x i k v) = (akey A)(x := k)" "adat (move A p x i k v) = (adat A)(x := v)"
  by (simp_all add: move_def)

lemma path_move:
  assumes ch: "chains A H" and ge: "\<forall>y\<in>set (offs A). 829 \<le> y"
    and j: "j < 138" and i: "i < 138" and ij: "i \<noteq> j" and Hj: "H j = xs @ x # ys"
    and l: "l < 138"
  shows "path (cell (move A (last (6 * j # xs)) x i k v)) 0 (6 * l) ((H(j := xs @ ys, i := x # H i)) l)"
proof -
  let ?p = "last (6 * j # xs)"
  define A1 where "A1 = A\<lparr>cell := (cell A)(?p := cell A x)\<rparr>"
  define A2 where "A2 = A1\<lparr>cell := (cell A1)(x := cell A1 (6 * i))\<rparr>"
  define A3 where "A3 = A2\<lparr>cell := (cell A2)(6 * i := x)\<rparr>"
  have rec: "829 \<le> y" if "m < 138" "y \<in> set (H m)" for m y
    using chains_offs [OF ch that] ge by blast
  have p: "?p = 6 * j \<or> ?p \<in> set xs" by auto
  have hdr: "6 * m < 829" if "m < 138" for m :: nat using that by simp
  have x: "829 \<le> x" "x \<in> set (H j)" using rec [OF j] Hj by auto
  have dj: "distinct (6 * j # xs @ x # ys)"
    using chains_distinct [OF ch j] rec [OF j] hdr [OF j] Hj by force
  have px: "?p \<noteq> x" using p dj by auto
  have pi: "?p \<noteq> 6 * i" using p ij rec [OF j, of ?p] Hj hdr [OF i] by force
  have notin: "y \<notin> set (H m)" if "m < 138" "m \<noteq> j" "y = 6 * j \<or> y \<in> set (H j)" for m y
    using that rec [OF that(1), of y] hdr [OF j] chains_disj [OF ch j that(1), of y] by auto
  have p1: "path (cell A1) 0 (6 * j) (xs @ ys)"
    unfolding A1_def using chains_path [OF ch j] Hj dj by (intro dbc.unlink) auto
  have pm: "path (cell A1) 0 (6 * m) (H m)" if m: "m < 138" "m \<noteq> j" for m
  proof -
    have a: "?p \<noteq> 6 * m" using p m rec [OF j, of ?p] Hj hdr [OF m(1)] by force
    have b: "?p \<notin> set (H m)" using notin [OF m, of ?p] p Hj by auto
    show ?thesis unfolding A1_def using dbc.frame [OF a b] chains_path [OF ch m(1)] by blast
  qed
  have eq: "cell (move A ?p x i k v) = cell A3"
    using px pi x(1) hdr [OF i] by (auto simp: A1_def A2_def A3_def move_def fun_eq_iff)
  have xi: "x \<notin> set (H i)" using notin [OF i ij] x(2) by blast
  have hi: "6 * i \<notin> set (H m)" if "m < 138" for m using rec [OF that] hdr [OF i] by force
  have fr: "path (cell A1) 0 (6 * m) os \<Longrightarrow> path (cell A3) 0 (6 * m) os"
    if "6 * i \<notin> set os" "x \<notin> set os" "m \<noteq> i" "x \<noteq> 6 * m" for m os
  proof -
    have "6 * i \<noteq> 6 * m" using that by simp
    then show "path (cell A1) 0 (6 * m) os \<Longrightarrow> path (cell A3) 0 (6 * m) os"
      unfolding A3_def A2_def using dbc.frame that by metis
  qed
  consider "l = i" | "l = j" "l \<noteq> i" | "l \<noteq> i" "l \<noteq> j" by blast
  then show ?thesis
  proof cases
    case 1
    have "path (cell A3) 0 (6 * i) (x # H i)"
      unfolding A3_def A2_def using x(1) xi hi [OF i] hdr [OF i] pm [OF i ij] by (intro dbc.push) auto
    with 1 eq show ?thesis by simp
  next
    case 2
    have "6 * i \<notin> set (xs @ ys)" using hi [OF j] Hj by auto
    moreover have "x \<noteq> 6 * j" "x \<notin> set (xs @ ys)" using dj by auto
    ultimately have "path (cell A3) 0 (6 * j) (xs @ ys)"
      using ij p1 by (intro fr) auto
    with 2 eq show ?thesis by simp
  next
    case 3
    have "x \<noteq> 6 * l" "x \<notin> set (H l)" using x hdr [OF l] notin [OF l 3(2), of x] by auto
    then have "path (cell A3) 0 (6 * l) (H l)"
      using pm [OF l 3(2)] 3 hi [OF l] by (intro fr) auto
    with 3 eq show ?thesis by simp
  qed
qed

lemma chains_move:
  assumes ch: "chains A H" and ge: "\<forall>y\<in>set (offs A). 829 \<le> y"
    and j: "j < 138" and i: "i < 138" and ij: "i \<noteq> j" and Hj: "H j = xs @ x # ys"
    and k0: "i = 0 \<Longrightarrow> set k \<subseteq> {space}"
    and kb: "i \<noteq> 0 \<Longrightarrow> bucket k = i \<and> k \<notin> akey A ` set (H i)"
  shows "chains (move A (last (6 * j # xs)) x i k v) (H(j := xs @ ys, i := x # H i))"
    (is "chains ?A ?H")
  unfolding chains_def
proof (intro conjI allI impI ballI)
  have dj: "distinct (xs @ x # ys)" using chains_distinct [OF ch j] Hj by simp
  have xj: "x \<in> set (H j)" using Hj by simp
  have xm: "x \<notin> set (H m)" if "m < 138" "m \<noteq> j" for m
    using chains_disj [OF ch j that(1) xj] that(2) by blast
  have xH: "x \<notin> set (?H m)" if "m < 138" "m \<noteq> i" for m
    using xm [OF that(1)] that dj by (cases "m = j") auto
  have sub: "y \<in> set (H m)" if "y \<in> set (?H m)" "m < 138" "y \<noteq> x" for m y
    using that Hj by (auto split: if_splits)
  show "path (cell ?A) 0 (6 * l) (?H l)" if "l < 138" for l
    by (rule path_move [OF ch ge j i ij Hj that])
  show "distinct (?H l)" if "l < 138" for l
    using chains_distinct [OF ch that] chains_distinct [OF ch i] dj xm [OF i ij] by auto
  show "set (?H l) \<inter> set (?H m) = {}" if "l < 138" "m < 138" "l \<noteq> m" for l m
  proof -
    have "y = x" if "y \<in> set (?H l)" "y \<in> set (?H m)" for y
      using sub [OF that(1) \<open>l < 138\<close>] sub [OF that(2) \<open>m < 138\<close>]
        chains_disj [OF ch \<open>l < 138\<close> \<open>m < 138\<close>] \<open>l \<noteq> m\<close> by blast
    then show ?thesis using xH that by blast
  qed
  have "(\<Union>l<138. set (?H l)) = (\<Union>l<138. set (H l))"
  proof (intro equalityI subsetI)
    fix y assume "y \<in> (\<Union>l<138. set (?H l))"
    then obtain l where "l < 138" "y \<in> set (?H l)" by auto
    then show "y \<in> (\<Union>l<138. set (H l))" using sub [of y l] xj j by (cases "y = x") auto
  next
    fix y assume "y \<in> (\<Union>l<138. set (H l))"
    then obtain l where l: "l < 138" "y \<in> set (H l)" by auto
    then have "y \<in> set (?H i) \<or> y \<in> set (?H l)" using Hj by (cases "l = j") auto
    then show "y \<in> (\<Union>l<138. set (?H l))" using l(1) i by blast
  qed
  then show "set (offs ?A) = (\<Union>l<138. set (?H l))" using chains_cover [OF ch] by simp
  show "bucket (akey ?A y) = l" if "l < 138" "l \<noteq> 0" "y \<in> set (?H l)" for l y
  proof (cases "y = x")
    case True
    then have "l = i" using xH [of l] that by blast
    then show ?thesis using True kb that by simp
  next
    case False
    then show ?thesis using sub [OF that(3,1)] chains_bucket [OF ch that(1,2)] by simp
  qed
  show "inj_on (akey ?A) (set (?H l))" if l: "l < 138" "l \<noteq> 0" for l
  proof (cases "l = i")
    case True
    have "x \<notin> set (H i)" using xm [OF i ij] .
    then have "inj_on (akey ?A) (set (H i))"
      using chains_inj [OF ch l] True by (auto simp: inj_on_def)
    moreover have "k \<notin> (akey ?A) ` set (H i)" using kb l True \<open>x \<notin> set (H i)\<close> by auto
    ultimately show ?thesis using True \<open>x \<notin> set (H i)\<close> by (auto simp: inj_on_def)
  next
    case False
    have "set (?H l) \<subseteq> set (H l)" using sub [OF _ l(1)] xH [OF l(1) False] by blast
    with chains_inj [OF ch l] have "inj_on (akey A) (set (?H l))" by (rule inj_on_subset)
    moreover have "akey ?A y = akey A y" if "y \<in> set (?H l)" for y
      using xH [OF l(1) False] that by (metis fun_upd_apply move_sel(3))
    ultimately show ?thesis by (simp only: inj_on_def) metis
  qed
  show "set (akey ?A y) \<subseteq> {space}" if "y \<in> set (?H 0)" for y
  proof (cases "y = x")
    case True
    then have "i = 0" using xH [of 0] that by (metis zero_less_numeral)
    then show ?thesis using True k0 by simp
  next
    case False
    then show ?thesis using sub [OF that] ch by (simp add: chains_def)
  qed
qed

subsection \<open>A new record\<close>

definition newrec :: "aidx \<Rightarrow> nat \<Rightarrow> nat \<Rightarrow> string \<Rightarrow> nat \<Rightarrow> string \<Rightarrow> aidx" where
  "newrec A x i k o' v = A\<lparr>cell := (cell A)(x := cell A (6 * i), 6 * i := x), offs := offs A @ [x],
     akey := (akey A)(x := k), adoff := (adoff A)(x := o'), adat := (adat A)(x := v)\<rparr>"

lemma newrec_sel [simp]:
  "offs (newrec A x i k o' v) = offs A @ [x]" "adoff (newrec A x i k o' v) = (adoff A)(x := o')"
  "akey (newrec A x i k o' v) = (akey A)(x := k)" "adat (newrec A x i k o' v) = (adat A)(x := v)"
  by (simp_all add: newrec_def)

lemma chains_newrec:
  assumes ch: "chains A H" and ge: "\<forall>y\<in>set (offs A). 829 \<le> y" and x: "x \<notin> set (offs A)" "829 \<le> x"
    and i: "i < 138" "i \<noteq> 0" and kb: "bucket k = i" "k \<notin> akey A ` set (H i)"
  shows "chains (newrec A x i k o' v) (H(i := x # H i))" (is "chains ?A ?H")
  unfolding chains_def
proof (intro conjI allI impI ballI)
  define A1 where "A1 = A\<lparr>cell := (cell A)(x := cell A (6 * i))\<rparr>"
  define A2 where "A2 = A1\<lparr>cell := (cell A1)(6 * i := x)\<rparr>"
  have eq: "cell ?A = cell A2" by (simp add: newrec_def A2_def A1_def)
  have xm: "x \<notin> set (H m)" if "m < 138" for m using chains_offs [OF ch that] x(1) by blast
  have hi: "6 * i \<notin> set (H m)" if "m < 138" for m
    using chains_offs [OF ch that] ge i(1) by fastforce
  show "path (cell ?A) 0 (6 * l) (?H l)" if l: "l < 138" for l
  proof (cases "l = i")
    case True
    have "path (cell A2) 0 (6 * i) (x # H i)"
      unfolding A2_def A1_def using chains_path [OF ch i(1)] xm [OF i(1)] hi [OF i(1)] x i
      by (intro dbc.push) auto
    with True eq show ?thesis by simp
  next
    case False
    have "x \<noteq> 6 * l" "6 * i \<noteq> 6 * l" using x(2) l False by auto
    with dbc.frame xm [OF l] hi [OF l] chains_path [OF ch l] have "path (cell A2) 0 (6 * l) (H l)"
      unfolding A2_def A1_def by metis
    with False eq show ?thesis by simp
  qed
  show "distinct (?H l)" if "l < 138" for l
    using chains_distinct [OF ch that] chains_distinct [OF ch i(1)] xm [OF i(1)] by auto
  show "set (?H l) \<inter> set (?H m) = {}" if "l < 138" "m < 138" "l \<noteq> m" for l m
  proof -
    have "set (H l) \<inter> set (H m) = {}" using chains_disj [OF ch that(1,2)] that(3) by blast
    then show ?thesis using xm [OF that(1)] xm [OF that(2)] that(3) by auto
  qed
  have "(\<Union>l<138. set (?H l)) = insert x (\<Union>l<138. set (H l))"
  proof (intro equalityI subsetI)
    fix y assume "y \<in> (\<Union>l<138. set (?H l))"
    then show "y \<in> insert x (\<Union>l<138. set (H l))" by (auto split: if_splits)
  next
    fix y assume "y \<in> insert x (\<Union>l<138. set (H l))"
    then consider "y = x" | l where "l < 138" "y \<in> set (H l)" by auto
    then have "\<exists>l<138. y \<in> set (?H l)"
    proof cases
      case 1
      then have "y \<in> set (?H i)" by simp
      with i(1) show ?thesis by blast
    next
      case (2 l)
      then have "y \<in> set (?H l)" by (cases "l = i") auto
      with 2(1) show ?thesis by blast
    qed
    then show "y \<in> (\<Union>l<138. set (?H l))" by blast
  qed
  then show "set (offs ?A) = (\<Union>l<138. set (?H l))" using chains_cover [OF ch] by simp
  show "bucket (akey ?A y) = l" if "l < 138" "l \<noteq> 0" "y \<in> set (?H l)" for l y
    using that xm [OF that(1)] chains_bucket [OF ch that(1,2)] kb by (auto split: if_splits)
  show "inj_on (akey ?A) (set (?H l))" if l: "l < 138" "l \<noteq> 0" for l
  proof -
    have "inj_on (akey ?A) (set (H l))"
      using chains_inj [OF ch l] xm [OF l(1)] by (simp add: inj_on_def)
    moreover have "l = i \<Longrightarrow> k \<notin> akey ?A ` set (H i)" using kb xm [OF i(1)] by auto
    ultimately show ?thesis using xm [OF l(1)] by auto
  qed
  show "set (akey ?A y) \<subseteq> {space}" if "y \<in> set (?H 0)" for y
    using that xm [of 0] ch i(2) by (auto simp: chains_def)
qed

subsection \<open>The abstract map after a move\<close>

lemma map_of_keys_cong:
  "(\<And>x. x \<in> set xs \<Longrightarrow> f x = g x) \<Longrightarrow> map_of (map f xs) = map_of (map g xs)"
  by (metis map_cong)

lemma absmap_eqI:
  assumes "chains A H" and "chains A' H'"
    and "\<And>k v. m k = Some v \<longleftrightarrow> (\<exists>x\<in>set (H' (bucket k)). akey A' x = k \<and> adat A' x = v)"
  shows "absmap A' H' = m"
proof (rule ext, rule option.expand)
  fix k
  have eq: "absmap A' H' k = Some v \<longleftrightarrow> m k = Some v" for v
    using assms(3) absmap_Some [OF assms(2)] absmap_SomeE [of A' H' k v] by metis
  then show "(absmap A' H' k = None) = (m k = None)" by (metis not_None_eq)
  show "absmap A' H' k \<noteq> None \<Longrightarrow> m k \<noteq> None \<Longrightarrow> the (absmap A' H' k) = the (m k)"
    using eq by (metis not_None_eq)
qed

lemma absmap_iff:
  assumes "chains A H"
  shows "absmap A H k = Some v \<longleftrightarrow> (\<exists>x\<in>set (H (bucket k)). akey A x = k \<and> adat A x = v)"
  using absmap_Some [OF assms] absmap_SomeE [of A H k v] by metis

lemma absmap_unlink:
  assumes ch: "chains A H" and H: "H (bucket k) = xs @ x # ys" and kx: "akey A x = k"
    and ch': "chains A' H'" and H': "\<And>j. j \<noteq> 0 \<Longrightarrow> H' j = (H(bucket k := xs @ ys)) j"
    and same: "\<And>y. y \<noteq> x \<Longrightarrow> akey A' y = akey A y \<and> adat A' y = adat A y"
  shows "absmap A' H' = (absmap A H)(k := None)"
proof (rule absmap_eqI [OF ch ch'])
  fix k' v
  have bx: "x \<in> set (H (bucket k))" using H by simp
  have dist: "distinct (xs @ x # ys)" using chains_distinct [OF ch, of "bucket k"] H by simp
  have nk: "akey A y \<noteq> k" if "y \<in> set (xs @ ys)" for y
    using chains_inj [OF ch, of "bucket k"] that H kx dist by (auto simp: inj_on_def)
  have x': "x \<notin> set (H' (bucket k'))"
  proof (cases "bucket k' = bucket k")
    case True
    then show ?thesis using H' [of "bucket k'"] dist by simp
  next
    case False
    then show ?thesis using H' [of "bucket k'"] chains_disj [OF ch _ _ bx, of "bucket k'"] by auto
  qed
  show "((absmap A H)(k := None)) k' = Some v \<longleftrightarrow>
      (\<exists>x\<in>set (H' (bucket k')). akey A' x = k' \<and> adat A' x = v)"
  proof (cases "k' = k")
    case True
    have "akey A' y \<noteq> k" if "y \<in> set (H' (bucket k))" for y
      using that H' [of "bucket k"] nk [of y] same [of y] x' True by (metis bucket_range(4) fun_upd_same)
    then show ?thesis using True by auto
  next
    case False
    have "(\<exists>y\<in>set (H' (bucket k')). akey A' y = k' \<and> adat A' y = v) \<longleftrightarrow>
        (\<exists>y\<in>set (H (bucket k')). akey A y = k' \<and> adat A y = v)"
    proof
      assume "\<exists>y\<in>set (H' (bucket k')). akey A' y = k' \<and> adat A' y = v"
      then obtain y where y: "y \<in> set (H' (bucket k'))" "akey A' y = k'" "adat A' y = v" by blast
      then have "y \<noteq> x" using x' by blast
      moreover have "y \<in> set (H (bucket k'))" using y(1) H' [of "bucket k'"] H by (auto split: if_splits)
      ultimately show "\<exists>y\<in>set (H (bucket k')). akey A y = k' \<and> adat A y = v" using y same by metis
    next
      assume "\<exists>y\<in>set (H (bucket k')). akey A y = k' \<and> adat A y = v"
      then obtain y where y: "y \<in> set (H (bucket k'))" "akey A y = k'" "adat A y = v" by blast
      then have "y \<noteq> x" using kx False by blast
      moreover have "y \<in> set (H' (bucket k'))"
        using y(1) H' [of "bucket k'"] H \<open>y \<noteq> x\<close> by (auto split: if_splits)
      ultimately show "\<exists>y\<in>set (H' (bucket k')). akey A' y = k' \<and> adat A' y = v" using y same by metis
    qed
    with False show ?thesis using absmap_iff [OF ch] by simp
  qed
qed

lemma absmap_push:
  assumes ch: "chains A H" and ch': "chains A' H'" and H': "\<And>j. j \<noteq> 0 \<Longrightarrow> H' j = (H(bucket k := x # H (bucket k))) j"
    and nk: "absmap A H k = None" and x: "\<And>j. 0 < j \<Longrightarrow> j < 138 \<Longrightarrow> x \<notin> set (H j)"
    and kx: "akey A' x = k" "adat A' x = v"
    and same: "\<And>y. y \<noteq> x \<Longrightarrow> akey A' y = akey A y \<and> adat A' y = adat A y"
  shows "absmap A' H' = (absmap A H)(k \<mapsto> v)"
proof (rule absmap_eqI [OF ch ch'])
  fix k' w
  have sH: "set (H' (bucket k')) = (if bucket k' = bucket k then {x} else {}) \<union> set (H (bucket k'))"
    using H' [of "bucket k'"] by simp
  have old: "(\<exists>y\<in>set (H (bucket k')). akey A' y = k' \<and> adat A' y = w) \<longleftrightarrow>
      (\<exists>y\<in>set (H (bucket k')). akey A y = k' \<and> adat A y = w)"
    using x [of "bucket k'"] same by (metis bucket_range(1,2))
  show "((absmap A H)(k \<mapsto> v)) k' = Some w \<longleftrightarrow>
      (\<exists>y\<in>set (H' (bucket k')). akey A' y = k' \<and> adat A' y = w)"
  proof (cases "k' = k")
    case True
    with nk have "k \<notin> akey A ` set (H (bucket k))" by (simp add: absmap_None)
    then have "\<not> (\<exists>y\<in>set (H (bucket k')). akey A' y = k' \<and> adat A' y = w)"
      using True old by (metis image_eqI)
    then show ?thesis using True sH kx by auto
  next
    case False
    then show ?thesis using sH old kx absmap_iff [OF ch, of k' w] by auto
  qed
qed

end
