(* ===== verification/DbWrites.thy ===== *)
theory DbWrites
  imports DbChains
begin

section \<open>The database: what each write does to the represented files\<close>

text \<open>
  A pointer write, the rewrite of an index record in place and the append of a record, on the
  bytes and, equivalently, on the abstract index; the same for data records.
\<close>

lemma recok_cong:
  "akey A x = akey A' x \<Longrightarrow> adoff A x = adoff A' x \<Longrightarrow> adat A x = adat A' x \<Longrightarrow> recok A x = recok A' x"
  by (simp add: recok_def rlen_def atxt_def)

lemma rlen_cong:
  "akey A x = akey A' x \<Longrightarrow> adoff A x = adoff A' x \<Longrightarrow> length (adat A x) = length (adat A' x) \<Longrightarrow>
     rlen A x = rlen A' x"
  "akey A x = akey A' x \<Longrightarrow> adoff A x = adoff A' x \<Longrightarrow> length (adat A x) = length (adat A' x) \<Longrightarrow>
     atxt A x = atxt A' x"
  by (simp_all add: rlen_def atxt_def)

lemma cells_header: "j < 138 \<Longrightarrow> 6 * j \<in> cells A"
  by (auto simp: cells_def)

lemma cells_cases:
  assumes "c \<in> cells A"
  obtains j where "j < 138" "c = 6 * j" | "c \<in> set (offs A)"
  using assms by (auto simp: cells_def)

lemma offs_disjoint:
  "idxrep b A \<Longrightarrow> x \<in> set (offs A) \<Longrightarrow> y \<in> set (offs A) \<Longrightarrow> x \<noteq> y \<Longrightarrow>
     x + 10 + rlen A x \<le> y \<or> y + 10 + rlen A y \<le> x"
  using tiled_disjoint [of "\<lambda>x. 10 + rlen A x" 829 "offs A" "length b" x y]
  by (auto simp: idxrep_def)

lemma cells_disjoint:
  assumes "idxrep b A" and "c \<in> cells A" and "c' \<in> cells A" and "c \<noteq> c'"
  shows "c + 6 \<le> c' \<or> c' + 6 \<le> c"
  using assms(2)
proof (cases rule: cells_cases)
  case (1 j)
  from assms(3) show ?thesis
  proof (cases rule: cells_cases)
    case (1 i)
    with \<open>c = 6 * j\<close> assms(4) show ?thesis by presburger
  next
    case 2
    with 1 offs_ge [OF assms(1) 2] show ?thesis by simp
  qed
next
  case 2
  from assms(3) show ?thesis
  proof (cases rule: cells_cases)
    case (1 i)
    with offs_ge [OF assms(1) 2] show ?thesis by simp
  next
    case 3: 2
    with offs_disjoint [OF assms(1) 2 3 assms(4)] show ?thesis by linarith
  qed
qed

lemma cell_tail_disjoint:
  assumes "idxrep b A" and "c \<in> cells A" and "x \<in> set (offs A)"
  shows "c + 6 \<le> x + 6 \<or> x + 10 + rlen A x \<le> c"
  using assms(2)
proof (cases rule: cells_cases)
  case (1 j)
  with offs_ge [OF assms(1,3)] show ?thesis by simp
next
  case 2
  show ?thesis
  proof (cases "c = x")
    case False
    then show ?thesis using offs_disjoint [OF assms(1) 2 assms(3)] by linarith
  qed simp
qed

lemma tail_length:
  "recok A x \<Longrightarrow> length (fmtw 4 (rlen A x) @ atxt A x) = 4 + rlen A x"
  by (simp add: recok_def rlen_def)

lemma cell_newline_disjoint: "idxrep b A \<Longrightarrow> c \<in> cells A \<Longrightarrow> c + 6 \<le> 828 \<or> 829 \<le> c"
  by (erule cells_cases) (auto dest: offs_ge)

lemma cell_in_file: "idxrep b A \<Longrightarrow> c \<in> cells A \<Longrightarrow> c + 6 \<le> length b"
  using segD [of b c "fmtw 6 (cell A c)"] by (auto simp: idxrep_def)

lemma idxrep_put:
  assumes r: "idxrep b A" and c: "c \<in> cells A" and v: "v < 10 ^ 6"
  shows "idxrep (pwrite b c (fmtw 6 v)) (A\<lparr>cell := (cell A)(c := v)\<rparr>)" (is "idxrep ?b ?A")
proof -
  have l6: "length (fmtw 6 v) = 6" using v by simp
  have len: "length ?b = length b" using cell_in_file [OF r c] l6 by simp
  have same: "rlen ?A = rlen A" "atxt ?A = atxt A" "recok ?A = recok A" "cells ?A = cells A"
    by (auto simp: fun_eq_iff rlen_def atxt_def recok_def cells_def)
  have "seg ?b c' (fmtw 6 (cell ?A c')) \<and> cell ?A c' < 10 ^ 6" if c': "c' \<in> cells A" for c'
  proof (cases "c' = c")
    case True
    then show ?thesis using v by (simp add: seg_pwrite_same)
  next
    case False
    have s: "seg b c' (fmtw 6 (cell A c'))" "cell A c' < 10 ^ 6" using idxrep_cell [OF r c'] by auto
    then have "seg ?b c' (fmtw 6 (cell A c'))"
      using cells_disjoint [OF r c c'] False l6 by (intro seg_pwrite_other) auto
    with s False show ?thesis by simp
  qed
  moreover have "seg ?b 828 [newline]"
    using r cell_newline_disjoint [OF r c] l6 by (intro seg_pwrite_other) (auto simp: idxrep_def)
  moreover have "seg ?b (x + 6) (fmtw 4 (rlen A x) @ atxt A x)" if x: "x \<in> set (offs A)" for x
    using idxrep_rec [OF r x] cell_tail_disjoint [OF r c x] tail_length [of A x] l6
    by (intro seg_pwrite_other) auto
  ultimately show ?thesis using r unfolding idxrep_def same len by simp
qed

definition rewrite :: "aidx \<Rightarrow> nat \<Rightarrow> nat \<Rightarrow> string \<Rightarrow> aidx" where
  "rewrite A x v k = A\<lparr>cell := (cell A)(x := v), akey := (akey A)(x := k)\<rparr>"

lemma idxrep_rewrite:
  assumes r: "idxrep b A" and x: "x \<in> set (offs A)" and v: "v < 10 ^ 6"
    and k: "length k = length (akey A x)" "nul \<notin> set k" "SEP \<notin> set k"
  shows "idxrep (pwrite b x (fmtw 6 v @ fmtw 4 (rlen A x) @ idx_text k (adoff A x) (length (adat A x) + 1)))
           (rewrite A x v k)" (is "idxrep (pwrite b x ?s) ?A")
proof -
  have rl: "rlen ?A = rlen A" using k(1) by (auto simp: fun_eq_iff rlen_alt rewrite_def)
  have ok: "recok ?A x" "recok A x" using idxrep_rec [OF r x] rl k(2,3) by (auto simp: recok_def rewrite_def)
  have tx: "idx_text k (adoff A x) (length (adat A x) + 1) = atxt ?A x" by (simp add: atxt_def rewrite_def)
  have l6: "length (fmtw 6 v) = 6" using v by simp
  have ls: "length ?s = 10 + rlen A x"
    using tail_length [OF ok(1)] l6 unfolding tx rl by simp
  let ?b = "pwrite b x ?s"
  have len: "length ?b = length b" using offs_ge [OF r x] ls by simp
  have sx: "seg ?b x (fmtw 6 v)" "seg ?b (x + 6) (fmtw 4 (rlen A x) @ atxt ?A x)"
    using seg_pwrite_same [of b x ?s] l6 unfolding tx seg_append by (auto simp: seg_append)
  have "seg ?b c (fmtw 6 (cell ?A c)) \<and> cell ?A c < 10 ^ 6" if c: "c \<in> cells A" for c
  proof (cases "c = x")
    case True
    then show ?thesis using v sx(1) by (simp add: rewrite_def)
  next
    case False
    have s: "seg b c (fmtw 6 (cell A c))" "cell A c < 10 ^ 6" using idxrep_cell [OF r c] by auto
    moreover have "c + 6 \<le> x \<or> x + (10 + rlen A x) \<le> c"
      using cells_disjoint [OF r c offs_cells [OF x] False] cell_tail_disjoint [OF r c x] by linarith
    ultimately have "seg ?b c (fmtw 6 (cell A c))"
      by (intro seg_pwrite_other) (simp_all only: ls, simp)
    with s False show ?thesis by (simp add: rewrite_def)
  qed
  moreover have "seg ?b 828 [newline]"
    using r offs_ge [OF r x] by (intro seg_pwrite_other) (auto simp: idxrep_def)
  moreover have "seg ?b (y + 6) (fmtw 4 (rlen A y) @ atxt ?A y) \<and> recok ?A y" if y: "y \<in> set (offs A)" for y
  proof (cases "y = x")
    case True
    then show ?thesis using sx(2) ok(1) by simp
  next
    case False
    have "recok ?A y = recok A y" and t: "atxt ?A y = atxt A y"
      using False by (simp_all add: recok_def rlen_def atxt_def rewrite_def)
    moreover have "seg ?b (y + 6) (fmtw 4 (rlen A y) @ atxt A y)"
      using idxrep_rec [OF r y] offs_disjoint [OF r x y] tail_length [of A y] False
      by (intro seg_pwrite_other) (auto simp only: ls, auto)
    ultimately show ?thesis using idxrep_rec [OF r y] by simp
  qed
  moreover have "cells ?A = cells A" "offs ?A = offs A" by (simp_all add: cells_def rewrite_def)
  ultimately show ?thesis using r unfolding idxrep_def rl len by simp
qed

definition extend :: "aidx \<Rightarrow> nat \<Rightarrow> nat \<Rightarrow> string \<Rightarrow> nat \<Rightarrow> string \<Rightarrow> aidx" where
  "extend A x v k o' dt = A\<lparr>cell := (cell A)(x := v), offs := offs A @ [x],
     akey := (akey A)(x := k), adoff := (adoff A)(x := o'), adat := (adat A)(x := dt)\<rparr>"

lemma idxrep_extend:
  assumes r: "idxrep b A" and v: "v < 10 ^ 6" and ok: "recok (extend A (length b) v k o' dt) (length b)"
  shows "idxrep (b @ fmtw 6 v @ fmtw 4 (rlen (extend A (length b) v k o' dt) (length b)) @ idx_text k o' (length dt + 1))
           (extend A (length b) v k o' dt)" (is "idxrep (b @ ?s) ?A")
proof -
  let ?x = "length b"
  have tx: "idx_text k o' (length dt + 1) = atxt ?A ?x" by (simp add: atxt_def extend_def)
  have l6: "length (fmtw 6 v) = 6" using v by simp
  have ls: "length ?s = 10 + rlen ?A ?x" using tail_length [OF ok] l6 unfolding tx by simp
  have ge: "829 \<le> ?x" using r tiled_le by (auto simp: idxrep_def)
  have sxx: "seg (b @ ?s) ?x ?s" by (simp add: seg_def)
  then have sx: "seg (b @ ?s) ?x (fmtw 6 v)" "seg (b @ ?s) (?x + 6) (fmtw 4 (rlen ?A ?x) @ atxt ?A ?x)"
    unfolding tx using l6 by (simp_all add: seg_append)
  have notin: "y \<noteq> ?x" if "y \<in> set (offs A)" for y using offs_ge [OF r that] by simp
  have old: "rlen ?A y = rlen A y" "atxt ?A y = atxt A y" "recok ?A y = recok A y"
    if "y \<in> set (offs A)" for y
    using notin [OF that] by (simp_all add: recok_def rlen_def atxt_def extend_def)
  have "tiled (\<lambda>x. 10 + rlen ?A x) 829 (offs A) ?x"
    using r by (subst tiled_cong [where sz' = "\<lambda>x. 10 + rlen A x"]) (auto simp: idxrep_def old)
  then have "tiled (\<lambda>x. 10 + rlen ?A x) 829 (offs ?A) (length (b @ ?s))"
    using ls unfolding length_append by (simp add: extend_def tiled_append)
  moreover have "seg (b @ ?s) c (fmtw 6 (cell ?A c)) \<and> cell ?A c < 10 ^ 6" if c: "c \<in> cells ?A" for c
  proof (cases "c = ?x")
    case True
    then show ?thesis using v sx(1) by (simp add: extend_def)
  next
    case False
    then have "c \<in> cells A" using c by (auto simp: cells_def extend_def)
    then show ?thesis using idxrep_cell [OF r] False by (simp add: extend_def seg_append_file)
  qed
  moreover have "seg (b @ ?s) 828 [newline]" using r by (intro seg_append_file) (simp add: idxrep_def)
  moreover have "seg (b @ ?s) (y + 6) (fmtw 4 (rlen ?A y) @ atxt ?A y) \<and> recok ?A y"
    if y: "y \<in> set (offs ?A)" for y
  proof (cases "y = ?x")
    case True
    then show ?thesis using sx(2) ok by simp
  next
    case False
    then have "y \<in> set (offs A)" using y by (simp add: extend_def)
    then show ?thesis using idxrep_rec [OF r] by (simp add: old seg_append_file)
  qed
  ultimately show ?thesis unfolding idxrep_def by blast
qed

subsection \<open>Data records\<close>

lemma idxrep_setdat:
  assumes "idxrep b A" and "length dt = length (adat A x)" and "nul \<notin> set dt"
  shows "idxrep b (A\<lparr>adat := (adat A)(x := dt)\<rparr>)" (is "idxrep b ?A")
proof -
  have "atxt ?A y = atxt A y" for y using assms(2) by (simp add: atxt_def)
  then have "rlen ?A = rlen A" "atxt ?A = atxt A" by (auto simp: fun_eq_iff rlen_def)
  moreover have "recok ?A y" if "recok A y" for y
    using that assms(2,3) calculation(1) by (auto simp: recok_def simp flip: length_greater_0_conv)
  ultimately show ?thesis using assms(1) by (simp add: idxrep_def cells_def)
qed

lemma datrep_cong:
  "offs A = offs A' \<Longrightarrow> adoff A = adoff A' \<Longrightarrow> adat A = adat A' \<Longrightarrow> datrep b A = datrep b A'"
  by (simp add: datrep_def)

lemma datrep_setdat:
  assumes r: "datrep b A" and x: "x \<in> set (offs A)" and l: "length dt = length (adat A x)"
  shows "datrep (pwrite b (adoff A x) (dt @ [newline])) (A\<lparr>adat := (adat A)(x := dt)\<rparr>)"
proof -
  have "seg (pwrite b (adoff A x) (dt @ [newline])) (adoff A y) (adat A y @ [newline])"
    if "y \<in> set (offs A)" "y \<noteq> x" for y
    using r x that l by (intro seg_pwrite_other) (auto simp: datrep_def disjoint_ivl_def)
  then show ?thesis
    using r x l by (auto simp: datrep_def seg_pwrite_same)
qed

lemma datrep_extend:
  assumes r: "datrep b A" and x: "x \<notin> set (offs A)"
  shows "datrep (b @ dt @ [newline]) (extend A x v k (length b) dt)"
proof -
  have "seg (b @ dt @ [newline]) (length b) (dt @ [newline])" by (simp add: seg_def)
  moreover have "adoff A y + (length (adat A y) + 1) \<le> length b" if "y \<in> set (offs A)" for y
    using r that segD [of b "adoff A y" "adat A y @ [newline]"] by (auto simp: datrep_def)
  ultimately show ?thesis
    using r x by (auto simp: datrep_def extend_def seg_append_file disjoint_ivl_def)
qed

end
