(* ===== verification/DbOps.thy ===== *)
theory DbOps
  imports DbWrites
begin

section \<open>The database: the internal operations on represented files\<close>

text \<open>
  \<open>core d A H\<close>: the files of \<open>d\<close> represent \<open>A\<close> with chains \<open>H\<close> and no system call fails.  The
  lemmas give the exact result of every internal function of \<^verbatim>\<open>db.c\<close> (search, free-list search,
  delete, append, reuse) on such a state, as a move of a record between chains.
\<close>

definition core :: "db \<Rightarrow> aidx \<Rightarrow> (nat \<Rightarrow> nat list) \<Rightarrow> bool" where
  "core d A H \<longleftrightarrow> quiet d \<and> idxrep (idxfile d) A \<and> datrep (datfile d) A \<and> chains A H \<and>
     nhash d = 137 \<and> hashoff d = 6"

lemma coreD:
  assumes "core d A H"
  shows "quiet d" "idxrep (idxfile d) A" "datrep (datfile d) A" "chains A H" "nhash d = 137" "hashoff d = 6"
  using assms by (simp_all add: core_def)

lemma core_ge: "core d A H \<Longrightarrow> \<forall>x\<in>set (offs A). 829 \<le> x"
  using offs_ge by (auto simp: core_def)

lemma core_recok: "core d A H \<Longrightarrow> x \<in> set (offs A) \<Longrightarrow> recok A x"
  by (auto simp: core_def dest: idxrep_rec)

lemma core_key: "core d A H \<Longrightarrow> x \<in> set (offs A) \<Longrightarrow> nul \<notin> set (akey A x)"
  by (auto dest!: core_recok simp: recok_def)

lemma core_chain_offs: "core d A H \<Longrightarrow> j < 138 \<Longrightarrow> x \<in> set (H j) \<Longrightarrow> x \<in> set (offs A)"
  using chains_offs coreD(4) by blast

lemma core_cell_lt: "core d A H \<Longrightarrow> c \<in> cells A \<Longrightarrow> cell A c < 10 ^ 6"
  using idxrep_cell coreD(2) by blast

lemma last_in_cells:
  "core d A H \<Longrightarrow> j < 138 \<Longrightarrow> H j = xs @ ys \<Longrightarrow> last (6 * j # xs) \<in> cells A"
  using core_chain_offs [of d A H j "last xs"] by (auto simp: cells_header)

lemma core_off_lt:
  assumes "core d A H" and "j < 138" and "H j = xs @ x # ys"
  shows "x < 10 ^ 6"
  using path_split [of "cell A" 0 "6 * j" xs x ys] chains_path [OF coreD(4) [OF assms(1)] assms(2)]
    core_cell_lt [OF assms(1) last_in_cells [OF assms(1,2)], of xs "x # ys"] assms(3)
  by auto

lemma bucket_off: "nhash d = 137 \<Longrightarrow> hashoff d = 6 \<Longrightarrow> db_hash d k * PTR_SZ + hashoff d = 6 * bucket k"
  by (simp add: db_hash_def bucket_def PTR_SZ_def)

subsection \<open>Locks\<close>

definition unlocked :: "dbfd \<Rightarrow> nat \<Rightarrow> nat \<Rightarrow> flock list \<Rightarrow> flock list" where
  "unlocked fd s l = filter (\<lambda>(f, s', l', t). (f, s', l') \<noteq> (fd, s, l))"

lemma unlocked_simps [simp]:
  "unlocked fd s l [] = []"
  "unlocked fd s l ((f, s', l', t) # ls) =
     (if f = fd \<and> s' = s \<and> l' = l then unlocked fd s l ls else (f, s', l', t) # unlocked fd s l ls)"
  by (simp_all add: unlocked_def)

lemma unlocked_id [simp]: "\<forall>(f, s', l', t)\<in>set ls. l' \<noteq> l \<Longrightarrow> unlocked fd s l ls = ls"
  by (auto simp: unlocked_def filter_id_conv)

lemma lockw_quiet [simp]: "quiet d \<Longrightarrow> lockw d fd s l ty m = ret (d\<lparr>locks := (fd, s, l, ty) # locks d\<rparr>)"
  by (simp add: lockw_def)

lemma un_lock_quiet [simp]: "quiet d \<Longrightarrow> un_lock d fd s l m = ret (d\<lparr>locks := unlocked fd s l (locks d)\<rparr>)"
  by (simp add: un_lock_def unlocked_def)

subsection \<open>Walking a chain\<close>

lemma load_sel [simp]:
  "idxfile (load A x d) = idxfile d" "datfile (load A x d) = datfile d" "locks (load A x d) = locks d"
  "chainoff (load A x d) = chainoff d" "nhash (load A x d) = nhash d" "hashoff (load A x d) = hashoff d"
  "quiet (load A x d) = quiet d" "ptroff (load A x d) = ptroff d" "idxoff (load A x d) = x"
  "datoff (load A x d) = adoff A x" "datlen (load A x d) = length (adat A x) + 1"
  "ptrval (load A x d) = int (cell A x)" "idxpos (load A x d) = x + 10 + rlen A x"
  "sysfail (load A x d) = sysfail d"
  by (simp_all add: load_def quiet_def)

lemma load_idxbuf [simp]: "nul \<notin> set (akey A x) \<Longrightarrow> cstr (idxbuf (load A x d)) = akey A x"
  by (simp add: load_def)

definition scan :: "aidx \<Rightarrow> nat list \<Rightarrow> db \<Rightarrow> db" where
  "scan A = fold (\<lambda>y d. (load A y d)\<lparr>ptroff := y\<rparr>)"

definition fscan :: "aidx \<Rightarrow> nat list \<Rightarrow> db \<Rightarrow> db" where
  "fscan A = fold (load A)"

lemma scan_simps [simp]:
  "scan A [] d = d" "scan A (x # xs) d = scan A xs ((load A x d)\<lparr>ptroff := x\<rparr>)"
  "fscan A [] d = d" "fscan A (x # xs) d = fscan A xs (load A x d)"
  by (simp_all add: scan_def fscan_def)

lemma scan_sel [simp]:
  "idxfile (scan A xs d) = idxfile d" "datfile (scan A xs d) = datfile d" "locks (scan A xs d) = locks d"
  "chainoff (scan A xs d) = chainoff d" "nhash (scan A xs d) = nhash d" "hashoff (scan A xs d) = hashoff d"
  "quiet (scan A xs d) = quiet d"
  by (induction xs arbitrary: d) simp_all

lemma scan_ptroff: "ptroff (scan A xs d) = last (ptroff d # xs)"
  by (induction xs arbitrary: d) simp_all

lemma fscan_sel [simp]:
  "idxfile (fscan A xs d) = idxfile d" "datfile (fscan A xs d) = datfile d" "locks (fscan A xs d) = locks d"
  "chainoff (fscan A xs d) = chainoff d" "nhash (fscan A xs d) = nhash d" "hashoff (fscan A xs d) = hashoff d"
  "quiet (fscan A xs d) = quiet d" "ptroff (fscan A xs d) = ptroff d"
  by (induction xs arbitrary: d) simp_all

lemma find_walk_found:
  assumes "quiet d" and "idxrep (idxfile d) A" and "path (cell A) 0 c (xs @ x # ys)"
    and "set (xs @ [x]) \<subseteq> set (offs A)" and "\<forall>y\<in>set xs. akey A y \<noteq> k" and "akey A x = k"
  shows "find_walk k (int (cell A c)) d = ret (int x, load A x (scan A xs d))"
  using assms
proof (induction xs arbitrary: c d)
  case Nil
  then have "nul \<notin> set (akey A x)" using idxrep_rec [of "idxfile d" A x] by (simp add: recok_def)
  with Nil show ?case by (subst find_walk.simps) (simp add: db_readidx_at(1) [of _ A x])
next
  case (Cons z zs)
  then have "nul \<notin> set (akey A z)" using idxrep_rec [of "idxfile d" A z] by (simp add: recok_def)
  with Cons.prems have "find_walk k (int (cell A c)) d = find_walk k (int (cell A z)) ((load A z d)\<lparr>ptroff := z\<rparr>)"
    by (subst find_walk.simps) (simp add: db_readidx_at(1) [of _ A z])
  also have "\<dots> = ret (int x, load A x (scan A zs ((load A z d)\<lparr>ptroff := z\<rparr>)))"
    using Cons.prems by (intro Cons.IH) simp_all
  finally show ?case by simp
qed

lemma find_walk_missing:
  assumes "quiet d" and "idxrep (idxfile d) A" and "path (cell A) 0 c xs"
    and "set xs \<subseteq> set (offs A)" and "\<forall>y\<in>set xs. akey A y \<noteq> k"
  shows "find_walk k (int (cell A c)) d = ret (0, scan A xs d)"
  using assms
proof (induction xs arbitrary: c d)
  case Nil
  then show ?case by (subst find_walk.simps) simp
next
  case (Cons z zs)
  then have "nul \<notin> set (akey A z)" using idxrep_rec [of "idxfile d" A z] by (simp add: recok_def)
  with Cons.prems have "find_walk k (int (cell A c)) d = find_walk k (int (cell A z)) ((load A z d)\<lparr>ptroff := z\<rparr>)"
    by (subst find_walk.simps) (simp add: db_readidx_at(1) [of _ A z])
  also have "\<dots> = ret (0, scan A zs ((load A z d)\<lparr>ptroff := z\<rparr>))"
    using Cons.prems by (intro Cons.IH) simp_all
  finally show ?case by simp
qed

text \<open>What \<^verbatim>\<open>_db_find_and_lock\<close> leaves: the chain of the key locked by its first byte.\<close>

definition entered :: "db \<Rightarrow> nat \<Rightarrow> bool \<Rightarrow> db" where
  "entered d j w = d\<lparr>chainoff := 6 * j, ptroff := 6 * j,
     locks := (IdxFd, 6 * j, 1, if w then WrLck else RdLck) # locks d, idxpos := 6 * j + 6\<rparr>"

lemma entered_sel [simp]:
  "idxfile (entered d j w) = idxfile d" "datfile (entered d j w) = datfile d"
  "locks (entered d j w) = (IdxFd, 6 * j, 1, if w then WrLck else RdLck) # locks d"
  "chainoff (entered d j w) = 6 * j" "nhash (entered d j w) = nhash d" "hashoff (entered d j w) = hashoff d"
  "quiet (entered d j w) = quiet d" "ptroff (entered d j w) = 6 * j"
  by (simp_all add: entered_def)

lemma core_cong:
  "idxfile d' = idxfile d \<Longrightarrow> datfile d' = datfile d \<Longrightarrow> nhash d' = nhash d \<Longrightarrow> hashoff d' = hashoff d \<Longrightarrow>
     quiet d' = quiet d \<Longrightarrow> core d' A H = core d A H"
  by (simp add: core_def)

lemma find_and_lock_walk:
  assumes c: "core d A H"
  shows "db_find_and_lock d k w =
    rbind (find_walk k (int (cell A (6 * bucket k))) (entered d (bucket k) w))
      (\<lambda>(offset, d). ret (if offset = 0 then - 1 else 0, d))"
proof -
  have "6 * bucket k \<in> cells A" by (intro cells_header) simp
  moreover have "db_hash d k * PTR_SZ + hashoff d = 6 * bucket k"
    using coreD(5,6) [OF c] by (rule bucket_off)
  ultimately show ?thesis
    using coreD [OF c] db_readptr_rep [of _ A "6 * bucket k"]
    unfolding db_find_and_lock_def Let_def by (simp add: entered_def)
qed

lemma find_and_lock_found:
  assumes c: "core d A H" and H: "H (bucket k) = xs @ x # ys" and k: "akey A x = k"
  shows "db_find_and_lock d k w = ret (0, load A x (scan A xs (entered d (bucket k) w)))"
proof -
  have "inj_on (akey A) (set (H (bucket k)))" and "distinct (H (bucket k))"
    using chains_inj [OF coreD(4) [OF c], of "bucket k"] chains_distinct [OF coreD(4) [OF c], of "bucket k"] by auto
  then have nk: "\<forall>y\<in>set xs. akey A y \<noteq> k" using H k by (auto simp: inj_on_def)
  have p: "path (cell A) 0 (6 * bucket k) (xs @ x # ys)"
    using chains_path [OF coreD(4) [OF c], of "bucket k"] H by simp
  have s: "set (xs @ [x]) \<subseteq> set (offs A)" using core_chain_offs [OF c, of "bucket k"] H by auto
  have "x \<noteq> 0" using path_split [OF p] by simp
  then show ?thesis
    using find_walk_found [of "entered d (bucket k) w" A, OF _ _ p s nk k] coreD [OF c]
    by (simp add: find_and_lock_walk [OF c])
qed

lemma find_and_lock_missing:
  assumes c: "core d A H" and k: "absmap A H k = None"
  shows "db_find_and_lock d k w = ret (- 1, scan A (H (bucket k)) (entered d (bucket k) w))"
proof -
  have "set (H (bucket k)) \<subseteq> set (offs A)" using core_chain_offs [OF c, of "bucket k"] by auto
  moreover have "\<forall>y\<in>set (H (bucket k)). akey A y \<noteq> k" using k by (auto simp: absmap_None)
  ultimately show ?thesis
    using find_walk_missing [of "entered d (bucket k) w" A] coreD [OF c]
      chains_path [OF coreD(4) [OF c], of "bucket k"]
    by (simp add: find_and_lock_walk [OF c])
qed

subsection \<open>The writes\<close>

lemma writeptr_quiet:
  "quiet d \<Longrightarrow> v < 10 ^ 6 \<Longrightarrow>
     db_writeptr d c (int v) = ret (d\<lparr>idxfile := pwrite (idxfile d) c (fmtw 6 v), idxpos := c + 6\<rparr>)"
  by (simp add: db_writeptr_def PTR_MAX_def PTR_SZ_def)

lemma writeidx_set:
  assumes "quiet d" and "v < 10 ^ 6" and "t = idx_text k (datoff d) (datlen d)"
    and "6 \<le> length t" and "length t \<le> 1024"
  shows "db_writeidx d k c SeekSet (int v) =
    ret (d\<lparr>ptrval := int v, idxbuf := t @ [nul], idxoff := c,
           idxfile := pwrite (idxfile d) c (fmtw 6 v @ fmtw 4 (length t) @ t),
           idxpos := c + (10 + length t)\<rparr>)"
  using assms
  by (simp add: db_writeidx_def PTR_MAX_def PTR_SZ_def IDXLEN_SZ_def IDXLEN_MIN_def IDXLEN_MAX_def Let_def)

lemma writeidx_end:
  assumes "quiet d" and "v < 10 ^ 6" and "t = idx_text k (datoff d) (datlen d)"
    and "6 \<le> length t" and "length t \<le> 1024" and "\<forall>(f, s, l, t)\<in>set (locks d). l \<noteq> 0"
  shows "db_writeidx d k 0 SeekEnd (int v) =
    ret (d\<lparr>ptrval := int v, idxbuf := t @ [nul], idxoff := length (idxfile d),
           idxfile := idxfile d @ fmtw 6 v @ fmtw 4 (length t) @ t,
           idxpos := length (idxfile d) + (10 + length t)\<rparr>)"
  using assms
  by (simp add: db_writeidx_def PTR_MAX_def PTR_SZ_def IDXLEN_SZ_def IDXLEN_MIN_def IDXLEN_MAX_def
      pwrite_append Let_def)

lemma writedat_set:
  "quiet d \<Longrightarrow> db_writedat d v p SeekSet =
     ret (d\<lparr>datoff := p, datlen := length v + 1, datfile := pwrite (datfile d) p (v @ [newline])\<rparr>)"
  by (simp add: db_writedat_def)

lemma writedat_end:
  assumes "quiet d" and "\<forall>(f, s, l, t)\<in>set (locks d). l \<noteq> 0"
  shows "db_writedat d v 0 SeekEnd =
     ret (d\<lparr>datoff := length (datfile d), datlen := length v + 1, datfile := datfile d @ v @ [newline]\<rparr>)"
  using assms by (simp add: db_writedat_def pwrite_append)

end
