(* ===== verification/DbRefine.thy ===== *)
theory DbRefine
  imports DbOps
begin

section \<open>The database: the operations refine a map\<close>

text \<open>
  \<open>db_rep d m\<close>: the two files stand for the map \<open>m\<close>, no lock is held, no system call fails.
  Fetch, store and delete are proved to answer as the map does and to leave files that stand for
  the updated map; the interface \<open>kv_store\<close> states this contract, and a whole sequence of commands
  is simulated from it.
\<close>

subsection \<open>Delete\<close>

definition blanks :: "string \<Rightarrow> string" where
  "blanks s = replicate (length s) space"

lemma blanks_simps [simp]:
  "length (blanks s) = length s" "nul \<notin> set (blanks s)" "SEP \<notin> set (blanks s)" "set (blanks s) \<subseteq> {space}"
  by (auto simp: blanks_def)

text \<open>The structure after the record at \<open>x\<close> of chain \<open>j\<close> behind \<open>xs\<close> was found.\<close>

definition at_rec :: "db \<Rightarrow> aidx \<Rightarrow> nat \<Rightarrow> nat list \<Rightarrow> nat \<Rightarrow> bool" where
  "at_rec d A j xs x \<longleftrightarrow> idxoff d = x \<and> datoff d = adoff A x \<and> datlen d = length (adat A x) + 1 \<and>
     ptrval d = int (cell A x) \<and> cstr (idxbuf d) = akey A x \<and> ptroff d = last (6 * j # xs) \<and>
     chainoff d = 6 * j"

definition same_size :: "db \<Rightarrow> db \<Rightarrow> bool" where
  "same_size d d' \<longleftrightarrow> length (idxfile d') = length (idxfile d) \<and> length (datfile d') = length (datfile d)"

lemma length_put: "idxrep b A \<Longrightarrow> c \<in> cells A \<Longrightarrow> v < 10 ^ 6 \<Longrightarrow> length (pwrite b c (fmtw 6 v)) = length b"
  using cell_in_file [of b A c] by simp

lemma length_setdat:
  "datrep b A \<Longrightarrow> x \<in> set (offs A) \<Longrightarrow> length dt = length (adat A x) \<Longrightarrow>
     length (pwrite b (adoff A x) (dt @ [newline])) = length b"
  using segD [of b "adoff A x" "adat A x @ [newline]"] by (auto simp: datrep_def)

lemma length_rewrite:
  "idxrep b A \<Longrightarrow> x \<in> set (offs A) \<Longrightarrow> length s = 10 + rlen A x \<Longrightarrow> length (pwrite b x s) = length b"
  using offs_ge [of b A x] by simp

text \<open>The record at \<open>x\<close> rewritten with key \<open>k\<close>, data \<open>v\<close> and pointer \<open>p\<close> (both files).\<close>

lemma rewrite_rep:
  assumes i: "idxrep b A" and e: "datrep e A" and x: "x \<in> set (offs A)" and p: "p < 10 ^ 6"
    and k: "length k = length (akey A x)" "nul \<notin> set k" "SEP \<notin> set k"
    and v: "length v = length (adat A x)" "nul \<notin> set v"
    and t: "t = idx_text k (adoff A x) (length v + 1)"
  shows "length t = rlen A x" and "6 \<le> length t" and "length t \<le> 1024"
    and "idxrep (pwrite b x (fmtw 6 p @ fmtw 4 (length t) @ t)) (rewrite (A\<lparr>adat := (adat A)(x := v)\<rparr>) x p k)"
    and "datrep (pwrite e (adoff A x) (v @ [newline])) (rewrite (A\<lparr>adat := (adat A)(x := v)\<rparr>) x p k)"
    and "length (pwrite b x (fmtw 6 p @ fmtw 4 (length t) @ t)) = length b"
proof -
  let ?A = "A\<lparr>adat := (adat A)(x := v)\<rparr>"
  have ok: "recok A x" using idxrep_rec [OF i x] by simp
  show lt: "length t = rlen A x" using k(1) v(1) t by (simp add: rlen_def atxt_def length_idx_text)
  with ok show "6 \<le> length t" "length t \<le> 1024" by (simp_all add: recok_def)
  have "rlen ?A x = rlen A x" using v(1) by (simp add: rlen_def atxt_def)
  moreover have "idxrep b ?A" by (rule idxrep_setdat [OF i v])
  ultimately show "idxrep (pwrite b x (fmtw 6 p @ fmtw 4 (length t) @ t)) (rewrite ?A x p k)"
    using idxrep_rewrite [of b ?A x p k] x p k lt t by simp
  show "datrep (pwrite e (adoff A x) (v @ [newline])) (rewrite ?A x p k)"
    using datrep_setdat [OF e x v(1)] by (simp add: datrep_def rewrite_def)
  have "length (fmtw 4 (length t)) = 4" "length (fmtw 6 p) = 6" using lt ok p by (simp_all add: recok_def)
  then show "length (pwrite b x (fmtw 6 p @ fmtw 4 (length t) @ t)) = length b"
    using lt by (intro length_rewrite [OF i x]) simp
qed

lemma dodelete_core:
  assumes c: "core d A H" and j: "j < 138" "j \<noteq> 0" and H: "H j = xs @ x # ys"
    and l: "locks d = [(IdxFd, 6 * j, 1, ty)]" and at: "at_rec d A j xs x"
  shows "\<exists>d'. db_dodelete d = ret d' \<and>
    core d' (move A (last (6 * j # xs)) x 0 (blanks (akey A x)) (blanks (adat A x))) (H(j := xs @ ys, 0 := x # H 0)) \<and>
    locks d' = locks d \<and> chainoff d' = chainoff d \<and> same_size d d'"
proof -
  let ?p = "last (6 * j # xs)"
  let ?k = "blanks (akey A x)" let ?v = "blanks (adat A x)"
  note cd = coreD [OF c]
  have x: "x \<in> set (offs A)" using core_chain_offs [OF c j(1)] H by simp
  have x0: "829 \<le> x" using core_ge [OF c] x by blast
  have xlt: "x < 10 ^ 6" by (rule core_off_lt [OF c j(1) H])
  have p: "?p \<in> cells A" by (rule last_in_cells [OF c j(1) H])
  have z: "0 \<in> cells A" using cells_header [of 0 A] by simp
  have dist: "distinct (xs @ x # ys)" using chains_distinct [OF cd(4) j(1)] H by simp
  have px: "?p \<noteq> x" using dist x0 j(1) by auto
  have "?p = 6 * j \<or> ?p \<in> set (offs A)" using core_chain_offs [OF c j(1), of ?p] H by auto
  then have p0: "?p \<noteq> 0" using core_ge [OF c] j(2) by auto
  have lt: "cell A 0 < 10 ^ 6" "cell A x < 10 ^ 6" using core_cell_lt [OF c] x z by auto
  define t where "t = idx_text ?k (adoff A x) (length ?v + 1)"
  note rw = rewrite_rep [OF cd(2,3) x lt(1) _ _ _ _ _ t_def, simplified]
  define A1 where "A1 = rewrite (A\<lparr>adat := (adat A)(x := ?v)\<rparr>) x (cell A 0) ?k"
  define f1 where "f1 = pwrite (idxfile d) x (fmtw 6 (cell A 0) @ fmtw 4 (length t) @ t)"
  define f2 where "f2 = pwrite f1 0 (fmtw 6 x)"
  define f3 where "f3 = pwrite f2 ?p (fmtw 6 (cell A x))"
  define A2 where "A2 = A1\<lparr>cell := (cell A1)(0 := x)\<rparr>"
  define A3 where "A3 = A2\<lparr>cell := (cell A2)(?p := cell A x)\<rparr>"
  have cs: "cells A1 = cells A" "cells A2 = cells A" by (simp_all add: cells_def A1_def A2_def rewrite_def)
  have r1: "idxrep f1 A1" using rw(4) by (simp add: f1_def A1_def)
  have r2: "idxrep f2 A2" unfolding f2_def A2_def using r1 z xlt cs by (intro idxrep_put) auto
  have r3: "idxrep f3 A3" unfolding f3_def A3_def using r2 p lt cs by (intro idxrep_put) auto
  have "length f3 = length f2" unfolding f3_def by (rule length_put [OF r2]) (use p cs lt in auto)
  moreover have "length f2 = length f1" unfolding f2_def by (rule length_put [OF r1]) (use z cs xlt in auto)
  moreover have "length f1 = length (idxfile d)" using rw(6) by (simp add: f1_def)
  ultimately have len: "length f3 = length (idxfile d)" by simp
  have eq: "A3 = move A ?p x 0 ?k ?v"
    using px p0 x0 by (auto simp: A3_def A2_def A1_def rewrite_def move_def fun_eq_iff)
  have dr: "datrep (pwrite (datfile d) (adoff A x) (?v @ [newline])) A3"
    using rw(5) by (simp add: datrep_def A3_def A2_def rewrite_def A1_def)
  have ch: "chains A3 (H(j := xs @ ys, 0 := x # H 0))"
    unfolding eq using core_ge [OF c] j H by (intro chains_move [OF cd(4)]) auto
  have b: "replicate (datlen d - Suc 0) space = ?v" "replicate (length (akey A x)) space = ?k"
    using at by (simp_all add: at_rec_def blanks_def)
  have le: "length (pwrite (datfile d) (adoff A x) (?v @ [newline])) = length (datfile d)"
    by (rule length_setdat [OF cd(3) x]) simp
  have tt: "t = idx_text ?k (adoff A x) (Suc (length (adat A x)))" by (simp add: t_def)
  show ?thesis
    using cd(1) at l j(2) xlt lt rw(2,3) r3 dr ch cd(5,6) b len le
      db_readptr_rep [of _ A 0, OF _ _ z] cd(2)
    unfolding eq [symmetric] f3_def f2_def f1_def
    by (simp add: db_dodelete_def at_rec_def FREE_OFF_def writedat_set writeptr_quiet
        writeidx_set [where t = t] tt [symmetric] core_def same_size_def Let_def)
qed

subsection \<open>The free list\<close>

definition fits :: "aidx \<Rightarrow> nat \<Rightarrow> nat \<Rightarrow> nat \<Rightarrow> bool" where
  "fits A kl dl y \<longleftrightarrow> length (akey A y) = kl \<and> length (adat A y) + 1 = dl"

lemma free_walk_found:
  assumes "quiet d" and "idxrep (idxfile d) A" and "path (cell A) 0 c (xs @ x # ys)"
    and "set (xs @ [x]) \<subseteq> set (offs A)" and "\<forall>y\<in>set xs. \<not> fits A kl dl y" and "fits A kl dl x"
  shows "free_walk kl dl c (int (cell A c)) d = ret (last (c # xs), int x, load A x (fscan A xs d))"
  using assms
proof (induction xs arbitrary: c d)
  case Nil
  then have "nul \<notin> set (akey A x)" using idxrep_rec [of "idxfile d" A x] by (simp add: recok_def)
  with Nil show ?case by (subst free_walk.simps) (simp add: db_readidx_at(1) [of _ A x] fits_def)
next
  case (Cons z zs)
  then have "nul \<notin> set (akey A z)" using idxrep_rec [of "idxfile d" A z] by (simp add: recok_def)
  with Cons.prems have "free_walk kl dl c (int (cell A c)) d = free_walk kl dl z (int (cell A z)) (load A z d)"
    by (subst free_walk.simps) (auto simp: db_readidx_at(1) [of _ A z] fits_def)
  also have "\<dots> = ret (last (z # zs), int x, load A x (fscan A zs (load A z d)))"
    using Cons.prems by (intro Cons.IH) simp_all
  finally show ?case by simp
qed

lemma free_walk_missing:
  assumes "quiet d" and "idxrep (idxfile d) A" and "path (cell A) 0 c xs"
    and "set xs \<subseteq> set (offs A)" and "\<forall>y\<in>set xs. \<not> fits A kl dl y"
  shows "free_walk kl dl c (int (cell A c)) d = ret (last (c # xs), 0, fscan A xs d)"
  using assms
proof (induction xs arbitrary: c d)
  case Nil
  then show ?case by (subst free_walk.simps) simp
next
  case (Cons z zs)
  then have "nul \<notin> set (akey A z)" using idxrep_rec [of "idxfile d" A z] by (simp add: recok_def)
  with Cons.prems have "free_walk kl dl c (int (cell A c)) d = free_walk kl dl z (int (cell A z)) (load A z d)"
    by (subst free_walk.simps) (auto simp: db_readidx_at(1) [of _ A z] fits_def)
  also have "\<dots> = ret (last (z # zs), 0, fscan A zs (load A z d))"
    using Cons.prems by (intro Cons.IH) simp_all
  finally show ?case by simp
qed

definition same_env :: "db \<Rightarrow> db \<Rightarrow> bool" where
  "same_env d d' \<longleftrightarrow> datfile d' = datfile d \<and> locks d' = locks d \<and> chainoff d' = chainoff d \<and>
     nhash d' = nhash d \<and> hashoff d' = hashoff d \<and> quiet d' = quiet d"

lemma findfree_found:
  assumes c: "core d A H" and H: "H 0 = xs @ x # ys" and nf: "\<forall>y\<in>set xs. \<not> fits A kl dl y"
    and f: "fits A kl dl x" and l: "locks d = [(IdxFd, 6 * j, 1, ty)]" "j \<noteq> 0"
  shows "\<exists>d'. db_findfree d kl dl = ret (0, d') \<and> same_env d d' \<and>
    idxfile d' = pwrite (idxfile d) (last (0 # xs)) (fmtw 6 (cell A x)) \<and> idxoff d' = x \<and> datoff d' = adoff A x"
proof -
  note cd = coreD [OF c]
  have x: "x \<in> set (offs A)" using core_chain_offs [OF c, of 0] H by simp
  have "path (cell A) 0 0 (xs @ x # ys)" using chains_path [OF cd(4), of 0] H by simp
  moreover have "set (xs @ [x]) \<subseteq> set (offs A)" using core_chain_offs [OF c, of 0] H by auto
  ultimately have w: "free_walk kl dl 0 (int (cell A 0)) d1 = ret (last (0 # xs), int x, load A x (fscan A xs d1))"
    if "quiet d1" "idxfile d1 = idxfile d" for d1
    using that cd(2) nf f by (intro free_walk_found) auto
  have "x \<noteq> 0" using core_ge [OF c] x by auto
  moreover have "cell A x < 10 ^ 6" using core_cell_lt [OF c] x by simp
  moreover have "0 \<in> cells A" using cells_header [of 0 A] by simp
  ultimately show ?thesis
    using cd(1,2) l db_readptr_rep [of _ A 0] w
    by (simp add: db_findfree_def FREE_OFF_def writeptr_quiet same_env_def)
qed

lemma findfree_missing:
  assumes c: "core d A H" and nf: "\<forall>y\<in>set (H 0). \<not> fits A kl dl y"
    and l: "locks d = [(IdxFd, 6 * j, 1, ty)]" "j \<noteq> 0"
  shows "\<exists>d'. db_findfree d kl dl = ret (- 1, d') \<and> same_env d d' \<and> idxfile d' = idxfile d"
proof -
  note cd = coreD [OF c]
  have "path (cell A) 0 0 (H 0)" using chains_path [OF cd(4), of 0] by simp
  moreover have "set (H 0) \<subseteq> set (offs A)" using core_chain_offs [OF c, of 0] by auto
  ultimately have w: "free_walk kl dl 0 (int (cell A 0)) d1 = ret (last (0 # H 0), 0, fscan A (H 0) d1)"
    if "quiet d1" "idxfile d1 = idxfile d" for d1
    using that cd(2) nf by (intro free_walk_missing) auto
  moreover have "0 \<in> cells A" using cells_header [of 0 A] by simp
  ultimately show ?thesis
    using cd(1,2) l db_readptr_rep [of _ A 0] w
    by (simp add: db_findfree_def FREE_OFF_def same_env_def)
qed

subsection \<open>Appending and reusing a record\<close>

definition keyok :: "string \<Rightarrow> bool" where
  "keyok k \<longleftrightarrow> nul \<notin> set k \<and> SEP \<notin> set k \<and> k \<noteq> [] \<and> length k \<le> 1000"

definition dataok :: "string \<Rightarrow> bool" where
  "dataok v \<longleftrightarrow> nul \<notin> set v \<and> v \<noteq> [] \<and> length v < 1024"

definition room :: "db \<Rightarrow> bool" where
  "room d \<longleftrightarrow> length (idxfile d) < 10 ^ 6 \<and> length (datfile d) < 10 ^ 16"

lemma recok_extend:
  assumes "keyok k" and "dataok v" and "o' < 10 ^ 16"
  shows "recok (extend A x p k o' v) x"
proof -
  have "length (dec o') \<le> 16" by (rule length_dec_le) (use assms in auto)
  moreover have "length (dec (length v + 1)) \<le> 4"
    by (rule length_dec_le) (use assms in \<open>auto simp: dataok_def\<close>)
  moreover have "1 \<le> length (dec o')" "1 \<le> length (dec (length v + 1))" "1 \<le> length k"
    using assms(1) by (simp_all add: Suc_le_eq keyok_def)
  ultimately show ?thesis
    using assms by (simp add: recok_def rlen_alt extend_def keyok_def dataok_def)
qed

definition grows :: "db \<Rightarrow> db \<Rightarrow> bool" where
  "grows d d' \<longleftrightarrow> locks d' = locks d \<and> chainoff d' = chainoff d \<and>
     length (idxfile d') \<le> length (idxfile d) + 1034 \<and> length (datfile d') \<le> length (datfile d) + 1024"

lemma store_append_core:
  assumes c: "core d A H" and k: "keyok k" and v: "dataok v" and rm: "room d"
    and l: "locks d = [(IdxFd, 6 * bucket k, 1, ty)]" and co: "chainoff d = 6 * bucket k"
    and nk: "k \<notin> akey A ` set (H (bucket k))"
  shows "\<exists>d'. store_append d k v (int (cell A (6 * bucket k))) = ret d' \<and> grows d d' \<and>
    core d' (newrec A (length (idxfile d)) (bucket k) k (length (datfile d)) v)
      (H(bucket k := length (idxfile d) # H (bucket k)))"
proof -
  let ?b = "bucket k" let ?n = "length (idxfile d)" let ?m = "length (datfile d)"
  note cd = coreD [OF c]
  have hb: "6 * ?b \<in> cells A" by (intro cells_header) simp
  have pv: "cell A (6 * ?b) < 10 ^ 6" by (rule core_cell_lt [OF c hb])
  define A1 where "A1 = extend A ?n (cell A (6 * ?b)) k ?m v"
  define A2 where "A2 = A1\<lparr>cell := (cell A1)(6 * ?b := ?n)\<rparr>"
  have ok: "recok A1 ?n" unfolding A1_def using k v rm by (intro recok_extend) (simp_all add: room_def)
  define t where "t = idx_text k ?m (length v + 1)"
  have rt: "rlen A1 ?n = length t" by (simp add: rlen_def atxt_def t_def A1_def extend_def)
  have lt: "6 \<le> length t" "length t \<le> 1024" using ok rt by (simp_all add: recok_def)
  define f1 where "f1 = idxfile d @ fmtw 6 (cell A (6 * ?b)) @ fmtw 4 (length t) @ t"
  define f2 where "f2 = pwrite f1 (6 * ?b) (fmtw 6 ?n)"
  have r1: "idxrep f1 A1" using idxrep_extend [OF cd(2) pv, of k ?m v] ok rt by (simp add: A1_def f1_def t_def)
  have hb1: "6 * ?b \<in> cells A1" using hb by (auto simp: cells_def A1_def extend_def)
  have n: "?n < 10 ^ 6" using rm by (simp add: room_def)
  have r2: "idxrep f2 A2" unfolding f2_def A2_def by (rule idxrep_put [OF r1 hb1 n])
  have nn: "829 \<le> ?n" "?n \<notin> set (offs A)"
    using cd(2) tiled_le offs_ge [OF cd(2), of ?n] by (auto simp: idxrep_def)
  have eq: "A2 = newrec A ?n ?b k ?m v"
    by (simp add: A2_def A1_def newrec_def extend_def)
  have dr: "datrep (datfile d @ v @ [newline]) A2"
    using datrep_extend [OF cd(3) nn(2), of v "cell A (6 * ?b)" k]
    by (simp add: datrep_def A2_def A1_def)
  have ch: "chains A2 (H(?b := ?n # H ?b))"
    unfolding eq using core_ge [OF c] nn nk by (intro chains_newrec [OF cd(4)]) auto
  have "length f2 = length f1" unfolding f2_def by (rule length_put [OF r1 hb1 n])
  moreover have "length f1 \<le> ?n + 1034" using lt pv by (simp add: f1_def)
  ultimately have len: "length f2 \<le> ?n + 1034" by simp
  have tt: "t = idx_text k ?m (Suc (length v))" by (simp add: t_def)
  have lv: "length v < 1024" using v by (simp add: dataok_def)
  show ?thesis
    using cd(1,5,6) l co pv lt n r2 dr ch len lv
    unfolding eq [symmetric] f2_def f1_def
    by (simp add: store_append_def writedat_end writeidx_end [where t = t] tt [symmetric] writeptr_quiet
        core_def grows_def)
qed

lemma store_reuse_core:
  assumes c: "core d A H" and k: "keyok k" and v: "dataok v"
    and H: "H 0 = xs @ x # ys" and f: "fits A (length k) (length v + 1) x"
    and d1: "same_env d d1" "idxfile d1 = pwrite (idxfile d) (last (0 # xs)) (fmtw 6 (cell A x))"
      "idxoff d1 = x" "datoff d1 = adoff A x"
    and l: "locks d = [(IdxFd, 6 * bucket k, 1, ty)]" and co: "chainoff d = 6 * bucket k"
    and nk: "k \<notin> akey A ` set (H (bucket k))"
  shows "\<exists>d'. store_reuse d1 k v (int (cell A (6 * bucket k))) = ret d' \<and> grows d d' \<and>
    core d' (move A (last (0 # xs)) x (bucket k) k v) (H(0 := xs @ ys, bucket k := x # H (bucket k)))"
proof -
  let ?b = "bucket k" let ?p = "last (0 # xs)" let ?pv = "cell A (6 * ?b)"
  note cd = coreD [OF c]
  have H': "H 0 = xs @ x # ys" "(0::nat) < 138" using H by auto
  have x: "x \<in> set (offs A)" using core_chain_offs [OF c, of 0] H by simp
  have x0: "829 \<le> x" using core_ge [OF c] x by blast
  have xlt: "x < 10 ^ 6" by (rule core_off_lt [OF c, of 0]) (use H in auto)
  have p: "?p \<in> cells A" using last_in_cells [OF c H'(2), of xs "x # ys"] H by simp
  have hb: "6 * ?b \<in> cells A" by (intro cells_header) simp
  have lt: "?pv < 10 ^ 6" "cell A x < 10 ^ 6" using core_cell_lt [OF c] x hb by auto
  have dist: "distinct (xs @ x # ys)" using chains_distinct [OF cd(4), of 0] H by simp
  have px: "?p \<noteq> x" using dist x0 by auto
  have "?p = 0 \<or> ?p \<in> set (offs A)" using core_chain_offs [OF c H'(2), of ?p] H by auto
  moreover have "6 * ?b < 829" using bucket_range(2) [of k] by linarith
  ultimately have pb: "?p \<noteq> 6 * ?b" "x \<noteq> 6 * ?b" using core_ge [OF c] x0 by auto
  define A1 where "A1 = A\<lparr>cell := (cell A)(?p := cell A x)\<rparr>"
  define f1 where "f1 = pwrite (idxfile d) ?p (fmtw 6 (cell A x))"
  have r1: "idxrep f1 A1" unfolding f1_def A1_def by (rule idxrep_put [OF cd(2) p lt(2)])
  have e1: "datrep (datfile d) A1" using cd(3) by (simp add: A1_def datrep_def)
  have x1: "x \<in> set (offs A1)" using x by (simp add: A1_def)
  define t where "t = idx_text k (adoff A1 x) (length v + 1)"
  have kv: "length k = length (akey A1 x)" "length v = length (adat A1 x)"
    using f by (simp_all add: fits_def A1_def)
  have nn: "nul \<notin> set k" "SEP \<notin> set k" "nul \<notin> set v" using k v by (simp_all add: keyok_def dataok_def)
  note rw = rewrite_rep [OF r1 e1 x1 lt(1) kv(1) nn(1,2) kv(2) nn(3) t_def]
  define A2 where "A2 = rewrite (A1\<lparr>adat := (adat A1)(x := v)\<rparr>) x ?pv k"
  define f2 where "f2 = pwrite f1 x (fmtw 6 ?pv @ fmtw 4 (length t) @ t)"
  define f3 where "f3 = pwrite f2 (6 * ?b) (fmtw 6 x)"
  define A3 where "A3 = A2\<lparr>cell := (cell A2)(6 * ?b := x)\<rparr>"
  have cs: "cells A2 = cells A" "cells A1 = cells A" by (simp_all add: cells_def A2_def A1_def rewrite_def)
  have r2: "idxrep f2 A2" using rw(4) by (simp add: f2_def A2_def)
  have r3: "idxrep f3 A3" unfolding f3_def A3_def using r2 hb xlt cs by (intro idxrep_put) auto
  have "length f3 = length f2" unfolding f3_def by (rule length_put [OF r2]) (use hb cs xlt in auto)
  moreover have "length f2 = length f1" using rw(6) by (simp add: f2_def)
  moreover have "length f1 = length (idxfile d)" unfolding f1_def by (rule length_put [OF cd(2) p lt(2)])
  ultimately have len: "length f3 = length (idxfile d)" by simp
  have eq: "A3 = move A ?p x ?b k v"
    using px pb by (auto simp: A3_def A2_def A1_def rewrite_def move_def fun_eq_iff)
  have dr: "datrep (pwrite (datfile d) (adoff A x) (v @ [newline])) A3"
    using rw(5) by (simp add: datrep_def A3_def A2_def rewrite_def A1_def)
  have le: "length (pwrite (datfile d) (adoff A x) (v @ [newline])) = length (datfile d)"
    by (rule length_setdat [OF cd(3) x]) (use kv in \<open>simp add: A1_def\<close>)
  have ch: "chains A3 (H(0 := xs @ ys, ?b := x # H ?b))"
    unfolding eq using core_ge [OF c] nk H chains_move [OF cd(4), of 0 ?b xs x ys k v] by simp
  have tt: "t = idx_text k (adoff A x) (Suc (length v))" by (simp add: t_def A1_def)
  show ?thesis
    using d1 cd(1,5,6) l co lt xlt rw(2,3) r3 dr ch len le
    unfolding eq [symmetric] f3_def f2_def f1_def same_env_def
    by (simp add: store_reuse_def writedat_set writeidx_set [where t = t] tt [symmetric] writeptr_quiet
        core_def grows_def)
qed

end
