(* ===== verification/DbSpec.thy ===== *)
theory DbSpec
  imports DbRefine
begin

section \<open>The database: the contract of \<^verbatim>\<open>db_open\<close>, \<^verbatim>\<open>db_fetch\<close>, \<^verbatim>\<open>db_store\<close> and \<^verbatim>\<open>db_delete\<close>\<close>

text \<open>
  \<open>store_spec\<close> and \<open>cmd_spec\<close> say on a map what the public operations promise.  The locale
  \<open>kv_store\<close> states that contract for any store; inside it a whole sequence of commands is
  simulated.  It is interpreted on the model of \<^verbatim>\<open>db.c\<close>.
\<close>

definition db_rep :: "db \<Rightarrow> (string \<Rightarrow> string option) \<Rightarrow> bool" where
  "db_rep d m \<longleftrightarrow> (\<exists>A H. core d A H \<and> locks d = [] \<and> m = absmap A H)"

fun store_spec :: "dbflag \<Rightarrow> (string \<Rightarrow> string option) \<Rightarrow> string \<Rightarrow> string \<Rightarrow> int \<times> (string \<Rightarrow> string option)" where
  "store_spec DB_INSERT m k v = (if m k = None then (0, m(k \<mapsto> v)) else (1, m))"
| "store_spec DB_REPLACE m k v = (if m k = None then (- 1, m) else (0, m(k \<mapsto> v)))"
| "store_spec DB_STORE m k v = (0, m(k \<mapsto> v))"
| "store_spec (DB_BADFLAG i) m k v = (- 1, m)"

lemma db_rep_upd [simp]:
  "db_rep (d\<lparr>cnt_delok := w\<rparr>) = db_rep d" "db_rep (d\<lparr>cnt_delerr := w\<rparr>) = db_rep d"
  "db_rep (d\<lparr>cnt_fetchok := w\<rparr>) = db_rep d" "db_rep (d\<lparr>cnt_fetcherr := w\<rparr>) = db_rep d"
  "db_rep (d\<lparr>cnt_storerr := w\<rparr>) = db_rep d" "db_rep (d\<lparr>errno := e\<rparr>) = db_rep d"
  by (simp_all add: db_rep_def core_def fun_eq_iff)

lemma core_upd [simp]:
  "core (d\<lparr>cnt_delok := w\<rparr>) = core d" "core (d\<lparr>cnt_delerr := w\<rparr>) = core d"
  "core (d\<lparr>cnt_fetchok := w\<rparr>) = core d" "core (d\<lparr>cnt_fetcherr := w\<rparr>) = core d"
  "core (d\<lparr>cnt_storerr := w\<rparr>) = core d" "core (d\<lparr>errno := e\<rparr>) = core d"
  "core (d\<lparr>cnt_stor1 := w\<rparr>) = core d" "core (d\<lparr>cnt_stor2 := w\<rparr>) = core d"
  "core (d\<lparr>cnt_stor3 := w\<rparr>) = core d" "core (d\<lparr>cnt_stor4 := w\<rparr>) = core d"
  "core (d\<lparr>locks := l\<rparr>) = core d" "core (d\<lparr>datbuf := b\<rparr>) = core d"
  by (simp_all add: core_def fun_eq_iff)

lemma at_found:
  assumes c: "core d A H" and H: "H j = xs @ x # ys" and j: "j < 138" and co: "chainoff d = 6 * j" "ptroff d = 6 * j"
  shows "at_rec (load A x (scan A xs d)) A j xs x" and "core (load A x (scan A xs d)) A H"
proof -
  have "nul \<notin> set (akey A x)" using core_chain_offs [OF c j] H core_key [OF c] by auto
  then show "at_rec (load A x (scan A xs d)) A j xs x" using co by (simp add: at_rec_def scan_ptroff)
  show "core (load A x (scan A xs d)) A H" using c by (simp add: core_def)
qed

lemma core_entered [simp]: "core (entered d j w) A H = core d A H"
  by (simp add: core_def)

lemma core_scan [simp]: "core (scan A' xs d) A H = core d A H"
  by (simp add: core_def)

text \<open>The key is found or not: the chain splits at its record.\<close>

lemma found_split:
  assumes "core d A H" and "absmap A H k = Some v"
  obtains xs x ys where "H (bucket k) = xs @ x # ys" "akey A x = k" "adat A x = v"
  using absmap_SomeE [OF assms(2)] by (metis split_list)

theorem fetch_refines:
  assumes "db_rep d m"
  shows "\<exists>d'. db_fetch d k = ret (m k, d') \<and> db_rep d' m \<and> idxfile d' = idxfile d \<and> datfile d' = datfile d"
proof -
  from assms obtain A H where c: "core d A H" and l: "locks d = []" and m: "m = absmap A H"
    by (auto simp: db_rep_def)
  note q = coreD(1) [OF c]
  show ?thesis
  proof (cases "m k")
    case None
    then have n: "absmap A H k = None" by (simp add: m)
    have "db_rep (scan A (H (bucket k)) (entered d (bucket k) False)\<lparr>cnt_fetcherr := w, locks := []\<rparr>) m" for w
      using c m by (auto simp: db_rep_def)
    then show ?thesis using None q l by (simp add: db_fetch_def find_and_lock_missing [OF c n])
  next
    case (Some v)
    then obtain xs x ys where H: "H (bucket k) = xs @ x # ys" and k: "akey A x = k" and v: "adat A x = v"
      using found_split [OF c] m by metis
    have x: "x \<in> set (offs A)" using core_chain_offs [OF c, of "bucket k"] H by simp
    let ?d = "load A x (scan A xs (entered d (bucket k) False))"
    have rd: "db_readdat ?d = ret (adat A x, ?d\<lparr>datbuf := adat A x @ [nul]\<rparr>)"
      using q x core_recok [OF c x] coreD(3) [OF c] by (intro db_readdat_rep) simp_all
    have cl: "core ?d A H" using c by (simp add: core_def)
    then have "db_rep (?d\<lparr>datbuf := b, cnt_fetchok := w, locks := []\<rparr>) m" for w b
      using m by (auto simp: db_rep_def)
    then show ?thesis using Some q l by (simp add: db_fetch_def find_and_lock_found [OF c H k] rd v)
  qed
qed

theorem delete_refines:
  assumes "db_rep d m"
  shows "\<exists>d'. db_delete d k = ret (if m k = None then - 1 else 0, d') \<and> db_rep d' (m(k := None)) \<and> same_size d d'"
proof -
  from assms obtain A H where c: "core d A H" and l: "locks d = []" and m: "m = absmap A H"
    by (auto simp: db_rep_def)
  note q = coreD(1) [OF c]
  show ?thesis
  proof (cases "m k")
    case None
    then have n: "absmap A H k = None" by (simp add: m)
    have "db_rep (scan A (H (bucket k)) (entered d (bucket k) True)\<lparr>cnt_delerr := w, locks := []\<rparr>) m" for w
      using c m by (auto simp: db_rep_def)
    then show ?thesis
      using None q l by (simp add: db_delete_def find_and_lock_missing [OF c n] same_size_def fun_upd_idem)
  next
    case (Some v)
    then obtain xs x ys where H: "H (bucket k) = xs @ x # ys" and k: "akey A x = k"
      using found_split [OF c] m by metis
    let ?d = "load A x (scan A xs (entered d (bucket k) True))"
    have c1: "core (entered d (bucket k) True) A H" using c by simp
    note at = at_found [OF c1 H bucket_range(2)]
    have "locks ?d = [(IdxFd, 6 * bucket k, 1, WrLck)]" using l by simp
    from dodelete_core [OF at(2) _ _ H this at(1)]
    obtain d' A' H' where dd: "db_dodelete ?d = ret d'" and c': "core d' A' H'"
      and A': "A' = move A (last (6 * bucket k # xs)) x 0 (blanks (akey A x)) (blanks (adat A x))"
      and H': "H' = H(bucket k := xs @ ys, 0 := x # H 0)"
      and l': "locks d' = [(IdxFd, 6 * bucket k, 1, WrLck)]" "chainoff d' = 6 * bucket k" "same_size ?d d'"
      using l by auto
    have "absmap A' H' = m(k := None)"
      unfolding m by (rule absmap_unlink [OF coreD(4) [OF c] H k coreD(4) [OF c']]) (simp_all add: A' H')
    then have "db_rep (d'\<lparr>cnt_delok := w, locks := []\<rparr>) (m(k := None))" for w
      using c' unfolding db_rep_def by simp metis
    then show ?thesis
      using Some q dd l' coreD(1) [OF c']
      by (simp add: db_delete_def find_and_lock_found [OF c H k] same_size_def)
  qed
qed

subsection \<open>Store\<close>

text \<open>What the two storing branches leave, before the chain is unlocked.\<close>

definition stored :: "db \<Rightarrow> db \<Rightarrow> string \<Rightarrow> (string \<Rightarrow> string option) \<Rightarrow> bool" where
  "stored d d' k m' \<longleftrightarrow> (\<exists>A' H'. core d' A' H' \<and> absmap A' H' = m') \<and> grows d d'"

lemma store_new_core:
  assumes c: "core d A H" and k: "keyok k" and v: "dataok v" and rm: "room d"
    and l: "locks d = [(IdxFd, 6 * bucket k, 1, ty)]" and co: "chainoff d = 6 * bucket k"
    and n: "absmap A H k = None"
  shows "\<exists>d'. store_new d k v = ret d' \<and> stored d d' k ((absmap A H)(k \<mapsto> v))"
proof -
  let ?b = "bucket k"
  note cd = coreD [OF c]
  have nk: "k \<notin> akey A ` set (H ?b)" using n by (simp add: absmap_None)
  have hb: "6 * ?b \<in> cells A" by (intro cells_header) simp
  define d0 where "d0 = d\<lparr>idxpos := 6 * ?b + 6\<rparr>"
  have rp: "db_readptr d (int (chainoff d)) = ret (int (cell A (6 * ?b)), d0)"
    using db_readptr_rep [OF cd(1,2) hb] co by (simp add: d0_def)
  have d0: "core d0 A H" "room d0" "locks d0 = [(IdxFd, 6 * ?b, 1, ty)]" "chainoff d0 = 6 * ?b"
    using c rm l co by (simp_all add: d0_def core_def room_def)
  have g0: "grows d d' = grows d0 d'" for d' by (simp add: grows_def d0_def)
  show ?thesis
  proof (cases "\<exists>y\<in>set (H 0). fits A (length k) (length v + 1) y")
    case True
    then obtain xs x ys where H: "H 0 = xs @ x # ys" and f: "fits A (length k) (length v + 1) x"
      and nf: "\<forall>y\<in>set xs. \<not> fits A (length k) (length v + 1) y"
      by (auto simp: split_list_first_prop_iff)
    from findfree_found [OF d0(1) H nf f d0(3)] obtain d1 where
      d1: "db_findfree d0 (length k) (length v + 1) = ret (0, d1)" "same_env d0 d1"
        "idxfile d1 = pwrite (idxfile d0) (last (0 # xs)) (fmtw 6 (cell A x))" "idxoff d1 = x" "datoff d1 = adoff A x"
      by auto
    from store_reuse_core [OF d0(1) k v H f d1(2-5) d0(3,4) nk] obtain d' where
      d': "store_reuse d1 k v (int (cell A (6 * ?b))) = ret d'" "grows d0 d'"
        "core d' (move A (last (0 # xs)) x ?b k v) (H(0 := xs @ ys, ?b := x # H ?b))"
      by auto
    have "x \<notin> set (H j)" if "0 < j" "j < 138" for j
      using chains_disj [OF cd(4), of 0 j x] H that by auto
    then have "absmap (move A (last (0 # xs)) x ?b k v) (H(0 := xs @ ys, ?b := x # H ?b)) = (absmap A H)(k \<mapsto> v)"
      using n by (intro absmap_push [OF cd(4) coreD(4) [OF d'(3)]]) auto
    then have "stored d (d'\<lparr>cnt_stor2 := w\<rparr>) k ((absmap A H)(k \<mapsto> v))" for w
      using d'(2,3) unfolding stored_def g0 by (auto simp: grows_def)
    then show ?thesis using rp d1(1) d'(1) by (simp add: store_new_def)
  next
    case False
    then have nf: "\<forall>y\<in>set (H 0). \<not> fits A (length k) (length v + 1) y" by blast
    from findfree_missing [OF d0(1) nf d0(3)] obtain d1 where
      d1: "db_findfree d0 (length k) (length v + 1) = ret (- 1, d1)" "same_env d0 d1" "idxfile d1 = idxfile d0"
      by auto
    have c1: "core d1 A H" "room d1" "locks d1 = [(IdxFd, 6 * ?b, 1, ty)]" "chainoff d1 = 6 * ?b"
      using d0 d1 by (simp_all add: core_def same_env_def room_def)
    have g1: "grows d0 d' = grows d1 d'" for d' using d1 by (simp add: grows_def same_env_def)
    let ?A = "newrec A (length (idxfile d1)) ?b k (length (datfile d1)) v"
    let ?H = "H(?b := length (idxfile d1) # H ?b)"
    from store_append_core [OF c1(1) k v c1(2-4) nk] obtain d' where
      d': "store_append d1 k v (int (cell A (6 * ?b))) = ret d'" "grows d1 d'" "core d' ?A ?H"
      by auto
    have "length (idxfile d1) \<notin> set (offs A)" using offs_ge [OF coreD(2) [OF c1(1)]] by fastforce
    then have "length (idxfile d1) \<notin> set (H j)" if "j < 138" for j
      using chains_offs [OF cd(4) that] by blast
    then have "absmap ?A ?H = (absmap A H)(k \<mapsto> v)"
      using n by (intro absmap_push [OF cd(4) coreD(4) [OF d'(3)]]) auto
    then have "stored d (d'\<lparr>cnt_stor1 := w\<rparr>) k ((absmap A H)(k \<mapsto> v))" for w
      using d'(2,3) unfolding stored_def g0 g1 by (auto simp: grows_def)
    then show ?thesis using rp d1(1) d'(1) by (simp add: store_new_def)
  qed
qed

lemma map_of_upd_other:
  "akey A x \<noteq> k \<Longrightarrow> map_of (map (\<lambda>y. (akey A y, if y = x then v else adat A y)) zs) k =
     map_of (map (\<lambda>y. (akey A y, adat A y)) zs) k"
  by (induction zs) auto

lemma store_found_core:
  assumes c: "core d A H" and k: "keyok k" and v: "dataok v" and rm: "room d"
    and H: "H (bucket k) = xs @ x # ys" and kx: "akey A x = k"
    and l: "locks d = [(IdxFd, 6 * bucket k, 1, ty)]" and at: "at_rec d A (bucket k) xs x"
  shows "\<exists>d'. store_found d k v = ret d' \<and> stored d d' k ((absmap A H)(k \<mapsto> v))"
proof -
  let ?b = "bucket k"
  note cd = coreD [OF c]
  have x: "x \<in> set (offs A)" using core_chain_offs [OF c, of ?b] H by simp
  show ?thesis
  proof (cases "length v = length (adat A x)")
    case True
    define A' where "A' = A\<lparr>adat := (adat A)(x := v)\<rparr>"
    have nv: "nul \<notin> set v" using v by (simp add: dataok_def)
    have ch': "chains A' H" using cd(4) by (simp add: chains_def A'_def)
    have "core (d\<lparr>datoff := adoff A x, datlen := Suc (length v),
        datfile := pwrite (datfile d) (adoff A x) (v @ [newline]), cnt_stor4 := w\<rparr>) A' H" for w
      using cd idxrep_setdat [OF cd(2) True nv] datrep_setdat [OF cd(3) x True] ch'
      by (simp add: core_def A'_def)
    moreover have "absmap A' H = (absmap A H)(k \<mapsto> v)"
    proof (rule ext)
      fix k'
      have "absmap A' H k = Some v" using absmap_Some [OF ch', of x k] H kx by (simp add: A'_def)
      moreover have "absmap A' H k' = absmap A H k'" if "k' \<noteq> k"
        using map_of_upd_other [of A x k' v] that kx by (simp add: absmap_def A'_def)
      ultimately show "absmap A' H k' = ((absmap A H)(k \<mapsto> v)) k'" by simp
    qed
    moreover have "length (pwrite (datfile d) (adoff A x) (v @ [newline])) = length (datfile d)"
      by (rule length_setdat [OF cd(3) x True])
    ultimately show ?thesis
      using True at cd(1) by (auto simp: store_found_def at_rec_def writedat_set stored_def grows_def)
  next
    case False
    from dodelete_core [OF c _ _ H l at] obtain d1 A1 H1 where dd: "db_dodelete d = ret d1" and c1: "core d1 A1 H1"
      and A1: "A1 = move A (last (6 * ?b # xs)) x 0 (blanks (akey A x)) (blanks (adat A x))"
      and H1: "H1 = H(?b := xs @ ys, 0 := x # H 0)"
      and l1: "locks d1 = locks d" "chainoff d1 = chainoff d" "same_size d d1"
      by auto
    have am: "absmap A1 H1 = (absmap A H)(k := None)"
      by (rule absmap_unlink [OF cd(4) H kx coreD(4) [OF c1]]) (simp_all add: A1 H1)
    then have nk: "k \<notin> akey A1 ` set (H1 ?b)" using absmap_None [of A1 H1 k] by simp
    have hb: "6 * ?b \<in> cells A1" by (intro cells_header) simp
    define d2 where "d2 = d1\<lparr>idxpos := 6 * ?b + 6\<rparr>"
    have rp: "db_readptr d1 (int (chainoff d1)) = ret (int (cell A1 (6 * ?b)), d2)"
      using db_readptr_rep [OF coreD(1,2) [OF c1] hb] l1 at by (simp add: d2_def at_rec_def)
    have c2: "core d2 A1 H1" "room d2" "locks d2 = [(IdxFd, 6 * ?b, 1, ty)]" "chainoff d2 = 6 * ?b"
      using c1 rm l1 l at by (simp_all add: d2_def core_def room_def same_size_def at_rec_def)
    have g2: "grows d2 d' \<Longrightarrow> grows d d'" for d' using l1 by (simp add: grows_def same_size_def d2_def)
    let ?A = "newrec A1 (length (idxfile d2)) ?b k (length (datfile d2)) v"
    let ?H = "H1(?b := length (idxfile d2) # H1 ?b)"
    from store_append_core [OF c2(1) k v c2(2-4) nk] obtain d' where
      d': "store_append d2 k v (int (cell A1 (6 * ?b))) = ret d'" "grows d2 d'" "core d' ?A ?H"
      by auto
    have "length (idxfile d2) \<notin> set (offs A1)" using offs_ge [OF coreD(2) [OF c2(1)]] by fastforce
    then have "length (idxfile d2) \<notin> set (H1 j)" if "j < 138" for j
      using chains_offs [OF coreD(4) [OF c1] that] by blast
    then have "absmap ?A ?H = (absmap A1 H1)(k \<mapsto> v)"
      using am by (intro absmap_push [OF coreD(4) [OF c1] coreD(4) [OF d'(3)]]) auto
    then have "absmap ?A ?H = (absmap A H)(k \<mapsto> v)" using am by simp
    then have "stored d (d'\<lparr>cnt_stor3 := w\<rparr>) k ((absmap A H)(k \<mapsto> v))" for w
      using d'(3) g2 [OF d'(2)] unfolding stored_def by (auto simp: grows_def)
    then show ?thesis using rp dd d'(1) False at by (simp add: store_found_def at_rec_def)
  qed
qed

lemma store_refines:
  assumes r: "db_rep d m" and k: "keyok k" and v: "dataok v" and rm: "room d"
  shows "\<exists>d'. db_store d k v f = ret (fst (store_spec f m k v), d') \<and> db_rep d' (snd (store_spec f m k v)) \<and>
    length (idxfile d') \<le> length (idxfile d) + 1034 \<and> length (datfile d') \<le> length (datfile d) + 1024"
proof -
  from r obtain A H where c: "core d A H" and l: "locks d = []" and m: "m = absmap A H"
    by (auto simp: db_rep_def)
  note q = coreD(1) [OF c]
  have dl: "DATLEN_MIN \<le> length v + 1 \<and> length v + 1 \<le> DATLEN_MAX"
    using v by (cases v) (auto simp: dataok_def DATLEN_MIN_def DATLEN_MAX_def)
  let ?b = "bucket k"
  let ?e = "entered d ?b True"
  have e: "core ?e A H" "room ?e" using c rm by (simp_all add: room_def)
  have un: "db_rep (d'\<lparr>locks := unlocked IdxFd (6 * ?b) 1 (locks d')\<rparr>) m'"
    if "core d' A' H'" "absmap A' H' = m'" "locks d' = [(IdxFd, 6 * ?b, 1, WrLck)]" for d' A' H' m'
    using that unfolding db_rep_def by simp metis
  show ?thesis
  proof (cases "m k")
    case None
    then have n: "absmap A H k = None" by (simp add: m)
    let ?d = "scan A (H ?b) ?e"
    note fl = find_and_lock_missing [OF c n, of True]
    have d: "core ?d A H" "room ?d" "locks ?d = [(IdxFd, 6 * ?b, 1, WrLck)]" "chainoff ?d = 6 * ?b"
      using e l by (simp_all add: room_def)
    obtain d' where d': "store_new ?d k v = ret d'" "stored ?d d' k (m(k \<mapsto> v))"
      using store_new_core [OF d(1) k v d(2-4) n] m by auto
    then have d'': "db_rep (d'\<lparr>locks := unlocked IdxFd (6 * ?b) 1 (locks d')\<rparr>) (m(k \<mapsto> v))" "quiet d'"
        "chainoff d' = 6 * ?b" "length (idxfile d') \<le> length (idxfile d) + 1034"
        "length (datfile d') \<le> length (datfile d) + 1024"
      using un d coreD(1) by (auto simp: stored_def grows_def)
    have "db_rep (?d\<lparr>cnt_storerr := w, errno := ENOENT, locks := []\<rparr>) m" for w
      using d(1) m by (auto simp: db_rep_def)
    then show ?thesis
      using r None fl d' d'' dl q l by (cases f) (simp_all add: db_store_def)
  next
    case (Some u)
    then obtain xs x ys where H: "H ?b = xs @ x # ys" and kx: "akey A x = k"
      using found_split [OF c] m by metis
    let ?d = "load A x (scan A xs ?e)"
    note fl = find_and_lock_found [OF c H kx, of True]
    note at = at_found [OF e(1) H bucket_range(2)]
    have d: "room ?d" "locks ?d = [(IdxFd, 6 * ?b, 1, WrLck)]" "chainoff ?d = 6 * ?b"
      using e l by (simp_all add: room_def)
    obtain d' where d': "store_found ?d k v = ret d'" "stored ?d d' k (m(k \<mapsto> v))"
      using store_found_core [OF at(2) k v d(1) H kx d(2) at(1)] m by auto
    then have d'': "db_rep (d'\<lparr>locks := unlocked IdxFd (6 * ?b) 1 (locks d')\<rparr>) (m(k \<mapsto> v))" "quiet d'"
        "chainoff d' = 6 * ?b" "length (idxfile d') \<le> length (idxfile d) + 1034"
        "length (datfile d') \<le> length (datfile d) + 1024"
      using un d coreD(1) by (auto simp: stored_def grows_def)
    have "db_rep (?d\<lparr>cnt_storerr := w, locks := []\<rparr>) m" for w
      using at(2) m by (auto simp: db_rep_def)
    then show ?thesis
      using r Some fl d' d'' dl q l by (cases f) (simp_all add: db_store_def)
  qed
qed

subsection \<open>The interface\<close>

datatype dbcmd = Fetch string | Store string string dbflag | Delete string
datatype dbans = Data "string option" | Code int

fun kv_step ::
  "('s \<Rightarrow> string \<Rightarrow> (string option \<times> 's) run) \<Rightarrow> ('s \<Rightarrow> string \<Rightarrow> string \<Rightarrow> dbflag \<Rightarrow> (int \<times> 's) run) \<Rightarrow>
   ('s \<Rightarrow> string \<Rightarrow> (int \<times> 's) run) \<Rightarrow> 's \<Rightarrow> dbcmd \<Rightarrow> (dbans \<times> 's) run" where
  "kv_step fetch store delete s (Fetch k) = rbind (fetch s k) (\<lambda>(r, s). ret (Data r, s))"
| "kv_step fetch store delete s (Store k v f) = rbind (store s k v f) (\<lambda>(r, s). ret (Code r, s))"
| "kv_step fetch store delete s (Delete k) = rbind (delete s k) (\<lambda>(r, s). ret (Code r, s))"

fun cmds_run :: "('s \<Rightarrow> dbcmd \<Rightarrow> (dbans \<times> 's) run) \<Rightarrow> 's \<Rightarrow> dbcmd list \<Rightarrow> (dbans list \<times> 's) run" where
  "cmds_run step s [] = ret ([], s)"
| "cmds_run step s (c # cs) = rbind (step s c) (\<lambda>(a, s). rbind (cmds_run step s cs) (\<lambda>(as, s). ret (a # as, s)))"

fun cmd_spec :: "(string \<Rightarrow> string option) \<Rightarrow> dbcmd \<Rightarrow> dbans \<times> (string \<Rightarrow> string option)" where
  "cmd_spec m (Fetch k) = (Data (m k), m)"
| "cmd_spec m (Store k v f) = (Code (fst (store_spec f m k v)), snd (store_spec f m k v))"
| "cmd_spec m (Delete k) = (Code (if m k = None then - 1 else 0), m(k := None))"

fun cmds_spec :: "(string \<Rightarrow> string option) \<Rightarrow> dbcmd list \<Rightarrow> dbans list \<times> (string \<Rightarrow> string option)" where
  "cmds_spec m [] = ([], m)"
| "cmds_spec m (c # cs) = (let (a, m1) = cmd_spec m c; (as, m2) = cmds_spec m1 cs in (a # as, m2))"

fun cmd_ok :: "dbcmd \<Rightarrow> bool" where
  "cmd_ok (Store k v f) = (keyok k \<and> dataok v)"
| "cmd_ok c = True"

locale kv_store =
  fixes rep :: "'s \<Rightarrow> (string \<Rightarrow> string option) \<Rightarrow> bool"
    and fit :: "'s \<Rightarrow> nat \<Rightarrow> bool"
    and fetch :: "'s \<Rightarrow> string \<Rightarrow> (string option \<times> 's) run"
    and store :: "'s \<Rightarrow> string \<Rightarrow> string \<Rightarrow> dbflag \<Rightarrow> (int \<times> 's) run"
    and delete :: "'s \<Rightarrow> string \<Rightarrow> (int \<times> 's) run"
  assumes fit_Suc: "fit s (Suc n) \<Longrightarrow> fit s n"
    and fetch_law: "rep s m \<Longrightarrow> \<exists>s'. fetch s k = ret (m k, s') \<and> rep s' m \<and> (\<forall>n. fit s n \<longrightarrow> fit s' n)"
    and store_law: "rep s m \<Longrightarrow> fit s (Suc n) \<Longrightarrow> keyok k \<Longrightarrow> dataok v \<Longrightarrow>
      \<exists>s'. store s k v f = ret (fst (store_spec f m k v), s') \<and> rep s' (snd (store_spec f m k v)) \<and> fit s' n"
    and delete_law: "rep s m \<Longrightarrow>
      \<exists>s'. delete s k = ret (if m k = None then - 1 else 0, s') \<and> rep s' (m(k := None)) \<and> (\<forall>n. fit s n \<longrightarrow> fit s' n)"
begin

abbreviation step :: "'s \<Rightarrow> dbcmd \<Rightarrow> (dbans \<times> 's) run" where
  "step \<equiv> kv_step fetch store delete"

lemma step_sim:
  assumes "rep s m" and "fit s (Suc n)" and "cmd_ok c"
  shows "\<exists>s'. step s c = ret (fst (cmd_spec m c), s') \<and> rep s' (snd (cmd_spec m c)) \<and> fit s' n"
proof (cases c)
  case (Fetch k)
  with fetch_law [OF assms(1), of k] fit_Suc [OF assms(2)] show ?thesis by auto
next
  case (Store k v f)
  with store_law [OF assms(1,2), of k v f] assms(3) show ?thesis by auto
next
  case (Delete k)
  with delete_law [OF assms(1), of k] fit_Suc [OF assms(2)] show ?thesis by auto
qed

lemma run_sim:
  assumes "rep s m" and "fit s (length cs)" and "\<forall>c\<in>set cs. cmd_ok c"
  shows "\<exists>s'. cmds_run step s cs = ret (fst (cmds_spec m cs), s') \<and> rep s' (snd (cmds_spec m cs))"
  using assms
proof (induction cs arbitrary: s m)
  case (Cons c cs)
  from Cons.prems step_sim [of s m "length cs" c] obtain s1 where
    s1: "step s c = ret (fst (cmd_spec m c), s1)" "rep s1 (snd (cmd_spec m c))" "fit s1 (length cs)"
    by auto
  with Cons.IH [OF s1(2,3)] Cons.prems obtain s2 where
    "cmds_run step s1 cs = ret (fst (cmds_spec (snd (cmd_spec m c)) cs), s2)"
    "rep s2 (snd (cmds_spec (snd (cmd_spec m c)) cs))"
    by auto
  with s1(1) show ?case by (simp add: case_prod_unfold Let_def)
qed simp

lemma fetch_after_store:
  assumes "rep s m" and "fit s (Suc n)" and "keyok k" and "dataok v"
  shows "\<exists>s' s''. store s k v DB_STORE = ret (0, s') \<and>
    fetch s' k' = ret (if k' = k then Some v else m k', s'')"
  using store_law [OF assms, of DB_STORE] fetch_law [of _ "m(k \<mapsto> v)" k'] by force

end

text \<open>Space in both files for \<open>n\<close> more records of any size.\<close>

definition db_fit :: "db \<Rightarrow> nat \<Rightarrow> bool" where
  "db_fit d n \<longleftrightarrow> length (idxfile d) + 1034 * n < 10 ^ 6 + 1034 \<and>
     length (datfile d) + 1024 * n < 10 ^ 16 + 1024"

lemma db_fit_room: "db_fit d (Suc n) \<Longrightarrow> room d"
  by (simp add: db_fit_def room_def)

interpretation dbkv: kv_store db_rep db_fit db_fetch db_store db_delete
proof
  show "db_fit d n" if "db_fit d (Suc n)" for d n using that by (simp add: db_fit_def)
  show "\<exists>d'. db_fetch d k = ret (m k, d') \<and> db_rep d' m \<and> (\<forall>n. db_fit d n \<longrightarrow> db_fit d' n)"
    if "db_rep d m" for d m k
    using fetch_refines [OF that, of k] by (auto simp: db_fit_def)
  show "\<exists>d'. db_store d k v f = ret (fst (store_spec f m k v), d') \<and> db_rep d' (snd (store_spec f m k v)) \<and> db_fit d' n"
    if "db_rep d m" "db_fit d (Suc n)" "keyok k" "dataok v" for d m n k v f
    using store_refines [OF that(1,3,4) db_fit_room [OF that(2)], of f] that(2) by (auto simp: db_fit_def)
  show "\<exists>d'. db_delete d k = ret (if m k = None then - 1 else 0, d') \<and> db_rep d' (m(k := None)) \<and>
      (\<forall>n. db_fit d n \<longrightarrow> db_fit d' n)" if "db_rep d m" for d m k
    using delete_refines [OF that, of k] by (auto simp: db_fit_def same_size_def)
qed

subsection \<open>A new database\<close>

lemma seg_concat_replicate:
  "j < n \<Longrightarrow> seg (concat (replicate n s) @ t) (j * length s) s"
proof (induction n arbitrary: j)
  case (Suc n)
  then show ?case
  proof (cases j)
    case 0
    then show ?thesis by (simp add: seg_def)
  next
    case (Suc i)
    then have "seg (concat (replicate n s) @ t) (i * length s) s" using Suc.IH Suc.prems by simp
    then show ?thesis using Suc by (simp add: seg_nth nth_append add.assoc)
  qed
qed simp

definition empty_idx :: aidx where
  "empty_idx = \<lparr>cell = \<lambda>_. 0, offs = [], akey = \<lambda>_. [], adoff = \<lambda>_. 0, adat = \<lambda>_. []\<rparr>"

lemma length_init_hash [simp]: "length init_hash = 829"
  by (simp add: init_hash_def length_concat sum_list_replicate PTR_SZ_def NHASH_DEF_def)

lemma init_hash_rep: "idxrep init_hash empty_idx"
proof -
  have l6: "length (fmtw 6 0) = 6" by simp
  have "seg init_hash (6 * j) (fmtw 6 0)" if "j < 138" for j
    using seg_concat_replicate [of j 138 "fmtw 6 0" "[newline]"] that l6
    by (simp add: init_hash_def PTR_SZ_def NHASH_DEF_def mult.commute)
  moreover have "seg init_hash 828 [newline]"
    by (simp add: seg_nth init_hash_def length_concat sum_list_replicate PTR_SZ_def NHASH_DEF_def nth_append)
  ultimately show ?thesis
    by (auto simp: idxrep_def empty_idx_def cells_def)
qed

lemma empty_chains: "chains empty_idx (\<lambda>_. [])"
  by (simp add: chains_def empty_idx_def)

definition empty_fs :: filesys where
  "empty_fs = (\<lambda>_. None)"

lemma db_open_creates:
  assumes "\<not> deny (pathname @ ''.idx'')" and "\<not> deny (pathname @ ''.dat'')" and "\<forall>m p. \<not> sf m p"
  shows "\<exists>d. db_open fs deny sf pathname True True = ret (Some d) \<and> db_rep d Map.empty \<and>
    idxfile d = init_hash \<and> datfile d = [] \<and> idxpos d = 829"
proof -
  have q: "quiet d" if "sysfail d = sf" for d using assms(3) that by (simp add: quiet_def)
  have "absmap empty_idx (\<lambda>_. []) = Map.empty" by (auto simp: absmap_def)
  moreover have "datrep [] empty_idx" by (simp add: datrep_def empty_idx_def)
  moreover have "pwrite [] 0 init_hash = init_hash" by (simp add: pwrite_def)
  moreover have "sys_open fs deny (pathname @ ''.idx'') True True = Some []"
      "sys_open fs deny (pathname @ ''.dat'') True True = Some []"
    using assms(1,2) by (simp_all add: sys_open_def split: option.split)
  moreover have "db_rewind d = ret (d\<lparr>idxpos := 829, idxoff := 829\<rparr>)" if "quiet d" "nhash d = 137" for d
    using that lseek_idx_quiet [of d 829] by (simp add: db_rewind_def PTR_SZ_def)
  ultimately show ?thesis
    using assms(3) q init_hash_rep empty_chains
    by (auto simp: db_open_def db_alloc_def syscall_def NHASH_DEF_def HASH_OFF_def PTR_SZ_def
        db_rep_def core_def lockw_def un_lock_def intro!: exI [of _ empty_idx] exI [of _ "\<lambda>_. []"])
qed

end
