(* ===== verification/DbProps.thy ===== *)
theory DbProps
  imports DbSpec
begin

section \<open>The database: properties\<close>

text \<open>
  The properties of \<^verbatim>\<open>db/db.c\<close> and its test program \<^verbatim>\<open>db/t4.c\<close>: a new database behaves as a
  map under any sequence of commands, it survives closing and reopening, the sequential read
  returns every record once, and the inputs on which the library breaks.
\<close>

subsection \<open>Sequential reading\<close>

definition isblank :: "string \<Rightarrow> bool" where
  "isblank k \<longleftrightarrow> set k \<subseteq> {space}"

lemma isblank_ball: "isblank k \<longleftrightarrow> (\<forall>c\<in>set k. c = space)"
  by (auto simp: isblank_def)

text \<open>The client's loop: call \<^verbatim>\<open>db_nextrec\<close> until it returns NULL.\<close>

partial_function (option) db_dump :: "db \<Rightarrow> ((string \<times> string) list \<times> db) run" where
  "db_dump d = rbind (db_nextrec d) (\<lambda>r.
     case fst r of None \<Rightarrow> ret ([], snd r)
     | Some kv \<Rightarrow> rbind (db_dump (snd r)) (\<lambda>s. ret (kv # fst s, snd s)))"

abbreviation recsz :: "aidx \<Rightarrow> nat \<Rightarrow> nat" where
  "recsz A x \<equiv> 10 + rlen A x"

lemma nextrec_walk_found:
  assumes "core d A H" and "tiled (recsz A) (idxpos d) (us @ x # vs) (length (idxfile d))"
    and "set (us @ [x]) \<subseteq> set (offs A)" and "\<forall>y\<in>set us. isblank (akey A y)" and "\<not> isblank (akey A x)"
  shows "nextrec_walk d = ret (True, load A x (fscan A us d))"
  using assms
proof (induction us arbitrary: d)
  case Nil
  then show ?case using coreD(1,2) [OF Nil(1)] core_key [OF Nil(1), of x]
    by (subst nextrec_walk.simps) (auto simp: db_readidx_at(2) [of _ A x] isblank_ball)
next
  case (Cons y us)
  have y: "y \<in> set (offs A)" "idxpos d = y" using Cons.prems by auto
  have "nextrec_walk d = nextrec_walk (load A y d)"
    using coreD(1,2) [OF Cons.prems(1)] core_key [OF Cons.prems(1) y(1)] y Cons.prems(4)
    by (subst nextrec_walk.simps) (simp add: db_readidx_at(2) [of _ A y] isblank_ball)
  also have "\<dots> = ret (True, load A x (fscan A us (load A y d)))"
    using Cons.prems by (intro Cons.IH) (auto simp: core_def add.assoc)
  finally show ?case by simp
qed

lemma nextrec_walk_end:
  assumes "core d A H" and "tiled (recsz A) (idxpos d) us (length (idxfile d))"
    and "set us \<subseteq> set (offs A)" and "\<forall>y\<in>set us. isblank (akey A y)"
  shows "nextrec_walk d = ret (False, (fscan A us d)\<lparr>idxoff := length (idxfile d)\<rparr>)"
  using assms
proof (induction us arbitrary: d)
  case Nil
  then show ?case using coreD(1) [OF Nil(1)]
    by (subst nextrec_walk.simps) (simp add: db_readidx_eof)
next
  case (Cons y us)
  have y: "y \<in> set (offs A)" "idxpos d = y" using Cons.prems by auto
  have "nextrec_walk d = nextrec_walk (load A y d)"
    using coreD(1,2) [OF Cons.prems(1)] core_key [OF Cons.prems(1) y(1)] y Cons.prems(4)
    by (subst nextrec_walk.simps) (simp add: db_readidx_at(2) [of _ A y] isblank_ball)
  also have "\<dots> = ret (False, (fscan A us (load A y d))\<lparr>idxoff := length (idxfile d)\<rparr>)"
    using Cons.prems Cons.IH [of "load A y d"] by (auto simp: core_def add.assoc)
  finally show ?case by simp
qed

definition recs :: "aidx \<Rightarrow> nat list \<Rightarrow> (string \<times> string) list" where
  "recs A zs = map (\<lambda>x. (akey A x, adat A x)) (filter (\<lambda>x. \<not> isblank (akey A x)) zs)"

lemma dump_from:
  assumes "core d A H" and "locks d = []" and "tiled (recsz A) (idxpos d) zs (length (idxfile d))"
    and "set zs \<subseteq> set (offs A)"
  shows "\<exists>d'. db_dump d = ret (recs A zs, d') \<and> core d' A H \<and> locks d' = []"
  using assms
proof (induction zs arbitrary: d rule: length_induct)
  case (1 zs)
  define d0 where "d0 = d\<lparr>locks := [(IdxFd, FREE_OFF, 1, RdLck)]\<rparr>"
  have c0: "core d0 A H" "idxpos d0 = idxpos d" "idxfile d0 = idxfile d"
    using "1.prems" by (simp_all add: d0_def)
  have q: "quiet d0" using coreD(1) [OF c0(1)] .
  show ?case
  proof (cases "\<exists>y\<in>set zs. \<not> isblank (akey A y)")
    case True
    then obtain us x vs where zs: "zs = us @ x # vs" and nb: "\<not> isblank (akey A x)"
      and bl: "\<forall>y\<in>set us. isblank (akey A y)"
      using split_list_first_prop [OF True] by blast
    let ?d = "load A x (fscan A us d0)"
    have x: "x \<in> set (offs A)" using "1.prems" zs by simp
    have w: "nextrec_walk d0 = ret (True, ?d)"
      using c0 "1.prems" zs bl nb by (intro nextrec_walk_found [where vs = vs]) auto
    have cl: "core ?d A H" using c0(1) by (simp add: core_def)
    have rd: "db_readdat ?d = ret (adat A x, ?d\<lparr>datbuf := adat A x @ [nul]\<rparr>)"
      using q x core_recok [OF c0(1) x] coreD(3) [OF c0(1)] by (intro db_readdat_rep) simp_all
    let ?e = "?d\<lparr>datbuf := adat A x @ [nul], cnt_nextrec := cnt_nextrec ?d + 1, locks := []\<rparr>"
    have "cstr (idxbuf ?d) = akey A x" using core_key [OF c0(1) x] by simp
    then have n: "db_nextrec d = ret (Some (akey A x, adat A x), ?e)"
      using "1.prems" q w rd unfolding d0_def by (simp add: db_nextrec_def quiet_def [symmetric])
    have ce: "core ?e A H" using cl by (simp add: core_def)
    have "tiled (recsz A) (idxpos ?e) vs (length (idxfile ?e))"
      using "1.prems"(3) zs by (auto simp: tiled_append d0_def add.assoc)
    then obtain d' where d': "db_dump ?e = ret (recs A vs, d')" "core d' A H" "locks d' = []"
      using "1.IH" [rule_format, of vs ?e] ce "1.prems"(4) zs by auto
    have "recs A zs = (akey A x, adat A x) # recs A vs"
      using zs nb bl by (simp add: recs_def filter_False)
    moreover have "db_dump d = ret ((akey A x, adat A x) # recs A vs, d')"
      by (subst db_dump.simps) (simp only: n d' rbind_simps fst_conv snd_conv option.case)
    ultimately show ?thesis using d' by simp
  next
    case False
    then have w: "nextrec_walk d0 = ret (False, (fscan A zs d0)\<lparr>idxoff := length (idxfile d0)\<rparr>)"
      using c0 "1.prems" by (intro nextrec_walk_end) auto
    have n: "db_nextrec d = ret (None, (fscan A zs d0)\<lparr>idxoff := length (idxfile d0), locks := []\<rparr>)"
      using "1.prems" q w unfolding d0_def by (simp add: db_nextrec_def)
    have "recs A zs = []" using False by (simp add: recs_def filter_False)
    moreover have "db_dump d = ret ([], (fscan A zs d0)\<lparr>idxoff := length (idxfile d0), locks := []\<rparr>)"
      by (subst db_dump.simps) (simp only: n rbind_simps fst_conv snd_conv option.case)
    moreover have "core ((fscan A zs d0)\<lparr>idxoff := length (idxfile d0), locks := []\<rparr>) A H"
      using c0(1) by (simp add: core_def)
    ultimately show ?thesis by simp
  qed
qed

lemma recs_absmap:
  assumes c: "core d A H"
  shows "distinct (map fst (recs A (offs A)))"
    and "map_of (recs A (offs A)) = (\<lambda>k. if isblank k then None else absmap A H k)"
proof -
  note ch = coreD(4) [OF c]
  have ex: "x \<in> set (H (bucket (akey A x)))" if "x \<in> set (offs A)" "\<not> isblank (akey A x)" for x
  proof -
    from that(1) chains_cover [OF ch] obtain j where j: "j < 138" "x \<in> set (H j)" by auto
    with that(2) ch have "j \<noteq> 0" by (auto simp: chains_def isblank_def)
    with j chains_bucket [OF ch] show ?thesis by metis
  qed
  have "distinct (offs A)"
    using coreD(2) [OF c] by (intro tiled_distinct [of "recsz A"]) (auto simp: idxrep_def)
  moreover have "inj_on (akey A) {x \<in> set (offs A). \<not> isblank (akey A x)}"
  proof (rule inj_onI)
    fix x y assume "x \<in> {x \<in> set (offs A). \<not> isblank (akey A x)}" "y \<in> {x \<in> set (offs A). \<not> isblank (akey A x)}"
      and e: "akey A x = akey A y"
    with ex [of x] ex [of y] have "x \<in> set (H (bucket (akey A x)))" "y \<in> set (H (bucket (akey A x)))" by auto
    with e chains_inj [OF ch, of "bucket (akey A x)"] show "x = y" by (auto simp: inj_on_def)
  qed
  ultimately show d: "distinct (map fst (recs A (offs A)))"
    by (simp add: recs_def distinct_map comp_def)
  show "map_of (recs A (offs A)) = (\<lambda>k. if isblank k then None else absmap A H k)"
  proof (rule ext)
    fix k
    have sub: "(k, v) \<in> set (recs A (offs A)) \<longleftrightarrow> \<not> isblank k \<and> absmap A H k = Some v" for v
      using ex chains_offs [OF ch bucket_range(2)] absmap_iff [OF ch, of k v]
      by (auto simp: recs_def)
    show "map_of (recs A (offs A)) k = (if isblank k then None else absmap A H k)"
    proof (cases "map_of (recs A (offs A)) k")
      case None
      then have "(k, v) \<notin> set (recs A (offs A))" for v using d by (metis map_of_is_SomeI not_None_eq)
      with sub None show ?thesis by (metis not_None_eq)
    next
      case (Some v)
      then have "(k, v) \<in> set (recs A (offs A))" by (rule map_of_SomeD)
      with sub Some show ?thesis by simp
    qed
  qed
qed

lemma rewind_rep: "quiet d \<Longrightarrow> nhash d = 137 \<Longrightarrow> db_rewind d = ret (d\<lparr>idxpos := 829, idxoff := 829\<rparr>)"
  using lseek_idx_quiet [of d 829] by (simp add: db_rewind_def PTR_SZ_def)


subsection \<open>A database that was just created\<close>

definition nofail :: "string \<Rightarrow> nat \<Rightarrow> bool" where
  "nofail m p = False"

definition nodeny :: "string \<Rightarrow> bool" where
  "nodeny nm = False"

lemma fresh_db:
  obtains d where "db_open fs nodeny nofail pathname True True = ret (Some d)" "db_rep d Map.empty"
    "idxfile d = init_hash" "datfile d = []"
  using db_open_creates [of nodeny pathname nofail fs] by (auto simp: nodeny_def nofail_def)

lemma fresh_fit: "idxfile d = init_hash \<Longrightarrow> datfile d = [] \<Longrightarrow> n \<le> 967 \<Longrightarrow> db_fit d n"
  by (simp add: db_fit_def)

definition demo_cmds :: "dbcmd list" where
  "demo_cmds = [Store ''alpha'' ''one'' DB_INSERT, Store ''alpha'' ''three'' DB_REPLACE, Fetch ''alpha'',
     Delete ''alpha'', Store ''gamma'' ''six'' DB_STORE, Delete ''beta'']"

lemma demo_cmds_ok: "\<forall>c\<in>set demo_cmds. cmd_ok c" "length demo_cmds \<le> 967"
  by (simp_all add: demo_cmds_def keyok_def dataok_def nul_def SEP_def)




lemma reopen_rep:
  assumes "db_rep d m" and "fs (pathname @ ''.idx'') = Some (idxfile d)"
    and "fs (pathname @ ''.dat'') = Some (datfile d)"
  shows "\<exists>d'. db_open fs nodeny nofail pathname creat False = ret (Some d') \<and> db_rep d' m \<and>
    idxfile d' = idxfile d \<and> datfile d' = datfile d \<and> name d' = pathname @ ''.dat''"
proof -
  from assms(1) obtain A H where c: "core d A H" and m: "m = absmap A H" by (auto simp: db_rep_def)
  have "sys_open fs nodeny (pathname @ ''.idx'') creat False = Some (idxfile d)"
      "sys_open fs nodeny (pathname @ ''.dat'') creat False = Some (datfile d)"
    using assms(2,3) by (simp_all add: sys_open_def nodeny_def)
  moreover have q: "quiet d'" if "sysfail d' = nofail" for d' using that by (simp add: quiet_def nofail_def)
  ultimately show ?thesis
    using coreD [OF c] m rewind_rep
    by (auto simp: db_open_def db_alloc_def nofail_def [abs_def] NHASH_DEF_def HASH_OFF_def PTR_SZ_def
        db_rep_def core_def quiet_def)
qed

text \<open>
  C3: a database survives being closed and opened again without \<^verbatim>\<open>O_TRUNC\<close>: when the two files
  hold what a represented database left, \<^verbatim>\<open>db_open\<close> gives a handle that stands for the same map.
\<close>
theorem db_reopen_keeps_map:
  assumes "db_rep d m" and "fs (pathname @ ''.idx'') = Some (idxfile (db_close d))"
    and "fs (pathname @ ''.dat'') = Some (datfile (db_close d))"
  shows "\<exists>d'. db_open fs nodeny nofail pathname creat False = ret (Some d') \<and> db_rep d' m \<and>
    idxfile d' = idxfile d \<and> datfile d' = datfile d"
  using reopen_rep [OF assms(1), of fs pathname creat] assms(2,3)
  by (auto simp: db_close_def db_free_def)

definition saved_fs :: "db \<Rightarrow> filesys" where
  "saved_fs d = [''x.idx'' \<mapsto> idxfile (db_close d), ''x.dat'' \<mapsto> datfile (db_close d)]"

theorem db_reopen_keeps_map_witness:
  "\<exists>d d'. db_open empty_fs nodeny nofail ''x'' True True = ret (Some d) \<and>
     db_open (saved_fs d) nodeny nofail ''x'' False False = ret (Some d') \<and> db_rep d' Map.empty"
proof -
  obtain d where d: "db_open empty_fs nodeny nofail ''x'' True True = ret (Some d)" "db_rep d Map.empty"
    by (rule fresh_db)
  have "saved_fs d (''x'' @ ''.idx'') = Some (idxfile (db_close d))"
      "saved_fs d (''x'' @ ''.dat'') = Some (datfile (db_close d))"
    by (simp_all add: saved_fs_def)
  from db_reopen_keeps_map [OF d(2) this, of False] d(1) show ?thesis by auto
qed

text \<open>
  C9: \<^verbatim>\<open>_db_find_and_lock\<close> answers whether the key is stored and returns with exactly one lock:
  the first byte of the pointer of the key's hash chain, for writing or for reading as asked;
  that byte lies inside the hash table, whatever the characters of the key (signed characters
  and the wrap-around of the 64-bit sum included).
\<close>
theorem db_find_and_lock_locks_chain:
  assumes "db_rep d m"
  shows "\<exists>d'. db_find_and_lock d k w = ret (if m k = None then - 1 else 0, d') \<and>
    locks d' = [(IdxFd, chainoff d', 1, if w then WrLck else RdLck)] \<and>
    chainoff d' = db_hash d k * PTR_SZ + HASH_OFF \<and>
    HASH_OFF \<le> chainoff d' \<and> chainoff d' + PTR_SZ < length init_hash"
proof -
  from assms obtain A H where c: "core d A H" and l: "locks d = []" and m: "m = absmap A H"
    by (auto simp: db_rep_def)
  have hb: "db_hash d k * PTR_SZ + HASH_OFF = 6 * bucket k"
    using bucket_off [OF coreD(5,6) [OF c]] coreD(6) [OF c] by (simp add: HASH_OFF_def PTR_SZ_def)
  have r: "HASH_OFF \<le> 6 * bucket k" "6 * bucket k + PTR_SZ < length init_hash"
    using bucket_range(2,3) [of k] unfolding HASH_OFF_def PTR_SZ_def length_init_hash by linarith+
  show ?thesis
  proof (cases "m k")
    case None
    then have n: "absmap A H k = None" by (simp add: m)
    show ?thesis using find_and_lock_missing [OF c n] None l hb r by simp
  next
    case (Some v)
    then obtain xs x ys where H: "H (bucket k) = xs @ x # ys" and kx: "akey A x = k"
      using found_split [OF c] m by metis
    show ?thesis using find_and_lock_found [OF c H kx] Some l hb r by simp
  qed
qed

theorem db_find_and_lock_locks_chain_witness:
  "\<exists>d d'. db_open empty_fs nodeny nofail ''db'' True True = ret (Some d) \<and>
     db_find_and_lock d [CHR 0xFF, CHR ''a''] True = ret (- 1, d') \<and>
     locks d' = [(IdxFd, chainoff d', 1, WrLck)] \<and> chainoff d' + PTR_SZ < length init_hash"
proof -
  obtain d where d: "db_open empty_fs nodeny nofail ''db'' True True = ret (Some d)" "db_rep d Map.empty"
    by (rule fresh_db)
  from db_find_and_lock_locks_chain [OF d(2), of "[CHR 0xFF, CHR ''a'']" True] d(1) show ?thesis by auto
qed

subsection \<open>Arguments the library rejects or breaks on\<close>

text \<open>
  \<^verbatim>\<open>db_store\<close> checks its arguments before it touches anything: an unknown flag gives -1 with
  \<^verbatim>\<open>EINVAL\<close>, empty data and data of 1024 bytes or more stop the process.
\<close>
theorem db_store_argument_errors:
  assumes "f = DB_INSERT \<or> f = DB_REPLACE \<or> f = DB_STORE" and "v = [] \<or> 1024 \<le> length v"
  shows "db_store d k v f = die (ErrDump ''db_store: invalid data length'') \<and>
    db_store d k v (DB_BADFLAG i) = ret (- 1, d\<lparr>errno := EINVAL\<rparr>)"
  using assms by (auto simp: db_store_def DATLEN_MIN_def DATLEN_MAX_def)

theorem db_store_argument_errors_witness:
  "\<exists>d. db_alloc ''x'' nofail = ret d \<and>
     db_store d ''k'' [] DB_INSERT = die (ErrDump ''db_store: invalid data length'')"
proof -
  obtain d where "db_alloc ''x'' nofail = ret d" by (auto simp: db_alloc_def nofail_def)
  then show ?thesis using db_store_argument_errors [of DB_INSERT "[]" d "''k''" 0] by auto
qed

lemma fresh_core:
  assumes "db_open fs nodeny nofail pathname True True = ret (Some d)"
  shows "core d empty_idx (\<lambda>_. [])" and "locks d = []" and "idxfile d = init_hash" and "datfile d = []"
proof -
  obtain d' where d': "db_open fs nodeny nofail pathname True True = ret (Some d')" "db_rep d' Map.empty"
    "idxfile d' = init_hash" "datfile d' = []" by (rule fresh_db)
  with assms have e: "d' = d" by simp
  obtain A H where c: "core d A H" "locks d = []" using d'(2) e by (auto simp: db_rep_def)
  then show "core d empty_idx (\<lambda>_. [])" "locks d = []"
    using d'(3,4) e coreD [OF c(1)] init_hash_rep empty_chains by (auto simp: core_def datrep_def empty_idx_def)
  show "idxfile d = init_hash" "datfile d = []" using d' e by auto
qed

text \<open>
  A key that contains the separator \<^verbatim>\<open>:\<close> is accepted by \<^verbatim>\<open>db_store\<close>, which returns 0, but the
  record it writes cannot be read back: the next \<^verbatim>\<open>db_fetch\<close> of a key of that chain aborts the
  process with "too many separators".
\<close>
theorem db_separator_key_aborts:
  assumes op: "db_open fs nodeny nofail pathname True True = ret (Some d)"
    and k: "SEP \<in> set k" "nul \<notin> set k" "length k \<le> 1000" and v: "dataok v"
    and k': "db_hash d k' = db_hash d k"
  shows "\<exists>d'. db_store d k v DB_INSERT = ret (0, d') \<and>
    db_fetch d' k' = die (ErrDump ''_db_readidx: too many separators'')"
proof -
  note f = fresh_core [OF op]
  note cd = coreD [OF f(1)]
  let ?b = "bucket k"
  have n: "absmap empty_idx (\<lambda>_. []) k = None" by (simp add: absmap_def)
  have b': "bucket k' = ?b" using k' cd(5) by (simp add: bucket_def db_hash_def)
  have hb: "6 * ?b \<in> cells empty_idx" by (intro cells_header) simp
  define d0 where "d0 = (entered d ?b True)\<lparr>idxpos := 6 * ?b + 6\<rparr>"
  have d0: "core d0 empty_idx (\<lambda>_. [])" "locks d0 = [(IdxFd, 6 * ?b, 1, WrLck)]" "chainoff d0 = 6 * ?b"
      "idxfile d0 = init_hash" "datfile d0 = []"
    using f by (simp_all add: d0_def core_def)
  have rp: "db_readptr (entered d ?b True) (6 * int ?b) = ret (0, d0)"
    using db_readptr_rep [of "entered d ?b True" empty_idx, OF _ _ hb] cd by (simp add: d0_def empty_idx_def)
  obtain d1 where d1: "db_findfree d0 (length k) (length v + 1) = ret (- 1, d1)" "same_env d0 d1" "idxfile d1 = idxfile d0"
    using findfree_missing [OF d0(1) _ d0(2)] by auto
  define t where "t = idx_text k 0 (length v + 1)"
  have "length (dec 0) \<le> 1" "length (dec (length v + 1)) \<le> 4" "1 \<le> length (dec (length v + 1))" "1 \<le> length k"
    using v k by (auto simp: dataok_def Suc_le_eq intro!: length_dec_le)
  then have lt: "6 \<le> length t" "length t \<le> 1024" using k(3) v by (auto simp: t_def length_idx_text dec.simps)
  let ?f = "pwrite (init_hash @ fmtw 6 0 @ fmtw 4 (length t) @ t) (6 * ?b) (fmtw 6 829)"
  have l4: "length (fmtw 4 (length t)) = 4" "length (fmtw 6 0) = 6" "length (fmtw 6 829) = 6" using lt by simp_all
  have tt: "t = idx_text k 0 (Suc (length v))" by (simp add: t_def)
  have dl: "DATLEN_MIN \<le> length v + 1 \<and> length v + 1 \<le> DATLEN_MAX"
    using v by (cases v) (auto simp: dataok_def DATLEN_MIN_def DATLEN_MAX_def)
  have "\<exists>d'. store_append d1 k v 0 = ret d' \<and> idxfile d' = ?f \<and> quiet d' \<and> nhash d' = 137 \<and> hashoff d' = 6 \<and>
      locks d' = [(IdxFd, 6 * ?b, 1, WrLck)] \<and> chainoff d' = 6 * ?b"
    using d0 d1 lt coreD(1,5,6) [OF d0(1)] writeidx_end [where t = t and v = 0] writeptr_quiet [where v = 829] l4
    by (simp add: store_append_def same_env_def writedat_end tt [symmetric])
  then obtain d2 where d2: "store_append d1 k v 0 = ret d2" "idxfile d2 = ?f" "quiet d2" "nhash d2 = 137" "hashoff d2 = 6"
      "locks d2 = [(IdxFd, 6 * ?b, 1, WrLck)]" "chainoff d2 = 6 * ?b"
    by blast
  define d3 where "d3 = d2\<lparr>cnt_stor1 := cnt_stor1 d2 + 1, locks := []\<rparr>"
  have st: "db_store d k v DB_INSERT = ret (0, d3)"
    using find_and_lock_missing [OF f(1) n, of True] dl f(2) rp d1(1) d2
    by (simp add: db_store_def store_new_def d3_def)
  have d3: "idxfile d3 = ?f" "quiet d3" "nhash d3 = 137" "hashoff d3 = 6" "locks d3 = []"
    using d2 by (simp_all add: d3_def)
  let ?e = "entered d3 ?b False"
  have e: "quiet ?e" "idxfile ?e = ?f" using d3 by simp_all
  have bs: "6 * ?b + 6 \<le> 829" using bucket_range(2) [of k] by linarith
  have s0: "seg ?f (6 * ?b) (fmtw 6 829)" by (rule seg_pwrite_same)
  have base: "seg (init_hash @ fmtw 6 0 @ fmtw 4 (length t) @ t) 829 (fmtw 6 0 @ fmtw 4 (length t) @ t)"
    by (simp add: seg_def)
  have s1: "seg ?f 829 (fmtw 6 0 @ fmtw 4 (length t) @ t)"
    by (rule seg_pwrite_other [OF base]) (use bs l4 in simp)
  then have s2: "seg ?f 829 (fmtw 6 0 @ fmtw 4 (length t))" "seg ?f 839 t"
    using l4 by (simp_all add: seg_append)
  define d4 where "d4 = d3\<lparr>chainoff := 6 * ?b, ptroff := 6 * ?b, locks := [(IdxFd, 6 * ?b, 1, RdLck)]\<rparr>"
  have d4: "quiet d4" "idxfile d4 = ?f" using d3 by (simp_all add: d4_def)
  have r4: "db_readptr d4 (6 * int ?b) = ret (829, d4\<lparr>idxpos := 6 * ?b + 6\<rparr>)"
    using db_readptr_seg [of d4 "6 * ?b" 829] d4 s0 by simp
  have "db_readidx (d4\<lparr>idxpos := 6 * ?b + 6\<rparr>) (int 829) = die (ErrDump ''_db_readidx: too many separators'')"
    using d4 s2 lt k by (subst db_readidx_seg(1) [where n = 0 and l = "length t"])
      (auto intro!: readidx_body_SEP [OF _ _ t_def])
  then have w: "find_walk k' 829 (d4\<lparr>idxpos := 6 * ?b + 6\<rparr>) = die (ErrDump ''_db_readidx: too many separators'')"
    by (subst find_walk.simps) simp
  have ho: "db_hash d3 k' * PTR_SZ + hashoff d3 = 6 * ?b" using bucket_off [OF d3(3,4), of k'] b' by simp
  have "db_find_and_lock d3 k' False = die (ErrDump ''_db_readidx: too many separators'')"
    using d3 r4 w unfolding db_find_and_lock_def Let_def ho d4_def by simp
  then show ?thesis using st by (simp add: db_fetch_def)
qed

theorem db_separator_key_aborts_witness:
  "\<exists>d d'. db_open empty_fs nodeny nofail ''db'' True True = ret (Some d) \<and>
     db_store d ''a:b'' ''data'' DB_INSERT = ret (0, d') \<and>
     db_fetch d' ''a:b'' = die (ErrDump ''_db_readidx: too many separators'')"
proof -
  obtain d where d: "db_open empty_fs nodeny nofail ''db'' True True = ret (Some d)" by (rule fresh_db)
  from db_separator_key_aborts [OF d, of "''a:b''" "''data''" "''a:b''"] d show ?thesis
    by (auto simp: SEP_def nul_def dataok_def)
qed

text \<open>
  \<^verbatim>\<open>db_open\<close> with \<^verbatim>\<open>O_CREAT\<close> but without \<^verbatim>\<open>O_TRUNC\<close> on files that do not exist creates them and
  returns a handle, but does not write the hash table: every later fetch, store or delete aborts
  at its first read of the index file.
\<close>
theorem db_open_creat_without_trunc_unusable:
  assumes "fs (pathname @ ''.idx'') = None" and "fs (pathname @ ''.dat'') = None" and "dataok v"
  shows "\<exists>d. db_open fs nodeny nofail pathname True False = ret (Some d) \<and>
    db_fetch d k = die (ErrDump ''_db_readptr: read error of ptr field'') \<and>
    db_delete d k = die (ErrDump ''_db_readptr: read error of ptr field'') \<and>
    db_store d k v DB_STORE = die (ErrDump ''_db_readptr: read error of ptr field'')"
proof -
  have "sys_open fs nodeny (pathname @ ''.idx'') True False = Some []"
      "sys_open fs nodeny (pathname @ ''.dat'') True False = Some []"
    using assms(1,2) by (simp_all add: sys_open_def nodeny_def)
  moreover have q: "quiet d'" if "sysfail d' = nofail" for d' using that by (simp add: quiet_def nofail_def)
  ultimately obtain d where d: "db_open fs nodeny nofail pathname True False = ret (Some d)" "quiet d" "idxfile d = []"
    using rewind_rep
    by (auto simp: db_open_def db_alloc_def nofail_def [abs_def] NHASH_DEF_def HASH_OFF_def PTR_SZ_def quiet_def)
  have "db_readptr d' p = die (ErrDump ''_db_readptr: read error of ptr field'')"
    if "quiet d'" "idxfile d' = []" "0 \<le> p" for d' p
    using that by (simp add: db_readptr_def lseek_idx_def pread_def PTR_SZ_def)
  then have "db_find_and_lock d k w = die (ErrDump ''_db_readptr: read error of ptr field'')" for w
    using d by (simp only: db_find_and_lock_def Let_def) simp
  moreover have "DATLEN_MIN \<le> length v + 1 \<and> length v + 1 \<le> DATLEN_MAX"
    using assms(3) by (cases v) (auto simp: dataok_def DATLEN_MIN_def DATLEN_MAX_def)
  ultimately show ?thesis using d by (simp add: db_fetch_def db_delete_def db_store_def)
qed

theorem db_open_creat_without_trunc_unusable_witness:
  "\<exists>d. db_open empty_fs nodeny nofail ''db'' True False = ret (Some d) \<and>
     db_fetch d ''k'' = die (ErrDump ''_db_readptr: read error of ptr field'')"
  using db_open_creat_without_trunc_unusable [of empty_fs "''db''" "''v''" "''k''"]
  by (auto simp: empty_fs_def dataok_def nul_def)

subsection \<open>Index records\<close>

text \<open>
  An index record that \<^verbatim>\<open>_db_writeidx\<close> writes, in place or appended, is read back by
  \<^verbatim>\<open>_db_readidx\<close> with the same chain pointer, key, data offset and data length, whatever else the
  index file holds.
\<close>
theorem db_index_record_roundtrip:
  assumes q: "quiet d" and k: "nul \<notin> set k" "SEP \<notin> set k" and pv: "pv < 10 ^ 6"
    and o': "int (datoff d) \<le> LONG_MAX" and l: "0 < datlen d" "datlen d \<le> 1024"
    and t: "t = idx_text k (datoff d) (datlen d)" and lt: "6 \<le> length t" "length t \<le> 1024"
    and x: "x = (if wh = SeekEnd then length (idxfile d) + off else off)" and x0: "0 < x"
  shows "\<exists>d1 d2. db_writeidx d k off wh (int pv) = ret d1 \<and> db_readidx d1 (int x) = ret (int pv, d2) \<and>
    cstr (idxbuf d2) = k \<and> datoff d2 = datoff d \<and> datlen d2 = datlen d \<and> idxlen d2 = length t \<and>
    idxoff d2 = x \<and> ptrval d2 = int pv"
proof -
  have l46: "length (fmtw 4 (length t)) = 4" "length (fmtw 6 pv) = 6" using lt pv by simp_all
  have "\<exists>d1. db_writeidx d k off wh (int pv) = ret d1 \<and> quiet d1 \<and>
      idxfile d1 = pwrite (idxfile d) x (fmtw 6 pv @ fmtw 4 (length t) @ t)"
    using q pv lt x t
    by (simp add: db_writeidx_def PTR_MAX_def PTR_SZ_def IDXLEN_SZ_def IDXLEN_MIN_def IDXLEN_MAX_def Let_def)
  then obtain d1 where d1: "db_writeidx d k off wh (int pv) = ret d1" "quiet d1"
      "idxfile d1 = pwrite (idxfile d) x (fmtw 6 pv @ fmtw 4 (length t) @ t)" by blast
  have "seg (idxfile d1) x (fmtw 6 pv @ fmtw 4 (length t) @ t)" unfolding d1(3) by (rule seg_pwrite_same)
  then have s: "seg (idxfile d1) x (fmtw 6 pv @ fmtw 4 (length t))" "seg (idxfile d1) (x + 10) t"
    using l46 by (simp_all add: seg_append add.assoc)
  have "db_readidx d1 (int x) = db_readidx_body (d1\<lparr>idxoff := x, idxpos := x + 10, ptrval := int pv\<rparr>) (int (length t))"
    using lt by (intro db_readidx_seg(1) [OF d1(2) s(1) pv]) (use x0 in simp_all)
  then show ?thesis
    using d1(1,2) k by (subst (asm) readidx_body_seg [OF _ _ t _ _ lt o' l]) (use s(2) in auto)
qed

definition rt_db :: db where
  "rt_db = (case the (db_alloc ''x'' nofail) of Inr d \<Rightarrow> d\<lparr>idxfile := init_hash, datoff := 17, datlen := 5\<rparr>)"

theorem db_index_record_roundtrip_witness:
  "\<exists>d1 d2. db_writeidx rt_db ''key'' 0 SeekEnd 12 = ret d1 \<and> db_readidx d1 829 = ret (12, d2) \<and>
     cstr (idxbuf d2) = ''key'' \<and> datoff d2 = 17 \<and> datlen d2 = 5"
proof -
  have r: "quiet rt_db" "idxfile rt_db = init_hash" "datoff rt_db = 17" "datlen rt_db = 5"
    by (simp_all add: rt_db_def db_alloc_def nofail_def quiet_def)
  have "length (idx_text ''key'' 17 5) = 9" by (simp add: length_idx_text dec.simps)
  then show ?thesis
    using db_index_record_roundtrip [of rt_db "''key''" 12 "idx_text ''key'' 17 5" 829 SeekEnd 0] r
    by (auto simp: nul_def SEP_def LONG_MAX_def)
qed

subsection \<open>The test program \<^verbatim>\<open>db/t4.c\<close>\<close>

definition t4_main :: "filesys \<Rightarrow> (string \<Rightarrow> bool) \<Rightarrow> (string \<Rightarrow> nat \<Rightarrow> bool) \<Rightarrow> (int \<times> db) run" where
  "t4_main fs deny sf =
     rbind (db_open fs deny sf ''db4'' True True) (\<lambda>h.
     case h of None \<Rightarrow> die (ErrSys ''db_open error'')
     | Some d \<Rightarrow>
       rbind (db_store d ''Alpha'' ''data1'' DB_INSERT) (\<lambda>(r, d).
       rbind (guard (r = 0) (ErrQuit ''db_store error for alpha'')) (\<lambda>_.
       rbind (db_store d ''beta'' ''Data for beta'' DB_INSERT) (\<lambda>(r, d).
       rbind (guard (r = 0) (ErrQuit ''db_store error for beta'')) (\<lambda>_.
       rbind (db_store d ''gamma'' ''record3'' DB_INSERT) (\<lambda>(r, d).
       rbind (guard (r = 0) (ErrQuit ''db_store error for gamma'')) (\<lambda>_.
       ret (0, db_close d))))))))"

text \<open>
  The test program \<^verbatim>\<open>db/t4.c\<close> exits with 0 whatever files were there before, and the two files
  it leaves, opened again, stand for exactly the three records it stores.
\<close>
theorem t4_main_correct:
  "\<exists>d d'. t4_main fs nodeny nofail = ret (0, d) \<and> locks d = [] \<and>
     db_open [''db4.idx'' \<mapsto> idxfile d, ''db4.dat'' \<mapsto> datfile d] nodeny nofail ''db4'' False False = ret (Some d') \<and>
     db_rep d' [''Alpha'' \<mapsto> ''data1'', ''beta'' \<mapsto> ''Data for beta'', ''gamma'' \<mapsto> ''record3'']"
proof -
  obtain d where d: "db_open fs nodeny nofail ''db4'' True True = ret (Some d)" "db_rep d Map.empty"
    "idxfile d = init_hash" "datfile d = []" by (rule fresh_db)
  have st: "\<exists>d'. db_store e k v DB_INSERT = ret (0, d') \<and> db_rep d' (m(k \<mapsto> v)) \<and> db_fit d' n"
    if "db_rep e m" "m k = None" "db_fit e (Suc n)" "keyok k" "dataok v" for e m k v n
    using dbkv.store_law [OF that(1,3-5), of DB_INSERT] that(2) by simp
  have ok: "keyok ''Alpha''" "keyok ''beta''" "keyok ''gamma''" "dataok ''data1''" "dataok ''Data for beta''"
      "dataok ''record3''"
    by (simp_all add: keyok_def dataok_def nul_def SEP_def)
  obtain d1 where d1: "db_store d ''Alpha'' ''data1'' DB_INSERT = ret (0, d1)" "db_rep d1 [''Alpha'' \<mapsto> ''data1'']" "db_fit d1 2"
    using st [OF d(2) _ fresh_fit [OF d(3,4)] ok(1,4), of 2] by auto
  obtain d2 where d2: "db_store d1 ''beta'' ''Data for beta'' DB_INSERT = ret (0, d2)"
      "db_rep d2 [''Alpha'' \<mapsto> ''data1'', ''beta'' \<mapsto> ''Data for beta'']" "db_fit d2 1"
    using st [OF d1(2) _ _ ok(2,5), of 1] d1(3) by (auto simp: numeral_2_eq_2)
  obtain d3 where d3: "db_store d2 ''gamma'' ''record3'' DB_INSERT = ret (0, d3)"
      "db_rep d3 [''Alpha'' \<mapsto> ''data1'', ''beta'' \<mapsto> ''Data for beta'', ''gamma'' \<mapsto> ''record3'']"
    using st [OF d2(2) _ _ ok(3,6), of 0] d2(3) by auto
  have "t4_main fs nodeny nofail = ret (0, db_close d3)"
    using d(1) d1(1) d2(1) d3(1) by (simp add: t4_main_def)
  moreover have "locks (db_close d3) = []" by (simp add: db_close_def db_free_def)
  moreover have fl: "idxfile (db_close d3) = idxfile d3" "datfile (db_close d3) = datfile d3"
    by (simp_all add: db_close_def db_free_def)
  ultimately show ?thesis
    using reopen_rep [OF d3(2), of "[''db4.idx'' \<mapsto> idxfile d3, ''db4.dat'' \<mapsto> datfile d3]" "''db4''" False]
    by auto
qed

end
