(* ===== verification/IoModel.thy ===== *)
theory IoModel
  imports CText
begin

section \<open>Descriptors: reads, writes and the loops around them\<close>

text \<open>
  What the kernel will do on a descriptor is an input of the model.  \<open>chan\<close> is what a read end
  will deliver: data in the pieces it arrives in, pauses longer than any time-out, errors, and the
  end of file behind the last event.  \<open>wchan\<close> is what a write end has taken, and how much it will
  take in each call.  The theory models \<^verbatim>\<open>readn\<close> and \<^verbatim>\<open>writen\<close> (\<^verbatim>\<open>lib/readn.c\<close>, \<^verbatim>\<open>lib/writen.c\<close>),
  \<^verbatim>\<open>tread\<close> and \<^verbatim>\<open>treadn\<close> (\<^verbatim>\<open>ipp/util.c\<close>) and \<^verbatim>\<open>connect_retry\<close> (\<^verbatim>\<open>sockets/clconn.c\<close>).  \<^verbatim>\<open>readn\<close> and
  \<^verbatim>\<open>treadn\<close> are the same loop over two reading functions, so the loop's lemmas are proved once,
  in the locale \<open>reader\<close>, for every reading function that delivers the bytes in order.
\<close>

subsection \<open>Reading\<close>

datatype event = Piece string | Fail nat | Pause
type_synonym chan = "event list"

datatype rres = Got string | RErr nat

definition ETIME :: nat where "ETIME = 62"
definition EIO :: nat where "EIO = 5"

text \<open>\<^verbatim>\<open>read(fd, buf, n)\<close>: at most \<open>n\<close> bytes of what is there; a pause only takes time.\<close>

fun sys_read :: "nat \<Rightarrow> chan \<Rightarrow> rres \<times> chan" where
  "sys_read n [] = (Got [], [])"
| "sys_read n (Pause # c) = sys_read n c"
| "sys_read n (Fail e # c) = (RErr e, c)"
| "sys_read n (Piece s # c) =
     (if s = [] then sys_read n c
      else if length s \<le> n then (Got s, c) else (Got (take n s), Piece (drop n s) # c))"

text \<open>\<^verbatim>\<open>tread\<close>: \<^verbatim>\<open>select\<close> first, which gives up at a pause.\<close>

fun tread :: "nat \<Rightarrow> chan \<Rightarrow> rres \<times> chan" where
  "tread n (Pause # c) = (RErr ETIME, c)"
| "tread n (Piece [] # c) = tread n c"
| "tread n c = sys_read n c"

text \<open>The loop of \<^verbatim>\<open>readn\<close> and \<^verbatim>\<open>treadn\<close> over a reading function \<open>rd\<close>; \<open>acc\<close> is what is read so far.\<close>

function readn_loop :: "(nat \<Rightarrow> 'c \<Rightarrow> rres \<times> 'c) \<Rightarrow> nat \<Rightarrow> nat \<Rightarrow> string \<Rightarrow> 'c \<Rightarrow> int \<times> string \<times> 'c" where
  "readn_loop rd n nleft acc c =
     (if nleft = 0 then (int (n - nleft), acc, c)
      else case rd nleft c of
        (RErr e, c') \<Rightarrow> if nleft = n then (- 1, acc, c') else (int (n - nleft), acc, c')
      | (Got s, c') \<Rightarrow> if s = [] then (int (n - nleft), acc, c')
                      else readn_loop rd n (nleft - length s) (acc @ s) c')"
  by pat_completeness auto
termination
  by (relation "measure (\<lambda>(rd, n, nleft, acc, c). nleft)") auto

declare readn_loop.simps [simp del]

definition readn :: "nat \<Rightarrow> chan \<Rightarrow> int \<times> string \<times> chan" where
  "readn n c = readn_loop sys_read n n [] c"

definition treadn :: "nat \<Rightarrow> chan \<Rightarrow> int \<times> string \<times> chan" where
  "treadn n c = readn_loop tread n n [] c"

text \<open>All bytes a channel will deliver before its first error.\<close>

fun bytes :: "chan \<Rightarrow> string" where
  "bytes [] = []"
| "bytes (Piece s # c) = s @ bytes c"
| "bytes (Pause # c) = bytes c"
| "bytes (Fail e # c) = []"

fun tbytes :: "chan \<Rightarrow> string" where
  "tbytes [] = []"
| "tbytes (Piece s # c) = s @ tbytes c"
| "tbytes (Pause # c) = []"
| "tbytes (Fail e # c) = []"

text \<open>The interface: a reading function over a channel whose content is \<open>cont\<close>.\<close>

locale reader =
  fixes rd :: "nat \<Rightarrow> 'c \<Rightarrow> rres \<times> 'c"
    and cont :: "'c \<Rightarrow> string"
  assumes got: "rd n c = (Got s, c') \<Longrightarrow> 0 < n \<Longrightarrow> s \<noteq> [] \<Longrightarrow> length s \<le> n \<and> cont c = s @ cont c'"
    and eof: "rd n c = (Got [], c') \<Longrightarrow> 0 < n \<Longrightarrow> cont c = []"
    and err: "rd n c = (RErr e, c') \<Longrightarrow> 0 < n \<Longrightarrow> cont c = []"
begin

lemma loop_content:
  assumes "readn_loop rd n nleft acc c = (r, s, c')" and "nleft \<le> n" and "length acc = n - nleft"
  shows "s = acc @ take nleft (cont c) \<and> (r = int (length s) \<or> r = - 1 \<and> s = []) \<and>
    (length s = n \<longrightarrow> cont c = take nleft (cont c) @ cont c')"
  using assms
proof (induction nleft arbitrary: acc c rule: less_induct)
  case (less nleft)
  show ?case
  proof (cases "nleft = 0")
    case True
    then show ?thesis using less.prems by (subst (asm) readn_loop.simps) auto
  next
    case False
    obtain q c1 where q: "rd nleft c = (q, c1)" by fastforce
    show ?thesis
    proof (cases q)
      case (RErr e)
      then show ?thesis
        using less.prems False q err [of nleft c e c1] by (subst (asm) readn_loop.simps) (auto split: if_splits)
    next
      case (Got t)
      show ?thesis
      proof (cases "t = []")
        case True
        then show ?thesis
          using less.prems False q Got eof [of nleft c c1] by (subst (asm) readn_loop.simps) auto
      next
        case t: False
        from got [of nleft c t c1] q Got False t have g: "length t \<le> nleft" "cont c = t @ cont c1" by auto
        have "readn_loop rd n (nleft - length t) (acc @ t) c1 = (r, s, c')"
          using less.prems(1) False q Got t by (subst (asm) readn_loop.simps) simp
        moreover have "nleft - length t < nleft" "nleft - length t \<le> n"
            "length (acc @ t) = n - (nleft - length t)"
          using g t False less.prems(2,3) by (auto simp: length_greater_0_conv)
        ultimately have ih: "s = (acc @ t) @ take (nleft - length t) (cont c1) \<and> (r = int (length s) \<or> r = - 1 \<and> s = []) \<and>
            (length s = n \<longrightarrow> cont c1 = take (nleft - length t) (cont c1) @ cont c')"
          using less.IH by blast
        have "take nleft (cont c) = t @ take (nleft - length t) (cont c1)" using g by simp
        then show ?thesis using ih g(2) by (metis append.assoc)
      qed
    qed
  qed
qed

text \<open>From the start of the loop: a prefix of the content, all of it up to \<open>n\<close> bytes.\<close>

lemma loop_prefix:
  "readn_loop rd n n [] c = (r, s, c') \<Longrightarrow>
     s = take n (cont c) \<and> (r = int (length s) \<or> r = - 1 \<and> s = []) \<and> (length s = n \<longrightarrow> cont c = s @ cont c')"
  using loop_content [of n n "[]" c r s c'] by auto

end

lemma sys_read_got:
  "sys_read n c = (Got s, c') \<Longrightarrow> 0 < n \<Longrightarrow> s \<noteq> [] \<Longrightarrow> length s \<le> n \<and> bytes c = s @ bytes c'"
  by (induction n c rule: sys_read.induct) (auto split: if_splits)

lemma sys_read_eof: "sys_read n c = (Got [], c') \<Longrightarrow> 0 < n \<Longrightarrow> bytes c = []"
  by (induction n c rule: sys_read.induct) (auto split: if_splits)

lemma sys_read_err: "sys_read n c = (RErr e, c') \<Longrightarrow> 0 < n \<Longrightarrow> bytes c = []"
  by (induction n c rule: sys_read.induct) (auto split: if_splits)

interpretation rread: reader sys_read bytes
  using sys_read_got sys_read_eof sys_read_err by unfold_locales auto

lemma tread_got:
  "tread n c = (Got s, c') \<Longrightarrow> 0 < n \<Longrightarrow> s \<noteq> [] \<Longrightarrow> length s \<le> n \<and> tbytes c = s @ tbytes c'"
  by (induction n c rule: tread.induct) (auto split: if_splits)

lemma tread_eof: "tread n c = (Got [], c') \<Longrightarrow> 0 < n \<Longrightarrow> tbytes c = []"
  by (induction n c rule: tread.induct) (auto split: if_splits)

lemma tread_err: "tread n c = (RErr e, c') \<Longrightarrow> 0 < n \<Longrightarrow> tbytes c = []"
  by (induction n c rule: tread.induct) (auto split: if_splits)

interpretation rtread: reader tread tbytes
  using tread_got tread_eof tread_err by unfold_locales auto

subsection \<open>Writing\<close>

datatype wevent = Took nat | WFail nat

record wchan =
  sent :: string
  script :: "wevent list"

datatype wres = Wrote nat | WErr nat

text \<open>\<^verbatim>\<open>write(fd, s, n)\<close>: the kernel takes what the next event of the script says, at most all of it.\<close>

definition sys_write :: "string \<Rightarrow> wchan \<Rightarrow> wres \<times> wchan" where
  "sys_write s w = (case script w of
       [] \<Rightarrow> (Wrote (length s), w\<lparr>sent := sent w @ s\<rparr>)
     | Took k # r \<Rightarrow> (Wrote (min k (length s)), w\<lparr>sent := sent w @ take k s, script := r\<rparr>)
     | WFail e # r \<Rightarrow> (WErr e, w\<lparr>script := r\<rparr>))"

function writen_loop :: "nat \<Rightarrow> string \<Rightarrow> wchan \<Rightarrow> int \<times> wchan" where
  "writen_loop n s w =
     (if s = [] then (int (n - length s), w)
      else case sys_write s w of
        (WErr e, w') \<Rightarrow> if length s = n then (- 1, w') else (int (n - length s), w')
      | (Wrote k, w') \<Rightarrow> if k = 0 then (int (n - length s), w') else writen_loop n (drop k s) w')"
  by pat_completeness auto
termination
  by (relation "measure (\<lambda>(n, s, w). length s)") (auto simp: diff_less)

declare writen_loop.simps [simp del]

definition writen :: "string \<Rightarrow> wchan \<Rightarrow> int \<times> wchan" where
  "writen s w = writen_loop (length s) s w"

lemma sys_write_sent:
  "sys_write s w = (Wrote k, w') \<Longrightarrow> k \<le> length s \<and> sent w' = sent w @ take k s"
  "sys_write s w = (WErr e, w') \<Longrightarrow> sent w' = sent w"
  by (auto simp: sys_write_def min_def split: list.splits wevent.splits if_splits)

lemma writen_loop_sent:
  "writen_loop n s w = (r, w') \<Longrightarrow> length s \<le> n \<Longrightarrow>
     \<exists>k\<le>length s. sent w' = sent w @ take k s \<and> (r = int (n - length s + k) \<or> r = - 1 \<and> length s = n \<and> k = 0)"
proof (induction n s w rule: writen_loop.induct)
  case (1 n s w)
  show ?case
  proof (cases "s = []")
    case True
    then show ?thesis using "1.prems" by (subst (asm) writen_loop.simps) simp
  next
    case False
    obtain q w1 where q: "sys_write s w = (q, w1)" by fastforce
    show ?thesis
    proof (cases q)
      case (WErr e)
      then show ?thesis
        using "1.prems" False q sys_write_sent(2) [of s w e w1]
        by (subst (asm) writen_loop.simps) (auto split: if_splits intro!: exI [of _ 0])
    next
      case (Wrote k)
      with q sys_write_sent(1) have k: "k \<le> length s" "sent w1 = sent w @ take k s" by blast+
      show ?thesis
      proof (cases "k = 0")
        case True
        then show ?thesis
          using "1.prems" False q Wrote k by (subst (asm) writen_loop.simps) (auto intro!: exI [of _ 0])
      next
        case k0: False
        have "writen_loop n (drop k s) w1 = (r, w')"
          using "1.prems"(1) False q Wrote k0 by (subst (asm) writen_loop.simps) simp
        moreover have "length (drop k s) \<le> n" using "1.prems"(2) by simp
        ultimately
        obtain j where j: "j \<le> length (drop k s)" "sent w' = sent w1 @ take j (drop k s)"
          "r = int (n - length (drop k s) + j) \<or> r = - 1 \<and> length (drop k s) = n \<and> j = 0"
          using "1.IH" [OF False q [symmetric] Wrote k0] by blast
        have "take k s @ take j (drop k s) = take (k + j) s" by (simp add: take_add)
        moreover have "n - length (drop k s) + j = n - length s + (k + j)" using k(1) "1.prems"(2) by simp
        moreover have "length (drop k s) \<noteq> n" using k0 k(1) False "1.prems"(2) by (cases s) auto
        ultimately show ?thesis using j k by (auto intro!: exI [of _ "k + j"])
      qed
    qed
  qed
qed

subsection \<open>Connecting with exponential backoff\<close>

definition MAXSLEEP :: nat where "MAXSLEEP = 128"

text \<open>
  The loop of \<^verbatim>\<open>connect_retry\<close> with \<open>nsec = 2 ^ i\<close>: \<open>ok k\<close> says whether the \<open>k\<close>-th call of
  \<^verbatim>\<open>connect\<close> succeeds; the result is the return value, the number of calls and the sleeps.
\<close>

function connect_loop :: "(nat \<Rightarrow> bool) \<Rightarrow> nat \<Rightarrow> nat list \<Rightarrow> int \<times> nat \<times> nat list" where
  "connect_loop ok i sl =
     (if 2 ^ i \<le> MAXSLEEP then
        (if ok i then (0, Suc i, sl)
         else connect_loop ok (Suc i) (if 2 ^ i \<le> MAXSLEEP div 2 then sl @ [2 ^ i] else sl))
      else (- 1, i, sl))"
  by pat_completeness auto
termination
proof (relation "measure (\<lambda>(ok, i, sl). 8 - i)", simp)
  fix ok :: "nat \<Rightarrow> bool" and i :: nat and sl :: "nat list"
  assume "2 ^ i \<le> MAXSLEEP"
  then have "(2 :: nat) ^ i \<le> 2 ^ 7" by (simp add: MAXSLEEP_def)
  then have "i \<le> 7" by (rule power_le_imp_le_exp [rotated]) simp
  then show "((ok, Suc i, if 2 ^ i \<le> MAXSLEEP div 2 then sl @ [2 ^ i] else sl), ok, i, sl)
      \<in> measure (\<lambda>(ok, i, sl). 8 - i)" by simp
qed

declare connect_loop.simps [simp del]

definition connect_retry :: "(nat \<Rightarrow> bool) \<Rightarrow> int \<times> nat \<times> nat list" where
  "connect_retry ok = connect_loop ok 0 []"

lemma pow2_le: "(2 :: nat) ^ i \<le> MAXSLEEP \<longleftrightarrow> i \<le> 7" "(2 :: nat) ^ i \<le> MAXSLEEP div 2 \<longleftrightarrow> i \<le> 6"
proof -
  have "(2 :: nat) ^ i \<le> 2 ^ 7 \<longleftrightarrow> i \<le> 7" "(2 :: nat) ^ i \<le> 2 ^ 6 \<longleftrightarrow> i \<le> 6"
    by (rule power_increasing_iff; simp)+
  then show "(2 :: nat) ^ i \<le> MAXSLEEP \<longleftrightarrow> i \<le> 7" "(2 :: nat) ^ i \<le> MAXSLEEP div 2 \<longleftrightarrow> i \<le> 6"
    by (simp_all add: MAXSLEEP_def)
qed

lemma connect_loop_spec:
  assumes "i \<le> 8" and "sl = map (\<lambda>j. 2 ^ j) [0..<min i 7]"
  shows "connect_loop ok i sl = (r, k, sl') \<Longrightarrow> k \<le> 8 \<and> i \<le> k \<and>
    sl' = map (\<lambda>j. 2 ^ j) [0..<min (if r = 0 then k - 1 else k) 7] \<and>
    (r = 0 \<and> 0 < k \<and> i < k \<and> ok (k - 1) \<and> (\<forall>j. i \<le> j \<and> j < k - 1 \<longrightarrow> \<not> ok j) \<or>
     r = - 1 \<and> k = 8 \<and> (\<forall>j. i \<le> j \<and> j < 8 \<longrightarrow> \<not> ok j))"
  using assms
proof (induction ok i sl rule: connect_loop.induct)
  case (1 ok i sl)
  show ?case
  proof (cases "i \<le> 7")
    case False
    with "1.prems" have "i = 8" by simp
    with "1.prems" show ?thesis by (subst (asm) connect_loop.simps) (auto simp: MAXSLEEP_def)
  next
    case True
    show ?thesis
    proof (cases "ok i")
      case ok: True
      with "1.prems" True show ?thesis by (subst (asm) connect_loop.simps) (auto simp: pow2_le)
    next
      case nok: False
      let ?sl = "if 2 ^ i \<le> MAXSLEEP div 2 then sl @ [2 ^ i] else sl"
      have e: "connect_loop ok (Suc i) ?sl = (r, k, sl')"
        using "1.prems"(1) True nok by (subst (asm) connect_loop.simps) (simp add: pow2_le)
      have sl: "?sl = map (\<lambda>j. 2 ^ j) [0..<min (Suc i) 7]"
        unfolding pow2_le using "1.prems"(3) True by (cases "i = 7") (auto simp: min_def)
      have "2 ^ i \<le> MAXSLEEP" using True by (simp add: pow2_le)
      from "1.IH" [OF this nok e _ sl] True nok show ?thesis
        by (auto simp: Suc_le_eq less_Suc_eq_le) (metis le_neq_implies_less)+
    qed
  qed
qed

text \<open>A channel without failing calls.\<close>

fun no_fail :: "chan \<Rightarrow> bool" where
  "no_fail [] = True"
| "no_fail (Fail e # c) = False"
| "no_fail (_ # c) = no_fail c"

lemma sys_read_no_fail: "sys_read n c = (r, c') \<Longrightarrow> no_fail c \<Longrightarrow> no_fail c' \<and> (\<exists>s. r = Got s)"
  by (induction n c rule: sys_read.induct) (auto split: if_splits)

end
