(* ===== verification/Dll.thy ===== *)
theory Dll
  imports Prelude
begin

section \<open>Doubly linked lists in a heap\<close>

text \<open>
  The job queue and the worker list of \<^verbatim>\<open>ipp/printd.c\<close> and the job queue of \<^verbatim>\<open>threads/rwlock.c\<close>
  are doubly linked lists with a head (and a tail) pointer; 0 is NULL.  \<open>dls nx pv p xs q\<close> says
  that the nodes \<open>xs\<close> are linked both ways, with \<open>p\<close> before the first and \<open>q\<close> behind the last.
  The locale \<open>dll\<close> is the interface to the heap (read and write the two links of an allocated
  node); appending, pushing and removing a node are proved for every such heap.
\<close>

primrec dls :: "(nat \<Rightarrow> nat) \<Rightarrow> (nat \<Rightarrow> nat) \<Rightarrow> nat \<Rightarrow> nat list \<Rightarrow> nat \<Rightarrow> bool" where
  "dls nx pv p [] q \<longleftrightarrow> True"
| "dls nx pv p (x # xs) q \<longleftrightarrow> x \<noteq> 0 \<and> pv x = p \<and> nx x = hd (xs @ [q]) \<and> dls nx pv x xs q"

abbreviation front :: "nat list \<Rightarrow> nat" where
  "front xs \<equiv> hd (xs @ [0])"

abbreviation rear :: "nat list \<Rightarrow> nat" where
  "rear xs \<equiv> last (0 # xs)"

lemma dls_append:
  "dls nx pv p (xs @ ys) q \<longleftrightarrow> dls nx pv p xs (hd (ys @ [q])) \<and> dls nx pv (last (p # xs)) ys q"
  by (induction xs arbitrary: p) (auto simp: hd_append)

lemma dls_cong:
  "(\<And>x. x \<in> set xs \<Longrightarrow> nx x = nx' x \<and> pv x = pv' x) \<Longrightarrow> dls nx pv p xs q \<longleftrightarrow> dls nx' pv' p xs q"
  by (induction xs arbitrary: p) auto

lemma dls_nz: "dls nx pv p xs q \<Longrightarrow> 0 \<notin> set xs"
  by (induction xs arbitrary: p) auto

lemma dls_first: "dls nx pv p xs q \<Longrightarrow> xs \<noteq> [] \<Longrightarrow> pv (hd xs) = p \<and> hd xs \<noteq> 0"
  by (cases xs) auto

lemma dls_set_next:
  "dls nx pv p xs q \<Longrightarrow> distinct xs \<Longrightarrow> xs \<noteq> [] \<Longrightarrow> dls (nx(last xs := q')) pv p xs q'"
proof (induction xs arbitrary: p)
  case (Cons x xs)
  show ?case
  proof (cases "xs = []")
    case True
    with Cons.prems show ?thesis by simp
  next
    case False
    with Cons have "dls (nx(last xs := q')) pv x xs q'" by (auto simp: fun_upd_def)
    moreover have "last xs \<noteq> x" using Cons.prems False by auto
    moreover have "nx x = hd (xs @ [q'])" using Cons.prems False by (simp add: hd_append)
    ultimately show ?thesis using Cons.prems False by (simp add: fun_upd_def)
  qed
qed simp

lemma dls_set_prev:
  assumes "dls nx pv p xs q" and "distinct xs" and "xs \<noteq> []"
  shows "dls nx (pv(hd xs := p')) p' xs q"
proof (cases xs)
  case (Cons x ys)
  with assms have "dls nx pv x ys q" "x \<notin> set ys" by auto
  then have "dls nx (pv(x := p')) x ys q" by (subst dls_cong [of _ _ nx _ pv]) auto
  with Cons assms show ?thesis by (simp add: fun_upd_def)
qed (use assms in simp)

locale dll =
  fixes nx :: "'h \<Rightarrow> nat \<Rightarrow> nat" and pv :: "'h \<Rightarrow> nat \<Rightarrow> nat"
    and setnx :: "'h \<Rightarrow> nat \<Rightarrow> nat \<Rightarrow> 'h" and setpv :: "'h \<Rightarrow> nat \<Rightarrow> nat \<Rightarrow> 'h"
    and live :: "'h \<Rightarrow> nat \<Rightarrow> bool"
  assumes nx_setnx: "live h a \<Longrightarrow> nx (setnx h a v) = (nx h)(a := v)"
    and pv_setnx: "live h a \<Longrightarrow> pv (setnx h a v) = pv h"
    and nx_setpv: "live h a \<Longrightarrow> nx (setpv h a v) = nx h"
    and pv_setpv: "live h a \<Longrightarrow> pv (setpv h a v) = (pv h)(a := v)"
    and live_setnx: "live h a \<Longrightarrow> live (setnx h a v) = live h"
    and live_setpv: "live h a \<Longrightarrow> live (setpv h a v) = live h"
begin

abbreviation seg :: "'h \<Rightarrow> nat \<Rightarrow> nat list \<Rightarrow> nat \<Rightarrow> bool" where
  "seg h \<equiv> dls (nx h) (pv h)"

text \<open>The node \<open>x\<close>, already linked to the old last node, becomes the last one.\<close>

lemma append_node:
  assumes "seg h 0 xs 0" and "distinct xs" and "x \<notin> set xs" and "x \<noteq> 0" and "\<forall>y\<in>set xs. live h y"
    and "nx h x = 0" and "pv h x = rear xs"
  shows "seg (if xs = [] then h else setnx h (rear xs) x) 0 (xs @ [x]) 0"
proof (cases "xs = []")
  case True
  with assms show ?thesis by simp
next
  case False
  then have l: "live h (last xs)" and f: "rear xs = last xs" using assms(5) by auto
  from False assms(1,2) have "dls ((nx h)(last xs := x)) (pv h) 0 xs x" by (intro dls_set_next) auto
  moreover have "last xs \<noteq> x" using False assms(3) by auto
  ultimately show ?thesis
    using False assms l f by (simp add: dls_append nx_setnx pv_setnx)
qed

text \<open>The node \<open>x\<close>, already linked to the old first node, becomes the first one.\<close>

lemma push_node:
  assumes "seg h 0 xs 0" and "distinct xs" and "x \<notin> set xs" and "x \<noteq> 0" and "\<forall>y\<in>set xs. live h y"
    and "nx h x = front xs" and "pv h x = 0"
  shows "seg (if xs = [] then h else setpv h (front xs) x) 0 (x # xs) 0"
proof (cases "xs = []")
  case True
  with assms show ?thesis by simp
next
  case False
  then have l: "live h (hd xs)" and f: "front xs = hd xs" using assms(5) by (simp_all add: hd_append)
  from False assms(1,2) have "dls (nx h) ((pv h)(hd xs := x)) x xs 0" by (intro dls_set_prev) auto
  moreover have "hd xs \<noteq> x" using False assms(3) by (cases xs) auto
  ultimately show ?thesis
    using False assms l f by (simp add: nx_setpv pv_setpv)
qed

text \<open>The node \<open>x\<close> is taken out by relinking its neighbours.\<close>

lemma remove_node:
  assumes s: "seg h 0 (us @ x # vs) 0" and d: "distinct (us @ x # vs)"
    and l: "\<forall>y\<in>set (us @ x # vs). live h y"
    and h1: "h1 = (if vs = [] then h else setpv h (front vs) (rear us))"
  shows "seg (if us = [] then h1 else setnx h1 (rear us) (front vs)) 0 (us @ vs) 0"
    and "nx h x = front vs" and "pv h x = rear us"
proof -
  have su: "seg h 0 us x" and sx: "x \<noteq> 0" "pv h x = rear us" "nx h x = front vs" and sv: "seg h x vs 0"
    using s by (simp_all add: dls_append)
  show "nx h x = front vs" "pv h x = rear us" by (fact sx)+
  let ?pv = "if vs = [] then pv h else (pv h)(hd vs := rear us)"
  have h1nx: "nx h1 = nx h" "pv h1 = ?pv" "live h1 = live h"
    using l h1 by (auto simp: nx_setpv pv_setpv live_setpv hd_append)
  let ?nx = "if us = [] then nx h else (nx h)(last us := front vs)"
  let ?h2 = "if us = [] then h1 else setnx h1 (rear us) (front vs)"
  have h2: "nx ?h2 = ?nx" "pv ?h2 = ?pv"
    using l h1nx by (auto simp: nx_setnx pv_setnx)
  have "dls ?nx ?pv 0 us (front vs)"
  proof (cases "us = []")
    case False
    then have "dls ((nx h)(last us := front vs)) (pv h) 0 us (front vs)"
      using su d by (intro dls_set_next) auto
    moreover have "hd vs \<notin> set us" if "vs \<noteq> []" using d that by (cases vs) auto
    ultimately show ?thesis using False by (subst dls_cong [where nx' = "(nx h)(last us := front vs)" and pv' = "pv h"]) auto
  qed simp
  moreover have "dls ?nx ?pv (rear us) vs 0"
  proof (cases "vs = []")
    case False
    then have "dls (nx h) ((pv h)(hd vs := rear us)) (rear us) vs 0"
      using sv d by (intro dls_set_prev) auto
    moreover have "last us \<notin> set vs" if "us \<noteq> []" 
      using d last_in_set [OF that] by (auto simp del: last_in_set)
    ultimately show ?thesis using False by (subst dls_cong [where nx' = "nx h" and pv' = "(pv h)(hd vs := rear us)"]) auto
  qed simp
  ultimately show "seg ?h2 0 (us @ vs) 0" unfolding h2 by (simp add: dls_append)
qed

end

end
