(* ===== verification/PrintModel.thy ===== *)
theory PrintModel
  imports IoModel Dll PosixFile
begin

section \<open>The print spooler \<^verbatim>\<open>ipp/\<close>: data, job queue, workers and spool files\<close>

text \<open>
  The print daemon \<^verbatim>\<open>ipp/printd.c\<close> with the helpers of \<^verbatim>\<open>ipp/util.c\<close>.  The record \<open>pd\<close> is the
  daemon's global state: the job list and the worker list as doubly linked lists in two heaps
  (0 is NULL, an address without a node is unallocated or freed, and touching it is undefined
  behaviour), the job counter, and the files of the spool directory.  Every function that changes
  the state is one definition; a lock that is taken and released inside one function makes that
  function one atomic step, so it does not appear.
\<close>

subsection \<open>Bytes of C objects\<close>

fun le :: "nat \<Rightarrow> nat \<Rightarrow> string" where
  "le 0 x = []"
| "le (Suc k) x = char_of (x mod 256) # le k (x div 256)"

fun unle :: "string \<Rightarrow> nat" where
  "unle [] = 0"
| "unle (c # s) = of_char c + 256 * unle s"

definition htonl :: "32 word \<Rightarrow> 32 word" where
  "htonl w = of_nat (unle (rev (le 4 (unat w))))"

definition be16 :: "nat \<Rightarrow> string" where
  "be16 n = rev (le 2 n)"

definition be32 :: "32 word \<Rightarrow> string" where
  "be32 w = rev (le 4 (unat w))"

definition unbe :: "string \<Rightarrow> nat" where
  "unbe s = unle (rev s)"

subsection \<open>\<^verbatim>\<open>ipp/print.h\<close> and \<^verbatim>\<open>ipp/ipp.h\<close>\<close>

definition SPOOLDIR :: string where "SPOOLDIR = ''/var/spool/printer''"
definition JOBFILE :: string where "JOBFILE = ''jobno''"
definition FILENMSZ :: nat where "FILENMSZ = 64"
definition USERNM_MAX :: nat where "USERNM_MAX = 64"
definition JOBNM_MAX :: nat where "JOBNM_MAX = 256"
definition IBUFSZ :: nat where "IBUFSZ = 512"
definition HBUFSZ :: nat where "HBUFSZ = 512"
definition IOBUFSZ :: nat where "IOBUFSZ = 8192"
definition IPP_PORT :: nat where "IPP_PORT = 631"
definition PR_TEXT :: "64 word" where "PR_TEXT = 1"

text \<open>A print request; the two names are the full character arrays.\<close>

record printreq =
  rsize :: "64 word"
  rflags :: "64 word"
  usernm :: string
  jobnm :: string

definition sizeof_printreq :: nat where
  "sizeof_printreq = 8 + 8 + USERNM_MAX + JOBNM_MAX"

definition enc_req :: "printreq \<Rightarrow> string" where
  "enc_req r = le 8 (unat (rsize r)) @ le 8 (unat (rflags r)) @ usernm r @ jobnm r"

definition dec_req :: "string \<Rightarrow> printreq" where
  "dec_req s = \<lparr>rsize = of_nat (unle (take 8 s)), rflags = of_nat (unle (take 8 (drop 8 s))),
     usernm = take USERNM_MAX (drop 16 s), jobnm = take JOBNM_MAX (drop (16 + USERNM_MAX) s)\<rparr>"

record printresp =
  retcode :: "32 word"
  pjobid :: "32 word option"   \<comment> \<open>\<open>None\<close>: the field is sent uninitialised\<close>
  pmsg :: string

subsection \<open>The daemon's state\<close>

record job =
  jnext :: nat
  jprev :: nat
  jobid :: "64 word"
  req :: printreq

record worker =
  wnext :: nat
  wprev :: nat
  tid :: nat
  sockfd :: nat

record pd =
  jheap :: "nat \<Rightarrow> job option"
  jobhead :: nat
  jobtail :: nat
  nextjob :: "64 word"
  jobfile :: string
  datadir :: "string \<Rightarrow> string option"
  reqdir :: "string \<Rightarrow> string option"
  wheap :: "nat \<Rightarrow> worker option"
  workers :: nat
  closed :: "nat list"
  cancelled :: "nat list"
  reread :: bool
  printer_name :: string

definition sdec :: "64 word \<Rightarrow> string" where
  "sdec w = (if sint w < 0 then CHR ''-'' # dec (nat (- sint w)) else dec (nat (sint w)))"

subsection \<open>Heap access\<close>

definition jget :: "pd \<Rightarrow> nat \<Rightarrow> job run" where
  "jget st a = (case jheap st a of None \<Rightarrow> die (Undef ''job pointer'') | Some j \<Rightarrow> ret j)"

definition jput :: "pd \<Rightarrow> nat \<Rightarrow> (job \<Rightarrow> job) \<Rightarrow> pd run" where
  "jput st a f = rbind (jget st a) (\<lambda>j. ret (st\<lparr>jheap := (jheap st)(a \<mapsto> f j)\<rparr>))"

definition wget :: "pd \<Rightarrow> nat \<Rightarrow> worker run" where
  "wget st a = (case wheap st a of None \<Rightarrow> die (Undef ''worker pointer'') | Some w \<Rightarrow> ret w)"

definition wput :: "pd \<Rightarrow> nat \<Rightarrow> (worker \<Rightarrow> worker) \<Rightarrow> pd run" where
  "wput st a f = rbind (wget st a) (\<lambda>w. ret (st\<lparr>wheap := (wheap st)(a \<mapsto> f w)\<rparr>))"

text \<open>\<^verbatim>\<open>malloc\<close>: the address it returns, \<open>None\<close> for NULL.\<close>

type_synonym alloc = "nat option"

subsection \<open>Job numbers\<close>

definition get_newjobno :: "pd \<Rightarrow> 64 word \<times> pd" where
  "get_newjobno st =
     (let jobid = nextjob st; n = nextjob st + 1 in
      (jobid, st\<lparr>nextjob := (if sint n \<le> 0 then 1 else n)\<rparr>))"

text \<open>\<^verbatim>\<open>update_jobno\<close>: overwrite the job file from its start; the file is not truncated.\<close>

definition update_jobno :: "pd \<Rightarrow> bool \<Rightarrow> pd run" where
  "update_jobno st wfail =
     rbind (guard (\<not> wfail) (LogSys ''can't update job file'')) (\<lambda>_.
     ret (st\<lparr>jobfile := pwrite (jobfile st) 0 (sdec (nextjob st))\<rparr>))"

text \<open>
  \<^verbatim>\<open>init_request\<close>: lock the job file and read the counter into the buffer that held its name.  The
  bytes behind what was read are those of the name.
\<close>

definition jobfile_path :: string where
  "jobfile_path = SPOOLDIR @ ''/'' @ JOBFILE"

definition init_request :: "pd \<Rightarrow> bool \<Rightarrow> bool \<Rightarrow> pd run" where
  "init_request st locked rfail =
     rbind (guard (\<not> locked) (LogQuit ''daemon already running'')) (\<lambda>_.
     rbind (guard (\<not> rfail) (LogSys ''can't read job file'')) (\<lambda>_.
     let bs = pread (jobfile st) 0 FILENMSZ in
     if length bs = 0 then ret (st\<lparr>nextjob := 1\<rparr>)
     else
       let buf = bs @ drop (length bs) (jobfile_path @ [nul]) in
       rbind (guard (nul \<in> set buf) (Undef ''job number is not terminated'')) (\<lambda>_.
       ret (st\<lparr>nextjob := word_of_int (atol (cstr buf))\<rparr>))))"

subsection \<open>The job list\<close>

definition add_job :: "pd \<Rightarrow> alloc \<Rightarrow> printreq \<Rightarrow> 64 word \<Rightarrow> pd run" where
  "add_job st m reqp jid =
     (case m of None \<Rightarrow> die (LogSys ''malloc failed'')
      | Some jp \<Rightarrow>
        let st = st\<lparr>jheap := (jheap st)(jp \<mapsto> \<lparr>jnext = 0, jprev = jobtail st, jobid = jid, req = reqp\<rparr>)\<rparr> in
        rbind (if jobtail st = 0 then ret (st\<lparr>jobhead := jp\<rparr>)
               else jput st (jobtail st) (\<lambda>j. j\<lparr>jnext := jp\<rparr>)) (\<lambda>st.
        ret (st\<lparr>jobtail := jp\<rparr>)))"

definition replace_job :: "pd \<Rightarrow> nat \<Rightarrow> pd run" where
  "replace_job st jp =
     rbind (jput st jp (\<lambda>j. j\<lparr>jprev := 0, jnext := jobhead st\<rparr>)) (\<lambda>st.
     rbind (if jobhead st = 0 then ret (st\<lparr>jobtail := jp\<rparr>)
            else jput st (jobhead st) (\<lambda>j. j\<lparr>jprev := jp\<rparr>)) (\<lambda>st.
     ret (st\<lparr>jobhead := jp\<rparr>)))"

definition remove_job :: "pd \<Rightarrow> nat \<Rightarrow> pd run" where
  "remove_job st target =
     rbind (jget st target) (\<lambda>t.
     rbind (if jnext t \<noteq> 0 then jput st (jnext t) (\<lambda>j. j\<lparr>jprev := jprev t\<rparr>)
            else ret (st\<lparr>jobtail := jprev t\<rparr>)) (\<lambda>st.
     rbind (jget st target) (\<lambda>t.
     if jprev t \<noteq> 0 then jput st (jprev t) (\<lambda>j. j\<lparr>jnext := jnext t\<rparr>)
     else ret (st\<lparr>jobhead := jnext t\<rparr>))))"

text \<open>Start-up: the entries of the request directory, in the order \<^verbatim>\<open>readdir\<close> gives them.\<close>

fun build_qonstart :: "pd \<Rightarrow> string list \<Rightarrow> alloc list \<Rightarrow> pd run" where
  "build_qonstart st [] ms = ret st"
| "build_qonstart st (d_name # es) ms =
     (if d_name = ''.'' \<or> d_name = ''..'' then build_qonstart st es ms
      else rbind (guard (length (SPOOLDIR @ ''/reqs/'' @ d_name) < FILENMSZ) (Undef ''fname overflows'')) (\<lambda>_.
      case reqdir st d_name of
        None \<Rightarrow> build_qonstart st es ms
      | Some b \<Rightarrow>
        let s = pread b 0 sizeof_printreq in
        if length s \<noteq> sizeof_printreq then
          build_qonstart (st\<lparr>reqdir := (reqdir st)(d_name := None), datadir := (datadir st)(d_name := None)\<rparr>) es ms
        else rbind (add_job st (hd (ms @ [None])) (dec_req s) (word_of_int (atol d_name))) (\<lambda>st.
             build_qonstart st es (tl ms))))"

subsection \<open>The worker list\<close>

definition add_worker :: "pd \<Rightarrow> nat \<Rightarrow> nat \<Rightarrow> nat \<Rightarrow> pd run" where
  "add_worker st wtp jid fd =
     (let st = st\<lparr>wheap := (wheap st)(wtp \<mapsto> \<lparr>wnext = workers st, wprev = 0, tid = jid, sockfd = fd\<rparr>)\<rparr> in
      if workers st = 0 then ret (st\<lparr>workers := wtp\<rparr>)
      else wput st (workers st) (\<lambda>w. w\<lparr>wprev := wtp\<rparr>))"

partial_function (option) kill_walk :: "nat \<Rightarrow> pd \<Rightarrow> pd run" where
  "kill_walk wtp st =
     (if wtp = 0 then ret st
      else rbind (wget st wtp) (\<lambda>w. kill_walk (wnext w) (st\<lparr>cancelled := cancelled st @ [tid w]\<rparr>)))"

definition kill_workers :: "pd \<Rightarrow> pd run" where
  "kill_workers st = kill_walk (workers st) st"

text \<open>The search of \<^verbatim>\<open>client_cleanup\<close>: the node of thread \<open>jid\<close>, or 0.\<close>

partial_function (option) worker_find :: "pd \<Rightarrow> nat \<Rightarrow> nat \<Rightarrow> nat run" where
  "worker_find st jid wtp =
     (if wtp = 0 then ret 0
      else rbind (wget st wtp) (\<lambda>w. if tid w = jid then ret wtp else worker_find st jid (wnext w)))"

definition client_cleanup :: "pd \<Rightarrow> nat \<Rightarrow> pd run" where
  "client_cleanup st jid =
     rbind (worker_find st jid (workers st)) (\<lambda>wtp.
     if wtp = 0 then ret st
     else
       rbind (wget st wtp) (\<lambda>w.
       rbind (if wnext w \<noteq> 0 then wput st (wnext w) (\<lambda>v. v\<lparr>wprev := wprev w\<rparr>) else ret st) (\<lambda>st.
       rbind (wget st wtp) (\<lambda>w.
       rbind (if wprev w \<noteq> 0 then wput st (wprev w) (\<lambda>v. v\<lparr>wnext := wnext w\<rparr>)
              else ret (st\<lparr>workers := wnext w\<rparr>)) (\<lambda>st.
       ret (st\<lparr>closed := closed st @ [sockfd w], wheap := (wheap st)(wtp := None)\<rparr>))))))"

datatype signo = SIGHUP | SIGTERM | SIGOTHER nat

text \<open>One round of \<^verbatim>\<open>signal_thread\<close>; \<^verbatim>\<open>exit(0)\<close> and \<^verbatim>\<open>log_quit\<close> end the process.\<close>

definition signal_round :: "pd \<Rightarrow> signo \<Rightarrow> pd run" where
  "signal_round st s = (case s of
       SIGHUP \<Rightarrow> ret (st\<lparr>reread := True\<rparr>)
     | SIGTERM \<Rightarrow> rbind (kill_workers st) (\<lambda>_. die (Exit 0))
     | SIGOTHER n \<Rightarrow> rbind (kill_workers st) (\<lambda>_. die (LogQuit ''unexpected signal %d'')))"

subsection \<open>A client thread\<close>

text \<open>
  What the kernel does to one client thread: what arrives on its socket, whether the two files can
  be created and what their writes take, the addresses \<^verbatim>\<open>malloc\<close> returns, the bytes of the
  uninitialised buffer, and the texts of \<^verbatim>\<open>strerror\<close>.
\<close>

record cenv =
  ctid :: nat
  csock :: nat
  cin :: chan
  cwalloc :: alloc
  cjalloc :: alloc
  creat_data :: "nat option"
  data_script :: "wevent list"
  creat_ctl :: "nat option"
  ctl_script :: "wevent list"
  junk :: string
  strerror :: "nat \<Rightarrow> string"

definition MSGLEN_MAX :: nat where "MSGLEN_MAX = 512"

definition reject :: "cenv \<Rightarrow> nat \<Rightarrow> 32 word option \<Rightarrow> printresp" where
  "reject ev e jid = (let rc = htonl (of_nat e) in
     \<lparr>retcode = rc, pjobid = jid, pmsg = take MSGLEN_MAX (strerror ev (unat rc))\<rparr>)"

fun chan_size :: "chan \<Rightarrow> nat" where
  "chan_size [] = 0"
| "chan_size (Piece s # c) = Suc (length s) + chan_size c"
| "chan_size (_ # c) = Suc (chan_size c)"

lemma sys_read_size: "sys_read n c = (Got s, c') \<Longrightarrow> s \<noteq> [] \<Longrightarrow> chan_size c' < chan_size c"
  by (induction n c rule: sys_read.induct) (auto split: if_splits)

lemma tread_size: "tread n c = (Got s, c') \<Longrightarrow> s \<noteq> [] \<Longrightarrow> chan_size c' < chan_size c"
proof (induction n c rule: tread.induct)
  case (2 n c)
  then show ?case by simp
qed (auto dest: sys_read_size split: if_splits)

text \<open>The loop that stores the data: \<open>Inl e\<close> a failed write, \<open>Inr\<close> the request's flags at the end.\<close>

function client_data :: "string \<Rightarrow> chan \<Rightarrow> bool \<Rightarrow> 64 word \<Rightarrow> wchan \<Rightarrow> (nat + 64 word) \<times> wchan" where
  "client_data jk c first flags fd =
     (case tread IOBUFSZ c of
        (RErr e, c') \<Rightarrow> (Inr flags, fd)
      | (Got s, c') \<Rightarrow>
        if s = [] then (Inr flags, fd)
        else
          let flags = (if first \<and> take 4 (s @ jk) \<noteq> ''%!PS'' then or flags PR_TEXT else flags) in
          (case sys_write s fd of
             (WErr e, fd') \<Rightarrow> (Inl e, fd')
           | (Wrote k, fd') \<Rightarrow> if k \<noteq> length s then (Inl EIO, fd') else client_data jk c' False flags fd'))"
  by pat_completeness auto
termination
  by (relation "measure (\<lambda>(jk, c, first, flags, fd). chan_size c)") (auto dest!: sym [of "(_, _)"] tread_size)

declare client_data.simps [simp del]

definition client_exit :: "cenv \<Rightarrow> nat \<Rightarrow> printresp option \<Rightarrow> pd \<Rightarrow> (nat \<times> printresp option \<times> pd) run" where
  "client_exit ev code resp st = rbind (client_cleanup st (ctid ev)) (\<lambda>st. ret (code, resp, st))"

text \<open>The request as it came in, with its two numbers in host order.\<close>

definition host_req :: "string \<Rightarrow> printreq" where
  "host_req bs = (let r = dec_req bs in
     r\<lparr>rsize := ucast (htonl (ucast (rsize r))), rflags := ucast (htonl (ucast (rflags r)))\<rparr>)"

text \<open>The second half of \<^verbatim>\<open>client_thread\<close>: the control file, the response and the queue.\<close>

definition client_control :: "pd \<Rightarrow> cenv \<Rightarrow> 64 word \<Rightarrow> printreq \<Rightarrow> (nat \<times> printresp option \<times> pd) run" where
  "client_control st ev jid r =
     (let nm = sdec jid; nodata = (\<lambda>st. st\<lparr>datadir := (datadir st)(nm := None)\<rparr>) in
      case creat_ctl ev of
        Some e \<Rightarrow> client_exit ev 1 (Some (reject ev EIO (Some 0))) (nodata st)
      | None \<Rightarrow>
        (case sys_write (enc_req r) \<lparr>sent = [], script = ctl_script ev\<rparr> of
           (WErr e, w) \<Rightarrow> client_exit ev 1 (Some (reject ev e (Some 0)))
             (nodata (st\<lparr>reqdir := (reqdir st)(nm := None)\<rparr>))
         | (Wrote k, w) \<Rightarrow>
           if k \<noteq> sizeof_printreq then client_exit ev 1 (Some (reject ev EIO (Some 0)))
             (nodata (st\<lparr>reqdir := (reqdir st)(nm := None)\<rparr>))
           else
             rbind (add_job (st\<lparr>reqdir := (reqdir st)(nm \<mapsto> sent w)\<rparr>) (cjalloc ev) r jid) (\<lambda>st.
             client_exit ev 0 (Some \<lparr>retcode = 0, pjobid = Some (htonl (ucast jid)),
               pmsg = ''request ID '' @ nm\<rparr>) st)))"

definition client_thread :: "pd \<Rightarrow> cenv \<Rightarrow> (nat \<times> printresp option \<times> pd) run" where
  "client_thread st ev =
     (case cwalloc ev of None \<Rightarrow> client_exit ev 1 None st
      | Some wtp \<Rightarrow>
     rbind (add_worker st wtp (ctid ev) (csock ev)) (\<lambda>st.
     let (n, bs, c) = treadn sizeof_printreq (cin ev) in
     if n \<noteq> int sizeof_printreq then
       client_exit ev 1 (Some (reject ev
         (if n < 0 then case fst (tread sizeof_printreq (cin ev)) of RErr e \<Rightarrow> e | Got _ \<Rightarrow> EIO else EIO) (Some 0))) st
     else
       let r = host_req bs; (jid, st) = get_newjobno st; nm = sdec jid in
       case creat_data ev of
         Some e \<Rightarrow> client_exit ev 1 (Some (reject ev EIO (Some 0))) st
       | None \<Rightarrow>
         (case client_data (junk ev) c True (rflags r) \<lparr>sent = [], script = data_script ev\<rparr> of
            (Inl e, w) \<Rightarrow> client_exit ev 1 (Some (reject ev e None)) (st\<lparr>datadir := (datadir st)(nm := None)\<rparr>)
          | (Inr flags, w) \<Rightarrow>
            client_control (st\<lparr>datadir := (datadir st)(nm \<mapsto> sent w)\<rparr>) ev jid (r\<lparr>rflags := flags\<rparr>))))"

end
