(* ===== verification/PrinterModel.thy ===== *)
theory PrinterModel
  imports PrintModel
begin

section \<open>The print spooler: talking to the printer\<close>

text \<open>
  The printer thread of \<^verbatim>\<open>ipp/printd.c\<close>: the configuration file (\<^verbatim>\<open>ipp/util.c\<close>), the IPP and HTTP
  headers, the parser of the printer's response, and one round of \<^verbatim>\<open>printer_thread\<close>.  The response
  parser works on a \<^verbatim>\<open>malloc\<close>ed buffer whose bytes are those of \<open>jk\<close> (by index) where nothing was
  read into it, and it may run for ever, so its loops are \<open>partial_function\<close>s.
\<close>

subsection \<open>The configuration file\<close>

definition MAXCFGLINE :: nat where "MAXCFGLINE = 512"
definition MAXKWLEN :: nat where "MAXKWLEN = 16"

text \<open>\<^verbatim>\<open>sscanf\<close> with \<^verbatim>\<open>%15s %511s\<close>.\<close>

definition scan_word :: "nat \<Rightarrow> string \<Rightarrow> string \<times> string" where
  "scan_word w s = (let t = dropWhile is_space s; x = take w (takeWhile (\<lambda>c. \<not> is_space c) t) in
     (x, drop (length x) t))"

definition scan_line :: "string \<Rightarrow> (string \<times> string) option" where
  "scan_line line = (let (k, r) = scan_word (MAXKWLEN - 1) (cstr line); (v, _) = scan_word (MAXCFGLINE - 1) r in
     if k = [] \<or> v = [] then None else Some (k, v))"

function scan_configfile :: "string \<Rightarrow> string \<Rightarrow> string option" where
  "scan_configfile keyword s =
     (if s = [] then None
      else case fgets (MAXCFGLINE - 1) s of (line, r) \<Rightarrow>
        (case scan_line line of
           Some (k, v) \<Rightarrow> if k = keyword then Some v else scan_configfile keyword r
         | None \<Rightarrow> scan_configfile keyword r))"
  by pat_completeness auto
termination
  by (relation "measure (\<lambda>(keyword, s). length s)") (auto dest: fgets_shorter simp: MAXCFGLINE_def)

declare scan_configfile.simps [simp del]

text \<open>\<^verbatim>\<open>resolve\<close> stands for \<^verbatim>\<open>getaddrinfo\<close>: \<open>None\<close> an error, else the canonical name if there is one.\<close>

definition get_printaddr :: "(string \<Rightarrow> string option option) \<Rightarrow> string \<Rightarrow> string option option" where
  "get_printaddr resolve conf = (case scan_configfile ''printer'' conf of None \<Rightarrow> None | Some p \<Rightarrow> resolve p)"

definition init_printer :: "pd \<Rightarrow> (string \<Rightarrow> string option option) \<Rightarrow> string \<Rightarrow> pd run" where
  "init_printer st resolve conf = (case get_printaddr resolve conf of
       None \<Rightarrow> die (Exit 1)
     | Some None \<Rightarrow> ret (st\<lparr>printer_name := ''printer''\<rparr>)
     | Some (Some n) \<Rightarrow> ret (st\<lparr>printer_name := n\<rparr>))"

subsection \<open>The IPP and HTTP headers\<close>

definition TAG_OPERATION_ATTR :: nat where "TAG_OPERATION_ATTR = 0x01"
definition TAG_END_OF_ATTR :: nat where "TAG_END_OF_ATTR = 0x03"
definition TAG_NAMEWOLANG :: nat where "TAG_NAMEWOLANG = 0x42"
definition TAG_URI :: nat where "TAG_URI = 0x45"
definition TAG_CHARSET :: nat where "TAG_CHARSET = 0x47"
definition TAG_NATULANG :: nat where "TAG_NATULANG = 0x48"
definition TAG_MIMETYPE :: nat where "TAG_MIMETYPE = 0x49"
definition OP_PRINT_JOB :: nat where "OP_PRINT_JOB = 0x02"

definition add_option :: "nat \<Rightarrow> string \<Rightarrow> string \<Rightarrow> string" where
  "add_option tag optname optval =
     char_of tag # be16 (length optname) @ optname @ be16 (length optval) @ optval"

definition uri_of :: "string \<Rightarrow> string" where
  "uri_of pn = ''http://'' @ pn @ '':'' @ dec IPP_PORT"

text \<open>What is put into \<^verbatim>\<open>ibuf\<close>, in order.\<close>

definition ipp_header :: "64 word \<Rightarrow> printreq \<Rightarrow> string \<Rightarrow> string" where
  "ipp_header jid r pn =
     char_of (1 :: nat) # char_of (1 :: nat) # be16 OP_PRINT_JOB @ be32 (ucast jid) @ [char_of TAG_OPERATION_ATTR] @
     add_option TAG_CHARSET ''attributes-charset'' ''utf-8'' @
     add_option TAG_NATULANG ''attributes-natural-language'' ''en-us'' @
     add_option TAG_URI ''printer-uri'' (uri_of pn) @
     add_option TAG_NAMEWOLANG ''requesting-user-name'' (cstr (usernm r)) @
     add_option TAG_NAMEWOLANG ''job-name'' (cstr (jobnm r)) @
     add_option TAG_MIMETYPE ''document-format''
       (if and (rflags r) PR_TEXT \<noteq> 0 then ''text/plain'' else ''application/postscript'') @
     [char_of TAG_END_OF_ATTR]"

definition CRLF :: string where "CRLF = [CHR 0x0D, CHR 0x0A]"

definition http_header :: "string \<Rightarrow> nat \<Rightarrow> string" where
  "http_header pn len =
     ''POST /'' @ pn @ ''/ipp HTTP/1.1'' @ CRLF @
     ''Content-Length: '' @ dec len @ CRLF @
     ''Content-Type: application/ipp'' @ CRLF @
     ''Host: '' @ pn @ '':'' @ dec IPP_PORT @ CRLF @ CRLF"

text \<open>The headers, with the fixed buffers \<^verbatim>\<open>str\<close>, \<^verbatim>\<open>ibuf\<close> and \<^verbatim>\<open>hbuf\<close> they are built in.\<close>

definition make_headers :: "64 word \<Rightarrow> printreq \<Rightarrow> string \<Rightarrow> nat \<Rightarrow> (string \<times> string) run" where
  "make_headers jid r pn fsz =
     rbind (guard (length (uri_of pn) < 64) (Undef ''str overflows'')) (\<lambda>_.
     rbind (guard (nul \<in> set (usernm r) \<and> nul \<in> set (jobnm r)) (Undef ''strlen of an unterminated array'')) (\<lambda>_.
     let ib = ipp_header jid r pn in
     rbind (guard (length ib \<le> IBUFSZ) (Undef ''ibuf overflows'')) (\<lambda>_.
     let hb = http_header pn (fsz + length ib) in
     rbind (guard (length hb \<le> HBUFSZ) (Undef ''hbuf overflows'')) (\<lambda>_.
     ret (hb, ib)))))"

subsection \<open>The printer's response\<close>

text \<open>Walking over the buffer while a test holds; leaving the buffer is undefined.\<close>

function skip :: "(char \<Rightarrow> bool) \<Rightarrow> string \<Rightarrow> nat \<Rightarrow> nat run" where
  "skip P bp i = (if i < length bp then (if P (bp ! i) then skip P bp (Suc i) else ret i) else die (Undef ''response buffer''))"
  by pat_completeness auto
termination by (relation "measure (\<lambda>(P, bp, i). length bp - i)") auto

declare skip.simps [simp del]

definition store :: "string \<Rightarrow> nat \<Rightarrow> char \<Rightarrow> string run" where
  "store bp i c = (if i < length bp then ret (bp[i := c]) else die (Undef ''response buffer''))"

text \<open>\<^verbatim>\<open>readmore\<close>: grow the buffer when \<open>off\<close> is at its end, then read to \<open>off\<close>.\<close>

definition readmore :: "(nat \<Rightarrow> char) \<Rightarrow> string \<Rightarrow> nat \<Rightarrow> chan \<Rightarrow> (nat option \<times> string \<times> chan)" where
  "readmore jk bp off c =
     (let bp = (if length bp \<le> off then bp @ map jk [length bp ..< length bp + IOBUFSZ] else bp) in
      case tread (length bp - off) c of
        (Got s, c') \<Rightarrow> if s \<noteq> [] then (Some (off + length s), pwrite bp off s, c') else (None, bp, c')
      | (RErr e, c') \<Rightarrow> (None, bp, c'))"

text \<open>\<^verbatim>\<open>if (i >= nr && (nr = readmore(...)) < 0) goto out\<close>; \<open>None\<close> is the jump.\<close>

definition get_more :: "(nat \<Rightarrow> char) \<Rightarrow> string \<Rightarrow> nat \<Rightarrow> nat \<Rightarrow> chan \<Rightarrow> (string \<times> nat \<times> chan) option" where
  "get_more jk bp nr i c =
     (if nr \<le> i then (case readmore jk bp i c of (Some n, bp, c) \<Rightarrow> Some (bp, n, c) | (None, bp, c) \<Rightarrow> None)
      else Some (bp, nr, c))"

text \<open>The search for a \<open>C\<close>: the character is looked at before the bound.\<close>

function skip_to_C :: "string \<Rightarrow> nat \<Rightarrow> nat \<Rightarrow> nat run" where
  "skip_to_C bp nr i =
     (if i < length bp then
        (if bp ! i \<noteq> CHR ''C'' \<and> bp ! i \<noteq> CHR ''c'' \<and> i < nr then skip_to_C bp nr (Suc i) else ret i)
      else die (Undef ''response buffer''))"
  by pat_completeness auto
termination by (relation "measure (\<lambda>(bp, nr, i). length bp - i)") auto

declare skip_to_C.simps [simp del]

definition lower :: "char \<Rightarrow> char" where
  "lower c = (let n = of_char c in if 65 \<le> n \<and> n \<le> (90 :: nat) then char_of (n + 32) else c)"

text \<open>\<^verbatim>\<open>strncasecmp(cp, "Content-Length:", 15) == 0\<close>, which reads on only while the text agrees.\<close>

definition at_clen :: "string \<Rightarrow> nat \<Rightarrow> bool run" where
  "at_clen bp i = (let s = map lower (take 15 (drop i bp)) in
     if length s < 15 \<and> s = take (length s) ''content-length:'' then die (Undef ''response buffer'')
     else ret (s = ''content-length:''))"

partial_function (option) find_clen ::
    "(nat \<Rightarrow> char) \<Rightarrow> string \<Rightarrow> nat \<Rightarrow> nat \<Rightarrow> chan \<Rightarrow> (string \<times> nat \<times> nat \<times> int \<times> chan) option run" where
  "find_clen jk bp nr i c =
     rbind (skip_to_C bp nr i) (\<lambda>i.
     case get_more jk bp nr i c of None \<Rightarrow> ret None
     | Some r \<Rightarrow>
       rbind (at_clen (fst r) i) (\<lambda>m.
       if m then
         rbind (skip is_space (fst r) (i + 15)) (\<lambda>cl.
         rbind (skip is_digit (fst r) cl) (\<lambda>e.
         rbind (store (fst r) e nul) (\<lambda>bp.
         ret (Some (bp, fst (snd r), Suc e, atoi (cstr (drop cl bp)), snd (snd r))))))
       else find_clen jk (fst r) (fst (snd r)) (Suc i) (snd (snd r))))"

text \<open>The inner loop of the search for the blank line: from \<open>i\<close> up to \<open>nr - 2\<close>.\<close>

function scan_end :: "string \<Rightarrow> nat \<Rightarrow> nat \<Rightarrow> (bool \<times> nat) run" where
  "scan_end bp nr i =
     (if i + 2 < nr then
        (if length bp \<le> i + 2 then die (Undef ''response buffer'')
         else if bp ! i = CHR 0x0A \<and> bp ! (i + 1) = CHR 0x0D \<and> bp ! (i + 2) = CHR 0x0A then ret (True, i + 3)
         else scan_end bp nr (Suc i))
      else ret (False, i))"
  by pat_completeness auto
termination by (relation "measure (\<lambda>(bp, nr, i). nr - i)") auto

declare scan_end.simps [simp del]

partial_function (option) find_end ::
    "(nat \<Rightarrow> char) \<Rightarrow> string \<Rightarrow> nat \<Rightarrow> nat \<Rightarrow> chan \<Rightarrow> (string \<times> nat \<times> nat \<times> chan) option run" where
  "find_end jk bp nr i c =
     rbind (scan_end bp nr i) (\<lambda>f.
     case get_more jk bp nr (snd f) c of None \<Rightarrow> ret None
     | Some r \<Rightarrow>
       if fst f then ret (Some (fst r, fst (snd r), snd f, snd (snd r)))
       else find_end jk (fst r) (fst (snd r)) (snd f) (snd (snd r)))"

text \<open>The end of \<^verbatim>\<open>printer_status\<close> at \<^verbatim>\<open>out\<close> after a failed read: it prints an unset \<^verbatim>\<open>jobid\<close>.\<close>

definition status_read_error :: "bool run" where
  "status_read_error = die (Undef ''jobid is used uninitialised'')"

text \<open>The IPP part: \<open>i\<close> is where it starts, \<open>len\<close> what \<^verbatim>\<open>Content-Length\<close> said.\<close>

definition ipp_status :: "(nat \<Rightarrow> char) \<Rightarrow> 64 word \<Rightarrow> string \<Rightarrow> nat \<Rightarrow> nat \<Rightarrow> int \<Rightarrow> chan \<Rightarrow> bool run" where
  "ipp_status jk jid bp nr i len c =
     (case (if int nr - int i < len then (case readmore jk bp i c of (Some n, bp, c) \<Rightarrow> Some bp | (None, bp, c) \<Rightarrow> None)
            else Some bp) of
        None \<Rightarrow> status_read_error
      | Some bp \<Rightarrow>
        if length bp < i + 8 then die (Undef ''response buffer'')
        else
          let code = unbe (take 2 (drop (i + 2) bp)); rid = unbe (take 4 (drop (i + 4) bp)) in
          ret (int rid = sint jid \<and> code \<le> 0xff))"

text \<open>After a success status: \<^verbatim>\<open>Content-Length\<close>, the blank line, the IPP response.\<close>

definition status_ok :: "(nat \<Rightarrow> char) \<Rightarrow> 64 word \<Rightarrow> string \<Rightarrow> nat \<Rightarrow> nat \<Rightarrow> chan \<Rightarrow> bool run" where
  "status_ok jk jid bp nr i c =
     rbind (find_clen jk bp nr i c) (\<lambda>r.
     case r of None \<Rightarrow> status_read_error
     | Some (bp, nr, i, len, c) \<Rightarrow>
       (case get_more jk bp nr i c of None \<Rightarrow> status_read_error
        | Some (bp, nr, c) \<Rightarrow>
          rbind (find_end jk bp nr i c) (\<lambda>v.
          case v of None \<Rightarrow> status_read_error
          | Some (bp, nr, i, c) \<Rightarrow> ipp_status jk jid bp nr i len c)))"

partial_function (option) status_loop :: "(nat \<Rightarrow> char) \<Rightarrow> 64 word \<Rightarrow> string \<Rightarrow> chan \<Rightarrow> bool run" where
  "status_loop jk jid bp c =
     (case tread IOBUFSZ c of
        (RErr e, c) \<Rightarrow> status_read_error
      | (Got s, c) \<Rightarrow>
        if s = [] then ret False
        else
          let nr = length s; bp = pwrite bp 0 s in
          rbind (skip is_space bp 8) (\<lambda>sc.
          rbind (skip is_digit bp sc) (\<lambda>e.
          if e = sc then status_loop jk jid bp c
          else
            rbind (store bp e nul) (\<lambda>bp.
            rbind (skip (\<lambda>x. x \<noteq> CHR 0x0D \<and> x \<noteq> CHR 0x0A) bp (Suc e)) (\<lambda>q.
            rbind (store bp q nul) (\<lambda>bp.
            let code = atoi (cstr (drop sc bp)) in
            if 100 \<le> code \<and> code \<le> 199 then status_loop jk jid bp c
            else if \<not> (200 \<le> code \<and> code \<le> 299) then rbind (store bp nr nul) (\<lambda>_. ret False)
            else status_ok jk jid bp nr q c))))))"

definition printer_status :: "(nat \<Rightarrow> char) \<Rightarrow> 64 word \<Rightarrow> chan \<Rightarrow> bool run" where
  "printer_status jk jid c = status_loop jk jid (map jk [0..<IOBUFSZ]) c"

subsection \<open>One round of the printer thread\<close>

record penv =
  upd_fail :: bool
  conf :: string
  resolver :: "string \<Rightarrow> string option option"
  open_fail :: bool
  fstat_fail :: bool
  sock_fail :: bool
  conn_ok :: "nat \<Rightarrow> bool"
  fdata :: chan
  psock :: "wevent list"
  presp :: chan
  pjunk :: "nat \<Rightarrow> char"

datatype outcome = NoJob | Canceled | Deferred | Printed

text \<open>Sending the file; \<open>False\<close> when a read or a write fails or a write is short.\<close>

function send_data :: "chan \<Rightarrow> wchan \<Rightarrow> bool \<times> wchan" where
  "send_data fc w =
     (case sys_read IOBUFSZ fc of
        (RErr e, fc') \<Rightarrow> (False, w)
      | (Got s, fc') \<Rightarrow>
        if s = [] then (True, w)
        else (case sys_write s w of
           (WErr e, w') \<Rightarrow> (False, w')
         | (Wrote k, w') \<Rightarrow> if k \<noteq> length s then (False, w') else send_data fc' w'))"
  by pat_completeness auto
termination
  by (relation "measure (\<lambda>(fc, w). chan_size fc)") (auto dest!: sym [of "(_, _)"] sys_read_size)

declare send_data.simps [simp del]

definition defer_job :: "pd \<Rightarrow> nat \<Rightarrow> string \<Rightarrow> (outcome \<times> string \<times> pd) run" where
  "defer_job st jp out = rbind (replace_job st jp) (\<lambda>st. ret (Deferred, out, st))"

definition free_job :: "pd \<Rightarrow> nat \<Rightarrow> pd" where
  "free_job st jp = st\<lparr>jheap := (jheap st)(jp := None)\<rparr>"

text \<open>The job \<open>jp\<close> with a connected socket: headers, file, response.\<close>

definition print_job :: "pd \<Rightarrow> nat \<Rightarrow> job \<Rightarrow> string \<Rightarrow> penv \<Rightarrow> (outcome \<times> string \<times> pd) run" where
  "print_job st jp j content ev =
     rbind (make_headers (jobid j) (req j) (printer_name st) (length content)) (\<lambda>(hb, ib).
     case sys_write (hb @ ib) \<lparr>sent = [], script = psock ev\<rparr> of
       (WErr e, w) \<Rightarrow> defer_job st jp (sent w)
     | (Wrote k, w) \<Rightarrow>
       if k \<noteq> length hb + length ib then defer_job st jp (sent w)
       else (case send_data (fdata ev) w of (ok, w) \<Rightarrow>
         if \<not> ok then defer_job st jp (sent w)
         else rbind (printer_status (pjunk ev) (jobid j) (presp ev)) (\<lambda>good.
           if good then
             let nm = sdec (jobid j) in
             ret (Printed, sent w, free_job (st\<lparr>datadir := (datadir st)(nm := None), reqdir := (reqdir st)(nm := None)\<rparr>) jp)
           else defer_job st jp (sent w))))"

definition printer_round :: "pd \<Rightarrow> penv \<Rightarrow> (outcome \<times> string \<times> pd) run" where
  "printer_round st ev =
     (if jobhead st = 0 then ret (NoJob, [], st)
      else
        let jp = jobhead st in
        rbind (jget st jp) (\<lambda>j.
        rbind (remove_job st jp) (\<lambda>st.
        rbind (update_jobno st (upd_fail ev)) (\<lambda>st.
        rbind (if reread st then init_printer (st\<lparr>reread := False\<rparr>) (resolver ev) (conf ev) else ret st) (\<lambda>st.
        case datadir st (sdec (jobid j)) of
          None \<Rightarrow> ret (Canceled, [], free_job st jp)
        | Some content \<Rightarrow>
          if open_fail ev \<or> fstat_fail ev then ret (Canceled, [], free_job st jp)
          else if sock_fail ev then defer_job st jp []
          else if fst (connect_retry (conn_ok ev)) < 0 then defer_job st jp []
          else print_job st jp j content ev)))))"

end
