(* ===== verification/PrinterStatus.thy ===== *)
theory PrinterStatus
  imports PrinterModel
begin

section \<open>The print spooler: lemmas on the printer's response\<close>

text \<open>
  How \<^verbatim>\<open>printer_status\<close> walks over a response that arrived in one read: each loop of the parser,
  and each store into the buffer, on a buffer written as a concatenation.
\<close>

lemma skip_append:
  "\<forall>x\<in>set xs. P x \<Longrightarrow> \<not> P y \<Longrightarrow> skip P (pre @ xs @ y # ys) (length pre) = ret (length pre + length xs)"
proof (induction xs arbitrary: pre)
  case Nil
  then show ?case by (subst skip.simps) simp
next
  case (Cons x xs)
  from Cons.IH [of "pre @ [x]"] Cons.prems show ?case by (subst skip.simps) (simp add: nth_append)
qed

lemma skip_at: "bp = pre @ xs @ y # ys \<Longrightarrow> i = length pre \<Longrightarrow> \<forall>x\<in>set xs. P x \<Longrightarrow> \<not> P y \<Longrightarrow> skip P bp i = ret (i + length xs)"
  by (simp add: skip_append)

lemma store_at: "bp = pre @ x # ys \<Longrightarrow> i = length pre \<Longrightarrow> store bp i c = ret (pre @ c # ys)"
  by (simp add: store_def)

subsection \<open>The search for \<^verbatim>\<open>Content-Length:\<close>\<close>

lemma skip_to_C_stops:
  "i \<le> j \<Longrightarrow> j < length bp \<Longrightarrow> bp ! j = CHR ''C'' \<or> bp ! j = CHR ''c'' \<Longrightarrow>
     \<exists>k. skip_to_C bp nr i = ret k \<and> i \<le> k \<and> k \<le> j"
proof (induction "j - i" arbitrary: i rule: less_induct)
  case less
  show ?case
  proof (cases "bp ! i \<noteq> CHR ''C'' \<and> bp ! i \<noteq> CHR ''c'' \<and> i < nr")
    case True
    with less.prems have "i \<noteq> j" by auto
    with less.prems have ij: "Suc i \<le> j" "j - Suc i < j - i" by auto
    obtain k where "skip_to_C bp nr (Suc i) = ret k" "Suc i \<le> k" "k \<le> j"
      using less.hyps [OF ij(2,1) less.prems(2,3)] by blast
    with True less.prems show ?thesis by (subst skip_to_C.simps) (auto intro!: exI [of _ k])
  next
    case False
    with less.prems show ?thesis by (subst skip_to_C.simps) (auto intro!: exI [of _ i])
  qed
qed

lemma lower_c: "lower x = CHR ''c'' \<Longrightarrow> x = CHR ''C'' \<or> x = CHR ''c''"
proof -
  assume l: "lower x = CHR ''c''"
  show ?thesis
  proof (cases "65 \<le> (of_char x :: nat) \<and> (of_char x :: nat) \<le> 90")
    case True
    with l have "char_of ((of_char x :: nat) + 32) = CHR ''c''" by (simp add: lower_def Let_def)
    then have "of_char (char_of ((of_char x :: nat) + 32) :: char) = (of_char (CHR ''c'') :: nat)" by simp
    with True have "(of_char x :: nat) + 32 = 99" by simp
    then have "(of_char x :: nat) = of_char (CHR ''C'')" by simp
    then show ?thesis unfolding of_char_eq_iff by simp
  next
    case False
    with l show ?thesis by (simp add: lower_def Let_def split: if_splits)
  qed
qed

lemma at_clen_head:
  assumes "at_clen bp j = ret True"
  shows "j < length bp \<and> (bp ! j = CHR ''C'' \<or> bp ! j = CHR ''c'')"
proof -
  from assms have m: "map lower (take 15 (drop j bp)) = ''content-length:''"
    by (simp add: at_clen_def Let_def split: if_splits)
  then obtain x xs where d: "drop j bp = x # xs" by (cases "drop j bp") auto
  with m have "lower x = CHR ''c''" by simp
  moreover from d have "j < length bp" by (metis drop_eq_Nil linorder_not_less list.distinct(1))
  moreover from d have "bp ! j = x" by (metis calculation(2) Cons_nth_drop_Suc list.inject)
  ultimately show ?thesis using lower_c by blast
qed

lemma find_clen_walk:
  assumes "i \<le> j" and "j < nr" and "at_clen bp j = ret True"
    and "\<And>k. i \<le> k \<Longrightarrow> k < j \<Longrightarrow> at_clen bp k = ret False"
  shows "find_clen jk bp nr i c = find_clen jk bp nr j c"
  using assms
proof (induction "j - i" arbitrary: i rule: less_induct)
  case less
  note jl = at_clen_head [OF less.prems(3)]
  obtain k where k: "skip_to_C bp nr i = ret k" "i \<le> k" "k \<le> j"
    using skip_to_C_stops [of i j bp nr] less.prems(1) jl by blast
  have sj: "skip_to_C bp nr j = ret j" using jl by (subst skip_to_C.simps) auto
  have gm: "get_more jk bp nr k c = Some (bp, nr, c)" using k less.prems(2) by (simp add: get_more_def)
  show ?case
  proof (cases "k = j")
    case True
    then show ?thesis
      by (subst find_clen.simps, subst (2) find_clen.simps) (simp only: k(1) sj)
  next
    case False
    with k less.prems have f: "at_clen bp k = ret False" by auto
    have "find_clen jk bp nr i c = find_clen jk bp nr (Suc k) c"
      by (subst find_clen.simps) (simp add: k(1) gm f)
    also have "\<dots> = find_clen jk bp nr j c"
      using less.hyps [of "Suc k"] less.prems k False by auto
    finally show ?thesis .
  qed
qed

lemma find_clen_at:
  assumes bp: "bp = pre @ nm @ sp @ ds @ y # ys" and nm: "map lower nm = ''content-length:''"
    and sp: "\<forall>x\<in>set sp. is_space x" and ds: "\<forall>x\<in>set ds. is_digit x" "ds \<noteq> []"
    and y: "\<not> is_digit y" and nr: "length pre < nr"
  shows "at_clen bp (length pre) = ret True" and
    "find_clen jk bp nr (length pre) c =
       ret (Some (pre @ nm @ sp @ ds @ nul # ys, nr, Suc (length (pre @ nm @ sp @ ds)), atoi ds, c))"
proof -
  have ln: "length nm = 15" using arg_cong [OF nm, of length] by simp
  show at: "at_clen bp (length pre) = ret True"
    unfolding at_clen_def bp using ln nm by (simp add: Let_def)
  note jl = at_clen_head [OF at]
  have s: "skip_to_C bp nr (length pre) = ret (length pre)" using jl by (subst skip_to_C.simps) auto
  have gm: "get_more jk bp nr (length pre) c = Some (bp, nr, c)" using nr by (simp add: get_more_def)
  obtain d ds' where d: "ds = d # ds'" using ds(2) by (cases ds) auto
  have s1: "skip is_space bp (length pre + 15) = ret (length pre + 15 + length sp)"
    by (rule skip_at [where pre = "pre @ nm" and xs = sp and y = d and ys = "ds' @ y # ys"]) (use bp sp ds d ln in auto)
  have s2: "skip is_digit bp (length pre + 15 + length sp) = ret (length pre + 15 + length sp + length ds)"
    by (rule skip_at [where pre = "pre @ nm @ sp" and xs = ds and y = y and ys = ys]) (use bp y ds ln in auto)
  have s3: "store bp (length pre + 15 + length sp + length ds) nul = ret ((pre @ nm @ sp @ ds) @ nul # ys)"
    by (rule store_at [where x = y]) (use bp ln in auto)
  have dr: "cstr (ds @ nul # ys) = ds" using ds(1) by (intro cstr_append_nul) auto
  show "find_clen jk bp nr (length pre) c =
       ret (Some (pre @ nm @ sp @ ds @ nul # ys, nr, Suc (length (pre @ nm @ sp @ ds)), atoi ds, c))"
    by (subst find_clen.simps) (simp add: s gm at s1 s2 s3 [simplified] dr ln)
qed

subsection \<open>The search for the blank line\<close>

definition blank_at :: "string \<Rightarrow> nat \<Rightarrow> bool" where
  "blank_at bp i \<longleftrightarrow> bp ! i = CHR 0x0A \<and> bp ! (i + 1) = CHR 0x0D \<and> bp ! (i + 2) = CHR 0x0A"

lemma scan_end_found:
  "i \<le> j \<Longrightarrow> j + 2 < nr \<Longrightarrow> nr \<le> length bp \<Longrightarrow> blank_at bp j \<Longrightarrow> (\<And>k. i \<le> k \<Longrightarrow> k < j \<Longrightarrow> \<not> blank_at bp k) \<Longrightarrow>
     scan_end bp nr i = ret (True, j + 3)"
proof (induction "j - i" arbitrary: i)
  case 0
  then show ?case by (subst scan_end.simps) (simp add: blank_at_def)
next
  case (Suc n)
  from Suc.hyps(2) have ij: "n = j - Suc i" "Suc i \<le> j" "i < j" by auto
  have "scan_end bp nr (Suc i) = ret (True, j + 3)"
    using Suc.hyps(1) [OF ij(1,2)] Suc.prems by simp
  moreover have "\<not> blank_at bp i" using Suc.prems(5) ij by simp
  ultimately show ?case using Suc.prems(2,3) ij by (subst scan_end.simps) (auto simp: blank_at_def)
qed

lemma scan_end_none:
  "nr \<le> length bp \<Longrightarrow> (\<And>k. i \<le> k \<Longrightarrow> k + 2 < nr \<Longrightarrow> \<not> blank_at bp k) \<Longrightarrow>
     scan_end bp nr i = ret (False, max i (nr - 2))"
proof (induction "nr - i" arbitrary: i rule: less_induct)
  case less
  show ?case
  proof (cases "i + 2 < nr")
    case True
    then have "scan_end bp nr (Suc i) = ret (False, max (Suc i) (nr - 2))"
      using less.hyps [of "Suc i"] less.prems by simp
    moreover have "\<not> blank_at bp i" using less.prems(2) True by simp
    moreover have "max (Suc i) (nr - 2) = max i (nr - 2)" using True by linarith
    ultimately show ?thesis using less.prems(1) True by (subst scan_end.simps) (auto simp: blank_at_def)
  qed (subst scan_end.simps, auto simp: max_def)
qed

text \<open>Once the scan stands one or two bytes before the end of what was read, the loop spins.\<close>

lemma find_end_stuck:
  assumes "nr \<le> i + 2" and "i < nr"
  shows "find_end jk bp nr i c = None"
proof -
  have "\<not> (nr \<le> i + 2 \<and> i < nr)" if "find_end jk bp nr i c = Some y" for y
  proof (rule find_end.raw_induct [rotated, OF that, where P = "\<lambda>jk bp nr i c y. \<not> (nr \<le> i + 2 \<and> i < nr)"], goal_cases)
    case (1 f jk bp nr i c y)
    show ?case
    proof
      assume s: "nr \<le> i + 2 \<and> i < nr"
      then have "scan_end bp nr i = ret (False, i)" by (subst scan_end.simps) simp
      moreover have "get_more jk bp nr i c = Some (bp, nr, c)" using s by (simp add: get_more_def)
      ultimately have "f jk bp nr i c = Some y" using 1(2) by simp
      from 1(1) [OF this] s show False by simp
    qed
  qed
  with assms show ?thesis by (cases "find_end jk bp nr i c") auto
qed

subsection \<open>A whole response\<close>

text \<open>
  The shape of a response: a status line, header lines \<open>hdrs\<close> without a \<^verbatim>\<open>Content-Length\<close>, the
  \<^verbatim>\<open>Content-Length\<close> line, further lines \<open>hdrs2\<close> and the blank line.
\<close>

definition CR :: char where "CR = CHR 0x0D"
definition LF :: char where "LF = CHR 0x0A"

lemma CRLF_eq: "CRLF = [CR, LF]"
  by (simp add: CRLF_def CR_def LF_def)

definition no_clen :: "string \<Rightarrow> string \<Rightarrow> bool" where
  "no_clen hdrs nm \<longleftrightarrow> (\<forall>k<length hdrs. map lower (take 15 (drop k (hdrs @ nm))) \<noteq> ''content-length:'')"

definition header_lines :: "string \<Rightarrow> bool" where
  "header_lines hdrs2 \<longleftrightarrow> (hdrs2 = [] \<or> last hdrs2 = LF) \<and>
     (\<forall>k<length hdrs2. take 3 (drop k (LF # hdrs2 @ CRLF)) \<noteq> [LF, CR, LF])"

definition status_line :: "string \<Rightarrow> nat \<Rightarrow> string \<Rightarrow> string" where
  "status_line ver code reason = ver @ '' '' @ dec code @ '' '' @ reason @ CRLF"

definition good_line :: "string \<Rightarrow> nat \<Rightarrow> string \<Rightarrow> bool" where
  "good_line ver code reason \<longleftrightarrow> length ver = 8 \<and> 200 \<le> code \<and> code \<le> 299 \<and> CR \<notin> set reason \<and> LF \<notin> set reason"

lemma at_clen_False:
  "k + 15 \<le> length bp \<Longrightarrow> map lower (take 15 (drop k bp)) \<noteq> ''content-length:'' \<Longrightarrow> at_clen bp k = ret False"
  by (simp add: at_clen_def Let_def)

lemma not_digit_CR [simp]: "\<not> is_digit CR" "\<not> is_digit (CHR '' '')" "is_space (CHR '' '')"
  by (simp_all add: CR_def is_digit_def is_space_def space_def)

lemma dec_space [simp]: "x \<in> set (dec n) \<Longrightarrow> is_digit x"
  using dec_digits by blast

text \<open>The state of the parser when it has accepted the status line.\<close>

lemma status_loop_line:
  assumes g: "good_line ver code reason" and s: "s = status_line ver code reason @ rest" and n: "length s \<le> IOBUFSZ"
  shows "printer_status jk jid (Piece s # c) =
     status_ok jk jid ((ver @ '' '' @ dec code @ [nul] @ reason) @ nul # LF # rest @ drop (length s) (map jk [0..<IOBUFSZ]))
       (length s) (length (ver @ '' '' @ dec code @ [nul] @ reason)) c"
proof -
  define J where "J = drop (length s) (map jk [0..<IOBUFSZ])"
  from g have v: "length ver = 8" and co: "200 \<le> code" "code \<le> 299" and re: "CR \<notin> set reason" "LF \<notin> set reason"
    by (auto simp: good_line_def)
  have ne: "s \<noteq> []" using s v by (auto simp: status_line_def)
  have rd: "tread IOBUFSZ (Piece s # c) = (Got s, c)" using ne n by (cases s) auto
  have bp: "pwrite (map jk [0..<IOBUFSZ]) 0 s = s @ J" by (simp add: pwrite_def J_def)
  have s': "s @ J = ver @ '' '' @ dec code @ '' '' @ reason @ [CR] @ LF # rest @ J"
    using s by (simp add: status_line_def CRLF_eq)
  obtain d ds where d: "dec code = d # ds" using dec_nonempty [of code] by (cases "dec code") auto
  then have dd: "is_digit d" using dec_digits [of code] by simp
  have s1: "skip is_space (s @ J) 8 = ret 9"
    using skip_at [of "s @ J" ver "'' ''" d "ds @ '' '' @ reason @ [CR] @ LF # rest @ J" 8 is_space] s' v d dd by simp
  have s2: "skip is_digit (s @ J) 9 = ret (9 + length (dec code))"
    by (rule skip_at [where pre = "ver @ '' ''" and y = "CHR '' ''"]) (use s' v in auto)
  have s3: "store (s @ J) (9 + length (dec code)) nul = ret ((ver @ '' '' @ dec code) @ nul # reason @ CR # LF # rest @ J)"
    by (rule store_at [where x = "CHR '' ''"]) (use s' v in auto)
  have s4: "skip (\<lambda>x. x \<noteq> CHR 0x0D \<and> x \<noteq> CHR 0x0A) ((ver @ '' '' @ dec code) @ nul # reason @ CR # LF # rest @ J)
      (Suc (9 + length (dec code))) = ret (Suc (9 + length (dec code)) + length reason)"
    by (rule skip_at [where pre = "ver @ '' '' @ dec code @ [nul]" and y = CR and ys = "LF # rest @ J"])
      (use v re in \<open>auto simp: CR_def LF_def\<close>)
  have s5: "store ((ver @ '' '' @ dec code) @ nul # reason @ CR # LF # rest @ J) (Suc (9 + length (dec code)) + length reason) nul =
      ret ((ver @ '' '' @ dec code @ [nul] @ reason) @ nul # LF # rest @ J)"
    by (rule store_at [where x = CR]) (use v in auto)
  have at: "atoi (cstr (drop 9 ((ver @ '' '' @ dec code @ [nul] @ reason) @ nul # LF # rest @ J))) = int code"
  proof -
    have "drop 9 ((ver @ '' '' @ dec code @ [nul] @ reason) @ nul # LF # rest @ J) = dec code @ nul # reason @ nul # LF # rest @ J"
      using v by simp
    moreover have "cstr (dec code @ nul # reason @ nul # LF # rest @ J) = dec code" by simp
    moreover have "atoi (dec code) = int code"
      using co by (simp add: atoi_dec)
    ultimately show ?thesis by simp
  qed
  have e5: "Suc (9 + length (dec code)) + length reason = length (ver @ '' '' @ dec code @ [nul] @ reason)" using v by simp
  have nz: "(9 + length (dec code) = 9) = False" by simp
  have rng: "(100 \<le> int code \<and> int code \<le> 199) = False" "(200 \<le> int code \<and> int code \<le> 299) = True" using co by auto
  show ?thesis
    unfolding printer_status_def J_def [symmetric]
    by (subst status_loop.simps)
      (simp only: rd prod.case rres.case ne if_False if_True Let_def bp s1 s2 s3 s4 e5 s5 [unfolded e5] at rbind_simps nz rng simp_thms)
qed

text \<open>What the IPP part of a body says: the request number and the status.\<close>

definition ipp_accepts :: "64 word \<Rightarrow> string \<Rightarrow> bool" where
  "ipp_accepts jid body \<longleftrightarrow> int (unbe (take 4 (drop 4 body))) = sint jid \<and> unbe (take 2 (drop 2 body)) \<le> 0xff"

text \<open>The parser from the end of the status line to the \<^verbatim>\<open>Content-Length\<close> line.\<close>

lemma find_clen_headers:
  assumes nm: "map lower nm = ''content-length:''" and nc: "no_clen hdrs nm"
    and y: "\<not> is_digit y" and nr: "length (A @ nul # LF # hdrs @ nm) \<le> nr"
  shows "find_clen jk (A @ nul # LF # hdrs @ nm @ '' '' @ dec len @ y # ys) nr (length A) c =
    ret (Some (A @ nul # LF # hdrs @ nm @ '' '' @ dec len @ nul # ys, nr,
      Suc (length (A @ nul # LF # hdrs @ nm @ '' '' @ dec len)), atoi (dec len), c))"
    (is "find_clen jk ?bp nr _ c = ?R")
proof -
  define P where "P = A @ nul # LF # hdrs"
  have ln: "length nm = 15" using arg_cong [OF nm, of length] by simp
  have bp: "?bp = P @ nm @ '' '' @ dec len @ y # ys" by (simp add: P_def)
  have P: "length P < nr" using nr ln by (simp add: P_def)
  note at = find_clen_at [OF bp nm _ _ dec_nonempty y P]
  have w: "at_clen ?bp k = ret False" if k: "length A \<le> k" "k < length P" for k
  proof (rule at_clen_False)
    show "k + 15 \<le> length ?bp" using k ln by (simp add: P_def)
    let ?s = "map lower (take 15 (drop k ?bp))"
    from k have "k = length A \<or> k = length A + 1 \<or> (\<exists>j. k = length A + 2 + j \<and> j < length hdrs)"
      by (auto simp: P_def intro!: exI [of _ "k - length A - 2"])
    then consider "k = length A" | "k = length A + 1" | j where "k = length A + 2 + j" "j < length hdrs" by blast
    then show "?s \<noteq> ''content-length:''"
    proof cases
      case 1
      then show ?thesis by (simp add: lower_def nul_def)
    next
      case 2
      then show ?thesis by (simp add: lower_def LF_def)
    next
      case 3
      have "drop k ?bp = drop j (hdrs @ nm) @ '' '' @ dec len @ y # ys" using 3 by simp
      then have "take 15 (drop k ?bp) = take 15 (drop j (hdrs @ nm))" using 3 ln by simp
      then show ?thesis using nc 3 by (simp add: no_clen_def)
    qed
  qed
  have "find_clen jk ?bp nr (length A) c = find_clen jk ?bp nr (length P) c"
    by (rule find_clen_walk) (use w P at(1) in \<open>auto simp: P_def\<close>)
  also have "\<dots> = ?R" using at(2) by (simp add: P_def)
  finally show ?thesis .
qed

lemma blank_at_take: "k + 2 < length bp \<Longrightarrow> blank_at bp k \<longleftrightarrow> take 3 (drop k bp) = [LF, CR, LF]"
  by (simp add: blank_at_def LF_def CR_def numeral_3_eq_3 Cons_nth_drop_Suc [symmetric])

lemma scan_end_headers:
  assumes h: "header_lines hdrs2" and i: "i = length B" and b: "body \<noteq> []"
    and nr: "nr = length (B @ LF # hdrs2 @ CRLF @ body)"
  shows "scan_end (B @ LF # hdrs2 @ CRLF @ body @ J) nr i = ret (True, length (B @ LF # hdrs2 @ CRLF))"
    (is "scan_end ?bp _ _ = _")
proof -
  have f: "drop (length B + length hdrs2) ?bp = LF # CRLF @ body @ J"
  proof -
    have "drop (length hdrs2) (LF # hdrs2) = [LF]"
      using h by (cases hdrs2 rule: rev_cases) (auto simp: header_lines_def)
    then have "drop (length hdrs2) ((LF # hdrs2) @ CRLF @ body @ J) = LF # CRLF @ body @ J"
      by (simp only: drop_append) simp
    moreover have "drop (length B + length hdrs2) ?bp = drop (length hdrs2) ((LF # hdrs2) @ CRLF @ body @ J)"
      by (simp add: drop_append)
    ultimately show ?thesis by simp
  qed
  have "scan_end ?bp nr i = ret (True, length B + length hdrs2 + 3)"
  proof (rule scan_end_found)
    show "blank_at ?bp (length B + length hdrs2)"
      by (subst blank_at_take) (simp_all only: f, simp_all add: CRLF_eq)
    fix k assume k: "i \<le> k" "k < length B + length hdrs2"
    then obtain m where m: "k = length B + m" "m < length hdrs2" using i
      by (metis add_less_cancel_left le_add_diff_inverse)
    have "drop k ?bp = drop m (LF # hdrs2 @ CRLF) @ body @ J" using m by (simp add: drop_Cons')
    moreover have "3 \<le> length (drop m (LF # hdrs2 @ CRLF))" using m by (simp add: CRLF_eq)
    ultimately have "take 3 (drop k ?bp) = take 3 (drop m (LF # hdrs2 @ CRLF))" by simp
    then show "\<not> blank_at ?bp k" using m h by (subst blank_at_take) (auto simp: header_lines_def CRLF_eq)
  qed (use i nr b in \<open>auto simp: CRLF_eq length_greater_0_conv [symmetric] simp del: length_greater_0_conv\<close>)
  then show ?thesis by (simp add: CRLF_eq)
qed

lemma status_ok_headers:
  assumes nm: "map lower nm = ''content-length:''" and nc: "no_clen hdrs nm" and h: "header_lines hdrs2"
    and body: "8 \<le> length body" "len \<le> length body" "len < 2 ^ 31"
    and nr: "nr = length (A @ nul # LF # hdrs @ nm @ '' '' @ dec len @ CRLF @ hdrs2 @ CRLF @ body)"
  shows "status_ok jk jid (A @ nul # LF # hdrs @ nm @ '' '' @ dec len @ CRLF @ hdrs2 @ CRLF @ body @ J) nr (length A) c =
    ret (ipp_accepts jid body)"
proof -
  define B where "B = A @ nul # LF # hdrs @ nm @ '' '' @ dec len @ [nul]"
  define ys where "ys = LF # hdrs2 @ CRLF @ body @ J"
  have nrB: "nr = length (B @ LF # hdrs2 @ CRLF @ body)" using nr by (simp add: B_def CRLF_eq)
  have b0: "body \<noteq> []" using body(1) by auto
  have fc: "find_clen jk (A @ nul # LF # hdrs @ nm @ '' '' @ dec len @ CR # ys) nr (length A) c =
      ret (Some (B @ ys, nr, length B, atoi (dec len), c))"
    using find_clen_headers [OF nm nc, of CR A nr jk len ys c] nr by (simp add: B_def CRLF_eq)
  have g1: "get_more jk (B @ ys) nr (length B) c = Some (B @ ys, nr, c)"
    using nrB by (simp add: get_more_def)
  have sc: "scan_end (B @ ys) nr (length B) = ret (True, length (B @ LF # hdrs2 @ CRLF))"
    unfolding ys_def by (rule scan_end_headers [OF h refl b0 nrB])
  have g2: "get_more jk (B @ ys) nr (length (B @ LF # hdrs2 @ CRLF)) c = Some (B @ ys, nr, c)"
    using nrB b0 by (simp add: get_more_def)
  have fe: "find_end jk (B @ ys) nr (length B) c = ret (Some (B @ ys, nr, length (B @ LF # hdrs2 @ CRLF), c))"
    by (subst find_end.simps) (simp only: sc rbind_simps fst_conv snd_conv g2 option.case if_True)
  have dr: "drop (length (B @ LF # hdrs2 @ CRLF)) (B @ ys) = body @ J" by (simp add: ys_def)
  have lb: "\<not> length (B @ ys) < length (B @ LF # hdrs2 @ CRLF) + 8" using body(1) by (simp add: ys_def)
  have nl: "\<not> int nr - int (length (B @ LF # hdrs2 @ CRLF)) < atoi (dec len)"
    using nrB body by (simp add: atoi_dec)
  have d2: "drop (length (B @ LF # hdrs2 @ CRLF) + k) (B @ ys) = drop k (body @ J)" for k
    using dr by (metis add.commute drop_drop)
  have ip: "ipp_status jk jid (B @ ys) nr (length (B @ LF # hdrs2 @ CRLF)) (atoi (dec len)) c = ret (ipp_accepts jid body)"
    unfolding ipp_status_def using lb nl body(1) by (simp only: if_False option.case Let_def d2 ipp_accepts_def) simp
  have e: "A @ nul # LF # hdrs @ nm @ '' '' @ dec len @ CRLF @ hdrs2 @ CRLF @ body @ J =
      A @ nul # LF # hdrs @ nm @ '' '' @ dec len @ CR # ys" by (simp add: ys_def CRLF_eq)
  show ?thesis
    unfolding status_ok_def e by (simp only: fc rbind_simps option.case prod.case g1 fe ip)
qed

definition http_response :: "string \<Rightarrow> string \<Rightarrow> string \<Rightarrow> nat \<Rightarrow> string \<Rightarrow> string \<Rightarrow> string" where
  "http_response line hdrs nm len hdrs2 body =
     line @ hdrs @ nm @ '' '' @ dec len @ CRLF @ hdrs2 @ CRLF @ body"

lemma printer_status_one_read:
  assumes "good_line ver code reason" and "map lower nm = ''content-length:''"
    and "no_clen hdrs nm" and "header_lines hdrs2"
    and "8 \<le> length body" and "len \<le> length body" and "len < 2 ^ 31"
    and "s = http_response (status_line ver code reason) hdrs nm len hdrs2 body" and "length s \<le> IOBUFSZ"
  shows "printer_status jk jid (Piece s # c) = ret (ipp_accepts jid body)"
proof -
  let ?rest = "hdrs @ nm @ '' '' @ dec len @ CRLF @ hdrs2 @ CRLF @ body"
  let ?A = "ver @ '' '' @ dec code @ [nul] @ reason"
  have s: "s = status_line ver code reason @ ?rest" using assms(8) by (simp add: http_response_def)
  have n: "length s = length (?A @ nul # LF # ?rest)"
    using s by (simp add: status_line_def CRLF_eq)
  have "printer_status jk jid (Piece s # c) =
      status_ok jk jid (?A @ nul # LF # ?rest @ drop (length s) (map jk [0..<IOBUFSZ])) (length s) (length ?A) c"
    using status_loop_line [OF assms(1) s assms(9)] by simp
  also have "\<dots> = ret (ipp_accepts jid body)"
    using status_ok_headers [OF assms(2-7) n] by simp
  finally show ?thesis .
qed

end
