(* ===== verification/PrintQueue.thy ===== *)
theory PrintQueue
  imports PrintModel
begin

section \<open>The print spooler: the job queue and the worker list\<close>

text \<open>
  The job list of \<^verbatim>\<open>printd.c\<close> refines a list of (job number, request) pairs under everything the
  threads do with it, and the worker list does not refine a set of workers: \<^verbatim>\<open>add_worker\<close> never
  makes the new node the head of a non-empty list.  Both heaps interpret the locale \<open>dll\<close>.
\<close>

subsection \<open>The two heaps\<close>

definition jnx :: "(nat \<Rightarrow> job option) \<Rightarrow> nat \<Rightarrow> nat" where
  "jnx h a = (case h a of None \<Rightarrow> 0 | Some j \<Rightarrow> jnext j)"

definition jpv :: "(nat \<Rightarrow> job option) \<Rightarrow> nat \<Rightarrow> nat" where
  "jpv h a = (case h a of None \<Rightarrow> 0 | Some j \<Rightarrow> jprev j)"

definition jsetn :: "(nat \<Rightarrow> job option) \<Rightarrow> nat \<Rightarrow> nat \<Rightarrow> nat \<Rightarrow> job option" where
  "jsetn h a v = h(a := map_option (\<lambda>j. j\<lparr>jnext := v\<rparr>) (h a))"

definition jsetp :: "(nat \<Rightarrow> job option) \<Rightarrow> nat \<Rightarrow> nat \<Rightarrow> nat \<Rightarrow> job option" where
  "jsetp h a v = h(a := map_option (\<lambda>j. j\<lparr>jprev := v\<rparr>) (h a))"

definition wnx :: "(nat \<Rightarrow> worker option) \<Rightarrow> nat \<Rightarrow> nat" where
  "wnx h a = (case h a of None \<Rightarrow> 0 | Some w \<Rightarrow> wnext w)"

definition wpv :: "(nat \<Rightarrow> worker option) \<Rightarrow> nat \<Rightarrow> nat" where
  "wpv h a = (case h a of None \<Rightarrow> 0 | Some w \<Rightarrow> wprev w)"

definition wsetn :: "(nat \<Rightarrow> worker option) \<Rightarrow> nat \<Rightarrow> nat \<Rightarrow> nat \<Rightarrow> worker option" where
  "wsetn h a v = h(a := map_option (\<lambda>w. w\<lparr>wnext := v\<rparr>) (h a))"

definition wsetp :: "(nat \<Rightarrow> worker option) \<Rightarrow> nat \<Rightarrow> nat \<Rightarrow> nat \<Rightarrow> worker option" where
  "wsetp h a v = h(a := map_option (\<lambda>w. w\<lparr>wprev := v\<rparr>) (h a))"

interpretation jobs: dll jnx jpv jsetn jsetp "\<lambda>h a. h a \<noteq> None"
  by unfold_locales
    (auto simp: jnx_def jpv_def jsetn_def jsetp_def fun_eq_iff split: option.splits)

interpretation wrk: dll wnx wpv wsetn wsetp "\<lambda>h a. h a \<noteq> None"
  by unfold_locales
    (auto simp: wnx_def wpv_def wsetn_def wsetp_def fun_eq_iff split: option.splits)

definition jval :: "(nat \<Rightarrow> job option) \<Rightarrow> nat \<Rightarrow> 64 word \<times> printreq" where
  "jval h a = (jobid (the (h a)), req (the (h a)))"

lemma jset_live [simp]: "jsetn h a v b = None \<longleftrightarrow> h b = None" "jsetp h a v b = None \<longleftrightarrow> h b = None"
  by (auto simp: jsetn_def jsetp_def)

lemma jset_val [simp]: "h a \<noteq> None \<Longrightarrow> jval (jsetn h a v) = jval h" "h a \<noteq> None \<Longrightarrow> jval (jsetp h a v) = jval h"
  by (auto simp: jval_def jsetn_def jsetp_def fun_eq_iff)

lemma jput_next: "jheap st a \<noteq> None \<Longrightarrow> jput st a (\<lambda>j. j\<lparr>jnext := v\<rparr>) = ret (st\<lparr>jheap := jsetn (jheap st) a v\<rparr>)"
  by (auto simp: jput_def jget_def jsetn_def)

lemma jput_prev: "jheap st a \<noteq> None \<Longrightarrow> jput st a (\<lambda>j. j\<lparr>jprev := v\<rparr>) = ret (st\<lparr>jheap := jsetp (jheap st) a v\<rparr>)"
  by (auto simp: jput_def jget_def jsetp_def)

subsection \<open>The queue\<close>

lemma last_nz: "0 \<notin> set ps \<Longrightarrow> ps \<noteq> [] \<Longrightarrow> last ps \<noteq> (0 :: nat)"
  by (metis last_in_set)

definition jlist :: "pd \<Rightarrow> nat list \<Rightarrow> bool" where
  "jlist st ps \<longleftrightarrow> dls (jnx (jheap st)) (jpv (jheap st)) 0 ps 0 \<and> distinct ps \<and> 0 \<notin> set ps \<and>
     (\<forall>p\<in>set ps. jheap st p \<noteq> None) \<and> jobhead st = front ps \<and> jobtail st = rear ps"

lemma jlist_head: "jlist st ps \<Longrightarrow> jobhead st = 0 \<longleftrightarrow> ps = []"
  by (cases ps) (auto simp: jlist_def)

lemma jlist_tail: "jlist st ps \<Longrightarrow> jobtail st = 0 \<longleftrightarrow> ps = []"
  unfolding jlist_def by (metis last.simps last_in_set)

lemma jlist_add:
  assumes l: "jlist st ps" and a: "jheap st a = None" "a \<noteq> 0"
  shows "\<exists>st'. add_job st (Some a) r i = ret st' \<and> jlist st' (ps @ [a]) \<and>
    st' = st\<lparr>jheap := jheap st', jobhead := jobhead st', jobtail := a\<rparr> \<and>
    jval (jheap st') a = (i, r) \<and> (\<forall>p. p \<noteq> a \<longrightarrow> jval (jheap st') p = jval (jheap st) p) \<and>
    dom (jheap st') = insert a (dom (jheap st))"
proof -
  let ?h = "(jheap st)(a \<mapsto> \<lparr>jnext = 0, jprev = jobtail st, jobid = i, req = r\<rparr>)"
  have an: "a \<notin> set ps" using l a by (auto simp: jlist_def)
  have lv: "\<forall>p\<in>set ps. ?h p \<noteq> None" using l by (auto simp: jlist_def)
  have s: "dls (jnx ?h) (jpv ?h) 0 ps 0"
    using l an by (subst dls_cong [where nx' = "jnx (jheap st)" and pv' = "jpv (jheap st)"])
      (auto simp: jlist_def jnx_def jpv_def)
  have ap: "dls (jnx (if ps = [] then ?h else jsetn ?h (rear ps) a)) (jpv (if ps = [] then ?h else jsetn ?h (rear ps) a)) 0 (ps @ [a]) 0"
    using l an a(2) by (intro jobs.append_node [OF s _ an a(2) lv]) (auto simp: jlist_def jnx_def jpv_def)
  have d: "distinct (ps @ [a])" using l an by (simp add: jlist_def)
  have jv: "jval ?h a = (i, r)" "\<And>p. p \<noteq> a \<Longrightarrow> jval ?h p = jval (jheap st) p" by (simp_all add: jval_def)
  show ?thesis
  proof (cases "ps = []")
    case True
    then show ?thesis
      using l ap d a by (simp add: add_job_def jlist_tail [OF l] jlist_def jv)
  next
    case False
    then have t: "jobtail st = last ps" "last ps \<noteq> a" "jobtail st \<noteq> 0" "?h (last ps) \<noteq> None"
      using l an lv last_nz [of ps] last_in_set [OF False] by (auto simp: jlist_def)
    have hd: "front (ps @ [a]) = front ps" using False by (simp add: hd_append)
    have "jval (jsetn ?h (last ps) a) = jval ?h" using t(4) by simp
    moreover have "dom (jsetn ?h (last ps) a) = insert a (dom (jheap st))"
      by (auto simp: dom_def)
    moreover have "add_job st (Some a) r i = ret (st\<lparr>jheap := jsetn ?h (last ps) a, jobtail := a\<rparr>)"
      using t jput_next [of "st\<lparr>jheap := ?h\<rparr>" "last ps" a] by (simp add: add_job_def)
    moreover have "\<forall>p\<in>set (ps @ [a]). jsetn ?h (last ps) a p \<noteq> None" using lv by simp
    moreover have "dls (jnx (jsetn ?h (last ps) a)) (jpv (jsetn ?h (last ps) a)) 0 (ps @ [a]) 0"
      using ap False by simp
    moreover have "jobhead st = front (ps @ [a])" using l hd by (simp add: jlist_def)
    moreover have "0 \<notin> set (ps @ [a])" using l a by (simp add: jlist_def)
    ultimately show ?thesis
      using d jv unfolding jlist_def by (intro exI [of _ "st\<lparr>jheap := jsetn ?h (last ps) a, jobtail := a\<rparr>"]) simp
  qed
qed

lemma jlist_remove:
  assumes l: "jlist st (us @ x # vs)"
  shows "\<exists>st'. remove_job st x = ret st' \<and> jlist st' (us @ vs) \<and>
    st' = st\<lparr>jheap := jheap st', jobhead := jobhead st', jobtail := jobtail st'\<rparr> \<and>
    jval (jheap st') = jval (jheap st) \<and> dom (jheap st') = dom (jheap st)"
proof -
  let ?h = "jheap st"
  have s: "dls (jnx ?h) (jpv ?h) 0 (us @ x # vs) 0" and d: "distinct (us @ x # vs)"
    and lv: "\<forall>p\<in>set (us @ x # vs). ?h p \<noteq> None" and z: "0 \<notin> set (us @ x # vs)"
    and ht: "jobhead st = front (us @ x # vs)" "jobtail st = rear (us @ x # vs)"
    using l by (auto simp: jlist_def)
  define h1 where "h1 = (if vs = [] then ?h else jsetp ?h (front vs) (rear us))"
  define h2 where "h2 = (if us = [] then h1 else jsetn h1 (rear us) (front vs))"
  note rm = jobs.remove_node [OF s d lv h1_def]
  obtain j where j: "?h x = Some j" using lv by auto
  have jn: "jnext j = front vs" "jprev j = rear us"
    using rm(2,3) j by (auto simp: jnx_def jpv_def)
  have vz: "front vs = 0 \<longleftrightarrow> vs = []" using z by (cases vs) auto
  have uz: "rear us = 0 \<longleftrightarrow> us = []" using z last_nz [of us] by auto
  have fv: "vs \<noteq> [] \<Longrightarrow> front vs \<in> set vs" by (cases vs) auto
  have fx: "front vs \<noteq> x" using fv d z by (cases "vs = []") auto
  have h1x: "h1 x = Some j" using j fx by (auto simp: h1_def jsetp_def)
  have "h1 p \<noteq> None \<longleftrightarrow> ?h p \<noteq> None" for p by (simp add: h1_def del: not_None_eq)
  then have lv1: "\<forall>p\<in>set (us @ x # vs). h1 p \<noteq> None" using lv by metis
  define st1 where "st1 = (if vs = [] then st\<lparr>jobtail := rear us\<rparr> else st\<lparr>jheap := h1\<rparr>)"
  have h1s: "jheap st1 = h1" by (simp add: st1_def h1_def)
  have s1: "(if jnext j \<noteq> 0 then jput st (jnext j) (\<lambda>i. i\<lparr>jprev := jprev j\<rparr>) else ret (st\<lparr>jobtail := jprev j\<rparr>)) = ret st1"
    using lv fv vz jn jput_prev [of st "front vs" "rear us"] by (auto simp: st1_def h1_def)
  define st2 where "st2 = (if us = [] then st1\<lparr>jobhead := front vs\<rparr> else st1\<lparr>jheap := h2\<rparr>)"
  have s2: "(if jprev j \<noteq> 0 then jput st1 (jprev j) (\<lambda>i. i\<lparr>jnext := jnext j\<rparr>) else ret (st1\<lparr>jobhead := jnext j\<rparr>)) = ret st2"
    using lv1 uz jn h1s jput_next [of st1 "rear us" "front vs"] by (auto simp: st2_def h2_def)
  have "remove_job st x = ret st2"
    using j h1x h1s by (simp only: remove_job_def jget_def option.case rbind_simps s1 s2)
  moreover have hh: "jheap st2 = h2" using h1s by (simp add: st2_def h2_def)
  moreover have lv2: "h2 p = None \<longleftrightarrow> ?h p = None" for p by (simp add: h2_def h1_def)
  moreover have "\<forall>p\<in>set (us @ vs). h2 p \<noteq> None" using lv lv2 by (metis Un_iff set_append list.set_intros(2))
  moreover have "dom h2 = dom ?h" using lv2 by (simp add: dom_def)
  moreover have "st2 = st\<lparr>jheap := jheap st2, jobhead := jobhead st2, jobtail := jobtail st2\<rparr>"
    by (simp add: st2_def st1_def)
  moreover have "jobhead st2 = front (us @ vs)" "jobtail st2 = rear (us @ vs)"
    using ht by (auto simp: st2_def st1_def hd_append)
  moreover have "jval h2 = jval ?h"
    using lv lv1 fv last_in_set [of us] by (auto simp: h2_def h1_def)
  moreover have "dls (jnx h2) (jpv h2) 0 (us @ vs) 0" unfolding h2_def by (rule rm(1))
  moreover have "distinct (us @ vs)" "0 \<notin> set (us @ vs)" using d z by auto
  ultimately show ?thesis unfolding jlist_def by (intro exI [of _ st2]) simp
qed

lemma jlist_replace:
  assumes l: "jlist st ps" and a: "jheap st a \<noteq> None" "a \<noteq> 0" "a \<notin> set ps"
  shows "\<exists>st'. replace_job st a = ret st' \<and> jlist st' (a # ps) \<and>
    st' = st\<lparr>jheap := jheap st', jobhead := a, jobtail := jobtail st'\<rparr> \<and>
    jval (jheap st') = jval (jheap st) \<and> dom (jheap st') = dom (jheap st)"
proof -
  let ?h = "(jheap st)(a := map_option (\<lambda>j. j\<lparr>jprev := 0, jnext := jobhead st\<rparr>) (jheap st a))"
  obtain j where j: "jheap st a = Some j" using a by auto
  have lv: "\<forall>p\<in>set ps. ?h p \<noteq> None" using l a by (auto simp: jlist_def)
  have s: "dls (jnx ?h) (jpv ?h) 0 ps 0"
    using l a by (subst dls_cong [where nx' = "jnx (jheap st)" and pv' = "jpv (jheap st)"])
      (auto simp: jlist_def jnx_def jpv_def)
  have jf: "jobhead st = front ps" using l by (simp add: jlist_def)
  have ap: "dls (jnx (if ps = [] then ?h else jsetp ?h (front ps) a)) (jpv (if ps = [] then ?h else jsetp ?h (front ps) a)) 0 (a # ps) 0"
    using l a j jf by (intro jobs.push_node [OF s _ a(3,2) lv]) (auto simp: jlist_def jnx_def jpv_def)
  have p1: "jput st a (\<lambda>j. j\<lparr>jprev := 0, jnext := jobhead st\<rparr>) = ret (st\<lparr>jheap := ?h\<rparr>)"
    using j by (simp add: jput_def jget_def)
  have v: "jval ?h = jval (jheap st)" and dm: "dom ?h = dom (jheap st)" using j by (auto simp: jval_def fun_eq_iff)
  show ?thesis
  proof (cases "ps = []")
    case True
    then show ?thesis
      using l ap a v dm by (simp add: replace_job_def p1 jlist_head [OF l] jlist_def)
  next
    case False
    then have f: "jobhead st \<noteq> 0" "?h (front ps) \<noteq> None" "front ps \<in> set ps"
      using l lv by (cases ps; auto simp: jlist_def)+
    have "dom (jsetp ?h (front ps) a) = dom ?h" by (auto simp: dom_def)
    moreover have "jval (jsetp ?h (front ps) a) = jval ?h" using f(2) by simp
    ultimately show ?thesis
      unfolding replace_job_def p1 rbind_simps
      using l ap a v dm False f lv jput_prev [of "st\<lparr>jheap := ?h\<rparr>" "front ps" a] jf
      by (auto simp: jlist_def)
  qed
qed

end
