(* ===== verification/PrintClient.thy ===== *)
theory PrintClient
  imports PrintQueue
begin

section \<open>The print spooler: a client thread and the print command\<close>

text \<open>
  What \<^verbatim>\<open>client_thread\<close> does with the bytes that arrive, the byte layout of a request, and the
  print command's \<^verbatim>\<open>submit_file\<close> (\<^verbatim>\<open>ipp/print.c\<close>).
\<close>

subsection \<open>Little-endian numbers and byte order\<close>

lemma length_le [simp]: "length (le k x) = k"
  by (induction k arbitrary: x) auto

lemma unle_le: "unle (le k x) = x mod 256 ^ k"
proof (induction k arbitrary: x)
  case (Suc k)
  have "x mod (256 * 256 ^ k) = 256 * (x div 256 mod 256 ^ k) + x mod 256" by (rule mod_mult2_eq)
  then show ?case using Suc by simp
qed simp

lemma le_unle: "length s = k \<Longrightarrow> le k (unle s) = s"
proof (induction k arbitrary: s)
  case (Suc k)
  then obtain c t where s: "s = c # t" "length t = k" by (cases s) auto
  have "of_char c < (256 :: nat)" by simp
  then have "unle s mod 256 = of_char c" "unle s div 256 = unle t" using s by auto
  then show ?case using s Suc.IH by simp
qed simp

lemma unle_lt: "unle s < 256 ^ length s"
proof (induction s)
  case (Cons c s)
  have b: "of_char c < (256 :: nat)" by simp
  have "m + 256 * u < 256 * p" if "u < p" "m < 256" for m u p :: nat using that by linarith
  from this [OF Cons b] show ?case by simp
qed simp

lemma htonl_htonl [simp]: "htonl (htonl w) = w"
proof -
  have "unle (rev (le 4 (unat w))) < 2 ^ 32" using unle_lt [of "rev (le 4 (unat w))"] by simp
  then have "unat (htonl w) = unle (rev (le 4 (unat w)))" by (simp add: htonl_def unat_of_nat)
  then have "unle (rev (le 4 (unat (htonl w)))) = unle (le 4 (unat w))" by (simp add: le_unle)
  moreover have "unat w < 2 ^ 32" using unsigned_less [of w] by simp
  ultimately show ?thesis by (simp add: htonl_def unle_le)
qed

lemma le_0: "le k 0 = replicate k (char_of (0 :: nat))"
  by (induction k) auto

lemma unle_0: "unle (replicate k (char_of (0 :: nat))) = 0"
  by (induction k) auto

lemma htonl_0: "htonl 0 = 0"
  by (simp add: htonl_def le_0 unle_0)

definition wf_req :: "printreq \<Rightarrow> bool" where
  "wf_req r \<longleftrightarrow> length (usernm r) = USERNM_MAX \<and> length (jobnm r) = JOBNM_MAX"

lemma word64_le [simp]: "of_nat (unle (le 8 (unat w))) = (w :: 64 word)"
proof -
  have "unat w < 2 ^ 64" using unsigned_less [of w] by simp
  then show ?thesis by (simp add: unle_le)
qed

lemma length_enc_req: "wf_req r \<Longrightarrow> length (enc_req r) = sizeof_printreq"
  by (simp add: enc_req_def wf_req_def sizeof_printreq_def)

lemma dec_enc_req: "wf_req r \<Longrightarrow> dec_req (enc_req r) = r"
  by (simp add: enc_req_def dec_req_def wf_req_def)

lemma dec_enc_req_append: "wf_req r \<Longrightarrow> dec_req (enc_req r @ t) = r"
  by (simp add: enc_req_def dec_req_def wf_req_def)

lemma wf_dec_req: "length s = sizeof_printreq \<Longrightarrow> wf_req (dec_req s)"
  by (simp add: dec_req_def wf_req_def sizeof_printreq_def USERNM_MAX_def JOBNM_MAX_def)

lemma wf_host_req: "length s = sizeof_printreq \<Longrightarrow> wf_req (host_req s)"
  using wf_dec_req [of s] by (simp add: host_req_def wf_req_def Let_def)

lemma wf_req_upd [simp]: "wf_req (r\<lparr>rflags := f\<rparr>) = wf_req r" "wf_req (r\<lparr>rsize := z\<rparr>) = wf_req r"
  by (simp_all add: wf_req_def)

subsection \<open>The data loop\<close>

definition first_read :: "chan \<Rightarrow> string" where
  "first_read c = (case fst (tread IOBUFSZ c) of Got s \<Rightarrow> s | RErr e \<Rightarrow> [])"

definition data_flags :: "string \<Rightarrow> chan \<Rightarrow> 64 word \<Rightarrow> 64 word" where
  "data_flags jk c f = (if first_read c \<noteq> [] \<and> take 4 (first_read c @ jk) \<noteq> ''%!PS'' then or f PR_TEXT else f)"

lemma IOBUFSZ_pos [simp]: "0 < IOBUFSZ"
  by (simp add: IOBUFSZ_def)

lemma client_data_rest:
  "script w = [] \<Longrightarrow> client_data jk c False f w = (Inr f, w\<lparr>sent := sent w @ tbytes c\<rparr>)"
proof (induction c arbitrary: w rule: measure_induct_rule [of chan_size])
  case (less c)
  obtain r c1 where r: "tread IOBUFSZ c = (r, c1)" by force
  show ?case
  proof (cases r)
    case (RErr e)
    then show ?thesis using r tread_err [of IOBUFSZ c e c1] by (subst client_data.simps) simp
  next
    case (Got s)
    show ?thesis
    proof (cases "s = []")
      case True
      then show ?thesis using r Got tread_eof [of IOBUFSZ c c1] by (subst client_data.simps) simp
    next
      case False
      have "sys_write s w = (Wrote (length s), w\<lparr>sent := sent w @ s\<rparr>)" using less.prems by (simp add: sys_write_def)
      moreover have "tbytes c = s @ tbytes c1" using tread_got [of IOBUFSZ c s c1] r Got False by simp
      moreover have "chan_size c1 < chan_size c" using tread_size [of IOBUFSZ c s c1] r Got False by simp
      ultimately show ?thesis
        using less r Got False by (subst client_data.simps) simp
    qed
  qed
qed

lemma client_data_all:
  assumes "script w = []"
  shows "client_data jk c True f w = (Inr (data_flags jk c f), w\<lparr>sent := sent w @ tbytes c\<rparr>)"
proof -
  obtain r c1 where r: "tread IOBUFSZ c = (r, c1)" by force
  show ?thesis
  proof (cases r)
    case (RErr e)
    then show ?thesis
      using r tread_err [of IOBUFSZ c e c1] by (subst client_data.simps) (simp add: data_flags_def first_read_def)
  next
    case (Got s)
    show ?thesis
    proof (cases "s = []")
      case True
      then show ?thesis
        using r Got tread_eof [of IOBUFSZ c c1] by (subst client_data.simps) (simp add: data_flags_def first_read_def)
    next
      case False
      have "sys_write s w = (Wrote (length s), w\<lparr>sent := sent w @ s\<rparr>)" using assms by (simp add: sys_write_def)
      moreover have "tbytes c = s @ tbytes c1" using tread_got [of IOBUFSZ c s c1] r Got False by simp
      ultimately show ?thesis
        using r Got False client_data_rest [of "w\<lparr>sent := sent w @ s\<rparr>"] assms
        by (subst client_data.simps) (simp add: data_flags_def first_read_def Let_def)
    qed
  qed
qed

lemma treadn_full:
  assumes "tbytes c = hdr @ t" and "length hdr = n"
  shows "\<exists>c'. treadn n c = (int n, hdr, c') \<and> tbytes c' = t"
proof -
  obtain r s c' where e: "treadn n c = (r, s, c')" by (metis prod_cases3)
  then have l: "readn_loop tread n n [] c = (r, s, c')" by (simp add: treadn_def)
  from rtread.loop_prefix [OF this]
  have p: "s = take n (tbytes c)" "r = int (length s) \<or> r = - 1 \<and> s = []" "length s = n \<longrightarrow> tbytes c = s @ tbytes c'"
    by blast+
  have s: "s = hdr" using p(1) assms by simp
  then have "tbytes c' = t" "r = int n \<or> r = - 1 \<and> s = []" using p(2,3) assms by auto
  moreover have "r \<noteq> - 1" if "n = 0" using l that by (subst (asm) readn_loop.simps) simp
  moreover have "s = [] \<Longrightarrow> n = 0" using s assms(2) by simp
  ultimately show ?thesis using e s by auto
qed

lemma treadn_short:
  assumes "length (tbytes c) < n" and "treadn n c = (r, s, c')"
  shows "r \<noteq> int n"
proof -
  have "readn_loop tread n n [] c = (r, s, c')" using assms(2) by (simp add: treadn_def)
  from rtread.loop_prefix [OF this] have "s = take n (tbytes c)" "r = int (length s) \<or> r = - 1" by blast+
  then have "length s < n" using assms(1) by simp
  with \<open>r = int (length s) \<or> r = - 1\<close> show ?thesis by linarith
qed

subsection \<open>A client that is accepted\<close>

definition cenv_good :: "pd \<Rightarrow> cenv \<Rightarrow> bool" where
  "cenv_good st ev \<longleftrightarrow> (\<exists>w. cwalloc ev = Some w \<and> w \<noteq> 0) \<and>
     (\<exists>a. cjalloc ev = Some a \<and> a \<noteq> 0 \<and> jheap st a = None) \<and>
     creat_data ev = None \<and> creat_ctl ev = None \<and> data_script ev = [] \<and> ctl_script ev = []"

text \<open>What the thread leaves behind the header, i.e. the data part of the channel.\<close>

definition data_chan :: "cenv \<Rightarrow> chan" where
  "data_chan ev = snd (snd (treadn sizeof_printreq (cin ev)))"

definition job_of :: "string \<Rightarrow> cenv \<Rightarrow> printreq" where
  "job_of hdr ev = (host_req hdr)\<lparr>rflags := data_flags (junk ev) (data_chan ev) (rflags (host_req hdr))\<rparr>"

lemma wf_job_of: "length hdr = sizeof_printreq \<Longrightarrow> wf_req (job_of hdr ev)"
  by (simp add: job_of_def wf_host_req)

lemma worker_alone:
  assumes "workers st1 = w" and "w \<noteq> 0" and "wheap st1 = (wheap st)(w \<mapsto> \<lparr>wnext = 0, wprev = 0, tid = t, sockfd = s\<rparr>)"
  shows "client_cleanup st1 t = ret (st1\<lparr>workers := 0, closed := closed st1 @ [s], wheap := (wheap st)(w := None)\<rparr>)"
proof -
  have "worker_find st1 t w = ret w" using assms by (subst worker_find.simps) (simp add: wget_def)
  then show ?thesis using assms by (simp add: client_cleanup_def wget_def)
qed

lemma client_thread_accepts:
  assumes g: "cenv_good st ev" and l: "jlist st ps" and w: "workers st = 0"
    and b: "tbytes (cin ev) = hdr @ file" "length hdr = sizeof_printreq"
    and i: "get_newjobno st = (i, st0)"
  shows "\<exists>a st'. cjalloc ev = Some a \<and>
    client_thread st ev = ret (0, Some \<lparr>retcode = 0, pjobid = Some (htonl (ucast i)), pmsg = ''request ID '' @ sdec i\<rparr>, st') \<and>
    datadir st' = (datadir st)(sdec i \<mapsto> file) \<and> reqdir st' = (reqdir st)(sdec i \<mapsto> enc_req (job_of hdr ev)) \<and>
    jlist st' (ps @ [a]) \<and> jval (jheap st') a = (i, job_of hdr ev) \<and>
    (\<forall>p. p \<noteq> a \<longrightarrow> jval (jheap st') p = jval (jheap st) p) \<and>
    dom (jheap st') = insert a (dom (jheap st)) \<and>
    workers st' = 0 \<and> closed st' = closed st @ [csock ev] \<and> nextjob st' = nextjob st0 \<and> jobfile st' = jobfile st"
proof -
  from g obtain wp a where wp: "cwalloc ev = Some wp" "wp \<noteq> 0" and a: "cjalloc ev = Some a" "a \<noteq> 0" "jheap st a = None"
    and e: "creat_data ev = None" "creat_ctl ev = None" "data_script ev = []" "ctl_script ev = []"
    by (auto simp: cenv_good_def)
  let ?wh = "(wheap st)(wp \<mapsto> \<lparr>wnext = 0, wprev = 0, tid = ctid ev, sockfd = csock ev\<rparr>)"
  define st1 where "st1 = st\<lparr>wheap := ?wh, workers := wp\<rparr>"
  have aw: "add_worker st wp (ctid ev) (csock ev) = ret st1" using w by (simp add: add_worker_def st1_def)
  obtain c' where tr: "treadn sizeof_printreq (cin ev) = (int sizeof_printreq, hdr, c')" and tb: "tbytes c' = file"
    using treadn_full [OF b] by blast
  have dc: "data_chan ev = c'" by (simp add: data_chan_def tr)
  define st2 where "st2 = st1\<lparr>nextjob := nextjob st0\<rparr>"
  have gn: "get_newjobno st1 = (i, st2)"
    using i by (auto simp: get_newjobno_def st1_def st2_def Let_def)
  have cd: "client_data (junk ev) c' True (rflags (host_req hdr)) \<lparr>sent = [], script = data_script ev\<rparr> =
      (Inr (data_flags (junk ev) c' (rflags (host_req hdr))), \<lparr>sent = file, script = []\<rparr>)"
    using client_data_all [of "\<lparr>sent = [], script = []\<rparr>"] tb e by simp
  define st3 where "st3 = st2\<lparr>datadir := (datadir st)(sdec i \<mapsto> file), reqdir := (reqdir st)(sdec i \<mapsto> enc_req (job_of hdr ev))\<rparr>"
  have sw: "sys_write (enc_req (job_of hdr ev)) \<lparr>sent = [], script = ctl_script ev\<rparr> =
      (Wrote sizeof_printreq, \<lparr>sent = enc_req (job_of hdr ev), script = []\<rparr>)"
    using e wf_job_of [OF b(2)] by (simp add: sys_write_def length_enc_req)
  have l3: "jlist st3 ps" using l by (simp add: jlist_def st3_def st2_def st1_def)
  have a3: "jheap st3 a = None" using a by (simp add: st3_def st2_def st1_def)
  obtain st4 where st4: "add_job st3 (Some a) (job_of hdr ev) i = ret st4" "jlist st4 (ps @ [a])"
      "st4 = st3\<lparr>jheap := jheap st4, jobhead := jobhead st4, jobtail := a\<rparr>" "jval (jheap st4) a = (i, job_of hdr ev)"
      "\<forall>p. p \<noteq> a \<longrightarrow> jval (jheap st4) p = jval (jheap st3) p" "dom (jheap st4) = insert a (dom (jheap st3))"
    using jlist_add [OF l3 a3 a(2)] by blast
  have w4: "workers st4 = wp" "wheap st4 = ?wh" "closed st4 = closed st" "datadir st4 = datadir st3"
      "reqdir st4 = reqdir st3" "nextjob st4 = nextjob st0" "jobfile st4 = jobfile st"
    by (subst st4(3); simp add: st3_def st2_def st1_def)+
  define st5 where "st5 = st4\<lparr>workers := 0, closed := closed st4 @ [csock ev], wheap := (wheap st)(wp := None)\<rparr>"
  have cl: "client_cleanup st4 (ctid ev) = ret st5"
    unfolding st5_def by (rule worker_alone [OF w4(1) wp(2) w4(2)])
  have h3: "jheap st3 = jheap st" by (simp add: st3_def st2_def st1_def)
  have "st2\<lparr>datadir := (datadir st2)(sdec i \<mapsto> file), reqdir := (reqdir st2)(sdec i \<mapsto> enc_req (job_of hdr ev))\<rparr> = st3"
    by (simp add: st3_def st2_def st1_def)
  then have "client_thread st ev = ret (0, Some \<lparr>retcode = 0, pjobid = Some (htonl (ucast i)), pmsg = ''request ID '' @ sdec i\<rparr>, st5)"
    using wp(1) aw tr gn e cd sw a(1) st4(1) cl
    by (simp add: client_thread_def client_control_def client_exit_def Let_def job_of_def [symmetric] dc [symmetric])
  moreover have "jlist st5 (ps @ [a])" using st4(2) by (simp add: jlist_def st5_def)
  ultimately show ?thesis
    using a(1) st4(4-6) w4 h3 by (intro exI [of _ a] exI [of _ st5]) (simp add: st5_def st3_def)
qed

subsection \<open>The print command\<close>

text \<open>A character array of \<open>n\<close> bytes after \<^verbatim>\<open>strcpy\<close>: the string, NUL, and what was there before.\<close>

definition field :: "nat \<Rightarrow> string \<Rightarrow> string \<Rightarrow> string" where
  "field n jk s = take n (s @ nul # jk)"

definition job_name :: "string \<Rightarrow> string" where
  "job_name fname =
     (let len = length fname in
      if JOBNM_MAX \<le> len then ''... '' @ take (JOBNM_MAX - 5) (drop (len - JOBNM_MAX + 5) fname) else fname)"

definition build_req :: "string option \<Rightarrow> string \<Rightarrow> nat \<Rightarrow> bool \<Rightarrow> string \<Rightarrow> printreq run" where
  "build_req pwd fname nbytes txt jk =
     (let user = (case pwd of None \<Rightarrow> ''unknown'' | Some u \<Rightarrow> u) in
      rbind (guard (length user < USERNM_MAX) (Undef ''req.usernm overflows'')) (\<lambda>_.
      ret \<lparr>rsize = ucast (htonl (of_nat nbytes)), rflags = (if txt then ucast (htonl (ucast PR_TEXT)) else 0),
        usernm = field USERNM_MAX jk user, jobnm = field JOBNM_MAX jk (job_name fname)\<rparr>))"

text \<open>A failed \<^verbatim>\<open>read\<close> of the file gives -1, which \<^verbatim>\<open>writen\<close> takes as the largest \<^verbatim>\<open>size_t\<close>.\<close>

function send_file :: "chan \<Rightarrow> wchan \<Rightarrow> wchan run" where
  "send_file fc out =
     (case sys_read IOBUFSZ fc of
        (RErr e, fc') \<Rightarrow> die (Undef ''writen of (size_t) -1 bytes'')
      | (Got s, fc') \<Rightarrow>
        if s = [] then ret out
        else (case writen s out of (nw, out') \<Rightarrow>
          if nw \<noteq> int (length s) then
            die (if nw < 0 then ErrSys ''can't write to print server'' else ErrQuit ''short write (%d/%d) to print server'')
          else send_file fc' out'))"
  by pat_completeness auto
termination
  by (relation "measure (\<lambda>(fc, out). chan_size fc)") (auto dest!: sym [of "(_, _)"] sys_read_size)

declare send_file.simps [simp del]

definition submit_send ::
    "string option \<Rightarrow> string \<Rightarrow> nat \<Rightarrow> bool \<Rightarrow> string \<Rightarrow> chan \<Rightarrow> wchan \<Rightarrow> wchan run" where
  "submit_send pwd fname nbytes txt jk fc out =
     rbind (build_req pwd fname nbytes txt jk) (\<lambda>r.
     case writen (enc_req r) out of (nw, out) \<Rightarrow>
       if nw \<noteq> int sizeof_printreq then
         die (if nw < 0 then ErrSys ''can't write to print server'' else ErrQuit ''short write (%d/%d) to print server'')
       else send_file fc out)"

definition sizeof_printresp :: nat where
  "sizeof_printresp = 8 + 8 + MSGLEN_MAX"

text \<open>The exit status and what is printed.\<close>

definition submit_file ::
    "string option \<Rightarrow> string \<Rightarrow> nat \<Rightarrow> bool \<Rightarrow> string \<Rightarrow> chan \<Rightarrow> wchan \<Rightarrow> chan \<Rightarrow> (nat \<times> string) run" where
  "submit_file pwd fname nbytes txt jk fc out rc =
     rbind (submit_send pwd fname nbytes txt jk fc out) (\<lambda>_.
     case readn sizeof_printresp rc of (nr, bs, _) \<Rightarrow>
       if nr \<noteq> int sizeof_printresp then die (ErrSys ''can't read response from server'')
       else if unle (take 8 bs) \<noteq> 0 then ret (1, ''rejected: '' @ cstr (drop 16 bs) @ [newline])
       else ret (0, ''job ID '' @ dec (unat (htonl (of_nat (unle (take 8 (drop 8 bs)))))) @ [newline]))"

lemma writen_all:
  assumes "writen s w = (int (length s), w')"
  shows "sent w' = sent w @ s"
proof -
  from writen_loop_sent [of "length s" s w] assms obtain k where
    "k \<le> length s" "sent w' = sent w @ take k s" "int (length s) = int k \<or> int (length s) = (- 1 :: int)"
    by (auto simp: writen_def)
  then show ?thesis by auto
qed

lemma send_file_sent: "send_file fc out = ret out' \<Longrightarrow> sent out' = sent out @ bytes fc"
proof (induction fc arbitrary: out rule: measure_induct_rule [of chan_size])
  case (less fc)
  obtain r fc1 where r: "sys_read IOBUFSZ fc = (r, fc1)" by force
  show ?case
  proof (cases r)
    case (RErr e)
    then show ?thesis using less.prems r by (subst (asm) send_file.simps) simp
  next
    case (Got s)
    show ?thesis
    proof (cases "s = []")
      case True
      then show ?thesis
        using less.prems r Got sys_read_eof [of IOBUFSZ fc fc1] by (subst (asm) send_file.simps) simp
    next
      case False
      obtain nw out1 where w: "writen s out = (nw, out1)" by force
      have e: "nw = int (length s)" "send_file fc1 out1 = ret out'"
        using less.prems r Got False w by (subst (asm) send_file.simps, simp split: if_splits)+
      have "chan_size fc1 < chan_size fc" using sys_read_size [of IOBUFSZ fc s fc1] r Got False by simp
      from less.IH [OF this e(2)] have "sent out' = sent out1 @ bytes fc1" .
      moreover have "sent out1 = sent out @ s" using writen_all w e(1) by simp
      moreover have "bytes fc = s @ bytes fc1" using sys_read_got [of IOBUFSZ fc s fc1] r Got False by simp
      ultimately show ?thesis by simp
    qed
  qed
qed

lemma length_job_name: "length (job_name fname) < JOBNM_MAX"
  by (simp add: job_name_def JOBNM_MAX_def Let_def)

lemma length_field [simp]: "n \<le> length jk \<Longrightarrow> length (field n jk s) = n"
  by (simp add: field_def)

lemma cstr_field [simp]: "length s < n \<Longrightarrow> nul \<notin> set s \<Longrightarrow> cstr (field n jk s) = s"
  by (simp add: field_def take_Cons' )

lemma nul_job_name: "nul \<notin> set fname \<Longrightarrow> nul \<notin> set (job_name fname)"
  by (auto simp: job_name_def nul_def Let_def dest: in_set_takeD in_set_dropD)

lemma ucast_ucast_32 [simp]: "(ucast (ucast (x :: 32 word) :: 64 word) :: 32 word) = x"
  by (rule bit_word_eqI) (simp add: bit_simps)

text \<open>What the print command sends, split into the header and the file.\<close>

lemma submit_send_sent:
  assumes s: "submit_send (Some user) fname nbytes txt jk fc \<lparr>sent = [], script = scr\<rparr> = ret w"
    and n: "nul \<notin> set user" "nul \<notin> set fname" and jk: "JOBNM_MAX \<le> length jk"
  shows "\<exists>hdr. sent w = hdr @ bytes fc \<and> length hdr = sizeof_printreq \<and>
    cstr (usernm (host_req hdr)) = user \<and> cstr (jobnm (host_req hdr)) = job_name fname \<and>
    rsize (host_req hdr) = ucast (of_nat nbytes :: 32 word) \<and> rflags (host_req hdr) = (if txt then PR_TEXT else 0)"
proof -
  obtain r where r: "build_req (Some user) fname nbytes txt jk = ret r"
    using s by (auto simp: submit_send_def rbind_eq_ret)
  have lu: "length user < USERNM_MAX" using r by (auto simp: build_req_def rbind_eq_ret guard_eq_ret)
  have rq: "r = \<lparr>rsize = ucast (htonl (of_nat nbytes)), rflags = (if txt then ucast (htonl (ucast PR_TEXT)) else 0),
        usernm = field USERNM_MAX jk user, jobnm = field JOBNM_MAX jk (job_name fname)\<rparr>"
    using r by (simp add: build_req_def rbind_eq_ret guard_eq_ret)
  have wf: "wf_req r" using jk by (simp add: wf_req_def rq JOBNM_MAX_def USERNM_MAX_def)
  obtain nw w1 where w1: "writen (enc_req r) \<lparr>sent = [], script = scr\<rparr> = (nw, w1)" by force
  note s' = s [unfolded submit_send_def r rbind_simps w1 prod.case]
  have e1: "nw = int sizeof_printreq"
  proof (rule ccontr)
    assume "nw \<noteq> int sizeof_printreq"
    with s' show False by simp
  qed
  have e: "nw = int sizeof_printreq" "send_file fc w1 = ret w"
    using e1 s' by (simp_all only: simp_thms if_False)
  have "sent w1 = enc_req r" using writen_all [of "enc_req r"] w1 e(1) length_enc_req [OF wf] by simp
  then have "sent w = enc_req r @ bytes fc" using send_file_sent [OF e(2)] by simp
  moreover have "(ucast (ucast PR_TEXT :: 32 word) :: 64 word) = PR_TEXT" by (simp add: PR_TEXT_def)
  moreover have "htonl 0 = 0" by (rule htonl_0)
  ultimately show ?thesis
    using length_enc_req [OF wf] dec_enc_req [OF wf] lu length_job_name n nul_job_name
    by (intro exI [of _ "enc_req r"]) (simp add: host_req_def rq Let_def)
qed

end
