(* ===== verification/PrintProps.thy ===== *)
theory PrintProps
  imports PrintClient
begin

section \<open>The print spooler: properties of the daemon\<close>

text \<open>
  The job queue under any interleaving of adding, picking, putting back and freeing jobs; job
  numbers and the job file across restarts; the worker list; a whole client thread.
\<close>

subsection \<open>The queue as the threads use it\<close>

text \<open>
  Client threads add jobs (with the node address \<^verbatim>\<open>malloc\<close> returns); the printer thread picks the
  head, and frees it or puts it back.  \<open>jq_step\<close> runs one such operation; the second component is
  the picked job.
\<close>

datatype qop = QAdd nat "64 word" printreq | QPick | QBack | QFree

definition jq_step :: "pd \<times> nat \<Rightarrow> qop \<Rightarrow> (pd \<times> nat) run" where
  "jq_step = (\<lambda>(st, cur) op. case op of
     QAdd a i r \<Rightarrow> rbind (add_job st (Some a) r i) (\<lambda>st. ret (st, cur))
   | QPick \<Rightarrow> if jobhead st = 0 \<or> cur \<noteq> 0 then ret (st, cur)
              else rbind (remove_job st (jobhead st)) (\<lambda>st'. ret (st', jobhead st))
   | QBack \<Rightarrow> if cur = 0 then ret (st, cur) else rbind (replace_job st cur) (\<lambda>st. ret (st, 0))
   | QFree \<Rightarrow> ret (if cur = 0 then st else st\<lparr>jheap := (jheap st)(cur := None)\<rparr>, 0))"

fun jq_run :: "pd \<times> nat \<Rightarrow> qop list \<Rightarrow> (pd \<times> nat) run" where
  "jq_run s [] = ret s"
| "jq_run s (op # ops) = rbind (jq_step s op) (\<lambda>s. jq_run s ops)"

type_synonym aqueue = "(64 word \<times> printreq) list \<times> (64 word \<times> printreq) option"

definition aq_step :: "aqueue \<Rightarrow> qop \<Rightarrow> aqueue" where
  "aq_step = (\<lambda>(q, held) op. case op of
     QAdd a i r \<Rightarrow> (q @ [(i, r)], held)
   | QPick \<Rightarrow> (case (q, held) of (x # xs, None) \<Rightarrow> (xs, Some x) | _ \<Rightarrow> (q, held))
   | QBack \<Rightarrow> (case held of None \<Rightarrow> (q, held) | Some x \<Rightarrow> (x # q, None))
   | QFree \<Rightarrow> (q, None))"

definition jq_rep :: "pd \<times> nat \<Rightarrow> aqueue \<Rightarrow> bool" where
  "jq_rep s a \<longleftrightarrow> (\<exists>ps. jlist (fst s) ps \<and> fst a = map (jval (jheap (fst s))) ps \<and>
     (if snd s = 0 then snd a = None
      else snd s \<notin> set ps \<and> jheap (fst s) (snd s) \<noteq> None \<and> snd a = Some (jval (jheap (fst s)) (snd s))) \<and>
     dom (jheap (fst s)) = set ps \<union> (if snd s = 0 then {} else {snd s}))"

text \<open>The allocator hands out addresses that are not in use.\<close>

fun fresh_ops :: "nat set \<Rightarrow> qop list \<Rightarrow> bool" where
  "fresh_ops U [] = True"
| "fresh_ops U (QAdd a i r # ops) = (a \<noteq> 0 \<and> a \<notin> U \<and> fresh_ops (insert a U) ops)"
| "fresh_ops U (_ # ops) = fresh_ops U ops"

lemma jq_step_rep:
  assumes r: "jq_rep s a" and f: "fresh_ops U (op # ops)" and U: "dom (jheap (fst s)) \<subseteq> U"
  shows "\<exists>s'. jq_step s op = ret s' \<and> jq_rep s' (aq_step a op) \<and>
    (\<exists>U'. fresh_ops U' ops \<and> dom (jheap (fst s')) \<subseteq> U')"
proof -
  obtain st cur where s: "s = (st, cur)" by force
  obtain q held where a: "a = (q, held)" by force
  obtain ps where l: "jlist st ps" and q: "q = map (jval (jheap st)) ps"
    and c: "cur = 0 \<Longrightarrow> held = None" "cur \<noteq> 0 \<Longrightarrow> cur \<notin> set ps \<and> jheap st cur \<noteq> None \<and> held = Some (jval (jheap st) cur)"
    and d: "dom (jheap st) = set ps \<union> (if cur = 0 then {} else {cur})"
    using r unfolding jq_rep_def s a by (auto split: if_splits)
  show ?thesis
  proof (cases op)
    case (QAdd n i rq)
    then have n: "n \<noteq> 0" "n \<notin> U" "fresh_ops (insert n U) ops" using f by auto
    then have nn: "jheap st n = None" using U s by auto
    obtain st' where st': "add_job st (Some n) rq i = ret st'" "jlist st' (ps @ [n])"
        "jval (jheap st') n = (i, rq)" "\<forall>p. p \<noteq> n \<longrightarrow> jval (jheap st') p = jval (jheap st) p"
        "dom (jheap st') = insert n (dom (jheap st))"
      using jlist_add [OF l nn n(1)] by blast
    have "n \<notin> set ps" "cur \<noteq> n" using d nn n(1) by (auto split: if_splits)
    then have "jq_rep (st', cur) (q @ [(i, rq)], held)"
      using st' q c d unfolding jq_rep_def by (intro exI [of _ "ps @ [n]"]) auto
    then show ?thesis using st' n(3) U s by (auto simp: QAdd jq_step_def aq_step_def a intro!: exI [of _ "insert n U"])
  next
    case QPick
    show ?thesis
    proof (cases "jobhead st = 0 \<or> cur \<noteq> 0")
      case True
      then have "aq_step a op = a" using q c jlist_head [OF l] by (auto simp: QPick aq_step_def a split: list.splits)
      then show ?thesis using True r f U by (auto simp: QPick jq_step_def s)
    next
      case False
      then obtain x vs where ps: "ps = x # vs" "jobhead st = x"
        using l jlist_head [OF l] by (cases ps) (auto simp: jlist_def)
      then obtain st' where st': "remove_job st x = ret st'" "jlist st' vs" "jval (jheap st') = jval (jheap st)"
          "dom (jheap st') = dom (jheap st)"
        using jlist_remove [of st "[]" x vs] l by auto
      have x: "x \<noteq> 0" "x \<notin> set vs" "jheap st x \<noteq> None" using l ps by (auto simp: jlist_def)
      have "x \<in> dom (jheap st')" using st' x by auto
      then have "jq_rep (st', x) (map (jval (jheap st)) vs, Some (jval (jheap st) x))"
        using st' x d ps False unfolding jq_rep_def by (intro exI [of _ vs]) auto
      then show ?thesis using False ps q c st' f U s by (auto simp: QPick jq_step_def aq_step_def a)
    qed
  next
    case QBack
    show ?thesis
    proof (cases "cur = 0")
      case True
      then show ?thesis using c r f U by (auto simp: QBack jq_step_def aq_step_def s a)
    next
      case False
      with c have cc: "cur \<notin> set ps" "jheap st cur \<noteq> None" "held = Some (jval (jheap st) cur)" by auto
      obtain st' where st': "replace_job st cur = ret st'" "jlist st' (cur # ps)" "jval (jheap st') = jval (jheap st)"
          "dom (jheap st') = dom (jheap st)"
        using jlist_replace [OF l cc(2) False cc(1)] by auto
      have "jq_rep (st', 0) (jval (jheap st) cur # q, None)"
        using st' q d False unfolding jq_rep_def by (intro exI [of _ "cur # ps"]) auto
      then show ?thesis using False cc st' f U s by (auto simp: QBack jq_step_def aq_step_def a)
    qed
  next
    case QFree
    let ?st = "if cur = 0 then st else st\<lparr>jheap := (jheap st)(cur := None)\<rparr>"
    have np: "cur \<noteq> 0 \<Longrightarrow> p \<in> set ps \<Longrightarrow> p \<noteq> cur" for p using c by auto
    have "dls (jnx (jheap ?st)) (jpv (jheap ?st)) 0 ps 0"
      using l np by (subst dls_cong [where nx' = "jnx (jheap st)" and pv' = "jpv (jheap st)"])
        (auto simp: jlist_def jnx_def jpv_def)
    then have "jlist ?st ps" using l np by (auto simp: jlist_def)
    moreover have "map (jval (jheap ?st)) ps = q" using q np by (auto simp: jval_def)
    moreover have "dom (jheap ?st) = set ps" using d c by (auto split: if_splits)
    ultimately have "jq_rep (?st, 0) (q, None)" unfolding jq_rep_def by auto
    moreover have "dom (jheap ?st) \<subseteq> U" using U s \<open>dom (jheap ?st) = set ps\<close> d by auto
    ultimately show ?thesis using f by (auto simp: QFree jq_step_def aq_step_def s a simp del: fun_upd_apply)
  qed
qed

lemma jq_run_rep:
  "jq_rep s a \<Longrightarrow> fresh_ops U ops \<Longrightarrow> dom (jheap (fst s)) \<subseteq> U \<Longrightarrow>
     \<exists>s'. jq_run s ops = ret s' \<and> jq_rep s' (foldl aq_step a ops)"
proof (induction ops arbitrary: s a U)
  case (Cons op ops)
  from jq_step_rep [OF Cons.prems] obtain s' U' where
    "jq_step s op = ret s'" "jq_rep s' (aq_step a op)" "fresh_ops U' ops" "dom (jheap (fst s')) \<subseteq> U'" by auto
  with Cons.IH [of s' "aq_step a op" U'] show ?case by auto
qed simp

text \<open>The daemon before anything has happened.\<close>

definition pd_init :: pd where
  "pd_init = \<lparr>jheap = \<lambda>_. None, jobhead = 0, jobtail = 0, nextjob = 1, jobfile = [], datadir = \<lambda>_. None,
     reqdir = \<lambda>_. None, wheap = \<lambda>_. None, workers = 0, closed = [], cancelled = [], reread = False,
     printer_name = ''printer''\<rparr>"

definition sample_req :: printreq where
  "sample_req = \<lparr>rsize = 7, rflags = 0, usernm = replicate 64 nul, jobnm = replicate 256 nul\<rparr>"

lemma jlist_init: "jlist pd_init []"
  by (simp add: jlist_def pd_init_def)

text \<open>
  C4: the doubly linked job list behaves as a queue: from the empty list, any sequence of adding
  jobs at the tail, picking the head, putting the picked job back at the head and freeing it
  never touches a dangling pointer, and the jobs and their order are those of the list
  specification.
\<close>
theorem job_queue_refines_list:
  assumes "fresh_ops {} ops"
  shows "\<exists>st cur ps. jq_run (pd_init, 0) ops = ret (st, cur) \<and> jlist st ps \<and>
    map (jval (jheap st)) ps = fst (foldl aq_step ([], None) ops) \<and>
    (cur = 0 \<longleftrightarrow> snd (foldl aq_step ([], None) ops) = None) \<and>
    (cur \<noteq> 0 \<longrightarrow> snd (foldl aq_step ([], None) ops) = Some (jval (jheap st) cur))"
proof -
  have "jq_rep (pd_init, 0) ([], None)"
    using jlist_init unfolding jq_rep_def by (intro exI [of _ "[]"]) (simp add: pd_init_def)
  moreover have "dom (jheap (fst (pd_init, 0))) \<subseteq> {}" by (simp add: pd_init_def)
  ultimately obtain s' where "jq_run (pd_init, 0) ops = ret s'" "jq_rep s' (foldl aq_step ([], None) ops)"
    using jq_run_rep assms by blast
  then show ?thesis by (cases s') (auto simp: jq_rep_def split: if_splits)
qed

definition sample_ops :: "qop list" where
  "sample_ops = [QAdd 100 1 sample_req, QAdd 200 2 sample_req, QPick, QAdd 300 3 sample_req, QBack]"

theorem job_queue_refines_list_witness:
  "\<exists>st cur ps. jq_run (pd_init, 0) sample_ops = ret (st, cur) \<and> jlist st ps \<and>
     map (jval (jheap st)) ps = [(1, sample_req), (2, sample_req), (3, sample_req)]"
proof -
  have "fresh_ops {} sample_ops" by (simp add: sample_ops_def)
  from job_queue_refines_list [OF this] obtain st cur ps where
    "jq_run (pd_init, 0) sample_ops = ret (st, cur)" "jlist st ps"
    "map (jval (jheap st)) ps = fst (foldl aq_step ([], None) sample_ops)" by blast
  moreover have "fst (foldl aq_step ([], None) sample_ops) = [(1, sample_req), (2, sample_req), (3, sample_req)]"
    by (simp add: sample_ops_def aq_step_def)
  ultimately show ?thesis by metis
qed

subsection \<open>Workers\<close>

lemma add_worker_first:
  "workers st = 0 \<Longrightarrow> add_worker st wp t s = ret (st\<lparr>wheap := (wheap st)(wp \<mapsto>
     \<lparr>wnext = 0, wprev = 0, tid = t, sockfd = s\<rparr>), workers := wp\<rparr>)"
  by (simp add: add_worker_def)

lemma cleanup_only:
  assumes "wp \<noteq> 0" and "workers st = wp" and "wheap st wp = Some \<lparr>wnext = 0, wprev = 0, tid = t, sockfd = s\<rparr>"
  shows "client_cleanup st t = ret (st\<lparr>workers := 0, closed := closed st @ [s], wheap := (wheap st)(wp := None)\<rparr>)"
proof -
  have "worker_find st t wp = ret wp" using assms by (subst worker_find.simps) (simp add: wget_def)
  then show ?thesis using assms by (simp add: client_cleanup_def wget_def)
qed

text \<open>
  With one client at a time the worker list works: the thread is registered, found at its end,
  its socket closed once and its node freed.  With two it does not: \<^verbatim>\<open>add_worker\<close> links the
  second node in front of the first but never makes it the head.  The second thread's clean-up
  then finds nothing and leaves its socket open, \<^verbatim>\<open>kill_workers\<close> does not cancel it, the first
  thread's clean-up leaves the head pointing to the freed node, and the next \<^verbatim>\<open>add_worker\<close> writes
  through that dangling pointer.
\<close>
theorem worker_list_loses_second_worker:
  assumes n: "wp \<noteq> 0" "wq \<noteq> 0" "wp \<noteq> wq" "wr \<noteq> wp" "t \<noteq> u"
    and st: "wheap st = (\<lambda>_. None)" "workers st = 0" "closed st = []" "cancelled st = []"
  shows "(\<exists>st1. rbind (add_worker st wp t s) (\<lambda>st. client_cleanup st t) = ret st1 \<and>
      closed st1 = [s] \<and> workers st1 = 0 \<and> wheap st1 = (\<lambda>_. None)) \<and>
    (\<exists>st2 st3 st4. rbind (add_worker st wp t s) (\<lambda>st. add_worker st wq u s') = ret st2 \<and>
      client_cleanup st2 u = ret st2 \<and>
      kill_workers st2 = ret st3 \<and> cancelled st3 = [t] \<and>
      client_cleanup st2 t = ret st4 \<and> closed st4 = [s] \<and> workers st4 = wp \<and> wheap st4 wp = None \<and>
      add_worker st4 wr v s'' = die (Undef ''worker pointer''))"
proof
  have "client_cleanup (st\<lparr>wheap := (wheap st)(wp \<mapsto> \<lparr>wnext = 0, wprev = 0, tid = t, sockfd = s\<rparr>), workers := wp\<rparr>) t =
      ret (st\<lparr>wheap := (wheap st)(wp := None), workers := 0, closed := closed st @ [s]\<rparr>)"
    using n(1) cleanup_only [of wp "st\<lparr>wheap := (wheap st)(wp \<mapsto> \<lparr>wnext = 0, wprev = 0, tid = t, sockfd = s\<rparr>), workers := wp\<rparr>" t s]
    by simp
  then show "\<exists>st1. rbind (add_worker st wp t s) (\<lambda>st. client_cleanup st t) = ret st1 \<and>
      closed st1 = [s] \<and> workers st1 = 0 \<and> wheap st1 = (\<lambda>_. None)"
    using st by (auto simp: add_worker_first)
  define st2 where "st2 = st\<lparr>workers := wp, wheap := [wp \<mapsto> \<lparr>wnext = 0, wprev = wq, tid = t, sockfd = s\<rparr>,
    wq \<mapsto> \<lparr>wnext = wp, wprev = 0, tid = u, sockfd = s'\<rparr>]\<rparr>"
  have e2: "rbind (add_worker st wp t s) (\<lambda>st. add_worker st wq u s') = ret st2"
    using st n by (auto simp: add_worker_def wput_def wget_def st2_def fun_upd_twist)
  have wf: "worker_find st2 i 0 = ret 0" for i by (subst worker_find.simps) simp
  have "worker_find st2 u wp = ret 0"
    using n wf by (subst worker_find.simps) (simp add: wget_def st2_def)
  then have c2: "client_cleanup st2 u = ret st2" by (simp add: client_cleanup_def st2_def)
  have kw: "kill_walk 0 x = ret x" for x by (subst kill_walk.simps) simp
  have k2: "kill_workers st2 = ret (st2\<lparr>cancelled := [t]\<rparr>)"
    using n st kw unfolding kill_workers_def by (subst kill_walk.simps) (simp add: wget_def st2_def)
  define st4 where "st4 = st2\<lparr>closed := [s], wheap := [wq \<mapsto> \<lparr>wnext = 0, wprev = 0, tid = u, sockfd = s'\<rparr>]\<rparr>"
  have "worker_find st2 t wp = ret wp"
    using n by (subst worker_find.simps) (simp add: wget_def st2_def)
  then have c4: "client_cleanup st2 t = ret st4"
    using n st by (auto simp: client_cleanup_def wget_def wput_def st2_def st4_def fun_eq_iff)
  have a4: "add_worker st4 wr v s'' = die (Undef ''worker pointer'')"
    using n by (simp add: add_worker_def wput_def wget_def st4_def st2_def)
  show "\<exists>st2 st3 st4. rbind (add_worker st wp t s) (\<lambda>st. add_worker st wq u s') = ret st2 \<and>
      client_cleanup st2 u = ret st2 \<and> kill_workers st2 = ret st3 \<and> cancelled st3 = [t] \<and>
      client_cleanup st2 t = ret st4 \<and> closed st4 = [s] \<and> workers st4 = wp \<and> wheap st4 wp = None \<and>
      add_worker st4 wr v s'' = die (Undef ''worker pointer'')"
    using e2 c2 k2 c4 a4 n by (intro exI [of _ st2] exI [of _ "st2\<lparr>cancelled := [t]\<rparr>"] exI [of _ st4])
      (simp add: st4_def st2_def)
qed

theorem worker_list_loses_second_worker_witness:
  "\<exists>st2 st4. rbind (add_worker pd_init 10 1 7) (\<lambda>st. add_worker st 20 2 8) = ret st2 \<and>
     client_cleanup st2 2 = ret st2 \<and> client_cleanup st2 1 = ret st4 \<and>
     add_worker st4 30 3 9 = die (Undef ''worker pointer'')"
  using worker_list_loses_second_worker [of 10 20 30 1 2 pd_init 7 8 3 9]
  by (auto simp: pd_init_def)

subsection \<open>Job numbers\<close>

text \<open>
  Job numbers are positive and strictly increase; after the largest 64-bit number the counter
  starts again at 1 instead of becoming negative.
\<close>
theorem job_numbers_positive:
  assumes "0 < sint (nextjob st)" and "get_newjobno st = (i, st')"
  shows "0 < sint i \<and> 0 < sint (nextjob st') \<and>
    sint (nextjob st') = (if sint i = 2 ^ 63 - 1 then 1 else sint i + 1)"
proof -
  let ?n = "nextjob st"
  have i: "i = ?n" and n: "nextjob st' = (if sint (?n + 1) \<le> 0 then 1 else ?n + 1)"
    using assms(2) by (auto simp: get_newjobno_def Let_def)
  have lt: "sint ?n \<le> 2 ^ 63 - 1" using sint_lt [of ?n] by simp
  have s: "sint (?n + 1) = (if sint ?n = 2 ^ 63 - 1 then - (2 ^ 63) else sint ?n + 1)"
  proof (cases "sint ?n = 2 ^ 63 - 1")
    case True
    have "?n = word_of_int (sint ?n)" by simp
    also have "\<dots> = word_of_int (2 ^ 63 - 1)" by (simp only: True)
    finally have "sint (?n + 1) = sint (word_of_int (2 ^ 63) :: 64 word)" by simp
    also have "\<dots> = - (2 ^ 63)" by simp
    finally show ?thesis using True by simp
  next
    case False
    then have "- (2 ^ 63) \<le> sint ?n + 1" "sint ?n + 1 < 2 ^ 63" using lt assms(1) by auto
    then have "signed_take_bit 63 (sint ?n + 1) = sint ?n + 1"
      by (intro signed_take_bit_int_eq_self) auto
    then show ?thesis using False by (simp add: sint_word_ariths)
  qed
  show ?thesis using i n s assms(1) lt by auto
qed

theorem job_numbers_positive_witness:
  "sint (nextjob (snd (get_newjobno (pd_init\<lparr>nextjob := 9223372036854775807\<rparr>)))) = 1"
  using job_numbers_positive [of "pd_init\<lparr>nextjob := 9223372036854775807\<rparr>"] by (simp add: prod_eq_iff [symmetric] get_newjobno_def)

subsection \<open>The job file\<close>

lemma sdec_pos: "0 \<le> sint w \<Longrightarrow> sdec w = dec (nat (sint w))"
  by (simp add: sdec_def)

lemma length_sdec_le: "0 \<le> sint (w :: 64 word) \<Longrightarrow> length (sdec w) \<le> 19"
proof -
  assume p: "0 \<le> sint w"
  have "sint w < 2 ^ 63" using sint_lt [of w] by simp
  then have "nat (sint w) < 10 ^ 19" using p by (simp add: nat_less_iff)
  then show ?thesis using p length_dec_le [of "nat (sint w)" 19] by (simp add: sdec_pos)
qed

lemma path_chars: "nul \<notin> set jobfile_path" "\<forall>c\<in>set jobfile_path. \<not> is_digit c" "length jobfile_path = 24"
  by (simp_all add: jobfile_path_def SPOOLDIR_def JOBFILE_def nul_def is_digit_def)

lemma init_request_reads:
  assumes "jobfile st = dec n" and "n < 2 ^ 63"
  shows "init_request st False False = ret (st\<lparr>nextjob := word_of_int (int n)\<rparr>)"
proof -
  have "n < 10 ^ 19" using assms(2) by simp
  then have len: "length (dec n) \<le> 19" by (rule length_dec_le) simp
  have pr: "pread (jobfile st) 0 FILENMSZ = dec n" using assms(1) len by (simp add: pread_def FILENMSZ_def)
  let ?t = "drop (length (dec n)) jobfile_path"
  have tne: "?t \<noteq> []" using len path_chars(3) by simp
  then obtain c u where t: "?t = c # u" by (cases ?t) auto
  have "c \<in> set jobfile_path" using t by (metis in_set_dropD list.set_intros(1))
  then have c: "\<not> is_digit c" using path_chars(2) by blast
  have nt: "nul \<notin> set ?t" using path_chars(1) by (meson in_set_dropD)
  have bf: "dec n @ drop (length (dec n)) (jobfile_path @ [nul]) = (dec n @ ?t) @ [nul]"
    using len path_chars(3) by simp
  have "nul \<notin> set (dec n @ ?t)" using nt by simp
  then have cs: "cstr ((dec n @ ?t) @ [nul]) = dec n @ ?t" by (rule cstr_append_nul)
  have "atol (dec n @ ?t) = int n" unfolding t using assms(2) c by (intro atol_dec_stop) (simp_all add: LONG_MAX_def)
  then show ?thesis
    by (simp only: init_request_def guard_simps rbind_simps not_False_eq_True pr Let_def bf cs) simp
qed

text \<open>
  The job counter survives a restart: when the old contents of the job file are not longer than
  the number \<^verbatim>\<open>update_jobno\<close> writes, the next \<^verbatim>\<open>init_request\<close> reads exactly that number back, although
  the buffer it reads into still holds the end of the file's name.
\<close>
theorem job_counter_survives_restart:
  assumes "0 < sint (nextjob st)" and "length (jobfile st) \<le> length (sdec (nextjob st))"
  shows "\<exists>st1. update_jobno st False = ret st1 \<and>
    init_request (st1\<lparr>nextjob := n\<rparr>) False False = ret (st1\<lparr>nextjob := nextjob st\<rparr>)"
proof -
  let ?st1 = "st\<lparr>jobfile := dec (nat (sint (nextjob st)))\<rparr>"
  have "pwrite (jobfile st) 0 (sdec (nextjob st)) = dec (nat (sint (nextjob st)))"
    using assms by (simp add: pwrite_def sdec_pos)
  then have "update_jobno st False = ret ?st1" by (simp add: update_jobno_def)
  moreover have "nat (sint (nextjob st)) < 2 ^ 63"
    using sint_lt [of "nextjob st"] assms(1) by (simp add: nat_less_iff)
  then have "init_request (?st1\<lparr>nextjob := n\<rparr>) False False = ret (?st1\<lparr>nextjob := nextjob st\<rparr>)"
    using assms(1) init_request_reads [of "?st1\<lparr>nextjob := n\<rparr>" "nat (sint (nextjob st))"] by simp
  ultimately show ?thesis by blast
qed

theorem job_counter_survives_restart_witness:
  "\<exists>st1 st2. update_jobno (pd_init\<lparr>jobfile := ''41'', nextjob := 42\<rparr>) False = ret st1 \<and>
     init_request (st1\<lparr>nextjob := 0\<rparr>) False False = ret st2 \<and> nextjob st2 = 42"
  using job_counter_survives_restart [of "pd_init\<lparr>jobfile := ''41'', nextjob := 42\<rparr>" 0]
  by (auto simp: sdec_def dec.simps)

text \<open>
  The job file is overwritten but never truncated, so the wrap of the counter is not stored:
  after job number \<^verbatim>\<open>2^63 - 1\<close> the counter is 1, but a restart reads 1223372036854775807.
\<close>
theorem job_counter_wrap_is_lost:
  "\<exists>st1 st2 st3. update_jobno (pd_init\<lparr>nextjob := 9223372036854775807\<rparr>) False = ret st1 \<and>
     nextjob (snd (get_newjobno st1)) = 1 \<and>
     update_jobno (snd (get_newjobno st1)) False = ret st2 \<and>
     init_request st2 False False = ret st3 \<and> nextjob st3 = 1223372036854775807"
proof -
  have d: "sdec (9223372036854775807 :: 64 word) = ''9223372036854775807''" "sdec (1 :: 64 word) = ''1''"
    "dec 1223372036854775807 = ''1223372036854775807''"
    by (simp_all add: sdec_def dec.simps)
  define st1 where "st1 = pd_init\<lparr>nextjob := 9223372036854775807, jobfile := ''9223372036854775807''\<rparr>"
  have 1: "update_jobno (pd_init\<lparr>nextjob := 9223372036854775807\<rparr>) False = ret st1"
    by (simp add: update_jobno_def d pwrite_def pd_init_def st1_def)
  have 2: "snd (get_newjobno st1) = st1\<lparr>nextjob := 1\<rparr>"
    by (simp add: get_newjobno_def st1_def)
  have 3: "update_jobno (st1\<lparr>nextjob := 1\<rparr>) False = ret (st1\<lparr>nextjob := 1, jobfile := ''1223372036854775807''\<rparr>)"
    by (simp add: update_jobno_def d pwrite_def st1_def)
  have 4: "init_request (st1\<lparr>nextjob := 1, jobfile := ''1223372036854775807''\<rparr>) False False =
      ret (st1\<lparr>nextjob := word_of_int (int 1223372036854775807), jobfile := ''1223372036854775807''\<rparr>)"
    by (subst init_request_reads [of _ 1223372036854775807]) (simp_all add: d)
  show ?thesis
    by (rule exI [of _ st1], rule exI [of _ "st1\<lparr>nextjob := 1, jobfile := ''1223372036854775807''\<rparr>"],
        rule exI [of _ "st1\<lparr>nextjob := word_of_int (int 1223372036854775807), jobfile := ''1223372036854775807''\<rparr>"])
      (use 1 2 3 4 in simp)
qed

subsection \<open>From the print command to the spool directory\<close>

text \<open>
  C6: when every byte the print command sends reaches the daemon in time, the client thread
  accepts the job: the data file is the user's file, byte for byte, the queued request carries the
  user's name, the (possibly shortened) file name and the size modulo \<open>2 ^ 32\<close>, the control file is
  the encoded request, the job is the last of the queue, the socket is closed and the worker gone.
\<close>
theorem print_job_reaches_spool:
  assumes "submit_send (Some user) fname nbytes txt jk fc \<lparr>sent = [], script = scr\<rparr> = ret w"
    and "nul \<notin> set user" and "nul \<notin> set fname" and "JOBNM_MAX \<le> length jk"
    and "tbytes (cin ev) = sent w"
    and "cenv_good st ev" and "jlist st ps" and "workers st = 0" and "get_newjobno st = (i, st0)"
  shows "\<exists>a r st'. client_thread st ev =
      ret (0, Some \<lparr>retcode = 0, pjobid = Some (htonl (ucast i)), pmsg = ''request ID '' @ sdec i\<rparr>, st') \<and>
    datadir st' = (datadir st)(sdec i \<mapsto> bytes fc) \<and> reqdir st' = (reqdir st)(sdec i \<mapsto> enc_req r) \<and>
    cstr (usernm r) = user \<and> cstr (jobnm r) = job_name fname \<and> rsize r = ucast (of_nat nbytes :: 32 word) \<and>
    jlist st' (ps @ [a]) \<and> jval (jheap st') a = (i, r) \<and>
    (\<forall>p\<in>set ps. jval (jheap st') p = jval (jheap st) p) \<and>
    workers st' = 0 \<and> closed st' = closed st @ [csock ev]"
proof -
  obtain hdr where h: "sent w = hdr @ bytes fc" "length hdr = sizeof_printreq" "cstr (usernm (host_req hdr)) = user"
      "cstr (jobnm (host_req hdr)) = job_name fname" "rsize (host_req hdr) = ucast (of_nat nbytes :: 32 word)"
    using submit_send_sent [OF assms(1-4)] by blast
  have b: "tbytes (cin ev) = hdr @ bytes fc" using assms(5) h(1) by simp
  obtain a st' where *: "cjalloc ev = Some a"
    "client_thread st ev = ret (0, Some \<lparr>retcode = 0, pjobid = Some (htonl (ucast i)), pmsg = ''request ID '' @ sdec i\<rparr>, st')"
    "datadir st' = (datadir st)(sdec i \<mapsto> bytes fc)" "reqdir st' = (reqdir st)(sdec i \<mapsto> enc_req (job_of hdr ev))"
    "jlist st' (ps @ [a])" "jval (jheap st') a = (i, job_of hdr ev)" "\<forall>p. p \<noteq> a \<longrightarrow> jval (jheap st') p = jval (jheap st) p"
    "workers st' = 0" "closed st' = closed st @ [csock ev]"
    using client_thread_accepts [OF assms(6-8) b h(2) assms(9)] by blast
  have "a \<notin> set ps" using *(5) by (simp add: jlist_def)
  then show ?thesis
    using * h(3-5) by (intro exI [of _ a] exI [of _ "job_of hdr ev"] exI [of _ st']) (auto simp: job_of_def)
qed

definition sample_env :: "string \<Rightarrow> cenv" where
  "sample_env b = \<lparr>ctid = 1, csock = 5, cin = [Piece b], cwalloc = Some 16, cjalloc = Some 32, creat_data = None,
     data_script = [], creat_ctl = None, ctl_script = [], junk = [], strerror = \<lambda>_. []\<rparr>"

lemma sample_env_good: "jheap st 32 = None \<Longrightarrow> cenv_good st (sample_env b)"
  by (simp add: cenv_good_def sample_env_def)

theorem print_job_reaches_spool_witness:
  "\<exists>w st'. submit_send (Some ''lp'') ''notes'' 4 True (replicate 256 nul) [Piece ''text''] \<lparr>sent = [], script = []\<rparr> = ret w \<and>
     client_thread pd_init (sample_env (sent w)) = ret (0, Some \<lparr>retcode = 0, pjobid = Some (htonl 1), pmsg = ''request ID 1''\<rparr>, st') \<and>
     datadir st' ''1'' = Some ''text''"
proof -
  have wr: "writen s \<lparr>sent = t, script = []\<rparr> = (int (length s), \<lparr>sent = t @ s, script = []\<rparr>)" for s t
    by (cases "s = []") (simp_all add: writen_def writen_loop.simps sys_write_def)
  obtain r where r: "build_req (Some ''lp'') ''notes'' 4 True (replicate 256 nul) = ret r" "wf_req r"
    by (simp add: build_req_def USERNM_MAX_def wf_req_def JOBNM_MAX_def)
  have rd: "sys_read IOBUFSZ [] = (Got [], [])" "sys_read IOBUFSZ [Piece ''text''] = (Got ''text'', [])"
    by (simp_all add: IOBUFSZ_def)
  have s1: "send_file [] u = ret u" for u by (subst send_file.simps) (simp add: rd del: sys_read.simps)
  have s2: "send_file [Piece ''text''] \<lparr>sent = t, script = []\<rparr> = ret \<lparr>sent = t @ ''text'', script = []\<rparr>" for t
    using wr [of "''text''"] by (subst send_file.simps) (simp add: rd s1 del: sys_read.simps)
  have s: "submit_send (Some ''lp'') ''notes'' 4 True (replicate 256 nul) [Piece ''text''] \<lparr>sent = [], script = []\<rparr> =
      ret \<lparr>sent = enc_req r @ ''text'', script = []\<rparr>"
    using r by (simp add: submit_send_def wr length_enc_req s2)
  have n: "get_newjobno pd_init = (1, pd_init\<lparr>nextjob := 2\<rparr>)" by (simp add: get_newjobno_def pd_init_def)
  have g: "cenv_good pd_init (sample_env (enc_req r @ ''text''))" by (rule sample_env_good) (simp add: pd_init_def)
  have "sdec 1 = ''1''" by (simp add: sdec_def dec.simps)
  then show ?thesis
    using print_job_reaches_spool [OF s _ _ _ _ g jlist_init _ n] s
    by (auto simp: nul_def JOBNM_MAX_def sample_env_def pd_init_def)
qed

text \<open>
  C10: the daemon does not notice an incomplete transfer: whatever size the header announces, the
  client thread stores what arrives before the first pause of 20 seconds, error or end of file,
  answers 0 and queues the job.
\<close>
theorem client_thread_accepts_incomplete:
  assumes "cin ev = [Piece hdr, Piece part, stop] @ rest" and "length hdr = sizeof_printreq"
    and "stop = Pause \<or> stop = Fail e"
    and "cenv_good st ev" and "jlist st ps" and "workers st = 0"
  shows "\<exists>resp st'. client_thread st ev = ret (0, Some resp, st') \<and> retcode resp = 0 \<and>
    datadir st' (sdec (nextjob st)) = Some part \<and> rsize (dec_req (the (reqdir st' (sdec (nextjob st))))) = rsize (host_req hdr) \<and>
    (\<exists>a. jlist st' (ps @ [a]))"
proof -
  have b: "tbytes (cin ev) = hdr @ part" using assms(1,3) by auto
  obtain i st0 where i: "get_newjobno st = (i, st0)" by force
  then have ii: "i = nextjob st" by (simp add: get_newjobno_def Let_def)
  show ?thesis
    using client_thread_accepts [OF assms(4-6) b assms(2) i] dec_enc_req [OF wf_job_of [OF assms(2)], of ev] ii
    by (auto simp: job_of_def)
qed

theorem client_thread_accepts_incomplete_witness:
  "\<exists>resp st'. client_thread pd_init ((sample_env [])\<lparr>cin := [Piece (replicate 336 nul), Piece ''%!PS-half'', Pause, Piece ''rest'']\<rparr>) =
     ret (0, Some resp, st') \<and> datadir st' ''1'' = Some ''%!PS-half''"
proof -
  have g: "cenv_good pd_init ((sample_env [])\<lparr>cin := [Piece (replicate 336 nul), Piece ''%!PS-half'', Pause, Piece ''rest'']\<rparr>)"
    by (simp add: cenv_good_def sample_env_def pd_init_def)
  have "sdec (nextjob pd_init) = ''1''" by (simp add: sdec_def dec.simps pd_init_def)
  then show ?thesis
    using client_thread_accepts_incomplete [of _ "replicate 336 nul" "''%!PS-half''" Pause "[Piece ''rest'']" 0, OF _ _ _ g jlist_init]
    by (auto simp: sizeof_printreq_def USERNM_MAX_def JOBNM_MAX_def pd_init_def)
qed

text \<open>
  A client that is refused (no header in time, a file that cannot be created, a failed or short
  write) leaves no trace: exit status 1, the queue as it was, and neither a data nor a control file
  of its job number.
\<close>
theorem client_thread_reject_leaves_no_job:
  assumes "client_thread st ev = ret (1, resp, st')" and "workers st = 0"
    and "cwalloc ev = Some w" and "w \<noteq> 0"
    and "datadir st (sdec (nextjob st)) = None" and "reqdir st (sdec (nextjob st)) = None"
  shows "jheap st' = jheap st \<and> jobhead st' = jobhead st \<and> jobtail st' = jobtail st \<and>
    datadir st' = datadir st \<and> reqdir st' = reqdir st \<and> workers st' = 0 \<and> closed st' = closed st @ [csock ev] \<and>
    resp \<noteq> None"
proof -
  define st1 where "st1 = st\<lparr>workers := w, wheap := (wheap st)(w \<mapsto> \<lparr>wnext = 0, wprev = 0, tid = ctid ev, sockfd = csock ev\<rparr>)\<rparr>"
  have aw: "add_worker st w (ctid ev) (csock ev) = ret st1" using assms(2) by (simp add: add_worker_def st1_def)
  have ce: "client_exit ev c r X = ret (c, r, X\<lparr>workers := 0, closed := closed X @ [csock ev], wheap := (wheap st)(w := None)\<rparr>)"
    if "workers X = w" "wheap X = wheap st1" for c r X
    using worker_alone [of X w st "ctid ev" "csock ev"] that assms(4) by (simp add: client_exit_def st1_def)
  obtain n bs c where tr: "treadn sizeof_printreq (cin ev) = (n, bs, c)" by (metis prod_cases3)
  obtain i st2 where gn: "get_newjobno st1 = (i, st2)" by force
  have i: "i = nextjob st" and st2: "st2 = st1\<lparr>nextjob := nextjob st2\<rparr>"
    using gn by (auto simp: get_newjobno_def Let_def st1_def)
  have fr: "jheap st2 = jheap st" "jobhead st2 = jobhead st" "jobtail st2 = jobtail st" "datadir st2 = datadir st"
      "reqdir st2 = reqdir st" "closed st2 = closed st" "workers st2 = w" "wheap st2 = wheap st1"
    by (subst st2; simp add: st1_def)+
  have upd: "(datadir st)(sdec i := None) = datadir st" "(reqdir st)(sdec i := None) = reqdir st"
    using assms(5,6) i by (auto simp: fun_upd_idem)
  have ctl: "jheap st' = jheap st \<and> jobhead st' = jobhead st \<and> jobtail st' = jobtail st \<and>
      datadir st' = datadir st \<and> reqdir st' = reqdir st \<and> workers st' = 0 \<and> closed st' = closed st @ [csock ev] \<and> resp \<noteq> None"
    if c: "client_control (st2\<lparr>datadir := (datadir st2)(sdec i \<mapsto> b)\<rparr>) ev i r = ret (1, resp, st')" for b r
  proof (cases "creat_ctl ev")
    case (Some e)
    then show ?thesis using c fr upd by (auto simp: client_control_def ce)
  next
    case None
    obtain q wc where q: "sys_write (enc_req r) \<lparr>sent = [], script = ctl_script ev\<rparr> = (q, wc)" by force
    show ?thesis
    proof (cases q)
      case (WErr e)
      then show ?thesis using c None q fr upd by (auto simp: client_control_def ce)
    next
      case (Wrote k)
      show ?thesis
      proof (cases "k = sizeof_printreq")
        case True
        then have False using c None q Wrote by (auto simp: client_control_def Let_def rbind_eq_ret client_exit_def)
        then show ?thesis ..
      next
        case False
        then show ?thesis using c None q Wrote fr upd by (auto simp: client_control_def Let_def ce)
      qed
    qed
  qed
  show ?thesis
  proof (cases "n = int sizeof_printreq \<and> creat_data ev = None")
    case False
    have "workers st1 = w" by (simp add: st1_def)
    then show ?thesis
      using assms(1,3) aw tr gn fr ce [of st1] ce [of st2] False
      by (cases "n = int sizeof_printreq") (auto simp: client_thread_def Let_def st1_def)
  next
    case True
    obtain q wc where q: "client_data (junk ev) c True (rflags (host_req bs)) \<lparr>sent = [], script = data_script ev\<rparr> = (q, wc)" by force
    show ?thesis
    proof (cases q)
      case (Inl e)
      then show ?thesis using assms(1,3) aw tr gn fr upd q True by (auto simp: client_thread_def Let_def ce)
    next
      case (Inr f)
      then show ?thesis using assms(1,3) aw tr gn q True ctl by (auto simp: client_thread_def Let_def)
    qed
  qed
qed

theorem client_thread_reject_leaves_no_job_witness:
  "\<exists>resp st'. client_thread pd_init ((sample_env [])\<lparr>cin := [Pause]\<rparr>) = ret (1, Some resp, st') \<and>
     jheap st' = jheap pd_init \<and> closed st' = [5]"
proof -
  let ?ev = "(sample_env [])\<lparr>cin := [Pause]\<rparr>"
  have "treadn sizeof_printreq [Pause] = (- 1, [], [])"
    by (simp add: treadn_def sizeof_printreq_def readn_loop.simps)
  then have "\<exists>resp st'. client_thread pd_init ?ev = ret (1, resp, st')"
    using cleanup_only [of 16 "pd_init\<lparr>wheap := [16 \<mapsto> \<lparr>wnext = 0, wprev = 0, tid = 1, sockfd = 5\<rparr>], workers := 16\<rparr>" 1 5]
    by (simp add: client_thread_def sample_env_def add_worker_def pd_init_def sizeof_printreq_def client_exit_def)
  then obtain resp st' where r: "client_thread pd_init ?ev = ret (1, resp, st')" by blast
  from client_thread_reject_leaves_no_job [OF r, of 16] r show ?thesis
    by (auto simp: pd_init_def sample_env_def)
qed

subsection \<open>Restarting the daemon\<close>

lemma dec_not_dot: "dec n \<noteq> ''.''" "dec n \<noteq> ''..''"
proof -
  have "\<not> is_digit CHR ''.''" by (simp add: is_digit_def)
  then show "dec n \<noteq> ''.''" "dec n \<noteq> ''..''" using hd_dec_digit [of n] by (metis list.sel(1))+
qed

lemma atol_sdec: "0 < sint w \<Longrightarrow> word_of_int (atol (sdec w)) = (w :: 64 word)"
proof -
  assume p: "0 < sint w"
  have "sint w \<le> LONG_MAX" using sint_lt [of w] by (simp add: LONG_MAX_def)
  then show ?thesis using p by (simp add: sdec_pos atol_dec)
qed

text \<open>What the request directory holds for job number \<open>i\<close>.\<close>

definition stored_req :: "pd \<Rightarrow> 64 word \<Rightarrow> printreq \<Rightarrow> bool" where
  "stored_req st i r \<longleftrightarrow> 0 < sint i \<and> wf_req r \<and> reqdir st (sdec i) = Some (enc_req r)"

lemma build_qonstart_adds:
  assumes "jlist st ps" and "list_all2 (stored_req st) is rs" and "length as = length is" and "distinct as"
    and "\<forall>a\<in>set as. a \<noteq> 0 \<and> jheap st a = None"
  shows "\<exists>st'. build_qonstart st (map sdec is) (map Some as) = ret st' \<and> jlist st' (ps @ as) \<and>
    map (jval (jheap st')) (ps @ as) = map (jval (jheap st)) ps @ zip is rs \<and> nextjob st' = nextjob st"
  using assms
proof (induction "is" arbitrary: st ps rs as)
  case Nil
  then show ?case by auto
next
  case (Cons i js)
  from Cons.prems obtain r rs' a as' where e: "rs = r # rs'" "as = a # as'" "stored_req st i r" "list_all2 (stored_req st) js rs'"
    by (cases as) (auto simp: list_all2_Cons1)
  have ir: "0 < sint i" "wf_req r" "reqdir st (sdec i) = Some (enc_req r)" using e by (auto simp: stored_req_def)
  have "length (SPOOLDIR @ ''/reqs/'' @ sdec i) < FILENMSZ"
    using length_sdec_le [of i] ir(1) by (simp add: SPOOLDIR_def FILENMSZ_def)
  moreover have "pread (enc_req r) 0 sizeof_printreq = enc_req r" using length_enc_req [OF ir(2)] by (simp add: pread_def)
  moreover have "sdec i \<noteq> ''.''" "sdec i \<noteq> ''..''" using ir(1) dec_not_dot by (simp_all add: sdec_pos)
  moreover obtain st1 where st1: "add_job st (Some a) r i = ret st1" "jlist st1 (ps @ [a])"
      "st1 = st\<lparr>jheap := jheap st1, jobhead := jobhead st1, jobtail := a\<rparr>" "jval (jheap st1) a = (i, r)"
      "\<forall>p. p \<noteq> a \<longrightarrow> jval (jheap st1) p = jval (jheap st) p" "dom (jheap st1) = insert a (dom (jheap st))"
    using jlist_add [OF Cons.prems(1), of a r i] Cons.prems(5) e by auto
  ultimately have b: "build_qonstart st (map sdec (i # js)) (map Some as) = build_qonstart st1 (map sdec js) (map Some as')"
    using ir e(2) atol_sdec [OF ir(1)] length_enc_req [OF ir(2)] by (simp add: dec_enc_req)
  have rq: "reqdir st1 = reqdir st" "nextjob st1 = nextjob st" by (subst st1(3); simp)+
  then have "list_all2 (stored_req st1) js rs'" using e(4) by (simp add: stored_req_def [abs_def])
  moreover have "\<forall>b\<in>set as'. b \<noteq> 0 \<and> jheap st1 b = None"
    using Cons.prems(4,5) e(2) st1(6) by auto
  ultimately obtain st' where st': "build_qonstart st1 (map sdec js) (map Some as') = ret st'" "jlist st' ((ps @ [a]) @ as')"
      "map (jval (jheap st')) ((ps @ [a]) @ as') = map (jval (jheap st1)) (ps @ [a]) @ zip js rs'" "nextjob st' = nextjob st1"
    using Cons.IH [OF st1(2), of rs' as'] Cons.prems(3,4) e(2) by auto
  have "map (jval (jheap st1)) ps = map (jval (jheap st)) ps"
  proof (rule map_cong [OF refl])
    fix x assume "x \<in> set ps"
    then have "x \<noteq> a" using st1(2) by (auto simp: jlist_def)
    then show "jval (jheap st1) x = jval (jheap st) x" using st1(5) by blast
  qed
  then show ?case using b st' st1(4) e rq by auto
qed

lemma init_request_same:
  assumes "init_request st False False = ret st" and "jobfile X = jobfile st"
  shows "init_request X False False = ret (X\<lparr>nextjob := nextjob st\<rparr>)"
proof -
  let ?bs = "pread (jobfile st) 0 FILENMSZ"
  let ?buf = "?bs @ drop (length ?bs) (jobfile_path @ [nul])"
  define n :: "64 word" where "n = (if length ?bs = 0 then 1 else word_of_int (atol (cstr ?buf)))"
  have g: "init_request Y False False = (if length ?bs = 0 \<or> nul \<in> set ?buf then ret (Y\<lparr>nextjob := n\<rparr>)
      else die (Undef ''job number is not terminated''))" if "jobfile Y = jobfile st" for Y
    using that by (simp add: init_request_def Let_def n_def guard_def)
  have ok: "length ?bs = 0 \<or> nul \<in> set ?buf" using assms(1) g [of st] by (simp split: if_splits)
  then have "st\<lparr>nextjob := n\<rparr> = st" using assms(1) g [of st] by simp
  then have "nextjob (st\<lparr>nextjob := n\<rparr>) = nextjob st" by simp
  then have "n = nextjob st" by simp
  then show ?thesis using g [OF assms(2)] ok by simp
qed

text \<open>A new daemon process on the files an old one left.\<close>

definition restart :: "pd \<Rightarrow> pd" where
  "restart st = pd_init\<lparr>jobfile := jobfile st, datadir := datadir st, reqdir := reqdir st\<rparr>"



text \<open>
  The job counter is written only when the printer thread picks a job, so a daemon that dies
  before that gives a queued job's number away again: after the restart the job is in the queue
  and the next client thread gets the same number (and truncates that job's data file).
\<close>
theorem restart_reuses_job_number:
  assumes "init_request st False False = ret st" and "jlist st []" and "workers st = 0" and "0 < sint (nextjob st)"
    and "cenv_good st ev" and "tbytes (cin ev) = hdr @ file" and "length hdr = sizeof_printreq" and "a \<noteq> 0"
  shows "\<exists>resp st1 st2 st3. client_thread st ev = ret (0, Some resp, st1) \<and>
    init_request (restart st1) False False = ret st2 \<and>
    build_qonstart st2 [sdec (nextjob st)] [Some a] = ret st3 \<and>
    map (jval (jheap st3)) [a] = [(nextjob st, job_of hdr ev)] \<and> jlist st3 [a] \<and>
    fst (get_newjobno st3) = nextjob st"
proof -
  obtain i st0 where i: "get_newjobno st = (i, st0)" by force
  then have ii: "i = nextjob st" by (simp add: get_newjobno_def Let_def)
  obtain st1 resp where st1: "client_thread st ev = ret (0, Some resp, st1)"
      "reqdir st1 = (reqdir st)(sdec i \<mapsto> enc_req (job_of hdr ev))" "jobfile st1 = jobfile st"
    using client_thread_accepts [OF assms(5,2,3,6,7) i] by blast
  let ?st2 = "(restart st1)\<lparr>nextjob := nextjob st\<rparr>"
  have "init_request (restart st1) False False = ret ?st2"
    using init_request_same [OF assms(1), of "restart st1"] st1(3) by (simp add: restart_def)
  note ir = this
  have "jlist ?st2 []" by (simp add: jlist_def restart_def pd_init_def)
  moreover have "list_all2 (stored_req ?st2) [nextjob st] [job_of hdr ev]"
    using assms(4) wf_job_of [OF assms(7)] st1(2) ii by (simp add: stored_req_def restart_def)
  ultimately obtain st3 where "build_qonstart ?st2 [sdec (nextjob st)] [Some a] = ret st3" "jlist st3 [a]"
      "map (jval (jheap st3)) [a] = [(nextjob st, job_of hdr ev)]" "nextjob st3 = nextjob st"
    using build_qonstart_adds [of ?st2 "[]" "[nextjob st]" "[job_of hdr ev]" "[a]"] assms(8)
    by (auto simp: restart_def pd_init_def)
  then show ?thesis using st1(1) ir by (intro exI [of _ resp] exI [of _ st1] exI [of _ ?st2] exI [of _ st3]) (simp add: get_newjobno_def Let_def)
qed

theorem restart_reuses_job_number_witness:
  "\<exists>resp st1 st2 st3. client_thread pd_init (sample_env (replicate 336 nul @ ''%!PS'')) = ret (0, Some resp, st1) \<and>
     init_request (restart st1) False False = ret st2 \<and> build_qonstart st2 [''1''] [Some 64] = ret st3 \<and>
     jlist st3 [64] \<and> fst (jval (jheap st3) 64) = 1 \<and> fst (get_newjobno st3) = 1"
proof -
  have ir: "init_request pd_init False False = ret pd_init"
    by (simp add: init_request_def pd_init_def pread_def)
  have g: "cenv_good pd_init (sample_env (replicate 336 nul @ ''%!PS''))" by (rule sample_env_good) (simp add: pd_init_def)
  have s: "sdec (nextjob pd_init) = ''1''" by (simp add: sdec_def dec.simps pd_init_def)
  have n: "0 < sint (nextjob pd_init)" "workers pd_init = 0" "nextjob pd_init = 1" by (simp_all add: pd_init_def)
  have t: "tbytes (cin (sample_env (replicate 336 nul @ ''%!PS''))) = replicate 336 nul @ ''%!PS''"
    by (simp add: sample_env_def)
  have l: "length (replicate 336 nul) = sizeof_printreq" by (simp add: sizeof_printreq_def USERNM_MAX_def JOBNM_MAX_def)
  have nz: "(64 :: nat) \<noteq> 0" by simp
  from restart_reuses_job_number [OF ir jlist_init n(2,1) g t l nz, unfolded s, unfolded n(3)]
  obtain resp st1 st2 st3 where *:
    "client_thread pd_init (sample_env (replicate 336 nul @ ''%!PS'')) = ret (0, Some resp, st1)"
    "init_request (restart st1) False False = ret st2" "build_qonstart st2 [''1''] [Some 64] = ret st3"
    "map (jval (jheap st3)) [64] = [(1, job_of (replicate 336 nul) (sample_env (replicate 336 nul @ ''%!PS'')))]"
    "jlist st3 [64]" "fst (get_newjobno st3) = 1" by (elim exE conjE) (rule that)
  have "fst (jval (jheap st3) 64) = 1" using *(4) by simp
  with *(1-3,5,6) show ?thesis by (intro exI conjI)
qed

end
