(* ===== verification/PrinterProps.thy ===== *)
theory PrinterProps
  imports PrinterStatus PrintProps
begin

section \<open>The print spooler: the request sent to the printer\<close>

text \<open>
  The IPP header that \<^verbatim>\<open>printer_thread\<close> assembles is read back by a parser of the IPP encoding that
  is written independently of \<open>add_option\<close>; and the sizes of the three fixed buffers.
\<close>

subsection \<open>A parser of IPP attributes\<close>

function parse_attrs :: "string \<Rightarrow> (nat \<times> string \<times> string) list option" where
  "parse_attrs s = (case s of [] \<Rightarrow> None
     | t # r \<Rightarrow>
       if of_char t = TAG_END_OF_ATTR then (if r = [] then Some [] else None)
       else
         let n = unbe (take 2 r); r1 = drop (2 + n) r; m = unbe (take 2 r1); r2 = drop (2 + m) r1 in
         map_option (\<lambda>l. (of_char t, take n (drop 2 r), take m (drop 2 r1)) # l) (parse_attrs r2))"
  by pat_completeness auto
termination by (relation "measure length") auto

declare parse_attrs.simps [simp del]

definition parse_ipp :: "string \<Rightarrow> (nat \<times> nat \<times> nat \<times> (nat \<times> string \<times> string) list) option" where
  "parse_ipp s = (if length s < 9 \<or> of_char (s ! 8) \<noteq> TAG_OPERATION_ATTR then None
     else map_option (\<lambda>l. (unbe (take 2 s), unbe (take 2 (drop 2 s)), unbe (take 4 (drop 4 s)), l)) (parse_attrs (drop 9 s)))"

lemma unbe_be16: "n < 65536 \<Longrightarrow> unbe (be16 n) = n"
  by (simp add: unbe_def be16_def unle_le)

lemma length_be16 [simp]: "length (be16 n) = 2"
  by (simp add: be16_def)

lemma length_be32 [simp]: "length (be32 w) = 4"
  by (simp add: be32_def)

lemma unbe_be32: "unbe (be32 w) = unat w"
  using unsigned_less [of w, where ?'a = nat] by (simp add: unbe_def be32_def unle_le)

lemma parse_attrs_option:
  assumes "tag < 256" and "tag \<noteq> TAG_END_OF_ATTR" and "length nm < 65536" and "length v < 65536"
  shows "parse_attrs (add_option tag nm v @ r) = map_option (\<lambda>l. (tag, nm, v) # l) (parse_attrs r)"
proof -
  have t: "tag mod 256 = tag" using assms(1) by simp
  have b: "be16 n \<noteq> []" for n by (metis length_be16 length_0_conv zero_neq_numeral)
  show ?thesis
    by (subst parse_attrs.simps) (simp add: add_option_def t b assms(2) unbe_be16 assms(3,4) Let_def)
qed

lemma parse_attrs_end: "parse_attrs [char_of TAG_END_OF_ATTR] = Some []"
  by (subst parse_attrs.simps) (simp add: TAG_END_OF_ATTR_def)

text \<open>What the header says: the values of its six attributes.\<close>

definition job_attrs :: "printreq \<Rightarrow> string \<Rightarrow> (nat \<times> string \<times> string) list" where
  "job_attrs r pn =
     [(TAG_CHARSET, ''attributes-charset'', ''utf-8''), (TAG_NATULANG, ''attributes-natural-language'', ''en-us''),
      (TAG_URI, ''printer-uri'', uri_of pn), (TAG_NAMEWOLANG, ''requesting-user-name'', cstr (usernm r)),
      (TAG_NAMEWOLANG, ''job-name'', cstr (jobnm r)),
      (TAG_MIMETYPE, ''document-format'', if and (rflags r) PR_TEXT \<noteq> 0 then ''text/plain'' else ''application/postscript'')]"

lemma length_ipp_header:
  "length (ipp_header jid r pn) = 149 + length (uri_of pn) + length (cstr (usernm r)) + length (cstr (jobnm r)) +
     (if and (rflags r) PR_TEXT \<noteq> 0 then 10 else 22)"
  by (simp add: ipp_header_def add_option_def)

lemma ipp_header_parses:
  assumes "length (ipp_header jid r pn) < 65536"
  shows "parse_ipp (ipp_header jid r pn) = Some (0x0101, OP_PRINT_JOB, unat (ucast jid :: 32 word), job_attrs r pn)"
proof -
  let ?m = "if and (rflags r) PR_TEXT \<noteq> 0 then ''text/plain'' else ''application/postscript''"
  have l: "length (uri_of pn) < 65536" "length (cstr (usernm r)) < 65536" "length (cstr (jobnm r)) < 65536"
    using assms unfolding length_ipp_header by linarith+
  have tags: "TAG_CHARSET < 256" "TAG_NATULANG < 256" "TAG_URI < 256" "TAG_NAMEWOLANG < 256" "TAG_MIMETYPE < 256"
      "TAG_CHARSET \<noteq> TAG_END_OF_ATTR" "TAG_NATULANG \<noteq> TAG_END_OF_ATTR" "TAG_URI \<noteq> TAG_END_OF_ATTR"
      "TAG_NAMEWOLANG \<noteq> TAG_END_OF_ATTR" "TAG_MIMETYPE \<noteq> TAG_END_OF_ATTR"
    by (simp_all add: TAG_CHARSET_def TAG_NATULANG_def TAG_URI_def TAG_NAMEWOLANG_def TAG_MIMETYPE_def TAG_END_OF_ATTR_def)
  have a: "parse_attrs (drop 9 (ipp_header jid r pn)) = Some (job_attrs r pn)"
    unfolding ipp_header_def using l tags by (simp add: parse_attrs_option parse_attrs_end job_attrs_def)
  have 8: "ipp_header jid r pn ! 8 = char_of TAG_OPERATION_ATTR"
    by (simp add: ipp_header_def nth_append)
  have v: "take 2 (ipp_header jid r pn) = be16 0x0101" "take 2 (drop 2 (ipp_header jid r pn)) = be16 OP_PRINT_JOB"
      "take 4 (drop 4 (ipp_header jid r pn)) = be32 (ucast jid)"
    by (simp_all add: ipp_header_def be16_def numeral_2_eq_2)
  have "\<not> length (ipp_header jid r pn) < 9" unfolding length_ipp_header by linarith
  then show ?thesis
    using a 8 by (simp add: parse_ipp_def v unbe_be16 unbe_be32 OP_PRINT_JOB_def TAG_OPERATION_ATTR_def)
qed

section \<open>The print spooler: properties of the printer thread\<close>

text \<open>
  The parser of the printer's response, on a response that arrives in one read and on one whose
  header is cut in its last two bytes; the IPP request, read back by an independent parser; the
  configuration file; and what one round of the printer thread does to the job queue and the spool.
\<close>

text \<open>
  C7: a success response that arrives in one read, with any header lines around \<^verbatim>\<open>Content-Length\<close>
  (in any letter case), makes \<^verbatim>\<open>printer_status\<close> return exactly what its IPP body says, whatever the
  bytes of the fresh buffer are.
\<close>

theorem printer_status_accepts:
  assumes "good_line ver code reason" and "map lower nm = ''content-length:''"
    and "no_clen hdrs nm" and "header_lines hdrs2"
    and "8 \<le> length body" and "len \<le> length body" and "len < 2 ^ 31"
    and "s = http_response (status_line ver code reason) hdrs nm len hdrs2 body" and "length s \<le> IOBUFSZ"
  shows "printer_status jk jid (Piece s # c) = ret (ipp_accepts jid body)"
  by (rule printer_status_one_read [OF assms])

definition sample_body :: string where
  "sample_body = [CHR 0x01, CHR 0x01, CHR 0x00, CHR 0x00, CHR 0x00, CHR 0x00, CHR 0x00, CHR 0x07]"

theorem printer_status_accepts_witness:
  "printer_status (\<lambda>_. CHR ''?'') 7 [Piece (http_response (status_line ''HTTP/1.1'' 200 ''OK'')
     (''Server: CUPS'' @ CRLF) ''Content-length:'' 8 (''Connection: close'' @ CRLF) sample_body)] = ret True"
proof -
  let ?s = "http_response (status_line ''HTTP/1.1'' 200 ''OK'')
     (''Server: CUPS'' @ CRLF) ''Content-length:'' 8 (''Connection: close'' @ CRLF) sample_body"
  have "printer_status (\<lambda>_. CHR ''?'') 7 [Piece ?s] = ret (ipp_accepts 7 sample_body)"
  proof (rule printer_status_accepts [where c = "[]"])
    show "good_line ''HTTP/1.1'' 200 ''OK''" by code_simp
    show "map lower ''Content-length:'' = ''content-length:''" by code_simp
    show "no_clen (''Server: CUPS'' @ CRLF) ''Content-length:''" by code_simp
    show "header_lines (''Connection: close'' @ CRLF)" by code_simp
    show "8 \<le> length sample_body" by code_simp
    show "8 \<le> length sample_body" by code_simp
    show "length ?s \<le> IOBUFSZ" by code_simp
  qed simp_all
  moreover have "ipp_accepts 7 sample_body" by code_simp
  ultimately show ?thesis by simp
qed

definition no_blank :: "string \<Rightarrow> bool" where
  "no_blank t \<longleftrightarrow> (\<forall>k<length t. take 3 (drop k t) \<noteq> [LF, CR, LF])"

text \<open>
  When the first read ends inside the header, anywhere behind the carriage return of the
  \<^verbatim>\<open>Content-Length\<close> line, the parser loops for ever without reading again, whatever the printer sends
  next: the test for "get more header" can never hold there.
\<close>

theorem printer_status_hangs:
  assumes "good_line ver code reason" and "map lower nm = ''content-length:''"
    and "no_clen hdrs nm" and "no_blank t" and "t \<noteq> []"
    and "s = status_line ver code reason @ hdrs @ nm @ '' '' @ dec len @ CR # t" and "length s \<le> IOBUFSZ"
  shows "printer_status jk jid (Piece s # c) = None"
proof -
  let ?rest = "hdrs @ nm @ '' '' @ dec len @ CR # t"
  let ?A = "ver @ '' '' @ dec code @ [nul] @ reason"
  let ?J = "drop (length s) (map jk [0..<IOBUFSZ])"
  define B where "B = ?A @ nul # LF # hdrs @ nm @ '' '' @ dec len @ [nul]"
  have n: "length s = length (B @ t)"
    using assms(6) by (simp add: B_def status_line_def CRLF_eq)
  have fc: "find_clen jk (?A @ nul # LF # hdrs @ nm @ '' '' @ dec len @ CR # t @ ?J) (length s) (length ?A) c =
      ret (Some (B @ t @ ?J, length s, length B, atoi (dec len), c))"
    using find_clen_headers [OF assms(2,3), of CR ?A "length s" jk len "t @ ?J" c] n by (simp add: B_def)
  have g1: "get_more jk (B @ t @ ?J) (length s) (length B) c = Some (B @ t @ ?J, length s, c)"
    using n assms(5) by (simp add: get_more_def)
  have nb: "\<not> blank_at (B @ t @ ?J) k" if k: "length B \<le> k" "k + 2 < length s" for k
  proof -
    from k obtain m where m: "k = length B + m" "m + 2 < length t" using n
      by (auto simp: le_iff_add)
    have "drop k (B @ t @ ?J) = drop m t @ ?J" using m by (simp only: drop_append) simp
    then have "take 3 (drop k (B @ t @ ?J)) = take 3 (drop m t)" using m by (simp only: take_append) simp
    moreover have "take 3 (drop m t) \<noteq> [LF, CR, LF]"
      using assms(4) m(2) unfolding no_blank_def by (metis add_lessD1)
    ultimately show ?thesis using k n by (subst blank_at_take) auto
  qed
  have sc: "scan_end (B @ t @ ?J) (length s) (length B) = ret (False, max (length B) (length s - 2))"
    by (rule scan_end_none) (use n nb in auto)
  have st: "length s \<le> max (length B) (length s - 2) + 2" "max (length B) (length s - 2) < length s"
    using n assms(5) by (auto simp: length_greater_0_conv [symmetric] simp del: length_greater_0_conv)
  have g2: "get_more jk (B @ t @ ?J) (length s) (max (length B) (length s - 2)) c = Some (B @ t @ ?J, length s, c)"
    using st(2) unfolding get_more_def by (subst if_not_P) (simp_all only: not_le)
  have fe: "find_end jk (B @ t @ ?J) (length s) (length B) c = None"
    by (subst find_end.simps) (simp only: sc rbind_simps fst_conv snd_conv g2 option.case if_False find_end_stuck [OF st])
  have "status_ok jk jid (?A @ nul # LF # ?rest @ ?J) (length s) (length ?A) c = None"
    unfolding status_ok_def using fc by (simp add: g1 fe)
  then show ?thesis using status_loop_line [OF assms(1,6,7)] by simp
qed

theorem printer_status_hangs_witness:
  "printer_status (\<lambda>_. CHR ''?'') 7 [Piece (status_line ''HTTP/1.1'' 200 ''OK'' @ [] @ ''Content-Length:'' @ '' '' @ dec 8 @ CR # [LF]),
     Piece (CRLF @ sample_body)] = None"
proof (rule printer_status_hangs)
  show "good_line ''HTTP/1.1'' 200 ''OK''" by code_simp
  show "map lower ''Content-Length:'' = ''content-length:''" by code_simp
  show "no_clen [] ''Content-Length:''" by code_simp
  show "no_blank [LF]" by (simp add: no_blank_def)
  show "length (status_line ''HTTP/1.1'' 200 ''OK'' @ [] @ ''Content-Length:'' @ '' '' @ dec 8 @ CR # [LF]) \<le> IOBUFSZ"
    by (simp add: status_line_def CRLF_eq IOBUFSZ_def dec.simps)
qed simp_all

subsection \<open>A round of the printer thread\<close>

text \<open>The two states agree on the queue, the job nodes and the spool files.\<close>

definition same_jobs :: "pd \<Rightarrow> pd \<Rightarrow> bool" where
  "same_jobs st st' \<longleftrightarrow> jheap st' = jheap st \<and> jobhead st' = jobhead st \<and> jobtail st' = jobtail st \<and>
     datadir st' = datadir st \<and> reqdir st' = reqdir st"

lemma same_jobs_jlist: "same_jobs st st' \<Longrightarrow> jlist st' ps = jlist st ps"
  by (simp add: same_jobs_def jlist_def)

lemma jlist_free: "jlist st ps \<Longrightarrow> p \<notin> set ps \<Longrightarrow> jlist (free_job st p) ps"
proof -
  assume l: "jlist st ps" and p: "p \<notin> set ps"
  have "dls (jnx (jheap (free_job st p))) (jpv (jheap (free_job st p))) 0 ps 0"
    using l p by (subst dls_cong [where nx' = "jnx (jheap st)" and pv' = "jpv (jheap st)"])
      (auto simp: jlist_def jnx_def jpv_def free_job_def)
  then show ?thesis using l p by (auto simp: jlist_def free_job_def)
qed

lemma jval_free [simp]: "q \<noteq> p \<Longrightarrow> jval (jheap (free_job st p)) q = jval (jheap st) q"
  by (simp add: jval_def free_job_def)

lemma free_job_sel [simp]:
  "jheap (free_job st p) p = None" "datadir (free_job st p) = datadir st" "reqdir (free_job st p) = reqdir st"
  by (simp_all add: free_job_def)

lemma setup_same:
  "rbind (update_jobno st f) (\<lambda>st. rbind (if reread st then init_printer (st\<lparr>reread := False\<rparr>) rs cf else ret st) k) = ret r \<Longrightarrow>
     \<exists>st'. same_jobs st st' \<and> k st' = ret r"
proof -
  let ?ip = "\<lambda>st. if reread st then init_printer (st\<lparr>reread := False\<rparr>) rs cf else ret st"
  assume a: "rbind (update_jobno st f) (\<lambda>st. rbind (?ip st) k) = ret r"
  then obtain st1 st2 where u: "update_jobno st f = ret st1" and i: "?ip st1 = ret st2" and k: "k st2 = ret r"
    unfolding rbind_eq_ret by blast
  have "same_jobs st st1" using u by (auto simp: update_jobno_def run_simps same_jobs_def)
  moreover have "same_jobs st1 st2"
    using i by (auto simp: init_printer_def same_jobs_def split: if_splits option.splits)
  ultimately have "same_jobs st st2" by (simp add: same_jobs_def)
  with k show ?thesis by blast
qed

text \<open>How the round can end, for the job at the head \<open>p\<close> with the others \<open>ps\<close> behind it.\<close>

definition job_outcome :: "pd \<Rightarrow> nat \<Rightarrow> nat list \<Rightarrow> outcome \<Rightarrow> pd \<Rightarrow> bool" where
  "job_outcome st p ps oc st' \<longleftrightarrow>
     (let nm = sdec (jobid (the (jheap st p))) in
      (\<forall>q\<in>set ps. jval (jheap st') q = jval (jheap st) q) \<and>
      (case oc of
         NoJob \<Rightarrow> False
       | Canceled \<Rightarrow> jlist st' ps \<and> jheap st' p = None \<and> datadir st' = datadir st \<and> reqdir st' = reqdir st
       | Deferred \<Rightarrow> jlist st' (p # ps) \<and> jval (jheap st') p = jval (jheap st) p \<and>
           datadir st' = datadir st \<and> reqdir st' = reqdir st
       | Printed \<Rightarrow> jlist st' ps \<and> jheap st' p = None \<and>
           datadir st' = (datadir st)(nm := None) \<and> reqdir st' = (reqdir st)(nm := None)))"

text \<open>After the head was taken out: the state \<open>st1\<close> the rest of the round starts in.\<close>

definition taken :: "pd \<Rightarrow> nat \<Rightarrow> nat list \<Rightarrow> pd \<Rightarrow> bool" where
  "taken st p ps st1 \<longleftrightarrow> jlist st1 ps \<and> p \<noteq> 0 \<and> p \<notin> set ps \<and> jheap st1 p \<noteq> None \<and> jval (jheap st1) = jval (jheap st) \<and>
     datadir st1 = datadir st \<and> reqdir st1 = reqdir st"

lemma taken_same: "taken st p ps st1 \<Longrightarrow> same_jobs st1 st2 \<Longrightarrow> taken st p ps st2"
  by (auto simp: taken_def same_jobs_jlist) (auto simp: same_jobs_def)

lemma defer_outcome:
  "taken st p ps st1 \<Longrightarrow> defer_job st1 p out = ret (oc, out', st') \<Longrightarrow> job_outcome st p ps oc st' \<and> oc = Deferred"
proof -
  assume t: "taken st p ps st1" and d: "defer_job st1 p out = ret (oc, out', st')"
  obtain st2 where r: "replace_job st1 p = ret st2" "jlist st2 (p # ps)" "jval (jheap st2) = jval (jheap st1)"
      "st2 = st1\<lparr>jheap := jheap st2, jobhead := p, jobtail := jobtail st2\<rparr>"
    using jlist_replace [of st1 ps p] t by (auto simp: taken_def)
  have "datadir st2 = datadir st1" "reqdir st2 = reqdir st1" by (subst r(4), simp)+
  moreover have "st' = st2" "oc = Deferred" using d r(1) by (auto simp: defer_job_def)
  ultimately show ?thesis using r t by (auto simp: job_outcome_def taken_def Let_def)
qed

lemma print_job_cases:
  assumes "print_job st jp j content ev = ret r"
  shows "(\<exists>out. defer_job st jp out = ret r) \<or>
    (\<exists>out. let nm = sdec (jobid j) in
       r = (Printed, out, free_job (st\<lparr>datadir := (datadir st)(nm := None), reqdir := (reqdir st)(nm := None)\<rparr>) jp))"
proof -
  obtain hb ib where m: "make_headers (jobid j) (req j) (printer_name st) (length content) = ret (hb, ib)"
    using assms by (auto simp: print_job_def run_simps)
  obtain q w where w: "sys_write (hb @ ib) \<lparr>sent = [], script = psock ev\<rparr> = (q, w)" by force
  obtain ok w2 where s: "send_data (fdata ev) w = (ok, w2)" by force
  show ?thesis
    using assms unfolding print_job_def m rbind_simps prod.case w s
    by (auto simp: run_simps Let_def split: wres.splits if_splits)
qed

lemma print_outcome:
  assumes t: "taken st p ps st1" and j: "jobid j = jobid (the (jheap st p))"
    and d: "print_job st1 p j content ev = ret (oc, out, st')"
  shows "job_outcome st p ps oc st' \<and> (oc = Deferred \<or> oc = Printed)"
  using print_job_cases [OF d]
proof (elim disjE exE)
  fix out1
  assume "defer_job st1 p out1 = ret (oc, out, st')"
  then show ?thesis using defer_outcome [OF t] by blast
next
  fix out1
  let ?nm = "sdec (jobid j)"
  let ?st2 = "st1\<lparr>datadir := (datadir st1)(?nm := None), reqdir := (reqdir st1)(?nm := None)\<rparr>"
  assume "let nm = sdec (jobid j) in (oc, out, st') = (Printed, out1, free_job (st1\<lparr>datadir := (datadir st1)(nm := None),
    reqdir := (reqdir st1)(nm := None)\<rparr>) p)"
  then have "oc = Printed \<and> st' = free_job ?st2 p" by (simp add: Let_def)
  moreover have "jlist ?st2 ps" using t by (simp add: taken_def jlist_def)
  moreover have "\<forall>q\<in>set ps. jval (jheap (free_job ?st2 p)) q = jval (jheap st) q"
    using t by (auto simp: taken_def free_job_def) (metis fun_upd_other jval_def)+
  ultimately show ?thesis using t j jlist_free [of ?st2 ps p]
    by (auto simp: job_outcome_def taken_def Let_def)
qed

lemma printer_round_outcome:
  assumes "jlist st (p # ps)" and "printer_round st ev = ret (oc, out, st')"
  shows "job_outcome st p ps oc st'"
proof -
  obtain st1 where r: "remove_job st p = ret st1" "jlist st1 ps" "jval (jheap st1) = jval (jheap st)"
      "dom (jheap st1) = dom (jheap st)" "st1 = st\<lparr>jheap := jheap st1, jobhead := jobhead st1, jobtail := jobtail st1\<rparr>"
    using jlist_remove [of st "[]" p ps] assms(1) by auto
  obtain j where j: "jheap st p = Some j" and h: "jobhead st = p" "p \<noteq> 0" "p \<notin> set ps"
    using assms(1) by (auto simp: jlist_def)
  have fs: "datadir st1 = datadir st" "reqdir st1 = reqdir st" by (subst r(5), simp)+
  have "jheap st1 p \<noteq> None" using r(4) j by auto
  then have t1: "taken st p ps st1" using r h fs by (auto simp: taken_def)
  let ?k = "\<lambda>st. case datadir st (sdec (jobid j)) of
          None \<Rightarrow> ret (Canceled, [], free_job st p)
        | Some content \<Rightarrow>
          if open_fail ev \<or> fstat_fail ev then ret (Canceled, [], free_job st p)
          else if sock_fail ev then defer_job st p []
          else if fst (connect_retry (conn_ok ev)) < 0 then defer_job st p []
          else print_job st p j content ev"
  have "rbind (update_jobno st1 (upd_fail ev)) (\<lambda>st. rbind (if reread st then init_printer (st\<lparr>reread := False\<rparr>)
      (resolver ev) (conf ev) else ret st) ?k) = ret (oc, out, st')"
    using assms(2) r(1) j h by (simp add: printer_round_def Let_def jget_def)
  then obtain st2 where s: "same_jobs st1 st2" and k: "?k st2 = ret (oc, out, st')"
    using setup_same [of st1 "upd_fail ev" "resolver ev" "conf ev" ?k "(oc, out, st')"] by blast
  note t2 = taken_same [OF t1 s]
  have jj: "jobid j = jobid (the (jheap st p))" using j by simp
  have fv: "\<forall>q\<in>set ps. jval (jheap (free_job st2 p)) q = jval (jheap st) q"
    using t2 by (metis jval_free taken_def)
  have c: "job_outcome st p ps Canceled (free_job st2 p)"
    using t2 jlist_free [of st2 ps p] fv by (auto simp: job_outcome_def taken_def Let_def)
  show ?thesis
    using k c defer_outcome [OF t2] print_outcome [OF t2 jj] by (auto split: option.splits if_splits)
qed


text \<open>The file as a channel that delivers it without an error, in any pieces.\<close>

definition no_error :: "chan \<Rightarrow> bool" where
  "no_error c \<longleftrightarrow> (\<forall>x\<in>set c. case x of Fail e \<Rightarrow> False | _ \<Rightarrow> True)"

lemma no_error_read: "no_error c \<Longrightarrow> \<exists>s c'. sys_read n c = (Got s, c') \<and> no_error c'"
proof (induction n c rule: sys_read.induct)
  case (4 n s c)
  then show ?case by (cases "s = []") (auto simp: no_error_def)
qed (auto simp: no_error_def)

lemma send_data_all:
  "no_error c \<Longrightarrow> script w = [] \<Longrightarrow> send_data c w = (True, w\<lparr>sent := sent w @ bytes c\<rparr>)"
proof (induction c arbitrary: w rule: measure_induct_rule [of chan_size])
  case (less c)
  obtain s c1 where s: "sys_read IOBUFSZ c = (Got s, c1)" "no_error c1"
    using no_error_read [OF less.prems(1)] by blast
  show ?case
  proof (cases "s = []")
    case True
    then show ?thesis using s sys_read_eof [of IOBUFSZ c c1] by (subst send_data.simps) simp
  next
    case False
    have "sys_write s w = (Wrote (length s), w\<lparr>sent := sent w @ s\<rparr>)" using less.prems(2) by (simp add: sys_write_def)
    moreover have "bytes c = s @ bytes c1" using sys_read_got [of IOBUFSZ c s c1] s False by simp
    moreover have "chan_size c1 < chan_size c" using sys_read_size [of IOBUFSZ c s c1] s False by simp
    ultimately show ?thesis using less s False by (subst send_data.simps) simp
  qed
qed

definition round_ready :: "pd \<Rightarrow> nat \<Rightarrow> penv \<Rightarrow> bool" where
  "round_ready st p ev \<longleftrightarrow> \<not> upd_fail ev \<and> \<not> reread st \<and> \<not> open_fail ev \<and> \<not> fstat_fail ev \<and> \<not> sock_fail ev \<and>
     fst (connect_retry (conn_ok ev)) = 0 \<and> psock ev = [] \<and> no_error (fdata ev) \<and>
     datadir st (sdec (jobid (the (jheap st p)))) = Some (bytes (fdata ev))"

text \<open>
  C11: with a data file that reads without errors, a printer that takes every byte, and an answer
  that accepts the job, the round sends the HTTP header, the IPP header and exactly the file, and
  ends with the job printed.
\<close>

theorem printer_round_prints:
  assumes "jlist st (p # ps)" and "round_ready st p ev"
    and "make_headers (jobid (the (jheap st p))) (req (the (jheap st p))) (printer_name st) (length (bytes (fdata ev))) = ret (hb, ib)"
    and "printer_status (pjunk ev) (jobid (the (jheap st p))) (presp ev) = ret True"
  shows "\<exists>st'. printer_round st ev = ret (Printed, hb @ ib @ bytes (fdata ev), st') \<and> job_outcome st p ps Printed st'"
proof -
  let ?w = "\<lparr>sent = [], script = psock ev\<rparr>"
  obtain j where j: "jheap st p = Some j" and h: "jobhead st = p" "p \<noteq> 0"
    using assms(1) by (auto simp: jlist_def)
  obtain st1 where r: "remove_job st p = ret st1"
      "st1 = st\<lparr>jheap := jheap st1, jobhead := jobhead st1, jobtail := jobtail st1\<rparr>"
    using jlist_remove [of st "[]" p ps] assms(1) by auto
  have sel: "reread st1 = reread st" "printer_name st1 = printer_name st" "datadir st1 = datadir st" by (subst r(2), simp)+
  note rd = assms(2) [unfolded round_ready_def]
  have w: "sys_write (hb @ ib) ?w = (Wrote (length (hb @ ib)), \<lparr>sent = hb @ ib, script = []\<rparr>)"
    using rd by (simp add: sys_write_def)
  have d: "send_data (fdata ev) \<lparr>sent = hb @ ib, script = []\<rparr> = (True, \<lparr>sent = (hb @ ib) @ bytes (fdata ev), script = []\<rparr>)"
    using send_data_all [of "fdata ev"] rd by simp
  have pj: "\<exists>st'. print_job st2 p j (bytes (fdata ev)) ev = ret (Printed, hb @ ib @ bytes (fdata ev), st')"
    if "printer_name st2 = printer_name st" for st2
    using assms(3,4) j w d that by (simp add: print_job_def Let_def)
  have "\<exists>st'. printer_round st ev = ret (Printed, hb @ ib @ bytes (fdata ev), st')"
    using rd h j r(1) sel pj by (simp add: printer_round_def Let_def jget_def update_jobno_def)
  then show ?thesis using printer_round_outcome [OF assms(1)] by blast
qed

subsection \<open>The request\<close>


lemma length_http_header: "length (http_header pn n) = 84 + 2 * length pn + length (dec n)"
  by (simp add: http_header_def CRLF_def IPP_PORT_def dec.simps)

lemma length_uri: "length (uri_of pn) = 11 + length pn"
  by (simp add: uri_of_def IPP_PORT_def dec.simps)

lemma http_header_fits: "length pn \<le> 52 \<Longrightarrow> n < 10 ^ 19 \<Longrightarrow> length (http_header pn n) \<le> HBUFSZ"
  unfolding length_http_header HBUFSZ_def using length_dec_le [of n 19] by simp

definition ok_names :: "printreq \<Rightarrow> bool" where
  "ok_names r \<longleftrightarrow> wf_req r \<and> nul \<in> set (usernm r) \<and> nul \<in> set (jobnm r)"

lemma length_cstr_lt: "nul \<in> set s \<Longrightarrow> length (cstr s) < length s"
proof -
  assume n: "nul \<in> set s"
  have "length (cstr s) \<le> length s" by (simp add: cstr_def length_takeWhile_le)
  moreover have "length (cstr s) \<noteq> length s"
    using n nul_notin_cstr [of s] unfolding cstr_def by (metis append_eq_conv_conj takeWhile_dropWhile_id take_all order_refl)
  ultimately show ?thesis by simp
qed

text \<open>
  The 512 bytes of \<^verbatim>\<open>ibuf\<close> are enough for every request with terminated names exactly when the
  printer's name has at most 12 characters; with a longer one the longest names a client may send
  overflow it.
\<close>

theorem ibuf_holds_all_requests_iff:
  assumes "length pn \<le> 52" and "fsz < 10 ^ 18"
  shows "(\<forall>r. ok_names r \<longrightarrow> (\<exists>hb ib. make_headers jid r pn fsz = ret (hb, ib))) \<longleftrightarrow> length pn \<le> 12"
proof
  assume a: "\<forall>r. ok_names r \<longrightarrow> (\<exists>hb ib. make_headers jid r pn fsz = ret (hb, ib))"
  let ?r = "\<lparr>rsize = 0, rflags = 0, usernm = replicate 63 (CHR ''u'') @ [nul], jobnm = replicate 255 (CHR ''j'') @ [nul]\<rparr>"
  have "ok_names ?r" by (simp add: ok_names_def wf_req_def USERNM_MAX_def JOBNM_MAX_def)
  then obtain hb ib where "make_headers jid ?r pn fsz = ret (hb, ib)" using a by blast
  then have "length (ipp_header jid ?r pn) \<le> IBUFSZ"
    by (auto simp: make_headers_def run_simps Let_def)
  moreover have "cstr (replicate 63 (CHR ''u'') @ [nul]) = replicate 63 (CHR ''u'')"
    "cstr (replicate 255 (CHR ''j'') @ [nul]) = replicate 255 (CHR ''j'')"
    by (rule cstr_append_nul; simp add: nul_def)+
  ultimately show "length pn \<le> 12" by (simp add: length_ipp_header length_uri IBUFSZ_def)
next
  assume pn: "length pn \<le> 12"
  show "\<forall>r. ok_names r \<longrightarrow> (\<exists>hb ib. make_headers jid r pn fsz = ret (hb, ib))"
  proof (intro allI impI)
    fix r assume r: "ok_names r"
    then have "length (cstr (usernm r)) < 64" "length (cstr (jobnm r)) < 256"
      using length_cstr_lt [of "usernm r"] length_cstr_lt [of "jobnm r"]
      by (simp_all add: ok_names_def wf_req_def USERNM_MAX_def JOBNM_MAX_def)
    then have ib: "length (ipp_header jid r pn) \<le> IBUFSZ"
      using pn by (simp add: length_ipp_header length_uri IBUFSZ_def)
    have "fsz + length (ipp_header jid r pn) < 10 ^ 19" using ib assms(2) by (simp add: IBUFSZ_def)
    then show "\<exists>hb ib. make_headers jid r pn fsz = ret (hb, ib)"
      using r ib http_header_fits assms(1) pn
      by (simp add: make_headers_def Let_def ok_names_def length_uri)
  qed
qed

lemma sample_headers: "\<exists>hb ib. make_headers 7 sample_req ''lp'' 5 = ret (hb, ib)"
proof -
  have c: "cstr (replicate 64 nul) = []" "cstr (replicate 256 nul) = []" by (simp_all add: cstr_def)
  have "length (ipp_header 7 sample_req ''lp'') = 184"
    by (simp add: length_ipp_header length_uri sample_req_def c)
  then show ?thesis
    using http_header_fits [of "''lp''" 189]
    by (simp add: make_headers_def Let_def sample_req_def length_uri IBUFSZ_def)
qed


theorem ibuf_holds_all_requests_iff_witness:
  "\<not> (\<forall>r. ok_names r \<longrightarrow> (\<exists>hb ib. make_headers 1 r ''laser.example.com'' 0 = ret (hb, ib)))"
  using ibuf_holds_all_requests_iff [of "''laser.example.com''" 0 1] by simp

subsection \<open>The configuration file\<close>

definition cfg_word :: "string \<Rightarrow> bool" where
  "cfg_word w \<longleftrightarrow> w \<noteq> [] \<and> nul \<notin> set w \<and> (\<forall>c\<in>set w. \<not> is_space c)"

definition cfg_line :: "string \<times> string \<Rightarrow> string" where
  "cfg_line = (\<lambda>(k, v). k @ '' '' @ v @ [newline])"

definition cfg_ok :: "string \<times> string \<Rightarrow> bool" where
  "cfg_ok = (\<lambda>(k, v). cfg_word k \<and> cfg_word v \<and> length k < MAXKWLEN \<and> length (cfg_line (k, v)) < MAXCFGLINE)"

lemma is_space_newline [simp]: "is_space newline"
  by (simp add: is_space_def newline_def)

lemma cfg_word_newline: "cfg_word w \<Longrightarrow> newline \<notin> set w"
  by (auto simp: cfg_word_def)

lemma scan_word_stop:
  assumes "cfg_word w" and "is_space y" and "length w \<le> n"
  shows "scan_word n (w @ y # r) = (w, y # r)" "scan_word n ('' '' @ w @ y # r) = (w, y # r)"
proof -
  obtain c w' where w: "w = c # w'" "\<not> is_space c" using assms(1) by (cases w) (auto simp: cfg_word_def)
  have d: "dropWhile is_space (w @ y # r) = w @ y # r" "dropWhile is_space ('' '' @ w @ y # r) = w @ y # r"
    using w by simp_all
  have t: "takeWhile (\<lambda>c. \<not> is_space c) (w @ y # r) = w"
    by (rule takeWhile_append_stop) (use assms in \<open>auto simp: cfg_word_def\<close>)
  show "scan_word n (w @ y # r) = (w, y # r)" "scan_word n ('' '' @ w @ y # r) = (w, y # r)"
    unfolding scan_word_def Let_def d t using assms(3) by simp_all
qed

lemma scan_line_cfg: "cfg_ok (k, v) \<Longrightarrow> scan_line (cfg_line (k, v)) = Some (k, v)"
proof -
  assume ok: "cfg_ok (k, v)"
  then have w: "cfg_word k" "cfg_word v" "length k \<le> MAXKWLEN - 1" "length v \<le> MAXCFGLINE - 1"
    by (auto simp: cfg_ok_def cfg_line_def MAXKWLEN_def MAXCFGLINE_def)
  have "nul \<notin> set (cfg_line (k, v))" using w by (auto simp: cfg_line_def cfg_word_def nul_def newline_def)
  then have c: "cstr (cfg_line (k, v)) = k @ CHR '' '' # v @ [newline]" by (simp add: cfg_line_def)
  have "k \<noteq> []" "v \<noteq> []" using w by (auto simp: cfg_word_def)
  then show ?thesis
    using scan_word_stop(1) [OF w(1) _ w(3), of "CHR '' ''" "v @ [newline]"] scan_word_stop(2) [OF w(2) _ w(4), of newline "[]"]
    by (simp add: scan_line_def c)
qed

text \<open>
  Looking a keyword up in a configuration file of well-formed lines is looking it up in the
  association list of its lines: the first line with that keyword wins, and a missing one gives NULL.
\<close>

theorem config_file_lookup:
  assumes "\<forall>kv\<in>set kvs. cfg_ok kv"
  shows "scan_configfile kw (concat (map cfg_line kvs)) = map_of kvs kw"
  using assms
proof (induction kvs)
  case Nil
  then show ?case by (subst scan_configfile.simps) simp
next
  case (Cons kv kvs)
  obtain k v where kv: "kv = (k, v)" by force
  then have ok: "cfg_ok (k, v)" using Cons.prems by simp
  let ?l = "k @ '' '' @ v"
  have nl: "newline \<notin> set ?l" and ln: "length ?l < MAXCFGLINE - 1"
    using ok cfg_word_newline by (auto simp: cfg_ok_def cfg_line_def newline_def)
  have "fgets (MAXCFGLINE - 1) (?l @ newline # concat (map cfg_line kvs)) = (?l @ [newline], concat (map cfg_line kvs))"
    by (rule fgets_line [OF nl ln])
  moreover have "cfg_line (k, v) = ?l @ [newline]" by (simp add: cfg_line_def)
  ultimately have f: "fgets (MAXCFGLINE - 1) (cfg_line (k, v) @ concat (map cfg_line kvs)) = (cfg_line (k, v), concat (map cfg_line kvs))"
    by simp
  have ne: "cfg_line (k, v) @ concat (map cfg_line kvs) \<noteq> []" by (simp add: cfg_line_def)
  have "scan_configfile kw (concat (map cfg_line kvs)) = map_of kvs kw" using Cons by simp
  then show ?case
    unfolding kv list.map(2) concat.simps
    by (subst scan_configfile.simps)
      (simp only: ne if_False f prod.case scan_line_cfg [OF ok] option.case map_of.simps fst_conv snd_conv fun_upd_apply, simp)
qed

theorem config_file_lookup_witness:
  "scan_configfile ''printer'' (concat (map cfg_line [(''printserver'', ''host1''), (''printer'', ''lp1''), (''printer'', ''lp2'')])) = Some ''lp1''"
proof -
  have "\<forall>kv\<in>set [(''printserver'', ''host1''), (''printer'', ''lp1''), (''printer'', ''lp2'')]. cfg_ok kv"
    by code_simp
  from config_file_lookup [OF this] show ?thesis by simp
qed

definition pr_state :: pd where
  "pr_state = pd_init\<lparr>jheap := [16 \<mapsto> \<lparr>jnext = 24, jprev = 0, jobid = 7, req = sample_req\<rparr>,
     24 \<mapsto> \<lparr>jnext = 0, jprev = 16, jobid = 8, req = sample_req\<rparr>], jobhead := 16, jobtail := 24,
     datadir := [''7'' \<mapsto> ''hello'', ''8'' \<mapsto> ''x''], reqdir := [''7'' \<mapsto> enc_req sample_req], printer_name := ''lp''\<rparr>"

definition pr_env :: "bool \<Rightarrow> penv" where
  "pr_env nosock = \<lparr>upd_fail = False, conf = [], resolver = (\<lambda>_. None), open_fail = False, fstat_fail = False,
     sock_fail = nosock, conn_ok = (\<lambda>_. True), fdata = [Piece ''he'', Piece ''llo''], psock = [],
     presp = [Piece (http_response (status_line ''HTTP/1.1'' 200 ''OK'') [] ''Content-length:'' 8 [] sample_body)],
     pjunk = (\<lambda>_. nul)\<rparr>"

lemma pr_state_jlist: "jlist pr_state [16, 24]"
  by (simp add: jlist_def pr_state_def jnx_def jpv_def)


theorem printer_round_prints_witness:
  "\<exists>hb ib st'. printer_round pr_state (pr_env False) = ret (Printed, hb @ ib @ ''hello'', st') \<and> job_outcome pr_state 16 [24] Printed st'"
proof -
  have s: "sdec 7 = ''7''" by code_simp
  have j: "the (jheap pr_state 16) = \<lparr>jnext = 24, jprev = 0, jobid = 7, req = sample_req\<rparr>" by (simp add: pr_state_def)
  have cr: "fst (connect_retry (\<lambda>_. True)) = 0"
    unfolding connect_retry_def by (subst connect_loop.simps) (simp add: MAXSLEEP_def)
  have rr: "round_ready pr_state 16 (pr_env False)"
    by (simp add: round_ready_def pr_env_def pr_state_def pd_init_def no_error_def s cr)
  obtain hb ib where mh: "make_headers 7 sample_req ''lp'' 5 = ret (hb, ib)" using sample_headers by blast
  have st: "printer_status (\<lambda>_. nul) 7 (presp (pr_env False)) = ret True"
  proof -
    have "printer_status (\<lambda>_. nul) 7 [Piece (http_response (status_line ''HTTP/1.1'' 200 ''OK'') [] ''Content-length:'' 8 [] sample_body)] =
        ret (ipp_accepts 7 sample_body)"
    proof (rule printer_status_one_read)
      show "good_line ''HTTP/1.1'' 200 ''OK''" by code_simp
      show "map lower ''Content-length:'' = ''content-length:''" by code_simp
      show "no_clen [] ''Content-length:''" by (simp add: no_clen_def)
      show "header_lines []" by (simp add: header_lines_def)
      show "8 \<le> length sample_body" by code_simp
      show "8 \<le> length sample_body" by code_simp
      show "length (http_response (status_line ''HTTP/1.1'' 200 ''OK'') [] ''Content-length:'' 8 [] sample_body) \<le> IOBUFSZ" by code_simp
    qed simp_all
    moreover have "ipp_accepts 7 sample_body" by code_simp
    ultimately show ?thesis by (simp add: pr_env_def)
  qed
  have b5: "length (bytes (fdata (pr_env False))) = 5" and pe: "pjunk (pr_env False) = (\<lambda>_. nul)"
    and pn: "printer_name pr_state = ''lp''" by (simp_all add: pr_env_def pr_state_def)
  have "\<exists>st'. printer_round pr_state (pr_env False) = ret (Printed, hb @ ib @ bytes (fdata (pr_env False)), st') \<and>
      job_outcome pr_state 16 [24] Printed st'"
    by (rule printer_round_prints [OF pr_state_jlist rr]) (simp_all add: j b5 pn pe mh st)
  then show ?thesis by (auto simp: pr_env_def)
qed

end
