(* ===== verification/PrintCommand.thy ===== *)
theory PrintCommand
  imports PrinterModel PrintClient
begin

section \<open>The print command: its command line and the choice of the server address\<close>

text \<open>
  \<^verbatim>\<open>main\<close> of \<^verbatim>\<open>ipp/print.c\<close>: the options, the file, the print server named in the configuration file
  and the addresses it resolves to, tried in order.  \<open>getopt\<close> is the standard one, which stops at the
  first argument that is not an option.
\<close>

definition get_printserver :: "string \<Rightarrow> string option" where
  "get_printserver cf = scan_configfile ''printserver'' cf"

text \<open>The loop over \<^verbatim>\<open>getopt(argc, argv, "t")\<close>: \<open>(text, err, optind)\<close>.\<close>

definition getopt_t :: "string list \<Rightarrow> bool \<times> bool \<times> nat" where
  "getopt_t argv = (case getopt (\<lambda>c. if c = CHR ''t'' then 1 else 0) [] (tl argv) of (os, rest) \<Rightarrow>
     (Opt (CHR ''t'') None \<in> set os, list_ex (\<lambda>x. case x of BadOpt c \<Rightarrow> True | Opt c a \<Rightarrow> False) os, length argv - length rest))"

text \<open>A file as \<^verbatim>\<open>main\<close> finds it: whether it opens, \<^verbatim>\<open>fstat\<close>, its type, its size and its bytes.\<close>

record pfile =
  pf_stat_ok :: bool
  pf_regular :: bool
  pf_size :: nat
  pf_data :: chan

text \<open>One address of the print server: whether a socket can be made and when \<^verbatim>\<open>connect\<close> succeeds.\<close>

type_synonym paddr = "bool \<times> (nat \<Rightarrow> bool)"

definition addr_ok :: "paddr \<Rightarrow> bool" where
  "addr_ok = (\<lambda>(sock, conn). sock \<and> fst (connect_retry conn) \<ge> 0)"

text \<open>
  \<open>files\<close> is the file system, \<open>cf\<close> the configuration file, \<open>resolve\<close> stands for \<^verbatim>\<open>getaddrinfo\<close>; the
  four last arguments are those of \<open>submit_file\<close>.  The result is the exit status and the output (to
  which \<^verbatim>\<open>err_ret\<close> adds the text of \<^verbatim>\<open>errno\<close>).
\<close>

definition print_main ::
    "string list \<Rightarrow> (string \<Rightarrow> pfile option) \<Rightarrow> string \<Rightarrow> (string \<Rightarrow> paddr list option) \<Rightarrow>
     string option \<Rightarrow> string \<Rightarrow> wchan \<Rightarrow> chan \<Rightarrow> (nat \<times> string) run" where
  "print_main argv files cf resolve pwd jk out rc =
     (case getopt_t argv of (txt, err, optind) \<Rightarrow>
      if err \<or> Suc optind \<noteq> length argv then die (ErrQuit ''usage: print [-t] filename'')
      else case files (argv ! optind) of
        None \<Rightarrow> die (ErrSys ''print: can't open %s'')
      | Some f \<Rightarrow>
        if \<not> pf_stat_ok f then die (ErrSys ''print: can't stat %s'')
        else if \<not> pf_regular f then die (ErrQuit ''print: %s must be a regular file'')
        else case get_printserver cf of
          None \<Rightarrow> die (ErrQuit ''print: no print server defined'')
        | Some host \<Rightarrow>
          (case resolve host of
             None \<Rightarrow> die (ErrQuit ''print: getaddrinfo error: %s'')
           | Some ailist \<Rightarrow>
             if \<exists>a\<in>set ailist. addr_ok a
             then submit_file pwd (argv ! 1) (pf_size f) txt jk (pf_data f) out rc
             else ret (1, ''print: can't contact '' @ host)))"

text \<open>
  With the option \<^verbatim>\<open>-t\<close> the command sends the right file, but the job is named \<^verbatim>\<open>-t\<close>: the name
  handed to \<^verbatim>\<open>submit_file\<close> is the first argument, not the file operand.  Without the option it is the
  file's name.
\<close>

theorem print_option_becomes_job_name:
  assumes "files f = Some fl" and "pf_stat_ok fl" and "pf_regular fl" and "\<not> (\<exists>r. f = CHR ''-'' # r)"
    and "get_printserver cf = Some host" and "resolve host = Some addrs" and "\<exists>a\<in>set addrs. addr_ok a"
  shows "print_main [prog, ''-t'', f] files cf resolve pwd jk out rc =
      submit_file pwd ''-t'' (pf_size fl) True jk (pf_data fl) out rc \<and>
    print_main [prog, f] files cf resolve pwd jk out rc =
      submit_file pwd f (pf_size fl) False jk (pf_data fl) out rc"
proof -
  have f: "length f < 2 \<or> hd f \<noteq> CHR ''-''" using assms(4) by (cases f) auto
  have f2: "f \<noteq> ''--''" using assms(4) by auto
  have g1: "getopt_t [prog, ''-t'', f] = (True, False, 2)" and g2: "getopt_t [prog, f] = (False, False, 1)"
    using f f2 by (simp_all add: getopt_t_def)
  show ?thesis using assms g1 g2 by (simp add: print_main_def)
qed

theorem print_option_becomes_job_name_witness:
  "\<exists>fl cf addrs. (\<forall>pwd jk out rc.
     print_main [''print'', ''-t'', ''notes''] [''notes'' \<mapsto> fl] cf (\<lambda>_. Some addrs) pwd jk out rc =
       submit_file pwd ''-t'' 4 True jk [Piece ''text''] out rc)"
proof -
  let ?fl = "\<lparr>pf_stat_ok = True, pf_regular = True, pf_size = 4, pf_data = [Piece ''text'']\<rparr>"
  let ?cf = "''printserver host'' @ [newline]"
  have "scan_configfile ''printserver'' ?cf = Some ''host''"
    by (subst scan_configfile.simps) code_simp
  then have s: "get_printserver ?cf = Some ''host''" by (simp add: get_printserver_def)
  have a: "addr_ok (True, \<lambda>_. True)"
    unfolding addr_ok_def connect_retry_def by (subst connect_loop.simps) (simp add: MAXSLEEP_def)
  have "print_main [''print'', ''-t'', ''notes''] [''notes'' \<mapsto> ?fl] ?cf (\<lambda>_. Some [(True, \<lambda>_. True)]) pwd jk out rc =
       submit_file pwd ''-t'' 4 True jk [Piece ''text''] out rc" for pwd jk out rc
    using print_option_becomes_job_name [of "[''notes'' \<mapsto> ?fl]" "''notes''" ?fl ?cf "''host''" "\<lambda>_. Some [(True, \<lambda>_. True)]"
      "[(True, \<lambda>_. True)]"] s a by simp
  then show ?thesis by blast
qed

end
