(* ===== verification/CalldFiles.thy ===== *)
theory CalldFiles
  imports CText
begin

section \<open>The modem daemon \<^verbatim>\<open>calld/\<close>: arguments and configuration files\<close>

text \<open>
  \<^verbatim>\<open>lib/bufargs.c\<close> and \<^verbatim>\<open>calld/cliargs.c\<close> take a client's request apart; \<^verbatim>\<open>sysfile.c\<close>, \<^verbatim>\<open>devfile.c\<close> and
  \<^verbatim>\<open>dialfile.c\<close> read the \<^verbatim>\<open>Systems\<close>, \<^verbatim>\<open>Devices\<close> and \<^verbatim>\<open>Dialers\<close> files.  The three readers have one shape,
  \<open>table_next\<close>, over their own line parser; the position in a file is the text that is left.  A file
  is \<open>None\<close> when it cannot be opened.  The line numbers in error messages are left out.
\<close>

definition MAXLINE :: nat where "MAXLINE = 4096"
definition MAXARGC :: nat where "MAXARGC = 50"
definition MAXSYSNAME :: nat where "MAXSYSNAME = 256"
definition MAXSPEEDSTR :: nat where "MAXSPEEDSTR = 256"
definition NALLOC :: nat where "NALLOC = 10"
definition CL_CALL :: string where "CL_CALL = ''call''"

text \<open>The quote of the messages, and \<^verbatim>\<open>WHITE\<close>, the separators.\<close>

definition sq :: char where "sq = CHR 0x27"

definition white :: "char \<Rightarrow> bool" where
  "white c \<longleftrightarrow> c = CHR '' '' \<or> c = CHR 0x09 \<or> c = newline"

subsection \<open>Splitting a request into arguments\<close>

lemma strtok_shorter: "strtok del s = Some (t, r) \<Longrightarrow> length r < length s"
proof -
  assume a: "strtok del s = Some (t, r)"
  let ?d = "dropWhile del s"
  from a have d: "?d \<noteq> []" and r: "r = drop 1 (dropWhile (\<lambda>c. \<not> del c) ?d)"
    by (auto simp: strtok_def Let_def split: if_splits)
  have "\<not> del (hd ?d)" using d by (rule hd_dropWhile)
  then have "length (dropWhile (\<lambda>c. \<not> del c) ?d) < length ?d"
    using d by (cases ?d) (auto simp: length_dropWhile_le le_imp_less_Suc)
  then show ?thesis using r length_dropWhile_le [of del s] by (simp add: less_imp_diff_less less_le_trans)
qed

text \<open>The loop of \<^verbatim>\<open>buf_args\<close>: \<open>argc\<close> is its value before the increment.\<close>

function buf_args_loop :: "nat \<Rightarrow> string list \<Rightarrow> string \<Rightarrow> string list option" where
  "buf_args_loop argc argv s = (case strtok white s of
       None \<Rightarrow> Some argv
     | Some (p, r) \<Rightarrow> if Suc argc \<ge> MAXARGC - 1 then None else buf_args_loop (Suc argc) (argv @ [p]) r)"
  by pat_completeness auto
termination
  by (relation "measure (\<lambda>(argc, argv, s). length s)") (auto dest: strtok_shorter)

declare buf_args_loop.simps [simp del]

text \<open>
  \<^verbatim>\<open>argv[0]\<close> is the start of the buffer, with the white space in front of the first token.  The
  result is \<open>argv\<close>, \<open>None\<close> for -1; the caller's function is applied to it by the caller of \<open>buf_args\<close>.
\<close>

definition buf_args :: "string \<Rightarrow> string list option" where
  "buf_args buf = (case strtok white (cstr buf) of
       None \<Rightarrow> None
     | Some (p, r) \<Rightarrow> buf_args_loop 0 [takeWhile white (cstr buf) @ p] r)"

datatype parity = NONE | EVEN | ODD

record callopts =
  oDebug :: bool
  oparity :: parity
  ospeed :: "string option"
  osysname :: string

fun set_opts :: "gopt list \<Rightarrow> callopts \<Rightarrow> string + callopts" where
  "set_opts [] g = Inr g"
| "set_opts (BadOpt c # os) g = Inl (''unrecognized option: -'' @ [c, newline])"
| "set_opts (Opt c a # os) g = set_opts os
     (if c = CHR ''d'' then g\<lparr>oDebug := True\<rparr>
      else if c = CHR ''e'' then g\<lparr>oparity := EVEN\<rparr>
      else if c = CHR ''o'' then g\<lparr>oparity := ODD\<rparr>
      else g\<lparr>ospeed := a\<rparr>)"

definition call_kind :: "char \<Rightarrow> nat" where
  "call_kind c = (if c = CHR ''s'' then 2 else if c \<in> set ''deo'' then 1 else 0)"

text \<open>\<open>Inl\<close>: -1 with the text in \<^verbatim>\<open>errmsg\<close>.\<close>

definition cli_args :: "string list \<Rightarrow> string + callopts" where
  "cli_args argv =
     (if length argv < 2 \<or> hd argv \<noteq> CL_CALL then Inl ''usage: call <options> <hostname>''
      else case getopt call_kind [] (tl argv) of (os, rest) \<Rightarrow>
        (case set_opts os \<lparr>oDebug = False, oparity = NONE, ospeed = None, osysname = []\<rparr> of
           Inl e \<Rightarrow> Inl e
         | Inr g \<Rightarrow> (case rest of [] \<Rightarrow> Inl (''missing <hostname> to call'' @ [newline])
                                | h # _ \<Rightarrow> Inr (g\<lparr>osysname := h\<rparr>))))"

subsection \<open>The three files\<close>

record systems =
  s_name :: string
  s_time :: string
  s_type :: string
  s_class :: string
  s_phone :: string
  s_login :: string

record devices =
  d_type :: string
  d_line :: string
  d_line2 :: string
  d_class :: string
  d_dialer :: string

record dialers =
  x_dialer :: string
  x_sub :: string
  x_expsend :: string

text \<open>The first token of a line: \<open>None\<close> for a line to skip, else the token and the rest.\<close>

definition first_tok :: "string \<Rightarrow> string \<Rightarrow> (string \<times> string) option run" where
  "first_tok what l = (case strtok white l of
       None \<Rightarrow> if l \<noteq> [] \<and> hd l = newline then ret None else die (LogQuit what)
     | Some (t, r) \<Rightarrow> if hd t = CHR ''#'' then ret None else ret (Some (t, r)))"

definition next_tok :: "string \<Rightarrow> (char \<Rightarrow> bool) \<Rightarrow> string \<Rightarrow> (string \<times> string) run" where
  "next_tok what del r = (case strtok del r of None \<Rightarrow> die (LogQuit what) | Some x \<Rightarrow> ret x)"

definition sys_line :: "string \<Rightarrow> systems option run" where
  "sys_line l = rbind (first_tok ''missing `name' in Systems file, line %d'' l) (\<lambda>f.
     case f of None \<Rightarrow> ret None | Some (name, r) \<Rightarrow>
     rbind (next_tok ''missing `time' in Systems file, line %d'' white r) (\<lambda>(time, r).
     rbind (next_tok ''missing `type' in Systems file, line %d'' white r) (\<lambda>(type, r).
     rbind (next_tok ''missing `class' in Systems file, line %d'' white r) (\<lambda>(class, r).
     rbind (next_tok ''missing `phone' in Systems file, line %d'' white r) (\<lambda>(phone, r).
     rbind (next_tok ''missing `login' in Systems file, line %d'' (\<lambda>c. c = newline) r) (\<lambda>(login, r).
     ret (Some \<lparr>s_name = name, s_time = time, s_type = type, s_class = class, s_phone = phone, s_login = login\<rparr>)))))))"

definition dev_line :: "string \<Rightarrow> devices option run" where
  "dev_line l = rbind (first_tok ''missing `type' in Devices file, line %d'' l) (\<lambda>f.
     case f of None \<Rightarrow> ret None | Some (type, r) \<Rightarrow>
     rbind (next_tok ''missing `line' in Devices file, line %d'' white r) (\<lambda>(line, r).
     rbind (next_tok ''missing `line2' in Devices file, line %d'' white r) (\<lambda>(line2, r).
     rbind (next_tok ''missing `class' in Devices file, line %d'' white r) (\<lambda>(class, r).
     rbind (next_tok ''missing `dialer' in Devices file, line %d'' white r) (\<lambda>(dialer, r).
     ret (Some \<lparr>d_type = type, d_line = line, d_line2 = line2, d_class = class, d_dialer = dialer\<rparr>))))))"

definition dial_line :: "string \<Rightarrow> dialers option run" where
  "dial_line l = rbind (first_tok ''missing `dialer' in Dialers file, line %d'' l) (\<lambda>f.
     case f of None \<Rightarrow> ret None | Some (dialer, r) \<Rightarrow>
     rbind (next_tok ''missing `sub' in Dialers file, line %d'' white r) (\<lambda>(sub, r).
     rbind (next_tok ''missing `expsend' in Dialers file, line %d'' (\<lambda>c. c = newline) r) (\<lambda>(expsend, r).
     ret (Some \<lparr>x_dialer = dialer, x_sub = sub, x_expsend = expsend\<rparr>))))"

text \<open>Read lines up to the next entry: \<open>None\<close> at the end of the file.\<close>

function table_next :: "(string \<Rightarrow> 'a option run) \<Rightarrow> string \<Rightarrow> ('a \<times> string) option run" where
  "table_next pl s =
     (if s = [] then ret None
      else case fgets (MAXLINE - 1) s of (l, r) \<Rightarrow>
        rbind (pl (cstr l)) (\<lambda>x. case x of None \<Rightarrow> table_next pl r | Some e \<Rightarrow> ret (Some (e, r))))"
  by pat_completeness auto
termination
  by (relation "measure (\<lambda>(pl, s). length s)") (auto dest: fgets_shorter simp: MAXLINE_def)

declare table_next.simps [simp del]

lemma table_next_shorter: "table_next pl s = ret (Some (e, r)) \<Longrightarrow> length r < length s"
proof (induction pl s rule: table_next.induct)
  case (1 pl s)
  obtain l r1 where f: "fgets (MAXLINE - 1) s = (l, r1)" by force
  have s: "s \<noteq> []" using "1.prems" by (subst (asm) table_next.simps) (auto split: if_splits)
  have lt: "length r1 < length s" using fgets_shorter [OF f [symmetric] s] by (simp add: MAXLINE_def)
  obtain x where x: "pl (cstr l) = ret x" "(case x of None \<Rightarrow> table_next pl r1 | Some e \<Rightarrow> ret (Some (e, r1))) = ret (Some (e, r))"
    using "1.prems" s f by (subst (asm) table_next.simps) (auto simp: run_simps)
  then show ?case using "1.IH" [OF s f [symmetric] x(1)] lt by (cases x) auto
qed

definition open_table :: "string option \<Rightarrow> string \<Rightarrow> string run" where
  "open_table file msg = (case file of None \<Rightarrow> die (LogSys msg) | Some t \<Rightarrow> ret t)"

text \<open>\<^verbatim>\<open>sys_next\<close> at position \<open>pos\<close>: the entry and the new position, \<open>None\<close> for -1.\<close>

definition sys_next :: "string option \<Rightarrow> nat \<Rightarrow> (systems \<times> nat) option run" where
  "sys_next file pos = rbind (open_table file ''can't open ./Systems'') (\<lambda>t.
     rbind (table_next sys_line (drop pos t)) (\<lambda>x.
     ret (map_option (\<lambda>(e, r). (e, length t - length r)) x)))"

text \<open>\<^verbatim>\<open>sys_posn\<close>: 0 rewinds, a negative offset makes \<^verbatim>\<open>fseek\<close> fail.\<close>

definition sys_posn :: "int \<Rightarrow> nat run" where
  "sys_posn posn = (if posn < 0 then die (LogSys ''fseek error'') else ret (nat posn))"

definition dev_next :: "string \<Rightarrow> (devices \<times> string) option run" where
  "dev_next r = table_next dev_line r"

definition dial_next :: "string \<Rightarrow> (dialers \<times> string) option run" where
  "dial_next r = table_next dial_line r"

function dev_find_loop :: "systems \<Rightarrow> string \<Rightarrow> (string + devices) run" where
  "dev_find_loop sys r = rbind (dev_next r) (\<lambda>x. case x of
       None \<Rightarrow> ret (Inl (''device `'' @ s_type sys @ [sq] @ ''/`'' @ s_class sys @ [sq] @ '' not found'' @ [newline]))
     | Some (d, r') \<Rightarrow> if s_type sys = d_type d \<and> s_class sys = d_class d then ret (Inr d) else dev_find_loop sys r')"
  by pat_completeness auto
termination
  by (relation "measure (\<lambda>(sys, r). length r)") (auto dest: table_next_shorter simp: dev_next_def)

declare dev_find_loop.simps [simp del]

text \<open>\<^verbatim>\<open>dev_find\<close>: from the start of the file; \<open>Inl\<close> is -1 with the error message.\<close>

definition dev_find :: "string option \<Rightarrow> systems \<Rightarrow> (string + devices) run" where
  "dev_find file sys = rbind (open_table file ''can't open ./Devices'') (\<lambda>t. dev_find_loop sys t)"

text \<open>At the end of the file the message of \<^verbatim>\<open>dial_find\<close> names the last dialer read, \<open>lst\<close> (here: comment lines aside).\<close>

function dial_find_loop :: "string \<Rightarrow> string \<Rightarrow> string \<Rightarrow> (string + dialers) run" where
  "dial_find_loop lst dialer r = rbind (dial_next r) (\<lambda>x. case x of
       None \<Rightarrow> ret (Inl (''dialer `'' @ lst @ [sq] @ '' not found'' @ [newline]))
     | Some (d, r') \<Rightarrow> if x_dialer d = dialer then ret (Inr d) else dial_find_loop (x_dialer d) dialer r')"
  by pat_completeness auto
termination
  by (relation "measure (\<lambda>(lst, dialer, r). length r)") (auto dest: table_next_shorter simp: dial_next_def)

declare dial_find_loop.simps [simp del]

definition dial_find :: "string option \<Rightarrow> devices \<Rightarrow> (string + dialers) run" where
  "dial_find file dev = rbind (open_table file ''can't open ./Dialers'') (\<lambda>t. dial_find_loop ''(null)'' (d_dialer dev) t)"

end
