(* ===== verification/CalldModel.thy ===== *)
theory CalldModel
  imports CalldFiles
begin

section \<open>The modem daemon \<^verbatim>\<open>calld/\<close>: locks, clients and the server loop\<close>

text \<open>
  \<^verbatim>\<open>lock.c\<close>, \<^verbatim>\<open>client.c\<close>, \<^verbatim>\<open>request.c\<close>, \<^verbatim>\<open>sigchld.c\<close> and \<^verbatim>\<open>loop.c\<close>.  The record \<open>calld\<close> is the daemon's
  global state; \<open>children\<close> logs what every forked child is to dial, \<open>answers\<close> the errors sent
  to clients and \<open>closedfds\<close> the descriptors closed.  Debugging output and log messages are left out.
  Signals are delivered while \<^verbatim>\<open>select\<close> waits, where the daemon spends its time; then \<^verbatim>\<open>child_done\<close> finds
  \<^verbatim>\<open>chld_flag\<close> clear at its end, and one pass of it is enough.
\<close>

record client =
  cfd :: int
  cpid :: int
  cuid :: int
  childdone :: int
  sysftell :: int
  foundone :: int
  cDebug :: bool
  cparity :: parity
  cspeed :: string
  csysname :: string

record lktab =
  lents :: "(string \<times> int) list"   \<comment> \<open>\<^verbatim>\<open>lock[0..nlocks-1]\<close>: line and pid\<close>
  lsize :: nat

record child =
  chpid :: int
  chfd :: int
  chsys :: systems
  chdev :: devices

record calld =
  clients :: "client list"   \<comment> \<open>\<^verbatim>\<open>client[0..client_size-1]\<close>\<close>
  lock :: lktab
  allset :: "int set"
  listenfd :: int
  maxi :: int
  chld_flag :: bool
  errmsg :: string
  gopts :: callopts
  pids :: "int list"   \<comment> \<open>what the next calls of \<^verbatim>\<open>fork\<close> return in the parent\<close>
  children :: "child list"
  answers :: "(int \<times> string) list"
  closedfds :: "int list"

text \<open>What the daemon runs in: its files, the descriptors on which a write fails, fresh memory.\<close>

record cdenv =
  sysfile :: "string option"
  devfile :: "string option"
  dialfile :: "string option"
  badfd :: "int \<Rightarrow> bool"
  junkc :: "nat \<Rightarrow> client"

subsection \<open>Device locks\<close>

fun line_index :: "string \<Rightarrow> (string \<times> int) list \<Rightarrow> nat option" where
  "line_index line [] = None"
| "line_index line (e # es) = (if fst e = line then Some 0 else map_option Suc (line_index line es))"

text \<open>\<^verbatim>\<open>find_line\<close>: the index of the entry, which is added when it is missing.\<close>

definition find_line :: "lktab \<Rightarrow> string \<Rightarrow> nat \<times> lktab" where
  "find_line lk line = (case line_index line (lents lk) of
       Some i \<Rightarrow> (i, lk)
     | None \<Rightarrow>
       let n = length (lents lk);
           lk = (if lsize lk \<le> n then lk\<lparr>lsize := lsize lk + NALLOC\<rparr> else lk) in
       (n, lk\<lparr>lents := lents lk @ [(line, 0)]\<rparr>))"

definition lock_set :: "lktab \<Rightarrow> string \<Rightarrow> int \<Rightarrow> lktab" where
  "lock_set lk line pid = (case find_line lk line of (i, lk) \<Rightarrow>
     lk\<lparr>lents := (lents lk)[i := (fst (lents lk ! i), pid)]\<rparr>)"

definition is_locked :: "lktab \<Rightarrow> string \<Rightarrow> int \<times> lktab" where
  "is_locked lk line = (case find_line lk line of (i, lk) \<Rightarrow> (snd (lents lk ! i), lk))"

fun rel_first :: "int \<Rightarrow> (string \<times> int) list \<Rightarrow> (string \<times> int) list" where
  "rel_first pid [] = []"
| "rel_first pid (e # es) = (if snd e = pid then (fst e, 0) # es else e # rel_first pid es)"

definition lock_rel :: "lktab \<Rightarrow> int \<Rightarrow> lktab" where
  "lock_rel lk pid = lk\<lparr>lents := rel_first pid (lents lk)\<rparr>"

subsection \<open>The client array\<close>

text \<open>\<^verbatim>\<open>client_alloc\<close>: ten more entries, of which only the descriptor is set.\<close>

definition client_alloc :: "cdenv \<Rightarrow> client list \<Rightarrow> client list" where
  "client_alloc ev cs = cs @ map (\<lambda>i. (junkc ev i)\<lparr>cfd := - 1\<rparr>) [length cs ..< length cs + NALLOC]"

fun free_index :: "client list \<Rightarrow> nat option" where
  "free_index [] = None"
| "free_index (c # cs) = (if cfd c = - 1 then Some 0 else map_option Suc (free_index cs))"

definition put_client :: "client list \<Rightarrow> nat \<Rightarrow> int \<Rightarrow> int \<Rightarrow> client list" where
  "put_client cs i fd uid = cs[i := (cs ! i)\<lparr>cfd := fd, cuid := uid\<rparr>]"

text \<open>\<^verbatim>\<open>client_add\<close>: after \<^verbatim>\<open>client_alloc\<close> the search finds the first new entry.\<close>

definition client_add :: "cdenv \<Rightarrow> client list \<Rightarrow> int \<Rightarrow> int \<Rightarrow> nat \<times> client list" where
  "client_add ev cs fd uid = (case free_index cs of
       Some i \<Rightarrow> (i, put_client cs i fd uid)
     | None \<Rightarrow> (length cs, put_client (client_alloc ev cs) (length cs) fd uid))"

fun fd_index :: "int \<Rightarrow> client list \<Rightarrow> nat option" where
  "fd_index fd [] = None"
| "fd_index fd (c # cs) = (if cfd c = fd then Some 0 else map_option Suc (fd_index fd cs))"

definition client_del :: "calld \<Rightarrow> int \<Rightarrow> calld run" where
  "client_del st fd = (case fd_index fd (clients st) of
       None \<Rightarrow> die (LogQuit ''can't find client entry for fd %d'')
     | Some i \<Rightarrow> ret (st\<lparr>clients := (clients st)[i := (clients st ! i)\<lparr>cfd := - 1\<rparr>]\<rparr>))"

fun pid_index :: "int \<Rightarrow> client list \<Rightarrow> nat option" where
  "pid_index pid [] = None"
| "pid_index pid (c # cs) = (if cpid c = pid then Some 0 else map_option Suc (pid_index pid cs))"

definition client_sigchld :: "calld \<Rightarrow> int \<Rightarrow> int \<Rightarrow> calld run" where
  "client_sigchld st pid stat = (case pid_index pid (clients st) of
       None \<Rightarrow> die (LogQuit ''can't find client entry for pid %d'')
     | Some i \<Rightarrow> ret (st\<lparr>clients := (clients st)[i := (clients st ! i)\<lparr>childdone := stat\<rparr>]\<rparr>))"

text \<open>How a child ended: \<^verbatim>\<open>exit(n)\<close>, or killed by a signal.\<close>

datatype chstat = Exited nat | Killed nat

definition sig_chld :: "calld \<Rightarrow> int \<times> chstat \<Rightarrow> calld run" where
  "sig_chld st x = (case x of (pid, stat) \<Rightarrow>
     let st = st\<lparr>chld_flag := True\<rparr> in
     case stat of Exited n \<Rightarrow> client_sigchld st pid (int n + 1) | Killed s \<Rightarrow> ret st)"

subsection \<open>A request\<close>

definition upd_client :: "calld \<Rightarrow> nat \<Rightarrow> (client \<Rightarrow> client) \<Rightarrow> calld" where
  "upd_client st i f = st\<lparr>clients := (clients st)[i := f (clients st ! i)]\<rparr>"

text \<open>The parent's side of the fork.\<close>

definition start_child :: "calld \<Rightarrow> nat \<Rightarrow> systems \<Rightarrow> devices \<Rightarrow> calld run" where
  "start_child st i sys dev = (case pids st of
       [] \<Rightarrow> die (LogSys ''fork error'')
     | p # ps \<Rightarrow>
       if p < 0 then die (LogSys ''fork error'')
       else
         let st = upd_client (st\<lparr>pids := ps\<rparr>) i (\<lambda>c. c\<lparr>cpid := p\<rparr>) in
         ret (st\<lparr>lock := lock_set (lock st) (d_line dev) p,
           children := children st @ [\<lparr>chpid = p, chfd = cfd (clients st ! i), chsys = sys, chdev = dev\<rparr>]\<rparr>))"

text \<open>
  The body of the \<^verbatim>\<open>while\<close> loop for one entry of the \<^verbatim>\<open>Systems\<close> file: \<open>Inl\<close> goes on with the next entry,
  \<open>Inr True\<close> returns with a child running, \<open>Inr False\<close> is the \<^verbatim>\<open>break\<close>.
\<close>

definition request_entry :: "cdenv \<Rightarrow> nat \<Rightarrow> systems \<Rightarrow> calld \<Rightarrow> (calld + bool \<times> calld) run" where
  "request_entry ev i sys st =
     (let c = clients st ! i in
      if csysname c \<noteq> s_name sys then ret (Inl st)
      else if cspeed c \<noteq> [] \<and> cspeed c \<noteq> s_class sys then ret (Inl st)
      else
        let st = upd_client st i (\<lambda>c. c\<lparr>foundone := foundone c + 1\<rparr>) in
        rbind (dev_find (devfile ev) sys) (\<lambda>d. case d of
          Inl e \<Rightarrow> ret (Inr (False, st\<lparr>errmsg := e\<rparr>))
        | Inr dev \<Rightarrow>
          (case is_locked (lock st) (d_line dev) of (pid, lk) \<Rightarrow>
           let st = st\<lparr>lock := lk\<rparr> in
           if pid \<noteq> 0 then
             ret (Inl (st\<lparr>errmsg := ''device `'' @ d_line dev @ [sq] @ '' already locked by pid '' @
               dec (nat pid) @ [newline]\<rparr>))
           else rbind (start_child st i sys dev) (\<lambda>st. ret (Inr (True, st))))))"

text \<open>The loop over the rest \<open>r\<close> of the \<^verbatim>\<open>Systems\<close> file \<open>t\<close>; \<open>True\<close>: a child runs.\<close>

function request_loop :: "cdenv \<Rightarrow> nat \<Rightarrow> string \<Rightarrow> string \<Rightarrow> calld \<Rightarrow> (bool \<times> calld) run" where
  "request_loop ev i t r st = rbind (table_next sys_line r) (\<lambda>x. case x of
       None \<Rightarrow> ret (False, upd_client st i (\<lambda>c. c\<lparr>sysftell := - 1\<rparr>))
     | Some (sys, r') \<Rightarrow>
       rbind (request_entry ev i sys (upd_client st i (\<lambda>c. c\<lparr>sysftell := int (length t - length r')\<rparr>))) (\<lambda>y.
       case y of Inl st \<Rightarrow> request_loop ev i t r' st | Inr res \<Rightarrow> ret res))"
  by pat_completeness auto
termination
  by (relation "measure (\<lambda>(ev, i, t, r, st). length r)") (auto dest: table_next_shorter)

declare request_loop.simps [simp del]

definition request :: "cdenv \<Rightarrow> nat \<Rightarrow> calld \<Rightarrow> (int \<times> calld) run" where
  "request ev i st =
     (let st = st\<lparr>errmsg := []\<rparr> in
      rbind (sys_posn (sysftell (clients st ! i))) (\<lambda>pos.
      rbind (open_table (sysfile ev) ''can't open ./Systems'') (\<lambda>t.
      rbind (request_loop ev i t (drop pos t) st) (\<lambda>(ok, st).
      if ok then ret (0, st)
      else
        let c = clients st ! i in
        ret (- 1, if foundone c = 0 then st\<lparr>errmsg := ''system `'' @ csysname c @ [sq] @ '' not found'' @ [newline]\<rparr>
                  else if errmsg st = [] then
                    st\<lparr>errmsg := ''unable to connect to system `'' @ csysname c @ [sq, newline]\<rparr>
                  else st)))))"

subsection \<open>The server loop\<close>

definition cli_done :: "calld \<Rightarrow> int \<Rightarrow> calld run" where
  "cli_done st fd = rbind (client_del st fd) (\<lambda>st.
     ret (st\<lparr>allset := allset st - {fd}, closedfds := closedfds st @ [fd]\<rparr>))"

text \<open>\<^verbatim>\<open>request\<close>, and on failure the answer and the end of the client.\<close>

definition try_request :: "cdenv \<Rightarrow> nat \<Rightarrow> calld \<Rightarrow> calld run" where
  "try_request ev i st = rbind (request ev i st) (\<lambda>(rc, st).
     if rc < 0 then
       let fd = cfd (clients st ! i) in
       rbind (guard (\<not> badfd ev fd) (LogSys ''send_err error'')) (\<lambda>_.
       cli_done (st\<lparr>answers := answers st @ [(fd, errmsg st)]\<rparr>) fd)
     else ret st)"

text \<open>What \<^verbatim>\<open>read\<close> gives on a ready descriptor; the bytes are not empty.\<close>

datatype rdata = RdErr | RdEof | RdBuf string

text \<open>One client whose descriptor is ready.\<close>

definition client_ready :: "cdenv \<Rightarrow> nat \<Rightarrow> rdata \<Rightarrow> calld \<Rightarrow> calld run" where
  "client_ready ev i d st = (case d of
       RdErr \<Rightarrow> die (LogSys ''read error on fd %d'')
     | RdEof \<Rightarrow>
       let c = clients st ! i in
       cli_done (st\<lparr>lock := lock_rel (lock st) (cpid c)\<rparr>) (cfd c)
     | RdBuf buf \<Rightarrow>
       if last buf \<noteq> nul then die (LogQuit ''request from uid %d not null terminated'')
       else case buf_args buf of
         None \<Rightarrow> die (LogQuit ''command line error: %s'')
       | Some argv \<Rightarrow>
         (case cli_args argv of
            Inl e \<Rightarrow> die (LogQuit ''command line error: %s'')
          | Inr g \<Rightarrow>
            rbind (guard (length (osysname g) < MAXSYSNAME) (Undef ''client sysname overflows'')) (\<lambda>_.
            rbind (guard (length (case ospeed g of None \<Rightarrow> [] | Some s \<Rightarrow> s) < MAXSPEEDSTR) (Undef ''client speed overflows'')) (\<lambda>_.
            try_request ev i (upd_client (st\<lparr>gopts := g\<rparr>) i (\<lambda>c. c\<lparr>cDebug := oDebug g, cparity := oparity g,
              csysname := osysname g, cspeed := (case ospeed g of None \<Rightarrow> [] | Some s \<Rightarrow> s),
              childdone := 0, sysftell := 0, foundone := 0\<rparr>))))))"

text \<open>The entries 0 to \<^verbatim>\<open>maxi\<close>, one after the other.\<close>

fun each_client :: "(nat \<Rightarrow> calld \<Rightarrow> calld run) \<Rightarrow> nat list \<Rightarrow> calld \<Rightarrow> calld run" where
  "each_client f [] st = ret st"
| "each_client f (i # is) st =
     rbind (if cfd (clients st ! i) < 0 then ret st else f i st) (\<lambda>st. each_client f is st)"

definition upto_maxi :: "calld \<Rightarrow> nat list" where
  "upto_maxi st = [0 ..< nat (maxi st + 1)]"

definition child_done_one :: "cdenv \<Rightarrow> nat \<Rightarrow> calld \<Rightarrow> calld run" where
  "child_done_one ev i st =
     (let c = clients st ! i; st1 = upd_client st i (\<lambda>c. c\<lparr>childdone := 0\<rparr>) in
      if childdone c = 0 then ret st
      else if childdone c = 1 then ret st1
      else try_request ev i (st1\<lparr>lock := lock_rel (lock st) (cpid c)\<rparr>))"

definition child_done :: "cdenv \<Rightarrow> calld \<Rightarrow> calld run" where
  "child_done ev st = (let st = st\<lparr>chld_flag := False\<rparr> in each_client (child_done_one ev) (upto_maxi st) st)"

text \<open>How one \<^verbatim>\<open>select\<close> ends: interrupted by signals, failing, a new connection (\<open>None\<close>: the accept fails), data.\<close>

datatype selev = Signals "(int \<times> chstat) list" | SelFails | NewConn "(int \<times> int) option" | DataOn "int \<Rightarrow> rdata option"

fun run_signals :: "calld \<Rightarrow> (int \<times> chstat) list \<Rightarrow> calld run" where
  "run_signals st [] = ret st"
| "run_signals st (x # xs) = rbind (sig_chld st x) (\<lambda>st. run_signals st xs)"

definition loop_iter :: "cdenv \<Rightarrow> calld \<Rightarrow> selev \<Rightarrow> calld run" where
  "loop_iter ev st e = rbind (if chld_flag st then child_done ev st else ret st) (\<lambda>st. case e of
       Signals xs \<Rightarrow> rbind (run_signals st xs) (\<lambda>st. child_done ev st)
     | SelFails \<Rightarrow> die (LogSys ''select error'')
     | NewConn None \<Rightarrow> die (LogSys ''serv_accept error: %d'')
     | NewConn (Some (fd, uid)) \<Rightarrow>
       (case client_add ev (clients st) fd uid of (i, cs) \<Rightarrow>
          ret (st\<lparr>clients := cs, allset := insert fd (allset st), maxi := max (maxi st) (int i)\<rparr>))
     | DataOn rd \<Rightarrow> each_client (\<lambda>i st. case rd (cfd (clients st ! i)) of None \<Rightarrow> ret st | Some d \<Rightarrow> client_ready ev i d st)
         (upto_maxi st) st)"

fun run_loop :: "cdenv \<Rightarrow> calld \<Rightarrow> selev list \<Rightarrow> calld run" where
  "run_loop ev st [] = ret st"
| "run_loop ev st (e # es) = rbind (loop_iter ev st e) (\<lambda>st. run_loop ev st es)"

definition calld_init :: "int \<Rightarrow> int list \<Rightarrow> calld" where
  "calld_init lfd ps = \<lparr>clients = [], lock = \<lparr>lents = [], lsize = 0\<rparr>, allset = {lfd}, listenfd = lfd, maxi = - 1,
     chld_flag = False, errmsg = [], gopts = \<lparr>oDebug = False, oparity = NONE, ospeed = None, osysname = []\<rparr>,
     pids = ps, children = [], answers = [], closedfds = []\<rparr>"

end
