(* ===== verification/CalldLocks.thy ===== *)
theory CalldLocks
  imports CalldModel
begin

section \<open>The modem daemon: device locks\<close>

text \<open>
  The contract of a lock table as the server uses it, in the locale \<open>lock_table\<close>: asking for a line
  answers its holder and changes no holder, setting it makes the process its holder, releasing frees
  what the process holds.  Programs over the three operations are proved against the map of holders
  inside the locale; the array of \<^verbatim>\<open>lock.c\<close> is its interpretation.
\<close>

datatype lkop = LAsk string | LSet string int | LRel int

locale lock_table =
  fixes ask :: "'s \<Rightarrow> string \<Rightarrow> int \<times> 's"
    and set_lock :: "'s \<Rightarrow> string \<Rightarrow> int \<Rightarrow> 's"
    and rel :: "'s \<Rightarrow> int \<Rightarrow> 's"
    and holder :: "'s \<Rightarrow> string \<Rightarrow> int"
    and ok :: "'s \<Rightarrow> bool"
  assumes ask_law: "ok s \<Longrightarrow> ask s l = (p, s') \<Longrightarrow> p = holder s l \<and> holder s' = holder s \<and> ok s'"
    and set_law: "ok s \<Longrightarrow> holder (set_lock s l p) = (holder s)(l := p) \<and> ok (set_lock s l p)"
    and rel_law: "ok s \<Longrightarrow> p \<noteq> 0 \<Longrightarrow> (\<forall>l l'. holder s l = p \<longrightarrow> holder s l' = p \<longrightarrow> l = l') \<Longrightarrow>
      holder (rel s p) = (\<lambda>l. if holder s l = p then 0 else holder s l) \<and> ok (rel s p)"
begin

fun lk_run :: "'s \<Rightarrow> lkop list \<Rightarrow> int list \<times> 's" where
  "lk_run s [] = ([], s)"
| "lk_run s (LAsk l # os) = (case ask s l of (p, s) \<Rightarrow> case lk_run s os of (ps, s) \<Rightarrow> (p # ps, s))"
| "lk_run s (LSet l p # os) = lk_run (set_lock s l p) os"
| "lk_run s (LRel p # os) = lk_run (rel s p) os"

end

text \<open>The same programs over the map of holders.\<close>

fun holders_run :: "(string \<Rightarrow> int) \<Rightarrow> lkop list \<Rightarrow> int list \<times> (string \<Rightarrow> int)" where
  "holders_run h [] = ([], h)"
| "holders_run h (LAsk l # os) = (case holders_run h os of (ps, h') \<Rightarrow> (h l # ps, h'))"
| "holders_run h (LSet l p # os) = holders_run (h(l := p)) os"
| "holders_run h (LRel p # os) = holders_run (\<lambda>l. if h l = p then 0 else h l) os"

text \<open>A process locks only one line at a time, and 0 is no process.\<close>

fun single_locks :: "(string \<Rightarrow> int) \<Rightarrow> lkop list \<Rightarrow> bool" where
  "single_locks h [] = True"
| "single_locks h (LAsk l # os) = single_locks h os"
| "single_locks h (LSet l p # os) = ((\<forall>l'. h l' \<noteq> p) \<and> p \<noteq> 0 \<and> single_locks (h(l := p)) os)"
| "single_locks h (LRel p # os) = (p \<noteq> 0 \<and> single_locks (\<lambda>l. if h l = p then 0 else h l) os)"

definition one_each :: "(string \<Rightarrow> int) \<Rightarrow> bool" where
  "one_each h \<longleftrightarrow> (\<forall>l l'. h l \<noteq> 0 \<longrightarrow> h l = h l' \<longrightarrow> l = l')"

context lock_table
begin

lemma run_holders:
  "ok s \<Longrightarrow> one_each (holder s) \<Longrightarrow> single_locks (holder s) os \<Longrightarrow>
     fst (lk_run s os) = fst (holders_run (holder s) os) \<and>
     holder (snd (lk_run s os)) = snd (holders_run (holder s) os) \<and> ok (snd (lk_run s os)) \<and>
     one_each (holder (snd (lk_run s os)))"
proof (induction os arbitrary: s)
  case Nil
  then show ?case by simp
next
  case (Cons op os)
  show ?case
  proof (cases op)
    case (LAsk l)
    obtain p s' where a: "ask s l = (p, s')" by force
    from ask_law [OF Cons.prems(1) a] Cons.IH [of s'] Cons.prems LAsk a show ?thesis
      by (auto split: prod.splits)
  next
    case (LSet l p)
    have "one_each ((holder s)(l := p))"
      using Cons.prems(2,3) LSet by (auto simp: one_each_def)
    with set_law [OF Cons.prems(1), of l p] Cons.IH [of "set_lock s l p"] Cons.prems LSet show ?thesis
      by (auto simp del: fun_upd_apply)
  next
    case (LRel p)
    have p: "p \<noteq> 0" using Cons.prems(3) LRel by simp
    have u: "\<forall>l l'. holder s l = p \<longrightarrow> holder s l' = p \<longrightarrow> l = l'"
      using Cons.prems(2) p by (auto simp: one_each_def)
    have "one_each (\<lambda>l. if holder s l = p then 0 else holder s l)"
      using Cons.prems(2) by (auto simp: one_each_def)
    with rel_law [OF Cons.prems(1) p u] Cons.IH [of "rel s p"] Cons.prems LRel show ?thesis by auto
  qed
qed

end

subsection \<open>The array of locks\<close>

definition holder_of :: "lktab \<Rightarrow> string \<Rightarrow> int" where
  "holder_of lk line = (case map_of (lents lk) line of None \<Rightarrow> 0 | Some p \<Rightarrow> p)"

definition lk_ok :: "lktab \<Rightarrow> bool" where
  "lk_ok lk \<longleftrightarrow> distinct (map fst (lents lk)) \<and> length (lents lk) \<le> lsize lk"

lemma line_index_Some:
  "line_index line es = Some i \<Longrightarrow> i < length es \<and> fst (es ! i) = line"
  by (induction es arbitrary: i) (auto split: if_splits)

lemma line_index_None: "line_index line es = None \<longleftrightarrow> line \<notin> fst ` set es"
  by (induction es) auto

lemma map_of_nth_distinct:
  "distinct (map fst es) \<Longrightarrow> i < length es \<Longrightarrow> map_of es (fst (es ! i)) = Some (snd (es ! i))"
  by (metis map_of_is_SomeI nth_mem prod.collapse)

lemma map_of_nth_update:
  "distinct (map fst es) \<Longrightarrow> i < length es \<Longrightarrow> map_of (es[i := (fst (es ! i), p)]) = (map_of es)(fst (es ! i) \<mapsto> p)"
proof (induction es arbitrary: i)
  case (Cons e es)
  show ?case
  proof (cases i)
    case (Suc j)
    then have "fst (es ! j) \<in> fst ` set es"
      by (intro imageI nth_mem) (use Cons.prems in simp)
    moreover have "fst e \<notin> fst ` set es" using Cons.prems(1) by simp
    ultimately have "fst (es ! j) \<noteq> fst e" by metis
    moreover have "map_of (es[j := (fst (es ! j), p)]) = (map_of es)(fst (es ! j) \<mapsto> p)"
      by (rule Cons.IH) (use Cons.prems Suc in simp_all)
    ultimately show ?thesis using Suc by (simp add: fun_eq_iff)
  qed (use Cons in \<open>auto simp: fun_eq_iff\<close>)
qed simp

lemma map_fst_update: "i < length es \<Longrightarrow> map fst (es[i := (fst (es ! i), p)]) = map fst es"
  by (rule nth_equalityI) (auto simp: nth_list_update)

lemma find_line_spec:
  assumes "lk_ok lk" and "find_line lk line = (i, lk')"
  shows "i < length (lents lk') \<and> fst (lents lk' ! i) = line \<and> holder_of lk' = holder_of lk \<and> lk_ok lk'"
proof (cases "line_index line (lents lk)")
  case None
  then have n: "line \<notin> fst ` set (lents lk)" by (simp add: line_index_None)
  then have "map_of (lents lk) line = None" by (simp add: map_of_eq_None_iff)
  then show ?thesis
    using assms None n by (auto simp: find_line_def Let_def holder_of_def lk_ok_def fun_eq_iff map_add_def NALLOC_def nth_append
        split: option.splits if_splits)
next
  case (Some j)
  then show ?thesis using assms line_index_Some [OF Some] by (auto simp: find_line_def)
qed

lemma rel_first_spec:
  assumes "distinct (map fst es)" and "p \<noteq> 0"
    and "\<forall>l l'. map_of es l = Some p \<longrightarrow> map_of es l' = Some p \<longrightarrow> l = l'"
  shows "map_of (rel_first p es) = (\<lambda>l. if map_of es l = Some p then Some 0 else map_of es l) \<and>
    map fst (rel_first p es) = map fst es"
  using assms
proof (induction es)
  case (Cons e es)
  have n: "map_of es (fst e) = None" using Cons.prems(1) by (simp add: map_of_eq_None_iff)
  obtain a q where e: "e = (a, q)" by force
  show ?case
  proof (cases "q = p")
    case True
    have "map_of es l \<noteq> Some p" if "l \<noteq> a" for l
    proof
      assume "map_of es l = Some p"
      then have "map_of (e # es) l = Some p" "map_of (e # es) a = Some p" using that True e by simp_all
      then show False using Cons.prems(3) that by blast
    qed
    then show ?thesis using True n e by (auto simp: fun_eq_iff)
  next
    case False
    have "l = l'" if "map_of es l = Some p" "map_of es l' = Some p" for l l'
    proof -
      have "l \<noteq> a" "l' \<noteq> a" using that n e by auto
      with that show ?thesis using Cons.prems(3) [rule_format, of l l'] e by simp
    qed
    then have "map_of (rel_first p es) = (\<lambda>l. if map_of es l = Some p then Some 0 else map_of es l) \<and>
        map fst (rel_first p es) = map fst es"
      using Cons.IH Cons.prems(1,2) by simp
    with False e n show ?thesis by (auto simp: fun_eq_iff)
  qed
qed simp

interpretation devlocks: lock_table is_locked lock_set lock_rel holder_of lk_ok
proof
  fix s :: lktab and l :: string and p :: int and s' :: lktab
  assume ok: "lk_ok s" and a: "is_locked s l = (p, s')"
  obtain i lk where f: "find_line s l = (i, lk)" by force
  note fs = find_line_spec [OF ok f]
  have "map_of (lents lk) l = Some (snd (lents lk ! i))"
    using fs map_of_nth_distinct [of "lents lk" i] by (simp add: lk_ok_def)
  then have "holder_of lk l = snd (lents lk ! i)" by (simp add: holder_of_def)
  then show "p = holder_of s l \<and> holder_of s' = holder_of s \<and> lk_ok s'"
    using a f fs by (auto simp: is_locked_def)
next
  fix s :: lktab and l :: string and p :: int
  assume ok: "lk_ok s"
  obtain i lk where f: "find_line s l = (i, lk)" by force
  note fs = find_line_spec [OF ok f]
  have d: "distinct (map fst (lents lk))" using fs by (simp add: lk_ok_def)
  have m: "map_of ((lents lk)[i := (l, p)]) = (map_of (lents lk))(l \<mapsto> p)"
    using map_of_nth_update [OF d, of i p] fs by simp
  have k: "map fst ((lents lk)[i := (l, p)]) = map fst (lents lk)"
    using map_fst_update [of i "lents lk" p] fs by simp
  have "holder_of (lock_set s l p) = (holder_of lk)(l := p)"
    using f fs m by (auto simp: lock_set_def holder_of_def fun_eq_iff)
  moreover have "lk_ok (lock_set s l p)"
    using f fs d k by (simp add: lock_set_def lk_ok_def)
  ultimately show "holder_of (lock_set s l p) = (holder_of s)(l := p) \<and> lk_ok (lock_set s l p)" using fs by simp
next
  fix s :: lktab and p :: int
  assume ok: "lk_ok s" and p: "p \<noteq> 0" and u: "\<forall>l l'. holder_of s l = p \<longrightarrow> holder_of s l' = p \<longrightarrow> l = l'"
  have u': "\<forall>l l'. map_of (lents s) l = Some p \<longrightarrow> map_of (lents s) l' = Some p \<longrightarrow> l = l'"
    using u by (simp add: holder_of_def)
  have r: "map_of (rel_first p (lents s)) = (\<lambda>l. if map_of (lents s) l = Some p then Some 0 else map_of (lents s) l)"
    "map fst (rel_first p (lents s)) = map fst (lents s)"
    using rel_first_spec [OF _ p u'] ok by (simp_all add: lk_ok_def)
  have "length (rel_first p (lents s)) = length (lents s)" using arg_cong [OF r(2), of length] by simp
  then have "lk_ok (lock_rel s p)" using ok r(2) by (simp add: lk_ok_def lock_rel_def)
  moreover have "holder_of (lock_rel s p) = (\<lambda>l. if holder_of s l = p then 0 else holder_of s l)"
    using p by (auto simp: holder_of_def lock_rel_def r(1) fun_eq_iff split: option.splits)
  ultimately show "holder_of (lock_rel s p) = (\<lambda>l. if holder_of s l = p then 0 else holder_of s l) \<and> lk_ok (lock_rel s p)"
    by simp
qed

end
