(* ===== verification/CalldRequest.thy ===== *)
theory CalldRequest
  imports CalldLocks
begin

section \<open>The modem daemon: what a request does to the server's state\<close>

text \<open>
  \<open>request_frame\<close> is what no outcome of \<^verbatim>\<open>request\<close> changes; \<open>started\<close> describes the success: one more
  child, dialing a system of the client's name and speed on a device that was free and is now
  locked by that child.
\<close>

definition request_frame :: "nat \<Rightarrow> calld \<Rightarrow> calld \<Rightarrow> bool" where
  "request_frame i st st' \<longleftrightarrow>
     allset st' = allset st \<and> listenfd st' = listenfd st \<and> maxi st' = maxi st \<and> chld_flag st' = chld_flag st \<and>
     answers st' = answers st \<and> closedfds st' = closedfds st \<and> length (clients st') = length (clients st) \<and>
     (\<forall>j. j \<noteq> i \<longrightarrow> clients st' ! j = clients st ! j) \<and>
     cfd (clients st' ! i) = cfd (clients st ! i) \<and> csysname (clients st' ! i) = csysname (clients st ! i) \<and>
     cspeed (clients st' ! i) = cspeed (clients st ! i) \<and> childdone (clients st' ! i) = childdone (clients st ! i)"

definition started :: "cdenv \<Rightarrow> nat \<Rightarrow> calld \<Rightarrow> calld \<Rightarrow> bool" where
  "started ev i st st' \<longleftrightarrow> (\<exists>p ps sys dev. pids st = p # ps \<and> pids st' = ps \<and> 0 \<le> p \<and>
     children st' = children st @ [\<lparr>chpid = p, chfd = cfd (clients st ! i), chsys = sys, chdev = dev\<rparr>] \<and>
     s_name sys = csysname (clients st ! i) \<and> (cspeed (clients st ! i) = [] \<or> s_class sys = cspeed (clients st ! i)) \<and>
     d_type dev = s_type sys \<and> d_class dev = s_class sys \<and>
     holder_of (lock st) (d_line dev) = 0 \<and> holder_of (lock st') = (holder_of (lock st))(d_line dev := p) \<and>
     cpid (clients st' ! i) = p)"

definition refused :: "calld \<Rightarrow> calld \<Rightarrow> bool" where
  "refused st st' \<longleftrightarrow> children st' = children st \<and> pids st' = pids st \<and> holder_of (lock st') = holder_of (lock st)"

lemma dev_find_loop_match:
  "dev_find_loop sys r = ret (Inr dev) \<Longrightarrow> d_type dev = s_type sys \<and> d_class dev = s_class sys"
proof (induction sys r rule: dev_find_loop.induct)
  case (1 sys r)
  obtain x where x: "dev_next r = ret x" using "1.prems" by (subst (asm) dev_find_loop.simps) (auto simp: run_simps)
  show ?case
  proof (cases x)
    case None
    then show ?thesis using "1.prems" x by (subst (asm) dev_find_loop.simps) simp
  next
    case (Some q)
    obtain d r' where q: "q = (d, r')" by force
    show ?thesis
    proof (cases "s_type sys = d_type d \<and> s_class sys = d_class d")
      case True
      then show ?thesis using "1.prems" x Some q by (subst (asm) dev_find_loop.simps) auto
    next
      case False
      then have "dev_find_loop sys r' = ret (Inr dev)"
        using "1.prems" x Some q by (subst (asm) dev_find_loop.simps) (auto split: if_splits)
      then show ?thesis using "1.IH" [OF x Some q [symmetric]] False by blast
    qed
  qed
qed

lemma dev_find_match: "dev_find f sys = ret (Inr dev) \<Longrightarrow> d_type dev = s_type sys \<and> d_class dev = s_class sys"
  unfolding dev_find_def rbind_eq_ret using dev_find_loop_match by blast

lemma upd_client_sel [simp]:
  "lock (upd_client st i f) = lock st" "allset (upd_client st i f) = allset st" "listenfd (upd_client st i f) = listenfd st"
  "maxi (upd_client st i f) = maxi st" "chld_flag (upd_client st i f) = chld_flag st" "answers (upd_client st i f) = answers st"
  "closedfds (upd_client st i f) = closedfds st" "pids (upd_client st i f) = pids st" "children (upd_client st i f) = children st"
  "errmsg (upd_client st i f) = errmsg st" "length (clients (upd_client st i f)) = length (clients st)"
  "j \<noteq> i \<Longrightarrow> clients (upd_client st i f) ! j = clients st ! j"
  "i < length (clients st) \<Longrightarrow> clients (upd_client st i f) ! i = f (clients st ! i)"
  by (simp_all add: upd_client_def)

lemma request_frame_refl [simp]: "request_frame i st st"
  by (simp add: request_frame_def)

lemma request_frame_trans: "request_frame i st st1 \<Longrightarrow> request_frame i st1 st2 \<Longrightarrow> request_frame i st st2"
  by (simp add: request_frame_def)

lemma request_frame_upd:
  "i < length (clients st) \<Longrightarrow> (\<And>c. cfd (f c) = cfd c \<and> csysname (f c) = csysname c \<and> cspeed (f c) = cspeed c \<and>
     childdone (f c) = childdone c) \<Longrightarrow> request_frame i st (upd_client st i f)"
  by (simp add: request_frame_def)

lemma request_frame_more [simp]:
  "request_frame i st (st'\<lparr>errmsg := e\<rparr>) = request_frame i st st'"
  "request_frame i st (st'\<lparr>lock := lk\<rparr>) = request_frame i st st'"
  "request_frame i st (st'\<lparr>pids := ps\<rparr>) = request_frame i st st'"
  "request_frame i st (st'\<lparr>children := cs\<rparr>) = request_frame i st st'"
  by (simp_all add: request_frame_def)

text \<open>Steps of the loop before the fork change nothing that \<open>started\<close> and \<open>refused\<close> speak of.\<close>

lemma started_cong:
  "started ev i st1 st' \<Longrightarrow> request_frame i st st1 \<Longrightarrow> pids st1 = pids st \<Longrightarrow> children st1 = children st \<Longrightarrow>
     holder_of (lock st1) = holder_of (lock st) \<Longrightarrow> started ev i st st'"
  by (simp add: started_def request_frame_def)

lemma refused_cong:
  "refused st1 st' \<Longrightarrow> pids st1 = pids st \<Longrightarrow> children st1 = children st \<Longrightarrow>
     holder_of (lock st1) = holder_of (lock st) \<Longrightarrow> refused st st'"
  by (simp add: refused_def)

lemma start_child_spec:
  assumes "start_child st i sys dev = ret st'" and "lk_ok (lock st)" and "i < length (clients st)"
    and "holder_of (lock st) (d_line dev) = 0"
    and "s_name sys = csysname (clients st ! i)" and "cspeed (clients st ! i) = [] \<or> s_class sys = cspeed (clients st ! i)"
    and "d_type dev = s_type sys \<and> d_class dev = s_class sys"
  shows "started ev i st st' \<and> request_frame i st st' \<and> lk_ok (lock st')"
proof -
  obtain p ps where p: "pids st = p # ps" "0 \<le> p"
    using assms(1) by (auto simp: start_child_def split: list.splits if_splits)
  let ?st = "upd_client (st\<lparr>pids := ps\<rparr>) i (\<lambda>c. c\<lparr>cpid := p\<rparr>)"
  have st': "st' = ?st\<lparr>lock := lock_set (lock st) (d_line dev) p,
      children := children st @ [\<lparr>chpid = p, chfd = cfd (clients ?st ! i), chsys = sys, chdev = dev\<rparr>]\<rparr>"
    using assms(1) p by (simp add: start_child_def Let_def)
  have f: "request_frame i st ?st"
    using request_frame_upd [of i "st\<lparr>pids := ps\<rparr>" "\<lambda>c. c\<lparr>cpid := p\<rparr>"] assms(3) by (simp add: request_frame_def)
  show ?thesis
    using devlocks.set_law [OF assms(2), of "d_line dev" p] f assms(3-7) p
    unfolding st' started_def by simp
qed

lemma request_entry_spec:
  assumes r: "request_entry ev i sys st = ret y" and lk: "lk_ok (lock st)" and i: "i < length (clients st)"
  shows "case y of
      Inl st1 \<Rightarrow> request_frame i st st1 \<and> lk_ok (lock st1) \<and> refused st st1
    | Inr (b, st1) \<Rightarrow> request_frame i st st1 \<and> lk_ok (lock st1) \<and> (if b then started ev i st st1 else refused st st1)"
proof (cases "csysname (clients st ! i) \<noteq> s_name sys \<or> cspeed (clients st ! i) \<noteq> [] \<and> cspeed (clients st ! i) \<noteq> s_class sys")
  case True
  then have "request_entry ev i sys st = ret (Inl st)" by (simp add: request_entry_def Let_def)
  then have "y = Inl st" using r by simp
  then show ?thesis using lk by (simp add: refused_def)
next
  case False
  let ?st2 = "upd_client st i (\<lambda>c. c\<lparr>foundone := foundone c + 1\<rparr>)"
  have f2: "request_frame i st ?st2" by (rule request_frame_upd) (use i in simp_all)
  obtain d where d: "dev_find (devfile ev) sys = ret d"
    using r False by (auto simp: request_entry_def Let_def run_simps)
  show ?thesis
  proof (cases d)
    case (Inl e)
    then have "y = Inr (False, ?st2\<lparr>errmsg := e\<rparr>)"
      using r False d by (auto simp: request_entry_def Let_def)
    then show ?thesis using f2 lk by (simp add: refused_def)
  next
    case (Inr dev)
    obtain pid lk1 where il: "is_locked (lock st) (d_line dev) = (pid, lk1)" by force
    note al = devlocks.ask_law [OF lk il]
    let ?st3 = "?st2\<lparr>lock := lk1\<rparr>"
    show ?thesis
    proof (cases "pid = 0")
      case p: False
      then have "y = Inl (?st3\<lparr>errmsg := ''device `'' @ d_line dev @ [sq] @ '' already locked by pid '' @ dec (nat pid) @ [newline]\<rparr>)"
        using r False d Inr il by (auto simp: request_entry_def Let_def)
      then show ?thesis using f2 al by (simp add: refused_def)
    next
      case True
      then obtain st1 where s: "start_child ?st3 i sys dev = ret st1" "y = Inr (True, st1)"
        using r False d Inr il by (auto simp: request_entry_def Let_def run_simps)
      have "started ev i ?st3 st1 \<and> request_frame i ?st3 st1 \<and> lk_ok (lock st1)"
        by (rule start_child_spec [OF s(1)])
          (use al i False dev_find_match [of "devfile ev" sys dev] d Inr True in auto)
      then show ?thesis
        using s(2) request_frame_trans [of i st ?st3 st1] started_cong [of ev i ?st3 st1 st] f2 al by auto
    qed
  qed
qed

lemma request_loop_spec:
  "request_loop ev i t r st = ret (b, st') \<Longrightarrow> lk_ok (lock st) \<Longrightarrow> i < length (clients st) \<Longrightarrow>
     request_frame i st st' \<and> lk_ok (lock st') \<and> (if b then started ev i st st' else refused st st')"
proof (induction ev i t r st rule: request_loop.induct)
  case (1 ev i t r st)
  obtain x where x: "table_next sys_line r = ret x" using "1.prems"(1)
    by (subst (asm) request_loop.simps) (auto simp: run_simps)
  show ?case
  proof (cases x)
    case None
    then have "st' = upd_client st i (\<lambda>c. c\<lparr>sysftell := - 1\<rparr>)" "\<not> b"
      using "1.prems"(1) x by (subst (asm) request_loop.simps; simp)+
    then show ?thesis using "1.prems" by (simp add: request_frame_upd refused_def)
  next
    case (Some q)
    obtain sys r' where q: "q = (sys, r')" by force
    let ?st1 = "upd_client st i (\<lambda>c. c\<lparr>sysftell := int (length t - length r')\<rparr>)"
    have f1: "request_frame i st ?st1" by (rule request_frame_upd) (use "1.prems" in simp_all)
    obtain y where y: "request_entry ev i sys ?st1 = ret y"
        "(case y of Inl st \<Rightarrow> request_loop ev i t r' st | Inr res \<Rightarrow> ret res) = ret (b, st')"
      using "1.prems"(1) x Some q by (subst (asm) request_loop.simps) (auto simp: run_simps)
    have lk: "lk_ok (lock ?st1)" and il: "i < length (clients ?st1)" using "1.prems" by simp_all
    note es = request_entry_spec [OF y(1) lk il]
    show ?thesis
    proof (cases y)
      case (Inl st2)
      have f2: "request_frame i st st2" using request_frame_trans [OF f1] es Inl by simp
      have rf: "refused st st2" using es Inl refused_cong [of ?st1 st2 st] by simp
      have "request_frame i st2 st' \<and> lk_ok (lock st') \<and> (if b then started ev i st2 st' else refused st2 st')"
        by (rule "1.IH" [OF x Some q [symmetric] y(1) Inl]) (use y(2) Inl es "1.prems"(3) f2 in \<open>auto simp: request_frame_def\<close>)
      then show ?thesis
        using request_frame_trans [OF f2] started_cong [OF _ f2] refused_cong [of st2 st' st] rf
        by (auto simp: refused_def split: if_splits)
    next
      case (Inr res)
      then have res: "res = (b, st')" using y(2) by simp
      have "request_frame i ?st1 st' \<and> lk_ok (lock st') \<and> (if b then started ev i ?st1 st' else refused ?st1 st')"
        using es unfolding Inr res by simp
      then show ?thesis
        using request_frame_trans [OF f1] started_cong [OF _ f1] refused_cong [of ?st1 st' st]
        by (auto split: if_splits)
    qed
  qed
qed

lemma request_spec:
  assumes "request ev i st = ret (rc, st')" and "lk_ok (lock st)" and "i < length (clients st)"
  shows "request_frame i st st' \<and> lk_ok (lock st') \<and>
    (rc = 0 \<and> started ev i st st' \<or> rc = - 1 \<and> refused st st' \<and> errmsg st' \<noteq> [])"
proof -
  let ?st = "st\<lparr>errmsg := []\<rparr>"
  obtain pos t b st1 where r: "request_loop ev i t (drop pos t) ?st = ret (b, st1)"
      and e: "(if b then ret (0, st1) else let c = clients st1 ! i in
        ret (- 1, if foundone c = 0 then st1\<lparr>errmsg := ''system `'' @ csysname c @ [sq] @ '' not found'' @ [newline]\<rparr>
                  else if errmsg st1 = [] then
                    st1\<lparr>errmsg := ''unable to connect to system `'' @ csysname c @ [sq, newline]\<rparr>
                  else st1)) = ret (rc, st')"
    using assms(1) unfolding request_def Let_def rbind_eq_ret by auto
  have "request_frame i ?st st1 \<and> lk_ok (lock st1) \<and> (if b then started ev i ?st st1 else refused ?st st1)"
    by (rule request_loop_spec [OF r]) (use assms in simp_all)
  moreover have "request_frame i ?st s = request_frame i st s" "started ev i ?st s = started ev i st s"
    "refused ?st s = refused st s" for s
    by (simp_all add: request_frame_def started_def refused_def)
  ultimately have sp: "request_frame i st st1" "lk_ok (lock st1)" "if b then started ev i st st1 else refused st st1" by auto
  show ?thesis
  proof (cases b)
    case True
    then show ?thesis using e sp by auto
  next
    case False
    then show ?thesis using e sp by (auto simp: Let_def refused_def split: if_splits)
  qed
qed

end
