(* ===== verification/CalldProps.thy ===== *)
theory CalldProps
  imports CalldRequest
begin

section \<open>The modem daemon: properties of the server\<close>

subsection \<open>Locks and requests\<close>

text \<open>
  Any program of asking, setting and releasing locks in which a process locks one line at a time
  sees exactly the map from lines to their holders, however the array grows.
\<close>

theorem device_locks_refine_map:
  assumes "lk_ok lk" and "one_each (holder_of lk)" and "single_locks (holder_of lk) os"
  shows "fst (devlocks.lk_run lk os) = fst (holders_run (holder_of lk) os) \<and>
    holder_of (snd (devlocks.lk_run lk os)) = snd (holders_run (holder_of lk) os)"
  using devlocks.run_holders [OF assms] by blast

definition sample_locks :: "lkop list" where
  "sample_locks = [LSet ''cua0'' 5, LAsk ''cua0'', LAsk ''cua1'', LSet ''cua1'' 6, LRel 5, LAsk ''cua0'', LAsk ''cua1'']"

theorem device_locks_refine_map_witness:
  "fst (devlocks.lk_run \<lparr>lents = [], lsize = 0\<rparr> sample_locks) = [5, 0, 0, 6]"
proof -
  let ?lk = "\<lparr>lents = [], lsize = 0\<rparr> :: lktab"
  have h: "holder_of ?lk = (\<lambda>_. 0)" by (simp add: holder_of_def fun_eq_iff)
  have "lk_ok ?lk" "one_each (holder_of ?lk)" by (simp_all add: lk_ok_def one_each_def holder_of_def)
  moreover have "single_locks (holder_of ?lk) sample_locks" by (simp add: h sample_locks_def)
  moreover have "fst (holders_run (\<lambda>_. 0) sample_locks) = [5, 0, 0, 6]" by (simp add: sample_locks_def)
  ultimately show ?thesis using device_locks_refine_map [of ?lk sample_locks] h by simp
qed

text \<open>
  C13: \<^verbatim>\<open>request\<close> either starts exactly one child, for a system with the client's name and speed and a
  device of that system's type and class that nobody held, and leaves the device locked by that
  child; or it returns -1 with a message, and no child was started and no lock changed.  Other
  clients and the descriptors are never touched.
\<close>

theorem request_locks_free_device:
  assumes "request ev i st = ret (rc, st')" and "lk_ok (lock st)" and "i < length (clients st)"
  shows "request_frame i st st' \<and> lk_ok (lock st') \<and>
    (rc = 0 \<and> started ev i st st' \<or> rc = - 1 \<and> refused st st' \<and> errmsg st' \<noteq> [])"
  by (rule request_spec [OF assms])

subsection \<open>The client table and the select set\<close>

definition fd_inv :: "int list \<Rightarrow> int set \<Rightarrow> int \<Rightarrow> int \<Rightarrow> bool" where
  "fd_inv fs S l m \<longleftrightarrow> (\<forall>i<length fs. fs ! i = - 1 \<or> 0 \<le> fs ! i) \<and>
     (\<forall>i<length fs. \<forall>j<length fs. fs ! i = fs ! j \<longrightarrow> fs ! i \<noteq> - 1 \<longrightarrow> i = j) \<and>
     S = insert l {f \<in> set fs. f \<noteq> - 1} \<and> l \<notin> set fs \<and> 0 \<le> l \<and>
     (\<forall>i<length fs. fs ! i \<noteq> - 1 \<longrightarrow> int i \<le> m) \<and> - 1 \<le> m \<and> m < int (length fs) \<and> NALLOC dvd length fs"

lemma fd_inv_del:
  assumes "fd_inv fs S l m" and "i < length fs" and "fs ! i \<noteq> - 1"
  shows "fd_inv (fs[i := - 1]) (S - {fs ! i}) l m"
proof -
  have "{f \<in> set (fs[i := - 1]). f \<noteq> - 1} = {f \<in> set fs. f \<noteq> - 1} - {fs ! i}"
  proof (intro set_eqI iffI)
    fix f assume "f \<in> {f \<in> set (fs[i := - 1]). f \<noteq> - 1}"
    then obtain j where j: "j < length fs" "fs[i := - 1] ! j = f" "f \<noteq> - 1" by (auto simp: in_set_conv_nth)
    then have "j \<noteq> i" by auto
    then have "f = fs ! j" using j by simp
    then show "f \<in> {f \<in> set fs. f \<noteq> - 1} - {fs ! i}"
      using j assms \<open>j \<noteq> i\<close> by (auto simp: fd_inv_def)
  next
    fix f assume "f \<in> {f \<in> set fs. f \<noteq> - 1} - {fs ! i}"
    then obtain j where j: "j < length fs" "fs ! j = f" "f \<noteq> - 1" "f \<noteq> fs ! i" by (auto simp: in_set_conv_nth)
    then have "fs[i := - 1] ! j = f" by (cases "j = i") auto
    then show "f \<in> {f \<in> set (fs[i := - 1]). f \<noteq> - 1}" using j(1,3) by (metis (mono_tags) length_list_update mem_Collect_eq nth_mem)
  qed
  moreover have "l \<notin> set (fs[i := - 1])" using assms(1) set_update_subset_insert [of fs i "- 1"] by (auto simp: fd_inv_def)
  moreover have "l \<noteq> fs ! i" using assms(1,2) by (auto simp: fd_inv_def)
  ultimately show ?thesis using assms by (auto simp: fd_inv_def nth_list_update)
qed

lemma fd_inv_add:
  assumes "fd_inv fs S l m" and "i < length fs" and "fs ! i = - 1" and "0 \<le> f" and "f \<notin> S"
  shows "fd_inv (fs[i := f]) (insert f S) l (max m (int i))"
proof -
  have fn: "f \<notin> set fs" using assms by (auto simp: fd_inv_def)
  have "{g \<in> set (fs[i := f]). g \<noteq> - 1} = insert f {g \<in> set fs. g \<noteq> - 1}"
  proof (intro set_eqI iffI)
    fix g assume "g \<in> {g \<in> set (fs[i := f]). g \<noteq> - 1}"
    then show "g \<in> insert f {g \<in> set fs. g \<noteq> - 1}" using set_update_subset_insert [of fs i f] by auto
  next
    fix g assume g: "g \<in> insert f {g \<in> set fs. g \<noteq> - 1}"
    show "g \<in> {g \<in> set (fs[i := f]). g \<noteq> - 1}"
    proof (cases "g = f")
      case True
      then show ?thesis using assms(2,4) by (auto simp: set_update_memI)
    next
      case False
      then obtain j where j: "j < length fs" "fs ! j = g" "g \<noteq> - 1" using g by (auto simp: in_set_conv_nth)
      then have "fs[i := f] ! j = g" using assms(3) by (cases "j = i") auto
      then show ?thesis using j(1,3) by (metis (mono_tags) length_list_update mem_Collect_eq nth_mem)
    qed
  qed
  moreover have "l \<notin> set (fs[i := f])" using assms(1,5) set_update_subset_insert [of fs i f] by (auto simp: fd_inv_def)
  moreover have "\<forall>j<length fs. fs ! j \<noteq> f" using fn by auto
  ultimately show ?thesis using assms unfolding fd_inv_def
    by (auto simp: nth_list_update insert_commute max_def)
qed

lemma fd_inv_grow:
  assumes "fd_inv fs S l m" shows "fd_inv (fs @ replicate NALLOC (- 1)) S l m"
proof -
  have "{f \<in> set (fs @ replicate NALLOC (- 1)). f \<noteq> - 1} = {f \<in> set fs. f \<noteq> - 1}" by auto
  then show ?thesis using assms unfolding fd_inv_def by (auto simp: nth_append split: if_splits)
qed

lemma lock_rel_le:
  assumes "lk_ok lk"
  shows "lk_ok (lock_rel lk p) \<and> (holder_of (lock_rel lk p) l = holder_of lk l \<or> holder_of (lock_rel lk p) l = 0)"
proof -
  have "map fst (rel_first p es) = map fst es \<and> length (rel_first p es) = length es \<and>
      (map_of (rel_first p es) l = map_of es l \<or> map_of (rel_first p es) l = Some 0)" for es
    by (induction es) auto
  from this [of "lents lk"] show ?thesis using assms
    by (elim conjE disjE) (simp_all add: lk_ok_def lock_rel_def holder_of_def)
qed

text \<open>
  The invariant of the server: the descriptors in use are distinct and not the listening one, the
  select set is exactly the listening descriptor and those in use, \<^verbatim>\<open>maxi\<close> covers every client, the
  array grows by tens, the lock table is well-formed, and every locked line is locked by a child that
  was started for that line.
\<close>

definition locks_justified :: "calld \<Rightarrow> bool" where
  "locks_justified st \<longleftrightarrow> (\<forall>l. holder_of (lock st) l \<noteq> 0 \<longrightarrow>
     (\<exists>c\<in>set (children st). chpid c = holder_of (lock st) l \<and> d_line (chdev c) = l))"

definition cd_inv :: "calld \<Rightarrow> bool" where
  "cd_inv st \<longleftrightarrow> fd_inv (map cfd (clients st)) (allset st) (listenfd st) (maxi st) \<and> lk_ok (lock st) \<and> locks_justified st"

lemma request_frame_cfds: "request_frame i st st' \<Longrightarrow> map cfd (clients st') = map cfd (clients st)"
proof (rule nth_equalityI)
  assume f: "request_frame i st st'"
  show "length (map cfd (clients st')) = length (map cfd (clients st))" using f by (simp add: request_frame_def)
  fix j assume "j < length (map cfd (clients st'))"
  then show "map cfd (clients st') ! j = map cfd (clients st) ! j"
    using f by (cases "j = i") (simp_all add: request_frame_def)
qed

lemma request_inv:
  assumes "request ev i st = ret (rc, st')" and "cd_inv st" and "i < length (clients st)"
  shows "cd_inv st' \<and> request_frame i st st'"
proof -
  have sp: "request_frame i st st'" "lk_ok (lock st')" "started ev i st st' \<or> refused st st'"
    using request_spec [OF assms(1) _ assms(3)] assms(2) by (auto simp: cd_inv_def)
  have "locks_justified st'"
    using sp(3) assms(2) by (auto simp: started_def refused_def locks_justified_def cd_inv_def split: if_splits)
  moreover have "fd_inv (map cfd (clients st')) (allset st') (listenfd st') (maxi st')"
    using request_frame_cfds [OF sp(1)] sp(1) assms(2) by (simp add: request_frame_def cd_inv_def)
  ultimately show ?thesis using sp by (simp add: cd_inv_def)
qed

lemma fd_index_Some: "fd_index fd cs = Some i \<Longrightarrow> i < length cs \<and> cfd (cs ! i) = fd"
  by (induction cs arbitrary: i) (auto split: if_splits)

lemma cli_done_inv:
  assumes "cli_done st fd = ret st'" and "cd_inv st" and "fd \<noteq> - 1"
  shows "cd_inv st' \<and> length (clients st') = length (clients st) \<and> maxi st' = maxi st \<and> chld_flag st' = chld_flag st"
proof -
  obtain i where i: "fd_index fd (clients st) = Some i"
    and st': "st' = st\<lparr>clients := (clients st)[i := (clients st ! i)\<lparr>cfd := - 1\<rparr>], allset := allset st - {fd},
      closedfds := closedfds st @ [fd]\<rparr>"
    using assms(1) by (auto simp: cli_done_def client_del_def run_simps split: option.splits)
  note ix = fd_index_Some [OF i]
  have "map cfd (clients st') = (map cfd (clients st))[i := - 1]" by (simp add: st' map_update)
  moreover have "fd_inv ((map cfd (clients st))[i := - 1]) (allset st - {map cfd (clients st) ! i}) (listenfd st) (maxi st)"
    by (rule fd_inv_del) (use assms ix in \<open>auto simp: cd_inv_def\<close>)
  ultimately show ?thesis using assms(2) ix by (simp add: cd_inv_def st' locks_justified_def)
qed

lemma cd_inv_more [simp]:
  "cd_inv (st\<lparr>answers := a\<rparr>) = cd_inv st" "cd_inv (st\<lparr>gopts := g\<rparr>) = cd_inv st" "cd_inv (st\<lparr>chld_flag := f\<rparr>) = cd_inv st"
  by (simp_all add: cd_inv_def locks_justified_def)

lemma cd_inv_upd:
  assumes "\<And>c. cfd (f c) = cfd c" shows "cd_inv (upd_client st i f) = cd_inv st"
proof -
  have "map cfd (clients (upd_client st i f)) = map cfd (clients st)"
    by (rule nth_equalityI) (simp_all add: upd_client_def, metis assms nth_list_update_eq nth_list_update_neq)
  then show ?thesis by (simp add: cd_inv_def locks_justified_def)
qed

lemma cd_inv_rel: "cd_inv st \<Longrightarrow> cd_inv (st\<lparr>lock := lock_rel (lock st) p\<rparr>)"
  using lock_rel_le [of "lock st" p] by (auto simp: cd_inv_def locks_justified_def) metis

text \<open>What every step of a pass over the clients keeps.\<close>

definition keeps :: "calld \<Rightarrow> calld \<Rightarrow> bool" where
  "keeps st st' \<longleftrightarrow> cd_inv st' \<and> length (clients st') = length (clients st) \<and> maxi st' = maxi st \<and> chld_flag st' = chld_flag st"

lemma try_request_inv:
  assumes "try_request ev i st = ret st'" and "cd_inv st" and "i < length (clients st)" and "0 \<le> cfd (clients st ! i)"
  shows "keeps st st'"
proof -
  obtain rc st1 where r: "request ev i st = ret (rc, st1)"
    and k: "(if rc < 0 then let fd = cfd (clients st1 ! i) in
       rbind (guard (\<not> badfd ev fd) (LogSys ''send_err error'')) (\<lambda>_.
       cli_done (st1\<lparr>answers := answers st1 @ [(fd, errmsg st1)]\<rparr>) fd)
     else ret st1) = ret st'"
    using assms(1) by (auto simp: try_request_def rbind_eq_ret)
  note ri = request_inv [OF r assms(2,3)]
  have len: "length (clients st1) = length (clients st)" "maxi st1 = maxi st" "chld_flag st1 = chld_flag st" "cfd (clients st1 ! i) = cfd (clients st ! i)"
    using ri by (simp_all add: request_frame_def)
  show ?thesis
  proof (cases "rc < 0")
    case True
    then have "cli_done (st1\<lparr>answers := answers st1 @ [(cfd (clients st1 ! i), errmsg st1)]\<rparr>) (cfd (clients st1 ! i)) = ret st'"
      using k by (auto simp: Let_def run_simps)
    from cli_done_inv [OF this] ri len assms(4) show ?thesis by (simp add: keeps_def)
  next
    case False
    then show ?thesis using k ri len by (simp add: keeps_def)
  qed
qed

lemma client_ready_inv:
  assumes "client_ready ev i d st = ret st'" and "cd_inv st" and "i < length (clients st)" and "0 \<le> cfd (clients st ! i)"
  shows "keeps st st'"
proof (cases d)
  case RdErr
  then show ?thesis using assms(1) by (simp add: client_ready_def)
next
  case RdEof
  then have "cli_done (st\<lparr>lock := lock_rel (lock st) (cpid (clients st ! i))\<rparr>) (cfd (clients st ! i)) = ret st'"
    using assms(1) by (simp add: client_ready_def Let_def)
  from cli_done_inv [OF this cd_inv_rel [OF assms(2)]] assms(4) show ?thesis by (simp add: keeps_def)
next
  case (RdBuf buf)
  obtain argv where a: "buf_args buf = Some argv"
    using assms(1) RdBuf by (cases "buf_args buf") (auto simp: client_ready_def split: if_splits)
  obtain g where g: "cli_args argv = Inr g"
    using assms(1) RdBuf a by (cases "cli_args argv") (auto simp: client_ready_def split: if_splits)
  let ?sp = "case ospeed g of None \<Rightarrow> [] | Some s \<Rightarrow> s"
  define f :: "client \<Rightarrow> client" where "f = (\<lambda>c. c\<lparr>cDebug := oDebug g, cparity := oparity g, csysname := osysname g, cspeed := ?sp,
      childdone := 0, sysftell := 0, foundone := 0\<rparr>)"
  have f: "cfd (f c) = cfd c" for c by (simp add: f_def)
  have t: "try_request ev i (upd_client (st\<lparr>gopts := g\<rparr>) i f) = ret st'"
    using assms(1) a g RdBuf by (simp add: client_ready_def guard_def f_def split: if_splits)
  have "keeps (upd_client (st\<lparr>gopts := g\<rparr>) i f) st'"
    by (rule try_request_inv [OF t]) (use assms f in \<open>auto simp: cd_inv_upd\<close>)
  then show ?thesis by (simp add: keeps_def)
qed

lemma child_done_one_inv:
  assumes "child_done_one ev i st = ret st'" and "cd_inv st" and "i < length (clients st)" and "0 \<le> cfd (clients st ! i)"
  shows "keeps st st'"
proof -
  let ?st1 = "upd_client st i (\<lambda>c. c\<lparr>childdone := 0\<rparr>)"
  have i1: "cd_inv ?st1" using assms(2) by (subst cd_inv_upd) simp_all
  show ?thesis
  proof (cases "childdone (clients st ! i) = 0 \<or> childdone (clients st ! i) = 1")
    case True
    then have "st' = st \<or> st' = ?st1" using assms(1) by (auto simp: child_done_one_def Let_def)
    then show ?thesis using assms(2) i1 by (auto simp: keeps_def)
  next
    case False
    let ?st2 = "?st1\<lparr>lock := lock_rel (lock st) (cpid (clients st ! i))\<rparr>"
    have t: "try_request ev i ?st2 = ret st'" using assms(1) False by (simp add: child_done_one_def Let_def)
    have "cd_inv (?st1\<lparr>lock := lock_rel (lock ?st1) (cpid (clients st ! i))\<rparr>)" by (rule cd_inv_rel [OF i1])
    then have "keeps ?st2 st'" by (intro try_request_inv [OF t]) (use assms(3,4) in simp_all)
    then show ?thesis by (simp add: keeps_def)
  qed
qed

lemma each_client_inv:
  assumes step: "\<And>i st st'. f i st = ret st' \<Longrightarrow> cd_inv st \<Longrightarrow> i < length (clients st) \<Longrightarrow> 0 \<le> cfd (clients st ! i) \<Longrightarrow> keeps st st'"
  shows "each_client f ks st = ret st' \<Longrightarrow> cd_inv st \<Longrightarrow> \<forall>i\<in>set ks. i < length (clients st) \<Longrightarrow> keeps st st'"
proof (induction ks arbitrary: st)
  case Nil
  then show ?case by (simp add: keeps_def)
next
  case (Cons i ks)
  obtain st1 where s: "(if cfd (clients st ! i) < 0 then ret st else f i st) = ret st1" "each_client f ks st1 = ret st'"
    using Cons.prems(1) by (auto simp: rbind_eq_ret)
  have k: "keeps st st1"
  proof (cases "cfd (clients st ! i) < 0")
    case True
    then show ?thesis using s(1) Cons.prems(2) by (simp add: keeps_def)
  next
    case False
    then show ?thesis using s(1) step [of i st st1] Cons.prems(2,3) by simp
  qed
  have "keeps st1 st'" by (rule Cons.IH [OF s(2)]) (use k Cons.prems(3) in \<open>auto simp: keeps_def\<close>)
  with k show ?case by (simp add: keeps_def)
qed

lemma upto_maxi_lt: "cd_inv st \<Longrightarrow> \<forall>i\<in>set (upto_maxi st). i < length (clients st)"
  by (auto simp: upto_maxi_def cd_inv_def fd_inv_def)

lemma child_done_inv:
  assumes "child_done ev st = ret st'" and "cd_inv st" shows "cd_inv st' \<and> \<not> chld_flag st'"
proof -
  let ?st = "st\<lparr>chld_flag := False\<rparr>"
  have "keeps ?st st'"
    by (rule each_client_inv [where f = "child_done_one ev" and ks = "upto_maxi ?st"])
      (use child_done_one_inv assms upto_maxi_lt [of ?st] in \<open>auto simp: child_done_def Let_def\<close>)
  then show ?thesis by (simp add: keeps_def)
qed

lemma run_signals_inv: "run_signals st xs = ret st' \<Longrightarrow> cd_inv st \<Longrightarrow> cd_inv st'"
proof (induction xs arbitrary: st)
  case (Cons x xs)
  obtain st1 where s: "sig_chld st x = ret st1" "run_signals st1 xs = ret st'" using Cons.prems(1) by (auto simp: rbind_eq_ret)
  have "cd_inv st1"
  proof (cases "st1 = st\<lparr>chld_flag := True\<rparr>")
    case False
    then obtain i n where "st1 = upd_client (st\<lparr>chld_flag := True\<rparr>) i (\<lambda>c. c\<lparr>childdone := n\<rparr>)"
      using s(1) by (auto simp: sig_chld_def client_sigchld_def upd_client_def Let_def split: prod.splits chstat.splits option.splits)
    then show ?thesis using Cons.prems(2) by (simp add: cd_inv_upd)
  qed (use Cons.prems(2) in simp)
  then show ?case using Cons.IH [OF s(2)] by simp
qed simp

lemma length_client_alloc: "map cfd (client_alloc ev cs) = map cfd cs @ replicate NALLOC (- 1)"
  by (simp add: client_alloc_def o_def) (simp add: map_replicate_const)

lemma free_index_Some: "free_index cs = Some i \<Longrightarrow> i < length cs \<and> cfd (cs ! i) = - 1"
  by (induction cs arbitrary: i) (auto split: if_splits)

lemma client_add_inv:
  assumes "client_add ev (clients st) fd uid = (i, cs)" and "cd_inv st" and "0 \<le> fd" and "fd \<notin> allset st"
  shows "cd_inv (st\<lparr>clients := cs, allset := insert fd (allset st), maxi := max (maxi st) (int i)\<rparr>)"
proof -
  have put: "map cfd (put_client xs k fd uid) = (map cfd xs)[k := fd]" for xs k
    by (simp add: put_client_def map_update)
  have f: "fd_inv (map cfd (clients st)) (allset st) (listenfd st) (maxi st)" using assms(2) by (simp add: cd_inv_def)
  have "fd_inv (map cfd cs) (insert fd (allset st)) (listenfd st) (max (maxi st) (int i))"
  proof (cases "free_index (clients st)")
    case None
    then have "i = length (clients st)" "cs = put_client (client_alloc ev (clients st)) i fd uid"
      using assms(1) by (auto simp: client_add_def)
    then show ?thesis
      using fd_inv_add [OF fd_inv_grow [OF f], of i fd] assms(3,4)
      by (simp add: put length_client_alloc nth_append NALLOC_def)
  next
    case (Some k)
    then have "i = k" "cs = put_client (clients st) k fd uid" using assms(1) by (auto simp: client_add_def)
    then show ?thesis
      using fd_inv_add [OF f, of k fd] free_index_Some [OF Some] assms(3,4) by (simp add: put)
  qed
  then show ?thesis using assms(2) by (simp add: cd_inv_def locks_justified_def)
qed

subsection \<open>Reachable states\<close>

text \<open>The kernel hands out a descriptor that is not open.\<close>

definition ok_event :: "calld \<Rightarrow> selev \<Rightarrow> bool" where
  "ok_event st e = (case e of NewConn (Some (fd, uid)) \<Rightarrow> 0 \<le> fd \<and> fd \<notin> allset st | _ \<Rightarrow> True)"

inductive calld_step :: "cdenv \<Rightarrow> calld \<Rightarrow> calld \<Rightarrow> bool" for ev where
  iter: "ok_event st e \<Longrightarrow> loop_iter ev st e = ret st' \<Longrightarrow> calld_step ev st st'"

inductive calld_reach :: "cdenv \<Rightarrow> int \<Rightarrow> int list \<Rightarrow> calld \<Rightarrow> bool" for ev lfd ps where
  start: "calld_reach ev lfd ps (calld_init lfd ps)"
| step: "calld_reach ev lfd ps st \<Longrightarrow> calld_step ev st st' \<Longrightarrow> calld_reach ev lfd ps st'"

inductive_cases calld_stepE: "calld_step ev st st'"

lemma loop_iter_inv:
  assumes "loop_iter ev st e = ret st'" and "cd_inv st" and "\<not> chld_flag st" and "ok_event st e"
  shows "cd_inv st' \<and> \<not> chld_flag st'"
proof (cases e)
  case (Signals xs)
  then obtain st2 where "run_signals st xs = ret st2" "child_done ev st2 = ret st'"
    using assms(1,3) by (auto simp: loop_iter_def rbind_eq_ret)
  then show ?thesis using run_signals_inv [of st xs st2] child_done_inv [of ev st2 st'] assms(2) by simp
next
  case SelFails
  then show ?thesis using assms(1,3) by (simp add: loop_iter_def)
next
  case (NewConn c)
  then obtain fd uid where c: "c = Some (fd, uid)" using assms(1,3) by (cases c) (auto simp: loop_iter_def)
  obtain i cs where a: "client_add ev (clients st) fd uid = (i, cs)" by force
  have "st' = st\<lparr>clients := cs, allset := insert fd (allset st), maxi := max (maxi st) (int i)\<rparr>"
    using assms(1,3) NewConn c a by (simp add: loop_iter_def)
  then show ?thesis using client_add_inv [OF a assms(2)] assms(3,4) NewConn c by (simp add: ok_event_def)
next
  case (DataOn rd)
  let ?f = "\<lambda>i st. case rd (cfd (clients st ! i)) of None \<Rightarrow> ret st | Some d \<Rightarrow> client_ready ev i d st"
  have e: "each_client ?f (upto_maxi st) st = ret st'" using assms(1,3) DataOn by (simp add: loop_iter_def)
  have "keeps st st'"
  proof (rule each_client_inv [where f = ?f and ks = "upto_maxi st", OF _ e assms(2) upto_maxi_lt [OF assms(2)]])
    fix i s s' assume "?f i s = ret s'" "cd_inv s" "i < length (clients s)" "0 \<le> cfd (clients s ! i)"
    then show "keeps s s'" using client_ready_inv [of ev i _ s s'] by (auto simp: keeps_def split: option.splits)
  qed
  then show ?thesis using assms(3) by (simp add: keeps_def)
qed

lemma calld_init_inv: "0 \<le> lfd \<Longrightarrow> cd_inv (calld_init lfd ps)"
  by (simp add: cd_inv_def calld_init_def fd_inv_def lk_ok_def locks_justified_def holder_of_def)

lemma reach_inv: "calld_reach ev lfd ps st \<Longrightarrow> 0 \<le> lfd \<Longrightarrow> cd_inv st \<and> \<not> chld_flag st"
proof (induction rule: calld_reach.induct)
  case start
  then show ?case by (simp add: calld_init_inv) (simp add: calld_init_def)
next
  case (step st st')
  then show ?case using loop_iter_inv [of ev st _ st'] by (auto elim: calld_stepE)
qed


subsection \<open>A client that hangs up while its child dials\<close>

lemma request_first:
  assumes "sysfile ev = Some t" and "table_next sys_line t = ret (Some (sys, r))" and "dev_find (devfile ev) sys = ret (Inr dev)"
    and "clients st = c # cs" and "csysname c = s_name sys" and "cspeed c = []" and "sysftell c = 0"
    and "is_locked (lock st) (d_line dev) = (0, lk)" and "pids st = p # ps" and "0 \<le> p"
  shows "request ev 0 st = ret (0, st\<lparr>errmsg := [],
    clients := c\<lparr>cpid := p, sysftell := int (length t - length r), foundone := foundone c + 1\<rparr> # cs, pids := ps,
    lock := lock_set lk (d_line dev) p,
    children := children st @ [\<lparr>chpid = p, chfd = cfd c, chsys = sys, chdev = dev\<rparr>]\<rparr>)"
proof -
  have "request_loop ev 0 t t (st\<lparr>errmsg := []\<rparr>) = ret (True, st\<lparr>errmsg := [],
    clients := c\<lparr>cpid := p, sysftell := int (length t - length r), foundone := foundone c + 1\<rparr> # cs, pids := ps,
    lock := lock_set lk (d_line dev) p,
    children := children st @ [\<lparr>chpid = p, chfd = cfd c, chsys = sys, chdev = dev\<rparr>]\<rparr>)"
    using assms by (subst request_loop.simps) (simp add: request_entry_def start_child_def upd_client_def Let_def)
  then show ?thesis using assms by (simp add: request_def sys_posn_def open_table_def Let_def)
qed

definition plain_call :: "string \<Rightarrow> string \<Rightarrow> bool" where
  "plain_call buf name \<longleftrightarrow> buf \<noteq> [] \<and> last buf = nul \<and> buf_args buf = Some [CL_CALL, name] \<and> length name < MAXSYSNAME \<and>
     name \<noteq> [] \<and> hd name \<noteq> CHR ''-''"

lemma plain_call_ready:
  assumes "plain_call buf name"
  shows "client_ready ev i (RdBuf buf) st = try_request ev i
    (upd_client (st\<lparr>gopts := \<lparr>oDebug = False, oparity = NONE, ospeed = None, osysname = name\<rparr>\<rparr>) i
      (\<lambda>c. c\<lparr>cDebug := False, cparity := NONE, csysname := name, cspeed := [], childdone := 0, sysftell := 0, foundone := 0\<rparr>))"
proof -
  have "name \<noteq> ''--''" using assms by (auto simp: plain_call_def)
  then have "cli_args [CL_CALL, name] = Inr \<lparr>oDebug = False, oparity = NONE, ospeed = None, osysname = name\<rparr>"
    using assms by (simp add: cli_args_def plain_call_def)
  then show ?thesis using assms by (simp add: client_ready_def plain_call_def MAXSPEEDSTR_def)
qed

lemma pid_index_None: "\<forall>c\<in>set cs. cpid c \<noteq> p \<Longrightarrow> pid_index p cs = None"
  by (induction cs) auto

lemma is_locked_unknown: "lents lk = [] \<Longrightarrow> \<exists>n. is_locked lk line = (0, \<lparr>lents = [(line, 0)], lsize = n\<rparr>)"
  by (cases lk) (simp add: is_locked_def find_line_def Let_def)

lemma one_lock:
  "lock_set \<lparr>lents = [(line, q)], lsize = n\<rparr> line p = \<lparr>lents = [(line, p)], lsize = n\<rparr>"
  "lock_rel \<lparr>lents = [(line, p)], lsize = n\<rparr> p = \<lparr>lents = [(line, 0)], lsize = n\<rparr>"
  "is_locked \<lparr>lents = [(line, q)], lsize = n\<rparr> line = (q, \<lparr>lents = [(line, q)], lsize = n\<rparr>)"
  by (simp_all add: lock_set_def lock_rel_def is_locked_def find_line_def)

text \<open>The four kinds of iteration with a single client in slot 0.\<close>

lemma iter_data:
  "\<not> chld_flag st \<Longrightarrow> maxi st = 0 \<Longrightarrow> clients st = c # cs \<Longrightarrow> cfd c = f \<Longrightarrow> 0 \<le> f \<Longrightarrow>
     loop_iter ev st (DataOn [f \<mapsto> d]) = client_ready ev 0 d st"
  by (cases "client_ready ev 0 d st") (auto simp: loop_iter_def upto_maxi_def rbind_def split: sum.splits)

lemma iter_conn:
  "\<not> chld_flag st \<Longrightarrow> clients st = c # cs \<Longrightarrow> cfd c = - 1 \<Longrightarrow> maxi st = 0 \<Longrightarrow>
     loop_iter ev st (NewConn (Some (f, v))) =
       ret (st\<lparr>clients := c\<lparr>cfd := f, cuid := v\<rparr> # cs, allset := insert f (allset st), maxi := 0\<rparr>)"
  by (simp add: loop_iter_def client_add_def put_client_def)

lemma ready_eof:
  "clients st = c # cs \<Longrightarrow> client_ready ev 0 RdEof st =
     ret (st\<lparr>lock := lock_rel (lock st) (cpid c), clients := c\<lparr>cfd := - 1\<rparr> # cs, allset := allset st - {cfd c},
       closedfds := closedfds st @ [cfd c]\<rparr>)"
  by (simp add: client_ready_def Let_def cli_done_def client_del_def)

lemma ready_call:
  assumes "sysfile ev = Some t" and "table_next sys_line t = ret (Some (sys, r))" and "dev_find (devfile ev) sys = ret (Inr dev)"
    and "plain_call buf (s_name sys)" and "clients st = c # cs" and "is_locked (lock st) (d_line dev) = (0, lk)"
    and "pids st = p # ps" and "0 \<le> p"
  shows "\<exists>c' g. client_ready ev 0 (RdBuf buf) st = ret (st\<lparr>gopts := g, errmsg := [], clients := c' # cs, pids := ps,
      lock := lock_set lk (d_line dev) p, children := children st @ [\<lparr>chpid = p, chfd = cfd c, chsys = sys, chdev = dev\<rparr>]\<rparr>) \<and>
    cfd c' = cfd c \<and> cpid c' = p"
proof -
  let ?g = "\<lparr>oDebug = False, oparity = NONE, ospeed = None, osysname = s_name sys\<rparr>"
  let ?c = "c\<lparr>cDebug := False, cparity := NONE, csysname := s_name sys, cspeed := [], childdone := 0, sysftell := 0, foundone := 0\<rparr>"
  let ?st = "st\<lparr>gopts := ?g, clients := ?c # cs\<rparr>"
  have "upd_client (st\<lparr>gopts := ?g\<rparr>) 0 (\<lambda>c. c\<lparr>cDebug := False, cparity := NONE, csysname := s_name sys, cspeed := [],
      childdone := 0, sysftell := 0, foundone := 0\<rparr>) = ?st"
    using assms(5) by (simp add: upd_client_def)
  moreover note request_first [OF assms(1-3), of ?st ?c cs lk p ps]
  ultimately show ?thesis
    unfolding plain_call_ready [OF assms(4)] using assms(5-8)
    by (intro exI [of _ "?c\<lparr>cpid := p, sysftell := int (length t - length r), foundone := 1\<rparr>"] exI [of _ ?g])
      (simp add: try_request_def)
qed

text \<open>
  A client that hangs up while its child is still dialing loses its device lock at once, and its
  slot keeps the child's process number.  If another client then takes the slot and asks for the
  same system, a second child dials on the same line while the first still does; and when the first
  child ends, no slot holds its number any more and the whole daemon quits.
\<close>

theorem hangup_while_dialing:
  assumes "sysfile ev = Some t" and "table_next sys_line t = ret (Some (sys, r))" and "dev_find (devfile ev) sys = ret (Inr dev)"
    and "plain_call buf (s_name sys)" and "0 < p1" and "0 < p2" and "p1 \<noteq> p2" and "0 \<le> f"
    and "\<forall>i. cpid (junkc ev i) \<noteq> p1"
  shows "\<exists>st. run_loop ev (calld_init lfd [p1, p2])
      [NewConn (Some (f, u)), DataOn [f \<mapsto> RdBuf buf], DataOn [f \<mapsto> RdEof], NewConn (Some (f, v)), DataOn [f \<mapsto> RdBuf buf]] = ret st \<and>
    map (\<lambda>c. (chpid c, d_line (chdev c))) (children st) = [(p1, d_line dev), (p2, d_line dev)] \<and>
    loop_iter ev st (Signals [(p1, Exited n)]) = die (LogQuit ''can't find client entry for pid %d'')"
proof -
  let ?e = "map (\<lambda>i. (junkc ev i)\<lparr>cfd := - 1\<rparr>)"
  define c0 where "c0 = (junkc ev 0)\<lparr>cfd := f, cuid := u\<rparr>"
  define cs where "cs = ?e [1..<10]"
  define s0 where "s0 = calld_init lfd [p1, p2]"
  define s1 where "s1 = s0\<lparr>clients := c0 # cs, allset := insert f (allset s0), maxi := 0\<rparr>"
  have f: "\<not> chld_flag s0" "lents (lock s0) = []" "pids s0 = [p1, p2]" "children s0 = []"
    by (simp_all add: s0_def calld_init_def)
  have e10: "?e [0..<10] = (junkc ev 0)\<lparr>cfd := - 1\<rparr> # cs" by (simp add: upt_conv_Cons cs_def)
  have i1: "loop_iter ev s0 (NewConn (Some (f, u))) = ret s1"
    by (simp add: s0_def s1_def calld_init_def loop_iter_def client_add_def client_alloc_def put_client_def NALLOC_def e10 c0_def)
  obtain n1 where l1: "is_locked (lock s1) (d_line dev) = (0, \<lparr>lents = [(d_line dev, 0)], lsize = n1\<rparr>)"
    using is_locked_unknown [OF f(2), of "d_line dev"] by (auto simp: s1_def)
  obtain c2 g2 s2 where i2: "client_ready ev 0 (RdBuf buf) s1 = ret s2"
    and s2: "s2 = s1\<lparr>gopts := g2, errmsg := [], clients := c2 # cs, pids := [p2],
      lock := lock_set \<lparr>lents = [(d_line dev, 0)], lsize = n1\<rparr> (d_line dev) p1,
      children := children s1 @ [\<lparr>chpid = p1, chfd = cfd c0, chsys = sys, chdev = dev\<rparr>]\<rparr>"
    and c2: "cfd c2 = f" "cpid c2 = p1"
    using ready_call [OF assms(1-4), of s1 c0 cs _ p1 "[p2]"] l1 f assms(5) by (auto simp: s1_def c0_def)
  define s3 where "s3 = s2\<lparr>lock := lock_rel (lock s2) (cpid c2), clients := c2\<lparr>cfd := - 1\<rparr> # cs,
      allset := allset s2 - {cfd c2}, closedfds := closedfds s2 @ [cfd c2]\<rparr>"
  have i3: "client_ready ev 0 RdEof s2 = ret s3" using ready_eof [of s2 c2 cs ev] by (simp add: s2 s3_def)
  define s4 where "s4 = s3\<lparr>clients := c2\<lparr>cfd := f, cuid := v\<rparr> # cs, allset := insert f (allset s3), maxi := 0\<rparr>"
  have i4: "loop_iter ev s3 (NewConn (Some (f, v))) = ret s4"
    using iter_conn [of s3 "c2\<lparr>cfd := - 1\<rparr>" cs ev f v] f by (simp add: s3_def s2 s1_def s4_def)
  have l4: "is_locked (lock s4) (d_line dev) = (0, \<lparr>lents = [(d_line dev, 0)], lsize = n1\<rparr>)"
    by (simp add: s4_def s3_def s2 c2 one_lock)
  obtain c5 g5 s5 where i5: "client_ready ev 0 (RdBuf buf) s4 = ret s5"
    and s5: "s5 = s4\<lparr>gopts := g5, errmsg := [], clients := c5 # cs, pids := [],
      lock := lock_set \<lparr>lents = [(d_line dev, 0)], lsize = n1\<rparr> (d_line dev) p2,
      children := children s4 @ [\<lparr>chpid = p2, chfd = f, chsys = sys, chdev = dev\<rparr>]\<rparr>"
    and c5: "cpid c5 = p2"
    using ready_call [OF assms(1-4), of s4 "c2\<lparr>cfd := f, cuid := v\<rparr>" cs _ p2 "[]"] l4 assms(6)
    by (auto simp: s4_def s3_def s2)
  have d: "loop_iter ev s1 (DataOn [f \<mapsto> RdBuf buf]) = ret s2" "loop_iter ev s2 (DataOn [f \<mapsto> RdEof]) = ret s3"
      "loop_iter ev s4 (DataOn [f \<mapsto> RdBuf buf]) = ret s5"
    using iter_data [of s1 c0 cs f ev "RdBuf buf"] iter_data [of s2 c2 cs f ev RdEof]
      iter_data [of s4 "c2\<lparr>cfd := f, cuid := v\<rparr>" cs f ev "RdBuf buf"] i2 i3 i5 c2 f assms(8)
    by (simp_all add: s1_def c0_def s2 s3_def s4_def)
  have "run_loop ev s0 [NewConn (Some (f, u)), DataOn [f \<mapsto> RdBuf buf], DataOn [f \<mapsto> RdEof], NewConn (Some (f, v)),
      DataOn [f \<mapsto> RdBuf buf]] = ret s5"
    by (simp add: i1 d i4)
  moreover have "map (\<lambda>c. (chpid c, d_line (chdev c))) (children s5) = [(p1, d_line dev), (p2, d_line dev)]"
    using f by (simp add: s5 s4_def s3_def s2 s1_def)
  moreover have "pid_index p1 (clients s5) = None"
    by (rule pid_index_None) (use c5 assms(7,9) in \<open>auto simp: s5 cs_def\<close>)
  then have "loop_iter ev s5 (Signals [(p1, Exited n)]) = die (LogQuit ''can't find client entry for pid %d'')"
    using f by (simp add: loop_iter_def sig_chld_def client_sigchld_def s5 s4_def s3_def s2 s1_def Let_def)
  ultimately show ?thesis by (auto simp: s0_def)
qed

subsection \<open>A concrete daemon\<close>

definition sample_cd :: cdenv where
  "sample_cd = \<lparr>sysfile = Some (''# name'' @ [newline] @ ''alpha Any ACU 9600 5551212 login'' @ [newline]),
     devfile = Some (''ACU cua0 - 9600 hayes'' @ [newline]), dialfile = None, badfd = (\<lambda>_. False),
     junkc = (\<lambda>_. \<lparr>cfd = 7, cpid = 0, cuid = 0, childdone = 0, sysftell = 0, foundone = 0, cDebug = False, cparity = NONE,
       cspeed = [], csysname = []\<rparr>)\<rparr>"

definition sample_sys :: systems where
  "sample_sys = \<lparr>s_name = ''alpha'', s_time = ''Any'', s_type = ''ACU'', s_class = ''9600'', s_phone = ''5551212'', s_login = ''login''\<rparr>"

definition sample_dev :: devices where
  "sample_dev = \<lparr>d_type = ''ACU'', d_line = ''cua0'', d_line2 = ''-'', d_class = ''9600'', d_dialer = ''hayes''\<rparr>"

definition sample_call :: string where
  "sample_call = ''call alpha'' @ [nul]"

lemma sample_sysfile:
  "table_next sys_line (''# name'' @ [newline] @ ''alpha Any ACU 9600 5551212 login'' @ [newline]) = ret (Some (sample_sys, []))"
proof -
  have "table_next sys_line (''alpha Any ACU 9600 5551212 login'' @ [newline]) = ret (Some (sample_sys, []))"
    by (subst table_next.simps) code_simp
  moreover have "fgets (MAXLINE - 1) (''# name'' @ [newline] @ ''alpha Any ACU 9600 5551212 login'' @ [newline]) =
      (''# name'' @ [newline], ''alpha Any ACU 9600 5551212 login'' @ [newline])" by code_simp
  moreover have "sys_line (cstr (''# name'' @ [newline])) = ret None" by code_simp
  ultimately show ?thesis by (subst table_next.simps) simp
qed

lemma sample_devfile: "dev_find (devfile sample_cd) sample_sys = ret (Inr sample_dev)"
proof -
  have "table_next dev_line (''ACU cua0 - 9600 hayes'' @ [newline]) = ret (Some (sample_dev, []))"
    by (subst table_next.simps) code_simp
  then show ?thesis
    by (simp add: dev_find_def sample_cd_def open_table_def) (subst dev_find_loop.simps, simp add: dev_next_def sample_dev_def sample_sys_def)
qed

lemma sample_call_plain: "plain_call sample_call (s_name sample_sys)"
proof -
  have e: "buf_args_loop 1 [''call'', ''alpha''] [] = Some [''call'', ''alpha'']"
    by (subst buf_args_loop.simps) (simp add: strtok_def)
  have "strtok white (cstr sample_call) = Some (''call'', ''alpha'')" "takeWhile white (cstr sample_call) = []"
    and a: "strtok white ''alpha'' = Some (''alpha'', [])" by code_simp+
  moreover have "buf_args_loop 0 [''call''] ''alpha'' = Some [''call'', ''alpha'']"
    using e by (subst buf_args_loop.simps) (simp add: a MAXARGC_def)
  ultimately have "buf_args sample_call = Some [CL_CALL, ''alpha'']"
    by (simp add: buf_args_def CL_CALL_def)
  then show ?thesis by (simp add: plain_call_def sample_call_def sample_sys_def MAXSYSNAME_def)
qed

theorem hangup_while_dialing_witness:
  "\<exists>st. run_loop sample_cd (calld_init 3 [100, 101])
      [NewConn (Some (5, 1)), DataOn [5 \<mapsto> RdBuf sample_call], DataOn [5 \<mapsto> RdEof], NewConn (Some (5, 2)), DataOn [5 \<mapsto> RdBuf sample_call]] = ret st \<and>
    map (\<lambda>c. (chpid c, d_line (chdev c))) (children st) = [(100, ''cua0''), (101, ''cua0'')] \<and>
    loop_iter sample_cd st (Signals [(100, Exited 1)]) = die (LogQuit ''can't find client entry for pid %d'')"
  using hangup_while_dialing [of sample_cd _ sample_sys "[]" sample_dev sample_call 100 101 5 3 1 2 1]
    sample_sysfile sample_devfile sample_call_plain by (simp add: sample_cd_def sample_dev_def)

theorem request_locks_free_device_witness:
  "\<exists>st st'. length (clients st) = 10 \<and> request sample_cd 0 st = ret (0, st') \<and> started sample_cd 0 st st'"
proof -
  define st where "st = (calld_init 3 [100])\<lparr>clients := (junkc sample_cd 0)\<lparr>csysname := ''alpha''\<rparr> # replicate 9 (junkc sample_cd 0)\<rparr>"
  have l: "lents (lock st) = []" "clients st = (junkc sample_cd 0)\<lparr>csysname := ''alpha''\<rparr> # replicate 9 (junkc sample_cd 0)" "pids st = [100]"
    by (simp_all add: st_def calld_init_def)
  obtain n where n: "is_locked (lock st) (d_line sample_dev) = (0, \<lparr>lents = [(d_line sample_dev, 0)], lsize = n\<rparr>)"
    using is_locked_unknown [OF l(1)] by blast
  have "\<exists>st'. request sample_cd 0 st = ret (0, st')"
    using request_first [of sample_cd _ sample_sys "[]" sample_dev, OF _ _ sample_devfile l(2) _ _ _ n l(3)] sample_sysfile
    by (simp add: sample_cd_def sample_sys_def)
  then obtain st' where r: "request sample_cd 0 st = ret (0, st')" by blast
  have "lk_ok (lock st)" using l by (simp add: st_def calld_init_def lk_ok_def)
  from request_locks_free_device [OF r this] l(2) r show ?thesis by (intro exI [of _ st] exI [of _ st']) simp
qed


end
