(* ===== verification/CalldDial.thy ===== *)
theory CalldDial
  imports CalldModel IoModel
begin

section \<open>The modem daemon: the dialing child\<close>

text \<open>
  \<^verbatim>\<open>expectstr.c\<close>, \<^verbatim>\<open>sendstr.c\<close>, \<^verbatim>\<open>ttydial.c\<close>, \<^verbatim>\<open>ttyopen.c\<close>, \<^verbatim>\<open>ctlstr.c\<close> and \<^verbatim>\<open>childdial.c\<close>.  The terminal
  line is the bytes that arrive in time and what comes behind them: silence (\<open>Quiet\<close>), in which the
  45 second alarm of an expect string goes off, or an error of \<^verbatim>\<open>read\<close>.  \<^verbatim>\<open>exp_read\<close> returns a \<^verbatim>\<open>size_t\<close>, so
  the tests \<^verbatim>\<open>exp_read(...) < 0\<close> never hold: after the alarm it keeps returning without a byte.
\<close>

datatype lineend = Quiet | LineErr

record ttyin =
  tbytes_in :: string
  tend :: lineend

definition ctl_str :: "char \<Rightarrow> string" where
  "ctl_str c = (let n = of_char c :: nat in
     if n = 0 then [CHR 0x5C, CHR ''0'']
     else if n < 32 then [CHR ''^'', char_of (n + 64)]
     else if n = 127 then ''DEL''
     else if n > 127 then [CHR 0x5C, digit (n div 64), digit (n div 8 mod 8), digit (n mod 8)]
     else [c])"

subsection \<open>Expecting a string\<close>

definition backslash :: char where "backslash = CHR 0x5C"
definition cr :: char where "cr = CHR 0x0D"

text \<open>The copy of the expect string \<open>p\<close> with its escapes; \<open>Inl\<close>: -1 with the message.\<close>

fun unescape :: "string \<Rightarrow> string \<Rightarrow> string + string" where
  "unescape p [] = Inr []"
| "unescape p (c # r) =
     (if c = backslash then
        (case r of
           [] \<Rightarrow> Inl (''invalid expect string: '' @ p @ [newline])
         | e # r' \<Rightarrow>
           if e = CHR ''r'' then map_sum id (\<lambda>s. cr # s) (unescape p r')
           else if e = CHR ''s'' then map_sum id (\<lambda>s. CHR '' '' # s) (unescape p r')
           else Inl (''unknown expect escape char: '' @ [backslash] @ ctl_str e @ [newline]))
      else map_sum id (\<lambda>s. c # s) (unescape p r))"

text \<open>One byte, \<open>None\<close> after the alarm.\<close>

definition exp_read :: "ttyin \<Rightarrow> (char option \<times> ttyin) run" where
  "exp_read t = (case tbytes_in t of
       c # s \<Rightarrow> ret (Some c, t\<lparr>tbytes_in := s\<rparr>)
     | [] \<Rightarrow> (case tend t of Quiet \<Rightarrow> ret (None, t) | LineErr \<Rightarrow> die (LogSys ''read error'')))"

text \<open>\<^verbatim>\<open>do ... while (c != expstr[0])\<close>.\<close>

partial_function (option) skip_to_first :: "char \<Rightarrow> char \<Rightarrow> ttyin \<Rightarrow> ttyin run" where
  "skip_to_first e0 c t = rbind (exp_read t) (\<lambda>x.
     let c = (case fst x of None \<Rightarrow> c | Some c' \<Rightarrow> c') in
     if c \<noteq> e0 then skip_to_first e0 c (snd x) else ret (snd x))"

text \<open>One more byte at \<open>inptr\<close> of \<^verbatim>\<open>inbuf\<close>.\<close>

definition inbuf_read :: "(nat \<Rightarrow> char) \<Rightarrow> nat \<Rightarrow> ttyin \<Rightarrow> ((nat \<Rightarrow> char) \<times> ttyin) run" where
  "inbuf_read buf inptr t = rbind (guard (inptr < MAXLINE) (Undef ''inbuf overflows'')) (\<lambda>_.
     rbind (exp_read t) (\<lambda>(r, t). ret (case r of None \<Rightarrow> buf | Some c \<Rightarrow> buf(inptr := c), t)))"

fun read_window :: "(nat \<Rightarrow> char) \<Rightarrow> nat list \<Rightarrow> ttyin \<Rightarrow> ((nat \<Rightarrow> char) \<times> ttyin) run" where
  "read_window buf [] t = ret (buf, t)"
| "read_window buf (i # is) t = rbind (inbuf_read buf i t) (\<lambda>(buf, t). read_window buf is t)"

text \<open>Compare the window at \<open>cmpptr\<close>, else read one byte and slide.\<close>

function match_loop :: "string \<Rightarrow> (nat \<Rightarrow> char) \<Rightarrow> nat \<Rightarrow> nat \<Rightarrow> ttyin \<Rightarrow> ttyin run" where
  "match_loop ex buf cmpptr inptr t =
     (if map buf [cmpptr ..< cmpptr + length ex] = ex then ret t
      else if MAXLINE \<le> Suc inptr then die (Undef ''inbuf overflows'')
      else rbind (inbuf_read buf (Suc inptr) t) (\<lambda>(buf, t). match_loop ex buf (Suc cmpptr) (Suc inptr) t))"
  by pat_completeness auto
termination by (relation "measure (\<lambda>(ex, buf, cmpptr, inptr, t). MAXLINE - inptr)") auto

declare match_loop.simps [simp del]

text \<open>\<open>jk\<close> is the indeterminate initial content of \<^verbatim>\<open>inbuf\<close> and, at \<open>MAXLINE\<close>, of \<^verbatim>\<open>c\<close>; the result is \<open>Inl\<close> the message with -1, or the line afterwards.\<close>

definition expect_str :: "(nat \<Rightarrow> char) \<Rightarrow> string \<Rightarrow> ttyin \<Rightarrow> (string + ttyin) run" where
  "expect_str jk ptr t =
     (if ptr = [CHR 0x22, CHR 0x22] then ret (Inr t)
      else case unescape ptr ptr of
        Inl e \<Rightarrow> ret (Inl e)
      | Inr ex \<Rightarrow>
        let e0 = (case ex of [] \<Rightarrow> nul | x # _ \<Rightarrow> x) in
        rbind (skip_to_first e0 (jk MAXLINE) t) (\<lambda>t.
        rbind (read_window (jk(0 := e0)) [1..<length ex] t) (\<lambda>(buf, t).
        rbind (match_loop ex buf 0 (length ex - 1) t) (\<lambda>t. ret (Inr t)))))"

subsection \<open>Sending a string\<close>

datatype sent_item = Byte char | Delay nat   \<comment> \<open>milliseconds\<close>

text \<open>Wait for the echo of \<open>c\<close>; without more input the read blocks for ever.\<close>

definition wait_echo :: "char \<Rightarrow> ttyin \<Rightarrow> ttyin run" where
  "wait_echo c t = (let r = dropWhile (\<lambda>x. x \<noteq> c) (tbytes_in t) in
     if r = [] then (case tend t of Quiet \<Rightarrow> None | LineErr \<Rightarrow> die (LogSys ''read error''))
     else ret (t\<lparr>tbytes_in := tl r\<rparr>))"

definition put_char :: "char \<Rightarrow> bool \<Rightarrow> sent_item list \<Rightarrow> ttyin \<Rightarrow> (sent_item list \<times> ttyin) run" where
  "put_char c echocheck out t = rbind (if echocheck then wait_echo c t else ret t) (\<lambda>t. ret (out @ [Byte c], t))"

text \<open>
  The result: the error message of -1 or \<open>None\<close>, what was written, the line afterwards.  The result of
  the recursive call for \<^verbatim>\<open>\T\<close> is ignored.
\<close>

partial_function (option) send_str ::
    "string \<Rightarrow> string \<Rightarrow> bool \<Rightarrow> sent_item list \<Rightarrow> ttyin \<Rightarrow> (string option \<times> sent_item list \<times> ttyin) run" where
  "send_str ptr phone echocheck out t =
     (if ptr = [] then ret (None, out @ [Byte cr], t)
      else
        let c = hd ptr; r = tl ptr in
        if c \<noteq> backslash then
          rbind (put_char c echocheck out t) (\<lambda>x. send_str r phone echocheck (fst x) (snd x))
        else if r = [] then ret (Some (''backslash at end of send string'' @ [newline]), out, t)
        else
          let e = hd r; r = tl r in
          if e = CHR ''c'' then (if r = [] then ret (None, out, t) else send_str r phone echocheck out t)
          else if e = CHR ''d'' then send_str r phone echocheck (out @ [Delay 2000]) t
          else if e = CHR ''p'' then send_str r phone echocheck (out @ [Delay 250]) t
          else if e = CHR ''e'' then send_str r phone False out t
          else if e = CHR ''E'' then send_str r phone True out t
          else if e = CHR ''T'' then
            rbind (send_str phone phone echocheck out t) (\<lambda>x. send_str r phone echocheck (fst (snd x)) (snd (snd x)))
          else if e = CHR ''r'' then
            rbind (put_char cr echocheck out t) (\<lambda>x. send_str r phone echocheck (fst x) (snd x))
          else if e = CHR ''s'' then
            rbind (put_char (CHR '' '') echocheck out t) (\<lambda>x. send_str r phone echocheck (fst x) (snd x))
          else ret (Some (''unknown send escape char: '' @ [backslash] @ ctl_str e @ [newline]), out, t))"

subsection \<open>The chat\<close>

text \<open>The loop of \<^verbatim>\<open>tty_dial\<close> with the expect string \<open>ptr\<close>; \<open>s\<close> is what \<^verbatim>\<open>strtok\<close> has left.\<close>

function tty_dial_loop ::
    "(nat \<Rightarrow> char) \<Rightarrow> string \<Rightarrow> string \<Rightarrow> string \<Rightarrow> sent_item list \<Rightarrow> ttyin \<Rightarrow> (string option \<times> sent_item list \<times> ttyin) run" where
  "tty_dial_loop jk phone ptr s out t =
     rbind (expect_str jk ptr t) (\<lambda>x. case x of
       Inl e \<Rightarrow> ret (Some e, out, t)
     | Inr t \<Rightarrow>
       (case strtok white s of
          None \<Rightarrow> ret (None, out, t)
        | Some (p, s1) \<Rightarrow>
          rbind (send_str p phone False out t) (\<lambda>(err, out, t). case err of
            Some e \<Rightarrow> ret (Some e, out, t)
          | None \<Rightarrow>
            (case strtok white s1 of
               None \<Rightarrow> ret (None, out, t)
             | Some (p2, s2) \<Rightarrow> tty_dial_loop jk phone p2 s2 out t))))"
  by pat_completeness auto
termination
  by (relation "measure (\<lambda>(jk, phone, ptr, s, out, t). length s)") (auto dest!: strtok_shorter)

declare tty_dial_loop.simps [simp del]

definition tty_dial :: "(nat \<Rightarrow> char) \<Rightarrow> string \<Rightarrow> string \<Rightarrow> ttyin \<Rightarrow> (string option \<times> sent_item list \<times> ttyin) run" where
  "tty_dial jk phone expsend t = (case strtok white expsend of
       None \<Rightarrow> die (Undef ''expect_str(fd, NULL)'')
     | Some (p, s) \<Rightarrow> tty_dial_loop jk phone p s [] t)"

subsection \<open>Opening the line\<close>

datatype tflag = CS7 | CS8 | PARENB | PARODD | CREAD | HUPCL | CLOCAL | IXON | IXOFF | IGNBRK | ISTRIP | IGNPAR |
  ECHO | ECHOE | ECHOK | ECHONL | ICANON | ISIG | IEXTEN | BRKINT | ICRNL | INPCK | OPOST | ONLCR

record termios =
  c_iflag :: "tflag set"
  c_oflag :: "tflag set"
  c_cflag :: "tflag set"
  c_lflag :: "tflag set"
  vmin :: nat
  vtime :: nat
  speed_io :: nat

definition bauds :: "(string \<times> nat) list" where
  "bauds = [(''38400'', 38400), (''19200'', 19200), (''9600'', 9600), (''4800'', 4800), (''2400'', 2400), (''1800'', 1800),
     (''1200'', 1200), (''600'', 600), (''300'', 300), (''200'', 200), (''150'', 150), (''134'', 134), (''110'', 110),
     (''75'', 75), (''50'', 50)]"

text \<open>What the system says about the device: \<open>Inl\<close> the text of the error of \<^verbatim>\<open>open\<close>.\<close>

record ttyenv =
  t_open :: "string + int"
  t_isatty :: bool
  t_getfail :: bool
  t_setfail :: bool
  t_attr :: termios

definition parity_flags :: "parity \<Rightarrow> tflag set" where
  "parity_flags p = (case p of NONE \<Rightarrow> {CS8} | EVEN \<Rightarrow> {CS7, PARENB} | ODD \<Rightarrow> {CS7, PARENB, PARODD})"

text \<open>The descriptor and the attributes set on it, or the error message.\<close>

definition tty_open :: "ttyenv \<Rightarrow> string \<Rightarrow> string \<Rightarrow> parity \<Rightarrow> bool \<Rightarrow> (string + int \<times> termios) run" where
  "tty_open te class line par modem =
     rbind (guard (length (''/dev/'' @ line) < 100) (Undef ''devname overflows'')) (\<lambda>_.
     let devname = ''/dev/'' @ line in
     case t_open te of
       Inl msg \<Rightarrow> ret (Inl (''can't open '' @ devname @ '': '' @ msg @ [newline]))
     | Inr fd \<Rightarrow>
       if \<not> t_isatty te then ret (Inl (devname @ '' is not a tty'' @ [newline]))
       else
         rbind (guard (\<not> t_getfail te) (LogSys ''tcgetattr error'')) (\<lambda>_.
         let term = (t_attr te)\<lparr>c_cflag := parity_flags par \<union> {CREAD, HUPCL} \<union> (if modem then {} else {CLOCAL}),
           c_oflag := {}, c_iflag := {IXON, IXOFF, IGNBRK, ISTRIP, IGNPAR}, c_lflag := {}, vmin := 1, vtime := 0\<rparr> in
         case map_of bauds class of
           None \<Rightarrow> ret (Inl (''invalid baud rate: '' @ class @ [newline]))
         | Some baud \<Rightarrow>
           rbind (guard (\<not> t_setfail te) (LogSys ''tcsetattr error'')) (\<lambda>_.
           ret (Inr (fd, term\<lparr>speed_io := baud\<rparr>)))))"

text \<open>
  The child: \<open>Inr\<close> the descriptor it passes to the client and what it wrote to the line, with
  \<^verbatim>\<open>exit(0)\<close>, or \<open>Inl\<close> the message it writes to the client, with \<^verbatim>\<open>exit(1)\<close>.
\<close>

definition child_dial ::
    "cdenv \<Rightarrow> ttyenv \<Rightarrow> (nat \<Rightarrow> char) \<Rightarrow> ttyin \<Rightarrow> parity \<Rightarrow> systems \<Rightarrow> devices \<Rightarrow> (string + int \<times> sent_item list) run" where
  "child_dial ev te jk t par sys dev =
     (if d_dialer dev = ''direct'' then
        rbind (tty_open te (s_class sys) (d_line dev) par False) (\<lambda>r. case r of
          Inl e \<Rightarrow> ret (Inl e) | Inr (fd, _) \<Rightarrow> ret (Inr (fd, [])))
      else
        rbind (dial_find (dialfile ev) dev) (\<lambda>d. case d of Inl e \<Rightarrow> ret (Inl e) | Inr dl \<Rightarrow>
        rbind (tty_open te (s_class sys) (d_line dev) par True) (\<lambda>r. case r of
          Inl e \<Rightarrow> ret (Inl e)
        | Inr (fd, _) \<Rightarrow>
          rbind (tty_dial jk (s_phone sys) (x_expsend dl) t) (\<lambda>(err, out, t).
          ret (case err of Some e \<Rightarrow> Inl e | None \<Rightarrow> Inr (fd, out))))))"

end
