(* ===== verification/CalldDialProps.thy ===== *)
theory CalldDialProps
  imports CalldDial
begin

section \<open>The modem daemon: properties of the dialing child\<close>

subsection \<open>Expecting\<close>

lemma skip_to_first_found:
  "x \<notin> set pre \<Longrightarrow> skip_to_first x c \<lparr>tbytes_in = pre @ x # s, tend = e\<rparr> = ret \<lparr>tbytes_in = s, tend = e\<rparr>"
proof (induction pre arbitrary: c)
  case Nil
  then show ?case by (subst skip_to_first.simps) (simp add: exp_read_def)
next
  case (Cons y pre)
  then have "y \<noteq> x" by auto
  then show ?case using Cons by (subst skip_to_first.simps) (simp add: exp_read_def)
qed

text \<open>The buffer after reading \<open>s\<close> from index \<open>k\<close> on.\<close>

definition fill :: "(nat \<Rightarrow> char) \<Rightarrow> nat \<Rightarrow> string \<Rightarrow> nat \<Rightarrow> char" where
  "fill buf k s i = (if k \<le> i \<and> i < k + length s then s ! (i - k) else buf i)"

lemma fill_Nil [simp]: "fill buf k [] = buf"
  by (auto simp: fill_def fun_eq_iff)

lemma fill_Cons: "fill buf k (x # s) = fill (buf(k := x)) (Suc k) s"
proof
  fix i
  show "fill buf k (x # s) i = fill (buf(k := x)) (Suc k) s i"
  proof (cases "i = k")
    case False
    then show ?thesis by (cases "k < i") (auto simp: fill_def nth_Cons')
  qed (simp add: fill_def)
qed

lemma read_window_all:
  "k + length s \<le> MAXLINE \<Longrightarrow>
     read_window buf [k ..< k + length s] \<lparr>tbytes_in = s @ r, tend = e\<rparr> = ret (fill buf k s, \<lparr>tbytes_in = r, tend = e\<rparr>)"
proof (induction s arbitrary: k buf)
  case (Cons x s)
  have "[k ..< k + length (x # s)] = k # [Suc k ..< Suc k + length s]" by (subst upt_conv_Cons) simp_all
  moreover have "k < MAXLINE" using Cons.prems by simp
  ultimately show ?case
    using Cons.prems Cons.IH [of "Suc k" "buf(k := x)"]
    by (simp add: inbuf_read_def exp_read_def fill_Cons del: upt_Suc upt_conv_Cons fun_upd_apply)
qed simp

lemma map_fill: "map (fill buf 0 s) [i ..< i + n] = take n (drop i s)" if "i + n \<le> length s"
  by (rule nth_equalityI) (use that in \<open>auto simp: fill_def\<close>)

lemma fill_snoc: "(fill buf 0 s)(length s := x) = fill buf 0 (s @ [x])"
  by (auto simp: fill_def fun_eq_iff nth_append)

text \<open>Sliding over what was read so far, \<open>w\<close>, while the rest \<open>u\<close> up to the match is still to be read.\<close>

lemma match_loop_slides:
  assumes "w \<noteq> []" and "length ex \<le> length w" and "ex \<noteq> []" and "length (w @ u) \<le> MAXLINE"
    and "drop (length (w @ u) - length ex) (w @ u) = ex"
    and "\<And>i. length w - length ex \<le> i \<Longrightarrow> i < length (w @ u) - length ex \<Longrightarrow> take (length ex) (drop i (w @ u)) \<noteq> ex"
  shows "match_loop ex (fill buf 0 w) (length w - length ex) (length w - 1) \<lparr>tbytes_in = u @ r, tend = e\<rparr> =
    ret \<lparr>tbytes_in = r, tend = e\<rparr>"
  using assms
proof (induction u arbitrary: w)
  case Nil
  have "map (fill buf 0 w) [length w - length ex ..< length w - length ex + length ex] = ex"
    using Nil.prems by (subst map_fill) simp_all
  then show ?case by (subst match_loop.simps) simp
next
  case (Cons x u)
  let ?i = "length w - length ex"
  have "take (length ex) (drop ?i (w @ x # u)) \<noteq> ex"
    by (rule Cons.prems(6)) (use Cons.prems(2) in auto)
  then have ne: "map (fill buf 0 w) [?i ..< ?i + length ex] \<noteq> ex"
    using Cons.prems(2) by (subst map_fill) simp_all
  have l: "Suc (length w - 1) = length w" "Suc (length w - length ex) = length (w @ [x]) - length ex"
    using Cons.prems(1,2) by (auto simp: Suc_diff_le)
  have lt: "length w < MAXLINE" using Cons.prems(4) by simp
  have rd: "inbuf_read (fill buf 0 w) (length w) \<lparr>tbytes_in = (x # u) @ r, tend = e\<rparr> =
      ret (fill buf 0 (w @ [x]), \<lparr>tbytes_in = u @ r, tend = e\<rparr>)"
    using lt by (simp add: inbuf_read_def exp_read_def fill_snoc)
  have "match_loop ex (fill buf 0 (w @ [x])) (length (w @ [x]) - length ex) (length (w @ [x]) - 1) \<lparr>tbytes_in = u @ r, tend = e\<rparr> =
      ret \<lparr>tbytes_in = r, tend = e\<rparr>"
  proof (rule Cons.IH)
    fix i assume i: "length (w @ [x]) - length ex \<le> i" "i < length ((w @ [x]) @ u) - length ex"
    show "take (length ex) (drop i ((w @ [x]) @ u)) \<noteq> ex"
      using Cons.prems(6) [of i] i by simp
  qed (use Cons.prems in auto)
  then show ?case
    using ne lt rd by (subst match_loop.simps) (simp only: if_False l not_le [symmetric], simp add: l)
qed

text \<open>
  The first occurrence of \<open>x # ex'\<close> is in \<open>x # w0\<close>, behind the part \<open>p1\<close> without \<open>x\<close>; the rest is cut into the first window \<open>w\<close> and the
  bytes \<open>u\<close> over which the window slides.
\<close>

lemma first_window:
  assumes "ex = x # ex'"
  shows "\<exists>p1 w u. pre @ ex = p1 @ w @ u \<and> x \<notin> set p1 \<and> length p1 \<le> length pre \<and> length w = length ex \<and> hd w = x \<and>
    w @ u = dropWhile (\<lambda>c. c \<noteq> x) (pre @ ex)"
proof -
  let ?P = "\<lambda>c. c \<noteq> x"
  let ?d = "dropWhile ?P (pre @ ex)"
  have d: "length ex \<le> length ?d"
  proof (cases "x \<in> set pre")
    case True
    then show ?thesis by (simp add: dropWhile_append1)
  next
    case False
    have "?d = dropWhile ?P ex" using False by (intro dropWhile_append2) auto
    then show ?thesis using assms by simp
  qed
  then have ne: "?d \<noteq> []" using assms by auto
  have all: "pre @ ex = takeWhile ?P (pre @ ex) @ ?d" by simp
  have hd: "hd (take (length ex) ?d) = x" using hd_dropWhile [OF ne] assms by (cases ?d) auto
  have "length (takeWhile ?P (pre @ ex)) + length ?d = length pre + length ex" by (metis all length_append)
  then have "length (takeWhile ?P (pre @ ex)) \<le> length pre" using d by simp
  moreover have "x \<notin> set (takeWhile ?P (pre @ ex))" using set_takeWhileD by fastforce
  ultimately show ?thesis using all d hd
    by (intro exI [of _ "takeWhile ?P (pre @ ex)"] exI [of _ "take (length ex) ?d"] exI [of _ "drop (length ex) ?d"]) simp
qed

text \<open>
  C15: when the expected text \<open>ex\<close> arrives in time, with its first occurrence behind \<open>pre\<close>, and at most
  4096 bytes from the first byte that looks like its start, \<^verbatim>\<open>expect_str\<close> succeeds and leaves exactly the
  bytes behind that first occurrence, whatever was in the buffer.
\<close>

theorem expect_str_finds_first:
  assumes "ptr \<noteq> [CHR 0x22, CHR 0x22]" and "unescape ptr ptr = Inr ex" and "ex \<noteq> []"
    and "\<forall>i<length pre. take (length ex) (drop i (pre @ ex)) \<noteq> ex"
    and "length (dropWhile (\<lambda>c. c \<noteq> hd ex) (pre @ ex)) \<le> MAXLINE"
  shows "expect_str jk ptr \<lparr>tbytes_in = pre @ ex @ rest, tend = e\<rparr> = ret (Inr \<lparr>tbytes_in = rest, tend = e\<rparr>)"
proof -
  obtain x ex' where ex: "ex = x # ex'" using assms(3) by (cases ex) auto
  obtain p1 w u where all: "pre @ ex = p1 @ w @ u" and x1: "x \<notin> set p1" and lp: "length p1 \<le> length pre"
    and wl: "length w = length ex" "hd w = x" and dw: "w @ u = dropWhile (\<lambda>c. c \<noteq> x) (pre @ ex)"
    using first_window [OF ex, of pre] by blast
  obtain w' where w': "w = x # w'" using wl ex by (cases w) auto
  have m: "length (w @ u) \<le> MAXLINE" using assms(5) dw ex by simp
  have in1: "pre @ ex @ rest = p1 @ x # w' @ u @ rest" using all w' by (metis append.assoc append_Cons)
  have s1: "skip_to_first x (jk MAXLINE) \<lparr>tbytes_in = p1 @ x # w' @ u @ rest, tend = e\<rparr> = ret \<lparr>tbytes_in = w' @ u @ rest, tend = e\<rparr>"
    by (rule skip_to_first_found [OF x1])
  have lw': "length ex = 1 + length w'" using wl w' by simp
  have "read_window (jk(0 := x)) [1 ..< 1 + length w'] \<lparr>tbytes_in = w' @ u @ rest, tend = e\<rparr> =
      ret (fill (jk(0 := x)) 1 w', \<lparr>tbytes_in = u @ rest, tend = e\<rparr>)"
    using m w' by (intro read_window_all) simp
  then have s2: "read_window (jk(0 := x)) [1..<length ex] \<lparr>tbytes_in = w' @ u @ rest, tend = e\<rparr> =
      ret (fill jk 0 w, \<lparr>tbytes_in = u @ rest, tend = e\<rparr>)"
    unfolding lw' w' fill_Cons by simp
  have dr: "drop i (w @ u) = drop (length p1 + i) (pre @ ex)" for i using all by simp
  have lx: "length (w @ u) - length ex = length pre - length p1" using arg_cong [OF all, of length] wl by simp
  have s3: "match_loop ex (fill jk 0 w) (length w - length ex) (length w - 1) \<lparr>tbytes_in = u @ rest, tend = e\<rparr> =
      ret \<lparr>tbytes_in = rest, tend = e\<rparr>"
  proof (rule match_loop_slides)
    show "drop (length (w @ u) - length ex) (w @ u) = ex" unfolding lx dr using lp by simp
    fix i assume "i < length (w @ u) - length ex"
    then have "length p1 + i < length pre" unfolding lx by simp
    then show "take (length ex) (drop i (w @ u)) \<noteq> ex" unfolding dr using assms(4) by blast
  qed (use w' wl m ex in auto)
  show ?thesis unfolding in1 expect_str_def using assms(1,2) s1 s2 s3 ex wl by simp
qed

theorem expect_str_finds_first_witness:
  "expect_str (\<lambda>_. nul) ''CONNECT'' \<lparr>tbytes_in = ''COCONNECT 9600'', tend = Quiet\<rparr> = ret (Inr \<lparr>tbytes_in = '' 9600'', tend = Quiet\<rparr>)"
proof -
  have "\<forall>i<length ''CO''. take (length ''CONNECT'') (drop i (''CO'' @ ''CONNECT'')) \<noteq> ''CONNECT''"
    by (auto simp: less_Suc_eq numeral_2_eq_2)
  then show ?thesis
    using expect_str_finds_first [of "''CONNECT''" "''CONNECT''" "''CO''" "\<lambda>_. nul" "'' 9600''" Quiet]
    by (simp add: backslash_def MAXLINE_def)
qed

lemma skip_to_first_Some:
  assumes "skip_to_first x c t = Some r"
  shows "x \<in> set (tbytes_in t) \<or> tend t = LineErr \<or> c = x"
  using assms
proof (rule skip_to_first.raw_induct [rotated])
  fix f x c t r
  assume IH: "\<And>x c t r. f x c t = Some r \<Longrightarrow> x \<in> set (tbytes_in t) \<or> tend t = LineErr \<or> c = x"
    and r: "rbind (exp_read t) (\<lambda>y. let c = (case fst y of None \<Rightarrow> c | Some c' \<Rightarrow> c') in
      if c \<noteq> x then f x c (snd y) else ret (snd y)) = Some r"
  show "x \<in> set (tbytes_in t) \<or> tend t = LineErr \<or> c = x"
  proof (cases "tbytes_in t")
    case Nil
    with r IH [of x c t r] show ?thesis by (cases "tend t") (auto simp: exp_read_def split: if_splits)
  next
    case (Cons y s)
    with r IH [of x y "t\<lparr>tbytes_in := s\<rparr>" r] show ?thesis by (auto simp: exp_read_def split: if_splits)
  qed
qed

text \<open>
  When the first character of the expected text never arrives and the line stays silent,
  \<^verbatim>\<open>expect_str\<close> never returns: the time-out of 45 seconds is lost, because \<^verbatim>\<open>exp_read\<close> returns a
  \<^verbatim>\<open>size_t\<close>, which is never below 0.
\<close>

theorem expect_timeout_hangs:
  assumes "ptr \<noteq> [CHR 0x22, CHR 0x22]" and "unescape ptr ptr = Inr (x # ex)" and "jk MAXLINE \<noteq> x" and "x \<notin> set s"
  shows "expect_str jk ptr \<lparr>tbytes_in = s, tend = Quiet\<rparr> = None"
proof -
  have "skip_to_first x (jk MAXLINE) \<lparr>tbytes_in = s, tend = Quiet\<rparr> = None"
    using skip_to_first_Some [of x "jk MAXLINE" "\<lparr>tbytes_in = s, tend = Quiet\<rparr>"] assms(3,4)
    by (cases "skip_to_first x (jk MAXLINE) \<lparr>tbytes_in = s, tend = Quiet\<rparr>") auto
  then show ?thesis unfolding expect_str_def using assms(1,2) by simp
qed

theorem expect_timeout_hangs_witness:
  "expect_str (\<lambda>_. nul) ''CONNECT'' \<lparr>tbytes_in = ''BUSY'', tend = Quiet\<rparr> = None"
  using expect_timeout_hangs [of "''CONNECT''" "CHR ''C''" "''ONNECT''" "\<lambda>_. nul" "''BUSY''"]
  by (simp add: backslash_def nul_def)

subsection \<open>Sending\<close>

text \<open>A text written with the escapes of the dialers file.\<close>

fun quote :: "string \<Rightarrow> string" where
  "quote [] = []"
| "quote (c # s) = (if c = cr then [backslash, CHR ''r''] else if c = CHR '' '' then [backslash, CHR ''s''] else [c]) @ quote s"

lemma cr_neq [simp]: "cr \<noteq> backslash" "backslash \<noteq> cr" "CHR '' '' \<noteq> backslash" "backslash \<noteq> CHR '' ''"
  by (simp_all add: cr_def backslash_def)

text \<open>
  \<^verbatim>\<open>expect_str\<close> reads the escapes as \<^verbatim>\<open>send_str\<close> does: a text without a backslash, quoted, is the text
  \<^verbatim>\<open>expect_str\<close> looks for, and \<^verbatim>\<open>send_str\<close> sends exactly it and a carriage return, or without the carriage
  return when \<open>\c\<close> is put behind it; with the echo check on, it consumes exactly the echo.
\<close>

theorem send_expect_quote:
  assumes "backslash \<notin> set s"
  shows "unescape p (quote s) = Inr s \<and>
    send_str (quote s) phone echo out \<lparr>tbytes_in = (if echo then s else []) @ r, tend = e\<rparr> =
      ret (None, out @ map Byte s @ [Byte cr], \<lparr>tbytes_in = r, tend = e\<rparr>) \<and>
    send_str (quote s @ [backslash, CHR ''c'']) phone echo out \<lparr>tbytes_in = (if echo then s else []) @ r, tend = e\<rparr> =
      ret (None, out @ map Byte s, \<lparr>tbytes_in = r, tend = e\<rparr>)"
  using assms
proof (induction s arbitrary: out)
  case Nil
  show ?case by (subst (1 2) send_str.simps) simp
next
  case (Cons c s)
  have p: "put_char c echo out \<lparr>tbytes_in = (if echo then c # s else []) @ r, tend = e\<rparr> =
      ret (out @ [Byte c], \<lparr>tbytes_in = (if echo then s else []) @ r, tend = e\<rparr>)"
    by (simp add: put_char_def wait_echo_def)
  consider "c = cr" | "c \<noteq> cr" "c = CHR '' ''" | "c \<noteq> cr" "c \<noteq> CHR '' ''" by blast
  then show ?case
  proof cases
    case 1
    with Cons.IH [of "out @ [Byte c]"] Cons.prems p show ?thesis
      by (subst (1 2) send_str.simps) (simp add: backslash_def)
  next
    case 2
    with Cons.IH [of "out @ [Byte c]"] Cons.prems p show ?thesis
      by (subst (1 2) send_str.simps) (simp add: backslash_def)
  next
    case 3
    have "c \<noteq> backslash" using Cons.prems by auto
    with 3 Cons.IH [of "out @ [Byte c]"] Cons.prems p show ?thesis
      by (subst (1 2) send_str.simps) simp
  qed
qed

theorem send_expect_quote_witness:
  "send_str (quote ''AT Z'') ''5551212'' True [] \<lparr>tbytes_in = ''AT Z'', tend = Quiet\<rparr> =
     ret (None, map Byte (''AT Z'' @ [cr]), \<lparr>tbytes_in = [], tend = Quiet\<rparr>)"
  using send_expect_quote [of "''AT Z''" p "''5551212''" True "[]" "[]" Quiet]
  by (simp add: backslash_def)

text \<open>A phone number that itself contains \<open>\T\<close> is sent for ever.\<close>

lemma send_str_recursion:
  assumes "phone = a @ [backslash, CHR ''T''] @ b" and "backslash \<notin> set a"
  shows "send_str phone phone False out t = None"
proof -
  let ?P = "\<lambda>ptr ph ec (out :: sent_item list) (t :: ttyin) (x :: (fatal + string option \<times> sent_item list \<times> ttyin)).
    ph = phone \<longrightarrow> \<not> ec \<longrightarrow> (\<forall>a. backslash \<notin> set a \<longrightarrow> ptr \<noteq> a @ [backslash, CHR ''T''] @ b)"
  have "?P ptr ph ec out t x" if "send_str ptr ph ec out t = Some x" for ptr ph ec out t x
  proof (rule send_str.raw_induct [where P = ?P, rotated, OF that], intro impI allI notI, goal_cases)
    case (1 f ptr ph ec out t x a')
    have ph: "ph = phone" "\<not> ec" "phone \<noteq> []" using 1 assms by auto
    show False
    proof (cases a')
      case Nil
      with 1(2,6) ph obtain y where "f phone phone ec out t = Some y"
        by (auto simp: rbind_def split: Option.bind_splits)
      from 1(1) [OF this] assms ph show False by blast
    next
      case (Cons c a'')
      with 1(2,5,6) ph have "f (a'' @ [backslash, CHR ''T''] @ b) phone ec (out @ [Byte c]) t = Some x"
        by (auto simp: put_char_def)
      from 1(1) [OF this] 1(5) Cons ph show False by auto
    qed
  qed
  with assms show ?thesis by (cases "send_str phone phone False out t") blast+
qed

end
