(* ===== verification/Semaph.thy ===== *)
theory Semaph
  imports Prelude
begin

section \<open>The semaphore library\<close>

text \<open>
  \<^verbatim>\<open>lib/semaph.c\<close>: every semaphore is a System V set of three members, the value [0], a counter of the
  processes that use it [1] (\<open>BIGCOUNT\<close> less their number) and a lock [2].  A system call is one atomic
  step of a process, so a routine is a sequence of steps, one for each \<open>sempc\<close>, and the steps of the
  processes are interleaved in any order.  A process uses at most one semaphore at a time.
\<close>

definition BIGCOUNT :: int where "BIGCOUNT = 10000"
definition SEMVMX :: int where "SEMVMX = 32767"   \<comment> \<open>the largest value the system allows\<close>

subsection \<open>The system calls\<close>

text \<open>A set: the values, and what is added to them when a process exits (\<^verbatim>\<open>SEM_UNDO\<close>).\<close>

record semset =
  semval :: "nat \<Rightarrow> int"
  semadj :: "nat \<Rightarrow> nat \<Rightarrow> int"

text \<open>The sets by identifier, the identifiers by key; an identifier is never used again.\<close>

record semkern =
  sets :: "nat \<Rightarrow> semset option"
  keys :: "int \<Rightarrow> nat option"
  nextid :: nat

datatype semerr = EINVAL | EIDRM | ERANGE
datatype semres = Done semset | Blocks | Fails semerr

record sembuf =
  sem_num :: nat
  sem_amount :: int
  sem_undo :: bool

text \<open>The operations of one \<^verbatim>\<open>semop\<close> of process \<open>p\<close>, all or nothing.\<close>

fun do_ops :: "nat \<Rightarrow> sembuf list \<Rightarrow> semset \<Rightarrow> semres" where
  "do_ops p [] s = Done s"
| "do_ops p (b # bs) s =
     (let n = sem_num b; v = sem_amount b; x = semval s n + v in
      if v = 0 then (if semval s n = 0 then do_ops p bs s else Blocks)
      else if x < 0 then Blocks
      else if SEMVMX < x then Fails ERANGE
      else do_ops p bs (s\<lparr>semval := (semval s)(n := x),
        semadj := (if sem_undo b then (semadj s)(p := (semadj s p)(n := semadj s p n - v)) else semadj s)\<rparr>))"

text \<open>\<open>slp\<close>: the process already sleeps in this call, which a removal of the set ends with \<open>EIDRM\<close>.\<close>

definition semop :: "semkern \<Rightarrow> nat \<Rightarrow> nat \<Rightarrow> bool \<Rightarrow> sembuf list \<Rightarrow> semres" where
  "semop k p sid slp bs = (case sets k sid of None \<Rightarrow> Fails (if slp then EIDRM else EINVAL) | Some s \<Rightarrow> do_ops p bs s)"

definition new_set :: semset where
  "new_set = \<lparr>semval = \<lambda>_. 0, semadj = \<lambda>_ _. 0\<rparr>"

text \<open>\<^verbatim>\<open>semget\<close> with (\<open>cr\<close>) or without \<^verbatim>\<open>IPC_CREAT\<close>.\<close>

definition semget :: "semkern \<Rightarrow> int \<Rightarrow> bool \<Rightarrow> (nat \<times> semkern) option" where
  "semget k key cr = (case keys k key of
       Some sid \<Rightarrow> Some (sid, k)
     | None \<Rightarrow> if cr then Some (nextid k, k\<lparr>sets := (sets k)(nextid k \<mapsto> new_set),
         keys := (keys k)(key \<mapsto> nextid k), nextid := Suc (nextid k)\<rparr>) else None)"

definition setval :: "nat \<Rightarrow> int \<Rightarrow> semset \<Rightarrow> semset" where
  "setval n v s = s\<lparr>semval := (semval s)(n := v), semadj := (\<lambda>p. (semadj s p)(n := 0))\<rparr>"

definition semctl_setval :: "semkern \<Rightarrow> nat \<Rightarrow> nat \<Rightarrow> int \<Rightarrow> semkern option" where
  "semctl_setval k sid n v = (case sets k sid of None \<Rightarrow> None | Some s \<Rightarrow>
     if v < 0 \<or> SEMVMX < v then None else Some (k\<lparr>sets := (sets k)(sid \<mapsto> setval n v s)\<rparr>))"

definition semctl_rmid :: "semkern \<Rightarrow> nat \<Rightarrow> semkern option" where
  "semctl_rmid k sid = (if sets k sid = None then None
     else Some (k\<lparr>sets := (sets k)(sid := None), keys := (\<lambda>key. if keys k key = Some sid then None else keys k key)\<rparr>))"

text \<open>What the system does for an exiting process.\<close>

definition undo_set :: "nat \<Rightarrow> semset \<Rightarrow> semset" where
  "undo_set p s = s\<lparr>semval := (\<lambda>n. max 0 (semval s n + semadj s p n)), semadj := (semadj s)(p := (\<lambda>_. 0))\<rparr>"

subsection \<open>The routines\<close>

definition op_lock :: "sembuf list" where
  "op_lock = [\<lparr>sem_num = 2, sem_amount = 0, sem_undo = False\<rparr>, \<lparr>sem_num = 2, sem_amount = 1, sem_undo = True\<rparr>]"

definition op_endcreate :: "sembuf list" where
  "op_endcreate = [\<lparr>sem_num = 1, sem_amount = - 1, sem_undo = True\<rparr>, \<lparr>sem_num = 2, sem_amount = - 1, sem_undo = True\<rparr>]"

definition op_open :: "sembuf list" where
  "op_open = [\<lparr>sem_num = 1, sem_amount = - 1, sem_undo = True\<rparr>]"

definition op_close :: "sembuf list" where
  "op_close = [\<lparr>sem_num = 2, sem_amount = 0, sem_undo = False\<rparr>, \<lparr>sem_num = 2, sem_amount = 1, sem_undo = True\<rparr>,
     \<lparr>sem_num = 1, sem_amount = 1, sem_undo = True\<rparr>]"

definition op_unlock :: "sembuf list" where
  "op_unlock = [\<lparr>sem_num = 2, sem_amount = - 1, sem_undo = True\<rparr>]"

definition op_op :: "int \<Rightarrow> sembuf list" where
  "op_op v = [\<lparr>sem_num = 0, sem_amount = v, sem_undo = True\<rparr>]"

text \<open>
  Where a process is: outside (\<open>Idle\<close>), before a system call of a routine, with the semaphore open
  (\<open>Held\<close>), stopped by a fatal error, or gone.
\<close>

datatype sempc =
    Idle
  | CrGet int int | CrLock int int nat bool | CrVal int nat | CrSet0 int nat | CrSet1 nat | CrEnd nat bool
  | OpGet int | OpDec nat bool
  | Held nat
  | SOp nat int bool
  | ClLock nat bool | ClVal nat | ClRm nat | ClUnlock nat bool
  | Dead fatal | Gone

datatype semact = Create int int | Open int | Op int | Close | Rm | Run | Refuse | ExitNow

record semworld =
  kern :: semkern
  pcs :: "nat \<Rightarrow> sempc"

definition goto :: "semworld \<Rightarrow> nat \<Rightarrow> sempc \<Rightarrow> semworld" where
  "goto w p c = w\<lparr>pcs := (pcs w)(p := c)\<rparr>"

text \<open>
  A \<^verbatim>\<open>semop\<close> step: sleep at \<open>again\<close> (no step when the process already sleeps), \<open>ok\<close> when it is done, else \<open>err\<close>.
\<close>

definition semop_step ::
    "semworld \<Rightarrow> nat \<Rightarrow> nat \<Rightarrow> bool \<Rightarrow> sembuf list \<Rightarrow> sempc \<Rightarrow> sempc \<Rightarrow> (semerr \<Rightarrow> sempc) \<Rightarrow> semworld option" where
  "semop_step w p sid slp bs again ok err = (case semop (kern w) p sid slp bs of
       Blocks \<Rightarrow> if slp then None else Some (goto w p again)
     | Done s \<Rightarrow> Some (goto (w\<lparr>kern := (kern w)\<lparr>sets := (sets (kern w))(sid \<mapsto> s)\<rparr>\<rparr>) p ok)
     | Fails e \<Rightarrow> Some (goto w p (err e)))"

text \<open>\<^verbatim>\<open>sem_create\<close>; \<^verbatim>\<open>IPC_PRIVATE\<close> is 0.\<close>

definition sem_create :: "semworld \<Rightarrow> nat \<Rightarrow> int \<Rightarrow> int \<Rightarrow> semworld" where
  "sem_create w p key initval = (if key = 0 \<or> key = - 1 then w else goto w p (CrGet key initval))"

definition sem_create_step :: "semworld \<Rightarrow> nat \<Rightarrow> sempc \<Rightarrow> semworld option" where
  "sem_create_step w p c = (case c of
       CrGet key v \<Rightarrow> (case semget (kern w) key True of
         None \<Rightarrow> Some (goto w p Idle) | Some (sid, k) \<Rightarrow> Some (goto (w\<lparr>kern := k\<rparr>) p (CrLock key v sid False)))
     | CrLock key v sid slp \<Rightarrow> semop_step w p sid slp op_lock (CrLock key v sid True) (CrVal v sid)
         (\<lambda>e. if e = EINVAL then CrGet key v else Dead (ErrSys ''can't lock''))
     | CrVal v sid \<Rightarrow> (case sets (kern w) sid of
         None \<Rightarrow> Some (goto w p (Dead (ErrSys ''can't GETVAL'')))
       | Some s \<Rightarrow> Some (goto w p (if semval s 1 = 0 then CrSet0 v sid else CrEnd sid False)))
     | CrSet0 v sid \<Rightarrow> (case semctl_setval (kern w) sid 0 v of
         None \<Rightarrow> Some (goto w p (Dead (ErrSys ''can SETVAL[0]'')))
       | Some k \<Rightarrow> Some (goto (w\<lparr>kern := k\<rparr>) p (CrSet1 sid)))
     | CrSet1 sid \<Rightarrow> (case semctl_setval (kern w) sid 1 BIGCOUNT of
         None \<Rightarrow> Some (goto w p (Dead (ErrSys ''can SETVAL[1]'')))
       | Some k \<Rightarrow> Some (goto (w\<lparr>kern := k\<rparr>) p (CrEnd sid False)))
     | CrEnd sid slp \<Rightarrow> semop_step w p sid slp op_endcreate (CrEnd sid True) (Held sid)
         (\<lambda>_. Dead (ErrSys ''can't end create''))
     | _ \<Rightarrow> None)"

definition sem_open :: "semworld \<Rightarrow> nat \<Rightarrow> int \<Rightarrow> semworld" where
  "sem_open w p key = (if key = 0 \<or> key = - 1 then w else goto w p (OpGet key))"

definition sem_open_step :: "semworld \<Rightarrow> nat \<Rightarrow> sempc \<Rightarrow> semworld option" where
  "sem_open_step w p c = (case c of
       OpGet key \<Rightarrow> (case semget (kern w) key False of
         None \<Rightarrow> Some (goto w p Idle) | Some (sid, k) \<Rightarrow> Some (goto (w\<lparr>kern := k\<rparr>) p (OpDec sid False)))
     | OpDec sid slp \<Rightarrow> semop_step w p sid slp op_open (OpDec sid True) (Held sid) (\<lambda>_. Dead (ErrSys ''can't open''))
     | _ \<Rightarrow> None)"

definition sem_rm :: "semworld \<Rightarrow> nat \<Rightarrow> nat \<Rightarrow> semworld" where
  "sem_rm w p sid = (case semctl_rmid (kern w) sid of
       None \<Rightarrow> goto w p (Dead (ErrSys ''can't IPC_RMID'')) | Some k \<Rightarrow> goto (w\<lparr>kern := k\<rparr>) p Idle)"

definition sem_close_step :: "semworld \<Rightarrow> nat \<Rightarrow> sempc \<Rightarrow> semworld option" where
  "sem_close_step w p c = (case c of
       ClLock sid slp \<Rightarrow> semop_step w p sid slp op_close (ClLock sid True) (ClVal sid) (\<lambda>_. Dead (ErrSys ''can't semop''))
     | ClVal sid \<Rightarrow> (case sets (kern w) sid of
         None \<Rightarrow> Some (goto w p (Dead (ErrSys ''can't GETVAL'')))
       | Some s \<Rightarrow> Some (goto w p
           (if BIGCOUNT < semval s 1 then Dead (ErrDump ''sem[1] > BIGCOUNT'')
            else if semval s 1 = BIGCOUNT then ClRm sid else ClUnlock sid False)))
     | ClRm sid \<Rightarrow> Some (sem_rm w p sid)
     | ClUnlock sid slp \<Rightarrow> semop_step w p sid slp op_unlock (ClUnlock sid True) Idle (\<lambda>_. Dead (ErrSys ''can't unlock''))
     | _ \<Rightarrow> None)"

definition sem_op :: "semworld \<Rightarrow> nat \<Rightarrow> nat \<Rightarrow> int \<Rightarrow> semworld" where
  "sem_op w p sid v = goto w p (if v = 0 then Dead (ErrSys ''can't have value == 0'') else SOp sid v False)"

definition sem_op_step :: "semworld \<Rightarrow> nat \<Rightarrow> sempc \<Rightarrow> semworld option" where
  "sem_op_step w p c = (case c of
       SOp sid v slp \<Rightarrow> semop_step w p sid slp (op_op v) (SOp sid v True) (Held sid) (\<lambda>_. Dead (ErrSys ''sem_op error''))
     | _ \<Rightarrow> None)"

definition sem_wait :: "semworld \<Rightarrow> nat \<Rightarrow> nat \<Rightarrow> semworld" where "sem_wait w p sid = sem_op w p sid (- 1)"
definition sem_signal :: "semworld \<Rightarrow> nat \<Rightarrow> nat \<Rightarrow> semworld" where "sem_signal w p sid = sem_op w p sid 1"

subsection \<open>Interleaved processes\<close>

text \<open>
  One step of process \<open>p\<close>: a call when it is outside a routine, the next system call inside one
  (\<open>Refuse\<close>: \<^verbatim>\<open>semget\<close> fails for want of permission or room), or the end of the process at any time.
\<close>

definition sem_run :: "semworld \<Rightarrow> nat \<Rightarrow> semworld option" where
  "sem_run w p = (let c = pcs w p in
     case c of
       OpGet _ \<Rightarrow> sem_open_step w p c
     | OpDec _ _ \<Rightarrow> sem_open_step w p c
     | SOp _ _ _ \<Rightarrow> sem_op_step w p c
     | ClLock _ _ \<Rightarrow> sem_close_step w p c
     | ClVal _ \<Rightarrow> sem_close_step w p c
     | ClRm _ \<Rightarrow> sem_close_step w p c
     | ClUnlock _ _ \<Rightarrow> sem_close_step w p c
     | _ \<Rightarrow> sem_create_step w p c)"

definition sem_exit :: "semworld \<Rightarrow> nat \<Rightarrow> semworld" where
  "sem_exit w p = goto (w\<lparr>kern := (kern w)\<lparr>sets := (\<lambda>i. map_option (undo_set p) (sets (kern w) i))\<rparr>\<rparr>) p Gone"

definition sem_act :: "nat \<Rightarrow> semact \<Rightarrow> semworld \<Rightarrow> semworld option" where
  "sem_act p a w = (case a of
       Create key v \<Rightarrow> if pcs w p = Idle then Some (sem_create w p key v) else None
     | Open key \<Rightarrow> if pcs w p = Idle then Some (sem_open w p key) else None
     | Op v \<Rightarrow> (case pcs w p of Held sid \<Rightarrow> Some (sem_op w p sid v) | _ \<Rightarrow> None)
     | Close \<Rightarrow> (case pcs w p of Held sid \<Rightarrow> Some (goto w p (ClLock sid False)) | _ \<Rightarrow> None)
     | Rm \<Rightarrow> (case pcs w p of Held sid \<Rightarrow> Some (sem_rm w p sid) | _ \<Rightarrow> None)
     | Run \<Rightarrow> sem_run w p
     | Refuse \<Rightarrow> (case pcs w p of CrGet _ _ \<Rightarrow> Some (goto w p Idle) | OpGet _ \<Rightarrow> Some (goto w p Idle) | _ \<Rightarrow> None)
     | ExitNow \<Rightarrow> if pcs w p = Gone then None else Some (sem_exit w p))"

fun sem_acts :: "(nat \<times> semact) list \<Rightarrow> semworld \<Rightarrow> semworld option" where
  "sem_acts [] w = Some w"
| "sem_acts ((p, a) # as) w = Option.bind (sem_act p a w) (sem_acts as)"

definition sem_start :: semworld where
  "sem_start = \<lparr>kern = \<lparr>sets = Map.empty, keys = Map.empty, nextid = 0\<rparr>, pcs = (\<lambda>_. Idle)\<rparr>"

end
