(* ===== verification/SemaphInv.thy ===== *)
theory SemaphInv
  imports Semaph
begin

section \<open>The semaphore library: the invariant of its sets\<close>

text \<open>
  The invariant ties the values of a set to what the system would undo for each process: the
  counter [1] counts the users and the lock [2] its holder.  It is preserved by every step of processes
  that open semaphores with \<^verbatim>\<open>sem_create\<close> and leave their removal to \<^verbatim>\<open>sem_close\<close>.
\<close>

subsection \<open>Sets\<close>

definition users :: "semset \<Rightarrow> nat set" where "users s = {p. semadj s p 1 = 1}"
definition lockers :: "semset \<Rightarrow> nat set" where "lockers s = {p. semadj s p 2 = - 1}"

definition fresh :: "semset \<Rightarrow> bool" where "fresh s \<longleftrightarrow> semval s 1 = 0 \<and> users s = {}"
definition ready :: "semset \<Rightarrow> bool" where "ready s \<longleftrightarrow> semval s 1 = BIGCOUNT - int (card (users s))"

definition set_ok :: "nat \<Rightarrow> semset \<Rightarrow> bool" where
  "set_ok N s \<longleftrightarrow> (\<forall>p. semadj s p 1 \<in> {0, 1} \<and> semadj s p 2 \<in> {0, - 1}) \<and> users s \<subseteq> {..<N} \<and>
     (lockers s = {} \<and> semval s 2 = 0 \<or> (\<exists>q. lockers s = {q}) \<and> semval s 2 = 1) \<and> (fresh s \<or> ready s)"

lemma set_ok_new: "set_ok N new_set"
  by (simp add: set_ok_def new_set_def users_def lockers_def fresh_def)

lemma adj_eq: "semadj s' p 1 = semadj s p 1 \<Longrightarrow> semadj s' p 2 = semadj s p 2 \<Longrightarrow>
  (p \<in> users s' \<longleftrightarrow> p \<in> users s) \<and> (p \<in> lockers s' \<longleftrightarrow> p \<in> lockers s)"
  by (simp add: users_def lockers_def)

lemma card_users: "set_ok N s \<Longrightarrow> card (users s) \<le> N \<and> finite (users s)"
  using card_mono [of "{..<N}" "users s"] by (auto simp: set_ok_def intro: finite_subset)

lemma card_users_less: "set_ok N s \<Longrightarrow> p < N \<Longrightarrow> p \<notin> users s \<Longrightarrow> card (users s) < N"
  using psubset_card_mono [of "{..<N}" "users s"] by (auto simp: set_ok_def)

lemma one_locker: "set_ok N s \<Longrightarrow> p \<in> lockers s \<Longrightarrow> q \<in> lockers s \<Longrightarrow> p = q"
  by (auto simp: set_ok_def)

subsection \<open>Processes\<close>

text \<open>The set a process uses, and the one it holds the lock of.\<close>

fun uses :: "sempc \<Rightarrow> nat option" where
  "uses (Held sid) = Some sid"
| "uses (SOp sid _ _) = Some sid"
| "uses (ClLock sid _) = Some sid"
| "uses _ = None"

fun locks :: "sempc \<Rightarrow> nat option" where
  "locks (CrVal _ sid) = Some sid"
| "locks (CrSet0 _ sid) = Some sid"
| "locks (CrSet1 sid) = Some sid"
| "locks (CrEnd sid _) = Some sid"
| "locks (ClVal sid) = Some sid"
| "locks (ClRm sid) = Some sid"
| "locks (ClUnlock sid _) = Some sid"
| "locks _ = None"

fun phase :: "sempc \<Rightarrow> semset \<Rightarrow> bool" where
  "phase (CrSet0 _ _) s = fresh s"
| "phase (CrSet1 _) s = fresh s"
| "phase (CrEnd _ _) s = ready s"
| "phase (ClVal _) s = ready s"
| "phase (ClRm _) s = (ready s \<and> users s = {})"
| "phase (ClUnlock _ _) s = ready s"
| "phase (SOp _ v _) s = (v \<noteq> 0)"
| "phase _ s = True"

fun dead :: "sempc \<Rightarrow> bool" where
  "dead (Dead _) = True"
| "dead _ = False"

fun inopen :: "sempc \<Rightarrow> bool" where
  "inopen (OpGet _) = True"
| "inopen (OpDec _ _) = True"
| "inopen _ = False"

text \<open>The fatal errors that can happen: a range error, a zero amount, or a set removed under a sleeping \<^verbatim>\<open>sem_create\<close>.\<close>

definition deaths :: "fatal set" where
  "deaths = ErrSys ` {''can't lock'', ''can SETVAL[0]'', ''can't have value == 0'', ''sem_op error''}"

definition adj_ok :: "semkern \<Rightarrow> nat \<Rightarrow> sempc \<Rightarrow> bool" where
  "adj_ok k p c \<longleftrightarrow> (\<forall>j s. sets k j = Some s \<longrightarrow>
     semadj s p 1 = (if uses c = Some j then 1 else 0) \<and> semadj s p 2 = (if locks c = Some j then - 1 else 0))"

definition pc_ok :: "semkern \<Rightarrow> nat \<Rightarrow> sempc \<Rightarrow> bool" where
  "pc_ok k p c \<longleftrightarrow> \<not> inopen c \<and> (case c of Dead e \<Rightarrow> e \<in> deaths | _ \<Rightarrow> adj_ok k p c) \<and>
     (\<forall>j. uses c = Some j \<or> locks c = Some j \<longrightarrow> (\<exists>s. sets k j = Some s \<and> phase c s))"

definition winv :: "nat \<Rightarrow> semworld \<Rightarrow> bool" where
  "winv N w \<longleftrightarrow> (\<forall>j s. sets (kern w) j = Some s \<longrightarrow> set_ok N s \<and> j < nextid (kern w)) \<and> (\<forall>p. pc_ok (kern w) p (pcs w p))"

lemma pc_ok_alive: "\<not> dead c \<Longrightarrow> pc_ok k p c \<longleftrightarrow> \<not> inopen c \<and> adj_ok k p c \<and>
     (\<forall>j. uses c = Some j \<or> locks c = Some j \<longrightarrow> (\<exists>s. sets k j = Some s \<and> phase c s))"
  by (cases c) (simp_all add: pc_ok_def)

lemma pc_okD:
  assumes "pc_ok k p c" and "\<not> dead c"
  shows "\<not> inopen c" and "adj_ok k p c"
    and "\<And>j. uses c = Some j \<or> locks c = Some j \<Longrightarrow> \<exists>s. sets k j = Some s \<and> phase c s"
  using assms by (auto simp only: pc_ok_alive simp_thms)

lemma pc_ok_dead [simp]: "pc_ok k p (Dead e) \<longleftrightarrow> e \<in> deaths"
  by (simp add: pc_ok_def)

lemma winv_pc: "winv N w \<Longrightarrow> pc_ok (kern w) p (pcs w p)"
  by (simp add: winv_def)

lemma winv_set: "winv N w \<Longrightarrow> sets (kern w) j = Some s \<Longrightarrow> set_ok N s"
  by (simp add: winv_def)

lemma winv_start: "winv N sem_start"
  by (simp add: winv_def sem_start_def pc_ok_def adj_ok_def)

lemma kern_goto [simp]: "kern (goto w p c) = kern w" and pcs_goto [simp]: "pcs (goto w p c) = (pcs w)(p := c)"
  by (simp_all add: goto_def)

lemma winv_goto: "winv N w \<Longrightarrow> pc_ok (kern w) p c \<Longrightarrow> winv N (goto w p c)"
  by (simp add: winv_def)

lemma winv_Dead: "winv N w \<Longrightarrow> e \<in> deaths \<Longrightarrow> winv N (goto w p (Dead e))"
  by (rule winv_goto) simp_all

text \<open>A step that leaves the system alone and does not change what the process uses and locks.\<close>

lemma winv_goto_same:
  assumes "winv N w" and "\<not> dead (pcs w p)" and "\<not> dead c" and "\<not> inopen c"
    and "uses c = uses (pcs w p)" and "locks c = locks (pcs w p)"
    and "\<And>j s. locks c = Some j \<Longrightarrow> sets (kern w) j = Some s \<Longrightarrow> phase (pcs w p) s \<Longrightarrow> phase c s"
    and "\<And>s. locks c = None \<Longrightarrow> phase c s"
  shows "winv N (goto w p c)"
proof (rule winv_goto [OF assms(1)])
  note p = pc_okD [OF winv_pc [OF assms(1), of p] assms(2)]
  have "adj_ok (kern w) p c" using p(2) assms(5,6) by (simp add: adj_ok_def)
  moreover have "\<exists>s. sets (kern w) j = Some s \<and> phase c s" if j: "uses c = Some j \<or> locks c = Some j" for j
  proof -
    obtain s where "sets (kern w) j = Some s" "phase (pcs w p) s" using p(3) [of j] j assms(5,6) by auto
    then show ?thesis using assms(7) [of j s] assms(8) j by (cases "locks c = Some j"; cases c) auto
  qed
  ultimately show "pc_ok (kern w) p c" using assms(3,4) by (simp add: pc_ok_alive)
qed

text \<open>A step of \<open>p\<close> that changes the set \<open>sid\<close> from \<open>s\<close> to \<open>s'\<close>.\<close>

lemma winv_upd:
  assumes w: "winv N w" and s: "sets (kern w) sid = Some s" and ok: "set_ok N s'"
    and others: "\<And>q. q \<noteq> p \<Longrightarrow> semadj s' q 1 = semadj s q 1 \<and> semadj s' q 2 = semadj s q 2"
    and stable: "p \<in> lockers s \<or> (fresh s \<longrightarrow> fresh s') \<and> (ready s \<longrightarrow> ready s') \<and> (users s = {} \<longrightarrow> users s' = {})"
    and old: "\<not> dead (pcs w p)" "uses (pcs w p) \<in> {None, Some sid}" "locks (pcs w p) \<in> {None, Some sid}"
    and new: "\<not> dead c" "\<not> inopen c" "uses c \<in> {None, Some sid}" "locks c \<in> {None, Some sid}" "phase c s'"
      "semadj s' p 1 = (if uses c = Some sid then 1 else 0)" "semadj s' p 2 = (if locks c = Some sid then - 1 else 0)"
  shows "winv N (goto (w\<lparr>kern := (kern w)\<lparr>sets := (sets (kern w))(sid \<mapsto> s')\<rparr>\<rparr>) p c)"
    (is "winv N ?w'")
proof -
  have pc: "pc_ok (kern ?w') q (pcs ?w' q)" for q
  proof (cases "q = p")
    case True
    have "adj_ok (kern w) p (pcs w p)" using winv_pc [OF w, of p] old(1) by (simp add: pc_ok_alive)
    then have "adj_ok (kern ?w') p c"
      using old new by (auto simp: adj_ok_def split: if_splits)
    moreover have "\<exists>s. sets (kern ?w') j = Some s \<and> phase c s" if "uses c = Some j \<or> locks c = Some j" for j
      using that new by auto
    ultimately show ?thesis using True new(1,2) by (simp add: pc_ok_alive)
  next
    case False
    let ?c = "pcs w q"
    show ?thesis
    proof (cases "dead ?c")
      case True
      then show ?thesis using winv_pc [OF w, of q] False by (cases ?c) simp_all
    next
      case alive: False
      note q = pc_okD [OF winv_pc [OF w, of q] alive]
      have "adj_ok (kern ?w') q ?c"
        using q(2) others [OF False] s by (simp add: adj_ok_def)
      moreover have "\<exists>s. sets (kern ?w') j = Some s \<and> phase ?c s" if j: "uses ?c = Some j \<or> locks ?c = Some j" for j
      proof (cases "j = sid")
        case True
        have "phase ?c s'"
        proof (cases "locks ?c = Some sid")
          case True
          then have "q \<in> lockers s" using q(2) s by (simp add: adj_ok_def lockers_def)
          then have "p \<notin> lockers s" using one_locker [OF winv_set [OF w s]] False by blast
          then show ?thesis using q(3) [of sid] True s stable by (cases ?c) auto
        next
          case False
          then show ?thesis using j True q(3) [OF j] by (cases ?c) auto
        qed
        then show ?thesis using True by simp
      next
        case False
        then show ?thesis using q(3) [OF j] by simp
      qed
      ultimately show ?thesis using alive q(1) False by (simp add: pc_ok_alive)
    qed
  qed
  have "sets (kern ?w') j = Some t \<Longrightarrow> set_ok N t \<and> j < nextid (kern ?w')" for j t
    using w ok s by (auto simp: winv_def split: if_splits)
  with pc show ?thesis unfolding winv_def by blast
qed

subsection \<open>The operations on a set\<close>

definition put :: "nat \<Rightarrow> nat \<Rightarrow> int \<Rightarrow> int \<Rightarrow> semset \<Rightarrow> semset" where
  "put p n v a s = s\<lparr>semval := (semval s)(n := v), semadj := (semadj s)(p := (semadj s p)(n := a))\<rparr>"

lemma put_simps [simp]:
  "semval (put p n v a s) = (semval s)(n := v)"
  "semadj (put p n v a s) q = (if q = p then (semadj s p)(n := a) else semadj s q)"
  "users (put p 0 v a s) = users s"
  "users (put p 2 v a s) = users s"
  "lockers (put p 0 v a s) = lockers s"
  "lockers (put p (Suc 0) v a s) = lockers s"
  "users (put p (Suc 0) v a s) = (if a = 1 then insert p (users s) else users s - {p})"
  "lockers (put p 2 v a s) = (if a = - 1 then insert p (lockers s) else lockers s - {p})"
  by (auto simp: put_def users_def lockers_def)

lemma do_ops_wait: "do_ops p (\<lparr>sem_num = n, sem_amount = 0, sem_undo = u\<rparr> # bs) s = (if semval s n = 0 then do_ops p bs s else Blocks)"
  by simp

lemma do_ops_add: "v \<noteq> 0 \<Longrightarrow> do_ops p (\<lparr>sem_num = n, sem_amount = v, sem_undo = True\<rparr> # bs) s =
    (if semval s n + v < 0 then Blocks else if SEMVMX < semval s n + v then Fails ERANGE
     else do_ops p bs (put p n (semval s n + v) (semadj s p n - v) s))"
  by (simp add: put_def)

lemma do_lock:
  assumes "set_ok N s"
  shows "do_ops p op_lock s = (if semval s 2 = 0 then Done (put p 2 1 (- 1) s) else Blocks)"
proof -
  have "semadj s p 2 = 0" if "semval s 2 = 0"
    using assms that by (auto simp: set_ok_def lockers_def)
  then show ?thesis by (simp add: op_lock_def put_def SEMVMX_def)
qed

lemma do_endcreate:
  assumes "set_ok N s" and "ready s" and "p < N" and "int N \<le> BIGCOUNT" and "p \<notin> users s" and "p \<in> lockers s"
  shows "do_ops p op_endcreate s = Done (put p 2 0 0 (put p 1 (semval s 1 - 1) 1 s))"
proof -
  have "int (card (users s)) < BIGCOUNT" using card_users_less [OF assms(1,3,5)] assms(4) by simp
  then have "0 \<le> semval s 1 - 1" "semval s 1 - 1 \<le> SEMVMX" using assms(2) by (simp_all add: ready_def BIGCOUNT_def SEMVMX_def)
  moreover have "semadj s p 1 = 0" "semadj s p 2 = - 1" "semval s 2 = 1"
    using assms(1,5,6) by (auto simp: set_ok_def users_def lockers_def)
  ultimately show ?thesis by (simp add: op_endcreate_def put_def SEMVMX_def)
qed

lemma do_close:
  assumes "set_ok N s" and "int N \<le> BIGCOUNT" and "p \<in> users s"
  shows "do_ops p op_close s = (if semval s 2 = 0 then Done (put p 1 (semval s 1 + 1) 0 (put p 2 1 (- 1) s)) else Blocks)"
proof -
  have "semadj s p 2 = 0" if "semval s 2 = 0"
    using assms that by (auto simp: set_ok_def lockers_def)
  moreover have "ready s" using assms(1,3) by (auto simp: set_ok_def fresh_def)
  then have "0 \<le> semval s 1 + 1" "semval s 1 + 1 \<le> SEMVMX"
    using card_users [OF assms(1)] assms(2) by (auto simp: ready_def BIGCOUNT_def SEMVMX_def)
  moreover have "semadj s p 1 = 1" using assms(3) by (simp add: users_def)
  ultimately show ?thesis by (simp add: op_close_def put_def SEMVMX_def)
qed

lemma do_unlock:
  assumes "set_ok N s" and "p \<in> lockers s"
  shows "do_ops p op_unlock s = Done (put p 2 0 0 s)"
  using assms by (auto simp: op_unlock_def put_def SEMVMX_def set_ok_def lockers_def)

lemma do_op:
  assumes "v \<noteq> 0"
  shows "do_ops p (op_op v) s \<in> {Blocks, Fails ERANGE, Done (put p 0 (semval s 0 + v) (semadj s p 0 - v) s)}"
  using assms unfolding op_op_def by (subst do_ops_add) auto

text \<open>How they keep \<open>set_ok\<close>.\<close>

lemma set_okI:
  assumes "set_ok N s" and "\<And>q. q \<noteq> p \<Longrightarrow> semadj s' q 1 = semadj s q 1 \<and> semadj s' q 2 = semadj s q 2"
    and "semadj s' p 1 \<in> {0, 1}" and "semadj s' p 2 \<in> {0, - 1}" and "p < N"
    and "lockers s' = {} \<and> semval s' 2 = 0 \<or> lockers s' = {p} \<and> semval s' 2 = 1 \<or> lockers s' = lockers s \<and> semval s' 2 = semval s 2"
    and "fresh s' \<or> ready s'"
  shows "set_ok N s'"
proof -
  have "semadj s' q 1 \<in> {0, 1} \<and> semadj s' q 2 \<in> {0, - 1}" for q
    using assms(1-4) by (cases "q = p") (auto simp: set_ok_def)
  moreover have "users s' \<subseteq> {..<N}"
    using assms(1,2,5) by (auto simp: set_ok_def users_def)
  moreover have "lockers s' = {} \<and> semval s' 2 = 0 \<or> (\<exists>q. lockers s' = {q}) \<and> semval s' 2 = 1"
    using assms(1,6) by (auto simp: set_ok_def)
  ultimately show ?thesis using assms(7) by (simp add: set_ok_def)
qed

lemma ready_insert: "set_ok N s \<Longrightarrow> ready s \<Longrightarrow> p \<notin> users s \<Longrightarrow> users s' = insert p (users s) \<Longrightarrow>
    semval s' 1 = semval s 1 - 1 \<Longrightarrow> ready s'"
  using card_users [of N s] by (simp add: ready_def)

lemma ready_remove: "set_ok N s \<Longrightarrow> ready s \<Longrightarrow> p \<in> users s \<Longrightarrow> users s' = users s - {p} \<Longrightarrow>
    semval s' 1 = semval s 1 + 1 \<Longrightarrow> ready s'"
  using card_users [of N s] card_Suc_Diff1 [of "users s" p] by (simp add: ready_def)

lemma ready_same: "ready s \<Longrightarrow> users s' = users s \<Longrightarrow> semval s' 1 = semval s 1 \<Longrightarrow> ready s'"
  by (simp add: ready_def)

lemma fresh_same: "fresh s \<Longrightarrow> users s' = users s \<Longrightarrow> semval s' 1 = semval s 1 \<Longrightarrow> fresh s'"
  by (simp add: fresh_def)

end
