(* ===== verification/SemaphSteps.thy ===== *)
theory SemaphSteps
  imports SemaphInv
begin

section \<open>The semaphore library: every step keeps the invariant\<close>

text \<open>What is known of the set a process uses or has locked.\<close>

lemma winv_uses:
  assumes "winv N w" and "uses (pcs w p) = Some sid"
  obtains s where "sets (kern w) sid = Some s" and "p \<in> users s" and "p \<notin> lockers s" and "set_ok N s"
proof -
  have alive: "\<not> dead (pcs w p)" and l: "locks (pcs w p) = None" using assms(2) by (cases "pcs w p"; simp)+
  note pc = pc_okD [OF winv_pc [OF assms(1), of p] alive]
  obtain s where s: "sets (kern w) sid = Some s" using pc(3) assms(2) by blast
  then have "p \<in> users s" "p \<notin> lockers s" using pc(2) assms(2) l by (simp_all add: adj_ok_def users_def lockers_def)
  with s winv_set [OF assms(1) s] show ?thesis using that by blast
qed

lemma winv_locks:
  assumes "winv N w" and "locks (pcs w p) = Some sid"
  obtains s where "sets (kern w) sid = Some s" and "p \<notin> users s" and "p \<in> lockers s" and "set_ok N s" and "phase (pcs w p) s"
proof -
  have alive: "\<not> dead (pcs w p)" and u: "uses (pcs w p) = None" using assms(2) by (cases "pcs w p"; simp)+
  note pc = pc_okD [OF winv_pc [OF assms(1), of p] alive]
  obtain s where s: "sets (kern w) sid = Some s" "phase (pcs w p) s" using pc(3) assms(2) by blast
  then have "p \<notin> users s" "p \<in> lockers s" using pc(2) assms(2) u by (simp_all add: adj_ok_def users_def lockers_def)
  with s winv_set [OF assms(1) s(1)] show ?thesis using that by blast
qed

lemma winv_users: "winv N w \<Longrightarrow> uses (pcs w q) = Some sid \<Longrightarrow> sets (kern w) sid = Some s \<Longrightarrow> q \<in> users s"
  by (erule (1) winv_uses) simp

lemma winv_lockers: "winv N w \<Longrightarrow> locks (pcs w q) = Some sid \<Longrightarrow> sets (kern w) sid = Some s \<Longrightarrow> q \<in> lockers s"
  by (erule (1) winv_locks) simp

lemma winv_none:
  assumes "winv N w" and "uses (pcs w p) = None" and "locks (pcs w p) = None" and "\<not> dead (pcs w p)"
    and "sets (kern w) sid = Some s"
  shows "p \<notin> users s" and "p \<notin> lockers s"
  using pc_okD(2) [OF winv_pc [OF assms(1), of p] assms(4)] assms(2,3,5)
  by (simp_all add: adj_ok_def users_def lockers_def)

lemma set_ok_adj:
  assumes "set_ok N s"
  shows "semadj s p 1 = (if p \<in> users s then 1 else 0)" and "semadj s p 2 = (if p \<in> lockers s then - 1 else 0)"
  using assms by (auto simp: set_ok_def users_def lockers_def)

text \<open>Taking the lock.\<close>

lemma set_ok_locked:
  assumes "set_ok N s" and "semval s 2 = 0" and "p < N"
  shows "set_ok N (put p 2 1 (- 1) s)"
proof (rule set_okI [OF assms(1) _ _ _ assms(3)])
  have "lockers s = {}" using assms(1,2) by (auto simp: set_ok_def)
  then show "lockers (put p 2 1 (- 1) s) = {} \<and> semval (put p 2 1 (- 1) s) 2 = 0 \<or>
      lockers (put p 2 1 (- 1) s) = {p} \<and> semval (put p 2 1 (- 1) s) 2 = 1 \<or>
      lockers (put p 2 1 (- 1) s) = lockers s \<and> semval (put p 2 1 (- 1) s) 2 = semval s 2" by simp
  show "fresh (put p 2 1 (- 1) s) \<or> ready (put p 2 1 (- 1) s)"
    using assms(1) by (simp add: set_ok_def fresh_def ready_def)
qed (use set_ok_adj [OF assms(1), of p] in auto)

lemma winv_CrLock:
  assumes w: "winv N w" and p: "p < N" and c: "pcs w p = CrLock key v sid slp" and st: "sem_create_step w p (CrLock key v sid slp) = Some w'"
  shows "winv N w'"
proof (cases "sets (kern w) sid")
  case None
  have "winv N (goto w p (CrGet key v))" by (rule winv_goto_same [OF w]) (simp_all add: c)
  with None st show ?thesis
    by (auto simp: sem_create_step_def semop_step_def semop_def deaths_def intro!: winv_Dead [OF w])
next
  case (Some s)
  note ok = winv_set [OF w Some]
  show ?thesis
  proof (cases "semval s 2 = 0")
    case True
    have "winv N (goto (w\<lparr>kern := (kern w)\<lparr>sets := (sets (kern w))(sid \<mapsto> put p 2 1 (- 1) s)\<rparr>\<rparr>) p (CrVal v sid))"
      by (rule winv_upd [OF w Some set_ok_locked [OF ok True p]])
        (use winv_none [OF w _ _ _ Some, of p] c set_ok_adj [OF ok, of p] in
          \<open>auto simp: fresh_def ready_def\<close>)
    with Some st True show ?thesis
      by (simp add: sem_create_step_def semop_step_def semop_def do_lock [OF ok])
  next
    case False
    have "winv N (goto w p (CrLock key v sid True))" by (rule winv_goto_same [OF w]) (simp_all add: c)
    with Some st False show ?thesis
      by (simp add: sem_create_step_def semop_step_def semop_def do_lock [OF ok] split: if_splits)
  qed
qed

lemma winv_CrGet:
  assumes w: "winv N w" and c: "pcs w p = CrGet key v" and st: "sem_create_step w p (CrGet key v) = Some w'"
  shows "winv N w'"
proof -
  obtain sid k where g: "semget (kern w) key True = Some (sid, k)"
    by (cases "keys (kern w) key") (auto simp: semget_def)
  have w': "w' = goto (w\<lparr>kern := k\<rparr>) p (CrLock key v sid False)"
    using st g by (simp add: sem_create_step_def)
  have old: "sets k j = Some s \<Longrightarrow> sets (kern w) j = Some s \<or> s = new_set" for j s
    using g by (auto simp: semget_def split: option.splits if_splits)
  have "sets (kern w) (nextid (kern w)) = None"
    using w unfolding winv_def by (metis less_irrefl not_None_eq)
  then have keep: "sets (kern w) j = Some s \<Longrightarrow> sets k j = Some s" for j s
    using g by (auto simp: semget_def split: option.splits if_splits)
  have "pc_ok k q (pcs w q)" for q
  proof (cases "dead (pcs w q)")
    case True
    then show ?thesis using winv_pc [OF w, of q] by (cases "pcs w q") simp_all
  next
    case False
    note pc = pc_okD [OF winv_pc [OF w, of q] False]
    have "adj_ok k q (pcs w q)" unfolding adj_ok_def
    proof (intro allI impI)
      fix j s assume s: "sets k j = Some s"
      show "semadj s q 1 = (if uses (pcs w q) = Some j then 1 else 0) \<and> semadj s q 2 = (if locks (pcs w q) = Some j then - 1 else 0)"
      proof (cases "sets (kern w) j")
        case None
        then have "s = new_set" "uses (pcs w q) \<noteq> Some j" "locks (pcs w q) \<noteq> Some j"
          using old [OF s] pc(3) [of j] by auto
        then show ?thesis by (simp add: new_set_def)
      next
        case (Some t)
        then show ?thesis using pc(2) keep [OF Some] s by (simp add: adj_ok_def)
      qed
    qed
    with pc False keep show ?thesis by (subst pc_ok_alive) blast+
  qed
  moreover have "set_ok N s \<and> j < nextid k" if "sets k j = Some s" for j s
    using that g w by (auto simp: semget_def winv_def set_ok_new less_Suc_eq split: option.splits if_splits)
  ultimately have "winv N (w\<lparr>kern := k\<rparr>)" by (simp add: winv_def)
  then show ?thesis unfolding w' by (rule winv_goto_same) (simp_all add: c)
qed

lemma winv_CrVal:
  assumes w: "winv N w" and p: "p < N" "int N \<le> BIGCOUNT" and c: "pcs w p = CrVal v sid"
    and st: "sem_create_step w p (CrVal v sid) = Some w'"
  shows "winv N w'"
proof -
  have "locks (pcs w p) = Some sid" by (simp add: c)
  then obtain s where s: "sets (kern w) sid = Some s" "p \<notin> users s" "p \<in> lockers s" and ok: "set_ok N s"
    by (rule winv_locks [OF w])
  show ?thesis
  proof (cases "semval s 1 = 0")
    case True
    then have "fresh s"
      using ok card_users_less [OF ok p(1) s(2)] p(2) by (auto simp: set_ok_def ready_def)
    then have "winv N (goto w p (CrSet0 v sid))" by (intro winv_goto_same [OF w]) (use s(1) in \<open>auto simp: c\<close>)
    then show ?thesis using st s(1) True by (simp add: sem_create_step_def)
  next
    case False
    then have "ready s" using ok by (auto simp: set_ok_def fresh_def)
    then have "winv N (goto w p (CrEnd sid False))" by (intro winv_goto_same [OF w]) (use s(1) in \<open>auto simp: c\<close>)
    then show ?thesis using st s(1) False by (simp add: sem_create_step_def)
  qed
qed

lemma set_ok_setval:
  assumes "set_ok N s" and "fresh s"
  shows "set_ok N (setval 0 v s) \<and> fresh (setval 0 v s)" and "set_ok N (setval 1 BIGCOUNT s) \<and> ready (setval 1 BIGCOUNT s)"
  using assms by (auto simp: set_ok_def fresh_def ready_def setval_def users_def lockers_def)

lemma winv_CrSet0:
  assumes w: "winv N w" and p: "p < N" and c: "pcs w p = CrSet0 v sid" and st: "sem_create_step w p (CrSet0 v sid) = Some w'"
  shows "winv N w'"
proof -
  have "locks (pcs w p) = Some sid" by (simp add: c)
  then obtain s where s: "sets (kern w) sid = Some s" "p \<notin> users s" "p \<in> lockers s" and ok: "set_ok N s" and ph: "phase (pcs w p) s"
    by (rule winv_locks [OF w])
  then have f: "fresh s" by (simp add: c)
  have "winv N (goto (w\<lparr>kern := (kern w)\<lparr>sets := (sets (kern w))(sid \<mapsto> setval 0 v s)\<rparr>\<rparr>) p (CrSet1 sid))"
    by (rule winv_upd [OF w s(1)]) (use s c set_ok_setval [OF ok f] set_ok_adj [OF ok, of p] in \<open>auto simp: setval_def\<close>)
  then show ?thesis
    using st s(1) c by (auto simp: sem_create_step_def semctl_setval_def deaths_def split: if_splits intro!: winv_Dead [OF w])
qed

lemma winv_CrSet1:
  assumes w: "winv N w" and p: "p < N" and c: "pcs w p = CrSet1 sid" and st: "sem_create_step w p (CrSet1 sid) = Some w'"
  shows "winv N w'"
proof -
  have "locks (pcs w p) = Some sid" by (simp add: c)
  then obtain s where s: "sets (kern w) sid = Some s" "p \<notin> users s" "p \<in> lockers s" and ok: "set_ok N s" and ph: "phase (pcs w p) s"
    by (rule winv_locks [OF w])
  then have f: "fresh s" by (simp add: c)
  have o: "semadj (setval 1 BIGCOUNT s) q 1 = semadj s q 1 \<and> semadj (setval 1 BIGCOUNT s) q 2 = semadj s q 2" for q
    using f set_ok_adj [OF ok, of q] by (simp add: setval_def fresh_def)
  have "winv N (goto (w\<lparr>kern := (kern w)\<lparr>sets := (sets (kern w))(sid \<mapsto> setval 1 BIGCOUNT s)\<rparr>\<rparr>) p (CrEnd sid False))"
    by (rule winv_upd [OF w s(1)]) (use s c set_ok_setval [OF ok f] set_ok_adj [OF ok, of p] o in auto)
  then show ?thesis
    using st s(1) c by (auto simp: sem_create_step_def semctl_setval_def BIGCOUNT_def SEMVMX_def)
qed

lemma winv_CrEnd:
  assumes w: "winv N w" and p: "p < N" "int N \<le> BIGCOUNT" and c: "pcs w p = CrEnd sid slp"
    and st: "sem_create_step w p (CrEnd sid slp) = Some w'"
  shows "winv N w'"
proof -
  have "locks (pcs w p) = Some sid" by (simp add: c)
  then obtain s where s: "sets (kern w) sid = Some s" "p \<notin> users s" "p \<in> lockers s" and ok: "set_ok N s" and ph: "phase (pcs w p) s"
    by (rule winv_locks [OF w])
  then have r: "ready s" by (simp add: c)
  let ?s = "put p 2 0 0 (put p 1 (semval s 1 - 1) 1 s)"
  have "ready ?s" by (rule ready_insert [OF ok r s(2)]) simp_all
  moreover have "lockers s = {p}" using ok s(3) by (auto simp: set_ok_def)
  ultimately have "set_ok N ?s" by (intro set_okI [OF ok _ _ _ p(1)]) auto
  then have "winv N (goto (w\<lparr>kern := (kern w)\<lparr>sets := (sets (kern w))(sid \<mapsto> ?s)\<rparr>\<rparr>) p (Held sid))"
    by (rule winv_upd [OF w s(1)]) (use s c in auto)
  then show ?thesis
    using st s(1) c do_endcreate [OF ok r p s(2,3)] by (simp add: sem_create_step_def semop_step_def semop_def)
qed

lemma winv_SOp:
  assumes w: "winv N w" and p: "p < N" and c: "pcs w p = SOp sid v slp" and st: "sem_op_step w p (SOp sid v slp) = Some w'"
  shows "winv N w'"
proof -
  have "uses (pcs w p) = Some sid" by (simp add: c)
  then obtain s where s: "sets (kern w) sid = Some s" "p \<in> users s" "p \<notin> lockers s" and ok: "set_ok N s"
    by (rule winv_uses [OF w])
  have v: "v \<noteq> 0" using pc_okD(3) [OF winv_pc [OF w, of p], of sid] c by auto
  let ?s = "put p 0 (semval s 0 + v) (semadj s p 0 - v) s"
  have ok': "set_ok N ?s"
    by (rule set_okI [OF ok _ _ _ p]) (use ok set_ok_adj [OF ok, of p] in \<open>auto simp: set_ok_def fresh_def ready_def\<close>)
  have 1: "winv N (goto (w\<lparr>kern := (kern w)\<lparr>sets := (sets (kern w))(sid \<mapsto> ?s)\<rparr>\<rparr>) p (Held sid))"
    by (rule winv_upd [OF w s(1) ok']) (use s c set_ok_adj [OF ok, of p] in \<open>auto simp: fresh_def ready_def\<close>)
  have 2: "winv N (goto w p (SOp sid v True))" by (rule winv_goto_same [OF w]) (simp_all add: c v)
  have 3: "winv N (goto w p (Dead (ErrSys ''sem_op error'')))" by (rule winv_Dead [OF w]) (simp add: deaths_def)
  show ?thesis
    using do_op [OF v, of p s] 1 2 3 st s(1) by (auto simp: sem_op_step_def semop_step_def semop_def split: if_splits)
qed

lemma winv_ClLock:
  assumes w: "winv N w" and p: "p < N" "int N \<le> BIGCOUNT" and c: "pcs w p = ClLock sid slp"
    and st: "sem_close_step w p (ClLock sid slp) = Some w'"
  shows "winv N w'"
proof -
  have "uses (pcs w p) = Some sid" by (simp add: c)
  then obtain s where s: "sets (kern w) sid = Some s" "p \<in> users s" "p \<notin> lockers s" and ok: "set_ok N s"
    by (rule winv_uses [OF w])
  have r: "ready s" using ok s(2) by (auto simp: set_ok_def fresh_def)
  let ?s = "put p 1 (semval s 1 + 1) 0 (put p 2 1 (- 1) s)"
  have rdy: "ready ?s" by (rule ready_remove [OF ok r s(2)]) simp_all
  show ?thesis
  proof (cases "semval s 2 = 0")
    case True
    then have l: "lockers s = {}" using ok by (auto simp: set_ok_def)
    then have ok': "set_ok N ?s" using rdy by (intro set_okI [OF ok _ _ _ p(1)]) auto
    have "winv N (goto (w\<lparr>kern := (kern w)\<lparr>sets := (sets (kern w))(sid \<mapsto> ?s)\<rparr>\<rparr>) p (ClVal sid))"
      by (rule winv_upd [OF w s(1) ok']) (use s c r rdy in \<open>auto simp: fresh_def\<close>)
    with True st s(1) show ?thesis
      by (simp add: sem_close_step_def semop_step_def semop_def do_close [OF ok p(2) s(2)])
  next
    case False
    have "winv N (goto w p (ClLock sid True))" by (rule winv_goto_same [OF w]) (simp_all add: c)
    with False st s(1) show ?thesis
      by (simp add: sem_close_step_def semop_step_def semop_def do_close [OF ok p(2) s(2)] split: if_splits)
  qed
qed

lemma winv_ClVal:
  assumes w: "winv N w" and c: "pcs w p = ClVal sid" and st: "sem_close_step w p (ClVal sid) = Some w'"
  shows "winv N w'"
proof -
  have "locks (pcs w p) = Some sid" by (simp add: c)
  then obtain s where s: "sets (kern w) sid = Some s" and ok: "set_ok N s" and ph: "phase (pcs w p) s"
    by (rule winv_locks [OF w])
  then have r: "ready s" by (simp add: c)
  then have le: "semval s 1 \<le> BIGCOUNT" by (simp add: ready_def)
  show ?thesis
  proof (cases "semval s 1 = BIGCOUNT")
    case True
    then have "users s = {}" using r card_users [OF ok] by (simp add: ready_def)
    with r have "winv N (goto w p (ClRm sid))" by (intro winv_goto_same [OF w]) (use s in \<open>auto simp: c\<close>)
    then show ?thesis using st s True by (simp add: sem_close_step_def)
  next
    case False
    have "winv N (goto w p (ClUnlock sid False))" using r by (intro winv_goto_same [OF w]) (use s in \<open>auto simp: c\<close>)
    then show ?thesis using st s False le by (simp add: sem_close_step_def)
  qed
qed

lemma winv_ClUnlock:
  assumes w: "winv N w" and p: "p < N" and c: "pcs w p = ClUnlock sid slp" and st: "sem_close_step w p (ClUnlock sid slp) = Some w'"
  shows "winv N w'"
proof -
  have "locks (pcs w p) = Some sid" by (simp add: c)
  then obtain s where s: "sets (kern w) sid = Some s" "p \<notin> users s" "p \<in> lockers s" and ok: "set_ok N s" and ph: "phase (pcs w p) s"
    by (rule winv_locks [OF w])
  then have r: "ready s" by (simp add: c)
  let ?s = "put p 2 0 0 s"
  have rdy: "ready ?s" by (rule ready_same [OF r]) simp_all
  have "lockers s = {p}" using ok s(3) by (auto simp: set_ok_def)
  then have ok': "set_ok N ?s" using rdy set_ok_adj [OF ok, of p] by (intro set_okI [OF ok _ _ _ p]) auto
  have "winv N (goto (w\<lparr>kern := (kern w)\<lparr>sets := (sets (kern w))(sid \<mapsto> ?s)\<rparr>\<rparr>) p Idle)"
    by (rule winv_upd [OF w s(1) ok']) (use s c r rdy set_ok_adj [OF ok, of p] in auto)
  then show ?thesis
    using st s(1) do_unlock [OF ok s(3)] by (simp add: sem_close_step_def semop_step_def semop_def)
qed

text \<open>The removal: no process uses the set or waits for its lock with it open.\<close>

lemma winv_ClRm:
  assumes w: "winv N w" and c: "pcs w p = ClRm sid" and st: "sem_close_step w p (ClRm sid) = Some w'"
  shows "winv N w'"
proof -
  have "locks (pcs w p) = Some sid" by (simp add: c)
  then obtain s where s: "sets (kern w) sid = Some s" "p \<in> lockers s" and ok: "set_ok N s" and ph: "phase (pcs w p) s"
    by (rule winv_locks [OF w])
  then have u: "users s = {}" by (simp add: c)
  obtain k where k: "semctl_rmid (kern w) sid = Some k" "sets k = (sets (kern w))(sid := None)" "nextid k = nextid (kern w)"
    using s(1) by (simp add: semctl_rmid_def)
  have "pc_ok k q (((pcs w)(p := Idle)) q)" for q
  proof (cases "q = p")
    case True
    have "adj_ok k p Idle"
      using pc_okD(2) [OF winv_pc [OF w, of p]] c k(2) by (auto simp: adj_ok_def split: if_splits)
    then show ?thesis using True by (simp add: pc_ok_def)
  next
    case False
    show ?thesis
    proof (cases "dead (pcs w q)")
      case True
      then show ?thesis using winv_pc [OF w, of q] False by (cases "pcs w q") simp_all
    next
      case alive: False
      note pc = pc_okD [OF winv_pc [OF w, of q] alive]
      have "uses (pcs w q) \<noteq> Some sid"
        using s(1) u winv_uses [OF w, of q sid] by (metis empty_iff option.inject)
      moreover have "locks (pcs w q) \<noteq> Some sid"
        using s one_locker [OF ok s(2), of q] False winv_locks [OF w, of q sid] by (metis option.inject)
      moreover have "adj_ok k q (pcs w q)" using pc(2) k(2) by (auto simp: adj_ok_def split: if_splits)
      ultimately show ?thesis using pc(1,3) k(2) alive False by (subst pc_ok_alive) auto
    qed
  qed
  moreover have "set_ok N t \<and> j < nextid k" if "sets k j = Some t" for j t
    using that w k by (auto simp: winv_def split: if_splits)
  ultimately have "winv N (goto (w\<lparr>kern := k\<rparr>) p Idle)" by (simp add: winv_def)
  then show ?thesis using st k by (simp add: sem_close_step_def sem_rm_def)
qed

text \<open>The exit of a process.\<close>

lemma undo_set_simps [simp]:
  "users (undo_set p s) = users s - {p}" "lockers (undo_set p s) = lockers s - {p}"
  "q \<noteq> p \<Longrightarrow> semadj (undo_set p s) q = semadj s q" "semadj (undo_set p s) p = (\<lambda>_. 0)"
  "semval (undo_set p s) n = max 0 (semval s n + semadj s p n)"
  by (auto simp: undo_set_def users_def lockers_def)

lemma set_ok_undo:
  assumes "set_ok N s" and "p < N" and "int N \<le> BIGCOUNT"
  shows "set_ok N (undo_set p s)" and "fresh s \<Longrightarrow> fresh (undo_set p s)" and "ready s \<Longrightarrow> ready (undo_set p s)"
proof -
  note adj = set_ok_adj [OF assms(1), of p]
  show f: "fresh (undo_set p s)" if "fresh s" using that adj by (simp add: fresh_def)
  show r: "ready (undo_set p s)" if "ready s"
  proof -
    have "0 \<le> semval s 1" using that card_users [OF assms(1)] assms(3) by (simp add: ready_def)
    then show ?thesis
    proof (cases "p \<in> users s")
      case True
      with \<open>0 \<le> semval s 1\<close> show ?thesis
        by (intro ready_remove [OF assms(1) that True]) (use adj in simp_all)
    next
      case False
      with \<open>0 \<le> semval s 1\<close> show ?thesis
        by (intro ready_same [OF that]) (use adj in simp_all)
    qed
  qed
  have "lockers (undo_set p s) = {} \<and> semval (undo_set p s) 2 = 0 \<or>
      lockers (undo_set p s) = lockers s \<and> semval (undo_set p s) 2 = semval s 2"
    using assms(1) adj(2) by (auto simp: set_ok_def)
  then show "set_ok N (undo_set p s)"
    using f r assms(1) by (intro set_okI [OF assms(1) _ _ _ assms(2)]) (auto simp: set_ok_def)
qed

lemma phase_undo:
  assumes "set_ok N s" and "p < N" and "int N \<le> BIGCOUNT" and "phase c s"
  shows "phase c (undo_set p s)"
  using set_ok_undo [OF assms(1-3)] assms(4) by (cases c) auto

lemma winv_exit:
  assumes w: "winv N w" and p: "p < N" "int N \<le> BIGCOUNT"
  shows "winv N (sem_exit w p)"
proof -
  let ?k = "kern (sem_exit w p)"
  have k: "sets ?k j = map_option (undo_set p) (sets (kern w) j)" "nextid ?k = nextid (kern w)" for j
    by (simp_all add: sem_exit_def)
  have "pc_ok ?k q (pcs (sem_exit w p) q)" for q
  proof (cases "q = p")
    case True
    then show ?thesis by (auto simp: pc_ok_def adj_ok_def sem_exit_def)
  next
    case False
    then have c: "pcs (sem_exit w p) q = pcs w q" by (simp add: sem_exit_def)
    show ?thesis
    proof (cases "dead (pcs w q)")
      case True
      then show ?thesis using winv_pc [OF w, of q] unfolding c by (cases "pcs w q") simp_all
    next
      case alive: False
      note pc = pc_okD [OF winv_pc [OF w, of q] alive]
      have "adj_ok ?k q (pcs w q)" using pc(2) False by (auto simp: adj_ok_def k(1))
      moreover have "\<exists>t. sets ?k j = Some t \<and> phase (pcs w q) t" if "uses (pcs w q) = Some j \<or> locks (pcs w q) = Some j" for j
        using pc(3) [OF that] phase_undo [OF winv_set [OF w] p] by (auto simp: k(1))
      ultimately show ?thesis using pc(1) alive by (simp only: c pc_ok_alive simp_thms) blast
    qed
  qed
  moreover have "set_ok N t \<and> j < nextid ?k" if "sets ?k j = Some t" for j t
    using that w set_ok_undo(1) [OF _ p] by (auto simp: winv_def k)
  ultimately show ?thesis unfolding winv_def by blast
qed

end
