(* ===== verification/SemaphProps.thy ===== *)
theory SemaphProps
  imports SemaphSteps
begin

section \<open>The semaphore library: properties\<close>

subsection \<open>Processes that create, operate, close and exit\<close>

text \<open>
  The steps of at most \<open>N\<close> processes.  \<open>Open\<close> and \<open>Rm\<close> are left out: \<^verbatim>\<open>sem_open\<close> and \<^verbatim>\<open>sem_rm\<close> break the
  protocol, see below.
\<close>

fun polite :: "semact \<Rightarrow> bool" where
  "polite (Open _) = False"
| "polite Rm = False"
| "polite _ = True"

inductive sem_reach :: "nat \<Rightarrow> semworld \<Rightarrow> bool" for N where
  start: "sem_reach N sem_start"
| step: "sem_reach N w \<Longrightarrow> p < N \<Longrightarrow> polite a \<Longrightarrow> sem_act p a w = Some w' \<Longrightarrow> sem_reach N w'"

inductive_simps sem_reach_simps: "sem_reach N w"

lemma winv_sem_run:
  assumes w: "winv N w" and p: "p < N" "int N \<le> BIGCOUNT" and st: "sem_run w p = Some w'"
  shows "winv N w'"
proof -
  have no: "\<not> inopen (pcs w p)" using winv_pc [OF w, of p] by (simp add: pc_ok_def)
  show ?thesis
  proof (cases "pcs w p")
    case Idle with st show ?thesis by (simp add: sem_run_def sem_create_step_def)
  next
    case (CrGet key v) with st show ?thesis using winv_CrGet [OF w] by (simp add: sem_run_def)
  next
    case (CrLock key v sid slp) with st show ?thesis using winv_CrLock [OF w p(1)] by (simp add: sem_run_def)
  next
    case (CrVal v sid) with st show ?thesis using winv_CrVal [OF w p] by (simp add: sem_run_def)
  next
    case (CrSet0 v sid) with st show ?thesis using winv_CrSet0 [OF w p(1)] by (simp add: sem_run_def)
  next
    case (CrSet1 sid) with st show ?thesis using winv_CrSet1 [OF w p(1)] by (simp add: sem_run_def)
  next
    case (CrEnd sid slp) with st show ?thesis using winv_CrEnd [OF w p] by (simp add: sem_run_def)
  next
    case (OpGet key) with no show ?thesis by simp
  next
    case (OpDec sid slp) with no show ?thesis by simp
  next
    case (Held sid) with st show ?thesis by (simp add: sem_run_def sem_create_step_def)
  next
    case (SOp sid v slp) with st show ?thesis using winv_SOp [OF w p(1)] by (simp add: sem_run_def)
  next
    case (ClLock sid slp) with st show ?thesis using winv_ClLock [OF w p] by (simp add: sem_run_def)
  next
    case (ClVal sid) with st show ?thesis using winv_ClVal [OF w] by (simp add: sem_run_def)
  next
    case (ClRm sid) with st show ?thesis using winv_ClRm [OF w] by (simp add: sem_run_def)
  next
    case (ClUnlock sid slp) with st show ?thesis using winv_ClUnlock [OF w p(1)] by (simp add: sem_run_def)
  next
    case (Dead e) with st show ?thesis by (simp add: sem_run_def sem_create_step_def)
  next
    case Gone with st show ?thesis by (simp add: sem_run_def sem_create_step_def)
  qed
qed

lemma winv_sem_act:
  assumes w: "winv N w" and p: "p < N" "int N \<le> BIGCOUNT" and a: "polite a" and st: "sem_act p a w = Some w'"
  shows "winv N w'"
proof (cases a)
  case (Create key v)
  then have c: "pcs w p = Idle" "w' = sem_create w p key v" using st by (auto simp: sem_act_def split: if_splits)
  have "winv N (goto w p (CrGet key v))" by (rule winv_goto_same [OF w]) (simp_all add: c)
  then show ?thesis using w by (simp add: c sem_create_def)
next
  case (Op v)
  then obtain sid where c: "pcs w p = Held sid" "w' = sem_op w p sid v" using st by (auto simp: sem_act_def split: sempc.splits)
  have "winv N (goto w p (SOp sid v False))" if "v \<noteq> 0" by (rule winv_goto_same [OF w]) (simp_all add: c that)
  moreover have "winv N (goto w p (Dead (ErrSys ''can't have value == 0'')))"
    by (rule winv_Dead [OF w]) (simp add: deaths_def)
  ultimately show ?thesis by (simp add: c sem_op_def)
next
  case Close
  then obtain sid where c: "pcs w p = Held sid" "w' = goto w p (ClLock sid False)" using st by (auto simp: sem_act_def split: sempc.splits)
  show ?thesis unfolding c(2) by (rule winv_goto_same [OF w]) (simp_all add: c)
next
  case Run
  then show ?thesis using winv_sem_run [OF w p] st by (simp add: sem_act_def)
next
  case Refuse
  have "\<not> inopen (pcs w p)" using winv_pc [OF w, of p] by (simp add: pc_ok_def)
  with Refuse obtain key v where c: "pcs w p = CrGet key v" "w' = goto w p Idle" using st by (auto simp: sem_act_def split: sempc.splits)
  show ?thesis unfolding c(2) by (rule winv_goto_same [OF w]) (simp_all add: c)
next
  case ExitNow
  then show ?thesis using winv_exit [OF w p] st by (auto simp: sem_act_def split: if_splits)
qed (use a in simp_all)

lemma sem_reach_winv: "sem_reach N w \<Longrightarrow> int N \<le> BIGCOUNT \<Longrightarrow> winv N w"
  by (induction rule: sem_reach.induct) (auto intro: winv_start winv_sem_act)


lemma sem_acts_reach:
  "sem_reach N w \<Longrightarrow> \<forall>(p, a) \<in> set as. p < N \<and> polite a \<Longrightarrow> sem_acts as w = Some w' \<Longrightarrow> sem_reach N w'"
proof (induction as arbitrary: w)
  case (Cons x as)
  obtain p a where x: "x = (p, a)" by (cases x)
  with Cons.prems(3) obtain w1 where "sem_act p a w = Some w1" "sem_acts as w1 = Some w'"
    by (auto simp: bind_eq_Some_conv)
  with Cons.IH [OF sem_reach.step [of N w p a w1]] Cons.prems(1,2) x show ?case by auto
qed simp

lemmas sem_exec_defs = sem_act_def sem_start_def sem_create_def sem_run_def sem_create_step_def sem_close_step_def
  sem_open_def sem_open_step_def sem_op_def sem_op_step_def sem_rm_def semget_def semop_step_def semop_def goto_def new_set_def
  setval_def semctl_setval_def semctl_rmid_def op_lock_def op_endcreate_def op_close_def op_open_def op_unlock_def op_op_def
  BIGCOUNT_def SEMVMX_def Let_def

text \<open>Two processes have created the semaphore of key 7 with the value 1, and the first is closing it.\<close>

definition two_users :: "(nat \<times> semact) list" where
  "two_users = [(0, Create 7 1), (0, Run), (0, Run), (0, Run), (0, Run), (0, Run), (0, Run),
     (1, Create 7 1), (1, Run), (1, Run), (1, Run), (1, Run), (0, Close), (0, Run)]"

lemma two_users_run: "\<exists>w. sem_acts two_users sem_start = Some w \<and> pcs w 0 = ClVal 0 \<and> pcs w 1 = Held 0"
  by (simp add: two_users_def sem_exec_defs)


subsection \<open>Where the protocol breaks\<close>

text \<open>
  Two interleavings of two processes in which the library fails.  In the first \<^verbatim>\<open>sem_open\<close>, which
  does not take the lock, succeeds between the \<^verbatim>\<open>GETVAL\<close> and the \<^verbatim>\<open>IPC_RMID\<close> of a \<^verbatim>\<open>sem_close\<close>: the
  process has a semaphore open that does not exist, and its next operation is fatal.  In the second a
  \<^verbatim>\<open>sem_create\<close> that waits for the lock when the last user removes the set gets \<^verbatim>\<open>EIDRM\<close>, for which the code
  does not try again as it does for \<^verbatim>\<open>EINVAL\<close>.
\<close>

theorem semaphore_removal_races:
  "(\<exists>w. sem_acts [(0, Create 7 1), (0, Run), (0, Run), (0, Run), (0, Run), (0, Run), (0, Run), (1, Open 7), (1, Run),
        (0, Close), (0, Run), (0, Run), (1, Run), (0, Run)] sem_start = Some w \<and>
      pcs w 0 = Idle \<and> pcs w 1 = Held 0 \<and> sets (kern w) 0 = None \<and>
      (\<exists>w'. sem_acts [(1, Op (- 1)), (1, Run)] w = Some w' \<and> pcs w' 1 = Dead (ErrSys ''sem_op error''))) \<and>
   (\<exists>w. sem_acts [(0, Create 7 1), (0, Run), (0, Run), (0, Run), (0, Run), (0, Run), (0, Run), (0, Close), (0, Run),
        (1, Create 7 1), (1, Run), (1, Run), (0, Run), (0, Run), (1, Run)] sem_start = Some w \<and>
      pcs w 0 = Idle \<and> pcs w 1 = Dead (ErrSys ''can't lock''))"
  by (simp add: sem_exec_defs)

end
