(* ===== verification/Philosophers.thy ===== *)
theory Philosophers
  imports CText
begin

section \<open>The dining philosophers\<close>

text \<open>
  \<^verbatim>\<open>Exp_4_Simulating_Dining_Philosophers_Problem\<close>: \<^verbatim>\<open>lock.c\<close> makes a lock of a file that
  \<^verbatim>\<open>open\<close> with \<^verbatim>\<open>O_CREAT | O_EXCL\<close> creates, \<^verbatim>\<open>philosopher.c\<close> runs five processes over five of them.  The
  state is the set of files that exist and where each process is; a step is one system call.
\<close>

definition PHILO_NUM :: nat where "PHILO_NUM = 5"

definition forks :: "string list" where
  "forks = [''fork0'', ''fork1'', ''fork2'', ''fork3'', ''fork4'']"

subsection \<open>\<^verbatim>\<open>lock.c\<close>\<close>

definition initlock :: "string \<Rightarrow> string set \<Rightarrow> string set" where
  "initlock f fs = fs - {f}"

text \<open>One try of the loop in \<^verbatim>\<open>lock\<close>; after \<open>None\<close> the process sleeps for a second and tries again.\<close>

definition try_lock :: "string \<Rightarrow> string set \<Rightarrow> string set option" where
  "try_lock f fs = (if f \<in> fs then None else Some (insert f fs))"

definition unlock :: "string \<Rightarrow> string set \<Rightarrow> string set" where
  "unlock f fs = fs - {f}"

subsection \<open>\<^verbatim>\<open>philosopher.c\<close>\<close>

text \<open>The last philosopher takes the left fork first, the others the right one.\<close>

definition first_idx :: "nat \<Rightarrow> nat" where "first_idx i = (if i = PHILO_NUM - 1 then 0 else i)"
definition second_idx :: "nat \<Rightarrow> nat" where "second_idx i = (if i = PHILO_NUM - 1 then i else i + 1)"

datatype ppc = Thinking | Take1 | Take2 | Eating | Put1 | Put2

record table =
  files :: "string set"
  ppcs :: "nat \<Rightarrow> ppc"

definition move :: "table \<Rightarrow> nat \<Rightarrow> ppc \<Rightarrow> string set \<Rightarrow> table" where
  "move t i c fs = \<lparr>files = fs, ppcs = (ppcs t)(i := c)\<rparr>"

definition take_fork :: "nat \<Rightarrow> table \<Rightarrow> table option" where
  "take_fork i t = (case ppcs t i of
       Take1 \<Rightarrow> map_option (move t i Take2) (try_lock (forks ! first_idx i) (files t))
     | Take2 \<Rightarrow> map_option (move t i Eating) (try_lock (forks ! second_idx i) (files t))
     | _ \<Rightarrow> None)"

definition put_fork :: "nat \<Rightarrow> table \<Rightarrow> table option" where
  "put_fork i t = (case ppcs t i of
       Put1 \<Rightarrow> Some (move t i Put2 (unlock (forks ! first_idx i) (files t)))
     | Put2 \<Rightarrow> Some (move t i Thinking (unlock (forks ! second_idx i) (files t)))
     | _ \<Rightarrow> None)"

text \<open>One step of \<^verbatim>\<open>philosopher(i)\<close>; \<open>None\<close>: a try to lock has failed.\<close>

definition philosopher :: "nat \<Rightarrow> table \<Rightarrow> table option" where
  "philosopher i t = (case ppcs t i of
       Thinking \<Rightarrow> Some (move t i Take1 (files t))
     | Eating \<Rightarrow> Some (move t i Put1 (files t))
     | Put1 \<Rightarrow> put_fork i t
     | Put2 \<Rightarrow> put_fork i t
     | _ \<Rightarrow> take_fork i t)"

text \<open>The options of \<^verbatim>\<open>main\<close>: how long to think and to eat.\<close>

definition philo_args :: "string list \<Rightarrow> int run" where
  "philo_args argv =
     (if length argv = 3 \<and> take 2 (argv ! 1) = ''-t'' then ret (atoi (argv ! 2))
      else if length argv \<noteq> 1 then die (ErrQuit ''usage: philosopher [-t <time>]'')
      else ret 2)"

text \<open>\<^verbatim>\<open>main\<close>: the forks are removed, then the processes start.\<close>

definition philo_main :: "string set \<Rightarrow> table" where
  "philo_main fs = \<lparr>files = fold initlock forks fs, ppcs = (\<lambda>_. Thinking)\<rparr>"

inductive phil_reach :: "table \<Rightarrow> bool" where
  start: "phil_reach (philo_main fs)"
| step: "phil_reach t \<Longrightarrow> i < PHILO_NUM \<Longrightarrow> philosopher i t = Some t' \<Longrightarrow> phil_reach t'"

subsection \<open>The invariant: a fork file exists while one philosopher holds it\<close>

definition holds :: "nat \<Rightarrow> ppc \<Rightarrow> nat set" where
  "holds i c = (case c of
       Thinking \<Rightarrow> {} | Take1 \<Rightarrow> {} | Take2 \<Rightarrow> {first_idx i} | Eating \<Rightarrow> {first_idx i, second_idx i}
     | Put1 \<Rightarrow> {first_idx i, second_idx i} | Put2 \<Rightarrow> {second_idx i})"

definition held :: "table \<Rightarrow> nat set" where
  "held t = {k. k < PHILO_NUM \<and> forks ! k \<in> files t}"

definition phil_inv :: "table \<Rightarrow> bool" where
  "phil_inv t \<longleftrightarrow> held t = (\<Union>i<PHILO_NUM. holds i (ppcs t i)) \<and>
     (\<forall>i<PHILO_NUM. \<forall>j<PHILO_NUM. i \<noteq> j \<longrightarrow> holds i (ppcs t i) \<inter> holds j (ppcs t j) = {})"

lemma forks_inj: "j < PHILO_NUM \<Longrightarrow> k < PHILO_NUM \<Longrightarrow> forks ! j = forks ! k \<Longrightarrow> j = k"
proof -
  have "distinct forks" "length forks = PHILO_NUM" by (simp_all add: forks_def PHILO_NUM_def)
  then show "j < PHILO_NUM \<Longrightarrow> k < PHILO_NUM \<Longrightarrow> forks ! j = forks ! k \<Longrightarrow> j = k"
    by (simp add: nth_eq_iff_index_eq)
qed

lemma idx [simp]: "i < PHILO_NUM \<Longrightarrow> first_idx i < PHILO_NUM" "i < PHILO_NUM \<Longrightarrow> second_idx i < PHILO_NUM"
  "i < PHILO_NUM \<Longrightarrow> first_idx i < second_idx i"
  by (auto simp: first_idx_def second_idx_def PHILO_NUM_def)

lemma held_move:
  "k < PHILO_NUM \<Longrightarrow> held (move t i c (insert (forks ! k) (files t))) = insert k (held t)"
  "k < PHILO_NUM \<Longrightarrow> held (move t i c (files t - {forks ! k})) = held t - {k}"
  "held (move t i c (files t)) = held t"
  by (auto simp: held_def move_def dest: forks_inj)

lemma held_mem: "k < PHILO_NUM \<Longrightarrow> forks ! k \<in> files t \<longleftrightarrow> k \<in> held t"
  by (simp add: held_def)

lemma ppcs_move [simp]: "ppcs (move t i c fs) = (ppcs t)(i := c)"
  by (simp add: move_def)

text \<open>A step of \<open>i\<close> changes the forks in use exactly as it changes what \<open>i\<close> holds.\<close>

lemma phil_inv_move:
  assumes "phil_inv t" and i: "i < PHILO_NUM"
    and "held t' = (held t - holds i (ppcs t i)) \<union> holds i c" and "ppcs t' = (ppcs t)(i := c)"
    and new: "holds i c \<subseteq> holds i (ppcs t i) \<or> (holds i c - holds i (ppcs t i)) \<inter> held t = {}"
  shows "phil_inv t'"
proof -
  have h: "held t = (\<Union>i<PHILO_NUM. holds i (ppcs t i))"
    and d: "\<And>j k. j < PHILO_NUM \<Longrightarrow> k < PHILO_NUM \<Longrightarrow> j \<noteq> k \<Longrightarrow> holds j (ppcs t j) \<inter> holds k (ppcs t k) = {}"
    using assms(1) by (auto simp: phil_inv_def)
  have o: "holds i c \<inter> holds j (ppcs t j) = {}" if "j < PHILO_NUM" "j \<noteq> i" for j
    using new d [OF i that(1)] that h by blast
  have "held t' = (\<Union>j<PHILO_NUM. holds j (ppcs t' j))"
  proof -
    have "(\<Union>j<PHILO_NUM. holds j (ppcs t' j)) = holds i c \<union> (\<Union>j\<in>{..<PHILO_NUM} - {i}. holds j (ppcs t j))"
      unfolding assms(4) using i by (auto split: if_splits)
    moreover have "held t - holds i (ppcs t i) = (\<Union>j\<in>{..<PHILO_NUM} - {i}. holds j (ppcs t j))"
    proof -
      have "x \<notin> holds i (ppcs t i)" if "j < PHILO_NUM" "j \<noteq> i" "x \<in> holds j (ppcs t j)" for x j
        using d [OF that(1) i that(2)] that(3) by blast
      then show ?thesis unfolding h using i by auto
    qed
    ultimately show ?thesis unfolding assms(3) by (simp add: Un_commute)
  qed
  moreover have "holds j (ppcs t' j) \<inter> holds k (ppcs t' k) = {}" if "j < PHILO_NUM" "k < PHILO_NUM" "j \<noteq> k" for j k
    unfolding assms(4) using d [OF that] o [of j] o [of k] that by (cases "j = i"; cases "k = i") (simp_all add: Int_commute)
  ultimately show ?thesis by (simp add: phil_inv_def)
qed

lemma phil_inv_step:
  assumes inv: "phil_inv t" and i: "i < PHILO_NUM" and st: "philosopher i t = Some t'"
  shows "phil_inv t'"
proof -
  have ne: "first_idx i \<noteq> second_idx i" using idx(3) [OF i] by simp
  have sub: "holds i (ppcs t i) \<subseteq> held t" using inv i by (auto simp: phil_inv_def)
  note defs = philosopher_def take_fork_def put_fork_def try_lock_def unlock_def held_move holds_def i ne ne [symmetric]
  show ?thesis
  proof (cases "ppcs t i")
    case Thinking
    with st show ?thesis by (intro phil_inv_move [OF inv i, of _ Take1]) (auto simp: defs)
  next
    case Take1
    with st show ?thesis
      by (intro phil_inv_move [OF inv i, of _ Take2]) (auto simp: defs held_mem split: if_splits)
  next
    case Take2
    with st sub show ?thesis
      by (intro phil_inv_move [OF inv i, of _ Eating]) (auto simp: defs held_mem split: if_splits)
  next
    case Eating
    with st sub show ?thesis by (intro phil_inv_move [OF inv i, of _ Put1]) (auto simp: defs)
  next
    case Put1
    with st sub show ?thesis by (intro phil_inv_move [OF inv i, of _ Put2]) (auto simp: defs)
  next
    case Put2
    with st sub show ?thesis by (intro phil_inv_move [OF inv i, of _ Thinking]) (auto simp: defs)
  qed
qed

lemma phil_inv_start: "phil_inv (philo_main fs)"
proof -
  have "files (philo_main fs) = fs - set forks" by (auto simp: philo_main_def initlock_def forks_def)
  moreover have "k < PHILO_NUM \<Longrightarrow> forks ! k \<in> set forks" for k by (rule nth_mem) (simp add: forks_def PHILO_NUM_def)
  ultimately have "held (philo_main fs) = {}" by (auto simp: held_def)
  then show ?thesis by (simp add: phil_inv_def philo_main_def holds_def)
qed

lemma phil_reach_inv: "phil_reach t \<Longrightarrow> phil_inv t"
  by (induction rule: phil_reach.induct) (auto intro: phil_inv_start phil_inv_step)

text \<open>The forks have an order, and who waits with a fork waits for a higher one.\<close>

lemma phil_not_all_blocked:
  assumes inv: "phil_inv t"
  shows "\<exists>i<PHILO_NUM. philosopher i t \<noteq> None"
proof (rule ccontr)
  assume "\<not> ?thesis"
  then have blocked: "philosopher i t = None" if "i < PHILO_NUM" for i using that by blast
  have pc: "ppcs t i = Take1 \<and> first_idx i \<in> held t \<or> ppcs t i = Take2 \<and> second_idx i \<in> held t" if i: "i < PHILO_NUM" for i
    using blocked [OF i] i
    by (cases "ppcs t i") (auto simp: philosopher_def take_fork_def put_fork_def try_lock_def held_def split: if_splits)
  have fin: "finite (held t)" by (simp add: held_def)
  have ne: "held t \<noteq> {}" using pc [of 0] by (auto simp: PHILO_NUM_def)
  define m where "m = Max (held t)"
  have "m \<in> held t" unfolding m_def by (rule Max_in [OF fin ne])
  then obtain i where i: "i < PHILO_NUM" "m \<in> holds i (ppcs t i)" using inv by (auto simp: phil_inv_def)
  with pc [OF i(1)] have "m = first_idx i" "second_idx i \<in> held t" by (auto simp: holds_def)
  then have "second_idx i \<le> first_idx i" using Max_ge [OF fin] by (auto simp: m_def)
  with idx(3) [OF i(1)] show False by simp
qed

text \<open>
  C17: in every state that the philosophers reach, whatever files were there before, two neighbours never eat
  at the same time, and some philosopher can go on: they never all wait for a fork.
\<close>

theorem philosophers_safe_and_live:
  assumes "phil_reach t"
  shows "(\<forall>i<PHILO_NUM. \<not> (ppcs t i = Eating \<and> ppcs t (Suc i mod PHILO_NUM) = Eating)) \<and>
    (\<exists>i<PHILO_NUM. \<exists>t'. philosopher i t = Some t')"
proof (intro conjI allI impI notI)
  note inv = phil_reach_inv [OF assms]
  show "\<exists>i<PHILO_NUM. \<exists>t'. philosopher i t = Some t'" using phil_not_all_blocked [OF inv] by auto
  fix i assume i: "i < PHILO_NUM" and e: "ppcs t i = Eating \<and> ppcs t (Suc i mod PHILO_NUM) = Eating"
  let ?j = "Suc i mod PHILO_NUM"
  have j: "?j < PHILO_NUM" "i \<noteq> ?j" using i by (auto simp: PHILO_NUM_def mod_Suc)
  have "{first_idx i, second_idx i} \<inter> {first_idx ?j, second_idx ?j} \<noteq> {}"
    using i by (auto simp: first_idx_def second_idx_def PHILO_NUM_def mod_Suc)
  then have "holds i (ppcs t i) \<inter> holds ?j (ppcs t ?j) \<noteq> {}" using e by (simp add: holds_def)
  then show False using inv i j unfolding phil_inv_def by blast
qed

theorem philosophers_safe_and_live_witness:
  "\<exists>t. phil_reach t \<and> ppcs t 0 = Take1 \<and> ppcs t 1 \<noteq> Eating \<and> (\<exists>i<PHILO_NUM. \<exists>t'. philosopher i t = Some t')"
proof -
  let ?t = "move (philo_main {''fork2''}) 0 Take1 (files (philo_main {''fork2''}))"
  have "phil_reach ?t"
    by (rule phil_reach.step [OF phil_reach.start, of 0]) (simp_all add: PHILO_NUM_def philosopher_def philo_main_def)
  from philosophers_safe_and_live [OF this] this show ?thesis
    by (intro exI [of _ ?t]) (simp add: philo_main_def)
qed

end
