(* ===== verification/FdPass.thy ===== *)
theory FdPass
  imports CalldFiles
begin

section \<open>Passing descriptors: \<^verbatim>\<open>lib/sendfd.c\<close>, \<^verbatim>\<open>lib/senderr.c\<close>, \<^verbatim>\<open>lib/recvfd.c\<close>\<close>

text \<open>
  What goes over the UNIX domain socket: text, and the final two bytes with or without a descriptor in the
  control part.  \<open>wr\<close> says which of the writes work.
\<close>

datatype sockitem = Txt string | Ctl string "int option"

definition status_byte :: "int \<Rightarrow> char" where
  "status_byte e = (let b = char_of (nat ((- e) mod 256)) in if b = nul then char_of (1 :: nat) else b)"

text \<open>\<^verbatim>\<open>send_fd\<close>: the result, and what is sent.\<close>

definition send_fd :: "(sockitem \<Rightarrow> bool) \<Rightarrow> int \<Rightarrow> int \<times> sockitem list" where
  "send_fd wr fd =
     (let it = (if fd < 0 then Ctl [nul, status_byte fd] None else Ctl [nul, nul] (Some fd)) in
      if wr it then (0, [it]) else (- 1, []))"

definition send_err :: "(sockitem \<Rightarrow> bool) \<Rightarrow> int \<Rightarrow> string \<Rightarrow> int \<times> sockitem list" where
  "send_err wr errcode msg =
     (if msg \<noteq> [] \<and> \<not> wr (Txt msg) then (- 1, [])
      else case send_fd wr (if 0 \<le> errcode then - 1 else errcode) of
        (rc, its) \<Rightarrow> (if rc < 0 then - 1 else 0, (if msg = [] then [] else [Txt msg]) @ its))"

subsection \<open>Receiving\<close>

text \<open>How one \<^verbatim>\<open>recvmsg\<close> ends; no bytes: the server has closed the connection.\<close>

datatype rmsg = RecvErr | Recv string "int option"

text \<open>
  The \<^verbatim>\<open>for\<close> loop over the \<open>nr\<close> bytes of \<open>buf\<close> from \<open>i\<close> on: \<open>None\<close>, or the status and \<^verbatim>\<open>newfd\<close>.
\<close>

function find_status :: "string \<Rightarrow> int option \<Rightarrow> nat \<Rightarrow> (nat \<times> int) option run" where
  "find_status buf ctl i =
     (if length buf \<le> i then ret None
      else if buf ! i \<noteq> nul then find_status buf ctl (Suc i)
      else if i + 2 \<noteq> length buf then die (ErrDump ''message format error'')
      else
        let status = of_char (buf ! Suc i) in
        if status = 0 then
          (case ctl of None \<Rightarrow> die (ErrDump ''status = 0 but no fd'') | Some fd \<Rightarrow> ret (Some (status, fd)))
        else ret (Some (status, - int status)))"
  by pat_completeness auto
termination by (relation "measure (\<lambda>(buf, ctl, i). length buf - i)") auto

declare find_status.simps [simp del]

text \<open>
  \<^verbatim>\<open>recv_fd\<close> on the messages to come; \<open>uf\<close> says whether the user's function took all bytes, \<open>out\<close> is what it
  was given so far.  The result, the output and the messages that are left.
\<close>

fun recv_fd :: "(string \<Rightarrow> bool) \<Rightarrow> string \<Rightarrow> rmsg list \<Rightarrow> (int \<times> string \<times> rmsg list) run" where
  "recv_fd uf out [] = ret (- 1, out, [])"
| "recv_fd uf out (RecvErr # ms) = die (ErrSys ''recvmsg error'')"
| "recv_fd uf out (Recv buf ctl # ms) =
     (if buf = [] then ret (- 1, out, ms)
      else rbind (find_status buf ctl 0) (\<lambda>st.
        let text = (case st of None \<Rightarrow> buf | Some _ \<Rightarrow> take (length buf - 2) buf) in
        if text \<noteq> [] \<and> \<not> uf text then ret (- 1, out, ms)
        else case st of None \<Rightarrow> recv_fd uf (out @ text) ms | Some (_, newfd) \<Rightarrow> ret (newfd, out @ text, ms)))"

subsection \<open>What the socket may do in between\<close>

text \<open>
  The items sent and the messages received: text may be cut anywhere and may come together with the final bytes
  behind it.  The final bytes are cut only when \<^verbatim>\<open>MAXLINE - 1\<close> bytes of text stand before them in one
  message.  \<open>t\<close> is text that was sent and not yet received.
\<close>

inductive delivers :: "string \<Rightarrow> sockitem list \<Rightarrow> rmsg list \<Rightarrow> bool" where
  d_done: "delivers [] [] []"
| d_text: "delivers (t @ s) its ms \<Longrightarrow> delivers t (Txt s # its) ms"
| d_piece: "a \<noteq> [] \<Longrightarrow> length a \<le> MAXLINE \<Longrightarrow> delivers t its ms \<Longrightarrow> delivers (a @ t) its (Recv a None # ms)"
| d_final: "length (t @ m) \<le> MAXLINE \<Longrightarrow> delivers [] its ms \<Longrightarrow> delivers t (Ctl m fd # its) (Recv (t @ m) fd # ms)"
| d_cut: "length t = MAXLINE - 1 \<Longrightarrow> delivers [b] its ms \<Longrightarrow> delivers t (Ctl [a, b] fd # its) (Recv (t @ [a]) fd # ms)"

inductive_cases delivers_ctlE: "delivers t (Ctl m fd # its) ms"
inductive_cases delivers_txtE: "delivers t (Txt s # its) ms"
inductive_cases delivers_nilE: "delivers [] [] ms"

lemma of_char_nul [simp]: "of_char nul = (0 :: nat)"
  by (simp add: nul_def)

lemma char_of_0: "char_of (0 :: nat) = nul"
  by (metis char_of_char of_char_nul)

lemma find_status_text: "nul \<notin> set (drop i buf) \<Longrightarrow> find_status buf ctl i = ret None"
proof (induction "length buf - i" arbitrary: i)
  case 0
  then show ?case by (subst find_status.simps) simp
next
  case (Suc n)
  then have i: "i < length buf" by simp
  then have "drop i buf = buf ! i # drop (Suc i) buf" by (simp add: Cons_nth_drop_Suc)
  then have "buf ! i \<noteq> nul" "nul \<notin> set (drop (Suc i) buf)" using Suc.prems by auto
  moreover have "n = length buf - Suc i" using Suc.hyps(2) by simp
  ultimately show ?case using Suc.hyps(1) [of "Suc i"] i by (subst find_status.simps) simp
qed

lemma find_status_final:
  assumes "nul \<notin> set t" and "c = nul \<Longrightarrow> ctl \<noteq> None"
  shows "i \<le> length t \<Longrightarrow> find_status (t @ [nul, c]) ctl i =
    ret (Some (of_char c, if c = nul then the ctl else - int (of_char c)))"
proof (induction "length t - i" arbitrary: i)
  case 0
  then have "i = length t" by simp
  moreover have "(of_char c :: nat) = 0 \<longleftrightarrow> c = nul"
    by (metis char_of_char char_of_0 of_char_nul)
  ultimately show ?case using assms(2) by (subst find_status.simps) (auto simp: nth_append Let_def)
next
  case (Suc n)
  then have "i < length t" "n = length t - Suc i" by simp_all
  moreover have "(t @ [nul, c]) ! i \<noteq> nul" using \<open>i < length t\<close> assms(1) nth_mem [of i t] by (metis nth_append)
  ultimately show ?case using Suc.hyps(1) [of "Suc i"] by (subst find_status.simps) simp
qed

text \<open>
  Whatever the socket does with a text without null bytes and the final bytes behind it, \<^verbatim>\<open>recv_fd\<close> gives the
  text to the user's function and returns the descriptor or the negated status, with what follows left over.
\<close>

lemma recv_fd_delivered:
  assumes "delivers t its ms" and "its = Ctl [nul, c] ctl # its'" and "nul \<notin> set t" and "c = nul \<Longrightarrow> ctl \<noteq> None"
    and "length t < MAXLINE - 1"
  shows "\<exists>ms'. recv_fd (\<lambda>_. True) out ms = ret (if c = nul then the ctl else - int (of_char c), out @ t, ms') \<and> delivers [] its' ms'"
  using assms
proof (induction t its ms arbitrary: out rule: delivers.induct)
  case (d_piece a t its ms)
  obtain ms' where "recv_fd (\<lambda>_. True) (out @ a) ms = ret (if c = nul then the ctl else - int (of_char c), (out @ a) @ t, ms')"
      "delivers [] its' ms'"
    using d_piece.IH [of "out @ a"] d_piece.prems by auto
  moreover have "find_status a None 0 = ret None" using d_piece.prems(2) by (intro find_status_text) simp
  ultimately show ?case using d_piece.hyps(1) by auto
next
  case (d_final t m its ms fd)
  then show ?case by (simp add: find_status_final)
qed simp_all

text \<open>A call of \<^verbatim>\<open>send_fd\<close> or \<^verbatim>\<open>send_err\<close> whose writes work, received at the other end.\<close>

lemma send_fd_recv_fd:
  assumes "send_fd (\<lambda>_. True) fd = (rc, its)" and "delivers [] (its @ its') ms" and "0 \<le> fd"
  shows "rc = 0 \<and> (\<exists>ms'. recv_fd (\<lambda>_. True) out ms = ret (fd, out, ms') \<and> delivers [] its' ms')"
  using assms recv_fd_delivered [of "[]" "its @ its'" ms nul "Some fd" its' out]
  by (auto simp: send_fd_def MAXLINE_def)

lemma char_of_nul_iff: "char_of (n :: nat) = nul \<longleftrightarrow> n mod 256 = 0"
  by (metis char_of_0 char_of_mod_256 of_char_nul of_char_of)

lemma status_byte_nonzero: "status_byte e \<noteq> nul"
  by (auto simp: status_byte_def Let_def char_of_nul_iff)

lemma of_status_byte: "- 256 < e \<Longrightarrow> e < 0 \<Longrightarrow> of_char (status_byte e) = nat (- e)"
  by (auto simp: status_byte_def Let_def char_of_nul_iff)

lemma send_err_recv_fd:
  assumes s: "send_err (\<lambda>_. True) e msg = (rc, its)" and d: "delivers [] (its @ its') ms" and m: "nul \<notin> set msg" "length msg < MAXLINE - 1"
  shows "rc = 0 \<and> (\<exists>ms'. recv_fd (\<lambda>_. True) out ms =
    ret (- int (of_char (status_byte (if 0 \<le> e then - 1 else e))), out @ msg, ms') \<and> delivers [] its' ms')"
proof -
  let ?c = "status_byte (if 0 \<le> e then - 1 else e)"
  have its: "its = (if msg = [] then [] else [Txt msg]) @ [Ctl [nul, ?c] None]" "rc = 0"
    using s by (auto simp: send_err_def send_fd_def split: if_splits)
  have "delivers msg (Ctl [nul, ?c] None # its') ms"
    using d unfolding its by (auto split: if_splits elim: delivers_txtE)
  from recv_fd_delivered [OF this refl m(1) _ m(2), of out] its(2) show ?thesis
    using status_byte_nonzero by auto
qed

section \<open>Argument buffers: splitting what a client has joined\<close>

text \<open>A word that \<^verbatim>\<open>strtok\<close> with white space gives back as it is, and words joined by single spaces.\<close>

definition word_ok :: "string \<Rightarrow> bool" where
  "word_ok w \<longleftrightarrow> w \<noteq> [] \<and> (\<forall>c\<in>set w. \<not> white c \<and> c \<noteq> nul)"

fun join :: "string list \<Rightarrow> string" where
  "join [] = []"
| "join [w] = w"
| "join (w # ws) = w @ '' '' @ join ws"

lemma join_Cons: "ws \<noteq> [] \<Longrightarrow> join (w # ws) = w @ '' '' @ join ws"
  by (cases ws) simp_all

lemma white_space [simp]: "white (CHR '' '')"
  by (simp add: white_def)

lemma nul_notin_join: "\<forall>w\<in>set ws. word_ok w \<Longrightarrow> nul \<notin> set (join ws)"
  by (induction ws rule: join.induct) (auto simp: word_ok_def nul_def)

lemma word_takeWhile: "word_ok w \<Longrightarrow> takeWhile (\<lambda>c. \<not> white c) (w @ r) = w @ takeWhile (\<lambda>c. \<not> white c) r"
  and word_dropWhile: "word_ok w \<Longrightarrow> dropWhile (\<lambda>c. \<not> white c) (w @ r) = dropWhile (\<lambda>c. \<not> white c) r"
  and word_dropWhile_white: "word_ok w \<Longrightarrow> dropWhile white (w @ r) = w @ r"
  by (auto simp: word_ok_def dropWhile_append3 dropWhile_append2 takeWhile_append2 neq_Nil_conv)

lemma strtok_word: "word_ok w \<Longrightarrow> strtok white w = Some (w, [])"
proof -
  assume w: "word_ok w"
  have "dropWhile (\<lambda>c. \<not> white c) w = []" "takeWhile (\<lambda>c. \<not> white c) w = w" "dropWhile white w = w"
    using word_takeWhile [OF w, of "[]"] word_dropWhile [OF w, of "[]"] word_dropWhile_white [OF w, of "[]"] by simp_all
  note this [simp]
  show ?thesis using w by (simp add: strtok_def word_ok_def)
qed

lemma strtok_word_space: "word_ok w \<Longrightarrow> strtok white (w @ '' '' @ r) = Some (w, r)"
  using word_takeWhile [of w "'' '' @ r"] word_dropWhile [of w "'' '' @ r"] word_dropWhile_white [of w "'' '' @ r"]
  by (simp add: strtok_def word_ok_def)

lemma buf_args_loop_join:
  "\<forall>w\<in>set ws. word_ok w \<Longrightarrow> argc + length ws < MAXARGC - 1 \<Longrightarrow> buf_args_loop argc argv (join ws) = Some (argv @ ws)"
proof (induction ws arbitrary: argc argv rule: join.induct)
  case 1
  then show ?case by (subst buf_args_loop.simps) (simp add: strtok_def)
next
  case (2 w)
  have "buf_args_loop (Suc argc) (argv @ [w]) [] = Some (argv @ [w])"
    by (subst buf_args_loop.simps) (simp add: strtok_def)
  with 2 show ?case by (subst buf_args_loop.simps) (simp add: strtok_word)
next
  case (3 w v ws)
  then have "buf_args_loop (Suc argc) (argv @ [w]) (join (v # ws)) = Some ((argv @ [w]) @ v # ws)" by simp
  with 3(2,3) show ?case
    by (subst buf_args_loop.simps) (simp add: strtok_word_space [simplified])
qed

lemma buf_args_join:
  assumes "ws \<noteq> []" and "\<forall>w\<in>set ws. word_ok w" and "length ws < MAXARGC"
  shows "buf_args (join ws @ nul # r) = Some ws"
proof -
  obtain w vs where ws: "ws = w # vs" using assms(1) by (cases ws) auto
  have tw: "takeWhile white (w @ s) = []" for s
    using assms(2) ws by (auto simp: word_ok_def takeWhile_eq_Nil_iff hd_append)
  have c: "cstr (join ws @ nul # r) = join ws" using nul_notin_join [OF assms(2)] by simp
  show ?thesis
  proof (cases "vs = []")
    case True
    have "buf_args_loop 0 [w] [] = Some [w]" by (subst buf_args_loop.simps) (simp add: strtok_def)
    then show ?thesis unfolding buf_args_def c using ws True assms(2) tw [of "[]"] by (simp add: strtok_word)
  next
    case False
    have "buf_args_loop 0 [w] (join vs) = Some ([w] @ vs)"
      using assms(2,3) ws by (intro buf_args_loop_join) (auto simp: MAXARGC_def)
    then show ?thesis
      unfolding buf_args_def c using ws False assms(2) tw [of "'' '' @ join vs"]
      by (simp add: join_Cons strtok_word_space [simplified])
  qed
qed

end
