(* ===== verification/OpenServer.thy ===== *)
theory OpenServer
  imports FdPass
begin

section \<open>The open servers: \<^verbatim>\<open>open\<close>, \<^verbatim>\<open>open.fe\<close>, \<^verbatim>\<open>opend\<close>, \<^verbatim>\<open>opend.fe\<close>\<close>

text \<open>
  A client sends a path name and open flags, the server opens the file and passes the descriptor back.
  \<^verbatim>\<open>opend.fe\<close> is started by its one client, \<^verbatim>\<open>opend\<close> is a daemon with a table of clients and a \<^verbatim>\<open>select\<close> or a
  \<^verbatim>\<open>poll\<close> loop.  What \<^verbatim>\<open>open\<close> does is the parameter \<open>op\<close>: the text of the error, or the descriptor.
\<close>

definition CL_OPEN :: string where "CL_OPEN = ''open''"

subsection \<open>The client: \<^verbatim>\<open>csopen\<close>\<close>

text \<open>The request; \<^verbatim>\<open>buf\<close> has ten bytes.\<close>

definition csopen_request :: "string \<Rightarrow> int \<Rightarrow> string run" where
  "csopen_request name oflag = rbind (guard (length ('' '' @ show_int oflag) < 10) (Undef ''buf overflows'')) (\<lambda>_.
     ret (CL_OPEN @ '' '' @ name @ '' '' @ show_int oflag @ [nul]))"

text \<open>\<open>wok\<close>: the \<^verbatim>\<open>writev\<close> of the request; the messages that come back are given to \<^verbatim>\<open>recv_fd\<close> with \<^verbatim>\<open>write\<close>.\<close>

definition csopen :: "(string \<Rightarrow> bool) \<Rightarrow> string \<Rightarrow> int \<Rightarrow> (string \<Rightarrow> bool) \<Rightarrow> rmsg list \<Rightarrow> (int \<times> string \<times> rmsg list) run" where
  "csopen wok name oflag uf ms = rbind (csopen_request name oflag) (\<lambda>req.
     rbind (guard (wok req) (ErrSys ''writev error'')) (\<lambda>_. recv_fd uf [] ms))"

subsection \<open>The server: one request\<close>

text \<open>\<^verbatim>\<open>cli_args\<close>: \<open>Inl\<close> -1 with the text in \<^verbatim>\<open>errmsg\<close>, or \<^verbatim>\<open>pathname\<close> and \<^verbatim>\<open>oflag\<close>.\<close>

definition open_cli_args :: "string list \<Rightarrow> string + string \<times> int" where
  "open_cli_args argv = (if length argv \<noteq> 3 \<or> hd argv \<noteq> CL_OPEN then Inl (''usage: <pathname> <oflag>'' @ [newline])
     else Inr (argv ! 1, atoi (argv ! 2)))"

text \<open>Text that is safe as the format of \<^verbatim>\<open>log_msg\<close> without further arguments.\<close>

fun fmt_safe :: "string \<Rightarrow> bool" where
  "fmt_safe [] = True"
| "fmt_safe (c # s) = (if c = CHR ''%'' then (case s of [] \<Rightarrow> False | d # r \<Rightarrow> d = CHR ''%'' \<and> fmt_safe r) else fmt_safe s)"

definition set_errmsg :: "string \<Rightarrow> string run" where
  "set_errmsg m = rbind (guard (length m < MAXLINE) (Undef ''errmsg overflows'')) (\<lambda>_. ret m)"

text \<open>
  The common part of the two \<^verbatim>\<open>request\<close>s: \<open>pre\<close> begins the message about a missing null byte, \<open>lg\<close> says whether
  errors are also given to \<^verbatim>\<open>log_msg\<close>, \<open>bad\<close> is the fatal error of \<^verbatim>\<open>send_fd\<close>.  \<open>em\<close> is \<^verbatim>\<open>errmsg\<close>, which
  \<^verbatim>\<open>buf_args\<close> leaves alone when it fails itself.  The result: \<^verbatim>\<open>errmsg\<close> and what is sent.
\<close>

definition fail_request :: "bool \<Rightarrow> (sockitem \<Rightarrow> bool) \<Rightarrow> string \<Rightarrow> (string \<times> sockitem list) run" where
  "fail_request lg wr em = rbind (guard (lg \<longrightarrow> fmt_safe em) (Undef ''log_msg(errmsg)'')) (\<lambda>_. ret (em, snd (send_err wr (- 1) em)))"

definition serve_request ::
    "string \<Rightarrow> bool \<Rightarrow> fatal \<Rightarrow> (string \<Rightarrow> int \<Rightarrow> string + int) \<Rightarrow> (sockitem \<Rightarrow> bool) \<Rightarrow> string \<Rightarrow> string \<Rightarrow> (string \<times> sockitem list) run" where
  "serve_request pre lg bad op wr em buf =
     (if last buf \<noteq> nul then
        rbind (set_errmsg (pre @ '' not null terminated: '' @ replicate (length buf - length (cstr buf)) space @ cstr buf @ [newline]))
          (\<lambda>em. fail_request False wr em)
      else case buf_args buf of
        None \<Rightarrow> fail_request lg wr em
      | Some argv \<Rightarrow>
        (case open_cli_args argv of
           Inl e \<Rightarrow> fail_request lg wr e
         | Inr (pathname, oflag) \<Rightarrow>
           (case op pathname oflag of
              Inl e \<Rightarrow> rbind (set_errmsg (''can't open '' @ pathname @ '': '' @ e @ [newline])) (fail_request lg wr)
            | Inr newfd \<Rightarrow>
              (case send_fd wr newfd of (rc, its) \<Rightarrow> if rc < 0 then die bad else ret (em, its)))))"

definition request_fe :: "(string \<Rightarrow> int \<Rightarrow> string + int) \<Rightarrow> (sockitem \<Rightarrow> bool) \<Rightarrow> string \<Rightarrow> string \<Rightarrow> (string \<times> sockitem list) run" where
  "request_fe = serve_request ''request'' False (ErrSys ''send_fd error'')"

definition request_d :: "int \<Rightarrow> (string \<Rightarrow> int \<Rightarrow> string + int) \<Rightarrow> (sockitem \<Rightarrow> bool) \<Rightarrow> string \<Rightarrow> string \<Rightarrow> (string \<times> sockitem list) run" where
  "request_d uid = serve_request (''request from uid '' @ show_int uid) True (LogSys ''send_fd error'')"

text \<open>The server of one client: \<^verbatim>\<open>None\<close> is a failing read, an empty one the end of the client.\<close>

fun opend_fe_main :: "(string \<Rightarrow> int \<Rightarrow> string + int) \<Rightarrow> (sockitem \<Rightarrow> bool) \<Rightarrow> string \<Rightarrow> string option list \<Rightarrow> sockitem list run" where
  "opend_fe_main op wr em [] = die (Exit 0)"
| "opend_fe_main op wr em (None # rs) = die (ErrSys ''read error on stream pipe'')"
| "opend_fe_main op wr em (Some buf # rs) =
     (if buf = [] then die (Exit 0)
      else rbind (request_fe op wr em buf) (\<lambda>(em, its). rbind (opend_fe_main op wr em rs) (\<lambda>its'. ret (its @ its'))))"

subsection \<open>The daemon\<close>

record oclient =
  ofd :: int
  ouid :: int

record opend =
  oclients :: "oclient list"
  oset :: "int set"           \<comment> \<open>\<^verbatim>\<open>allset\<close>\<close>
  omaxi :: int
  oerrmsg :: string
  osent :: "(int \<times> sockitem) list"
  oclosed :: "int list"

text \<open>The first entry with descriptor \<open>fd\<close>.\<close>

fun ofind :: "int \<Rightarrow> oclient list \<Rightarrow> nat option" where
  "ofind fd [] = None"
| "ofind fd (c # cs) = (if ofd c = fd then Some 0 else map_option Suc (ofind fd cs))"

definition oclient_alloc :: "oclient list \<Rightarrow> oclient list" where
  "oclient_alloc cs = cs @ replicate NALLOC \<lparr>ofd = - 1, ouid = 0\<rparr>"

definition oclient_add :: "oclient list \<Rightarrow> int \<Rightarrow> int \<Rightarrow> nat \<times> oclient list" where
  "oclient_add cs fd uid = (case ofind (- 1) cs of
       Some i \<Rightarrow> (i, cs[i := \<lparr>ofd = fd, ouid = uid\<rparr>])
     | None \<Rightarrow> (length cs, (oclient_alloc cs)[length cs := \<lparr>ofd = fd, ouid = uid\<rparr>]))"

definition oclient_del :: "oclient list \<Rightarrow> int \<Rightarrow> oclient list run" where
  "oclient_del cs fd = (case ofind fd cs of
       None \<Rightarrow> die (LogQuit ''can't find client entry for fd %d'') | Some i \<Rightarrow> ret (cs[i := (cs ! i)\<lparr>ofd := - 1\<rparr>]))"

definition oadd :: "opend \<Rightarrow> int \<times> int \<Rightarrow> opend" where
  "oadd st c = (case c of (fd, uid) \<Rightarrow> case oclient_add (oclients st) fd uid of (i, cs) \<Rightarrow>
     st\<lparr>oclients := cs, oset := insert fd (oset st), omaxi := max (omaxi st) (int i)\<rparr>)"

definition ohangup :: "opend \<Rightarrow> int \<Rightarrow> opend run" where
  "ohangup st fd = rbind (oclient_del (oclients st) fd) (\<lambda>cs.
     ret (st\<lparr>oclients := cs, oset := oset st - {fd}, oclosed := oclosed st @ [fd]\<rparr>))"

text \<open>What a client's descriptor is ready with; \<open>None\<close>: the read fails, \<open>[]\<close>: the end of the connection.\<close>

definition oready :: "(string \<Rightarrow> int \<Rightarrow> string + int) \<Rightarrow> nat \<Rightarrow> string option \<Rightarrow> opend \<Rightarrow> opend run" where
  "oready op i d st = (let c = oclients st ! i; fd = ofd c in
     case d of
       None \<Rightarrow> die (LogSys ''read error on fd %d'')
     | Some buf \<Rightarrow>
       if buf = [] then ohangup st fd
       else rbind (request_d (ouid c) op (\<lambda>_. True) (oerrmsg st) buf) (\<lambda>(em, its).
         ret (st\<lparr>oerrmsg := em, osent := osent st @ map (Pair fd) its\<rparr>)))"

fun oeach :: "(nat \<Rightarrow> opend \<Rightarrow> opend run) \<Rightarrow> nat list \<Rightarrow> opend \<Rightarrow> opend run" where
  "oeach f [] st = ret st"
| "oeach f (i # is) st = rbind (if ofd (oclients st ! i) < 0 then ret st else f i st) (oeach f is)"

text \<open>
  One turn of \<^verbatim>\<open>loop.select.c\<close>: \<open>ok\<close> whether \<^verbatim>\<open>select\<close> works, \<open>conn\<close> is a new connection (\<open>Some None\<close>: \<^verbatim>\<open>serv_accept\<close> fails), \<open>rd\<close> what each
  descriptor is ready with; the entry 0 is a client.
\<close>

definition select_turn ::
    "(string \<Rightarrow> int \<Rightarrow> string + int) \<Rightarrow> bool \<Rightarrow> (int \<times> int) option option \<Rightarrow> (int \<Rightarrow> string option option) \<Rightarrow> opend \<Rightarrow> opend run" where
  "select_turn op ok conn rd st = rbind (guard ok (LogSys ''select error'')) (\<lambda>_. case conn of
       Some None \<Rightarrow> die (LogSys ''serv_accept error: %d'')
     | Some (Some c) \<Rightarrow> ret (oadd st c)
     | None \<Rightarrow> oeach (\<lambda>i st. case rd (ofd (oclients st ! i)) of None \<Rightarrow> ret st | Some d \<Rightarrow> oready op i d st)
         [0 ..< nat (omaxi st + 1)] st)"

text \<open>
  One turn of \<^verbatim>\<open>loop.poll.c\<close>: the entry 0 is the listening descriptor, \<open>hup\<close> tells \<^verbatim>\<open>POLLHUP\<close>, and after a new
  connection the loop over the clients follows at once.  For the new client it looks at the \<open>revents\<close> of an entry
  that \<^verbatim>\<open>poll\<close> has not filled in: those of an old client (none, its descriptor is -1), or,
  when the entry is a new one, the bytes of \<^verbatim>\<open>malloc\<close>.
\<close>

definition poll_turn ::
    "(string \<Rightarrow> int \<Rightarrow> string + int) \<Rightarrow> bool \<Rightarrow> (int \<times> int) option option \<Rightarrow> (int \<Rightarrow> bool) \<Rightarrow> (int \<Rightarrow> string option option) \<Rightarrow> opend \<Rightarrow> opend run" where
  "poll_turn op ok conn hup rd st = rbind (guard ok (LogSys ''poll error'')) (\<lambda>_.
     rbind (case conn of
       None \<Rightarrow> ret st
     | Some None \<Rightarrow> die (LogSys ''serv_accept error: %d'')
     | Some (Some c) \<Rightarrow>
       let st' = oadd st c in
       rbind (guard (omaxi st' = omaxi st) (Undef ''revents of a new pollfd'')) (\<lambda>_. ret st')) (\<lambda>st.
     oeach (\<lambda>i st. let fd = ofd (oclients st ! i) in
         if (case conn of Some (Some c) \<Rightarrow> fst c = fd | _ \<Rightarrow> False) then ret st
         else if hup fd then ohangup st fd
         else case rd fd of None \<Rightarrow> ret st | Some d \<Rightarrow> oready op i d st)
       [1 ..< nat (omaxi st + 1)] st))"

definition select_init :: "int \<Rightarrow> opend" where
  "select_init lfd = \<lparr>oclients = [], oset = {lfd}, omaxi = - 1, oerrmsg = [], osent = [], oclosed = []\<rparr>"

definition poll_init :: "int \<Rightarrow> opend" where
  "poll_init lfd = (oadd (select_init lfd) (lfd, 0))\<lparr>omaxi := 0\<rparr>"

end
