(* ===== verification/OpenProps.thy ===== *)
theory OpenProps
  imports OpenServer
begin

section \<open>The open servers: properties\<close>

lemma word_dec: "word_ok (dec n)"
proof -
  have "\<not> white c \<and> c \<noteq> nul" if "c \<in> set (dec n)" for c
  proof -
    have "is_digit c" using that dec_digits by blast
    then show ?thesis by (auto simp: white_def is_digit_def nul_def newline_def)
  qed
  then show ?thesis by (simp add: word_ok_def)
qed

lemma word_open: "word_ok CL_OPEN"
  by (simp add: word_ok_def CL_OPEN_def white_def newline_def nul_def)

text \<open>The server takes the request of \<^verbatim>\<open>csopen\<close> apart into the same path name and flags.\<close>

lemma csopen_request_parsed:
  assumes "word_ok name" and "0 \<le> oflag" and "oflag < 10 ^ 8" and "csopen_request name oflag = ret req"
  shows "last req = nul" and "buf_args req = Some [CL_OPEN, name, dec (nat oflag)]"
    and "open_cli_args [CL_OPEN, name, dec (nat oflag)] = Inr (name, oflag)"
proof -
  have req: "req = join [CL_OPEN, name, dec (nat oflag)] @ nul # []"
    using assms(2,4) by (simp add: csopen_request_def show_int_def run_simps)
  show "last req = nul" by (simp add: req)
  show "buf_args req = Some [CL_OPEN, name, dec (nat oflag)]"
    unfolding req using assms(1) word_open word_dec by (intro buf_args_join) (auto simp: MAXARGC_def)
  have "nat oflag < 2 ^ 31" using assms(2,3) by simp
  then show "open_cli_args [CL_OPEN, name, dec (nat oflag)] = Inr (name, oflag)"
    using atoi_dec [of "nat oflag"] assms(2) by (simp add: open_cli_args_def)
qed

lemma csopen_request_ok: "0 \<le> oflag \<Longrightarrow> oflag < 10 ^ 8 \<Longrightarrow> \<exists>req. csopen_request name oflag = ret req"
proof -
  assume f: "0 \<le> oflag" "oflag < 10 ^ 8"
  then have "length (dec (nat oflag)) \<le> 8" by (intro length_dec_le) auto
  with f show ?thesis by (simp add: csopen_request_def show_int_def)
qed

lemma fmt_safe_append: "CHR ''%'' \<notin> set s \<Longrightarrow> fmt_safe (s @ t) = fmt_safe t"
  by (induction s) auto



text \<open>The error text is the format string of \<^verbatim>\<open>log_msg\<close>: a percent sign in a path name is undefined behaviour of the daemon.\<close>

lemma log_of_percent:
  assumes "opn ''/tmp/100%n'' 0 = Inl ''No such file or directory''"
  shows "\<exists>req. csopen_request ''/tmp/100%n'' 0 = ret req \<and> request_d uid opn (\<lambda>_. True) em req = die (Undef ''log_msg(errmsg)'')"
proof -
  have w: "word_ok ''/tmp/100%n''" by (simp add: word_ok_def white_def newline_def nul_def)
  obtain req where req: "csopen_request ''/tmp/100%n'' 0 = ret req" using csopen_request_ok [of 0] by auto
  note parsed = csopen_request_parsed [OF w _ _ req]
  have "request_d uid opn (\<lambda>_. True) em req = die (Undef ''log_msg(errmsg)'')"
    using parsed assms by (simp add: request_d_def serve_request_def set_errmsg_def fail_request_def MAXLINE_def)
  with req show ?thesis by blast
qed

end
