(* ===== verification/CallClient.thy ===== *)
theory CallClient
  imports FdPass IoModel
begin

section \<open>The modem client \<^verbatim>\<open>call/\<close>\<close>

text \<open>
  \<^verbatim>\<open>main.c\<close> and \<^verbatim>\<open>call.c\<close> build the request for the modem daemon and receive the line; \<^verbatim>\<open>loop.poll.c\<close> copies
  between the user and the line, with the commands of \<^verbatim>\<open>escape.c\<close>, \<^verbatim>\<open>put.c\<close>, \<^verbatim>\<open>take.c\<close> and \<^verbatim>\<open>takeput.c\<close> behind a tilde.
  Terminal modes, pauses and the flushing of the line are left out.
\<close>

subsection \<open>The request\<close>

fun call_args_loop :: "gopt list \<Rightarrow> string \<Rightarrow> string run" where
  "call_args_loop [] args = ret args"
| "call_args_loop (BadOpt c # os) args = die (ErrQuit ''unrecognized option'')"
| "call_args_loop (Opt c a # os) args = call_args_loop os (args @
     (if c = CHR ''d'' then ''-d '' else if c = CHR ''e'' then ''-e '' else if c = CHR ''o'' then ''-o ''
      else ''-s '' @ the a @ '' ''))"

definition call_args :: "string list \<Rightarrow> string run" where
  "call_args argv = (case getopt call_kind [] argv of (os, rest) \<Rightarrow>
     rbind (call_args_loop os []) (\<lambda>args. case rest of
       [] \<Rightarrow> die (ErrQuit ''missing <hostname> to call'')
     | h # _ \<Rightarrow> rbind (guard (length (args @ h) < MAXLINE) (Undef ''args overflows'')) (\<lambda>_. ret (args @ h))))"

text \<open>\<^verbatim>\<open>call\<close>: \<open>conn\<close> is \<^verbatim>\<open>cli_conn\<close>, \<open>wok\<close> the \<^verbatim>\<open>writev\<close>.\<close>

definition call_request :: "string \<Rightarrow> string" where
  "call_request args = CL_CALL @ '' '' @ args @ [nul]"

definition call :: "bool \<Rightarrow> bool \<Rightarrow> string \<Rightarrow> (string \<Rightarrow> bool) \<Rightarrow> rmsg list \<Rightarrow> (int \<times> string \<times> rmsg list) run" where
  "call conn wok args uf ms = rbind (guard conn (ErrSys ''cli_conn error'')) (\<lambda>_.
     rbind (guard wok (ErrSys ''writev error'')) (\<lambda>_. recv_fd uf [] ms))"

subsection \<open>The session\<close>

datatype inch = Ch char | InErr

text \<open>
  The user's terminal and the line, with \<^verbatim>\<open>rem_buf\<close>; how many bytes the line takes before it drops; the local
  files, which can be created, and how many bytes the disk takes; the characters of \<^verbatim>\<open>VSUSP\<close> and \<^verbatim>\<open>VEOF\<close>.
\<close>

record cw =
  kbd :: "inch list"
  rem_in :: chan
  rem_buf :: string
  rem_out :: string
  rem_room :: "nat option"
  tty_out :: string
  lfiles :: "string \<Rightarrow> string option"
  creatable :: "string \<Rightarrow> bool"
  disk_room :: "nat option"
  vsusp :: char
  veof :: char
  events_out :: "string list"   \<comment> \<open>breaks sent, suspensions\<close>

definition escapec :: char where "escapec = CHR ''~''"
definition carriage :: char where "carriage = CHR 0x0D"
definition CTRLA :: char where "CTRLA = CHR 0x01"

text \<open>One \<^verbatim>\<open>write\<close> of all of \<open>s\<close> to the line, and its success.\<close>

definition rem_write :: "string \<Rightarrow> cw \<Rightarrow> bool \<times> cw" where
  "rem_write s w = (case rem_room w of
       None \<Rightarrow> (True, w\<lparr>rem_out := rem_out w @ s\<rparr>)
     | Some n \<Rightarrow> if length s \<le> n then (True, w\<lparr>rem_out := rem_out w @ s, rem_room := Some (n - length s)\<rparr>)
                else (False, w))"

definition say :: "string \<Rightarrow> cw \<Rightarrow> cw" where
  "say s w = w\<lparr>tty_out := tty_out w @ s\<rparr>"

text \<open>\<^verbatim>\<open>rem_read\<close>: seven bits of the next byte, 0 at the end of the line.\<close>

definition low7 :: "char \<Rightarrow> char" where
  "low7 c = char_of ((of_char c :: nat) mod 128)"

definition rem_read :: "cw \<Rightarrow> (char \<times> cw) run" where
  "rem_read w = (case rem_buf w of
       c # b \<Rightarrow> ret (low7 c, w\<lparr>rem_buf := b\<rparr>)
     | [] \<Rightarrow> (case sys_read MAXLINE (rem_in w) of
          (RErr e, ch) \<Rightarrow> die (ErrSys ''read error'')
        | (Got [], ch) \<Rightarrow> ret (nul, w\<lparr>rem_in := ch\<rparr>)
        | (Got (c # b), ch) \<Rightarrow> ret (low7 c, w\<lparr>rem_buf := b, rem_in := ch\<rparr>)))"

subsection \<open>\<^verbatim>\<open>takeput.c\<close>\<close>

definition take_put_args :: "string list \<Rightarrow> (string \<times> string) option" where
  "take_put_args argv = (case argv of [a] \<Rightarrow> Some (a, a) | [a, b] \<Rightarrow> Some (a, b) | _ \<Rightarrow> None)"

fun read_cmd :: "inch list \<Rightarrow> string \<Rightarrow> (string \<times> inch list) run" where
  "read_cmd [] buf = ret (buf, [])"
| "read_cmd (InErr # ks) buf = die (ErrSys ''read error'')"
| "read_cmd (Ch c # ks) buf =
     (if c = newline then ret (buf, ks) else read_cmd ks (if length buf < MAXLINE - 2 then buf @ [c] else buf))"

definition prompt_read :: "string \<Rightarrow> cw \<Rightarrow> ((string \<times> string) option \<times> cw) run" where
  "prompt_read prompt w = rbind (read_cmd (kbd w) []) (\<lambda>(cmd, ks).
     ret (Option.bind (buf_args (cmd @ [nul])) take_put_args, (say prompt w)\<lparr>kbd := ks\<rparr>))"

subsection \<open>\<^verbatim>\<open>put.c\<close>\<close>

text \<open>The loop over the bytes of the local file; a failing write ends it.\<close>

fun put_loop :: "string \<Rightarrow> nat \<Rightarrow> cw \<Rightarrow> cw" where
  "put_loop [] n w = w"
| "put_loop (c # s) n w = (case rem_write [c] w of
       (False, w) \<Rightarrow> w
     | (True, w) \<Rightarrow> if c = newline then put_loop s (Suc n) (say (carriage # dec (Suc n)) w) else put_loop s n w)"

definition put_file :: "cw \<Rightarrow> cw run" where
  "put_file w = rbind (prompt_read ''~[put] '' w) (\<lambda>(a, w). case a of
       None \<Rightarrow> ret (say (''usage: [put] <sourcefile> <destfile>'' @ [newline, carriage]) w)
     | Some (src, dst) \<Rightarrow>
       (case lfiles w src of
          None \<Rightarrow> ret w
        | Some f \<Rightarrow>
          let cmd = ''stty -echo; cat >'' @ dst @ ''; stty echo'' @ [carriage] in
          rbind (guard (length cmd < MAXLINE) (Undef ''cmd overflows'')) (\<lambda>_.
          case rem_write cmd w of (ok, w) \<Rightarrow>
          rbind (guard ok (ErrSys ''write error'')) (\<lambda>_.
          ret (snd (rem_write [newline] (snd (rem_write [veof w] (put_loop f 0 w)))))))))"

subsection \<open>\<^verbatim>\<open>take.c\<close>\<close>

text \<open>What the line still holds bounds both loops.\<close>

function take_echo :: "cw \<Rightarrow> nat \<Rightarrow> (bool \<times> cw) run" where
  "take_echo w n = rbind (rem_read w) (\<lambda>(c, w).
     if c = nul then ret (False, w) else if c = newline then ret (True, w)
     else case n of 0 \<Rightarrow> ret (False, w) | Suc n \<Rightarrow> take_echo w n)"
  by pat_completeness auto
termination by (relation "measure snd") auto

declare take_echo.simps [simp del]

definition local_putc :: "string \<Rightarrow> char \<Rightarrow> cw \<Rightarrow> bool \<times> cw" where
  "local_putc dst c w = (if disk_room w = Some 0 then (False, w)
     else (True, w\<lparr>lfiles := (lfiles w)(dst := map_option (\<lambda>f. f @ [c]) (lfiles w dst)), disk_room := map_option (\<lambda>n. n - 1) (disk_room w)\<rparr>))"

function take_loop :: "string \<Rightarrow> nat \<Rightarrow> cw \<Rightarrow> nat \<Rightarrow> (bool \<times> cw) run" where
  "take_loop dst ln w n = rbind (rem_read w) (\<lambda>(c, w).
     if c = nul \<or> c = CTRLA then ret (True, w)
     else case n of 0 \<Rightarrow> ret (True, w) | Suc n \<Rightarrow>
       if c = carriage then take_loop dst ln w n
       else
         let w = (if c = newline then say (carriage # dec (Suc ln)) w else w);
             ln = (if c = newline then Suc ln else ln) in
         case local_putc dst c w of (ok, w) \<Rightarrow> if ok then take_loop dst ln w n else ret (False, w))"
  by pat_completeness auto
termination by (relation "measure (\<lambda>(dst, ln, w, n). n)") auto

declare take_loop.simps [simp del]

definition pending :: "cw \<Rightarrow> nat" where
  "pending w = length (rem_buf w) + length (bytes (rem_in w))"

text \<open>The file is created, even when the line drops within the echo.\<close>

definition take_file :: "cw \<Rightarrow> cw run" where
  "take_file w = rbind (prompt_read ''~[take] '' w) (\<lambda>(a, w). case a of
       None \<Rightarrow> ret (say (''usage: [take] <sourcefile> <destfile>'' @ [newline, carriage]) w)
     | Some (src, dst) \<Rightarrow>
       if \<not> creatable w dst then ret w
       else
         let w = w\<lparr>lfiles := (lfiles w)(dst \<mapsto> [])\<rparr>; cmd = ''cat '' @ src @ ''; echo '' @ [CTRLA, carriage] in
         rbind (guard (length cmd < MAXLINE) (Undef ''cmd overflows'')) (\<lambda>_.
         case rem_write cmd w of (ok, w) \<Rightarrow>
         rbind (guard ok (ErrSys ''write error'')) (\<lambda>_.
         let w = w\<lparr>rem_buf := []\<rparr> in
         rbind (take_echo w (pending w)) (\<lambda>(ok, w).
         if \<not> ok then ret w
         else rbind (take_loop dst 0 w (pending w)) (\<lambda>(ok, w). ret (snd (rem_write [newline] w)))))))"

subsection \<open>\<^verbatim>\<open>escape.c\<close> and the loop\<close>

text \<open>A \<^verbatim>\<open>char\<close> as an \<^verbatim>\<open>int\<close>: it is signed here.\<close>

definition char_int :: "char \<Rightarrow> int" where
  "char_int c = (let n = of_char c in if 128 \<le> n then n - 256 else n)"

definition doescape :: "cw \<Rightarrow> (int \<times> cw) run" where
  "doescape w = (case kbd w of
       Ch c # ks \<Rightarrow>
         let w = w\<lparr>kbd := ks\<rparr> in
         if c = escapec then ret (char_int escapec, w)
         else if c = CHR ''.'' then ret (- 1, say (''~.'' @ [newline, carriage]) w)
         else if c = vsusp w then ret (0, w\<lparr>events_out := events_out w @ [''suspended'']\<rparr>)
         else if c = CHR ''#'' then ret (0, w\<lparr>events_out := events_out w @ [''break'']\<rparr>)
         else if c = CHR ''t'' then rbind (take_file w) (\<lambda>w. ret (0, w))
         else if c = CHR ''p'' then rbind (put_file w) (\<lambda>w. ret (0, w))
         else ret (char_int c, w)
     | _ \<Rightarrow> die (ErrSys ''read error from stdin''))"

text \<open>What \<^verbatim>\<open>poll\<close> reports: data or a hangup of the user, of the line.\<close>

record pollev =
  user_in :: bool
  user_hup :: bool
  line_in :: bool
  line_hup :: bool

text \<open>
  One turn; the result says whether the loop goes on.  \<open>bol\<close> is \<open>None\<close> before it is set: \<^verbatim>\<open>int bol\<close> has no initial
  value, so an escape character that is the first one typed is undefined behaviour.
\<close>

definition bol_of :: "char \<Rightarrow> bool" where
  "bol_of c \<longleftrightarrow> c = carriage \<or> c = newline"

definition call_send :: "char \<Rightarrow> cw \<Rightarrow> cw run" where
  "call_send c w = (case rem_write [c] w of (ok, w) \<Rightarrow> rbind (guard ok (ErrSys ''write error'')) (\<lambda>_. ret w))"

text \<open>\<open>Inl b\<close>: \<^verbatim>\<open>continue\<close> with \<open>b\<close>, or \<^verbatim>\<open>break\<close>; \<open>Inr\<close>: on to the line.\<close>

definition call_user :: "bool option \<Rightarrow> cw \<Rightarrow> ((bool + bool option) \<times> cw) run" where
  "call_user bol w = (case kbd w of
       Ch c # ks \<Rightarrow>
         let w = w\<lparr>kbd := ks\<rparr> in
         if c = escapec then
           rbind (guard (bol \<noteq> None) (Undef ''bol is not set'')) (\<lambda>_.
           if bol = Some True then
             rbind (doescape w) (\<lambda>(n, w).
             if n < 0 then ret (Inl False, w)
             else if n = 0 then ret (Inl True, w)
             else let c = char_of (nat n) in rbind (call_send c w) (\<lambda>w. ret (Inr (Some (bol_of c)), w)))
           else rbind (call_send c w) (\<lambda>w. ret (Inr (Some (bol_of c)), w)))
         else rbind (call_send c w) (\<lambda>w. ret (Inr (Some (bol_of c)), w))
     | _ \<Rightarrow> die (ErrSys ''read error from stdin''))"

definition call_line :: "pollev \<Rightarrow> cw \<Rightarrow> (bool \<times> cw) run" where
  "call_line e w =
     (if line_in e then
        (case sys_read 512 (rem_in w) of
           (RErr _, ch) \<Rightarrow> ret (False, w\<lparr>rem_in := ch\<rparr>)
         | (Got s, ch) \<Rightarrow>
           if s = [] then ret (False, w\<lparr>rem_in := ch\<rparr>) else ret (\<not> line_hup e, (say s w)\<lparr>rem_in := ch\<rparr>))
      else ret (\<not> line_hup e, w))"

definition call_turn :: "pollev \<Rightarrow> bool option \<Rightarrow> cw \<Rightarrow> (bool \<times> bool option \<times> cw) run" where
  "call_turn e bol w =
     rbind (if user_in e then call_user bol w else ret (Inr bol, w)) (\<lambda>(r, w). case r of
       Inl b \<Rightarrow> ret (b, bol, w)
     | Inr bol \<Rightarrow> if user_hup e then ret (False, bol, w) else rbind (call_line e w) (\<lambda>(b, w). ret (b, bol, w)))"

fun call_loop :: "pollev list \<Rightarrow> bool option \<Rightarrow> cw \<Rightarrow> cw run" where
  "call_loop [] bol w = die (ErrSys ''poll error'')"
| "call_loop (e # es) bol w = rbind (call_turn e bol w) (\<lambda>(b, bol, w). if b then call_loop es bol w else ret w)"

end
