(* ===== verification/TtyModes.thy ===== *)
theory TtyModes
  imports CalldDial
begin

section \<open>Terminal modes: \<^verbatim>\<open>lib/ttymodes.c\<close>\<close>

text \<open>
  What the terminal does is a parameter: \<open>tset\<close> gives the attributes after a \<^verbatim>\<open>tcsetattr\<close> from the current and the
  wanted ones (\<open>None\<close>: it fails and changes nothing), so that it may succeed with only some of the changes;
  \<open>tget n\<close> says whether the \<open>n\<close>-th \<^verbatim>\<open>tcgetattr\<close> works.  The state is the attributes of the terminals and the
  static variables; the code in \<^verbatim>\<open>errno\<close> is not kept.
\<close>

record ttysys =
  tset :: "termios \<Rightarrow> termios \<Rightarrow> termios option"
  tget :: "nat \<Rightarrow> bool"

datatype ttystate = RESET | RAW | CBREAK

record ttys =
  terms :: "int \<Rightarrow> termios"
  save_termios :: termios
  ttysavefd :: int
  ttymode :: ttystate
  gets :: nat

definition tc_get :: "ttysys \<Rightarrow> int \<Rightarrow> ttys \<Rightarrow> termios option \<times> ttys" where
  "tc_get k fd s = (if tget k (gets s) then Some (terms s fd) else None, s\<lparr>gets := Suc (gets s)\<rparr>)"

definition tc_set :: "ttysys \<Rightarrow> int \<Rightarrow> termios \<Rightarrow> ttys \<Rightarrow> bool \<times> ttys" where
  "tc_set k fd t s = (case tset k (terms s fd) t of None \<Rightarrow> (False, s) | Some t' \<Rightarrow> (True, s\<lparr>terms := (terms s)(fd := t')\<rparr>))"

text \<open>The changes of \<^verbatim>\<open>tty_cbreak\<close> and \<^verbatim>\<open>tty_raw\<close>, and the tests whether they stuck.\<close>

definition cbreak_of :: "termios \<Rightarrow> termios" where
  "cbreak_of t = t\<lparr>c_lflag := c_lflag t - {ECHO, ICANON}, vmin := 1, vtime := 0\<rparr>"

definition cbreak_ok :: "termios \<Rightarrow> bool" where
  "cbreak_ok t \<longleftrightarrow> c_lflag t \<inter> {ECHO, ICANON} = {} \<and> vmin t = 1 \<and> vtime t = 0"

definition raw_of :: "termios \<Rightarrow> termios" where
  "raw_of t = t\<lparr>c_lflag := c_lflag t - {ECHO, ICANON, IEXTEN, ISIG}, c_iflag := c_iflag t - {BRKINT, ICRNL, INPCK, ISTRIP, IXON},
     c_cflag := insert CS8 (c_cflag t - {CS7, CS8, PARENB}), c_oflag := c_oflag t - {OPOST}, vmin := 1, vtime := 0\<rparr>"

definition raw_ok :: "termios \<Rightarrow> bool" where
  "raw_ok t \<longleftrightarrow> c_lflag t \<inter> {ECHO, ICANON, IEXTEN, ISIG} = {} \<and> c_iflag t \<inter> {BRKINT, ICRNL, INPCK, ISTRIP, IXON} = {} \<and>
     c_cflag t \<inter> {CS7, CS8, PARENB} = {CS8} \<and> c_oflag t \<inter> {OPOST} = {} \<and> vmin t = 1 \<and> vtime t = 0"

text \<open>The common course of the two functions; the result is theirs, 0 or -1.\<close>

definition tty_change ::
    "ttysys \<Rightarrow> (termios \<Rightarrow> termios) \<Rightarrow> (termios \<Rightarrow> bool) \<Rightarrow> ttystate \<Rightarrow> int \<Rightarrow> ttys \<Rightarrow> int \<times> ttys" where
  "tty_change k new ok mode fd s =
     (if ttymode s \<noteq> RESET then (- 1, s)
      else case tc_get k fd s of
        (None, s) \<Rightarrow> (- 1, s)
      | (Some buf, s) \<Rightarrow>
        let s = s\<lparr>save_termios := buf\<rparr> in
        (case tc_set k fd (new buf) s of
           (False, s) \<Rightarrow> (- 1, s)
         | (True, s) \<Rightarrow>
           (case tc_get k fd s of
              (None, s) \<Rightarrow> (- 1, snd (tc_set k fd (save_termios s) s))
            | (Some buf, s) \<Rightarrow>
              if \<not> ok buf then (- 1, snd (tc_set k fd (save_termios s) s))
              else (0, s\<lparr>ttymode := mode, ttysavefd := fd\<rparr>))))"

definition tty_cbreak :: "ttysys \<Rightarrow> int \<Rightarrow> ttys \<Rightarrow> int \<times> ttys" where
  "tty_cbreak k = tty_change k cbreak_of cbreak_ok CBREAK"

definition tty_raw :: "ttysys \<Rightarrow> int \<Rightarrow> ttys \<Rightarrow> int \<times> ttys" where
  "tty_raw k = tty_change k raw_of raw_ok RAW"

definition tty_reset :: "ttysys \<Rightarrow> int \<Rightarrow> ttys \<Rightarrow> int \<times> ttys" where
  "tty_reset k fd s =
     (if ttymode s = RESET then (0, s)
      else case tc_set k fd (save_termios s) s of (ok, s) \<Rightarrow> if ok then (0, s\<lparr>ttymode := RESET\<rparr>) else (- 1, s))"

definition tty_atexit :: "ttysys \<Rightarrow> ttys \<Rightarrow> ttys" where
  "tty_atexit k s = (if 0 \<le> ttysavefd s then snd (tty_reset k (ttysavefd s) s) else s)"

definition tty_termios :: "ttys \<Rightarrow> termios" where
  "tty_termios s = save_termios s"

definition tty_init :: "(int \<Rightarrow> termios) \<Rightarrow> ttys" where
  "tty_init ts = \<lparr>terms = ts, save_termios = \<lparr>c_iflag = {}, c_oflag = {}, c_cflag = {}, c_lflag = {}, vmin = 0, vtime = 0, speed_io = 0\<rparr>,
     ttysavefd = - 1, ttymode = RESET, gets = 0\<rparr>"

subsection \<open>Any sequence of calls\<close>

datatype ttycall = Cbreak | Raw | Reset

fun tty_call :: "ttysys \<Rightarrow> int \<Rightarrow> ttycall \<Rightarrow> ttys \<Rightarrow> int \<times> ttys" where
  "tty_call k fd Cbreak = tty_cbreak k fd"
| "tty_call k fd Raw = tty_raw k fd"
| "tty_call k fd Reset = tty_reset k fd"

fun tty_calls :: "ttysys \<Rightarrow> int \<Rightarrow> ttycall list \<Rightarrow> ttys \<Rightarrow> ttys" where
  "tty_calls k fd [] s = s"
| "tty_calls k fd (c # cs) s = tty_calls k fd cs (snd (tty_call k fd c s))"

text \<open>
  The modes of terminal \<open>fd\<close>, which was \<open>t\<close> at the start; the other terminals are \<open>ts\<close>.
\<close>

definition mode_inv :: "int \<Rightarrow> termios \<Rightarrow> (int \<Rightarrow> termios) \<Rightarrow> ttys \<Rightarrow> bool" where
  "mode_inv fd t ts s \<longleftrightarrow> (\<forall>j. j \<noteq> fd \<longrightarrow> terms s j = ts j) \<and> (case ttymode s of
     RESET \<Rightarrow> terms s fd = t
   | RAW \<Rightarrow> save_termios s = t \<and> ttysavefd s = fd \<and> raw_ok (terms s fd)
   | CBREAK \<Rightarrow> save_termios s = t \<and> ttysavefd s = fd \<and> cbreak_ok (terms s fd))"

lemma tty_change_inv:
  assumes "mode_inv fd t ts s" and "\<forall>x. tset k x t = Some t" and "mode = RAW \<and> ok = raw_ok \<or> mode = CBREAK \<and> ok = cbreak_ok"
  shows "mode_inv fd t ts (snd (tty_change k new ok mode fd s))"
proof (cases "ttymode s = RESET")
  case True
  then have "terms s fd = t" "\<forall>j. j \<noteq> fd \<longrightarrow> terms s j = ts j" using assms(1) by (auto simp: mode_inv_def)
  with True assms(2,3) show ?thesis
    by (cases "tget k (gets s)"; cases "tget k (Suc (gets s))"; cases "tset k t (new t)")
      (auto simp: tty_change_def tc_get_def tc_set_def mode_inv_def Let_def)
next
  case False
  then show ?thesis using assms(1) by (simp add: tty_change_def)
qed

lemma tty_reset_inv:
  assumes "mode_inv fd t ts s" and "\<forall>x. tset k x t = Some t"
  shows "mode_inv fd t ts (snd (tty_reset k fd s)) \<and> fst (tty_reset k fd s) = 0 \<and> ttymode (snd (tty_reset k fd s)) = RESET"
  using assms by (auto simp: tty_reset_def tc_set_def mode_inv_def split: ttystate.splits)

lemma tty_calls_inv:
  "mode_inv fd t ts s \<Longrightarrow> \<forall>x. tset k x t = Some t \<Longrightarrow> mode_inv fd t ts (tty_calls k fd cs s)"
proof (induction cs arbitrary: s)
  case (Cons c cs)
  have "mode_inv fd t ts (snd (tty_call k fd c s))"
    using Cons.prems tty_change_inv [of fd t ts s k] tty_reset_inv [of fd t ts s k]
    by (cases c) (auto simp: tty_cbreak_def tty_raw_def)
  with Cons show ?case by simp
qed simp

lemma tty_atexit_inv:
  assumes inv: "mode_inv fd (ts fd) ts s" and "\<forall>x. tset k x (ts fd) = Some (ts fd)" and "0 \<le> fd"
  shows "terms (tty_atexit k s) = ts"
proof (cases "ttymode s = RESET")
  case True
  then have "terms s = ts" using inv by (auto simp: mode_inv_def fun_eq_iff)
  then show ?thesis using True by (simp add: tty_atexit_def tty_reset_def)
next
  case False
  then have "ttysavefd s = fd" using inv by (cases "ttymode s") (auto simp: mode_inv_def)
  then have e: "tty_atexit k s = snd (tty_reset k fd s)" using assms(3) by (simp add: tty_atexit_def)
  have "terms (snd (tty_reset k fd s)) j = ts j" for j
    using tty_reset_inv [OF inv assms(2)] by (cases "j = fd") (auto simp: mode_inv_def)
  then show ?thesis by (simp add: e fun_eq_iff)
qed

text \<open>A terminal in raw mode, and back again.\<close>

lemma raw_inv:
  assumes "0 \<le> fst (tty_raw k fd s)" and "ttymode s = RESET"
  shows "ttymode (snd (tty_raw k fd s)) = RAW \<and> raw_ok (terms (snd (tty_raw k fd s)) fd)"
  using assms
  by (auto simp: tty_raw_def tty_change_def tc_get_def tc_set_def Let_def split: if_splits option.splits)

lemma raw_restores:
  assumes "\<forall>x. tset k x (terms s fd) = Some (terms s fd)" and "ttymode s = RESET" and "0 \<le> fd"
  shows "terms (tty_atexit k (tty_calls k fd cs (snd (tty_raw k fd s)))) = terms s"
proof -
  have "mode_inv fd (terms s fd) (terms s) s" using assms(2) by (simp add: mode_inv_def)
  then have "mode_inv fd (terms s fd) (terms s) (snd (tty_raw k fd s))"
    unfolding tty_raw_def by (rule tty_change_inv) (use assms(1) in auto)
  then have "mode_inv fd (terms s fd) (terms s) (tty_calls k fd cs (snd (tty_raw k fd s)))" by (rule tty_calls_inv [OF _ assms(1)])
  then show ?thesis by (rule tty_atexit_inv) (use assms(1,3) in auto)
qed

text \<open>
  C21: whatever calls of \<^verbatim>\<open>tty_cbreak\<close>, \<^verbatim>\<open>tty_raw\<close> and \<^verbatim>\<open>tty_reset\<close> are made for a terminal, and however the
  system fails or makes only some of the changes, as long as the original attributes can be set again: the terminal is
  in the mode that the library thinks, with its original attributes when that is \<open>RESET\<close>, the other
  terminals are untouched, and \<^verbatim>\<open>tty_atexit\<close> leaves all terminals as they were at the start.
\<close>

theorem tty_modes_restored:
  assumes "\<forall>x. tset k x (ts fd) = Some (ts fd)" and "0 \<le> fd" and "s = tty_calls k fd cs (tty_init ts)"
  shows "(\<forall>j. j \<noteq> fd \<longrightarrow> terms s j = ts j) \<and>
    (case ttymode s of RESET \<Rightarrow> terms s fd = ts fd | RAW \<Rightarrow> raw_ok (terms s fd) | CBREAK \<Rightarrow> cbreak_ok (terms s fd)) \<and>
    terms (tty_atexit k s) = ts"
proof -
  have "mode_inv fd (ts fd) ts (tty_init ts)" by (simp add: mode_inv_def tty_init_def)
  then have inv: "mode_inv fd (ts fd) ts s" unfolding assms(3) by (rule tty_calls_inv) (rule assms(1))
  have exit: "terms (tty_atexit k s) = ts"
    by (rule tty_atexit_inv [OF inv assms(1,2)])
  show ?thesis using inv exit by (auto simp: mode_inv_def split: ttystate.splits)
qed

theorem tty_modes_restored_witness:
  "let t = \<lparr>c_iflag = {ICRNL, IXON}, c_oflag = {OPOST}, c_cflag = {CS7, PARENB}, c_lflag = {ECHO, ICANON}, vmin = 4, vtime = 1, speed_io = 9600\<rparr>;
     k = \<lparr>tset = \<lambda>x y. Some y, tget = \<lambda>n. True\<rparr>; s = tty_calls k 0 [Raw, Cbreak] (tty_init (\<lambda>_. t)) in
   ttymode s = RAW \<and> raw_ok (terms s 0) \<and> terms (tty_atexit k s) 0 = t"
proof -
  let ?t = "\<lparr>c_iflag = {ICRNL, IXON}, c_oflag = {OPOST}, c_cflag = {CS7, PARENB}, c_lflag = {ECHO, ICANON}, vmin = 4, vtime = 1, speed_io = 9600\<rparr>"
  let ?k = "\<lparr>tset = \<lambda>x y. Some y, tget = \<lambda>n. True\<rparr>"
  let ?s = "tty_calls ?k 0 [Raw, Cbreak] (tty_init (\<lambda>_. ?t))"
  have "ttymode ?s = RAW"
    by (simp add: tty_raw_def tty_cbreak_def tty_change_def tc_get_def tc_set_def tty_init_def raw_of_def raw_ok_def Let_def)
  then show ?thesis
    using tty_modes_restored [of ?k "\<lambda>_. ?t" 0 ?s "[Raw, Cbreak]"] by (simp add: Let_def)
qed

subsection \<open>The test program \<^verbatim>\<open>termios/t_raw.c\<close>\<close>

text \<open>
  What comes to a read: a byte, one of the three signals, or no byte (end of file or an error); \<open>None\<close> as a result is a program that waits for ever.
  A \<^verbatim>\<open>char\<close> is signed, so the mask with 255 leaves it negative, and \<^verbatim>\<open>%o\<close> prints it as a number of 32 bits.
\<close>

datatype rdev = Key char | Caught | NoByte

fun oct :: "nat \<Rightarrow> string" where
  "oct n = (if n < 8 then [digit n] else oct (n div 8) @ [digit (n mod 8)])"

declare oct.simps [simp del]

definition oct_char :: "char \<Rightarrow> string" where
  "oct_char c = (let n = (of_char c :: nat) in oct (if n < 128 then n else 2 ^ 32 - 256 + n))"

fun key_loop :: "bool \<Rightarrow> rdev list \<Rightarrow> string list \<Rightarrow> (rdev \<times> string list \<times> rdev list) option" where
  "key_loop del [] out = None"
| "key_loop del (Key c # evs) out = (if del \<and> of_char c = (127 :: nat) then Some (Key c, out, evs) else key_loop del evs (out @ [oct_char c]))"
| "key_loop del (Caught # evs) out = Some (Caught, out, evs)"
| "key_loop del (NoByte # evs) out = Some (NoByte, out, evs)"

definition sig_catch :: "ttysys \<Rightarrow> string list \<Rightarrow> ttys \<Rightarrow> fatal \<times> string list \<times> ttys" where
  "sig_catch k out s = (Exit 0, out @ [''signal caught''], snd (tty_reset k 0 s))"

definition cbreak_part :: "ttysys \<Rightarrow> rdev list \<Rightarrow> string list \<Rightarrow> ttys \<Rightarrow> (fatal \<times> string list \<times> ttys) option" where
  "cbreak_part k evs out s = (case tty_cbreak k 0 s of (r, s) \<Rightarrow>
     if r < 0 then Some (ErrSys ''tty_cbreak error'', out, s)
     else case key_loop False evs (out @ [''Enter cbreak mode characters, terminate with SIGINT'']) of
       None \<Rightarrow> None
     | Some (Caught, out, evs) \<Rightarrow> Some (sig_catch k out s)
     | Some (i, out, evs) \<Rightarrow> (case tty_reset k 0 s of (r, s) \<Rightarrow>
         if r < 0 then Some (ErrSys ''tty_reset error'', out, s)
         else if i = NoByte then Some (ErrSys ''read error'', out, s) else Some (Exit 0, out, s)))"

definition t_raw_main :: "(bool \<times> bool \<times> bool) \<Rightarrow> ttysys \<Rightarrow> rdev list \<Rightarrow> ttys \<Rightarrow> (fatal \<times> string list \<times> ttys) option" where
  "t_raw_main sigs k evs s =
     (if \<not> fst sigs then Some (ErrSys ''signal(SIGINT) error'', [], s)
      else if \<not> fst (snd sigs) then Some (ErrSys ''signal(SIGQUIT) error'', [], s)
      else if \<not> snd (snd sigs) then Some (ErrSys ''signal(SIGTERM) error'', [], s)
      else case tty_raw k 0 s of (r, s) \<Rightarrow>
        if r < 0 then Some (ErrSys ''tty_raw error'', [], s)
        else case key_loop True evs [''Enter raw mode characters, terminate with DELETE''] of
          None \<Rightarrow> None
        | Some (Caught, out, evs) \<Rightarrow> Some (sig_catch k out s)
        | Some (i, out, evs) \<Rightarrow> (case tty_reset k 0 s of (r, s) \<Rightarrow>
            if r < 0 then Some (ErrSys ''tty_reset error'', out, s)
            else if i = NoByte then Some (ErrSys ''read error'', out, s)
            else cbreak_part k evs out s))"

lemma key_loop_ends: "key_loop del evs out = Some (x, out', evs') \<Longrightarrow> x = Caught \<or> x = NoByte \<or> del"
  by (induction del evs out rule: key_loop.induct) (auto split: if_splits)

lemma tty_change_reset:
  "fst (tty_change k new ok mode fd s) < 0 \<Longrightarrow> ttymode s = RESET \<Longrightarrow> ttymode (snd (tty_change k new ok mode fd s)) = RESET"
  by (auto simp: tty_change_def tc_get_def tc_set_def Let_def split: option.splits if_splits)

text \<open>
  However the program ends, its terminal has its attributes again; and it ends with status 0 only from the handler of a signal, never at the
  \<^verbatim>\<open>exit(0)\<close> of \<^verbatim>\<open>main\<close>.
\<close>

lemma t_raw_restores:
  assumes "t_raw_main sigs k evs (tty_init ts) = Some (f, out, s)" and "\<forall>x. tset k x (ts 0) = Some (ts 0)"
  shows "terms s = ts \<and> (f = Exit 0 \<longrightarrow> last out = ''signal caught'')"
proof -
  have rst: "terms (snd (tty_reset k 0 u)) = ts \<and> fst (tty_reset k 0 u) = 0" if "mode_inv 0 (ts 0) ts u" for u
    using tty_reset_inv [OF that assms(2)] by (auto simp: mode_inv_def fun_eq_iff) (metis)
  have i0: "mode_inv 0 (ts 0) ts (tty_init ts)" by (simp add: mode_inv_def tty_init_def)
  have i1: "mode_inv 0 (ts 0) ts (snd (tty_raw k 0 (tty_init ts)))"
    unfolding tty_raw_def by (rule tty_change_inv [OF i0 assms(2)]) simp
  let ?s1 = "snd (tty_raw k 0 (tty_init ts))"
  have i2: "mode_inv 0 (ts 0) ts (snd (tty_reset k 0 ?s1))" using tty_reset_inv [OF i1 assms(2)] by blast
  have i3: "mode_inv 0 (ts 0) ts (snd (tty_cbreak k 0 (snd (tty_reset k 0 ?s1))))"
    unfolding tty_cbreak_def by (rule tty_change_inv [OF i2 assms(2)]) simp
  have nc: "terms (snd (tty_change k new ok mode 0 u)) = ts"
    if "fst (tty_change k new ok mode 0 u) < 0" "mode_inv 0 (ts 0) ts (snd (tty_change k new ok mode 0 u))" "ttymode u = RESET" for new ok mode u
    using tty_change_reset [OF that(1,3)] that(2) by (auto simp: mode_inv_def fun_eq_iff) metis
  have m2: "ttymode (snd (tty_reset k 0 ?s1)) = RESET" "ttymode (tty_init ts) = RESET"
    using tty_reset_inv [OF i1 assms(2)] by (simp_all add: tty_init_def)
  have f1: "fst (tty_raw k 0 (tty_init ts)) < 0 \<Longrightarrow> terms ?s1 = ts"
    using nc [of raw_of raw_ok RAW "tty_init ts"] i1 m2 by (simp add: tty_raw_def)
  have f2: "fst (tty_cbreak k 0 (snd (tty_reset k 0 ?s1))) < 0 \<Longrightarrow> terms (snd (tty_cbreak k 0 (snd (tty_reset k 0 ?s1)))) = ts"
    using nc [of cbreak_of cbreak_ok CBREAK "snd (tty_reset k 0 ?s1)"] i3 m2 by (simp add: tty_cbreak_def)
  have r0: "terms (tty_init ts) = ts" by (simp add: tty_init_def)
  have cb: "terms s = ts \<and> (f = Exit 0 \<longrightarrow> last out = ''signal caught'')"
    if "cbreak_part k evs' out' (snd (tty_reset k 0 ?s1)) = Some (f, out, s)" for evs' out'
    using that f2 rst [OF i3] key_loop_ends [of False evs']
    by (auto simp: cbreak_part_def sig_catch_def split: prod.splits option.splits rdev.splits if_splits)
  show ?thesis
  proof (cases "fst sigs \<and> fst (snd sigs) \<and> snd (snd sigs) \<and> 0 \<le> fst (tty_raw k 0 (tty_init ts))")
    case False
    then show ?thesis using assms(1) f1 r0 unfolding t_raw_main_def case_prod_unfold by (auto split: if_splits)
  next
    case True
    then obtain x out' evs' where l: "key_loop True evs [''Enter raw mode characters, terminate with DELETE''] = Some (x, out', evs')"
      using assms(1) unfolding t_raw_main_def case_prod_unfold by (auto split: option.splits)
    note m = assms(1) [unfolded t_raw_main_def case_prod_unfold]
    show ?thesis
    proof (cases x)
      case (Key c)
      then have "cbreak_part k evs' out' (snd (tty_reset k 0 ?s1)) = Some (f, out, s)" using m True l rst [OF i1] by simp
      then show ?thesis by (rule cb)
    next
      case Caught
      then have "sig_catch k out' ?s1 = (f, out, s)" using m True l by simp
      then show ?thesis using rst [OF i1] by (auto simp: sig_catch_def)
    next
      case NoByte
      then have "Some (ErrSys ''read error'', out', snd (tty_reset k 0 ?s1)) = Some (f, out, s)" using m True l rst [OF i1] by simp
      then have "f = ErrSys ''read error''" "s = snd (tty_reset k 0 ?s1)" by simp_all
      then show ?thesis using rst [OF i1] by simp
    qed
  qed
qed

text \<open>A byte above 127 is printed with eleven digits.\<close>

lemma oct_char_negative: "length (oct_char (CHR 0xFF)) = 11" "oct_char (CHR 0x7F) = [digit 1, digit 7, digit 7]"
  by (simp_all add: oct_char_def oct.simps)

end
