(* ===== verification/CallProps.thy ===== *)
theory CallProps
  imports CallClient TtyModes
begin

section \<open>The modem client: properties\<close>

subsection \<open>The request\<close>

text \<open>The words that \<^verbatim>\<open>main\<close> writes for an option.\<close>

fun opt_words :: "gopt \<Rightarrow> string list" where
  "opt_words (Opt c a) = (case a of None \<Rightarrow> [[CHR ''-'', c]] | Some v \<Rightarrow> [[CHR ''-'', c], v])"
| "opt_words (BadOpt c) = []"

fun opt_ok :: "gopt \<Rightarrow> bool" where
  "opt_ok (Opt c a) = (c \<in> set ''deo'' \<and> a = None \<or> c = CHR ''s'' \<and> (\<exists>v. a = Some v \<and> word_ok v))"
| "opt_ok (BadOpt c) = False"

lemma call_args_loop_words:
  assumes "\<forall>x\<in>set os. opt_ok x"
  shows "call_args_loop os args = ret (args @ concat (map (\<lambda>w. w @ '' '') (concat (map opt_words os))))"
  using assms by (induction os args rule: call_args_loop.induct) auto

lemma concat_space_join: "concat (map (\<lambda>w. w @ '' '') ws) @ h = join (ws @ [h])"
  by (induction ws) (auto simp: join_Cons)

lemma getopt_words:
  assumes "\<forall>x\<in>set os. opt_ok x" and "hd h \<noteq> CHR ''-''" and "h \<noteq> []"
  shows "getopt call_kind [] (concat (map opt_words os) @ [h]) = (os, [h])"
  using assms(1)
proof (induction os)
  case Nil
  then show ?case using assms(2,3) by (cases h) auto
next
  case (Cons x os)
  then show ?case by (cases x) (auto simp: call_kind_def)
qed

lemma word_opt:
  assumes "opt_ok x" and "w \<in> set (opt_words x)"
  shows "word_ok w"
proof (cases x)
  case (Opt c a)
  have l: "word_ok [CHR ''-'', d]" if "d \<in> set ''deos''" for d
  proof -
    have "d = CHR ''d'' \<or> d = CHR ''e'' \<or> d = CHR ''o'' \<or> d = CHR ''s''" using that by simp
    then show ?thesis by (elim disjE) (simp_all add: word_ok_def white_def newline_def nul_def)
  qed
  from assms(1) Opt consider "a = None" "c \<in> set ''deo''" | v where "a = Some v" "c = CHR ''s''" "word_ok v" by auto
  then show ?thesis
  proof cases
    case 1
    with l [of c] assms(2) Opt show ?thesis by auto
  next
    case 2
    with l [of c] assms(2) Opt show ?thesis by auto
  qed
next
  case (BadOpt c)
  with assms show ?thesis by simp
qed

lemma length_opt_words: "length (concat (map opt_words os)) \<le> 2 * length os"
proof (induction os)
  case (Cons x os)
  then show ?case by (cases x) (auto split: option.splits)
qed simp

lemma set_opts_ok: "\<forall>x\<in>set os. opt_ok x \<Longrightarrow> \<exists>g'. set_opts os g = Inr g'"
  by (induction os g rule: set_opts.induct) auto

text \<open>
  C19: the daemon takes the request of \<^verbatim>\<open>call\<close> apart into the options that \<^verbatim>\<open>call\<close> was started with: the
  options and the host name of \<^verbatim>\<open>argv\<close>, sent as one string, are again read as the same options and host name,
  when the speed and the host are words, the host does not begin with a hyphen, and there are at most 23 options.
\<close>

theorem call_request_parsed:
  assumes "getopt call_kind [] argv = (os, h # r)" and "\<forall>x\<in>set os. opt_ok x" and "word_ok h" and "hd h \<noteq> CHR ''-''"
    and "length os \<le> 23" and "call_args argv = ret args"
  shows "\<exists>g argv'. set_opts os \<lparr>oDebug = False, oparity = NONE, ospeed = None, osysname = []\<rparr> = Inr g \<and>
    buf_args (call_request args) = Some argv' \<and> cli_args argv' = Inr (g\<lparr>osysname := h\<rparr>)"
proof -
  let ?ws = "concat (map opt_words os) @ [h]"
  have args: "args = join ?ws"
    using assms(1,2,6) by (simp add: call_args_def call_args_loop_words run_simps concat_space_join)
  have "call_request args = join (CL_CALL # ?ws) @ nul # []"
    by (simp add: call_request_def args join_Cons)
  moreover have "\<forall>w\<in>set (CL_CALL # ?ws). word_ok w"
  proof -
    have "word_ok CL_CALL" by (simp add: word_ok_def CL_CALL_def white_def newline_def nul_def)
    then show ?thesis using assms(2,3) word_opt by auto
  qed
  moreover have "length (CL_CALL # ?ws) < MAXARGC"
    using length_opt_words [of os] assms(5) by (simp add: MAXARGC_def)
  ultimately have "buf_args (call_request args) = Some (CL_CALL # ?ws)"
    using buf_args_join [of "CL_CALL # ?ws" "[]"] by simp
  moreover obtain g where "set_opts os \<lparr>oDebug = False, oparity = NONE, ospeed = None, osysname = []\<rparr> = Inr g"
    using set_opts_ok [OF assms(2)] by blast
  moreover have "h \<noteq> []" using assms(3) by (auto simp: word_ok_def)
  ultimately show ?thesis
    using getopt_words [OF assms(2,4)] by (auto simp: cli_args_def)
qed

theorem call_request_parsed_witness:
  "\<exists>argv'. buf_args (call_request ''-e -s 9600 host1'') = Some argv' \<and>
     cli_args argv' = Inr \<lparr>oDebug = False, oparity = EVEN, ospeed = Some ''9600'', osysname = ''host1''\<rparr>"
proof -
  let ?os = "[Opt (CHR ''e'') None, Opt (CHR ''s'') (Some ''9600'')]"
  have g: "getopt call_kind [] [''-es9600'', ''host1''] = (?os, [''host1''])" by (simp add: call_kind_def)
  have "call_args [''-es9600'', ''host1''] = ret ''-e -s 9600 host1''" by (simp add: call_args_def g MAXLINE_def del: getopt.simps)
  moreover have "\<forall>x\<in>set ?os. opt_ok x" by (simp add: word_ok_def white_def newline_def nul_def)
  ultimately show ?thesis
    using call_request_parsed [OF g, of "''-e -s 9600 host1''"]
    by (simp add: word_ok_def white_def newline_def nul_def)
qed

section \<open>The modem client: \<^verbatim>\<open>main\<close> of \<^verbatim>\<open>call\<close> and the user's terminal\<close>

text \<open>
  \<^verbatim>\<open>main\<close> places the call, puts the user's terminal into raw mode and runs the loop.  \<^verbatim>\<open>exit\<close>, which the fatal error routines
  call as well, runs \<^verbatim>\<open>tty_atexit\<close> when it is registered.  Within the loop the escape commands switch back to the user's mode and
  to raw mode again; \<open>cs\<close> are the calls of \<^verbatim>\<open>tty_reset\<close> and \<^verbatim>\<open>tty_raw\<close> that the session makes.
\<close>

definition runs_atexit :: "fatal \<Rightarrow> bool" where
  "runs_atexit f = (case f of ErrDump m \<Rightarrow> False | Undef m \<Rightarrow> False | _ \<Rightarrow> True)"

definition call_session :: "ttysys \<Rightarrow> bool \<Rightarrow> pollev list \<Rightarrow> ttycall list \<Rightarrow> cw \<Rightarrow> ttys \<Rightarrow> ((fatal + cw) \<times> ttys) option" where
  "call_session k atexit_ok evs cs w t = (case tty_raw k 0 t of (r, t) \<Rightarrow>
     if r < 0 then Some (Inl (ErrSys ''tty_raw error''), t)
     else if \<not> atexit_ok then Some (Inl (ErrSys ''atexit error''), t)
     else
       let t' = tty_calls k 0 cs t in
       case call_loop evs None w of
         None \<Rightarrow> None
       | Some (Inl f) \<Rightarrow> Some (Inl f, if runs_atexit f then tty_atexit k t' else t')
       | Some (Inr w) \<Rightarrow> Some (Inr (say (''Disconnected'' @ [newline, carriage]) w), tty_atexit k t'))"

definition call_main ::
    "ttysys \<Rightarrow> bool \<Rightarrow> bool \<Rightarrow> bool \<Rightarrow> (string \<Rightarrow> bool) \<Rightarrow> string list \<Rightarrow> rmsg list \<Rightarrow> pollev list \<Rightarrow> ttycall list \<Rightarrow> cw \<Rightarrow> ttys
      \<Rightarrow> ((fatal + cw) \<times> ttys) option" where
  "call_main k conn wok atexit_ok uf argv ms evs cs w t =
     (case rbind (call_args argv) (\<lambda>args. call conn wok args uf ms) of
        None \<Rightarrow> None
      | Some (Inl f) \<Rightarrow> Some (Inl f, t)
      | Some (Inr (remfd, out, ms)) \<Rightarrow>
        if remfd < 0 then Some (Inl (Exit 1), t)
        else call_session k atexit_ok evs cs (say (''Connected'' @ [newline]) w) t)"

text \<open>However the session ends, short of undefined behaviour, the terminal is as it was before, when its attributes can be set again.\<close>

lemma tty_change_fails:
  assumes "fst (tty_change k new ok mode fd s) < 0" and "ttymode s = RESET" and "\<forall>x. tset k x (terms s fd) = Some (terms s fd)"
  shows "terms (snd (tty_change k new ok mode fd s)) = terms s"
  using assms by (auto simp: tty_change_def tc_get_def tc_set_def Let_def fun_eq_iff split: option.splits if_splits)

lemma call_main_restores:
  assumes "call_main k conn wok True uf argv ms evs cs w t = Some (r, t')" and "ttymode t = RESET"
    and "\<forall>x. tset k x (terms t 0) = Some (terms t 0)" and "\<And>f. r = Inl f \<Longrightarrow> runs_atexit f"
  shows "terms t' = terms t"
proof -
  have s: "terms t' = terms t" if c: "call_session k True evs cs w' t = Some (r, t')" for w'
  proof -
    obtain q t1 where q: "tty_raw k 0 t = (q, t1)" by fastforce
    show ?thesis
    proof (cases "q < 0")
      case True
      then have "t' = t1" using c q by (simp add: call_session_def)
      then show ?thesis using tty_change_fails [of k raw_of raw_ok RAW 0 t] True q assms(2,3) by (simp add: tty_raw_def)
    next
      case False
      have "t' = tty_atexit k (tty_calls k 0 cs t1)"
        using c q False assms(4) by (auto simp: call_session_def Let_def split: option.splits sum.splits)
      then show ?thesis using raw_restores [OF assms(3,2), of cs] q by simp
    qed
  qed
  show ?thesis using assms(1) s by (auto simp: call_main_def split: option.splits sum.splits if_splits)
qed

end
