(* ===== verification/FileWalk.thy ===== *)
theory FileWalk
  imports CText
begin

section \<open>Walking a directory tree: \<^verbatim>\<open>file/ftw4.c\<close> and \<^verbatim>\<open>myfind.c\<close>\<close>

text \<open>
  Both programs call a function for every file below a path.  The file system is what \<^verbatim>\<open>lstat\<close> and
  \<^verbatim>\<open>opendir\<close> say of a path; the path is kept in one buffer of \<open>len\<close> bytes, \<^verbatim>\<open>fullpath\<close>, which a call gets and leaves
  as a value.  The recursion of the code has no bound of its own, so the depth is fuel: \<open>None\<close> when
  it runs out.
\<close>

datatype fmode = S_IFREG | S_IFBLK | S_IFCHR | S_IFIFO | S_IFLNK | S_IFSOCK | S_IFDIR
datatype ftwtype = FTW_F | FTW_D | FTW_DNR | FTW_NS

record fstat =
  st_mode :: fmode
  st_size :: int

record fsys =
  lstat :: "string \<Rightarrow> fstat option"
  opendir :: "string \<Rightarrow> string list option"

type_synonym 's ftwfunc = "string \<Rightarrow> fstat option \<Rightarrow> ftwtype \<Rightarrow> 's \<Rightarrow> (int \<times> 's) run"

subsection \<open>\<^verbatim>\<open>path_alloc\<close>\<close>

definition SUSV3 :: int where "SUSV3 = 200112"
definition PATH_MAX_GUESS :: int where "PATH_MAX_GUESS = 1024"

text \<open>
  The size of the buffer: \<open>pm\<close> is \<^verbatim>\<open>PATH_MAX\<close> where the system defines it, else \<^verbatim>\<open>pathconf\<close> gives \<open>pc\<close>: a limit, no
  limit (\<open>Inr None\<close>) or an error; \<open>ver\<close> is what \<^verbatim>\<open>sysconf\<close> says of the version, \<open>mem\<close> whether \<^verbatim>\<open>malloc\<close> works.
\<close>

definition path_alloc :: "int option \<Rightarrow> unit + int option \<Rightarrow> int \<Rightarrow> bool \<Rightarrow> int run" where
  "path_alloc pm pc ver mem =
     rbind (case pm of
       Some n \<Rightarrow> ret n
     | None \<Rightarrow> (case pc of Inl _ \<Rightarrow> die (ErrSys ''pathconf error for _PC_PATH_MAX'')
                | Inr None \<Rightarrow> ret PATH_MAX_GUESS | Inr (Some n) \<Rightarrow> ret (n + 1))) (\<lambda>pathmax.
     rbind (guard mem (ErrSys ''malloc error for pathname'')) (\<lambda>_.
     ret (if ver < SUSV3 then pathmax + 1 else pathmax)))"

subsection \<open>The walk\<close>

text \<open>The loop over \<^verbatim>\<open>readdir\<close>: \<open>dp\<close> is the recursive call, \<open>pre\<close> the path up to \<^verbatim>\<open>ptr\<close>.\<close>

fun entries ::
    "(string \<Rightarrow> 's \<Rightarrow> (int \<times> string \<times> 's) run) \<Rightarrow> nat \<Rightarrow> string \<Rightarrow> string list \<Rightarrow> int \<Rightarrow> 's \<Rightarrow> (int \<times> 's) run" where
  "entries dp len pre [] r st = ret (r, st)"
| "entries dp len pre (d # ds) r st =
     (if d = ''.'' \<or> d = ''..'' then entries dp len pre ds r st
      else rbind (guard (length (pre @ d) < len) (Undef ''fullpath overflows'')) (\<lambda>_.
        rbind (dp (pre @ d) st) (\<lambda>(r, _, st). if r \<noteq> 0 then ret (r, st) else entries dp len pre ds r st)))"

text \<open>The directory with its slash; in \<^verbatim>\<open>myfind.c\<close> only where there is none.\<close>

definition add_slash :: "string \<Rightarrow> string" where "add_slash p = p @ ''/''"
definition end_slash :: "string \<Rightarrow> string" where "end_slash p = (if last p = CHR ''/'' then p else p @ ''/'')"

text \<open>The result, the path that is left in the buffer, and the state of the function.\<close>

fun walk :: "(string \<Rightarrow> string) \<Rightarrow> nat \<Rightarrow> fsys \<Rightarrow> nat \<Rightarrow> 's ftwfunc \<Rightarrow> string \<Rightarrow> 's \<Rightarrow> (int \<times> string \<times> 's) run" where
  "walk sl 0 fs len func path st = None"
| "walk sl (Suc n) fs len func path st =
     (case lstat fs path of
        None \<Rightarrow> rbind (func path None FTW_NS st) (\<lambda>(r, st). ret (r, path, st))
      | Some sb \<Rightarrow>
        if st_mode sb \<noteq> S_IFDIR then rbind (func path (Some sb) FTW_F st) (\<lambda>(r, st). ret (r, path, st))
        else
          rbind (func path (Some sb) FTW_D st) (\<lambda>(r, st).
          if r \<noteq> 0 then ret (r, path, st)
          else
            let pre = sl path in
            rbind (guard (length pre < len) (Undef ''fullpath overflows'')) (\<lambda>_.
            case opendir fs pre of
              None \<Rightarrow> rbind (func pre (Some sb) FTW_DNR st) (\<lambda>(r, st). ret (r, pre, st))
            | Some ds \<Rightarrow> rbind (entries (walk sl n fs len func) len pre ds r st) (\<lambda>(r, st). ret (r, butlast pre, st)))))"

definition dopath :: "nat \<Rightarrow> fsys \<Rightarrow> nat \<Rightarrow> 's ftwfunc \<Rightarrow> string \<Rightarrow> 's \<Rightarrow> (int \<times> string \<times> 's) run" where
  "dopath = walk add_slash"

definition doPath :: "nat \<Rightarrow> fsys \<Rightarrow> nat \<Rightarrow> 's ftwfunc \<Rightarrow> string \<Rightarrow> 's \<Rightarrow> (int \<times> string \<times> 's) run" where
  "doPath = walk end_slash"

definition myftw :: "nat \<Rightarrow> fsys \<Rightarrow> nat \<Rightarrow> string \<Rightarrow> 's ftwfunc \<Rightarrow> 's \<Rightarrow> (int \<times> 's) run" where
  "myftw n fs len pathname func st = rbind (dopath n fs len func (take (len - 1) pathname) st) (\<lambda>(r, _, st). ret (r, st))"

definition myFTW :: "nat \<Rightarrow> fsys \<Rightarrow> nat \<Rightarrow> string \<Rightarrow> 's ftwfunc \<Rightarrow> 's \<Rightarrow> (int \<times> 's) run" where
  "myFTW n fs len pathname func st = rbind (doPath n fs len func (take (len - 1) pathname) st) (\<lambda>(r, _, st). ret (r, st))"

subsection \<open>The functions that are called\<close>

record counts =
  nreg :: nat
  nsreg :: nat
  ndir :: nat
  nblk :: nat
  nslink :: nat
  nchr :: nat
  nfifo :: nat
  nsock :: nat

definition no_counts :: counts where
  "no_counts = \<lparr>nreg = 0, nsreg = 0, ndir = 0, nblk = 0, nslink = 0, nchr = 0, nfifo = 0, nsock = 0\<rparr>"

fun count_mode :: "fmode \<Rightarrow> counts \<Rightarrow> counts" where
  "count_mode S_IFREG c = c\<lparr>nreg := Suc (nreg c)\<rparr>"
| "count_mode S_IFBLK c = c\<lparr>nblk := Suc (nblk c)\<rparr>"
| "count_mode S_IFCHR c = c\<lparr>nchr := Suc (nchr c)\<rparr>"
| "count_mode S_IFIFO c = c\<lparr>nfifo := Suc (nfifo c)\<rparr>"
| "count_mode S_IFLNK c = c\<lparr>nslink := Suc (nslink c)\<rparr>"
| "count_mode S_IFSOCK c = c\<lparr>nsock := Suc (nsock c)\<rparr>"
| "count_mode S_IFDIR c = c"

text \<open>\<^verbatim>\<open>myfunc\<close> of \<^verbatim>\<open>ftw4.c\<close>; its messages about unreadable files are left out.\<close>

definition myfunc :: "counts ftwfunc" where
  "myfunc path sb ty c = (case ty of
       FTW_F \<Rightarrow> if st_mode (the sb) = S_IFDIR then die (ErrDump ''for S_IFDIR for %s'') else ret (0, count_mode (st_mode (the sb)) c)
     | FTW_D \<Rightarrow> ret (0, c\<lparr>ndir := Suc (ndir c)\<rparr>)
     | _ \<Rightarrow> ret (0, c))"

definition findStat :: "counts ftwfunc" where
  "findStat path sb ty c = (case ty of
       FTW_F \<Rightarrow>
         let c = count_mode (st_mode (the sb)) c in
         ret (0, if st_mode (the sb) = S_IFREG \<and> st_size (the sb) \<le> 4096 \<and> 0 \<le> st_size (the sb) then c\<lparr>nsreg := Suc (nsreg c)\<rparr> else c)
     | FTW_D \<Rightarrow> ret (0, c\<lparr>ndir := Suc (ndir c)\<rparr>)
     | _ \<Rightarrow> ret (0, c))"

definition total :: "counts \<Rightarrow> nat" where
  "total c = (let n = nreg c + ndir c + nblk c + nchr c + nfifo c + nslink c + nsock c in if n = 0 then 1 else n)"

text \<open>The last slash, but 0 for the first character.\<close>

definition getFilenamePos :: "string \<Rightarrow> nat" where
  "getFilenamePos p = (let k = length (takeWhile (\<lambda>c. c \<noteq> CHR ''/'') (rev p)); pos = length p - Suc k in
     if k = length p \<or> pos = 0 then 0 else pos + 1)"

text \<open>The matches so far.\<close>

definition findName :: "string \<Rightarrow> string list ftwfunc" where
  "findName in_filename path sb ty found =
     ret (0, if ty = FTW_F \<and> in_filename = drop (getFilenamePos path) path then found @ [path] else found)"

text \<open>
  \<^verbatim>\<open>strcmp\<close> on two buffers that need not hold a null byte; \<open>None\<close>: it reads past their ends.
\<close>

fun buf_strcmp :: "string \<Rightarrow> string \<Rightarrow> bool option" where
  "buf_strcmp (a # as) (b # bs) = (if a \<noteq> b then Some False else if a = nul then Some True else buf_strcmp as bs)"
| "buf_strcmp _ _ = None"

text \<open>\<open>cont\<close>: what \<^verbatim>\<open>open\<close> and \<^verbatim>\<open>read\<close> give for a path, \<open>None\<close> when it cannot be opened.\<close>

definition findComp :: "(string \<Rightarrow> string option) \<Rightarrow> string \<Rightarrow> string \<Rightarrow> string list ftwfunc" where
  "findComp cont filebuf in_filepath path sb ty found =
     (if ty = FTW_F \<and> st_mode (the sb) = S_IFREG \<and> st_size (the sb) = int (length filebuf) then
        (case cont path of
           None \<Rightarrow> ret (0, found)
         | Some s \<Rightarrow>
           rbind (guard (length filebuf \<le> length s) (ErrSys ''read error'')) (\<lambda>_.
           case buf_strcmp filebuf (take (length filebuf) s) of
             None \<Rightarrow> die (Undef ''strcmp reads past the buffers'')
           | Some eq \<Rightarrow> ret (0, if eq \<and> in_filepath \<noteq> path then found @ [path] else found)))
      else ret (0, found))"

subsection \<open>\<^verbatim>\<open>main\<close> of \<^verbatim>\<open>myfind.c\<close>\<close>

text \<open>
  What the system says: the file system, the files, the absolute path of a directory with \<^verbatim>\<open>chdir\<close> and
  \<^verbatim>\<open>getcwd\<close>, the size of a path buffer, and what its bytes are before they are written.
\<close>

record findenv =
  fsy :: fsys
  cont :: "string \<Rightarrow> string option"
  absdir :: "string \<Rightarrow> string option"
  plen :: nat
  junkpath :: string
  depth_fuel :: nat

definition getAbsPath :: "findenv \<Rightarrow> string \<Rightarrow> string run" where
  "getAbsPath ev p = (case absdir ev p of
       None \<Rightarrow> die (ErrSys ''chdir failed'')
     | Some a \<Rightarrow> rbind (guard (length (end_slash a) < plen ev) (Undef ''abspath overflows'')) (\<lambda>_. ret (end_slash a)))"

datatype report = Stats counts nat | Matches "string list" | Names "(string \<times> string list option) list"

text \<open>The loop over the names; \<open>None\<close>: a directory was given.\<close>

fun find_names :: "findenv \<Rightarrow> string \<Rightarrow> string list \<Rightarrow> int \<Rightarrow> (int \<times> (string \<times> string list option) list) run" where
  "find_names ev in_path [] r = ret (r, [])"
| "find_names ev in_path (a # as) r =
     (if getFilenamePos a \<noteq> 0 \<or> take 1 a = ''/'' then
        rbind (find_names ev in_path as r) (\<lambda>(r, rs). ret (r, (a, None) # rs))
      else
        rbind (guard (length a < plen ev) (Undef ''in_filename is not terminated'')) (\<lambda>_.
        rbind (myFTW (depth_fuel ev) (fsy ev) (plen ev) in_path (findName a) []) (\<lambda>(r, found).
        rbind (find_names ev in_path as r) (\<lambda>(r, rs). ret (r, (a, Some found) # rs)))))"

definition find_comp :: "findenv \<Rightarrow> string \<Rightarrow> string \<Rightarrow> (int \<times> string list) run" where
  "find_comp ev start src = (case lstat (fsy ev) src of
       None \<Rightarrow> die (ErrQuit ''lstat error'')
     | Some sb \<Rightarrow>
       rbind (guard (st_mode sb = S_IFREG) (ErrQuit ''source file is not a regular one'')) (\<lambda>_.
       case cont ev src of
         None \<Rightarrow> die (ErrSys ''can't open source file'')
       | Some s \<Rightarrow>
         rbind (guard (st_size sb \<le> int (length s)) (ErrSys ''read error'')) (\<lambda>_.
         let filebuf = take (nat (st_size sb)) s in
         rbind (getAbsPath ev start) (\<lambda>in_path.
         let pos = getFilenamePos src; in_dir = (if pos = 0 then ''.'' else take pos src @ cstr (junkpath ev)) in
         rbind (getAbsPath ev in_dir) (\<lambda>a.
         let in_filepath = a @ drop pos src in
         rbind (guard (length in_filepath < plen ev) (Undef ''in_filepath overflows'')) (\<lambda>_.
         myFTW (depth_fuel ev) (fsy ev) (plen ev) in_path (findComp (cont ev) filebuf in_filepath) []))))))"

definition myfind_main :: "findenv \<Rightarrow> string list \<Rightarrow> (int \<times> report) run" where
  "myfind_main ev args =
     (let n = length args; comp = (2 \<le> n \<and> take 5 (args ! 1) = ''-comp''); name = (2 \<le> n \<and> take 5 (args ! 1) = ''-name'') in
      if \<not> (n = 1 \<or> n = 3 \<and> comp \<or> 3 \<le> n \<and> name) then die (ErrQuit ''wrong argument(s)'')
      else case lstat (fsy ev) (args ! 0) of
        None \<Rightarrow> die (ErrQuit ''lstat error'')
      | Some sb \<Rightarrow>
        let start = (if st_mode sb \<noteq> S_IFDIR then ''.'' else args ! 0) in
        if n = 1 then
          rbind (myFTW (depth_fuel ev) (fsy ev) (plen ev) start findStat no_counts) (\<lambda>(r, c). ret (r, Stats c (total c)))
        else if n = 3 \<and> comp then rbind (find_comp ev start (args ! 2)) (\<lambda>(r, found). ret (r, Matches found))
        else rbind (getAbsPath ev start) (\<lambda>in_path.
          rbind (find_names ev in_path (drop 2 args) 1) (\<lambda>(r, rs). ret (r, Names rs))))"

definition ftw4_main :: "nat \<Rightarrow> fsys \<Rightarrow> nat \<Rightarrow> string list \<Rightarrow> (int \<times> counts \<times> nat) run" where
  "ftw4_main n fs len args = (if length args \<noteq> 1 then die (ErrQuit ''usage:  ftw  <starting-pathname>'')
     else rbind (myftw n fs len (hd args) myfunc no_counts) (\<lambda>(r, c). ret (r, c, total c)))"

end
