(* ===== verification/FileWalkProps.thy ===== *)
theory FileWalkProps
  imports FileWalk
begin

section \<open>Walking a directory tree: properties\<close>

subsection \<open>Trees\<close>

text \<open>A finite directory tree, and what it means that a file system has it at a path.\<close>

datatype fnode = Leaf fmode int | Unstat | Folder int "(string \<times> fnode) list option"

definition dots :: "string set" where "dots = {''.'', ''..''}"

fun mounted :: "(string \<Rightarrow> string) \<Rightarrow> fsys \<Rightarrow> string \<Rightarrow> fnode \<Rightarrow> bool" where
  "mounted sl fs p (Leaf m s) = (m \<noteq> S_IFDIR \<and> lstat fs p = Some \<lparr>st_mode = m, st_size = s\<rparr>)"
| "mounted sl fs p Unstat = (lstat fs p = None)"
| "mounted sl fs p (Folder s None) = (lstat fs p = Some \<lparr>st_mode = S_IFDIR, st_size = s\<rparr> \<and> opendir fs (sl p) = None)"
| "mounted sl fs p (Folder s (Some es)) = (lstat fs p = Some \<lparr>st_mode = S_IFDIR, st_size = s\<rparr> \<and>
     map_option (filter (\<lambda>d. d \<notin> dots)) (opendir fs (sl p)) = Some (map fst es) \<and>
     list_all (\<lambda>(d, t). mounted sl fs (sl p @ d) t) es)"

text \<open>Its depth, the length of its longest path, and the visits in order.\<close>

fun depth :: "fnode \<Rightarrow> nat" where
  "depth (Folder s (Some es)) = Suc (fold (\<lambda>(d, t). max (depth t)) es 0)"
| "depth _ = 1"

fun fits :: "(string \<Rightarrow> string) \<Rightarrow> nat \<Rightarrow> string \<Rightarrow> fnode \<Rightarrow> bool" where
  "fits sl len p (Folder s None) = (length (sl p) < len)"
| "fits sl len p (Folder s (Some es)) =
     (length (sl p) < len \<and> list_all (\<lambda>(d, t). length (sl p @ d) < len \<and> fits sl len (sl p @ d) t) es)"
| "fits sl len p _ = True"

fun visits :: "(string \<Rightarrow> string) \<Rightarrow> string \<Rightarrow> fnode \<Rightarrow> (string \<times> fstat option \<times> ftwtype) list" where
  "visits sl p (Leaf m s) = [(p, Some \<lparr>st_mode = m, st_size = s\<rparr>, FTW_F)]"
| "visits sl p Unstat = [(p, None, FTW_NS)]"
| "visits sl p (Folder s None) = [(p, Some \<lparr>st_mode = S_IFDIR, st_size = s\<rparr>, FTW_D), (sl p, Some \<lparr>st_mode = S_IFDIR, st_size = s\<rparr>, FTW_DNR)]"
| "visits sl p (Folder s (Some es)) =
     (p, Some \<lparr>st_mode = S_IFDIR, st_size = s\<rparr>, FTW_D) # concat (map (\<lambda>(d, t). visits sl (sl p @ d) t) es)"

text \<open>The calls of a function one after the other, up to the first result that is not 0.\<close>

fun run_visits :: "'s ftwfunc \<Rightarrow> (string \<times> fstat option \<times> ftwtype) list \<Rightarrow> 's \<Rightarrow> (int \<times> 's) run" where
  "run_visits f [] st = ret (0, st)"
| "run_visits f ((p, sb, ty) # vs) st = rbind (f p sb ty st) (\<lambda>(r, st). if r \<noteq> 0 then ret (r, st) else run_visits f vs st)"

lemma run_visits_append:
  "run_visits f (xs @ ys) st = rbind (run_visits f xs st) (\<lambda>(r, st). if r \<noteq> 0 then ret (r, st) else run_visits f ys st)"
  by (induction f xs st rule: run_visits.induct) (auto simp: rbind_assoc intro!: rbind_cong)

lemma run_visits_nil [simp]: "rbind m (\<lambda>(r, st). if r \<noteq> 0 then ret (r, st) else run_visits f [] st) = m"
proof (cases m)
  case (Some x)
  then show ?thesis by (cases x) auto
qed simp

lemma run_visits_one: "run_visits f [(p, sb, ty)] st = f p sb ty st"
proof (cases "f p sb ty st")
  case (Some x)
  then show ?thesis by (cases x) auto
qed simp

lemma depth_entries: "depth (Folder s (Some es)) \<le> Suc n \<Longrightarrow> (d, t) \<in> set es \<Longrightarrow> depth t \<le> n"
proof -
  have le: "a \<le> fold (\<lambda>(d, t). max (depth t)) es a" for a :: nat and es
    by (induction es arbitrary: a) (auto intro: le_trans [OF max.cobounded2])
  have "(d, t) \<in> set es \<Longrightarrow> depth t \<le> fold (\<lambda>(d, t). max (depth t)) es a" for a
  proof (induction es arbitrary: a)
    case (Cons x es)
    show ?case
    proof (cases "x = (d, t)")
      case True
      then show ?thesis using le [of "max (depth t) a" es] by simp
    next
      case False
      then have e: "(d, t) \<in> set es" using Cons.prems by auto
      show ?thesis using Cons.IH [OF e] by (cases x) simp
    qed
  qed simp
  then show "depth (Folder s (Some es)) \<le> Suc n \<Longrightarrow> (d, t) \<in> set es \<Longrightarrow> depth t \<le> n"
    by (fastforce dest: order_trans)
qed

subsection \<open>The walk calls the function in that order\<close>

definition drop_path :: "(int \<times> string \<times> 's) run \<Rightarrow> (int \<times> 's) run" where
  "drop_path x = rbind x (\<lambda>(r, _, st). ret (r, st))"

lemma drop_path_rbind [simp]: "drop_path (rbind m f) = rbind m (\<lambda>x. drop_path (f x))"
  by (simp add: drop_path_def rbind_assoc)

lemma drop_path_ret [simp]: "drop_path (ret (r, p, st)) = ret (r, st)"
  by (simp add: drop_path_def)

lemma drop_path_pair [simp]: "drop_path (case x of (r, st) \<Rightarrow> g r st) = (case x of (r, st) \<Rightarrow> drop_path (g r st))"
  by (cases x) simp

lemma rbind_ret [simp]: "rbind m (\<lambda>x. ret x) = m"
proof (cases m)
  case (Some x)
  then show ?thesis by (cases x) auto
qed simp

lemma rbind_ret_pair [simp]: "rbind m (\<lambda>(r, st). ret (r, st)) = m"
proof (cases m)
  case (Some x)
  then show ?thesis by (cases x) auto
qed simp

lemma entries_visits:
  assumes "filter (\<lambda>d. d \<notin> dots) ds = map fst es"
    and "\<And>d t st. (d, t) \<in> set es \<Longrightarrow> length (pre @ d) < len \<and> drop_path (dp (pre @ d) st) = run_visits f (vs d t) st"
  shows "entries dp len pre ds 0 st = run_visits f (concat (map (\<lambda>(d, t). vs d t) es)) st"
  using assms
proof (induction ds arbitrary: es st)
  case (Cons d ds)
  show ?case
  proof (cases "d \<in> dots")
    case True
    then show ?thesis using Cons by (auto simp: dots_def)
  next
    case False
    with Cons.prems(1) obtain t es' where es: "es = (d, t) # es'" "filter (\<lambda>d. d \<notin> dots) ds = map fst es'" by auto
    have d: "length (pre @ d) < len" "drop_path (dp (pre @ d) st) = run_visits f (vs d t) st"
      using Cons.prems(2) [of d t] es(1) by auto
    have "entries dp len pre (d # ds) 0 st =
        rbind (drop_path (dp (pre @ d) st)) (\<lambda>(r, st). if r \<noteq> 0 then ret (r, st) else entries dp len pre ds 0 st)"
      using False d(1) by (auto simp: dots_def drop_path_def rbind_assoc intro!: rbind_cong)
    moreover have "entries dp len pre ds 0 st' = run_visits f (concat (map (\<lambda>(d, t). vs d t) es')) st'" for st'
      using Cons.IH [OF es(2)] Cons.prems(2) es(1) by auto
    ultimately show ?thesis unfolding d(2) es(1)
      by (auto simp: run_visits_append simp del: entries.simps intro!: rbind_cong split: prod.split)
  qed
qed simp

lemma walk_visits:
  assumes "mounted sl fs p t" and "fits sl len p t" and "depth t \<le> n"
  shows "drop_path (walk sl n fs len f p st) = run_visits f (visits sl p t) st"
  using assms
proof (induction sl fs p t arbitrary: n st rule: mounted.induct)
  case (1 sl fs p m s)
  then obtain k where "n = Suc k" by (cases n) auto
  with 1 show ?case by (simp add: run_visits_one del: run_visits.simps)
next
  case (2 sl fs p)
  then obtain k where "n = Suc k" by (cases n) auto
  with 2 show ?case by (simp add: run_visits_one del: run_visits.simps)
next
  case (3 sl fs p s)
  then obtain k where "n = Suc k" by (cases n) auto
  with 3 show ?case by (auto simp: Let_def intro!: rbind_cong)
next
  case (4 sl fs p s es)
  then obtain k where n: "n = Suc k" by (cases n) auto
  obtain ds where ds: "opendir fs (sl p) = Some ds" "filter (\<lambda>d. d \<notin> dots) ds = map fst es" using "4.prems"(1) by auto
  have "entries (walk sl k fs len f) len (sl p) ds 0 st' = run_visits f (concat (map (\<lambda>(d, t). visits sl (sl p @ d) t) es)) st'" for st'
  proof (rule entries_visits [OF ds(2)])
    fix d t st assume dt: "(d, t) \<in> set es"
    then have "mounted sl fs (sl p @ d) t" "length (sl p @ d) < len" "fits sl len (sl p @ d) t"
      using "4.prems"(1,2) by (auto simp: list_all_iff)
    moreover have "depth t \<le> k" using depth_entries [OF _ dt] "4.prems"(3) n by blast
    ultimately show "length (sl p @ d) < len \<and> drop_path (walk sl k fs len f (sl p @ d) st) = run_visits f (visits sl (sl p @ d) t) st"
      using "4.IH" [OF dt refl] by blast
  qed
  then show ?case using n "4.prems"(1,2) ds(1) by (auto simp: Let_def intro!: rbind_cong)
qed


definition sample_fs :: fsys where
  "sample_fs = \<lparr>lstat = [''d'' \<mapsto> \<lparr>st_mode = S_IFDIR, st_size = 64\<rparr>, ''d/a'' \<mapsto> \<lparr>st_mode = S_IFREG, st_size = 5000\<rparr>,
       ''d/s'' \<mapsto> \<lparr>st_mode = S_IFDIR, st_size = 64\<rparr>, ''d/l'' \<mapsto> \<lparr>st_mode = S_IFLNK, st_size = 3\<rparr>],
     opendir = [''d/'' \<mapsto> [''.'', ''a'', ''..'', ''s'', ''l''], ''d/s/'' \<mapsto> [''.'', ''..'']]\<rparr>"

definition sample_tree :: fnode where
  "sample_tree = Folder 64 (Some [(''a'', Leaf S_IFREG 5000), (''s'', Folder 64 (Some [])), (''l'', Leaf S_IFLNK 3)])"


text \<open>The position of the last component, which is wrong for a file in the root directory.\<close>

lemma getFilenamePos_last:
  assumes "CHR ''/'' \<notin> set b"
  shows "getFilenamePos (a @ ''/'' @ b) = (if a = [] then 0 else length a + 1)"
proof -
  have "takeWhile (\<lambda>c. c \<noteq> CHR ''/'') (rev b @ [CHR ''/''] @ rev a) = rev b"
    using assms by (simp add: takeWhile_append_stop) (rule takeWhile_append_stop; auto)
  then show ?thesis by (auto simp: getFilenamePos_def Let_def)
qed

end
