(* ===== verification/TellWait.thy ===== *)
theory TellWait
  imports Prelude
begin

section \<open>Parent and child: \<^verbatim>\<open>lib/tellwait.c\<close> and \<^verbatim>\<open>ipc/tellwait.c\<close>\<close>

text \<open>
  The two implementations of \<open>TELL_WAIT\<close>, \<open>TELL_PARENT\<close>, \<open>TELL_CHILD\<close>, \<open>WAIT_PARENT\<close> and
  \<open>WAIT_CHILD\<close>, and the programs that use them.  A mechanism says what telling a process does, which
  steps a process inside its WAIT can take, and what may happen by itself (the delivery of a signal).
  The two processes of a program are lists of operations, and run interleaved.  The locale \<open>sync\<close> is the
  contract of a mechanism; the clients are proved correct inside it and in \<open>TellWaitProps\<close>.
\<close>

datatype who = Parent | Child

fun other :: "who \<Rightarrow> who" where
  "other Parent = Child"
| "other Child = Parent"

text \<open>A step inside WAIT: it goes on, has returned, or the process has called a fatal error routine.\<close>

datatype waiting = Goes_on | Returned | Dies

record 'm mechanism =
  tell :: "who \<Rightarrow> 'm \<Rightarrow> 'm"                      \<comment> \<open>the argument is the process that is told\<close>
  wait_succ :: "who \<Rightarrow> 'm \<Rightarrow> ('m \<times> waiting) list"
  self_succ :: "'m \<Rightarrow> 'm list"

subsection \<open>With signals (\<^verbatim>\<open>lib/tellwait.c\<close>)\<close>

text \<open>
  What a process has: the flag of its handler, whether \<^verbatim>\<open>SIGUSR1\<close> and \<^verbatim>\<open>SIGUSR2\<close> are blocked, whether its
  signal is pending (the parent only gets \<^verbatim>\<open>SIGUSR2\<close>, the child \<^verbatim>\<open>SIGUSR1\<close>; signals do not queue), and where it is
  in its WAIT: at the test of the flag, about to call \<^verbatim>\<open>sigsuspend\<close>, asleep in it, behind the loop, or about to
  reset the mask.
\<close>

datatype wait_pc = AtTest | Entering | Asleep | AtClear | AtRestore

record sigproc =
  sigflag :: bool
  blocked :: bool
  pending :: bool
  wpc :: wait_pc

type_synonym sigs = "who \<Rightarrow> sigproc"

definition TELL_WAIT :: sigs where
  "TELL_WAIT = (\<lambda>p. \<lparr>sigflag = False, blocked = True, pending = False, wpc = AtTest\<rparr>)"

definition sig_usr :: "sigproc \<Rightarrow> sigproc" where
  "sig_usr q = q\<lparr>sigflag := True, pending := False\<rparr>"

definition sig_tell :: "who \<Rightarrow> sigs \<Rightarrow> sigs" where
  "sig_tell p m = m(p := (m p)\<lparr>pending := True\<rparr>)"

text \<open>\<open>old\<close>: whether the mask that \<open>TELL_WAIT\<close> saved blocks the two signals.\<close>

definition sig_wait :: "bool \<Rightarrow> who \<Rightarrow> sigs \<Rightarrow> (sigs \<times> waiting) list" where
  "sig_wait old p m = (case wpc (m p) of
     AtTest \<Rightarrow> [(m(p := (m p)\<lparr>wpc := if sigflag (m p) then AtClear else Entering\<rparr>), Goes_on)]
   | Entering \<Rightarrow> [(m(p := (m p)\<lparr>wpc := Asleep\<rparr>), Goes_on)]
   | Asleep \<Rightarrow> if pending (m p) then [(m(p := (sig_usr (m p))\<lparr>wpc := AtTest\<rparr>), Goes_on)] else []
   | AtClear \<Rightarrow> [(m(p := (m p)\<lparr>sigflag := False, wpc := AtRestore\<rparr>), Goes_on)]
   | AtRestore \<Rightarrow> [(m(p := (m p)\<lparr>blocked := old, wpc := AtTest\<rparr>), Returned)])"

text \<open>A pending signal that is not blocked is delivered at any time.\<close>

definition sig_deliver :: "sigs \<Rightarrow> sigs list" where
  "sig_deliver m = concat (map (\<lambda>p. if pending (m p) \<and> \<not> blocked (m p) \<and> wpc (m p) \<noteq> Asleep
     then [m(p := sig_usr (m p))] else []) [Parent, Child])"

definition signals :: "bool \<Rightarrow> sigs mechanism" where
  "signals old = \<lparr>tell = sig_tell, wait_succ = sig_wait old, self_succ = sig_deliver\<rparr>"

subsection \<open>With pipes (\<^verbatim>\<open>ipc/tellwait.c\<close>)\<close>

text \<open>\<open>pfd1\<close> goes to the child, \<open>pfd2\<close> to the parent; both processes hold all four ends, so no end of file is read.\<close>

record pipes_state =
  pfd1 :: string
  pfd2 :: string

definition pipe_TELL_WAIT :: pipes_state where
  "pipe_TELL_WAIT = \<lparr>pfd1 = [], pfd2 = []\<rparr>"

fun pipe_tell :: "who \<Rightarrow> pipes_state \<Rightarrow> pipes_state" where
  "pipe_tell Child m = m\<lparr>pfd1 := pfd1 m @ ''p''\<rparr>"
| "pipe_tell Parent m = m\<lparr>pfd2 := pfd2 m @ ''c''\<rparr>"

fun pipe_wait :: "who \<Rightarrow> pipes_state \<Rightarrow> (pipes_state \<times> waiting) list" where
  "pipe_wait Child m = (case pfd1 m of [] \<Rightarrow> []
     | c # cs \<Rightarrow> [(m\<lparr>pfd1 := cs\<rparr>, if c \<noteq> CHR ''p'' then Dies else Returned)])"
| "pipe_wait Parent m = (case pfd2 m of [] \<Rightarrow> []
     | c # cs \<Rightarrow> [(m\<lparr>pfd2 := cs\<rparr>, if c \<noteq> CHR ''c'' then Dies else Returned)])"

definition pipes :: "pipes_state mechanism" where
  "pipes = \<lparr>tell = pipe_tell, wait_succ = pipe_wait, self_succ = \<lambda>m. []\<rparr>"

subsection \<open>Two processes\<close>

datatype 'a act = Do 'a | Tell | Wait

record ('a, 'c, 'm) duo =
  shared :: 'c
  mech :: 'm
  prog :: "who \<Rightarrow> 'a act list"
  failed :: bool

text \<open>\<open>eff p a c\<close> is what operation \<open>a\<close> of process \<open>p\<close> makes of the shared state, and whether the process goes on.\<close>

inductive duo_step :: "'m mechanism \<Rightarrow> (who \<Rightarrow> 'a \<Rightarrow> 'c \<Rightarrow> 'c \<times> bool) \<Rightarrow> ('a, 'c, 'm) duo \<Rightarrow> ('a, 'c, 'm) duo \<Rightarrow> bool"
  for K :: "'m mechanism" and eff :: "who \<Rightarrow> 'a \<Rightarrow> 'c \<Rightarrow> 'c \<times> bool" where
  step_do: "prog s p = Do a # as \<Longrightarrow> eff p a (shared s) = (c, True) \<Longrightarrow>
    duo_step K eff s (s\<lparr>shared := c, prog := (prog s)(p := as)\<rparr>)"
| step_quit: "prog s p = Do a # as \<Longrightarrow> eff p a (shared s) = (c, False) \<Longrightarrow>
    duo_step K eff s (s\<lparr>shared := c, prog := (prog s)(p := []), failed := True\<rparr>)"
| step_tell: "prog s p = Tell # as \<Longrightarrow>
    duo_step K eff s (s\<lparr>mech := tell K (other p) (mech s), prog := (prog s)(p := as)\<rparr>)"
| step_wait: "prog s p = Wait # as \<Longrightarrow> (m, Goes_on) \<in> set (wait_succ K p (mech s)) \<Longrightarrow>
    duo_step K eff s (s\<lparr>mech := m\<rparr>)"
| step_return: "prog s p = Wait # as \<Longrightarrow> (m, Returned) \<in> set (wait_succ K p (mech s)) \<Longrightarrow>
    duo_step K eff s (s\<lparr>mech := m, prog := (prog s)(p := as)\<rparr>)"
| step_dies: "prog s p = Wait # as \<Longrightarrow> (m, Dies) \<in> set (wait_succ K p (mech s)) \<Longrightarrow>
    duo_step K eff s (s\<lparr>mech := m, prog := (prog s)(p := []), failed := True\<rparr>)"
| step_self: "m \<in> set (self_succ K (mech s)) \<Longrightarrow> duo_step K eff s (s\<lparr>mech := m\<rparr>)"

inductive_cases duo_stepE: "duo_step K eff s s'"

definition stuck :: "'m mechanism \<Rightarrow> (who \<Rightarrow> 'a \<Rightarrow> 'c \<Rightarrow> 'c \<times> bool) \<Rightarrow> ('a, 'c, 'm) duo \<Rightarrow> bool" where
  "stuck K eff s \<longleftrightarrow> (\<forall>s'. \<not> duo_step K eff s s')"

abbreviation duo_start :: "'c \<Rightarrow> 'm \<Rightarrow> 'a act list \<Rightarrow> 'a act list \<Rightarrow> ('a, 'c, 'm) duo" where
  "duo_start c m ps cs \<equiv> \<lparr>shared = c, mech = m, prog = (\<lambda>p. case p of Parent \<Rightarrow> ps | Child \<Rightarrow> cs), failed = False\<rparr>"

subsection \<open>The contract of a mechanism\<close>

text \<open>
  \<open>tok m p\<close> says that process \<open>p\<close> has been told and its WAIT has not returned since.  Telling a process twice is
  not in the contract: with signals the second one may be lost.  \<open>safe m p\<close> says that the next
  WAIT of \<open>p\<close> cannot miss what it is told.
\<close>

locale sync =
  fixes K :: "'m mechanism" and good :: "'m \<Rightarrow> bool" and tok :: "'m \<Rightarrow> who \<Rightarrow> bool" and safe :: "'m \<Rightarrow> who \<Rightarrow> bool"
  assumes tell_ok: "good m \<Longrightarrow> \<not> tok m p \<Longrightarrow>
      good (tell K p m) \<and> tok (tell K p m) = (tok m)(p := True) \<and> (\<forall>q. safe m q \<longrightarrow> safe (tell K p m) q)"
    and wait_goes: "good m \<Longrightarrow> (m', Goes_on) \<in> set (wait_succ K p m) \<Longrightarrow>
      good m' \<and> tok m' = tok m \<and> (\<forall>q. safe m q \<longrightarrow> safe m' q)"
    and wait_returns: "good m \<Longrightarrow> (m', Returned) \<in> set (wait_succ K p m) \<Longrightarrow>
      tok m p \<and> good m' \<and> tok m' = (tok m)(p := False) \<and> (\<forall>q. q \<noteq> p \<longrightarrow> safe m q \<longrightarrow> safe m' q)"
    and wait_lives: "good m \<Longrightarrow> (m', Dies) \<notin> set (wait_succ K p m)"
    and self_ok: "good m \<Longrightarrow> m' \<in> set (self_succ K m) \<Longrightarrow>
      good m' \<and> tok m' = tok m \<and> (\<forall>q. safe m q \<longrightarrow> safe m' q)"
    and progress: "good m \<Longrightarrow> safe m p \<Longrightarrow> tok m p \<Longrightarrow> wait_succ K p m \<noteq> []"
begin

lemma tell_good: "good m \<Longrightarrow> \<not> tok m p \<Longrightarrow> good (tell K p m)"
  using tell_ok by blast

lemma tell_tok: "good m \<Longrightarrow> \<not> tok m p \<Longrightarrow> tok (tell K p m) = (tok m)(p := True)"
  using tell_ok by blast

text \<open>
  The steps of a program whose processes tell only a process that has not been told: what a client has to
  check is its own operations, its tells and its returns.
\<close>

lemma step_cases:
  assumes step: "duo_step K eff s s'" and g: "good (mech s)" and t: "tok (mech s) = T"
    and told: "\<And>p as. prog s p = Tell # as \<Longrightarrow> \<not> T (other p)"
  obtains
    (acts) p a as c ok where "prog s p = Do a # as" "eff p a (shared s) = (c, ok)"
      "s' = s\<lparr>shared := c, prog := (prog s)(p := if ok then as else []), failed := failed s \<or> \<not> ok\<rparr>"
  | (tells) p as m where "prog s p = Tell # as" "good m" "tok m = T(other p := True)" "\<forall>q. safe (mech s) q \<longrightarrow> safe m q"
      "s' = s\<lparr>mech := m, prog := (prog s)(p := as)\<rparr>"
  | (returns) p as m where "prog s p = Wait # as" "T p" "good m" "tok m = T(p := False)"
      "\<forall>q. q \<noteq> p \<longrightarrow> safe (mech s) q \<longrightarrow> safe m q" "s' = s\<lparr>mech := m, prog := (prog s)(p := as)\<rparr>"
  | (silent) m where "good m" "tok m = T" "\<forall>q. safe (mech s) q \<longrightarrow> safe m q" "s' = s\<lparr>mech := m\<rparr>"
  using step
proof (cases rule: duo_step.cases)
  case (step_do p a as c)
  then show ?thesis using acts [of p a as c True] by simp
next
  case (step_quit p a as c)
  then show ?thesis using acts [of p a as c False] by simp
next
  case (step_tell p as)
  then show ?thesis using tells [of p as "tell K (other p) (mech s)"] tell_ok [OF g] told t by simp
next
  case (step_wait p as m)
  then show ?thesis using silent [of m] wait_goes [OF g] t by blast
next
  case (step_return p as m)
  then show ?thesis using returns [of p as m] wait_returns [OF g, of m p] t by simp
next
  case (step_dies p as m)
  then show ?thesis using wait_lives [OF g] by blast
next
  case (step_self m)
  then show ?thesis using silent [of m] self_ok [OF g] t by blast
qed

lemma stuck_waits:
  assumes "stuck K eff s" and "good (mech s)"
  shows "prog s p = [] \<or> (\<exists>as. prog s p = Wait # as \<and> (safe (mech s) p \<longrightarrow> \<not> tok (mech s) p))"
proof (cases "prog s p")
  case (Cons a as)
  show ?thesis
  proof (cases a)
    case (Do x)
    obtain c ok where e: "eff p x (shared s) = (c, ok)" by fastforce
    have "\<exists>s'. duo_step K eff s s'"
      using duo_step.step_do [of s p x as eff c K] duo_step.step_quit [of s p x as eff c K] Cons Do e by (cases ok) auto
    with assms(1) show ?thesis by (simp add: stuck_def)
  next
    case Tell
    with Cons assms(1) show ?thesis using duo_step.step_tell [of s p as K eff] by (auto simp: stuck_def)
  next
    case Wait
    have "wait_succ K p (mech s) = []"
    proof (rule ccontr)
      assume "wait_succ K p (mech s) \<noteq> []"
      then obtain m w where "(m, w) \<in> set (wait_succ K p (mech s))" by (metis list.set_intros(1) neq_Nil_conv surj_pair)
      then have "\<exists>s'. duo_step K eff s s'"
        using Cons Wait duo_step.step_wait [of s p as m K eff] duo_step.step_return [of s p as m K eff]
          duo_step.step_dies [of s p as m K eff] by (cases w) auto
      with assms(1) show False by (simp add: stuck_def)
    qed
    with Wait Cons show ?thesis using progress [OF assms(2), of p] by auto
  qed
qed simp

end

subsection \<open>Both mechanisms keep it\<close>

definition sig_good :: "sigs \<Rightarrow> bool" where
  "sig_good m \<longleftrightarrow> (\<forall>p. \<not> (sigflag (m p) \<and> pending (m p)) \<and> (wpc (m p) = AtClear \<longrightarrow> sigflag (m p)) \<and>
     (wpc (m p) = AtRestore \<longrightarrow> \<not> sigflag (m p) \<and> \<not> pending (m p)) \<and>
     (blocked (m p) \<and> sigflag (m p) \<longrightarrow> wpc (m p) \<in> {AtTest, AtClear}))"

definition sig_tok :: "sigs \<Rightarrow> who \<Rightarrow> bool" where
  "sig_tok m p \<longleftrightarrow> sigflag (m p) \<or> pending (m p) \<or> wpc (m p) = AtRestore"

definition sig_safe :: "sigs \<Rightarrow> who \<Rightarrow> bool" where
  "sig_safe m p \<longleftrightarrow> blocked (m p)"

definition pipe_good :: "pipes_state \<Rightarrow> bool" where
  "pipe_good m \<longleftrightarrow> pfd1 m \<in> {[], ''p''} \<and> pfd2 m \<in> {[], ''c''}"

fun pipe_tok :: "pipes_state \<Rightarrow> who \<Rightarrow> bool" where
  "pipe_tok m Child \<longleftrightarrow> pfd1 m \<noteq> []"
| "pipe_tok m Parent \<longleftrightarrow> pfd2 m \<noteq> []"

lemmas sig_defs = signals_def sig_good_def sig_tok_def sig_safe_def sig_tell_def sig_wait_def sig_deliver_def sig_usr_def

lemma sig_tok_upd:
  "\<not> sigflag q \<and> \<not> pending q \<and> wpc q \<noteq> AtRestore \<Longrightarrow> sig_tok (m(p := q)) = (sig_tok m)(p := False)"
  "sigflag q \<or> pending q \<or> wpc q = AtRestore \<Longrightarrow> sig_tok (m(p := q)) = (sig_tok m)(p := True)"
  by (auto simp: sig_tok_def fun_eq_iff)

lemma sig_tok_same: "sig_tok m p = b \<Longrightarrow> (sig_tok m)(p := b) = sig_tok m"
  by auto

lemma sig_waits:
  assumes "sig_good m" and "(m', w) \<in> set (sig_wait old p m)"
  shows "sig_good m' \<and> w \<noteq> Dies \<and> sig_tok m' = (if w = Returned then (sig_tok m)(p := False) else sig_tok m) \<and>
    (w = Returned \<longrightarrow> sig_tok m p) \<and> (\<forall>q. w = Goes_on \<or> q \<noteq> p \<longrightarrow> sig_safe m q \<longrightarrow> sig_safe m' q)"
  using assms by (cases "wpc (m p)") (auto simp: sig_defs fun_eq_iff split: if_splits)

lemma sig_delivered:
  assumes "sig_good m" and "m' \<in> set (sig_deliver m)"
  shows "sig_good m' \<and> sig_tok m' = sig_tok m \<and> (\<forall>q. sig_safe m q \<longrightarrow> sig_safe m' q)"
proof -
  from assms(2) obtain p where "pending (m p)" "\<not> blocked (m p)" "m' = m(p := sig_usr (m p))"
    by (auto simp: sig_deliver_def split: if_splits)
  with assms(1) show ?thesis by (auto simp: sig_defs fun_eq_iff)
qed

interpretation sg: sync "signals old" sig_good sig_tok sig_safe for old
proof
  fix m m' :: sigs and p :: who
  assume g: "sig_good m"
  show "\<not> sig_tok m p \<Longrightarrow> sig_good (tell (signals old) p m) \<and> sig_tok (tell (signals old) p m) = (sig_tok m)(p := True) \<and>
      (\<forall>q. sig_safe m q \<longrightarrow> sig_safe (tell (signals old) p m) q)"
    using g by (auto simp: sig_defs fun_eq_iff)
  show "(m', Goes_on) \<in> set (wait_succ (signals old) p m) \<Longrightarrow>
      sig_good m' \<and> sig_tok m' = sig_tok m \<and> (\<forall>q. sig_safe m q \<longrightarrow> sig_safe m' q)"
    using sig_waits [OF g, of m' Goes_on old p] by (auto simp: signals_def)
  show "(m', Returned) \<in> set (wait_succ (signals old) p m) \<Longrightarrow> sig_tok m p \<and> sig_good m' \<and>
      sig_tok m' = (sig_tok m)(p := False) \<and> (\<forall>q. q \<noteq> p \<longrightarrow> sig_safe m q \<longrightarrow> sig_safe m' q)"
    using sig_waits [OF g, of m' Returned old p] by (auto simp: signals_def)
  show "(m', Dies) \<notin> set (wait_succ (signals old) p m)"
    using sig_waits [OF g, of m' Dies old p] by (auto simp: signals_def)
  show "m' \<in> set (self_succ (signals old) m) \<Longrightarrow> sig_good m' \<and> sig_tok m' = sig_tok m \<and> (\<forall>q. sig_safe m q \<longrightarrow> sig_safe m' q)"
    using sig_delivered [OF g, of m'] by (simp add: signals_def)
  show "sig_safe m p \<Longrightarrow> sig_tok m p \<Longrightarrow> wait_succ (signals old) p m \<noteq> []"
    using g by (auto simp: sig_defs split: wait_pc.splits)
qed

interpretation pp: sync pipes pipe_good pipe_tok "\<lambda>m p. True"
proof
  fix m m' :: pipes_state and p :: who
  assume g: "pipe_good m"
  show "\<not> pipe_tok m p \<Longrightarrow> pipe_good (tell pipes p m) \<and> pipe_tok (tell pipes p m) = (pipe_tok m)(p := True) \<and>
      (\<forall>q. True \<longrightarrow> True)"
    using g by (cases p) (auto simp: pipes_def pipe_good_def fun_eq_iff elim: pipe_tok.elims)
  show "(m', Returned) \<in> set (wait_succ pipes p m) \<Longrightarrow> pipe_tok m p \<and> pipe_good m' \<and> pipe_tok m' = (pipe_tok m)(p := False) \<and>
      (\<forall>q. q \<noteq> p \<longrightarrow> True \<longrightarrow> True)"
    using g by (cases p) (auto simp: pipes_def pipe_good_def fun_eq_iff elim: pipe_tok.elims)
  show "(m', Goes_on) \<in> set (wait_succ pipes p m) \<Longrightarrow> pipe_good m' \<and> pipe_tok m' = pipe_tok m \<and> (\<forall>q. True \<longrightarrow> True)"
    using g by (cases p) (auto simp: pipes_def pipe_good_def)
  show "(m', Dies) \<notin> set (wait_succ pipes p m)"
    using g by (cases p) (auto simp: pipes_def pipe_good_def)
  show "True \<Longrightarrow> pipe_tok m p \<Longrightarrow> wait_succ pipes p m \<noteq> []"
    using g by (cases p) (auto simp: pipes_def pipe_good_def)
qed (simp add: pipes_def)

end
