(* ===== verification/TellWaitProps.thy ===== *)
theory TellWaitProps
  imports TellWait "HOL-Library.Sublist"
begin

section \<open>The programs that use TELL and WAIT\<close>

text \<open>
  \<^verbatim>\<open>proc/tellwait1.c\<close> and \<^verbatim>\<open>proc/tellwait2.c\<close> write a text character by character from both processes;
  \<^verbatim>\<open>advio/devzero.c\<close> lets them count in turn in shared memory.  Each is proved inside the contract of
  \<open>TellWait\<close>, so for signals and for pipes; the signals keep a part of it only.
\<close>

subsection \<open>Output in order\<close>

definition charatatime :: "string \<Rightarrow> char act list" where
  "charatatime str = map Do str"

definition parent_text :: string where
  "parent_text = ''output from parent'' @ [CHR 10]"

definition child_text :: string where
  "child_text = ''output from child'' @ [CHR 10]"

definition put_chr :: "who \<Rightarrow> char \<Rightarrow> string \<Rightarrow> string \<times> bool" where
  "put_chr p c out = (out @ [c], True)"

definition tellwait1_main :: "'m \<Rightarrow> (char, string, 'm) duo" where
  "tellwait1_main m = duo_start [] m (charatatime parent_text) (charatatime child_text)"

definition tellwait2_main :: "'m \<Rightarrow> (char, string, 'm) duo" where
  "tellwait2_main m = duo_start [] m (charatatime parent_text @ [Tell]) (Wait # charatatime child_text)"

abbreviation reach :: "'m mechanism \<Rightarrow> (who \<Rightarrow> 'a \<Rightarrow> 'c \<Rightarrow> 'c \<times> bool) \<Rightarrow> ('a, 'c, 'm) duo \<Rightarrow> ('a, 'c, 'm) duo \<Rightarrow> bool" where
  "reach K eff \<equiv> (duo_step K eff)\<^sup>*\<^sup>*"

lemma charatatime_Cons: "charatatime u = a # as \<longleftrightarrow> (\<exists>c v. u = c # v \<and> a = Do c \<and> as = charatatime v)"
  by (cases u) (auto simp: charatatime_def)

lemma charatatime_Nil [simp]: "charatatime [] = []" "charatatime u = [] \<longleftrightarrow> u = []" "[] = charatatime u \<longleftrightarrow> u = []"
  by (simp_all add: charatatime_def)

lemma charatatime_eq [simp]: "charatatime u = charatatime v \<longleftrightarrow> u = v"
  by (auto simp: charatatime_def dest: map_injective intro: injI)

lemma eq_iff_swap: "(x = y \<longleftrightarrow> P) \<Longrightarrow> (y = x \<longleftrightarrow> P)"
  by auto

lemma charatatime_Tell: "charatatime u @ [Tell] = a # as \<longleftrightarrow>
    u = [] \<and> a = Tell \<and> as = [] \<or> (\<exists>c v. u = c # v \<and> a = Do c \<and> as = charatatime v @ [Tell])"
  by (cases u) (auto simp: charatatime_def)

lemmas text_simps = charatatime_Cons charatatime_Tell charatatime_Cons [THEN eq_iff_swap] charatatime_Tell [THEN eq_iff_swap]

text \<open>What the first program writes is any interleaving of the two texts.\<close>

lemma tellwait1_shuffles:
  assumes "reach pipes put_chr s s'" and "prog s Parent = charatatime xs" and "prog s Child = charatatime ys"
    and "prog s' Parent = []" and "prog s' Child = []"
  shows "\<exists>zs \<in> shuffles xs ys. shared s' = shared s @ zs"
  using assms
proof (induction arbitrary: xs ys rule: converse_rtranclp_induct)
  case base
  then show ?case by auto
next
  case (step s t)
  from step.hyps(1) obtain p c v where p: "prog s p = Do c # charatatime v" "prog t = (prog s)(p := charatatime v)"
    "shared t = shared s @ [c]"
    using step.prems(1,2)
    by cases (auto simp: put_chr_def pipes_def charatatime_Cons split: who.splits, (metis charatatime_Cons act.distinct act.inject(1) who.exhaust)+)
  show ?case
  proof (cases p)
    case Parent
    with p step.prems have "xs = c # v" by (auto simp: text_simps)
    with Parent p step.IH [of v ys] step.prems show ?thesis by (auto intro: Cons_in_shuffles_leftI)
  next
    case Child
    with p step.prems have "ys = c # v" by (auto simp: text_simps)
    with Child p step.IH [of xs v] step.prems show ?thesis by (auto intro: Cons_in_shuffles_rightI)
  qed
qed

context sync
begin

definition ordered :: "(char, string, 'm) duo \<Rightarrow> bool" where
  "ordered s \<longleftrightarrow> good (mech s) \<and>
     ((\<exists>u. prog s Parent = charatatime u @ [Tell] \<and> prog s Child = Wait # charatatime child_text \<and>
        shared s @ u = parent_text \<and> \<not> tok (mech s) Parent \<and> \<not> tok (mech s) Child \<and> safe (mech s) Child) \<or>
      prog s Parent = [] \<and> prog s Child = Wait # charatatime child_text \<and> shared s = parent_text \<and>
        \<not> tok (mech s) Parent \<and> tok (mech s) Child \<and> safe (mech s) Child \<or>
      (\<exists>u. prog s Parent = [] \<and> prog s Child = charatatime u \<and> shared s @ u = parent_text @ child_text \<and>
        \<not> tok (mech s) Parent \<and> \<not> tok (mech s) Child))"

lemma ordered_step:
  assumes "ordered s" and "duo_step K put_chr s s'"
  shows "ordered s'"
proof -
  have g: "good (mech s)" using assms(1) by (simp add: ordered_def)
  show ?thesis
  proof (rule step_cases [OF assms(2) g refl])
    show "\<not> tok (mech s) (other p)" if "prog s p = Tell # as" for p as
      using assms(1) that by (cases p) (auto simp: ordered_def text_simps)
  next
    fix p a as c ok
    assume "prog s p = Do a # as" "put_chr p a (shared s) = (c, ok)"
      "s' = s\<lparr>shared := c, prog := (prog s)(p := if ok then as else []), failed := failed s \<or> \<not> ok\<rparr>"
    then show "ordered s'"
      using assms(1) by (cases p) (auto simp: ordered_def put_chr_def text_simps)
  next
    fix p as m
    assume "prog s p = Tell # as" "good m" "tok m = (tok (mech s))(other p := True)"
      "\<forall>q. safe (mech s) q \<longrightarrow> safe m q" "s' = s\<lparr>mech := m, prog := (prog s)(p := as)\<rparr>"
    then show "ordered s'"
      using assms(1) by (cases p) (auto simp: ordered_def text_simps)
  next
    fix p as m
    assume "prog s p = Wait # as" "tok (mech s) p" "good m" "tok m = (tok (mech s))(p := False)"
      "\<forall>q. q \<noteq> p \<longrightarrow> safe (mech s) q \<longrightarrow> safe m q" "s' = s\<lparr>mech := m, prog := (prog s)(p := as)\<rparr>"
    then show "ordered s'"
      using assms(1) by (cases p) (auto simp: ordered_def text_simps)
  next
    fix m
    assume "good m" "tok m = tok (mech s)" "\<forall>q. safe (mech s) q \<longrightarrow> safe m q" "s' = s\<lparr>mech := m\<rparr>"
    then show "ordered s'" using assms(1) by (auto simp: ordered_def)
  qed
qed

lemma tellwait2_ordered:
  assumes "good m" and "tok m = (\<lambda>p. False)" and "safe m Child" and "reach K put_chr (tellwait2_main m) s"
  shows "prefix (shared s) (parent_text @ child_text) \<and>
    (stuck K put_chr s \<longrightarrow> shared s = parent_text @ child_text)"
proof -
  have "ordered (tellwait2_main m)"
    using assms(1-3) by (auto simp: ordered_def tellwait2_main_def)
  with assms(4) have o: "ordered s"
    by (induction rule: rtranclp_induct) (auto intro: ordered_step)
  have "shared s = parent_text @ child_text" if "stuck K put_chr s"
  proof -
    have g: "good (mech s)" using o by (simp add: ordered_def)
    from stuck_waits [OF that g, of Parent] stuck_waits [OF that g, of Child] o
    show ?thesis by (auto simp: ordered_def text_simps)
  qed
  moreover have "prefix (shared s) (parent_text @ child_text)"
    using o by (auto simp: ordered_def prefix_def) (metis append.assoc)+
  ultimately show ?thesis by blast
qed

end

text \<open>
  C22: \<^verbatim>\<open>proc/tellwait2.c\<close>, with the signals of \<^verbatim>\<open>lib/tellwait.c\<close> (whatever the mask was before) and with the
  pipes of \<^verbatim>\<open>ipc/tellwait.c\<close>, under every interleaving: the output is always a beginning of the parent's text
  followed by the child's, and when nothing can go on any more all of it has been written.
\<close>

theorem tellwait2_orders_output:
  "(\<forall>s. reach (signals old) put_chr (tellwait2_main TELL_WAIT) s \<longrightarrow>
      prefix (shared s) (parent_text @ child_text) \<and>
      (stuck (signals old) put_chr s \<longrightarrow> shared s = parent_text @ child_text)) \<and>
   (\<forall>s. reach pipes put_chr (tellwait2_main pipe_TELL_WAIT) s \<longrightarrow>
      prefix (shared s) (parent_text @ child_text) \<and>
      (stuck pipes put_chr s \<longrightarrow> shared s = parent_text @ child_text))"
proof -
  have "sig_good TELL_WAIT" "sig_tok TELL_WAIT = (\<lambda>p. False)" "sig_safe TELL_WAIT Child"
    by (auto simp: TELL_WAIT_def sig_defs fun_eq_iff)
  moreover have "pipe_good pipe_TELL_WAIT" by (simp add: pipe_good_def pipe_TELL_WAIT_def)
  moreover have "pipe_tok pipe_TELL_WAIT p = False" for p by (cases p) (simp_all add: pipe_TELL_WAIT_def)
  then have "pipe_tok pipe_TELL_WAIT = (\<lambda>p. False)" by (simp add: fun_eq_iff)
  ultimately show ?thesis
    using sg.tellwait2_ordered [of TELL_WAIT old] pp.tellwait2_ordered [of pipe_TELL_WAIT] by blast
qed


theorem tellwait2_orders_output_witness:
  "\<exists>s. reach (signals False) put_chr (tellwait2_main TELL_WAIT) s \<and> shared s = ''o'' \<and> prefix ''o'' (parent_text @ child_text)"
proof -
  let ?m = "tellwait2_main TELL_WAIT"
  let ?s = "?m\<lparr>shared := ''o'', prog := (prog ?m)(Parent := charatatime (tl parent_text) @ [Tell])\<rparr>"
  have "duo_step (signals False) put_chr ?m ?s"
    by (rule step_do [where p = Parent and a = "CHR ''o''"])
      (auto simp: tellwait2_main_def put_chr_def parent_text_def charatatime_def)
  then have r: "reach (signals False) put_chr ?m ?s" by (rule r_into_rtranclp)
  have sh: "shared ?s = ''o''" by simp
  have "prefix (shared ?s) (parent_text @ child_text)"
    using tellwait2_orders_output [of False] r by blast
  then have "prefix ''o'' (parent_text @ child_text)" unfolding sh .
  then show ?thesis using r sh by blast
qed

subsection \<open>Counting in shared memory\<close>

text \<open>
  The increment of \<^verbatim>\<open>update\<close> is a load and a store, with a register of each process in between; \<open>Store i\<close> is also
  the test that the old value was \<open>i\<close>.
\<close>

definition NLOOPS :: nat where
  "NLOOPS = 1000"

datatype upd = Load | Store nat

record shm =
  area :: int
  reg :: "who \<Rightarrow> int"

fun update_eff :: "who \<Rightarrow> upd \<Rightarrow> shm \<Rightarrow> shm \<times> bool" where
  "update_eff p Load c = (c\<lparr>reg := (reg c)(p := area c)\<rparr>, True)"
| "update_eff p (Store i) c = (c\<lparr>area := reg c p + 1\<rparr>, reg c p = int i)"

function parent_loop :: "nat \<Rightarrow> upd act list" where
  "parent_loop i = (if i < NLOOPS then [Do Load, Do (Store i), Tell, Wait] @ parent_loop (i + 2) else [])"
  by pat_completeness auto
termination by (relation "measure (\<lambda>i. NLOOPS - i)") auto

function child_loop :: "nat \<Rightarrow> upd act list" where
  "child_loop i = (if i < NLOOPS + 1 then [Wait, Do Load, Do (Store i), Tell] @ child_loop (i + 2) else [])"
  by pat_completeness auto
termination by (relation "measure (\<lambda>i. NLOOPS + 1 - i)") auto

definition devzero_main :: "'m \<Rightarrow> (upd, shm, 'm) duo" where
  "devzero_main m = duo_start \<lparr>area = 0, reg = \<lambda>p. 0\<rparr> m (parent_loop 0) (child_loop 1)"

declare parent_loop.simps [simp del] child_loop.simps [simp del]

lemma parent_loop_unfold: "i < NLOOPS \<Longrightarrow> parent_loop i = Do Load # Do (Store i) # Tell # Wait # parent_loop (i + 2)"
  by (simp add: parent_loop.simps [of i])

lemma child_loop_unfold: "i < NLOOPS \<Longrightarrow> child_loop (Suc i) = Wait # Do Load # Do (Store (Suc i)) # Tell # child_loop (Suc (i + 2))"
  by (simp add: child_loop.simps [of "Suc i"])

lemma loops_end: "NLOOPS \<le> i \<Longrightarrow> parent_loop i = [] \<and> child_loop (Suc i) = []"
  by (simp add: parent_loop.simps [of i] child_loop.simps [of "Suc i"])

text \<open>Where the two processes are: the parent is at the start of its round \<open>i\<close>, or in it (the phases are numbered in order).\<close>

definition phase :: "nat \<Rightarrow> nat \<Rightarrow> upd act list \<times> upd act list" where
  "phase i k =
    (if k = 0 then (parent_loop i, child_loop (Suc i))
     else if k = 1 then (Do (Store i) # Tell # Wait # parent_loop (i + 2), child_loop (Suc i))
     else if k = 2 then (Tell # Wait # parent_loop (i + 2), child_loop (Suc i))
     else if k = 3 then (Wait # parent_loop (i + 2), child_loop (Suc i))
     else if k = 4 then (Wait # parent_loop (i + 2), Do Load # Do (Store (Suc i)) # Tell # child_loop (Suc (i + 2)))
     else if k = 5 then (Wait # parent_loop (i + 2), Do (Store (Suc i)) # Tell # child_loop (Suc (i + 2)))
     else if k = 6 then (Wait # parent_loop (i + 2), Tell # child_loop (Suc (i + 2)))
     else (Wait # parent_loop (i + 2), child_loop (Suc (i + 2))))"

definition at_phase :: "nat \<Rightarrow> nat \<Rightarrow> (upd, shm, 'm) duo \<Rightarrow> bool" where
  "at_phase i k s \<longleftrightarrow> (prog s Parent, prog s Child) = phase i k \<and> \<not> failed s \<and>
     area (shared s) = int i + (if k < 2 then 0 else if k < 6 then 1 else 2) \<and>
     (k = 1 \<longrightarrow> reg (shared s) Parent = int i) \<and> (k = 5 \<longrightarrow> reg (shared s) Child = int i + 1)"

text \<open>The loops as patterns, in both directions.\<close>

lemma parent_loop_eq:
  "parent_loop i = a # as \<longleftrightarrow> i < NLOOPS \<and> a = Do Load \<and> as = Do (Store i) # Tell # Wait # parent_loop (i + 2)"
  "parent_loop i = [] \<longleftrightarrow> NLOOPS \<le> i"
  by (auto simp: parent_loop.simps [of i])

lemma child_loop_eq:
  "child_loop (Suc i) = a # as \<longleftrightarrow>
     i < NLOOPS \<and> a = Wait \<and> as = Do Load # Do (Store (Suc i)) # Tell # child_loop (Suc (i + 2))"
  "child_loop (Suc i) = [] \<longleftrightarrow> NLOOPS \<le> i"
  by (auto simp: child_loop.simps [of "Suc i"])

lemmas loop_eqs = parent_loop_eq child_loop_eq parent_loop_eq [THEN eq_iff_swap] child_loop_eq [THEN eq_iff_swap]

lemma below_8: "(k::nat) < 8 \<longleftrightarrow> k \<in> {0, 1, 2, 3, 4, 5, 6, 7}"
  by auto

text \<open>One step of a process in phase \<open>k\<close>.\<close>

lemma at_phase_rows:
  "at_phase i 0 s \<longleftrightarrow> prog s Parent = parent_loop i \<and> prog s Child = child_loop (Suc i) \<and> \<not> failed s \<and> area (shared s) = int i"
  "at_phase i (Suc 0) s \<longleftrightarrow> prog s Parent = Do (Store i) # Tell # Wait # parent_loop (i + 2) \<and> prog s Child = child_loop (Suc i) \<and>
     \<not> failed s \<and> area (shared s) = int i \<and> reg (shared s) Parent = int i"
  "at_phase i 2 s \<longleftrightarrow> prog s Parent = Tell # Wait # parent_loop (i + 2) \<and> prog s Child = child_loop (Suc i) \<and>
     \<not> failed s \<and> area (shared s) = int i + 1"
  "at_phase i 3 s \<longleftrightarrow> prog s Parent = Wait # parent_loop (i + 2) \<and> prog s Child = child_loop (Suc i) \<and>
     \<not> failed s \<and> area (shared s) = int i + 1"
  "at_phase i 4 s \<longleftrightarrow> prog s Parent = Wait # parent_loop (i + 2) \<and>
     prog s Child = Do Load # Do (Store (Suc i)) # Tell # child_loop (Suc (i + 2)) \<and> \<not> failed s \<and> area (shared s) = int i + 1"
  "at_phase i 5 s \<longleftrightarrow> prog s Parent = Wait # parent_loop (i + 2) \<and> prog s Child = Do (Store (Suc i)) # Tell # child_loop (Suc (i + 2)) \<and>
     \<not> failed s \<and> area (shared s) = int i + 1 \<and> reg (shared s) Child = int i + 1"
  "at_phase i 6 s \<longleftrightarrow> prog s Parent = Wait # parent_loop (i + 2) \<and> prog s Child = Tell # child_loop (Suc (i + 2)) \<and>
     \<not> failed s \<and> area (shared s) = int i + 2"
  "at_phase i 7 s \<longleftrightarrow> prog s Parent = Wait # parent_loop (i + 2) \<and> prog s Child = child_loop (Suc (i + 2)) \<and>
     \<not> failed s \<and> area (shared s) = int i + 2"
  by (simp_all add: at_phase_def phase_def)

lemma phase_do:
  assumes "at_phase i k s" and "k < 8" and "prog s p = Do a # as" and "update_eff p a (shared s) = (c, ok)"
  shows "ok \<and> k \<in> {0, 1, 4, 5} \<and> (\<forall>k'. k' = Suc k \<longrightarrow> at_phase i k' (s\<lparr>shared := c, prog := (prog s)(p := as)\<rparr>))"
  using assms unfolding below_8
  by (elim insertE emptyE; cases p)
    (auto simp: at_phase_rows loop_eqs numeral_2_eq_2 [symmetric])

lemma phase_tell:
  assumes "at_phase i k s" and "k < 8" and "prog s p = Tell # as"
  shows "(k = 2 \<and> p = Parent \<or> k = 6 \<and> p = Child) \<and>
    (\<forall>k'. k' = Suc k \<longrightarrow> at_phase i k' (s\<lparr>mech := m, prog := (prog s)(p := as)\<rparr>))"
  using assms unfolding below_8
  by (elim insertE emptyE; cases p) (auto simp: at_phase_rows loop_eqs)

lemma phase_return:
  assumes "at_phase i k s" and "prog s p = Wait # as" and "p = Child \<and> k = 3 \<or> p = Parent \<and> k = 7"
  shows "at_phase (if k = 3 then i else i + 2) (if k = 3 then 4 else 0) (s\<lparr>mech := m, prog := (prog s)(p := as)\<rparr>)"
  using assms by (auto simp: at_phase_rows loop_eqs)

lemma at_phase_mech: "at_phase i k (s\<lparr>mech := m\<rparr>) = at_phase i k s"
  by (simp add: at_phase_def)

lemma even_below: "even i \<Longrightarrow> i < NLOOPS \<Longrightarrow> i + 2 < NLOOPS \<or> i + 2 = NLOOPS"
  unfolding NLOOPS_def by presburger

definition count_inv :: "bool \<Rightarrow> bool \<Rightarrow> (upd, shm, 'm) duo \<Rightarrow> bool" where
  "count_inv tp tc s \<longleftrightarrow> (\<exists>i k. at_phase i k s \<and> k < 8 \<and> even i \<and> (i < NLOOPS \<or> i = NLOOPS \<and> k = 0) \<and>
     (tc \<longleftrightarrow> k = 3) \<and> (tp \<longleftrightarrow> k = 7))"

lemma count_inv_do:
  assumes "count_inv tp tc s" and "prog s p = Do a # as" and "update_eff p a (shared s) = (c, ok)"
  shows "ok \<and> count_inv tp tc (s\<lparr>shared := c, prog := (prog s)(p := as)\<rparr>)"
proof -
  from assms(1) obtain i k where ik: "at_phase i k s" "k < 8" "even i" "i < NLOOPS \<or> i = NLOOPS \<and> k = 0"
    "tc \<longleftrightarrow> k = 3" "tp \<longleftrightarrow> k = 7" by (auto simp: count_inv_def)
  have k: "ok" "k \<in> {0, 1, 4, 5}" and at: "at_phase i (Suc k) (s\<lparr>shared := c, prog := (prog s)(p := as)\<rparr>)"
    using phase_do [OF ik(1,2) assms(2,3)] by auto
  have "i < NLOOPS"
    using ik(1,4) assms(2) by (cases p) (auto simp: at_phase_rows loop_eqs)
  with at ik k show ?thesis unfolding count_inv_def by (intro conjI exI [of _ i] exI [of _ "Suc k"]) auto
qed

lemma count_inv_tell:
  assumes "count_inv tp tc s" and "prog s p = Tell # as"
  shows "\<not> (if p = Parent then tc else tp)"
    and "count_inv (tp \<or> p = Child) (tc \<or> p = Parent) (s\<lparr>mech := m, prog := (prog s)(p := as)\<rparr>)"
proof -
  from assms(1) obtain i k where ik: "at_phase i k s" "k < 8" "even i" "i < NLOOPS \<or> i = NLOOPS \<and> k = 0"
    "tc \<longleftrightarrow> k = 3" "tp \<longleftrightarrow> k = 7" by (auto simp: count_inv_def)
  have k: "k = 2 \<and> p = Parent \<or> k = 6 \<and> p = Child" and at: "at_phase i (Suc k) (s\<lparr>mech := m, prog := (prog s)(p := as)\<rparr>)"
    using phase_tell [OF ik(1,2) assms(2), of m] by auto
  show "\<not> (if p = Parent then tc else tp)" using k ik by auto
  show "count_inv (tp \<or> p = Child) (tc \<or> p = Parent) (s\<lparr>mech := m, prog := (prog s)(p := as)\<rparr>)"
    unfolding count_inv_def using at k ik by (intro exI [of _ i] exI [of _ "Suc k"]) auto
qed

lemma count_inv_return:
  assumes "count_inv tp tc s" and "prog s p = Wait # as" and "if p = Parent then tp else tc"
  shows "count_inv (tp \<and> p \<noteq> Parent) (tc \<and> p \<noteq> Child) (s\<lparr>mech := m, prog := (prog s)(p := as)\<rparr>)"
proof -
  from assms(1) obtain i k where ik: "at_phase i k s" "k < 8" "even i" "i < NLOOPS \<or> i = NLOOPS \<and> k = 0"
    "tc \<longleftrightarrow> k = 3" "tp \<longleftrightarrow> k = 7" by (auto simp: count_inv_def)
  have k: "p = Child \<and> k = 3 \<or> p = Parent \<and> k = 7" using assms(3) ik by (cases p) auto
  have at: "at_phase (if k = 3 then i else i + 2) (if k = 3 then 4 else 0) (s\<lparr>mech := m, prog := (prog s)(p := as)\<rparr>)"
    using phase_return [OF ik(1) assms(2) k] .
  show ?thesis unfolding count_inv_def
    using at k ik even_below [of i]
    by (intro exI [of _ "if k = 3 then i else i + 2"] exI [of _ "if k = 3 then 4 else 0"]) auto
qed

context sync
begin

definition counting :: "(upd, shm, 'm) duo \<Rightarrow> bool" where
  "counting s \<longleftrightarrow> good (mech s) \<and> count_inv (tok (mech s) Parent) (tok (mech s) Child) s"

lemma counting_step:
  assumes c: "counting s" and "duo_step K update_eff s s'"
  shows "counting s'"
proof -
  have g: "good (mech s)" and i: "count_inv (tok (mech s) Parent) (tok (mech s) Child) s"
    using c by (auto simp: counting_def)
  show ?thesis
  proof (rule step_cases [OF assms(2) g refl])
    show "\<not> tok (mech s) (other p)" if "prog s p = Tell # as" for p as
      using count_inv_tell(1) [OF i that] by (cases p) auto
  next
    fix p a as c' ok
    assume p: "prog s p = Do a # as" "update_eff p a (shared s) = (c', ok)"
      and s': "s' = s\<lparr>shared := c', prog := (prog s)(p := if ok then as else []), failed := failed s \<or> \<not> ok\<rparr>"
    from count_inv_do [OF i p] have "ok" "count_inv (tok (mech s) Parent) (tok (mech s) Child) (s\<lparr>shared := c', prog := (prog s)(p := as)\<rparr>)"
      by auto
    then show "counting s'" using g s' by (simp add: counting_def count_inv_def at_phase_def)
  next
    fix p as m
    assume "prog s p = Tell # as" "good m" "tok m = (tok (mech s))(other p := True)" "s' = s\<lparr>mech := m, prog := (prog s)(p := as)\<rparr>"
    then show "counting s'" using count_inv_tell(2) [OF i, of p as m] by (cases p) (auto simp: counting_def)
  next
    fix p as m
    assume "prog s p = Wait # as" "tok (mech s) p" "good m" "tok m = (tok (mech s))(p := False)"
      "s' = s\<lparr>mech := m, prog := (prog s)(p := as)\<rparr>"
    then show "counting s'" using count_inv_return [OF i, of p as m] by (cases p) (auto simp: counting_def)
  next
    fix m
    assume "good m" "tok m = tok (mech s)" "s' = s\<lparr>mech := m\<rparr>"
    then show "counting s'" using i by (simp add: counting_def count_inv_def at_phase_mech)
  qed
qed

lemma devzero_counting:
  assumes "good m" and "\<not> tok m Parent" and "\<not> tok m Child" and "reach K update_eff (devzero_main m) s"
  shows "counting s"
proof -
  have "at_phase 0 0 (devzero_main m)" by (simp add: at_phase_rows devzero_main_def)
  then have "counting (devzero_main m)"
    using assms(1-3) unfolding counting_def count_inv_def
    by (intro conjI exI [of _ 0]) (auto simp: devzero_main_def NLOOPS_def)
  with assms(4) show ?thesis by (induction rule: rtranclp_induct) (auto intro: counting_step)
qed

text \<open>When both processes are safe, they stop only at the end.\<close>

lemma counting_stuck:
  assumes c: "counting s" and st: "stuck K update_eff s" and safe: "safe (mech s) Parent" "safe (mech s) Child"
  shows "prog s Parent = [] \<and> prog s Child = [] \<and> area (shared s) = int NLOOPS"
proof -
  have g: "good (mech s)" and "count_inv (tok (mech s) Parent) (tok (mech s) Child) s"
    using c by (auto simp: counting_def)
  then obtain i k where ik: "at_phase i k s" "k < 8" "i < NLOOPS \<or> i = NLOOPS \<and> k = 0"
    "tok (mech s) Child \<longleftrightarrow> k = 3" "tok (mech s) Parent \<longleftrightarrow> k = 7" by (auto simp: count_inv_def)
  have w: "prog s Parent = [] \<or> (\<exists>as. prog s Parent = Wait # as) \<and> k \<noteq> 7"
    "prog s Child = [] \<or> (\<exists>as. prog s Child = Wait # as) \<and> k \<noteq> 3"
    using stuck_waits [OF st g] safe ik by auto
  show ?thesis
    using ik(1-3) w unfolding below_8 by (elim insertE emptyE) (auto simp: at_phase_rows loop_eqs)
qed

end

text \<open>With pipes every step uses up an operation, so a run has at most 4,000 steps.\<close>

definition ops_left :: "('a, 'c, 'm) duo \<Rightarrow> nat" where
  "ops_left s = length (prog s Parent) + length (prog s Child)"

lemma pipe_step_shortens: "duo_step pipes eff s s' \<Longrightarrow> ops_left s' < ops_left s"
proof (induction rule: duo_step.induct)
  case (step_do s p a as c)
  then show ?case by (cases p) (auto simp: ops_left_def)
next
  case (step_quit s p a as c)
  then show ?case by (cases p) (auto simp: ops_left_def)
next
  case (step_tell s p as)
  then show ?case by (cases p) (auto simp: ops_left_def)
next
  case (step_wait s p as m)
  then show ?case by (cases p) (auto simp: pipes_def split: list.splits if_splits)
next
  case (step_return s p as m)
  then show ?case by (cases p) (auto simp: ops_left_def)
next
  case (step_dies s p as m)
  then show ?case by (cases p) (auto simp: ops_left_def)
qed (simp add: pipes_def)

lemma pipe_run_length: "(duo_step pipes eff ^^ n) s s' \<Longrightarrow> n + ops_left s' \<le> ops_left s"
proof (induction n arbitrary: s')
  case (Suc n)
  from Suc.prems obtain t where "(duo_step pipes eff ^^ n) s t" "duo_step pipes eff t s'" by auto
  with Suc.IH [of t] pipe_step_shortens [of eff t s'] show ?case by simp
qed simp

lemma parent_loop_length: "length (parent_loop i) \<le> 4 * ((NLOOPS + 1 - i) div 2)"
proof (induction i rule: parent_loop.induct)
  case (1 i)
  show ?case
  proof (cases "i < NLOOPS")
    case True
    then have "4 + 4 * ((NLOOPS + 1 - (i + 2)) div 2) \<le> 4 * ((NLOOPS + 1 - i) div 2)" by presburger
    with True 1 show ?thesis by (simp add: parent_loop.simps [of i])
  qed (simp add: parent_loop.simps [of i])
qed

lemma child_loop_length: "length (child_loop i) \<le> 4 * ((NLOOPS + 2 - i) div 2)"
proof (induction i rule: child_loop.induct)
  case (1 i)
  show ?case
  proof (cases "i < NLOOPS + 1")
    case True
    then have "4 + 4 * ((NLOOPS + 2 - (i + 2)) div 2) \<le> 4 * ((NLOOPS + 2 - i) div 2)" by presburger
    with True 1 show ?thesis by (simp add: child_loop.simps [of i])
  qed (simp add: child_loop.simps [of i])
qed

text \<open>
  The signals are blocked until the first WAIT returns only.  Here is a schedule in which \<^verbatim>\<open>SIGUSR1\<close> reaches the
  child between its test of the flag and its \<^verbatim>\<open>sigsuspend\<close>.
\<close>

datatype choice = Go who | Deliver

fun sched_step :: "bool \<Rightarrow> choice \<Rightarrow> (upd, shm, sigs) duo \<Rightarrow> (upd, shm, sigs) duo" where
  "sched_step old (Go p) s = (case prog s p of
     Do a # as \<Rightarrow> (case update_eff p a (shared s) of (c, ok) \<Rightarrow>
        if ok then s\<lparr>shared := c, prog := (prog s)(p := as)\<rparr> else s)
   | Tell # as \<Rightarrow> s\<lparr>mech := sig_tell (other p) (mech s), prog := (prog s)(p := as)\<rparr>
   | Wait # as \<Rightarrow> (case sig_wait old p (mech s) of
        (m, Goes_on) # _ \<Rightarrow> s\<lparr>mech := m\<rparr>
      | (m, Returned) # _ \<Rightarrow> s\<lparr>mech := m, prog := (prog s)(p := as)\<rparr>
      | _ \<Rightarrow> s)
   | [] \<Rightarrow> s)"
| "sched_step old Deliver s = (case sig_deliver (mech s) of m # _ \<Rightarrow> s\<lparr>mech := m\<rparr> | [] \<Rightarrow> s)"

lemma sched_step_reach: "reach (signals old) update_eff s (sched_step old c s)"
proof (cases c)
  case (Go p)
  show ?thesis
  proof (cases "prog s p")
    case (Cons a as)
    show ?thesis
    proof (cases a)
      case (Do x)
      obtain c' ok where "update_eff p x (shared s) = (c', ok)" by fastforce
      then show ?thesis using Go Cons Do duo_step.step_do [of s p x as update_eff c' "signals old"] by (cases ok) auto
    next
      case Tell
      then show ?thesis using Go Cons duo_step.step_tell [of s p as "signals old" update_eff] by (auto simp: signals_def)
    next
      case Wait
      show ?thesis
      proof (cases "sig_wait old p (mech s)")
        case (Cons r rs)
        obtain m w where "r = (m, w)" by fastforce
        then show ?thesis
          using Go \<open>prog s p = a # as\<close> Wait Cons duo_step.step_wait [of s p as m "signals old" update_eff]
            duo_step.step_return [of s p as m "signals old" update_eff] by (cases w) (auto simp: signals_def)
      qed (use Go \<open>prog s p = a # as\<close> Wait in simp)
    qed
  qed (use Go in simp)
next
  case Deliver
  show ?thesis
  proof (cases "sig_deliver (mech s)")
    case (Cons m ms)
    then show ?thesis using Deliver duo_step.step_self [of m "signals old" s update_eff] by (auto simp: signals_def)
  qed (use Deliver in simp)
qed

fun run_sched :: "bool \<Rightarrow> choice list \<Rightarrow> (upd, shm, sigs) duo \<Rightarrow> (upd, shm, sigs) duo" where
  "run_sched old [] s = s"
| "run_sched old (c # cs) s = run_sched old cs (sched_step old c s)"

lemma sched_reach: "reach (signals old) update_eff s (run_sched old cs s)"
proof (induction cs arbitrary: s)
  case (Cons c cs)
  show ?case using rtranclp_trans [OF sched_step_reach Cons.IH] by simp
qed simp

definition lost_signal :: "choice list" where
  "lost_signal = [Go Child, Go Child, Go Parent, Go Parent, Go Parent, Go Child, Go Child, Go Child, Go Child,
     Go Child, Go Child, Go Child, Go Parent, Go Parent, Go Parent, Go Parent, Go Parent, Go Parent,
     Go Child, Go Parent, Go Parent, Go Parent, Deliver, Go Child, Go Parent, Go Parent]"

lemma case_who_upd: "(case_who a b)(Parent := x) = case_who x b" "(case_who a b)(Child := x) = case_who a x"
  by (auto simp: fun_eq_iff split: who.splits)

lemma TELL_WAIT_who: "TELL_WAIT = case_who \<lparr>sigflag = False, blocked = True, pending = False, wpc = AtTest\<rparr>
    \<lparr>sigflag = False, blocked = True, pending = False, wpc = AtTest\<rparr>"
  by (auto simp: TELL_WAIT_def fun_eq_iff split: who.splits)

lemma parent_rounds: "parent_loop 0 = Do Load # Do (Store 0) # Tell # Wait # Do Load # Do (Store 2) # Tell # Wait # parent_loop 4"
  using parent_loop_unfold [of 0] parent_loop_unfold [of 2] by (simp add: NLOOPS_def numeral_2_eq_2 [symmetric])

lemma child_rounds: "child_loop 1 = Wait # Do Load # Do (Store 1) # Tell # Wait # Do Load # Do (Store 3) # Tell # child_loop 5"
  using child_loop_unfold [of 0] child_loop_unfold [of 2] by (simp add: NLOOPS_def numeral_3_eq_3 [symmetric])

lemmas sched_simps = sig_wait_def sig_usr_def sig_deliver_def sig_tell_def case_who_upd

lemma lost_signal_run:
  "run_sched False lost_signal (devzero_main TELL_WAIT) =
     duo_start \<lparr>area = 3, reg = (\<lambda>p. 0)(Child := 1, Parent := 2)\<rparr>
       (case_who \<lparr>sigflag = False, blocked = False, pending = False, wpc = Asleep\<rparr>
         \<lparr>sigflag = True, blocked = False, pending = False, wpc = Asleep\<rparr>)
       (Wait # parent_loop 4) (Wait # Do Load # Do (Store 3) # Tell # child_loop 5)"
  by (simp add: lost_signal_def devzero_main_def TELL_WAIT_who parent_rounds child_rounds sched_simps del: One_nat_def)

lemma lost_signal_stuck: "stuck (signals False) update_eff (run_sched False lost_signal (devzero_main TELL_WAIT))"
  unfolding stuck_def lost_signal_run
proof (intro allI notI)
  fix s'
  assume "duo_step (signals False) update_eff (duo_start \<lparr>area = 3, reg = (\<lambda>p. 0)(Child := 1, Parent := 2)\<rparr>
       (case_who \<lparr>sigflag = False, blocked = False, pending = False, wpc = Asleep\<rparr>
         \<lparr>sigflag = True, blocked = False, pending = False, wpc = Asleep\<rparr>)
       (Wait # parent_loop 4) (Wait # Do Load # Do (Store 3) # Tell # child_loop 5)) s'"
  then show False
    by (cases rule: duo_step.cases)
      (auto simp: signals_def sig_wait_def sig_deliver_def split: who.splits)
qed

text \<open>
  C23: \<^verbatim>\<open>advio/devzero.c\<close>: with the signals and with the pipes, under every interleaving of the loads and
  stores, no process ever finds a wrong counter.  With the pipes every run ends, within 4,000 steps, and it can
  only end when both loops are done and the counter is \<^verbatim>\<open>NLOOPS\<close>.
  With the signals, unless they were blocked before \<^verbatim>\<open>TELL_WAIT\<close>, the program can stop for ever in its second round,
  both processes asleep and the counter at 3.
\<close>

theorem devzero_counts_in_turn:
  "(\<forall>s. reach (signals old) update_eff (devzero_main TELL_WAIT) s \<longrightarrow> \<not> failed s) \<and>
   (\<forall>s. reach pipes update_eff (devzero_main pipe_TELL_WAIT) s \<longrightarrow> \<not> failed s \<and>
      (stuck pipes update_eff s \<longrightarrow> prog s Parent = [] \<and> prog s Child = [] \<and> area (shared s) = int NLOOPS)) \<and>
   (\<forall>n s. (duo_step pipes update_eff ^^ n) (devzero_main pipe_TELL_WAIT) s \<longrightarrow> n \<le> 4 * NLOOPS) \<and>
   (\<exists>s. reach (signals False) update_eff (devzero_main TELL_WAIT) s \<and> stuck (signals False) update_eff s \<and>
      prog s Parent \<noteq> [] \<and> prog s Child \<noteq> [] \<and> area (shared s) = 3)"
proof -
  have nf: "\<not> failed s" if "count_inv a b s" for a b and s :: "(upd, shm, 'm) duo"
    using that by (auto simp: count_inv_def at_phase_def)
  have s0: "sig_good TELL_WAIT" "\<not> sig_tok TELL_WAIT p" for p
    by (auto simp: TELL_WAIT_def sig_defs)
  have p0: "pipe_good pipe_TELL_WAIT" "\<not> pipe_tok pipe_TELL_WAIT p" for p
    by (cases p; simp add: pipe_good_def pipe_TELL_WAIT_def)+
  have "ops_left (devzero_main pipe_TELL_WAIT) \<le> 4 * NLOOPS"
    using parent_loop_length [of 0] child_loop_length [of 1] by (simp add: ops_left_def devzero_main_def NLOOPS_def)
  then have "n \<le> 4 * NLOOPS" if "(duo_step pipes update_eff ^^ n) (devzero_main pipe_TELL_WAIT) s" for n s
    using pipe_run_length [OF that] by simp
  moreover have "sg.counting s" if "reach (signals old) update_eff (devzero_main TELL_WAIT) s" for s
    using sg.devzero_counting [OF s0(1) s0(2) s0(2) that] .
  moreover have "pp.counting s" if "reach pipes update_eff (devzero_main pipe_TELL_WAIT) s" for s
    using pp.devzero_counting [OF p0(1) p0(2) p0(2) that] .
  moreover have "\<not> failed s" if "sg.counting s" for s
    using nf that unfolding sg.counting_def by blast
  moreover have "\<not> failed s" if "pp.counting s" for s
    using nf that unfolding pp.counting_def by blast
  moreover have "\<exists>s. reach (signals False) update_eff (devzero_main TELL_WAIT) s \<and> stuck (signals False) update_eff s \<and>
      prog s Parent \<noteq> [] \<and> prog s Child \<noteq> [] \<and> area (shared s) = 3"
    using sched_reach [of False "devzero_main TELL_WAIT" lost_signal] lost_signal_stuck
    by (intro exI [of _ "run_sched False lost_signal (devzero_main TELL_WAIT)"]) (simp add: lost_signal_run)
  ultimately show ?thesis using pp.counting_stuck by blast
qed

theorem devzero_counts_in_turn_witness:
  "let s = run_sched True [Go Parent, Go Parent, Go Parent] (devzero_main TELL_WAIT) in
   area (shared s) = 1 \<and> \<not> failed s"
proof -
  let ?s = "run_sched True [Go Parent, Go Parent, Go Parent] (devzero_main TELL_WAIT)"
  have "reach (signals True) update_eff (devzero_main TELL_WAIT) ?s" by (rule sched_reach)
  then have "\<not> failed ?s" using devzero_counts_in_turn [of True] by blast
  moreover have "area (shared ?s) = 1"
    by (simp add: devzero_main_def TELL_WAIT_who parent_rounds sched_simps del: One_nat_def)
  ultimately show ?thesis by (simp add: Let_def)
qed

end
