(* ===== verification/RwQueue.thy ===== *)
theory RwQueue
  imports Dll
begin

section \<open>The job queue of \<^verbatim>\<open>threads/rwlock.c\<close>\<close>

text \<open>
  A queue of jobs that many threads search and a few change, under a reader-writer lock.  The links of the jobs are
  functions from addresses; 0 is NULL.  A change holds the write lock from its first to its last statement and a search
  the read lock, so a call is one step; \<open>rdlock_ok\<close> says whether the read lock was given.  A dereference of NULL is
  \<open>Undef\<close>, and a search that goes round in circles is \<open>None\<close>.
\<close>

record rwqueue =
  q_head :: nat
  q_tail :: nat
  j_next :: "nat \<Rightarrow> nat"
  j_prev :: "nat \<Rightarrow> nat"
  j_id :: "nat \<Rightarrow> nat"

definition queue_init :: "bool \<Rightarrow> rwqueue \<Rightarrow> bool \<times> rwqueue" where
  "queue_init ok q = (ok, q\<lparr>q_head := 0, q_tail := 0\<rparr>)"

definition job_insert :: "nat \<Rightarrow> rwqueue \<Rightarrow> rwqueue" where
  "job_insert jp q =
     (let q = q\<lparr>j_next := (j_next q)(jp := q_head q)\<rparr>;
          q = q\<lparr>j_prev := (j_prev q)(jp := 0)\<rparr>;
          q = (if q_head q \<noteq> 0 then q\<lparr>j_prev := (j_prev q)(q_head q := jp)\<rparr> else q\<lparr>q_tail := jp\<rparr>)
      in q\<lparr>q_head := jp\<rparr>)"

definition job_append :: "nat \<Rightarrow> rwqueue \<Rightarrow> rwqueue" where
  "job_append jp q =
     (let q = q\<lparr>j_next := (j_next q)(jp := 0)\<rparr>;
          q = q\<lparr>j_prev := (j_prev q)(jp := q_tail q)\<rparr>;
          q = (if q_tail q \<noteq> 0 then q\<lparr>j_next := (j_next q)(q_tail q := jp)\<rparr> else q\<lparr>q_head := jp\<rparr>)
      in q\<lparr>q_tail := jp\<rparr>)"

definition job_remove :: "nat \<Rightarrow> rwqueue \<Rightarrow> rwqueue run" where
  "job_remove jp q =
     (if jp = q_head q then
        let q = q\<lparr>q_head := j_next q jp\<rparr> in ret (if q_tail q = jp then q\<lparr>q_tail := 0\<rparr> else q)
      else if jp = q_tail q then
        let q = q\<lparr>q_tail := j_prev q jp\<rparr> in ret (if q_head q = jp then q\<lparr>q_head := 0\<rparr> else q)
      else if j_prev q jp = 0 then die (Undef ''jp->j_prev is NULL'')
      else let q = q\<lparr>j_next := (j_next q)(j_prev q jp := j_next q jp)\<rparr> in
        if j_next q jp = 0 then die (Undef ''jp->j_next is NULL'')
        else ret (q\<lparr>j_prev := (j_prev q)(j_next q jp := j_prev q jp)\<rparr>))"

partial_function (option) find_job :: "nat \<Rightarrow> nat \<Rightarrow> rwqueue \<Rightarrow> nat run" where
  "find_job id' jp q =
     (if jp = 0 then ret 0 else if j_id q jp = id' then ret jp else find_job id' (j_next q jp) q)"

definition job_find :: "bool \<Rightarrow> nat \<Rightarrow> rwqueue \<Rightarrow> nat run" where
  "job_find rdlock_ok id' q = (if \<not> rdlock_ok then ret 0 else find_job id' (q_head q) q)"

subsection \<open>The list a queue stands for\<close>

text \<open>
  Taking the first job out leaves the \<open>j_prev\<close> of the new first job as it was, so nothing is said of it.
\<close>

definition holds_jobs :: "rwqueue \<Rightarrow> nat list \<Rightarrow> bool" where
  "holds_jobs q xs \<longleftrightarrow> (\<exists>p. dls (j_next q) (j_prev q) p xs 0) \<and> distinct xs \<and> q_head q = front xs \<and> q_tail q = rear xs"

lemma insert_holds:
  assumes "holds_jobs q xs" and "jp \<notin> set xs" and "jp \<noteq> 0"
  shows "holds_jobs (job_insert jp q) (jp # xs)"
proof -
  from assms(1) obtain p where d: "dls (j_next q) (j_prev q) p xs 0" and q: "distinct xs" "q_head q = front xs" "q_tail q = rear xs"
    by (auto simp: holds_jobs_def)
  have z: "0 \<notin> set xs" using d by (rule dls_nz)
  have c: "dls ((j_next q)(jp := front xs)) ((j_prev q)(jp := 0)) p xs 0"
    using d assms(2) by (subst dls_cong [of _ _ "j_next q" _ "j_prev q"]) auto
  show ?thesis
  proof (cases xs)
    case Nil
    then show ?thesis using q assms by (simp add: holds_jobs_def job_insert_def)
  next
    case (Cons x ys)
    have "dls ((j_next q)(jp := x)) ((j_prev q)(jp := 0, x := jp)) jp xs 0"
      using dls_set_prev [OF c q(1)] Cons by simp
    then show ?thesis using q assms z Cons by (auto simp: holds_jobs_def job_insert_def)
  qed
qed

lemma append_holds:
  assumes "holds_jobs q xs" and "jp \<notin> set xs" and "jp \<noteq> 0"
  shows "holds_jobs (job_append jp q) (xs @ [jp])"
proof -
  from assms(1) obtain p where d: "dls (j_next q) (j_prev q) p xs 0" and q: "distinct xs" "q_head q = front xs" "q_tail q = rear xs"
    by (auto simp: holds_jobs_def)
  have z: "0 \<notin> set xs" using d by (rule dls_nz)
  have c: "dls ((j_next q)(jp := 0)) ((j_prev q)(jp := rear xs)) p xs 0"
    using d assms(2) by (subst dls_cong [of _ _ "j_next q" _ "j_prev q"]) auto
  show ?thesis
  proof (cases "xs = []")
    case True
    then show ?thesis using q assms by (auto simp: holds_jobs_def job_append_def)
  next
    case False
    then have l: "last xs \<in> set xs" "last xs \<noteq> jp" "last xs \<noteq> 0" using assms z last_in_set [OF False] by metis+
    have "dls ((j_next q)(jp := 0, last xs := jp)) ((j_prev q)(jp := last xs)) p xs jp"
      using dls_set_next [OF c q(1) False, of jp] False by simp
    then have "dls ((j_next q)(jp := 0, last xs := jp)) ((j_prev q)(jp := last xs)) p (xs @ [jp]) 0"
      using l False assms by (simp add: dls_append)
    then show ?thesis using q assms z False l by (auto simp: holds_jobs_def job_append_def hd_append)
  qed
qed

lemma remove_holds:
  assumes "holds_jobs q (us @ x # vs)" and "vs \<noteq> [] \<or> us = []"
  shows "\<exists>q'. job_remove x q = ret q' \<and> holds_jobs q' (us @ vs) \<and> j_id q' = j_id q"
proof -
  from assms(1) obtain p where d: "dls (j_next q) (j_prev q) p (us @ x # vs) 0" and q: "distinct (us @ x # vs)"
    "q_head q = front (us @ x # vs)" "q_tail q = rear (us @ x # vs)"
    by (auto simp: holds_jobs_def)
  have z: "0 \<notin> set (us @ x # vs)" using d by (rule dls_nz)
  show ?thesis
  proof (cases "us = []")
    case True
    have "rear (x # vs) = x \<longleftrightarrow> vs = []" using q True by (auto dest: last_in_set)
    then show ?thesis
      using True d q z by (cases vs) (auto simp: job_remove_def holds_jobs_def Let_def)
  next
    case False
    then obtain v ws where vs: "vs = v # ws" using assms(2) by (cases vs) auto
    let ?u = "last us"
    have u: "?u \<in> set us" "?u \<noteq> 0" "?u \<noteq> x" using False z q last_in_set [OF False] by (auto simp del: last_in_set)
    have du: "dls (j_next q) (j_prev q) p us x" and dx: "j_next q x = v" "j_prev q x = ?u"
      and dv: "dls (j_next q) (j_prev q) x (v # ws) 0"
      using d False vs by (auto simp: dls_append)
    have 1: "dls ((j_next q)(?u := v)) ((j_prev q)(v := ?u)) p us v"
    proof -
      have "dls ((j_next q)(?u := v)) (j_prev q) p us v" using dls_set_next [OF du] q False by auto
      then show ?thesis using q vs by (subst dls_cong [of _ _ "(j_next q)(?u := v)" _ "j_prev q"]) auto
    qed
    have 2: "dls ((j_next q)(?u := v)) ((j_prev q)(v := ?u)) ?u (v # ws) 0"
    proof -
      have "dls (j_next q) ((j_prev q)(v := ?u)) ?u (v # ws) 0" using dls_set_prev [OF dv] q vs by auto
      moreover have "?u \<notin> set (v # ws)" using q u vs by auto
      ultimately show ?thesis by (subst dls_cong [of _ _ "j_next q" _ "(j_prev q)(v := ?u)"]) auto
    qed
    have 3: "dls ((j_next q)(?u := v)) ((j_prev q)(v := ?u)) p (us @ v # ws) 0"
      using 1 2 False by (simp add: dls_append)
    have hd: "x \<noteq> q_head q" "x \<noteq> q_tail q" "v \<noteq> 0"
      using q False vs z by (auto simp: hd_append dest: hd_in_set)
    show ?thesis
      using 3 q False vs hd dx u by (auto simp: job_remove_def holds_jobs_def hd_append)
  qed
qed

lemma find_job_list:
  assumes "dls (j_next q) (j_prev q) p xs 0"
  shows "find_job i (front xs) q = ret (case filter (\<lambda>x. j_id q x = i) xs of [] \<Rightarrow> 0 | x # _ \<Rightarrow> x)"
  using assms
proof (induction xs arbitrary: p)
  case (Cons x xs)
  then show ?case by (subst find_job.simps) auto
qed (simp add: find_job.simps)

text \<open>Taking out the last of several jobs leaves the link of the new last one to it.\<close>

lemma remove_last:
  assumes "holds_jobs q (us @ [y, z])"
  shows "\<exists>q'. job_remove z q = ret q' \<and> q_head q' = front (us @ [y, z]) \<and> q_tail q' = y \<and>
    j_next q' = j_next q \<and> j_prev q' = j_prev q \<and> j_id q' = j_id q"
proof -
  from assms have "dls (j_next q) (j_prev q) (j_prev q (q_head q)) (us @ [y, z]) 0"
    by (auto simp: holds_jobs_def dls_append hd_append dest: dls_first)
  then have "j_prev q z = y" by (auto simp: dls_append)
  moreover have "z \<noteq> q_head q" "z = q_tail q" "q_head q \<noteq> y \<or> q_head q = y"
    using assms by (auto simp: holds_jobs_def hd_append dest: hd_in_set)
  ultimately show ?thesis using assms by (auto simp: job_remove_def holds_jobs_def hd_append)
qed

subsection \<open>Sequences of calls\<close>

datatype qcall = Insert nat | Append nat | Remove nat | Find bool nat

fun queue_call :: "qcall \<Rightarrow> rwqueue \<Rightarrow> (nat \<times> rwqueue) run" where
  "queue_call (Insert jp) q = ret (0, job_insert jp q)"
| "queue_call (Append jp) q = ret (0, job_append jp q)"
| "queue_call (Remove jp) q = rbind (job_remove jp q) (\<lambda>q. ret (0, q))"
| "queue_call (Find ok i) q = rbind (job_find ok i q) (\<lambda>jp. ret (jp, q))"

fun queue_calls :: "qcall list \<Rightarrow> rwqueue \<Rightarrow> nat list run" where
  "queue_calls [] q = ret []"
| "queue_calls (c # cs) q = rbind (queue_call c q) (\<lambda>(r, q). rbind (queue_calls cs q) (\<lambda>rs. ret (r # rs)))"

text \<open>What a list of jobs would answer, and the calls that are covered by the contract.\<close>

fun list_call :: "(nat \<Rightarrow> nat) \<Rightarrow> qcall \<Rightarrow> nat list \<Rightarrow> nat \<times> nat list" where
  "list_call ids (Insert jp) xs = (0, jp # xs)"
| "list_call ids (Append jp) xs = (0, xs @ [jp])"
| "list_call ids (Remove jp) xs = (0, remove1 jp xs)"
| "list_call ids (Find ok i) xs = (if ok then case filter (\<lambda>x. ids x = i) xs of [] \<Rightarrow> 0 | x # _ \<Rightarrow> x else 0, xs)"

fun list_calls :: "(nat \<Rightarrow> nat) \<Rightarrow> qcall list \<Rightarrow> nat list \<Rightarrow> nat list" where
  "list_calls ids [] xs = []"
| "list_calls ids (c # cs) xs = (let (r, xs) = list_call ids c xs in r # list_calls ids cs xs)"

fun call_ok :: "qcall \<Rightarrow> nat list \<Rightarrow> bool" where
  "call_ok (Insert jp) xs \<longleftrightarrow> jp \<noteq> 0 \<and> jp \<notin> set xs"
| "call_ok (Append jp) xs \<longleftrightarrow> jp \<noteq> 0 \<and> jp \<notin> set xs"
| "call_ok (Remove jp) xs \<longleftrightarrow> jp \<in> set xs \<and> (jp = last xs \<longrightarrow> length xs = 1)"
| "call_ok (Find ok i) xs \<longleftrightarrow> True"

fun calls_ok :: "qcall list \<Rightarrow> nat list \<Rightarrow> bool" where
  "calls_ok [] xs \<longleftrightarrow> True"
| "calls_ok (c # cs) xs \<longleftrightarrow> call_ok c xs \<and> calls_ok cs (snd (list_call id c xs))"

lemma list_call_snd: "snd (list_call ids c xs) = snd (list_call id c xs)"
  by (cases c) auto

lemma queue_call_refines:
  assumes h: "holds_jobs q xs" and ok: "call_ok c xs"
  shows "\<exists>q'. queue_call c q = ret (fst (list_call (j_id q) c xs), q') \<and>
    holds_jobs q' (snd (list_call (j_id q) c xs)) \<and> j_id q' = j_id q"
proof (cases c)
  case (Insert jp)
  then show ?thesis using insert_holds [OF h] ok by (auto simp: job_insert_def Let_def)
next
  case (Append jp)
  then show ?thesis using append_holds [OF h] ok by (auto simp: job_append_def Let_def)
next
  case (Remove jp)
  with ok obtain us vs where xs: "xs = us @ jp # vs" "jp \<notin> set us" by (meson call_ok.simps(3) split_list_first)
  then have r: "remove1 jp xs = us @ vs" by (simp add: remove1_append)
  have "call_ok (Remove jp) (us @ jp # vs)" using ok by (simp only: Remove xs(1))
  then have "jp = last (us @ jp # vs) \<Longrightarrow> length (us @ jp # vs) = 1" by (simp only: call_ok.simps)
  then have "vs \<noteq> [] \<or> us = []" by (cases "vs = []") simp_all
  from remove_holds [OF h [unfolded xs(1)] this] obtain q' where
    "job_remove jp q = ret q'" "holds_jobs q' (us @ vs)" "j_id q' = j_id q" by blast
  then show ?thesis by (simp add: Remove r)
next
  case (Find rd i)
  from h obtain p where "dls (j_next q) (j_prev q) p xs 0" "q_head q = front xs" by (auto simp: holds_jobs_def)
  then show ?thesis using Find h find_job_list [of q p xs i] by (simp add: job_find_def)
qed

lemma list_calls_Cons: "list_calls ids (c # cs) xs = fst (list_call ids c xs) # list_calls ids cs (snd (list_call ids c xs))"
  by (simp add: split: prod.split)

lemma queue_calls_refine:
  "holds_jobs q xs \<Longrightarrow> calls_ok cs xs \<Longrightarrow> queue_calls cs q = ret (list_calls (j_id q) cs xs)"
proof (induction cs arbitrary: q xs)
  case (Cons c cs)
  then obtain q' where q': "queue_call c q = ret (fst (list_call (j_id q) c xs), q')"
    "holds_jobs q' (snd (list_call (j_id q) c xs))" "j_id q' = j_id q"
    using queue_call_refines [of q xs c] by auto
  moreover have "calls_ok cs (snd (list_call (j_id q) c xs))"
    using Cons.prems(2) list_call_snd [of "j_id q" c xs] by simp
  ultimately show ?case
    using Cons.IH [of q' "snd (list_call (j_id q) c xs)"] by (simp add: list_calls_Cons del: list_calls.simps)
qed simp

text \<open>
  C24: any sequence of calls on a new queue answers like a list of jobs, never dereferences NULL and always
  returns, as long as every job taken out is in the queue and is not the last one of several.  When
  it is the last one of several, the link to it stays: a later search for it still finds it.
\<close>

theorem rwlock_queue_refines_list:
  assumes "calls_ok cs []"
  shows "queue_calls cs (snd (queue_init True q)) = ret (list_calls (j_id q) cs []) \<and>
    (holds_jobs q (us @ [y, z]) \<and> (\<forall>x\<in>set (us @ [y]). j_id q x \<noteq> j_id q z) \<longrightarrow>
      queue_calls [Remove z, Find True (j_id q z)] q = ret [0, z])"
proof (intro conjI impI)
  have "holds_jobs (snd (queue_init True q)) []" by (simp add: holds_jobs_def queue_init_def)
  then show "queue_calls cs (snd (queue_init True q)) = ret (list_calls (j_id q) cs [])"
    using queue_calls_refine [OF _ assms] by (simp add: queue_init_def)
  assume h: "holds_jobs q (us @ [y, z]) \<and> (\<forall>x\<in>set (us @ [y]). j_id q x \<noteq> j_id q z)"
  then obtain q' where q': "job_remove z q = ret q'" "q_head q' = front (us @ [y, z])"
    "j_next q' = j_next q" "j_prev q' = j_prev q" "j_id q' = j_id q"
    using remove_last by blast
  from h obtain p where "dls (j_next q') (j_prev q') p (us @ [y, z]) 0" using q' by (auto simp: holds_jobs_def)
  from find_job_list [OF this, of "j_id q z"] h
  have "find_job (j_id q z) (q_head q') q' = ret z" using q' by (auto simp: filter_empty_conv)
  then show "queue_calls [Remove z, Find True (j_id q z)] q = ret [0, z]" using q' by (simp add: job_find_def)
qed

theorem rwlock_queue_refines_list_witness:
  "let q = \<lparr>q_head = 7, q_tail = 7, j_next = \<lambda>x. 9, j_prev = \<lambda>x. 9, j_id = \<lambda>x. x + 100\<rparr> in
   queue_calls [Append 1, Append 2, Insert 3, Remove 1, Find True 102, Find True 101, Remove 3, Find True 103]
     (snd (queue_init True q)) = ret [0, 0, 0, 0, 2, 0, 0, 0] \<and>
   queue_calls [Remove 2, Find True 102] (\<lparr>q_head = 1, q_tail = 2, j_next = \<lambda>x. if x = 1 then 2 else 0,
     j_prev = \<lambda>x. if x = 2 then 1 else 0, j_id = \<lambda>x. x + 100\<rparr>) = ret [0, 2]"
proof -
  let ?q = "\<lparr>q_head = 7, q_tail = 7, j_next = \<lambda>x. 9, j_prev = \<lambda>x. 9, j_id = \<lambda>x. x + 100\<rparr>"
  let ?p = "\<lparr>q_head = 1, q_tail = 2, j_next = \<lambda>x. if x = 1 then 2 else 0, j_prev = \<lambda>x. if x = 2 then 1 else 0, j_id = \<lambda>x. x + 100\<rparr>"
  let ?cs = "[Append 1, Append 2, Insert 3, Remove 1, Find True 102, Find True 101, Remove 3, Find True 103]"
  have h: "holds_jobs ?p ([] @ [1, 2])" by (simp add: holds_jobs_def)
  have "calls_ok ?cs []" by simp
  from rwlock_queue_refines_list [OF this, of ?q] rwlock_queue_refines_list [OF this, of ?p "[]" 1 2] h
  show ?thesis by (simp add: Let_def)
qed

end
