(* ===== verification/ObjTable.thy ===== *)
theory ObjTable
  imports Prelude
begin

section \<open>Reference-counted objects: \<^verbatim>\<open>threads/mutex2.c\<close> and \<^verbatim>\<open>threads/mutex3.c\<close>\<close>

text \<open>
  Objects with a reference count in a hash table, shared by many threads.  An object is at an address, 0 is NULL;
  \<open>objs\<close> has the allocated ones and \<open>fh\<close> the 29 chains.  A critical section is one step; the release of
  \<^verbatim>\<open>mutex2.c\<close> has two, with a window between them in which the last reference may stop being the last.  Following NULL or
  a freed object is \<open>Undef\<close>, a chain that never ends is \<open>None\<close>.  The counts are taken to stay below \<open>2 ^ 31\<close>.
\<close>

definition NHASH :: nat where
  "NHASH = 29"

definition HASH :: "nat \<Rightarrow> nat" where
  "HASH fp = fp mod NHASH"

record foo =
  f_count :: int
  f_locked :: bool
  f_next :: nat
  f_id :: int

record objtab =
  fh :: "nat \<Rightarrow> nat"
  objs :: "nat \<Rightarrow> foo option"

definition the_foo :: "objtab \<Rightarrow> nat \<Rightarrow> foo run" where
  "the_foo t fp = (case objs t fp of None \<Rightarrow> die (Undef ''no object there'') | Some f \<Rightarrow> ret f)"

definition put_foo :: "nat \<Rightarrow> foo \<Rightarrow> objtab \<Rightarrow> objtab" where
  "put_foo fp f t = t\<lparr>objs := (objs t)(fp \<mapsto> f)\<rparr>"

text \<open>
  \<open>mem\<close> is what \<^verbatim>\<open>malloc\<close> gave: an address and the bytes that happened to be there as the \<open>f_id\<close>, which is never set.
\<close>

definition foo_alloc :: "(nat \<times> int) option \<Rightarrow> bool \<Rightarrow> objtab \<Rightarrow> nat \<times> objtab" where
  "foo_alloc mem init_ok t = (case mem of
     None \<Rightarrow> (0, t)
   | Some (fp, junk) \<Rightarrow>
       if \<not> init_ok then (0, t)
       else
         let idx = HASH fp;
             f = \<lparr>f_count = 1, f_locked = False, f_next = fh t idx, f_id = junk\<rparr>;
             t = put_foo fp f t;
             t = t\<lparr>fh := (fh t)(idx := f_next f)\<rparr>
         in (fp, t))"

definition foo_hold :: "nat \<Rightarrow> objtab \<Rightarrow> objtab run" where
  "foo_hold fp t = rbind (the_foo t fp) (\<lambda>f. ret (put_foo fp (f\<lparr>f_count := f_count f + 1\<rparr>) t))"

partial_function (option) find_foo :: "int \<Rightarrow> nat \<Rightarrow> objtab \<Rightarrow> (nat \<times> objtab) run" where
  "find_foo id' fp t =
     (if fp = 0 then ret (0, t)
      else rbind (the_foo t fp) (\<lambda>f.
        if f_id f = id' then rbind (foo_hold fp t) (\<lambda>t. ret (fp, t)) else find_foo id' (f_next f) t))"

text \<open>The chain that \<^verbatim>\<open>foo_find\<close> searches is that of its own variable \<^verbatim>\<open>fp\<close>, which has no value yet: \<open>junk\<close>.\<close>

definition foo_find :: "nat \<Rightarrow> int \<Rightarrow> objtab \<Rightarrow> (nat \<times> objtab) run" where
  "foo_find junk id' t = find_foo id' (fh t (HASH junk)) t"

partial_function (option) unlink_after :: "nat \<Rightarrow> nat \<Rightarrow> nat \<Rightarrow> objtab \<Rightarrow> objtab run" where
  "unlink_after tfp fp next' t =
     (if tfp = 0 then die (Undef ''tfp is NULL'')
      else rbind (the_foo t tfp) (\<lambda>f.
        if f_next f = fp then ret (put_foo tfp (f\<lparr>f_next := next'\<rparr>) t) else unlink_after (f_next f) fp next' t))"

definition foo_unlink :: "nat \<Rightarrow> foo \<Rightarrow> objtab \<Rightarrow> objtab run" where
  "foo_unlink fp f t =
     (let idx = HASH fp; tfp = fh t idx in
      if tfp = fp then ret (t\<lparr>fh := (fh t)(idx := f_next f)\<rparr>) else unlink_after tfp fp (f_next f) t)"

definition foo_free :: "nat \<Rightarrow> objtab \<Rightarrow> objtab" where
  "foo_free fp t = t\<lparr>objs := (objs t)(fp := None)\<rparr>"

text \<open>The first critical section of \<^verbatim>\<open>foo_rele\<close> (true: this is the last reference, go on), and the second one.\<close>

definition foo_rele_first :: "nat \<Rightarrow> objtab \<Rightarrow> (bool \<times> objtab) run" where
  "foo_rele_first fp t = rbind (the_foo t fp) (\<lambda>f.
     if f_count f = 1 then ret (True, t) else ret (False, put_foo fp (f\<lparr>f_count := f_count f - 1\<rparr>) t))"

definition foo_rele_last :: "nat \<Rightarrow> objtab \<Rightarrow> objtab run" where
  "foo_rele_last fp t = rbind (the_foo t fp) (\<lambda>f.
     if f_count f \<noteq> 1 then ret (put_foo fp (f\<lparr>f_count := f_count f - 1\<rparr>) t)
     else rbind (foo_unlink fp f t) (\<lambda>t. ret (foo_free fp t)))"

subsection \<open>The simpler version, \<^verbatim>\<open>mutex3.c\<close>\<close>

definition foo_alloc3 :: "(nat \<times> int) option \<Rightarrow> bool \<Rightarrow> objtab \<Rightarrow> nat \<times> objtab" where
  "foo_alloc3 mem init_ok t = (case mem of
     None \<Rightarrow> (0, t)
   | Some (fp, junk) \<Rightarrow>
       if \<not> init_ok then (0, t)
       else
         let idx = HASH fp;
             f = \<lparr>f_count = 1, f_locked = False, f_next = fh t idx, f_id = junk\<rparr>;
             t = put_foo fp f t;
             t = t\<lparr>fh := (fh t)(idx := f_next f)\<rparr>;
             t = put_foo fp (f\<lparr>f_locked := True\<rparr>) t
         in (fp, t))"

definition foo_hold3 :: "nat \<Rightarrow> objtab \<Rightarrow> objtab run" where
  "foo_hold3 fp t = rbind (the_foo t fp) (\<lambda>f. ret (put_foo fp (f\<lparr>f_count := f_count f + 1\<rparr>) t))"

partial_function (option) find_foo3 :: "int \<Rightarrow> nat \<Rightarrow> objtab \<Rightarrow> (nat \<times> objtab) run" where
  "find_foo3 id' fp t =
     (if fp = 0 then ret (0, t)
      else rbind (the_foo t fp) (\<lambda>f.
        if f_id f = id' then ret (fp, put_foo fp (f\<lparr>f_count := f_count f + 1\<rparr>) t) else find_foo3 id' (f_next f) t))"

definition foo_find3 :: "nat \<Rightarrow> int \<Rightarrow> objtab \<Rightarrow> (nat \<times> objtab) run" where
  "foo_find3 junk id' t = find_foo3 id' (fh t (HASH junk)) t"

definition foo_rele3 :: "nat \<Rightarrow> objtab \<Rightarrow> objtab run" where
  "foo_rele3 fp t = rbind (the_foo t fp) (\<lambda>f.
     let f = f\<lparr>f_count := f_count f - 1\<rparr>; t = put_foo fp f t in
     if f_count f = 0 then rbind (foo_unlink fp f t) (\<lambda>t. ret (foo_free fp t)) else ret t)"

subsection \<open>Many threads\<close>

text \<open>
  The threads share the table.  \<open>refs\<close> counts the references they own, \<open>late\<close> the threads between the two
  critical sections of their release.  A thread holds and releases only what it owns; \<open>wrong\<close> is set when a
  step has no defined meaning.
\<close>

record threads =
  tab :: objtab
  refs :: "nat \<Rightarrow> nat"
  late :: "nat list"
  wrong :: bool

definition threads_start :: threads where
  "threads_start = \<lparr>tab = \<lparr>fh = \<lambda>_. 0, objs = Map.empty\<rparr>, refs = \<lambda>_. 0, late = [], wrong = False\<rparr>"

inductive foo_step :: "threads \<Rightarrow> threads \<Rightarrow> bool" where
  step_alloc: "foo_alloc mem ok (tab s) = (fp, t) \<Longrightarrow> (\<forall>a j. mem = Some (a, j) \<longrightarrow> a \<noteq> 0 \<and> objs (tab s) a = None) \<Longrightarrow>
    foo_step s (s\<lparr>tab := t, refs := (if fp = 0 then refs s else (refs s)(fp := 1))\<rparr>)"
| step_hold: "0 < refs s fp \<Longrightarrow> foo_hold fp (tab s) = ret t \<Longrightarrow> foo_step s (s\<lparr>tab := t, refs := (refs s)(fp := refs s fp + 1)\<rparr>)"
| step_find: "foo_find junk id' (tab s) = ret (fp, t) \<Longrightarrow>
    foo_step s (s\<lparr>tab := t, refs := (if fp = 0 then refs s else (refs s)(fp := refs s fp + 1))\<rparr>)"
| step_rele: "0 < refs s fp \<Longrightarrow> foo_rele_first fp (tab s) = ret (False, t) \<Longrightarrow>
    foo_step s (s\<lparr>tab := t, refs := (refs s)(fp := refs s fp - 1)\<rparr>)"
| step_rele_first: "0 < refs s fp \<Longrightarrow> foo_rele_first fp (tab s) = ret (True, t) \<Longrightarrow>
    foo_step s (s\<lparr>tab := t, refs := (refs s)(fp := refs s fp - 1), late := fp # late s\<rparr>)"
| step_rele_last: "fp \<in> set (late s) \<Longrightarrow> foo_rele_last fp (tab s) = ret t \<Longrightarrow>
    foo_step s (s\<lparr>tab := t, late := remove1 fp (late s)\<rparr>)"
| step_wrong: "fp \<in> set (late s) \<Longrightarrow> foo_rele_last fp (tab s) = die e \<Longrightarrow> foo_step s (s\<lparr>wrong := True\<rparr>)"

text \<open>Every count is the number of references that are owned or being released, and every chain is empty.\<close>

definition counts_ok :: "threads \<Rightarrow> bool" where
  "counts_ok s \<longleftrightarrow> fh (tab s) = (\<lambda>_. 0) \<and>
     (\<forall>fp. objs (tab s) fp = None \<longleftrightarrow> refs s fp = 0 \<and> fp \<notin> set (late s)) \<and>
     (\<forall>fp f. objs (tab s) fp = Some f \<longrightarrow>
        fp \<noteq> 0 \<and> f_count f = int (refs s fp + count_list (late s) fp))"

lemma unlink_empty: "fh t = (\<lambda>_. 0) \<Longrightarrow> fp \<noteq> 0 \<Longrightarrow> foo_unlink fp f t = die (Undef ''tfp is NULL'')"
  by (simp add: foo_unlink_def unlink_after.simps Let_def)

lemma find_empty: "fh t = (\<lambda>_. 0) \<Longrightarrow> foo_find junk i t = ret (0, t) \<and> foo_find3 junk i t = ret (0, t)"
  by (simp add: foo_find_def foo_find3_def find_foo.simps find_foo3.simps)

lemma the_foo_ret [run_simps]: "the_foo t fp = ret f \<longleftrightarrow> objs t fp = Some f"
  by (auto simp: the_foo_def split: option.splits)

lemma count_list_remove1: "fp \<in> set xs \<Longrightarrow> count_list (remove1 fp xs) x = count_list xs x - (if x = fp then 1 else 0)"
  by (induction xs) (auto simp: count_list_0_iff neq0_conv [symmetric] simp del: neq0_conv)

lemma counts_ok_step:
  assumes "counts_ok s" and "foo_step s s'"
  shows "counts_ok s'"
  using assms(2)
proof cases
  case (step_alloc mem ok fp t)
  with assms(1) show ?thesis
    by (auto simp: counts_ok_def foo_alloc_def put_foo_def Let_def count_list_0_iff split: option.splits if_splits prod.splits)
next
  case (step_hold fp t)
  with assms(1) show ?thesis
    by (auto simp: counts_ok_def foo_hold_def put_foo_def run_simps split: option.splits)
next
  case (step_find junk i fp t)
  with assms(1) find_empty [of "tab s"] show ?thesis by (auto simp: counts_ok_def)
next
  case (step_rele fp t)
  with assms(1) show ?thesis
    by (auto simp: counts_ok_def foo_rele_first_def put_foo_def run_simps split: option.splits if_splits)
next
  case (step_rele_first fp t)
  with assms(1) show ?thesis
    by (auto simp: counts_ok_def foo_rele_first_def put_foo_def run_simps split: option.splits if_splits)
next
  case (step_rele_last fp t)
  then have 1: "1 \<le> count_list (late s) fp" using count_list_0_iff [of "late s" fp] by linarith
  have "fp \<in> set (remove1 fp (late s)) \<longleftrightarrow> 2 \<le> count_list (late s) fp"
    using step_rele_last count_list_0_iff [of "remove1 fp (late s)" fp] count_list_remove1 [of fp "late s" fp] by auto
  with 1 step_rele_last assms(1) show ?thesis
    by (auto simp: counts_ok_def foo_rele_last_def put_foo_def run_simps unlink_empty count_list_remove1 of_nat_diff split: option.splits if_splits)
next
  case (step_wrong fp e)
  with assms(1) show ?thesis by (simp add: counts_ok_def)
qed

lemma counts_ok_reach: "foo_step\<^sup>*\<^sup>* threads_start s \<Longrightarrow> counts_ok s"
proof (induction rule: rtranclp_induct)
  case base
  then show ?case by (simp add: counts_ok_def threads_start_def)
next
  case (step s s')
  then show ?case by (blast intro: counts_ok_step)
qed



end
