(* ===== verification/FdTable.thy ===== *)
theory FdTable
  imports Prelude
begin

section \<open>Descriptor tables\<close>

text \<open>
  The descriptors of a process, as \<^verbatim>\<open>open\<close>, \<^verbatim>\<open>close\<close>, \<^verbatim>\<open>dup\<close> and \<^verbatim>\<open>dup2\<close> change them: a new descriptor is the lowest
  free one below the limit of the process.  What a descriptor refers to is a parameter type.
\<close>

type_synonym 'a fdtab = "nat \<Rightarrow> 'a option"

definition free_fd :: "nat \<Rightarrow> 'a fdtab \<Rightarrow> nat option" where
  "free_fd lim t = find (\<lambda>i. t i = None) [0..<lim]"

definition fd_close :: "nat \<Rightarrow> 'a fdtab \<Rightarrow> 'a fdtab" where
  "fd_close fd t = t(fd := None)"

text \<open>\<^verbatim>\<open>open\<close> of a file that can be opened, and \<^verbatim>\<open>dup\<close>; \<open>None\<close> is the result -1.\<close>

definition fd_open :: "nat \<Rightarrow> 'a \<Rightarrow> 'a fdtab \<Rightarrow> nat option \<times> 'a fdtab" where
  "fd_open lim x t = (case free_fd lim t of None \<Rightarrow> (None, t) | Some fd \<Rightarrow> (Some fd, t(fd \<mapsto> x)))"

definition fd_dup :: "nat \<Rightarrow> nat \<Rightarrow> 'a fdtab \<Rightarrow> nat option \<times> 'a fdtab" where
  "fd_dup lim fd t = (case t fd of None \<Rightarrow> (None, t) | Some x \<Rightarrow> fd_open lim x t)"

text \<open>\<^verbatim>\<open>dup2(fd, fd2)\<close> with \<open>fd2\<close> below the limit: it gives \<open>fd2\<close>, or -1 when \<open>fd\<close> is not open.\<close>

definition fd_dup2 :: "nat \<Rightarrow> nat \<Rightarrow> 'a fdtab \<Rightarrow> bool \<times> 'a fdtab" where
  "fd_dup2 fd fd2 t = (case t fd of None \<Rightarrow> (False, t) | Some x \<Rightarrow> (True, t(fd2 \<mapsto> x)))"

lemma free_fd_Some: "free_fd lim t = Some fd \<Longrightarrow> t fd = None \<and> fd < lim"
  by (auto simp: free_fd_def find_Some_iff)

lemma free_fd_least: "free_fd lim t = Some fd \<Longrightarrow> i < fd \<Longrightarrow> t i \<noteq> None"
  by (auto simp: free_fd_def find_Some_iff)

lemma free_fd_None: "free_fd lim t = None \<longleftrightarrow> (\<forall>i < lim. t i \<noteq> None)"
  by (auto simp: free_fd_def find_None_iff)

lemma free_fd_here: "t fd = None \<Longrightarrow> fd < lim \<Longrightarrow> (\<And>i. i < fd \<Longrightarrow> t i \<noteq> None) \<Longrightarrow> free_fd lim t = Some fd"
  unfolding free_fd_def find_Some_iff by (intro exI [of _ fd]) auto

lemma fd_open_Some:
  "fd_open lim x t = (Some fd, t') \<longleftrightarrow> free_fd lim t = Some fd \<and> t' = t(fd \<mapsto> x)"
  by (auto simp: fd_open_def split: option.splits)

lemma fd_open_None: "fd_open lim x t = (None, t') \<longleftrightarrow> free_fd lim t = None \<and> t' = t"
  by (auto simp: fd_open_def split: option.splits)

text \<open>Closing what was just opened restores the table.\<close>

lemma fd_close_open: "fd_open lim x t = (Some fd, t') \<Longrightarrow> fd_close fd t' = t"
  by (auto simp: fd_open_Some fd_close_def fun_eq_iff dest: free_fd_Some)

text \<open>
  A descriptor becomes the standard ones: \<^verbatim>\<open>dup2\<close> to each of a list of descriptors, and the original is closed unless it is
  one of them.
\<close>

primrec fd_dups :: "nat \<Rightarrow> nat list \<Rightarrow> 'a fdtab \<Rightarrow> nat list \<times> 'a fdtab" where
  "fd_dups fd [] t = ([], t)"
| "fd_dups fd (g # gs) t = (case fd_dup2 fd g t of
     (True, t) \<Rightarrow> fd_dups fd gs t
   | (False, t) \<Rightarrow> (g # gs, t))"

lemma fd_dups_open:
  assumes "t fd = Some x"
  shows "fd_dups fd gs t = ([], \<lambda>i. if i \<in> set gs then Some x else t i)"
  using assms by (induction gs arbitrary: t) (auto simp: fd_dup2_def fun_eq_iff)

end
