(* ===== verification/Popen.thy ===== *)
theory Popen
  imports FdTable
begin

section \<open>Pipes to commands: \<^verbatim>\<open>lib/popen.c\<close>\<close>

text \<open>
  The state is the descriptor table of the process, the array \<^verbatim>\<open>childpid\<close> (\<open>None\<close> before it is allocated)
  and the children that were started, each with the table it calls \<^verbatim>\<open>execl\<close> with.  A stream is its descriptor.  The
  calls that may fail take their outcome as an argument; \<open>lim\<close> is the limit on descriptors of the kernel and
  \<open>maxfd\<close> what \<^verbatim>\<open>open_max\<close> returned, which is smaller when it had to guess.
\<close>

datatype fdesc = PipeRd nat | PipeWr nat | Other string

record kid =
  kid_pid :: int
  kid_tab :: "fdesc fdtab"
  kid_cmd :: string

record popst =
  fds :: "fdesc fdtab"
  childpid :: "(nat \<Rightarrow> int) option"
  maxfd :: nat
  npipes :: nat
  kids :: "kid list"

definition sys_pipe :: "nat \<Rightarrow> bool \<Rightarrow> popst \<Rightarrow> ((nat \<times> nat) option) \<times> popst" where
  "sys_pipe lim ok st = (case if ok then free_fd lim (fds st) else None of
     None \<Rightarrow> (None, st)
   | Some r \<Rightarrow> let n = npipes st; t = (fds st)(r \<mapsto> PipeRd n) in
       (case free_fd lim t of
          None \<Rightarrow> (None, st)
        | Some w \<Rightarrow> (Some (r, w), st\<lparr>fds := t(w \<mapsto> PipeWr n), npipes := Suc n\<rparr>)))"

text \<open>The child between \<^verbatim>\<open>fork\<close> and \<^verbatim>\<open>execl\<close>: its end becomes standard output or input, and older streams are closed.\<close>

definition popen_child :: "bool \<Rightarrow> nat \<Rightarrow> nat \<Rightarrow> nat \<Rightarrow> (nat \<Rightarrow> int) \<Rightarrow> fdesc fdtab \<Rightarrow> fdesc fdtab" where
  "popen_child rd r w maxfd' cp t =
     (let t = (if rd then
                 let t = t(r := None) in if w \<noteq> 1 then t(1 := t w, w := None) else t
               else
                 let t = t(w := None) in if r \<noteq> 0 then t(0 := t r, r := None) else t)
      in (\<lambda>i. if i < maxfd' \<and> 0 < cp i then None else t i))"

record popen_env =
  calloc_ok :: bool
  openmax :: nat
  pipe_ok :: bool
  fork_pid :: "int option"
  fdopen_ok :: bool

definition popen_go :: "nat \<Rightarrow> popen_env \<Rightarrow> string \<Rightarrow> bool \<Rightarrow> (nat \<Rightarrow> int) \<Rightarrow> popst \<Rightarrow> (nat option \<times> popst) run" where
  "popen_go lim e cmdstring rd cp st = (case sys_pipe lim (pipe_ok e) st of
     (None, st) \<Rightarrow> ret (None, st)
   | (Some (r, w), st) \<Rightarrow> (case fork_pid e of
       None \<Rightarrow> ret (None, st)
     | Some pid \<Rightarrow>
         let kid = \<lparr>kid_pid = pid, kid_tab = popen_child rd r w (maxfd st) cp (fds st), kid_cmd = cmdstring\<rparr>;
             st = st\<lparr>kids := kid # kids st, fds := (fds st)((if rd then w else r) := None)\<rparr>;
             fp = (if rd then r else w)
         in if \<not> fdopen_ok e then ret (None, st)
            else if maxfd st \<le> fp then die (Undef ''childpid[fileno(fp)]'')
            else ret (Some fp, st\<lparr>childpid := Some (cp(fp := pid))\<rparr>)))"

definition popen :: "nat \<Rightarrow> popen_env \<Rightarrow> string \<Rightarrow> string \<Rightarrow> popst \<Rightarrow> (nat option \<times> popst) run" where
  "popen lim e cmdstring typ st =
     (if typ \<noteq> ''r'' \<and> typ \<noteq> ''w'' then ret (None, st)
      else
        case childpid st of
          None \<Rightarrow> if \<not> calloc_ok e then ret (None, st\<lparr>maxfd := openmax e\<rparr>)
            else popen_go lim e cmdstring (typ = ''r'') (\<lambda>_. 0) (st\<lparr>maxfd := openmax e, childpid := Some (\<lambda>_. 0)\<rparr>)
        | Some cp \<Rightarrow> popen_go lim e cmdstring (typ = ''r'') cp st)"

datatype waitres = WEintr | WError | WStatus int

fun wait_for :: "waitres list \<Rightarrow> int run" where
  "wait_for [] = None"
| "wait_for (WStatus x # ws) = ret x"
| "wait_for (WError # ws) = ret (- 1)"
| "wait_for (WEintr # ws) = wait_for ws"

text \<open>\<open>waits pid\<close>: the results of the successive calls of \<^verbatim>\<open>waitpid\<close> for this child; when there are no more, it never returns.\<close>

definition pclose :: "bool \<Rightarrow> (int \<Rightarrow> waitres list) \<Rightarrow> nat \<Rightarrow> popst \<Rightarrow> (int \<times> popst) run" where
  "pclose fclose_ok waits fp st = (case childpid st of
     None \<Rightarrow> ret (- 1, st)
   | Some cp \<Rightarrow>
       if maxfd st \<le> fp then die (Undef ''childpid[fd]'')
       else if cp fp = 0 then ret (- 1, st)
       else
         let st = st\<lparr>childpid := Some (cp(fp := 0)), fds := (fds st)(fp := None)\<rparr> in
         if \<not> fclose_ok then ret (- 1, st)
         else rbind (wait_for (waits (cp fp))) (\<lambda>x. ret (x, st)))"

subsection \<open>The process as a state machine\<close>

text \<open>
  Between the calls the program opens files and closes descriptors that are not streams; descriptors 0, 1 and 2 stay
  open.  The limit is the number that \<^verbatim>\<open>open_max\<close> gives, and a child has a positive number.
\<close>

inductive pop_step :: "nat \<Rightarrow> popst \<Rightarrow> popst \<Rightarrow> bool" for lim :: nat where
  do_popen: "popen lim e cmd typ st = ret (r, st') \<Longrightarrow> openmax e = lim \<Longrightarrow> (\<forall>p. fork_pid e = Some p \<longrightarrow> 0 < p) \<Longrightarrow>
    pop_step lim st st'"
| do_pclose: "pclose ok waits fp st = ret (x, st') \<Longrightarrow> pop_step lim st st'"
| do_open: "free_fd lim (fds st) = Some fd \<Longrightarrow> pop_step lim st (st\<lparr>fds := (fds st)(fd \<mapsto> Other s)\<rparr>)"
| do_close: "2 < fd \<Longrightarrow> (\<forall>cp. childpid st = Some cp \<longrightarrow> cp fd = 0) \<Longrightarrow> pop_step lim st (st\<lparr>fds := (fds st)(fd := None)\<rparr>)"

definition pop_start :: popst where
  "pop_start = \<lparr>fds = (\<lambda>i. if i < 3 then Some (Other ''tty'') else None), childpid = None, maxfd = 0, npipes = 0, kids = []\<rparr>"

definition is_stream :: "popst \<Rightarrow> nat \<Rightarrow> bool" where
  "is_stream st fd \<longleftrightarrow> (case childpid st of None \<Rightarrow> False | Some cp \<Rightarrow> cp fd \<noteq> 0)"

fun pipe_no :: "fdesc \<Rightarrow> nat option" where
  "pipe_no (PipeRd n) = Some n"
| "pipe_no (PipeWr n) = Some n"
| "pipe_no (Other s) = None"

text \<open>Every stream is a pipe end that no other descriptor is, and its child has a number.\<close>

definition pop_ok :: "nat \<Rightarrow> popst \<Rightarrow> bool" where
  "pop_ok lim st \<longleftrightarrow> fds st 0 \<noteq> None \<and> fds st 1 \<noteq> None \<and> fds st 2 \<noteq> None \<and> (childpid st = None \<or> maxfd st = lim) \<and>
     (\<forall>fd x n. fds st fd = Some x \<and> pipe_no x = Some n \<longrightarrow> n < npipes st) \<and>
     (\<forall>cp fd. childpid st = Some cp \<and> cp fd \<noteq> 0 \<longrightarrow> 0 < cp fd \<and> 2 < fd \<and> fd < lim \<and> (\<exists>x n. fds st fd = Some x \<and> pipe_no x = Some n) \<and>
        (\<forall>fd'. fds st fd' = fds st fd \<longrightarrow> fd' = fd))"

lemma sys_pipe_Some:
  assumes "sys_pipe lim ok st = (Some (r, w), st')"
  shows "fds st r = None \<and> fds st w = None \<and> r \<noteq> w \<and> r < lim \<and> w < lim \<and>
    st' = st\<lparr>fds := (fds st)(r \<mapsto> PipeRd (npipes st), w \<mapsto> PipeWr (npipes st)), npipes := Suc (npipes st)\<rparr>"
  using assms by (auto simp: sys_pipe_def Let_def dest!: free_fd_Some split: option.splits if_splits)

lemma sys_pipe_None: "sys_pipe lim ok st = (None, st') \<Longrightarrow> st' = st"
  by (auto simp: sys_pipe_def Let_def split: option.splits if_splits)

lemma pop_okD:
  assumes "pop_ok lim st"
  shows "fds st fd = Some x \<Longrightarrow> pipe_no x = Some n \<Longrightarrow> n < npipes st"
    and "childpid st = Some cp \<Longrightarrow> cp fd \<noteq> 0 \<Longrightarrow> 0 < cp fd \<and> 2 < fd \<and> fd < lim"
    and "childpid st = Some cp \<Longrightarrow> cp fd \<noteq> 0 \<Longrightarrow> \<exists>x n. fds st fd = Some x \<and> pipe_no x = Some n"
    and "childpid st = Some cp \<Longrightarrow> cp fd \<noteq> 0 \<Longrightarrow> fds st fd' = fds st fd \<Longrightarrow> fd' = fd"
    and "fds st 0 \<noteq> None \<and> fds st 1 \<noteq> None \<and> fds st 2 \<noteq> None" and "childpid st = None \<or> maxfd st = lim"
  using assms by (auto simp: pop_ok_def)

lemma le_2: "(k::nat) \<le> 2 \<longleftrightarrow> k \<in> {0, 1, 2}"
  by auto

lemma free_above: "pop_ok lim st \<Longrightarrow> fds st fd = None \<Longrightarrow> 2 < fd"
  using pop_okD(5) [of lim st] le_2 [of fd] by (cases "fd \<le> 2") auto

lemma pipe_ok_state:
  assumes ok: "pop_ok lim st" and p: "sys_pipe lim b st = (Some (r, w), st')"
  shows "pop_ok lim st'"
proof -
  from sys_pipe_Some [OF p] have f: "fds st r = None" "fds st w = None" "r \<noteq> w"
    and st': "st' = st\<lparr>fds := (fds st)(r \<mapsto> PipeRd (npipes st), w \<mapsto> PipeWr (npipes st)), npipes := Suc (npipes st)\<rparr>" by auto
  have old: "fd \<noteq> r \<and> fd \<noteq> w \<and> fds st fd \<noteq> Some (PipeRd (npipes st)) \<and> fds st fd \<noteq> Some (PipeWr (npipes st))"
    if "childpid st = Some cp" "cp fd \<noteq> 0" for cp fd
  proof -
    from pop_okD(3) [OF ok that] obtain x n where "fds st fd = Some x" "pipe_no x = Some n" by blast
    with pop_okD(1) [OF ok this] f show ?thesis by auto
  qed
  show ?thesis
    unfolding pop_ok_def st'
  proof (intro conjI allI impI; (elim conjE)?)
    fix fd x n
    assume "fds (st\<lparr>fds := (fds st)(r \<mapsto> PipeRd (npipes st), w \<mapsto> PipeWr (npipes st)), npipes := Suc (npipes st)\<rparr>) fd = Some x"
      "pipe_no x = Some n"
    then show "n < npipes (st\<lparr>fds := (fds st)(r \<mapsto> PipeRd (npipes st), w \<mapsto> PipeWr (npipes st)), npipes := Suc (npipes st)\<rparr>)"
      using pop_okD(1) [OF ok, of fd x n] by (auto split: if_splits)
  next
    fix cp fd
    assume a: "childpid (st\<lparr>fds := (fds st)(r \<mapsto> PipeRd (npipes st), w \<mapsto> PipeWr (npipes st)), npipes := Suc (npipes st)\<rparr>) = Some cp"
      "cp fd \<noteq> 0"
    then have a: "childpid st = Some cp" "cp fd \<noteq> 0" by simp_all
    show "0 < cp fd" "2 < fd" "fd < lim" using pop_okD(2) [OF ok a] by auto
    show "\<exists>x n. fds (st\<lparr>fds := (fds st)(r \<mapsto> PipeRd (npipes st), w \<mapsto> PipeWr (npipes st)), npipes := Suc (npipes st)\<rparr>) fd = Some x \<and> pipe_no x = Some n"
      using pop_okD(3) [OF ok a] old [OF a] by auto
    fix fd'
    assume "fds (st\<lparr>fds := (fds st)(r \<mapsto> PipeRd (npipes st), w \<mapsto> PipeWr (npipes st)), npipes := Suc (npipes st)\<rparr>) fd' =
      fds (st\<lparr>fds := (fds st)(r \<mapsto> PipeRd (npipes st), w \<mapsto> PipeWr (npipes st)), npipes := Suc (npipes st)\<rparr>) fd"
    then show "fd' = fd" using pop_okD(4) [OF ok a, of fd'] old [OF a] by (auto split: if_splits)
  qed (use ok pop_okD(5) [OF ok] in \<open>auto simp: pop_ok_def\<close>)
qed

text \<open>Taking a descriptor out, or adding one that is no stream, keeps the state well formed.\<close>

lemma close_ok:
  assumes "pop_ok lim st" and "2 < fd" and "\<forall>cp. childpid st = Some cp \<longrightarrow> cp fd = 0"
  shows "pop_ok lim (st\<lparr>fds := (fds st)(fd := None)\<rparr>)"
  using assms by (auto simp: pop_ok_def) (metis option.distinct(1))+

lemma unstream_ok:
  assumes "pop_ok lim st" and "childpid st = Some cp"
  shows "pop_ok lim (st\<lparr>childpid := Some (cp(fd := 0))\<rparr>)"
  using assms by (auto simp: pop_ok_def split: if_splits)

lemma open_ok:
  assumes "pop_ok lim st" and "fds st fd = None"
  shows "pop_ok lim (st\<lparr>fds := (fds st)(fd \<mapsto> Other s)\<rparr>)"
  using assms by (auto simp: pop_ok_def split: if_splits) (metis option.distinct(1) option.inject pipe_no.simps(3))+

lemma new_stream_ok:
  assumes "pop_ok lim st" and "childpid st = Some cp" and "maxfd st = lim" and "fds st fp = Some x" and "pipe_no x = Some n"
    and "2 < fp" and "fp < lim" and "\<And>fd. fds st fd = Some x \<Longrightarrow> fd = fp" and "0 < p"
  shows "pop_ok lim (st\<lparr>childpid := Some (cp(fp := p))\<rparr>)"
proof -
  let ?cp = "cp(fp := p)"
  have "0 < ?cp fd \<and> 2 < fd \<and> fd < lim \<and> (\<exists>x n. fds st fd = Some x \<and> pipe_no x = Some n) \<and> (\<forall>fd'. fds st fd' = fds st fd \<longrightarrow> fd' = fd)"
    if "?cp fd \<noteq> 0" for fd
  proof (cases "fd = fp")
    case True
    have "\<exists>x n. fds st fp = Some x \<and> pipe_no x = Some n" using assms(4,5) by blast
    moreover have "\<forall>fd'. fds st fd' = fds st fp \<longrightarrow> fd' = fp" using assms(8) unfolding assms(4) by blast
    ultimately show ?thesis using assms(6,7,9) True by simp
  next
    case False
    then have "cp fd \<noteq> 0" using that by simp
    from pop_okD(2-4) [OF assms(1,2) this] show ?thesis using False by (simp only: fun_upd_apply if_False) blast
  qed
  then have "\<forall>cp' fd. childpid (st\<lparr>childpid := Some ?cp\<rparr>) = Some cp' \<and> cp' fd \<noteq> 0 \<longrightarrow> 0 < cp' fd \<and> 2 < fd \<and> fd < lim \<and>
      (\<exists>x n. fds st fd = Some x \<and> pipe_no x = Some n) \<and> (\<forall>fd'. fds st fd' = fds st fd \<longrightarrow> fd' = fd)"
    by (simp del: fun_upd_apply)
  then show ?thesis using assms(1,3) unfolding pop_ok_def by simp
qed

lemma pop_ok_kids [simp]:
  "pop_ok lim (st\<lparr>kids := ks, fds := t\<rparr>) = pop_ok lim (st\<lparr>fds := t\<rparr>)"
  "pop_ok lim (st\<lparr>kids := ks, fds := t, childpid := c\<rparr>) = pop_ok lim (st\<lparr>fds := t, childpid := c\<rparr>)"
  by (simp_all add: pop_ok_def)

lemma popen_go_ok:
  assumes ok: "pop_ok lim st" and cp: "childpid st = Some cp" and pid: "\<forall>p. fork_pid e = Some p \<longrightarrow> 0 < p"
    and r: "popen_go lim e cmd rd cp st = ret (res, st')"
  shows "pop_ok lim st'"
proof (cases "sys_pipe lim (pipe_ok e) st")
  case (Pair q st1)
  show ?thesis
  proof (cases q)
    case None
    then show ?thesis using r Pair ok sys_pipe_None [of lim "pipe_ok e" st st1] by (simp add: popen_go_def)
  next
    case (Some rw)
    obtain r' w where rw: "rw = (r', w)" by fastforce
    have p: "sys_pipe lim (pipe_ok e) st = (Some (r', w), st1)" using Pair Some rw by simp
    note st1 = sys_pipe_Some [OF p]
    have ok1: "pop_ok lim st1" using pipe_ok_state [OF ok p] .
    have cp1: "childpid st1 = Some cp" using st1 cp by simp
    have zero: "cp r' = 0" "cp w = 0"
      using pop_okD(3) [OF ok cp, of r'] pop_okD(3) [OF ok cp, of w] st1 by auto
    have big: "2 < r'" "2 < w" using free_above [OF ok] st1 by auto
    let ?shut = "if rd then w else r'" and ?fp = "if rd then r' else w"
    let ?st2 = "st1\<lparr>fds := (fds st1)(?shut := None)\<rparr>"
    have ok2: "pop_ok lim ?st2" by (rule close_ok [OF ok1]) (use big zero cp1 in auto)
    have m: "maxfd st = lim" "maxfd st1 = lim" using pop_okD(6) [OF ok] st1 cp by auto
    have fp: "fds ?st2 ?fp = Some (if rd then PipeRd (npipes st) else PipeWr (npipes st))" using st1 by auto
    have uniq: "fds ?st2 fd = fds ?st2 ?fp \<longleftrightarrow> fd = ?fp" for fd
      using fp st1 pop_okD(1) [OF ok, of fd "PipeRd (npipes st)"] pop_okD(1) [OF ok, of fd "PipeWr (npipes st)"]
      by (auto split: if_splits)
    have ok3: "pop_ok lim (?st2\<lparr>childpid := Some (cp(?fp := p))\<rparr>)" if "0 < p" for p
      using fp uniq st1 big that
      by (intro new_stream_ok [OF ok2 _ _ fp, of cp "npipes st"]) (auto simp: cp cp1 m split: if_splits)
    show ?thesis
    proof (cases "fork_pid e")
      case None
      then show ?thesis using r p ok1 by (simp add: popen_go_def)
    next
      case (Some pid')
      then show ?thesis
        using r p ok2 ok3 [of pid'] pid
        by (auto simp: popen_go_def Let_def split: if_splits)
    qed
  qed
qed

lemma popen_ok:
  assumes ok: "pop_ok lim st" and pid: "\<forall>p. fork_pid e = Some p \<longrightarrow> 0 < p" and lim: "openmax e = lim"
    and r: "popen lim e cmd typ st = ret (res, st')"
  shows "pop_ok lim st'"
proof (cases "childpid st")
  case None
  have 1: "pop_ok lim (st\<lparr>maxfd := lim\<rparr>)" using ok None by (simp add: pop_ok_def)
  have 2: "pop_ok lim (st\<lparr>maxfd := lim, childpid := Some (\<lambda>_. 0)\<rparr>)" using ok by (simp add: pop_ok_def)
  show ?thesis
    using r None 1 ok lim popen_go_ok [OF 2 _ pid, of "\<lambda>_. 0" cmd "typ = ''r''" res st'] by (simp add: popen_def split: if_splits)
next
  case (Some cp)
  then show ?thesis
    using r ok popen_go_ok [OF ok Some pid, of cmd "typ = ''r''" res st'] by (simp add: popen_def split: if_splits)
qed

lemma pclose_ok:
  assumes ok: "pop_ok lim st" and r: "pclose fok waits fp st = ret (x, st')"
  shows "pop_ok lim st'"
proof (cases "childpid st")
  case None
  then show ?thesis using r ok by (simp add: pclose_def)
next
  case (Some cp)
  show ?thesis
  proof (cases "cp fp = 0")
    case True
    then show ?thesis using r ok Some by (simp add: pclose_def split: if_splits)
  next
    case False
    have "pop_ok lim (st\<lparr>childpid := Some (cp(fp := 0)), fds := (fds st)(fp := None)\<rparr>)"
      using close_ok [OF unstream_ok [OF ok Some, of fp], of fp] pop_okD(2) [OF ok Some False] by simp
    then show ?thesis using r Some False by (auto simp: pclose_def Let_def run_simps split: if_splits)
  qed
qed

lemma pop_reach_ok: "(pop_step lim)\<^sup>*\<^sup>* pop_start st \<Longrightarrow> pop_ok lim st"
proof (induction rule: rtranclp_induct)
  case base
  show ?case by (auto simp: pop_ok_def pop_start_def split: if_splits)
next
  case (step st st')
  from step(2) show ?case
  proof cases
    case (do_open fd s)
    then show ?thesis using open_ok [OF step.IH] free_fd_Some by blast
  qed (use step.IH popen_ok pclose_ok close_ok in blast)+
qed

text \<open>What the child of a successful call has: its end of the new pipe, the files of the program, and no stream.\<close>

lemma popen_go_kid:
  assumes ok: "pop_ok lim st" and cp: "childpid st = Some cp" and m: "maxfd st = lim"
    and r: "popen_go lim e cmd rd cp st = ret (Some fp, st')"
  shows "\<exists>pid. fork_pid e = Some pid \<and> (\<exists>t. kids st' = \<lparr>kid_pid = pid, kid_tab = t, kid_cmd = cmd\<rparr> # kids st \<and>
      fds st' fp = Some (if rd then PipeRd (npipes st) else PipeWr (npipes st)) \<and>
      t (if rd then 1 else 0) = Some (if rd then PipeWr (npipes st) else PipeRd (npipes st)) \<and>
      (\<forall>i. i \<noteq> (if rd then 1 else 0) \<longrightarrow> t i = (if cp i \<noteq> 0 then None else fds st i))) \<and>
    childpid st' = Some (cp(fp := pid)) \<and> maxfd st' = lim"
proof -
  from r obtain r' w st1 pid where p: "sys_pipe lim (pipe_ok e) st = (Some (r', w), st1)" and pid: "fork_pid e = Some pid"
    and fp: "fp = (if rd then r' else w)"
    and st': "st' = st1\<lparr>kids := \<lparr>kid_pid = pid, kid_tab = popen_child rd r' w (maxfd st1) cp (fds st1), kid_cmd = cmd\<rparr> # kids st1,
        fds := (fds st1)((if rd then w else r') := None), childpid := Some (cp(fp := pid))\<rparr>"
    by (auto simp: popen_go_def Let_def split: option.splits prod.splits if_splits)
  note st1 = sys_pipe_Some [OF p]
  have z: "cp i \<noteq> 0 \<Longrightarrow> 0 < cp i \<and> 2 < i \<and> i < lim" for i using pop_okD(2) [OF ok cp] .
  have z': "cp r' = 0" "cp w = 0" using pop_okD(3) [OF ok cp, of r'] pop_okD(3) [OF ok cp, of w] st1 by auto
  have big: "2 < r'" "2 < w" using free_above [OF ok] st1 by auto
  let ?t = "popen_child rd r' w (maxfd st1) cp (fds st1)"
  have t: "?t i = (if cp i \<noteq> 0 then None
      else if i = (if rd then 1 else 0) then Some (if rd then PipeWr (npipes st) else PipeRd (npipes st)) else fds st i)" for i
  proof (cases "cp i = 0")
    case True
    then show ?thesis using st1 big m by (auto simp: popen_child_def Let_def)
  next
    case False
    then show ?thesis using z [OF False] st1 m by (simp add: popen_child_def)
  qed
  have "cp (if rd then 1 else 0) = 0" using z [of "if rd then 1 else 0"] by (cases rd) force+
  then have t1: "?t (if rd then 1 else 0) = Some (if rd then PipeWr (npipes st) else PipeRd (npipes st))"
    and t2: "\<forall>i. i \<noteq> (if rd then 1 else 0) \<longrightarrow> ?t i = (if cp i \<noteq> 0 then None else fds st i)"
    by (simp_all only: t if_True if_False if_cancel) simp_all
  have "kids st' = \<lparr>kid_pid = pid, kid_tab = ?t, kid_cmd = cmd\<rparr> # kids st" using st' st1 by simp
  moreover have "fds st' fp = Some (if rd then PipeRd (npipes st) else PipeWr (npipes st))" using st' st1 fp by auto
  moreover have "childpid st' = Some (cp(fp := pid))" "maxfd st' = lim" using st' st1 m by simp_all
  ultimately show ?thesis using pid t1 t2 by blast
qed

lemma pclose_waits:
  assumes "childpid st = Some cp" and "fp < maxfd st" and "cp fp \<noteq> 0" and "waits (cp fp) = replicate k WEintr @ WStatus x # ws"
  shows "\<exists>st'. pclose True waits fp st = ret (x, st') \<and> fds st' fp = None \<and> \<not> is_stream st' fp"
proof -
  have "wait_for (replicate k WEintr @ WStatus x # ws) = ret x" by (induction k) simp_all
  then show ?thesis using assms by (simp add: pclose_def is_stream_def Let_def)
qed

text \<open>Whether or not the table of children was there before: the call is that of \<open>popen_go\<close>.\<close>

lemma popen_via_go:
  assumes "pop_ok lim st" and "openmax e = lim" and "popen lim e cmd typ st = ret (Some fp, st')"
  obtains cp st0 where "childpid st0 = Some cp" "maxfd st0 = lim" "pop_ok lim st0" "npipes st0 = npipes st" "fds st0 = fds st" "kids st0 = kids st"
    and "\<And>j. is_stream st j \<longleftrightarrow> cp j \<noteq> 0" and "popen_go lim e cmd (typ = ''r'') cp st0 = ret (Some fp, st')"
proof (cases "childpid st")
  case None
  have "pop_ok lim (st\<lparr>maxfd := lim, childpid := Some (\<lambda>_. 0)\<rparr>)" using assms(1) by (simp add: pop_ok_def)
  then show ?thesis
    using that [of "st\<lparr>maxfd := lim, childpid := Some (\<lambda>_. 0)\<rparr>" "\<lambda>_. 0"] assms(3) None assms(2)
    by (simp add: popen_def is_stream_def split: if_splits)
next
  case (Some cp)
  then show ?thesis
    using that [of st cp] assms(1,3) pop_okD(6) [OF assms(1)] by (simp add: popen_def is_stream_def split: if_splits)
qed

text \<open>
  C26: after any calls of \<^verbatim>\<open>popen\<close> and \<^verbatim>\<open>pclose\<close>, and of \<^verbatim>\<open>open\<close> and \<^verbatim>\<open>close\<close> for other files, a further \<^verbatim>\<open>popen\<close> that
  succeeds has started one child: its standard output (input) is the other end of the pipe that the stream
  is the one end of, it holds no end of that pipe elsewhere, no descriptor of it is a stream that was open before, and
  all its other files are those of the program.  A \<^verbatim>\<open>pclose\<close> of the stream waits for just this child, through
  interrupts, and closes the descriptor.
\<close>

theorem popen_isolates_children:
  assumes reach: "(pop_step lim)\<^sup>*\<^sup>* pop_start st" and e: "openmax e = lim" "\<forall>p. fork_pid e = Some p \<longrightarrow> 0 < p"
    and r: "popen lim e cmd typ st = ret (Some fp, st')"
  shows "\<exists>c pid n. kids st' = c # kids st \<and> fork_pid e = Some pid \<and> kid_pid c = pid \<and> kid_cmd c = cmd \<and>
    fds st' fp = Some (if typ = ''r'' then PipeRd n else PipeWr n) \<and>
    kid_tab c (if typ = ''r'' then 1 else 0) = Some (if typ = ''r'' then PipeWr n else PipeRd n) \<and>
    (\<forall>i x. i \<noteq> (if typ = ''r'' then 1 else 0) \<and> kid_tab c i = Some x \<longrightarrow>
      fds st i = Some x \<and> pipe_no x \<noteq> Some n \<and> (\<forall>j. is_stream st j \<longrightarrow> fds st j \<noteq> Some x)) \<and>
    (\<forall>k x ws waits. waits pid = replicate k WEintr @ WStatus x # ws \<longrightarrow>
      (\<exists>st2. pclose True waits fp st' = ret (x, st2) \<and> fds st2 fp = None \<and> \<not> is_stream st2 fp))"
proof -
  have ok: "pop_ok lim st" using reach by (rule pop_reach_ok)
  obtain cp st0 where c0: "childpid st0 = Some cp" "maxfd st0 = lim" "pop_ok lim st0" "npipes st0 = npipes st" "fds st0 = fds st" "kids st0 = kids st"
    and str: "\<And>j. is_stream st j \<longleftrightarrow> cp j \<noteq> 0" and go: "popen_go lim e cmd (typ = ''r'') cp st0 = ret (Some fp, st')"
    using popen_via_go [OF ok e(1) r] by metis
  from popen_go_kid [OF c0(3,1,2) go] obtain pid t where pid: "fork_pid e = Some pid"
    and k: "kids st' = \<lparr>kid_pid = pid, kid_tab = t, kid_cmd = cmd\<rparr> # kids st"
    and f: "fds st' fp = Some (if typ = ''r'' then PipeRd (npipes st) else PipeWr (npipes st))"
    and t1: "t (if typ = ''r'' then 1 else 0) = Some (if typ = ''r'' then PipeWr (npipes st) else PipeRd (npipes st))"
    and t2: "\<And>i. i \<noteq> (if typ = ''r'' then 1 else 0) \<Longrightarrow> t i = (if cp i \<noteq> 0 then None else fds st i)"
    and c: "childpid st' = Some (cp(fp := pid))" "maxfd st' = lim"
    using c0 by auto
  have other: "fds st i = Some x \<and> pipe_no x \<noteq> Some (npipes st) \<and> (\<forall>j. is_stream st j \<longrightarrow> fds st j \<noteq> Some x)"
    if "i \<noteq> (if typ = ''r'' then 1 else 0)" "t i = Some x" for i x
  proof -
    from t2 [OF that(1)] that(2) have i: "cp i = 0" "fds st i = Some x" by (auto split: if_splits)
    then have "pipe_no x \<noteq> Some (npipes st)" using pop_okD(1) [OF ok, of i x "npipes st"] by auto
    moreover have "fds st j \<noteq> Some x" if "is_stream st j" for j
    proof
      assume "fds st j = Some x"
      then have "fds st0 i = fds st0 j" unfolding c0(5) using i(2) by simp
      moreover have "cp j \<noteq> 0" using that str by blast
      ultimately have "i = j" using pop_okD(4) [OF c0(3,1)] by blast
      with i(1) \<open>cp j \<noteq> 0\<close> show False by simp
    qed
    ultimately show ?thesis using i by blast
  qed
  have p0: "0 < pid" using e(2) pid by simp
  have "fp < lim" using pop_okD(2) [OF popen_go_ok [OF c0(3,1) e(2) go] c(1), of fp] p0 by simp
  with p0 have "\<exists>st2. pclose True waits fp st' = ret (x, st2) \<and> fds st2 fp = None \<and> \<not> is_stream st2 fp"
    if "waits pid = replicate k WEintr @ WStatus x # ws" for k x ws waits
    using pclose_waits [OF c(1), of fp waits k x ws] c(2) that by simp
  then show ?thesis using pid k f t1 other by (intro exI [of _ "\<lparr>kid_pid = pid, kid_tab = t, kid_cmd = cmd\<rparr>"] exI [of _ pid] exI [of _ "npipes st"])
      (simp only: kid.select_convs simp_thms, blast)
qed

theorem popen_isolates_children_witness:
  "let e = \<lparr>calloc_ok = True, openmax = 8, pipe_ok = True, fork_pid = Some 70, fdopen_ok = True\<rparr>;
     e2 = e\<lparr>fork_pid := Some 71\<rparr> in
   \<exists>st st' c. popen 8 e ''ls'' ''r'' pop_start = ret (Some 3, st) \<and> popen 8 e2 ''cat'' ''w'' st = ret (Some 5, st') \<and>
     kids st' = c # kids st \<and> kid_tab c 0 = Some (PipeRd 1) \<and> kid_tab c 3 = None"
proof -
  let ?e = "\<lparr>calloc_ok = True, openmax = 8, pipe_ok = True, fork_pid = Some 70, fdopen_ok = True\<rparr>"
  let ?st = "snd (projr (the (popen 8 ?e ''ls'' ''r'' pop_start)))"
  have ls: "popen 8 ?e ''ls'' ''r'' pop_start = ret (Some 3, ?st)"
    by (simp add: popen_def popen_go_def sys_pipe_def free_fd_def pop_start_def upt_rec Let_def)
  have "pop_step 8 pop_start ?st"
    by (rule do_popen [OF ls]) simp_all
  then have st: "(pop_step 8)\<^sup>*\<^sup>* pop_start ?st" by (rule r_into_rtranclp)
  let ?r = "popen 8 (?e\<lparr>fork_pid := Some 71\<rparr>) ''cat'' ''w'' ?st"
  have cat: "?r = ret (Some 5, snd (projr (the ?r)))"
    by (simp add: popen_def popen_go_def sys_pipe_def free_fd_def pop_start_def upt_rec Let_def)
  have stream: "is_stream ?st 3" "npipes ?st = 1" "fds ?st 3 = Some (PipeRd 0)"
    by (simp_all add: is_stream_def popen_def popen_go_def sys_pipe_def free_fd_def pop_start_def upt_rec Let_def)
  from popen_isolates_children [OF st _ _ cat] obtain c n where c: "kids (snd (projr (the ?r))) = c # kids ?st"
    "kid_tab c 0 = Some (PipeRd n)" "fds (snd (projr (the ?r))) 5 = Some (PipeWr n)"
    "\<And>i x. i \<noteq> 0 \<Longrightarrow> kid_tab c i = Some x \<Longrightarrow> fds ?st i = Some x \<and> (\<forall>j. is_stream ?st j \<longrightarrow> fds ?st j \<noteq> Some x)"
    by auto
  have "n = 1" using c(3) by (simp add: popen_def popen_go_def sys_pipe_def free_fd_def pop_start_def upt_rec Let_def)
  moreover have "kid_tab c 3 = None" using c(4) [of 3] stream by (cases "kid_tab c 3") auto
  ultimately show ?thesis unfolding Let_def using ls cat c by blast
qed

end
