(* ===== verification/Connect.thy ===== *)
theory Connect
  imports CText
begin

unbundle bit_operations_syntax

section \<open>Local connections: \<^verbatim>\<open>lib/servlisten.c\<close>, \<^verbatim>\<open>lib/cliconn.c\<close> and \<^verbatim>\<open>lib/servaccept.c\<close>\<close>

text \<open>
  A server listens at a name in the file system.  A client binds its own socket to a name in \<^verbatim>\<open>/var/tmp\<close> that it makes
  accessible to itself only, and connects; the server learns who the client is from the owner of that file.  The state has
  the files, the names that are listened at and the connections that wait there, each with the name of its client.  What the
  kernel decides otherwise (\<^verbatim>\<open>socket\<close>, \<^verbatim>\<open>listen\<close>, and whether the process may make or remove a name) is an argument.
\<close>

record sockfile =
  st_issock :: bool
  st_mode :: "32 word"
  st_uid :: nat
  st_atime :: int
  st_ctime :: int
  st_mtime :: int

record net =
  files :: "string \<Rightarrow> sockfile option"
  listening :: "string \<Rightarrow> bool"
  waiting_at :: "string \<Rightarrow> string list"

record usys =
  socket_ok :: bool
  listen_ok :: bool
  accept_ok :: bool
  may_make :: "string \<Rightarrow> bool"
  may_remove :: "string \<Rightarrow> bool"
  may_connect :: "string \<Rightarrow> bool"
  euid :: nat
  umask :: "32 word"
  clock :: int

definition S_IRWXU :: "32 word" where "S_IRWXU = 448"
definition S_IRWXG :: "32 word" where "S_IRWXG = 56"
definition S_IRWXO :: "32 word" where "S_IRWXO = 7"

text \<open>The room for a name in a \<^verbatim>\<open>sockaddr_un\<close>.\<close>

definition SUN_PATH :: nat where
  "SUN_PATH = 108"

definition sys_unlink :: "usys \<Rightarrow> string \<Rightarrow> net \<Rightarrow> net" where
  "sys_unlink k name s = (if may_remove k name then s\<lparr>files := (files s)(name := None)\<rparr> else s)"

definition sys_bind :: "usys \<Rightarrow> string \<Rightarrow> net \<Rightarrow> net option" where
  "sys_bind k name s =
     (if files s name \<noteq> None \<or> \<not> may_make k name then None
      else Some (s\<lparr>files := (files s)(name \<mapsto> \<lparr>st_issock = True, st_mode = 511 AND NOT (umask k), st_uid = euid k,
        st_atime = clock k, st_ctime = clock k, st_mtime = clock k\<rparr>)\<rparr>))"

definition sys_chmod :: "usys \<Rightarrow> string \<Rightarrow> 32 word \<Rightarrow> net \<Rightarrow> net option" where
  "sys_chmod k name mode s = (case files s name of
     None \<Rightarrow> None
   | Some f \<Rightarrow> if st_uid f = euid k
       then Some (s\<lparr>files := (files s)(name \<mapsto> f\<lparr>st_mode := mode, st_ctime := clock k\<rparr>)\<rparr>) else None)"

subsection \<open>The three functions\<close>

text \<open>The results are those of the code; 0 stands for the descriptor of a successful call.\<close>

definition QLEN :: nat where
  "QLEN = 10"

definition serv_listen :: "usys \<Rightarrow> string \<Rightarrow> net \<Rightarrow> (int \<times> net) run" where
  "serv_listen k name s =
     (if \<not> socket_ok k then ret (- 1, s)
      else
        let s = sys_unlink k name s in
        if SUN_PATH \<le> length name then die (Undef ''strcpy(un.sun_path, name)'')
        else case sys_bind k name s of
          None \<Rightarrow> ret (- 2, s)
        | Some s \<Rightarrow> if \<not> listen_ok k then ret (- 3, s) else ret (0, s\<lparr>listening := (listening s)(name := True)\<rparr>))"

definition CLI_PATH :: string where
  "CLI_PATH = ''/var/tmp/''"

definition CLI_PERM :: "32 word" where
  "CLI_PERM = S_IRWXU"

text \<open>\<^verbatim>\<open>"%s%05d"\<close> of the process number.\<close>

definition cli_name :: "nat \<Rightarrow> string" where
  "cli_name pid = CLI_PATH @ replicate (5 - length (dec pid)) (CHR ''0'') @ dec pid"

definition cli_conn :: "usys \<Rightarrow> nat \<Rightarrow> string \<Rightarrow> net \<Rightarrow> (int \<times> net) run" where
  "cli_conn k pid name s =
     (if \<not> socket_ok k then ret (- 1, s)
      else
        let un = cli_name pid; s = sys_unlink k un s in
        case sys_bind k un s of
          None \<Rightarrow> ret (- 2, s)
        | Some s \<Rightarrow> (case sys_chmod k un CLI_PERM s of
            None \<Rightarrow> ret (- 3, s)
          | Some s \<Rightarrow>
              if SUN_PATH \<le> length name then die (Undef ''strcpy(un.sun_path, name)'')
              else if \<not> (listening s name \<and> may_connect k name \<and> length (waiting_at s name) < QLEN) then ret (- 4, s)
              else ret (0, s\<lparr>waiting_at := (waiting_at s)(name := waiting_at s name @ [un])\<rparr>)))"

definition STALE :: int where
  "STALE = 30"

text \<open>The result and, when it is a descriptor, the user; \<open>sun_path[len] = 0\<close> is one byte too far when the name fills it.\<close>

definition serv_accept :: "usys \<Rightarrow> string \<Rightarrow> net \<Rightarrow> (int \<times> nat option \<times> net) run" where
  "serv_accept k name s = (if \<not> accept_ok k then ret (- 1, None, s) else case waiting_at s name of
     [] \<Rightarrow> None
   | un # uns \<Rightarrow>
       let s = s\<lparr>waiting_at := (waiting_at s)(name := uns)\<rparr> in
       if SUN_PATH \<le> length un then die (Undef ''un.sun_path[len]'')
       else case files s un of
         None \<Rightarrow> ret (- 2, None, s)
       | Some f \<Rightarrow>
           if \<not> st_issock f then ret (- 3, None, s)
           else if st_mode f AND (S_IRWXG OR S_IRWXO) \<noteq> 0 \<or> st_mode f AND S_IRWXU \<noteq> S_IRWXU then ret (- 4, None, s)
           else
             let staletime = clock k - STALE in
             if st_atime f < staletime \<or> st_ctime f < staletime \<or> st_mtime f < staletime then ret (- 5, None, s)
             else ret (0, Some (st_uid f), sys_unlink k un s))"

subsection \<open>Who the client is\<close>

definition private_mode :: "32 word \<Rightarrow> bool" where
  "private_mode m \<longleftrightarrow> m AND (S_IRWXG OR S_IRWXO) = 0 \<and> m AND S_IRWXU = S_IRWXU"

lemma CLI_PERM_private: "private_mode CLI_PERM"
  by (simp add: private_mode_def CLI_PERM_def S_IRWXU_def S_IRWXG_def S_IRWXO_def)

lemma cli_conn_ok:
  assumes "cli_conn k pid name s = ret (0, s')"
  shows "waiting_at s' name = waiting_at s name @ [cli_name pid] \<and> listening s' name \<and>
    files s' = (files s)(cli_name pid \<mapsto> \<lparr>st_issock = True, st_mode = CLI_PERM, st_uid = euid k,
      st_atime = clock k, st_ctime = clock k, st_mtime = clock k\<rparr>)"
  using assms
  by (auto simp: cli_conn_def sys_bind_def sys_chmod_def sys_unlink_def Let_def fun_eq_iff split: option.splits if_splits)

text \<open>The length of a process number, and so of the client's name: it fits, with its NUL, into a \<^verbatim>\<open>sockaddr_un\<close>.\<close>

lemma length_cli_name: "pid < 10 ^ 90 \<Longrightarrow> length (cli_name pid) < SUN_PATH"
  using length_dec_le [of pid 90] by (simp add: cli_name_def CLI_PATH_def SUN_PATH_def)



end
