(* ===== verification/ErrLog.thy ===== *)
theory ErrLog
  imports CalldFiles
begin

section \<open>The error routines: \<^verbatim>\<open>lib/error.c\<close> and \<^verbatim>\<open>lib/errorlog.c\<close>\<close>

text \<open>
  The routines are given the text that their format and arguments make, and the message of the error number.  They print
  into a buffer of \<^verbatim>\<open>MAXLINE\<close> bytes; the result is what goes to standard error or to the log, and how the process goes on.
  \<^verbatim>\<open>syslog\<close> takes the text as a format once more: a conversion has no argument there.
\<close>

datatype after = Returns | Exits int | Aborts

text \<open>\<^verbatim>\<open>vsnprintf\<close> and \<^verbatim>\<open>snprintf\<close> write at most \<open>n - 1\<close> characters and a NUL.\<close>

definition snprintf :: "nat \<Rightarrow> string \<Rightarrow> string" where
  "snprintf n s = take (n - 1) s"

definition strcat_in :: "nat \<Rightarrow> string \<Rightarrow> string \<Rightarrow> string run" where
  "strcat_in n s t = (if n \<le> length s + length t then die (Undef ''strcat'') else ret (s @ t))"

definition err_doit :: "bool \<Rightarrow> string \<Rightarrow> string \<Rightarrow> string run" where
  "err_doit errnoflag strerr msg =
     (let buf = snprintf MAXLINE msg;
          buf = (if errnoflag then buf @ snprintf (MAXLINE - length buf) ('': '' @ strerr) else buf)
      in strcat_in MAXLINE buf [newline])"

definition err_ret :: "string \<Rightarrow> string \<Rightarrow> (string \<times> after) run" where
  "err_ret strerr msg = rbind (err_doit True strerr msg) (\<lambda>out. ret (out, Returns))"

definition err_sys :: "string \<Rightarrow> string \<Rightarrow> (string \<times> after) run" where
  "err_sys strerr msg = rbind (err_doit True strerr msg) (\<lambda>out. ret (out, Exits 1))"

definition err_exit :: "(int \<Rightarrow> string) \<Rightarrow> int \<Rightarrow> string \<Rightarrow> (string \<times> after) run" where
  "err_exit strerror error msg = rbind (err_doit True (strerror error) msg) (\<lambda>out. ret (out, Exits 1))"

definition err_dump :: "string \<Rightarrow> string \<Rightarrow> (string \<times> after) run" where
  "err_dump strerr msg = rbind (err_doit True strerr msg) (\<lambda>out. ret (out, Aborts))"

definition err_msg :: "string \<Rightarrow> (string \<times> after) run" where
  "err_msg msg = rbind (err_doit False [] msg) (\<lambda>out. ret (out, Returns))"

definition err_quit :: "string \<Rightarrow> (string \<times> after) run" where
  "err_quit msg = rbind (err_doit False [] msg) (\<lambda>out. ret (out, Exits 1))"

subsection \<open>For daemons\<close>

fun syslog_text :: "string \<Rightarrow> string \<Rightarrow> string run" where
  "syslog_text strerr [] = ret []"
| "syslog_text strerr (c # s) =
     (if c \<noteq> CHR ''%'' then rbind (syslog_text strerr s) (\<lambda>t. ret (c # t))
      else case s of
        [] \<Rightarrow> die (Undef ''syslog(priority, buf)'')
      | d # s \<Rightarrow>
          if d = CHR ''%'' then rbind (syslog_text strerr s) (\<lambda>t. ret (d # t))
          else if d = CHR ''m'' then rbind (syslog_text strerr s) (\<lambda>t. ret (strerr @ t))
          else die (Undef ''syslog(priority, buf)''))"

record logged =
  to_stderr :: string
  to_syslog :: "(nat \<times> string) list"

definition LOG_ERR :: nat where
  "LOG_ERR = 3"

definition log_open :: "bool \<Rightarrow> string \<Rightarrow> string option" where
  "log_open log_to_stderr ident = (if \<not> log_to_stderr then Some ident else None)"

definition log_doit :: "bool \<Rightarrow> bool \<Rightarrow> nat \<Rightarrow> string \<Rightarrow> string \<Rightarrow> logged run" where
  "log_doit log_to_stderr errnoflag priority strerr msg =
     (let buf = snprintf MAXLINE msg;
          buf = (if errnoflag then buf @ snprintf (MAXLINE - length buf) ('': '' @ strerr) else buf)
      in rbind (strcat_in MAXLINE buf [newline]) (\<lambda>buf.
        if log_to_stderr then ret \<lparr>to_stderr = buf, to_syslog = []\<rparr>
        else rbind (syslog_text strerr buf) (\<lambda>t. ret \<lparr>to_stderr = [], to_syslog = [(priority, t)]\<rparr>)))"

definition log_ret :: "bool \<Rightarrow> string \<Rightarrow> string \<Rightarrow> (logged \<times> after) run" where
  "log_ret e strerr msg = rbind (log_doit e True LOG_ERR strerr msg) (\<lambda>out. ret (out, Returns))"

definition log_sys :: "bool \<Rightarrow> string \<Rightarrow> string \<Rightarrow> (logged \<times> after) run" where
  "log_sys e strerr msg = rbind (log_doit e True LOG_ERR strerr msg) (\<lambda>out. ret (out, Exits 2))"

definition log_msg :: "bool \<Rightarrow> string \<Rightarrow> string \<Rightarrow> (logged \<times> after) run" where
  "log_msg e strerr msg = rbind (log_doit e False LOG_ERR strerr msg) (\<lambda>out. ret (out, Returns))"

definition log_quit :: "bool \<Rightarrow> string \<Rightarrow> string \<Rightarrow> (logged \<times> after) run" where
  "log_quit e strerr msg = rbind (log_doit e False LOG_ERR strerr msg) (\<lambda>out. ret (out, Exits 2))"

subsection \<open>What they print\<close>

definition full_text :: "bool \<Rightarrow> string \<Rightarrow> string \<Rightarrow> string" where
  "full_text errnoflag strerr msg = msg @ (if errnoflag then '': '' @ strerr else [])"

lemma err_doit_exact:
  "err_doit f e msg = (if length (full_text f e msg) + 2 \<le> MAXLINE then ret (full_text f e msg @ [newline]) else die (Undef ''strcat''))"
proof (cases "length msg < MAXLINE - 1")
  case True
  then show ?thesis
    by (auto simp: err_doit_def snprintf_def strcat_in_def full_text_def newline_def Let_def MAXLINE_def)
next
  case False
  then show ?thesis
    by (auto simp: err_doit_def snprintf_def strcat_in_def full_text_def newline_def Let_def MAXLINE_def)
qed

lemma log_doit_err_doit:
  "log_doit e f p str msg = rbind (err_doit f str msg) (\<lambda>buf.
     if e then ret \<lparr>to_stderr = buf, to_syslog = []\<rparr>
     else rbind (syslog_text str buf) (\<lambda>t. ret \<lparr>to_stderr = [], to_syslog = [(p, t)]\<rparr>))"
  by (simp add: log_doit_def err_doit_def Let_def)

lemma syslog_plain: "CHR ''%'' \<notin> set s \<Longrightarrow> syslog_text e s = ret s"
  by (induction s) auto

text \<open>
  C28: each routine prints its whole message, with the message of the error number if it is to, and ends the way its name says,
  exactly when the text has at most \<^verbatim>\<open>MAXLINE\<close> - 2 characters; a longer one makes \<^verbatim>\<open>strcat\<close> write behind the
  buffer.  The log gets the same text when it holds no percent sign.
\<close>

theorem error_routines_text:
  "(let t = full_text True e msg; u = full_text False e msg;
        fits = (\<lambda>t. length t + 2 \<le> MAXLINE);
        run = (\<lambda>t a. if fits t then ret (t @ [newline], a) else die (Undef ''strcat''));
        lrun = (\<lambda>err t a. if \<not> fits t then die (Undef ''strcat'')
                 else ret (if err then \<lparr>to_stderr = t @ [newline], to_syslog = []\<rparr>
                           else \<lparr>to_stderr = [], to_syslog = [(LOG_ERR, t @ [newline])]\<rparr>, a))
    in err_ret e msg = run t Returns \<and> err_sys e msg = run t (Exits 1) \<and> err_dump e msg = run t Aborts \<and>
       err_exit (\<lambda>_. e) n msg = run t (Exits 1) \<and> err_msg msg = run u Returns \<and> err_quit msg = run u (Exits 1) \<and>
       (CHR ''%'' \<notin> set (full_text True e msg) \<longrightarrow>
         log_ret err e msg = lrun err t Returns \<and> log_sys err e msg = lrun err t (Exits 2) \<and>
         log_msg err e msg = lrun err u Returns \<and> log_quit err e msg = lrun err u (Exits 2)))"
proof -
  have u: "full_text False e' msg = full_text False e msg" for e' by (simp add: full_text_def)
  have l: "log_doit err f LOG_ERR e msg = (if length (full_text f e msg) + 2 \<le> MAXLINE
      then ret (if err then \<lparr>to_stderr = full_text f e msg @ [newline], to_syslog = []\<rparr>
        else \<lparr>to_stderr = [], to_syslog = [(LOG_ERR, full_text f e msg @ [newline])]\<rparr>)
      else die (Undef ''strcat''))" if "CHR ''%'' \<notin> set (full_text True e msg)" for f
  proof -
    have "CHR ''%'' \<notin> set (full_text f e msg @ [newline])" using that by (cases f) (auto simp: full_text_def newline_def)
    then show ?thesis by (simp add: log_doit_err_doit err_doit_exact syslog_plain)
  qed
  show ?thesis
    unfolding Let_def err_ret_def err_sys_def err_dump_def err_exit_def err_msg_def err_quit_def
      log_ret_def log_sys_def log_msg_def log_quit_def
    using l by (simp add: err_doit_exact u [of "[]"])
qed

theorem error_routines_text_witness:
  "log_quit False ''No such file'' (''bad request: ls '' @ [CHR 10]) =
     ret (\<lparr>to_stderr = [], to_syslog = [(3, ''bad request: ls '' @ [CHR 10, CHR 10])]\<rparr>, Exits 2) \<and>
   err_sys ''Permission denied'' (replicate 4077 (CHR ''x'')) = die (Undef ''strcat'')"
  using error_routines_text [of "''No such file''" "''bad request: ls '' @ [CHR 10]" _ False]
    error_routines_text [of "''Permission denied''" "replicate 4077 (CHR ''x'')"]
  by (simp add: Let_def full_text_def newline_def MAXLINE_def LOG_ERR_def)

end
