(* ===== verification/ExecShell.thy ===== *)
theory ExecShell
  imports CalldFiles
begin

section \<open>A shell with arguments: \<^verbatim>\<open>Exp_3_Shell_with_Arguments/myshell.c\<close>\<close>

text \<open>
  The child splits its line at blanks into at most 31 words, and looks for the program in the directories of \<^verbatim>\<open>PATH\<close>, which
  \<^verbatim>\<open>strsep\<close> cuts up in place: the program it starts sees what is left of it.  Whether \<^verbatim>\<open>execve\<close>
  can start the file of a name is the argument \<open>exe\<close>.  The result of a child is the program with its
  arguments and the \<^verbatim>\<open>PATH\<close> it is given, or its exit status.
\<close>

definition MAX_ARG :: nat where
  "MAX_ARG = 32"

text \<open>\<^verbatim>\<open>strsep\<close> with one delimiter: the token, and the rest (\<open>None\<close> when there was no delimiter).\<close>

definition strsep :: "char \<Rightarrow> string \<Rightarrow> string \<times> string option" where
  "strsep d s = (takeWhile (\<lambda>c. c \<noteq> d) s, case dropWhile (\<lambda>c. c \<noteq> d) s of [] \<Rightarrow> None | _ # r \<Rightarrow> Some r)"

lemma strsep_shorter: "strsep d s = (t, Some r) \<Longrightarrow> length r < length s"
proof -
  assume "strsep d s = (t, Some r)"
  then obtain c where "dropWhile (\<lambda>c. c \<noteq> d) s = c # r" by (auto simp: strsep_def split: list.splits)
  then show ?thesis using length_dropWhile_le [of "\<lambda>c. c \<noteq> d" s] by simp
qed

datatype started =
    Program string "string list" string   \<comment> \<open>path, arguments and \<^verbatim>\<open>PATH\<close> of the program\<close>
  | Exited int

text \<open>
  The loop that fills \<^verbatim>\<open>argv\<close>, with the words so far; \<open>rest\<close> is \<^verbatim>\<open>bufptr\<close>.  The assignment to \<^verbatim>\<open>argv[i]\<close> comes before the
  test of \<open>i\<close>.
\<close>

function split_line :: "string list \<Rightarrow> string option \<Rightarrow> string list run" where
  "split_line argv rest =
     (if MAX_ARG \<le> length argv then die (Undef ''argv[i]'')
      else case rest of
        None \<Rightarrow> ret argv
      | Some s \<Rightarrow> (case strsep space s of (t, rest) \<Rightarrow>
          split_line (if t \<noteq> [] then argv @ [t] else argv) rest))"
  by pat_completeness auto
termination
  by (relation "measure (\<lambda>(argv, rest). case rest of None \<Rightarrow> 0 | Some s \<Rightarrow> Suc (length s))")
    (auto simp: strsep_shorter split: option.splits dest!: strsep_shorter [OF sym])

text \<open>The search along \<^verbatim>\<open>PATH\<close>, with a buffer of 100 characters; \<open>env\<close> is what the environment holds of it.\<close>

function search_path :: "(string \<Rightarrow> bool) \<Rightarrow> string list \<Rightarrow> string \<Rightarrow> string option \<Rightarrow> started run" where
  "search_path exe argv env pathev = (case pathev of
     None \<Rightarrow> ret (Exited 127)
   | Some s \<Rightarrow> (case strsep (CHR '':'') s of (dir, rest) \<Rightarrow>
       if 100 \<le> length dir + 1 + length (hd argv) then die (Undef ''strcat(path, argv[0])'')
       else if exe (dir @ ''/'' @ hd argv) then ret (Program (dir @ ''/'' @ hd argv) argv env)
       else search_path exe argv env rest))"
  by pat_completeness auto
termination
  by (relation "measure (\<lambda>(e, a, v, p). case p of None \<Rightarrow> 0 | Some s \<Rightarrow> Suc (length s))")
    (auto split: option.splits dest!: strsep_shorter [OF sym])

declare split_line.simps [simp del] search_path.simps [simp del]

definition shell_child :: "(string \<Rightarrow> bool) \<Rightarrow> string option \<Rightarrow> string \<Rightarrow> started run" where
  "shell_child exe pathev buf = (case pathev of
     None \<Rightarrow> die (ErrSys ''can't get $PATH'')
   | Some path \<Rightarrow> rbind (split_line [] (Some buf)) (\<lambda>argv.
       if argv = [] then die (Undef ''strstr(argv[0])'')
       else if CHR ''/'' \<in> set (hd argv) then
         ret (if exe (hd argv) then Program (hd argv) argv path else Exited 127)
       else search_path exe argv (fst (strsep (CHR '':'') path)) (Some path)))"

text \<open>The shell: what it prints and what its children do, line by line; \<open>fork_ok\<close> is for the successive \<^verbatim>\<open>fork\<close>s.\<close>

fun chop_newline :: "string \<Rightarrow> string run" where
  "chop_newline buf = (if buf = [] then die (Undef ''buf[strlen(buf) - 1]'')
     else ret (if last buf = newline then butlast buf else buf))"

function exp3_main :: "(string \<Rightarrow> bool) \<Rightarrow> string option \<Rightarrow> (nat \<Rightarrow> bool) \<Rightarrow> nat \<Rightarrow> string \<Rightarrow> (started run list) run" where
  "exp3_main exe pathev fork_ok n stdin =
     (if stdin = [] then ret []
      else case fgets (MAXLINE - 1) stdin of (line, rest) \<Rightarrow>
        rbind (chop_newline (cstr line)) (\<lambda>buf.
          if \<not> fork_ok n then die (ErrSys ''fork error'')
          else rbind (exp3_main exe pathev fork_ok (Suc n) rest) (\<lambda>rs. ret (shell_child exe pathev buf # rs))))"
  by pat_completeness auto
termination
  by (relation "measure (\<lambda>(e, p, f, n, s). length s)") (auto simp: MAXLINE_def dest: fgets_shorter)

subsection \<open>The words of a line\<close>

fun fields :: "char \<Rightarrow> string \<Rightarrow> string list" where
  "fields d [] = [[]]"
| "fields d (c # s) = (if c = d then [] # fields d s else case fields d s of [] \<Rightarrow> [[c]] | w # ws \<Rightarrow> (c # w) # ws)"

definition words_of :: "string \<Rightarrow> string list" where
  "words_of s = filter (\<lambda>t. t \<noteq> []) (fields space s)"

lemma fields_nonempty [simp]: "fields d s \<noteq> []"
  by (cases s) (auto split: list.split)

lemma fields_strsep: "strsep d s = (t, r) \<Longrightarrow> fields d s = t # (case r of None \<Rightarrow> [] | Some u \<Rightarrow> fields d u)"
  by (induction s arbitrary: t) (auto simp: strsep_def split: list.splits if_splits)

lemma split_line_words:
  "split_line argv (Some s) = (let ws = argv @ words_of s in if MAX_ARG \<le> length ws then die (Undef ''argv[i]'') else ret ws)"
proof (induction s arbitrary: argv rule: length_induct)
  case (1 s)
  obtain t r where tr: "strsep space s = (t, r)" by fastforce
  show ?case
  proof (cases "MAX_ARG \<le> length argv")
    case True
    then show ?thesis by (simp add: split_line.simps Let_def)
  next
    case False
    show ?thesis
    proof (cases r)
      case None
      then show ?thesis
        using False tr fields_strsep [OF tr] by (auto simp: split_line.simps words_of_def Let_def)
    next
      case (Some u)
      then have "split_line (if t \<noteq> [] then argv @ [t] else argv) (Some u) =
          (let ws = (if t \<noteq> [] then argv @ [t] else argv) @ words_of u in
            if MAX_ARG \<le> length ws then die (Undef ''argv[i]'') else ret ws)"
        using 1 strsep_shorter [of space s t u] tr by blast
      then show ?thesis
        using False tr Some fields_strsep [OF tr]
        by (subst split_line.simps) (simp add: words_of_def Let_def)
    qed
  qed
qed

lemma search_path_finds:
  "\<forall>d\<in>set (fields (CHR '':'') s). length d + 1 + length (hd argv) < 100 \<Longrightarrow>
   search_path exe argv env (Some s) = ret (case find (\<lambda>d. exe (d @ ''/'' @ hd argv)) (fields (CHR '':'') s) of
     None \<Rightarrow> Exited 127 | Some d \<Rightarrow> Program (d @ ''/'' @ hd argv) argv env)"
proof (induction s rule: length_induct)
  case (1 s)
  obtain t r where tr: "strsep (CHR '':'') s = (t, r)" by fastforce
  show ?case
  proof (cases r)
    case None
    then show ?thesis
      using 1 tr fields_strsep [OF tr] by (subst search_path.simps) (auto simp: search_path.simps)
  next
    case (Some u)
    with 1 strsep_shorter [of "CHR '':''" s t u] tr fields_strsep [OF tr] show ?thesis
      by (subst search_path.simps) auto
  qed
qed

text \<open>
  C29: with at most 31 words in its line, and when no directory of \<^verbatim>\<open>PATH\<close> makes a name of 100 characters or more, the child starts
  its first word from the first directory that has it, or by its own name when that has a slash, with exactly the words
  of the line as arguments, and exits with 127 when there is no such file.  The program that was found along
  \<^verbatim>\<open>PATH\<close> is left with the first directory only.  Without a word, or with 32, the child's behaviour is
  undefined.
\<close>

theorem shell_runs_first_match:
  assumes "\<forall>d\<in>set (fields (CHR '':'') path). length d + 1 + length (hd (words_of line)) < 100"
  shows "shell_child exe (Some path) line = (case words_of line of
      [] \<Rightarrow> die (Undef ''strstr(argv[0])'')
    | w # ws \<Rightarrow>
        if 31 \<le> length ws then die (Undef ''argv[i]'')
        else ret (if CHR ''/'' \<in> set w then (if exe w then Program w (w # ws) path else Exited 127)
          else case find (\<lambda>d. exe (d @ ''/'' @ w)) (fields (CHR '':'') path) of
            None \<Rightarrow> Exited 127
          | Some d \<Rightarrow> Program (d @ ''/'' @ w) (w # ws) (hd (fields (CHR '':'') path))))"
proof -
  have h: "fst (strsep (CHR '':'') path) = hd (fields (CHR '':'') path)"
    using fields_strsep [of "CHR '':''" path] by (cases "strsep (CHR '':'') path") auto
  show ?thesis
  proof (cases "words_of line")
    case Nil
    then show ?thesis by (simp add: shell_child_def split_line_words MAX_ARG_def)
  next
    case (Cons w ws)
    then show ?thesis
      using search_path_finds [of path "w # ws" exe "hd (fields (CHR '':'') path)"] assms h
      by (auto simp: shell_child_def split_line_words MAX_ARG_def split: option.split)
  qed
qed

theorem shell_runs_first_match_witness:
  "shell_child (\<lambda>p. p = ''/bin/ls'') (Some ''/usr/bin:/bin:/sbin'') ''  ls   -l /tmp'' =
     ret (Program ''/bin/ls'' [''ls'', ''-l'', ''/tmp''] ''/usr/bin'')"
proof -
  have "words_of ''  ls   -l /tmp'' = [''ls'', ''-l'', ''/tmp'']" by (simp add: words_of_def space_def)
  moreover have "fields (CHR '':'') ''/usr/bin:/bin:/sbin'' = [''/usr/bin'', ''/bin'', ''/sbin'']" by simp
  ultimately have w: "words_of l = [''ls'', ''-l'', ''/tmp'']" and f: "fields (CHR '':'') p = [''/usr/bin'', ''/bin'', ''/sbin'']"
    if "l = ''  ls   -l /tmp''" and "p = ''/usr/bin:/bin:/sbin''" for l p
    using that by simp_all
  have "shell_child (\<lambda>p. p = ''/bin/ls'') (Some p) l = ret (Program ''/bin/ls'' [''ls'', ''-l'', ''/tmp''] ''/usr/bin'')"
    if lp: "l = ''  ls   -l /tmp''" "p = ''/usr/bin:/bin:/sbin''" for l p
  proof -
    have "\<forall>d\<in>set (fields (CHR '':'') p). length d + 1 + length (hd (words_of l)) < 100"
      by (simp add: w [OF lp] f [OF lp])
    from shell_runs_first_match [OF this, of "\<lambda>p. p = ''/bin/ls''"] show ?thesis
      by (simp add: w [OF lp] f [OF lp])
  qed
  then show ?thesis by blast
qed

subsection \<open>Shells without arguments: \<^verbatim>\<open>proc/shell1.c\<close>, \<^verbatim>\<open>proc/shell2.c\<close>\<close>

text \<open>
  The line is the name of a program that \<^verbatim>\<open>execlp\<close> starts or not (\<open>exe\<close>).  \<^verbatim>\<open>shell2\<close> catches \<^verbatim>\<open>SIGINT\<close> (\<open>caught\<close>), \<^verbatim>\<open>shell1\<close> is killed by
  it: \<open>pints n\<close> of them come at the \<open>n\<close>-th prompt, where the read goes on afterwards, and \<open>cints n\<close> while the \<open>n\<close>-th command runs.  The
  results are the shell's output, what its children did, and how it ended.
\<close>

datatype shkid = Runs string | NotFound string int

datatype shend = ShEnds fatal | ShKilled

record shenv =
  caught :: bool
  execlp :: "string \<Rightarrow> bool"
  forks :: "nat \<Rightarrow> bool"
  waits_for :: "nat \<Rightarrow> bool"
  pints :: "nat \<Rightarrow> nat"
  cints :: "nat \<Rightarrow> nat"

definition prompt :: string where "prompt = ''% ''"

definition sig_int :: "nat \<Rightarrow> string" where
  "sig_int k = concat (replicate k (''interrupt'' @ [newline] @ prompt))"

definition sh_child :: "shenv \<Rightarrow> string \<Rightarrow> shkid" where
  "sh_child e buf = (if execlp e buf then Runs buf else NotFound (''couldn't execute: '' @ buf) 127)"

function sh_loop :: "shenv \<Rightarrow> nat \<Rightarrow> string \<Rightarrow> string \<Rightarrow> shkid list \<Rightarrow> string \<times> shkid list \<times> shend" where
  "sh_loop e n stdin out ks =
     (if 0 < pints e n \<and> \<not> caught e then (out, ks, ShKilled)
      else let out = out @ sig_int (pints e n) in
        if stdin = [] then (out, ks, ShEnds (Exit 0))
        else case fgets (MAXLINE - 1) stdin of (buf, rest) \<Rightarrow>
        (case chop_newline (cstr buf) of
           Some (Inr buf) \<Rightarrow>
             if \<not> forks e n then (out, ks, ShEnds (ErrSys ''fork error''))
             else let ks = ks @ [sh_child e buf] in
               if 0 < cints e n \<and> \<not> caught e then (out, ks, ShKilled)
               else let out = out @ sig_int (cints e n) in
                 if \<not> waits_for e n then (out, ks, ShEnds (ErrSys ''waitpid error''))
                 else sh_loop e (Suc n) rest (out @ prompt) ks
         | Some (Inl f) \<Rightarrow> (out, ks, ShEnds f)
         | None \<Rightarrow> (out, ks, ShKilled)))"
  by pat_completeness auto
termination
  by (relation "measure (\<lambda>(e, n, s, out, ks). length s)") (auto simp: MAXLINE_def dest: fgets_shorter)

declare sh_loop.simps [simp del]

definition shell1_main :: "shenv \<Rightarrow> string \<Rightarrow> string \<times> shkid list \<times> shend" where
  "shell1_main e stdin = sh_loop (e\<lparr>caught := False\<rparr>) 0 stdin prompt []"

definition shell2_main :: "bool \<Rightarrow> shenv \<Rightarrow> string \<Rightarrow> string \<times> shkid list \<times> shend" where
  "shell2_main signal_ok e stdin = (if \<not> signal_ok then ([], [], ShEnds (ErrSys ''signal error''))
     else sh_loop (e\<lparr>caught := True\<rparr>) 0 stdin prompt [])"

text \<open>How many lines \<^verbatim>\<open>shell1\<close> comes to before an interrupt.\<close>

fun lines_run :: "shenv \<Rightarrow> nat \<Rightarrow> nat \<Rightarrow> nat" where
  "lines_run e n 0 = 0"
| "lines_run e n (Suc k) = (if 0 < pints e n \<and> \<not> caught e then 0 else if 0 < cints e n \<and> \<not> caught e then 1 else Suc (lines_run e (Suc n) k))"

definition sh_line :: "string \<Rightarrow> bool" where
  "sh_line l \<longleftrightarrow> newline \<notin> set l \<and> nul \<notin> set l \<and> length l < MAXLINE - 1"

lemma sh_loop_line:
  assumes "sh_line l" and "forks e n" and "waits_for e n"
  shows "sh_loop e n (l @ newline # r) out ks =
    (if 0 < pints e n \<and> \<not> caught e then (out, ks, ShKilled)
     else if 0 < cints e n \<and> \<not> caught e then (out @ sig_int (pints e n), ks @ [sh_child e l], ShKilled)
     else sh_loop e (Suc n) r (out @ sig_int (pints e n) @ sig_int (cints e n) @ prompt) (ks @ [sh_child e l]))"
proof -
  have f: "fgets (MAXLINE - 1) (l @ newline # r) = (l @ [newline], r)" using assms(1) by (intro fgets_line) (auto simp: sh_line_def)
  have "nul \<noteq> newline" by (simp add: nul_def newline_def)
  then have "cstr (l @ [newline]) = l @ [newline]" using assms(1) by (intro cstr_id) (simp add: sh_line_def)
  then show ?thesis using f assms(2,3) by (subst sh_loop.simps) (simp add: Let_def)
qed

lemma sh_loop_lines:
  assumes "\<forall>l \<in> set ls. sh_line l" and "\<forall>n. forks e n \<and> waits_for e n"
  shows "\<exists>out' x. sh_loop e n (concat (map (\<lambda>l. l @ [newline]) ls)) out ks = (out', ks @ map (sh_child e) (take (lines_run e n (length ls)) ls), x) \<and>
    ((caught e \<or> (\<forall>n. pints e n = 0 \<and> cints e n = 0)) \<longrightarrow> x = ShEnds (Exit 0) \<and> lines_run e n (length ls) = length ls) \<and>
    ((\<forall>n. pints e n = 0 \<and> cints e n = 0) \<longrightarrow> out' = out @ concat (replicate (length ls) prompt))"
  using assms(1)
proof (induction ls arbitrary: n out ks)
  case Nil
  show ?case by (cases "0 < pints e n \<and> \<not> caught e"; subst sh_loop.simps) (auto simp: sig_int_def Let_def)
next
  case (Cons l ls)
  have step: "sh_loop e n (concat (map (\<lambda>l. l @ [newline]) (l # ls))) out ks =
    (if 0 < pints e n \<and> \<not> caught e then (out, ks, ShKilled)
     else if 0 < cints e n \<and> \<not> caught e then (out @ sig_int (pints e n), ks @ [sh_child e l], ShKilled)
     else sh_loop e (Suc n) (concat (map (\<lambda>l. l @ [newline]) ls)) (out @ sig_int (pints e n) @ sig_int (cints e n) @ prompt) (ks @ [sh_child e l]))"
    using sh_loop_line [of l e n "concat (map (\<lambda>l. l @ [newline]) ls)" out ks] Cons.prems assms(2) by simp
  consider "0 < pints e n \<and> \<not> caught e" | "\<not> (0 < pints e n \<and> \<not> caught e)" "0 < cints e n \<and> \<not> caught e"
    | "\<not> (0 < pints e n \<and> \<not> caught e)" "\<not> (0 < cints e n \<and> \<not> caught e)" by blast
  then show ?case
  proof cases
    case 3
    then show ?thesis
      using Cons.IH [of "Suc n" "out @ sig_int (pints e n) @ sig_int (cints e n) @ prompt" "ks @ [sh_child e l]"] Cons.prems unfolding step
      by (auto simp: sig_int_def)
  qed (unfold step, auto)
qed

text \<open>
  \<^verbatim>\<open>shell2\<close> starts the program of every line, in order, through any interrupts, and ends with \<^verbatim>\<open>exit(0)\<close> at the end of its input; \<^verbatim>\<open>shell1\<close> does
  so up to the first interrupt.
\<close>

theorem shells_run_lines:
  assumes "\<forall>l \<in> set ls. sh_line l" and "\<forall>n. forks e n \<and> waits_for e n"
  shows "(\<exists>out. shell2_main True e (concat (map (\<lambda>l. l @ [newline]) ls)) = (out, map (sh_child e) ls, ShEnds (Exit 0))) \<and>
    (\<exists>out x. shell1_main e (concat (map (\<lambda>l. l @ [newline]) ls)) = (out, map (sh_child e) (take (lines_run (e\<lparr>caught := False\<rparr>) 0 (length ls)) ls), x)) \<and>
    ((\<forall>n. pints e n = 0 \<and> cints e n = 0) \<longrightarrow> shell1_main e (concat (map (\<lambda>l. l @ [newline]) ls)) =
      (concat (replicate (Suc (length ls)) prompt), map (sh_child e) ls, ShEnds (Exit 0)))"
proof -
  have c: "sh_child (e\<lparr>caught := b\<rparr>) = sh_child e" for b by (simp add: sh_child_def fun_eq_iff)
  show ?thesis
    using sh_loop_lines [OF assms(1), of "e\<lparr>caught := True\<rparr>" 0 prompt "[]"] sh_loop_lines [OF assms(1), of "e\<lparr>caught := False\<rparr>" 0 prompt "[]"] assms(2)
    unfolding shell1_main_def shell2_main_def c by (auto simp: c)
qed

text \<open>A line that starts with a null byte is read in front of the buffer.\<close>

lemma shell_null_line:
  "forks e n \<Longrightarrow> \<not> (0 < pints e n \<and> \<not> caught e) \<Longrightarrow>
    sh_loop e n [nul, newline] out ks = (out @ sig_int (pints e n), ks, ShEnds (Undef ''buf[strlen(buf) - 1]''))"
  by (subst sh_loop.simps) (simp add: fgets_def MAXLINE_def cstr_def nul_def newline_def Let_def)

end
