(* ===== verification/SignalShell.thy ===== *)
theory SignalShell
  imports CText
begin

section \<open>A shell with a time limit: \<^verbatim>\<open>Exp_5_Shell_with_Signals/myshell.c\<close>\<close>

text \<open>
  The shell runs each line in a child, kills it when the time is over or on \<^verbatim>\<open>SIGQUIT\<close>, and jumps back to its prompt.  The
  state is the variable \<^verbatim>\<open>pid\<close>, where the shell is, whether the alarm clock runs, its children that run and
  those that have ended and were not waited for, and the numbers \<^verbatim>\<open>kill\<close> was called with that
  were no child's.  A signal comes between any two steps; one that comes while a handler runs is thrown away by it.
\<close>

datatype shell_pc = AtRead | Armed | Waiting | Reaped

record sigshell =
  pid_var :: int
  spc :: shell_pc
  clock_on :: bool
  running :: "int set"
  zombies :: "int set"
  strays :: "int list"

text \<open>The limit in seconds; 0 is none.  Without arguments the code reads \<^verbatim>\<open>argv[2]\<close> behind the end of \<^verbatim>\<open>argv\<close>.\<close>

definition exp5_time :: "string list \<Rightarrow> int run" where
  "exp5_time argv =
     (if length argv \<noteq> 1 \<and> length argv \<noteq> 3 \<or> length argv = 3 \<and> take 2 (argv ! 1) \<noteq> ''-t''
      then die (ErrQuit ''usage: myshell [-t <time>]'')
      else if length argv < 3 then die (Undef ''argv[2]'')
      else ret (atoi (argv ! 2)))"

definition sys_kill :: "int \<Rightarrow> sigshell \<Rightarrow> sigshell" where
  "sys_kill p s =
     (if p \<in> running s then s\<lparr>running := running s - {p}, zombies := insert p (zombies s)\<rparr>
      else if p \<in> zombies s then s else s\<lparr>strays := p # strays s\<rparr>)"

definition kill_child :: "sigshell \<Rightarrow> sigshell" where
  "kill_child s = (if 0 < pid_var s then (sys_kill (pid_var s) s)\<lparr>pid_var := 0\<rparr> else s)"

definition sig_alrm :: "sigshell \<Rightarrow> sigshell" where
  "sig_alrm s = (kill_child (s\<lparr>clock_on := False\<rparr>))\<lparr>spc := AtRead\<rparr>"

definition sig_quit :: "sigshell \<Rightarrow> sigshell" where
  "sig_quit s = (kill_child s)\<lparr>clock_on := False, spc := AtRead\<rparr>"

inductive shell_step :: "int \<Rightarrow> sigshell \<Rightarrow> sigshell \<Rightarrow> bool" for time :: int where
  read_line: "spc s = AtRead \<Longrightarrow> shell_step time s (s\<lparr>spc := Armed, clock_on := (time \<noteq> 0 \<or> clock_on s)\<rparr>)"
| fork_child: "spc s = Armed \<Longrightarrow> 0 < p \<Longrightarrow> p \<notin> running s \<union> zombies s \<Longrightarrow>
    shell_step time s (s\<lparr>pid_var := p, running := insert p (running s), spc := Waiting\<rparr>)"
| child_ends: "p \<in> running s \<Longrightarrow> shell_step time s (s\<lparr>running := running s - {p}, zombies := insert p (zombies s)\<rparr>)"
| waited: "spc s = Waiting \<Longrightarrow> pid_var s \<in> zombies s \<Longrightarrow>
    shell_step time s (s\<lparr>zombies := zombies s - {pid_var s}, spc := Reaped\<rparr>)"
| disarm: "spc s = Reaped \<Longrightarrow> shell_step time s (s\<lparr>spc := AtRead, clock_on := (time = 0 \<and> clock_on s)\<rparr>)"
| alarm_rings: "clock_on s \<Longrightarrow> shell_step time s (sig_alrm s)"
| quit_typed: "shell_step time s (sig_quit s)"

definition shell_start :: sigshell where
  "shell_start = \<lparr>pid_var = 0, spc = AtRead, clock_on = False, running = {}, zombies = {}, strays = []\<rparr>"

inductive_cases shell_stepE: "shell_step time s s'"

definition one_child :: "sigshell \<Rightarrow> bool" where
  "one_child s \<longleftrightarrow> running s \<inter> zombies s = {} \<and> (\<forall>p \<in> running s \<union> zombies s. 0 < p) \<and> (if spc s = Waiting then 0 < pid_var s \<and> running s \<subseteq> {pid_var s} \<and> pid_var s \<in> running s \<union> zombies s
     else running s = {})"

lemma one_child_kill:
  assumes "one_child s"
  shows "running (kill_child s) = {} \<and> (\<forall>p \<in> zombies (kill_child s). 0 < p)"
proof -
  have z: "\<forall>p \<in> zombies s. 0 < p" using assms by (simp add: one_child_def)
  have r: "running s = {} \<or> running s = {pid_var s} \<and> 0 < pid_var s"
    using assms by (auto simp only: one_child_def split: if_splits)
  then show ?thesis
  proof
    assume "running s = {}"
    then show ?thesis using z by (simp add: kill_child_def sys_kill_def)
  next
    assume "running s = {pid_var s} \<and> 0 < pid_var s"
    then show ?thesis using z by (simp add: kill_child_def sys_kill_def)
  qed
qed

lemma kill_child_sel [simp]: "kill_child (s\<lparr>clock_on := b\<rparr>) = (kill_child s)\<lparr>clock_on := b\<rparr>"
  by (simp add: kill_child_def sys_kill_def)

lemma one_child_step: "shell_step time s s' \<Longrightarrow> one_child s \<Longrightarrow> one_child s'"
proof (induction rule: shell_step.induct)
  case (alarm_rings s)
  from one_child_kill [OF alarm_rings(2)] show ?case by (simp add: sig_alrm_def one_child_def)
next
  case (quit_typed s)
  from one_child_kill [OF quit_typed] show ?case by (simp add: sig_quit_def one_child_def)
next
  case (child_ends p s)
  then show ?case by (cases "spc s = Waiting") (auto simp: one_child_def)
next
  case (waited s)
  then show ?case unfolding one_child_def by simp blast
qed (simp_all add: one_child_def)

lemma one_child_reach: "(shell_step time)\<^sup>*\<^sup>* shell_start s \<Longrightarrow> one_child s"
proof (induction rule: rtranclp_induct)
  case base
  show ?case by (simp add: one_child_def shell_start_def)
next
  case (step s s')
  then show ?case by (blast intro: one_child_step)
qed

text \<open>A dead child that \<^verbatim>\<open>pid\<close> does not name is never waited for.\<close>

lemma zombie_step:
  "shell_step time s s' \<Longrightarrow> p \<in> zombies s \<and> p \<noteq> pid_var s \<and> 0 < p \<Longrightarrow> p \<in> zombies s' \<and> p \<noteq> pid_var s' \<and> 0 < p"
  by (induction rule: shell_step.induct)
    (auto simp: sig_alrm_def sig_quit_def kill_child_def sys_kill_def split: if_splits)

lemma zombie_forever:
  "(shell_step time)\<^sup>*\<^sup>* s s' \<Longrightarrow> p \<in> zombies s \<and> p \<noteq> pid_var s \<and> 0 < p \<Longrightarrow> p \<in> zombies s'"
proof (induction rule: converse_rtranclp_induct)
  case (step s t)
  then show ?case using zombie_step by blast
qed simp

lemma stale_pid:
  "(shell_step 0)\<^sup>*\<^sup>* shell_start (shell_start\<lparr>pid_var := 41, spc := AtRead\<rparr>)"
proof -
  let ?a = "shell_start\<lparr>spc := Armed, clock_on := False\<rparr>"
  let ?b = "?a\<lparr>pid_var := 41, running := {41}, spc := Waiting\<rparr>"
  let ?c = "?b\<lparr>running := {}, zombies := {41}\<rparr>"
  let ?d = "?c\<lparr>zombies := {}, spc := Reaped\<rparr>"
  have "shell_step 0 shell_start ?a" using read_line [of shell_start 0] by (simp add: shell_start_def)
  moreover have "shell_step 0 ?a ?b" using fork_child [of ?a 41 0] by (simp add: shell_start_def)
  moreover have "shell_step 0 ?b ?c" using child_ends [of 41 ?b 0] by (simp add: shell_start_def)
  moreover have "shell_step 0 ?c ?d" using waited [of ?c 0] by (simp add: shell_start_def)
  moreover have "shell_step 0 ?d (shell_start\<lparr>pid_var := 41, spc := AtRead\<rparr>)"
    using disarm [of ?d 0] by (simp add: shell_start_def)
  ultimately show ?thesis by (meson rtranclp.rtrancl_into_rtrancl rtranclp.rtrancl_refl)
qed



end
