(* ===== verification/PtyOpen.thy ===== *)
theory PtyOpen
  imports FdTable IoModel
begin

section \<open>Pseudo terminals: \<^verbatim>\<open>lib/ptyopen.c\<close>, \<^verbatim>\<open>lib/linux_ptyopen.c\<close> and \<^verbatim>\<open>streams/ptyopen.c\<close>\<close>

text \<open>
  Three systems have three ways to find a free pseudo terminal and to name its slave side; the callers see
  \<^verbatim>\<open>ptym_open\<close> and \<^verbatim>\<open>ptys_open\<close>.  A descriptor refers to a device that was opened by its name, or to the master that
  \<^verbatim>\<open>/dev/ptmx\<close> made.  The record \<open>ptysys\<close> is what the system decides and what its library answers; \<open>ptyst\<close> is the state of the process and of
  the devices.
\<close>

datatype ofile = Dev string | PtMaster nat

definition ENOENT :: nat where "ENOENT = 2"
definition EAGAIN :: nat where "EAGAIN = 11"
definition EMFILE :: nat where "EMFILE = 24"

record ptysys =
  opens :: "string \<Rightarrow> nat option"        \<comment> \<open>why a device cannot be opened\<close>
  fd_lim :: nat
  tty_name :: "ofile \<Rightarrow> string option"    \<comment> \<open>\<^verbatim>\<open>ttyname\<close>\<close>
  gid_tty :: "int option"               \<comment> \<open>the group \<^verbatim>\<open>tty\<close>\<close>
  my_uid :: int
  chown_ok :: "string \<Rightarrow> bool"
  chmod_ok :: "string \<Rightarrow> bool"
  tiocgptn_ok :: bool
  unlock_ok :: bool
  lib_grant_ok :: bool                  \<comment> \<open>\<^verbatim>\<open>grantpt\<close> and \<^verbatim>\<open>ptsname\<close> of the System V library\<close>
  lib_ptsname :: "ofile \<Rightarrow> string option"
  find_ok :: bool
  push_ok :: "string \<Rightarrow> bool"
  gives_ctty :: "string \<Rightarrow> bool"         \<comment> \<open>opening it gives a session leader its controlling terminal\<close>

record ptyst =
  fdt :: "ofile fdtab"
  owners :: "string \<Rightarrow> int \<times> int"
  perms :: "string \<Rightarrow> nat"
  npty :: nat
  locked :: "string set"
  modules :: "string \<Rightarrow> string list"
  leader :: bool
  ctty :: "string option"

definition pts_path :: "nat \<Rightarrow> string" where
  "pts_path n = ''/dev/pts/'' @ dec n"

definition PTMX :: string where
  "PTMX = ''/dev/ptmx''"

text \<open>\<^verbatim>\<open>open(name, O_RDWR)\<close>: the error number or the descriptor.  The slave of a new Linux master is locked.\<close>

definition pty_open :: "ptysys \<Rightarrow> string \<Rightarrow> ptyst \<Rightarrow> (nat + nat) \<times> ptyst" where
  "pty_open k name st = (case free_fd (fd_lim k) (fdt st) of
       None \<Rightarrow> (Inl EMFILE, st)
     | Some fd \<Rightarrow> (case opens k name of
         Some e \<Rightarrow> (Inl e, st)
       | None \<Rightarrow>
         if name \<in> locked st then (Inl EIO, st)
         else if name = PTMX then
           (Inr fd, st\<lparr>fdt := (fdt st)(fd \<mapsto> PtMaster (npty st)), npty := Suc (npty st), locked := insert (pts_path (npty st)) (locked st)\<rparr>)
         else
           (Inr fd, st\<lparr>fdt := (fdt st)(fd \<mapsto> Dev name),
              ctty := (if leader st \<and> ctty st = None \<and> gives_ctty k name then Some name else ctty st)\<rparr>)))"

definition pty_close :: "nat \<Rightarrow> ptyst \<Rightarrow> ptyst" where
  "pty_close fd st = st\<lparr>fdt := fd_close fd (fdt st)\<rparr>"

definition strncpy :: "nat \<Rightarrow> string \<Rightarrow> string" where
  "strncpy n s = take n (s @ replicate n nul)"

text \<open>\<^verbatim>\<open>chown\<close> and \<^verbatim>\<open>chmod\<close>; without a name (a null pointer) they fail.\<close>

definition pty_chown :: "ptysys \<Rightarrow> string option \<Rightarrow> int option \<Rightarrow> ptyst \<Rightarrow> bool \<times> ptyst" where
  "pty_chown k name gid st = (case name of
       None \<Rightarrow> (False, st)
     | Some n \<Rightarrow> if chown_ok k n
         then (True, st\<lparr>owners := (owners st)(n := (my_uid k, case gid of None \<Rightarrow> snd (owners st n) | Some g \<Rightarrow> g))\<rparr>)
         else (False, st))"

definition pty_chmod :: "ptysys \<Rightarrow> string option \<Rightarrow> nat \<Rightarrow> ptyst \<Rightarrow> bool \<times> ptyst" where
  "pty_chmod k name mode st = (case name of
       None \<Rightarrow> (False, st)
     | Some n \<Rightarrow> if chmod_ok k n then (True, st\<lparr>perms := (perms st)(n := mode)\<rparr>) else (False, st))"

text \<open>\<^verbatim>\<open>S_IRUSR | S_IWUSR | S_IWGRP\<close>.\<close>

definition SLAVE_MODE :: nat where
  "SLAVE_MODE = 400"

subsection \<open>BSD: a search through the names\<close>

definition PTY_BANKS :: string where
  "PTY_BANKS = ''pqrstuvwxyzPQRST''"

definition PTY_UNITS :: string where
  "PTY_UNITS = ''0123456789abcdef''"

fun openpt_units :: "ptysys \<Rightarrow> char \<Rightarrow> string \<Rightarrow> ptyst \<Rightarrow> (nat + nat) option \<times> ptyst" where
  "openpt_units k c1 [] st = (None, st)"
| "openpt_units k c1 (c2 # cs) st = (case pty_open k (''/dev/pty'' @ [c1, c2]) st of
     (Inl e, st) \<Rightarrow> if e = ENOENT then (Some (Inl e), st) else openpt_units k c1 cs st
   | (Inr fd, st) \<Rightarrow> (Some (Inr fd), st))"

fun openpt_banks :: "ptysys \<Rightarrow> string \<Rightarrow> ptyst \<Rightarrow> (nat + nat) \<times> ptyst" where
  "openpt_banks k [] st = (Inl EAGAIN, st)"
| "openpt_banks k (c1 # cs) st = (case openpt_units k c1 PTY_UNITS st of
     (Some r, st) \<Rightarrow> (r, st)
   | (None, st) \<Rightarrow> openpt_banks k cs st)"

definition posix_openpt_bsd :: "ptysys \<Rightarrow> ptyst \<Rightarrow> (nat + nat) \<times> ptyst" where
  "posix_openpt_bsd k st = openpt_banks k PTY_BANKS st"

definition ptsname_bsd :: "ptysys \<Rightarrow> nat \<Rightarrow> ptyst \<Rightarrow> string option" where
  "ptsname_bsd k fdm st = (case Option.bind (fdt st fdm) (tty_name k) of
       None \<Rightarrow> None
     | Some ptm_name \<Rightarrow>
         let b = (strncpy 16 ptm_name)[15 := nul]
         in Some (cstr (if take 9 b = ''/dev/pty/'' then b[9 := CHR ''s''] else b[5 := CHR ''t''])))"

definition grantpt_bsd :: "ptysys \<Rightarrow> nat \<Rightarrow> ptyst \<Rightarrow> bool \<times> ptyst" where
  "grantpt_bsd k fdm st = (let pts_name = ptsname_bsd k fdm st in
     case pty_chown k pts_name (gid_tty k) st of
       (False, st) \<Rightarrow> (False, st)
     | (True, st) \<Rightarrow> pty_chmod k pts_name SLAVE_MODE st)"

definition unlockpt_bsd :: "ptysys \<Rightarrow> nat \<Rightarrow> ptyst \<Rightarrow> bool \<times> ptyst" where
  "unlockpt_bsd k fdm st = (True, st)"

subsection \<open>The common course of \<^verbatim>\<open>ptym_open\<close>\<close>

text \<open>
  The results are the descriptor of the master or the error -1 to -4, and the text in \<^verbatim>\<open>pts_name\<close>, which has \<open>sz\<close> bytes.
\<close>

definition ptym_with ::
    "string \<Rightarrow> (ptyst \<Rightarrow> (nat + nat) \<times> ptyst) \<Rightarrow> (nat \<Rightarrow> ptyst \<Rightarrow> bool \<times> ptyst) \<Rightarrow> (nat \<Rightarrow> ptyst \<Rightarrow> bool \<times> ptyst) \<Rightarrow>
     (nat \<Rightarrow> ptyst \<Rightarrow> string option) \<Rightarrow> nat \<Rightarrow> ptyst \<Rightarrow> (int \<times> string \<times> ptyst) run" where
  "ptym_with master openpt grant unlock ptsname sz st =
     (if sz = 0 then die (Undef ''pts_name[-1]'')
      else
        let name0 = take (sz - 1) master in
        case openpt st of
          (Inl e, st) \<Rightarrow> ret (- 1, name0, st)
        | (Inr fdm, st) \<Rightarrow> (case grant fdm st of
            (False, st) \<Rightarrow> ret (- 2, name0, pty_close fdm st)
          | (True, st) \<Rightarrow> (case unlock fdm st of
              (False, st) \<Rightarrow> ret (- 3, name0, pty_close fdm st)
            | (True, st) \<Rightarrow> (case ptsname fdm st of
                None \<Rightarrow> ret (- 4, name0, pty_close fdm st)
              | Some p \<Rightarrow> ret (int fdm, take (sz - 1) p, st)))))"

definition ptym_open_bsd :: "ptysys \<Rightarrow> nat \<Rightarrow> ptyst \<Rightarrow> (int \<times> string \<times> ptyst) run" where
  "ptym_open_bsd k = ptym_with ''/dev/ptyXX'' (posix_openpt_bsd k) (grantpt_bsd k) (unlockpt_bsd k) (ptsname_bsd k)"

definition ptys_open_bsd :: "ptysys \<Rightarrow> string \<Rightarrow> ptyst \<Rightarrow> int \<times> ptyst" where
  "ptys_open_bsd k name st = (case pty_open k name st of (Inl e, st) \<Rightarrow> (- 5, st) | (Inr fds, st) \<Rightarrow> (int fds, st))"

subsection \<open>Linux: numbered masters\<close>

definition posix_openpt_linux :: "ptysys \<Rightarrow> ptyst \<Rightarrow> (nat + nat) \<times> ptyst" where
  "posix_openpt_linux k st = pty_open k PTMX st"

definition ptsname_linux :: "ptysys \<Rightarrow> nat \<Rightarrow> ptyst \<Rightarrow> string option" where
  "ptsname_linux k fdm st = (case fdt st fdm of
       Some (PtMaster sminor) \<Rightarrow> if tiocgptn_ok k then Some (take 15 (pts_path sminor)) else None
     | _ \<Rightarrow> None)"

definition grantpt_linux :: "ptysys \<Rightarrow> nat \<Rightarrow> ptyst \<Rightarrow> bool \<times> ptyst" where
  "grantpt_linux k fdm st = pty_chmod k (ptsname_linux k fdm st) SLAVE_MODE st"

definition unlockpt_linux :: "ptysys \<Rightarrow> nat \<Rightarrow> ptyst \<Rightarrow> bool \<times> ptyst" where
  "unlockpt_linux k fdm st = (case fdt st fdm of
       Some (PtMaster n) \<Rightarrow> if unlock_ok k then (True, st\<lparr>locked := locked st - {pts_path n}\<rparr>) else (False, st)
     | _ \<Rightarrow> (False, st))"

definition ptym_open_linux :: "ptysys \<Rightarrow> nat \<Rightarrow> ptyst \<Rightarrow> (int \<times> string \<times> ptyst) run" where
  "ptym_open_linux k = ptym_with ''/dev/ptmx'' (posix_openpt_linux k) (grantpt_linux k) (unlockpt_linux k) (ptsname_linux k)"

definition ptys_open_linux :: "ptysys \<Rightarrow> string \<Rightarrow> ptyst \<Rightarrow> int \<times> ptyst" where
  "ptys_open_linux k name st = (case pty_open k name st of (Inl e, st) \<Rightarrow> (- 5, st) | (Inr fds, st) \<Rightarrow> (int fds, st))"

subsection \<open>System V: the functions of the library, and STREAMS modules on the slave\<close>

definition lib_unlockpt :: "ptysys \<Rightarrow> nat \<Rightarrow> ptyst \<Rightarrow> bool \<times> ptyst" where
  "lib_unlockpt k fdm st = (case fdt st fdm of
       Some (PtMaster n) \<Rightarrow> if unlock_ok k then (True, st\<lparr>locked := locked st - {pts_path n}\<rparr>) else (False, st)
     | _ \<Rightarrow> (False, st))"

definition ptym_open_streams :: "ptysys \<Rightarrow> nat \<Rightarrow> ptyst \<Rightarrow> (int \<times> string \<times> ptyst) run" where
  "ptym_open_streams k sz = ptym_with ''/dev/ptmx'' (pty_open k (take (sz - 1) ''/dev/ptmx'')) (\<lambda>fdm st. (lib_grant_ok k, st)) (lib_unlockpt k)
     (\<lambda>fdm st. Option.bind (fdt st fdm) (lib_ptsname k)) sz"

text \<open>\<^verbatim>\<open>ioctl(fds, I_FIND, m)\<close> and \<^verbatim>\<open>ioctl(fds, I_PUSH, m)\<close> on the device \<open>name\<close>.\<close>

definition i_find :: "ptysys \<Rightarrow> string \<Rightarrow> string \<Rightarrow> ptyst \<Rightarrow> int" where
  "i_find k name m st = (if \<not> find_ok k then - 1 else if m \<in> set (modules st name) then 1 else 0)"

definition i_push :: "ptysys \<Rightarrow> string \<Rightarrow> string \<Rightarrow> ptyst \<Rightarrow> bool \<times> ptyst" where
  "i_push k name m st =
     (if push_ok k m then (True, st\<lparr>modules := (modules st)(name := m # modules st name)\<rparr>) else (False, st))"

definition ptys_open_streams :: "ptysys \<Rightarrow> string \<Rightarrow> ptyst \<Rightarrow> int \<times> ptyst" where
  "ptys_open_streams k name st = (case pty_open k name st of
       (Inl e, st) \<Rightarrow> (- 5, st)
     | (Inr fds, st) \<Rightarrow>
         let setup = i_find k name ''ldterm'' st in
         if setup < 0 then (- 6, pty_close fds st)
         else if setup = 0 then
           (case i_push k name ''ptem'' st of
              (False, st) \<Rightarrow> (- 7, pty_close fds st)
            | (True, st) \<Rightarrow> (case i_push k name ''ldterm'' st of
                (False, st) \<Rightarrow> (- 8, pty_close fds st)
              | (True, st) \<Rightarrow> (case i_push k name ''ttcompat'' st of
                  (False, st) \<Rightarrow> (- 9, pty_close fds st)
                | (True, st) \<Rightarrow> (int fds, st))))
         else (int fds, st))"

end
