(* ===== verification/PtyProps.thy ===== *)
theory PtyProps
  imports PtyOpen
begin

section \<open>One contract for the three systems\<close>

text \<open>The effect of \<^verbatim>\<open>open\<close> on the table of descriptors.\<close>

lemma pty_open_Inl: "pty_open k n st = (Inl e, st') \<Longrightarrow> st' = st"
  by (auto simp: pty_open_def split: option.splits if_splits)

lemma pty_open_Inr:
  "pty_open k n st = (Inr fd, st') \<Longrightarrow>
    fdt st fd = None \<and> fdt st' = (fdt st)(fd \<mapsto> (if n = PTMX then PtMaster (npty st) else Dev n)) \<and> leader st' = leader st"
  by (auto simp: pty_open_def dest: free_fd_Some split: option.splits if_splits)

lemma pty_open_ctty:
  "pty_open k n st = (Inr fd, st') \<Longrightarrow> n \<noteq> PTMX \<Longrightarrow>
    ctty st' = (if leader st \<and> ctty st = None \<and> gives_ctty k n then Some n else ctty st)"
  by (auto simp: pty_open_def split: option.splits if_splits)

text \<open>Changing owner and mode leaves the descriptors alone.\<close>

lemma pty_chown_fdt [simp]: "fdt (snd (pty_chown k n g st)) = fdt st"
  by (simp add: pty_chown_def split: option.split)

lemma pty_chmod_fdt [simp]: "fdt (snd (pty_chmod k n m st)) = fdt st"
  by (simp add: pty_chmod_def split: option.split)

lemma grantpt_bsd_fdt:
  assumes "grantpt_bsd k fdm st = (b, st')"
  shows "fdt st' = fdt st"
proof -
  obtain b1 s1 where c: "pty_chown k (ptsname_bsd k fdm st) (gid_tty k) st = (b1, s1)" by fastforce
  then have "fdt s1 = fdt st" by (metis pty_chown_fdt snd_conv)
  moreover have "b1 \<Longrightarrow> pty_chmod k (ptsname_bsd k fdm st) SLAVE_MODE s1 = (b, st')" "\<not> b1 \<Longrightarrow> st' = s1"
    using assms c by (auto simp: grantpt_bsd_def Let_def)
  ultimately show ?thesis using pty_chmod_fdt by (metis snd_conv)
qed

lemma grantpt_linux_fdt: "grantpt_linux k fdm st = (b, st') \<Longrightarrow> fdt st' = fdt st"
  unfolding grantpt_linux_def by (metis pty_chmod_fdt snd_conv)

lemma unlockpt_linux_fdt: "unlockpt_linux k fdm st = (b, st') \<Longrightarrow> fdt st' = fdt st"
  by (auto simp: unlockpt_linux_def split: option.splits ofile.splits if_splits)

lemma lib_unlockpt_fdt: "lib_unlockpt k fdm st = (b, st') \<Longrightarrow> fdt st' = fdt st"
  by (auto simp: lib_unlockpt_def split: option.splits ofile.splits if_splits)

lemma pty_close_opened: "fdt st fd = None \<Longrightarrow> fdt st' = (fdt st)(fd \<mapsto> x) \<Longrightarrow> fdt (pty_close fd st') = fdt st"
  by (auto simp: pty_close_def fd_close_def fun_eq_iff)

text \<open>
  \<open>ptym_with\<close>, when the search for a master gives a new descriptor and the other steps keep the table: an error leaves the
  table as it was.
\<close>

lemma ptym_with_cases:
  assumes "ptym_with m op gr un pn sz st = ret (r, nm, st')"
    and op: "\<And>e s. op st = (Inl e, s) \<Longrightarrow> fdt s = fdt st" "\<And>fd s. op st = (Inr fd, s) \<Longrightarrow> fdt st fd = None \<and> fdt s = (fdt st)(fd \<mapsto> f)"
    and gr: "\<And>fd s b s'. gr fd s = (b, s') \<Longrightarrow> fdt s' = fdt s"
    and un: "\<And>fd s b s'. un fd s = (b, s') \<Longrightarrow> fdt s' = fdt s"
  shows "r < 0 \<and> fdt st' = fdt st \<or>
    (\<exists>fd p s. r = int fd \<and> fdt st fd = None \<and> fdt st' = (fdt st)(fd \<mapsto> f) \<and> op st = (Inr fd, s) \<and> pn fd st' = Some p \<and> nm = take (sz - 1) p)"
proof -
  have sz: "sz \<noteq> 0" using assms(1) by (cases "sz = 0") (simp_all add: ptym_with_def)
  obtain q s where q: "op st = (q, s)" by fastforce
  show ?thesis
  proof (cases q)
    case (Inl e)
    then have "r = - 1" "st' = s" using assms(1) q sz by (simp_all add: ptym_with_def Let_def)
    moreover have "fdt s = fdt st" using op(1) [of e s] q Inl by blast
    ultimately show ?thesis by simp
  next
    case (Inr fd)
    obtain b1 s1 where g: "gr fd s = (b1, s1)" by fastforce
    obtain b2 s2 where u: "un fd s1 = (b2, s2)" by fastforce
    have o: "fdt st fd = None" "fdt s = (fdt st)(fd \<mapsto> f)" using op(2) [of fd s] q Inr by blast+
    have t: "fdt s1 = fdt s" "fdt s2 = fdt s" using gr [OF g] un [OF u] by metis+
    have c: "fdt (pty_close fd s1) = fdt st" "fdt (pty_close fd s2) = fdt st"
      using pty_close_opened [OF o(1)] o(2) t by metis+
    have e: "ptym_with m op gr un pn sz st = (let n0 = take (sz - 1) m in
        if \<not> b1 then ret (- 2, n0, pty_close fd s1) else if \<not> b2 then ret (- 3, n0, pty_close fd s2)
        else case pn fd s2 of None \<Rightarrow> ret (- 4, n0, pty_close fd s2) | Some p \<Rightarrow> ret (int fd, take (sz - 1) p, s2))"
      using sz q Inr g u by (cases b1; cases b2) (simp_all add: ptym_with_def Let_def)
    show ?thesis
    proof (cases "b1 \<and> b2 \<and> pn fd s2 \<noteq> None")
      case True
      then obtain p where p: "pn fd s2 = Some p" by blast
      then have "r = int fd" "nm = take (sz - 1) p" "st' = s2" using e True assms(1) by (auto simp: Let_def)
      moreover have "fdt s2 = (fdt st)(fd \<mapsto> f)" using o(2) t by metis
      ultimately show ?thesis using q Inr o(1) p by blast
    next
      case False
      then have "r < 0 \<and> (st' = pty_close fd s1 \<or> st' = pty_close fd s2)"
        using e assms(1) by (auto simp: Let_def split: if_splits option.splits)
      then show ?thesis using c by blast
    qed
  qed
qed

lemma ptym_with_runs: "0 < sz \<Longrightarrow> \<exists>r nm st'. ptym_with m op gr un pn sz st = ret (r, nm, st')"
  by (auto simp: ptym_with_def Let_def split: sum.split prod.split bool.split option.split)

subsection \<open>The search of BSD\<close>

definition pty_names :: "string list" where
  "pty_names = concat (map (\<lambda>a. map (\<lambda>b. ''/dev/pty'' @ [a, b]) PTY_UNITS) PTY_BANKS)"

text \<open>A name at which the search stops: it can be opened, or there is no such device.\<close>

definition stops :: "ptysys \<Rightarrow> ptyst \<Rightarrow> string \<Rightarrow> bool" where
  "stops k st n = (case fst (pty_open k n st) of Inl e \<Rightarrow> e = ENOENT | Inr fd \<Rightarrow> True)"

lemma openpt_units_find:
  "openpt_units k a bs st = (case find (stops k st) (map (\<lambda>b. ''/dev/pty'' @ [a, b]) bs) of
     None \<Rightarrow> (None, st) | Some n \<Rightarrow> (Some (fst (pty_open k n st)), snd (pty_open k n st)))"
proof (induction bs)
  case (Cons b bs)
  obtain q s where q: "pty_open k (''/dev/pty'' @ [a, b]) st = (q, s)" by fastforce
  show ?case
    using Cons q pty_open_Inl [of k "''/dev/pty'' @ [a, b]" st] by (cases q) (auto simp: stops_def)
qed simp

lemma openpt_banks_find:
  "openpt_banks k as st = (case find (stops k st) (concat (map (\<lambda>a. map (\<lambda>b. ''/dev/pty'' @ [a, b]) PTY_UNITS) as)) of
     None \<Rightarrow> (Inl EAGAIN, st) | Some n \<Rightarrow> pty_open k n st)"
  by (induction as) (auto simp: openpt_units_find find_append split: option.split)

lemma posix_openpt_find:
  "posix_openpt_bsd k st = (case find (stops k st) pty_names of None \<Rightarrow> (Inl EAGAIN, st) | Some n \<Rightarrow> pty_open k n st)"
  by (simp add: posix_openpt_bsd_def pty_names_def openpt_banks_find)

lemma PTY_chars: "a \<in> set PTY_BANKS \<Longrightarrow> a \<noteq> nul \<and> a \<noteq> CHR ''/''" "b \<in> set PTY_UNITS \<Longrightarrow> b \<noteq> nul"
  by (auto simp: PTY_BANKS_def PTY_UNITS_def nul_def)

lemma pty_names_form:
  assumes "n \<in> set pty_names"
  obtains a b where "n = ''/dev/pty'' @ [a, b]" "a \<noteq> nul" "a \<noteq> CHR ''/''" "b \<noteq> nul"
  using assms PTY_chars by (auto simp: pty_names_def)

text \<open>The slave of the master \<^verbatim>\<open>/dev/ptyXY\<close> is \<^verbatim>\<open>/dev/ttyXY\<close>.\<close>

lemma ptsname_bsd_pty:
  assumes "fdt st fd = Some f" and "tty_name k f = Some (''/dev/pty'' @ [a, b])" and "a \<noteq> nul" and "a \<noteq> CHR ''/''" and "b \<noteq> nul"
  shows "ptsname_bsd k fd st = Some (''/dev/tty'' @ [a, b])"
  using assms by (simp add: ptsname_bsd_def strncpy_def cstr_def nul_def numeral_eq_Suc Let_def)

subsection \<open>The contract\<close>

text \<open>
  \<open>ym\<close> and \<open>ys\<close> are \<^verbatim>\<open>ptym_open\<close> and \<^verbatim>\<open>ptys_open\<close>: they add one descriptor or leave the table as it was, the name that is
  returned for a master is that of its slave, and the slave is opened under that name.
\<close>

locale pty_pair =
  fixes ym :: "nat \<Rightarrow> ptyst \<Rightarrow> (int \<times> string \<times> ptyst) run"
    and ys :: "string \<Rightarrow> ptyst \<Rightarrow> int \<times> ptyst"
    and usable :: "ptyst \<Rightarrow> bool"
    and mate :: "ofile \<Rightarrow> string"
    and acquires :: "string \<Rightarrow> bool"
  assumes ym_runs: "0 < sz \<Longrightarrow> \<exists>r nm st'. ym sz st = ret (r, nm, st')"
    and ym_law: "ym 20 st = ret (r, nm, st') \<Longrightarrow> usable st \<Longrightarrow> r < 0 \<and> fdt st' = fdt st \<or>
      (\<exists>fd m. r = int fd \<and> fdt st fd = None \<and> fdt st' = (fdt st)(fd \<mapsto> m) \<and> nm = mate m \<and> nm \<noteq> PTMX)"
    and ys_law: "ys nm st = (r, st') \<Longrightarrow> nm \<noteq> PTMX \<Longrightarrow> r < 0 \<and> fdt st' = fdt st \<or>
      (\<exists>fd. r = int fd \<and> fdt st fd = None \<and> fdt st' = (fdt st)(fd \<mapsto> Dev nm) \<and> leader st' = leader st \<and>
         ctty st' = (if leader st \<and> ctty st = None \<and> acquires nm then Some nm else ctty st))"

definition usable_bsd :: "ptysys \<Rightarrow> ptyst \<Rightarrow> bool" where
  "usable_bsd k st \<longleftrightarrow> (\<forall>n \<in> set pty_names. tty_name k (Dev n) = Some n)"

definition mate_bsd :: "ofile \<Rightarrow> string" where
  "mate_bsd m = (case m of Dev n \<Rightarrow> n[5 := CHR ''t''] | PtMaster i \<Rightarrow> [])"

lemma ptys_law:
  assumes "pty_open k nm st = (q, st')" and "nm \<noteq> PTMX"
  shows "(\<exists>e. q = Inl e) \<and> fdt st' = fdt st \<or>
    (\<exists>fd. q = Inr fd \<and> fdt st fd = None \<and> fdt st' = (fdt st)(fd \<mapsto> Dev nm) \<and> leader st' = leader st \<and>
       ctty st' = (if leader st \<and> ctty st = None \<and> gives_ctty k nm then Some nm else ctty st))"
proof (cases q)
  case (Inl e)
  then show ?thesis using pty_open_Inl assms(1) by blast
next
  case (Inr fd)
  then show ?thesis using pty_open_Inr [of k nm st fd st'] pty_open_ctty [of k nm st fd st'] assms by simp
qed

lemma bsd_ys_law:
  assumes "ptys_open_bsd k nm st = (r, st')" and "nm \<noteq> PTMX"
  shows "r < 0 \<and> fdt st' = fdt st \<or>
    (\<exists>fd. r = int fd \<and> fdt st fd = None \<and> fdt st' = (fdt st)(fd \<mapsto> Dev nm) \<and> leader st' = leader st \<and>
       ctty st' = (if leader st \<and> ctty st = None \<and> gives_ctty k nm then Some nm else ctty st))"
proof -
  obtain q s where q: "pty_open k nm st = (q, s)" by fastforce
  show ?thesis
  proof (cases q)
    case (Inl e)
    then have "r = - 5" "st' = s" using assms(1) q by (simp_all add: ptys_open_bsd_def)
    then show ?thesis using pty_open_Inl [of k nm st e s] q Inl by simp
  next
    case (Inr fd)
    then have "r = int fd" "st' = s" using assms(1) q by (simp_all add: ptys_open_bsd_def)
    then show ?thesis using ptys_law [OF q assms(2)] Inr by blast
  qed
qed

lemma bsd_ym_law:
  assumes "ptym_open_bsd k 20 st = ret (r, nm, st')" and "usable_bsd k st"
  shows "r < 0 \<and> fdt st' = fdt st \<or>
    (\<exists>fd m. r = int fd \<and> fdt st fd = None \<and> fdt st' = (fdt st)(fd \<mapsto> m) \<and> nm = mate_bsd m \<and> nm \<noteq> PTMX)"
proof (cases "find (stops k st) pty_names")
  case None
  then have "posix_openpt_bsd k st = (Inl EAGAIN, st)" by (simp add: posix_openpt_find)
  then show ?thesis using assms(1) by (simp add: ptym_open_bsd_def ptym_with_def)
next
  case (Some n)
  then have n: "n \<in> set pty_names" by (auto simp: find_Some_iff)
  then obtain a b where ab: "n = ''/dev/pty'' @ [a, b]" "a \<noteq> nul" "a \<noteq> CHR ''/''" "b \<noteq> nul" by (rule pty_names_form)
  have np: "n \<noteq> PTMX" by (simp add: ab PTMX_def)
  have op: "posix_openpt_bsd k st = pty_open k n st" using Some by (simp add: posix_openpt_find)
  have "r < 0 \<and> fdt st' = fdt st \<or> (\<exists>fd p s. r = int fd \<and> fdt st fd = None \<and> fdt st' = (fdt st)(fd \<mapsto> Dev n) \<and>
      posix_openpt_bsd k st = (Inr fd, s) \<and> ptsname_bsd k fd st' = Some p \<and> nm = take (20 - 1) p)"
  proof (rule ptym_with_cases [OF assms(1) [unfolded ptym_open_bsd_def]])
    show "fdt s = fdt st" if "posix_openpt_bsd k st = (Inl e, s)" for e s
      using pty_open_Inl [of k n st e s] that op by simp
    show "fdt st fd = None \<and> fdt s = (fdt st)(fd \<mapsto> Dev n)" if "posix_openpt_bsd k st = (Inr fd, s)" for fd s
      using pty_open_Inr [of k n st fd s] that op np by simp
    show "fdt s' = fdt s" if "unlockpt_bsd k fd s = (b, s')" for fd s b s'
      using that by (simp add: unlockpt_bsd_def)
  qed (rule grantpt_bsd_fdt)
  moreover have "ptsname_bsd k fd st' = Some (''/dev/tty'' @ [a, b])" if "fdt st' = (fdt st)(fd \<mapsto> Dev n)" for fd
    using ptsname_bsd_pty [of st' fd "Dev n" k a b] that ab assms(2) n by (simp add: usable_bsd_def)
  moreover have "''/dev/tty'' @ [a, b] = mate_bsd (Dev n)" by (simp add: mate_bsd_def ab numeral_eq_Suc)
  moreover have "take (20 - 1) (''/dev/tty'' @ [a, b]) = ''/dev/tty'' @ [a, b]" "''/dev/tty'' @ [a, b] \<noteq> PTMX"
    by (simp_all add: PTMX_def numeral_eq_Suc)
  ultimately show ?thesis by (metis option.inject)
qed

interpretation bsd: pty_pair "ptym_open_bsd k" "ptys_open_bsd k" "usable_bsd k" mate_bsd "gives_ctty k" for k
proof
  show "\<exists>r nm st'. ptym_open_bsd k sz st = ret (r, nm, st')" if "0 < sz" for sz st
    unfolding ptym_open_bsd_def by (rule ptym_with_runs [OF that])
qed (fact bsd_ym_law, fact bsd_ys_law)

text \<open>Linux: the numbers of masters have at most six digits.\<close>

definition usable_linux :: "ptyst \<Rightarrow> bool" where
  "usable_linux st \<longleftrightarrow> npty st < 1000000"

definition mate_linux :: "ofile \<Rightarrow> string" where
  "mate_linux m = (case m of PtMaster i \<Rightarrow> pts_path i | Dev n \<Rightarrow> [])"

lemma pts_path_short: "n < 1000000 \<Longrightarrow> length (pts_path n) \<le> 15"
  using length_dec_le [of n 6] by (simp add: pts_path_def)

lemma pts_path_neq: "pts_path n \<noteq> PTMX"
  by (simp add: pts_path_def PTMX_def)

lemma ptmx_open:
  "pty_open k PTMX st = (Inl e, s) \<Longrightarrow> fdt s = fdt st"
  "pty_open k PTMX st = (Inr fd, s) \<Longrightarrow> fdt st fd = None \<and> fdt s = (fdt st)(fd \<mapsto> PtMaster (npty st))"
  using pty_open_Inl [of k PTMX st e s] pty_open_Inr [of k PTMX st fd s] by simp_all

lemma linux_ym_law:
  assumes "ptym_open_linux k 20 st = ret (r, nm, st')" and "usable_linux st"
  shows "r < 0 \<and> fdt st' = fdt st \<or>
    (\<exists>fd m. r = int fd \<and> fdt st fd = None \<and> fdt st' = (fdt st)(fd \<mapsto> m) \<and> nm = mate_linux m \<and> nm \<noteq> PTMX)"
proof -
  let ?m = "PtMaster (npty st)"
  have "r < 0 \<and> fdt st' = fdt st \<or> (\<exists>fd p s. r = int fd \<and> fdt st fd = None \<and> fdt st' = (fdt st)(fd \<mapsto> ?m) \<and>
      posix_openpt_linux k st = (Inr fd, s) \<and> ptsname_linux k fd st' = Some p \<and> nm = take (20 - 1) p)"
  proof (rule ptym_with_cases [OF assms(1) [unfolded ptym_open_linux_def]])
    show "fdt s = fdt st" if "posix_openpt_linux k st = (Inl e, s)" for e s
      using ptmx_open(1) that unfolding posix_openpt_linux_def by blast
    show "fdt st fd = None \<and> fdt s = (fdt st)(fd \<mapsto> ?m)" if "posix_openpt_linux k st = (Inr fd, s)" for fd s
      using ptmx_open(2) that unfolding posix_openpt_linux_def by blast
  qed (rule grantpt_linux_fdt, assumption, rule unlockpt_linux_fdt)
  moreover have "p = mate_linux ?m \<and> take (20 - 1) p = p" if "fdt st' = (fdt st)(fd \<mapsto> ?m)" "ptsname_linux k fd st' = Some p" for fd p
    using that pts_path_short [of "npty st"] assms(2)
    by (simp add: ptsname_linux_def mate_linux_def usable_linux_def split: if_splits)
  moreover have "mate_linux ?m \<noteq> PTMX" by (simp add: mate_linux_def pts_path_neq)
  ultimately show ?thesis by metis
qed

lemma linux_ys_law:
  assumes "ptys_open_linux k nm st = (r, st')" and "nm \<noteq> PTMX"
  shows "r < 0 \<and> fdt st' = fdt st \<or>
    (\<exists>fd. r = int fd \<and> fdt st fd = None \<and> fdt st' = (fdt st)(fd \<mapsto> Dev nm) \<and> leader st' = leader st \<and>
       ctty st' = (if leader st \<and> ctty st = None \<and> gives_ctty k nm then Some nm else ctty st))"
  using assms unfolding ptys_open_linux_def ptys_open_bsd_def [symmetric] by (rule bsd_ys_law)

interpretation linux: pty_pair "ptym_open_linux k" "ptys_open_linux k" usable_linux mate_linux "gives_ctty k" for k
proof
  show "\<exists>r nm st'. ptym_open_linux k sz st = ret (r, nm, st')" if "0 < sz" for sz st
    unfolding ptym_open_linux_def by (rule ptym_with_runs [OF that])
qed (fact linux_ym_law, fact linux_ys_law)

text \<open>System V: the library names the slave.\<close>

definition usable_streams :: "ptysys \<Rightarrow> ptyst \<Rightarrow> bool" where
  "usable_streams k st \<longleftrightarrow> (\<forall>s. lib_ptsname k (PtMaster (npty st)) = Some s \<longrightarrow> length s < 20 \<and> s \<noteq> PTMX)"

definition mate_streams :: "ptysys \<Rightarrow> ofile \<Rightarrow> string" where
  "mate_streams k m = (case lib_ptsname k m of Some s \<Rightarrow> s | None \<Rightarrow> [])"

lemma streams_ym_law:
  assumes "ptym_open_streams k 20 st = ret (r, nm, st')" and "usable_streams k st"
  shows "r < 0 \<and> fdt st' = fdt st \<or>
    (\<exists>fd m. r = int fd \<and> fdt st fd = None \<and> fdt st' = (fdt st)(fd \<mapsto> m) \<and> nm = mate_streams k m \<and> nm \<noteq> PTMX)"
proof -
  let ?m = "PtMaster (npty st)"
  let ?pn = "\<lambda>fdm s. Option.bind (fdt s fdm) (lib_ptsname k)"
  have x: "take (20 - 1) ''/dev/ptmx'' = PTMX" by (simp add: PTMX_def numeral_eq_Suc)
  have "r < 0 \<and> fdt st' = fdt st \<or> (\<exists>fd p s. r = int fd \<and> fdt st fd = None \<and> fdt st' = (fdt st)(fd \<mapsto> ?m) \<and>
      pty_open k PTMX st = (Inr fd, s) \<and> ?pn fd st' = Some p \<and> nm = take (20 - 1) p)"
  proof (rule ptym_with_cases [OF assms(1) [unfolded ptym_open_streams_def x]])
    show "fdt s = fdt st" if "pty_open k PTMX st = (Inl e, s)" for e s
      using ptmx_open(1) that by blast
    show "fdt st fd = None \<and> fdt s = (fdt st)(fd \<mapsto> ?m)" if "pty_open k PTMX st = (Inr fd, s)" for fd s
      using ptmx_open(2) that by blast
  qed (simp, rule lib_unlockpt_fdt)
  moreover have "p = mate_streams k ?m \<and> take (20 - 1) p = p \<and> p \<noteq> PTMX"
    if "fdt st' = (fdt st)(fd \<mapsto> ?m)" "?pn fd st' = Some p" for fd p
    using that assms(2) by (simp add: mate_streams_def usable_streams_def)
  ultimately show ?thesis by metis
qed

text \<open>The modules that are pushed, and the errors -6 to -9, change no other descriptor.\<close>

lemma i_push_sel:
  "i_push k n m st = (b, s) \<Longrightarrow> fdt s = fdt st \<and> leader s = leader st \<and> ctty s = ctty st"
  by (auto simp: i_push_def split: if_splits)

lemma streams_setup:
  assumes "pty_open k nm st = (Inr fd, s)" and "ptys_open_streams k nm st = (r, st')"
  shows "(r < 0 \<and> fdt st' = fd_close fd (fdt s)) \<or> (r = int fd \<and> fdt st' = fdt s \<and> leader st' = leader s \<and> ctty st' = ctty s)"
proof -
  obtain b1 s1 where p1: "i_push k nm ''ptem'' s = (b1, s1)" by fastforce
  obtain b2 s2 where p2: "i_push k nm ''ldterm'' s1 = (b2, s2)" by fastforce
  obtain b3 s3 where p3: "i_push k nm ''ttcompat'' s2 = (b3, s3)" by fastforce
  show ?thesis
    using assms p1 p2 p3 i_push_sel [OF p1] i_push_sel [OF p2] i_push_sel [OF p3]
    by (cases b1; cases b2; cases b3) (auto simp: ptys_open_streams_def pty_close_def Let_def split: if_splits)
qed

lemma streams_ys_law:
  assumes "ptys_open_streams k nm st = (r, st')" and "nm \<noteq> PTMX"
  shows "r < 0 \<and> fdt st' = fdt st \<or>
    (\<exists>fd. r = int fd \<and> fdt st fd = None \<and> fdt st' = (fdt st)(fd \<mapsto> Dev nm) \<and> leader st' = leader st \<and>
       ctty st' = (if leader st \<and> ctty st = None \<and> gives_ctty k nm then Some nm else ctty st))"
proof -
  obtain q s where q: "pty_open k nm st = (q, s)" by fastforce
  show ?thesis
  proof (cases q)
    case (Inl e)
    then have "r = - 5" "st' = s" using assms(1) q by (simp_all add: ptys_open_streams_def)
    then show ?thesis using pty_open_Inl [of k nm st e s] q Inl by simp
  next
    case (Inr fd)
    have o: "fdt st fd = None" "fdt s = (fdt st)(fd \<mapsto> Dev nm)" "leader s = leader st"
        "ctty s = (if leader st \<and> ctty st = None \<and> gives_ctty k nm then Some nm else ctty st)"
      using ptys_law [OF q assms(2)] Inr by auto
    have "fd_close fd (fdt s) = fdt st" using o(1,2) by (auto simp: fd_close_def fun_eq_iff)
    then show ?thesis using streams_setup [OF q [unfolded Inr] assms(1)] o by metis
  qed
qed

interpretation streams: pty_pair "ptym_open_streams k" "ptys_open_streams k" "usable_streams k" "mate_streams k" "gives_ctty k" for k
proof
  show "\<exists>r nm st'. ptym_open_streams k sz st = ret (r, nm, st')" if "0 < sz" for sz st
    unfolding ptym_open_streams_def by (rule ptym_with_runs [OF that])
qed (fact streams_ym_law, fact streams_ys_law)

end
