(* ===== verification/PtyFork.thy ===== *)
theory PtyFork
  imports PtyProps CalldDial
begin

section \<open>A process on a pseudo terminal: \<^verbatim>\<open>lib/ptyfork.c\<close>\<close>

text \<open>
  The functions \<open>ym\<close> and \<open>ys\<close> of the system are arguments.  \<^verbatim>\<open>pty_fork\<close> returns in the parent and in the child: the result
  has the return value of the parent, the descriptor of the master, the name of the slave as the caller gets it, the
  state of the parent, and, when there is a child, how its part runs.  The attributes and window sizes of the
  slave devices are part of the child's state.
\<close>

type_synonym winsize = "16 word \<times> 16 word \<times> 16 word \<times> 16 word"

record forksys =
  fork_res :: "int option"
  setsid_ok :: bool
  has_tiocsctty :: bool
  tiocsctty_ok :: bool
  tcsetattr_ok :: bool
  setwinsz_ok :: bool

record ptychild =
  pst :: ptyst
  tattr :: "string \<Rightarrow> termios"
  twin :: "string \<Rightarrow> winsize"

definition dup2_std :: "nat \<Rightarrow> ptychild \<Rightarrow> ptychild run" where
  "dup2_std fds c = (case fd_dups fds [0, 1, 2] (fdt (pst c)) of
     ([], t) \<Rightarrow>
       let t = (if fds \<noteq> 0 \<and> fds \<noteq> 1 \<and> fds \<noteq> 2 then fd_close fds t else t)
       in ret (c\<lparr>pst := (pst c)\<lparr>fdt := t\<rparr>\<rparr>)
   | (g # gs, t) \<Rightarrow> die (ErrSys (if g = 0 then ''dup2 error to stdin'' else if g = 1 then ''dup2 error to stdout'' else ''dup2 error to stderr'')))"

definition pty_child ::
    "forksys \<Rightarrow> (string \<Rightarrow> ptyst \<Rightarrow> int \<times> ptyst) \<Rightarrow> nat \<Rightarrow> string \<Rightarrow> termios option \<Rightarrow> winsize option \<Rightarrow> ptychild \<Rightarrow> ptychild run" where
  "pty_child e ys fdm pts_name tio win c =
     (if \<not> setsid_ok e then die (ErrSys ''setsid error'')
      else case ys pts_name ((pst c)\<lparr>leader := True, ctty := None\<rparr>) of (r, st) \<Rightarrow>
        if r < 0 then die (ErrSys ''can't open slave pty'')
        else
          let fds = nat r; st = pty_close fdm st in
          rbind (if has_tiocsctty e then
                   if tiocsctty_ok e then ret (st\<lparr>ctty := Some pts_name\<rparr>) else die (ErrSys ''TIOCSCTTY error'')
                 else ret st) (\<lambda>st.
          rbind (case tio of
                   None \<Rightarrow> ret (c\<lparr>pst := st\<rparr>)
                 | Some t \<Rightarrow> if tcsetattr_ok e then ret (c\<lparr>pst := st, tattr := (tattr c)(pts_name := t)\<rparr>)
                     else die (ErrSys ''tcsetattr error on slave pty'')) (\<lambda>c.
          rbind (case win of
                   None \<Rightarrow> ret c
                 | Some w \<Rightarrow> if setwinsz_ok e then ret (c\<lparr>twin := (twin c)(pts_name := w)\<rparr>)
                     else die (ErrSys ''TIOCSWINSZ error on slave pty''))
          (dup2_std fds))))"

record pty_forked =
  pf_pid :: int
  pf_fdm :: "nat option"
  pf_name :: "string option"
  pf_parent :: ptyst
  pf_child :: "ptychild run option"

definition pty_fork ::
    "forksys \<Rightarrow> (nat \<Rightarrow> ptyst \<Rightarrow> (int \<times> string \<times> ptyst) run) \<Rightarrow> (string \<Rightarrow> ptyst \<Rightarrow> int \<times> ptyst) \<Rightarrow>
     nat option \<Rightarrow> termios option \<Rightarrow> winsize option \<Rightarrow> (string \<Rightarrow> termios) \<Rightarrow> (string \<Rightarrow> winsize) \<Rightarrow> ptyst \<Rightarrow> pty_forked run" where
  "pty_fork e ym ys slave_namesz tio win attrs wins st = rbind (ym 20 st) (\<lambda>(fdm, pts_name, st).
     if fdm < 0 then die (ErrSys (''can't open master pty: '' @ pts_name @ '', error -'' @ dec (nat (- fdm))))
     else rbind (case slave_namesz of
                   None \<Rightarrow> ret None
                 | Some 0 \<Rightarrow> die (Undef ''slave_name[-1]'')
                 | Some (Suc n) \<Rightarrow> ret (Some (take n pts_name))) (\<lambda>slave_name.
       ret (case fork_res e of
         None \<Rightarrow> \<lparr>pf_pid = - 1, pf_fdm = None, pf_name = slave_name, pf_parent = st, pf_child = None\<rparr>
       | Some pid \<Rightarrow> \<lparr>pf_pid = pid, pf_fdm = Some (nat fdm), pf_name = slave_name, pf_parent = st,
           pf_child = Some (pty_child e ys (nat fdm) pts_name tio win \<lparr>pst = st, tattr = attrs, twin = wins\<rparr>)\<rparr>)))"

subsection \<open>What both sides have afterwards\<close>

lemma dup2_std_ret:
  assumes "dup2_std fds c = ret c'" and "fdt (pst c) fds = Some x"
  shows "fdt (pst c') = (\<lambda>i. if i < 3 then Some x else if i = fds then None else fdt (pst c) i)"
    and "tattr c' = tattr c" and "twin c' = twin c" and "leader (pst c') = leader (pst c)" and "ctty (pst c') = ctty (pst c)"
proof -
  let ?g = "\<lambda>i. if i \<in> set [0, 1, 2] then Some x else fdt (pst c) i"
  have g: "(if fds \<noteq> 0 \<and> fds \<noteq> 1 \<and> fds \<noteq> 2 then fd_close fds ?g else ?g) =
      (\<lambda>i. if i < 3 then Some x else if i = fds then None else fdt (pst c) i)"
    by (auto simp: fd_close_def)
  have "c' = c\<lparr>pst := (pst c)\<lparr>fdt := (\<lambda>i. if i < 3 then Some x else if i = fds then None else fdt (pst c) i)\<rparr>\<rparr>"
    using assms(1) unfolding dup2_std_def fd_dups_open [where gs = "[0, 1, 2]" and t = "fdt (pst c)", OF assms(2)]
    by (simp add: Let_def g [symmetric] del: list.set) (auto split: if_splits simp del: list.set)
  then show "fdt (pst c') = (\<lambda>i. if i < 3 then Some x else if i = fds then None else fdt (pst c) i)"
    "tattr c' = tattr c" "twin c' = twin c" "leader (pst c') = leader (pst c)" "ctty (pst c') = ctty (pst c)" by simp_all
qed

context pty_pair begin

text \<open>
  The child has the slave as its standard descriptors and as its controlling terminal when the system gives one, with the
  attributes and the size that were asked for; it has no other descriptor that the parent did not have before, so not
  the master.
\<close>

lemma child_on_slave:
  assumes "pty_child e ys fdm nm tio win c = ret c'" and "nm \<noteq> PTMX" and "fdt (pst c) fdm \<noteq> None"
  shows "\<forall>i < 3. fdt (pst c') i = Some (Dev nm)"
    and "\<forall>i \<ge> 3. fdt (pst c') i = (if i = fdm then None else fdt (pst c) i)"
    and "leader (pst c')" and "ctty (pst c') = (if has_tiocsctty e \<or> acquires nm then Some nm else None)"
    and "tattr c' = (case tio of None \<Rightarrow> tattr c | Some t \<Rightarrow> (tattr c)(nm := t))"
    and "twin c' = (case win of None \<Rightarrow> twin c | Some w \<Rightarrow> (twin c)(nm := w))"
proof -
  obtain r st where ys: "ys nm ((pst c)\<lparr>leader := True, ctty := None\<rparr>) = (r, st)" by fastforce
  have r: "0 \<le> r" "setsid_ok e" using assms(1) ys by (auto simp: pty_child_def split: if_splits)
  obtain fds where f: "r = int fds" "fdt (pst c) fds = None" "fdt st = (fdt (pst c))(fds \<mapsto> Dev nm)" "leader st"
      "ctty st = (if acquires nm then Some nm else None)"
    using ys_law [OF ys assms(2)] r by auto
  let ?t = "fd_close fdm (fdt st)"
  let ?ct = "if has_tiocsctty e then Some nm else ctty st"
  have "rbind (if has_tiocsctty e then
                   if tiocsctty_ok e then ret ((pty_close fdm st)\<lparr>ctty := Some nm\<rparr>) else die (ErrSys ''TIOCSCTTY error'')
                 else ret (pty_close fdm st)) (\<lambda>st.
          rbind (case tio of
                   None \<Rightarrow> ret (c\<lparr>pst := st\<rparr>)
                 | Some t \<Rightarrow> if tcsetattr_ok e then ret (c\<lparr>pst := st, tattr := (tattr c)(nm := t)\<rparr>)
                     else die (ErrSys ''tcsetattr error on slave pty'')) (\<lambda>c.
          rbind (case win of
                   None \<Rightarrow> ret c
                 | Some w \<Rightarrow> if setwinsz_ok e then ret (c\<lparr>twin := (twin c)(nm := w)\<rparr>)
                     else die (ErrSys ''TIOCSWINSZ error on slave pty''))
          (dup2_std fds))) = ret c'"
    using assms(1) ys r f(1) by (simp add: pty_child_def Let_def)
  then obtain d where d: "dup2_std fds d = ret c'" "fdt (pst d) = ?t" "leader (pst d)" "ctty (pst d) = ?ct"
      "tattr d = (case tio of None \<Rightarrow> tattr c | Some t \<Rightarrow> (tattr c)(nm := t))"
      "twin d = (case win of None \<Rightarrow> twin c | Some w \<Rightarrow> (twin c)(nm := w))"
    using f(4) by (auto simp: rbind_eq_ret pty_close_def split: if_splits option.splits)
  have n: "fds \<noteq> fdm" using f(2) assms(3) by auto
  have x: "fdt (pst d) fds = Some (Dev nm)" using d(2) f(3) n by (simp add: fd_close_def)
  note t = dup2_std_ret [OF d(1) x]
  show "\<forall>i < 3. fdt (pst c') i = Some (Dev nm)" "leader (pst c')"
    "ctty (pst c') = (if has_tiocsctty e \<or> acquires nm then Some nm else None)"
    "tattr c' = (case tio of None \<Rightarrow> tattr c | Some t \<Rightarrow> (tattr c)(nm := t))"
    "twin c' = (case win of None \<Rightarrow> twin c | Some w \<Rightarrow> (twin c)(nm := w))"
    using t d(3-6) f(5) by auto
  show "\<forall>i \<ge> 3. fdt (pst c') i = (if i = fdm then None else fdt (pst c) i)"
    using t(1) d(2) f(2,3) by (auto simp: fd_close_def)
qed

text \<open>
  A pseudo terminal between the two sides: the parent has the master and nothing else that is new, the child the slave of that master.
\<close>

lemma fork_connects:
  assumes "pty_fork e ym ys sz tio win attrs wins st = ret r" and "usable st"
    and "pf_fdm r = Some fdm" and "pf_child r = Some (ret c)"
  obtains m where "fdt st fdm = None" "fdt (pf_parent r) = (fdt st)(fdm \<mapsto> m)"
    "\<forall>i < 3. fdt (pst c) i = Some (Dev (mate m))" "\<forall>i \<ge> 3. fdt (pst c) i = fdt st i"
    "leader (pst c)" "ctty (pst c) = (if has_tiocsctty e \<or> acquires (mate m) then Some (mate m) else None)"
    "tattr c = (case tio of None \<Rightarrow> attrs | Some t \<Rightarrow> attrs(mate m := t))"
    "twin c = (case win of None \<Rightarrow> wins | Some w \<Rightarrow> wins(mate m := w))"
proof -
  obtain q nm st1 where ym: "ym 20 st = ret (q, nm, st1)" using ym_runs [of 20 st] by auto
  have q: "0 \<le> q" using assms(1) ym by (cases "q < 0") (simp_all add: pty_fork_def)
  obtain p where p: "fork_res e = Some p"
    using assms(1,3) ym q by (cases "fork_res e") (auto simp: pty_fork_def rbind_eq_ret split: option.splits nat.splits)
  have r: "fdm = nat q" "pf_parent r = st1" "pty_child e ys (nat q) nm tio win \<lparr>pst = st1, tattr = attrs, twin = wins\<rparr> = ret c"
    using assms(1,3,4) ym q p by (auto simp: pty_fork_def rbind_eq_ret)
  obtain m where m: "fdt st (nat q) = None" "fdt st1 = (fdt st)(nat q \<mapsto> m)" "nm = mate m" "nm \<noteq> PTMX"
    using ym_law [OF ym assms(2)] q by auto
  have "fdt (pst \<lparr>pst = st1, tattr = attrs, twin = wins\<rparr>) (nat q) \<noteq> None" using m(2) by simp
  note c = child_on_slave [OF r(3) m(4) this]
  show thesis
  proof (rule that [of m])
    show "\<forall>i \<ge> 3. fdt (pst c) i = fdt st i" using c(2) m(1,2) by auto
  qed (use r(1,2) m c in \<open>auto split: option.split\<close>)
qed

end

end
