(* ===== verification/PtyMain.thy ===== *)
theory PtyMain
  imports PtyFork TtyModes
begin

section \<open>The program \<^verbatim>\<open>pty\<close>: \<^verbatim>\<open>pty/main.c\<close> and \<^verbatim>\<open>pty/driver.c\<close>\<close>

subsection \<open>Options\<close>

record ptyopts =
  o_interactive :: bool
  o_ignoreeof :: bool
  o_noecho :: bool
  o_verbose :: bool
  o_driver :: "string option"

definition pty_kind :: "char \<Rightarrow> nat" where
  "pty_kind c = (if c = CHR ''d'' then 2 else if c \<in> set ''einv'' then 1 else 0)"

fun pty_opts :: "gopt list \<Rightarrow> ptyopts \<Rightarrow> ptyopts run" where
  "pty_opts [] p = ret p"
| "pty_opts (BadOpt c # os) p = die (ErrQuit (''unrecognized option: -'' @ [c]))"
| "pty_opts (Opt c a # os) p = pty_opts os
     (if c = CHR ''d'' then p\<lparr>o_driver := a\<rparr>
      else if c = CHR ''e'' then p\<lparr>o_noecho := True\<rparr>
      else if c = CHR ''i'' then p\<lparr>o_ignoreeof := True\<rparr>
      else if c = CHR ''n'' then p\<lparr>o_interactive := False\<rparr>
      else if c = CHR ''v'' then p\<lparr>o_verbose := True\<rparr>
      else p)"

subsection \<open>The child before \<^verbatim>\<open>execvp\<close>\<close>

definition noecho_of :: "termios \<Rightarrow> termios" where
  "noecho_of t = t\<lparr>c_lflag := c_lflag t - {ECHO, ECHOE, ECHOK, ECHONL}, c_oflag := c_oflag t - {ONLCR}\<rparr>"

record mainsys =
  isatty0 :: bool
  winsz :: "winsize option"
  slave_get_ok :: bool
  slave_set_ok :: bool
  exec_ok :: bool
  atexit_ok :: bool
  user_tty :: ttysys

text \<open>\<^verbatim>\<open>set_noecho(fd)\<close>, where \<open>fd\<close> is the slave.\<close>

definition set_noecho :: "mainsys \<Rightarrow> nat \<Rightarrow> ptychild \<Rightarrow> ptychild run" where
  "set_noecho e fd c = (case fdt (pst c) fd of
       Some (Dev n) \<Rightarrow>
         if \<not> slave_get_ok e then die (ErrSys ''tcgetattr error'')
         else if \<not> slave_set_ok e then die (ErrSys ''tcsetattr error'')
         else ret (c\<lparr>tattr := (tattr c)(n := noecho_of (tattr c n))\<rparr>)
     | _ \<Rightarrow> die (ErrSys ''tcgetattr error''))"

definition exec_child :: "mainsys \<Rightarrow> bool \<Rightarrow> string list \<Rightarrow> ptychild \<Rightarrow> (string list \<times> ptychild) run" where
  "exec_child e noecho argv c = rbind (if noecho then set_noecho e 0 c else ret c) (\<lambda>c.
     if exec_ok e then ret (argv, c) else die (ErrSys (''can't execute: '' @ hd argv)))"

subsection \<open>The parent up to \<^verbatim>\<open>loop\<close>\<close>

text \<open>
  The terminal of the user is descriptor 0 of \<open>ttys\<close>.  \<open>rd_child\<close> is how the child goes on: the arguments it executes
  and its state then.
\<close>

record pty_ready =
  rd_forked :: pty_forked
  rd_child :: "(string list \<times> ptychild) run"
  rd_msgs :: "string list"
  rd_tty :: ttys
  rd_atexit :: bool
  rd_opts :: ptyopts

definition pty_messages :: "ptyopts \<Rightarrow> string option \<Rightarrow> string list" where
  "pty_messages p sn =
     (if o_verbose p then
        [''slave name = '' @ (case sn of Some n \<Rightarrow> n | None \<Rightarrow> []) @ [newline]] @
        (case o_driver p of None \<Rightarrow> [] | Some d \<Rightarrow> [''driver = '' @ d @ [newline]])
      else [])"

definition pty_parent :: "mainsys \<Rightarrow> ptyopts \<Rightarrow> string list \<Rightarrow> pty_forked \<Rightarrow> ttys \<Rightarrow> pty_ready run" where
  "pty_parent e p argv f t =
     (if pf_pid f < 0 then die (ErrSys ''fork error'')
      else
        let r = \<lparr>rd_forked = f,
                 rd_child = (case pf_child f of None \<Rightarrow> None | Some run \<Rightarrow> rbind run (exec_child e (o_noecho p) argv)),
                 rd_msgs = pty_messages p (pf_name f), rd_tty = t, rd_atexit = False, rd_opts = p\<rparr>
        in if o_interactive p \<and> o_driver p = None then
             (case tty_raw (user_tty e) 0 t of (q, t) \<Rightarrow>
                if q < 0 then die (ErrSys ''tty_raw error'')
                else if \<not> atexit_ok e then die (ErrSys ''atexit error'')
                else ret (r\<lparr>rd_tty := t, rd_atexit := True\<rparr>))
           else ret r)"

text \<open>\<^verbatim>\<open>main\<close> behind the options, and the whole of it.\<close>

definition pty_start ::
    "mainsys \<Rightarrow> forksys \<Rightarrow> (nat \<Rightarrow> ptyst \<Rightarrow> (int \<times> string \<times> ptyst) run) \<Rightarrow> (string \<Rightarrow> ptyst \<Rightarrow> int \<times> ptyst) \<Rightarrow>
     ptyopts \<Rightarrow> string list \<Rightarrow> (string \<Rightarrow> termios) \<Rightarrow> (string \<Rightarrow> winsize) \<Rightarrow> ptyst \<Rightarrow> ttys \<Rightarrow> pty_ready run" where
  "pty_start e fe ym ys p argv attrs wins st t =
     (if argv = [] then die (ErrQuit ''usage: pty [ -d driver -einv ] program [ arg ... ]'')
      else if o_interactive p then
        (case tc_get (user_tty e) 0 t of
           (None, t) \<Rightarrow> die (ErrSys ''tcgetattr error on stdin'')
         | (Some orig, t) \<Rightarrow> (case winsz e of
             None \<Rightarrow> die (ErrSys ''TIOCGWINSZ error'')
           | Some w \<Rightarrow> rbind (pty_fork fe ym ys (Some 20) (Some orig) (Some w) attrs wins st)
               (\<lambda>f. pty_parent e p argv f t)))
      else rbind (pty_fork fe ym ys (Some 20) None None attrs wins st) (\<lambda>f. pty_parent e p argv f t))"

definition pty_main ::
    "mainsys \<Rightarrow> forksys \<Rightarrow> (nat \<Rightarrow> ptyst \<Rightarrow> (int \<times> string \<times> ptyst) run) \<Rightarrow> (string \<Rightarrow> ptyst \<Rightarrow> int \<times> ptyst) \<Rightarrow>
     string list \<Rightarrow> (string \<Rightarrow> termios) \<Rightarrow> (string \<Rightarrow> winsize) \<Rightarrow> ptyst \<Rightarrow> ttys \<Rightarrow> pty_ready run" where
  "pty_main e fe ym ys args attrs wins st t = (case getopt pty_kind [] args of (os, argv) \<Rightarrow>
     rbind (pty_opts os \<lparr>o_interactive = isatty0 e, o_ignoreeof = False, o_noecho = False, o_verbose = False, o_driver = None\<rparr>)
       (\<lambda>p. pty_start e fe ym ys p argv attrs wins st t))"

text \<open>\<^verbatim>\<open>exit\<close> runs the function that \<^verbatim>\<open>atexit\<close> has registered.\<close>

definition pty_exit :: "mainsys \<Rightarrow> pty_ready \<Rightarrow> ttys" where
  "pty_exit e r = (if rd_atexit r then tty_atexit (user_tty e) (rd_tty r) else rd_tty r)"

subsection \<open>The driver: \<^verbatim>\<open>pty/driver.c\<close>\<close>

text \<open>
  \<open>e0\<close> and \<open>e1\<close> are the ends of the stream pipe.  Both processes close the end of the other and make their own one
  standard input and output.
\<close>

definition driver_side :: "nat \<Rightarrow> nat \<Rightarrow> 'a fdtab \<Rightarrow> 'a fdtab run" where
  "driver_side own other t = (case fd_dups own [0, 1] (fd_close other t) of
       ([], t) \<Rightarrow> ret (if own \<noteq> 0 \<and> own \<noteq> 1 then fd_close own t else t)
     | (g # gs, t) \<Rightarrow> die (ErrSys (if g = 0 then ''dup2 error to stdin'' else ''dup2 error to stdout'')))"

definition do_driver :: "nat \<Rightarrow> bool \<Rightarrow> 'a \<Rightarrow> 'a \<Rightarrow> bool \<Rightarrow> 'a fdtab \<Rightarrow> ('a fdtab run \<times> 'a fdtab) run" where
  "do_driver lim fork_ok e0 e1 exec t = (case fd_open lim e0 t of
       (None, t) \<Rightarrow> die (ErrSys ''can't create stream pipe'')
     | (Some p0, t) \<Rightarrow> (case fd_open lim e1 t of
         (None, t) \<Rightarrow> die (ErrSys ''can't create stream pipe'')
       | (Some p1, t) \<Rightarrow>
           if \<not> fork_ok then die (ErrSys ''fork error'')
           else rbind (driver_side p1 p0 t) (\<lambda>tp.
             ret (rbind (driver_side p0 p1 t) (\<lambda>tc. if exec then ret tc else die (ErrSys ''execlp error for: '')), tp))))"

lemma driver_side_eq:
  assumes "t own = Some x" and "own \<noteq> other"
  shows "driver_side own other t = ret (\<lambda>i. if i < 2 then Some x else if i = own \<or> i = other then None else t i)"
proof -
  have o: "fd_close other t own = Some x" using assms by (simp add: fd_close_def)
  have "(if own \<noteq> 0 \<and> own \<noteq> 1 then fd_close own (\<lambda>i. if i \<in> set [0, 1] then Some x else fd_close other t i)
      else (\<lambda>i. if i \<in> set [0, 1] then Some x else fd_close other t i)) =
    (\<lambda>i. if i < 2 then Some x else if i = own \<or> i = other then None else t i)"
    by (auto simp: fd_close_def fun_eq_iff)
  then show ?thesis
    unfolding driver_side_def fd_dups_open [where gs = "[0, 1]" and t = "fd_close other t", OF o]
    by (cases "own = 0 \<or> own = 1") (auto simp del: list.set)
qed

text \<open>The program and its driver are connected, and neither has a descriptor more than before.\<close>

lemma driver_connected:
  assumes "do_driver lim True e0 e1 True t = ret (child, parent)"
  shows "child = ret (\<lambda>i. if i < 2 then Some e0 else t i)" and "parent = (\<lambda>i. if i < 2 then Some e1 else t i)"
proof -
  obtain p0 p1 where p: "free_fd lim t = Some p0" "free_fd lim (t(p0 \<mapsto> e0)) = Some p1"
    using assms by (auto simp: do_driver_def fd_open_def split: option.splits)
  let ?t = "t(p0 \<mapsto> e0, p1 \<mapsto> e1)"
  have n: "t p0 = None" "p0 \<noteq> p1" "t p1 = None" using free_fd_Some [OF p(1)] free_fd_Some [OF p(2)] by (auto split: if_splits)
  have s: "driver_side p1 p0 ?t = ret (\<lambda>i. if i < 2 then Some e1 else t i)" "driver_side p0 p1 ?t = ret (\<lambda>i. if i < 2 then Some e0 else t i)"
    using driver_side_eq [of ?t p1 e1 p0] driver_side_eq [of ?t p0 e0 p1] n by (auto simp: fun_eq_iff)
  show "child = ret (\<lambda>i. if i < 2 then Some e0 else t i)" "parent = (\<lambda>i. if i < 2 then Some e1 else t i)"
    using assms p s by (auto simp: do_driver_def fd_open_def)
qed

subsection \<open>The whole program on each of the three systems\<close>

lemma exec_child_ret:
  assumes "exec_child e noecho argv c = ret (av, c')" and "fdt (pst c) 0 = Some (Dev n)"
  shows "av = argv" and "pst c' = pst c" and "twin c' = twin c"
    and "tattr c' n = (if noecho then noecho_of (tattr c n) else tattr c n)"
  using assms by (auto simp: exec_child_def set_noecho_def rbind_eq_ret split: if_splits)

lemma pty_parent_ret:
  assumes "pty_parent e p argv f t = ret r"
  shows "rd_forked r = f" and "rd_opts r = p" and "0 \<le> pf_pid f"
    and "rd_child r = (case pf_child f of None \<Rightarrow> None | Some run \<Rightarrow> rbind run (exec_child e (o_noecho p) argv))"
    and "rd_tty r = (if o_interactive p \<and> o_driver p = None then snd (tty_raw (user_tty e) 0 t) else t)"
    and "o_interactive p \<and> o_driver p = None \<longrightarrow> 0 \<le> fst (tty_raw (user_tty e) 0 t)"
    and "rd_atexit r \<longleftrightarrow> o_interactive p \<and> o_driver p = None"
  using assms by (auto simp: pty_parent_def Let_def split: if_splits prod.splits)

lemma pty_fork_both:
  assumes "pty_fork e ym ys sz tio win attrs wins st = ret f" and "pf_child f = Some run"
  obtains fdm where "pf_fdm f = Some fdm"
  using assms by (auto simp: pty_fork_def rbind_eq_ret split: if_splits option.splits prod.splits)

text \<open>The three systems: their two functions, when they can be used, and the slave of a master.\<close>

definition platforms :: "ptysys \<Rightarrow> ((nat \<Rightarrow> ptyst \<Rightarrow> (int \<times> string \<times> ptyst) run) \<times> (string \<Rightarrow> ptyst \<Rightarrow> int \<times> ptyst) \<times>
    (ptyst \<Rightarrow> bool) \<times> (ofile \<Rightarrow> string)) list" where
  "platforms k = [(ptym_open_bsd k, ptys_open_bsd k, usable_bsd k, mate_bsd),
     (ptym_open_linux k, ptys_open_linux k, usable_linux, mate_linux),
     (ptym_open_streams k, ptys_open_streams k, usable_streams k, mate_streams k)]"

lemma platforms_pair: "(ym, ys, us, mate) \<in> set (platforms k) \<Longrightarrow> pty_pair ym ys us mate (gives_ctty k)"
  using bsd.pty_pair_axioms [of k] linux.pty_pair_axioms [of k] streams.pty_pair_axioms [of k] by (auto simp: platforms_def)

lemma pty_main_ret:
  assumes "pty_main e fe ym ys args attrs wins st t = ret r"
  obtains os argv p f tio win t' where "getopt pty_kind [] args = (os, argv)" "argv \<noteq> []"
    "pty_fork fe ym ys (Some 20) tio win attrs wins st = ret f" "pty_parent e p argv f t' = ret r"
    "terms t' = terms t" "ttymode t' = ttymode t"
    "o_interactive p \<longrightarrow> tio = Some (terms t 0) \<and> win = winsz e \<and> win \<noteq> None" "\<not> o_interactive p \<longrightarrow> tio = None \<and> win = None"
proof -
  obtain os argv where g: "getopt pty_kind [] args = (os, argv)" by fastforce
  obtain p where p: "pty_start e fe ym ys p argv attrs wins st t = ret r"
    using assms g by (auto simp: pty_main_def rbind_eq_ret)
  have av: "argv \<noteq> []" using p by (auto simp: pty_start_def)
  show thesis
  proof (cases "o_interactive p")
    case False
    then obtain f where "pty_fork fe ym ys (Some 20) None None attrs wins st = ret f" "pty_parent e p argv f t = ret r"
      using p av by (auto simp: pty_start_def rbind_eq_ret)
    with False g av show ?thesis by (intro that) auto
  next
    case True
    then obtain w f where "tget (user_tty e) (gets t)" "winsz e = Some w"
        "pty_fork fe ym ys (Some 20) (Some (terms t 0)) (Some w) attrs wins st = ret f"
        "pty_parent e p argv f (t\<lparr>gets := Suc (gets t)\<rparr>) = ret r"
      using p av by (auto simp: pty_start_def tc_get_def rbind_eq_ret split: option.splits if_splits)
    with True g av show ?thesis
      by (intro that [of os argv "Some (terms t 0)" "Some w" f p "t\<lparr>gets := Suc (gets t)\<rparr>"]) simp_all
  qed
qed

text \<open>
  C31: the program \<^verbatim>\<open>pty\<close> on BSD, Linux and System V.  When it comes to its copy loop and the program it starts is executed:
  that program has the arguments behind the options, its standard descriptors are the slave of the master that
  \<^verbatim>\<open>pty\<close> holds, it has no other new descriptor, it leads a session of its own, and in the interactive case the slave has
  the attributes (without echo for \<^verbatim>\<open>-e\<close>) and the window size of the user's terminal, which itself is in raw mode unless there is a
  driver; when \<^verbatim>\<open>pty\<close> exits the user's terminal is as it was.
\<close>

theorem pty_runs_on_slave:
  assumes "(ym, ys, us, mate) \<in> set (platforms k)" and "us st" and "ttymode t = RESET"
    and "pty_main e fe ym ys args attrs wins st t = ret r" and "rd_child r = ret (av, c)"
    and "\<forall>x. tset (user_tty e) x (terms t 0) = Some (terms t 0)"
  shows "\<exists>m fdm. fdt st fdm = None \<and> pf_fdm (rd_forked r) = Some fdm \<and> fdt (pf_parent (rd_forked r)) = (fdt st)(fdm \<mapsto> m) \<and>
     av = snd (getopt pty_kind [] args) \<and> av \<noteq> [] \<and>
     (\<forall>i < 3. fdt (pst c) i = Some (Dev (mate m))) \<and> (\<forall>i \<ge> 3. fdt (pst c) i = fdt st i) \<and>
     leader (pst c) \<and> (has_tiocsctty fe \<longrightarrow> ctty (pst c) = Some (mate m)) \<and>
     (o_interactive (rd_opts r) \<longrightarrow> winsz e = Some (twin c (mate m)) \<and>
        tattr c (mate m) = (if o_noecho (rd_opts r) then noecho_of (terms t 0) else terms t 0)) \<and>
     (o_interactive (rd_opts r) \<and> o_driver (rd_opts r) = None \<longrightarrow> ttymode (rd_tty r) = RAW \<and> raw_ok (terms (rd_tty r) 0)) \<and>
     terms (pty_exit e r) = terms t"
proof -
  have pair: "pty_pair ym ys us mate (gives_ctty k)" by (rule platforms_pair [OF assms(1)])
  obtain os argv p f tio win t' where g: "getopt pty_kind [] args = (os, argv)" "argv \<noteq> []"
      and f: "pty_fork fe ym ys (Some 20) tio win attrs wins st = ret f" and r: "pty_parent e p argv f t' = ret r"
      and t': "terms t' = terms t" "ttymode t' = ttymode t"
      and i: "o_interactive p \<longrightarrow> tio = Some (terms t 0) \<and> win = winsz e \<and> win \<noteq> None" "\<not> o_interactive p \<longrightarrow> tio = None \<and> win = None"
    by (rule pty_main_ret [OF assms(4)])
  note pr = pty_parent_ret [OF r]
  obtain c1 where c1: "pf_child f = Some (ret c1)" "exec_child e (o_noecho p) argv c1 = ret (av, c)"
    using assms(5) pr(4) by (auto simp: rbind_eq_ret split: option.splits)
  obtain fdm where fdm: "pf_fdm f = Some fdm" by (rule pty_fork_both [OF f c1(1)])
  obtain m where m: "fdt st fdm = None" "fdt (pf_parent f) = (fdt st)(fdm \<mapsto> m)"
      "\<forall>i < 3. fdt (pst c1) i = Some (Dev (mate m))" "\<forall>i \<ge> 3. fdt (pst c1) i = fdt st i"
      "leader (pst c1)" "ctty (pst c1) = (if has_tiocsctty fe \<or> gives_ctty k (mate m) then Some (mate m) else None)"
      "tattr c1 = (case tio of None \<Rightarrow> attrs | Some t \<Rightarrow> attrs(mate m := t))"
      "twin c1 = (case win of None \<Rightarrow> wins | Some w \<Rightarrow> wins(mate m := w))"
    by (rule pty_pair.fork_connects [OF pair f assms(2) fdm c1(1)])
  have z: "fdt (pst c1) 0 = Some (Dev (mate m))" using m(3) by simp
  note ec = exec_child_ret [OF c1(2) z]
  have raw: "ttymode (rd_tty r) = RAW \<and> raw_ok (terms (rd_tty r) 0) \<and> terms (pty_exit e r) = terms t"
    if "o_interactive p \<and> o_driver p = None"
    using that pr(5-7) raw_inv [of "user_tty e" 0 t'] raw_restores [of "user_tty e" t' 0 "[]"] assms(3,6) t' by (simp add: pty_exit_def)
  have cooked: "terms (pty_exit e r) = terms t" if "\<not> (o_interactive p \<and> o_driver p = None)"
    using that pr(5,7) t'(1) by (auto simp: pty_exit_def)
  have att: "o_interactive p \<longrightarrow> winsz e = Some (twin c (mate m)) \<and>
        tattr c (mate m) = (if o_noecho p then noecho_of (terms t 0) else terms t 0)"
    using i(1) ec(3,4) m(7,8) by auto
  have tty: "terms (pty_exit e r) = terms t" using raw cooked by blast
  show ?thesis
    using g m(1-6) ec(1,2) pr(1,2) fdm raw tty att by (intro exI [of _ m] exI [of _ fdm]) simp
qed

text \<open>A shell command on a Linux pseudo terminal.\<close>

definition demo_k :: ptysys where
  "demo_k = \<lparr>opens = \<lambda>_. None, fd_lim = 16, tty_name = \<lambda>_. None, gid_tty = None, my_uid = 7, chown_ok = \<lambda>_. True,
     chmod_ok = \<lambda>_. True, tiocgptn_ok = True, unlock_ok = True, lib_grant_ok = True, lib_ptsname = \<lambda>_. None, find_ok = True,
     push_ok = \<lambda>_. True, gives_ctty = \<lambda>_. False\<rparr>"

definition demo_st :: ptyst where
  "demo_st = \<lparr>fdt = (\<lambda>i. if i < 3 then Some (Dev ''/dev/tty1'') else None), owners = (\<lambda>_. (0, 0)), perms = (\<lambda>_. 0), npty = 4,
     locked = {}, modules = (\<lambda>_. []), leader = False, ctty = None\<rparr>"

definition demo_e :: mainsys where
  "demo_e = \<lparr>isatty0 = True, winsz = Some (24, 80, 0, 0), slave_get_ok = True, slave_set_ok = True, exec_ok = True, atexit_ok = True,
     user_tty = \<lparr>tset = \<lambda>x y. Some y, tget = \<lambda>n. True\<rparr>\<rparr>"

definition demo_f :: forksys where
  "demo_f = \<lparr>fork_res = Some 99, setsid_ok = True, has_tiocsctty = True, tiocsctty_ok = True, tcsetattr_ok = True, setwinsz_ok = True\<rparr>"

definition demo_tio :: termios where
  "demo_tio = \<lparr>c_iflag = {ICRNL}, c_oflag = {OPOST, ONLCR}, c_cflag = {CS8}, c_lflag = {ECHO, ICANON, ISIG}, vmin = 4, vtime = 1,
     speed_io = 9600\<rparr>"

lemma demo_fds:
  "free_fd 16 (\<lambda>i. if i < 3 then Some x else None) = Some 3"
  "free_fd 16 ((\<lambda>i. if i < 3 then Some x else None)(3 \<mapsto> y)) = Some 4"
  by (rule free_fd_here; auto)+

lemma demo_name: "pts_path 4 = ''/dev/pts/4''"
  by code_simp

lemma demo_run:
  "\<exists>r av c. pty_main demo_e demo_f (ptym_open_linux demo_k) (ptys_open_linux demo_k) [''-e'', ''ls'', ''-l''] (\<lambda>_. demo_tio)
       (\<lambda>_. (0, 0, 0, 0)) demo_st (tty_init (\<lambda>_. demo_tio)) = ret r \<and>
     rd_child r = ret (av, c) \<and> o_interactive (rd_opts r) \<and> o_noecho (rd_opts r) \<and> o_driver (rd_opts r) = None"
  by (simp add: pty_main_def pty_start_def pty_parent_def Let_def tty_raw_def tty_change_def tc_get_def tc_set_def tty_init_def raw_of_def raw_ok_def
    demo_e_def demo_f_def demo_tio_def pty_kind_def pty_fork_def pty_child_def exec_child_def set_noecho_def dup2_std_def fd_dup2_def fd_close_def
    pty_close_def ptym_open_linux_def ptym_with_def posix_openpt_linux_def pty_open_def demo_k_def grantpt_linux_def ptsname_linux_def
    pty_chmod_def ptys_open_linux_def unlockpt_linux_def demo_name demo_st_def PTMX_def demo_fds)

theorem pty_runs_on_slave_witness:
  "\<exists>r c m. pty_main demo_e demo_f (ptym_open_linux demo_k) (ptys_open_linux demo_k) [''-e'', ''ls'', ''-l''] (\<lambda>_. demo_tio)
       (\<lambda>_. (0, 0, 0, 0)) demo_st (tty_init (\<lambda>_. demo_tio)) = ret r \<and>
     rd_child r = ret ([''ls'', ''-l''], c) \<and> fdt (pst c) 1 = Some (Dev (mate_linux m)) \<and>
     tattr c (mate_linux m) = noecho_of demo_tio \<and> raw_ok (terms (rd_tty r) 0) \<and> terms (pty_exit demo_e r) 0 = demo_tio"
proof -
  obtain r av c where r: "pty_main demo_e demo_f (ptym_open_linux demo_k) (ptys_open_linux demo_k) [''-e'', ''ls'', ''-l''] (\<lambda>_. demo_tio)
       (\<lambda>_. (0, 0, 0, 0)) demo_st (tty_init (\<lambda>_. demo_tio)) = ret r" "rd_child r = ret (av, c)"
     "o_interactive (rd_opts r)" "o_noecho (rd_opts r)" "o_driver (rd_opts r) = None"
    using demo_run by blast
  have "(ptym_open_linux demo_k, ptys_open_linux demo_k, usable_linux, mate_linux) \<in> set (platforms demo_k)" by (simp add: platforms_def)
  moreover have "usable_linux demo_st" by (simp add: usable_linux_def demo_st_def)
  moreover have "ttymode (tty_init (\<lambda>_. demo_tio)) = RESET" by (simp add: tty_init_def)
  moreover have "\<forall>x. tset (user_tty demo_e) x (terms (tty_init (\<lambda>_. demo_tio)) 0) = Some (terms (tty_init (\<lambda>_. demo_tio)) 0)"
    by (simp add: demo_e_def)
  ultimately obtain m where m: "av = snd (getopt pty_kind [] [''-e'', ''ls'', ''-l''])" "\<forall>i < 3. fdt (pst c) i = Some (Dev (mate_linux m))"
      "o_interactive (rd_opts r) \<longrightarrow>
        tattr c (mate_linux m) = (if o_noecho (rd_opts r) then noecho_of (terms (tty_init (\<lambda>_. demo_tio)) 0) else terms (tty_init (\<lambda>_. demo_tio)) 0)"
      "o_interactive (rd_opts r) \<and> o_driver (rd_opts r) = None \<longrightarrow> raw_ok (terms (rd_tty r) 0)"
      "terms (pty_exit demo_e r) = terms (tty_init (\<lambda>_. demo_tio))"
    using pty_runs_on_slave [OF _ _ _ r(1,2)] by blast
  have "av = [''ls'', ''-l'']" using m(1) by (simp add: pty_kind_def)
  then show ?thesis using r m by (intro exI [of _ r] exI [of _ c] exI [of _ m]) (simp add: tty_init_def)
qed

end
