(* ===== verification/PtyLoop.thy ===== *)
theory PtyLoop
  imports PtyMain "HOL-Library.Sublist"
begin

section \<open>The two processes of \<^verbatim>\<open>pty\<close>: \<^verbatim>\<open>pty/loop.c\<close>\<close>

text \<open>
  The child copies standard input to the master, the parent the master to standard output.  Both are at a place in their
  code: the child copies, is about to tell its parent, or has ended; the parent has not yet set its signal handler, is in
  \<^verbatim>\<open>read\<close>, has data to write, is behind its loop, has returned, has ended with an error, or was killed by the signal.
  \<open>typed\<close> and \<open>toslave\<close> are what the child has read and written, \<open>shown\<close> and \<open>outp\<close> what the parent has.
\<close>

datatype cpc = CCopy | CTell | CEnd
datatype ppc = PStart | PRead | PWrite string | PAfter | PReturned | PFailed | PKilled

record ptyloop =
  typed :: string
  toslave :: string
  shown :: string
  outp :: string
  sigcaught :: bool
  cpl :: cpc
  ppl :: ppc

definition BUFFSIZE :: nat where
  "BUFFSIZE = 512"

definition loop_start :: ptyloop where
  "loop_start = \<lparr>typed = [], toslave = [], shown = [], outp = [], sigcaught = False, cpl = CCopy, ppl = PStart\<rparr>"

text \<open>
  \<^verbatim>\<open>SIGTERM\<close> at the parent: without a handler it kills, in \<^verbatim>\<open>read\<close> the call is interrupted, elsewhere only the flag
  is set by \<^verbatim>\<open>sig_term\<close>.
\<close>

definition sig_term :: "ptyloop \<Rightarrow> ptyloop" where
  "sig_term s = (case ppl s of
     PStart \<Rightarrow> s\<lparr>ppl := PKilled\<rparr>
   | PRead \<Rightarrow> s\<lparr>sigcaught := True, ppl := PAfter\<rparr>
   | PReturned \<Rightarrow> s | PFailed \<Rightarrow> s | PKilled \<Rightarrow> s
   | _ \<Rightarrow> s\<lparr>sigcaught := True\<rparr>)"

inductive loop_step :: "bool \<Rightarrow> ptyloop \<Rightarrow> ptyloop \<Rightarrow> bool" for ignoreeof :: bool where
  c_copy: "cpl s = CCopy \<Longrightarrow> x \<noteq> [] \<Longrightarrow> length x \<le> BUFFSIZE \<Longrightarrow>
    loop_step ignoreeof s (s\<lparr>typed := typed s @ x, toslave := toslave s @ x\<rparr>)"
| c_short: "cpl s = CCopy \<Longrightarrow> x \<noteq> [] \<Longrightarrow> length x \<le> BUFFSIZE \<Longrightarrow> n < length x \<Longrightarrow>
    loop_step ignoreeof s (s\<lparr>typed := typed s @ x, toslave := toslave s @ take n x, cpl := CEnd\<rparr>)"
| c_fail: "cpl s = CCopy \<Longrightarrow> loop_step ignoreeof s (s\<lparr>cpl := CEnd\<rparr>)"
| c_eof: "cpl s = CCopy \<Longrightarrow> loop_step ignoreeof s (s\<lparr>cpl := (if ignoreeof then CEnd else CTell)\<rparr>)"
| c_tell: "cpl s = CTell \<Longrightarrow> loop_step ignoreeof s (sig_term s\<lparr>cpl := CEnd\<rparr>)"
| p_handler: "ppl s = PStart \<Longrightarrow> loop_step ignoreeof s (s\<lparr>ppl := PRead\<rparr>)"
| p_read: "ppl s = PRead \<Longrightarrow> x \<noteq> [] \<Longrightarrow> length x \<le> BUFFSIZE \<Longrightarrow>
    loop_step ignoreeof s (s\<lparr>shown := shown s @ x, ppl := PWrite x\<rparr>)"
| p_write: "ppl s = PWrite x \<Longrightarrow> loop_step ignoreeof s (s\<lparr>outp := outp s @ x, ppl := PRead\<rparr>)"
| p_short: "ppl s = PWrite x \<Longrightarrow> n < length x \<Longrightarrow>
    loop_step ignoreeof s (s\<lparr>outp := outp s @ take n x, ppl := PFailed\<rparr>)"
| p_eof: "ppl s = PRead \<Longrightarrow> loop_step ignoreeof s (s\<lparr>ppl := PAfter\<rparr>)"
| p_return: "ppl s = PAfter \<Longrightarrow> loop_step ignoreeof s (s\<lparr>cpl := (if sigcaught s then cpl s else CEnd), ppl := PReturned\<rparr>)"

abbreviation loop_reach :: "bool \<Rightarrow> ptyloop \<Rightarrow> bool" where
  "loop_reach ig \<equiv> (loop_step ig)\<^sup>*\<^sup>* loop_start"

inductive_cases loop_stepE: "loop_step ig s s'"

text \<open>
  What holds in every reachable state: both directions are copied in order, the parent has written all it read unless it is
  about to or failed; \<^verbatim>\<open>sig_term\<close> was called only by a child that is ending; when the parent has returned the child
  has ended.
\<close>

definition loop_inv :: "bool \<Rightarrow> ptyloop \<Rightarrow> bool" where
  "loop_inv ig s \<longleftrightarrow>
     prefix (toslave s) (typed s) \<and> (cpl s \<noteq> CEnd \<longrightarrow> toslave s = typed s) \<and>
     prefix (outp s) (shown s) \<and>
     (case ppl s of PWrite x \<Rightarrow> shown s = outp s @ x | PFailed \<Rightarrow> True | _ \<Rightarrow> shown s = outp s) \<and>
     (sigcaught s \<longrightarrow> cpl s = CEnd \<and> \<not> ig) \<and> (ppl s = PKilled \<longrightarrow> cpl s = CEnd \<and> \<not> ig) \<and> (cpl s = CTell \<longrightarrow> \<not> ig) \<and>
     (ppl s = PReturned \<longrightarrow> cpl s = CEnd)"

lemma loop_inv_step: "loop_step ig s s' \<Longrightarrow> loop_inv ig s \<Longrightarrow> loop_inv ig s'"
proof (induction rule: loop_step.induct)
  case (c_tell s)
  then show ?case by (cases "ppl s") (auto simp: loop_inv_def sig_term_def)
next
  case (c_short s x n)
  then show ?case by (cases "ppl s") (auto simp: loop_inv_def take_is_prefix)
next
  case (p_short s x n)
  then show ?case by (auto simp: loop_inv_def take_is_prefix)
qed (auto simp: loop_inv_def split: ppc.splits)

lemma loop_inv_reach: "loop_reach ig s \<Longrightarrow> loop_inv ig s"
proof (induction rule: rtranclp_induct)
  case base
  show ?case by (simp add: loop_inv_def loop_start_def)
next
  case (step s s')
  then show ?case by (blast intro: loop_inv_step)
qed

text \<open>
  Any copying by the two processes: whatever the child reads goes to the master, whatever the parent reads to standard
  output.
\<close>

lemma child_copies:
  assumes "\<forall>x \<in> set xs. x \<noteq> [] \<and> length x \<le> BUFFSIZE" and "cpl s = CCopy"
  shows "(loop_step ig)\<^sup>*\<^sup>* s (s\<lparr>typed := typed s @ concat xs, toslave := toslave s @ concat xs\<rparr>)"
  using assms
proof (induction xs arbitrary: s)
  case (Cons x xs)
  let ?s = "s\<lparr>typed := typed s @ x, toslave := toslave s @ x\<rparr>"
  have "loop_step ig s ?s" using Cons.prems by (auto intro: c_copy)
  moreover have "(loop_step ig)\<^sup>*\<^sup>* ?s (s\<lparr>typed := typed s @ concat (x # xs), toslave := toslave s @ concat (x # xs)\<rparr>)"
    using Cons.IH [of ?s] Cons.prems by simp
  ultimately show ?case by (rule converse_rtranclp_into_rtranclp)
qed simp

lemma parent_copies:
  assumes "\<forall>x \<in> set xs. x \<noteq> [] \<and> length x \<le> BUFFSIZE" and "ppl s = PRead"
  shows "(loop_step ig)\<^sup>*\<^sup>* s (s\<lparr>shown := shown s @ concat xs, outp := outp s @ concat xs\<rparr>)"
  using assms
proof (induction xs arbitrary: s)
  case (Cons x xs)
  let ?s1 = "s\<lparr>shown := shown s @ x, ppl := PWrite x\<rparr>"
  let ?s2 = "?s1\<lparr>outp := outp ?s1 @ x, ppl := PRead\<rparr>"
  have "loop_step ig s ?s1" using Cons.prems by (auto intro: p_read)
  moreover have "loop_step ig ?s1 ?s2" by (rule p_write) simp
  moreover have "(loop_step ig)\<^sup>*\<^sup>* ?s2 (s\<lparr>shown := shown s @ concat (x # xs), outp := outp s @ concat (x # xs)\<rparr>)"
  proof -
    have "s\<lparr>shown := shown s @ concat (x # xs), outp := outp s @ concat (x # xs)\<rparr> =
        ?s2\<lparr>shown := shown ?s2 @ concat xs, outp := outp ?s2 @ concat xs\<rparr>"
      using Cons.prems(2) by (cases s) simp
    moreover have "(loop_step ig)\<^sup>*\<^sup>* ?s2 (?s2\<lparr>shown := shown ?s2 @ concat xs, outp := outp ?s2 @ concat xs\<rparr>)"
      using Cons.IH [of ?s2] Cons.prems by simp
    ultimately show ?thesis by metis
  qed
  ultimately show ?case by (meson converse_rtranclp_into_rtranclp)
qed simp

text \<open>
  The time between \<^verbatim>\<open>fork\<close> and \<^verbatim>\<open>signal_intr\<close>: an end of file that the child sees so early kills the parent.  And
  the flag \<^verbatim>\<open>sigcaught\<close> is not looked at in the parent's loop: a signal that comes while the parent writes does not end it.
\<close>

lemma early_eof_kills:
  assumes "cpl s = CCopy" and "ppl s = PStart"
  shows "(loop_step False)\<^sup>*\<^sup>* s (s\<lparr>cpl := CEnd, ppl := PKilled\<rparr>)"
proof -
  let ?s = "s\<lparr>cpl := (if False then CEnd else CTell)\<rparr>"
  have "loop_step False s ?s" by (rule c_eof) (rule assms(1))
  moreover have "loop_step False ?s (sig_term ?s\<lparr>cpl := CEnd\<rparr>)" by (rule c_tell) simp
  moreover have "sig_term ?s\<lparr>cpl := CEnd\<rparr> = s\<lparr>cpl := CEnd, ppl := PKilled\<rparr>"
    using assms(2) by (simp add: sig_term_def)
  ultimately show ?thesis by (metis converse_rtranclp_into_rtranclp r_into_rtranclp)
qed

lemma eof_while_writing:
  assumes "cpl s = CCopy" and "ppl s = PWrite x"
  shows "(loop_step False)\<^sup>*\<^sup>* s (s\<lparr>outp := outp s @ x, sigcaught := True, cpl := CEnd, ppl := PRead\<rparr>)"
proof -
  let ?s1 = "s\<lparr>cpl := (if False then CEnd else CTell)\<rparr>"
  let ?s2 = "sig_term ?s1\<lparr>cpl := CEnd\<rparr>"
  have e: "?s2 = s\<lparr>sigcaught := True, cpl := CEnd\<rparr>" using assms(2) by (simp add: sig_term_def)
  have "loop_step False s ?s1" by (rule c_eof) (rule assms(1))
  moreover have "loop_step False ?s1 ?s2" by (rule c_tell) simp
  moreover have "loop_step False ?s2 (?s2\<lparr>outp := outp ?s2 @ x, ppl := PRead\<rparr>)"
    by (rule p_write) (simp only: e, simp add: assms(2))
  moreover have "?s2\<lparr>outp := outp ?s2 @ x, ppl := PRead\<rparr> = s\<lparr>outp := outp s @ x, sigcaught := True, cpl := CEnd, ppl := PRead\<rparr>"
    by (simp only: e) simp
  ultimately show ?thesis by (metis converse_rtranclp_into_rtranclp r_into_rtranclp)
qed

lemma only_pty_wakes:
  assumes "loop_step ig s s'" and "cpl s = CEnd" and "ppl s = PRead"
  shows "ppl s' = PAfter \<or> (\<exists>x. x \<noteq> [] \<and> ppl s' = PWrite x)"
  using assms by (auto elim: loop_stepE)

text \<open>
  C32: in every interleaving of the two processes, what the master gets is what the child has read, in order, and nothing
  is missing while the child runs; the same for standard output and the parent.  When \<^verbatim>\<open>loop\<close> returns, all that came
  from the terminal is written and the child has ended; with the option \<^verbatim>\<open>-i\<close> an end of file never reaches the parent.
  Without it: an end of file before the signal handler is set kills the parent, and one that comes while the parent writes
  has no effect, because \<^verbatim>\<open>sigcaught\<close> is not tested in the loop and the \<^verbatim>\<open>read\<close> behind it waits for the pseudo terminal only.
\<close>

theorem pty_loop_copies:
  assumes "loop_reach ig s"
  shows "prefix (toslave s) (typed s) \<and> (cpl s \<noteq> CEnd \<longrightarrow> toslave s = typed s) \<and>
    prefix (outp s) (shown s) \<and> (ppl s = PReturned \<longrightarrow> outp s = shown s \<and> cpl s = CEnd) \<and>
    (ig \<longrightarrow> \<not> sigcaught s \<and> ppl s \<noteq> PKilled) \<and>
    (\<not> ig \<and> cpl s = CCopy \<longrightarrow>
       (ppl s = PStart \<longrightarrow> (\<exists>s'. (loop_step ig)\<^sup>*\<^sup>* s s' \<and> ppl s' = PKilled)) \<and>
       (\<forall>x. ppl s = PWrite x \<longrightarrow> (\<exists>s'. (loop_step ig)\<^sup>*\<^sup>* s s' \<and> sigcaught s' \<and> cpl s' = CEnd \<and> ppl s' = PRead \<and>
          (\<forall>s''. loop_step ig s' s'' \<longrightarrow> ppl s'' = PAfter \<or> (\<exists>y. y \<noteq> [] \<and> ppl s'' = PWrite y)))))"
proof -
  have i: "loop_inv ig s" by (rule loop_inv_reach [OF assms])
  have k: "\<exists>s'. (loop_step ig)\<^sup>*\<^sup>* s s' \<and> ppl s' = PKilled" if "\<not> ig" "cpl s = CCopy" "ppl s = PStart"
    using early_eof_kills [OF that(2,3)] that(1) by (intro exI conjI, simp) simp
  have w: "\<exists>s'. (loop_step ig)\<^sup>*\<^sup>* s s' \<and> sigcaught s' \<and> cpl s' = CEnd \<and> ppl s' = PRead \<and>
      (\<forall>s''. loop_step ig s' s'' \<longrightarrow> ppl s'' = PAfter \<or> (\<exists>y. y \<noteq> [] \<and> ppl s'' = PWrite y))"
    if "\<not> ig" "cpl s = CCopy" "ppl s = PWrite x" for x
  proof -
    let ?s = "s\<lparr>outp := outp s @ x, sigcaught := True, cpl := CEnd, ppl := PRead\<rparr>"
    have "(loop_step ig)\<^sup>*\<^sup>* s ?s" using eof_while_writing [OF that(2,3)] that(1) by simp
    moreover have "\<forall>s''. loop_step ig ?s s'' \<longrightarrow> ppl s'' = PAfter \<or> (\<exists>y. y \<noteq> [] \<and> ppl s'' = PWrite y)"
      using only_pty_wakes [of ig ?s] by simp
    ultimately show ?thesis by (intro exI [of _ ?s]) simp
  qed
  show ?thesis using i k w unfolding loop_inv_def by auto
qed

theorem pty_loop_copies_witness:
  "\<exists>s. loop_reach False s \<and> toslave s = ''ls'' \<and> outp s = ''x'' \<and>
     (\<exists>s'. (loop_step False)\<^sup>*\<^sup>* s s' \<and> sigcaught s' \<and> cpl s' = CEnd \<and> ppl s' = PRead)"
proof -
  let ?s0 = "loop_start\<lparr>ppl := PRead\<rparr>"
  let ?s1 = "?s0\<lparr>typed := typed ?s0 @ concat [''ls''], toslave := toslave ?s0 @ concat [''ls'']\<rparr>"
  let ?s2 = "?s1\<lparr>shown := shown ?s1 @ concat [''x''], outp := outp ?s1 @ concat [''x'']\<rparr>"
  let ?s3 = "?s2\<lparr>shown := shown ?s2 @ ''y'', ppl := PWrite ''y''\<rparr>"
  have "loop_step False loop_start ?s0" by (rule p_handler) (simp add: loop_start_def)
  moreover have "(loop_step False)\<^sup>*\<^sup>* ?s0 ?s1" by (rule child_copies) (simp_all add: BUFFSIZE_def loop_start_def)
  moreover have "(loop_step False)\<^sup>*\<^sup>* ?s1 ?s2" by (rule parent_copies) (simp_all add: BUFFSIZE_def)
  moreover have "loop_step False ?s2 ?s3" by (rule p_read) (simp_all add: BUFFSIZE_def)
  ultimately have r: "loop_reach False ?s3"
    by (meson converse_rtranclp_into_rtranclp rtranclp.rtrancl_into_rtrancl rtranclp_trans)
  have "\<exists>s'. (loop_step False)\<^sup>*\<^sup>* ?s3 s' \<and> sigcaught s' \<and> cpl s' = CEnd \<and> ppl s' = PRead"
    using pty_loop_copies [OF r] by (simp add: loop_start_def) blast
  then show ?thesis using r by (intro exI [of _ ?s3]) (simp add: loop_start_def)
qed

end
