(* ===== verification/TtyName.thy ===== *)
theory TtyName
  imports TtyModes
begin

section \<open>Terminal names and passwords: \<^verbatim>\<open>termios/ttyname.c\<close>, \<^verbatim>\<open>isatty.c\<close>, \<^verbatim>\<open>ctermid.c\<close>, \<^verbatim>\<open>getpass.c\<close>\<close>

text \<open>
  \<^verbatim>\<open>ttyname\<close> looks in \<^verbatim>\<open>/dev\<close> and, directory by directory, in what it finds below for the device that a descriptor refers to.
  The list that starts at \<^verbatim>\<open>head\<close> is a queue.  The system is a parameter: what \<^verbatim>\<open>readdir\<close> and \<^verbatim>\<open>stat\<close> say of a
  path, and what a descriptor refers to.  Memory for the list is taken to be there.
\<close>

datatype devkind = IsDir | IsChr | IsOther

record devstat =
  st_kind :: devkind
  st_ino :: nat
  st_dev :: nat

record devsys =
  readdir :: "string \<Rightarrow> string list option"
  devstat :: "string \<Rightarrow> devstat option"
  tcget_ok :: "nat \<Rightarrow> bool"
  fstat :: "nat \<Rightarrow> devstat option"

definition POSIX_PATH_MAX :: nat where
  "POSIX_PATH_MAX = 256"

definition isatty :: "devsys \<Rightarrow> nat \<Rightarrow> bool" where
  "isatty k fd = tcget_ok k fd"

text \<open>\<^verbatim>\<open>add\<close>: the queue of directories; \<^verbatim>\<open>.\<close>, \<^verbatim>\<open>..\<close> and \<^verbatim>\<open>/dev/fd\<close> are left out.\<close>

definition ends_with :: "string \<Rightarrow> string \<Rightarrow> bool" where
  "ends_with s e = (length e \<le> length s \<and> drop (length s - length e) s = e)"

definition add :: "string \<Rightarrow> string list \<Rightarrow> string list" where
  "add dirname q =
     (if ends_with dirname ''/.'' \<or> ends_with dirname ''/..'' then q
      else if dirname = ''/dev/fd'' then q
      else q @ [dirname])"

definition aliases :: "string list" where
  "aliases = [''/dev/stdin'', ''/dev/stdout'', ''/dev/stderr'']"

text \<open>The path that \<^verbatim>\<open>strncpy\<close> makes behind \<open>pre\<close> in \<^verbatim>\<open>pathname\<close>.\<close>

definition devpath :: "string \<Rightarrow> string \<Rightarrow> string" where
  "devpath pre name = pre @ take (POSIX_PATH_MAX - length pre) name"

fun searchdir_loop :: "devsys \<Rightarrow> devstat \<Rightarrow> string \<Rightarrow> string list \<Rightarrow> string list \<Rightarrow> string option \<times> string list" where
  "searchdir_loop k fdstat pre [] q = (None, q)"
| "searchdir_loop k fdstat pre (name # names) q =
     (let p = devpath pre name in
      if p \<in> set aliases then searchdir_loop k fdstat pre names q
      else case devstat k p of
        None \<Rightarrow> searchdir_loop k fdstat pre names q
      | Some s \<Rightarrow>
        if st_kind s = IsDir then searchdir_loop k fdstat pre names (add p q)
        else if st_ino s = st_ino fdstat \<and> st_dev s = st_dev fdstat then (Some p, q)
        else searchdir_loop k fdstat pre names q)"

definition searchdir :: "devsys \<Rightarrow> devstat \<Rightarrow> string \<Rightarrow> string list \<Rightarrow> (string option \<times> string list) run" where
  "searchdir k fdstat dirname q =
     (if POSIX_PATH_MAX < length dirname then die (Undef ''strcpy(pathname, dirname)'')
      else case readdir k dirname of
        None \<Rightarrow> ret (None, q)
      | Some names \<Rightarrow>
        if POSIX_PATH_MAX < length dirname + 1 then die (Undef ''strcat(pathname, slash)'')
        else ret (searchdir_loop k fdstat (dirname @ ''/'') names q))"

text \<open>The loop over the list, which grows at its end meanwhile.\<close>

partial_function (option) ttyname_loop :: "devsys \<Rightarrow> devstat \<Rightarrow> string list \<Rightarrow> string option run" where
  "ttyname_loop k fdstat q = (case q of
     [] \<Rightarrow> ret None
   | d # ds \<Rightarrow> rbind (searchdir k fdstat d ds) (\<lambda>(rval, q). case rval of
       Some p \<Rightarrow> ret (Some p)
     | None \<Rightarrow> ttyname_loop k fdstat q))"

definition ttyname :: "devsys \<Rightarrow> nat \<Rightarrow> string option run" where
  "ttyname k fd =
     (if \<not> isatty k fd then ret None
      else case fstat k fd of
        None \<Rightarrow> ret None
      | Some fdstat \<Rightarrow>
        if st_kind fdstat \<noteq> IsChr then ret None
        else rbind (searchdir k fdstat ''/dev'' []) (\<lambda>(rval, q). case rval of
          Some p \<Rightarrow> ret (Some p)
        | None \<Rightarrow> ttyname_loop k fdstat q))"

text \<open>\<^verbatim>\<open>t_ttyname.c\<close>: the names of the three standard descriptors.\<close>

definition name_of :: "devsys \<Rightarrow> nat \<Rightarrow> string run" where
  "name_of k fd =
     (if isatty k fd then rbind (ttyname k fd) (\<lambda>n. ret (case n of Some p \<Rightarrow> p | None \<Rightarrow> ''undefined'')) else ret ''not a tty'')"

definition t_ttyname :: "devsys \<Rightarrow> string run" where
  "t_ttyname k = rbind (name_of k 0) (\<lambda>a. rbind (name_of k 1) (\<lambda>b. rbind (name_of k 2) (\<lambda>c.
     ret (''fd 0: '' @ a @ [newline] @ ''fd 1: '' @ b @ [newline] @ ''fd 2: '' @ c @ [newline]))))"

subsection \<open>The order of the search\<close>

text \<open>
  What \<^verbatim>\<open>readdir\<close> gives for a directory: the paths that are looked at, of these the directories that are put into the
  queue, and the other files.
\<close>

definition paths :: "devsys \<Rightarrow> string \<Rightarrow> string list" where
  "paths k d = (case readdir k d of None \<Rightarrow> []
     | Some names \<Rightarrow> filter (\<lambda>p. p \<notin> set aliases) (map (devpath (d @ ''/'')) names))"

definition is_dir :: "devsys \<Rightarrow> string \<Rightarrow> bool" where
  "is_dir k p = (case devstat k p of None \<Rightarrow> False | Some s \<Rightarrow> st_kind s = IsDir)"

definition subdirs :: "devsys \<Rightarrow> string \<Rightarrow> string list" where
  "subdirs k d = filter (\<lambda>p. is_dir k p \<and> add p [] \<noteq> []) (paths k d)"

definition is_dev :: "devsys \<Rightarrow> devstat \<Rightarrow> string \<Rightarrow> bool" where
  "is_dev k f p = (case devstat k p of None \<Rightarrow> False
     | Some s \<Rightarrow> st_kind s \<noteq> IsDir \<and> st_ino s = st_ino f \<and> st_dev s = st_dev f)"

fun level :: "devsys \<Rightarrow> nat \<Rightarrow> string list" where
  "level k 0 = [''/dev'']"
| "level k (Suc n) = concat (map (subdirs k) (level k n))"

definition short :: "string \<Rightarrow> bool" where
  "short d \<longleftrightarrow> length d < POSIX_PATH_MAX"

lemma add_eq: "add p q = q @ add p []"
  by (simp add: add_def)

lemma add_cases: "add p [] = [] \<or> add p [] = [p]"
  by (simp add: add_def)

lemma kind_simps:
  "devstat k p = None \<Longrightarrow> \<not> is_dev k f p \<and> \<not> is_dir k p"
  "devstat k p = Some s \<Longrightarrow> is_dir k p \<longleftrightarrow> st_kind s = IsDir"
  "devstat k p = Some s \<Longrightarrow> is_dev k f p \<longleftrightarrow> st_kind s \<noteq> IsDir \<and> st_ino s = st_ino f \<and> st_dev s = st_dev f"
  by (simp_all add: is_dev_def is_dir_def)

abbreviation seen :: "string \<Rightarrow> string list \<Rightarrow> string list" where
  "seen pre ns \<equiv> filter (\<lambda>p. p \<notin> set aliases) (map (devpath pre) ns)"

lemma searchdir_loop_found: "fst (searchdir_loop k f pre ns q) = find (is_dev k f) (seen pre ns)"
proof (induction ns arbitrary: q)
  case (Cons n ns)
  then show ?case
    by (cases "devstat k (devpath pre n)")
      (auto simp: Let_def kind_simps)
qed simp

lemma searchdir_loop_queue:
  "find (is_dev k f) (seen pre ns) = None \<Longrightarrow>
    snd (searchdir_loop k f pre ns q) = q @ filter (\<lambda>p. is_dir k p \<and> add p [] \<noteq> []) (seen pre ns)"
proof (induction ns arbitrary: q)
  case (Cons n ns)
  let ?p = "devpath pre n"
  have a: "add ?p q = q @ (if add ?p [] \<noteq> [] then [?p] else [])" using add_eq [of ?p q] add_cases [of ?p] by auto
  show ?case
    using Cons.prems Cons.IH [of q] Cons.IH [of "add ?p q"] a
    by (cases "devstat k ?p") (auto simp: Let_def kind_simps split: if_splits)
qed simp

lemma searchdir_eq:
  assumes "short d"
  shows "\<exists>q'. searchdir k f d q = ret (find (is_dev k f) (paths k d), q') \<and>
    (find (is_dev k f) (paths k d) = None \<longrightarrow> q' = q @ subdirs k d)"
proof (cases "readdir k d")
  case None
  then show ?thesis using assms by (simp add: searchdir_def short_def paths_def subdirs_def)
next
  case (Some ns)
  have "searchdir k f d q = ret (searchdir_loop k f (d @ ''/'') ns q)"
    using assms Some by (simp add: searchdir_def short_def)
  moreover have "paths k d = seen (d @ ''/'') ns" using Some by (simp add: paths_def)
  ultimately show ?thesis
    using searchdir_loop_found [of k f "d @ ''/''" ns q] searchdir_loop_queue [of k f "d @ ''/''" ns q]
    by (intro exI [of _ "snd (searchdir_loop k f (d @ ''/'') ns q)"]) (simp add: subdirs_def prod_eq_iff)
qed

text \<open>A part of the queue: it has the device, or its subdirectories end up behind the rest.\<close>

lemma ttyname_loop_part:
  assumes "\<forall>d \<in> set ds. short d"
  shows "ttyname_loop k f (ds @ r) = (case find (is_dev k f) (concat (map (paths k) ds)) of
    Some p \<Rightarrow> ret (Some p) | None \<Rightarrow> ttyname_loop k f (r @ concat (map (subdirs k) ds)))"
  using assms
proof (induction ds arbitrary: r)
  case (Cons d ds)
  obtain q' where q: "searchdir k f d (ds @ r) = ret (find (is_dev k f) (paths k d), q')"
      "find (is_dev k f) (paths k d) = None \<longrightarrow> q' = (ds @ r) @ subdirs k d"
    using searchdir_eq [of d k f "ds @ r"] Cons.prems by auto
  have l: "ttyname_loop k f (d # ds @ r) = (case find (is_dev k f) (paths k d) of Some p \<Rightarrow> ret (Some p) | None \<Rightarrow> ttyname_loop k f q')"
    by (subst ttyname_loop.simps) (simp add: q(1))
  show ?case
  proof (cases "find (is_dev k f) (paths k d)")
    case None
    then have "ttyname_loop k f (d # ds @ r) = ttyname_loop k f (ds @ (r @ subdirs k d))" using l q(2) by simp
    then show ?thesis using Cons.IH [of "r @ subdirs k d"] Cons.prems None by (simp add: find_append split: option.split)
  next
    case (Some p)
    then show ?thesis using l by (simp add: find_append)
  qed
qed simp

lemma ttyname_loop_levels:
  assumes "level k (i + n) = []" and "\<forall>j < n. \<forall>d \<in> set (level k (i + j)). short d"
  shows "ttyname_loop k f (level k i) =
    ret (find (is_dev k f) (concat (map (paths k) (concat (map (\<lambda>j. level k (i + j)) [0..<n])))))"
  using assms
proof (induction n arbitrary: i)
  case 0
  then show ?case by (simp add: ttyname_loop.simps)
next
  case (Suc n)
  have s: "[0..<Suc n] = 0 # map Suc [0..<n]" by (simp add: upt_conv_Cons map_Suc_upt)
  have "\<forall>d \<in> set (level k i). short d" using Suc.prems(2) by (metis add_0_right zero_less_Suc)
  then have p: "ttyname_loop k f (level k i) = (case find (is_dev k f) (concat (map (paths k) (level k i))) of
      Some p \<Rightarrow> ret (Some p) | None \<Rightarrow> ttyname_loop k f (level k (Suc i)))"
    using ttyname_loop_part [of "level k i" k f "[]"] by (simp split: option.split)
  have "ttyname_loop k f (level k (Suc i)) =
      ret (find (is_dev k f) (concat (map (paths k) (concat (map (\<lambda>j. level k (Suc i + j)) [0..<n])))))"
    using Suc.prems by (intro Suc.IH) (auto simp del: level.simps)
  moreover have "concat (map (\<lambda>j. level k (i + j)) [0..<Suc n]) = level k i @ concat (map (\<lambda>j. level k (Suc i + j)) [0..<n])"
    by (simp add: s del: level.simps upt_Suc) (simp add: comp_def del: level.simps)
  ultimately show ?case using p by (simp add: find_append del: level.simps split: option.split)
qed

text \<open>
  C33: For a descriptor of a character device that is a terminal, when the directories below \<^verbatim>\<open>/dev\<close> have a finite depth and their
  names fit into the buffer: \<^verbatim>\<open>ttyname\<close> ends, and gives the first path in breadth-first order, and in the order of the
  directory within each, that is no directory, no alias, and has the device and file numbers of the descriptor; when there is
  none it gives NULL.
\<close>

theorem ttyname_breadth_first:
  assumes "isatty k fd" and "fstat k fd = Some f" and "st_kind f = IsChr"
    and "level k n = []" and "\<forall>j < n. \<forall>d \<in> set (level k j). short d"
  shows "ttyname k fd = ret (find (is_dev k f) (concat (map (paths k) (concat (map (level k) [0..<n])))))"
proof -
  have "ttyname k fd = ttyname_loop k f (level k 0)"
    using assms(1-3) by (simp add: ttyname_def) (subst (2) ttyname_loop.simps, simp)
  then show ?thesis using ttyname_loop_levels [of k 0 n f] assms(4,5) by simp
qed

definition demo_dev :: devsys where
  "demo_dev = \<lparr>
     readdir = (\<lambda>d. if d = ''/dev'' then Some [''.'', ''fd'', ''pts'', ''stdin'', ''null'']
                   else if d = ''/dev/pts'' then Some [''0'', ''1''] else None),
     devstat = (\<lambda>p. if p = ''/dev/.'' \<or> p = ''/dev/fd'' \<or> p = ''/dev/pts'' then Some \<lparr>st_kind = IsDir, st_ino = 1, st_dev = 1\<rparr>
                   else if p = ''/dev/pts/1'' \<or> p = ''/dev/stdin'' then Some \<lparr>st_kind = IsChr, st_ino = 4, st_dev = 9\<rparr>
                   else Some \<lparr>st_kind = IsChr, st_ino = 3, st_dev = 9\<rparr>),
     tcget_ok = (\<lambda>fd. fd < 3), fstat = (\<lambda>fd. Some \<lparr>st_kind = IsChr, st_ino = 4, st_dev = 9\<rparr>)\<rparr>"

theorem ttyname_breadth_first_witness: "ttyname demo_dev 0 = ret (Some ''/dev/pts/1'')"
proof -
  have l1: "level demo_dev 1 = [''/dev/pts'']"
    by (simp add: subdirs_def paths_def demo_dev_def devpath_def POSIX_PATH_MAX_def aliases_def is_dir_def add_def ends_with_def)
  have l2: "level demo_dev 2 = []"
    using l1 by (simp add: numeral_2_eq_2)
      (simp add: subdirs_def paths_def demo_dev_def devpath_def POSIX_PATH_MAX_def aliases_def is_dir_def add_def ends_with_def)
  have u: "[0..<2] = [0 :: nat, 1]" by (simp add: upt_rec)
  have "\<forall>j < 2. \<forall>d \<in> set (level demo_dev j). short d"
    using l1 by (auto simp: less_2_cases_iff short_def POSIX_PATH_MAX_def)
  then have "ttyname demo_dev 0 = ret (find (is_dev demo_dev \<lparr>st_kind = IsChr, st_ino = 4, st_dev = 9\<rparr>)
      (concat (map (paths demo_dev) (concat (map (level demo_dev) [0..<2])))))"
    using l2 by (intro ttyname_breadth_first) (simp_all add: isatty_def demo_dev_def)
  also have "\<dots> = ret (Some ''/dev/pts/1'')"
    using l1 by (simp add: u) (simp add: paths_def demo_dev_def devpath_def POSIX_PATH_MAX_def aliases_def is_dev_def)
  finally show ?thesis .
qed

subsection \<open>Reading a password\<close>

text \<open>
  The terminal is descriptor \<open>fd\<close> of \<open>ttys\<close>; \<open>blocked\<close> is the signal mask.  \<open>reading\<close> are the attributes that the terminal has while the
  user types \<open>input\<close>.
\<close>

record passres =
  pw :: string
  reading :: termios
  written :: string
  tty_after :: ttys
  blocked_while :: "nat set"
  blocked_after :: "nat set"

definition MAX_PASS_LEN :: nat where
  "MAX_PASS_LEN = 8"

definition ctermid :: string where
  "ctermid = ''/dev/tty''"

definition SIGINT :: nat where "SIGINT = 2"
definition SIGTSTP :: nat where "SIGTSTP = 20"

fun read_pass :: "string \<Rightarrow> string \<Rightarrow> string" where
  "read_pass buf [] = buf"
| "read_pass buf (c # cs) =
     (if c = newline then buf else read_pass (if length buf < MAX_PASS_LEN then buf @ [c] else buf) cs)"

definition getpass :: "ttysys \<Rightarrow> (string \<Rightarrow> int option) \<Rightarrow> string \<Rightarrow> string \<Rightarrow> nat set \<Rightarrow> ttys \<Rightarrow> passres option run" where
  "getpass k fopen prompt input blocked s = (case fopen ctermid of
       None \<Rightarrow> ret None
     | Some fd \<Rightarrow>
       let mask = blocked \<union> {SIGINT, SIGTSTP} in
       (case tc_get k fd s of
          (None, s) \<Rightarrow> die (Undef ''ts is not initialised'')
        | (Some ts, s) \<Rightarrow>
          let s1 = snd (tc_set k fd (ts\<lparr>c_lflag := c_lflag ts - {ECHO, ECHOE, ECHOK, ECHONL}\<rparr>) s);
              s2 = snd (tc_set k fd ts s1)
          in ret (Some \<lparr>pw = cstr (read_pass [] input), reading = terms s1 fd, written = prompt @ [newline], tty_after = s2,
                blocked_while = mask, blocked_after = blocked\<rparr>)))"

lemma read_pass_eq: "read_pass buf cs = buf @ take (MAX_PASS_LEN - length buf) (takeWhile (\<lambda>c. c \<noteq> newline) cs)"
proof (induction cs arbitrary: buf)
  case (Cons c cs)
  show ?case
  proof (cases "length buf < MAX_PASS_LEN")
    case True
    then obtain n where "MAX_PASS_LEN - length buf = Suc n" by (metis Suc_diff_Suc)
    moreover from this have "MAX_PASS_LEN - length (buf @ [c]) = n" by simp
    ultimately show ?thesis using Cons [of "buf @ [c]"] True by simp
  next
    case False
    then show ?thesis using Cons [of buf] by simp
  qed
qed simp

text \<open>
  The password is the first eight characters of the line (up to a null byte); it is typed without echo where the terminal can
  do that and with the two signals blocked; afterwards the terminal and the signal mask are as before.
\<close>

theorem getpass_restores:
  assumes "getpass k fopen prompt input blocked s = ret (Some r)" and "fopen ctermid = Some fd"
    and "\<forall>x y. tset k x y = Some y"
  shows "pw r = cstr (take 8 (takeWhile (\<lambda>c. c \<noteq> newline) input)) \<and> terms (tty_after r) = terms s \<and>
    ECHO \<notin> c_lflag (reading r) \<and> {SIGINT, SIGTSTP} \<subseteq> blocked_while r \<and> blocked_after r = blocked"
  using assms by (auto simp: getpass_def Let_def tc_get_def tc_set_def read_pass_eq MAX_PASS_LEN_def fun_eq_iff split: if_splits)

end
