(* ===== verification/Daemon.thy ===== *)
theory Daemon
  imports FdTable CText
begin

section \<open>Daemons: \<^verbatim>\<open>lib/daemonize.c\<close> and \<^verbatim>\<open>daemons/\<close>\<close>

subsection \<open>\<^verbatim>\<open>daemonize\<close>\<close>

text \<open>
  The state of the process that goes on: the parents of the two \<^verbatim>\<open>fork\<close>s leave with \<^verbatim>\<open>exit(0)\<close>.  \<open>rlimit\<close> is what \<^verbatim>\<open>getrlimit\<close>
  gives (\<open>None\<close> an error, \<open>Some None\<close> no limit), \<open>fd_lim\<close> the limit that \<^verbatim>\<open>open\<close> and \<^verbatim>\<open>dup\<close> obey.
\<close>

record daemsys =
  rlimit :: "nat option option"
  fd_lim :: nat
  fork1_ok :: bool
  fork2_ok :: bool
  sigaction_ok :: bool
  chdir_ok :: bool
  null_ok :: bool

record daem =
  dfds :: "string fdtab"
  umask :: nat
  leader :: bool
  ctty :: "string option"
  hup_ignored :: bool
  cwd :: string
  logged :: "string list"

definition dev_null :: string where
  "dev_null = ''/dev/null''"

definition close_below :: "nat \<Rightarrow> 'a fdtab \<Rightarrow> 'a fdtab" where
  "close_below n t = (\<lambda>i. if i < n then None else t i)"

definition null_fds :: "daemsys \<Rightarrow> string fdtab \<Rightarrow> nat option \<times> nat option \<times> nat option \<times> string fdtab" where
  "null_fds e t = (case if null_ok e then fd_open (fd_lim e) dev_null t else (None, t) of (fd0, t) \<Rightarrow>
     (case fd_dup (fd_lim e) 0 t of (fd1, t) \<Rightarrow>
     (case fd_dup (fd_lim e) 0 t of (fd2, t) \<Rightarrow> (fd0, fd1, fd2, t))))"

definition daemonize :: "daemsys \<Rightarrow> string \<Rightarrow> daem \<Rightarrow> daem run" where
  "daemonize e cmd d = (let d = d\<lparr>umask := 0\<rparr> in
     case rlimit e of
       None \<Rightarrow> die (ErrQuit (cmd @ '': can't get file limit''))
     | Some rl \<Rightarrow>
       if \<not> fork1_ok e then die (ErrQuit (cmd @ '': can't fork''))
       else
         let d = d\<lparr>leader := True, ctty := None\<rparr> in
         if \<not> sigaction_ok e then die (Undef ''err_quit without an argument for its conversion'')
         else
           let d = d\<lparr>hup_ignored := True\<rparr> in
           if \<not> fork2_ok e then die (ErrQuit (cmd @ '': can't fork''))
           else
             let d = d\<lparr>leader := False\<rparr> in
             if \<not> chdir_ok e then die (Undef ''err_quit without an argument for its conversion'')
             else
               let rlim_max = (case rl of None \<Rightarrow> 1024 | Some n \<Rightarrow> n);
                   d = d\<lparr>cwd := ''/'', dfds := close_below rlim_max (dfds d)\<rparr>
               in (case null_fds e (dfds d) of (fd0, fd1, fd2, t) \<Rightarrow>
                 if fd0 \<noteq> Some 0 \<or> fd1 \<noteq> Some 1 \<or> fd2 \<noteq> Some 2 then die (Exit 1)
                 else ret (d\<lparr>dfds := t\<rparr>)))"

lemma null_fds_eq:
  assumes "null_ok e" and "3 \<le> fd_lim e" and "3 \<le> n"
  shows "null_fds e (close_below n t) =
    (Some 0, Some 1, Some 2, \<lambda>i. if i < 3 then Some dev_null else if i < n then None else t i)"
proof -
  let ?t = "close_below n t"
  let ?t1 = "?t(0 \<mapsto> dev_null)" let ?t2 = "?t1(1 \<mapsto> dev_null)" let ?t3 = "?t2(2 \<mapsto> dev_null)"
  have f: "free_fd (fd_lim e) ?t = Some 0" "free_fd (fd_lim e) ?t1 = Some 1" "free_fd (fd_lim e) ?t2 = Some 2"
    using assms(2,3) by (auto intro!: free_fd_here simp: close_below_def less_2_cases_iff)
  have "?t3 = (\<lambda>i. if i < 3 then Some dev_null else if i < n then None else t i)"
    using assms(3) by (auto simp: close_below_def fun_eq_iff)
  then show ?thesis using assms(1) f by (simp add: null_fds_def fd_open_def fd_dup_def)
qed

text \<open>
  A process that \<^verbatim>\<open>daemonize\<close> returns in: no terminal and no way to get one, the three standard descriptors are
  \<^verbatim>\<open>/dev/null\<close>, all others below the limit are closed; above it they stay as they were, so with no limit those from 1024 on.
\<close>

lemma daemonize_state:
  assumes "daemonize e cmd d = ret d'" and "rlimit e = Some rl" and "n = (case rl of None \<Rightarrow> 1024 | Some n \<Rightarrow> n)"
    and "3 \<le> n" and "3 \<le> fd_lim e"
  shows "\<not> leader d' \<and> ctty d' = None \<and> hup_ignored d' \<and> cwd d' = ''/'' \<and> umask d' = 0 \<and>
    dfds d' = (\<lambda>i. if i < 3 then Some dev_null else if i < n then None else dfds d i)"
proof -
  have ok: "fork1_ok e" "fork2_ok e" "sigaction_ok e" "chdir_ok e"
    using assms(1,2) by (auto simp: daemonize_def Let_def split: if_splits)
  have "null_ok e"
  proof (rule ccontr)
    assume "\<not> null_ok e"
    then have "fst (null_fds e t) = None" for t by (simp add: null_fds_def split: prod.split)
    then show False using assms(1,2) ok by (auto simp: daemonize_def Let_def split: prod.splits if_splits) (metis fst_conv option.distinct(1))
  qed
  then show ?thesis
    using assms(1,2) ok null_fds_eq [of e n "dfds d"] assms(3-5) by (auto simp: daemonize_def Let_def)
qed

subsection \<open>One copy only: \<^verbatim>\<open>daemons/single.c\<close> and \<^verbatim>\<open>lockfile.c\<close>\<close>

text \<open>
  The file \<^verbatim>\<open>/var/run/daemon.pid\<close> and its write lock are shared by all processes.  The places of a process in
  \<^verbatim>\<open>already_running\<close>: before it, holding the lock, after the truncation, returned with 0 (it goes on as the daemon) or with 1, ended.
\<close>

datatype spc = SCall | SLocked | STruncated | SDaemon | SRefused | SEnded

record pidfile =
  pid_text :: string
  lock_of :: "nat option"
  spc :: "nat \<Rightarrow> spc"

text \<open>\<^verbatim>\<open>lockfile\<close>: \<^verbatim>\<open>fcntl(fd, F_SETLK)\<close> of a write lock on the whole file; the lock of a process goes when it ends.\<close>

definition lockfile :: "nat \<Rightarrow> pidfile \<Rightarrow> bool \<times> pidfile" where
  "lockfile p s = (case lock_of s of
     None \<Rightarrow> (True, s\<lparr>lock_of := Some p\<rparr>)
   | Some q \<Rightarrow> (q = p, s))"

inductive single_step :: "pidfile \<Rightarrow> pidfile \<Rightarrow> bool" where
  s_lock: "spc s p = SCall \<Longrightarrow> lockfile p s = (True, s') \<Longrightarrow> single_step s (s'\<lparr>spc := (spc s')(p := SLocked)\<rparr>)"
| s_refused: "spc s p = SCall \<Longrightarrow> lockfile p s = (False, s') \<Longrightarrow> single_step s (s'\<lparr>spc := (spc s')(p := SRefused)\<rparr>)"
| s_fails: "spc s p = SCall \<Longrightarrow> single_step s (s\<lparr>spc := (spc s)(p := SEnded)\<rparr>)"
| s_truncate: "spc s p = SLocked \<Longrightarrow> single_step s (s\<lparr>pid_text := [], spc := (spc s)(p := STruncated)\<rparr>)"
| s_write: "spc s p = STruncated \<Longrightarrow> single_step s (s\<lparr>pid_text := dec p @ [nul], spc := (spc s)(p := SDaemon)\<rparr>)"
| s_end: "single_step s (s\<lparr>lock_of := (if lock_of s = Some p then None else lock_of s), spc := (spc s)(p := SEnded)\<rparr>)"

definition single_start :: "string \<Rightarrow> pidfile" where
  "single_start text = \<lparr>pid_text = text, lock_of = None, spc = \<lambda>_. SCall\<rparr>"

definition holds :: "pidfile \<Rightarrow> nat \<Rightarrow> bool" where
  "holds s p \<longleftrightarrow> spc s p \<in> {SLocked, STruncated, SDaemon}"

definition single_inv :: "pidfile \<Rightarrow> bool" where
  "single_inv s \<longleftrightarrow> (\<forall>p. holds s p \<longleftrightarrow> lock_of s = Some p) \<and> (\<forall>p. spc s p = SDaemon \<longrightarrow> pid_text s = dec p @ [nul]) \<and>
     (\<forall>p. spc s p = STruncated \<longrightarrow> pid_text s = [])"

lemma lockfile_cases:
  "lockfile p s = (True, s') \<longleftrightarrow> (lock_of s = None \<or> lock_of s = Some p) \<and> s' = s\<lparr>lock_of := Some p\<rparr>"
  "lockfile p s = (False, s') \<longleftrightarrow> (\<exists>q. lock_of s = Some q \<and> q \<noteq> p) \<and> s' = s"
  by (cases s; auto simp: lockfile_def split: option.splits)+

lemma single_inv_step: "single_step s s' \<Longrightarrow> single_inv s \<Longrightarrow> single_inv s'"
proof (induction rule: single_step.induct)
  case (s_lock s p s')
  have "\<not> holds s p" using s_lock(1) by (simp add: holds_def)
  then have "lock_of s \<noteq> Some p" using s_lock(3) by (simp add: single_inv_def)
  then have "lock_of s = None" using s_lock(2) by (auto simp: lockfile_cases)
  with s_lock show ?case by (auto simp: lockfile_cases single_inv_def holds_def)
next
  case (s_refused s p s')
  then show ?case by (auto simp: lockfile_cases single_inv_def holds_def)
next
  case (s_fails s p)
  then have "\<not> holds s p" by (simp add: holds_def)
  then have "lock_of s \<noteq> Some p" using s_fails(2) by (simp add: single_inv_def)
  with s_fails show ?case by (auto simp: single_inv_def holds_def)
next
  case (s_truncate s p)
  then have "\<forall>q. holds s q \<longrightarrow> q = p" by (auto simp: single_inv_def holds_def)
  with s_truncate show ?case by (auto simp: single_inv_def holds_def)
next
  case (s_write s p)
  then have "\<forall>q. holds s q \<longrightarrow> q = p" by (auto simp: single_inv_def holds_def)
  with s_write show ?case by (auto simp: single_inv_def holds_def)
next
  case (s_end s p)
  then show ?case by (auto simp: single_inv_def holds_def)
qed

lemma single_inv_reach: "single_step\<^sup>*\<^sup>* (single_start text) s \<Longrightarrow> single_inv s"
proof (induction rule: rtranclp_induct)
  case base
  show ?case by (simp add: single_inv_def holds_def single_start_def)
next
  case (step s s')
  then show ?case by (blast intro: single_inv_step)
qed

subsection \<open>Signals of a daemon: \<^verbatim>\<open>daemons/reread.c\<close> and \<^verbatim>\<open>reread2.c\<close>\<close>

text \<open>
  \<^verbatim>\<open>thr_fn\<close> takes the results of \<^verbatim>\<open>sigwait\<close> one after the other, \<open>None\<close> for an error; \<open>re\<close> counts the calls of
  \<^verbatim>\<open>reread\<close>.  When nothing more comes, it waits for ever.
\<close>

definition SIGHUP :: nat where "SIGHUP = 1"
definition SIGTERM :: nat where "SIGTERM = 15"

record sigthread =
  logs :: "string list"
  re :: nat

datatype thr_end = ThrExit int | ThrWaits

fun thr_fn :: "nat option list \<Rightarrow> sigthread \<Rightarrow> thr_end \<times> sigthread" where
  "thr_fn [] st = (ThrWaits, st)"
| "thr_fn (None # sigs) st = (ThrExit 1, st\<lparr>logs := logs st @ [''sigwait failed'']\<rparr>)"
| "thr_fn (Some signo # sigs) st =
     (if signo = SIGHUP then thr_fn sigs (st\<lparr>logs := logs st @ [''Re-reading configuration file''], re := Suc (re st)\<rparr>)
      else if signo = SIGTERM then (ThrExit 0, st\<lparr>logs := logs st @ [''got SIGTERM; exiting'']\<rparr>)
      else thr_fn sigs (st\<lparr>logs := logs st @ [''unexpected signal '' @ dec signo @ [newline]]\<rparr>))"

text \<open>\<^verbatim>\<open>reread2.c\<close> has handlers instead; other signals have their default action, which is not part of this file.\<close>

fun handlers :: "nat list \<Rightarrow> sigthread \<Rightarrow> thr_end \<times> sigthread" where
  "handlers [] st = (ThrWaits, st)"
| "handlers (signo # sigs) st =
     (if signo = SIGTERM then (ThrExit 0, st\<lparr>logs := logs st @ [''got SIGTERM; exiting'']\<rparr>)
      else if signo = SIGHUP then handlers sigs (st\<lparr>logs := logs st @ [''Re-reading configuration file''], re := Suc (re st)\<rparr>)
      else handlers sigs st)"

text \<open>The name for the log: what is behind the last slash of \<^verbatim>\<open>argv[0]\<close>.\<close>

definition cmd_name :: "string \<Rightarrow> string" where
  "cmd_name argv0 = (if CHR ''/'' \<in> set argv0 then rev (takeWhile (\<lambda>c. c \<noteq> CHR ''/'') (rev argv0)) else argv0)"

text \<open>
  The two programs up to their work, which is left out in the sources: \<open>running\<close> is the result of \<^verbatim>\<open>already_running\<close>; the
  default action of \<^verbatim>\<open>SIGHUP\<close> is restored and all signals are blocked for the thread, or the handlers are set.
\<close>

record sigsys =
  set_hup_ok :: bool
  set_term_ok :: bool
  mask_ok :: bool
  thread_ok :: bool

definition reread_main :: "daemsys \<Rightarrow> sigsys \<Rightarrow> bool \<Rightarrow> string \<Rightarrow> daem \<Rightarrow> daem run" where
  "reread_main e g running argv0 d = rbind (daemonize e (cmd_name argv0) d) (\<lambda>d.
     if running then die (Exit 1)
     else if \<not> set_hup_ok g then die (Undef ''err_quit without an argument for its conversion'')
     else
       let d = d\<lparr>hup_ignored := False\<rparr> in
       if \<not> mask_ok g then die (ErrSys ''SIG_BLOCK error'')
       else if \<not> thread_ok g then die (ErrSys ''can't create thread'')
       else ret d)"

definition reread2_main :: "daemsys \<Rightarrow> sigsys \<Rightarrow> bool \<Rightarrow> string \<Rightarrow> daem \<Rightarrow> daem run" where
  "reread2_main e g running argv0 d = rbind (daemonize e (cmd_name argv0) d) (\<lambda>d.
     if running then die (Exit 1)
     else if \<not> set_term_ok g then die (Exit 1)
     else if \<not> set_hup_ok g then die (Exit 1)
     else ret (d\<lparr>hup_ignored := False\<rparr>))"

lemma mains_agree:
  "reread_main e g running argv0 d = ret d' \<Longrightarrow> set_term_ok g \<Longrightarrow> reread2_main e g running argv0 d = ret d'"
  by (auto simp: reread_main_def reread2_main_def rbind_eq_ret Let_def split: if_splits)

definition count_hup :: "nat list \<Rightarrow> nat" where
  "count_hup sigs = length (filter (\<lambda>s. s = SIGHUP) (takeWhile (\<lambda>s. s \<noteq> SIGTERM) sigs))"

lemma thr_fn_count:
  "re (snd (thr_fn (map Some sigs) st)) = re st + count_hup sigs \<and> (fst (thr_fn (map Some sigs) st) = ThrExit 0 \<longleftrightarrow> SIGTERM \<in> set sigs)"
  by (induction sigs arbitrary: st) (auto simp: count_hup_def SIGHUP_def SIGTERM_def)

lemma handlers_count:
  "re (snd (handlers sigs st)) = re st + count_hup sigs \<and> (fst (handlers sigs st) = ThrExit 0 \<longleftrightarrow> SIGTERM \<in> set sigs)"
  by (induction sigs arbitrary: st) (auto simp: count_hup_def SIGHUP_def SIGTERM_def)

lemma thread_and_handlers:
  "\<forall>s \<in> set sigs. s = SIGHUP \<or> s = SIGTERM \<Longrightarrow> thr_fn (map Some sigs) st = handlers sigs st"
  by (induction sigs arbitrary: st) (auto simp: SIGHUP_def SIGTERM_def)

text \<open>
  C34: Whatever the order in which processes start, fail and end: at most one at a time is past the lock, the file
  has the number of the daemon with a null byte while there is one, and nobody is refused without another being there; after the daemon ends a new process
  can become the daemon.  The two ways to take signals do the same for \<^verbatim>\<open>SIGHUP\<close> and \<^verbatim>\<open>SIGTERM\<close>.
\<close>

theorem daemon_runs_once:
  assumes "single_step\<^sup>*\<^sup>* (single_start text) s"
  shows "(\<forall>p q. holds s p \<and> holds s q \<longrightarrow> p = q) \<and> (\<forall>p. spc s p = SDaemon \<longrightarrow> pid_text s = dec p @ [nul]) \<and>
    (\<forall>p s'. single_step s s' \<and> spc s p = SCall \<and> spc s' p = SRefused \<longrightarrow> (\<exists>q. q \<noteq> p \<and> holds s q)) \<and>
    (\<forall>p. (\<forall>q. \<not> holds s q) \<and> spc s p = SCall \<longrightarrow> (\<exists>s'. single_step\<^sup>*\<^sup>* s s' \<and> spc s' p = SDaemon)) \<and>
    ((\<forall>x \<in> set sigs. x = SIGHUP \<or> x = SIGTERM) \<longrightarrow> thr_fn (map Some sigs) st = handlers sigs st)"
proof -
  have i: "single_inv s" by (rule single_inv_reach [OF assms])
  have refused: "\<exists>q. q \<noteq> p \<and> holds s q" if "single_step s s'" "spc s p = SCall" "spc s' p = SRefused" for p s'
    using that(1)
  proof cases
    case (s_refused r s'')
    then have "r = p" using that(2,3) by (auto simp: lockfile_cases split: if_splits)
    then show ?thesis using s_refused i by (auto simp: lockfile_cases single_inv_def)
  qed (use that(2,3) in \<open>auto simp: lockfile_cases split: if_splits\<close>)
  have starts: "\<exists>s'. single_step\<^sup>*\<^sup>* s s' \<and> spc s' p = SDaemon" if "\<forall>q. \<not> holds s q" "spc s p = SCall" for p
  proof -
    have "lock_of s = None" using i that(1) by (cases "lock_of s") (auto simp: single_inv_def)
    then have "single_step s (s\<lparr>lock_of := Some p, spc := (spc s)(p := SLocked)\<rparr>)" (is "single_step s ?a")
      using s_lock [of s p "s\<lparr>lock_of := Some p\<rparr>"] that(2) by (simp add: lockfile_cases)
    moreover have "single_step ?a (?a\<lparr>pid_text := [], spc := (spc ?a)(p := STruncated)\<rparr>)" (is "single_step ?a ?b")
      by (rule s_truncate) simp
    moreover have "single_step ?b (?b\<lparr>pid_text := dec p @ [nul], spc := (spc ?b)(p := SDaemon)\<rparr>)" (is "single_step ?b ?c")
      by (rule s_write) simp
    ultimately have "single_step\<^sup>*\<^sup>* s ?c" by (meson converse_rtranclp_into_rtranclp r_into_rtranclp)
    then show ?thesis by (intro exI [of _ ?c]) simp
  qed
  have one: "p = q" if "holds s p" "holds s q" for p q
  proof -
    have "lock_of s = Some p" "lock_of s = Some q" using that i by (auto simp: single_inv_def)
    then show ?thesis by simp
  qed
  have pidtext: "\<forall>p. spc s p = SDaemon \<longrightarrow> pid_text s = dec p @ [nul]" using i by (simp add: single_inv_def)
  show ?thesis using one pidtext refused starts thread_and_handlers [of sigs st] by blast
qed

theorem daemon_runs_once_witness:
  "\<exists>s. single_step\<^sup>*\<^sup>* (single_start ''9'') s \<and> spc s 41 = SRefused \<and> pid_text s = ''40'' @ [nul] \<and>
     (\<forall>p. holds s p \<longrightarrow> p = 40)"
proof -
  have d: "dec 40 = ''40''" by code_simp
  let ?s0 = "single_start ''9''"
  obtain s where s: "single_step\<^sup>*\<^sup>* ?s0 s" "spc s 40 = SDaemon" "spc s 41 = SCall" "lock_of s = Some 40"
  proof
    let ?a = "?s0\<lparr>lock_of := Some 40, spc := (spc ?s0)(40 := SLocked)\<rparr>"
    let ?b = "?a\<lparr>pid_text := [], spc := (spc ?a)(40 := STruncated)\<rparr>"
    let ?c = "?b\<lparr>pid_text := dec 40 @ [nul], spc := (spc ?b)(40 := SDaemon)\<rparr>"
    have "single_step ?s0 ?a"
      using s_lock [of ?s0 40 "?s0\<lparr>lock_of := Some 40\<rparr>"] by (simp add: lockfile_cases single_start_def)
    moreover have "single_step ?a ?b" by (rule s_truncate) simp
    moreover have "single_step ?b ?c" by (rule s_write) simp
    ultimately show "single_step\<^sup>*\<^sup>* ?s0 ?c" by (meson converse_rtranclp_into_rtranclp r_into_rtranclp)
    show "spc ?c 40 = SDaemon" "spc ?c 41 = SCall" "lock_of ?c = Some 40" by (simp_all add: single_start_def)
  qed
  let ?s' = "s\<lparr>spc := (spc s)(41 := SRefused)\<rparr>"
  have "single_step s ?s'" using s(3,4) s_refused [of s 41 s] by (simp add: lockfile_cases)
  with s(1) have r: "single_step\<^sup>*\<^sup>* ?s0 ?s'" by (rule rtranclp.rtrancl_into_rtrancl)
  have h: "holds ?s' 40" "spc ?s' 40 = SDaemon" using s(2) by (simp_all add: holds_def)
  note t = daemon_runs_once [OF r, of "[]" undefined]
  have "pid_text ?s' = dec 40 @ [nul]" using t h(2) by blast
  moreover have "\<forall>p. holds ?s' p \<longrightarrow> p = 40" using t h(1) by blast
  ultimately show ?thesis using r d by (intro exI [of _ ?s']) simp
qed

end
