(* ===== verification/Ruptime.thy ===== *)
theory Ruptime
  imports Daemon IoModel
begin

section \<open>The uptime service: \<^verbatim>\<open>sockets/initsrv1.c\<close>, \<^verbatim>\<open>initsrv2.c\<close>, \<^verbatim>\<open>ruptimed*.c\<close>, \<^verbatim>\<open>ruptime*.c\<close>\<close>

subsection \<open>A server's socket\<close>

text \<open>
  What the calls for an address give: \<open>None\<close> or an error number.  The table of descriptors says for a socket whether it is
  bound, listening, and may reuse its address; \<open>clobber\<close> is what \<^verbatim>\<open>close\<close> leaves in \<^verbatim>\<open>errno\<close>.
\<close>

datatype socktype = SOCK_STREAM | SOCK_DGRAM | SOCK_SEQPACKET

record address =
  sock_err :: "nat option"
  opt_err :: "nat option"
  bind_err :: "nat option"
  listen_err :: "nat option"
  clobber :: "nat \<Rightarrow> nat"
  connects :: "nat \<Rightarrow> bool"

record sock =
  s_reuse :: bool
  s_bound :: bool
  s_queue :: "nat option"

record sockst =
  fdt :: "sock fdtab"
  errno :: nat

definition EMFILE :: nat where "EMFILE = 24"

definition sys_socket :: "nat \<Rightarrow> address \<Rightarrow> sockst \<Rightarrow> nat option \<times> sockst" where
  "sys_socket lim a st = (case sock_err a of
       Some e \<Rightarrow> (None, st\<lparr>errno := e\<rparr>)
     | None \<Rightarrow> (case fd_open lim \<lparr>s_reuse = False, s_bound = False, s_queue = None\<rparr> (fdt st) of
         (None, t) \<Rightarrow> (None, st\<lparr>errno := EMFILE\<rparr>)
       | (Some fd, t) \<Rightarrow> (Some fd, st\<lparr>fdt := t\<rparr>)))"

text \<open>A call on the socket: an error number, or a change of the socket.\<close>

definition on_sock :: "nat option \<Rightarrow> (sock \<Rightarrow> sock) \<Rightarrow> nat \<Rightarrow> sockst \<Rightarrow> bool \<times> sockst" where
  "on_sock err f fd st = (case err of
       Some e \<Rightarrow> (False, st\<lparr>errno := e\<rparr>)
     | None \<Rightarrow> (True, st\<lparr>fdt := (fdt st)(fd := map_option f (fdt st fd))\<rparr>))"

text \<open>The label \<^verbatim>\<open>errout\<close>: \<^verbatim>\<open>errno\<close> is kept over \<^verbatim>\<open>close\<close>.\<close>

definition errout :: "address \<Rightarrow> nat \<Rightarrow> sockst \<Rightarrow> nat option \<times> sockst" where
  "errout a fd st = (let err = errno st;
       st = st\<lparr>fdt := fd_close fd (fdt st), errno := clobber a (errno st)\<rparr>
     in (None, st\<lparr>errno := err\<rparr>))"

definition bind_listen :: "socktype \<Rightarrow> address \<Rightarrow> nat \<Rightarrow> nat \<Rightarrow> sockst \<Rightarrow> nat option \<times> sockst" where
  "bind_listen ty a qlen fd st = (case on_sock (bind_err a) (\<lambda>s. s\<lparr>s_bound := True\<rparr>) fd st of
       (False, st) \<Rightarrow> errout a fd st
     | (True, st) \<Rightarrow>
       if ty = SOCK_STREAM \<or> ty = SOCK_SEQPACKET then
         (case on_sock (listen_err a) (\<lambda>s. s\<lparr>s_queue := Some qlen\<rparr>) fd st of
            (False, st) \<Rightarrow> errout a fd st
          | (True, st) \<Rightarrow> (Some fd, st))
       else (Some fd, st))"

definition initserver1 :: "nat \<Rightarrow> socktype \<Rightarrow> address \<Rightarrow> nat \<Rightarrow> sockst \<Rightarrow> nat option \<times> sockst" where
  "initserver1 lim ty a qlen st = (case sys_socket lim a st of
       (None, st) \<Rightarrow> (None, st)
     | (Some fd, st) \<Rightarrow> bind_listen ty a qlen fd st)"

definition initserver2 :: "nat \<Rightarrow> socktype \<Rightarrow> address \<Rightarrow> nat \<Rightarrow> sockst \<Rightarrow> nat option \<times> sockst" where
  "initserver2 lim ty a qlen st = (case sys_socket lim a st of
       (None, st) \<Rightarrow> (None, st)
     | (Some fd, st) \<Rightarrow> (case on_sock (opt_err a) (\<lambda>s. s\<lparr>s_reuse := True\<rparr>) fd st of
         (False, st) \<Rightarrow> errout a fd st
       | (True, st) \<Rightarrow> bind_listen ty a qlen fd st))"

text \<open>The error of the first call that fails, if one does; \<open>opt\<close> is the error of \<^verbatim>\<open>setsockopt\<close> where it is called.\<close>

definition first_err :: "nat option list \<Rightarrow> nat option" where
  "first_err es = (case filter (\<lambda>e. e \<noteq> None) es of [] \<Rightarrow> None | e # _ \<Rightarrow> e)"

definition listens :: "socktype \<Rightarrow> bool" where
  "listens ty \<longleftrightarrow> ty = SOCK_STREAM \<or> ty = SOCK_SEQPACKET"

lemma initserver2_cases:
  assumes "free_fd lim (fdt st) = Some fd"
  shows "initserver2 lim ty a qlen st =
    (case first_err ([sock_err a, opt_err a, bind_err a] @ (if listens ty then [listen_err a] else [])) of
       Some e \<Rightarrow> (None, st\<lparr>errno := e\<rparr>)
     | None \<Rightarrow> (Some fd, st\<lparr>fdt := (fdt st)(fd \<mapsto> \<lparr>s_reuse = True, s_bound = True, s_queue = if listens ty then Some qlen else None\<rparr>)\<rparr>))"
proof -
  have n: "fdt st fd = None" using free_fd_Some [OF assms] by simp
  then have u: "(fdt st)(fd := None) = fdt st" by (auto simp: fun_eq_iff)
  show ?thesis
    using assms
    by (cases "sock_err a"; cases "opt_err a"; cases "bind_err a"; cases "listen_err a")
      (auto simp: initserver2_def sys_socket_def fd_open_def on_sock_def errout_def bind_listen_def first_err_def listens_def fd_close_def u Let_def)
qed

lemma initserver1_cases:
  assumes "free_fd lim (fdt st) = Some fd"
  shows "initserver1 lim ty a qlen st =
    (case first_err ([sock_err a, bind_err a] @ (if listens ty then [listen_err a] else [])) of
       Some e \<Rightarrow> (None, st\<lparr>errno := e\<rparr>)
     | None \<Rightarrow> (Some fd, st\<lparr>fdt := (fdt st)(fd \<mapsto> \<lparr>s_reuse = False, s_bound = True, s_queue = if listens ty then Some qlen else None\<rparr>)\<rparr>))"
proof -
  have n: "fdt st fd = None" using free_fd_Some [OF assms] by simp
  then have u: "(fdt st)(fd := None) = fdt st" by (auto simp: fun_eq_iff)
  show ?thesis
    using assms
    by (cases "sock_err a"; cases "bind_err a"; cases "listen_err a")
      (auto simp: initserver1_def sys_socket_def fd_open_def on_sock_def errout_def bind_listen_def first_err_def listens_def fd_close_def u Let_def)
qed

subsection \<open>The servers\<close>

text \<open>
  A connection: \<^verbatim>\<open>accept\<close> fails (\<open>None\<close>), or it gives a client; then the text of \<^verbatim>\<open>popen\<close>'s error, or what the command writes.
  The result of \<^verbatim>\<open>serve\<close> is what each client is sent; the server leaves with \<^verbatim>\<open>exit(1)\<close> when \<^verbatim>\<open>accept\<close> fails, else it waits for the next client.
\<close>

definition BUFLEN :: nat where
  "BUFLEN = 128"

function send_lines :: "string \<Rightarrow> string list" where
  "send_lines out = (if out = [] then [] else case fgets (BUFLEN - 1) out of (l, r) \<Rightarrow> cstr l # send_lines r)"
  by pat_completeness auto
termination
  by (relation "measure length") (auto simp: BUFLEN_def dest: fgets_shorter)

declare send_lines.simps [simp del]

definition uptime_answer :: "string + string \<Rightarrow> string list run" where
  "uptime_answer r = (case r of
       Inl e \<Rightarrow> if BUFLEN \<le> length (''error: '' @ e @ [newline]) then die (Undef ''sprintf(buf)'')
         else ret [''error: '' @ e @ [newline]]
     | Inr out \<Rightarrow> ret (send_lines out))"

fun serve :: "(string + string) option list \<Rightarrow> string list list \<Rightarrow> (string list list \<times> bool) run" where
  "serve [] acc = ret (acc, True)"
| "serve (None # cs) acc = ret (acc, False)"
| "serve (Some r # cs) acc = rbind (uptime_answer r) (\<lambda>sends. serve cs (acc @ [sends]))"

text \<open>
  With descriptors: a child whose standard output and error are the connection becomes the command.  When \<^verbatim>\<open>execl\<close> fails the child
  logs that and goes on in the same loop as its parent, which waits for it; \<open>waiting\<close> is the number of servers that wait so.
  When the serving one exits, because \<^verbatim>\<open>accept\<close> or \<^verbatim>\<open>fork\<close> fails, the one that waits for it goes on.  The result lists, per
  client, what it is sent.
\<close>

record fdconn =
  fork_ok :: bool
  dup_ok :: bool
  exec_out :: "string option"

fun serve_fd :: "fdconn option list \<Rightarrow> nat \<Rightarrow> string list \<Rightarrow> string list \<times> nat option" where
  "serve_fd [] waiting acc = (acc, Some waiting)"
| "serve_fd (None # cs) waiting acc = (if waiting = 0 then (acc, None) else serve_fd cs (waiting - 1) acc)"
| "serve_fd (Some c # cs) waiting acc =
     (if \<not> fork_ok c then
        if waiting = 0 then (acc @ [[]], None) else serve_fd cs (waiting - 1) (acc @ [[]])
      else if \<not> dup_ok c then serve_fd cs waiting (acc @ [[]])
      else case exec_out c of
        Some out \<Rightarrow> serve_fd cs waiting (acc @ [out])
      | None \<Rightarrow> serve_fd cs (Suc waiting) (acc @ [[]]))"

lemma serve_fd_fresh:
  "\<forall>c \<in> set cs. \<exists>d out. c = Some d \<and> fork_ok d \<and> dup_ok d \<and> exec_out d = Some out \<Longrightarrow>
   serve_fd cs waiting acc = (acc @ map (the \<circ> exec_out \<circ> the) cs, Some waiting)"
  by (induction cs arbitrary: acc) fastforce+

text \<open>By datagrams: only the first piece that \<^verbatim>\<open>fgets\<close> gives is sent.\<close>

definition dg_answer :: "string + string \<Rightarrow> string list run" where
  "dg_answer r = (case r of
       Inl e \<Rightarrow> if BUFLEN \<le> length (''error: '' @ e @ [newline]) then die (Undef ''sprintf(buf)'')
         else ret [''error: '' @ e @ [newline]]
     | Inr out \<Rightarrow> ret (if out = [] then [] else [cstr (fst (fgets (BUFLEN - 1) out))]))"

fun serve_dg :: "(string + string) option list \<Rightarrow> string list list \<Rightarrow> (string list list \<times> bool) run" where
  "serve_dg [] acc = ret (acc, True)"
| "serve_dg (None # cs) acc = ret (acc, False)"
| "serve_dg (Some r # cs) acc = rbind (dg_answer r) (\<lambda>sends. serve_dg cs (acc @ [sends]))"

text \<open>\<^verbatim>\<open>main\<close> of the servers: the first address at which a server's socket can be made.\<close>

fun server_main :: "nat \<Rightarrow> socktype \<Rightarrow> nat \<Rightarrow> address list \<Rightarrow> sockst \<Rightarrow> (nat \<times> sockst) run" where
  "server_main lim ty qlen [] st = die (Exit 1)"
| "server_main lim ty qlen (a # as) st = (case initserver2 lim ty a qlen st of
     (Some fd, st) \<Rightarrow> ret (fd, st)
   | (None, st) \<Rightarrow> server_main lim ty qlen as st)"

subsection \<open>The clients\<close>

function print_uptime :: "chan \<Rightarrow> string \<Rightarrow> string run" where
  "print_uptime c out = (case sys_read BUFLEN c of
       (RErr e, c') \<Rightarrow> die (ErrSys ''recv error'')
     | (Got s, c') \<Rightarrow> if s = [] then ret out else print_uptime c' (out @ s))"
  by pat_completeness auto
termination
proof (relation "measure (\<lambda>(c, out). length (bytes c))", simp)
  fix c out r c' s
  assume "(r, c') = sys_read BUFLEN c" and "r = Got s" and "s \<noteq> []"
  then have "sys_read BUFLEN c = (Got s, c')" by simp
  from sys_read_got [OF this] \<open>s \<noteq> []\<close> have "bytes c = s @ bytes c'" by (simp add: BUFLEN_def)
  then show "((c', out @ s), c, out) \<in> measure (\<lambda>(c, out). length (bytes c))" using \<open>s \<noteq> []\<close> by simp
qed

declare print_uptime.simps [simp del]

text \<open>
  \<^verbatim>\<open>main\<close>: the addresses in order; a failing \<^verbatim>\<open>socket\<close> does not stop the attempts to connect, which then all fail.
  The result is the number of attempts on each address, and what is printed or the message.
\<close>

fun client_main :: "(nat \<Rightarrow> chan) \<Rightarrow> string \<Rightarrow> nat \<Rightarrow> address list \<Rightarrow> nat list \<Rightarrow> (nat list \<times> (string + string)) run" where
  "client_main net host i [] tries = ret (tries, Inl (''can't connect to '' @ host))"
| "client_main net host i (a # as) tries =
     (case connect_retry (if sock_err a = None then connects a else (\<lambda>_. False)) of (r, n, sl) \<Rightarrow>
        if r < 0 then client_main net host (Suc i) as (tries @ [n])
        else rbind (print_uptime (net i) []) (\<lambda>out. ret (tries @ [n], Inr out)))"

definition TIMEOUT :: nat where
  "TIMEOUT = 20"

text \<open>By datagram: the answer and the seconds it takes; the alarm interrupts \<^verbatim>\<open>recvfrom\<close>.\<close>

definition print_uptime_dg :: "bool \<Rightarrow> (string \<times> nat) option \<Rightarrow> string run" where
  "print_uptime_dg sendto_ok answer =
     (if \<not> sendto_ok then die (ErrSys ''sendto error'')
      else case answer of
        None \<Rightarrow> die (ErrSys ''recv error'')
      | Some (s, t) \<Rightarrow> if TIMEOUT \<le> t then die (ErrSys ''recv error'') else ret (take BUFLEN s))"

lemma send_lines_content: "nul \<notin> set out \<Longrightarrow> concat (send_lines out) = out"
proof (induction out rule: send_lines.induct)
  case (1 out)
  obtain l r where f: "fgets (BUFLEN - 1) out = (l, r)" by fastforce
  have s: "l @ r = out" using f by (auto simp: fgets_def Let_def split: if_splits)
  show ?case
  proof (cases "out = []")
    case False
    then have "concat (send_lines r) = r" using 1 f s by auto
    moreover have "cstr l = l" using 1(2) s by (auto intro: cstr_id)
    ultimately show ?thesis using False f s by (subst send_lines.simps) simp
  qed (simp add: send_lines.simps)
qed

lemma print_uptime_bytes: "no_fail c \<Longrightarrow> print_uptime c out = ret (out @ bytes c)"
proof (induction c out rule: print_uptime.induct)
  case (1 c out)
  obtain r c' where q: "sys_read BUFLEN c = (r, c')" by fastforce
  obtain s where s: "r = Got s" "no_fail c'" using sys_read_no_fail [OF q "1.prems"] by auto
  show ?case
  proof (cases "s = []")
    case True
    then have "bytes c = []" using sys_read_eof q s by (simp add: BUFLEN_def)
    then show ?thesis using True q s by (subst print_uptime.simps) simp
  next
    case False
    then have "bytes c = s @ bytes c'" using sys_read_got [of BUFLEN c s c'] q s by (simp add: BUFLEN_def)
    moreover have "print_uptime c' (out @ s) = ret ((out @ s) @ bytes c')" using 1 q s False by metis
    ultimately show ?thesis using False q s by (subst print_uptime.simps) simp
  qed
qed

text \<open>What a client of \<^verbatim>\<open>serve\<close> is sent.\<close>

lemma serve_sends:
  "serve cs acc = ret (ss, up) \<Longrightarrow> take (length acc) ss = acc \<and> length ss \<le> length acc + length cs \<and>
    (\<forall>i. length acc \<le> i \<and> i < length ss \<longrightarrow> (\<exists>r. cs ! (i - length acc) = Some r \<and> uptime_answer r = ret (ss ! i)))"
proof (induction cs arbitrary: acc)
  case (Cons c cs)
  show ?case
  proof (cases c)
    case None
    then show ?thesis using Cons.prems by auto
  next
    case (Some r)
    then obtain sends where a: "uptime_answer r = ret sends" "serve cs (acc @ [sends]) = ret (ss, up)"
      using Cons.prems by (auto simp: rbind_eq_ret)
    note ih = Cons.IH [OF a(2)]
    have t: "take (length acc) ss = acc" using ih by (metis append_eq_conv_conj length_append take_add take_take min.absorb1 le_add1)
    have n: "length acc < length ss" "ss ! length acc = sends"
      using ih by (metis Suc_le_eq length_append_singleton length_take min.bounded_iff order_refl,
        metis length_append_singleton lessI nth_append_length nth_take)
    have "\<exists>r. (c # cs) ! (i - length acc) = Some r \<and> uptime_answer r = ret (ss ! i)" if "length acc \<le> i" "i < length ss" for i
    proof (cases "i = length acc")
      case True
      then show ?thesis using Some a(1) n by simp
    next
      case False
      then have j: "i - length acc = Suc (i - length (acc @ [sends]))" using that(1) by simp
      have "length (acc @ [sends]) \<le> i" using that(1) False by simp
      then have "\<exists>r. cs ! (i - length (acc @ [sends])) = Some r \<and> uptime_answer r = ret (ss ! i)" using ih that(2) by blast
      then show ?thesis unfolding j by simp
    qed
    moreover have "length ss \<le> length acc + length (c # cs)" using ih by simp
    ultimately show ?thesis using t by blast
  qed
qed (simp add: not_less [symmetric])

lemma client_main_first:
  assumes "\<forall>a \<in> set as. sock_err a \<noteq> None \<or> fst (connect_retry (connects a)) < 0"
    and "sock_err b = None" and "0 \<le> fst (connect_retry (connects b))" and "no_fail (net (i + length as))"
  shows "\<exists>ts. client_main net host i (as @ b # bs) tries = ret (ts, Inr (bytes (net (i + length as))))"
  using assms
proof (induction as arbitrary: i tries)
  case Nil
  obtain r n sl where c: "connect_retry (connects b) = (r, n, sl)" using prod_cases3 by blast
  show ?case using Nil c print_uptime_bytes [of "net i" "[]"] by simp
next
  case (Cons a as)
  obtain r n sl where c: "connect_retry (if sock_err a = None then connects a else (\<lambda>_. False)) = (r, n, sl)" using prod_cases3 by blast
  have "r < 0"
  proof (cases "sock_err a = None")
    case True
    then show ?thesis using Cons.prems(1) c by auto
  next
    case False
    then show ?thesis using c connect_loop_spec [of 0 "[]" "\<lambda>_. False" r n sl] by (auto simp: connect_retry_def)
  qed
  then show ?case using Cons.IH [of "Suc i" "tries @ [n]"] Cons.prems c by simp
qed

text \<open>
  C35: \<^verbatim>\<open>ruptime\<close> against \<^verbatim>\<open>ruptimed\<close>.  The server makes its socket at the first of its addresses where that works, with one descriptor, bound and
  listening, and no descriptor is lost at the others.  When the client's connection is one that the server serves, and the network
  delivers what was sent in any pieces: the client prints exactly the output of \<^verbatim>\<open>uptime\<close>, wherever the first address stands that it can reach.
\<close>

theorem ruptime_prints_uptime:
  assumes "server_main lim SOCK_STREAM 10 sas st = ret (fd, st')"
    and "serve conns [] = ret (ss, up)" and "i < length ss" and "conns ! i = Some (Inr out)" and "nul \<notin> set out"
    and "\<forall>a \<in> set as. sock_err a \<noteq> None \<or> fst (connect_retry (connects a)) < 0"
    and "sock_err b = None" and "0 \<le> fst (connect_retry (connects b))"
    and "no_fail (net (length as))" and "bytes (net (length as)) = concat (ss ! i)"
  shows "fdt st' = (fdt st)(fd \<mapsto> \<lparr>s_reuse = True, s_bound = True, s_queue = Some 10\<rparr>) \<and> fdt st fd = None \<and>
    (\<exists>ts. client_main net host 0 (as @ b # bs) [] = ret (ts, Inr out))"
proof -
  have "fdt st' = (fdt st)(fd \<mapsto> \<lparr>s_reuse = True, s_bound = True, s_queue = Some 10\<rparr>) \<and> fdt st fd = None"
    using assms(1)
  proof (induction sas arbitrary: st)
    case (Cons a sas)
    show ?case
    proof (cases "free_fd lim (fdt st)")
      case None
      then have "\<exists>e. initserver2 lim SOCK_STREAM a 10 st = (None, st\<lparr>errno := e\<rparr>)"
        by (cases "sock_err a") (auto simp: initserver2_def sys_socket_def fd_open_def)
      then show ?thesis using Cons.IH Cons.prems by fastforce
    next
      case (Some f)
      show ?thesis
      proof (cases "first_err [sock_err a, opt_err a, bind_err a, listen_err a]")
        case None
        then show ?thesis using Cons.prems initserver2_cases [OF Some, of SOCK_STREAM a 10] free_fd_Some [OF Some]
          by (auto simp: listens_def)
      next
        case (Some e)
        then have "initserver2 lim SOCK_STREAM a 10 st = (None, st\<lparr>errno := e\<rparr>)"
          using initserver2_cases [OF \<open>free_fd lim (fdt st) = Some f\<close>, of SOCK_STREAM a 10] by (simp add: listens_def)
        then show ?thesis using Cons.IH [of "st\<lparr>errno := e\<rparr>"] Cons.prems by simp
      qed
    qed
  qed simp
  moreover have "ss ! i = send_lines out"
    using serve_sends [OF assms(2)] assms(3,4) by (auto simp: uptime_answer_def)
  then have "bytes (net (length as)) = out" using assms(5,10) send_lines_content by simp
  then have "\<exists>ts. client_main net host 0 (as @ b # bs) [] = ret (ts, Inr out)"
    using client_main_first [OF assms(6-8), of net 0 host bs "[]"] assms(9) by simp
  ultimately show ?thesis by blast
qed

theorem ruptime_prints_uptime_witness:
  "let a = \<lparr>sock_err = None, opt_err = None, bind_err = Some 98, listen_err = None, clobber = id, connects = \<lambda>_. False\<rparr>;
     b = \<lparr>sock_err = None, opt_err = None, bind_err = None, listen_err = None, clobber = id, connects = \<lambda>_. True\<rparr>;
     st = \<lparr>fdt = \<lambda>i. None, errno = 0\<rparr>
   in \<exists>st' ts. server_main 8 SOCK_STREAM 10 [a, b] st = ret (0, st') \<and>
     client_main (\<lambda>i. [Piece ''up 3'', Pause, Piece '' days'']) ''box'' 0 [a, b] [] = ret (ts, Inr ''up 3 days'')"
proof -
  let ?a = "\<lparr>sock_err = None, opt_err = None, bind_err = Some 98, listen_err = None, clobber = id, connects = \<lambda>_. False\<rparr>"
  let ?b = "\<lparr>sock_err = None, opt_err = None, bind_err = None, listen_err = None, clobber = id, connects = \<lambda>_. True\<rparr>"
  let ?st = "\<lparr>fdt = \<lambda>i. None, errno = 0\<rparr>"
  let ?net = "\<lambda>i :: nat. [Piece ''up 3'', Pause, Piece '' days'']"
  have f: "free_fd 8 (\<lambda>i. None) = Some 0" by (rule free_fd_here) auto
  have "initserver2 8 SOCK_STREAM ?a 10 ?st = (None, ?st\<lparr>errno := 98\<rparr>)"
    using initserver2_cases [of 8 ?st 0 SOCK_STREAM ?a 10] f by (simp add: first_err_def listens_def)
  moreover have "initserver2 8 SOCK_STREAM ?b 10 (?st\<lparr>errno := 98\<rparr>) =
      (Some 0, \<lparr>fdt = [0 \<mapsto> \<lparr>s_reuse = True, s_bound = True, s_queue = Some 10\<rparr>], errno = 98\<rparr>)"
    using initserver2_cases [of 8 "?st\<lparr>errno := 98\<rparr>" 0 SOCK_STREAM ?b 10] f by (simp add: first_err_def listens_def)
  ultimately obtain st' where s: "server_main 8 SOCK_STREAM 10 [?a, ?b] ?st = ret (0, st')" by simp
  have l: "send_lines ''up 3 days'' = [''up 3 days'']"
    by (simp add: send_lines.simps BUFLEN_def fgets_def newline_def Let_def cstr_def nul_def)
  then have v: "serve [Some (Inr ''up 3 days'')] [] = ret ([[''up 3 days'']], True)" by (simp add: uptime_answer_def)
  have n: "fst (connect_retry (\<lambda>_. False)) < 0"
    using connect_loop_spec [of 0 "[]" "\<lambda>_. False"] by (cases "connect_retry (\<lambda>_. False)") (auto simp: connect_retry_def)
  have y: "0 \<le> fst (connect_retry (\<lambda>_. True))"
    unfolding connect_retry_def by (subst connect_loop.simps) (simp add: MAXSLEEP_def)
  have "\<exists>ts. client_main ?net ''box'' 0 ([?a] @ ?b # []) [] = ret (ts, Inr ''up 3 days'')"
    using ruptime_prints_uptime [OF s v, of 0 "''up 3 days''" "[?a]" ?b ?net "''box''" "[]"] n y by (simp add: nul_def)
  then show ?thesis using s by auto
qed

section \<open>The uptime service from the start: \<^verbatim>\<open>main\<close> of the three servers and the two clients\<close>

text \<open>
  \<open>sc_host\<close> is what \<^verbatim>\<open>sysconf(_SC_HOST_NAME_MAX)\<close> gives where there is such a symbol, \<open>host\<close> what \<^verbatim>\<open>gethostname\<close> gives, \<open>resolve\<close> the answer of
  \<^verbatim>\<open>getaddrinfo\<close> for a name and a type of socket: the text of an error, or addresses.
\<close>

record upenv =
  up_sys :: daemsys
  sc_host :: "int option"
  malloc_ok :: bool
  host :: "string option"
  resolve :: "string \<Rightarrow> socktype \<Rightarrow> string + address list"

definition HOST_NAME_MAX :: int where "HOST_NAME_MAX = 256"

definition host_len :: "upenv \<Rightarrow> int" where
  "host_len e = (case sc_host e of None \<Rightarrow> HOST_NAME_MAX | Some n \<Rightarrow> if n < 0 then HOST_NAME_MAX else n)"

text \<open>The sockets share the descriptors of the process; what they were before does not matter to them.\<close>

definition no_sock :: sock where "no_sock = \<lparr>s_reuse = False, s_bound = False, s_queue = None\<rparr>"

definition socks_of :: "string fdtab \<Rightarrow> sockst" where
  "socks_of t = \<lparr>fdt = map_option (\<lambda>_. no_sock) \<circ> t, errno = 0\<rparr>"

text \<open>
  \<^verbatim>\<open>main\<close> of the servers up to the call of \<^verbatim>\<open>serve\<close>.  A host name that fills the memory is not terminated, and reading it is undefined.
\<close>

definition ruptimed_start :: "upenv \<Rightarrow> socktype \<Rightarrow> nat \<Rightarrow> string list \<Rightarrow> daem \<Rightarrow> (nat \<times> sockst \<times> daem) run" where
  "ruptimed_start e ty qlen argv d =
     rbind (guard (length argv = 1) (ErrQuit ''usage: ruptimed'')) (\<lambda>_.
     rbind (guard (malloc_ok e) (ErrSys ''malloc error'')) (\<lambda>_.
     case host e of
       None \<Rightarrow> die (ErrSys ''gethostname error'')
     | Some h \<Rightarrow>
       rbind (daemonize (up_sys e) ''ruptimed'' d) (\<lambda>d.
       rbind (guard (int (length h) < host_len e) (Undef ''host is not terminated'')) (\<lambda>_.
       case resolve e h ty of
         Inl m \<Rightarrow> die (Exit 1)
       | Inr ailist \<Rightarrow> rbind (server_main (fd_lim (up_sys e)) ty qlen ailist (socks_of (dfds d))) (\<lambda>(sockfd, st). ret (sockfd, st, d))))))"

text \<open>The three servers; the results are the listening socket and those of \<^verbatim>\<open>serve\<close>.\<close>

definition ruptimed_main :: "upenv \<Rightarrow> string list \<Rightarrow> daem \<Rightarrow> (string + string) option list \<Rightarrow> (nat \<times> sockst \<times> string list list \<times> bool) run" where
  "ruptimed_main e argv d conns = rbind (ruptimed_start e SOCK_STREAM 10 argv d) (\<lambda>(fd, st, d).
     rbind (serve conns []) (\<lambda>(ss, up). ret (fd, st, ss, up)))"

definition ruptimed_fd_main :: "upenv \<Rightarrow> string list \<Rightarrow> daem \<Rightarrow> fdconn option list \<Rightarrow> (nat \<times> sockst \<times> string list \<times> nat option) run" where
  "ruptimed_fd_main e argv d conns = rbind (ruptimed_start e SOCK_STREAM 10 argv d) (\<lambda>(fd, st, d).
     case serve_fd conns 0 [] of (ss, up) \<Rightarrow> ret (fd, st, ss, up))"

definition ruptimed_dg_main :: "upenv \<Rightarrow> string list \<Rightarrow> daem \<Rightarrow> (string + string) option list \<Rightarrow> (nat \<times> sockst \<times> string list list \<times> bool) run" where
  "ruptimed_dg_main e argv d conns = rbind (ruptimed_start e SOCK_DGRAM 0 argv d) (\<lambda>(fd, st, d).
     rbind (serve_dg conns []) (\<lambda>(ss, up). ret (fd, st, ss, up)))"

text \<open>The clients; \<open>answer i\<close> is what comes back from the \<open>i\<close>-th address.\<close>

definition ruptime_main :: "(string \<Rightarrow> socktype \<Rightarrow> string + address list) \<Rightarrow> (nat \<Rightarrow> chan) \<Rightarrow> string list \<Rightarrow> string run" where
  "ruptime_main res net argv = rbind (guard (length argv = 2) (ErrQuit ''usage: ruptime hostname'')) (\<lambda>_.
     case res (argv ! 1) SOCK_STREAM of
       Inl m \<Rightarrow> die (ErrQuit (''getaddrinfo error: '' @ m))
     | Inr ailist \<Rightarrow> rbind (client_main net (argv ! 1) 0 ailist []) (\<lambda>(tries, r). case r of
         Inl msg \<Rightarrow> die (ErrQuit msg)
       | Inr out \<Rightarrow> ret out))"

fun dg_addresses :: "(nat \<Rightarrow> bool \<times> (string \<times> nat) option) \<Rightarrow> nat \<Rightarrow> address list \<Rightarrow> string run" where
  "dg_addresses answer i [] = die (ErrQuit ''can't contact'')"
| "dg_addresses answer i (a # as) = (if sock_err a \<noteq> None then dg_addresses answer (Suc i) as
     else print_uptime_dg (fst (answer i)) (snd (answer i)))"

definition ruptime_dg_main :: "bool \<Rightarrow> (string \<Rightarrow> socktype \<Rightarrow> string + address list) \<Rightarrow> (nat \<Rightarrow> bool \<times> (string \<times> nat) option) \<Rightarrow> string list \<Rightarrow> string run" where
  "ruptime_dg_main sa_ok res answer argv = rbind (guard (length argv = 2) (ErrQuit ''usage: ruptime hostname'')) (\<lambda>_.
     rbind (guard sa_ok (ErrSys ''sigaction error'')) (\<lambda>_.
     case res (argv ! 1) SOCK_DGRAM of
       Inl m \<Rightarrow> die (ErrQuit (''getaddrinfo error: '' @ m))
     | Inr ailist \<Rightarrow> dg_addresses answer 0 ailist))"

subsection \<open>A server that is up\<close>

definition can_serve :: "socktype \<Rightarrow> address \<Rightarrow> bool" where
  "can_serve ty a \<longleftrightarrow> first_err ([sock_err a, opt_err a, bind_err a] @ (if listens ty then [listen_err a] else [])) = None"

lemma server_main_first:
  assumes "free_fd lim (fdt st) = Some fd" and "\<forall>a \<in> set as. \<not> can_serve ty a" and "can_serve ty b"
  shows "\<exists>st'. server_main lim ty qlen (as @ b # bs) st = ret (fd, st') \<and>
    fdt st' = (fdt st)(fd \<mapsto> \<lparr>s_reuse = True, s_bound = True, s_queue = if listens ty then Some qlen else None\<rparr>)"
  using assms(1,2)
proof (induction as arbitrary: st)
  case Nil
  then show ?case using initserver2_cases [OF Nil(1), of ty b qlen] assms(3) by (auto simp: can_serve_def)
next
  case (Cons a as)
  then obtain e where "first_err ([sock_err a, opt_err a, bind_err a] @ (if listens ty then [listen_err a] else [])) = Some e"
    by (auto simp: can_serve_def)
  then have "initserver2 lim ty a qlen st = (None, st\<lparr>errno := e\<rparr>)" using initserver2_cases [OF Cons.prems(1), of ty a qlen] by simp
  then show ?case using Cons.IH [of "st\<lparr>errno := e\<rparr>"] Cons.prems by auto
qed

text \<open>
  A server that gets through: it is a daemon, the standard descriptors are \<^verbatim>\<open>/dev/null\<close>, and its one socket, at the first address that
  works, is descriptor 3, when no descriptor above the limit was open.
\<close>

theorem ruptimed_up:
  assumes "ruptimed_start e ty qlen argv d = ret (fd, st, d')" and "rlimit (up_sys e) = Some rl" and "n = (case rl of None \<Rightarrow> 1024 | Some n \<Rightarrow> n)"
    and "3 \<le> n" and "4 \<le> fd_lim (up_sys e)" and "\<forall>i \<ge> n. dfds d i = None"
    and "host e = Some h" and "resolve e h ty = Inr (as @ b # bs)" and "\<forall>a \<in> set as. \<not> can_serve ty a" and "can_serve ty b"
  shows "fd = 3 \<and> \<not> leader d' \<and> ctty d' = None \<and> (\<forall>i. fdt st i =
    (if i < 3 then Some no_sock else if i = 3 then Some \<lparr>s_reuse = True, s_bound = True, s_queue = if listens ty then Some qlen else None\<rparr> else None))"
proof -
  let ?s = "\<lparr>s_reuse = True, s_bound = True, s_queue = if listens ty then Some qlen else None\<rparr>"
  have d: "daemonize (up_sys e) ''ruptimed'' d = ret d'" and m: "server_main (fd_lim (up_sys e)) ty qlen (as @ b # bs) (socks_of (dfds d')) = ret (fd, st)"
    using assms(1,7,8) by (auto simp: ruptimed_start_def rbind_eq_ret split: prod.splits)
  have s: "\<not> leader d'" "ctty d' = None" "dfds d' = (\<lambda>i. if i < 3 then Some dev_null else if i < n then None else dfds d i)"
    using daemonize_state [OF d assms(2-4)] assms(5) by simp_all
  have t: "fdt (socks_of (dfds d')) i = (if i < 3 then Some no_sock else None)" for i using s(3) assms(6) by (simp add: socks_of_def)
  have "free_fd (fd_lim (up_sys e)) (fdt (socks_of (dfds d'))) = Some 3" using t assms(5) by (intro free_fd_here) simp_all
  from server_main_first [OF this assms(9,10), of qlen bs] m
  have "fd = 3" "fdt st = (fdt (socks_of (dfds d')))(3 \<mapsto> ?s)" by auto
  then show ?thesis using s(1,2) t by simp
qed

text \<open>A host name as long as \<^verbatim>\<open>sysconf\<close> allows leaves no place for the null byte.\<close>

lemma longest_host_name:
  assumes "sc_host e = Some (int n)" and "host e = Some h" and "length h = n" and "malloc_ok e" and "daemonize (up_sys e) ''ruptimed'' d = ret d'"
  shows "ruptimed_start e ty qlen [a] d = die (Undef ''host is not terminated'')"
  using assms by (simp add: ruptimed_start_def host_len_def)

end
