(* ===== verification/TimeWrite.thy ===== *)
theory TimeWrite
  imports PosixFile
begin

section \<open>Timing of writes: \<^verbatim>\<open>Exp_1/timewrite.c\<close>\<close>

text \<open>
  The program reads a file into memory and writes it with buffers of 1, 2, 4, ... bytes, from the start of the target each
  time.  \<open>wr n\<close> is how many bytes the \<open>n\<close>-th \<^verbatim>\<open>write\<close> would take (negative: it fails), \<open>clk n\<close> what the \<open>n\<close>-th
  \<^verbatim>\<open>times\<close> says: real, user and system time.
\<close>

record target =
  content :: string
  off :: nat
  nwr :: nat
  nclk :: nat

record wsys =
  wr :: "nat \<Rightarrow> int"
  clk :: "nat \<Rightarrow> (int \<times> int \<times> int) option"
  lseek_ok :: bool
  clktck :: int

record row =
  r_size :: nat
  r_user :: int
  r_sys :: int
  r_real :: int
  r_loops :: nat

definition sys_write :: "wsys \<Rightarrow> string \<Rightarrow> target \<Rightarrow> int \<times> target" where
  "sys_write k s f = (let r = wr k (nwr f); n = min (nat r) (length s) in
     if r < 0 then (- 1, f\<lparr>nwr := Suc (nwr f)\<rparr>)
     else (int n, f\<lparr>content := pwrite (content f) (off f) (take n s), off := off f + n, nwr := Suc (nwr f)\<rparr>))"

definition times :: "wsys \<Rightarrow> target \<Rightarrow> (int \<times> int \<times> int) option \<times> target" where
  "times k f = (clk k (nclk f), f\<lparr>nclk := Suc (nclk f)\<rparr>)"

function write_blocks :: "wsys \<Rightarrow> nat \<Rightarrow> string \<Rightarrow> nat \<Rightarrow> nat \<Rightarrow> target \<Rightarrow> target run" where
  "write_blocks k buffer_size src loop_count loop_time f =
     (if loop_count < loop_time then
        (case sys_write k (take buffer_size (drop (loop_count * buffer_size) src)) f of (r, f) \<Rightarrow>
           if r \<noteq> int buffer_size then die (Exit 1) else write_blocks k buffer_size src (Suc loop_count) loop_time f)
      else ret f)"
  by pat_completeness auto
termination
  by (relation "measure (\<lambda>(k, b, s, c, t, f). t - c)") auto

declare write_blocks.simps [simp del]

definition write_pass :: "wsys \<Rightarrow> nat \<Rightarrow> string \<Rightarrow> target \<Rightarrow> (row \<times> target) run" where
  "write_pass k buffer_size src f = (let loop_time = length src div buffer_size; rest = length src mod buffer_size in
     if \<not> lseek_ok k then die (Exit 1)
     else case times k (f\<lparr>off := 0\<rparr>) of
       (None, f) \<Rightarrow> die (Exit 1)
     | (Some (start, u0, s0), f) \<Rightarrow> rbind (write_blocks k buffer_size src 0 loop_time f) (\<lambda>f.
         case sys_write k (take rest (drop (loop_time * buffer_size) src)) f of (r, f) \<Rightarrow>
         if r \<noteq> int rest then die (Exit 1)
         else case times k f of
           (None, f) \<Rightarrow> die (Exit 1)
         | (Some (end, u1, s1), f) \<Rightarrow>
           if clktck k < 0 then die (Exit 1)
           else ret (\<lparr>r_size = buffer_size, r_user = u1 - u0, r_sys = s1 - s0, r_real = end - start,
                      r_loops = (if rest \<noteq> 0 then loop_time + 1 else loop_time)\<rparr>, f)))"

text \<open>The loop of \<^verbatim>\<open>write_test\<close> with \<open>buffer_size = 2 ^ i\<close>.\<close>

lemma size_le: "(2 :: nat) ^ i \<le> 524288 \<longleftrightarrow> i \<le> 19"
proof -
  have "(2 :: nat) ^ i \<le> 2 ^ 19 \<longleftrightarrow> i \<le> 19" by (rule power_increasing_iff) simp
  then show ?thesis by simp
qed

function write_test :: "wsys \<Rightarrow> nat \<Rightarrow> string \<Rightarrow> target \<Rightarrow> row list \<Rightarrow> (row list \<times> target) run" where
  "write_test k i src f rows =
     (if 2 ^ i \<le> (524288 :: nat) then rbind (write_pass k (2 ^ i) src f) (\<lambda>(r, f). write_test k (Suc i) src f (rows @ [r]))
      else ret (rows, f))"
  by pat_completeness auto
termination
  by (relation "measure (\<lambda>(k, i, src, f, rows). 20 - i)") (simp_all add: size_le)

declare write_test.simps [simp del]

text \<open>
  \<^verbatim>\<open>main\<close>: \<open>args\<close> are the arguments; the rest is what \<^verbatim>\<open>open\<close>, \<^verbatim>\<open>lseek\<close> on standard input, \<^verbatim>\<open>malloc\<close> and \<^verbatim>\<open>read\<close> give:
  the length of the input and the bytes that one \<^verbatim>\<open>read\<close> delivers.  What it does not deliver is never initialised.
\<close>

record insys =
  open_ok :: bool
  in_len :: "nat option"
  malloc_ok :: bool
  in_read :: "string option"

definition timewrite_main :: "wsys \<Rightarrow> insys \<Rightarrow> string list \<Rightarrow> (row list \<times> target) run" where
  "timewrite_main k e args =
     (if length args \<noteq> 1 \<and> length args \<noteq> 2 \<or> length args = 2 \<and> take 4 (args ! 1) \<noteq> ''sync'' then die (Exit 1)
      else if \<not> open_ok e then die (Exit 1)
      else case in_len e of
        None \<Rightarrow> die (Exit 1)
      | Some file_len \<Rightarrow>
        if \<not> malloc_ok e then die (Exit 1)
        else case in_read e of
          None \<Rightarrow> die (Exit 1)
        | Some buf \<Rightarrow>
          if length buf < file_len then die (Undef ''bytes of buf that were not read'')
          else write_test k 0 (take file_len buf) \<lparr>content = [], off = 0, nwr = 0, nclk = 0\<rparr> [])"

subsection \<open>What is written\<close>

definition all_taken :: "wsys \<Rightarrow> string \<Rightarrow> bool" where
  "all_taken k src \<longleftrightarrow> (\<forall>n. int (length src) \<le> wr k n) \<and> (\<forall>n. clk k n \<noteq> None) \<and> lseek_ok k \<and> 0 \<le> clktck k"

text \<open>The target so far: the first \<open>n\<close> bytes are new.\<close>

definition mixed :: "string \<Rightarrow> string \<Rightarrow> nat \<Rightarrow> target \<Rightarrow> bool" where
  "mixed src old n f \<longleftrightarrow> off f = n \<and> content f = take n src @ drop n old"

lemma sys_write_mixed:
  assumes "mixed src old n f" and "n + m \<le> length src" and "all_taken k src"
  shows "\<exists>f'. sys_write k (take m (drop n src)) f = (int m, f') \<and> mixed src old (n + m) f'"
proof -
  have w: "int (length src) \<le> wr k (nwr f)" using assms(3) by (simp add: all_taken_def)
  then have m: "min (nat (wr k (nwr f))) m = m" "0 \<le> wr k (nwr f)" using assms(2) by linarith+
  have l: "length (take m (drop n src)) = m" using assms(2) by simp
  have "take n src @ take m (drop n src) = take (n + m) src" by (simp add: take_add)
  then have "pwrite (content f) n (take m (drop n src)) = take (n + m) src @ drop (n + m) old"
    using assms(1,2) by (simp add: mixed_def pwrite_def add.commute)
  then show ?thesis
    using assms(1) m l by (simp add: sys_write_def mixed_def Let_def)
qed

lemma write_blocks_mixed:
  assumes "mixed src old (c * b) f" and "c \<le> t" and "t * b \<le> length src" and "all_taken k src"
  shows "\<exists>f'. write_blocks k b src c t f = ret f' \<and> mixed src old (t * b) f'"
  using assms
proof (induction k b src c t f rule: write_blocks.induct)
  case (1 k b src c t f)
  show ?case
  proof (cases "c < t")
    case True
    then have "Suc c * b \<le> t * b" by (intro mult_le_mono1) simp
    then have "c * b + b \<le> length src" using 1(4) by (simp add: add.commute)
    then obtain f' where f: "sys_write k (take b (drop (c * b) src)) f = (int b, f')" "mixed src old (c * b + b) f'"
      using sys_write_mixed [OF 1(2) _ 1(5)] by blast
    have "\<exists>f''. write_blocks k b src (Suc c) t f' = ret f'' \<and> mixed src old (t * b) f''"
      using 1(1) [OF True f(1) [symmetric]] f(2) True 1(4,5) by (simp add: add.commute)
    then show ?thesis using True f(1) by (subst write_blocks.simps) simp
  next
    case False
    then show ?thesis using 1(2,3) by (subst write_blocks.simps) simp
  qed
qed

lemma ceil_div:
  assumes "0 < (b :: nat)"
  shows "(if n mod b \<noteq> 0 then n div b + 1 else n div b) = (n + b - 1) div b"
proof -
  obtain q m where q: "n = b * q + m" "n div b = q" "n mod b = m" "m < b"
    using assms by (metis mod_less_divisor mult_div_mod_eq)
  show ?thesis
  proof (cases "m = 0")
    case True
    have "(n + b - 1) div b = q" by (rule div_nat_eqI) (use q(1) True assms in auto)
    then show ?thesis using True q by simp
  next
    case False
    have "(n + b - 1) div b = q + 1" by (rule div_nat_eqI) (use q(1,4) False assms in \<open>auto simp: algebra_simps\<close>)
    then show ?thesis using False q by simp
  qed
qed

lemma write_pass_row:
  assumes "all_taken k src" and "0 < b"
  shows "\<exists>r f'. write_pass k b src f = ret (r, f') \<and> content f' = src @ drop (length src) (content f) \<and>
    r_size r = b \<and> r_loops r = (length src + b - 1) div b"
proof -
  let ?t = "length src div b" let ?m = "length src mod b"
  obtain x0 u0 s0 where c0: "clk k (nclk f) = Some (x0, u0, s0)" using assms(1) by (metis all_taken_def not_Some_eq prod_cases3)
  let ?f = "f\<lparr>off := 0, nclk := Suc (nclk f)\<rparr>"
  have l: "?t * b + ?m = length src" by simp
  have "mixed src (content f) (0 * b) ?f" by (simp add: mixed_def)
  then obtain f1 where f1: "write_blocks k b src 0 ?t ?f = ret f1" "mixed src (content f) (?t * b) f1"
    using write_blocks_mixed [of src "content f" 0 b ?f ?t k] assms(1) by auto
  then obtain f2 where f2: "sys_write k (take ?m (drop (?t * b) src)) f1 = (int ?m, f2)" "mixed src (content f) (length src) f2"
    using sys_write_mixed [OF f1(2), of ?m k] assms(1) l by auto
  obtain x1 u1 s1 where c1: "clk k (nclk f2) = Some (x1, u1, s1)" using assms(1) by (metis all_taken_def not_Some_eq prod_cases3)
  have loops: "(if ?m \<noteq> 0 then ?t + 1 else ?t) = (length src + b - 1) div b" by (rule ceil_div [OF assms(2)])
  have "lseek_ok k" "\<not> clktck k < 0" using assms(1) by (auto simp: all_taken_def)
  then have "write_pass k b src f = ret (\<lparr>r_size = b, r_user = u1 - u0, r_sys = s1 - s0, r_real = x1 - x0,
      r_loops = (if ?m \<noteq> 0 then ?t + 1 else ?t)\<rparr>, f2\<lparr>nclk := Suc (nclk f2)\<rparr>)"
    using c0 c1 f1(1) f2(1) by (simp add: write_pass_def times_def Let_def)
  moreover have "content f2 = src @ drop (length src) (content f)" using f2(2) by (simp add: mixed_def)
  ultimately show ?thesis using loops by simp
qed

lemma write_test_rows:
  assumes "all_taken k src" and "content f = [] \<or> content f = src" and "i \<le> 20" and "20 \<le> i \<longrightarrow> content f = src"
  shows "\<exists>rs f'. write_test k i src f rows = ret (rows @ rs, f') \<and> content f' = src \<and>
    map (\<lambda>r. (r_size r, r_loops r)) rs = map (\<lambda>j. (2 ^ j, (length src + 2 ^ j - 1) div 2 ^ j)) [i..<20]"
  using assms
proof (induction k i src f rows rule: write_test.induct)
  case (1 k i src f rows)
  show ?case
  proof (cases "i \<le> 19")
    case True
    obtain r f' where r: "write_pass k (2 ^ i) src f = ret (r, f')" "content f' = src @ drop (length src) (content f)"
        "r_size r = 2 ^ i" "r_loops r = (length src + 2 ^ i - 1) div 2 ^ i"
      using write_pass_row [OF 1(2), of "2 ^ i" f] by auto
    have c: "content f' = src" using r(2) 1(3) by auto
    obtain rs f'' where i: "write_test k (Suc i) src f' (rows @ [r]) = ret ((rows @ [r]) @ rs, f'')" "content f'' = src"
        "map (\<lambda>r. (r_size r, r_loops r)) rs = map (\<lambda>j. (2 ^ j, (length src + 2 ^ j - 1) div 2 ^ j)) [Suc i..<20]"
      using 1(1) [OF _ r(1), of r f'] c 1(2) True by (auto simp: size_le)
    have "write_test k i src f rows = ret (rows @ r # rs, f'')"
      using True r(1) i(1) by (subst write_test.simps) (simp add: size_le)
    moreover have "[i..<20] = i # [Suc i..<20]" using True by (simp add: upt_conv_Cons)
    ultimately show ?thesis using i(2,3) r(3,4) by auto
  next
    case False
    then show ?thesis using 1 by (subst write_test.simps) (simp add: size_le)
  qed
qed

text \<open>
  When the calls do what they are asked to, the program ends after twenty passes, the target is a copy of the
  input, and the table has one line per buffer size from 1 to 524288 with the number of writes that had something to write,
  the length divided by the size and rounded up.
\<close>

theorem timewrite_copies:
  assumes "length args = 1 \<or> length args = 2 \<and> take 4 (args ! 1) = ''sync''" and "open_ok e" and "malloc_ok e"
    and "in_len e = Some (length src)" and "in_read e = Some src" and "all_taken k src"
  shows "\<exists>rows f. timewrite_main k e args = ret (rows, f) \<and> content f = src \<and>
    map (\<lambda>r. (r_size r, r_loops r)) rows = map (\<lambda>i. (2 ^ i, (length src + 2 ^ i - 1) div 2 ^ i)) [0..<20]"
  using write_test_rows [OF assms(6), of "\<lparr>content = [], off = 0, nwr = 0, nclk = 0\<rparr>" 0 "[]"] assms(1-5)
  by (auto simp: timewrite_main_def)

theorem timewrite_copies_witness:
  "let k = \<lparr>wr = \<lambda>n. 100, clk = \<lambda>n. Some (int n, 0, 0), lseek_ok = True, clktck = 100\<rparr>;
     e = \<lparr>open_ok = True, in_len = Some 5, malloc_ok = True, in_read = Some ''hello''\<rparr>
   in \<exists>rows f. timewrite_main k e [''f1'', ''sync''] = ret (rows, f) \<and> content f = ''hello'' \<and>
        take 4 (map r_loops rows) = [5, 3, 2, 1]"
proof -
  let ?k = "\<lparr>wr = \<lambda>n. 100, clk = \<lambda>n. Some (int n, 0, 0), lseek_ok = True, clktck = 100\<rparr>"
  let ?e = "\<lparr>open_ok = True, in_len = Some 5, malloc_ok = True, in_read = Some ''hello''\<rparr>"
  obtain rows f where r: "timewrite_main ?k ?e [''f1'', ''sync''] = ret (rows, f)" "content f = ''hello''"
      "map (\<lambda>r. (r_size r, r_loops r)) rows = map (\<lambda>i. (2 ^ i, (length ''hello'' + 2 ^ i - 1) div 2 ^ i)) [0..<20]"
  proof -
    have "\<exists>rows f. timewrite_main ?k ?e [''f1'', ''sync''] = ret (rows, f) \<and> content f = ''hello'' \<and>
        map (\<lambda>r. (r_size r, r_loops r)) rows = map (\<lambda>i. (2 ^ i, (length ''hello'' + 2 ^ i - 1) div 2 ^ i)) [0..<20]"
      by (rule timewrite_copies) (simp_all add: all_taken_def)
    then show thesis using that by blast
  qed
  have "map r_loops rows = map (snd \<circ> (\<lambda>r. (r_size r, r_loops r))) rows" by simp
  also have "\<dots> = map snd (map (\<lambda>i. (2 ^ i :: nat, (length ''hello'' + 2 ^ i - 1) div 2 ^ i)) [0..<20])" by (simp only: map_map [symmetric] r(3))
  finally have "take 4 (map r_loops rows) = map (\<lambda>i. (length ''hello'' + 2 ^ i - 1) div 2 ^ i) (take 4 [0..<20])"
    by (simp add: take_map del: list.size)
  also have "\<dots> = [5, 3, 2, 1]" by (simp add: upt_rec)
  finally show ?thesis using r(1,2) by (simp add: Let_def)
qed

end
