(* ===== verification/SigLib.thy ===== *)
theory SigLib
  imports Popen CText
begin

unbundle bit_operations_syntax

section \<open>Signals: \<^verbatim>\<open>signals/setops.c\<close>, \<^verbatim>\<open>signals/system.c\<close>, \<^verbatim>\<open>signals/abort.c\<close>, \<^verbatim>\<open>lib/sleep.c\<close>\<close>

subsection \<open>Signal sets as bits\<close>

text \<open>
  A set is an \<^verbatim>\<open>int\<close> of 32 bits, \<open>nsig\<close> is \<^verbatim>\<open>NSIG\<close>.  Shifting 1 by 31 or more is undefined for an \<^verbatim>\<open>int\<close>.
  The results are those of the code; -1 goes with \<^verbatim>\<open>EINVAL\<close>.
\<close>

type_synonym sigset = "32 word"

definition SIGBAD :: "int \<Rightarrow> int \<Rightarrow> bool" where
  "SIGBAD nsig signo \<longleftrightarrow> signo \<le> 0 \<or> nsig \<le> signo"

definition shift1 :: "int \<Rightarrow> sigset run" where
  "shift1 n = (if n < 31 then ret (push_bit (nat n) 1) else die (Undef ''1 << (signo - 1)''))"

definition sigaddset :: "int \<Rightarrow> int \<Rightarrow> sigset \<Rightarrow> (int \<times> sigset) run" where
  "sigaddset nsig signo s =
     (if SIGBAD nsig signo then ret (- 1, s) else rbind (shift1 (signo - 1)) (\<lambda>b. ret (0, s OR b)))"

definition sigdelset :: "int \<Rightarrow> int \<Rightarrow> sigset \<Rightarrow> (int \<times> sigset) run" where
  "sigdelset nsig signo s =
     (if SIGBAD nsig signo then ret (- 1, s) else rbind (shift1 (signo - 1)) (\<lambda>b. ret (0, s AND NOT b)))"

definition sigismember :: "int \<Rightarrow> int \<Rightarrow> sigset \<Rightarrow> (int \<times> sigset) run" where
  "sigismember nsig signo s =
     (if SIGBAD nsig signo then ret (- 1, s)
      else rbind (shift1 (signo - 1)) (\<lambda>b. ret (if s AND b \<noteq> 0 then 1 else 0, s)))"

datatype setop = Add int | Del int | IsMember int

fun setcall :: "int \<Rightarrow> setop \<Rightarrow> sigset \<Rightarrow> (int \<times> sigset) run" where
  "setcall nsig (Add n) s = sigaddset nsig n s"
| "setcall nsig (Del n) s = sigdelset nsig n s"
| "setcall nsig (IsMember n) s = sigismember nsig n s"

fun setcalls :: "int \<Rightarrow> setop list \<Rightarrow> sigset \<Rightarrow> (int list \<times> sigset) run" where
  "setcalls nsig [] s = ret ([], s)"
| "setcalls nsig (c # cs) s =
     rbind (setcall nsig c s) (\<lambda>(r, s). rbind (setcalls nsig cs s) (\<lambda>(rs, s). ret (r # rs, s)))"

text \<open>The same calls on a set of numbers.\<close>

fun set_spec :: "int \<Rightarrow> setop \<Rightarrow> int set \<Rightarrow> int \<times> int set" where
  "set_spec nsig (Add n) S = (if SIGBAD nsig n then (- 1, S) else (0, insert n S))"
| "set_spec nsig (Del n) S = (if SIGBAD nsig n then (- 1, S) else (0, S - {n}))"
| "set_spec nsig (IsMember n) S = (if SIGBAD nsig n then (- 1, S) else (if n \<in> S then 1 else 0, S))"

fun set_specs :: "int \<Rightarrow> setop list \<Rightarrow> int set \<Rightarrow> int list \<times> int set" where
  "set_specs nsig [] S = ([], S)"
| "set_specs nsig (c # cs) S = (case set_spec nsig c S of (r, S) \<Rightarrow> (case set_specs nsig cs S of (rs, S) \<Rightarrow> (r # rs, S)))"

definition members :: "sigset \<Rightarrow> int set" where
  "members s = {n. 1 \<le> n \<and> n \<le> 31 \<and> bit s (nat (n - 1))}"

lemma bit_shift1:
  assumes "1 \<le> n" "n \<le> 31" "1 \<le> m" "m \<le> 31"
  shows "bit (push_bit (nat (n - 1)) 1 :: sigset) (nat (m - 1)) \<longleftrightarrow> m = n"
  using assms by (auto simp: bit_exp_iff)

lemma and_shift1: "1 \<le> n \<Longrightarrow> n \<le> 31 \<Longrightarrow> s AND push_bit (nat (n - 1)) 1 \<noteq> (0 :: sigset) \<longleftrightarrow> bit s (nat (n - 1))"
  by (simp add: and_exp_eq_0_iff_not_bit push_bit_eq_mult)

lemma setcall_spec:
  assumes "nsig \<le> 32"
  shows "\<exists>r s'. setcall nsig c s = ret (r, s') \<and> set_spec nsig c (members s) = (r, members s')"
proof -
  have ok: "1 \<le> n" "n \<le> 31" "shift1 (n - 1) = ret (push_bit (nat (n - 1)) 1)" if "\<not> SIGBAD nsig n" for n
    using that assms by (auto simp: SIGBAD_def shift1_def)
  show ?thesis
  proof (cases c)
    case (Add n)
    show ?thesis
    proof (cases "SIGBAD nsig n")
      case False
      note o = ok [OF False]
      have "members (s OR push_bit (nat (n - 1)) 1) = insert n (members s)"
        using o(1,2) bit_shift1 [OF o(1,2)] by (auto simp: members_def bit_or_iff)
      then show ?thesis using Add False o(3) by (simp add: sigaddset_def)
    qed (simp add: Add sigaddset_def)
  next
    case (Del n)
    show ?thesis
    proof (cases "SIGBAD nsig n")
      case False
      note o = ok [OF False]
      have "members (s AND NOT (push_bit (nat (n - 1)) 1)) = members s - {n}"
        using o(1,2) bit_shift1 [OF o(1,2)] by (auto simp: members_def bit_and_iff bit_not_iff)
      then show ?thesis using Del False o(3) by (simp add: sigdelset_def)
    qed (simp add: Del sigdelset_def)
  next
    case (IsMember n)
    show ?thesis
    proof (cases "SIGBAD nsig n")
      case False
      note o = ok [OF False]
      have "s AND push_bit (nat (n - 1)) 1 \<noteq> 0 \<longleftrightarrow> n \<in> members s"
        using and_shift1 [OF o(1,2)] o(1,2) by (simp add: members_def)
      then show ?thesis using IsMember False o(3) by (simp add: sigismember_def)
    qed (simp add: IsMember sigismember_def)
  qed
qed

lemma setcalls_spec:
  assumes "nsig \<le> 32"
  shows "\<exists>rs s'. setcalls nsig cs s = ret (rs, s') \<and> set_specs nsig cs (members s) = (rs, members s')"
proof (induction cs arbitrary: s)
  case (Cons c cs)
  obtain r s1 where c: "setcall nsig c s = ret (r, s1)" "set_spec nsig c (members s) = (r, members s1)"
    using setcall_spec [OF assms] by blast
  obtain rs s2 where "setcalls nsig cs s1 = ret (rs, s2)" "set_specs nsig cs (members s1) = (rs, members s2)"
    using Cons by blast
  with c show ?case by simp
qed simp

text \<open>
  As long as the signal numbers fit into the 31 bits that can be shifted to, any sequence of calls answers as on a set
  of numbers, and none is undefined.  With more signals (64 on Linux) adding number 32 shifts too far.
\<close>

theorem signal_sets_refine_sets:
  assumes "nsig \<le> 32" and "setcalls nsig cs 0 = r"
  shows "(\<exists>rs s. r = ret (rs, s) \<and> set_specs nsig cs {} = (rs, members s)) \<and>
    (\<forall>n s. 32 < n \<longrightarrow> sigaddset n 32 s = die (Undef ''1 << (signo - 1)''))"
proof -
  have "members 0 = {}" by (simp add: members_def)
  moreover have "\<forall>n s. 32 < n \<longrightarrow> sigaddset n 32 s = die (Undef ''1 << (signo - 1)'')"
    by (simp add: sigaddset_def SIGBAD_def shift1_def)
  ultimately show ?thesis using setcalls_spec [OF assms(1), of cs 0] assms(2) by auto
qed

theorem signal_sets_refine_sets_witness:
  "\<exists>s. setcalls 32 [Add 2, Add 15, Del 2, IsMember 15, IsMember 2, Add 32] 0 = ret ([0, 0, 0, 1, 0, - 1], s)"
proof -
  obtain rs s where "setcalls 32 [Add 2, Add 15, Del 2, IsMember 15, IsMember 2, Add 32] 0 = ret (rs, s)"
      "set_specs 32 [Add 2, Add 15, Del 2, IsMember 15, IsMember 2, Add 32] {} = (rs, members s)"
    using signal_sets_refine_sets [of 32 "[Add 2, Add 15, Del 2, IsMember 15, IsMember 2, Add 32]"] by auto
  then show ?thesis by (auto simp: SIGBAD_def)
qed

subsection \<open>\<^verbatim>\<open>system\<close>\<close>

text \<open>
  The signal state of a process: what happens on a signal, and which signals are blocked.  \<open>sa_ok n\<close> and \<open>sp_ok n\<close> are the outcomes of the
  calls of \<^verbatim>\<open>sigaction\<close> and \<^verbatim>\<open>sigprocmask\<close> in the parent, in order.  The child is given by its state at \<^verbatim>\<open>execl\<close>.
\<close>

datatype action = SigDfl | SigIgn | Handler nat

record sigst =
  acts :: "nat \<Rightarrow> action"
  blocked :: "nat set"

definition SIGINT :: nat where "SIGINT = 2"
definition SIGQUIT :: nat where "SIGQUIT = 3"
definition SIGCHLD :: nat where "SIGCHLD = 17"

record shsys =
  sa_ok :: "nat \<Rightarrow> bool"
  sp_ok :: "nat \<Rightarrow> bool"
  sh_fork :: "int option"
  sh_waits :: "waitres list"

definition sys_sigaction :: "bool \<Rightarrow> nat \<Rightarrow> action \<Rightarrow> sigst \<Rightarrow> bool \<times> sigst" where
  "sys_sigaction ok sig a st = (if ok then (True, st\<lparr>acts := (acts st)(sig := a)\<rparr>) else (False, st))"

text \<open>The last part of the parent: restore, and give the status.\<close>

definition system_restore :: "shsys \<Rightarrow> action \<Rightarrow> action \<Rightarrow> nat set \<Rightarrow> int \<Rightarrow> sigst \<Rightarrow> int \<times> sigst" where
  "system_restore e saveintr savequit savemask status st =
     (case sys_sigaction (sa_ok e 2) SIGINT saveintr st of
        (False, st) \<Rightarrow> (- 1, st)
      | (True, st) \<Rightarrow> (case sys_sigaction (sa_ok e 3) SIGQUIT savequit st of
          (False, st) \<Rightarrow> (- 1, st)
        | (True, st) \<Rightarrow> if \<not> sp_ok e 1 then (- 1, st) else (status, st\<lparr>blocked := savemask\<rparr>)))"

text \<open>The result: the value, the state afterwards, the state while the parent waits, and the child's command and state.\<close>

definition system :: "shsys \<Rightarrow> string option \<Rightarrow> sigst \<Rightarrow> (int \<times> sigst \<times> (sigst \<times> string \<times> sigst) option) run" where
  "system e cmdstring st = (case cmdstring of
       None \<Rightarrow> ret (1, st, None)
     | Some cmd \<Rightarrow>
       let saveintr = acts st SIGINT in
       (case sys_sigaction (sa_ok e 0) SIGINT SigIgn st of
          (False, st) \<Rightarrow> ret (- 1, st, None)
        | (True, st) \<Rightarrow>
          let savequit = acts st SIGQUIT in
          (case sys_sigaction (sa_ok e 1) SIGQUIT SigIgn st of
             (False, st) \<Rightarrow> ret (- 1, st, None)
           | (True, st) \<Rightarrow>
             if \<not> sp_ok e 0 then ret (- 1, st, None)
             else
               let savemask = blocked st; st = st\<lparr>blocked := insert SIGCHLD (blocked st)\<rparr> in
               (case sh_fork e of
                  None \<Rightarrow> (case system_restore e saveintr savequit savemask (- 1) st of (r, st') \<Rightarrow> ret (r, st', None))
                | Some pid \<Rightarrow>
                  let child = \<lparr>acts = (acts st)(SIGINT := saveintr, SIGQUIT := savequit), blocked = savemask\<rparr> in
                  rbind (wait_for (sh_waits e)) (\<lambda>status.
                    case system_restore e saveintr savequit savemask status st of
                      (r, st') \<Rightarrow> ret (r, st', Some (st, cmd, child)))))))"

text \<open>\<^verbatim>\<open>proc/system.c\<close>: the same without the signals.\<close>

definition system_plain :: "shsys \<Rightarrow> string option \<Rightarrow> sigst \<Rightarrow> (int \<times> (string \<times> sigst) option) run" where
  "system_plain e cmdstring st = (case cmdstring of
       None \<Rightarrow> ret (1, None)
     | Some cmd \<Rightarrow> (case sh_fork e of
         None \<Rightarrow> ret (- 1, None)
       | Some pid \<Rightarrow> rbind (wait_for (sh_waits e)) (\<lambda>status. ret (status, Some (cmd, st)))))"

text \<open>
  When the signal calls work: the caller's signal state is the same afterwards, whatever the value; the child has it too; while
  the parent waits it ignores the interrupt and quit signals and \<^verbatim>\<open>SIGCHLD\<close> is blocked; the value is that of the plain version.
\<close>

lemma system_keeps_signals:
  assumes "system e (Some cmd) st = ret (r, st', run)" and "\<forall>n. sa_ok e n" and "\<forall>n. sp_ok e n"
  shows "st' = st \<and> system_plain e (Some cmd) st = ret (r, map_option (\<lambda>(w, c, s). (c, s)) run) \<and>
    (\<forall>w c s. run = Some (w, c, s) \<longrightarrow> c = cmd \<and> s = st \<and> acts w SIGINT = SigIgn \<and> acts w SIGQUIT = SigIgn \<and> SIGCHLD \<in> blocked w)"
proof -
  have q: "SIGINT \<noteq> SIGQUIT" by (simp add: SIGINT_def SIGQUIT_def)
  have a: "(acts st)(SIGINT := x, SIGQUIT := y, SIGINT := acts st SIGINT, SIGQUIT := acts st SIGQUIT) = acts st" for x y
    using q by (auto simp: fun_eq_iff)
  show ?thesis
    using assms q a
    by (cases "sh_fork e")
      (auto simp: system_def system_plain_def system_restore_def sys_sigaction_def Let_def rbind_eq_ret)
qed

text \<open>When the second \<^verbatim>\<open>sigaction\<close> fails, the interrupt signal stays ignored.\<close>

lemma system_leaves_ignored:
  "sa_ok e 0 \<Longrightarrow> \<not> sa_ok e 1 \<Longrightarrow> system e (Some cmd) st = ret (- 1, st\<lparr>acts := (acts st)(SIGINT := SigIgn)\<rparr>, None)"
  by (simp add: system_def sys_sigaction_def Let_def)

subsection \<open>\<^verbatim>\<open>abort\<close>\<close>

text \<open>
  A handler of \<^verbatim>\<open>SIGABRT\<close> returns or it does not (it jumps away or exits).  The result is how the process goes on, how
  often the streams were flushed, and the last signal state.
\<close>

definition SIGABRT :: nat where "SIGABRT = 6"

datatype aborted = KilledByAbort | LeftByHandler nat | Exited

definition all_signals :: "nat set" where
  "all_signals = {1..64}"

text \<open>\<^verbatim>\<open>kill(getpid(), SIGABRT)\<close>: \<open>None\<close> when it comes back.\<close>

definition raise_abort :: "(nat \<Rightarrow> bool) \<Rightarrow> sigst \<Rightarrow> aborted option" where
  "raise_abort returns st =
     (if SIGABRT \<in> blocked st then None
      else case acts st SIGABRT of SigDfl \<Rightarrow> Some KilledByAbort | SigIgn \<Rightarrow> None
        | Handler h \<Rightarrow> if returns h then None else Some (LeftByHandler h))"

definition abort :: "(nat \<Rightarrow> bool) \<Rightarrow> sigst \<Rightarrow> aborted \<times> nat \<times> sigst" where
  "abort returns st =
     (let st = (if acts st SIGABRT = SigIgn then st\<lparr>acts := (acts st)(SIGABRT := SigDfl)\<rparr> else st);
          flushed = (if acts st SIGABRT = SigDfl then 1 else 0);
          st = st\<lparr>blocked := all_signals - {SIGABRT}\<rparr>
      in case raise_abort returns st of
        Some r \<Rightarrow> (r, flushed, st)
      | None \<Rightarrow>
        let st = st\<lparr>acts := (acts st)(SIGABRT := SigDfl), blocked := all_signals - {SIGABRT}\<rparr>
        in (case raise_abort returns st of Some r \<Rightarrow> (r, flushed + 1, st) | None \<Rightarrow> (Exited, flushed + 1, st)))"

text \<open>
  \<^verbatim>\<open>abort\<close> ends the process by the signal, with its streams flushed, whatever the caller has done with the signal, unless a
  handler does not return; the \<^verbatim>\<open>exit\<close> at its end is never reached.
\<close>

lemma abort_kills:
  "fst (abort returns st) = (case acts st SIGABRT of Handler h \<Rightarrow> if returns h then KilledByAbort else LeftByHandler h | _ \<Rightarrow> KilledByAbort) \<and>
   (fst (abort returns st) = KilledByAbort \<longrightarrow> fst (snd (abort returns st)) = 1)"
  by (cases "acts st SIGABRT") (auto simp: abort_def raise_abort_def Let_def all_signals_def)

subsection \<open>\<^verbatim>\<open>sleep\<close>\<close>

text \<open>
  \<open>alarm_left\<close> is the time until the alarm of the process rings, 0 when none is set; \<open>caught\<close> says after how many seconds another signal
  is caught, if one is.  When neither comes, \<^verbatim>\<open>sigsuspend\<close> does not return.
\<close>

definition SIGALRM :: nat where "SIGALRM = 14"

record alarmst =
  sigs :: sigst
  alarm_left :: nat

definition sleep :: "nat option \<Rightarrow> nat \<Rightarrow> alarmst \<Rightarrow> (nat \<times> alarmst) run" where
  "sleep caught nsecs st =
     (let oldact = acts (sigs st) SIGALRM; oldmask = blocked (sigs st);
          st = st\<lparr>sigs := (sigs st)\<lparr>acts := (acts (sigs st))(SIGALRM := Handler 0), blocked := insert SIGALRM oldmask\<rparr>,
                  alarm_left := nsecs\<rparr>;
          wakes = (case caught of
             None \<Rightarrow> if nsecs = 0 then None else Some nsecs
           | Some t \<Rightarrow> if nsecs = 0 \<or> t < nsecs then Some t else Some nsecs)
      in case wakes of
        None \<Rightarrow> None
      | Some t \<Rightarrow>
        let unslept = nsecs - t
        in ret (unslept, st\<lparr>alarm_left := 0, sigs := (sigs st)\<lparr>acts := (acts (sigs st))(SIGALRM := oldact), blocked := oldmask\<rparr>\<rparr>))"

text \<open>
  \<^verbatim>\<open>sleep\<close> gives the seconds that are left and restores action and mask; an alarm that was set before is lost, and
  \<^verbatim>\<open>sleep(0)\<close>, which turns the alarm off, waits for some other signal.
\<close>

lemma sleep_spec:
  assumes "0 < nsecs"
  shows "sleep caught nsecs st = ret (case caught of None \<Rightarrow> 0 | Some t \<Rightarrow> nsecs - t, st\<lparr>alarm_left := 0\<rparr>)"
    and "sleep None 0 st = None"
  using assms by (auto simp: sleep_def Let_def fun_upd_triv split: option.splits)

subsection \<open>Two earlier versions: \<^verbatim>\<open>signals/sleep1.c\<close>, \<^verbatim>\<open>sleep2.c\<close>, and the test \<^verbatim>\<open>tsleep2.c\<close>\<close>

text \<open>
  Times are seconds from the call of \<^verbatim>\<open>alarm\<close>.  \<open>d\<close> is when \<^verbatim>\<open>pause\<close> is reached, late on a busy system; \<open>other = Some (t, h)\<close> is another caught
  signal at \<open>t\<close> whose handler takes \<open>h\<close>.  The results are the value and the time of the return; \<open>None\<close> is a call that never returns.  In \<open>sleep2\<close> the
  handler of the alarm leaves with \<^verbatim>\<open>longjmp\<close>; the third result tells whether it has cut off the other handler.
\<close>

definition sleep1 :: "bool \<Rightarrow> nat \<Rightarrow> nat \<Rightarrow> (nat \<times> nat) option \<Rightarrow> (nat \<times> nat) option" where
  "sleep1 signal_ok nsecs d other =
     (if \<not> signal_ok then Some (nsecs, 0)
      else let alarm_wakes = (if d < nsecs then Some (0, nsecs) else None) in
        case other of
          None \<Rightarrow> alarm_wakes
        | Some (t, h) \<Rightarrow> if d \<le> t \<and> (nsecs \<le> d \<or> t < nsecs) then Some (nsecs - (t + h), t + h) else alarm_wakes)"

definition sleep2 :: "bool \<Rightarrow> nat \<Rightarrow> nat \<Rightarrow> (nat \<times> nat) option \<Rightarrow> (nat \<times> nat \<times> bool) option" where
  "sleep2 signal_ok nsecs d other =
     (if \<not> signal_ok then Some (nsecs, 0, False)
      else let jumps = (\<lambda>off. if 0 < nsecs then Some (0, nsecs, off) else None) in
        case other of
          None \<Rightarrow> jumps False
        | Some (t, h) \<Rightarrow> if d \<le> t \<and> (nsecs = 0 \<or> t + h < nsecs) then Some (nsecs - (t + h), t + h, False)
            else jumps (t < nsecs \<and> nsecs < t + h))"

definition tsleep2_main :: "bool \<Rightarrow> bool \<Rightarrow> nat \<Rightarrow> (nat \<times> nat) option \<Rightarrow> (string list) run" where
  "tsleep2_main signal_ok signal_ok2 d sigint =
     rbind (guard signal_ok (ErrSys ''signal(SIGINT) error'')) (\<lambda>_.
     case sleep2 signal_ok2 5 d sigint of
       None \<Rightarrow> None
     | Some (unslept, t, off) \<Rightarrow> ret
         ((case sigint of None \<Rightarrow> [] | Some (ti, h) \<Rightarrow> if t < ti then [] else if off then [''sig_int starting''] else [''sig_int starting'', ''sig_int finished''])
          @ [''sleep2 returned: '' @ dec unslept]))"

text \<open>
  The first version waits for ever when the alarm comes before \<^verbatim>\<open>pause\<close>.  The second one always returns in time, with the seconds that are left, but
  the handler of another signal that is still running then is cut off.  When the alarm is not lost and no handler is cut off, the two agree.
\<close>

theorem sleep_versions:
  assumes "0 < nsecs"
  shows "sleep1 True nsecs d other = None \<longleftrightarrow> nsecs \<le> d \<and> (\<forall>t h. other = Some (t, h) \<longrightarrow> t < d)"
    and "\<exists>u t off. sleep2 True nsecs d other = Some (u, t, off) \<and> t \<le> nsecs \<and> u = nsecs - t \<and> (off \<longleftrightarrow> (\<exists>ti h. other = Some (ti, h) \<and> ti < nsecs \<and> nsecs < ti + h))"
    and "d < nsecs \<Longrightarrow> \<forall>ti h. other = Some (ti, h) \<longrightarrow> nsecs \<le> ti \<or> ti + h \<le> nsecs \<Longrightarrow>
      sleep1 True nsecs d other = map_option (\<lambda>(u, t, off). (u, t)) (sleep2 True nsecs d other)"
  using assms by (auto simp: sleep1_def sleep2_def Let_def split: option.splits)

end
