(* ===== verification/ThreadCtl.thy ===== *)
theory ThreadCtl
  imports CText
begin

section \<open>Reentrancy and time-outs: \<^verbatim>\<open>threadctl/getenv1.c\<close> to \<^verbatim>\<open>getenv3.c\<close>, \<^verbatim>\<open>detach.c\<close>, \<^verbatim>\<open>timeout.c\<close>, \<^verbatim>\<open>atfork.c\<close>, \<^verbatim>\<open>threads/cleanup.c\<close>, \<^verbatim>\<open>mutex1.c\<close>\<close>

subsection \<open>The environment\<close>

text \<open>The search that the three versions share: the first entry that is the name, a \<^verbatim>\<open>=\<close> and the value.\<close>

fun find_env :: "string \<Rightarrow> string list \<Rightarrow> string option" where
  "find_env name [] = None"
| "find_env name (e # es) =
     (let len = length name in
      if take len e = name \<and> len < length e \<and> e ! len = CHR ''='' then Some (drop (len + 1) e) else find_env name es)"

lemma find_env_Some:
  "find_env name es = Some v \<longleftrightarrow> (\<exists>us ws. es = us @ (name @ CHR ''='' # v) # ws \<and> find_env name us = None)"
proof (induction es)
  case (Cons e es)
  let ?hit = "take (length name) e = name \<and> length name < length e \<and> e ! length name = CHR ''=''"
  have hit: "?hit \<longleftrightarrow> (\<exists>w. e = name @ CHR ''='' # w)"
    by (auto simp: nth_append) (metis append_take_drop_id Cons_nth_drop_Suc)
  show ?case
  proof (cases ?hit)
    case True
    then obtain w where w: "e = name @ CHR ''='' # w" using hit by blast
    have "find_env name (e # es) = Some w" by (simp add: w)
    then show ?thesis using w by (auto simp: Cons_eq_append_conv)
  next
    case False
    then have f: "find_env name (e # us) = find_env name us" for us using False by (auto simp: Let_def)
    show ?thesis
    proof
      assume "find_env name (e # es) = Some v"
      then obtain us ws where "es = us @ (name @ CHR ''='' # v) # ws" "find_env name us = None" using Cons f by auto
      then show "\<exists>us ws. e # es = us @ (name @ CHR ''='' # v) # ws \<and> find_env name us = None"
        using f by (intro exI [of _ "e # us"] exI [of _ ws]) simp
    next
      assume "\<exists>us ws. e # es = us @ (name @ CHR ''='' # v) # ws \<and> find_env name us = None"
      then obtain us ws where u: "e # es = us @ (name @ CHR ''='' # v) # ws" "find_env name us = None" by blast
      then have "us \<noteq> []" using False hit by auto
      then obtain us' where "us = e # us'" using u(1) by (cases us) auto
      then show "find_env name (e # es) = Some v" using u Cons f by auto
    qed
  qed
qed simp

text \<open>
  \<^verbatim>\<open>getenv1.c\<close> copies the value into one buffer of the process and gives its address; \<^verbatim>\<open>getenv3.c\<close> has a buffer per
  thread, which it allocates at the first call; \<^verbatim>\<open>getenv2.c\<close> copies into the caller's buffer of \<open>buflen\<close> bytes.  Threads
  call and look at what they were given; a result is the address of a buffer or NULL.
\<close>

datatype envev = Call nat string | Look nat

record getenv1st =
  envbuf :: string
  got1 :: "nat \<Rightarrow> bool"

definition getenv1 :: "string list \<Rightarrow> nat \<Rightarrow> string \<Rightarrow> getenv1st \<Rightarrow> getenv1st" where
  "getenv1 environ t name st = (case find_env name environ of
       Some v \<Rightarrow> st\<lparr>envbuf := v, got1 := (got1 st)(t := True)\<rparr>
     | None \<Rightarrow> st\<lparr>got1 := (got1 st)(t := False)\<rparr>)"

record getenv3st =
  key :: "nat \<Rightarrow> string option"
  got3 :: "nat \<Rightarrow> bool"

definition getenv3 :: "(nat \<Rightarrow> bool) \<Rightarrow> string list \<Rightarrow> nat \<Rightarrow> string \<Rightarrow> getenv3st \<Rightarrow> getenv3st" where
  "getenv3 malloc_ok environ t name st =
     (let st = (if key st t = None \<and> malloc_ok t then st\<lparr>key := (key st)(t \<mapsto> [])\<rparr> else st) in
      if key st t = None then st\<lparr>got3 := (got3 st)(t := False)\<rparr>
      else case find_env name environ of
        Some v \<Rightarrow> st\<lparr>key := (key st)(t \<mapsto> v), got3 := (got3 st)(t := True)\<rparr>
      | None \<Rightarrow> st\<lparr>got3 := (got3 st)(t := False)\<rparr>)"

definition ENOSPC :: int where "ENOSPC = 28"
definition ENOENT :: int where "ENOENT = 2"

text \<open>The result and the caller's buffer.\<close>

definition getenv_r :: "string list \<Rightarrow> string \<Rightarrow> int \<Rightarrow> string \<Rightarrow> int \<times> string" where
  "getenv_r environ name buflen buf = (case find_env name environ of
       Some v \<Rightarrow> if buflen \<le> int (length v) then (ENOSPC, buf) else (0, v)
     | None \<Rightarrow> (ENOENT, buf))"

text \<open>What the threads see, event by event: for a look, NULL or the text there.\<close>

fun run1 :: "string list \<Rightarrow> envev list \<Rightarrow> getenv1st \<Rightarrow> string option list" where
  "run1 environ [] st = []"
| "run1 environ (Call t name # evs) st = run1 environ evs (getenv1 environ t name st)"
| "run1 environ (Look t # evs) st = (if got1 st t then Some (envbuf st) else None) # run1 environ evs st"

fun run3 :: "(nat \<Rightarrow> bool) \<Rightarrow> string list \<Rightarrow> envev list \<Rightarrow> getenv3st \<Rightarrow> string option list" where
  "run3 m environ [] st = []"
| "run3 m environ (Call t name # evs) st = run3 m environ evs (getenv3 m environ t name st)"
| "run3 m environ (Look t # evs) st = (if got3 st t then key st t else None) # run3 m environ evs st"

text \<open>What they should see: each thread the value of its own last call.\<close>

fun run_spec :: "string list \<Rightarrow> envev list \<Rightarrow> (nat \<Rightarrow> string option) \<Rightarrow> string option list" where
  "run_spec environ [] m = []"
| "run_spec environ (Call t name # evs) m = run_spec environ evs (m(t := find_env name environ))"
| "run_spec environ (Look t # evs) m = m t # run_spec environ evs m"

lemma run3_spec:
  assumes "\<forall>t. mal t" and "\<forall>t. m t = (if got3 st t then key st t else None)" and "\<forall>t. got3 st t \<longrightarrow> key st t \<noteq> None"
  shows "run3 mal environ evs st = run_spec environ evs m"
  using assms(2,3)
proof (induction evs arbitrary: st m)
  case (Cons ev evs)
  show ?case
  proof (cases ev)
    case (Call t name)
    let ?st = "getenv3 mal environ t name st"
    have st: "\<forall>u. (m(t := find_env name environ)) u = (if got3 ?st u then key ?st u else None)" "\<forall>u. got3 ?st u \<longrightarrow> key ?st u \<noteq> None"
      using Cons.prems assms(1) by (auto simp: getenv3_def Let_def split: option.splits)
    have "run3 mal environ evs ?st = run_spec environ evs (m(t := find_env name environ))" by (rule Cons.IH [OF st])
    then show ?thesis by (simp add: Call)
  next
    case (Look t)
    then show ?thesis using Cons.IH [OF Cons.prems] Cons.prems(1) by simp
  qed
qed simp

definition one_thread :: "nat \<Rightarrow> envev list \<Rightarrow> bool" where
  "one_thread t evs \<longleftrightarrow> (\<forall>ev \<in> set evs. case ev of Call u n \<Rightarrow> u = t | Look u \<Rightarrow> u = t)"

lemma run1_spec:
  assumes "one_thread t evs" and "m t = (if got1 st t then Some (envbuf st) else None)"
  shows "run1 environ evs st = run_spec environ evs m"
  using assms
proof (induction evs arbitrary: st m)
  case (Cons ev evs)
  show ?case
  proof (cases ev)
    case (Call u name)
    then have "u = t" "one_thread t evs" using Cons.prems(1) by (auto simp: one_thread_def)
    moreover have "(m(t := find_env name environ)) t =
        (if got1 (getenv1 environ t name st) t then Some (envbuf (getenv1 environ t name st)) else None)"
      by (simp add: getenv1_def split: option.split)
    ultimately have "run1 environ evs (getenv1 environ t name st) = run_spec environ evs (m(t := find_env name environ))"
      by (intro Cons.IH)
    then show ?thesis using Call \<open>u = t\<close> by simp
  next
    case (Look u)
    then have "u = t" "one_thread t evs" using Cons.prems(1) by (auto simp: one_thread_def)
    then show ?thesis using Cons.IH [of m st] Cons.prems(2) Look by simp
  qed
qed simp



subsection \<open>A function at a later time\<close>

text \<open>\<^verbatim>\<open>makethread\<close>: the error numbers of the calls, 0 for success.\<close>

definition makethread :: "int \<Rightarrow> int \<Rightarrow> int \<Rightarrow> int" where
  "makethread attr_init setdetached create =
     (if attr_init \<noteq> 0 then attr_init else if setdetached = 0 then create else setdetached)"

record timespec =
  tv_sec :: int
  tv_nsec :: int

definition SECTONSEC :: int where "SECTONSEC = 1000000000"
definition USECTONSEC :: int where "USECTONSEC = 1000"

text \<open>The function is called by the caller at once, or by a thread that first sleeps for a time.\<close>

datatype timed = CalledNow | ThreadAfter timespec

definition to_wait :: "timespec \<Rightarrow> timespec \<Rightarrow> timespec" where
  "to_wait when now =
     (if tv_nsec now \<le> tv_nsec when
      then \<lparr>tv_sec = tv_sec when - tv_sec now, tv_nsec = tv_nsec when - tv_nsec now\<rparr>
      else \<lparr>tv_sec = tv_sec when - tv_sec now - 1, tv_nsec = SECTONSEC - tv_nsec now + tv_nsec when\<rparr>)"

definition timeout :: "timespec \<Rightarrow> int \<Rightarrow> int \<Rightarrow> bool \<Rightarrow> int \<Rightarrow> timed" where
  "timeout when tv_sec' tv_usec malloc_ok thread_err =
     (let now = \<lparr>tv_sec = tv_sec', tv_nsec = tv_usec * USECTONSEC\<rparr> in
      if (tv_sec now < tv_sec when \<or> tv_sec when = tv_sec now \<and> tv_nsec now < tv_nsec when) \<and> malloc_ok \<and> thread_err = 0
      then ThreadAfter (to_wait when now) else CalledNow)"

definition nanos :: "timespec \<Rightarrow> int" where
  "nanos t = tv_sec t * SECTONSEC + tv_nsec t"

text \<open>
  With a proper time and clock, the nanoseconds below a second: the thread sleeps exactly from now until the time, which is in the
  future, and what it gives to \<^verbatim>\<open>nanosleep\<close> is proper; the function is called at once only when the time is not in
  the future or something fails.
\<close>

theorem timeout_waits_until:
  assumes "0 \<le> tv_nsec when" and "tv_nsec when < SECTONSEC" and "0 \<le> us" and "us < 1000000"
  shows "case timeout when s us malloc_ok err of
      ThreadAfter w \<Rightarrow> nanos w = nanos when - (s * SECTONSEC + us * USECTONSEC) \<and> 0 < nanos w \<and> 0 \<le> tv_sec w \<and>
        0 \<le> tv_nsec w \<and> tv_nsec w < SECTONSEC
    | CalledNow \<Rightarrow> nanos when \<le> s * SECTONSEC + us * USECTONSEC \<or> \<not> malloc_ok \<or> err \<noteq> 0"
  using assms
  by (auto simp: timeout_def to_wait_def nanos_def Let_def SECTONSEC_def USECTONSEC_def split: timed.splits if_splits)

theorem timeout_waits_until_witness:
  "timeout \<lparr>tv_sec = 10, tv_nsec = 5\<rparr> 8 999999 True 0 = ThreadAfter \<lparr>tv_sec = 1, tv_nsec = 1005\<rparr> \<and>
   nanos \<lparr>tv_sec = 1, tv_nsec = 1005\<rparr> = nanos \<lparr>tv_sec = 10, tv_nsec = 5\<rparr> - (8 * SECTONSEC + 999999 * USECTONSEC)"
proof -
  let ?w = "\<lparr>tv_sec = 10, tv_nsec = 5\<rparr>"
  have t: "timeout ?w 8 999999 True 0 = ThreadAfter \<lparr>tv_sec = 1, tv_nsec = 1005\<rparr>"
    by (simp add: timeout_def to_wait_def Let_def SECTONSEC_def USECTONSEC_def)
  show ?thesis using timeout_waits_until [of ?w 999999 8 True 0] t by (simp add: SECTONSEC_def)
qed

subsection \<open>Fork handlers: \<^verbatim>\<open>threadctl/atfork.c\<close>\<close>

text \<open>The owners of the two locks; \<open>None\<close> as a result is a thread that waits.\<close>

record twolocks =
  lock1 :: "nat option"
  lock2 :: "nat option"

definition prepare :: "nat \<Rightarrow> twolocks \<Rightarrow> (twolocks \<times> string list) option" where
  "prepare t m = (if lock1 m \<noteq> None then None
     else let m = m\<lparr>lock1 := Some t\<rparr> in if lock2 m \<noteq> None then None
     else Some (m\<lparr>lock2 := Some t\<rparr>, [''preparing locks...'']))"

definition parent_handler :: "twolocks \<Rightarrow> twolocks \<times> string list" where
  "parent_handler m = (let m = m\<lparr>lock1 := None\<rparr> in (m\<lparr>lock2 := None\<rparr>, [''parent unlocking locks...'']))"

definition child_handler :: "twolocks \<Rightarrow> twolocks \<times> string list" where
  "child_handler m = (let m = m\<lparr>lock1 := None\<rparr> in (m\<lparr>lock2 := None\<rparr>, [''child unlocking locks...'']))"

text \<open>\<^verbatim>\<open>fork\<close> by thread \<open>t\<close> with the three handlers: the locks and lines of the parent and, copied, of the child.\<close>

definition fork_handled :: "nat \<Rightarrow> twolocks \<Rightarrow> ((twolocks \<times> string list) \<times> (twolocks \<times> string list)) option" where
  "fork_handled t m = (case prepare t m of None \<Rightarrow> None
     | Some (m, out) \<Rightarrow> Some (case parent_handler m of (mp, op) \<Rightarrow> (mp, out @ op), case child_handler m of (mc, oc) \<Rightarrow> (mc, oc)))"

definition atfork_main :: "bool \<Rightarrow> int \<Rightarrow> int \<Rightarrow> bool \<Rightarrow> ((twolocks \<times> string list) \<times> (twolocks \<times> string list) option) run" where
  "atfork_main supported err1 err2 fork_ok =
     (let m = \<lparr>lock1 = None, lock2 = None\<rparr> in
      if \<not> supported then ret ((m, [''pthread_atfork is unsupported'']), None)
      else rbind (guard (err1 = 0) (ErrSys ''can't install fork handlers'')) (\<lambda>_.
      rbind (guard (err2 = 0) (ErrSys ''can't create thread'')) (\<lambda>_.
      if \<not> fork_ok then die (ErrQuit ''fork failed'')
      else case fork_handled 1 m of
        None \<Rightarrow> None
      | Some ((mp, op), (mc, oc)) \<Rightarrow>
          ret ((mp, [''thread started...'', ''parent about to fork...''] @ op @ [''parent returned from fork'']),
            Some (mc, oc @ [''child returned from fork''])))))"

text \<open>
  A lock that is held by another thread delays the fork; afterwards both locks are free on both sides, so the child never has one that belongs to
  a thread that it does not have.
\<close>

lemma atfork_frees_locks:
  "fork_handled t m = None \<longleftrightarrow> lock1 m \<noteq> None \<or> lock2 m \<noteq> None"
  "fork_handled t m = Some ((mp, op), (mc, oc)) \<Longrightarrow> lock1 mp = None \<and> lock2 mp = None \<and> lock1 mc = None \<and> lock2 mc = None"
  by (auto simp: fork_handled_def prepare_def parent_handler_def child_handler_def Let_def split: if_splits)

lemma atfork_output:
  "\<exists>mp mc. atfork_main True 0 0 True = ret ((mp, [''thread started...'', ''parent about to fork...'', ''preparing locks...'',
    ''parent unlocking locks...'', ''parent returned from fork'']), Some (mc, [''child unlocking locks...'', ''child returned from fork'']))"
  by (simp add: atfork_main_def fork_handled_def prepare_def parent_handler_def child_handler_def Let_def)

subsection \<open>Cleanup handlers: \<^verbatim>\<open>threads/cleanup.c\<close>\<close>

text \<open>
  A thread has a stack of handlers, with their arguments.  \<^verbatim>\<open>pthread_exit\<close> runs them from the top; to leave with \<^verbatim>\<open>return\<close> between a push and its
  pop is undefined.
\<close>

definition cleanup :: "string \<Rightarrow> string" where
  "cleanup arg = ''cleanup: '' @ arg"

definition cleanup_pop :: "bool \<Rightarrow> string list \<times> string list \<Rightarrow> string list \<times> string list" where
  "cleanup_pop run_it s = (case s of (h # hs, out) \<Rightarrow> (hs, if run_it then out @ [cleanup h] else out) | ([], out) \<Rightarrow> ([], out))"

definition thread_exit :: "int \<Rightarrow> string list \<times> string list \<Rightarrow> string list \<times> int" where
  "thread_exit code s = (snd s @ map cleanup (fst s), code)"

definition thread_return :: "int \<Rightarrow> string list \<times> string list \<Rightarrow> (string list \<times> int) run" where
  "thread_return code s = (if fst s \<noteq> [] then die (Undef ''return between push and pop'') else ret (snd s, code))"

definition cleanup_fn1 :: "int \<Rightarrow> (string list \<times> int) run" where
  "cleanup_fn1 arg = (let out = [''thread 1 start'']; hs = [''thread 1 first handler'']; hs = ''thread 1 second handler'' # hs;
       s = (hs, out @ [''thread 1 push complete'']) in
     if arg \<noteq> 0 then thread_return 1 s else thread_return 1 (cleanup_pop False (cleanup_pop False s)))"

definition cleanup_fn2 :: "int \<Rightarrow> string list \<times> int" where
  "cleanup_fn2 arg = (let out = [''thread 2 start'']; hs = [''thread 2 first handler'']; hs = ''thread 2 second handler'' # hs;
       s = (hs, out @ [''thread 2 push complete'']) in
     if arg \<noteq> 0 then thread_exit 2 s else thread_exit 2 (cleanup_pop False (cleanup_pop False s)))"

text \<open>\<^verbatim>\<open>main\<close>: what the two threads print, and what it prints itself; the errors are those of the four calls.\<close>

definition cleanup_main :: "int \<Rightarrow> int \<Rightarrow> int \<Rightarrow> int \<Rightarrow> (string list \<times> string list \<times> string list) run" where
  "cleanup_main c1 c2 j1 j2 =
     rbind (guard (c1 = 0) (ErrQuit ''can't create thread 1'')) (\<lambda>_.
     rbind (guard (c2 = 0) (ErrQuit ''can't create thread 2'')) (\<lambda>_.
     rbind (cleanup_fn1 1) (\<lambda>(out1, x1).
     rbind (guard (j1 = 0) (ErrQuit ''can't join with thread 1'')) (\<lambda>_.
     case cleanup_fn2 1 of (out2, x2) \<Rightarrow>
     rbind (guard (j2 = 0) (ErrQuit ''can't join with thread 2'')) (\<lambda>_.
     ret (out1, out2, [''thread 1 exit code '' @ show_int x1, ''thread 2 exit code '' @ show_int x2]))))))"

text \<open>The program, as it calls both with 1, is undefined; the second thread runs its handlers last to first.\<close>

lemma cleanup_runs:
  "cleanup_main 0 0 j1 j2 = die (Undef ''return between push and pop'')"
  "cleanup_fn1 0 = ret ([''thread 1 start'', ''thread 1 push complete''], 1)"
  "cleanup_fn2 1 = ([''thread 2 start'', ''thread 2 push complete'', ''cleanup: thread 2 second handler'', ''cleanup: thread 2 first handler''], 2)"
  "cleanup_fn2 0 = ([''thread 2 start'', ''thread 2 push complete''], 2)"
  by (simp_all add: cleanup_main_def cleanup_fn1_def cleanup_fn2_def thread_return_def thread_exit_def cleanup_pop_def cleanup_def Let_def)

subsection \<open>Counted references: \<^verbatim>\<open>threads/mutex1.c\<close>\<close>

text \<open>The objects of a heap with their counts; a freed one is \<open>None\<close>, and any use of it undefined.  Each function is one step, under its lock.\<close>

definition foo_alloc1 :: "bool \<Rightarrow> bool \<Rightarrow> nat \<Rightarrow> (nat \<Rightarrow> int option) \<Rightarrow> bool \<times> (nat \<Rightarrow> int option)" where
  "foo_alloc1 malloc_ok init_ok a h = (if \<not> malloc_ok then (False, h)
     else let h = h(a \<mapsto> 1) in if \<not> init_ok then (False, h(a := None)) else (True, h))"

definition foo_hold1 :: "nat \<Rightarrow> (nat \<Rightarrow> int option) \<Rightarrow> (nat \<Rightarrow> int option) run" where
  "foo_hold1 a h = (case h a of None \<Rightarrow> die (Undef ''fp->f_lock'') | Some n \<Rightarrow> ret (h(a \<mapsto> n + 1)))"

definition foo_rele1 :: "nat \<Rightarrow> (nat \<Rightarrow> int option) \<Rightarrow> (nat \<Rightarrow> int option) run" where
  "foo_rele1 a h = (case h a of None \<Rightarrow> die (Undef ''fp->f_lock'')
     | Some n \<Rightarrow> let n = n - 1 in if n = 0 then ret (h(a := None)) else ret (h(a \<mapsto> n)))"

text \<open>
  \<open>refs\<close> are the references that the threads have.  A thread makes an object, holds one that some thread has a reference to, or releases
  one of its references, in any order.
\<close>

inductive foo_reach :: "(nat \<Rightarrow> int option) \<Rightarrow> (nat \<times> nat) list \<Rightarrow> bool" where
  foo_empty: "foo_reach (\<lambda>_. None) []"
| foo_made: "foo_reach h refs \<Longrightarrow> h a = None \<Longrightarrow> foo_alloc1 mo io a h = (ok, h') \<Longrightarrow> foo_reach h' (if ok then (t, a) # refs else refs)"
| foo_held: "foo_reach h refs \<Longrightarrow> (u, a) \<in> set refs \<Longrightarrow> foo_hold1 a h = ret h' \<Longrightarrow> foo_reach h' ((t, a) # refs)"
| foo_released: "foo_reach h refs \<Longrightarrow> (t, a) \<in> set refs \<Longrightarrow> foo_rele1 a h = ret h' \<Longrightarrow> foo_reach h' (remove1 (t, a) refs)"

definition refs_to :: "nat \<Rightarrow> (nat \<times> nat) list \<Rightarrow> nat" where
  "refs_to a refs = length (filter (\<lambda>r. snd r = a) refs)"

lemma refs_to_simps [simp]:
  "refs_to a [] = 0" "refs_to a (r # refs) = (if snd r = a then Suc (refs_to a refs) else refs_to a refs)"
  by (simp_all add: refs_to_def)

lemma refs_to_pos: "(t, a) \<in> set refs \<Longrightarrow> 0 < refs_to a refs"
  by (induction refs) auto

lemma refs_to_remove: "(t, a) \<in> set refs \<Longrightarrow> refs_to b (remove1 (t, a) refs) = (if b = a then refs_to b refs - 1 else refs_to b refs)"
proof (induction refs)
  case (Cons r refs)
  then show ?case using refs_to_pos [of t a refs] by auto
qed simp

text \<open>The count is the number of references, and an object is freed just when it has none: no use of a reference is ever undefined.\<close>

theorem references_counted:
  assumes "foo_reach h refs"
  shows "(\<forall>a. h a = (if refs_to a refs = 0 then None else Some (int (refs_to a refs)))) \<and>
    (\<forall>t a. (t, a) \<in> set refs \<longrightarrow> (\<exists>h'. foo_hold1 a h = ret h') \<and> (\<exists>h'. foo_rele1 a h = ret h'))"
proof -
  have c: "\<forall>a. h a = (if refs_to a refs = 0 then None else Some (int (refs_to a refs)))" using assms
  proof (induction rule: foo_reach.induct)
    case (foo_made h refs a mo io ok h' t)
    then have z: "refs_to a refs = 0" by (metis option.distinct(1))
    have ih: "h b = (if refs_to b refs = 0 then None else Some (int (refs_to b refs)))" for b using foo_made.IH by blast
    from foo_made(3) consider "\<not> ok" "h' = h \<or> h' = h(a := None)" | "ok" "h' = h(a \<mapsto> 1)"
      by (auto simp: foo_alloc1_def Let_def split: if_splits)
    then show ?case by cases (use ih z foo_made(2) in \<open>auto simp: fun_upd_idem\<close>)
  next
    case (foo_held h refs u a h' t)
    then show ?case using refs_to_pos [OF foo_held(2)] by (auto simp: foo_hold1_def)
  next
    case (foo_released h refs t a h')
    have ih: "h b = (if refs_to b refs = 0 then None else Some (int (refs_to b refs)))" for b using foo_released.IH by blast
    have p: "0 < refs_to a refs" using refs_to_pos [OF foo_released(2)] .
    then have "h' = (if refs_to a refs = 1 then h(a := None) else h(a \<mapsto> int (refs_to a refs) - 1))"
      using foo_released(3) ih [of a] by (auto simp: foo_rele1_def Let_def split: if_splits)
    then show ?case using ih p by (simp add: refs_to_remove [OF foo_released(2)] of_nat_diff)
  qed simp
  moreover have "(\<exists>h'. foo_hold1 a h = ret h') \<and> (\<exists>h'. foo_rele1 a h = ret h')" if "(t, a) \<in> set refs" for t a
    using c refs_to_pos [OF that] by (simp add: foo_hold1_def foo_rele1_def Let_def)
  ultimately show ?thesis by blast
qed

end
