(* ===== verification/PrintdMain.thy ===== *)
theory PrintdMain
  imports PrintProps PrinterModel Daemon Ruptime
begin

section \<open>The start of the print daemon: \<^verbatim>\<open>main\<close> of \<^verbatim>\<open>ipp/printd.c\<close>\<close>

text \<open>
  \<^verbatim>\<open>main\<close> puts the components together: it becomes a daemon (\<open>Daemon\<close>), locks and reads the job file
  (\<open>PrintModel\<close>), finds the printer (\<open>PrinterModel\<close>), makes a server's socket at each of its addresses (\<open>Ruptime\<close> has
  \<^verbatim>\<open>initserver\<close>), gives up the rights of the superuser, rebuilds the queue, and accepts connections.  The record \<open>pdenv\<close> is what
  the calls of the system give: \<open>addrlist\<close> is the result of \<^verbatim>\<open>getaddrlist\<close> with the error's text or the addresses, \<open>lp\<close> the user number of
  \<^verbatim>\<open>lp\<close>, \<open>spool_names\<close> the entries of the request directory.
\<close>

definition PRINT_QLEN :: nat where
  "PRINT_QLEN = 10"

datatype pthread = PrinterThread | SignalThread | ClientThread int

record pdenv =
  pd_argc :: nat
  pd_sys :: daemsys
  pipe_ok :: bool
  sigmask_ok :: bool
  job_locked :: bool
  job_bad :: bool
  presolve :: "string \<Rightarrow> string option option"
  pconf :: string
  host_ok :: bool
  hostname_ok :: bool
  addrlist :: "string + address list"
  lp :: "nat option"
  setuid_ok :: bool
  spool_names :: "string list"
  spool_allocs :: "alloc list"

record printd =
  proc :: daem
  pipe_ignored :: bool
  sig_blocked :: "nat set"
  socks :: sockst
  rendezvous :: "nat set"
  maxfd :: int
  uid :: nat
  queue :: pd
  threads :: "pthread list"
  plog :: "string list"

text \<open>
  \<^verbatim>\<open>open\<close> of the job file and \<^verbatim>\<open>init_request\<close>: without a descriptor \<^verbatim>\<open>write_lock\<close> fails as well.  The sockets are in the same
  table as the other descriptors, which count there as sockets that nobody has bound.
\<close>

definition open_jobfile :: "pdenv \<Rightarrow> daem \<Rightarrow> pd \<Rightarrow> (daem \<times> pd) run" where
  "open_jobfile e d q = (case fd_open (fd_lim (pd_sys e)) jobfile_path (dfds d) of
       (None, t) \<Rightarrow> die (LogQuit ''daemon already running'')
     | (Some jobfd, t) \<Rightarrow> rbind (init_request q (job_locked e) (job_bad e)) (\<lambda>q. ret (d\<lparr>dfds := t\<rparr>, q)))"

definition plain_sock :: sock where
  "plain_sock = \<lparr>s_reuse = False, s_bound = False, s_queue = None\<rparr>"

definition sock_table :: "string fdtab \<Rightarrow> sock fdtab" where
  "sock_table t = (\<lambda>i. map_option (\<lambda>_. plain_sock) (t i))"

text \<open>The loop over the addresses; those that fail are left out.\<close>

fun listen_loop :: "nat \<Rightarrow> address list \<Rightarrow> nat set \<Rightarrow> int \<Rightarrow> sockst \<Rightarrow> nat set \<times> int \<times> sockst" where
  "listen_loop lim [] rv mx st = (rv, mx, st)"
| "listen_loop lim (a # as) rv mx st = (case initserver2 lim SOCK_STREAM a PRINT_QLEN st of
       (None, st) \<Rightarrow> listen_loop lim as rv mx st
     | (Some fd, st) \<Rightarrow> listen_loop lim as (insert fd rv) (max mx (int fd)) st)"

definition printd_listen :: "pdenv \<Rightarrow> nat \<Rightarrow> daem \<Rightarrow> pd \<Rightarrow> printd run" where
  "printd_listen e errno0 d q =
     rbind (guard (host_ok e) (LogSys ''malloc error'')) (\<lambda>_.
     rbind (guard (hostname_ok e) (LogSys ''gethostname error'')) (\<lambda>_.
     case addrlist e of
       Inl err \<Rightarrow> die (LogQuit (''getaddrinfo error: '' @ err))
     | Inr ailist \<Rightarrow>
       (case listen_loop (fd_lim (pd_sys e)) ailist {} (- 1) \<lparr>fdt = sock_table (dfds d), errno = errno0\<rparr> of (rv, mx, st) \<Rightarrow>
          rbind (guard (mx \<noteq> - 1) (LogQuit ''service not enabled'')) (\<lambda>_.
          case lp e of
            None \<Rightarrow> die (LogSys ''can't find user lp'')
          | Some u \<Rightarrow>
            rbind (guard (u \<noteq> 0) (LogQuit ''user lp is privileged'')) (\<lambda>_.
            rbind (guard (setuid_ok e) (LogSys ''can't change IDs to user lp'')) (\<lambda>_.
            rbind (build_qonstart q (spool_names e) (spool_allocs e)) (\<lambda>q.
            ret \<lparr>proc = d, pipe_ignored = True, sig_blocked = {SIGHUP, SIGTERM}, socks = st, rendezvous = rv, maxfd = mx,
                 uid = u, queue = q, threads = [PrinterThread, SignalThread], plog = [''daemon initialized'']\<rparr>)))))))"

definition printd_start :: "pdenv \<Rightarrow> daem \<Rightarrow> nat \<Rightarrow> pd \<Rightarrow> printd run" where
  "printd_start e d errno0 q =
     rbind (guard (pd_argc e = 1) (ErrQuit ''usage: printd'')) (\<lambda>_.
     rbind (daemonize (pd_sys e) ''printd'' d) (\<lambda>d.
     rbind (guard (pipe_ok e) (LogSys ''sigaction failed'')) (\<lambda>_.
     rbind (guard (sigmask_ok e) (LogSys ''pthread_sigmask failed'')) (\<lambda>_.
     rbind (open_jobfile e d q) (\<lambda>(d, q).
     rbind (init_printer q (presolve e) (pconf e)) (\<lambda>q. printd_listen e errno0 d q))))))"

text \<open>
  One turn of the loop: \<open>ready\<close> is what \<^verbatim>\<open>select\<close> finds (\<open>None\<close>: it fails), \<open>acc i\<close> the result of \<^verbatim>\<open>accept\<close> on \<open>i\<close>.  A failing
  \<^verbatim>\<open>accept\<close> is logged, but the thread for the client is made all the same.
\<close>

fun accept_each :: "nat list \<Rightarrow> nat set \<Rightarrow> (nat \<Rightarrow> int) \<Rightarrow> printd \<Rightarrow> printd" where
  "accept_each [] rset acc s = s"
| "accept_each (i # is) rset acc s = accept_each is rset acc
     (if i \<in> rset then
        let sockfd = acc i; s = (if sockfd < 0 then s\<lparr>plog := plog s @ [''accept failed'']\<rparr> else s)
        in s\<lparr>threads := threads s @ [ClientThread sockfd]\<rparr>
      else s)"

definition printd_turn :: "nat set option \<Rightarrow> (nat \<Rightarrow> int) \<Rightarrow> printd \<Rightarrow> printd run" where
  "printd_turn ready acc s = (case ready of
       None \<Rightarrow> die (LogSys ''select failed'')
     | Some r \<Rightarrow> ret (accept_each [0..<nat (maxfd s + 1)] (rendezvous s \<inter> r) acc s))"

fun printd_loop :: "(nat set option \<times> (nat \<Rightarrow> int)) list \<Rightarrow> printd \<Rightarrow> printd run" where
  "printd_loop [] s = ret s"
| "printd_loop (t # ts) s = rbind (printd_turn (fst t) (snd t) s) (printd_loop ts)"

subsection \<open>The sockets\<close>

definition pd_sock :: sock where
  "pd_sock = \<lparr>s_reuse = True, s_bound = True, s_queue = Some PRINT_QLEN\<rparr>"

definition listen_inv :: "sock fdtab \<Rightarrow> nat set \<Rightarrow> int \<Rightarrow> sockst \<Rightarrow> bool" where
  "listen_inv t rv mx st \<longleftrightarrow> finite rv \<and> (\<forall>fd \<in> rv. t fd = None) \<and>
     fdt st = (\<lambda>i. if i \<in> rv then Some pd_sock else t i) \<and> (if rv = {} then mx = - 1 else mx = int (Max rv))"

lemma listen_inv_loop:
  "listen_inv t rv mx st \<Longrightarrow> listen_loop lim as rv mx st = (rv', mx', st') \<Longrightarrow> listen_inv t rv' mx' st'"
proof (induction as arbitrary: rv mx st)
  case (Cons a as)
  show ?case
  proof (cases "free_fd lim (fdt st)")
    case None
    then have "\<exists>e. initserver2 lim SOCK_STREAM a PRINT_QLEN st = (None, st\<lparr>errno := e\<rparr>)"
      by (cases "sock_err a") (auto simp: initserver2_def sys_socket_def fd_open_def)
    then obtain e where e: "initserver2 lim SOCK_STREAM a PRINT_QLEN st = (None, st\<lparr>errno := e\<rparr>)" by blast
    have "listen_inv t rv mx (st\<lparr>errno := e\<rparr>)" using Cons.prems(1) by (simp add: listen_inv_def)
    then show ?thesis using Cons.IH Cons.prems(2) e by simp
  next
    case (Some f)
    show ?thesis
    proof (cases "first_err [sock_err a, opt_err a, bind_err a, listen_err a]")
      case None
      let ?st = "st\<lparr>fdt := (fdt st)(f \<mapsto> pd_sock)\<rparr>"
      have i: "initserver2 lim SOCK_STREAM a PRINT_QLEN st = (Some f, ?st)"
        using initserver2_cases [OF Some, of SOCK_STREAM a PRINT_QLEN] None by (simp add: listens_def pd_sock_def)
      have "fdt st f = None" using free_fd_Some [OF Some] by simp
      then have f: "f \<notin> rv" "t f = None" using Cons.prems(1) by (auto simp: listen_inv_def split: if_splits)
      have "(if insert f rv = {} then max mx (int f) = - 1 else max mx (int f) = int (Max (insert f rv)))"
        using Cons.prems(1) by (auto simp: listen_inv_def of_nat_max split: if_splits)
      then have "listen_inv t (insert f rv) (max mx (int f)) ?st"
        using Cons.prems(1) f by (auto simp: listen_inv_def fun_eq_iff)
      then show ?thesis using Cons.IH Cons.prems(2) i by simp
    next
      case e: (Some e)
      have "initserver2 lim SOCK_STREAM a PRINT_QLEN st = (None, st\<lparr>errno := e\<rparr>)"
        using initserver2_cases [OF Some, of SOCK_STREAM a PRINT_QLEN] e by (simp add: listens_def)
      moreover have "listen_inv t rv mx (st\<lparr>errno := e\<rparr>)" using Cons.prems(1) by (simp add: listen_inv_def)
      ultimately show ?thesis using Cons.IH Cons.prems(2) by simp
    qed
  qed
qed simp

subsection \<open>The start, step by step\<close>

lemma printd_start_steps:
  assumes "printd_start e d e0 q = ret s"
  obtains d1 d2 q1 q2 q3 as where "daemonize (pd_sys e) ''printd'' d = ret d1" and "open_jobfile e d1 q = ret (d2, q1)"
    and "init_printer q1 (presolve e) (pconf e) = ret q2"
    and "listen_loop (fd_lim (pd_sys e)) as {} (- 1) \<lparr>fdt = sock_table (dfds d2), errno = e0\<rparr> = (rendezvous s, maxfd s, socks s)"
    and "maxfd s \<noteq> - 1" and "lp e = Some (uid s)" and "uid s \<noteq> 0"
    and "build_qonstart q2 (spool_names e) (spool_allocs e) = ret q3"
    and "proc s = d2" and "queue s = q3" and "pipe_ignored s" and "sig_blocked s = {SIGHUP, SIGTERM}"
    and "threads s = [PrinterThread, SignalThread]"
proof -
  from assms obtain d1 d2 q1 q2 where a: "daemonize (pd_sys e) ''printd'' d = ret d1" "open_jobfile e d1 q = ret (d2, q1)"
      "init_printer q1 (presolve e) (pconf e) = ret q2" and g: "printd_listen e e0 d2 q2 = ret s"
    by (auto simp: printd_start_def rbind_eq_ret guard_eq_ret)
  from g obtain as where as: "addrlist e = Inr as" by (cases "addrlist e") (auto simp: printd_listen_def rbind_eq_ret)
  obtain rv mx st where l: "listen_loop (fd_lim (pd_sys e)) as {} (- 1) \<lparr>fdt = sock_table (dfds d2), errno = e0\<rparr> = (rv, mx, st)"
    using prod_cases3 by blast
  from g as l obtain u where u: "lp e = Some u" by (cases "lp e") (auto simp: printd_listen_def rbind_eq_ret)
  from g as l u show thesis
    by (auto simp: printd_listen_def rbind_eq_ret guard_eq_ret intro!: that [OF a])
qed

lemma accept_each_eq:
  "accept_each is rset acc s = s\<lparr>threads := threads s @ map (ClientThread \<circ> acc) (filter (\<lambda>i. i \<in> rset) is),
     plog := plog s @ map (\<lambda>i. ''accept failed'') (filter (\<lambda>i. i \<in> rset \<and> acc i < 0) is)\<rparr>"
  by (induction "is" arbitrary: s) (simp_all add: Let_def)

text \<open>The threads that a turn starts, in the order of the descriptors.\<close>

definition served :: "nat set \<Rightarrow> nat set option \<times> (nat \<Rightarrow> int) \<Rightarrow> pthread list" where
  "served rv t = map (ClientThread \<circ> snd t) (sorted_list_of_set (rv \<inter> the (fst t)))"

lemma filter_upt_set:
  assumes "A \<subseteq> {0..<n}"
  shows "filter (\<lambda>i. i \<in> A) [0..<n] = sorted_list_of_set A"
proof -
  have "finite A" using assms finite_subset by blast
  moreover have "sorted (filter (\<lambda>i. i \<in> A) [0..<n])" by (rule sorted_wrt_filter) simp
  moreover have "set (filter (\<lambda>i. i \<in> A) [0..<n]) = A" using assms by auto
  ultimately show ?thesis by (metis sorted_list_of_set.idem_if_sorted_distinct distinct_filter distinct_upt)
qed

definition listening :: "printd \<Rightarrow> bool" where
  "listening s \<longleftrightarrow> finite (rendezvous s) \<and> rendezvous s \<noteq> {} \<and> maxfd s = int (Max (rendezvous s))"

lemma printd_turn_eq:
  assumes "listening s" and "printd_turn ready acc s = ret s'"
  shows "threads s' = threads s @ served (rendezvous s) (ready, acc) \<and> s' = s\<lparr>threads := threads s', plog := plog s'\<rparr>"
proof -
  obtain r where r: "ready = Some r" using assms(2) by (cases ready) (auto simp: printd_turn_def)
  have "rendezvous s \<inter> r \<subseteq> {0..<nat (maxfd s + 1)}" using assms(1) by (auto simp: listening_def less_Suc_eq_le nat_add_distrib)
  note f = filter_upt_set [OF this]
  have e: "s' = accept_each [0..<nat (maxfd s + 1)] (rendezvous s \<inter> r) acc s" using assms(2) r by (simp add: printd_turn_def)
  show ?thesis unfolding e accept_each_eq f by (simp add: served_def r)
qed

lemma printd_loop_eq:
  "listening s \<Longrightarrow> printd_loop ts s = ret s' \<Longrightarrow>
    threads s' = threads s @ concat (map (served (rendezvous s)) ts) \<and> s' = s\<lparr>threads := threads s', plog := plog s'\<rparr>"
proof (induction ts arbitrary: s)
  case (Cons t ts)
  obtain s1 where s1: "printd_turn (fst t) (snd t) s = ret s1" "printd_loop ts s1 = ret s'"
    using Cons.prems(2) by (auto simp: rbind_eq_ret)
  have e: "threads s1 = threads s @ served (rendezvous s) t" "s1 = s\<lparr>threads := threads s1, plog := plog s1\<rparr>"
    using printd_turn_eq [OF Cons.prems(1) s1(1)] unfolding prod.collapse by blast+
  have f: "rendezvous s1 = rendezvous s" "maxfd s1 = maxfd s" by (subst e(2); simp)+
  then have "listening s1" using Cons.prems(1) by (simp add: listening_def)
  from Cons.IH [OF this s1(2)] have i: "threads s' = threads s1 @ concat (map (served (rendezvous s)) ts)"
      "s' = s1\<lparr>threads := threads s', plog := plog s'\<rparr>" unfolding f by blast+
  have "s' = s\<lparr>threads := threads s', plog := plog s'\<rparr>" by (subst i(2), subst e(2)) simp
  then show ?case using i(1) e(1) by simp
qed simp

lemma open_jobfile_at_3:
  assumes "open_jobfile e d q = ret (d', q')" and "dfds d = (\<lambda>i. if i < 3 then Some dev_null else if i < n then None else t i)"
    and "fd_lim (pd_sys e) \<le> n" and "3 < n"
  shows "d' = d\<lparr>dfds := (dfds d)(3 \<mapsto> jobfile_path)\<rparr> \<and> init_request q (job_locked e) (job_bad e) = ret q'"
proof -
  obtain fd t' where f: "fd_open (fd_lim (pd_sys e)) jobfile_path (dfds d) = (Some fd, t')"
      "init_request q (job_locked e) (job_bad e) = ret q'" "d' = d\<lparr>dfds := t'\<rparr>"
    using assms(1) by (auto simp: open_jobfile_def rbind_eq_ret split: prod.splits option.splits)
  then have h: "free_fd (fd_lim (pd_sys e)) (dfds d) = Some fd" "t' = (dfds d)(fd \<mapsto> jobfile_path)" by (simp_all add: fd_open_Some)
  have "fd < n" "dfds d fd = None" using free_fd_Some [OF h(1)] assms(3) by simp_all
  then have "3 \<le> fd" by (simp add: assms(2) split: if_splits)
  moreover have "dfds d 3 = None" using assms(2,4) by simp
  ultimately have "fd = 3" using free_fd_least [OF h(1), of 3] by force
  then show ?thesis using f h by simp
qed

text \<open>The request directory, and room for the queue.\<close>

definition spooled :: "pdenv \<Rightarrow> pd \<Rightarrow> 64 word list \<Rightarrow> printreq list \<Rightarrow> nat list \<Rightarrow> bool" where
  "spooled e q is rs as \<longleftrightarrow> jlist q [] \<and> list_all2 (stored_req q) is rs \<and> spool_names e = ''.'' # ''..'' # map sdec is \<and>
     spool_allocs e = map Some as \<and> length as = length is \<and> distinct as \<and> (\<forall>a \<in> set as. a \<noteq> 0 \<and> jheap q a = None)"

lemma build_qonstart_spooled:
  assumes "init_request q lk bad = ret q1" and "init_printer q1 rv cf = ret q2" and "build_qonstart q2 (spool_names e) (spool_allocs e) = ret q3"
    and "spooled e q is rs as"
  shows "jlist q3 as \<and> map (jval (jheap q3)) as = zip is rs"
proof -
  obtain n where n: "q1 = q\<lparr>nextjob := n\<rparr>"
    using assms(1) by (auto simp: init_request_def rbind_eq_ret Let_def split: if_splits)
  obtain nm where "q2 = q1\<lparr>printer_name := nm\<rparr>"
    using assms(2) by (auto simp: init_printer_def split: option.splits)
  with n have q: "q2 = q\<lparr>nextjob := n, printer_name := nm\<rparr>" by simp
  have p: "jlist q []" "list_all2 (stored_req q) is rs" "spool_names e = ''.'' # ''..'' # map sdec is"
      "spool_allocs e = map Some as" "length as = length is" "distinct as" "\<forall>a \<in> set as. a \<noteq> 0 \<and> jheap q a = None"
    using assms(4) by (auto simp: spooled_def)
  have "jlist q2 []" "list_all2 (stored_req q2) is rs" "\<forall>a \<in> set as. a \<noteq> 0 \<and> jheap q2 a = None"
    using p(1,2,7) q by (simp_all add: jlist_def stored_req_def [abs_def])
  then show ?thesis using build_qonstart_adds [of q2 "[]" "is" rs as] p(3-6) assms(3) by auto
qed


text \<open>Two addresses, the first of them in use; one job in the directory; a turn with one connection that cannot be accepted.\<close>

definition demo_addr :: "nat option \<Rightarrow> address" where
  "demo_addr b = \<lparr>sock_err = None, opt_err = None, bind_err = b, listen_err = None, clobber = id, connects = \<lambda>_. False\<rparr>"

definition demo_sys :: daemsys where
  "demo_sys = \<lparr>rlimit = Some (Some 16), fd_lim = 8, fork1_ok = True, fork2_ok = True, sigaction_ok = True, chdir_ok = True, null_ok = True\<rparr>"

definition demo_pdenv :: pdenv where
  "demo_pdenv = \<lparr>pd_argc = 1, pd_sys = demo_sys, pipe_ok = True, sigmask_ok = True, job_locked = False, job_bad = False,
     presolve = (\<lambda>_. Some None), pconf = ''printer lp1'', host_ok = True, hostname_ok = True,
     addrlist = Inr [demo_addr (Some 98), demo_addr None], lp = Some 7, setuid_ok = True,
     spool_names = [''.'', ''..'', ''7''], spool_allocs = [Some 64]\<rparr>"

definition demo_daem :: daem where
  "demo_daem = \<lparr>dfds = (\<lambda>i. if i < 3 then Some ''tty'' else None), umask = 18, leader = True, ctty = Some ''tty'',
     hup_ignored = False, cwd = ''/root'', logged = []\<rparr>"

lemma demo_daemonize:
  "daemonize demo_sys ''printd'' demo_daem = ret \<lparr>dfds = (\<lambda>i. if i < 3 then Some dev_null else None), umask = 0, leader = False,
     ctty = None, hup_ignored = True, cwd = ''/'', logged = []\<rparr>"
proof -
  have "null_fds demo_sys (close_below 16 (dfds demo_daem)) = (Some 0, Some 1, Some 2, \<lambda>i. if i < 3 then Some dev_null else None)"
    using null_fds_eq [of demo_sys 16 "dfds demo_daem"] by (simp add: demo_sys_def demo_daem_def fun_eq_iff)
  then show ?thesis by (simp add: daemonize_def Let_def demo_sys_def demo_daem_def)
qed

lemma demo_listen:
  assumes "t 4 = None" and "\<forall>i < 4. t i \<noteq> None"
  shows "listen_loop 8 [demo_addr (Some 98), demo_addr None] {} (- 1) \<lparr>fdt = t, errno = 0\<rparr> =
    ({4}, 4, \<lparr>fdt = t(4 \<mapsto> pd_sock), errno = 98\<rparr>)"
proof -
  have f: "free_fd 8 t = Some 4" using assms by (intro free_fd_here) auto
  show ?thesis
    using initserver2_cases [of 8 "\<lparr>fdt = t, errno = 0\<rparr>" 4 SOCK_STREAM "demo_addr (Some 98)" PRINT_QLEN]
      initserver2_cases [of 8 "\<lparr>fdt = t, errno = 98\<rparr>" 4 SOCK_STREAM "demo_addr None" PRINT_QLEN] f
    by (simp add: demo_addr_def first_err_def listens_def pd_sock_def)
qed

lemma demo_printer: "init_printer q (\<lambda>_. Some None) ''printer lp1'' = ret (q\<lparr>printer_name := ''printer''\<rparr>)"
proof -
  have "scan_configfile ''printer'' ''printer lp1'' = Some ''lp1''"
    by (subst scan_configfile.simps)
      (simp add: MAXCFGLINE_def MAXKWLEN_def fgets_def scan_line_def scan_word_def is_space_def space_def newline_def nul_def cstr_def Let_def)
  then show ?thesis by (simp add: init_printer_def get_printaddr_def)
qed

lemma demo_start:
  "\<exists>s. printd_start demo_pdenv demo_daem 0 (pd_init\<lparr>reqdir := [''7'' \<mapsto> enc_req sample_req]\<rparr>) = ret s \<and> rendezvous s = {4} \<and> uid s = 7 \<and>
    plog s = [''daemon initialized'']"
proof -
  let ?q = "pd_init\<lparr>reqdir := [''7'' \<mapsto> enc_req sample_req]\<rparr>"
  let ?t = "\<lambda>i :: nat. if i < 3 then Some dev_null else None"
  let ?d = "\<lparr>dfds = ?t, umask = 0, leader = False, ctty = None, hup_ignored = True, cwd = ''/'', logged = []\<rparr>"
  let ?u = "?t(3 \<mapsto> jobfile_path)"
  have "free_fd 8 ?t = Some 3" by (rule free_fd_here) auto
  then have "open_jobfile demo_pdenv ?d ?q = ret (?d\<lparr>dfds := ?u\<rparr>, ?q)"
    by (simp add: open_jobfile_def fd_open_def demo_pdenv_def demo_sys_def init_request_def pread_def pd_init_def)
  moreover have "listen_loop 8 [demo_addr (Some 98), demo_addr None] {} (- 1) \<lparr>fdt = sock_table ?u, errno = 0\<rparr> =
      ({4}, 4, \<lparr>fdt = (sock_table ?u)(4 \<mapsto> pd_sock), errno = 98\<rparr>)"
    by (rule demo_listen) (auto simp: sock_table_def)
  moreover have sd: "sdec 7 = ''7''" by (simp add: sdec_def dec.simps)
  have "list_all2 (stored_req (?q\<lparr>printer_name := ''printer''\<rparr>)) [7] [sample_req]"
    by (simp add: stored_req_def sd wf_req_def sample_req_def USERNM_MAX_def JOBNM_MAX_def)
  then obtain q3 where "build_qonstart (?q\<lparr>printer_name := ''printer''\<rparr>) [''.'', ''..'', ''7''] [Some 64] = ret q3"
    using build_qonstart_adds [of "?q\<lparr>printer_name := ''printer''\<rparr>" "[]" "[7]" "[sample_req]" "[64]"] sd
    by (auto simp: jlist_def pd_init_def)
  ultimately show ?thesis
    using demo_daemonize by (simp add: printd_start_def printd_listen_def demo_pdenv_def demo_sys_def demo_printer del: build_qonstart.simps listen_loop.simps)
qed


end
