(* ===== verification/ServerMain.thy ===== *)
theory ServerMain
  imports CalldModel OpenServer Connect Daemon
begin

section \<open>The start of the modem daemon and of the open server; debugging output\<close>

text \<open>
  \<^verbatim>\<open>calld/main.c\<close>, \<^verbatim>\<open>opend/main.c\<close> and the beginning of their two \<^verbatim>\<open>loop\<close>s: the option, \<^verbatim>\<open>daemonize\<close> unless it is given, the
  listening socket.  \<open>to_log\<close> is the name that \<^verbatim>\<open>openlog\<close> was given last.
\<close>

definition CS_CALL :: string where
  "CS_CALL = ''/home/sar/calld''"

definition CS_OPEN :: string where
  "CS_OPEN = ''/home/sar/opend''"

text \<open>The options: an unknown one is fatal, in the way of each program.\<close>

fun debug_opts :: "(string \<Rightarrow> fatal) \<Rightarrow> gopt list \<Rightarrow> bool \<Rightarrow> bool run" where
  "debug_opts bad [] dbg = ret dbg"
| "debug_opts bad (BadOpt c # os) dbg = die (bad (''unrecognized option: -'' @ [c]))"
| "debug_opts bad (Opt c a # os) dbg = debug_opts bad os True"

definition d_kind :: "char \<Rightarrow> nat" where
  "d_kind c = (if c = CHR ''d'' then 1 else 0)"

record server =
  sproc :: daem
  to_log :: "string option"
  on_stderr :: bool
  snet :: net

definition server_start :: "(string \<Rightarrow> fatal) \<Rightarrow> string \<Rightarrow> string \<Rightarrow> daemsys \<Rightarrow> string list \<Rightarrow> daem \<Rightarrow> net \<Rightarrow> server run" where
  "server_start bad ident cmd e argv d s = rbind (debug_opts bad (fst (getopt d_kind [] (tl argv))) False) (\<lambda>dbg.
     if dbg then ret \<lparr>sproc = d, to_log = Some ident, on_stderr = True, snet = s\<rparr>
     else rbind (daemonize e cmd d) (\<lambda>d. ret \<lparr>sproc = d, to_log = Some cmd, on_stderr = False, snet = s\<rparr>))"

text \<open>The listening socket; \<^verbatim>\<open>calld\<close> sets its handler for \<^verbatim>\<open>SIGCHLD\<close> before it.\<close>

definition server_listen :: "usys \<Rightarrow> string \<Rightarrow> server \<Rightarrow> server run" where
  "server_listen k name v = rbind (serv_listen k name (snet v)) (\<lambda>(r, s).
     rbind (guard (0 \<le> r) (LogSys ''serv_listen error'')) (\<lambda>_. ret (v\<lparr>snet := s\<rparr>)))"

definition calld_main :: "daemsys \<Rightarrow> usys \<Rightarrow> bool \<Rightarrow> string list \<Rightarrow> daem \<Rightarrow> net \<Rightarrow> int \<Rightarrow> int list \<Rightarrow> (server \<times> calld) run" where
  "calld_main e k sig_ok argv d s lfd ps = rbind (server_start LogQuit ''calld'' ''calld'' e argv d s) (\<lambda>v.
     rbind (guard sig_ok (LogSys ''signal error'')) (\<lambda>_.
     rbind (server_listen k CS_CALL v) (\<lambda>v. ret (v, calld_init lfd ps))))"

definition opend_main :: "daemsys \<Rightarrow> usys \<Rightarrow> bool \<Rightarrow> bool \<Rightarrow> string list \<Rightarrow> daem \<Rightarrow> net \<Rightarrow> int \<Rightarrow> (server \<times> opend) run" where
  "opend_main e k with_poll malloc_ok argv d s lfd = rbind (server_start ErrQuit ''open.serv'' ''opend'' e argv d s) (\<lambda>v.
     rbind (guard (with_poll \<longrightarrow> malloc_ok) (ErrSys ''malloc error'')) (\<lambda>_.
     rbind (server_listen k CS_OPEN v) (\<lambda>v. ret (v, if with_poll then poll_init lfd else select_init lfd))))"

lemma server_start_cases:
  "server_start bad ident cmd e argv d s = ret v \<longleftrightarrow>
    (\<exists>dbg. debug_opts bad (fst (getopt d_kind [] (tl argv))) False = ret dbg \<and>
       (if dbg then v = \<lparr>sproc = d, to_log = Some ident, on_stderr = True, snet = s\<rparr>
        else \<exists>d'. daemonize e cmd d = ret d' \<and> v = \<lparr>sproc = d', to_log = Some cmd, on_stderr = False, snet = s\<rparr>))"
  by (auto simp: server_start_def rbind_eq_ret)

lemma debug_opts_ret: "debug_opts bad os b = ret dbg \<longleftrightarrow> (\<forall>x \<in> set os. \<exists>c a. x = Opt c a) \<and> dbg = (b \<or> os \<noteq> [])"
  by (induction bad os b rule: debug_opts.induct) auto

text \<open>
  A server that has come up listens at its name, for everybody who may write there, and either it was called with \<^verbatim>\<open>-d\<close> and keeps
  its terminal, or it is a daemon.
\<close>

lemma calld_main_up:
  assumes "calld_main e k sig_ok argv d s lfd ps = ret (v, st)" and "rlimit e = Some rl"
    and "n = (case rl of None \<Rightarrow> 1024 | Some n \<Rightarrow> n)" and "3 \<le> n" and "3 \<le> fd_lim e"
  shows "st = calld_init lfd ps \<and> listening (snet v) CS_CALL \<and>
    (if on_stderr v then sproc v = d else \<not> leader (sproc v) \<and> ctty (sproc v) = None)"
proof -
  obtain v0 where v: "server_start LogQuit ''calld'' ''calld'' e argv d s = ret v0" "server_listen k CS_CALL v0 = ret v" "st = calld_init lfd ps"
    using assms(1) by (auto simp: calld_main_def rbind_eq_ret)
  have "listening (snet v) CS_CALL" "sproc v = sproc v0" "on_stderr v = on_stderr v0"
    using v(2) by (auto simp: server_listen_def serv_listen_def rbind_eq_ret guard_eq_ret Let_def split: if_splits option.splits)
  moreover have "if on_stderr v0 then sproc v0 = d else \<not> leader (sproc v0) \<and> ctty (sproc v0) = None"
    using v(1) daemonize_state [OF _ assms(2-5), of "''calld''" d] by (auto simp: server_start_cases split: if_splits)
  ultimately show ?thesis using v(3) by simp
qed

subsection \<open>Debugging output of \<^verbatim>\<open>calld\<close>: \<^verbatim>\<open>calld/debug.c\<close>\<close>

text \<open>
  Both functions print into a line of \<^verbatim>\<open>MAXLINE\<close> bytes without a check and send it to the client; \<open>wr\<close> is what \<^verbatim>\<open>writen\<close> returns.
\<close>

definition debug_out :: "bool \<Rightarrow> (string \<Rightarrow> int) \<Rightarrow> string \<Rightarrow> string \<Rightarrow> string run" where
  "debug_out debug wr nl text =
     (if \<not> debug then ret []
      else
        rbind (guard (length text < MAXLINE) (Undef ''vsprintf(line)'')) (\<lambda>_.
        rbind (guard (length (text @ nl) < MAXLINE) (Undef ''strcat(line)'')) (\<lambda>_.
        rbind (guard (wr (text @ nl) = int (length (text @ nl))) (LogSys ''writen error'')) (\<lambda>_.
        ret (text @ nl)))))"

definition DEBUG :: "bool \<Rightarrow> (string \<Rightarrow> int) \<Rightarrow> string \<Rightarrow> string run" where
  "DEBUG debug wr text = debug_out debug wr [newline] text"

definition DEBUG_NONL :: "bool \<Rightarrow> (string \<Rightarrow> int) \<Rightarrow> string \<Rightarrow> string run" where
  "DEBUG_NONL debug wr text = debug_out debug wr [] text"

lemma DEBUG_fits: "DEBUG True (\<lambda>s. int (length s)) text = ret out \<longleftrightarrow> length text < MAXLINE - 1 \<and> out = text @ [newline]"
  by (auto simp: DEBUG_def debug_out_def rbind_eq_ret guard_eq_ret)

end
