(* ===== verification/OpenClient.thy ===== *)
theory OpenClient
  imports OpenServer FdTable IoModel
begin

section \<open>The client of the open servers: starting the server, and \<^verbatim>\<open>main\<close> of \<^verbatim>\<open>open.fe\<close>\<close>

text \<open>
  \<^verbatim>\<open>csopen\<close> of \<^verbatim>\<open>open.fe/open.c\<close> starts its server at the first call: over the ends of a stream pipe, \<^verbatim>\<open>s_pipe\<close> of
  \<^verbatim>\<open>lib/spipe.c\<close>.  The descriptor tables say what the descriptors refer to; \<open>a\<close> and \<open>b\<close> are the two ends.
\<close>

definition s_pipe :: "nat \<Rightarrow> bool \<Rightarrow> 'a \<Rightarrow> 'a \<Rightarrow> 'a fdtab \<Rightarrow> (nat \<times> nat) option \<times> 'a fdtab" where
  "s_pipe lim ok a b t = (if \<not> ok then (None, t) else case fd_open lim a t of
     (None, _) \<Rightarrow> (None, t)
   | (Some f0, t0) \<Rightarrow> (case fd_open lim b t0 of (None, _) \<Rightarrow> (None, t) | (Some f1, t1) \<Rightarrow> (Some (f0, f1), t1)))"

text \<open>The child up to \<^verbatim>\<open>execl\<close>; \<^verbatim>\<open>fd[1]\<close> itself is left open.\<close>

definition std_dup :: "nat \<Rightarrow> nat \<Rightarrow> string \<Rightarrow> 'a fdtab \<Rightarrow> 'a fdtab run" where
  "std_dup fd g msg t = (if fd = g then ret t else case fd_dup2 fd g t of (True, t) \<Rightarrow> ret t | (False, t) \<Rightarrow> die (ErrSys msg))"

definition server_child :: "nat \<Rightarrow> nat \<Rightarrow> bool \<Rightarrow> 'a fdtab \<Rightarrow> 'a fdtab run" where
  "server_child f0 f1 exec_ok t =
     rbind (std_dup f1 0 ''dup2 error to stdin'' (fd_close f0 t)) (\<lambda>t.
     rbind (std_dup f1 1 ''dup2 error to stdout'' t) (\<lambda>t. rbind (guard exec_ok (ErrSys ''execl error'')) (\<lambda>_. ret t)))"

text \<open>The parent's descriptor and table, and the server's.\<close>

definition server_fork :: "nat \<Rightarrow> bool \<Rightarrow> bool \<Rightarrow> bool \<Rightarrow> 'a \<Rightarrow> 'a \<Rightarrow> 'a fdtab \<Rightarrow> (nat \<times> 'a fdtab \<times> 'a fdtab run) run" where
  "server_fork lim pipe_ok fork_ok exec_ok a b t = (case s_pipe lim pipe_ok a b t of
       (None, t) \<Rightarrow> die (ErrSys ''s_pipe error'')
     | (Some (f0, f1), t) \<Rightarrow> rbind (guard fork_ok (ErrSys ''fork error'')) (\<lambda>_. ret (f0, fd_close f1 t, server_child f0 f1 exec_ok t)))"

lemma s_pipe_ends:
  assumes "s_pipe lim ok a b t = (Some (f0, f1), t')"
  shows "f0 < f1 \<and> t f0 = None \<and> t f1 = None \<and> t' = t(f0 \<mapsto> a, f1 \<mapsto> b)"
proof -
  have o: "free_fd lim t = Some f0" "free_fd lim (t(f0 \<mapsto> a)) = Some f1" "t' = t(f0 \<mapsto> a, f1 \<mapsto> b)"
    using assms by (auto simp: s_pipe_def fd_open_def split: if_splits option.splits)
  have "f1 \<noteq> f0" "t f1 = None" using free_fd_Some [OF o(2)] by (auto split: if_splits)
  moreover have "\<not> f1 < f0" using free_fd_least [OF o(1)] \<open>t f1 = None\<close> by blast
  ultimately show ?thesis using o(3) free_fd_Some [OF o(1)] by auto
qed

text \<open>The server's standard input and output are its end of the pipe; it does not have the client's, and the client not the server's.\<close>

lemma server_fork_ends:
  assumes "server_fork lim p f True a b t = ret (f0, tp, run)" and "t 0 \<noteq> None" and "t 1 \<noteq> None"
  shows "tp f0 = Some a \<and> (\<forall>i. i \<noteq> f0 \<longrightarrow> tp i = t i) \<and>
    (\<exists>f1 tc. run = ret tc \<and> tc 0 = Some b \<and> tc 1 = Some b \<and> tc f1 = Some b \<and> (\<forall>i. i \<notin> {0, 1, f1} \<longrightarrow> tc i = t i))"
proof -
  obtain f1 t' where s: "s_pipe lim p a b t = (Some (f0, f1), t')" "tp = fd_close f1 t'" "run = server_child f0 f1 True t'"
    using assms(1) by (auto simp: server_fork_def rbind_eq_ret split: prod.splits option.splits)
  note e = s_pipe_ends [OF s(1)]
  have n: "f0 \<noteq> 0" "f0 \<noteq> 1" "f1 \<noteq> 0" "f1 \<noteq> 1" using e assms(2,3) by metis+
  then have "run = ret (t(f1 \<mapsto> b, 0 \<mapsto> b, 1 \<mapsto> b))"
    using s(3) e by (auto simp: server_child_def std_dup_def fd_dup2_def fd_close_def fun_eq_iff)
  then show ?thesis using s(2) e n
    by (intro conjI exI [of _ f1] exI [of _ "t(f1 \<mapsto> b, 0 \<mapsto> b, 1 \<mapsto> b)"]) (auto simp: fd_close_def)
qed

subsection \<open>\<^verbatim>\<open>main\<close>: the files named on standard input\<close>

text \<open>
  \<open>cat_fd\<close> is the loop over \<^verbatim>\<open>read\<close>; \<open>wr\<close> says how many bytes \<^verbatim>\<open>write\<close> takes.  \<open>cs\<close> gives the messages that come back for a
  name, \<open>files\<close> the bytes behind a descriptor.  A line that begins with a null byte has no last character.
\<close>

definition BUFFSIZE :: nat where
  "BUFFSIZE = 8192"

function cat_fd :: "(string \<Rightarrow> int) \<Rightarrow> chan \<Rightarrow> string \<Rightarrow> string run" where
  "cat_fd wr c out = (case sys_read BUFFSIZE c of
       (RErr e, c') \<Rightarrow> die (ErrSys ''read error'')
     | (Got s, c') \<Rightarrow>
       if s = [] then ret out
       else if wr s \<noteq> int (length s) then die (ErrSys ''write error'')
       else cat_fd wr c' (out @ s))"
  by pat_completeness auto
termination
proof (relation "measure (\<lambda>(wr, c, out). length (bytes c))", simp)
  fix wr c out r c' s
  assume "(r, c') = sys_read BUFFSIZE c" and "r = Got s" and "s \<noteq> []"
  then have "sys_read BUFFSIZE c = (Got s, c')" by simp
  from sys_read_got [OF this] \<open>s \<noteq> []\<close> have "bytes c = s @ bytes c'" by (simp add: BUFFSIZE_def)
  then show "((wr, c', out @ s), wr, c, out) \<in> measure (\<lambda>(wr, c, out). length (bytes c))" using \<open>s \<noteq> []\<close> by simp
qed

declare cat_fd.simps [simp del]

definition chomp_line :: "string \<Rightarrow> string" where
  "chomp_line line = (if last line = newline then butlast line else line)"

function cat_main :: "(string \<Rightarrow> int) \<Rightarrow> (string \<Rightarrow> bool) \<Rightarrow> (string \<Rightarrow> rmsg list) \<Rightarrow> (int \<Rightarrow> chan) \<Rightarrow> string \<Rightarrow> string \<Rightarrow> string run" where
  "cat_main wr uf cs files inp out =
     (if inp = [] then ret out
      else case fgets (MAXLINE - 1) inp of (l, rest) \<Rightarrow>
        let line = cstr l in
        if line = [] then die (Undef ''line[strlen(line) - 1]'')
        else rbind (csopen (\<lambda>_. True) (chomp_line line) 0 uf (cs (chomp_line line))) (\<lambda>(fd, err, ms).
          if fd < 0 then cat_main wr uf cs files rest out
          else rbind (cat_fd wr (files fd) out) (\<lambda>out. cat_main wr uf cs files rest out)))"
  by pat_completeness auto
termination
  by (relation "measure (\<lambda>(wr, uf, cs, files, inp, out). length inp)") (auto simp: MAXLINE_def dest: fgets_shorter)

declare cat_main.simps [simp del]

text \<open>What is printed: the files that could be opened, one after the other.\<close>

lemma cat_fd_bytes: "no_fail c \<Longrightarrow> \<forall>s. wr s = int (length s) \<Longrightarrow> cat_fd wr c out = ret (out @ bytes c)"
proof (induction wr c out rule: cat_fd.induct)
  case (1 wr c out)
  obtain r c' where q: "sys_read BUFFSIZE c = (r, c')" by fastforce
  obtain s where s: "r = Got s" "no_fail c'" using sys_read_no_fail [OF q "1.prems"(1)] by auto
  show ?case
  proof (cases "s = []")
    case True
    then have "bytes c = []" using sys_read_eof q s by (simp add: BUFFSIZE_def)
    then show ?thesis using True q s by (subst cat_fd.simps) simp
  next
    case False
    then have "bytes c = s @ bytes c'" using sys_read_got [of BUFFSIZE c s c'] q s by (simp add: BUFFSIZE_def)
    moreover have "cat_fd wr c' (out @ s) = ret ((out @ s) @ bytes c')" using 1 q s False by metis
    ultimately show ?thesis using False q s "1.prems"(2) by (subst cat_fd.simps) simp
  qed
qed

definition name_ok :: "string \<Rightarrow> bool" where
  "name_ok n \<longleftrightarrow> newline \<notin> set n \<and> nul \<notin> set n \<and> length n < MAXLINE - 1"

lemma cat_main_files:
  assumes "\<forall>s. wr s = int (length s)" and "\<forall>n \<in> set ns. name_ok n \<and> (\<exists>e m. csopen (\<lambda>_. True) n 0 uf (cs n) = ret (fdof n, e, m))"
    and "\<forall>n \<in> set ns. 0 \<le> fdof n \<longrightarrow> no_fail (files (fdof n))"
  shows "cat_main wr uf cs files (concat (map (\<lambda>n. n @ [newline]) ns)) out =
    ret (out @ concat (map (\<lambda>n. if fdof n < 0 then [] else bytes (files (fdof n))) ns))"
  using assms(2,3)
proof (induction ns arbitrary: out)
  case Nil
  then show ?case by (subst cat_main.simps) simp
next
  case (Cons n ns)
  let ?rest = "concat (map (\<lambda>n. n @ [newline]) ns)"
  obtain e m where o: "name_ok n" "csopen (\<lambda>_. True) n 0 uf (cs n) = ret (fdof n, e, m)" using Cons.prems(1) by auto
  have f: "fgets (MAXLINE - 1) (n @ newline # ?rest) = (n @ [newline], ?rest)" using o(1) by (intro fgets_line) (auto simp: name_ok_def)
  have c: "cstr (n @ [newline]) = n @ [newline]" using o(1) by (intro cstr_id) (simp add: name_ok_def newline_def nul_def)
  have m: "cat_main wr uf cs files (n @ newline # ?rest) out =
      (if fdof n < 0 then cat_main wr uf cs files ?rest out
       else rbind (cat_fd wr (files (fdof n)) out) (\<lambda>out. cat_main wr uf cs files ?rest out))"
    by (subst cat_main.simps) (simp add: f [unfolded One_nat_def] c chomp_line_def o(2) Let_def)
  have "fdof n < 0 \<or> cat_fd wr (files (fdof n)) out = ret (out @ bytes (files (fdof n)))"
    using Cons.prems(2) cat_fd_bytes assms(1) by (metis list.set_intros(1) not_le)
  then show ?case using Cons.IH Cons.prems m by auto
qed

end
