(* ===== verification/RecordLock.thy ===== *)
theory RecordLock
  imports CText
begin

section \<open>Record locks: \<^verbatim>\<open>lib/lockreg.c\<close>, \<^verbatim>\<open>lib/locktest.c\<close>\<close>

text \<open>
  The two functions are \<^verbatim>\<open>fcntl\<close> on a \<^verbatim>\<open>struct flock\<close>.  The locks of a file are a list of ranges, each with its process and type,
  as POSIX describes them: a new lock replaces what the process itself has in the range and splits its older locks at the ends;
  a lock of another process that overlaps is in the way when one of the two is a write lock.  \<open>None\<close> as the end of a range means without end.
\<close>

datatype ltype = F_RDLCK | F_WRLCK | F_UNLCK

datatype whence = SEEK_SET | SEEK_CUR | SEEK_END

text \<open>The types in the order of their strength.\<close>

fun strength :: "ltype \<Rightarrow> nat" where
  "strength F_UNLCK = 0"
| "strength F_RDLCK = 1"
| "strength F_WRLCK = 2"

lemma strength_inj: "strength x = strength y \<Longrightarrow> x = y"
  by (cases x; cases y) simp_all

instantiation ltype :: linorder
begin

definition less_eq_ltype :: "ltype \<Rightarrow> ltype \<Rightarrow> bool" where
  "less_eq_ltype x y \<longleftrightarrow> strength x \<le> strength y"

definition less_ltype :: "ltype \<Rightarrow> ltype \<Rightarrow> bool" where
  "less_ltype x y \<longleftrightarrow> strength x < strength y"

instance
  by standard (auto simp: less_eq_ltype_def less_ltype_def intro: strength_inj)

end

record flock =
  l_type :: ltype
  l_start :: int
  l_whence :: whence
  l_len :: int

type_synonym range = "nat \<times> nat option"

record rlock =
  rl_pid :: nat
  rl_type :: ltype
  rl_range :: range

record lkfile =
  lk_cur :: int
  lk_size :: int

subsection \<open>Ranges\<close>

fun below :: "nat \<Rightarrow> nat option \<Rightarrow> bool" where
  "below x None = True"
| "below x (Some h) = (x < h)"

definition in_range :: "nat \<Rightarrow> range \<Rightarrow> bool" where
  "in_range b r = (fst r \<le> b \<and> below b (snd r))"

definition overlap :: "range \<Rightarrow> range \<Rightarrow> bool" where
  "overlap r r' = (let lo = max (fst r) (fst r') in below lo (snd r) \<and> below lo (snd r'))"

definition region :: "lkfile \<Rightarrow> flock \<Rightarrow> range option" where
  "region f l = (let lo = (case l_whence l of SEEK_SET \<Rightarrow> 0 | SEEK_CUR \<Rightarrow> lk_cur f | SEEK_END \<Rightarrow> lk_size f) + l_start l in
     if 0 < l_len l then (if lo < 0 then None else Some (nat lo, Some (nat (lo + l_len l))))
     else if l_len l = 0 then (if lo < 0 then None else Some (nat lo, None))
     else if lo + l_len l < 0 then None else Some (nat (lo + l_len l), Some (nat lo)))"

text \<open>What is left of range \<open>k\<close> outside \<open>r\<close>.\<close>

definition pieces :: "range \<Rightarrow> range \<Rightarrow> range list" where
  "pieces r k = filter (\<lambda>x. below (fst x) (snd x))
     ((fst k, Some (case snd k of None \<Rightarrow> fst r | Some h \<Rightarrow> min h (fst r))) #
      (case snd r of None \<Rightarrow> [] | Some h \<Rightarrow> [(max (fst k) h, snd k)]))"

subsection \<open>\<^verbatim>\<open>fcntl\<close>\<close>

definition blockers :: "nat \<Rightarrow> ltype \<Rightarrow> range \<Rightarrow> rlock list \<Rightarrow> rlock list" where
  "blockers p ty r tab = (if ty = F_UNLCK then []
     else filter (\<lambda>k. rl_pid k \<noteq> p \<and> overlap r (rl_range k) \<and> (ty = F_WRLCK \<or> rl_type k = F_WRLCK)) tab)"

definition set_lock :: "nat \<Rightarrow> ltype \<Rightarrow> range \<Rightarrow> rlock list \<Rightarrow> rlock list" where
  "set_lock p ty r tab =
     concat (map (\<lambda>k. if rl_pid k = p then map (\<lambda>x. k\<lparr>rl_range := x\<rparr>) (pieces r (rl_range k)) else [k]) tab) @
     (if ty = F_UNLCK then [] else [\<lparr>rl_pid = p, rl_type = ty, rl_range = r\<rparr>])"

text \<open>\<^verbatim>\<open>F_SETLK\<close>: 0, or -1 (\<^verbatim>\<open>EAGAIN\<close> or \<^verbatim>\<open>EINVAL\<close>).\<close>

definition fcntl_setlk :: "nat \<Rightarrow> lkfile \<Rightarrow> flock \<Rightarrow> rlock list \<Rightarrow> int \<times> rlock list" where
  "fcntl_setlk p f l tab = (case region f l of
       None \<Rightarrow> (- 1, tab)
     | Some r \<Rightarrow> if blockers p (l_type l) r tab \<noteq> [] then (- 1, tab) else (0, set_lock p (l_type l) r tab))"

text \<open>\<^verbatim>\<open>F_GETLK\<close>: the first lock in the way, or the given one with \<^verbatim>\<open>F_UNLCK\<close>.\<close>

definition fcntl_getlk :: "nat \<Rightarrow> lkfile \<Rightarrow> flock \<Rightarrow> rlock list \<Rightarrow> (ltype \<times> nat) option" where
  "fcntl_getlk p f l tab = (case region f l of
       None \<Rightarrow> None
     | Some r \<Rightarrow> (case blockers p (l_type l) r tab of [] \<Rightarrow> Some (F_UNLCK, 0) | k # _ \<Rightarrow> Some (rl_type k, rl_pid k)))"

subsection \<open>The two functions\<close>

definition lock_reg :: "nat \<Rightarrow> lkfile \<Rightarrow> ltype \<Rightarrow> int \<Rightarrow> whence \<Rightarrow> int \<Rightarrow> rlock list \<Rightarrow> int \<times> rlock list" where
  "lock_reg p f type offset whence len tab =
     (let lock = \<lparr>l_type = type, l_start = offset, l_whence = whence, l_len = len\<rparr> in fcntl_setlk p f lock tab)"

definition lock_test :: "nat \<Rightarrow> lkfile \<Rightarrow> ltype \<Rightarrow> int \<Rightarrow> whence \<Rightarrow> int \<Rightarrow> rlock list \<Rightarrow> nat run" where
  "lock_test p f type offset whence len tab =
     (let lock = \<lparr>l_type = type, l_start = offset, l_whence = whence, l_len = len\<rparr> in
      case fcntl_getlk p f lock tab of
        None \<Rightarrow> die (ErrSys ''fcntl error'')
      | Some (ty, pid) \<Rightarrow> if ty = F_UNLCK then ret 0 else ret pid)"

subsection \<open>Byte by byte\<close>

text \<open>Which types process \<open>p\<close> has on byte \<open>b\<close>, and what a table of bytes would say.\<close>

definition locked :: "rlock list \<Rightarrow> nat \<Rightarrow> nat \<Rightarrow> ltype \<Rightarrow> bool" where
  "locked tab p b ty \<longleftrightarrow> (\<exists>k \<in> set tab. rl_pid k = p \<and> rl_type k = ty \<and> in_range b (rl_range k))"

type_synonym bytemap = "nat \<Rightarrow> nat \<Rightarrow> ltype option"

definition rep :: "rlock list \<Rightarrow> bytemap \<Rightarrow> bool" where
  "rep tab m \<longleftrightarrow> (\<forall>p b ty. locked tab p b ty \<longleftrightarrow> m p b = Some ty)"

definition clash :: "ltype \<Rightarrow> ltype \<Rightarrow> bool" where
  "clash ty ty' \<longleftrightarrow> ty \<noteq> F_UNLCK \<and> (ty = F_WRLCK \<or> ty' = F_WRLCK)"

definition free_for :: "nat \<Rightarrow> ltype \<Rightarrow> range \<Rightarrow> bytemap \<Rightarrow> bool" where
  "free_for p ty r m \<longleftrightarrow> (\<forall>q b ty'. q \<noteq> p \<and> in_range b r \<and> m q b = Some ty' \<longrightarrow> \<not> clash ty ty')"

definition put_lock :: "nat \<Rightarrow> ltype \<Rightarrow> range \<Rightarrow> bytemap \<Rightarrow> bytemap" where
  "put_lock p ty r m = (\<lambda>q b. if q = p \<and> in_range b r then if ty = F_UNLCK then None else Some ty else m q b)"

definition exclusive :: "bytemap \<Rightarrow> bool" where
  "exclusive m \<longleftrightarrow> (\<forall>p q b. p \<noteq> q \<and> m p b = Some F_WRLCK \<longrightarrow> m q b = None)"

lemma below_mono: "below b h \<Longrightarrow> a \<le> b \<Longrightarrow> below a h"
  by (cases h) auto

lemma overlap_iff: "overlap r k \<longleftrightarrow> (\<exists>b. in_range b r \<and> in_range b k)"
proof
  assume "overlap r k"
  then show "\<exists>b. in_range b r \<and> in_range b k"
    by (intro exI [of _ "max (fst r) (fst k)"]) (auto simp: overlap_def in_range_def Let_def)
next
  assume "\<exists>b. in_range b r \<and> in_range b k"
  then obtain b where b: "fst r \<le> b" "fst k \<le> b" "below b (snd r)" "below b (snd k)" by (auto simp: in_range_def)
  then have "max (fst r) (fst k) \<le> b" by simp
  then show "overlap r k" using b below_mono by (auto simp: overlap_def Let_def)
qed

lemma pieces_iff: "(\<exists>x \<in> set (pieces r k). in_range b x) \<longleftrightarrow> in_range b k \<and> \<not> in_range b r"
proof -
  have ne: "in_range b x \<Longrightarrow> below (fst x) (snd x)" for x by (auto simp: in_range_def intro: below_mono)
  have fl: "(\<exists>x \<in> set (filter (\<lambda>x. below (fst x) (snd x)) xs). in_range b x) \<longleftrightarrow> (\<exists>x \<in> set xs. in_range b x)" for xs
    unfolding set_filter using ne by blast
  have "(\<exists>x \<in> set (pieces r k). in_range b x) \<longleftrightarrow>
      in_range b (fst k, Some (case snd k of None \<Rightarrow> fst r | Some h \<Rightarrow> min h (fst r))) \<or>
      (\<exists>h. snd r = Some h \<and> in_range b (max (fst k) h, snd k))"
    unfolding pieces_def fl by (cases "snd r") auto
  also have "\<dots> \<longleftrightarrow> in_range b k \<and> \<not> in_range b r"
    by (cases "snd k"; cases "snd r") (auto simp: in_range_def)
  finally show ?thesis .
qed

lemma locked_set_lock:
  "locked (set_lock p ty r tab) q b ty' \<longleftrightarrow>
    (if q = p \<and> in_range b r then ty' = ty \<and> ty \<noteq> F_UNLCK else locked tab q b ty')"
proof -
  let ?at = "\<lambda>x. rl_pid x = q \<and> rl_type x = ty' \<and> in_range b (rl_range x)"
  have "(\<exists>x \<in> set (if rl_pid k = p then map (\<lambda>x. k\<lparr>rl_range := x\<rparr>) (pieces r (rl_range k)) else [k]). ?at x) \<longleftrightarrow>
      ?at k \<and> \<not> (q = p \<and> in_range b r)" for k
    using pieces_iff [of r "rl_range k" b] by (cases "rl_pid k = p") auto
  then have old: "(\<exists>k \<in> set tab. \<exists>x \<in> set (if rl_pid k = p then map (\<lambda>x. k\<lparr>rl_range := x\<rparr>) (pieces r (rl_range k)) else [k]). ?at x) \<longleftrightarrow>
      locked tab q b ty' \<and> \<not> (q = p \<and> in_range b r)"
    unfolding locked_def by blast
  have new: "(\<exists>x \<in> set (if ty = F_UNLCK then [] else [\<lparr>rl_pid = p, rl_type = ty, rl_range = r\<rparr>]). ?at x) \<longleftrightarrow>
      ty \<noteq> F_UNLCK \<and> q = p \<and> ty' = ty \<and> in_range b r" by auto
  have "locked (set_lock p ty r tab) q b ty' \<longleftrightarrow>
      (locked tab q b ty' \<and> \<not> (q = p \<and> in_range b r)) \<or> (ty \<noteq> F_UNLCK \<and> q = p \<and> ty' = ty \<and> in_range b r)"
    unfolding old [symmetric] new [symmetric]
    unfolding locked_def set_lock_def set_append set_concat set_map image_image bex_Un bex_UN by (rule refl)
  then show ?thesis by auto
qed

lemma rep_set_lock: "rep tab m \<Longrightarrow> rep (set_lock p ty r tab) (put_lock p ty r m)"
  by (auto simp: rep_def locked_set_lock put_lock_def)

lemma blockers_mem:
  "k \<in> set (blockers p ty r tab) \<longleftrightarrow> k \<in> set tab \<and> rl_pid k \<noteq> p \<and> overlap r (rl_range k) \<and> clash ty (rl_type k)"
  by (auto simp: blockers_def clash_def)

lemma rep_blockers:
  assumes "rep tab m"
  shows "blockers p ty r tab = [] \<longleftrightarrow> free_for p ty r m"
    and "k \<in> set (blockers p ty r tab) \<Longrightarrow> \<exists>b. in_range b r \<and> rl_pid k \<noteq> p \<and> m (rl_pid k) b = Some (rl_type k) \<and> clash ty (rl_type k)"
proof -
  have m: "m q b = Some ty' \<longleftrightarrow> (\<exists>k \<in> set tab. rl_pid k = q \<and> rl_type k = ty' \<and> in_range b (rl_range k))" for q b ty'
    using assms by (auto simp: rep_def locked_def)
  show b: "\<exists>b. in_range b r \<and> rl_pid k \<noteq> p \<and> m (rl_pid k) b = Some (rl_type k) \<and> clash ty (rl_type k)"
    if "k \<in> set (blockers p ty r tab)" for k
    using that unfolding m by (auto simp: blockers_mem overlap_iff)
  show "blockers p ty r tab = [] \<longleftrightarrow> free_for p ty r m"
  proof
    assume "blockers p ty r tab = []"
    then show "free_for p ty r m"
      unfolding free_for_def m by (metis blockers_mem emptyE list.set(1) overlap_iff)
  next
    assume f: "free_for p ty r m"
    show "blockers p ty r tab = []"
    proof (rule ccontr)
      assume "blockers p ty r tab \<noteq> []"
      then obtain k where "k \<in> set (blockers p ty r tab)" by (meson last_in_set)
      with b f show False by (metis free_for_def)
    qed
  qed
qed

lemma exclusive_put:
  assumes "exclusive m" and "free_for p ty r m"
  shows "exclusive (put_lock p ty r m)"
  unfolding exclusive_def
proof (intro allI impI)
  fix a c b assume ac: "a \<noteq> c \<and> put_lock p ty r m a b = Some F_WRLCK"
  have f: "m q b = None" if "q \<noteq> p" "in_range b r" "clash ty F_WRLCK \<and> m q b = Some F_WRLCK \<or> ty = F_WRLCK" for q
    using assms(2) that by (cases "m q b") (auto simp: free_for_def clash_def)
  show "put_lock p ty r m c b = None"
  proof (cases "in_range b r \<and> (a = p \<or> c = p)")
    case True
    then show ?thesis using ac f [of a] f [of c] by (auto simp: put_lock_def clash_def split: if_splits)
  next
    case False
    then show ?thesis using ac assms(1) by (auto simp: put_lock_def exclusive_def)
  qed
qed

subsection \<open>Any sequence of calls\<close>

datatype lkcall = LkCall nat lkfile ltype int whence int

fun lk_pid :: "lkcall \<Rightarrow> nat" where
  "lk_pid (LkCall p f ty off wh len) = p"

fun lock_calls :: "lkcall list \<Rightarrow> rlock list \<Rightarrow> int list \<times> rlock list" where
  "lock_calls [] tab = ([], tab)"
| "lock_calls (LkCall p f ty off wh len # cs) tab = (case lock_reg p f ty off wh len tab of (r, tab) \<Rightarrow>
     (case lock_calls cs tab of (rs, tab) \<Rightarrow> (r # rs, tab)))"

fun byte_calls :: "lkcall list \<Rightarrow> bytemap \<Rightarrow> int list \<times> bytemap" where
  "byte_calls [] m = ([], m)"
| "byte_calls (LkCall p f ty off wh len # cs) m =
     (case (case region f \<lparr>l_type = ty, l_start = off, l_whence = wh, l_len = len\<rparr> of
              None \<Rightarrow> (- 1, m)
            | Some r \<Rightarrow> if free_for p ty r m then (0, put_lock p ty r m) else (- 1, m)) of (r, m) \<Rightarrow>
     (case byte_calls cs m of (rs, m) \<Rightarrow> (r # rs, m)))"

definition good_tab :: "rlock list \<Rightarrow> bool" where
  "good_tab tab \<longleftrightarrow> (\<forall>k \<in> set tab. 0 < rl_pid k \<and> rl_type k \<noteq> F_UNLCK)"

lemma good_set_lock: "good_tab tab \<Longrightarrow> 0 < p \<Longrightarrow> good_tab (set_lock p ty r tab)"
  by (auto simp: good_tab_def set_lock_def)

lemma lock_calls_rep:
  "rep tab m \<Longrightarrow> exclusive m \<Longrightarrow> good_tab tab \<Longrightarrow> \<forall>c \<in> set cs. 0 < lk_pid c \<Longrightarrow> lock_calls cs tab = (rs, tab') \<Longrightarrow>
    \<exists>m'. byte_calls cs m = (rs, m') \<and> rep tab' m' \<and> exclusive m' \<and> good_tab tab'"
proof (induction cs arbitrary: tab m rs)
  case (Cons c cs)
  obtain p f ty off wh len where c: "c = LkCall p f ty off wh len" by (cases c)
  let ?l = "\<lparr>l_type = ty, l_start = off, l_whence = wh, l_len = len\<rparr>"
  obtain r1 tab1 rs1 where l: "lock_reg p f ty off wh len tab = (r1, tab1)" "lock_calls cs tab1 = (rs1, tab')" "rs = r1 # rs1"
    using Cons.prems(5) c by (auto split: prod.splits)
  have p: "0 < p" using Cons.prems(4) c by simp
  obtain m1 where m1: "rep tab1 m1" "exclusive m1" "good_tab tab1"
      "(case region f ?l of None \<Rightarrow> (- 1, m) | Some r \<Rightarrow> if free_for p ty r m then (0, put_lock p ty r m) else (- 1, m)) = (r1, m1)"
  proof (cases "region f ?l")
    case None
    then show ?thesis using that [of m] l(1) Cons.prems(1-3) by (simp add: lock_reg_def fcntl_setlk_def)
  next
    case (Some r)
    show ?thesis
    proof (cases "free_for p ty r m")
      case True
      then have "r1 = 0" "tab1 = set_lock p ty r tab"
        using l(1) Some rep_blockers(1) [OF Cons.prems(1)] by (simp_all add: lock_reg_def fcntl_setlk_def)
      moreover have "good_tab (set_lock p ty r tab)" by (rule good_set_lock [OF Cons.prems(3) p])
      ultimately show ?thesis
        using that [of "put_lock p ty r m"] True Some rep_set_lock [OF Cons.prems(1)] exclusive_put [OF Cons.prems(2) True] by simp
    next
      case False
      then show ?thesis using that [of m] l(1) Some Cons.prems(1-3) rep_blockers(1) [OF Cons.prems(1)]
        by (simp add: lock_reg_def fcntl_setlk_def)
    qed
  qed
  obtain m' where "byte_calls cs m1 = (rs1, m')" "rep tab' m'" "exclusive m'" "good_tab tab'"
    using Cons.IH [OF m1(1-3) _ l(2)] Cons.prems(4) by auto
  then show ?case using c m1(4) l(3) by simp
qed simp

lemma lock_test_cases:
  assumes "rep tab m" and "good_tab tab" and "ty \<noteq> F_UNLCK"
  shows "(case lock_test p f ty off wh len tab of
      Some (Inr q) \<Rightarrow> if q = 0 then fst (lock_reg p f ty off wh len tab) = 0
        else fst (lock_reg p f ty off wh len tab) = - 1 \<and> q \<noteq> p \<and>
          (\<exists>r b ty'. region f \<lparr>l_type = ty, l_start = off, l_whence = wh, l_len = len\<rparr> = Some r \<and> in_range b r \<and> m q b = Some ty' \<and> clash ty ty')
    | _ \<Rightarrow> region f \<lparr>l_type = ty, l_start = off, l_whence = wh, l_len = len\<rparr> = None)"
proof -
  let ?l = "\<lparr>l_type = ty, l_start = off, l_whence = wh, l_len = len\<rparr>"
  show ?thesis
  proof (cases "region f ?l")
    case None
    then show ?thesis by (simp add: lock_test_def fcntl_getlk_def)
  next
    case (Some r)
    show ?thesis
    proof (cases "blockers p ty r tab")
      case Nil
      then show ?thesis using Some by (simp add: lock_test_def fcntl_getlk_def lock_reg_def fcntl_setlk_def)
    next
      case (Cons k ks)
      then have k: "k \<in> set (blockers p ty r tab)" by simp
      then have g: "0 < rl_pid k" "rl_type k \<noteq> F_UNLCK" using assms(2) by (auto simp: blockers_mem good_tab_def)
      then have "lock_test p f ty off wh len tab = ret (rl_pid k)"
        using Some Cons by (simp add: lock_test_def fcntl_getlk_def)
      moreover have "fst (lock_reg p f ty off wh len tab) = - 1" using Some Cons by (simp add: lock_reg_def fcntl_setlk_def)
      ultimately show ?thesis using rep_blockers(2) [OF assms(1) k] Some g by auto
    qed
  qed
qed

text \<open>A stronger lock has more in its way: where a process can have one, it can have each weaker one.\<close>

lemma clash_mono: "ty \<le> ty' \<Longrightarrow> clash ty k \<Longrightarrow> clash ty' k"
  by (cases ty; cases ty') (auto simp: clash_def less_eq_ltype_def)

lemma blockers_mono: "ty \<le> ty' \<Longrightarrow> set (blockers p ty r tab) \<subseteq> set (blockers p ty' r tab)"
  by (auto simp: blockers_mem intro: clash_mono)

lemma weaker_lock_granted:
  assumes "ty \<le> ty'" and "lock_reg p f ty' offset whence len tab = (0, tab')"
  shows "\<exists>tab''. lock_reg p f ty offset whence len tab = (0, tab'')"
proof -
  have "blockers p ty r tab = []" if "blockers p ty' r tab = []" for r
    using blockers_mono [OF assms(1), of p r tab] that by simp
  then show ?thesis using assms(2) by (simp add: lock_reg_def fcntl_setlk_def region_def Let_def split: option.splits if_splits)
qed



end
