(* ===== verification/Deadlock.thy ===== *)
theory Deadlock
  imports RecordLock
begin

section \<open>Two processes and a deadlock: \<^verbatim>\<open>lock/deadlock.c\<close>\<close>

text \<open>
  Each process locks its byte, tells the other one, waits for it, and locks the other's byte.  \<open>Lock n\<close> is before and \<open>Blocked n\<close> within the
  call of \<^verbatim>\<open>writew_lock\<close> for the \<open>n\<close>-th byte.  The system refuses to block a process when the one in its way is blocked by it
  (\<^verbatim>\<open>EDEADLK\<close>).  \<open>told w\<close> is a message to \<open>w\<close> that has not been waited for.  The locks of a process go when it exits.
\<close>

datatype who = Parent | Child

datatype dpc = Lock nat | Blocked nat | Tell | Wait | Got | Exited | Failed

record dlst =
  dtab :: "rlock list"
  dpcs :: "who \<Rightarrow> dpc"
  told :: "who \<Rightarrow> bool"
  dout :: "who \<Rightarrow> string list"

fun other :: "who \<Rightarrow> who" where
  "other Parent = Child"
| "other Child = Parent"

fun dpid :: "who \<Rightarrow> nat" where
  "dpid Parent = 1"
| "dpid Child = 2"

fun dname :: "who \<Rightarrow> string" where
  "dname Parent = ''parent''"
| "dname Child = ''child''"

fun dbyte :: "who \<Rightarrow> nat \<Rightarrow> nat" where
  "dbyte Parent n = (if n = 1 then 1 else 0)"
| "dbyte Child n = (if n = 1 then 0 else 1)"

definition in_way :: "who \<Rightarrow> nat \<Rightarrow> dlst \<Rightarrow> bool" where
  "in_way w n s \<longleftrightarrow> blockers (dpid w) F_WRLCK (dbyte w n, Some (Suc (dbyte w n))) (dtab s) \<noteq> []"

definition would_deadlock :: "who \<Rightarrow> dlst \<Rightarrow> bool" where
  "would_deadlock w s = (case dpcs s (other w) of Blocked m \<Rightarrow> in_way (other w) m s | _ \<Rightarrow> False)"

text \<open>\<^verbatim>\<open>lockabyte\<close> with the lock, the end of a process, and the failing \<^verbatim>\<open>lockabyte\<close>.\<close>

definition lockabyte :: "who \<Rightarrow> nat \<Rightarrow> dlst \<Rightarrow> dlst" where
  "lockabyte w n s = s\<lparr>dtab := set_lock (dpid w) F_WRLCK (dbyte w n, Some (Suc (dbyte w n))) (dtab s),
     dpcs := (dpcs s)(w := if n = 1 then Tell else Got),
     dout := (dout s)(w := dout s w @ [dname w @ '': got the lock, byte '' @ dec (dbyte w n)])\<rparr>"

definition dl_exit :: "who \<Rightarrow> dpc \<Rightarrow> dlst \<Rightarrow> dlst" where
  "dl_exit w c s = s\<lparr>dtab := set_lock (dpid w) F_UNLCK (0, None) (dtab s), dpcs := (dpcs s)(w := c)\<rparr>"

definition lock_fails :: "who \<Rightarrow> dlst \<Rightarrow> dlst" where
  "lock_fails w s = dl_exit w Failed (s\<lparr>dout := (dout s)(w := dout s w @ [dname w @ '': writew_lock error''])\<rparr>)"

inductive dl_step :: "dlst \<Rightarrow> dlst \<Rightarrow> bool" where
  dl_got: "dpcs s w = Lock n \<or> dpcs s w = Blocked n \<Longrightarrow> \<not> in_way w n s \<Longrightarrow> dl_step s (lockabyte w n s)"
| dl_block: "dpcs s w = Lock n \<Longrightarrow> in_way w n s \<Longrightarrow> \<not> would_deadlock w s \<Longrightarrow> dl_step s (s\<lparr>dpcs := (dpcs s)(w := Blocked n)\<rparr>)"
| dl_fail: "dpcs s w = Lock n \<Longrightarrow> in_way w n s \<Longrightarrow> would_deadlock w s \<Longrightarrow> dl_step s (lock_fails w s)"
| dl_tell: "dpcs s w = Tell \<Longrightarrow> dl_step s (s\<lparr>dpcs := (dpcs s)(w := Wait), told := (told s)(other w := True)\<rparr>)"
| dl_wait: "dpcs s w = Wait \<Longrightarrow> told s w \<Longrightarrow> dl_step s (s\<lparr>dpcs := (dpcs s)(w := Lock 2), told := (told s)(w := False)\<rparr>)"
| dl_end: "dpcs s w = Got \<Longrightarrow> dl_step s (dl_exit w Exited s)"

definition dl_start :: dlst where
  "dl_start = \<lparr>dtab = [], dpcs = \<lambda>_. Lock 1, told = \<lambda>_. False, dout = \<lambda>_. []\<rparr>"

text \<open>What a process holds and has printed is given by its place.\<close>

fun holds :: "who \<Rightarrow> dpc \<Rightarrow> nat set" where
  "holds w (Lock n) = (if n = 1 then {} else {dbyte w 1})"
| "holds w (Blocked n) = (if n = 1 then {} else {dbyte w 1})"
| "holds w Tell = {dbyte w 1}"
| "holds w Wait = {dbyte w 1}"
| "holds w Got = {dbyte w 1, dbyte w 2}"
| "holds w Exited = {}"
| "holds w Failed = {}"

definition got_line :: "who \<Rightarrow> nat \<Rightarrow> string" where
  "got_line w n = dname w @ '': got the lock, byte '' @ dec (dbyte w n)"

fun lines_of :: "who \<Rightarrow> dpc \<Rightarrow> string list" where
  "lines_of w (Lock n) = (if n = 1 then [] else [got_line w 1])"
| "lines_of w (Blocked n) = (if n = 1 then [] else [got_line w 1])"
| "lines_of w Tell = [got_line w 1]"
| "lines_of w Wait = [got_line w 1]"
| "lines_of w Got = [got_line w 1, got_line w 2]"
| "lines_of w Exited = [got_line w 1, got_line w 2]"
| "lines_of w Failed = [got_line w 1, dname w @ '': writew_lock error'']"

text \<open>The places that two processes can be at together; \<open>t\<close>: the first one has been told.\<close>

definition pair_ok :: "dpc \<Rightarrow> dpc \<Rightarrow> bool \<Rightarrow> bool" where
  "pair_ok c d t \<longleftrightarrow> c \<in> {Lock 1, Tell, Wait, Lock 2, Blocked 2, Got, Exited, Failed} \<and>
     (c = Blocked 2 \<longrightarrow> d \<in> {Wait, Lock 2, Failed}) \<and>
     (c \<in> {Got, Exited} \<longrightarrow> d = Failed) \<and>
     (c = Failed \<longrightarrow> d \<in> {Blocked 2, Got, Exited}) \<and>
     (c \<in> {Lock 2, Blocked 2, Got, Exited, Failed} \<longrightarrow> d \<notin> {Lock 1, Tell}) \<and>
     (t \<longleftrightarrow> c \<in> {Lock 1, Tell, Wait} \<and> d \<notin> {Lock 1, Tell})"

definition dl_inv :: "dlst \<Rightarrow> bool" where
  "dl_inv s \<longleftrightarrow> (\<forall>w b ty. locked (dtab s) (dpid w) b ty \<longleftrightarrow> ty = F_WRLCK \<and> b \<in> holds w (dpcs s w)) \<and>
     (\<forall>p b ty. locked (dtab s) p b ty \<longrightarrow> p = 1 \<or> p = 2) \<and>
     (\<forall>w. pair_ok (dpcs s w) (dpcs s (other w)) (told s w)) \<and> (\<forall>w. dout s w = lines_of w (dpcs s w))"

lemma other_other [simp]: "other (other w) = w" by (cases w) auto
lemma other_neq [simp]: "other w \<noteq> w" "w \<noteq> other w" by (cases w; simp)+
lemma dpid_eq [simp]: "dpid w = dpid v \<longleftrightarrow> w = v" by (cases w; cases v) auto
lemma who_cases: "v = w \<or> v = other w" by (cases v; cases w) auto

lemma dbyte_cross: "dbyte w n = dbyte (other w) m \<longleftrightarrow> (n = 1) \<noteq> (m = 1)" "dbyte w n = dbyte w m \<longleftrightarrow> (n = 1) = (m = 1)"
  by (cases w; auto)+

lemma dl_inv_locked: "dl_inv s \<Longrightarrow> locked (dtab s) (dpid w) b ty \<longleftrightarrow> ty = F_WRLCK \<and> b \<in> holds w (dpcs s w)"
  unfolding dl_inv_def by blast

lemma dl_inv_pid: "dl_inv s \<Longrightarrow> locked (dtab s) p b ty \<Longrightarrow> p = 1 \<or> p = 2"
  unfolding dl_inv_def by blast

lemma dl_inv_pair: "dl_inv s \<Longrightarrow> pair_ok (dpcs s w) (dpcs s (other w)) (told s w)"
  unfolding dl_inv_def by blast

lemma dl_inv_pair': "dl_inv s \<Longrightarrow> pair_ok (dpcs s (other w)) (dpcs s w) (told s (other w))"
  using dl_inv_pair [of s "other w"] by simp

lemma dl_inv_out: "dl_inv s \<Longrightarrow> dout s w = lines_of w (dpcs s w)"
  unfolding dl_inv_def by blast

lemmas dl_inv_facts = dl_inv_locked dl_inv_pair dl_inv_pair' dl_inv_out

lemma in_way_iff:
  assumes "dl_inv s"
  shows "in_way w n s \<longleftrightarrow> dbyte w n \<in> holds (other w) (dpcs s (other w))"
proof -
  have ov: "overlap (b, Some (Suc b)) r \<longleftrightarrow> in_range b r" for b r
    by (auto simp: overlap_iff in_range_def less_Suc_eq_le)
  have "in_way w n s \<longleftrightarrow> (\<exists>k. k \<in> set (blockers (dpid w) F_WRLCK (dbyte w n, Some (Suc (dbyte w n))) (dtab s)))"
    unfolding in_way_def by (metis list.set_intros(1) list.exhaust emptyE list.set(1))
  also have "\<dots> \<longleftrightarrow> (\<exists>q ty. q \<noteq> dpid w \<and> locked (dtab s) q (dbyte w n) ty)"
    by (auto simp: blockers_mem ov clash_def locked_def)
  also have "\<dots> \<longleftrightarrow> (\<exists>ty. locked (dtab s) (dpid (other w)) (dbyte w n) ty)"
  proof
    assume "\<exists>q ty. q \<noteq> dpid w \<and> locked (dtab s) q (dbyte w n) ty"
    then obtain q ty where q: "q \<noteq> dpid w" "locked (dtab s) q (dbyte w n) ty" by blast
    then have "q = 1 \<or> q = 2" using dl_inv_pid [OF assms] by blast
    then have "q = dpid (other w)" using q(1) by (cases w) auto
    then show "\<exists>ty. locked (dtab s) (dpid (other w)) (dbyte w n) ty" using q(2) by blast
  qed (metis dpid_eq other_neq(1))
  finally show ?thesis using dl_inv_locked [OF assms] by simp
qed

lemma dl_inv_move:
  assumes "dl_inv s" and "dpcs s' = (dpcs s)(w := c)" and "dout s' = (dout s)(w := lines_of w c)"
    and "\<forall>b ty. locked (dtab s') (dpid w) b ty \<longleftrightarrow> ty = F_WRLCK \<and> b \<in> holds w c"
    and "\<forall>p b ty. p \<noteq> dpid w \<longrightarrow> locked (dtab s') p b ty = locked (dtab s) p b ty"
    and "pair_ok c (dpcs s (other w)) (told s' w)" and "pair_ok (dpcs s (other w)) c (told s' (other w))"
  shows "dl_inv s'"
proof -
  note i = dl_inv_facts [OF assms(1)]
  have a: "locked (dtab s') (dpid v) b ty \<longleftrightarrow> ty = F_WRLCK \<and> b \<in> holds v (dpcs s' v)" for v b ty
    using i assms(2,4,5) by (cases "v = w") auto
  have b: "p = 1 \<or> p = 2" if "locked (dtab s') p b ty" for p b ty
  proof (cases "p = dpid w")
    case True
    then show ?thesis by (cases w) auto
  next
    case False
    then show ?thesis using dl_inv_pid [OF assms(1)] assms(5) that by blast
  qed
  have c: "pair_ok (dpcs s' v) (dpcs s' (other v)) (told s' v)" for v
    using who_cases [of v w] assms(2,6,7) by auto
  have "dout s' v = lines_of v (dpcs s' v)" for v using i assms(2,3) by simp
  then show ?thesis unfolding dl_inv_def using a b c by blast
qed

lemma in_range_byte: "in_range b (x, Some (Suc x)) \<longleftrightarrow> b = x" "in_range b (0, None)"
  by (auto simp: in_range_def)

text \<open>The pairs of places, step by step.\<close>

lemma pair_places: "pair_ok c d t \<Longrightarrow> c \<in> {Lock 1, Tell, Wait, Lock 2, Blocked 2, Got, Exited, Failed}"
  unfolding pair_ok_def by (rule conjunct1)

lemma pair_steps:
  "pair_ok (Lock 1) d t \<Longrightarrow> pair_ok d (Lock 1) u \<Longrightarrow> pair_ok Tell d t \<and> pair_ok d Tell u"
  "pair_ok Tell d t \<Longrightarrow> pair_ok d Tell u \<Longrightarrow> pair_ok Wait d t \<and> pair_ok d Wait True"
  "pair_ok Wait d True \<Longrightarrow> pair_ok d Wait u \<Longrightarrow> pair_ok (Lock 2) d False \<and> pair_ok d (Lock 2) u"
  "pair_ok c Failed t \<Longrightarrow> pair_ok Failed c u \<Longrightarrow> pair_ok Got Failed t \<and> pair_ok Failed Got u"
  "pair_ok (Lock 2) (Blocked 2) t \<Longrightarrow> pair_ok (Blocked 2) (Lock 2) u \<Longrightarrow> pair_ok Failed (Blocked 2) t \<and> pair_ok (Blocked 2) Failed u"
  "pair_ok (Lock 2) d t \<Longrightarrow> pair_ok d (Lock 2) u \<Longrightarrow> d \<in> {Wait, Lock 2} \<Longrightarrow> pair_ok (Blocked 2) d t \<and> pair_ok d (Blocked 2) u"
  "pair_ok Got d t \<Longrightarrow> pair_ok d Got u \<Longrightarrow> pair_ok Exited d t \<and> pair_ok d Exited u"
  by (auto simp: pair_ok_def)

lemma pair_second:
  assumes "pair_ok c d t" and "pair_ok d c u" and "c = Lock 2 \<or> c = Blocked 2"
  shows "d \<in> {Wait, Lock 2, Blocked 2, Failed}"
  using assms(3)
proof
  assume "c = Lock 2"
  then show ?thesis using assms(1,2) by (auto simp: pair_ok_def)
next
  assume "c = Blocked 2"
  then show ?thesis using assms(1,2) by (auto simp: pair_ok_def)
qed

lemma pair_ends:
  "pair_ok Failed d t \<Longrightarrow> d \<in> {Blocked 2, Got, Exited}"
  "pair_ok Got d t \<Longrightarrow> d = Failed"
  "pair_ok Exited d t \<Longrightarrow> d = Failed"
  "pair_ok (Blocked 2) d t \<Longrightarrow> d \<in> {Wait, Lock 2, Failed}"
  by (auto simp: pair_ok_def)

lemma holds_both: "pair_ok c d t \<Longrightarrow> pair_ok d c u \<Longrightarrow> \<not> (b \<in> holds Parent c \<and> b \<in> holds Child d)"
  by (cases c; cases d) (auto simp: pair_ok_def split: if_splits)

lemma pair_first: "pair_ok d (Lock 1) t \<Longrightarrow> d \<noteq> Got"
  by (auto simp: pair_ok_def)

lemma holds_cross:
  "dbyte w 2 \<in> holds (other w) d \<longleftrightarrow> d \<noteq> Lock 1 \<and> d \<noteq> Blocked 1 \<and> d \<noteq> Exited \<and> d \<noteq> Failed"
  "dbyte w 1 \<in> holds (other w) d \<longleftrightarrow> d = Got"
  by (cases d; cases w; simp)+

lemma second_failed: "d \<in> {Wait, Lock 2, Blocked 2, Failed} \<Longrightarrow> dbyte w 2 \<notin> holds (other w) d \<Longrightarrow> d = Failed"
  by (auto simp: holds_cross)

lemma second_waits: "d \<in> {Wait, Lock 2, Blocked 2, Failed} \<Longrightarrow> dbyte w 2 \<in> holds (other w) d \<Longrightarrow> d \<noteq> Blocked 2 \<Longrightarrow> d \<in> {Wait, Lock 2}"
  by (auto simp: holds_cross)

text \<open>The place of a process at a call of \<^verbatim>\<open>lockabyte\<close>.\<close>

lemma lock_place:
  assumes "dl_inv s" and "dpcs s w = Lock n \<or> dpcs s w = Blocked n"
  shows "n = 1 \<and> dpcs s w = Lock 1 \<or> n = 2 \<and> (dpcs s w = Lock 2 \<or> dpcs s w = Blocked 2)"
proof -
  have "Lock n \<in> {Lock 1, Tell, Wait, Lock 2, Blocked 2, Got, Exited, Failed} \<Longrightarrow> n = 1 \<or> n = 2"
    "Blocked n \<in> {Lock 1, Tell, Wait, Lock 2, Blocked 2, Got, Exited, Failed} \<Longrightarrow> n = 2" by auto
  then show ?thesis using assms(2) pair_places [OF dl_inv_pair [OF assms(1)], of w] by metis
qed

lemma dl_inv_got:
  assumes i: "dl_inv s" and c: "dpcs s w = Lock n \<or> dpcs s w = Blocked n" and f: "\<not> in_way w n s"
  shows "dl_inv (lockabyte w n s)"
proof -
  let ?c = "if n = 1 then Tell else Got" let ?d = "dpcs s (other w)"
  note p = dl_inv_pair [OF i, of w] dl_inv_pair' [OF i, of w]
  have h: "dbyte w n \<notin> holds (other w) ?d" using f in_way_iff [OF i] by simp
  have pl: "n = 1 \<and> dpcs s w = Lock 1 \<or> n = 2 \<and> (dpcs s w = Lock 2 \<or> dpcs s w = Blocked 2)" by (rule lock_place [OF i c])
  have pairs: "pair_ok ?c ?d (told s w) \<and> pair_ok ?d ?c (told s (other w))"
  proof (cases "n = 1")
    case True
    then have "dpcs s w = Lock 1" using pl by simp
    from p [unfolded this] show ?thesis using pair_steps(1) True by simp
  next
    case False
    then have n: "n = 2" "dpcs s w = Lock 2 \<or> dpcs s w = Blocked 2" using pl by simp_all
    have "?d = Failed" by (rule second_failed [OF pair_second [OF p n(2)]]) (use h n(1) in simp)
    from p [unfolded this] show ?thesis using pair_steps(4) n(1) \<open>?d = Failed\<close> by simp
  qed
  have held: "holds w ?c = insert (dbyte w n) (holds w (dpcs s w))" using pl by auto
  have out: "lines_of w ?c = lines_of w (dpcs s w) @ [got_line w n]" using pl by auto
  show ?thesis
  proof (rule dl_inv_move [OF i, where w = w and c = ?c])
    show "dout (lockabyte w n s) = (dout s)(w := lines_of w ?c)"
      unfolding out by (simp add: lockabyte_def dl_inv_out [OF i] got_line_def)
    show "\<forall>b ty. locked (dtab (lockabyte w n s)) (dpid w) b ty \<longleftrightarrow> ty = F_WRLCK \<and> b \<in> holds w ?c"
      unfolding held by (auto simp: lockabyte_def locked_set_lock in_range_byte dl_inv_locked [OF i])
  qed (use pairs in \<open>simp_all add: lockabyte_def locked_set_lock\<close>)
qed

lemma dl_inv_block:
  assumes i: "dl_inv s" and c: "dpcs s w = Lock n" and f: "in_way w n s" and d: "\<not> would_deadlock w s"
  shows "dl_inv (s\<lparr>dpcs := (dpcs s)(w := Blocked n)\<rparr>)" and "n = 2"
proof -
  let ?d = "dpcs s (other w)"
  note p = dl_inv_pair [OF i, of w] dl_inv_pair' [OF i, of w]
  have h: "dbyte w n \<in> holds (other w) ?d" using f in_way_iff [OF i] by simp
  have pl: "n = 1 \<and> dpcs s w = Lock 1 \<or> n = 2 \<and> (dpcs s w = Lock 2 \<or> dpcs s w = Blocked 2)" using lock_place [OF i] c by blast
  show n: "n = 2" using pl h holds_cross(2) pair_first p(2) by metis
  then have c2: "dpcs s w = Lock 2" using c by simp
  have ne: "?d \<noteq> Blocked 2"
  proof
    assume b: "?d = Blocked 2"
    have "dbyte (other w) 2 \<in> holds w (dpcs s w)" using holds_cross(1) [of "other w" "dpcs s w"] c2 by simp
    then have "in_way (other w) 2 s" using in_way_iff [OF i, of "other w" 2] by simp
    then show False using d b by (simp add: would_deadlock_def)
  qed
  have "?d \<in> {Wait, Lock 2}" by (rule second_waits [OF pair_second [OF p disjI1 [OF c2]] _ ne]) (use h n in simp)
  with p [unfolded c2] have pairs: "pair_ok (Blocked 2) ?d (told s w) \<and> pair_ok ?d (Blocked 2) (told s (other w))" by (rule pair_steps(6))
  show "dl_inv (s\<lparr>dpcs := (dpcs s)(w := Blocked n)\<rparr>)"
    by (rule dl_inv_move [OF i, where w = w and c = "Blocked n"]) (use pairs n c2 dl_inv_facts [OF i, of w] in \<open>simp_all add: fun_upd_idem\<close>)
qed

lemma dl_inv_exit:
  assumes i: "dl_inv s" and p: "pair_ok c (dpcs s (other w)) (told s w)" "pair_ok (dpcs s (other w)) c (told s (other w))"
    and h: "holds w c = {}" and o: "l = lines_of w c"
  shows "dl_inv (dl_exit w c (s\<lparr>dout := (dout s)(w := l)\<rparr>))"
  by (rule dl_inv_move [OF i, where w = w and c = c])
    (use p h o in \<open>simp_all add: dl_exit_def locked_set_lock in_range_byte\<close>)

lemma dl_inv_step:
  assumes "dl_step s s'" and i: "dl_inv s"
  shows "dl_inv s'"
  using assms(1)
proof cases
  case (dl_got w n)
  then show ?thesis using dl_inv_got [OF i] by simp
next
  case (dl_block w n)
  then show ?thesis using dl_inv_block [OF i] by simp
next
  case (dl_fail w n)
  obtain m where m: "dpcs s (other w) = Blocked m" using dl_fail(4) by (cases "dpcs s (other w)") (auto simp: would_deadlock_def)
  have "m = 2" using lock_place [OF i, of "other w" m] m by simp
  then have b: "dpcs s (other w) = Blocked 2" using m by simp
  have "dpcs s w \<noteq> Lock 1" using dl_inv_pair' [OF i, of w] b by (auto simp: pair_ok_def)
  then have c: "dpcs s w = Lock 2" using lock_place [OF i, of w n] dl_fail(2) by auto
  have p: "pair_ok (Lock 2) (Blocked 2) (told s w)" "pair_ok (Blocked 2) (Lock 2) (told s (other w))"
    using dl_inv_pair [OF i, of w] dl_inv_pair' [OF i, of w] by (simp_all only: b c)
  have "dl_inv (dl_exit w Failed (s\<lparr>dout := (dout s)(w := dout s w @ [dname w @ '': writew_lock error''])\<rparr>))"
    by (rule dl_inv_exit [OF i]) (use pair_steps(5) [OF p] b c dl_inv_out [OF i, of w] in simp_all)
  then show ?thesis using dl_fail(1) by (simp add: lock_fails_def)
next
  case (dl_tell w)
  have p: "pair_ok Tell (dpcs s (other w)) (told s w)" "pair_ok (dpcs s (other w)) Tell (told s (other w))"
    using dl_inv_pair [OF i, of w] dl_inv_pair' [OF i, of w] by (simp_all only: dl_tell(2))
  show ?thesis unfolding dl_tell(1)
    by (rule dl_inv_move [OF i, where w = w and c = Wait]) (use pair_steps(2) [OF p] dl_tell(2) dl_inv_facts [OF i, of w] in \<open>simp_all add: fun_upd_idem\<close>)
next
  case (dl_wait w)
  have p: "pair_ok Wait (dpcs s (other w)) True" "pair_ok (dpcs s (other w)) Wait (told s (other w))"
    using dl_inv_pair [OF i, of w] dl_inv_pair' [OF i, of w] dl_wait(3) by (simp_all add: dl_wait(2))
  show ?thesis unfolding dl_wait(1)
    by (rule dl_inv_move [OF i, where w = w and c = "Lock 2"]) (use pair_steps(3) [OF p] dl_wait(2) dl_inv_facts [OF i, of w] in \<open>simp_all add: fun_upd_idem\<close>)
next
  case (dl_end w)
  have p: "pair_ok Got (dpcs s (other w)) (told s w)" "pair_ok (dpcs s (other w)) Got (told s (other w))"
    using dl_inv_pair [OF i, of w] dl_inv_pair' [OF i, of w] by (simp_all only: dl_end(2))
  have "dl_inv (dl_exit w Exited (s\<lparr>dout := (dout s)(w := dout s w)\<rparr>))"
    by (rule dl_inv_exit [OF i]) (use pair_steps(7) [OF p] dl_end(2) dl_inv_out [OF i, of w] in simp_all)
  then show ?thesis using dl_end(1) by simp
qed

lemma dl_inv_start: "dl_inv dl_start"
  by (auto simp: dl_inv_def dl_start_def locked_def pair_ok_def)

lemma dl_inv_reach: "dl_step\<^sup>*\<^sup>* dl_start s \<Longrightarrow> dl_inv s"
  by (induction rule: rtranclp_induct) (auto intro: dl_inv_start dl_inv_step)

text \<open>Each step brings its process nearer to its end.\<close>

fun place_rank :: "dpc \<Rightarrow> nat" where
  "place_rank (Lock n) = (if n = 1 then 7 else 3)"
| "place_rank (Blocked n) = (if n = 1 then 6 else 2)"
| "place_rank Tell = 5"
| "place_rank Wait = 4"
| "place_rank Got = 1"
| "place_rank Exited = 0"
| "place_rank Failed = 0"

definition dl_rank :: "dlst \<Rightarrow> nat" where
  "dl_rank s = place_rank (dpcs s Parent) + place_rank (dpcs s Child)"

lemma dl_rank_less: "dpcs s' = (dpcs s)(w := c) \<Longrightarrow> place_rank c < place_rank (dpcs s w) \<Longrightarrow> dl_rank s' < dl_rank s"
  by (cases w) (auto simp: dl_rank_def)

lemma dl_step_rank:
  assumes "dl_step s s'"
  shows "dl_rank s' < dl_rank s"
  using assms
proof cases
  case (dl_got w n)
  then show ?thesis
    by (intro dl_rank_less [where w = w and c = "if n = 1 then Tell else Got"]) (auto simp: lockabyte_def)
next
  case (dl_block w n)
  then show ?thesis by (intro dl_rank_less [where w = w and c = "Blocked n"]) auto
next
  case (dl_fail w n)
  then show ?thesis by (intro dl_rank_less [where w = w and c = Failed]) (auto simp: lock_fails_def dl_exit_def)
next
  case (dl_tell w)
  then show ?thesis by (intro dl_rank_less [where w = w and c = Wait]) auto
next
  case (dl_wait w)
  then show ?thesis by (intro dl_rank_less [where w = w and c = "Lock 2"]) auto
next
  case (dl_end w)
  then show ?thesis by (intro dl_rank_less [where w = w and c = Exited]) (auto simp: dl_exit_def)
qed

lemma dl_steps_rank: "(dl_step ^^ n) s s' \<Longrightarrow> n + dl_rank s' \<le> dl_rank s"
proof (induction n arbitrary: s')
  case (Suc n)
  then obtain u where "(dl_step ^^ n) s u" "dl_step u s'" by auto
  then show ?case using Suc.IH [of u] dl_step_rank [of u s'] by simp
qed simp

text \<open>Nothing can go on only when both are at their end.\<close>

lemma dl_stuck_place:
  assumes i: "dl_inv s" and stuck: "\<nexists>s'. dl_step s s'"
  shows "dpcs s w \<in> {Blocked 2, Exited, Failed}"
proof -
  have "\<nexists>n. dpcs s w = Lock n"
    using stuck dl_step.dl_got [of s w] dl_step.dl_block [of s w] dl_step.dl_fail [of s w] by blast
  moreover have "dpcs s w \<noteq> Tell" "dpcs s w \<noteq> Got" using stuck dl_step.dl_tell [of s w] dl_step.dl_end [of s w] by blast+
  moreover have "\<nexists>n. dpcs s v = Lock n" "dpcs s v \<noteq> Tell" for v
    using stuck dl_step.dl_got [of s v] dl_step.dl_block [of s v] dl_step.dl_fail [of s v] dl_step.dl_tell [of s v] by blast+
  then have "dpcs s w \<noteq> Wait"
    using stuck dl_step.dl_wait [of s w] dl_inv_pair [OF i, of w] unfolding pair_ok_def by blast
  ultimately show ?thesis using pair_places [OF dl_inv_pair [OF i, of w]] by blast
qed

lemma dl_stuck_end:
  assumes i: "dl_inv s" and stuck: "\<nexists>s'. dl_step s s'"
  shows "\<exists>w. dpcs s w = Failed \<and> dpcs s (other w) = Exited"
proof -
  have nb: "dpcs s w \<noteq> Blocked 2" for w
  proof
    assume b: "dpcs s w = Blocked 2"
    have "dpcs s (other w) \<in> {Wait, Lock 2, Failed}" using pair_ends(4) dl_inv_pair [OF i, of w] b by metis
    then have "dpcs s (other w) = Failed" using dl_stuck_place [OF assms, of "other w"] by auto
    then have "\<not> in_way w 2 s" by (simp add: in_way_iff [OF i])
    then show False using stuck dl_step.dl_got [of s w 2] b by blast
  qed
  have e: "dpcs s w = Exited \<or> dpcs s w = Failed" for w using dl_stuck_place [OF assms, of w] nb [of w] by blast
  have x: "dpcs s w = Exited \<Longrightarrow> dpcs s (other w) = Failed" for w using pair_ends(3) dl_inv_pair [OF i, of w] by metis
  have y: "dpcs s w = Failed \<Longrightarrow> dpcs s (other w) \<noteq> Failed" for w using pair_ends(1) dl_inv_pair [OF i, of w] by fastforce
  show ?thesis using e [of Parent] e [of Child] x [of Parent] y [of Parent] by (metis other.simps)
qed

text \<open>
  C39: in every interleaving of the two processes: they never hold the same byte; at most one of them is refused with
  \<^verbatim>\<open>EDEADLK\<close>, after at most fourteen steps nothing is left to do, and then exactly one was refused, after its first lock, and the other
  one has got both of its locks.
\<close>

theorem deadlock_detected:
  assumes "dl_step\<^sup>*\<^sup>* dl_start s"
  shows "\<not> (locked (dtab s) 1 b F_WRLCK \<and> locked (dtab s) 2 b F_WRLCK) \<and>
    (dpcs s w = Failed \<longrightarrow> dpcs s (other w) \<in> {Blocked 2, Got, Exited}) \<and>
    ((dl_step ^^ n) dl_start s' \<longrightarrow> n \<le> 14) \<and>
    ((\<nexists>s'. dl_step s s') \<longrightarrow> (\<exists>w. dpcs s w = Failed \<and> dpcs s (other w) = Exited \<and>
       dout s w = [got_line w 1, dname w @ '': writew_lock error''] \<and> dout s (other w) = [got_line (other w) 1, got_line (other w) 2]))"
proof -
  have i: "dl_inv s" by (rule dl_inv_reach [OF assms])
  have ends: "\<exists>w. dpcs s w = Failed \<and> dpcs s (other w) = Exited \<and>
       dout s w = [got_line w 1, dname w @ '': writew_lock error''] \<and> dout s (other w) = [got_line (other w) 1, got_line (other w) 2]"
    if "\<nexists>s'. dl_step s s'"
    using dl_stuck_end [OF i that] dl_inv_out [OF i] by (metis lines_of.simps(6,7))
  have pairs: "dpcs s w = Failed \<Longrightarrow> dpcs s (other w) \<in> {Blocked 2, Got, Exited}"
    using pair_ends(1) dl_inv_pair [OF i, of w] by metis
  have "\<not> (b \<in> holds Parent (dpcs s Parent) \<and> b \<in> holds Child (dpcs s Child))"
    by (rule holds_both) (use dl_inv_pair [OF i, of Parent] dl_inv_pair [OF i, of Child] in simp_all)
  then have "\<not> (locked (dtab s) 1 b F_WRLCK \<and> locked (dtab s) 2 b F_WRLCK)"
    using dl_inv_locked [OF i, of Parent] dl_inv_locked [OF i, of Child] by simp
  moreover have "(dl_step ^^ n) dl_start s' \<longrightarrow> n \<le> 14"
    using dl_steps_rank [of n dl_start s'] by (auto simp: dl_rank_def dl_start_def)
  ultimately show ?thesis using ends pairs by blast
qed

lemma dl_reaches_end: "\<exists>s'. dl_step\<^sup>*\<^sup>* s s' \<and> (\<nexists>u. dl_step s' u)"
proof (induction "dl_rank s" arbitrary: s rule: less_induct)
  case less
  show ?case
  proof (cases "\<exists>u. dl_step s u")
    case True
    then obtain u where u: "dl_step s u" by blast
    then obtain s' where "dl_step\<^sup>*\<^sup>* u s'" "\<nexists>v. dl_step s' v" using less [OF dl_step_rank] by blast
    then show ?thesis using u by (meson converse_rtranclp_into_rtranclp)
  qed blast
qed

theorem deadlock_detected_witness:
  "\<exists>s w. dl_step\<^sup>*\<^sup>* dl_start s \<and> dpcs s w = Failed \<and> dpcs s (other w) = Exited \<and> \<not> (locked (dtab s) 1 0 F_WRLCK \<and> locked (dtab s) 2 0 F_WRLCK)"
proof -
  obtain s where s: "dl_step\<^sup>*\<^sup>* dl_start s" "\<nexists>u. dl_step s u" using dl_reaches_end by blast
  show ?thesis using deadlock_detected [OF s(1), where b = 0 and w = Parent and n = 0 and s' = s] s by blast
qed

end
