(* ===== verification/Conf.thy ===== *)
theory Conf
  imports CText
begin

section \<open>Limits and options of the system: \<^verbatim>\<open>std/conf.c\<close> and \<^verbatim>\<open>std/options.c\<close>\<close>

text \<open>
  Both programs ask for each symbol of a table whether it is defined at compile time, and what \<^verbatim>\<open>sysconf\<close> or
  \<^verbatim>\<open>pathconf\<close> says.  The system is a parameter: the macros with their values, and the answers, with the value that \<^verbatim>\<open>errno\<close> has after a
  call that was made with 0 in it.
\<close>

record confsys =
  defd :: "string \<Rightarrow> int option"
  sys_conf :: "string \<Rightarrow> int \<times> nat"
  path_conf :: "string \<Rightarrow> string \<Rightarrow> int \<times> nat"

datatype confcall = SC | PC

type_synonym item = "string \<times> confcall \<times> string"

text \<open>A piece of a program's run: what it has printed, and how the program ended in it, if it did.\<close>

type_synonym piece = "string \<times> fatal option"

definition EINVAL :: nat where "EINVAL = 22"

fun then_piece :: "piece \<Rightarrow> piece \<Rightarrow> piece" where
  "then_piece (a, Some f) p = (a, Some f)"
| "then_piece (a, None) (b, r) = (a @ b, r)"

definition pr_answer :: "string \<Rightarrow> int \<times> nat \<Rightarrow> string \<Rightarrow> piece" where
  "pr_answer mesg answer err = (case answer of (val, errno) \<Rightarrow>
     if val < 0 then
       (if errno \<noteq> 0 then (if errno = EINVAL then (mesg @ '' (not supported)'' @ [newline], None) else (mesg, Some (ErrSys err)))
        else (mesg @ '' (no limit)'' @ [newline], None))
     else (mesg @ '' '' @ dec (nat val) @ [newline], None))"

definition pr_sysconf :: "confsys \<Rightarrow> string \<Rightarrow> string \<Rightarrow> piece" where
  "pr_sysconf s mesg name = pr_answer mesg (sys_conf s name) ''sysconf error''"

definition pr_pathconf :: "confsys \<Rightarrow> string \<Rightarrow> string \<Rightarrow> string \<Rightarrow> piece" where
  "pr_pathconf s mesg path name = pr_answer mesg (path_conf s path name) (''pathconf error, path = '' @ path)"

text \<open>The preprocessor reads a macro's name up to the comment.\<close>

definition macro :: "string \<Rightarrow> string" where
  "macro nm = takeWhile (\<lambda>c. c \<noteq> space) nm"

text \<open>One symbol of \<^verbatim>\<open>conf.c\<close>, and one of \<^verbatim>\<open>options.c\<close>.\<close>

definition conf_item :: "confsys \<Rightarrow> string \<Rightarrow> item \<Rightarrow> piece" where
  "conf_item s dir it = (case it of (nm, k, sy) \<Rightarrow> then_piece
     (case defd s (macro nm) of
        Some v \<Rightarrow> (nm @ '' defined to be '' @ show_int v @ [newline], None)
      | None \<Rightarrow> (''no symbol for '' @ nm @ [newline], None))
     (case defd s sy of
        Some _ \<Rightarrow> (case k of SC \<Rightarrow> pr_sysconf s (nm @ '' ='') sy | PC \<Rightarrow> pr_pathconf s (nm @ '' ='') dir sy)
      | None \<Rightarrow> (''no symbol for '' @ sy @ [newline], None)))"

definition opt_item :: "confsys \<Rightarrow> string \<Rightarrow> item \<Rightarrow> piece" where
  "opt_item s dir it = (case it of (nm, k, sy) \<Rightarrow> then_piece
     (case defd s (macro nm) of
        Some v \<Rightarrow> (nm @ '' is defined (val is '' @ show_int v @ '')'' @ [newline], None)
      | None \<Rightarrow> (nm @ '' is undefined'' @ [newline], None))
     (then_piece
       (case defd s sy of
          Some _ \<Rightarrow> (case k of SC \<Rightarrow> pr_sysconf s (''sysconf says '' @ nm @ '' ='') sy
                            | PC \<Rightarrow> pr_pathconf s (''pathconf says '' @ nm @ '' ='') dir sy)
        | None \<Rightarrow> (''no symbol for '' @ nm @ [newline], None))
       ([newline], None)))"

fun items_out :: "(item \<Rightarrow> piece) \<Rightarrow> item list \<Rightarrow> piece" where
  "items_out f [] = ([], None)"
| "items_out f (it # its) = then_piece (f it) (items_out f its)"

subsection \<open>The tables\<close>

definition conf_items1 :: "item list" where
  "conf_items1 = [
    (''ARG_MAX'', SC, ''_SC_ARG_MAX''),
    (''ATEXIT_MAX'', SC, ''_SC_ATEXIT_MAX''),
    (''CHARCLASS_NAME_MAX'', SC, ''_SC_CHARCLASS_NAME_MAX''),
    (''CHILD_MAX'', SC, ''_SC_CHILD_MAX''),
    (''CLOCKTICKSPERSECOND /*clock ticks/second*/'', SC, ''_SC_CLK_TCK''),
    (''COLL_WEIGHTS_MAX'', SC, ''_SC_COLL_WEIGHTS_MAX''),
    (''HOST_NAME_MAX'', SC, ''_SC_HOST_NAME_MAX''),
    (''IOV_MAX'', SC, ''_SC_IOV_MAX''),
    (''LINE_MAX'', SC, ''_SC_LINE_MAX''),
    (''LOGIN_NAME_MAX'', SC, ''_SC_LOGIN_NAME_MAX''),
    (''NGROUPS_MAX'', SC, ''_SC_NGROUPS_MAX''),
    (''OPEN_MAX'', SC, ''_SC_OPEN_MAX''),
    (''PAGESIZE'', SC, ''_SC_PAGESIZE''),
    (''PAGE_SIZE'', SC, ''_SC_PAGE_SIZE''),
    (''RE_DUP_MAX'', SC, ''_SC_RE_DUP_MAX'')]"

definition conf_items2 :: "item list" where
  "conf_items2 = [
    (''STREAM_MAX'', SC, ''_SC_STREAM_MAX''),
    (''SYMLOOP_MAX'', SC, ''_SC_SYMLOOP_MAX''),
    (''TTY_NAME_MAX'', SC, ''_SC_TTY_NAME_MAX''),
    (''TZNAME_MAX'', SC, ''_SC_TZNAME_MAX''),
    (''MAX_CANON'', PC, ''_PC_MAX_CANON''),
    (''MAX_INPUT'', PC, ''_PC_MAX_INPUT''),
    (''FILESIZEBITS'', PC, ''_PC_FILESIZEBITS''),
    (''LINK_MAX'', PC, ''_PC_LINK_MAX''),
    (''NAME_MAX'', PC, ''_PC_NAME_MAX''),
    (''PATH_MAX'', PC, ''_PC_PATH_MAX''),
    (''PIPE_BUF'', PC, ''_PC_PIPE_BUF''),
    (''SYMLINK_MAX'', PC, ''_PC_SYMLINK_MAX'')]"

definition opt_items1 :: "item list" where
  "opt_items1 = [
    (''_POSIX_ADVISORY_INFO'', SC, ''_SC_ADVISORY_INFO''),
    (''_POSIX_ASYNCHRONOUS_IO'', SC, ''_SC_ASYNCHRONOUS_IO''),
    (''_POSIX_BARRIERS'', SC, ''_SC_BARRIERS''),
    (''_POSIX_CPUTIME'', SC, ''_SC_CPUTIME''),
    (''_POSIX_CLOCK_SELECTION'', SC, ''_SC_CLOCK_SELECTION''),
    (''_POSIX_FSYNC'', SC, ''_SC_FSYNC''),
    (''_POSIX_IPV6'', SC, ''_SC_IPV6''),
    (''_POSIX_MAPPED_FILES'', SC, ''_SC_MAPPED_FILES''),
    (''_POSIX_MEMLOCK'', SC, ''_SC_MEMLOCK''),
    (''_POSIX_MEMLOCK_RANGE'', SC, ''_SC_MEMLOCK_RANGE''),
    (''_POSIX_MONOTONIC_CLOCK'', SC, ''_SC_MONOTONIC_CLOCK''),
    (''_POSIX_MEMORY_PROTECTION'', SC, ''_SC_MEMORY_PROTECTION''),
    (''_POSIX_MESSAGE_PASSING'', SC, ''_SC_MESSAGE_PASSING'')]"

definition opt_items2 :: "item list" where
  "opt_items2 = [
    (''_POSIX_PRIORITIZED_IO'', SC, ''_SC_PRIORITIZED_IO''),
    (''_POSIX_PRIORITIZED_SCHEDULING'', SC, ''_SC_PRIORITIZED_SCHEDULING''),
    (''_POSIX_RAW_SOCKETS'', SC, ''_SC_RAW_SOCKETS''),
    (''_POSIX_REALTIME_SIGNALS'', SC, ''_SC_REALTIME_SIGNALS''),
    (''_POSIX_SEMAPHORES'', SC, ''_SC_SEMAPHORES''),
    (''_POSIX_SHARED_MEMORY_OBJECTS'', SC, ''_SC_SHARED_MEMORY_OBJECTS''),
    (''_POSIX_SYNCHRONIZED_IO'', SC, ''_SC_SYNCHRONIZED_IO''),
    (''_POSIX_SPIN_LOCKS'', SC, ''_SC_SPIN_LOCKS''),
    (''_POSIX_SPAWN'', SC, ''_SC_SPAWN''),
    (''_POSIX_SPORADIC_SERVER'', SC, ''_SC_SPORADIC_SERVER''),
    (''_POSIX_THREAD_CPUTIME'', SC, ''_SC_THREAD_CPUTIME''),
    (''_POSIX_TRACE_EVENT_FILTER'', SC, ''_SC_TRACE_EVENT_FILTER''),
    (''_POSIX_THREADS'', SC, ''_SC_THREADS'')]"

definition opt_items3 :: "item list" where
  "opt_items3 = [
    (''_POSIX_TIMEOUTS'', SC, ''_SC_TIMEOUTS''),
    (''_POSIX_TIMERS'', SC, ''_SC_TIMERS''),
    (''_POSIX_THREAD_PRIO_INHERIT'', SC, ''_SC_THREAD_PRIO_INHERIT''),
    (''_POSIX_THREAD_PRIO_PROTECT'', SC, ''_SC_THREAD_PRIO_PROTECT''),
    (''_POSIX_THREAD_PRIORITY_SCHEDULING'', SC, ''_SC_THREAD_PRIORITY_SCHEDULING''),
    (''_POSIX_TRACE'', SC, ''_SC_TRACE''),
    (''_POSIX_TRACE_INHERIT'', SC, ''_SC_TRACE_INHERIT''),
    (''_POSIX_TRACE_LOG'', SC, ''_SC_TRACE_LOG''),
    (''_POSIX_THREAD_ATTR_STACKADDR'', SC, ''_SC_THREAD_ATTR_STACKADDR''),
    (''_POSIX_THREAD_SAFE_FUNCTIONS'', SC, ''_SC_THREAD_SAFE_FUNCTIONS''),
    (''_POSIX_THREAD_PROCESS_SHARED'', SC, ''_SC_THREAD_PROCESS_SHARED''),
    (''_POSIX_THREAD_SPORADIC_SERVER'', SC, ''_SC_THREAD_SPORADIC_SERVER''),
    (''_POSIX_THREAD_ATTR_STACKSIZE'', SC, ''_SC_THREAD_ATTR_STACKSIZE'')]"

definition opt_items4 :: "item list" where
  "opt_items4 = [
    (''_POSIX_TYPED_MEMORY_OBJECTS'', SC, ''_SC_TYPED_MEMORY_OBJECTS''),
    (''_XOPEN_UNIX'', SC, ''_SC_XOPEN_UNIX''),
    (''_XOPEN_STREAMS'', SC, ''_SC_XOPEN_STREAMS''),
    (''_XOPEN_CRYPT'', SC, ''_SC_XOPEN_CRYPT''),
    (''_XOPEN_LEGACY'', SC, ''_SC_XOPEN_LEGACY''),
    (''_XOPEN_REALTIME'', SC, ''_SC_XOPEN_REALTIME''),
    (''_XOPEN_REALTIME_THREADS'', SC, ''_SC_XOPEN_REALTIME_THREADS''),
    (''_POSIX_JOB_CONTROL'', SC, ''_SC_JOB_CONTROL''),
    (''_POSIX_READER_WRITER_LOCKS'', SC, ''_SC_READER_WRITER_LOCKS''),
    (''_POSIX_REGEXP'', SC, ''_SC_REGEXP''),
    (''_POSIX_SAVED_IDS'', SC, ''_SC_SAVED_IDS''),
    (''_POSIX_SHELL'', SC, ''_SC_SHELL''),
    (''_XOPEN_ENH_I18N'', SC, ''_SC_XOPEN_ENH_I18N'')]"

definition opt_items5 :: "item list" where
  "opt_items5 = [
    (''_XOPEN_SHM'', SC, ''_SC_XOPEN_SHM''),
    (''_POSIX_VERSION'', SC, ''_SC_VERSION''),
    (''_XOPEN_VERSION'', SC, ''_SC_XOPEN_VERSION''),
    (''_POSIX_CHOWN_RESTRICTED'', PC, ''_PC_CHOWN_RESTRICTED''),
    (''_POSIX_NO_TRUNC'', PC, ''_PC_NO_TRUNC''),
    (''_POSIX_VDISABLE'', PC, ''_PC_VDISABLE''),
    (''POSIX_ASYNC_IO'', PC, ''_PC_ASYNC_IO''),
    (''POSIX_PRIO_IO'', PC, ''_PC_PRIO_IO''),
    (''POSIX_SYNC_IO'', PC, ''_PC_SYNC_IO'')]"

definition conf_main :: "confsys \<Rightarrow> string list \<Rightarrow> piece" where
  "conf_main s argv = (case argv of
     [a, dir] \<Rightarrow> then_piece (items_out (conf_item s dir) (conf_items1 @ conf_items2)) ([], Some (Exit 0))
   | _ \<Rightarrow> ([], Some (ErrQuit ''usage: a.out <dirname>'')))"

definition options_main :: "confsys \<Rightarrow> string list \<Rightarrow> piece" where
  "options_main s argv = (case argv of
     [a, dir] \<Rightarrow> then_piece (items_out (opt_item s dir) (opt_items1 @ opt_items2 @ opt_items3 @ opt_items4 @ opt_items5)) ([], Some (Exit 0))
   | _ \<Rightarrow> ([], Some (ErrQuit ''usage: a.out <dirname>'')))"

subsection \<open>The report says it all\<close>

text \<open>What the report has to say about a symbol.\<close>

datatype answer = NoSymbol | NotSupported | NoLimit | Val nat | Failing

definition answer_of :: "int \<times> nat \<Rightarrow> answer" where
  "answer_of a = (case a of (val, errno) \<Rightarrow>
     if 0 \<le> val then Val (nat val) else if errno = 0 then NoLimit else if errno = EINVAL then NotSupported else Failing)"

definition asked :: "confsys \<Rightarrow> string \<Rightarrow> item \<Rightarrow> answer" where
  "asked s dir it = (case it of (nm, k, sy) \<Rightarrow> case defd s sy of None \<Rightarrow> NoSymbol
     | Some _ \<Rightarrow> answer_of (case k of SC \<Rightarrow> sys_conf s sy | PC \<Rightarrow> path_conf s dir sy))"

definition fact_of :: "confsys \<Rightarrow> string \<Rightarrow> item \<Rightarrow> int option \<times> answer" where
  "fact_of s dir it = (defd s (macro (fst it)), asked s dir it)"

definition good_item :: "item \<Rightarrow> bool" where
  "good_item it = (case it of (nm, k, sy) \<Rightarrow> nm \<noteq> [] \<and> hd nm \<noteq> CHR ''n'' \<and> newline \<notin> set nm \<and> newline \<notin> set sy)"

lemma line_cut: "newline \<notin> set a \<Longrightarrow> newline \<notin> set b \<Longrightarrow> a @ newline # x = b @ newline # y \<longleftrightarrow> a = b \<and> x = y"
  by (auto simp: append_eq_append_conv2 append_eq_Cons_conv Cons_eq_append_conv)

fun answer_text :: "answer \<Rightarrow> string" where
  "answer_text (Val n) = '' '' @ dec n"
| "answer_text NoLimit = '' (no limit)''"
| "answer_text NotSupported = '' (not supported)''"
| "answer_text _ = []"

lemma pr_answer_text:
  "answer_of a \<noteq> Failing \<Longrightarrow> pr_answer mesg a err = (mesg @ answer_text (answer_of a) @ [newline], None)"
  "answer_of a = Failing \<Longrightarrow> pr_answer mesg a err = (mesg, Some (ErrSys err))"
  by (auto simp: pr_answer_def answer_of_def split: if_splits prod.splits)


fun conf_text :: "item \<Rightarrow> int option \<times> answer \<Rightarrow> string" where
  "conf_text (nm, k, sy) (d, a) =
     (case d of Some v \<Rightarrow> nm @ '' defined to be '' @ show_int v | None \<Rightarrow> ''no symbol for '' @ nm) @ newline #
     (if a = NoSymbol then ''no symbol for '' @ sy else nm @ '' ='' @ answer_text a) @ [newline]"

fun opt_text :: "item \<Rightarrow> int option \<times> answer \<Rightarrow> string" where
  "opt_text (nm, k, sy) (d, a) =
     (case d of Some v \<Rightarrow> nm @ '' is defined (val is '' @ show_int v @ '')'' | None \<Rightarrow> nm @ '' is undefined'') @ newline #
     (if a = NoSymbol then ''no symbol for '' @ nm
      else (if k = SC then ''sysconf says '' else ''pathconf says '') @ nm @ '' ='' @ answer_text a) @ newline # [newline]"

lemma conf_item_text: "asked s dir it \<noteq> Failing \<Longrightarrow> conf_item s dir it = (conf_text it (fact_of s dir it), None)"
  by (cases it) (auto simp: conf_item_def asked_def fact_of_def pr_sysconf_def pr_pathconf_def pr_answer_text answer_of_def
      split: option.splits confcall.splits prod.splits if_splits)

lemma opt_item_text: "asked s dir it \<noteq> Failing \<Longrightarrow> opt_item s dir it = (opt_text it (fact_of s dir it), None)"
  by (cases it) (auto simp: opt_item_def asked_def fact_of_def pr_sysconf_def pr_pathconf_def pr_answer_text answer_of_def
      split: option.splits confcall.splits prod.splits if_splits)

lemma item_fails:
  assumes "asked s dir it = Failing"
  shows "\<exists>t e. conf_item s dir it = (t, Some (ErrSys e))" and "\<exists>t e. opt_item s dir it = (t, Some (ErrSys e))"
proof -
  obtain nm k sy where it: "it = (nm, k, sy)" by (cases it) auto
  have "\<exists>v. defd s sy = Some v" and "answer_of (case k of SC \<Rightarrow> sys_conf s sy | PC \<Rightarrow> path_conf s dir sy) = Failing"
    using assms by (auto simp: it asked_def split: option.splits)
  then show "\<exists>t e. conf_item s dir it = (t, Some (ErrSys e))" "\<exists>t e. opt_item s dir it = (t, Some (ErrSys e))"
    by (cases k; auto simp: it conf_item_def opt_item_def pr_sysconf_def pr_pathconf_def pr_answer_text split: option.splits)+
qed

lemma answer_text_inj: "a \<noteq> NoSymbol \<Longrightarrow> b \<noteq> NoSymbol \<Longrightarrow> a \<noteq> Failing \<Longrightarrow> b \<noteq> Failing \<Longrightarrow> answer_text a = answer_text b \<longleftrightarrow> a = b"
proof -
  have "CHR ''('' \<notin> set (dec n)" for n by (rule notin_dec) (simp add: is_digit_def)
  then have "dec n \<noteq> CHR ''('' # t" "CHR ''('' # t \<noteq> dec n" for n t by (metis list.set_intros(1))+
  then show "a \<noteq> NoSymbol \<Longrightarrow> b \<noteq> NoSymbol \<Longrightarrow> a \<noteq> Failing \<Longrightarrow> b \<noteq> Failing \<Longrightarrow> ?thesis"
    by (cases a; cases b) auto
qed

lemma newline_texts [simp]:
  "newline \<notin> set (answer_text a)" "newline \<notin> set (show_int v)"
  by (cases a; simp add: newline_def notin_show_int is_digit_def)
    (simp add: newline_def notin_show_int is_digit_def)

lemma two_lines:
  assumes "newline \<notin> set a" "newline \<notin> set b" "newline \<notin> set c" "newline \<notin> set d"
  shows "a @ newline # c @ newline # x = b @ newline # d @ newline # y \<longleftrightarrow> a = b \<and> c = d \<and> x = y"
  using assms by (simp add: line_cut)

lemma not_no_symbol:
  assumes "nm \<noteq> []" and "hd nm \<noteq> CHR ''n''"
  shows "nm @ t \<noteq> CHR ''n'' # u" "CHR ''n'' # u \<noteq> nm @ t"
  using assms by (cases nm; auto)+

lemma conf_text_inj:
  assumes "good_item it" and "snd f \<noteq> Failing" and "snd g \<noteq> Failing"
  shows "conf_text it f @ x = conf_text it g @ y \<longleftrightarrow> f = g \<and> x = y"
proof -
  obtain nm k sy d a e b where v: "it = (nm, k, sy)" "f = (d, a)" "g = (e, b)" by (cases it, cases f, cases g) auto
  have g: "nm \<noteq> []" "hd nm \<noteq> CHR ''n''" "newline \<notin> set nm" "newline \<notin> set sy" using assms(1) by (auto simp: good_item_def v)
  have n: "newline \<notin> set ''no symbol for ''" "newline \<notin> set '' defined to be ''" "newline \<notin> set '' =''" by (simp_all add: newline_def)
  let ?l = "\<lambda>d. case d of Some v \<Rightarrow> nm @ '' defined to be '' @ show_int v | None \<Rightarrow> ''no symbol for '' @ nm"
  let ?m = "\<lambda>a. if a = NoSymbol then ''no symbol for '' @ sy else nm @ '' ='' @ answer_text a"
  have l: "newline \<notin> set (?l d)" for d using g n by (auto split: option.splits)
  have m: "newline \<notin> set (?m a)" for a using g n by auto
  have "?l d = ?l e \<longleftrightarrow> d = e" by (cases d; cases e) (simp_all add: not_no_symbol [OF g(1,2)])
  moreover have "?m a = ?m b \<longleftrightarrow> a = b" using assms(2,3) by (auto simp: v not_no_symbol [OF g(1,2)] answer_text_inj)
  ultimately show ?thesis using two_lines [OF l l m m, of d a x e b y] by (auto simp: v)
qed

lemma opt_text_inj:
  assumes "good_item it" and "snd f \<noteq> Failing" and "snd g \<noteq> Failing"
  shows "opt_text it f @ x = opt_text it g @ y \<longleftrightarrow> f = g \<and> x = y"
proof -
  obtain nm k sy d a e b where v: "it = (nm, k, sy)" "f = (d, a)" "g = (e, b)" by (cases it, cases f, cases g) auto
  have g: "nm \<noteq> []" "hd nm \<noteq> CHR ''n''" "newline \<notin> set nm" "newline \<notin> set sy" using assms(1) by (auto simp: good_item_def v)
  have n: "newline \<notin> set ''no symbol for ''" "newline \<notin> set '' is defined (val is ''" "newline \<notin> set '' is undefined''" "newline \<notin> set '' =''"
    "newline \<notin> set ''sysconf says ''" "newline \<notin> set ''pathconf says ''" "newline \<noteq> CHR '')''" by (simp_all add: newline_def)
  let ?l = "\<lambda>d. case d of Some v \<Rightarrow> nm @ '' is defined (val is '' @ show_int v @ '')'' | None \<Rightarrow> nm @ '' is undefined''"
  let ?p = "if k = SC then ''sysconf says '' else ''pathconf says ''"
  let ?m = "\<lambda>a. if a = NoSymbol then ''no symbol for '' @ nm else ?p @ nm @ '' ='' @ answer_text a"
  have l: "newline \<notin> set (?l d)" for d using g n by (auto split: option.splits)
  have m: "newline \<notin> set (?m a)" for a using g n by auto
  have "?l d = ?l e \<longleftrightarrow> d = e" by (cases d; cases e) simp_all
  moreover have "?m a = ?m b \<longleftrightarrow> a = b" using assms(2,3) by (auto simp: v answer_text_inj)
  ultimately show ?thesis using two_lines [OF l l m m, of d a "newline # x" e b "newline # y"] by (auto simp: v)
qed

text \<open>The tables are what the lemmas ask for.\<close>

lemmas item_tables = conf_items1_def conf_items2_def opt_items1_def opt_items2_def opt_items3_def opt_items4_def opt_items5_def

lemma tables_good:
  "list_all good_item (conf_items1 @ conf_items2)"
  "list_all good_item (opt_items1 @ opt_items2 @ opt_items3 @ opt_items4 @ opt_items5)"
  by (simp_all add: item_tables good_item_def newline_def)

lemma tables_length:
  "length (conf_items1 @ conf_items2) = 27" "length (opt_items1 @ opt_items2 @ opt_items3 @ opt_items4 @ opt_items5) = 61"
  by (simp_all add: item_tables)

text \<open>Both programs are a walk over a table with a writer of items whose texts can be told apart.\<close>

locale report =
  fixes ipiece :: "confsys \<Rightarrow> string \<Rightarrow> item \<Rightarrow> piece" and itext :: "item \<Rightarrow> int option \<times> answer \<Rightarrow> string"
  assumes ipiece_ok: "asked s dir it \<noteq> Failing \<Longrightarrow> ipiece s dir it = (itext it (fact_of s dir it), None)"
    and ipiece_fails: "asked s dir it = Failing \<Longrightarrow> \<exists>t e. ipiece s dir it = (t, Some (ErrSys e))"
    and itext_inj: "good_item it \<Longrightarrow> snd f \<noteq> Failing \<Longrightarrow> snd g \<noteq> Failing \<Longrightarrow>
      itext it f @ x = itext it g @ y \<longleftrightarrow> f = g \<and> x = y"
begin

definition whole :: "confsys \<Rightarrow> string \<Rightarrow> item list \<Rightarrow> string" where
  "whole s dir its = concat (map (\<lambda>it. itext it (fact_of s dir it)) its)"

lemma items_ok: "\<forall>it \<in> set its. asked s dir it \<noteq> Failing \<Longrightarrow> items_out (ipiece s dir) its = (whole s dir its, None)"
  by (induction its) (simp_all add: ipiece_ok whole_def)

lemma items_end:
  assumes "then_piece (items_out (ipiece s dir) its) ([], Some (Exit 0)) = (out, Some (Exit c))"
  shows "c = 0 \<and> (\<forall>it \<in> set its. asked s dir it \<noteq> Failing) \<and> out = whole s dir its"
  using assms
proof (induction its arbitrary: out)
  case (Cons it its)
  show ?case
  proof (cases "asked s dir it = Failing")
    case True
    then show ?thesis using Cons.prems ipiece_fails [of s dir it] by auto
  next
    case False
    obtain b r where b: "items_out (ipiece s dir) its = (b, r)" by fastforce
    with False Cons.prems have "then_piece (items_out (ipiece s dir) its) ([], Some (Exit 0)) = (b, Some (Exit c))"
      and o: "out = itext it (fact_of s dir it) @ b" by (cases r; simp add: ipiece_ok)+
    from Cons.IH [OF this(1)] show ?thesis using False o by (simp add: whole_def)
  qed
qed (simp add: whole_def)

lemma whole_inj:
  assumes "list_all good_item its" and "\<forall>it \<in> set its. asked s dir it \<noteq> Failing" and "\<forall>it \<in> set its. asked s' dir' it \<noteq> Failing"
  shows "whole s dir its = whole s' dir' its \<longleftrightarrow> map (fact_of s dir) its = map (fact_of s' dir') its"
  using assms by (induction its) (simp_all add: whole_def itext_inj fact_of_def)

end

interpretation cr: report conf_item conf_text
  by unfold_locales (use conf_item_text item_fails(1) conf_text_inj in blast)+

interpretation opr: report opt_item opt_text
  by unfold_locales (use opt_item_text item_fails(2) opt_text_inj in blast)+

text \<open>
  Of each of the programs: a run that ends normally has reported on every one of the 27 limits and 61 options, and the text it printed
  determines, for each of them, whether the macro is defined, with which value, whether the system knows the symbol,
  and its answer: two systems with the same text agree on all.  A run that fails has asked for something for which the system gave an error.
\<close>

theorem reports_determine_system:
  assumes "conf_main s argv = (out, Some (Exit c)) \<and> conf_main s' argv' = (out, Some (Exit c')) \<and> its = conf_items1 @ conf_items2 \<or>
    options_main s argv = (out, Some (Exit c)) \<and> options_main s' argv' = (out, Some (Exit c')) \<and>
      its = opt_items1 @ opt_items2 @ opt_items3 @ opt_items4 @ opt_items5"
  shows "map (fact_of s (argv ! 1)) its = map (fact_of s' (argv' ! 1)) its \<and> length its \<in> {27, 61} \<and>
    (\<forall>it \<in> set its. asked s (argv ! 1) it \<noteq> Failing)"
proof -
  have argv: "\<exists>a dir. argv = [a, dir]" "\<exists>a dir. argv' = [a, dir]"
    using assms by (auto simp: conf_main_def options_main_def split: list.splits)
  then obtain a dir a' dir' where v: "argv = [a, dir]" "argv' = [a', dir']" by blast
  from assms show ?thesis
  proof
    assume "conf_main s argv = (out, Some (Exit c)) \<and> conf_main s' argv' = (out, Some (Exit c')) \<and> its = conf_items1 @ conf_items2"
    then have e: "then_piece (items_out (conf_item s dir) its) ([], Some (Exit 0)) = (out, Some (Exit c))"
      "then_piece (items_out (conf_item s' dir') its) ([], Some (Exit 0)) = (out, Some (Exit c'))"
      and i: "its = conf_items1 @ conf_items2" by (simp_all add: conf_main_def v)
    show ?thesis using cr.items_end [OF e(1)] cr.items_end [OF e(2)] cr.whole_inj [of its s dir s' dir'] tables_good(1) tables_length(1) i v
      by simp
  next
    assume "options_main s argv = (out, Some (Exit c)) \<and> options_main s' argv' = (out, Some (Exit c')) \<and>
      its = opt_items1 @ opt_items2 @ opt_items3 @ opt_items4 @ opt_items5"
    then have e: "then_piece (items_out (opt_item s dir) its) ([], Some (Exit 0)) = (out, Some (Exit c))"
      "then_piece (items_out (opt_item s' dir') its) ([], Some (Exit 0)) = (out, Some (Exit c'))"
      and i: "its = opt_items1 @ opt_items2 @ opt_items3 @ opt_items4 @ opt_items5" by (simp_all add: options_main_def v)
    show ?thesis using opr.items_end [OF e(1)] opr.items_end [OF e(2)] opr.whole_inj [of its s dir s' dir'] tables_good(2) tables_length(2) i v
      by simp
  qed
qed

text \<open>A system that defines nothing.\<close>

definition bare :: confsys where
  "bare = \<lparr>defd = Map.empty, sys_conf = \<lambda>_. (0, 0), path_conf = \<lambda>_ _. (0, 0)\<rparr>"

theorem reports_determine_system_witness:
  "\<exists>out. conf_main bare [''a.out'', ''/''] = (out, Some (Exit 0)) \<and>
     map (fact_of bare ''/'') (conf_items1 @ conf_items2) = replicate 27 (None, NoSymbol)"
proof -
  have "asked bare ''/'' it = NoSymbol" for it by (cases it) (simp add: asked_def bare_def)
  then have "items_out (conf_item bare ''/'') (conf_items1 @ conf_items2) = (cr.whole bare ''/'' (conf_items1 @ conf_items2), None)"
    by (intro cr.items_ok) simp
  then have m: "conf_main bare [''a.out'', ''/''] = (cr.whole bare ''/'' (conf_items1 @ conf_items2), Some (Exit 0))"
    by (simp add: conf_main_def)
  have "fact_of bare ''/'' it = (None, NoSymbol)" for it by (cases it) (simp add: fact_of_def asked_def bare_def)
  then have f: "map (fact_of bare ''/'') its = replicate (length its) (None, NoSymbol)" for its by (induction its) simp_all
  have "length (conf_items1 @ conf_items2) \<in> {27, 61}"
    using m reports_determine_system [of bare "[''a.out'', ''/'']" "cr.whole bare ''/'' (conf_items1 @ conf_items2)" 0 bare "[''a.out'', ''/'']" 0 "conf_items1 @ conf_items2"] by blast
  then show ?thesis using m f [of "conf_items1 @ conf_items2"] tables_length(1) by simp
qed

end
