(* ===== verification/FdProto.thy ===== *)
theory FdProto
  imports FdPass "HOL-Library.Multiset"
begin

section \<open>Descriptors with credentials, and over streams: \<^verbatim>\<open>sockets/sendfd2.c\<close>, \<^verbatim>\<open>recvfd2.c\<close>, \<^verbatim>\<open>streams/sendfd.c\<close>, \<^verbatim>\<open>recvfd.c\<close>\<close>

text \<open>
  The other two implementations of the protocol of theory \<open>FdPass\<close>.  With credentials the control part has two messages,
  laid out by the \<^verbatim>\<open>CMSG\<close> macros: a header of \<open>cm_hdr\<close> bytes and the data, the next message at the next multiple of
  \<open>cm_al\<close>.  \<open>cm_cred\<close> is the size of the credentials, and \<open>cm_fills\<close> holds where the system fills them in itself (\<^verbatim>\<open>SCM_CREDS\<close>).
\<close>

record cmsys =
  cm_al :: nat
  cm_hdr :: nat
  cm_cred :: nat
  cm_fills :: bool

definition CMSG_ALIGN :: "cmsys \<Rightarrow> nat \<Rightarrow> nat" where
  "CMSG_ALIGN c n = (n + cm_al c - 1) div cm_al c * cm_al c"

definition CMSG_LEN :: "cmsys \<Rightarrow> nat \<Rightarrow> nat" where
  "CMSG_LEN c n = cm_hdr c + n"

definition RIGHTSLEN :: "cmsys \<Rightarrow> nat" where "RIGHTSLEN c = CMSG_LEN c 4"
definition CREDSLEN :: "cmsys \<Rightarrow> nat" where "CREDSLEN c = CMSG_LEN c (cm_cred c)"
definition CONTROLLEN :: "cmsys \<Rightarrow> nat" where "CONTROLLEN c = RIGHTSLEN c + CREDSLEN c"

datatype cmsg = Rights int | Creds nat | Foreign

datatype usockitem = UTxt string | UCtl string "cmsg list"

text \<open>
  \<^verbatim>\<open>send_fd\<close>: the second message is written behind the aligned first one, into a buffer of \<^verbatim>\<open>CONTROLLEN\<close> bytes.
  \<open>uid\<close> is what \<^verbatim>\<open>geteuid\<close>, or the system, puts into it.
\<close>

definition send_fd2 :: "cmsys \<Rightarrow> bool \<Rightarrow> (usockitem \<Rightarrow> bool) \<Rightarrow> nat \<Rightarrow> int \<Rightarrow> (int \<times> usockitem list) run" where
  "send_fd2 c malloc_ok wr uid fd =
     (let send = (\<lambda>it. ret (if wr it then (0, [it]) else (- 1, []))) in
      if fd < 0 then send (UCtl [nul, status_byte fd] [])
      else if \<not> malloc_ok then ret (- 1, [])
      else
        let cmp = CMSG_ALIGN c (RIGHTSLEN c) in
        rbind (guard (cmp + cm_hdr c \<le> CONTROLLEN c) (Undef ''CMSG_NXTHDR is NULL'')) (\<lambda>_.
        rbind (guard (cm_fills c \<or> cmp + CREDSLEN c \<le> CONTROLLEN c) (Undef ''write behind cmptr'')) (\<lambda>_.
        send (UCtl [nul, nul] [Rights fd, Creds uid]))))"

text \<open>What one \<^verbatim>\<open>recvmsg\<close> gives: the bytes, \<^verbatim>\<open>msg_controllen\<close> and the control messages.\<close>

datatype urmsg = URecvErr | URecv string nat "cmsg list"

fun control_data :: "cmsg list \<Rightarrow> int \<times> nat option \<Rightarrow> int \<times> nat option" where
  "control_data [] r = r"
| "control_data (Rights f # cs) (fd, u) = control_data cs (f, u)"
| "control_data (Creds n # cs) (fd, u) = control_data cs (fd, Some n)"
| "control_data (Foreign # cs) r = control_data cs r"

text \<open>The \<^verbatim>\<open>for\<close> loop of \<^verbatim>\<open>recv_ufd\<close>; the results are the return value, what \<^verbatim>\<open>*uidptr\<close> was set to, the text and the messages left.\<close>

fun recv_ufd_loop :: "cmsys \<Rightarrow> (string \<Rightarrow> bool) \<Rightarrow> string \<Rightarrow> urmsg list \<Rightarrow> (int \<times> nat option \<times> string \<times> urmsg list) run" where
  "recv_ufd_loop c uf out [] = ret (- 1, None, out, [])"
| "recv_ufd_loop c uf out (URecvErr # ms) = die (ErrSys ''recvmsg error'')"
| "recv_ufd_loop c uf out (URecv buf clen cs # ms) =
     (if buf = [] then ret (- 1, None, out, ms)
      else
        let (fd, u) = control_data cs (- 1, None) in
        rbind (find_status buf (if clen \<noteq> CONTROLLEN c then None else Some fd) 0) (\<lambda>st.
        let text = (case st of None \<Rightarrow> buf | Some _ \<Rightarrow> take (length buf - 2) buf);
            uid = (case st of Some (0, _) \<Rightarrow> u | _ \<Rightarrow> None) in
        if text \<noteq> [] \<and> \<not> uf text then ret (- 1, uid, out, ms)
        else case st of None \<Rightarrow> recv_ufd_loop c uf (out @ text) ms | Some (_, newfd) \<Rightarrow> ret (newfd, uid, out @ text, ms)))"

definition recv_ufd :: "cmsys \<Rightarrow> bool \<Rightarrow> bool \<Rightarrow> (string \<Rightarrow> bool) \<Rightarrow> urmsg list \<Rightarrow> (int \<times> nat option \<times> string \<times> urmsg list) run" where
  "recv_ufd c sockopt_ok malloc_ok uf ms =
     (if \<not> sockopt_ok \<or> \<not> malloc_ok then ret (- 1, None, [], ms) else recv_ufd_loop c uf [] ms)"

text \<open>
  The socket as in \<open>FdPass\<close>.  The two control messages arrive with the final bytes, in any order; other messages may have control messages that the
  system has added.
\<close>

inductive udelivers :: "cmsys \<Rightarrow> string \<Rightarrow> usockitem list \<Rightarrow> urmsg list \<Rightarrow> bool" for c where
  u_done: "udelivers c [] [] []"
| u_text: "udelivers c (t @ s) its ms \<Longrightarrow> udelivers c t (UTxt s # its) ms"
| u_piece: "a \<noteq> [] \<Longrightarrow> length a \<le> MAXLINE \<Longrightarrow> udelivers c t its ms \<Longrightarrow> udelivers c (a @ t) its (URecv a n cs # ms)"
| u_final: "length (t @ m) \<le> MAXLINE \<Longrightarrow> cs \<noteq> [] \<longrightarrow> n = CONTROLLEN c \<and> mset cs' = mset cs \<Longrightarrow> udelivers c [] its ms \<Longrightarrow>
    udelivers c t (UCtl m cs # its) (URecv (t @ m) n cs' # ms)"

inductive_cases udelivers_txtE: "udelivers c t (UTxt s # its) ms"

lemma two_msgs: "mset cs = mset [a, b] \<Longrightarrow> cs = [a, b] \<or> cs = [b, a]"
proof -
  assume m: "mset cs = mset [a, b]"
  then have "length cs = 2" by (metis length_Cons list.size(3) numeral_2_eq_2 size_mset)
  then obtain x y where "cs = [x, y]" by (auto simp: numeral_2_eq_2 length_Suc_conv)
  then show ?thesis using m by (auto simp: add_mset_eq_single add_eq_conv_ex)
qed

lemma control_data_sent: "mset cs = mset [Rights f, Creds u] \<Longrightarrow> control_data cs (- 1, None) = (f, Some u)"
  by (drule two_msgs) auto

lemma of_char_iff [simp]: "(of_char c :: nat) = 0 \<longleftrightarrow> c = nul"
  by (metis char_of_char char_of_0 of_char_nul)

lemma recv_ufd_delivered:
  assumes "udelivers c t its ms" and "its = UCtl [nul, b] cs # its'" and "nul \<notin> set t"
    and "b = nul \<and> cs = [Rights f, Creds u] \<and> r = f \<and> v = Some u \<or> b \<noteq> nul \<and> r = - int (of_char b) \<and> v = None"
  shows "\<exists>ms'. recv_ufd_loop c (\<lambda>_. True) out ms = ret (r, v, out @ t, ms') \<and> udelivers c [] its' ms'"
  using assms
proof (induction t its ms arbitrary: out rule: udelivers.induct)
  case (u_piece a t its ms n cs')
  obtain ms' where "recv_ufd_loop c (\<lambda>_. True) (out @ a) ms = ret (r, v, (out @ a) @ t, ms')" "udelivers c [] its' ms'"
    using u_piece.IH [of "out @ a"] u_piece.prems by auto
  moreover have "find_status a ctl 0 = ret None" for ctl using u_piece.prems(2) by (intro find_status_text) simp
  ultimately show ?case using u_piece.hyps(1) by (auto split: prod.split)
next
  case (u_final t m cs' n cs'' its ms)
  have f: "find_status (t @ [nul, b]) ctl 0 = ret (Some (of_char b, if b = nul then the ctl else - int (of_char b)))" if "b = nul \<Longrightarrow> ctl \<noteq> None" for ctl
    using find_status_final [of t b ctl 0] u_final.prems(2) that by simp
  from u_final.prems(3) show ?case
  proof
    assume b: "b = nul \<and> cs = [Rights f, Creds u] \<and> r = f \<and> v = Some u"
    then have "control_data cs'' (- 1, None) = (f, Some u)" "n = CONTROLLEN c"
      using u_final.hyps(2) u_final.prems(1) by (auto intro: control_data_sent)
    then show ?thesis using b f [of "Some f"] u_final.prems(1) u_final.hyps(3) by simp
  next
    assume b: "b \<noteq> nul \<and> r = - int (of_char b) \<and> v = None"
    then show ?thesis using f u_final.prems(1) u_final.hyps(3) by (auto split: prod.split nat.split)
  qed
qed simp_all

text \<open>The buffer is long enough exactly when the first message ends at a multiple of the alignment.\<close>

lemma round_up:
  assumes "0 < (a :: nat)"
  shows "n \<le> (n + a - 1) div a * a" and "(n + a - 1) div a * a = n \<longleftrightarrow> a dvd n"
proof -
  have "(n + a - 1) mod a < a" using assms by simp
  moreover have "(n + a - 1) div a * a + (n + a - 1) mod a = n + a - 1" by (rule div_mult_mod_eq)
  ultimately show "n \<le> (n + a - 1) div a * a" by arith
  have "a dvd n \<Longrightarrow> (n + a - 1) div a * a = n"
  proof -
    assume "a dvd n"
    then obtain k where n: "n = k * a" by (metis dvd_div_mult_self)
    have "(a - 1 + k * a) div a = k" using assms div_mult_self1 [of a "a - 1" k] by simp
    moreover have "n + a - 1 = a - 1 + k * a" using n assms by simp
    ultimately show ?thesis using n by simp
  qed
  then show "(n + a - 1) div a * a = n \<longleftrightarrow> a dvd n" by (metis dvd_triv_right)
qed

lemma align_ge: "0 < cm_al c \<Longrightarrow> n \<le> CMSG_ALIGN c n"
  unfolding CMSG_ALIGN_def by (rule round_up(1))

lemma align_eq: "0 < cm_al c \<Longrightarrow> CMSG_ALIGN c n = n \<longleftrightarrow> cm_al c dvd n"
  unfolding CMSG_ALIGN_def by (rule round_up(2))

lemma send_fd2_result:
  assumes "0 < cm_al c" and "0 \<le> fd" and "\<not> cm_fills c"
  shows "send_fd2 c True (\<lambda>_. True) uid fd =
    (if cm_al c dvd RIGHTSLEN c then ret (0, [UCtl [nul, nul] [Rights fd, Creds uid]])
     else if CMSG_ALIGN c (RIGHTSLEN c) + cm_hdr c \<le> CONTROLLEN c then die (Undef ''write behind cmptr'')
     else die (Undef ''CMSG_NXTHDR is NULL''))"
proof -
  have "CMSG_ALIGN c (RIGHTSLEN c) + CREDSLEN c \<le> CONTROLLEN c \<longleftrightarrow> cm_al c dvd RIGHTSLEN c"
    using align_ge [OF assms(1), of "RIGHTSLEN c"] align_eq [OF assms(1), of "RIGHTSLEN c"] by (auto simp: CONTROLLEN_def)
  moreover have "cm_al c dvd RIGHTSLEN c \<Longrightarrow> CMSG_ALIGN c (RIGHTSLEN c) + cm_hdr c \<le> CONTROLLEN c"
    using align_eq [OF assms(1), of "RIGHTSLEN c"] by (simp add: CONTROLLEN_def CREDSLEN_def CMSG_LEN_def)
  ultimately show ?thesis using assms(2,3) by (simp add: send_fd2_def Let_def)
qed

definition linux32 :: cmsys where "linux32 = \<lparr>cm_al = 4, cm_hdr = 12, cm_cred = 12, cm_fills = False\<rparr>"
definition linux64 :: cmsys where "linux64 = \<lparr>cm_al = 8, cm_hdr = 16, cm_cred = 12, cm_fills = False\<rparr>"

lemma send_fd2_linux:
  assumes "0 \<le> fd"
  shows "send_fd2 linux32 True (\<lambda>_. True) uid fd = ret (0, [UCtl [nul, nul] [Rights fd, Creds uid]])"
    and "send_fd2 linux64 True (\<lambda>_. True) uid fd = die (Undef ''write behind cmptr'')"
  using assms by (simp_all add: send_fd2_def linux32_def linux64_def CMSG_ALIGN_def CONTROLLEN_def RIGHTSLEN_def CREDSLEN_def CMSG_LEN_def)

subsection \<open>Over a stream\<close>

text \<open>
  A stream keeps the boundaries of messages; a descriptor is a message of its own.  \<^verbatim>\<open>getmsg\<close> takes at most \<^verbatim>\<open>MAXLINE\<close> bytes and leaves the rest;
  it fails on a descriptor, and \<^verbatim>\<open>I_RECVFD\<close> on anything else.  The empty queue is a server that has hung up.
\<close>

datatype strmsg = SData string | SFd int nat

fun getmsg :: "strmsg list \<Rightarrow> string option \<times> strmsg list" where
  "getmsg [] = (Some [], [])"
| "getmsg (SData b # q) = (Some (take MAXLINE b), if length b \<le> MAXLINE then q else SData (drop MAXLINE b) # q)"
| "getmsg (SFd f u # q) = (None, SFd f u # q)"

fun I_RECVFD :: "strmsg list \<Rightarrow> (int \<times> nat) option \<times> strmsg list" where
  "I_RECVFD (SFd f u # q) = (Some (f, u), q)"
| "I_RECVFD q = (None, q)"

text \<open>\<^verbatim>\<open>send_fd\<close>; \<open>uid\<close> is the user the system puts beside the descriptor, \<open>wr\<close> and \<open>ioc\<close> say whether the two calls work.\<close>

definition send_fds :: "bool \<Rightarrow> bool \<Rightarrow> nat \<Rightarrow> int \<Rightarrow> int \<times> strmsg list" where
  "send_fds wr ioc uid fd =
     (let buf = SData [nul, if fd < 0 then status_byte fd else nul] in
      if \<not> wr then (- 1, [])
      else if 0 \<le> fd then (if \<not> ioc then (- 1, [buf]) else (0, [buf, SFd fd uid])) else (0, [buf]))"

fun str_size :: "strmsg list \<Rightarrow> nat" where
  "str_size [] = 0"
| "str_size (SData b # q) = Suc (length b) + str_size q"
| "str_size (SFd f u # q) = Suc (str_size q)"

lemma I_RECVFD_size: "str_size (snd (I_RECVFD q)) \<le> str_size q"
  by (cases q rule: I_RECVFD.cases) auto

lemma getmsg_size: "getmsg q = (Some (x # xs), q') \<Longrightarrow> str_size q' < str_size q"
  by (cases q rule: getmsg.cases) (auto simp: MAXLINE_def split: if_splits)

function recv_fds :: "(string \<Rightarrow> bool) \<Rightarrow> string \<Rightarrow> strmsg list \<Rightarrow> (int \<times> string \<times> strmsg list) run" where
  "recv_fds uf out q = (case getmsg q of
       (None, q') \<Rightarrow> die (ErrSys ''getmsg error'')
     | (Some [], q') \<Rightarrow> ret (- 1, out, q')
     | (Some (x # xs), q') \<Rightarrow> rbind (find_status (x # xs) (Some 0) 0) (\<lambda>st. case st of
           None \<Rightarrow> if \<not> uf (x # xs) then ret (- 1, out, q') else recv_fds uf (out @ x # xs) q'
         | Some (status, newfd) \<Rightarrow>
             let text = take (length (x # xs) - 2) (x # xs); (r, q'') = (if status = 0 then I_RECVFD q' else (Some (newfd, 0), q')) in
             (case r of None \<Rightarrow> ret (- 1, out, q'')
              | Some (fd, _) \<Rightarrow> if text \<noteq> [] \<and> \<not> uf text then ret (- 1, out, q'') else ret (fd, out @ text, q''))))"
  by pat_completeness auto
termination by (relation "measure (\<lambda>(uf, out, q). str_size q)") (auto dest: getmsg_size [OF sym])

declare recv_fds.simps [simp del]

text \<open>Text arrives in messages, cut anywhere; the final bytes and the descriptor arrive as they were sent.\<close>

inductive sdelivers :: "string \<Rightarrow> strmsg list \<Rightarrow> strmsg list \<Rightarrow> bool" where
  s_done: "sdelivers [] [] []"
| s_text: "nul \<notin> set s \<Longrightarrow> sdelivers (t @ s) its ms \<Longrightarrow> sdelivers t (SData s # its) ms"
| s_piece: "a \<noteq> [] \<Longrightarrow> length a \<le> MAXLINE \<Longrightarrow> sdelivers t its ms \<Longrightarrow> sdelivers (a @ t) its (SData a # ms)"
| s_final: "sdelivers [] its ms \<Longrightarrow> sdelivers [] (SData [nul, b] # its) (SData [nul, b] # ms)"
| s_fd: "sdelivers [] its ms \<Longrightarrow> sdelivers [] (SFd f u # its) (SFd f u # ms)"

inductive_cases sdelivers_sdataE: "sdelivers t (SData s # its) ms"
inductive_cases sdelivers_fdE: "sdelivers t (SFd f u # its) ms"

lemma sdelivers_fd: "sdelivers t (SFd f u # its) ms \<Longrightarrow> t = [] \<Longrightarrow> \<exists>ms'. ms = SFd f u # ms' \<and> sdelivers [] its ms'"
  by (erule sdelivers_fdE) auto

lemma recv_fds_delivered:
  assumes "sdelivers t its ms" and "its = SData [nul, b] # (if b = nul then SFd f u # its' else its')" and "nul \<notin> set t"
  shows "\<exists>ms'. recv_fds (\<lambda>_. True) out ms = ret (if b = nul then f else - int (of_char b), out @ t, ms') \<and> sdelivers [] its' ms'"
  using assms
proof (induction t its ms arbitrary: out rule: sdelivers.induct)
  case (s_piece a t its ms)
  obtain x xs where a: "a = x # xs" using s_piece.hyps(1) by (cases a) auto
  obtain ms' where m: "recv_fds (\<lambda>_. True) (out @ a) ms = ret (if b = nul then f else - int (of_char b), (out @ a) @ t, ms')" "sdelivers [] its' ms'"
    using s_piece.IH [of "out @ a"] s_piece.prems by auto
  have "find_status (x # xs) (Some 0) 0 = ret None" using s_piece.prems(2) a by (intro find_status_text) simp
  moreover have "getmsg (SData a # ms) = (Some (x # xs), ms)" using s_piece.hyps(2) a by simp
  ultimately show ?case using m a by (subst recv_fds.simps) simp
next
  case (s_final its ms b')
  then have b: "b' = b" "its = (if b = nul then SFd f u # its' else its')" by simp_all
  have f: "find_status [nul, b] (Some 0) 0 = ret (Some (of_char b, if b = nul then 0 else - int (of_char b)))"
    using find_status_final [of "[]" b "Some 0" 0] by simp
  have g: "getmsg (SData [nul, b] # ms) = (Some [nul, b], ms)" by (simp add: MAXLINE_def)
  show ?case
  proof (cases "b = nul")
    case True
    then obtain ms' where "ms = SFd f u # ms'" "sdelivers [] its' ms'" using sdelivers_fd [of "[]" f u its' ms] s_final.hyps b(2) by auto
    then show ?thesis using f g True b(1) by (subst recv_fds.simps) simp
  next
    case False
    then show ?thesis using f g b s_final.hyps by (subst recv_fds.simps) simp
  qed
qed (auto simp: nul_def)

subsection \<open>One protocol\<close>

text \<open>
  What a caller of the three implementations relies on: \<open>snd\<close> is what a successful call puts on the socket, \<open>wtext\<close> a text that is
  written before, \<open>carry t its ms\<close> what may arrive of a text \<open>t\<close> and the items behind it.  \<open>rcv\<close> returns the descriptor or the negated
  status, and the text.
\<close>

definition recv_ufd_result :: "cmsys \<Rightarrow> string \<Rightarrow> urmsg list \<Rightarrow> (int \<times> string \<times> urmsg list) run" where
  "recv_ufd_result c out ms = rbind (recv_ufd_loop c (\<lambda>_. True) out ms) (\<lambda>(r, u, out', ms'). ret (r, out', ms'))"

locale fd_protocol =
  fixes snd_fd :: "int \<Rightarrow> 'i list" and wtext :: "string \<Rightarrow> 'i" and carry :: "string \<Rightarrow> 'i list \<Rightarrow> 'm list \<Rightarrow> bool"
    and rcv :: "string \<Rightarrow> 'm list \<Rightarrow> (int \<times> string \<times> 'm list) run"
  assumes carry_txt: "nul \<notin> set s \<Longrightarrow> carry [] (wtext s # its) ms \<Longrightarrow> carry s its ms"
    and rcv_fd: "0 \<le> fd \<Longrightarrow> nul \<notin> set t \<Longrightarrow> length t < MAXLINE - 1 \<Longrightarrow> carry t (snd_fd fd @ its) ms \<Longrightarrow>
      \<exists>ms'. rcv out ms = ret (fd, out @ t, ms') \<and> carry [] its ms'"
    and rcv_err: "e < 0 \<Longrightarrow> nul \<notin> set t \<Longrightarrow> length t < MAXLINE - 1 \<Longrightarrow> carry t (snd_fd e @ its) ms \<Longrightarrow>
      \<exists>ms'. rcv out ms = ret (- int (of_char (status_byte e)), out @ t, ms') \<and> carry [] its ms'"
begin

text \<open>\<^verbatim>\<open>send_err\<close>: the text, then the status; it is received as -1 for every code that is not negative.\<close>

definition err_items :: "int \<Rightarrow> string \<Rightarrow> 'i list" where
  "err_items e msg = (if msg = [] then [] else [wtext msg]) @ snd_fd (if 0 \<le> e then - 1 else e)"

lemma err_received:
  assumes "nul \<notin> set msg" and "length msg < MAXLINE - 1" and "- 256 < e" and "carry [] (err_items e msg @ its) ms"
  shows "\<exists>ms'. rcv out ms = ret (if 0 \<le> e then - 1 else e, out @ msg, ms') \<and> carry [] its ms'"
proof -
  let ?e = "if 0 \<le> e then - 1 else e"
  have e: "?e < 0" "- 256 < ?e" using assms(3) by simp_all
  have "carry msg (snd_fd ?e @ its) ms"
    using assms(4) carry_txt [OF assms(1)] by (cases "msg = []") (simp_all add: err_items_def)
  from rcv_err [OF e(1) assms(1,2) this, of out] show ?thesis using of_status_byte [OF e(2,1)] e(1) by simp
qed

text \<open>Answers one after the other.\<close>

lemma fds_received: "\<forall>fd \<in> set fds. 0 \<le> fd \<Longrightarrow> carry [] (concat (map snd_fd fds)) ms \<Longrightarrow> fds \<noteq> [] \<Longrightarrow>
  \<exists>ms'. rcv out ms = ret (hd fds, out, ms') \<and> carry [] (concat (map snd_fd (tl fds))) ms'"
  using rcv_fd [of "hd fds" "[]" "concat (map snd_fd (tl fds))" ms out] by (cases fds) (auto simp: MAXLINE_def)

end

interpretation plain_fd: fd_protocol "\<lambda>fd. snd (send_fd (\<lambda>_. True) fd)" Txt delivers "recv_fd (\<lambda>_. True)"
proof unfold_locales
  fix fd :: int and t its ms out
  assume h: "0 \<le> fd" "nul \<notin> set t" "length t < MAXLINE - 1" "delivers t (snd (send_fd (\<lambda>_. True) fd) @ its) ms"
  then show "\<exists>ms'. recv_fd (\<lambda>_. True) out ms = ret (fd, out @ t, ms') \<and> delivers [] its ms'"
    using recv_fd_delivered [OF h(4), of nul "Some fd" its out] by (simp add: send_fd_def)
next
  fix e :: int and t its ms out
  assume h: "e < 0" "nul \<notin> set t" "length t < MAXLINE - 1" "delivers t (snd (send_fd (\<lambda>_. True) e) @ its) ms"
  then show "\<exists>ms'. recv_fd (\<lambda>_. True) out ms = ret (- int (of_char (status_byte e)), out @ t, ms') \<and> delivers [] its ms'"
    using recv_fd_delivered [OF h(4), of "status_byte e" None its out] by (simp add: send_fd_def status_byte_nonzero)
qed (auto elim: delivers_txtE)

definition sent2 :: "cmsys \<Rightarrow> nat \<Rightarrow> int \<Rightarrow> usockitem list" where
  "sent2 c uid fd = (case send_fd2 c True (\<lambda>_. True) uid fd of Some (Inr (_, its)) \<Rightarrow> its | _ \<Rightarrow> [])"

lemma sent2_items:
  "fd < 0 \<Longrightarrow> sent2 c uid fd = [UCtl [nul, status_byte fd] []]"
  "0 \<le> fd \<Longrightarrow> sent2 linux32 uid fd = [UCtl [nul, nul] [Rights fd, Creds uid]]"
  by (simp_all add: sent2_def send_fd2_linux) (simp add: send_fd2_def Let_def)

interpretation cred_fd: fd_protocol "sent2 linux32 uid" UTxt "udelivers linux32" "recv_ufd_result linux32" for uid
proof unfold_locales
  fix fd :: int and t its ms out
  assume h: "0 \<le> fd" "nul \<notin> set t" "length t < MAXLINE - 1" "udelivers linux32 t (sent2 linux32 uid fd @ its) ms"
  then show "\<exists>ms'. recv_ufd_result linux32 out ms = ret (fd, out @ t, ms') \<and> udelivers linux32 [] its ms'"
    using recv_ufd_delivered [OF h(4), of nul "[Rights fd, Creds uid]" its fd uid fd "Some uid" out]
    by (auto simp: sent2_items recv_ufd_result_def)
next
  fix e :: int and t its ms out
  assume h: "e < 0" "nul \<notin> set t" "length t < MAXLINE - 1" "udelivers linux32 t (sent2 linux32 uid e @ its) ms"
  then show "\<exists>ms'. recv_ufd_result linux32 out ms = ret (- int (of_char (status_byte e)), out @ t, ms') \<and> udelivers linux32 [] its ms'"
    using recv_ufd_delivered [OF h(4), of "status_byte e" "[]" its 0 0 "- int (of_char (status_byte e))" None out]
    by (auto simp: sent2_items recv_ufd_result_def status_byte_nonzero)
qed (auto elim: udelivers_txtE)

interpretation stream_fd: fd_protocol "\<lambda>fd. snd (send_fds True True uid fd)" SData sdelivers "recv_fds (\<lambda>_. True)" for uid
proof unfold_locales
  fix fd :: int and t its ms out
  assume h: "0 \<le> fd" "nul \<notin> set t" "length t < MAXLINE - 1" "sdelivers t (snd (send_fds True True uid fd) @ its) ms"
  then show "\<exists>ms'. recv_fds (\<lambda>_. True) out ms = ret (fd, out @ t, ms') \<and> sdelivers [] its ms'"
    using recv_fds_delivered [OF h(4), of nul fd uid its out] by (simp add: send_fds_def)
next
  fix e :: int and t its ms out
  assume h: "e < 0" "nul \<notin> set t" "length t < MAXLINE - 1" "sdelivers t (snd (send_fds True True uid e) @ its) ms"
  then show "\<exists>ms'. recv_fds (\<lambda>_. True) out ms = ret (- int (of_char (status_byte e)), out @ t, ms') \<and> sdelivers [] its ms'"
    using recv_fds_delivered [OF h(4), of "status_byte e" 0 uid its out] by (simp add: send_fds_def status_byte_nonzero)
qed (auto elim: sdelivers_sdataE)

text \<open>
  With credentials: where the two control messages fit, the receiver gets the descriptor together with the sender's user; on a system with
  an alignment of 8 the sender writes behind its buffer.
\<close>

theorem fd_and_user_received:
  assumes "0 \<le> fd" and "udelivers linux32 [] (its @ its') ms" and "send_fd2 linux32 True (\<lambda>_. True) uid fd = ret (rc, its)"
  shows "rc = 0 \<and> (\<exists>ms'. recv_ufd linux32 True True (\<lambda>_. True) ms = ret (fd, Some uid, [], ms') \<and> udelivers linux32 [] its' ms') \<and>
    send_fd2 linux64 True (\<lambda>_. True) uid fd = die (Undef ''write behind cmptr'')"
proof -
  have its: "rc = 0" "its = [UCtl [nul, nul] [Rights fd, Creds uid]]" using assms(3) send_fd2_linux(1) [OF assms(1)] by auto
  then show ?thesis
    using recv_ufd_delivered [OF assms(2), of nul "[Rights fd, Creds uid]" its' fd uid fd "Some uid" "[]"] send_fd2_linux(2) [OF assms(1)]
    by (auto simp: recv_ufd_def)
qed

end
