(* ===== verification/AddrInfo.thy ===== *)
theory AddrInfo
  imports CText "HOL-Library.Word"
begin

unbundle bit_operations_syntax

section \<open>Addresses of a service: \<^verbatim>\<open>sockets/findsvc.c\<close>\<close>

text \<open>
  The program prints what \<^verbatim>\<open>getaddrinfo\<close> gives.  The numbers behind the names of families, types, protocols and flags belong to the
  system: the record \<open>netnums\<close>; three of the flags need not exist.  An internet address has four bytes, and a port two, both in network order.
\<close>

record netnums =
  AF_INET :: int
  AF_INET6 :: int
  AF_UNIX :: int
  AF_UNSPEC :: int
  SOCK_STREAM :: int
  SOCK_DGRAM :: int
  SOCK_SEQPACKET :: int
  SOCK_RAW :: int
  IPPROTO_TCP :: int
  IPPROTO_UDP :: int
  IPPROTO_RAW :: int
  AI_PASSIVE :: "32 word"
  AI_CANONNAME :: "32 word"
  AI_NUMERICHOST :: "32 word"
  AI_NUMERICSERV :: "32 word option"
  AI_V4MAPPED :: "32 word option"
  AI_ALL :: "32 word option"

record addrinfo =
  ai_flags :: "32 word"
  ai_family :: int
  ai_socktype :: int
  ai_protocol :: int
  ai_canonname :: "string option"
  ai_addr :: "8 word \<times> 8 word \<times> 8 word \<times> 8 word"
  ai_port :: "8 word \<times> 8 word"

definition print_family :: "netnums \<Rightarrow> addrinfo \<Rightarrow> string" where
  "print_family n a = '' family '' @
     (if ai_family a = AF_INET n then ''inet''
      else if ai_family a = AF_INET6 n then ''inet6''
      else if ai_family a = AF_UNIX n then ''unix''
      else if ai_family a = AF_UNSPEC n then ''unspecified''
      else ''unknown'')"

definition print_type :: "netnums \<Rightarrow> addrinfo \<Rightarrow> string" where
  "print_type n a = '' type '' @
     (if ai_socktype a = SOCK_STREAM n then ''stream''
      else if ai_socktype a = SOCK_DGRAM n then ''datagram''
      else if ai_socktype a = SOCK_SEQPACKET n then ''seqpacket''
      else if ai_socktype a = SOCK_RAW n then ''raw''
      else ''unknown ('' @ show_int (ai_socktype a) @ '')'')"

definition print_protocol :: "netnums \<Rightarrow> addrinfo \<Rightarrow> string" where
  "print_protocol n a = '' protocol '' @
     (if ai_protocol a = 0 then ''default''
      else if ai_protocol a = IPPROTO_TCP n then ''TCP''
      else if ai_protocol a = IPPROTO_UDP n then ''UDP''
      else if ai_protocol a = IPPROTO_RAW n then ''raw''
      else ''unknown ('' @ show_int (ai_protocol a) @ '')'')"

definition has_flag :: "32 word \<Rightarrow> 32 word \<Rightarrow> bool" where
  "has_flag w f = (w AND f \<noteq> 0)"

definition print_flags :: "netnums \<Rightarrow> addrinfo \<Rightarrow> string" where
  "print_flags n a = ''flags'' @
     (if ai_flags a = 0 then '' 0''
      else
        (if has_flag (ai_flags a) (AI_PASSIVE n) then '' passive'' else []) @
        (if has_flag (ai_flags a) (AI_CANONNAME n) then '' canon'' else []) @
        (if has_flag (ai_flags a) (AI_NUMERICHOST n) then '' numhost'' else []) @
        (case AI_NUMERICSERV n of None \<Rightarrow> [] | Some f \<Rightarrow> if has_flag (ai_flags a) f then '' numserv'' else []) @
        (case AI_V4MAPPED n of None \<Rightarrow> [] | Some f \<Rightarrow> if has_flag (ai_flags a) f then '' v4mapped'' else []) @
        (case AI_ALL n of None \<Rightarrow> [] | Some f \<Rightarrow> if has_flag (ai_flags a) f then '' all'' else []))"

text \<open>\<^verbatim>\<open>inet_ntop\<close> for \<^verbatim>\<open>AF_INET\<close>, whose text always fits, and \<^verbatim>\<open>ntohs\<close>.\<close>

fun inet_ntop :: "8 word \<times> 8 word \<times> 8 word \<times> 8 word \<Rightarrow> string" where
  "inet_ntop (a, b, c, d) = dec (unat a) @ ''.'' @ dec (unat b) @ ''.'' @ dec (unat c) @ ''.'' @ dec (unat d)"

fun ntohs :: "8 word \<times> 8 word \<Rightarrow> nat" where
  "ntohs (h, l) = 256 * unat h + unat l"

definition print_addr :: "netnums \<Rightarrow> addrinfo \<Rightarrow> string" where
  "print_addr n a = print_flags n a @ print_family n a @ print_type n a @ print_protocol n a @
     newline # CHR 0x09 # ''host '' @ (case ai_canonname a of Some c \<Rightarrow> c | None \<Rightarrow> ''-'') @
     (if ai_family a = AF_INET n then '' address '' @ inet_ntop (ai_addr a) @ '' port '' @ dec (ntohs (ai_port a)) else []) @ [newline]"

text \<open>\<^verbatim>\<open>main\<close>; the result of \<^verbatim>\<open>getaddrinfo\<close> for the two names and the hint is an argument, with the text of its error.\<close>

definition hint :: "netnums \<Rightarrow> addrinfo" where
  "hint n = \<lparr>ai_flags = AI_CANONNAME n, ai_family = 0, ai_socktype = 0, ai_protocol = 0, ai_canonname = None,
     ai_addr = (0, 0, 0, 0), ai_port = (0, 0)\<rparr>"

definition findsvc_main :: "netnums \<Rightarrow> (string \<Rightarrow> string \<Rightarrow> addrinfo \<Rightarrow> string + addrinfo list) \<Rightarrow> string list \<Rightarrow> string run" where
  "findsvc_main n gai argv = rbind (guard (length argv = 3) (ErrQuit (''usage: '' @ hd argv @ '' nodename service''))) (\<lambda>_.
     case gai (argv ! 1) (argv ! 2) (hint n) of
       Inl e \<Rightarrow> die (ErrQuit (''getaddrinfo error: '' @ e))
     | Inr ais \<Rightarrow> ret (concat (map (print_addr n) ais)))"

subsection \<open>What the lines say\<close>

lemma dec_sep:
  assumes "\<not> is_digit c"
  shows "dec m @ c # x = dec n @ c # y \<longleftrightarrow> m = n \<and> x = y"
proof
  assume e: "dec m @ c # x = dec n @ c # y"
  have t: "takeWhile is_digit (dec k @ c # z) = dec k" "dropWhile is_digit (dec k @ c # z) = c # z" for k z
    using assms dec_digits [of k] by (simp_all add: takeWhile_append_stop dropWhile_append_stop)
  have "dec m = dec n" using t(1) [of m x] t(1) [of n y] e by simp
  moreover have "c # x = c # y" using t(2) [of m x] t(2) [of n y] e by simp
  ultimately show "m = n \<and> x = y" by simp
qed simp

lemma inet_ntop_sep: "inet_ntop p @ space # x = inet_ntop q @ space # y \<longleftrightarrow> p = q \<and> x = y"
proof -
  have "\<not> is_digit CHR ''.''" "\<not> is_digit space" by (simp_all add: is_digit_def space_def)
  then show ?thesis by (cases p rule: inet_ntop.cases; cases q rule: inet_ntop.cases) (auto simp: dec_sep word_unat_eq_iff)
qed

lemma ntohs_inj: "ntohs p = ntohs q \<longleftrightarrow> p = q"
proof -
  obtain a b c d where v: "p = (a, b)" "q = (c, d)" by (cases p, cases q) auto
  have u: "unat b < 256" "unat d < 256" using unsigned_less [of b, where 'a = nat] unsigned_less [of d, where 'a = nat] by simp_all
  have q: "(256 * i + j) div 256 = i" "(256 * i + j) mod 256 = j" if "j < 256" for i j :: nat using that by simp_all
  have "i = k \<and> j = l" if "256 * i + j = 256 * k + l" "j < 256" "l < 256" for i j k l :: nat
    using q [OF that(2)] q [OF that(3)] that(1) by metis
  from this [OF _ u] show ?thesis by (auto simp: v word_unat_eq_iff)
qed

text \<open>The line of an internet address determines its four bytes and its port.\<close>

definition addr_part :: "addrinfo \<Rightarrow> string" where
  "addr_part a = '' address '' @ inet_ntop (ai_addr a) @ '' port '' @ dec (ntohs (ai_port a)) @ [newline]"

lemma addr_part_inj: "addr_part a @ x = addr_part b @ y \<longleftrightarrow> ai_addr a = ai_addr b \<and> ai_port a = ai_port b \<and> x = y"
proof -
  have "'' port '' = space # ''port ''" by (simp add: space_def)
  then show ?thesis by (auto simp: addr_part_def inet_ntop_sep dec_sep ntohs_inj)
qed

theorem addresses_printed:
  "print_addr n a @ x = print_addr n (a\<lparr>ai_addr := p, ai_port := q\<rparr>) @ y \<longleftrightarrow>
    (ai_family a = AF_INET n \<longrightarrow> ai_addr a = p \<and> ai_port a = q) \<and> x = y"
proof -
  have e: "print_flags n (a\<lparr>ai_addr := p, ai_port := q\<rparr>) = print_flags n a" "print_family n (a\<lparr>ai_addr := p, ai_port := q\<rparr>) = print_family n a"
    "print_type n (a\<lparr>ai_addr := p, ai_port := q\<rparr>) = print_type n a" "print_protocol n (a\<lparr>ai_addr := p, ai_port := q\<rparr>) = print_protocol n a"
    by (simp_all add: print_flags_def print_family_def print_type_def print_protocol_def split: option.split)
  show ?thesis
  proof (cases "ai_family a = AF_INET n")
    case True
    then show ?thesis
      using addr_part_inj [of a x "a\<lparr>ai_addr := p, ai_port := q\<rparr>" y] by (simp add: print_addr_def e addr_part_def)
  qed (simp add: print_addr_def e)
qed

text \<open>The flags are printed exactly as they are set, when no flags share a bit.\<close>

lemma flag_set_alone:
  assumes "f \<noteq> 0" and "f AND g = 0"
  shows "has_flag f f" and "\<not> has_flag f g"
  using assms by (simp_all add: has_flag_def)

lemma hint_printed: "AI_CANONNAME n \<noteq> 0 \<Longrightarrow> AI_CANONNAME n AND AI_PASSIVE n = 0 \<Longrightarrow> AI_CANONNAME n AND AI_NUMERICHOST n = 0 \<Longrightarrow>
    AI_NUMERICSERV n = None \<Longrightarrow> AI_V4MAPPED n = None \<Longrightarrow> AI_ALL n = None \<Longrightarrow> print_flags n (hint n) = ''flags canon''"
  by (simp add: print_flags_def hint_def flag_set_alone)

end
