(* ===== verification/Copy.thy ===== *)
theory Copy
  imports IoModel CalldFiles
begin

section \<open>Copies: \<^verbatim>\<open>mycat/\<close> and \<^verbatim>\<open>advio/mcopy.c\<close>\<close>

text \<open>
  Four programs copy a file: with \<^verbatim>\<open>read\<close> and \<^verbatim>\<open>write\<close>, character by character, line by line, and through memory.  The result of the first three
  is what has gone to standard output and how the program ended.  \<open>wr s\<close> is what \<^verbatim>\<open>write\<close> returns, \<open>put out\<close> whether the library takes the
  character or string that makes the output \<open>out\<close>.
\<close>

subsection \<open>\<^verbatim>\<open>mycat.c\<close>\<close>

definition CAT_BUFFSIZE :: nat where "CAT_BUFFSIZE = 4096"

function mycat :: "(string \<Rightarrow> int) \<Rightarrow> chan \<Rightarrow> string \<Rightarrow> string \<times> fatal" where
  "mycat wr c out = (case sys_read CAT_BUFFSIZE c of
       (RErr e, c') \<Rightarrow> (out, ErrSys ''read error'')
     | (Got s, c') \<Rightarrow>
       if s = [] then (out, Exit 0)
       else if wr s \<noteq> int (length s) then (out @ take (nat (wr s)) s, ErrSys ''write error'')
       else mycat wr c' (out @ s))"
  by pat_completeness auto
termination
  by (relation "measure (\<lambda>(wr, c, out). length (bytes c))") (auto simp: CAT_BUFFSIZE_def dest!: sys_read_got [OF sym])

declare mycat.simps [simp del]

subsection \<open>\<^verbatim>\<open>getcputc.c\<close> and \<^verbatim>\<open>fgetsfputs.c\<close>\<close>

text \<open>Standard input as the library sees it: the bytes before its end or before an error.\<close>

fun stdin_text :: "chan \<Rightarrow> string \<times> bool" where
  "stdin_text [] = ([], False)"
| "stdin_text (Pause # c) = stdin_text c"
| "stdin_text (Fail e # c) = ([], True)"
| "stdin_text (Piece s # c) = (s @ fst (stdin_text c), snd (stdin_text c))"

definition input_end :: "bool \<Rightarrow> fatal" where
  "input_end err = (if err then ErrSys ''input error'' else Exit 0)"

fun getc_loop :: "(string \<Rightarrow> bool) \<Rightarrow> bool \<Rightarrow> string \<Rightarrow> string \<Rightarrow> string \<times> fatal" where
  "getc_loop put err [] out = (out, input_end err)"
| "getc_loop put err (c # s) out = (if \<not> put (out @ [c]) then (out, ErrSys ''output error'') else getc_loop put err s (out @ [c]))"

definition getcputc :: "(string \<Rightarrow> bool) \<Rightarrow> chan \<Rightarrow> string \<times> fatal" where
  "getcputc put c = getc_loop put (snd (stdin_text c)) (fst (stdin_text c)) []"

text \<open>\<^verbatim>\<open>fgets\<close> returns \<^verbatim>\<open>NULL\<close> when an error ends the line it reads.\<close>

definition fgets_fails :: "bool \<Rightarrow> string \<Rightarrow> bool" where
  "fgets_fails err s \<longleftrightarrow> s = [] \<or> err \<and> length s < MAXLINE - 1 \<and> newline \<notin> set s"

function fgets_loop :: "(string \<Rightarrow> bool) \<Rightarrow> bool \<Rightarrow> string \<Rightarrow> string \<Rightarrow> string \<times> fatal" where
  "fgets_loop put err s out =
     (if fgets_fails err s then (out, input_end err)
      else case fgets (MAXLINE - 1) s of (buf, r) \<Rightarrow>
        if \<not> put (out @ cstr buf) then (out, ErrSys ''output error'') else fgets_loop put err r (out @ cstr buf))"
  by pat_completeness auto
termination
  by (relation "measure (\<lambda>(put, err, s, out). length s)") (auto simp: MAXLINE_def fgets_fails_def dest: fgets_shorter)

declare fgets_loop.simps [simp del]

definition fgetsfputs :: "(string \<Rightarrow> bool) \<Rightarrow> chan \<Rightarrow> string \<times> fatal" where
  "fgetsfputs put c = fgets_loop put (snd (stdin_text c)) (fst (stdin_text c)) []"

subsection \<open>\<^verbatim>\<open>mcopy.c\<close>\<close>

text \<open>On the files by their names; the record says which calls work.\<close>

record mcsys =
  can_read :: "string \<Rightarrow> bool"
  can_write :: "string \<Rightarrow> bool"
  fstat_ok :: bool
  write_ok :: bool
  mmap_src_ok :: bool
  mmap_dst_ok :: bool

type_synonym files = "string \<Rightarrow> string option"

definition mcopy_main :: "mcsys \<Rightarrow> string list \<Rightarrow> files \<Rightarrow> fatal \<times> files" where
  "mcopy_main k argv fs =
     (if length argv \<noteq> 3 then (ErrQuit (''usage: '' @ hd argv @ '' <fromfile> <tofile>''), fs)
      else
        let fdin = argv ! 1; fdout = argv ! 2 in
        if fs fdin = None \<or> \<not> can_read k fdin then (ErrSys (''can't open '' @ fdin @ '' for reading''), fs)
        else if \<not> can_write k fdout then (ErrSys (''can't creat '' @ fdout @ '' for writing''), fs)
        else
          let fs = fs(fdout \<mapsto> []) in
          if \<not> fstat_ok k then (ErrSys ''fstat error'', fs)
          else
            let st_size = length (the (fs fdin)) in
            if int st_size - 1 < 0 then (ErrSys ''lseek error'', fs)
            else if \<not> write_ok k then (ErrSys ''write error'', fs)
            else
              let fs = fs(fdout \<mapsto> replicate (st_size - 1) nul @ [nul]) in
              if \<not> mmap_src_ok k then (ErrSys ''mmap error for input'', fs)
              else if \<not> mmap_dst_ok k then (ErrSys ''mmap error for output'', fs)
              else (Exit 0, fs(fdout \<mapsto> take st_size (the (fs fdin)) @ drop st_size (the (fs fdout)))))"

subsection \<open>They copy\<close>

lemma mycat_copies: "no_fail c \<Longrightarrow> \<forall>s. wr s = int (length s) \<Longrightarrow> mycat wr c out = (out @ bytes c, Exit 0)"
proof (induction wr c out rule: mycat.induct)
  case (1 wr c out)
  obtain r c' where q: "sys_read CAT_BUFFSIZE c = (r, c')" by fastforce
  obtain s where s: "r = Got s" "no_fail c'" using sys_read_no_fail [OF q "1.prems"(1)] by auto
  show ?case
  proof (cases "s = []")
    case True
    then have "bytes c = []" using sys_read_eof q s by (simp add: CAT_BUFFSIZE_def)
    then show ?thesis using True q s by (subst mycat.simps) simp
  next
    case False
    then have "bytes c = s @ bytes c'" using sys_read_got [of CAT_BUFFSIZE c s c'] q s by (simp add: CAT_BUFFSIZE_def)
    moreover have "mycat wr c' (out @ s) = ((out @ s) @ bytes c', Exit 0)" using 1 q s False by metis
    ultimately show ?thesis using False q s "1.prems"(2) by (subst mycat.simps) simp
  qed
qed

lemma stdin_bytes: "no_fail c \<Longrightarrow> stdin_text c = (bytes c, False)"
  by (induction c rule: no_fail.induct) auto

lemma getc_loop_copies: "\<forall>o'. put o' \<Longrightarrow> getc_loop put err s out = (out @ s, input_end err)"
  by (induction s arbitrary: out) auto

lemma fgets_split: "fgets n s = (l, r) \<Longrightarrow> s = l @ r"
  by (auto simp: fgets_def Let_def min_def split: if_splits)

lemma cstr_length: "length (cstr s) \<le> length s" and cstr_whole: "cstr s = s \<longleftrightarrow> nul \<notin> set s"
  by (simp_all add: cstr_def length_takeWhile_le takeWhile_eq_all_conv) auto

lemma fgets_loop_copies:
  assumes "\<forall>o'. put o'"
  shows "\<exists>t. fgets_loop put False s out = (out @ t, Exit 0) \<and> length t \<le> length s \<and> (t = s \<longleftrightarrow> nul \<notin> set s)"
proof (induction "length s" arbitrary: s out rule: less_induct)
  case less
  show ?case
  proof (cases "s = []")
    case True
    then show ?thesis by (subst fgets_loop.simps) (simp add: fgets_fails_def input_end_def)
  next
    case False
    obtain b r where f: "fgets (MAXLINE - 1) s = (b, r)" by fastforce
    have s: "s = b @ r" by (rule fgets_split [OF f])
    obtain t where t: "fgets_loop put False r (out @ cstr b) = ((out @ cstr b) @ t, Exit 0)" "length t \<le> length r" "t = r \<longleftrightarrow> nul \<notin> set r"
      using less [of r "out @ cstr b"] fgets_shorter [OF f [symmetric] False] by (auto simp: MAXLINE_def)
    have "fgets_loop put False s out = (out @ (cstr b @ t), Exit 0)"
      using False f t(1) assms by (subst fgets_loop.simps) (simp add: fgets_fails_def)
    moreover have "length (cstr b @ t) \<le> length s" using cstr_length [of b] t(2) s by simp
    moreover have "cstr b @ t = s \<longleftrightarrow> nul \<notin> set s"
    proof -
      have "cstr b @ t = b @ r \<longleftrightarrow> cstr b = b \<and> t = r"
      proof
        assume e: "cstr b @ t = b @ r"
        then have "length (cstr b) + length t = length b + length r" by (metis length_append)
        then have "length (cstr b) = length b" using cstr_length [of b] t(2) by linarith
        then show "cstr b = b \<and> t = r" using e by simp
      qed simp
      then show ?thesis using s t(3) by (simp add: cstr_whole)
    qed
    ultimately show ?thesis by blast
  qed
qed

text \<open>
  Without failing calls, the programs with \<^verbatim>\<open>read\<close> and with \<^verbatim>\<open>getc\<close> print exactly their input, in whatever pieces it comes; the one with \<^verbatim>\<open>fgets\<close>
  does so exactly when there is no null byte in the input, and prints less otherwise.
\<close>

theorem copies_agree:
  assumes "no_fail c" and "\<forall>s. wr s = int (length s)" and "\<forall>s. put s"
  shows "mycat wr c [] = (bytes c, Exit 0) \<and> getcputc put c = (bytes c, Exit 0) \<and>
    (fgetsfputs put c = (bytes c, Exit 0) \<longleftrightarrow> nul \<notin> set (bytes c)) \<and>
    (\<exists>t. fgetsfputs put c = (t, Exit 0) \<and> length t \<le> length (bytes c))"
proof -
  obtain t where "fgetsfputs put c = (t, Exit 0)" "length t \<le> length (bytes c)" "t = bytes c \<longleftrightarrow> nul \<notin> set (bytes c)"
    using fgets_loop_copies [OF assms(3), of "bytes c" "[]"] by (auto simp: fgetsfputs_def stdin_bytes [OF assms(1)])
  moreover have "getcputc put c = (bytes c, Exit 0)"
    using getc_loop_copies [OF assms(3)] by (simp add: getcputc_def stdin_bytes [OF assms(1)] input_end_def)
  ultimately show ?thesis using mycat_copies [OF assms(1,2), of "[]"] by auto
qed

text \<open>
  The copy through memory is one as well, but not of an empty file, and a copy of a file to itself destroys it.
\<close>

theorem mcopy_copies:
  assumes "fs a = Some s" and "can_read k a" and "can_write k b" and "fstat_ok k" "write_ok k" "mmap_src_ok k" "mmap_dst_ok k"
  shows "mcopy_main k [prog, a, b] fs =
    (if a = b \<or> s = [] then (ErrSys ''lseek error'', fs(b \<mapsto> [])) else (Exit 0, fs(b \<mapsto> s)))"
proof (cases "a = b \<or> s = []")
  case False
  then have "int (length s) - 1 \<ge> 0" by (cases s) auto
  moreover have "replicate (length s - 1) nul @ [nul] = replicate (length s) nul"
    using False by (cases s) (simp_all add: replicate_append_same)
  ultimately show ?thesis using assms False by (simp add: mcopy_main_def Let_def)
qed (use assms in \<open>auto simp: mcopy_main_def Let_def\<close>)

end
