(* ===== verification/SmallLib.thy ===== *)
theory SmallLib
  imports IoModel CText
begin

unbundle bit_operations_syntax

section \<open>File status flags: \<^verbatim>\<open>lib/setfl.c\<close>, \<^verbatim>\<open>lib/clrfl.c\<close>, \<^verbatim>\<open>file/fileflags.c\<close>, \<^verbatim>\<open>advio/nonblockw.c\<close>\<close>

text \<open>
  The flags of the open descriptors.  \<^verbatim>\<open>F_SETFL\<close> changes only the flags that can be set (\<open>settable\<close>); \<open>setfl_ok\<close> says whether
  it works at all.  The bits behind the names are the system's; \<^verbatim>\<open>O_SYNC\<close> and \<^verbatim>\<open>O_FSYNC\<close> need not exist.
\<close>

record flsys =
  settable :: "32 word"
  setfl_ok :: bool
  O_APPEND :: "32 word"
  O_NONBLOCK :: "32 word"
  O_SYNC :: "32 word option"
  O_FSYNC :: "32 word option"

type_synonym flagtab = "nat \<Rightarrow> 32 word option"

definition O_ACCMODE :: "32 word" where "O_ACCMODE = 3"

definition F_SETFL :: "flsys \<Rightarrow> nat \<Rightarrow> 32 word \<Rightarrow> flagtab \<Rightarrow> flagtab run" where
  "F_SETFL k fd val t = (case t fd of
     Some old \<Rightarrow> if setfl_ok k then ret (t(fd \<mapsto> (old AND NOT (settable k)) OR (val AND settable k))) else die (ErrSys ''fcntl F_SETFL error'')
   | None \<Rightarrow> die (ErrSys ''fcntl F_SETFL error''))"

definition set_fl :: "flsys \<Rightarrow> nat \<Rightarrow> 32 word \<Rightarrow> flagtab \<Rightarrow> flagtab run" where
  "set_fl k fd flags t = (case t fd of
     None \<Rightarrow> die (ErrSys ''fcntl F_GETFL error'')
   | Some val \<Rightarrow> F_SETFL k fd (val OR flags) t)"

definition clr_fl :: "flsys \<Rightarrow> nat \<Rightarrow> 32 word \<Rightarrow> flagtab \<Rightarrow> flagtab run" where
  "clr_fl k fd flags t = (case t fd of
     None \<Rightarrow> die (ErrSys ''fcntl F_GETFL error'')
   | Some val \<Rightarrow> F_SETFL k fd (val AND NOT flags) t)"

definition access_word :: "32 word \<Rightarrow> string run" where
  "access_word val = (let m = val AND O_ACCMODE in
     if m = 0 then ret ''read only'' else if m = 1 then ret ''write only'' else if m = 2 then ret ''read write''
     else die (ErrDump ''unknown access mode''))"

definition flag_words :: "flsys \<Rightarrow> 32 word \<Rightarrow> string" where
  "flag_words k val =
     (if val AND O_APPEND k \<noteq> 0 then '', append'' else []) @
     (if val AND O_NONBLOCK k \<noteq> 0 then '', nonblocking'' else []) @
     (case O_SYNC k of None \<Rightarrow> [] | Some f \<Rightarrow> if val AND f \<noteq> 0 then '', synchronous writes'' else []) @
     (case O_FSYNC k of None \<Rightarrow> [] | Some f \<Rightarrow> if val AND f \<noteq> 0 then '', synchronous writes'' else [])"

definition fileflags_main :: "flsys \<Rightarrow> flagtab \<Rightarrow> string list \<Rightarrow> string run" where
  "fileflags_main k t argv = rbind (guard (length argv = 2) (ErrQuit ''usage: a.out <descriptor#>'')) (\<lambda>_.
     let fd = atoi (argv ! 1) in
     case (if fd < 0 then None else t (nat fd)) of
       None \<Rightarrow> die (ErrSys (''fcntl error for fd '' @ show_int fd))
     | Some val \<Rightarrow> rbind (access_word val) (\<lambda>w. ret (w @ flag_words k val @ [newline])))"

text \<open>\<^verbatim>\<open>nonblockw.c\<close>: one \<^verbatim>\<open>read\<close>, then \<^verbatim>\<open>write\<close> again and again; the list has the results \<^verbatim>\<open>nwrite\<close> it reports.\<close>

definition NBUF :: nat where "NBUF = 500000"

function write_all :: "string \<Rightarrow> wchan \<Rightarrow> int list \<Rightarrow> int list \<times> wchan" where
  "write_all s w log =
     (if s = [] then (log, w)
      else case sys_write s w of
        (Wrote k, w') \<Rightarrow> write_all (drop k s) w' (log @ [int k])
      | (WErr e, w') \<Rightarrow> write_all s w' (log @ [- 1]))"
  by pat_completeness auto
termination
  by (relation "measure (\<lambda>(s, w, log). length (script w) + length s)")
    (auto simp: sys_write_def split: list.splits wevent.splits)

declare write_all.simps [simp del]

definition nonblockw_main :: "flsys \<Rightarrow> chan \<Rightarrow> wchan \<Rightarrow> flagtab \<Rightarrow> (int \<times> int list \<times> wchan \<times> flagtab) run" where
  "nonblockw_main k c w t =
     (let (r, _) = sys_read NBUF c;
          (n, buf) = (case r of Got s \<Rightarrow> (int (length s), s) | RErr e \<Rightarrow> (- 1, [])) in
      rbind (set_fl k 1 (O_NONBLOCK k) t) (\<lambda>t.
      let (log, w) = write_all buf w [] in
      rbind (clr_fl k 1 (O_NONBLOCK k) t) (\<lambda>t. ret (n, log, w, t))))"

lemma flag_bits:
  fixes v :: "32 word"
  shows "v AND NOT m OR (v OR f) AND m = v OR f AND m"
    and "v AND NOT m OR (v AND NOT f) AND m = v AND NOT (f AND m)"
    and "(v OR f AND m) AND NOT (f AND m) = v AND NOT (f AND m)"
    and "v AND NOT f = v \<longleftrightarrow> v AND f = 0"
    and "m AND a = 0 \<Longrightarrow> (v OR f AND m) AND a = v AND a"
    and "m AND a = 0 \<Longrightarrow> (v AND NOT (f AND m)) AND a = v AND a"
  by (auto simp: bit_eq_iff bit_simps)

lemma set_fl_spec: "t fd = Some v \<Longrightarrow> setfl_ok k \<Longrightarrow> set_fl k fd f t = ret (t(fd \<mapsto> v OR f AND settable k))"
  by (simp add: set_fl_def F_SETFL_def flag_bits(1))

lemma clr_fl_spec: "t fd = Some v \<Longrightarrow> setfl_ok k \<Longrightarrow> clr_fl k fd f t = ret (t(fd \<mapsto> v AND NOT (f AND settable k)))"
  by (simp only: clr_fl_def F_SETFL_def flag_bits(2) option.case if_True)

text \<open>Clearing undoes setting just when the flags were not set before.\<close>

lemma set_clr:
  assumes "t fd = Some v" and "setfl_ok k"
  shows "rbind (set_fl k fd f t) (clr_fl k fd f) = ret (t(fd \<mapsto> v AND NOT (f AND settable k)))"
proof -
  have "clr_fl k fd f (t(fd \<mapsto> v OR f AND settable k)) = ret (t(fd \<mapsto> v AND NOT (f AND settable k)))"
    by (subst clr_fl_spec [of _ _ "v OR f AND settable k"]) (simp_all only: assms fun_upd_same fun_upd_upd flag_bits(3))
  then show ?thesis by (simp only: set_fl_spec [of t fd v, OF assms] rbind_simps)
qed

text \<open>The access mode cannot be changed.\<close>

lemma access_kept:
  assumes "t fd = Some v" and "setfl_ok k" and "settable k AND O_ACCMODE = 0"
    and "set_fl k fd f t = ret t' \<or> clr_fl k fd f t = ret t'"
  shows "\<exists>v'. t' fd = Some v' \<and> access_word v' = access_word v"
  using assms(4) flag_bits(5,6) [OF assms(3), of v f]
  by (auto simp only: set_fl_spec [of t fd v, OF assms(1,2)] clr_fl_spec [of t fd v, OF assms(1,2)] access_word_def Let_def
      option.inject sum.inject fun_upd_same)

lemma write_all_sent: "sent (snd (write_all s w log)) = sent w @ s"
proof (induction s w log rule: write_all.induct)
  case (1 s w log)
  show ?case
  proof (cases "s = []")
    case False
    obtain r w' where q: "sys_write s w = (r, w')" by fastforce
    show ?thesis
    proof (cases r)
      case (Wrote k)
      then have "sent w' = sent w @ take k s"
        using q by (auto simp: sys_write_def min_def split: list.splits wevent.splits if_splits)
      moreover have "sent (snd (write_all (drop k s) w' (log @ [int k]))) = sent w' @ drop k s" using 1 False q Wrote by metis
      ultimately show ?thesis using False q Wrote by (subst write_all.simps) simp
    next
      case (WErr e)
      then have "sent w' = sent w" using q by (auto simp: sys_write_def split: list.splits wevent.splits)
      moreover have "sent (snd (write_all s w' (log @ [- 1]))) = sent w' @ s" using 1 False q WErr by metis
      ultimately show ?thesis using False q WErr by (subst write_all.simps) simp
    qed
  qed (subst write_all.simps, simp)
qed

text \<open>
  The nonblocking writer writes exactly what its one \<^verbatim>\<open>read\<close> gave, however often \<^verbatim>\<open>write\<close> fails or takes only a part; its output descriptor has its old flags at
  the end when it was blocking before.
\<close>

theorem nonblockw_writes:
  assumes "t 1 = Some v" and "setfl_ok k" and "sys_read NBUF c = (Got s, c')" and "sent w = []" and "v AND (O_NONBLOCK k AND settable k) = 0"
  shows "\<exists>log w'. nonblockw_main k c w t = ret (int (length s), log, w', t) \<and> sent w' = s"
proof -
  let ?t = "t(1 \<mapsto> v OR O_NONBLOCK k AND settable k)"
  obtain log w' where w: "write_all s w [] = (log, w')" by fastforce
  have t: "t(1 \<mapsto> v) = t" using assms(1) by (intro ext) simp
  have "clr_fl k 1 (O_NONBLOCK k) ?t = ret t"
    using set_clr [of t 1 v, OF assms(1,2), of "O_NONBLOCK k"] set_fl_spec [of t 1 v, OF assms(1,2)] flag_bits(4) [of v "O_NONBLOCK k AND settable k"] assms(5)
    by (simp only: rbind_simps t simp_thms)
  moreover have "sent w' = s" using write_all_sent [of s w "[]"] w assms(4) by simp
  moreover have "set_fl k 1 (O_NONBLOCK k) t = ret ?t" by (rule set_fl_spec [of t 1 v, OF assms(1,2)])
  ultimately show ?thesis using w by (simp add: nonblockw_main_def assms(3) del: One_nat_def)
qed

section \<open>How processes end, signals and limits: \<^verbatim>\<open>lib/prexit.c\<close>, \<^verbatim>\<open>proc/wait1.c\<close>, \<^verbatim>\<open>lib/signal.c\<close>, \<^verbatim>\<open>lib/signalintr.c\<close>, \<^verbatim>\<open>lib/openmax.c\<close>\<close>

text \<open>What the macros of \<^verbatim>\<open>wait\<close> say of a status; the last is a status of none of the three kinds.\<close>

datatype wstatus = WExited nat | WSignaled nat bool | WStopped nat | WOther

definition pr_exit :: "wstatus \<Rightarrow> string" where
  "pr_exit status = (case status of
     WExited n \<Rightarrow> ''normal termination, exit status = '' @ dec n @ [newline]
   | WSignaled s core \<Rightarrow> ''abnormal termination, signal number = '' @ dec s @ (if core then '' (core file generated)'' else []) @ [newline]
   | WStopped s \<Rightarrow> ''child stopped, signal number = '' @ dec s @ [newline]
   | WOther \<Rightarrow> [])"

text \<open>
  The three children of \<^verbatim>\<open>wait1.c\<close>: the system says of each \<^verbatim>\<open>fork\<close> whether it works, and of each child with which status it is
  waited for.  \<open>ends\<close> are those for \<^verbatim>\<open>exit(7)\<close>, \<^verbatim>\<open>abort\<close>, and the division by 0.
\<close>

fun wait_each :: "(bool \<times> bool \<times> wstatus) list \<Rightarrow> string \<Rightarrow> string run" where
  "wait_each [] out = ret out"
| "wait_each ((fork_ok, wait_ok, status) # cs) out =
     rbind (guard fork_ok (ErrSys ''fork error'')) (\<lambda>_.
     rbind (guard wait_ok (ErrSys ''wait error'')) (\<lambda>_.
     wait_each cs (out @ pr_exit status)))"

definition wait1_main :: "(nat \<Rightarrow> bool \<times> bool) \<Rightarrow> (nat \<Rightarrow> wstatus) \<Rightarrow> string run" where
  "wait1_main calls ends = wait_each (map (\<lambda>i. (fst (calls i), snd (calls i), ends i)) [0, 1, 2]) []"

text \<open>The text tells the statuses apart.\<close>

lemma pr_exit_inj: "pr_exit x = pr_exit y \<longleftrightarrow> x = y"
proof -
  have d: "\<not> is_digit CHR '' ''" "\<not> is_digit newline" by (simp_all add: is_digit_def newline_def)
  have s: "dec m @ c # x = dec n @ d # y \<longleftrightarrow> m = n \<and> c # x = d # y" if "\<not> is_digit c" "\<not> is_digit d" for m n c d x y
  proof
    assume e: "dec m @ c # x = dec n @ d # y"
    have t: "takeWhile is_digit (dec k @ c # z) = dec k" if "\<not> is_digit c" for k c z
      using that dec_digits [of k] by (simp add: takeWhile_append_stop)
    have "dec m = dec n" using t [OF that(1), of m x] t [OF that(2), of n y] e by simp
    then show "m = n \<and> c # x = d # y" using e by simp
  qed simp
  have "CHR '' '' \<notin> set (dec n)" for n by (rule notin_dec) (rule d)
  then have "dec m \<noteq> dec n @ CHR '' '' # t" "dec n @ CHR '' '' # t \<noteq> dec m" for m n t by (metis in_set_conv_decomp)+
  then show ?thesis by (cases x; cases y) (auto simp: pr_exit_def s d newline_def)
qed

subsection \<open>Signal actions\<close>

record sigaction =
  sa_handler :: nat
  sa_mask :: "nat set"
  sa_flags :: "32 word"

record sasys =
  SA_INTERRUPT :: "32 word option"
  SA_RESTART :: "32 word option"
  catchable :: "nat \<Rightarrow> bool"

definition SIGALRM :: nat where "SIGALRM = 14"

definition opt_flag :: "32 word option \<Rightarrow> 32 word" where
  "opt_flag f = (case f of None \<Rightarrow> 0 | Some b \<Rightarrow> b)"

text \<open>The result is \<open>None\<close> for \<^verbatim>\<open>SIG_ERR\<close>.\<close>

definition sigaction_call :: "sasys \<Rightarrow> nat \<Rightarrow> sigaction \<Rightarrow> (nat \<Rightarrow> sigaction) \<Rightarrow> nat option \<times> (nat \<Rightarrow> sigaction)" where
  "sigaction_call k signo act acts = (if catchable k signo then (Some (sa_handler (acts signo)), acts(signo := act)) else (None, acts))"

definition signal :: "sasys \<Rightarrow> nat \<Rightarrow> nat \<Rightarrow> (nat \<Rightarrow> sigaction) \<Rightarrow> nat option \<times> (nat \<Rightarrow> sigaction)" where
  "signal k signo func acts =
     sigaction_call k signo \<lparr>sa_handler = func, sa_mask = {},
       sa_flags = (if signo = SIGALRM then 0 OR opt_flag (SA_INTERRUPT k) else 0 OR opt_flag (SA_RESTART k))\<rparr> acts"

definition signal_intr :: "sasys \<Rightarrow> nat \<Rightarrow> nat \<Rightarrow> (nat \<Rightarrow> sigaction) \<Rightarrow> nat option \<times> (nat \<Rightarrow> sigaction)" where
  "signal_intr k signo func acts =
     sigaction_call k signo \<lparr>sa_handler = func, sa_mask = {}, sa_flags = 0 OR opt_flag (SA_INTERRUPT k)\<rparr> acts"

text \<open>The \<^verbatim>\<open>signal\<close> of \<^verbatim>\<open>Exp_5\<close>, which keeps its two handlers apart.\<close>

definition SIGQUIT :: nat where "SIGQUIT = 3"

definition exp5_signal :: "sasys \<Rightarrow> nat \<Rightarrow> nat \<Rightarrow> (nat \<Rightarrow> sigaction) \<Rightarrow> nat option \<times> (nat \<Rightarrow> sigaction)" where
  "exp5_signal k signo func acts =
     sigaction_call k signo \<lparr>sa_handler = func,
       sa_mask = (if signo = SIGALRM then {SIGQUIT} else if signo = SIGQUIT then {SIGALRM} else {}),
       sa_flags = (if signo = SIGALRM then 0 OR opt_flag (SA_INTERRUPT k) else if signo = SIGQUIT then 0 OR opt_flag (SA_RESTART k) else 0)\<rparr> acts"

text \<open>Once both handlers are set, in either order, each of the two signals is blocked while the handler of one of them runs.\<close>

lemma exp5_handlers_apart:
  assumes "{x, y} = {SIGALRM, SIGQUIT}" and "exp5_signal k x f acts = (Some r, acts1)" and "exp5_signal k y g acts1 = (Some r', acts2)" and "s \<in> {x, y}"
  shows "insert s (sa_mask (acts2 s)) = {SIGALRM, SIGQUIT}"
  using assms by (auto simp: exp5_signal_def sigaction_call_def SIGALRM_def SIGQUIT_def doubleton_eq_iff split: if_splits)

text \<open>
  A signal set with \<^verbatim>\<open>signal_intr\<close> interrupts the slow calls, one set with \<^verbatim>\<open>signal\<close> only when it is \<^verbatim>\<open>SIGALRM\<close>; setting the old handler again
  gives the old action back when it was made by the same function.
\<close>

lemma signal_restores:
  assumes "catchable k signo" and "signal k signo f acts = (r, acts1)" and "signal k signo g acts1 = (r', acts2)"
  shows "r' = Some f \<and> (\<exists>old. r = Some old \<and> signal k signo old acts2 = (Some g, acts2(signo := (acts2 signo)\<lparr>sa_handler := old\<rparr>)))"
  using assms by (auto simp: signal_def sigaction_call_def)

lemma signal_restarts:
  assumes "catchable k signo" and "SA_RESTART k = Some r" and "opt_flag (SA_INTERRUPT k) AND r = 0" and "r \<noteq> 0"
  shows "sa_flags (snd (signal k signo f acts) signo) AND r \<noteq> 0 \<longleftrightarrow> signo \<noteq> SIGALRM"
    and "sa_flags (snd (signal_intr k signo f acts) signo) AND r = 0"
  using assms by (auto simp: signal_def signal_intr_def sigaction_call_def opt_flag_def)

subsection \<open>\<^verbatim>\<open>open_max\<close> and \<^verbatim>\<open>sleep_us\<close>\<close>

text \<open>\<open>openmax\<close> is the static variable, at first the value of \<^verbatim>\<open>OPEN_MAX\<close> or 0; \<open>sc\<close> is what \<^verbatim>\<open>sysconf\<close> returns, with \<^verbatim>\<open>errno\<close>.\<close>

definition OPEN_MAX_GUESS :: int where "OPEN_MAX_GUESS = 256"

definition open_max :: "int \<times> nat \<Rightarrow> int \<Rightarrow> (int \<times> int) run" where
  "open_max sc openmax =
     (if openmax = 0 then
        (if fst sc < 0 then (if snd sc = 0 then ret (OPEN_MAX_GUESS, OPEN_MAX_GUESS) else die (ErrSys ''sysconf error for _SC_OPEN_MAX''))
         else ret (fst sc, fst sc))
      else ret (openmax, openmax))"

lemma open_max_stable: "open_max sc m = ret (r, m') \<Longrightarrow> r \<noteq> 0 \<Longrightarrow> open_max sc' m' = ret (r, m')"
  by (auto simp: open_max_def OPEN_MAX_GUESS_def split: if_splits)

definition sleep_us :: "32 word \<Rightarrow> nat \<times> nat" where
  "sleep_us nusecs = (unat (nusecs div 1000000), unat (nusecs mod 1000000))"

lemma sleep_us_time: "sleep_us n = (s, u) \<Longrightarrow> s * 1000000 + u = unat n \<and> u < 1000000"
  by (auto simp: sleep_us_def unat_div unat_mod)

section \<open>Accounting records: \<^verbatim>\<open>proc/pracct.c\<close>\<close>

text \<open>
  A \<^verbatim>\<open>comp_t\<close> has 13 bits of fraction and an exponent of 3 bits, base 8.  \<open>'l\<close> is \<^verbatim>\<open>unsigned long\<close>.
\<close>

fun mul8 :: "nat \<Rightarrow> 'l::len word \<Rightarrow> 'l word" where
  "mul8 0 val = val"
| "mul8 (Suc n) val = mul8 n (val * 8)"

definition compt2ulong :: "16 word \<Rightarrow> 'l::len word" where
  "compt2ulong comptime = mul8 (unat (drop_bit 13 comptime AND 7)) (ucast (comptime AND 0x1fff))"

record acct =
  ac_comm :: string
  ac_etime :: "16 word"
  ac_io :: "16 word"
  ac_flag :: "8 word"

record acsys =
  ACORE :: "8 word"
  AXSIG :: "8 word"
  AFORK :: "8 word"
  ASU :: "8 word"

definition flag_char :: "8 word \<Rightarrow> 8 word \<Rightarrow> char \<Rightarrow> char" where
  "flag_char fl b c = (if fl AND b \<noteq> 0 then c else space)"

text \<open>The line of a record, on a system without \<^verbatim>\<open>ac_stat\<close>.\<close>

definition acct_line :: "acsys \<Rightarrow> acct \<Rightarrow> string" where
  "acct_line k a = (let nm = cstr (ac_comm a) in
     nm @ replicate (length (ac_comm a) - length nm) space @
     ''  e = '' @ fmtw 6 (unat (compt2ulong (ac_etime a) :: 64 word)) @ '', chars = '' @ fmtw 7 (unat (compt2ulong (ac_io a) :: 64 word)) @ '', '' @
     [flag_char (ac_flag a) (ACORE k) CHR ''D'', space, flag_char (ac_flag a) (AXSIG k) CHR ''X'', space,
      flag_char (ac_flag a) (AFORK k) CHR ''F'', space, flag_char (ac_flag a) (ASU k) CHR ''S'', newline])"

text \<open>\<open>read_err\<close>: the file ends in a read error; a partial record at its end is not printed.\<close>

definition pracct_main :: "acsys \<Rightarrow> string list \<Rightarrow> (string \<Rightarrow> (acct list \<times> bool) option) \<Rightarrow> string run" where
  "pracct_main k argv file = rbind (guard (length argv = 2) (ErrQuit ''usage: pracct filename'')) (\<lambda>_.
     case file (argv ! 1) of
       None \<Rightarrow> die (ErrSys (''can't open '' @ argv ! 1))
     | Some (recs, read_err) \<Rightarrow> if read_err then die (ErrSys ''read error'') else ret (concat (map (acct_line k) recs)))"

lemma mul8_power: "mul8 n val = val * 8 ^ n"
  by (induction n val rule: mul8.induct) (simp_all add: mult.assoc)

text \<open>With 64 bits the number is exact; with 32 bits it wraps around for large exponents.\<close>

lemma compt2ulong_parts:
  "compt2ulong c = (word_of_nat (unat c mod 8192 * 8 ^ (unat c div 8192)) :: 'l::len word)"
proof -
  have m: "(0x1fff :: 16 word) = mask 13" "(7 :: 16 word) = mask 3" by (simp_all add: mask_eq_exp_minus_1)
  have "unat c < 2 ^ 16" using unsigned_less [of c, where 'a = nat] by simp
  then have "unat c div 8192 < 8" by simp
  then have e: "unat (drop_bit 13 c AND 7) = unat c div 8192"
    by (simp add: m(2) flip: take_bit_eq_mask) (simp add: unat_div unat_mod drop_bit_eq_div take_bit_eq_mod)
  have f: "unat (c AND 0x1fff) = unat c mod 8192"
    by (simp add: m(1) flip: take_bit_eq_mask) (simp add: unat_mod take_bit_eq_mod)
  have "ucast (c AND 0x1fff) = (word_of_nat (unat c mod 8192) :: 'l word)" by (metis f of_nat_unat)
  then show ?thesis by (simp add: compt2ulong_def mul8_power e)
qed

theorem compt2ulong_exact:
  "unat (compt2ulong c :: 64 word) = unat c mod 8192 * 8 ^ (unat c div 8192)"
  "unat (compt2ulong 0xffff :: 32 word) < unat (0xffff :: 16 word) mod 8192 * 8 ^ (unat (0xffff :: 16 word) div 8192)"
proof -
  have "unat c < 2 ^ 16" using unsigned_less [of c, where 'a = nat] by simp
  then have "unat c div 8192 \<le> 7" by simp
  then have "(8 :: nat) ^ (unat c div 8192) \<le> 8 ^ 7" by (rule power_increasing) simp
  moreover have "unat c mod 8192 \<le> 8191" by (simp add: less_Suc_eq_le [symmetric])
  moreover have small: "unat (word_of_nat n :: 64 word) = n" if "n \<le> 8191 * 8 ^ 7" for n using that by (simp add: unat_of_nat)
  ultimately have "unat c mod 8192 * 8 ^ (unat c div 8192) \<le> 8191 * 8 ^ 7" by (intro mult_le_mono)
  then show "unat (compt2ulong c :: 64 word) = unat c mod 8192 * 8 ^ (unat c div 8192)"
    using small unfolding compt2ulong_parts by blast
  show "unat (compt2ulong 0xffff :: 32 word) < unat (0xffff :: 16 word) mod 8192 * 8 ^ (unat (0xffff :: 16 word) div 8192)"
    by (subst compt2ulong_parts) (simp add: unat_of_nat)
qed

end
