(* ===== verification/Coprocess.thy ===== *)
theory Coprocess
  imports CalldFiles FdTable IoModel
begin

section \<open>A coprocess: \<^verbatim>\<open>ipc/pipe4.c\<close>, \<^verbatim>\<open>ipc/add2.c\<close>, \<^verbatim>\<open>ipc/add2stdio.c\<close>\<close>

subsection \<open>The filter that adds\<close>

text \<open>\<^verbatim>\<open>%d\<close> of \<^verbatim>\<open>sscanf\<close>: the number and the rest.\<close>

definition scan_int :: "string \<Rightarrow> (int \<times> string) option" where
  "scan_int s =
     (let t = dropWhile is_space s;
          (neg, u) = (case t of c # r \<Rightarrow> if c = CHR ''-'' then (True, r) else if c = CHR ''+'' then (False, r) else (False, t) | [] \<Rightarrow> (False, t));
          ds = takeWhile is_digit u; n = int (digits_val ds) in
      if ds = [] then None else Some (if neg then - n else n, dropWhile is_digit u))"

definition int_range :: "int \<Rightarrow> bool" where
  "int_range n \<longleftrightarrow> - (2 ^ 31) \<le> n \<and> n < 2 ^ 31"

definition invalid_args :: string where
  "invalid_args = ''invalid args'' @ [newline]"

text \<open>The answer to the text \<open>line\<close>; a number outside of \<^verbatim>\<open>int\<close> is undefined behaviour of \<^verbatim>\<open>sscanf\<close> and of the sum.\<close>

definition add2_text :: "string \<Rightarrow> string run" where
  "add2_text line = (case scan_int line of
     None \<Rightarrow> ret invalid_args
   | Some (int1, r) \<Rightarrow> (case scan_int r of
       None \<Rightarrow> ret invalid_args
     | Some (int2, _) \<Rightarrow> if int_range int1 \<and> int_range int2 \<and> int_range (int1 + int2) then ret (show_int (int1 + int2) @ [newline])
         else die (Undef ''signed overflow'')))"

text \<open>\<^verbatim>\<open>add2\<close>: the answer to what one \<^verbatim>\<open>read\<close> gave; its null byte is written behind \<^verbatim>\<open>line\<close> when \<^verbatim>\<open>MAXLINE\<close> bytes came.\<close>

definition add2_answer :: "string \<Rightarrow> string run" where
  "add2_answer s = rbind (guard (length s < MAXLINE) (Undef ''line[n] = 0'')) (\<lambda>_. add2_text (cstr s))"

text \<open>Its \<^verbatim>\<open>main\<close>; \<open>wr\<close> says how many bytes \<^verbatim>\<open>write\<close> takes.  An error of \<^verbatim>\<open>read\<close> ends it like the end of the input.\<close>

function add2_main :: "(string \<Rightarrow> int) \<Rightarrow> chan \<Rightarrow> string \<Rightarrow> string run" where
  "add2_main wr c out = (case sys_read MAXLINE c of
       (RErr e, c') \<Rightarrow> ret out
     | (Got s, c') \<Rightarrow>
       if s = [] then ret out
       else rbind (add2_answer s) (\<lambda>a.
         if wr a \<noteq> int (length a) then die (ErrSys ''write error'') else add2_main wr c' (out @ a)))"
  by pat_completeness auto
termination
  by (relation "measure (\<lambda>(wr, c, out). length (bytes c))") (auto simp: MAXLINE_def dest!: sys_read_got [OF sym])

declare add2_main.simps [simp del]

subsection \<open>The parent\<close>

text \<open>
  \<open>co\<close> is the coprocess: given what was written to it, what the parent's next \<^verbatim>\<open>read\<close> gives; \<open>None\<close> when that never returns.
\<close>

function pipe4_loop :: "('s \<Rightarrow> string \<Rightarrow> (string \<times> 's) run) \<Rightarrow> 's \<Rightarrow> string \<Rightarrow> string \<Rightarrow> string run" where
  "pipe4_loop co st inp out =
     (if inp = [] then ret out
      else case fgets (MAXLINE - 1) inp of (l, rest) \<Rightarrow>
        rbind (co st (cstr l)) (\<lambda>(ans, st').
          if ans = [] then ret out
          else rbind (guard (length ans < MAXLINE) (Undef ''line[n] = 0'')) (\<lambda>_. pipe4_loop co st' rest (out @ cstr ans))))"
  by pat_completeness auto
termination
  by (relation "measure (\<lambda>(co, st, inp, out). length inp)") (auto simp: MAXLINE_def dest: fgets_shorter)

declare pipe4_loop.simps [simp del]

text \<open>\<^verbatim>\<open>add2\<close> as the coprocess.  Nothing written is nothing to read.\<close>

definition add2_co :: "unit \<Rightarrow> string \<Rightarrow> (string \<times> unit) run" where
  "add2_co u s = (if s = [] then None else rbind (add2_answer s) (\<lambda>a. ret (a, ())))"

text \<open>
  \<^verbatim>\<open>add2stdio\<close> reads and writes with the library: it answers whole lines, and the answers stay in a buffer of \<open>bufsiz\<close> bytes until it is full.
  The state is the beginning of a line and the buffer.
\<close>

function whole_lines :: "string \<Rightarrow> string \<Rightarrow> (string \<times> string) run" where
  "whole_lines s out =
     (if newline \<notin> set s then ret (s, out)
      else case fgets (MAXLINE - 1) s of (l, r) \<Rightarrow> rbind (add2_text (cstr l)) (\<lambda>a. whole_lines r (out @ a)))"
  by pat_completeness auto
termination
  by (relation "measure (\<lambda>(s, out). length s)") (auto simp: MAXLINE_def dest: fgets_shorter)

declare whole_lines.simps [simp del]

definition add2stdio_co :: "nat \<Rightarrow> string \<times> string \<Rightarrow> string \<Rightarrow> (string \<times> string \<times> string) run" where
  "add2stdio_co bufsiz st s = rbind (whole_lines (fst st @ s) (snd st)) (\<lambda>(r, out).
     if length out < bufsiz \<or> bufsiz = 0 then None else ret (take bufsiz out, r, drop bufsiz out))"

text \<open>The descriptors of the child at \<^verbatim>\<open>execl\<close>: the ends of the two pipes become the standard ones.\<close>

definition pipe4_child :: "nat \<times> nat \<Rightarrow> nat \<times> nat \<Rightarrow> 'a fdtab \<Rightarrow> 'a fdtab run" where
  "pipe4_child fd1 fd2 t =
     (let t = fd_close (fst fd2) (fd_close (snd fd1) t) in
      rbind (if fst fd1 \<noteq> 0 then (case fd_dup2 (fst fd1) 0 t of
               (False, t) \<Rightarrow> die (ErrSys ''dup2 error to stdin'') | (True, t) \<Rightarrow> ret (fd_close (fst fd1) t)) else ret t) (\<lambda>t.
      if snd fd2 \<noteq> 1 then (case fd_dup2 (snd fd2) 1 t of
               (False, t) \<Rightarrow> die (ErrSys ''dup2 error to stdout'') | (True, t) \<Rightarrow> ret (fd_close (snd fd2) t)) else ret t))"

subsection \<open>Sums come back\<close>

lemma digit_facts: "is_digit c \<Longrightarrow> \<not> is_space c" "\<not> is_digit CHR ''-''" "\<not> is_space CHR ''-''" "is_space space" "\<not> is_digit space" "\<not> is_digit newline"
  "\<not> is_digit CHR ''+''"
  by (auto simp: is_space_def is_digit_def space_def newline_def)

lemma dec_Cons: "\<exists>x xs. dec k = x # xs \<and> is_digit x"
  using dec_digits [of k] dec_nonempty [of k] by (cases "dec k") auto

lemma scan_show:
  assumes "\<not> is_digit c"
  shows "scan_int (show_int n @ c # r) = Some (n, c # r)" and "scan_int (space # show_int n @ c # r) = Some (n, c # r)"
proof -
  have d: "takeWhile is_digit (dec k @ c # r) = dec k" "dropWhile is_digit (dec k @ c # r) = c # r" for k
    using assms dec_digits [of k] by (simp_all add: takeWhile_append_stop dropWhile_append_stop)
  show one: "scan_int (show_int n @ c # r) = Some (n, c # r)"
  proof (cases "n < 0")
    case True
    then show ?thesis by (simp add: scan_int_def show_int_def digit_facts d digits_val_dec)
  next
    case False
    obtain x xs where x: "dec (nat n) = x # xs" "is_digit x" using dec_Cons by blast
    then have ne: "x \<noteq> CHR ''-''" "x \<noteq> CHR ''+''" using digit_facts by auto
    have ds: "dropWhile is_space (dec (nat n) @ c # r) = dec (nat n) @ c # r" by (simp add: x digit_facts)
    have cs: "(case dec (nat n) @ c # r of e # r' \<Rightarrow> if e = CHR ''-'' then (True, r') else if e = CHR ''+'' then (False, r') else (False, dec (nat n) @ c # r)
        | [] \<Rightarrow> (False, dec (nat n) @ c # r)) = (False, dec (nat n) @ c # r)" by (simp add: x(1) ne)
    have "show_int n = dec (nat n)" using False by (simp add: show_int_def)
    then show ?thesis using False by (simp only: scan_int_def Let_def ds cs prod.case d digits_val_dec dec_nonempty if_False) simp
  qed
  show "scan_int (space # show_int n @ c # r) = Some (n, c # r)"
    using one by (simp add: scan_int_def digit_facts)
qed

lemma add2_line:
  assumes "int_range m" "int_range n" "int_range (m + n)"
  shows "add2_text (show_int m @ space # show_int n @ [newline]) = ret (show_int (m + n) @ [newline])"
  using assms scan_show [of space m "show_int n @ [newline]"] scan_show(2) [of newline n "[]"] by (simp add: add2_text_def digit_facts)

definition pair_line :: "int \<times> int \<Rightarrow> string" where
  "pair_line mn = show_int (fst mn) @ space # show_int (snd mn) @ [newline]"

definition sum_line :: "int \<times> int \<Rightarrow> string" where
  "sum_line mn = show_int (fst mn + snd mn) @ [newline]"

definition pair_range :: "int \<times> int \<Rightarrow> bool" where
  "pair_range mn \<longleftrightarrow> int_range (fst mn) \<and> int_range (snd mn) \<and> int_range (fst mn + snd mn)"

lemma show_int_length: "int_range n \<Longrightarrow> length (show_int n) \<le> 11"
proof -
  assume n: "int_range n"
  have d: "length (dec k) \<le> 10" if "k \<le> 2 ^ 31" for k using that by (intro length_dec_le) simp_all
  have "nat n \<le> 2 ^ 31" "nat (- n) \<le> 2 ^ 31" using n by (simp_all add: int_range_def nat_le_iff)
  from d [OF this(1)] d [OF this(2)] show ?thesis by (simp add: show_int_def)
qed

lemma show_int_chars: "newline \<notin> set (show_int n)" "nul \<notin> set (show_int n)"
  by (auto simp: notin_show_int newline_def nul_def is_digit_def)

lemma pair_line_facts:
  assumes "pair_range mn"
  shows "fgets (MAXLINE - 1) (pair_line mn @ r) = (pair_line mn, r)" and "cstr (pair_line mn) = pair_line mn" "cstr (sum_line mn) = sum_line mn"
    and "length (pair_line mn) < MAXLINE" "length (sum_line mn) < MAXLINE" "add2_text (pair_line mn) = ret (sum_line mn)"
proof -
  have l: "length (show_int (fst mn)) \<le> 11" "length (show_int (snd mn)) \<le> 11" "length (show_int (fst mn + snd mn)) \<le> 11"
    using assms by (auto simp: pair_range_def intro: show_int_length)
  have n: "newline \<notin> set (show_int (fst mn) @ space # show_int (snd mn))" by (simp add: show_int_chars)
  show "fgets (MAXLINE - 1) (pair_line mn @ r) = (pair_line mn, r)"
    using fgets_line [OF n, of "MAXLINE - 1" r] l by (simp add: pair_line_def MAXLINE_def)
  have "nul \<noteq> space" "nul \<noteq> newline" by (simp_all add: nul_def space_def newline_def)
  then show "cstr (pair_line mn) = pair_line mn" "cstr (sum_line mn) = sum_line mn"
    by (intro cstr_id; simp add: pair_line_def sum_line_def show_int_chars)+
  show "length (pair_line mn) < MAXLINE" "length (sum_line mn) < MAXLINE" using l by (simp_all add: pair_line_def sum_line_def MAXLINE_def)
  show "add2_text (pair_line mn) = ret (sum_line mn)" using assms by (simp add: add2_line pair_line_def sum_line_def pair_range_def)
qed

lemma pipe4_sums:
  "\<forall>mn \<in> set ps. pair_range mn \<Longrightarrow> pipe4_loop add2_co () (concat (map pair_line ps)) out = ret (out @ concat (map sum_line ps))"
proof (induction ps arbitrary: out)
  case Nil
  then show ?case by (subst pipe4_loop.simps) simp
next
  case (Cons p ps)
  have p: "pair_range p" using Cons.prems by simp
  note f = pair_line_facts [OF p]
  have ne: "pair_line p \<noteq> []" "sum_line p \<noteq> []" by (simp_all add: pair_line_def sum_line_def)
  have "add2_co () (pair_line p) = ret (sum_line p, ())" using f Cons.prems ne by (simp add: add2_co_def add2_answer_def)
  then show ?case using f(1) [of "concat (map pair_line ps)"] f(2-) Cons ne by (subst pipe4_loop.simps) simp
qed

text \<open>
  Pairs of numbers, one pair a line, come back as their sums, in order, from the filter with \<^verbatim>\<open>read\<close> and \<^verbatim>\<open>write\<close>; with the filter that uses
  the library and a full buffer behind a pipe, parent and child wait for each other after the first line.
\<close>

theorem coprocess_adds:
  assumes "\<forall>mn \<in> set ps. pair_range mn"
  shows "pipe4_loop add2_co () (concat (map pair_line ps)) [] = ret (concat (map sum_line ps)) \<and>
    (ps \<noteq> [] \<and> 12 < bufsiz \<longrightarrow> pipe4_loop (add2stdio_co bufsiz) ([], []) (concat (map pair_line ps)) [] = None)"
proof -
  have "pipe4_loop (add2stdio_co bufsiz) ([], []) (concat (map pair_line ps)) [] = None" if ne: "ps \<noteq> []" and b: "12 < bufsiz"
  proof -
    obtain p qs where ps: "ps = p # qs" using ne by (cases ps) auto
    have p: "pair_range p" using assms ps by simp
    note f = pair_line_facts [OF p]
    have "newline \<in> set (pair_line p)" by (simp add: pair_line_def)
    moreover have "whole_lines [] (sum_line p) = ret ([], sum_line p)" by (subst whole_lines.simps) simp
    ultimately have "whole_lines (pair_line p) [] = ret ([], sum_line p)"
      using f(1) [of "[]"] f(2,6) by (subst whole_lines.simps) simp
    moreover have "length (sum_line p) \<le> 12" using p show_int_length by (simp add: sum_line_def pair_range_def)
    ultimately have "add2stdio_co bufsiz ([], []) (pair_line p) = None" using b by (simp add: add2stdio_co_def)
    then show ?thesis using f(1) [of "concat (map pair_line qs)"] f(2)
      by (subst pipe4_loop.simps) (simp add: ps pair_line_def)
  qed
  then show ?thesis using pipe4_sums [OF assms, of "[]"] by simp
qed

text \<open>A line that fills the buffer of \<^verbatim>\<open>add2\<close> makes it write behind the buffer; the parent never sends one.\<close>

lemma add2_overflow: "length s = MAXLINE \<Longrightarrow> add2_answer s = die (Undef ''line[n] = 0'')"
  by (simp add: add2_answer_def)

lemma fgets_length: "fgets n s = (l, r) \<Longrightarrow> length l \<le> n"
  by (auto simp: fgets_def Let_def split: if_splits)

lemma pipe4_writes_short: "fgets (MAXLINE - 1) s = (l, r) \<Longrightarrow> length (cstr l) < MAXLINE"
  using fgets_length [of "MAXLINE - 1" s l r] length_takeWhile_le [of "\<lambda>c. c \<noteq> nul" l] by (simp add: cstr_def MAXLINE_def)

text \<open>The child has exactly the two ends it needs, and what the parent had open above the standard descriptors.\<close>

lemma pipe4_child_fds:
  assumes "t a = Some x" and "t d = Some y" and "distinct [a, b, c, d]" and "a \<noteq> 1" "d \<noteq> 0"
  shows "\<exists>t'. pipe4_child (a, b) (c, d) t = ret t' \<and> t' 0 = Some x \<and> t' 1 = Some y \<and>
    (\<forall>i. i \<noteq> 0 \<and> i \<noteq> 1 \<longrightarrow> t' i = (if i \<in> {a, b, c, d} then None else t i))"
proof -
  let ?t = "fd_close c (fd_close b t)"
  let ?u = "if a \<noteq> 0 then fd_close a (?t(0 \<mapsto> x)) else ?t"
  let ?v = "if d \<noteq> 1 then fd_close d (?u(1 \<mapsto> y)) else ?u"
  have a: "?t a = Some x" "?t d = Some y" using assms by (auto simp: fd_close_def)
  then have d: "?u d = Some y" using assms(3,5) by (auto simp: fd_close_def)
  have dup: "fd_dup2 f g w = (True, w(g \<mapsto> z))" if "w f = Some z" for f g and w :: "'a fdtab" and z using that by (simp add: fd_dup2_def)
  have one: "(if a \<noteq> 0 then (case fd_dup2 a 0 ?t of (False, t) \<Rightarrow> die (ErrSys ''dup2 error to stdin'') | (True, t) \<Rightarrow> ret (fd_close a t)) else ret ?t) = ret ?u"
    using dup [of ?t a x 0, OF a(1)] by simp
  have two: "(if d \<noteq> 1 then (case fd_dup2 d 1 ?u of (False, t) \<Rightarrow> die (ErrSys ''dup2 error to stdout'') | (True, t) \<Rightarrow> ret (fd_close d t)) else ret ?u) = ret ?v"
    using dup [of ?u d y 1, OF d] by simp
  have "pipe4_child (a, b) (c, d) t = ret ?v"
    unfolding pipe4_child_def Let_def fst_conv snd_conv one rbind_simps two by (rule refl)
  moreover have "?u 0 = Some x" using a(1) by (cases "a = 0") (simp_all add: fd_close_def)
  then have "?v 0 = Some x" using assms(5) by (simp add: fd_close_def)
  moreover have "?v 1 = Some y"
  proof (cases "d = 1")
    case True
    then show ?thesis using d by (simp split del: if_split)
  qed (simp add: fd_close_def)
  moreover have "?v i = (if i \<in> {a, b, c, d} then None else t i)" if "i \<noteq> 0" "i \<noteq> 1" for i
    using that by (simp add: fd_close_def)
  ultimately show ?thesis by blast
qed

subsection \<open>One stream pipe: \<^verbatim>\<open>ipc/spipe4.c\<close>\<close>

text \<open>
  The parent's loop is that of \<^verbatim>\<open>pipe4.c\<close>, on one descriptor.  The child makes its end both of the standard descriptors, and keeps it as well.
\<close>

definition spipe4_child :: "nat \<times> nat \<Rightarrow> 'a fdtab \<Rightarrow> 'a fdtab run" where
  "spipe4_child fd t =
     (let t = fd_close (fst fd) t in
      case (if snd fd \<noteq> 0 then fd_dup2 (snd fd) 0 t else (True, t)) of
        (False, t) \<Rightarrow> die (ErrSys ''dup2 error to stdin'')
      | (True, t) \<Rightarrow> (case (if snd fd \<noteq> 1 then fd_dup2 (snd fd) 1 t else (True, t)) of
          (False, t) \<Rightarrow> die (ErrSys ''dup2 error to stdout'')
        | (True, t) \<Rightarrow> ret t))"

definition spipe4_parent :: "nat \<times> nat \<Rightarrow> ('s \<Rightarrow> string \<Rightarrow> (string \<times> 's) run) \<Rightarrow> 's \<Rightarrow> string \<Rightarrow> 'a fdtab \<Rightarrow> (string \<times> 'a fdtab) run" where
  "spipe4_parent fd co st inp t = (let t = fd_close (snd fd) t in rbind (pipe4_loop co st inp []) (\<lambda>out. ret (out, t)))"

lemma spipe4_child_fds:
  assumes "t b = Some y" and "a \<noteq> b"
  shows "\<exists>t'. spipe4_child (a, b) t = ret t' \<and> t' 0 = Some y \<and> t' 1 = Some y \<and> t' b = Some y \<and>
    (\<forall>i. i \<notin> {0, 1, a} \<longrightarrow> t' i = t i)"
proof -
  let ?t = "fd_close a t"
  have b: "?t b = Some y" using assms by (simp add: fd_close_def)
  let ?u = "if b \<noteq> 0 then ?t(0 \<mapsto> y) else ?t"
  let ?v = "if b \<noteq> 1 then ?u(1 \<mapsto> y) else ?u"
  have dup: "fd_dup2 f g w = (True, w(g \<mapsto> z))" if "w f = Some z" for f g and w :: "'a fdtab" and z using that by (simp add: fd_dup2_def)
  have u: "?u b = Some y" "?u 0 = Some y" using b by (cases "b = 0"; simp)+
  have one: "(if b \<noteq> 0 then fd_dup2 b 0 ?t else (True, ?t)) = (True, ?u)" using dup [of ?t b y 0, OF b] by simp
  have two: "(if b \<noteq> 1 then fd_dup2 b 1 ?u else (True, ?u)) = (True, ?v)" using dup [of ?u b y 1, OF u(1)] by simp
  have "spipe4_child (a, b) t = ret ?v"
    unfolding spipe4_child_def Let_def fst_conv snd_conv one prod.case bool.case two by (rule refl)
  moreover have "?v 0 = Some y" "?v 1 = Some y" "?v b = Some y" using u by (cases "b = 1"; simp)+
  moreover have "?v i = t i" if "i \<notin> {0, 1, a}" for i using that by (simp add: fd_close_def)
  ultimately show ?thesis by blast
qed

lemma spipe4_sums:
  "\<forall>mn \<in> set ps. pair_range mn \<Longrightarrow>
    spipe4_parent fd add2_co () (concat (map pair_line ps)) t = ret (concat (map sum_line ps), fd_close (snd fd) t)"
  by (simp add: spipe4_parent_def pipe4_sums)

subsection \<open>A filter behind \<^verbatim>\<open>popen\<close>: \<^verbatim>\<open>ipc/myuclc.c\<close>, \<^verbatim>\<open>ipc/popen1.c\<close>\<close>

definition is_upper :: "char \<Rightarrow> bool" where
  "is_upper c \<longleftrightarrow> 65 \<le> (of_char c :: nat) \<and> (of_char c :: nat) \<le> 90"

definition to_lower :: "char \<Rightarrow> char" where
  "to_lower c = char_of ((of_char c :: nat) + 32)"

text \<open>\<open>put\<close> says whether the library takes the character that makes the output \<open>out\<close>.\<close>

fun uclc_loop :: "(string \<Rightarrow> bool) \<Rightarrow> string \<Rightarrow> string \<Rightarrow> string \<times> fatal" where
  "uclc_loop put [] out = (out, Exit 0)"
| "uclc_loop put (c # s) out =
     (let c = (if is_upper c then to_lower c else c) in
      if \<not> put (out @ [c]) then (out, ErrSys ''output error'') else uclc_loop put s (out @ [c]))"

text \<open>\<^verbatim>\<open>popen1\<close> on what its pipe brings.\<close>

function popen1_loop :: "(string \<Rightarrow> bool) \<Rightarrow> string \<Rightarrow> string \<Rightarrow> string \<times> fatal option" where
  "popen1_loop put inp out =
     (let out = out @ ''prompt> '' in
      if inp = [] then (out, None)
      else case fgets (MAXLINE - 1) inp of (line, rest) \<Rightarrow>
        if \<not> put (out @ cstr line) then (out, Some (ErrSys ''fputs error to pipe'')) else popen1_loop put rest (out @ cstr line))"
  by pat_completeness auto
termination
  by (relation "measure (\<lambda>(put, inp, out). length inp)") (auto simp: MAXLINE_def dest: fgets_shorter)

declare popen1_loop.simps [simp del]

definition popen1_main :: "bool \<Rightarrow> bool \<Rightarrow> (string \<Rightarrow> bool) \<Rightarrow> string \<Rightarrow> string \<times> fatal" where
  "popen1_main popen_ok pclose_ok put inp =
     (if \<not> popen_ok then ([], ErrSys ''popen error'')
      else case popen1_loop put inp [] of
        (out, Some f) \<Rightarrow> (out, f)
      | (out, None) \<Rightarrow> if \<not> pclose_ok then (out, ErrSys ''pclose error'') else (out @ [newline], Exit 0))"

definition lower_of :: "char \<Rightarrow> char" where
  "lower_of c = (if is_upper c then to_lower c else c)"

lemma uclc_loop_map: "\<forall>o'. put o' \<Longrightarrow> uclc_loop put s out = (out @ map lower_of s, Exit 0)"
  by (induction s arbitrary: out) (auto simp: lower_of_def Let_def)

lemma lower_newline: "lower_of c = newline \<longleftrightarrow> c = newline" and lower_nul: "lower_of c = nul \<longleftrightarrow> c = nul"
proof -
  have u: "of_char (lower_of c) = (if is_upper c then (of_char c :: nat) + 32 else of_char c)"
    by (auto simp: lower_of_def to_lower_def is_upper_def)
  have n: "(of_char newline :: nat) = 10" "(of_char nul :: nat) = 0" by (simp_all add: newline_def nul_def)
  have i: "(of_char x :: nat) = of_char y \<longleftrightarrow> x = y" for x y :: char by (metis char_of_char)
  have "of_char (lower_of c) = (of_char newline :: nat) \<longleftrightarrow> of_char c = (of_char newline :: nat)" unfolding u n by (auto simp: is_upper_def)
  then show "lower_of c = newline \<longleftrightarrow> c = newline" by (simp only: i)
  have "of_char (lower_of c) = (of_char nul :: nat) \<longleftrightarrow> of_char c = (of_char nul :: nat)" unfolding u n by (auto simp: is_upper_def)
  then show "lower_of c = nul \<longleftrightarrow> c = nul" by (simp only: i)
qed

text \<open>Lines of text come back in small letters, a prompt before each and one at the end.\<close>

lemma popen1_lines:
  assumes "\<forall>o'. put o'" and "\<forall>l \<in> set ls. newline \<notin> set l \<and> nul \<notin> set l \<and> length l < MAXLINE - 1"
  shows "popen1_main True True put (map lower_of (concat (map (\<lambda>l. l @ [newline]) ls))) =
    (concat (map (\<lambda>l. ''prompt> '' @ map lower_of l @ [newline]) ls) @ ''prompt> '' @ [newline], Exit 0)"
proof -
  have n: "lower_of newline = newline" by (simp add: lower_newline)
  have put: "put = (\<lambda>_. True)" using assms(1) by auto
  have "popen1_loop put (map lower_of (concat (map (\<lambda>l. l @ [newline]) ls))) out =
      (out @ concat (map (\<lambda>l. ''prompt> '' @ map lower_of l @ [newline]) ls) @ ''prompt> '', None)" for out
    using assms(2)
  proof (induction ls arbitrary: out)
    case Nil
    then show ?case by (subst popen1_loop.simps) (simp add: Let_def)
  next
    case (Cons l ls)
    let ?r = "map lower_of (concat (map (\<lambda>l. l @ [newline]) ls))"
    have l: "newline \<notin> set (map lower_of l)" "nul \<notin> set (map lower_of l)" "length (map lower_of l) < MAXLINE - 1"
      using Cons.prems by (auto simp: image_iff dest: sym [of newline] sym [of nul]) (metis lower_newline lower_nul)+
    have f: "fgets (MAXLINE - 1) (map lower_of l @ newline # ?r) = (map lower_of l @ [newline], ?r)" by (rule fgets_line [OF l(1,3)])
    have "nul \<noteq> newline" by (simp add: nul_def newline_def)
    then have c: "cstr (map lower_of l @ [newline]) = map lower_of l @ [newline]" using l(2) by (intro cstr_id) simp
    show ?case using Cons f c put n by (subst popen1_loop.simps) (simp add: Let_def)
  qed
  then show ?thesis by (simp add: popen1_main_def)
qed

end
