(* ===== verification/CondVar.thy ===== *)
theory CondVar
  imports Main "HOL-Library.Multiset"
begin

section \<open>Condition variables: \<^verbatim>\<open>threads/condvar.c\<close>\<close>

text \<open>
  Any number of threads call \<^verbatim>\<open>process_msg\<close> and \<^verbatim>\<open>enqueue_msg\<close>.  A thread is at a place of its code; messages are numbers, and
  \<open>workq\<close> is the list that \<^verbatim>\<open>m_next\<close> makes.  A thread in \<^verbatim>\<open>pthread_cond_wait\<close> sleeps, and takes the lock again
  when it is woken, by a signal or for no reason.
\<close>

datatype cvpc =
    Idle
  | WantLock                \<comment> \<open>\<^verbatim>\<open>process_msg\<close> before \<^verbatim>\<open>pthread_mutex_lock\<close>\<close>
  | TestQ                   \<comment> \<open>at the \<^verbatim>\<open>while\<close>, with the lock\<close>
  | Asleep                  \<comment> \<open>in \<^verbatim>\<open>pthread_cond_wait\<close>\<close>
  | Woken                   \<comment> \<open>still in \<^verbatim>\<open>pthread_cond_wait\<close>, wants the lock\<close>
  | TakeQ                   \<comment> \<open>behind the loop, with the lock\<close>
  | HasMsg nat              \<comment> \<open>before \<^verbatim>\<open>pthread_mutex_unlock\<close>, with the lock\<close>
  | Working nat             \<comment> \<open>processes the message\<close>
  | EnqLock nat             \<comment> \<open>\<^verbatim>\<open>enqueue_msg\<close> before \<^verbatim>\<open>pthread_mutex_lock\<close>\<close>
  | EnqIn nat               \<comment> \<open>with the lock\<close>
  | EnqOut                  \<comment> \<open>before \<^verbatim>\<open>pthread_mutex_unlock\<close>, with the lock\<close>
  | EnqSignal               \<comment> \<open>before \<^verbatim>\<open>pthread_cond_signal\<close>\<close>

record cvst =
  cpc :: "nat \<Rightarrow> cvpc"
  workq :: "nat list"
  qlock :: "nat option"
  given :: "nat multiset"
  done_ms :: "nat multiset"

definition goto :: "nat \<Rightarrow> cvpc \<Rightarrow> cvst \<Rightarrow> cvst" where
  "goto t p s = s\<lparr>cpc := (cpc s)(t := p)\<rparr>"

definition lock_q :: "nat \<Rightarrow> cvst \<Rightarrow> cvst" where
  "lock_q t s = s\<lparr>qlock := Some t\<rparr>"

definition unlock_q :: "cvst \<Rightarrow> cvst" where
  "unlock_q s = s\<lparr>qlock := None\<rparr>"

text \<open>\<open>N\<close> is the number of threads.  \<^verbatim>\<open>pthread_cond_signal\<close> wakes one of the sleeping threads, if there is one.\<close>

inductive cv_step :: "nat \<Rightarrow> cvst \<Rightarrow> cvst \<Rightarrow> bool" for N where
  cv_process: "t < N \<Longrightarrow> cpc s t = Idle \<Longrightarrow> cv_step N s (goto t WantLock s)"
| cv_lock: "t < N \<Longrightarrow> cpc s t = WantLock \<Longrightarrow> qlock s = None \<Longrightarrow> cv_step N s (goto t TestQ (lock_q t s))"
| cv_wait: "t < N \<Longrightarrow> cpc s t = TestQ \<Longrightarrow> workq s = [] \<Longrightarrow> cv_step N s (goto t Asleep (unlock_q s))"
| cv_go: "t < N \<Longrightarrow> cpc s t = TestQ \<Longrightarrow> workq s \<noteq> [] \<Longrightarrow> cv_step N s (goto t TakeQ s)"
| cv_spurious: "t < N \<Longrightarrow> cpc s t = Asleep \<Longrightarrow> cv_step N s (goto t Woken s)"
| cv_relock: "t < N \<Longrightarrow> cpc s t = Woken \<Longrightarrow> qlock s = None \<Longrightarrow> cv_step N s (goto t TestQ (lock_q t s))"
| cv_take: "t < N \<Longrightarrow> cpc s t = TakeQ \<Longrightarrow> workq s = mp # q \<Longrightarrow> cv_step N s (goto t (HasMsg mp) (s\<lparr>workq := q\<rparr>))"
| cv_unlock: "t < N \<Longrightarrow> cpc s t = HasMsg mp \<Longrightarrow> cv_step N s (goto t (Working mp) (unlock_q s))"
| cv_done: "t < N \<Longrightarrow> cpc s t = Working mp \<Longrightarrow> cv_step N s (goto t WantLock (s\<lparr>done_ms := add_mset mp (done_ms s)\<rparr>))"
| cv_enqueue: "t < N \<Longrightarrow> cpc s t = Idle \<Longrightarrow> cv_step N s (goto t (EnqLock mp) (s\<lparr>given := add_mset mp (given s)\<rparr>))"
| cv_enqlock: "t < N \<Longrightarrow> cpc s t = EnqLock mp \<Longrightarrow> qlock s = None \<Longrightarrow> cv_step N s (goto t (EnqIn mp) (lock_q t s))"
| cv_push: "t < N \<Longrightarrow> cpc s t = EnqIn mp \<Longrightarrow> cv_step N s (goto t EnqOut (s\<lparr>workq := mp # workq s\<rparr>))"
| cv_enqunlock: "t < N \<Longrightarrow> cpc s t = EnqOut \<Longrightarrow> cv_step N s (goto t EnqSignal (unlock_q s))"
| cv_signal: "t < N \<Longrightarrow> cpc s t = EnqSignal \<Longrightarrow> u < N \<Longrightarrow> cpc s u = Asleep \<Longrightarrow> cv_step N s (goto u Woken (goto t Idle s))"
| cv_signal_none: "t < N \<Longrightarrow> cpc s t = EnqSignal \<Longrightarrow> (\<forall>u < N. cpc s u \<noteq> Asleep) \<Longrightarrow> cv_step N s (goto t Idle s)"

definition cv_start :: cvst where
  "cv_start = \<lparr>cpc = \<lambda>_. Idle, workq = [], qlock = None, given = {#}, done_ms = {#}\<rparr>"

subsection \<open>The invariant\<close>

fun locked_pc :: "cvpc \<Rightarrow> bool" where
  "locked_pc TestQ = True"
| "locked_pc TakeQ = True"
| "locked_pc (HasMsg m) = True"
| "locked_pc (EnqIn m) = True"
| "locked_pc EnqOut = True"
| "locked_pc _ = False"

fun carried :: "cvpc \<Rightarrow> nat multiset" where
  "carried (HasMsg m) = {#m#}"
| "carried (Working m) = {#m#}"
| "carried (EnqLock m) = {#m#}"
| "carried (EnqIn m) = {#m#}"
| "carried _ = {#}"

text \<open>A thread that will look at the queue or signal before it sleeps.\<close>

fun alert :: "cvpc \<Rightarrow> bool" where
  "alert Idle = False"
| "alert Asleep = False"
| "alert (EnqLock m) = False"
| "alert (EnqIn m) = False"
| "alert _ = True"

definition carried_all :: "nat \<Rightarrow> (nat \<Rightarrow> cvpc) \<Rightarrow> nat multiset" where
  "carried_all N c = (\<Sum>t < N. carried (c t))"

definition cv_inv :: "nat \<Rightarrow> cvst \<Rightarrow> bool" where
  "cv_inv N s \<longleftrightarrow> (\<forall>t < N. locked_pc (cpc s t) \<longleftrightarrow> qlock s = Some t) \<and>
     (\<forall>t. qlock s = Some t \<longrightarrow> t < N) \<and>
     (\<forall>t < N. cpc s t = TakeQ \<longrightarrow> workq s \<noteq> []) \<and>
     given s = done_ms s + mset (workq s) + carried_all N (cpc s) \<and>
     (workq s \<noteq> [] \<longrightarrow> (\<exists>t < N. alert (cpc s t)) \<or> (\<forall>t < N. cpc s t \<noteq> Asleep))"

lemma goto_simps [simp]:
  "cpc (goto t p s) = (cpc s)(t := p)" "workq (goto t p s) = workq s" "qlock (goto t p s) = qlock s"
  "given (goto t p s) = given s" "done_ms (goto t p s) = done_ms s"
  by (simp_all add: goto_def)

lemma lock_simps [simp]:
  "cpc (lock_q t s) = cpc s" "workq (lock_q t s) = workq s" "qlock (lock_q t s) = Some t" "given (lock_q t s) = given s" "done_ms (lock_q t s) = done_ms s"
  "cpc (unlock_q s) = cpc s" "workq (unlock_q s) = workq s" "qlock (unlock_q s) = None" "given (unlock_q s) = given s" "done_ms (unlock_q s) = done_ms s"
  by (simp_all add: lock_q_def unlock_q_def)

lemma carried_upd: "t < N \<Longrightarrow> carried_all N (c(t := p)) + carried (c t) = carried_all N c + carried p"
proof -
  assume t: "t < N"
  have "carried_all N c = carried (c t) + (\<Sum>u \<in> {..<N} - {t}. carried (c u))"
    unfolding carried_all_def using t by (simp add: sum.remove [of "{..<N}" t])
  moreover have "carried_all N (c(t := p)) = carried p + (\<Sum>u \<in> {..<N} - {t}. carried (c u))"
    unfolding carried_all_def using t by (subst sum.remove [of "{..<N}" t]) auto
  ultimately show ?thesis by (simp add: ac_simps)
qed

lemma cv_inv_start: "cv_inv N cv_start"
  by (simp add: cv_inv_def cv_start_def carried_all_def)

lemma cv_inv_move:
  assumes i: "cv_inv N s" and t: "t < N" and c: "cpc s' = (cpc s)(t := p)"
    and q: "qlock s' = (if locked_pc p then Some t else if locked_pc (cpc s t) then None else qlock s)"
    and free: "locked_pc p \<Longrightarrow> \<not> locked_pc (cpc s t) \<Longrightarrow> qlock s = None"
    and take: "p = TakeQ \<Longrightarrow> workq s' \<noteq> []" "workq s' = workq s \<or> locked_pc (cpc s t)"
    and bal: "given s' + carried (cpc s t) + done_ms s + mset (workq s) = given s + carried p + done_ms s' + mset (workq s')"
    and al: "workq s' \<noteq> [] \<Longrightarrow> alert p \<or> (\<exists>u < N. u \<noteq> t \<and> alert (cpc s u)) \<or> \<not> alert (cpc s t) \<and> p \<noteq> Asleep \<and> workq s \<noteq> [] \<or>
      (\<forall>u < N. u \<noteq> t \<longrightarrow> cpc s u \<noteq> Asleep) \<and> p \<noteq> Asleep"
  shows "cv_inv N s'"
proof -
  have l: "locked_pc (cpc s u) \<longleftrightarrow> qlock s = Some u" if "u < N" for u using i that by (simp add: cv_inv_def)
  have n: "qlock s = Some u \<Longrightarrow> u < N" for u using i by (simp add: cv_inv_def)
  have w: "cpc s u = TakeQ \<Longrightarrow> workq s \<noteq> []" if "u < N" for u using i that by (simp add: cv_inv_def)
  have g: "given s = done_ms s + mset (workq s) + carried_all N (cpc s)" using i by (simp add: cv_inv_def)
  have a: "workq s \<noteq> [] \<Longrightarrow> (\<exists>u < N. alert (cpc s u)) \<or> (\<forall>u < N. cpc s u \<noteq> Asleep)" using i by (simp add: cv_inv_def)
  have 1: "locked_pc (cpc s' u) \<longleftrightarrow> qlock s' = Some u" if "u < N" for u
    using l [OF that] l [OF t] c q free by (cases "u = t") auto
  have 2: "qlock s' = Some u \<Longrightarrow> u < N" for u using q n t by (auto split: if_splits)
  have 3: "cpc s' u = TakeQ \<Longrightarrow> workq s' \<noteq> []" if "u < N" for u
  proof (cases "u = t")
    case False
    assume u: "cpc s' u = TakeQ"
    then have "locked_pc (cpc s u)" "cpc s u = TakeQ" using c False by simp_all
    moreover have "\<not> locked_pc (cpc s t)" using l [OF that] l [OF t] calculation(1) False by simp
    ultimately show "workq s' \<noteq> []" using take(2) w [OF that] by simp
  qed (use c take(1) in simp)
  have "given s' + (carried (cpc s t) + done_ms s + mset (workq s)) = done_ms s' + mset (workq s') + (given s + carried p)"
    using bal by (simp add: ac_simps)
  also have "\<dots> = done_ms s' + mset (workq s') + (done_ms s + mset (workq s) + (carried_all N (cpc s) + carried p))"
    unfolding g by (simp add: ac_simps)
  also have "\<dots> = done_ms s' + mset (workq s') + carried_all N (cpc s') + (carried (cpc s t) + done_ms s + mset (workq s))"
    using carried_upd [OF t, of "cpc s" p] by (simp add: c ac_simps)
  finally have 4: "given s' = done_ms s' + mset (workq s') + carried_all N (cpc s')" by simp
  have 5: "(\<exists>u < N. alert (cpc s' u)) \<or> (\<forall>u < N. cpc s' u \<noteq> Asleep)" if "workq s' \<noteq> []"
    using al [OF that] a t unfolding c by (metis fun_upd_apply)
  show ?thesis unfolding cv_inv_def using 1 2 3 4 5 by blast
qed

lemma cv_inv_step:
  assumes "cv_step N s s'" and i: "cv_inv N s"
  shows "cv_inv N s'"
  using assms(1)
proof cases
  case (cv_process t)
  then show ?thesis by (intro cv_inv_move [OF i, where t = t and p = WantLock]) simp_all
next
  case (cv_lock t)
  then show ?thesis by (intro cv_inv_move [OF i, where t = t and p = TestQ]) simp_all
next
  case (cv_wait t)
  then show ?thesis by (intro cv_inv_move [OF i, where t = t and p = Asleep]) simp_all
next
  case (cv_go t)
  then have "qlock s = Some t" using i by (auto simp: cv_inv_def)
  with cv_go show ?thesis by (intro cv_inv_move [OF i, where t = t and p = TakeQ]) simp_all
next
  case (cv_spurious t)
  then show ?thesis by (intro cv_inv_move [OF i, where t = t and p = Woken]) simp_all
next
  case (cv_relock t)
  then show ?thesis by (intro cv_inv_move [OF i, where t = t and p = TestQ]) simp_all
next
  case (cv_take t mp q)
  then have "qlock s = Some t" using i by (auto simp: cv_inv_def)
  with cv_take show ?thesis by (intro cv_inv_move [OF i, where t = t and p = "HasMsg mp"]) simp_all
next
  case (cv_unlock t mp)
  then show ?thesis by (intro cv_inv_move [OF i, where t = t and p = "Working mp"]) simp_all
next
  case (cv_done t mp)
  then show ?thesis by (intro cv_inv_move [OF i, where t = t and p = WantLock]) simp_all
next
  case (cv_enqueue t mp)
  then show ?thesis by (intro cv_inv_move [OF i, where t = t and p = "EnqLock mp"]) simp_all
next
  case (cv_enqlock t mp)
  then show ?thesis by (intro cv_inv_move [OF i, where t = t and p = "EnqIn mp"]) simp_all
next
  case (cv_push t mp)
  then have "qlock s = Some t" using i by (auto simp: cv_inv_def)
  with cv_push show ?thesis by (intro cv_inv_move [OF i, where t = t and p = EnqOut]) simp_all
next
  case (cv_enqunlock t)
  then show ?thesis by (intro cv_inv_move [OF i, where t = t and p = EnqSignal]) simp_all
next
  case (cv_signal t u)
  let ?s = "goto u Woken s"
  have ne: "t \<noteq> u" using cv_signal by auto
  have j: "cv_inv N ?s" by (rule cv_inv_move [OF i, where t = u and p = Woken]) (use cv_signal in simp_all)
  have "cv_inv N (goto t Idle ?s)"
    by (rule cv_inv_move [OF j, where t = t and p = Idle]) (use cv_signal ne in \<open>auto intro: exI [of _ u]\<close>)
  moreover have "goto t Idle ?s = s'" using ne cv_signal(1) by (simp add: goto_def fun_upd_twist)
  ultimately show ?thesis by simp
next
  case (cv_signal_none t)
  then show ?thesis by (intro cv_inv_move [OF i, where t = t and p = Idle]) simp_all
qed

lemma cv_inv_reach: "(cv_step N)\<^sup>*\<^sup>* cv_start s \<Longrightarrow> cv_inv N s"
  by (induction rule: rtranclp_induct) (auto intro: cv_inv_start cv_inv_step)

subsection \<open>No message is lost, and no wakeup\<close>

text \<open>A thread that is neither idle nor asleep can always make a step, or waits for the lock of one that can.\<close>

lemma holder_steps: "cv_inv N s \<Longrightarrow> qlock s = Some t \<Longrightarrow> \<exists>s'. cv_step N s s' \<and> cpc s' t \<noteq> cpc s t"
proof -
  assume i: "cv_inv N s" and q: "qlock s = Some t"
  then have t: "t < N" "locked_pc (cpc s t)" by (auto simp: cv_inv_def)
  from t(2) show ?thesis
  proof (cases rule: locked_pc.elims(2))
    case 1
    then show ?thesis using cv_wait [OF t(1)] cv_go [OF t(1), of s] by (cases "workq s = []") force+
  next
    case 2
    then have "workq s \<noteq> []" using i t by (auto simp: cv_inv_def)
    then show ?thesis using cv_take [OF t(1) 2] 2 by (cases "workq s") force+
  next
    case (3 m)
    then show ?thesis using cv_unlock [OF t(1) 3] by force
  next
    case (4 m)
    then show ?thesis using cv_push [OF t(1) 4] by force
  next
    case 5
    then show ?thesis using cv_enqunlock [OF t(1) 5] by force
  qed
qed

lemma alert_steps: "cv_inv N s \<Longrightarrow> t < N \<Longrightarrow> alert (cpc s t) \<Longrightarrow> qlock s = None \<Longrightarrow> \<exists>s'. cv_step N s s' \<and> cpc s' t \<noteq> cpc s t"
proof -
  assume i: "cv_inv N s" and t: "t < N" "alert (cpc s t)" and q: "qlock s = None"
  have nl: "\<not> locked_pc (cpc s t)" using i t q by (auto simp: cv_inv_def)
  show ?thesis
  proof (cases "cpc s t")
    case WantLock
    then show ?thesis using cv_lock [OF t(1) WantLock q] by force
  next
    case Woken
    then show ?thesis using cv_relock [OF t(1) Woken q] by force
  next
    case (Working m)
    then show ?thesis using cv_done [OF t(1) Working] by force
  next
    case EnqSignal
    show ?thesis
    proof (cases "\<exists>u < N. cpc s u = Asleep")
      case True
      then obtain u where u: "u < N" "cpc s u = Asleep" by blast
      then have "u \<noteq> t" using EnqSignal by auto
      then show ?thesis using cv_signal [OF t(1) EnqSignal u] EnqSignal by force
    next
      case False
      then show ?thesis using cv_signal_none [OF t(1) EnqSignal] EnqSignal by force
    qed
  qed (use t(2) nl in simp_all)
qed

text \<open>
  C40: in every interleaving: at most one thread is within the lock; every message that was given to \<^verbatim>\<open>enqueue_msg\<close> is exactly once on the queue, in the hands of one
  thread, or processed; and while a message is queued, the threads do not all sleep: some thread is awake and it, or the holder of the lock, has a step to make.
\<close>

theorem no_lost_wakeup:
  assumes "(cv_step N)\<^sup>*\<^sup>* cv_start s"
  shows "(\<forall>t u. t < N \<and> u < N \<and> locked_pc (cpc s t) \<and> locked_pc (cpc s u) \<longrightarrow> t = u) \<and>
    given s = done_ms s + mset (workq s) + carried_all N (cpc s) \<and>
    (workq s \<noteq> [] \<and> (\<exists>t < N. cpc s t = Asleep) \<longrightarrow>
      (\<exists>t < N. alert (cpc s t)) \<and> (\<exists>t s'. t < N \<and> (alert (cpc s t) \<or> qlock s = Some t) \<and> cv_step N s s' \<and> cpc s' t \<noteq> cpc s t))"
proof -
  have i: "cv_inv N s" by (rule cv_inv_reach [OF assms])
  have "(\<exists>t < N. alert (cpc s t)) \<and> (\<exists>t s'. t < N \<and> (alert (cpc s t) \<or> qlock s = Some t) \<and> cv_step N s s' \<and> cpc s' t \<noteq> cpc s t)"
    if q: "workq s \<noteq> []" and a: "\<exists>t < N. cpc s t = Asleep"
  proof -
    have "(\<exists>t < N. alert (cpc s t)) \<or> (\<forall>t < N. cpc s t \<noteq> Asleep)" using i q by (simp add: cv_inv_def)
    then obtain t where t: "t < N" "alert (cpc s t)" using a by blast
    show ?thesis
    proof (cases "qlock s")
      case None
      then show ?thesis using alert_steps [OF i t None] t by blast
    next
      case (Some u)
      then have "u < N" using i by (simp add: cv_inv_def)
      then show ?thesis using holder_steps [OF i Some] t Some by blast
    qed
  qed
  moreover have "t = u" if "t < N" "u < N" "locked_pc (cpc s t)" "locked_pc (cpc s u)" for t u using i that by (auto simp: cv_inv_def)
  ultimately show ?thesis using i unfolding cv_inv_def by blast
qed

theorem no_lost_wakeup_witness:
  "\<exists>s. (cv_step 2)\<^sup>*\<^sup>* cv_start s \<and> workq s = [7] \<and> cpc s 0 = Asleep \<and> given s = {#7#} \<and>
     (\<exists>t s'. t < 2 \<and> cv_step 2 s s' \<and> cpc s' t \<noteq> cpc s t)"
proof -
  let ?s1 = "goto 0 WantLock cv_start"
  let ?s2 = "goto 0 TestQ (lock_q 0 ?s1)"
  let ?s3 = "goto 0 Asleep (unlock_q ?s2)"
  let ?s4 = "goto 1 (EnqLock 7) (?s3\<lparr>given := add_mset 7 (given ?s3)\<rparr>)"
  let ?s5 = "goto 1 (EnqIn 7) (lock_q 1 ?s4)"
  let ?s6 = "goto 1 EnqOut (?s5\<lparr>workq := 7 # workq ?s5\<rparr>)"
  have "cv_step 2 cv_start ?s1" by (rule cv_process) (simp_all add: cv_start_def)
  moreover have "cv_step 2 ?s1 ?s2" by (rule cv_lock) (simp_all add: cv_start_def)
  moreover have "cv_step 2 ?s2 ?s3" by (rule cv_wait) (simp_all add: cv_start_def)
  moreover have "cv_step 2 ?s3 ?s4" by (rule cv_enqueue) (simp_all add: cv_start_def)
  moreover have "cv_step 2 ?s4 ?s5" by (rule cv_enqlock) (simp_all add: cv_start_def)
  moreover have "cv_step 2 ?s5 ?s6" by (rule cv_push) (simp_all add: cv_start_def)
  ultimately have r: "(cv_step 2)\<^sup>*\<^sup>* cv_start ?s6" by (meson converse_rtranclp_into_rtranclp rtranclp.rtrancl_refl)
  have f: "workq ?s6 = [7]" "cpc ?s6 0 = Asleep" "given ?s6 = {#7#}" by (simp_all add: cv_start_def)
  then have "workq ?s6 \<noteq> [] \<and> (\<exists>t < 2. cpc ?s6 t = Asleep)" by (metis list.distinct(1) zero_less_numeral)
  then show ?thesis using no_lost_wakeup [OF r] r f by blast
qed

section \<open>A thread that waits for signals: \<^verbatim>\<open>threadctl/suspend.c\<close>\<close>

text \<open>
  \<^verbatim>\<open>main\<close> sleeps until the other thread has got \<^verbatim>\<open>SIGQUIT\<close> from \<^verbatim>\<open>sigwait\<close>.  \<open>over\<close> is the status with which the process has ended.
\<close>

datatype mainpc = MLock | MTest | MAsleep | MWoken | MOut | MReset
datatype sigpc = SWait | SLock | SIn | SUnlock | SSignal | SReturned
datatype lock_by = ByMain | BySig

record sust =
  mpc :: mainpc
  spc :: sigpc
  slock :: "lock_by option"
  quitflag :: bool
  printed :: "string list"
  sigquits :: nat
  over :: "int option"

text \<open>\<open>set_ok\<close> says whether the mask can be set again; a failing \<^verbatim>\<open>sigwait\<close> ends the process.\<close>

inductive su_step :: "bool \<Rightarrow> sust \<Rightarrow> sust \<Rightarrow> bool" for set_ok where
  m_lock: "over s = None \<Longrightarrow> mpc s = MLock \<Longrightarrow> slock s = None \<Longrightarrow> su_step set_ok s (s\<lparr>mpc := MTest, slock := Some ByMain\<rparr>)"
| m_sleep: "over s = None \<Longrightarrow> mpc s = MTest \<Longrightarrow> \<not> quitflag s \<Longrightarrow> su_step set_ok s (s\<lparr>mpc := MAsleep, slock := None\<rparr>)"
| m_spurious: "over s = None \<Longrightarrow> mpc s = MAsleep \<Longrightarrow> su_step set_ok s (s\<lparr>mpc := MWoken\<rparr>)"
| m_relock: "over s = None \<Longrightarrow> mpc s = MWoken \<Longrightarrow> slock s = None \<Longrightarrow> su_step set_ok s (s\<lparr>mpc := MTest, slock := Some ByMain\<rparr>)"
| m_go: "over s = None \<Longrightarrow> mpc s = MTest \<Longrightarrow> quitflag s \<Longrightarrow> su_step set_ok s (s\<lparr>mpc := MOut\<rparr>)"
| m_unlock: "over s = None \<Longrightarrow> mpc s = MOut \<Longrightarrow> su_step set_ok s (s\<lparr>mpc := MReset, slock := None\<rparr>)"
| m_exit: "over s = None \<Longrightarrow> mpc s = MReset \<Longrightarrow> su_step set_ok s (s\<lparr>quitflag := False, over := Some (if set_ok then 0 else 1)\<rparr>)"
| s_fail: "over s = None \<Longrightarrow> spc s = SWait \<Longrightarrow> su_step set_ok s (s\<lparr>over := Some 1\<rparr>)"
| s_int: "over s = None \<Longrightarrow> spc s = SWait \<Longrightarrow> su_step set_ok s (s\<lparr>printed := printed s @ [''interrupt'']\<rparr>)"
| s_quit: "over s = None \<Longrightarrow> spc s = SWait \<Longrightarrow> su_step set_ok s (s\<lparr>spc := SLock, sigquits := Suc (sigquits s)\<rparr>)"
| s_lock: "over s = None \<Longrightarrow> spc s = SLock \<Longrightarrow> slock s = None \<Longrightarrow> su_step set_ok s (s\<lparr>spc := SIn, slock := Some BySig\<rparr>)"
| s_set: "over s = None \<Longrightarrow> spc s = SIn \<Longrightarrow> su_step set_ok s (s\<lparr>spc := SUnlock, quitflag := True\<rparr>)"
| s_unlock: "over s = None \<Longrightarrow> spc s = SUnlock \<Longrightarrow> su_step set_ok s (s\<lparr>spc := SSignal, slock := None\<rparr>)"
| s_signal: "over s = None \<Longrightarrow> spc s = SSignal \<Longrightarrow>
    su_step set_ok s (s\<lparr>spc := SReturned, mpc := (if mpc s = MAsleep then MWoken else mpc s)\<rparr>)"

definition su_start :: sust where
  "su_start = \<lparr>mpc = MLock, spc = SWait, slock = None, quitflag = False, printed = [], sigquits = 0, over = None\<rparr>"

definition su_inv :: "sust \<Rightarrow> bool" where
  "su_inv s \<longleftrightarrow> over s = None \<longrightarrow>
     (mpc s \<in> {MTest, MOut} \<longleftrightarrow> slock s = Some ByMain) \<and> (spc s \<in> {SIn, SUnlock} \<longleftrightarrow> slock s = Some BySig) \<and>
     (quitflag s \<longleftrightarrow> spc s \<in> {SUnlock, SSignal, SReturned}) \<and> (sigquits s = (if spc s = SWait then 0 else 1)) \<and>
     (mpc s \<in> {MOut, MReset} \<longrightarrow> quitflag s) \<and> (spc s = SReturned \<longrightarrow> mpc s \<noteq> MAsleep)"

lemma su_inv_step: "su_step ok s s' \<Longrightarrow> su_inv s \<Longrightarrow> su_inv s'"
  by (elim su_step.cases; simp add: su_inv_def; force?)

lemma su_inv_reach: "(su_step ok)\<^sup>*\<^sup>* su_start s \<Longrightarrow> su_inv s"
proof (induction rule: rtranclp_induct)
  case base
  show ?case by (simp add: su_inv_def su_start_def)
qed (rule su_inv_step)

text \<open>How far \<^verbatim>\<open>main\<close> and the thread still have to go once the signal is there.\<close>

fun main_rank :: "mainpc \<Rightarrow> nat" where
  "main_rank MLock = 5" | "main_rank MAsleep = 6" | "main_rank MWoken = 5" | "main_rank MTest = 4" | "main_rank MOut = 3" | "main_rank MReset = 2"

lemma returned_step:
  assumes "su_inv s" and "over s = None" and "spc s = SReturned"
  shows "\<exists>s'. su_step ok s s'"
    and "su_step ok s s' \<Longrightarrow> over s' = Some (if ok then 0 else 1) \<or> over s' = None \<and> spc s' = SReturned \<and> main_rank (mpc s') < main_rank (mpc s)"
proof -
  have f: "quitflag s" "mpc s \<noteq> MAsleep" "slock s = None \<or> mpc s \<in> {MTest, MOut}"
    using assms unfolding su_inv_def by (auto, (cases "slock s"; cases "the (slock s)"; auto)+)
  show "\<exists>s'. su_step ok s s'"
    using f assms(2) m_lock m_relock m_go m_unlock m_exit by (cases "mpc s") blast+
  show "su_step ok s s' \<Longrightarrow> over s' = Some (if ok then 0 else 1) \<or> over s' = None \<and> spc s' = SReturned \<and> main_rank (mpc s') < main_rank (mpc s)"
    by (elim su_step.cases) (use f assms(2,3) in auto)
qed

text \<open>
  The process ends with status 0 only after \<^verbatim>\<open>SIGQUIT\<close>; a thread that has returned has woken \<^verbatim>\<open>main\<close>, and then every run ends it: each step
  brings it nearer to its end, and there is always one.
\<close>

theorem suspend_waits_for_quit:
  assumes "(su_step ok)\<^sup>*\<^sup>* su_start s" and "over s = None"
  shows "(mpc s \<in> {MOut, MReset} \<longrightarrow> sigquits s = 1) \<and>
    (spc s = SReturned \<longrightarrow> (\<exists>s'. su_step ok s s') \<and>
      (\<forall>s'. su_step ok s s' \<longrightarrow> over s' = Some (if ok then 0 else 1) \<or> spc s' = SReturned \<and> main_rank (mpc s') < main_rank (mpc s)))"
proof -
  have i: "su_inv s" by (rule su_inv_reach [OF assms(1)])
  then have "mpc s \<in> {MOut, MReset} \<longrightarrow> sigquits s = 1" using assms(2) unfolding su_inv_def by auto
  then show ?thesis using returned_step [OF i assms(2)] by blast
qed

end
