(* ===== verification/SigMask.thy ===== *)
theory SigMask
  imports CText
begin

section \<open>Blocked and pending signals: \<^verbatim>\<open>signals/critical.c\<close>, \<^verbatim>\<open>mask.c\<close>, \<^verbatim>\<open>suspend1.c\<close>, \<^verbatim>\<open>suspend2.c\<close>, \<^verbatim>\<open>lib/prmask.c\<close>\<close>

text \<open>
  The signals of a process: those that are blocked, those that are pending, and whether one is caught.  \<open>ended\<close> is the signal that has
  killed the process, \<open>flag\<close> the variable \<^verbatim>\<open>quitflag\<close>.  What arrives, and when, is given by lists of signals.
\<close>

definition SIGINT :: nat where "SIGINT = 2"
definition SIGQUIT :: nat where "SIGQUIT = 3"
definition SIGUSR1 :: nat where "SIGUSR1 = 10"
definition SIGALRM :: nat where "SIGALRM = 14"

lemmas sig_numbers = SIGINT_def SIGQUIT_def SIGUSR1_def SIGALRM_def

record sigm =
  blk :: "nat set"
  pnd :: "nat set"
  caught :: "nat set"
  sout :: "string list"
  flag :: bool
  ended :: "nat option"

definition sig_start :: sigm where
  "sig_start = \<lparr>blk = {}, pnd = {}, caught = {}, sout = [], flag = False, ended = None\<rparr>"

definition say :: "string \<Rightarrow> sigm \<Rightarrow> sigm" where
  "say l s = s\<lparr>sout := sout s @ [l]\<rparr>"

definition pr_mask :: "string \<Rightarrow> sigm \<Rightarrow> sigm" where
  "pr_mask str s = say (str @
     (if SIGINT \<in> blk s then ''SIGINT '' else []) @ (if SIGQUIT \<in> blk s then ''SIGQUIT '' else []) @
     (if SIGUSR1 \<in> blk s then ''SIGUSR1 '' else []) @ (if SIGALRM \<in> blk s then ''SIGALRM '' else [])) s"

text \<open>
  A signal that is not blocked kills the process, or its handler \<open>h\<close> runs, with the signal itself blocked.
\<close>

definition take_signal :: "(nat \<Rightarrow> sigm \<Rightarrow> sigm) \<Rightarrow> nat \<Rightarrow> sigm \<Rightarrow> sigm" where
  "take_signal h sg s =
     (if sg \<in> caught s then
        let old = blk s in (h sg (s\<lparr>blk := insert sg old, pnd := pnd s - {sg}\<rparr>))\<lparr>blk := old\<rparr>
      else s\<lparr>ended := Some sg\<rparr>)"

fun deliver :: "(nat \<Rightarrow> sigm \<Rightarrow> sigm) \<Rightarrow> nat list \<Rightarrow> sigm \<Rightarrow> sigm" where
  "deliver h [] s = s"
| "deliver h (sg # sgs) s = deliver h sgs (if ended s = None \<and> sg \<in> pnd s \<and> sg \<notin> blk s then take_signal h sg s else s)"

definition deliver_all :: "(nat \<Rightarrow> sigm \<Rightarrow> sigm) \<Rightarrow> sigm \<Rightarrow> sigm" where
  "deliver_all h s = deliver h [SIGINT, SIGQUIT, SIGUSR1, SIGALRM] s"

definition arrive :: "(nat \<Rightarrow> sigm \<Rightarrow> sigm) \<Rightarrow> nat \<Rightarrow> sigm \<Rightarrow> sigm" where
  "arrive h sg s = deliver_all h (s\<lparr>pnd := insert sg (pnd s)\<rparr>)"

fun arrivals :: "(nat \<Rightarrow> sigm \<Rightarrow> sigm) \<Rightarrow> nat list \<Rightarrow> sigm \<Rightarrow> sigm" where
  "arrivals h [] s = s"
| "arrivals h (sg # sgs) s = arrivals h sgs (if ended s = None then arrive h sg s else s)"

definition set_mask :: "(nat \<Rightarrow> sigm \<Rightarrow> sigm) \<Rightarrow> nat set \<Rightarrow> sigm \<Rightarrow> sigm" where
  "set_mask h m s = deliver_all h (s\<lparr>blk := m\<rparr>)"

text \<open>\<^verbatim>\<open>sigsuspend\<close>: the other mask, until a signal has been taken; \<open>None\<close> when none comes.  The second result are the signals yet to come.\<close>

fun suspend_wait :: "(nat \<Rightarrow> sigm \<Rightarrow> sigm) \<Rightarrow> nat list \<Rightarrow> sigm \<Rightarrow> (sigm \<times> nat list) option" where
  "suspend_wait h [] s = None"
| "suspend_wait h (sg # sgs) s =
     (if sg \<in> blk s then suspend_wait h sgs (s\<lparr>pnd := insert sg (pnd s)\<rparr>)
      else Some (take_signal h sg (s\<lparr>pnd := insert sg (pnd s)\<rparr>), sgs))"

definition sigsuspend :: "(nat \<Rightarrow> sigm \<Rightarrow> sigm) \<Rightarrow> nat set \<Rightarrow> nat list \<Rightarrow> sigm \<Rightarrow> (sigm \<times> nat list) option" where
  "sigsuspend h m sgs s =
     (let old = blk s in
      case (if pnd s - m \<noteq> {} then Some (deliver_all h (s\<lparr>blk := m\<rparr>), sgs) else suspend_wait h sgs (s\<lparr>blk := m\<rparr>)) of
        None \<Rightarrow> None
      | Some (s, sgs) \<Rightarrow> Some (deliver_all h (s\<lparr>blk := old\<rparr>), sgs))"

subsection \<open>The programs\<close>

text \<open>\<^verbatim>\<open>critical.c\<close>: \<open>e1\<close> arrives in the first sleep, \<open>e2\<close> in the second.\<close>

definition quit_handler :: "nat \<Rightarrow> sigm \<Rightarrow> sigm" where
  "quit_handler sg s = (say ''caught SIGQUIT'' s)\<lparr>caught := caught s - {SIGQUIT}\<rparr>"

definition critical_main :: "nat list \<Rightarrow> nat list \<Rightarrow> sigm" where
  "critical_main e1 e2 =
     (let s = sig_start\<lparr>caught := {SIGQUIT}\<rparr>;
          oldmask = blk s;
          s = set_mask quit_handler (blk s \<union> {SIGQUIT}) s;
          s = arrivals quit_handler e1 s in
      if ended s \<noteq> None then s
      else
        let s = (if SIGQUIT \<in> pnd s then say ''SIGQUIT pending'' s else s);
            s = set_mask quit_handler oldmask s in
        if ended s \<noteq> None then s
        else arrivals quit_handler e2 (say ''SIGQUIT unblocked'' s))"

text \<open>\<^verbatim>\<open>suspend1.c\<close>: \<open>e1\<close> arrives in the critical region, \<open>e2\<close> afterwards; \<open>None\<close> is a process that waits for ever.\<close>

definition int_handler :: "nat \<Rightarrow> sigm \<Rightarrow> sigm" where
  "int_handler sg s = pr_mask ''in sig_int: '' s"

definition suspend1_main :: "nat list \<Rightarrow> nat list \<Rightarrow> sigm option" where
  "suspend1_main e1 e2 =
     (let s = pr_mask ''program start: '' sig_start;
          s = s\<lparr>caught := {SIGINT}\<rparr>;
          oldmask = blk s;
          s = set_mask int_handler (blk s \<union> {SIGINT}) s;
          s = arrivals int_handler e1 (pr_mask ''in critical region: '' s) in
      if ended s \<noteq> None then Some s
      else case sigsuspend int_handler {SIGUSR1} e2 s of
        None \<Rightarrow> None
      | Some (s, _) \<Rightarrow>
        if ended s \<noteq> None then Some s
        else
          let s = pr_mask ''after return from sigsuspend: '' s;
              s = set_mask int_handler oldmask s in
          if ended s \<noteq> None then Some s else Some (pr_mask ''program exit: '' s))"

text \<open>\<^verbatim>\<open>suspend2.c\<close>: \<open>e0\<close> arrives before \<^verbatim>\<open>SIGQUIT\<close> is blocked, \<open>e1\<close> before the loop, \<open>e2\<close> in the loop.\<close>

definition both_handler :: "nat \<Rightarrow> sigm \<Rightarrow> sigm" where
  "both_handler sg s = (if sg = SIGINT then say ''interrupt'' s else if sg = SIGQUIT then s\<lparr>flag := True\<rparr> else s)"

partial_function (option) suspend2_loop :: "nat list \<Rightarrow> sigm \<Rightarrow> sigm option" where
  "suspend2_loop sgs s =
     (if flag s \<or> ended s \<noteq> None then Some s
      else case sigsuspend both_handler {} sgs s of None \<Rightarrow> None | Some r \<Rightarrow> suspend2_loop (snd r) (fst r))"

definition suspend2_main :: "nat list \<Rightarrow> nat list \<Rightarrow> nat list \<Rightarrow> sigm option" where
  "suspend2_main e0 e1 e2 =
     (let s = arrivals both_handler e0 (sig_start\<lparr>caught := {SIGINT, SIGQUIT}\<rparr>);
          oldmask = blk s;
          s = arrivals both_handler e1 (set_mask both_handler (blk s \<union> {SIGQUIT}) s) in
      case suspend2_loop e2 s of
        None \<Rightarrow> None
      | Some s \<Rightarrow> if ended s \<noteq> None then Some s else Some (set_mask both_handler oldmask (s\<lparr>flag := False\<rparr>)))"

subsection \<open>What they do\<close>

lemma sig_neq [simp]:
  "SIGINT \<noteq> SIGQUIT" "SIGQUIT \<noteq> SIGINT" "SIGINT \<noteq> SIGUSR1" "SIGUSR1 \<noteq> SIGINT" "SIGINT \<noteq> SIGALRM" "SIGALRM \<noteq> SIGINT"
  "SIGQUIT \<noteq> SIGUSR1" "SIGUSR1 \<noteq> SIGQUIT" "SIGQUIT \<noteq> SIGALRM" "SIGALRM \<noteq> SIGQUIT" "SIGUSR1 \<noteq> SIGALRM" "SIGALRM \<noteq> SIGUSR1"
  by (simp_all add: sig_numbers)

lemma arrive_blocked: "pnd s \<subseteq> blk s \<Longrightarrow> sg \<in> blk s \<Longrightarrow> arrive h sg s = s\<lparr>pnd := insert sg (pnd s)\<rparr>"
  by (auto simp: arrive_def deliver_all_def)

lemma arrivals_blocked:
  "pnd s \<subseteq> blk s \<Longrightarrow> set sgs \<subseteq> blk s \<Longrightarrow> ended s = None \<Longrightarrow> arrivals h sgs s = s\<lparr>pnd := pnd s \<union> set sgs\<rparr>"
  by (induction sgs arbitrary: s) (auto simp: arrive_blocked)

text \<open>
  \<^verbatim>\<open>SIGQUIT\<close> in the first five seconds is held back and caught once when it is unblocked, however often it was sent; in the second five seconds it
  kills the process then, and is caught otherwise (and kills it when it comes again).
\<close>

theorem critical_region_holds:
  assumes "set e1 \<subseteq> {SIGQUIT}" and "set e2 \<subseteq> {SIGQUIT}"
  shows "sout (critical_main e1 e2) = (if e1 \<noteq> [] then [''SIGQUIT pending'', ''caught SIGQUIT'', ''SIGQUIT unblocked'']
      else ''SIGQUIT unblocked'' # (if e2 \<noteq> [] then [''caught SIGQUIT''] else [])) \<and>
    (ended (critical_main e1 e2) = None \<longleftrightarrow> length e2 + (if e1 \<noteq> [] then 1 else 0) \<le> 1)"
proof -
  define s1 where "s1 = sig_start\<lparr>caught := {SIGQUIT}, blk := {SIGQUIT}\<rparr>"
  have m: "set_mask quit_handler (blk (sig_start\<lparr>caught := {SIGQUIT}\<rparr>) \<union> {SIGQUIT}) (sig_start\<lparr>caught := {SIGQUIT}\<rparr>) = s1"
    by (simp add: set_mask_def deliver_all_def sig_start_def s1_def)
  have a1: "arrivals quit_handler e1 s1 = s1\<lparr>pnd := set e1\<rparr>"
    using arrivals_blocked [of s1 e1 quit_handler] assms(1) by (simp add: s1_def sig_start_def)
  have e1: "set e1 = (if e1 = [] then {} else {SIGQUIT})" using assms(1) by (cases e1) auto
  have dead: "arrivals quit_handler sgs s = s" if "ended s \<noteq> None" for sgs s using that by (induction sgs) auto
  have hit: "arrivals quit_handler sgs s = (if sgs = [] then s else s\<lparr>pnd := {SIGQUIT}, ended := Some SIGQUIT\<rparr>)"
    if "set sgs \<subseteq> {SIGQUIT}" "blk s = {}" "pnd s = {}" "caught s = {}" "ended s = None" for sgs s
  proof (cases sgs)
    case (Cons x xs)
    then have "arrive quit_handler x s = s\<lparr>pnd := {SIGQUIT}, ended := Some SIGQUIT\<rparr>"
      using that by (simp add: arrive_def deliver_all_def take_signal_def)
    then show ?thesis using Cons that(5) dead [of "s\<lparr>pnd := {SIGQUIT}, ended := Some SIGQUIT\<rparr>" xs] by simp
  qed simp
  show ?thesis
  proof (cases "e1 = []")
    case False
    let ?s = "say ''SIGQUIT unblocked'' (set_mask quit_handler {} (say ''SIGQUIT pending'' (s1\<lparr>pnd := {SIGQUIT}\<rparr>)))"
    have s: "?s = \<lparr>blk = {}, pnd = {}, caught = {}, sout = [''SIGQUIT pending'', ''caught SIGQUIT'', ''SIGQUIT unblocked''], flag = False, ended = None\<rparr>"
      by (simp add: set_mask_def deliver_all_def take_signal_def quit_handler_def say_def s1_def sig_start_def Let_def)
    have "critical_main e1 e2 = arrivals quit_handler e2 ?s"
      using m a1 e1 False by (simp add: critical_main_def Let_def) (simp add: set_mask_def deliver_all_def take_signal_def quit_handler_def say_def s1_def sig_start_def Let_def)
    also have "\<dots> = (if e2 = [] then ?s else ?s\<lparr>pnd := {SIGQUIT}, ended := Some SIGQUIT\<rparr>)" using hit [OF assms(2), of ?s] s by simp
    finally show ?thesis using s False by (auto simp: Suc_le_eq)
  next
    case True
    let ?s = "\<lparr>blk = {}, pnd = {}, caught = {SIGQUIT}, sout = [''SIGQUIT unblocked''], flag = False, ended = None\<rparr>"
    have c: "critical_main e1 e2 = arrivals quit_handler e2 ?s"
      using m a1 e1 True by (simp add: critical_main_def Let_def) (simp add: set_mask_def deliver_all_def say_def s1_def sig_start_def)
    show ?thesis
    proof (cases e2)
      case Nil
      then show ?thesis using c True by simp
    next
      case (Cons x xs)
      let ?t = "?s\<lparr>caught := {}, sout := [''SIGQUIT unblocked'', ''caught SIGQUIT'']\<rparr>"
      have "arrive quit_handler x ?s = ?t"
        using assms(2) Cons by (simp add: arrive_def deliver_all_def take_signal_def quit_handler_def say_def Let_def)
      then have "critical_main e1 e2 = arrivals quit_handler xs ?t" using c Cons by simp
      then show ?thesis using hit [of xs ?t] assms(2) Cons True by (cases xs) simp_all
    qed
  qed
qed

text \<open>
  In \<^verbatim>\<open>suspend1.c\<close> a \<^verbatim>\<open>SIGINT\<close> of the critical region is held back to the call of \<^verbatim>\<open>sigsuspend\<close>; in the handler it is blocked together with the
  mask of that call, and afterwards the old mask is there again.
\<close>

lemma suspend1_holds:
  "map_option sout (suspend1_main [SIGINT] e2) = Some [''program start: '', ''in critical region: SIGINT '', ''in sig_int: SIGINT SIGUSR1 '',
     ''after return from sigsuspend: SIGINT '', ''program exit: '']"
  by (simp add: suspend1_main_def sigsuspend_def set_mask_def deliver_all_def arrive_def take_signal_def int_handler_def pr_mask_def say_def sig_start_def Let_def)

text \<open>The handler of \<^verbatim>\<open>suspend2.c\<close>, with both signals caught.\<close>

definition both_caught :: "sigm \<Rightarrow> bool" where
  "both_caught s \<longleftrightarrow> caught s = {SIGINT, SIGQUIT} \<and> ended s = None"

lemma take_both:
  "both_caught s \<Longrightarrow> take_signal both_handler SIGINT s = s\<lparr>pnd := pnd s - {SIGINT}, sout := sout s @ [''interrupt'']\<rparr>"
  "both_caught s \<Longrightarrow> take_signal both_handler SIGQUIT s = s\<lparr>pnd := pnd s - {SIGQUIT}, flag := True\<rparr>"
  by (simp_all add: both_caught_def take_signal_def both_handler_def say_def Let_def)

lemma deliver_none: "pnd s \<subseteq> blk s \<Longrightarrow> deliver_all h s = s"
  by (auto simp: deliver_all_def)

lemma arrivals_open:
  "both_caught s \<Longrightarrow> blk s = {} \<Longrightarrow> pnd s = {} \<Longrightarrow> set sgs \<subseteq> {SIGINT, SIGQUIT} \<Longrightarrow>
    \<exists>o'. arrivals both_handler sgs s = s\<lparr>sout := o', flag := (flag s \<or> SIGQUIT \<in> set sgs)\<rparr>"
proof (induction sgs arbitrary: s)
  case (Cons g gs)
  have e: "ended s = None" using Cons.prems(1) by (simp add: both_caught_def)
  show ?case
  proof (cases "g = SIGINT")
    case True
    have "arrive both_handler SIGINT s = s\<lparr>sout := sout s @ [''interrupt'']\<rparr>"
      using Cons.prems e by (simp add: arrive_def deliver_all_def take_both both_caught_def)
    then show ?thesis using Cons.IH [of "s\<lparr>sout := sout s @ [''interrupt'']\<rparr>"] Cons.prems e True by (simp add: both_caught_def)
  next
    case False
    then have g: "g = SIGQUIT" using Cons.prems(4) by simp
    have "arrive both_handler SIGQUIT s = s\<lparr>flag := True\<rparr>"
      using Cons.prems e by (simp add: arrive_def deliver_all_def take_both both_caught_def)
    then show ?thesis using Cons.IH [of "s\<lparr>flag := True\<rparr>"] Cons.prems e g by (simp add: both_caught_def)
  qed
next
  case Nil
  show ?case by (rule exI [of _ "sout s"]) simp
qed

lemma arrivals_masked:
  "both_caught s \<Longrightarrow> blk s = {SIGQUIT} \<Longrightarrow> pnd s \<subseteq> {SIGQUIT} \<Longrightarrow> set sgs \<subseteq> {SIGINT, SIGQUIT} \<Longrightarrow>
    \<exists>o'. arrivals both_handler sgs s = s\<lparr>sout := o', pnd := pnd s \<union> (set sgs \<inter> {SIGQUIT})\<rparr>"
proof (induction sgs arbitrary: s)
  case (Cons g gs)
  have e: "ended s = None" using Cons.prems(1) by (simp add: both_caught_def)
  show ?case
  proof (cases "g = SIGINT")
    case True
    have "SIGINT \<notin> pnd s" "SIGUSR1 \<notin> pnd s" "SIGALRM \<notin> pnd s" using Cons.prems(3) by auto
    then have "arrive both_handler SIGINT s = s\<lparr>sout := sout s @ [''interrupt'']\<rparr>"
      using Cons.prems e by (simp add: arrive_def deliver_all_def take_both both_caught_def)
    then show ?thesis using Cons.IH [of "s\<lparr>sout := sout s @ [''interrupt'']\<rparr>"] Cons.prems e True by (simp add: both_caught_def)
  next
    case False
    then have g: "g = SIGQUIT" using Cons.prems(4) by simp
    have "arrive both_handler SIGQUIT s = s\<lparr>pnd := insert SIGQUIT (pnd s)\<rparr>" using Cons.prems by (intro arrive_blocked) auto
    moreover have "insert SIGQUIT (pnd s \<union> set gs \<inter> {SIGQUIT}) = insert SIGQUIT (pnd s)" by auto
    ultimately show ?thesis using Cons.IH [of "s\<lparr>pnd := insert SIGQUIT (pnd s)\<rparr>"] Cons.prems e g by (simp add: both_caught_def)
  qed
next
  case Nil
  show ?case by (rule exI [of _ "sout s"]) simp
qed

lemma suspend2_loop_quit:
  assumes "both_caught s" and "blk s = {SIGQUIT}" and "pnd s \<subseteq> {SIGQUIT}" and "set sgs \<subseteq> {SIGINT, SIGQUIT}"
  shows "suspend2_loop sgs s = None \<and> \<not> flag s \<and> pnd s = {} \<and> SIGQUIT \<notin> set sgs \<or>
    (flag s \<or> pnd s \<noteq> {} \<or> SIGQUIT \<in> set sgs) \<and>
      (\<exists>s'. suspend2_loop sgs s = Some s' \<and> ended s' = None \<and> blk s' = {SIGQUIT} \<and> pnd s' \<subseteq> {SIGQUIT} \<and> caught s' = {SIGINT, SIGQUIT} \<and>
        sout s' = sout s @ (if flag s \<or> pnd s \<noteq> {} then [] else replicate (length (takeWhile (\<lambda>g. g \<noteq> SIGQUIT) sgs)) ''interrupt''))"
  using assms
proof (induction sgs arbitrary: s)
  case Nil
  show ?case
  proof (cases "flag s \<or> pnd s = {}")
    case True
    show ?thesis
    proof (cases "flag s")
      case True
      then have "suspend2_loop [] s = Some s" by (subst suspend2_loop.simps) simp
      then show ?thesis using True Nil by (simp add: both_caught_def)
    next
      case False
      then have "pnd s = {}" using True by simp
      then have "sigsuspend both_handler {} [] s = None" by (simp add: sigsuspend_def Let_def)
      then have "suspend2_loop [] s = None" using False Nil.prems(1) by (subst suspend2_loop.simps) (simp add: both_caught_def)
      then show ?thesis using False \<open>pnd s = {}\<close> by simp
    qed
  next
    case False
    then have p: "pnd s = {SIGQUIT}" using Nil.prems(3) by auto
    have "sigsuspend both_handler {} [] s = Some (s\<lparr>pnd := {}, flag := True\<rparr>, [])"
      using Nil.prems p by (simp add: sigsuspend_def deliver_all_def take_both both_caught_def Let_def)
    moreover have "suspend2_loop [] (s\<lparr>pnd := {}, flag := True\<rparr>) = Some (s\<lparr>pnd := {}, flag := True\<rparr>)" by (subst suspend2_loop.simps) simp
    ultimately have "suspend2_loop [] s = Some (s\<lparr>pnd := {}, flag := True\<rparr>)"
      using False Nil.prems(1) by (subst suspend2_loop.simps) (simp add: both_caught_def)
    then show ?thesis using False Nil.prems by (simp add: both_caught_def)
  qed
next
  case (Cons g gs)
  have e: "ended s = None" "caught s = {SIGINT, SIGQUIT}" using Cons.prems(1) by (simp_all add: both_caught_def)
  consider (flag) "flag s" | (pending) "\<not> flag s" "pnd s = {SIGQUIT}" | (quit) "\<not> flag s" "pnd s = {}" "g = SIGQUIT"
    | (int) "\<not> flag s" "pnd s = {}" "g = SIGINT"
    using Cons.prems(3,4) by auto
  then show ?case
  proof cases
    case flag
    then have "suspend2_loop (g # gs) s = Some s" by (subst suspend2_loop.simps) simp
    then show ?thesis using flag e Cons.prems by simp
  next
    case pending
    have "sigsuspend both_handler {} (g # gs) s = Some (s\<lparr>pnd := {}, flag := True\<rparr>, g # gs)"
      using Cons.prems pending by (simp add: sigsuspend_def deliver_all_def take_both both_caught_def Let_def)
    moreover have "suspend2_loop (g # gs) (s\<lparr>pnd := {}, flag := True\<rparr>) = Some (s\<lparr>pnd := {}, flag := True\<rparr>)"
      by (subst suspend2_loop.simps) simp
    ultimately have "suspend2_loop (g # gs) s = Some (s\<lparr>pnd := {}, flag := True\<rparr>)" using pending e by (subst suspend2_loop.simps) simp
    then show ?thesis using pending e Cons.prems by simp
  next
    case quit
    have "sigsuspend both_handler {} (g # gs) s = Some (s\<lparr>pnd := {}, flag := True\<rparr>, gs)"
      using Cons.prems quit by (simp add: sigsuspend_def deliver_all_def take_both both_caught_def Let_def)
    moreover have "suspend2_loop gs (s\<lparr>pnd := {}, flag := True\<rparr>) = Some (s\<lparr>pnd := {}, flag := True\<rparr>)" by (subst suspend2_loop.simps) simp
    ultimately have "suspend2_loop (g # gs) s = Some (s\<lparr>pnd := {}, flag := True\<rparr>)" using quit e by (subst suspend2_loop.simps) simp
    then show ?thesis using quit e Cons.prems by simp
  next
    case int
    let ?s = "s\<lparr>pnd := {}, sout := sout s @ [''interrupt'']\<rparr>"
    have "sigsuspend both_handler {} (g # gs) s = Some (?s, gs)"
      using Cons.prems int by (simp add: sigsuspend_def deliver_all_def take_both both_caught_def Let_def)
    then have l: "suspend2_loop (g # gs) s = suspend2_loop gs ?s" using int e by (subst suspend2_loop.simps) simp
    show ?thesis using Cons.IH [of ?s] Cons.prems int unfolding l by (auto simp: both_caught_def)
  qed
qed

text \<open>
  \<^verbatim>\<open>suspend2\<close> gets past its loop exactly when \<^verbatim>\<open>SIGQUIT\<close> comes at some time, before, between or within its waits: no signal is lost between
  the test of the flag and the wait.  When it comes in the loop only, each interrupt before it has been reported.
\<close>

theorem suspend2_never_misses:
  assumes "set (e0 @ e1 @ e2) \<subseteq> {SIGINT, SIGQUIT}"
  shows "case suspend2_main e0 e1 e2 of
      None \<Rightarrow> SIGQUIT \<notin> set (e0 @ e1 @ e2)
    | Some s \<Rightarrow> SIGQUIT \<in> set (e0 @ e1 @ e2) \<and> ended s = None"
proof -
  let ?s0 = "sig_start\<lparr>caught := {SIGINT, SIGQUIT}\<rparr>"
  have s0: "both_caught ?s0" "blk ?s0 = {}" "pnd ?s0 = {}" "\<not> flag ?s0" by (simp_all add: both_caught_def sig_start_def)
  obtain o1 where a0: "arrivals both_handler e0 ?s0 = ?s0\<lparr>sout := o1, flag := SIGQUIT \<in> set e0\<rparr>"
    using arrivals_open [OF s0(1-3), of e0] assms s0(4) by auto
  let ?s1 = "?s0\<lparr>sout := o1, flag := SIGQUIT \<in> set e0\<rparr>"
  let ?s2 = "?s1\<lparr>blk := {SIGQUIT}\<rparr>"
  have m: "set_mask both_handler (blk ?s1 \<union> {SIGQUIT}) ?s1 = ?s2"
    by (simp add: set_mask_def deliver_none sig_start_def)
  obtain s3 where a1: "arrivals both_handler e1 ?s2 = s3" "both_caught s3" "blk s3 = {SIGQUIT}" "pnd s3 = (if SIGQUIT \<in> set e1 then {SIGQUIT} else {})"
      "flag s3 = (SIGQUIT \<in> set e0)"
    using arrivals_masked [of ?s2 e1] assms by (auto simp: both_caught_def sig_start_def)
  have g: "set e2 \<subseteq> {SIGINT, SIGQUIT}" using assms by simp
  have main: "suspend2_main e0 e1 e2 = (case suspend2_loop e2 s3 of None \<Rightarrow> None
      | Some s \<Rightarrow> if ended s \<noteq> None then Some s else Some (set_mask both_handler (blk ?s1) (s\<lparr>flag := False\<rparr>)))"
    unfolding suspend2_main_def Let_def a0 m a1(1) by (rule refl)
  have "pnd s3 \<subseteq> {SIGQUIT}" using a1(4) by simp
  from suspend2_loop_quit [OF a1(2,3) this g] show ?thesis
  proof
    assume n: "suspend2_loop e2 s3 = None \<and> \<not> flag s3 \<and> pnd s3 = {} \<and> SIGQUIT \<notin> set e2"
    then have "SIGQUIT \<notin> set e1" using a1(4) by (simp split: if_splits)
    then show ?thesis using n a1(5) main by simp
  next
    assume "(flag s3 \<or> pnd s3 \<noteq> {} \<or> SIGQUIT \<in> set e2) \<and> (\<exists>s'. suspend2_loop e2 s3 = Some s' \<and> ended s' = None \<and> blk s' = {SIGQUIT} \<and>
        pnd s' \<subseteq> {SIGQUIT} \<and> caught s' = {SIGINT, SIGQUIT} \<and>
        sout s' = sout s3 @ (if flag s3 \<or> pnd s3 \<noteq> {} then [] else replicate (length (takeWhile (\<lambda>g. g \<noteq> SIGQUIT) e2)) ''interrupt''))"
    then obtain s' where s': "suspend2_loop e2 s3 = Some s'" "ended s' = None" "pnd s' \<subseteq> {SIGQUIT}" "caught s' = {SIGINT, SIGQUIT}"
      and q: "flag s3 \<or> pnd s3 \<noteq> {} \<or> SIGQUIT \<in> set e2" by blast
    have "SIGQUIT \<in> set (e0 @ e1 @ e2)" using q a1(4,5) by (auto split: if_splits)
    moreover have "ended (set_mask both_handler (blk ?s1) (s'\<lparr>flag := False\<rparr>)) = None"
      using s'(2-4) by (auto simp: set_mask_def deliver_all_def take_both both_caught_def)
    ultimately show ?thesis using main s'(1,2) by simp
  qed
qed

subsection \<open>\<^verbatim>\<open>mask.c\<close>\<close>

text \<open>
  \<open>flag\<close> is \<^verbatim>\<open>canjump\<close>; \<open>during\<close> arrives in the five seconds of \<^verbatim>\<open>sig_usr1\<close>, with the alarm that it has set.  \<^verbatim>\<open>siglongjmp\<close> restores
  the mask that \<^verbatim>\<open>sigsetjmp\<close> has saved and goes on in \<^verbatim>\<open>main\<close>; \<open>None\<close> is a process that pauses for ever.
\<close>

definition alrm_handler :: "nat \<Rightarrow> sigm \<Rightarrow> sigm" where
  "alrm_handler sg s = pr_mask ''in sig_alrm: '' s"

definition usr1_handler :: "nat list \<Rightarrow> sigm \<Rightarrow> sigm" where
  "usr1_handler during s =
     (if \<not> flag s then s
      else let s = pr_mask ''starting sig_usr1: '' s;
               s = arrivals alrm_handler during s
           in (pr_mask ''finishing sig_usr1: '' s)\<lparr>flag := False\<rparr>)"

definition mask_handler :: "nat list \<Rightarrow> nat \<Rightarrow> sigm \<Rightarrow> sigm" where
  "mask_handler during sg s = (if sg = SIGUSR1 then usr1_handler during s else if sg = SIGALRM then alrm_handler sg s else s)"

fun pause_loop :: "nat list \<Rightarrow> nat set \<Rightarrow> nat list \<Rightarrow> sigm \<Rightarrow> sigm option" where
  "pause_loop during saved [] s = None"
| "pause_loop during saved (sg # sgs) s =
     (let s = arrive (mask_handler during) sg s in
      if ended s \<noteq> None then Some s
      else if \<not> flag s then Some (pr_mask ''ending main: '' (set_mask (mask_handler during) saved s))
      else pause_loop during saved sgs s)"

definition mask_main :: "nat list \<Rightarrow> nat list \<Rightarrow> nat list \<Rightarrow> sigm option" where
  "mask_main before during after =
     (let s = pr_mask ''starting main: '' (sig_start\<lparr>caught := {SIGUSR1, SIGALRM}\<rparr>);
          s = arrivals (mask_handler during) before s;
          saved = blk s
      in if ended s \<noteq> None then Some s else pause_loop during saved after (s\<lparr>flag := True\<rparr>))"

lemma arrivals_in_usr1:
  assumes "set during \<subseteq> {SIGALRM, SIGUSR1}" and "caught s = {SIGUSR1, SIGALRM}" and "blk s = {SIGUSR1}" and "pnd s \<subseteq> {SIGUSR1}" and "ended s = None"
  shows "arrivals alrm_handler during s = s\<lparr>pnd := pnd s \<union> (set during \<inter> {SIGUSR1}),
    sout := sout s @ replicate (count_list during SIGALRM) ''in sig_alrm: SIGUSR1 SIGALRM ''\<rparr>"
  using assms
proof (induction during arbitrary: s)
  case (Cons g gs)
  show ?case
  proof (cases "g = SIGALRM")
    case True
    have p: "SIGINT \<notin> pnd s" "SIGQUIT \<notin> pnd s" "SIGALRM \<notin> pnd s" using Cons.prems(4) by auto
    have "arrive alrm_handler SIGALRM s = s\<lparr>sout := sout s @ [''in sig_alrm: SIGUSR1 SIGALRM '']\<rparr>"
      using Cons.prems(2,3,5) p by (simp add: arrive_def deliver_all_def take_signal_def alrm_handler_def pr_mask_def say_def Let_def)
    then show ?thesis using Cons.IH [of "s\<lparr>sout := sout s @ [''in sig_alrm: SIGUSR1 SIGALRM '']\<rparr>"] Cons.prems True by simp
  next
    case False
    then have g: "g = SIGUSR1" using Cons.prems(1) by simp
    have "arrive alrm_handler SIGUSR1 s = s\<lparr>pnd := insert SIGUSR1 (pnd s)\<rparr>" using Cons.prems by (intro arrive_blocked) auto
    moreover have "insert SIGUSR1 (pnd s \<union> set gs \<inter> {SIGUSR1}) = insert SIGUSR1 (pnd s)" by auto
    ultimately show ?thesis using Cons.IH [of "s\<lparr>pnd := insert SIGUSR1 (pnd s)\<rparr>"] Cons.prems g by simp
  qed
qed simp

text \<open>
  The masks of the program, for any alarms and further \<^verbatim>\<open>SIGUSR1\<close> in the handler: each handler adds its own signal, and after the jump the mask
  is that of the start again.  A \<^verbatim>\<open>SIGUSR1\<close> that was held back is taken after the jump and does nothing.
\<close>

theorem mask_jumps_back:
  assumes "set during \<subseteq> {SIGALRM, SIGUSR1}" and "set before \<subseteq> {SIGUSR1}"
  shows "\<exists>s. mask_main before during (SIGUSR1 # after) = Some s \<and> ended s = None \<and> blk s = {} \<and> pnd s = {} \<and>
    sout s = [''starting main: '', ''starting sig_usr1: SIGUSR1 ''] @ replicate (count_list during SIGALRM) ''in sig_alrm: SIGUSR1 SIGALRM '' @
      [''finishing sig_usr1: SIGUSR1 '', ''ending main: '']"
proof -
  let ?h = "mask_handler during"
  let ?s = "\<lparr>blk = {}, pnd = {}, caught = {SIGUSR1, SIGALRM}, sout = [''starting main: ''], flag = False, ended = None\<rparr>"
  have a: "arrivals ?h before ?s = ?s" using assms(2)
  proof (induction before)
    case (Cons g gs)
    then have "g = SIGUSR1" by simp
    then have "arrive ?h g ?s = ?s" by (simp add: arrive_def deliver_all_def take_signal_def mask_handler_def usr1_handler_def Let_def)
    then show ?case using Cons by simp
  qed simp
  let ?u = "?s\<lparr>flag := True, blk := {SIGUSR1}, sout := [''starting main: '', ''starting sig_usr1: SIGUSR1 '']\<rparr>"
  let ?v = "?s\<lparr>pnd := set during \<inter> {SIGUSR1}, sout := [''starting main: '', ''starting sig_usr1: SIGUSR1 ''] @
    replicate (count_list during SIGALRM) ''in sig_alrm: SIGUSR1 SIGALRM '' @ [''finishing sig_usr1: SIGUSR1 '']\<rparr>"
  have d: "arrivals alrm_handler during ?u = ?u\<lparr>pnd := set during \<inter> {SIGUSR1},
      sout := sout ?u @ replicate (count_list during SIGALRM) ''in sig_alrm: SIGUSR1 SIGALRM ''\<rparr>"
    using arrivals_in_usr1 [OF assms(1), of ?u] by simp
  have u: "usr1_handler during (?s\<lparr>flag := True, blk := {SIGUSR1}\<rparr>) = ?v\<lparr>blk := {SIGUSR1}\<rparr>"
    using d by (simp add: usr1_handler_def pr_mask_def say_def Let_def)
  have h: "arrive ?h SIGUSR1 (?s\<lparr>flag := True\<rparr>) = ?v"
    using u by (simp add: arrive_def deliver_all_def take_signal_def mask_handler_def Let_def)
  have m: "set_mask ?h {} ?v = ?v\<lparr>pnd := {}\<rparr>"
    by (simp add: set_mask_def deliver_all_def take_signal_def mask_handler_def usr1_handler_def Let_def)
  have "mask_main before during (SIGUSR1 # after) = pause_loop during {} (SIGUSR1 # after) (?s\<lparr>flag := True\<rparr>)"
    using a by (simp add: mask_main_def sig_start_def pr_mask_def say_def Let_def)
  also have "\<dots> = Some (pr_mask ''ending main: '' (?v\<lparr>pnd := {}\<rparr>))" unfolding pause_loop.simps Let_def h m by simp
  finally show ?thesis by (simp add: pr_mask_def say_def)
qed

end
