(* ===== verification/FileTools.thy ===== *)
theory FileTools
  imports PosixFile
begin

unbundle bit_operations_syntax

section \<open>Programs on files: \<^verbatim>\<open>file/zap.c\<close>, \<^verbatim>\<open>umask.c\<close>, \<^verbatim>\<open>changemod.c\<close>, \<^verbatim>\<open>filetype.c\<close>, \<^verbatim>\<open>hole.c\<close>, \<^verbatim>\<open>longpath.c\<close>\<close>

subsection \<open>Files behind names\<close>

text \<open>
  A name leads to a node, several names may lead to one.  \<open>can op f\<close>: the call \<open>op\<close> on the name works as far as permissions go;
  \<open>now\<close> is the clock.
\<close>

datatype fcall = Stat | OpenRW | Utime | Chmod | Creat

record fnode =
  n_mode :: "32 word"
  n_data :: string
  n_atime :: int
  n_mtime :: int
  n_ctime :: int

record fsys =
  names :: "string \<Rightarrow> nat option"
  node :: "nat \<Rightarrow> fnode"
  fresh :: nat
  umask :: "32 word"

record fsenv =
  can :: "fcall \<Rightarrow> string \<Rightarrow> bool"
  now :: int

definition lookup :: "fsenv \<Rightarrow> fcall \<Rightarrow> string \<Rightarrow> fsys \<Rightarrow> nat option" where
  "lookup e op f fs = (if can e op f then names fs f else None)"

definition upd_node :: "nat \<Rightarrow> (fnode \<Rightarrow> fnode) \<Rightarrow> fsys \<Rightarrow> fsys" where
  "upd_node i g fs = fs\<lparr>node := (node fs)(i := g (node fs i))\<rparr>"

text \<open>\<^verbatim>\<open>creat\<close>: an old file keeps its mode and loses its bytes, a new one has the mode less the mask.\<close>

definition sys_creat :: "fsenv \<Rightarrow> string \<Rightarrow> 32 word \<Rightarrow> fsys \<Rightarrow> (nat \<times> fsys) option" where
  "sys_creat e f m fs = (if \<not> can e Creat f then None
     else case names fs f of
       Some i \<Rightarrow> Some (i, upd_node i (\<lambda>n. n\<lparr>n_data := [], n_mtime := now e, n_ctime := now e\<rparr>) fs)
     | None \<Rightarrow> let i = fresh fs in
         Some (i, fs\<lparr>names := (names fs)(f \<mapsto> i), fresh := Suc i,
           node := (node fs)(i := \<lparr>n_mode = m AND NOT (umask fs), n_data = [], n_atime = now e, n_mtime = now e, n_ctime = now e\<rparr>)\<rparr>))"

definition sys_chmod :: "fsenv \<Rightarrow> string \<Rightarrow> 32 word \<Rightarrow> fsys \<Rightarrow> fsys option" where
  "sys_chmod e f m fs = map_option (\<lambda>i. upd_node i (\<lambda>n. n\<lparr>n_mode := m, n_ctime := now e\<rparr>) fs) (lookup e Chmod f fs)"

subsection \<open>\<^verbatim>\<open>zap\<close>\<close>

definition truncate_node :: "int \<Rightarrow> fnode \<Rightarrow> fnode" where
  "truncate_node t n = n\<lparr>n_data := [], n_mtime := t, n_ctime := t\<rparr>"

definition reset_times :: "int \<Rightarrow> fnode \<Rightarrow> fnode \<Rightarrow> fnode" where
  "reset_times t statbuf n = n\<lparr>n_atime := n_atime statbuf, n_mtime := n_mtime statbuf, n_ctime := t\<rparr>"

definition zap_one :: "fsenv \<Rightarrow> string \<Rightarrow> fsys \<Rightarrow> fsys \<times> string list" where
  "zap_one e f fs = (case lookup e Stat f fs of
     None \<Rightarrow> (fs, [f @ '': stat error''])
   | Some i \<Rightarrow> let statbuf = node fs i in
     (case lookup e OpenRW f fs of
       None \<Rightarrow> (fs, [f @ '': open error''])
     | Some i \<Rightarrow> let fs = upd_node i (truncate_node (now e)) fs in
       (case lookup e Utime f fs of
         None \<Rightarrow> (fs, [f @ '': utime error''])
       | Some i \<Rightarrow> (upd_node i (reset_times (now e) statbuf) fs, []))))"

fun zap_args :: "fsenv \<Rightarrow> string list \<Rightarrow> fsys \<Rightarrow> fsys \<times> string list" where
  "zap_args e [] fs = (fs, [])"
| "zap_args e (f # args) fs = (case zap_one e f fs of (fs, err) \<Rightarrow> case zap_args e args fs of (fs, errs) \<Rightarrow> (fs, err @ errs))"

definition zap_main :: "fsenv \<Rightarrow> string list \<Rightarrow> fsys \<Rightarrow> fsys \<times> string list" where
  "zap_main e argv fs = zap_args e (tl argv) fs"

text \<open>Which node an argument empties, and what is then left undone.\<close>

definition zaps :: "fsenv \<Rightarrow> fsys \<Rightarrow> string \<Rightarrow> nat \<Rightarrow> bool" where
  "zaps e fs f i \<longleftrightarrow> can e Stat f \<and> can e OpenRW f \<and> names fs f = Some i"

definition zap_error :: "fsenv \<Rightarrow> fsys \<Rightarrow> string \<Rightarrow> string option" where
  "zap_error e fs f = (if names fs f = None \<or> \<not> can e Stat f then Some (f @ '': stat error'')
     else if \<not> can e OpenRW f then Some (f @ '': open error'')
     else if \<not> can e Utime f then Some (f @ '': utime error'') else None)"

lemma upd_node_sel [simp]:
  "names (upd_node i g fs) = names fs" "umask (upd_node i g fs) = umask fs" "fresh (upd_node i g fs) = fresh fs"
  "node (upd_node i g fs) j = (if j = i then g (node fs i) else node fs j)"
  by (simp_all add: upd_node_def)

lemma zap_one_spec:
  assumes "zap_one e f fs = (fs', err)"
  shows "names fs' = names fs" and "err = (case zap_error e fs f of None \<Rightarrow> [] | Some m \<Rightarrow> [m])"
    and "node fs' i = (if zaps e fs f i then
        (if can e Utime f then (node fs i)\<lparr>n_data := [], n_ctime := now e\<rparr> else truncate_node (now e) (node fs i)) else node fs i)"
  using assms
  by (auto simp: zap_one_def lookup_def zaps_def zap_error_def Let_def truncate_node_def reset_times_def split: if_splits option.splits)

text \<open>
  \<^verbatim>\<open>zap\<close> empties exactly the files that one of its arguments can reach, under whichever name, and goes on after an error.  Their times of
  access and modification are the old ones when they could be set for each of the names; the times of change are not hidden.  Each argument
  that failed is reported, in order, with the first call that failed.
\<close>

theorem zap_keeps_times:
  assumes "zap_main e (a # args) fs = (fs', errs)"
  shows "names fs' = names fs \<and> errs = List.map_filter (zap_error e fs) args \<and>
    (\<forall>i. let n = node fs i; n' = node fs' i; hit = (\<exists>f \<in> set args. zaps e fs f i) in
      n_mode n' = n_mode n \<and> n_data n' = (if hit then [] else n_data n) \<and> n_atime n' = n_atime n \<and>
      n_ctime n' = (if hit then now e else n_ctime n) \<and>
      n_mtime n' = (if \<exists>f \<in> set args. zaps e fs f i \<and> \<not> can e Utime f then now e else n_mtime n))"
proof -
  have "names fs' = names fs \<and> errs = List.map_filter (zap_error e fs) args \<and>
    (\<forall>i. let n = node fs i; n' = node fs' i; hit = (\<exists>f \<in> set args. zaps e fs f i) in
      n_mode n' = n_mode n \<and> n_data n' = (if hit then [] else n_data n) \<and> n_atime n' = n_atime n \<and>
      n_ctime n' = (if hit then now e else n_ctime n) \<and>
      n_mtime n' = (if \<exists>f \<in> set args. zaps e fs f i \<and> \<not> can e Utime f then now e else n_mtime n))"
    if "zap_args e args fs = (fs', errs)" using that
  proof (induction args arbitrary: fs errs)
    case Nil
    then show ?case by (simp add: List.map_filter_def)
  next
    case (Cons f args)
    obtain fs1 err errs1 where z: "zap_one e f fs = (fs1, err)" "zap_args e args fs1 = (fs', errs1)" "errs = err @ errs1"
      using Cons.prems by (auto split: prod.splits)
    note one = zap_one_spec [OF z(1)]
    have same: "zaps e fs1 = zaps e fs" "zap_error e fs1 = zap_error e fs"
      by (auto simp: zaps_def zap_error_def one(1) fun_eq_iff)
    have "errs = List.map_filter (zap_error e fs) (f # args)"
      using Cons.IH [OF z(2)] z(3) one(2) same by (simp add: List.map_filter_def split: option.splits)
    moreover have "let n = node fs i; n' = node fs' i; hit = (\<exists>f \<in> set (f # args). zaps e fs f i) in
      n_mode n' = n_mode n \<and> n_data n' = (if hit then [] else n_data n) \<and> n_atime n' = n_atime n \<and>
      n_ctime n' = (if hit then now e else n_ctime n) \<and>
      n_mtime n' = (if \<exists>f \<in> set (f # args). zaps e fs f i \<and> \<not> can e Utime f then now e else n_mtime n)" for i
      using Cons.IH [OF z(2)] unfolding same one(3) by (auto simp: Let_def truncate_node_def)
    ultimately show ?case using Cons.IH [OF z(2)] one(1) by simp
  qed
  then show ?thesis using assms by (simp add: zap_main_def)
qed


subsection \<open>Modes: \<^verbatim>\<open>umask.c\<close>, \<^verbatim>\<open>changemod.c\<close>, \<^verbatim>\<open>filetype.c\<close>\<close>

definition S_ISGID :: "32 word" where "S_ISGID = 0x400"
definition S_IXGRP :: "32 word" where "S_IXGRP = 0x008"
definition RWRWRW :: "32 word" where "RWRWRW = 0x100 OR 0x080 OR 0x020 OR 0x010 OR 0x004 OR 0x002"
definition FILE_MODE :: "32 word" where "FILE_MODE = 0x100 OR 0x080 OR 0x020 OR 0x004"

definition umask_main :: "fsenv \<Rightarrow> fsys \<Rightarrow> fsys run" where
  "umask_main e fs =
     (case sys_creat e ''foo'' RWRWRW (fs\<lparr>umask := 0\<rparr>) of
       None \<Rightarrow> die (ErrSys ''creat error for foo'')
     | Some (_, fs) \<Rightarrow>
     (case sys_creat e ''bar'' RWRWRW (fs\<lparr>umask := 0x020 OR 0x010 OR 0x004 OR 0x002\<rparr>) of
       None \<Rightarrow> die (ErrSys ''creat error for bar'')
     | Some (_, fs) \<Rightarrow> ret fs))"

definition changemod_main :: "fsenv \<Rightarrow> fsys \<Rightarrow> fsys run" where
  "changemod_main e fs =
     (case lookup e Stat ''foo'' fs of
       None \<Rightarrow> die (ErrSys ''stat error for foo'')
     | Some i \<Rightarrow>
     (case sys_chmod e ''foo'' ((n_mode (node fs i) AND NOT S_IXGRP) OR S_ISGID) fs of
       None \<Rightarrow> die (ErrSys ''chmod error for foo'')
     | Some fs \<Rightarrow>
     (case sys_chmod e ''bar'' FILE_MODE fs of
       None \<Rightarrow> die (ErrSys ''chmod error for bar'')
     | Some fs \<Rightarrow> ret fs)))"

text \<open>The type is in the four bits of \<open>S_IFMT\<close>.\<close>

definition S_IFMT :: "32 word" where "S_IFMT = 0xF000"

definition file_type :: "32 word \<Rightarrow> string" where
  "file_type m =
     (if m AND S_IFMT = 0x8000 then ''regular'' else if m AND S_IFMT = 0x4000 then ''directory''
      else if m AND S_IFMT = 0x2000 then ''character special'' else if m AND S_IFMT = 0x6000 then ''block special''
      else if m AND S_IFMT = 0x1000 then ''fifo'' else if m AND S_IFMT = 0xA000 then ''symbolic link''
      else if m AND S_IFMT = 0xC000 then ''socket'' else ''** unknown mode **'')"

definition filetype_main :: "(string \<Rightarrow> 32 word option) \<Rightarrow> string list \<Rightarrow> string list" where
  "filetype_main lstat argv = map (\<lambda>f. f @ '': '' @ (case lstat f of None \<Rightarrow> ''lstat error'' | Some m \<Rightarrow> file_type m)) (tl argv)"

text \<open>
  In an empty directory, where everything is permitted, the two programs one after the other leave \<^verbatim>\<open>foo\<close> with \<^verbatim>\<open>rw-rwSrw-\<close> and
  \<^verbatim>\<open>bar\<close> with \<^verbatim>\<open>rw-r--r--\<close>, and nothing else has changed.  An old \<^verbatim>\<open>foo\<close> keeps the bits it had.
\<close>

lemma umask_then_changemod:
  assumes "\<forall>op f. can e op f" and "names fs ''bar'' \<noteq> names fs ''foo'' \<or> names fs ''foo'' = None" and "\<forall>f i. names fs f = Some i \<longrightarrow> i < fresh fs"
  shows "\<exists>fs' i j. rbind (umask_main e fs) (changemod_main e) = ret fs' \<and> names fs' ''foo'' = Some i \<and> names fs' ''bar'' = Some j \<and> i \<noteq> j \<and>
    n_mode (node fs' i) = (case names fs ''foo'' of None \<Rightarrow> 0x5B6 | Some i \<Rightarrow> (n_mode (node fs i) AND NOT 0x008) OR 0x400) \<and>
    n_mode (node fs' j) = 0x1A4 \<and> n_data (node fs' i) = [] \<and> n_data (node fs' j) = [] \<and>
    (\<forall>f. f \<noteq> ''foo'' \<and> f \<noteq> ''bar'' \<longrightarrow> names fs' f = names fs f) \<and>
    (\<forall>k. k < fresh fs \<and> k \<noteq> i \<and> k \<noteq> j \<longrightarrow> node fs' k = node fs k)"
proof -
  have lt: "i < fresh fs" if "names fs f = Some i" for f i using assms(3) that by blast
  show ?thesis
    using assms(1,2) lt [of "''foo''"] lt [of "''bar''"]
    by (cases "names fs ''foo''"; cases "names fs ''bar''")
      (auto simp: umask_main_def changemod_main_def sys_creat_def sys_chmod_def lookup_def upd_node_def Let_def
        RWRWRW_def FILE_MODE_def S_ISGID_def S_IXGRP_def)
qed

text \<open>The printed type says which of the seven types it is, whatever the other bits are.\<close>

lemma file_type_bits: "file_type (m AND S_IFMT) = file_type m"
  by (simp add: file_type_def and.assoc)

lemma file_type_inj:
  assumes "file_type m = file_type m'" and "file_type m \<noteq> ''** unknown mode **''"
  shows "m AND S_IFMT = m' AND S_IFMT"
  using assms unfolding file_type_def by (simp split: if_splits)

subsection \<open>\<^verbatim>\<open>hole.c\<close>\<close>

definition write_at :: "nat \<Rightarrow> nat \<Rightarrow> string \<Rightarrow> fsys \<Rightarrow> fsys" where
  "write_at i pos s = upd_node i (\<lambda>n. n\<lparr>n_data := pwrite (n_data n) pos s\<rparr>)"

text \<open>\<open>room n\<close>: a write of ten bytes at \<open>n\<close> is complete; \<open>seekable\<close>: \<^verbatim>\<open>lseek\<close> works.\<close>

definition hole_main :: "fsenv \<Rightarrow> bool \<Rightarrow> (nat \<Rightarrow> bool) \<Rightarrow> fsys \<Rightarrow> (nat \<times> fsys) run" where
  "hole_main e seekable room fs =
     (case sys_creat e ''file.hole'' FILE_MODE fs of
       None \<Rightarrow> die (ErrSys ''creat error'')
     | Some (i, fs) \<Rightarrow>
       rbind (guard (room 0) (ErrSys ''buf1 write error'')) (\<lambda>_.
       let fs = write_at i 0 ''abcdefghij'' fs in
       rbind (guard seekable (ErrSys ''lseek error'')) (\<lambda>_.
       rbind (guard (room 16384) (ErrSys ''buf2 write error'')) (\<lambda>_.
       ret (i, write_at i 16384 ''ABCDEFGHIJ'' fs)))))"

text \<open>The file has 16394 bytes, of which the hole reads as null bytes, whatever the file was before.\<close>

lemma hole_content:
  assumes "hole_main e True (\<lambda>_. True) fs = ret (i, fs')"
  shows "n_data (node fs' i) = ''abcdefghij'' @ replicate 16374 nul @ ''ABCDEFGHIJ''"
  using assms by (auto simp: hole_main_def sys_creat_def write_at_def pwrite_def Let_def split: if_splits option.splits)

subsection \<open>\<^verbatim>\<open>longpath.c\<close>\<close>

definition DEPTH :: nat where "DEPTH = 100"
definition NAME :: string where "NAME = ''alonglonglonglonglonglonglonglonglonglongname''"
definition MAXSZ :: nat where "MAXSZ = 8192"

text \<open>
  The loop over \<^verbatim>\<open>getcwd\<close>, which fails with \<^verbatim>\<open>ERANGE\<close> while the path and its null byte do not fit; \<open>mem\<close> says which sizes \<^verbatim>\<open>realloc\<close>
  can give.  The results are the size in the end and the sizes that were reported as too small.
\<close>

function getcwd_loop :: "(nat \<Rightarrow> bool) \<Rightarrow> string \<Rightarrow> nat \<Rightarrow> nat list \<Rightarrow> (nat \<times> nat list) run" where
  "getcwd_loop mem cwd sz errs =
     (if length cwd < sz then ret (sz, errs)
      else if MAXSZ < sz + 100 then die (ErrQuit ''giving up'')
      else if \<not> mem (sz + 100) then die (ErrSys ''realloc error'')
      else getcwd_loop mem cwd (sz + 100) (errs @ [sz]))"
  by pat_completeness auto
termination by (relation "measure (\<lambda>(mem, cwd, sz, errs). MAXSZ - sz)") (auto simp: MAXSZ_def)

declare getcwd_loop.simps [simp del]

text \<open>\<open>makes n\<close>: the first \<open>n\<close> directories can be made and entered.\<close>

fun go_down :: "(nat \<Rightarrow> bool) \<Rightarrow> (nat \<Rightarrow> bool) \<Rightarrow> nat \<Rightarrow> nat \<Rightarrow> string \<Rightarrow> string run" where
  "go_down mk cd i 0 cwd = ret cwd"
| "go_down mk cd i (Suc k) cwd =
     rbind (guard (mk i) (ErrSys (''mkdir failed, i = '' @ dec i))) (\<lambda>_.
     rbind (guard (cd i) (ErrSys (''chdir failed, i = '' @ dec i))) (\<lambda>_.
     go_down mk cd (Suc i) k (cwd @ ''/'' @ NAME)))"

definition longpath_main :: "bool \<Rightarrow> (nat \<Rightarrow> bool) \<Rightarrow> (nat \<Rightarrow> bool) \<Rightarrow> bool \<Rightarrow> (nat \<Rightarrow> bool) \<Rightarrow> nat \<Rightarrow> (nat \<times> string) run" where
  "longpath_main home mk cd creat_ok mem sz =
     rbind (guard home (ErrSys ''chdir error'')) (\<lambda>_.
     rbind (go_down mk cd 0 DEPTH ''/home/sar'') (\<lambda>cwd.
     rbind (guard creat_ok (ErrSys ''creat error'')) (\<lambda>_.
     rbind (getcwd_loop mem cwd sz []) (\<lambda>_. ret (length cwd, cwd)))))"

lemma go_down_length: "go_down (\<lambda>_. True) (\<lambda>_. True) i k cwd = ret (cwd @ concat (replicate k (''/'' @ NAME)))"
  by (induction k arbitrary: i cwd) simp_all

lemma getcwd_loop_found:
  assumes "length cwd + 100 \<le> MAXSZ" and "\<forall>n. mem n"
  shows "\<exists>sz' errs'. getcwd_loop mem cwd sz errs = ret (sz', errs')"
  using assms
proof (induction mem cwd sz errs rule: getcwd_loop.induct)
  case (1 mem cwd sz errs)
  show ?case
  proof (cases "length cwd < sz")
    case False
    then have "\<not> MAXSZ < sz + 100" using 1(2) by simp
    with False have "getcwd_loop mem cwd sz errs = getcwd_loop mem cwd (sz + 100) (errs @ [sz])"
      using 1(3) by (subst getcwd_loop.simps) simp
    then show ?thesis using 1(1) [OF False \<open>\<not> MAXSZ < sz + 100\<close> _ 1(2,3)] 1(3) by metis
  qed (subst getcwd_loop.simps, simp)
qed

text \<open>The path of 4609 bytes is found, whatever size \<^verbatim>\<open>path_alloc\<close> starts with.\<close>

lemma longpath_found:
  "\<exists>p. longpath_main True (\<lambda>_. True) (\<lambda>_. True) True (\<lambda>_. True) sz = ret (4609, p)"
proof -
  let ?cwd = "''/home/sar'' @ concat (replicate DEPTH (''/'' @ NAME))"
  have l: "length ?cwd = 4609" by (simp add: length_concat sum_list_replicate DEPTH_def NAME_def)
  have "\<exists>sz' errs'. getcwd_loop (\<lambda>_. True) ?cwd sz [] = ret (sz', errs')"
    by (rule getcwd_loop_found) (simp_all only: l MAXSZ_def, simp_all)
  then obtain r where "getcwd_loop (\<lambda>_. True) ?cwd sz [] = ret r" by blast
  then show ?thesis using l by (simp only: longpath_main_def go_down_length guard_simps rbind_simps) blast
qed

end
