(* ===== verification/Pager.thy ===== *)
theory Pager
  imports Popen Copy
begin

section \<open>A file through a pipe to a pager: \<^verbatim>\<open>ipc/pipe2.c\<close> and \<^verbatim>\<open>ipc/popen2.c\<close>\<close>

text \<open>
  The process is a state of \<open>Popen\<close>.  \<open>infile p\<close> is what \<^verbatim>\<open>fopen\<close> gives to read of a file, with \<open>True\<close> when an error comes after it;
  \<open>put out\<close> is the result of the write that makes the pipe hold \<open>out\<close>: all, too little, or \<^verbatim>\<open>SIGPIPE\<close> because the pager has gone.
\<close>

datatype putres = Done | Short | Broken

datatype pend = Ends fatal | Killed

record pgenv =
  infile :: "string \<Rightarrow> (string \<times> bool) option"
  pg_pipe :: bool
  pg_fork :: "int option"
  pager_var :: "string option"
  executable :: "string \<Rightarrow> bool"
  put :: "string \<Rightarrow> putres"
  waits_ok :: bool

definition DEF_PAGER :: string where "DEF_PAGER = ''/bin/more''"

definition open_source :: "nat \<Rightarrow> pgenv \<Rightarrow> string list \<Rightarrow> popst \<Rightarrow> ((string \<times> bool) \<times> popst) run" where
  "open_source lim e argv st = rbind (guard (length argv = 2) (ErrQuit ''usage: a.out <pathname>'')) (\<lambda>_.
     case (infile e (argv ! 1), free_fd lim (fds st)) of
       (Some fp, Some fd) \<Rightarrow> ret (fp, st\<lparr>fds := (fds st)(fd \<mapsto> Other (argv ! 1))\<rparr>)
     | _ \<Rightarrow> die (ErrSys (''can't open '' @ argv ! 1)))"

text \<open>The copying loop, with the message of a failing write.\<close>

function copy_lines :: "string \<Rightarrow> (string \<Rightarrow> putres) \<Rightarrow> bool \<Rightarrow> string \<Rightarrow> string \<Rightarrow> string \<times> pend option" where
  "copy_lines msg pt err s out =
     (if fgets_fails err s then (out, if err then Some (Ends (ErrSys ''fgets error'')) else None)
      else case fgets (MAXLINE - 1) s of (line, r) \<Rightarrow>
        (case pt (out @ cstr line) of
           Done \<Rightarrow> copy_lines msg pt err r (out @ cstr line)
         | Short \<Rightarrow> (out, Some (Ends (ErrSys msg)))
         | Broken \<Rightarrow> (out, Some Killed)))"
  by pat_completeness auto
termination
  by (relation "measure (\<lambda>(msg, pt, err, s, out). length s)") (auto simp: MAXLINE_def fgets_fails_def dest: fgets_shorter)

declare copy_lines.simps [simp del]

subsection \<open>\<^verbatim>\<open>pipe2\<close>\<close>

definition pager_parent :: "pgenv \<Rightarrow> string \<times> bool \<Rightarrow> string \<times> pend" where
  "pager_parent e fp = (case copy_lines ''write error to pipe'' (put e) (snd fp) (fst fp) [] of
     (out, Some x) \<Rightarrow> (out, x)
   | (out, None) \<Rightarrow> (out, Ends (if waits_ok e then Exit 0 else ErrSys ''waitpid error'')))"

definition pager_stdin :: "nat \<times> nat \<Rightarrow> fdesc fdtab \<Rightarrow> fdesc fdtab run" where
  "pager_stdin fd t = (let t = fd_close (snd fd) t in
     if fst fd \<noteq> 0 then (case fd_dup2 (fst fd) 0 t of
         (False, t) \<Rightarrow> die (ErrSys ''dup2 error to stdin'')
       | (True, t) \<Rightarrow> ret (fd_close (fst fd) t))
     else ret t)"

definition after_slash :: "string \<Rightarrow> string" where
  "after_slash s = rev (takeWhile (\<lambda>c. c \<noteq> CHR ''/'') (rev s))"

text \<open>The child: the program that it becomes, its name and its descriptors.\<close>

definition pager_child :: "pgenv \<Rightarrow> nat \<times> nat \<Rightarrow> fdesc fdtab \<Rightarrow> (string \<times> string \<times> fdesc fdtab) run" where
  "pager_child e fd t = rbind (pager_stdin fd t) (\<lambda>t.
     let pager = (case pager_var e of None \<Rightarrow> DEF_PAGER | Some p \<Rightarrow> p) in
     if executable e pager then ret (pager, after_slash pager, t) else die (ErrSys (''execl error for '' @ pager)))"

definition pipe2_main :: "nat \<Rightarrow> pgenv \<Rightarrow> string list \<Rightarrow> popst \<Rightarrow> ((string \<times> string \<times> fdesc fdtab) run \<times> string \<times> pend) run" where
  "pipe2_main lim e argv st = rbind (open_source lim e argv st) (\<lambda>(fp, st).
     case sys_pipe lim (pg_pipe e) st of
       (None, _) \<Rightarrow> die (ErrSys ''pipe error'')
     | (Some fd, st) \<Rightarrow> (case pg_fork e of
         None \<Rightarrow> die (ErrSys ''fork error'')
       | Some pid \<Rightarrow> ret (pager_child e fd (fds st), pager_parent e fp)))"

subsection \<open>\<^verbatim>\<open>popen2\<close>\<close>

definition PAGER :: string where "PAGER = ''${PAGER:-more}''"

definition popen2_main :: "nat \<Rightarrow> pgenv \<Rightarrow> popen_env \<Rightarrow> bool \<Rightarrow> (int \<Rightarrow> waitres list) \<Rightarrow> string list \<Rightarrow> popst \<Rightarrow> (popst \<times> string \<times> pend) run" where
  "popen2_main lim e pe fclose_ok waits argv st = rbind (open_source lim e argv st) (\<lambda>(fp, st).
     rbind (popen lim pe PAGER ''w'' st) (\<lambda>(r, st). case r of
       None \<Rightarrow> die (ErrSys ''popen error'')
     | Some fpout \<Rightarrow> (case copy_lines ''fputs error to pipe'' (put e) (snd fp) (fst fp) [] of
         (out, Some x) \<Rightarrow> ret (st, out, x)
       | (out, None) \<Rightarrow> rbind (pclose fclose_ok waits fpout st) (\<lambda>(x, st).
           ret (st, out, Ends (if x = - 1 then ErrSys ''pclose error'' else Exit 0))))))"

subsection \<open>The pager gets the file\<close>

lemma copy_lines_all:
  assumes "\<forall>s. pt s = Done"
  shows "\<exists>t. copy_lines msg pt False s out = (out @ t, None) \<and> length t \<le> length s \<and> (t = s \<longleftrightarrow> nul \<notin> set s)"
proof (induction s arbitrary: out rule: length_induct)
  case (1 s)
  show ?case
  proof (cases "s = []")
    case True
    then show ?thesis by (subst copy_lines.simps) (simp add: fgets_fails_def)
  next
    case False
    obtain b r where f: "fgets (MAXLINE - 1) s = (b, r)" by fastforce
    have lt: "length r < length s" using fgets_shorter [OF f [symmetric] False] by (simp add: MAXLINE_def)
    obtain t where t: "copy_lines msg pt False r (out @ cstr b) = ((out @ cstr b) @ t, None)" "length t \<le> length r" "t = r \<longleftrightarrow> nul \<notin> set r"
      using 1 lt by blast
    have s: "s = b @ r" "length (cstr b) \<le> length b" "cstr b = b \<longleftrightarrow> nul \<notin> set b"
      using fgets_split [OF f] cstr_length cstr_whole by auto
    have "copy_lines msg pt False s out = (out @ (cstr b @ t), None)"
      using False f t(1) assms by (subst copy_lines.simps) (simp add: fgets_fails_def)
    moreover have "cstr b @ t = s \<longleftrightarrow> nul \<notin> set s"
    proof
      assume e: "cstr b @ t = s"
      have "length (cstr b) = length b" using arg_cong [OF e, of length] s(1,2) t(2) by simp
      then show "nul \<notin> set s" using e s t(3) by auto
    qed (use s t(3) in auto)
    ultimately show ?thesis using s t(2) by auto
  qed
qed

text \<open>The table of the child of \<^verbatim>\<open>pipe2\<close>: the pipe is its standard input, and it has no other end of it.\<close>

lemma pager_stdin_tab:
  assumes "sys_pipe lim ok st = (Some fd, st')" and "fds st 0 \<noteq> None"
  shows "pager_stdin fd (fds st') = ret ((fds st)(0 \<mapsto> PipeRd (npipes st)))"
proof -
  obtain r w where fd: "fd = (r, w)" by (cases fd)
  note p = sys_pipe_Some [OF assms(1) [unfolded fd]]
  have "r \<noteq> 0" "w \<noteq> 0" using p assms(2) by metis+
  then show ?thesis using p by (auto simp: fd pager_stdin_def fd_close_def fd_dup2_def Let_def fun_eq_iff)
qed

text \<open>
  When nothing fails, both programs give the pager the same bytes, at most those of the file, and exactly those when no byte is null; they
  start it with the same descriptors, of which the standard input is the one new one; and they end with \<^verbatim>\<open>exit(0)\<close>, \<^verbatim>\<open>popen2\<close> also
  when the pager does not: the shell, not the program, looks for it.
\<close>

theorem pagers_agree:
  assumes "infile e (argv ! 1) = Some (s, False)" and "\<forall>t. put e t = Done" and "pg_fork e = Some pid" and "waits_ok e"
    and "pop_ok lim st" and "childpid st = None" and "openmax pe = lim" and "0 < pid" and "fork_pid pe = Some pid"
    and "pipe2_main lim e argv st = ret (child, out, x)"
    and "popen2_main lim e pe True waits argv st = ret (st', out', x')" and "waits pid = WStatus n # ws" and "n \<noteq> - 1"
  shows "\<exists>fd t c. free_fd lim (fds st) = Some fd \<and> t = (fds st)(fd \<mapsto> Other (argv ! 1), 0 \<mapsto> PipeRd (npipes st)) \<and> kids st' = c # kids st \<and>
    kid_cmd c = PAGER \<and> kid_tab c = t \<and>
    child = (let pager = (case pager_var e of None \<Rightarrow> DEF_PAGER | Some p \<Rightarrow> p) in
      if executable e pager then ret (pager, after_slash pager, t) else die (ErrSys (''execl error for '' @ pager))) \<and>
    out' = out \<and> (out = s \<longleftrightarrow> nul \<notin> set s) \<and> length out \<le> length s \<and> x = Ends (Exit 0) \<and> x' = Ends (Exit 0)"
proof -
  obtain fd where fd: "free_fd lim (fds st) = Some fd" and two: "length argv = 2"
    using assms(1,10) by (auto simp: pipe2_main_def open_source_def rbind_eq_ret guard_eq_ret split: option.splits prod.splits)
  let ?st = "st\<lparr>fds := (fds st)(fd \<mapsto> Other (argv ! 1))\<rparr>"
  have src: "open_source lim e argv st = ret ((s, False), ?st)" using fd two assms(1) by (simp add: open_source_def)
  have ok: "pop_ok lim ?st" using open_ok [OF assms(5)] fd by (auto dest: free_fd_Some)
  have z: "0 \<noteq> fd" using free_fd_Some [OF fd] pop_okD(5) [OF assms(5)] by metis
  obtain t1 where c1: "copy_lines ''write error to pipe'' (put e) False s [] = (t1, None)" "length t1 \<le> length s" "t1 = s \<longleftrightarrow> nul \<notin> set s"
    using copy_lines_all [OF assms(2), of _ s "[]"] by fastforce
  have c2: "copy_lines ''fputs error to pipe'' (put e) False s [] = (t1, None)"
  proof -
    have "copy_lines m (put e) err u o' = copy_lines m' (put e) err u o'" for m m' err u o'
      by (induction m "put e" err u o' rule: copy_lines.induct)
        (subst copy_lines.simps, subst copy_lines.simps [of m'], use assms(2) in \<open>auto split: prod.splits\<close>)
    then show ?thesis using c1(1) by metis
  qed
  obtain q st1 where p: "sys_pipe lim (pg_pipe e) ?st = (Some q, st1)"
    and ch: "child = pager_child e q (fds st1)" and par: "(out, x) = pager_parent e (s, False)"
    using assms(10) assms(3) src by (auto simp: pipe2_main_def split: prod.splits option.splits)
  have tab: "pager_stdin q (fds st1) = ret ((fds st)(fd \<mapsto> Other (argv ! 1), 0 \<mapsto> PipeRd (npipes st)))"
    using pager_stdin_tab [OF p] z pop_okD(5) [OF ok] by simp
  obtain fp st2 where po: "popen lim pe PAGER ''w'' ?st = ret (Some fp, st2)"
    and pc: "rbind (pclose True waits fp st2) (\<lambda>(x, st). ret (st, t1, Ends (if x = - 1 then ErrSys ''pclose error'' else Exit 0))) = ret (st', out', x')"
    using assms(11) src c2 by (auto simp: popen2_main_def rbind_eq_ret split: option.splits prod.splits)
  obtain cp st0 where c0: "childpid st0 = Some cp" "maxfd st0 = lim" "pop_ok lim st0" "npipes st0 = npipes ?st" "fds st0 = fds ?st" "kids st0 = kids ?st"
    and str: "\<And>j. is_stream ?st j \<longleftrightarrow> cp j \<noteq> 0" and go: "popen_go lim pe PAGER (''w'' = ''r'') cp st0 = ret (Some fp, st2)"
    using popen_via_go [OF ok assms(7) po] by metis
  have cp0: "cp j = 0" for j using str [of j] assms(6) by (simp add: is_stream_def)
  from popen_go_kid [OF c0(3,1,2) go] obtain tb where k: "kids st2 = \<lparr>kid_pid = pid, kid_tab = tb, kid_cmd = PAGER\<rparr> # kids st"
    and t0: "tb 0 = Some (PipeRd (npipes st))" and ti: "\<forall>i. i \<noteq> 0 \<longrightarrow> tb i = fds ?st i" and c: "childpid st2 = Some (cp(fp := pid))" "maxfd st2 = lim"
    using c0 cp0 assms(9) by auto
  have "fp < lim" using pop_okD(2) [OF popen_go_ok [OF c0(3,1) _ go] c(1), of fp] assms(8,9) by simp
  then have "pclose True waits fp st2 = ret (n, st2\<lparr>childpid := Some ((cp(fp := pid))(fp := 0)), fds := (fds st2)(fp := None)\<rparr>)"
    using c assms(8,12) by (simp add: pclose_def Let_def)
  then have e: "out' = t1" "x' = Ends (Exit 0)" "kids st' = kids st2" using pc assms(13) by auto
  have tb: "tb = (fds st)(fd \<mapsto> Other (argv ! 1), 0 \<mapsto> PipeRd (npipes st))" using t0 ti by (auto simp: fun_eq_iff)
  have par': "out = t1" "x = Ends (Exit 0)" using par c1(1) assms(4) by (simp_all add: pager_parent_def)
  have "child = (let pager = (case pager_var e of None \<Rightarrow> DEF_PAGER | Some p \<Rightarrow> p) in
      if executable e pager then ret (pager, after_slash pager, tb) else die (ErrSys (''execl error for '' @ pager)))"
    unfolding ch pager_child_def tab rbind_simps tb by (rule refl)
  then show ?thesis using fd e par' k c1(2,3) tb by (intro exI [of _ fd] exI [of _ tb] exI [of _ "\<lparr>kid_pid = pid, kid_tab = tb, kid_cmd = PAGER\<rparr>"]) simp
qed

end
