(* ===== verification/LockDemo.thy ===== *)
theory LockDemo
  imports RecordLock FileTools
begin

section \<open>Pending and mandatory locks: \<^verbatim>\<open>advio/pendlock.c\<close>, \<^verbatim>\<open>lock/mandatory.c\<close>\<close>

definition whole :: range where "whole = (0, None)"

definition lock_file :: "nat \<Rightarrow> lkfile \<Rightarrow> ltype \<Rightarrow> rlock list \<Rightarrow> int \<times> rlock list" where
  "lock_file p f ty tab = lock_reg p f ty 0 SEEK_SET 0 tab"

lemma lock_file_eq:
  "lock_file p f ty tab = (if blockers p ty whole tab = [] then (0, set_lock p ty whole tab) else (- 1, tab))"
  by (simp add: lock_file_def lock_reg_def fcntl_setlk_def region_def whole_def)

subsection \<open>\<^verbatim>\<open>pendlock\<close>\<close>

text \<open>
  Processes 1 to 3 are the children, 4 is the parent.  The sleeps put the four requests in order (\<open>pend_setup\<close>); what comes then is a step
  relation.  \<open>fair\<close> says whether the system holds a read lock back while a write lock is pending.  \<open>c3\<close> is where the third child is; \<open>signals\<close>
  are sent and not yet taken.  A lock that is granted at the same time as a signal arrives may win.
\<close>

datatype c3pc = Asks | GotW | PauseW | Failed3 | Gone3

record pndst =
  ptab :: "rlock list"
  rd1 :: bool
  rd2 :: bool
  c3 :: c3pc
  par_lock :: bool
  ppc :: nat
  signals :: "nat set"
  plog :: "string list"

definition child_reads :: "lkfile \<Rightarrow> nat \<Rightarrow> rlock list \<times> string list \<Rightarrow> bool \<times> rlock list \<times> string list" where
  "child_reads f k s = (case lock_file k f F_RDLCK (fst s) of (r, tab) \<Rightarrow>
     if r < 0 then (False, tab, snd s @ [''child '' @ dec k @ '': can't read-lock file''])
     else (True, tab, snd s @ [''child '' @ dec k @ '': obtained read lock on file'']))"

definition pend_setup :: "bool \<Rightarrow> lkfile \<Rightarrow> pndst" where
  "pend_setup fair f =
     (case child_reads f 1 ([], []) of (a1, s) \<Rightarrow>
      case child_reads f 2 s of (a2, tab, log) \<Rightarrow>
      case lock_file 3 f F_WRLCK tab of (r3, tab) \<Rightarrow>
      let log = log @ (if r3 < 0 then [''child 3: can't set write lock''] else []) @ [''child 3 about to block in write-lock...''] in
      case (if fair \<and> r3 < 0 then (- 1, tab) else lock_file 4 f F_RDLCK tab) of (r4, tab) \<Rightarrow>
      \<lparr>ptab = tab, rd1 = a1, rd2 = a2, c3 = Asks, par_lock = (0 \<le> r4), ppc = 0, signals = {},
       plog = log @ [if r4 < 0 then ''parent: can't set read lock'' else ''parent: obtained additional read lock while write lock is pending'']\<rparr>)"

definition plogs :: "string \<Rightarrow> pndst \<Rightarrow> pndst" where
  "plogs l s = s\<lparr>plog := plog s @ [l]\<rparr>"

inductive pend_step :: "pndst \<Rightarrow> pndst \<Rightarrow> bool" where
  kills: "ppc s < 3 \<Longrightarrow> pend_step s (plogs (''killing child '' @ dec (Suc (ppc s)) @ ''...'')
     (s\<lparr>signals := insert (Suc (ppc s)) (signals s), ppc := Suc (ppc s)\<rparr>))"
| parent_exit: "ppc s = 3 \<Longrightarrow> pend_step s (s\<lparr>ptab := set_lock 4 F_UNLCK whole (ptab s), par_lock := False, ppc := 4\<rparr>)"
| exit1: "rd1 s \<Longrightarrow> 1 \<in> signals s \<Longrightarrow> pend_step s (plogs ''child 1: exit after pause''
     (s\<lparr>rd1 := False, ptab := set_lock 1 F_UNLCK whole (ptab s)\<rparr>))"
| exit2: "rd2 s \<Longrightarrow> 2 \<in> signals s \<Longrightarrow> pend_step s (plogs ''child 2: exit after pause''
     (s\<lparr>rd2 := False, ptab := set_lock 2 F_UNLCK whole (ptab s)\<rparr>))"
| got3: "c3 s = Asks \<Longrightarrow> blockers 3 F_WRLCK whole (ptab s) = [] \<Longrightarrow> pend_step s (plogs ''child 3 returned and got write lock????''
     (s\<lparr>c3 := GotW, ptab := set_lock 3 F_WRLCK whole (ptab s)\<rparr>))"
| fail3: "c3 s = Asks \<Longrightarrow> 3 \<in> signals s \<Longrightarrow> pend_step s (plogs ''child 3: can't write-lock file''
     (s\<lparr>c3 := Failed3, signals := signals s - {3}\<rparr>))"
| early3: "c3 s = GotW \<Longrightarrow> 3 \<in> signals s \<Longrightarrow> pend_step s (s\<lparr>signals := signals s - {3}\<rparr>)"
| pause3: "c3 s = GotW \<Longrightarrow> 3 \<notin> signals s \<Longrightarrow> pend_step s (s\<lparr>c3 := PauseW\<rparr>)"
| exit3: "c3 s = PauseW \<Longrightarrow> 3 \<in> signals s \<Longrightarrow> pend_step s (plogs ''child 3: exit after pause''
     (s\<lparr>c3 := Gone3, signals := signals s - {3}, ptab := set_lock 3 F_UNLCK whole (ptab s)\<rparr>))"

definition writes3 :: "pndst \<Rightarrow> bool" where
  "writes3 s \<longleftrightarrow> c3 s = GotW \<or> c3 s = PauseW"

definition held :: "pndst \<Rightarrow> nat \<Rightarrow> ltype \<Rightarrow> bool" where
  "held s p ty \<longleftrightarrow> (p = 1 \<and> rd1 s \<or> p = 2 \<and> rd2 s \<or> p = 4 \<and> par_lock s) \<and> ty = F_RDLCK \<or> p = 3 \<and> writes3 s \<and> ty = F_WRLCK"

definition pend_locks :: "pndst \<Rightarrow> bool" where
  "pend_locks s \<longleftrightarrow> (\<forall>p b ty. locked (ptab s) p b ty \<longleftrightarrow> held s p ty)"

definition pend_rest :: "bool \<Rightarrow> pndst \<Rightarrow> bool" where
  "pend_rest fair s \<longleftrightarrow>
     (writes3 s \<longrightarrow> \<not> rd1 s \<and> \<not> rd2 s \<and> \<not> par_lock s) \<and>
     par_lock s = (\<not> fair \<and> ppc s < 4) \<and> ppc s \<le> 4 \<and>
     (0 < ppc s \<longrightarrow> 1 \<in> signals s) \<and> (1 < ppc s \<longrightarrow> 2 \<in> signals s) \<and> (ppc s < 3 \<longrightarrow> 3 \<notin> signals s) \<and>
     (c3 s = Asks \<and> 2 < ppc s \<longrightarrow> 3 \<in> signals s) \<and>
     (\<not> fair \<longrightarrow> c3 s \<noteq> Gone3 \<and> (c3 s = PauseW \<longrightarrow> 3 \<notin> signals s))"

abbreviation pend_inv :: "bool \<Rightarrow> pndst \<Rightarrow> bool" where
  "pend_inv fair s \<equiv> pend_locks s \<and> pend_rest fair s"

lemma in_whole [simp]: "in_range b whole"
  by (simp add: in_range_def whole_def)

lemma no_blockers:
  "blockers p F_WRLCK whole tab = [] \<longleftrightarrow> (\<forall>k \<in> set tab. rl_pid k = p \<or> \<not> overlap whole (rl_range k))"
  by (auto simp: blockers_def filter_empty_conv)

lemma blocked_by_readers:
  assumes "locked tab q b ty" and "q \<noteq> p"
  shows "blockers p F_WRLCK whole tab \<noteq> []"
  using assms unfolding no_blockers locked_def overlap_iff by (metis in_whole)

lemma blockers_readers:
  assumes "\<forall>k \<in> set tab. rl_type k = F_RDLCK"
  shows "blockers p F_RDLCK whole tab = []"
  using assms by (simp add: blockers_def)

lemma set_lock_new:
  assumes "\<forall>k \<in> set tab. rl_pid k \<noteq> p" and "ty \<noteq> F_UNLCK"
  shows "set_lock p ty whole tab = tab @ [\<lparr>rl_pid = p, rl_type = ty, rl_range = whole\<rparr>]"
proof -
  have "concat (map (\<lambda>k. if rl_pid k = p then map (\<lambda>x. k\<lparr>rl_range := x\<rparr>) (pieces whole (rl_range k)) else [k]) tab) = tab"
    using assms(1) by (induction tab) auto
  then show ?thesis using assms(2) by (simp add: set_lock_def)
qed

lemma pend_setup_eq:
  "pend_setup fair f = \<lparr>ptab = map (\<lambda>p. \<lparr>rl_pid = p, rl_type = F_RDLCK, rl_range = whole\<rparr>) (if fair then [1, 2] else [1, 2, 4]),
     rd1 = True, rd2 = True, c3 = Asks, par_lock = (\<not> fair), ppc = 0, signals = {},
     plog = [''child 1: obtained read lock on file'', ''child 2: obtained read lock on file'', ''child 3: can't set write lock'',
       ''child 3 about to block in write-lock...'',
       if fair then ''parent: can't set read lock'' else ''parent: obtained additional read lock while write lock is pending'']\<rparr>"
proof -
  let ?r = "\<lambda>p. \<lparr>rl_pid = p, rl_type = F_RDLCK, rl_range = whole\<rparr>"
  have o: "overlap whole whole" unfolding overlap_iff by auto
  have "lock_file 1 f F_RDLCK [] = (0, [?r 1])" "lock_file 2 f F_RDLCK [?r 1] = (0, [?r 1, ?r 2])"
    "lock_file 4 f F_RDLCK [?r 1, ?r 2] = (0, [?r 1, ?r 2, ?r 4])" "lock_file 3 f F_WRLCK [?r 1, ?r 2] = (- 1, [?r 1, ?r 2])"
    by (simp_all add: lock_file_eq blockers_readers set_lock_new) (simp add: no_blockers o)
  moreover have "dec 1 = ''1''" "dec 2 = ''2''" by code_simp+
  ultimately show ?thesis by (simp add: pend_setup_def child_reads_def Let_def)
qed

lemma pend_inv_setup: "pend_inv fair (pend_setup fair f)"
  by (auto simp: pend_setup_eq pend_locks_def held_def pend_rest_def writes3_def locked_def)

lemma pend_inv_locked: "pend_inv fair s \<Longrightarrow> locked (ptab s) p b ty \<longleftrightarrow> held s p ty"
  unfolding pend_locks_def by blast

lemma pend_free_iff:
  assumes "pend_inv fair s"
  shows "blockers 3 F_WRLCK whole (ptab s) = [] \<longleftrightarrow> \<not> rd1 s \<and> \<not> rd2 s \<and> \<not> par_lock s"
proof
  assume "blockers 3 F_WRLCK whole (ptab s) = []"
  then have "\<not> locked (ptab s) q b ty" if "q \<noteq> 3" for q b ty using blocked_by_readers that by blast
  from this [of 1 0 F_RDLCK] this [of 2 0 F_RDLCK] this [of 4 0 F_RDLCK] show "\<not> rd1 s \<and> \<not> rd2 s \<and> \<not> par_lock s"
    unfolding pend_inv_locked [OF assms] by (simp add: held_def)
next
  assume n: "\<not> rd1 s \<and> \<not> rd2 s \<and> \<not> par_lock s"
  then have "\<not> locked (ptab s) q b ty" if "q \<noteq> 3" for q b ty unfolding pend_inv_locked [OF assms] using that by (auto simp: held_def)
  then show "blockers 3 F_WRLCK whole (ptab s) = []" unfolding no_blockers locked_def overlap_iff by blast
qed

lemma plogs_sel [simp]:
  "ptab (plogs l s) = ptab s" "rd1 (plogs l s) = rd1 s" "rd2 (plogs l s) = rd2 s" "c3 (plogs l s) = c3 s"
  "par_lock (plogs l s) = par_lock s" "ppc (plogs l s) = ppc s" "signals (plogs l s) = signals s" "writes3 (plogs l s) = writes3 s"
  by (simp_all add: plogs_def writes3_def)

lemma pend_locks_same: "pend_locks s \<Longrightarrow> ptab s' = ptab s \<Longrightarrow> held s' = held s \<Longrightarrow> pend_locks s'"
  by (simp add: pend_locks_def)

lemma pend_locks_put:
  "pend_locks s \<Longrightarrow> ptab s' = set_lock q t whole (ptab s) \<Longrightarrow>
    (\<And>p ty. held s' p ty = (if p = q then ty = t \<and> t \<noteq> F_UNLCK else held s p ty)) \<Longrightarrow> pend_locks s'"
  unfolding pend_locks_def by (simp add: locked_set_lock)

lemma pend_locks_step: "pend_step s s' \<Longrightarrow> pend_locks s \<Longrightarrow> pend_locks s'"
proof (induction rule: pend_step.induct)
  case (got3 s)
  show ?case
    by (rule pend_locks_put [of s _ 3 F_WRLCK]) (use got3 in \<open>simp_all add: held_def writes3_def\<close>)
next
  case (parent_exit s)
  show ?case
    by (rule pend_locks_put [of s _ 4 F_UNLCK]) (use parent_exit in \<open>simp_all add: held_def writes3_def\<close>)
next
  case (exit1 s)
  show ?case
    by (rule pend_locks_put [of s _ 1 F_UNLCK]) (use exit1 in \<open>simp_all add: held_def writes3_def\<close>)
next
  case (exit2 s)
  show ?case
    by (rule pend_locks_put [of s _ 2 F_UNLCK]) (use exit2 in \<open>simp_all add: held_def writes3_def\<close>)
next
  case (exit3 s)
  show ?case
    by (rule pend_locks_put [of s _ 3 F_UNLCK]) (use exit3 in \<open>simp_all add: held_def writes3_def\<close>)
qed (erule pend_locks_same; simp add: held_def writes3_def fun_eq_iff)+

lemma pend_rest_step: "pend_step s s' \<Longrightarrow> pend_inv fair s \<Longrightarrow> pend_rest fair s'"
proof (induction rule: pend_step.induct)
  case (kills s)
  then show ?case by (auto simp: pend_rest_def writes3_def less_Suc_eq)
next
  case (got3 s)
  then have "\<not> rd1 s \<and> \<not> rd2 s \<and> \<not> par_lock s" using pend_free_iff by blast
  with got3 show ?case by (auto simp: pend_rest_def writes3_def)
qed (auto simp: pend_rest_def writes3_def)

lemma pend_inv_reach: "pend_step\<^sup>*\<^sup>* (pend_setup fair f) s \<Longrightarrow> pend_inv fair s"
proof (induction rule: rtranclp_induct)
  case base
  show ?case using pend_inv_setup .
next
  case (step s s')
  then show ?case using pend_locks_step pend_rest_step by blast
qed

text \<open>What can go on, and what is left when nothing can.\<close>

lemma pend_stuck:
  assumes "pend_inv fair s" and "\<nexists>s'. pend_step s s'"
  shows "ppc s = 4 \<and> \<not> rd1 s \<and> \<not> rd2 s \<and> (c3 s = Failed3 \<or> c3 s = Gone3 \<or> c3 s = PauseW \<and> 3 \<notin> signals s)"
proof -
  have r: "pend_rest fair s" using assms(1) by blast
  have "\<not> ppc s < 3" "ppc s \<noteq> 3" using assms(2) kills parent_exit by blast+
  then have p: "ppc s = 4" using r by (simp add: pend_rest_def)
  then have "1 \<in> signals s" "2 \<in> signals s" "c3 s = Asks \<longrightarrow> 3 \<in> signals s" using r by (simp_all add: pend_rest_def)
  then have "\<not> rd1 s" "\<not> rd2 s" "c3 s \<noteq> Asks" using assms(2) exit1 exit2 fail3 by blast+
  moreover have "c3 s \<noteq> GotW" using assms(2) early3 pause3 by blast
  moreover have "c3 s = PauseW \<longrightarrow> 3 \<notin> signals s" using assms(2) exit3 by blast
  ultimately show ?thesis using p by (cases "c3 s") auto
qed

text \<open>
  The write lock is granted only when every reader has gone.  On a system that lets readers in while it is pending, that is after the parent has
  sent its signals and exited; the signal is then gone when the third child pauses, and it sits on the lock for ever: it never prints that it exits.
\<close>

theorem pending_writer_starves:
  assumes "pend_step\<^sup>*\<^sup>* (pend_setup fair f) s"
  shows "(writes3 s \<longrightarrow> (\<forall>p b ty. p \<noteq> 3 \<longrightarrow> \<not> locked (ptab s) p b ty)) \<and>
    (\<not> fair \<and> writes3 s \<longrightarrow> ppc s = 4) \<and> (\<not> fair \<longrightarrow> c3 s \<noteq> Gone3) \<and>
    ((\<nexists>s'. pend_step s s') \<longrightarrow> ppc s = 4 \<and> \<not> rd1 s \<and> \<not> rd2 s \<and>
      (c3 s = Failed3 \<and> (\<forall>p b ty. \<not> locked (ptab s) p b ty) \<or> fair \<and> c3 s = Gone3 \<or> c3 s = PauseW \<and> locked (ptab s) 3 0 F_WRLCK))"
proof -
  have i: "pend_inv fair s" using pend_inv_reach [OF assms] .
  have w: "writes3 s \<Longrightarrow> p \<noteq> 3 \<Longrightarrow> \<not> locked (ptab s) p b ty" for p b ty
    using i unfolding pend_inv_locked [OF i] by (auto simp: held_def pend_rest_def)
  have s: "\<not> fair \<Longrightarrow> writes3 s \<Longrightarrow> ppc s = 4" "\<not> fair \<Longrightarrow> c3 s \<noteq> Gone3" using i by (auto simp: pend_rest_def)
  have e: "c3 s = Failed3 \<and> (\<forall>p b ty. \<not> locked (ptab s) p b ty) \<or> fair \<and> c3 s = Gone3 \<or> c3 s = PauseW \<and> locked (ptab s) 3 0 F_WRLCK"
    if "\<nexists>s'. pend_step s s'"
  proof -
    note st = pend_stuck [OF i that]
    have "\<not> par_lock s" using i st by (simp add: pend_rest_def)
    then show ?thesis using st s(2) unfolding pend_inv_locked [OF i] by (auto simp: held_def writes3_def)
  qed
  show ?thesis using w s e pend_stuck [OF i] by blast
qed

text \<open>Such a run: the lock is granted at the parent's exit, before the third child has taken its signal.\<close>

lemma pending_writer_sits:
  "\<exists>s. pend_step\<^sup>*\<^sup>* (pend_setup False f) s \<and> (\<nexists>s'. pend_step s s') \<and> c3 s = PauseW"
proof -
  let ?s0 = "pend_setup False f"
  let ?k = "\<lambda>s. plogs (''killing child '' @ dec (Suc (ppc s)) @ ''...'') (s\<lparr>signals := insert (Suc (ppc s)) (signals s), ppc := Suc (ppc s)\<rparr>)"
  have s0: "ppc ?s0 = 0" "c3 ?s0 = Asks" "rd1 ?s0" "rd2 ?s0" "signals ?s0 = {}" by (simp_all add: pend_setup_eq)
  define s1 where "s1 = ?k (?k (?k ?s0))"
  have p1: "ppc s1 = 3" "c3 s1 = Asks" "rd1 s1" "rd2 s1" "signals s1 = {1, 2, 3}" using s0 by (auto simp: s1_def)
  have r1: "pend_step\<^sup>*\<^sup>* ?s0 s1"
  proof -
    have "pend_step ?s0 (?k ?s0)" by (rule kills) (simp add: s0)
    moreover have "pend_step (?k ?s0) (?k (?k ?s0))" by (rule kills) (simp add: s0)
    moreover have "pend_step (?k (?k ?s0)) s1" unfolding s1_def by (rule kills) (simp add: s0)
    ultimately show ?thesis by (meson rtranclp.rtrancl_into_rtrancl rtranclp.rtrancl_refl)
  qed
  define s2 where "s2 = s1\<lparr>ptab := set_lock 4 F_UNLCK whole (ptab s1), par_lock := False, ppc := 4\<rparr>"
  define s3 where "s3 = plogs ''child 1: exit after pause'' (s2\<lparr>rd1 := False, ptab := set_lock 1 F_UNLCK whole (ptab s2)\<rparr>)"
  define s4 where "s4 = plogs ''child 2: exit after pause'' (s3\<lparr>rd2 := False, ptab := set_lock 2 F_UNLCK whole (ptab s3)\<rparr>)"
  define s5 where "s5 = plogs ''child 3 returned and got write lock????'' (s4\<lparr>c3 := GotW, ptab := set_lock 3 F_WRLCK whole (ptab s4)\<rparr>)"
  define s6 where "s6 = s5\<lparr>signals := signals s5 - {3}\<rparr>"
  define s7 where "s7 = s6\<lparr>c3 := PauseW\<rparr>"
  have r4: "pend_step\<^sup>*\<^sup>* ?s0 s4"
  proof -
    have "pend_step s1 s2" unfolding s2_def by (rule parent_exit [OF p1(1)])
    moreover have "pend_step s2 s3" unfolding s3_def by (rule exit1) (simp_all add: s2_def p1)
    moreover have "pend_step s3 s4" unfolding s4_def by (rule exit2) (simp_all add: s2_def s3_def p1)
    ultimately show ?thesis using r1 by (meson rtranclp.rtrancl_into_rtrancl)
  qed
  have p4: "c3 s4 = Asks" "\<not> rd1 s4" "\<not> rd2 s4" "\<not> par_lock s4" "signals s4 = {1, 2, 3}" "ppc s4 = 4"
    using p1 by (simp_all add: s4_def s3_def s2_def)
  have "pend_step s4 s5" unfolding s5_def by (rule got3) (use p4 pend_free_iff [OF pend_inv_reach [OF r4]] in auto)
  moreover have "pend_step s5 s6" unfolding s6_def by (rule early3) (simp_all add: s5_def p4)
  moreover have "pend_step s6 s7" unfolding s7_def by (rule pause3) (simp_all add: s6_def s5_def)
  ultimately have "pend_step\<^sup>*\<^sup>* ?s0 s7" using r4 by (meson rtranclp.rtrancl_into_rtrancl)
  moreover have "c3 s7 = PauseW" "3 \<notin> signals s7" "\<not> rd1 s7" "\<not> rd2 s7" "ppc s7 = 4"
    using p4 by (simp_all add: s7_def s6_def s5_def)
  then have "\<not> pend_step s7 s'" for s' by (auto elim: pend_step.cases)
  ultimately show ?thesis using \<open>c3 s7 = PauseW\<close> by blast
qed

subsection \<open>\<^verbatim>\<open>mandatory\<close>\<close>

text \<open>
  A read is refused where the file system has mandatory locks (\<open>mand\<close>), the file has the set-group-ID bit without group execution, and a
  lock is in the way.  \<open>umsk\<close> is the mask of the user; the parent is process 1, the child 2, and the calls of \<open>TellWait\<close> put the lock of the
  one before what the other does.
\<close>

definition EAGAIN :: nat where "EAGAIN = 11"

definition read_refused :: "bool \<Rightarrow> 32 word \<Rightarrow> nat \<Rightarrow> range \<Rightarrow> rlock list \<Rightarrow> bool" where
  "read_refused mand mode p r tab \<longleftrightarrow> mand \<and> mode AND S_ISGID \<noteq> 0 \<and> mode AND S_IXGRP = 0 \<and> blockers p F_RDLCK r tab \<noteq> []"

definition mand_child :: "bool \<Rightarrow> lkfile \<Rightarrow> fnode \<Rightarrow> rlock list \<Rightarrow> (string list) run" where
  "mand_child mand f n tab = (case lock_file 2 f F_RDLCK tab of (r, tab) \<Rightarrow>
     rbind (guard (r = - 1) (ErrSys ''child: read_lock succeeded'')) (\<lambda>_.
     ret [''read_lock of already-locked region returns '' @ dec EAGAIN,
       if read_refused mand (n_mode n) 2 (0, Some 2) tab then ''read failed (mandatory locking works)''
       else ''read OK (no mandatory locking), buf = '' @ take 2 (n_data n)]))"

definition mandatory_main :: "fsenv \<Rightarrow> bool \<Rightarrow> lkfile \<Rightarrow> string list \<Rightarrow> fsys \<Rightarrow> (string list) run" where
  "mandatory_main e mand f argv fs =
     rbind (guard (length argv = 2) (Exit 1)) (\<lambda>_.
     case sys_creat e (argv ! 1) FILE_MODE fs of
       None \<Rightarrow> die (ErrSys ''open error'')
     | Some (i, fs) \<Rightarrow>
       let fs = write_at i 0 ''abcdef'' fs;
           mode = (n_mode (node fs i) AND NOT S_IXGRP) OR S_ISGID;
           fs = upd_node i (\<lambda>n. n\<lparr>n_mode := mode\<rparr>) fs in
       (case lock_file 1 f F_WRLCK [] of (r, tab) \<Rightarrow>
          rbind (guard (0 \<le> r) (ErrSys ''write_lock error'')) (\<lambda>_. mand_child mand f (node fs i) tab)))"

text \<open>The program finds out what the system does, whatever the mode of the file was.\<close>

lemma mandatory_answers:
  assumes "mandatory_main e mand f argv fs = ret out"
  shows "out = [''read_lock of already-locked region returns '' @ dec EAGAIN,
    if mand then ''read failed (mandatory locking works)'' else ''read OK (no mandatory locking), buf = ab'']"
proof -
  let ?tab = "[\<lparr>rl_pid = 1, rl_type = F_WRLCK, rl_range = whole\<rparr>]"
  have l1: "lock_file 1 f F_WRLCK [] = (0, ?tab)" by (simp add: lock_file_eq no_blockers set_lock_new)
  have ov: "overlap whole whole" "overlap (0, Some 2) whole" unfolding overlap_iff by (auto simp: in_range_def whole_def intro: exI [of _ 0])
  have l2: "lock_file 2 f F_RDLCK ?tab = (- 1, ?tab)" using ov by (simp add: lock_file_eq blockers_def)
  have bits: "((m AND NOT S_IXGRP) OR S_ISGID) AND S_ISGID \<noteq> 0" "((m AND NOT S_IXGRP) OR S_ISGID) AND S_IXGRP = 0" for m :: "32 word"
  proof -
    have a: "((m AND NOT S_IXGRP) OR S_ISGID) AND S_ISGID = S_ISGID" by (rule bit_word_eqI) (auto simp: bit_simps)
    have b: "S_ISGID AND S_IXGRP = 0" "S_ISGID \<noteq> 0" by (simp_all add: S_ISGID_def S_IXGRP_def)
    show "((m AND NOT S_IXGRP) OR S_ISGID) AND S_ISGID \<noteq> 0" using a b(2) by simp
    have "((m AND NOT S_IXGRP) OR S_ISGID) AND S_IXGRP = S_ISGID AND S_IXGRP" by (rule bit_word_eqI) (auto simp: bit_simps)
    then show "((m AND NOT S_IXGRP) OR S_ISGID) AND S_IXGRP = 0" using b(1) by simp
  qed
  obtain i fs1 where c: "sys_creat e (argv ! 1) FILE_MODE fs = Some (i, fs1)" and a: "length argv = 2"
    using assms by (auto simp: mandatory_main_def rbind_eq_ret guard_eq_ret split: option.splits prod.splits)
  have d: "n_data (node fs1 i) = []" using c by (auto simp: sys_creat_def Let_def split: if_splits option.splits)
  have "blockers 2 F_RDLCK (0, Some 2) ?tab \<noteq> []" using ov by (simp add: blockers_def)
  then have "read_refused mand ((n_mode (node fs1 i) AND NOT S_IXGRP) OR S_ISGID) 2 (0, Some 2) ?tab = mand"
    using bits(1) [of 0] by (simp add: read_refused_def bits)
  then show ?thesis
    using assms a c d l1 l2 by (simp add: mandatory_main_def mand_child_def write_at_def pwrite_def Let_def split: if_splits)
qed

end
