(* ===== verification/Spec2Isabelle.thy ===== *)
theory Spec2Isabelle
  imports DbProps PrinterProps PrintCommand CalldProps CalldDialProps
    SemaphProps Philosophers OpenProps CallProps FileWalkProps TtyModes TellWaitProps RwQueue
    ObjTable Popen Connect ErrLog ExecShell SignalShell PtyLoop TtyName Daemon Ruptime
    TimeWrite SigLib ThreadCtl PrintdMain ServerMain OpenClient Deadlock
    Conf FdProto AddrInfo Copy SmallLib Coprocess CondVar SigMask FileTools Pager LockDemo
begin

text \<open>
  \<^bold>\<open>What this library is.\<close>  The repository holds the programs of an APUE course: the sources of
  "Advanced Programming in the UNIX Environment" (\<^verbatim>\<open>apue.2e/\<close>) and five programs of the course
  (\<^verbatim>\<open>Exp_1\<close> to \<^verbatim>\<open>Exp_5\<close>).  The development models the parts that carry logic of their own as HOL
  functions over explicit states and proves what makes them correct, or shows on a run where they are not.

  \<^bold>\<open>Conventions.\<close>  A function of the code that may stop the process has a result of type \<open>'a run\<close>
  (theory \<^verbatim>\<open>Prelude\<close>): \<open>None\<close> is a run that never returns, \<open>die e\<close> one that ends in a fatal error routine, an
  \<^verbatim>\<open>exit\<close>, or undefined behaviour (\<open>Undef\<close>, so that a write behind an array is never hidden), \<open>ret x\<close> one that returns.
  Loops that may not end are \<open>partial_function (option)\<close>, all others are total functions with a measure.  What the kernel
  decides (the pieces in which data arrives, whether a call fails, process numbers, interleavings) is an argument of the
  definitions or a label of a step relation.  Strings are byte lists, NUL-terminated ones are cut by \<open>cstr\<close>
  (theory \<^verbatim>\<open>CText\<close>); integers keep their width where the code depends on it.  The locales state the contracts between the
  parts; every one is interpreted on the model of the code.

  \<^bold>\<open>The parts.\<close>
  \<^item> \<^emph>\<open>Database library\<close> (\<^verbatim>\<open>db/db.c\<close>, \<^verbatim>\<open>db/apue_db.h\<close>, \<^verbatim>\<open>db/t4.c\<close>).  \<^verbatim>\<open>PosixFile\<close>: a file is a byte list with
    \<^verbatim>\<open>pread\<close> and \<^verbatim>\<open>pwrite\<close>.  \<^verbatim>\<open>DbModel\<close>: the record \<open>db\<close> is the \<^verbatim>\<open>DB\<close> structure with its two files; one definition per
    function, on the bytes, with the record locks it takes.  \<^verbatim>\<open>DbIndex\<close>, \<^verbatim>\<open>DbChains\<close>: the bytes represent an abstract
    index whose hash chains and free list are chains of cells (locale \<open>cell_store\<close> of theory \<^verbatim>\<open>Chain\<close>,
    interpretation \<open>dbc\<close>).  \<^verbatim>\<open>DbWrites\<close>, \<^verbatim>\<open>DbOps\<close>: every write and every operation on that index.  \<^verbatim>\<open>DbRefine\<close>,
    \<^verbatim>\<open>DbSpec\<close>: the public operations refine a finite map (locale \<open>kv_store\<close>, interpretation \<open>dbkv\<close>).  \<^verbatim>\<open>DbProps\<close>: the
    properties: any program of stores, fetches and deletes behaves as on the map, \<^verbatim>\<open>db_nextrec\<close> enumerates it, closing and
    reopening keeps it, the locks are held on the chain that is read.
  \<^item> \<^emph>\<open>Print spooler\<close> (\<^verbatim>\<open>ipp/printd.c\<close>, \<^verbatim>\<open>util.c\<close>, \<^verbatim>\<open>print.c\<close>, \<^verbatim>\<open>ipp.h\<close>, \<^verbatim>\<open>print.h\<close>).  \<^verbatim>\<open>IoModel\<close>: \<^verbatim>\<open>readn\<close>, \<^verbatim>\<open>writen\<close>,
    \<^verbatim>\<open>tread\<close>, \<^verbatim>\<open>treadn\<close>, \<^verbatim>\<open>connect_retry\<close> (locale \<open>reader\<close>, interpretations \<open>rread\<close> and \<open>rtread\<close>).  \<^verbatim>\<open>Dll\<close>: doubly
    linked lists in a heap (locale \<open>dll\<close>).  \<^verbatim>\<open>PrintModel\<close>: the record \<open>pd\<close> is the daemon, with the heap of jobs and
    workers and the spool; \<^verbatim>\<open>PrintQueue\<close>: the job list refines a list (interpretations \<open>jobs\<close>, \<open>wrk\<close>);
    \<^verbatim>\<open>PrintClient\<close>, \<^verbatim>\<open>PrintProps\<close>: client threads, job numbers, restart.  \<^verbatim>\<open>PrinterModel\<close>: the printer thread with the IPP and
    HTTP it writes and parses; \<^verbatim>\<open>PrinterStatus\<close>, \<^verbatim>\<open>PrinterProps\<close>: the request is read back by an
    independent parser, which responses are accepted, refused, or make the parser spin.  \<^verbatim>\<open>PrintCommand\<close>: the client.
  \<^item> \<^emph>\<open>Modem dialer\<close> (\<^verbatim>\<open>calld/\<close>, \<^verbatim>\<open>lib/bufargs.c\<close>).  \<^verbatim>\<open>CalldFiles\<close>: arguments and the Systems, Devices and Dialers files.
    \<^verbatim>\<open>CalldModel\<close>: the record \<open>calld\<close> with client table and lock table, requests, \<^verbatim>\<open>SIGCHLD\<close> and the loop.
    \<^verbatim>\<open>CalldLocks\<close>: the lock table as a map (locale \<open>lock_table\<close>, interpretation \<open>devlocks\<close>).  \<^verbatim>\<open>CalldRequest\<close>,
    \<^verbatim>\<open>CalldProps\<close>: the invariant of all reachable states and the race of a hang-up with dialing.  \<^verbatim>\<open>CalldDial\<close>,
    \<^verbatim>\<open>CalldDialProps\<close>: the expect/send dialogue.
  \<^item> \<^emph>\<open>Modem client and open servers\<close> (\<^verbatim>\<open>call/\<close>, \<^verbatim>\<open>open/\<close>, \<^verbatim>\<open>open.fe/\<close>, \<^verbatim>\<open>opend/\<close>, \<^verbatim>\<open>opend.fe/\<close>, \<^verbatim>\<open>lib/sendfd.c\<close>,
    \<^verbatim>\<open>senderr.c\<close>, \<^verbatim>\<open>recvfd.c\<close>).  \<^verbatim>\<open>FdPass\<close>: the two-byte protocol that passes a descriptor, and the words of a request;
    \<^verbatim>\<open>OpenServer\<close>, \<^verbatim>\<open>OpenProps\<close>, \<^verbatim>\<open>CallClient\<close>, \<^verbatim>\<open>CallProps\<close>: what a client asks for is what the server parses, across the
    socket, and the user's terminal while \<^verbatim>\<open>call\<close> runs.  \<^verbatim>\<open>Connect\<close>: \<^verbatim>\<open>serv_listen\<close>, \<^verbatim>\<open>cli_conn\<close>, \<^verbatim>\<open>serv_accept\<close> over one file system.
  \<^item> \<^emph>\<open>Descriptors with credentials and over streams.\<close>  \<^verbatim>\<open>FdProto\<close>: \<^verbatim>\<open>sockets/sendfd2.c\<close>, \<^verbatim>\<open>recvfd2.c\<close> and \<^verbatim>\<open>streams/sendfd.c\<close>,
    \<^verbatim>\<open>recvfd.c\<close>; the three protocols satisfy one contract (locale \<open>fd_protocol\<close>, interpretations \<open>plain_fd\<close>, \<open>cred_fd\<close>, \<open>stream_fd\<close>).
    \<^verbatim>\<open>OpenClient\<close>: the clients of the open servers.  \<^verbatim>\<open>ServerMain\<close>, \<^verbatim>\<open>PrintdMain\<close>: the \<^verbatim>\<open>main\<close> functions of the servers
    and of the spooler, on the models of their parts.
  \<^item> \<^emph>\<open>Pseudo terminals\<close> (\<^verbatim>\<open>pty/\<close>, \<^verbatim>\<open>lib/ptyopen.c\<close>, \<^verbatim>\<open>linux_ptyopen.c\<close>, \<^verbatim>\<open>ptyfork.c\<close>, \<^verbatim>\<open>streams/ptyopen.c\<close>).  \<^verbatim>\<open>FdTable\<close>: descriptor
    tables, shared with the other parts that open and close; \<^verbatim>\<open>PtyOpen\<close>, \<^verbatim>\<open>PtyProps\<close>: the search for a free master, and that the slave is its
    own; \<^verbatim>\<open>PtyFork\<close>: the child on the slave; \<^verbatim>\<open>PtyMain\<close>: options and driver; \<^verbatim>\<open>PtyLoop\<close>: the two processes that copy, as a step relation.
  \<^item> \<^emph>\<open>Names of terminals\<close> (\<^verbatim>\<open>termios/ttyname.c\<close>, \<^verbatim>\<open>ctermid.c\<close>, \<^verbatim>\<open>getpass.c\<close>): \<^verbatim>\<open>TtyName\<close>, a search of the tree of \<^verbatim>\<open>/dev\<close>.
  \<^item> \<^emph>\<open>Daemons and the uptime service\<close> (\<^verbatim>\<open>lib/daemonize.c\<close>, \<^verbatim>\<open>daemons/\<close>, \<^verbatim>\<open>sockets/initsrv1.c\<close>, \<^verbatim>\<open>initsrv2.c\<close>, \<^verbatim>\<open>ruptime*.c\<close>).  \<^verbatim>\<open>Daemon\<close>: the
    process after \<^verbatim>\<open>daemonize\<close>, the lock file of which at most one daemon is the owner, and rereading the configuration; \<^verbatim>\<open>Ruptime\<close>: the sockets, the
    servers and the clients with their \<^verbatim>\<open>main\<close> functions.  \<^verbatim>\<open>AddrInfo\<close>: \<^verbatim>\<open>sockets/findsvc.c\<close>.
  \<^item> \<^emph>\<open>Record locks\<close> (\<^verbatim>\<open>lib/lockreg.c\<close>, \<^verbatim>\<open>locktest.c\<close>, \<^verbatim>\<open>lock/deadlock.c\<close>).  \<^verbatim>\<open>RecordLock\<close>: the kernel's list of regions refines one lock per byte;
    \<^verbatim>\<open>Deadlock\<close>: two processes that lock crosswise, as a step relation; \<^verbatim>\<open>LockDemo\<close>: \<^verbatim>\<open>advio/pendlock.c\<close>
    and \<^verbatim>\<open>lock/mandatory.c\<close>.
  \<^item> \<^emph>\<open>Signals.\<close>  \<^verbatim>\<open>SigLib\<close>: signal sets, \<^verbatim>\<open>system\<close>, \<^verbatim>\<open>abort\<close>, three versions of \<^verbatim>\<open>sleep\<close>; \<^verbatim>\<open>SigMask\<close>: blocked and pending signals in \<^verbatim>\<open>signals/critical.c\<close>, \<^verbatim>\<open>mask.c\<close>,
    \<^verbatim>\<open>suspend1.c\<close>, \<^verbatim>\<open>suspend2.c\<close>; \<^verbatim>\<open>SmallLib\<close>: \<^verbatim>\<open>signal\<close>, \<^verbatim>\<open>signal_intr\<close>, and the small functions of the library on file status flags, exit
    statuses, limits and accounting records.
  \<^item> \<^emph>\<open>Coprocesses and copies.\<close>  \<^verbatim>\<open>Coprocess\<close>: \<^verbatim>\<open>ipc/add2.c\<close>, \<^verbatim>\<open>pipe4.c\<close> and their variants; \<^verbatim>\<open>Pager\<close>: \<^verbatim>\<open>pipe2.c\<close> and \<^verbatim>\<open>popen2.c\<close>;
    \<^verbatim>\<open>Copy\<close>: \<^verbatim>\<open>mycat/\<close> and \<^verbatim>\<open>advio/mcopy.c\<close>;
    \<^verbatim>\<open>TimeWrite\<close>: \<^verbatim>\<open>Exp_1\<close>; \<^verbatim>\<open>Conf\<close>: \<^verbatim>\<open>std/conf.c\<close> and \<^verbatim>\<open>options.c\<close> (locale \<open>report\<close>, interpretations \<open>cr\<close> and \<open>opr\<close>).
  \<^item> \<^emph>\<open>More threads.\<close>  \<^verbatim>\<open>ThreadCtl\<close>: the versions of \<^verbatim>\<open>getenv\<close>, detached threads, \<^verbatim>\<open>timeout\<close>, fork and cleanup handlers; \<^verbatim>\<open>CondVar\<close>: \<^verbatim>\<open>threads/condvar.c\<close> and
    \<^verbatim>\<open>threadctl/suspend.c\<close> as step relations.
  \<^item> \<^emph>\<open>Synchronisation and threads.\<close>  \<^verbatim>\<open>Semaph\<close>, \<^verbatim>\<open>SemaphInv\<close>, \<^verbatim>\<open>SemaphSteps\<close>, \<^verbatim>\<open>SemaphProps\<close>: \<^verbatim>\<open>lib/semaph.c\<close> as a step
    relation of many processes over System V semaphores with undo.  \<^verbatim>\<open>TellWait\<close>, \<^verbatim>\<open>TellWaitProps\<close>: \<^verbatim>\<open>lib/tellwait.c\<close> with
    signals and \<^verbatim>\<open>ipc/tellwait.c\<close> with pipes behind one contract (locale \<open>sync\<close>, interpretations \<open>sg\<close> and \<open>pp\<close>), and three
    programs on it.  \<^verbatim>\<open>RwQueue\<close>: \<^verbatim>\<open>threads/rwlock.c\<close>; \<^verbatim>\<open>ObjTable\<close>: \<^verbatim>\<open>threads/mutex2.c\<close> and \<^verbatim>\<open>mutex3.c\<close>;
    \<^verbatim>\<open>Philosophers\<close>: \<^verbatim>\<open>Exp_4\<close>.
  \<^item> \<^emph>\<open>Files, terminals, processes.\<close>  \<^verbatim>\<open>FileWalk\<close>, \<^verbatim>\<open>FileWalkProps\<close>: \<^verbatim>\<open>file/ftw4.c\<close> and \<^verbatim>\<open>Exp_2\<close>'s \<^verbatim>\<open>myfind\<close>;
    \<^verbatim>\<open>FileTools\<close>: \<^verbatim>\<open>zap.c\<close> and other programs of \<^verbatim>\<open>file/\<close>;
    \<^verbatim>\<open>TtyModes\<close>: \<^verbatim>\<open>lib/ttymodes.c\<close> and its test \<^verbatim>\<open>t_raw.c\<close>; \<^verbatim>\<open>Popen\<close>: \<^verbatim>\<open>lib/popen.c\<close>; \<^verbatim>\<open>ErrLog\<close>: \<^verbatim>\<open>lib/error.c\<close> and \<^verbatim>\<open>errorlog.c\<close>;
    \<^verbatim>\<open>ExecShell\<close>: \<^verbatim>\<open>Exp_3\<close>, \<^verbatim>\<open>proc/shell1.c\<close> and \<^verbatim>\<open>shell2.c\<close>; \<^verbatim>\<open>SignalShell\<close>: \<^verbatim>\<open>Exp_5\<close>.

  \<^bold>\<open>Bounds and fuel.\<close>  Directory walks recurse to a depth that is an argument, and the theorem chooses it above the height of
  the tree.  Buffers have the sizes of the code (\<^verbatim>\<open>MAXLINE\<close> 4096, index records 1024, the printer's 512 bytes), and a theorem
  about a text assumes that it fits exactly where the code does.  The semaphore theorems are for at most \<^verbatim>\<open>BIGCOUNT\<close> =
  10000 processes, because the code counts down from there.  Counters are assumed below \<open>2 ^ 31\<close> where the code has an \<^verbatim>\<open>int\<close>.
  The schedule of \<^verbatim>\<open>advio/devzero.c\<close> has at most four steps per round and 1000 rounds.

  \<^bold>\<open>Defects found.\<close>  Theorems state the behaviour the code has.  Where that is plainly not what was meant, the text before the
  theorem says so: the printer response parser spins when the header ends at the end of the buffer; a hang-up releases the
  line of a child that is still dialing; a time-out in \<^verbatim>\<open>expect_str\<close> is never noticed; \<^verbatim>\<open>WAIT\<close> loses a signal in programs
  that wait more than once; \<^verbatim>\<open>job_remove\<close> leaves the removed job reachable; objects are never entered into the table.

  \<^bold>\<open>Not modelled.\<close>  Programs that only call the library or the system and print the result (most of \<^verbatim>\<open>proc/\<close>, \<^verbatim>\<open>environ/\<close>,
  \<^verbatim>\<open>datafiles/\<close>, \<^verbatim>\<open>exercises/\<close>, \<^verbatim>\<open>file/\<close>, \<^verbatim>\<open>stdio/\<close>) have no state or algorithm to verify.  The files of \<^verbatim>\<open>sockets/\<close> and
  \<^verbatim>\<open>include/\<close> that repeat files of \<^verbatim>\<open>lib/\<close> are modelled once.  Connections over STREAMS pipes (\<^verbatim>\<open>streams/servlisten.c\<close> and its
  neighbours) are single calls of a kernel whose sources are not here.  Inside the modelled parts: debugging output, \<^verbatim>\<open>syslog\<close> itself, memory that is never freed, and
  the wall-clock time that a blocking call takes.
\<close>

end
